(* ===== verification/Prelude.thy ===== *)
theory Prelude
  imports Main "HOL-Library.Word" "HOL-Library.Monad_Syntax"
begin

text \<open>
  Shared vocabulary of the development: the machine integers of the C sources, list
  positions as the tail queues of the sources see them (first, last, next, previous),
  and the pointer-chasing loop that several routines share.

  Conventions used throughout. A C pointer that may be NULL is an \<open>option\<close>.
  A routine that may dereference NULL or loop forever has an \<open>option\<close> result,
  \<open>None\<close> standing for "no defined result"; the theorems show that the result is
  \<open>Some\<close> whenever the component's invariant holds.
\<close>

unbundle bit_operations_syntax

type_synonym u8 = "8 word"
type_synonym u16 = "16 word"
type_synonym u32 = "32 word"
type_synonym u64 = "64 word"
type_synonym bytes = "8 word list"

named_theorems list_pos \<comment> \<open>facts on positions in lists\<close>
named_theorems ptr_simps \<comment> \<open>reads and writes of pointer cells\<close>

section \<open>Positions in a list\<close>

definition first_of :: "'a list \<Rightarrow> 'a option" where
  "first_of xs = (case xs of [] \<Rightarrow> None | x # _ \<Rightarrow> Some x)"

definition last_of :: "'a list \<Rightarrow> 'a option" where
  "last_of xs = (if xs = [] then None else Some (last xs))"

fun next_in :: "'a list \<Rightarrow> 'a \<Rightarrow> 'a option" where
  "next_in [] x = None"
| "next_in (y # ys) x = (if y = x then first_of ys else next_in ys x)"

definition prev_in :: "'a list \<Rightarrow> 'a \<Rightarrow> 'a option" where
  "prev_in xs x = next_in (rev xs) x"

fun insert_before :: "'a \<Rightarrow> 'a \<Rightarrow> 'a list \<Rightarrow> 'a list" where
  "insert_before y x [] = []"
| "insert_before y x (z # zs) = (if z = y then x # z # zs else z # insert_before y x zs)"

fun insert_after :: "'a \<Rightarrow> 'a \<Rightarrow> 'a list \<Rightarrow> 'a list" where
  "insert_after y x [] = []"
| "insert_after y x (z # zs) = (if z = y then z # x # zs else z # insert_after y x zs)"

lemma first_of_simps [simp]:
  "first_of [] = None"
  "first_of (x # xs) = Some x"
  by (simp_all add: first_of_def)

lemma last_of_simps [simp]:
  "last_of [] = None"
  "last_of (xs @ [x]) = Some x"
  by (simp_all add: last_of_def)

lemma first_of_eq_None_iff [simp]: "first_of xs = None \<longleftrightarrow> xs = []"
  by (cases xs) auto

lemma first_of_eq_Some_iff: "first_of xs = Some x \<longleftrightarrow> (\<exists>ys. xs = x # ys)"
  by (cases xs) auto

lemma first_of_append: "first_of (xs @ ys) = (if xs = [] then first_of ys else Some (hd xs))"
  by (cases xs) auto

lemma first_of_rev [simp]: "first_of (rev xs) = last_of xs"
  by (cases xs rule: rev_cases) simp_all

lemma last_of_eq_None_iff [simp]: "last_of xs = None \<longleftrightarrow> xs = []"
  by (simp add: last_of_def)

lemma next_in_split [list_pos]:
  "x \<notin> set xs \<Longrightarrow> next_in (xs @ x # ys) x = first_of ys"
  by (induction xs) auto

lemma next_in_notin [list_pos]: "x \<notin> set xs \<Longrightarrow> next_in xs x = None"
  by (induction xs) auto

lemma prev_in_split [list_pos]:
  "x \<notin> set ys \<Longrightarrow> prev_in (xs @ x # ys) x = last_of xs"
  by (simp add: prev_in_def next_in_split)

lemma next_in_Some_in_set: "next_in xs x = Some y \<Longrightarrow> y \<in> set xs"
  by (induction xs) (auto split: if_splits simp: first_of_eq_Some_iff)

lemma prev_in_Some_in_set: "prev_in xs x = Some y \<Longrightarrow> y \<in> set xs"
  using next_in_Some_in_set [of "rev xs" x y] by (simp add: prev_in_def)

lemma insert_before_split [list_pos]:
  "y \<notin> set xs \<Longrightarrow> insert_before y x (xs @ y # ys) = xs @ x # y # ys"
  by (induction xs) auto

lemma insert_after_split [list_pos]:
  "y \<notin> set xs \<Longrightarrow> insert_after y x (xs @ y # ys) = xs @ y # x # ys"
  by (induction xs) auto

lemma remove1_split [list_pos]:
  "x \<notin> set xs \<Longrightarrow> remove1 x (xs @ x # ys) = xs @ ys"
  by (induction xs) auto

lemma distinct_split:
  assumes "distinct zs" "x \<in> set zs"
  obtains xs ys where "zs = xs @ x # ys" "x \<notin> set xs" "x \<notin> set ys"
    "set xs \<inter> set ys = {}" "distinct xs" "distinct ys"
  using assms by (metis distinct.simps(2) distinct_append disjoint_insert(1) list.simps(15) split_list)

section \<open>The scanning loop \<^verbatim>\<open>while (p != NULL && c(p)) p = NEXT(p)\<close>\<close>

partial_function (option) scan_while ::
  "('a \<Rightarrow> 'a option) \<Rightarrow> ('a \<Rightarrow> bool) \<Rightarrow> 'a option \<Rightarrow> 'a option option" where
  "scan_while nx c p =
     (case p of None \<Rightarrow> Some None
      | Some x \<Rightarrow> if c x then scan_while nx c (nx x) else Some (Some x))"

lemma scan_while_simps [simp]:
  "scan_while nx c None = Some None"
  "scan_while nx c (Some x) = (if c x then scan_while nx c (nx x) else Some (Some x))"
  by (subst scan_while.simps, simp)+

lemma scan_while_suffix:
  assumes "\<And>x. x \<in> set zs \<Longrightarrow> nx x = next_in (pre @ zs) x" "distinct (pre @ zs)"
  shows "scan_while nx c (first_of zs) = Some (first_of (dropWhile c zs))"
  using assms
proof (induction zs arbitrary: pre)
  case Nil
  then show ?case by simp
next
  case (Cons z zs)
  have z: "nx z = first_of zs"
    using Cons.prems by (simp add: next_in_split)
  have "scan_while nx c (first_of zs) = Some (first_of (dropWhile c zs))"
    using Cons.IH [of "pre @ [z]"] Cons.prems by simp
  with z show ?case by simp
qed

section \<open>Option results\<close>

lemma bind_Some_iff:
  "Option.bind m f = Some y \<longleftrightarrow> (\<exists>x. m = Some x \<and> f x = Some y)"
  by (cases m) auto

fun fold_opt :: "('b \<Rightarrow> 'a \<Rightarrow> 'a option) \<Rightarrow> 'b list \<Rightarrow> 'a \<Rightarrow> 'a option" where
  "fold_opt f [] s = Some s"
| "fold_opt f (x # xs) s = Option.bind (f x s) (fold_opt f xs)"

lemma fold_opt_append:
  "fold_opt f (xs @ ys) s = Option.bind (fold_opt f xs s) (fold_opt f ys)"
proof (induction xs arbitrary: s)
  case Nil
  then show ?case by simp
next
  case (Cons x xs)
  then show ?case by (cases "f x s") auto
qed

lemma fold_opt_inv:
  assumes "I s" and "\<And>x s. x \<in> set xs \<Longrightarrow> I s \<Longrightarrow> \<exists>s'. f x s = Some s' \<and> I s'"
  shows "\<exists>s'. fold_opt f xs s = Some s' \<and> I s'"
  using assms
proof (induction xs arbitrary: s)
  case Nil
  then show ?case by simp
next
  case (Cons x xs)
  from Cons.prems(1) Cons.prems(2) [of x s] obtain s' where "f x s = Some s'" "I s'"
    by auto
  moreover from Cons.IH [OF \<open>I s'\<close>] Cons.prems(2)
  have "\<exists>s''. fold_opt f xs s' = Some s'' \<and> I s''" by simp
  ultimately show ?case by simp
qed

section \<open>Words\<close>

lemma xor_right_cancel:
  fixes a b c :: "'a::len word"
  assumes "a XOR b = c XOR b"
  shows "a = c"
proof -
  have "a = (a XOR b) XOR b" by (simp add: xor.assoc)
  also have "\<dots> = (c XOR b) XOR b" using assms by simp
  finally show ?thesis by (simp add: xor.assoc)
qed

lemma xor_eq_0D:
  fixes a b :: "'a::len word"
  shows "a XOR b = 0 \<Longrightarrow> a = b"
  using xor_right_cancel [of a b b] by simp

end
