(* ===== verification/Tailq.thy ===== *)
theory Tailq
  imports Prelude
begin

text \<open>
  The tail queues of \<^verbatim>\<open>usrsctplib/user_queue.h\<close> (the TAILQ macros), at pointer level,
  and the contract their users rely on.

  A queue head holds \<open>tqh_first\<close> and \<open>tqh_last\<close>, the latter the address of the
  last \<open>next\<close> cell. Such an address is a \<open>slot\<close>: the \<open>tqh_first\<close> cell of the head
  or the \<open>tqe_next\<close> cell of an element. The links of the elements are kept in the
  same record, one \<open>tqe_next\<close>/\<open>tqe_prev\<close> pair per element address. The casts of
  \<^verbatim>\<open>TAILQ_LAST\<close> and \<^verbatim>\<open>TAILQ_PREV\<close>, which read a link pair as if it were a head, become
  \<open>second_word\<close>: the word after the cell a slot names. A store through a NULL
  \<open>tqe_prev\<close> has no defined result (\<open>None\<close>).

  \<open>tailq_rep q xs\<close> says that the pointers of \<open>q\<close> form the list \<open>xs\<close>. The locale
  \<open>tail_queue\<close> states what each macro does to that list; its interpretation \<open>tq\<close> proves
  it for the pointer model.
\<close>

section \<open>Pointer model\<close>

datatype 'a slot = Head_first | Next_of 'a

record 'a tailq =
  tqh_first :: "'a option"
  tqh_last :: "'a slot"
  tqe_next :: "'a \<Rightarrow> 'a option"
  tqe_prev :: "'a \<Rightarrow> 'a slot option"

definition deref :: "'a tailq \<Rightarrow> 'a slot \<Rightarrow> 'a option" where
  "deref q s = (case s of Head_first \<Rightarrow> tqh_first q | Next_of e \<Rightarrow> tqe_next q e)"

definition store :: "'a tailq \<Rightarrow> 'a slot \<Rightarrow> 'a option \<Rightarrow> 'a tailq" where
  "store q s v = (case s of Head_first \<Rightarrow> q\<lparr>tqh_first := v\<rparr>
                  | Next_of e \<Rightarrow> q\<lparr>tqe_next := (tqe_next q)(e := v)\<rparr>)"

definition second_word :: "'a tailq \<Rightarrow> 'a slot \<Rightarrow> 'a slot option" where
  "second_word q s = (case s of Head_first \<Rightarrow> Some (tqh_last q) | Next_of e \<Rightarrow> tqe_prev q e)"

definition set_next :: "'a tailq \<Rightarrow> 'a \<Rightarrow> 'a option \<Rightarrow> 'a tailq" where
  "set_next q e v = q\<lparr>tqe_next := (tqe_next q)(e := v)\<rparr>"

definition set_prev :: "'a tailq \<Rightarrow> 'a \<Rightarrow> 'a slot option \<Rightarrow> 'a tailq" where
  "set_prev q e v = q\<lparr>tqe_prev := (tqe_prev q)(e := v)\<rparr>"

definition TAILQ_INIT :: "'a tailq \<Rightarrow> 'a tailq" where
  "TAILQ_INIT q = q\<lparr>tqh_first := None, tqh_last := Head_first\<rparr>"

definition TAILQ_EMPTY :: "'a tailq \<Rightarrow> bool" where
  "TAILQ_EMPTY q \<longleftrightarrow> tqh_first q = None"

definition TAILQ_FIRST :: "'a tailq \<Rightarrow> 'a option" where
  "TAILQ_FIRST q = tqh_first q"

definition TAILQ_NEXT :: "'a tailq \<Rightarrow> 'a \<Rightarrow> 'a option" where
  "TAILQ_NEXT q e = tqe_next q e"

definition TAILQ_LAST :: "'a tailq \<Rightarrow> 'a option option" where
  "TAILQ_LAST q = map_option (deref q) (second_word q (tqh_last q))"

definition TAILQ_PREV :: "'a tailq \<Rightarrow> 'a \<Rightarrow> 'a option option" where
  "TAILQ_PREV q e = do {
     s \<leftarrow> tqe_prev q e;
     t \<leftarrow> second_word q s;
     Some (deref q t)
   }"

definition TAILQ_INSERT_HEAD :: "'a tailq \<Rightarrow> 'a \<Rightarrow> 'a tailq" where
  "TAILQ_INSERT_HEAD q e =
     (let q1 = set_next q e (tqh_first q);
          q2 = (case tqe_next q1 e of
                  Some f \<Rightarrow> set_prev q1 f (Some (Next_of e))
                | None \<Rightarrow> q1\<lparr>tqh_last := Next_of e\<rparr>);
          q3 = q2\<lparr>tqh_first := Some e\<rparr>
      in set_prev q3 e (Some Head_first))"

definition TAILQ_INSERT_TAIL :: "'a tailq \<Rightarrow> 'a \<Rightarrow> 'a tailq" where
  "TAILQ_INSERT_TAIL q e =
     (let q1 = set_next q e None;
          q2 = set_prev q1 e (Some (tqh_last q1));
          q3 = store q2 (tqh_last q2) (Some e)
      in q3\<lparr>tqh_last := Next_of e\<rparr>)"

definition TAILQ_INSERT_AFTER :: "'a tailq \<Rightarrow> 'a \<Rightarrow> 'a \<Rightarrow> 'a tailq" where
  "TAILQ_INSERT_AFTER q l e =
     (let q1 = set_next q e (tqe_next q l);
          q2 = (case tqe_next q1 e of
                  Some f \<Rightarrow> set_prev q1 f (Some (Next_of e))
                | None \<Rightarrow> q1\<lparr>tqh_last := Next_of e\<rparr>);
          q3 = set_next q2 l (Some e)
      in set_prev q3 e (Some (Next_of l)))"

definition TAILQ_INSERT_BEFORE :: "'a tailq \<Rightarrow> 'a \<Rightarrow> 'a \<Rightarrow> 'a tailq option" where
  "TAILQ_INSERT_BEFORE q l e = do {
     let q1 = set_prev q e (tqe_prev q l);
     let q2 = set_next q1 e (Some l);
     s \<leftarrow> tqe_prev q2 l;
     let q3 = store q2 s (Some e);
     Some (set_prev q3 l (Some (Next_of e)))
   }"

definition TAILQ_REMOVE :: "'a tailq \<Rightarrow> 'a \<Rightarrow> 'a tailq option" where
  "TAILQ_REMOVE q e = do {
     q1 \<leftarrow> (case tqe_next q e of
              Some f \<Rightarrow> Some (set_prev q f (tqe_prev q e))
            | None \<Rightarrow> do { s \<leftarrow> tqe_prev q e; Some (q\<lparr>tqh_last := s\<rparr>) });
     s \<leftarrow> tqe_prev q1 e;
     Some (store q1 s (tqe_next q1 e))
   }"

lemmas tailq_ops =
  TAILQ_INIT_def TAILQ_EMPTY_def TAILQ_FIRST_def TAILQ_NEXT_def TAILQ_LAST_def TAILQ_PREV_def
  TAILQ_INSERT_HEAD_def TAILQ_INSERT_TAIL_def TAILQ_INSERT_AFTER_def TAILQ_INSERT_BEFORE_def
  TAILQ_REMOVE_def

section \<open>Representation of a list\<close>

fun seg :: "'a tailq \<Rightarrow> 'a slot \<Rightarrow> 'a list \<Rightarrow> bool" where
  "seg q s [] = True"
| "seg q s (x # xs) = (deref q s = Some x \<and> tqe_prev q x = Some s \<and> seg q (Next_of x) xs)"

definition end_slot :: "'a slot \<Rightarrow> 'a list \<Rightarrow> 'a slot" where
  "end_slot s xs = (if xs = [] then s else Next_of (last xs))"

definition tailq_rep :: "'a tailq \<Rightarrow> 'a list \<Rightarrow> bool" where
  "tailq_rep q xs \<longleftrightarrow>
     distinct xs \<and> seg q Head_first xs \<and> tqh_last q = end_slot Head_first xs \<and>
     deref q (tqh_last q) = None"

lemma end_slot_simps [simp]:
  "end_slot s [] = s"
  "end_slot s (x # xs) = end_slot (Next_of x) xs"
  "end_slot s (xs @ ys) = end_slot (end_slot s xs) ys"
  by (simp_all add: end_slot_def)

lemma seg_append:
  "seg q s (xs @ ys) \<longleftrightarrow> seg q s xs \<and> seg q (end_slot s xs) ys"
  by (induction xs arbitrary: s) auto

lemma slot_reads [ptr_simps]:
  "deref (set_next q e v) s = (if s = Next_of e then v else deref q s)"
  "deref (set_prev q e w) s = deref q s"
  "deref (store q t v) s = (if s = t then v else deref q s)"
  "deref (q\<lparr>tqh_last := l\<rparr>) s = deref q s"
  "deref (q\<lparr>tqh_first := v\<rparr>) s = (if s = Head_first then v else deref q s)"
  by (auto simp: deref_def set_next_def set_prev_def store_def split: slot.splits)

lemma link_reads [ptr_simps]:
  "tqe_next (set_next q e v) x = (if x = e then v else tqe_next q x)"
  "tqe_next (set_prev q e w) = tqe_next q"
  "tqe_prev (set_next q e v) = tqe_prev q"
  "tqe_prev (set_prev q e w) x = (if x = e then w else tqe_prev q x)"
  "tqe_prev (store q t v) = tqe_prev q"
  "tqe_next (store q t v) x = (if t = Next_of x then v else tqe_next q x)"
  by (auto simp: set_next_def set_prev_def store_def split: slot.splits)

lemma head_reads [ptr_simps]:
  "tqh_last (set_next q e v) = tqh_last q"
  "tqh_last (set_prev q e w) = tqh_last q"
  "tqh_last (store q t v) = tqh_last q"
  "tqh_first (set_next q e v) = tqh_first q"
  "tqh_first (set_prev q e w) = tqh_first q"
  "tqh_first (store q t v) = (if t = Head_first then v else tqh_first q)"
  by (auto simp: set_next_def set_prev_def store_def split: slot.splits)

lemma deref_Next [ptr_simps]: "deref q (Next_of x) = tqe_next q x"
  by (simp add: deref_def)

lemma deref_Head [ptr_simps]: "deref q Head_first = tqh_first q"
  by (simp add: deref_def)

text \<open>The segment only depends on the cells it is made of.\<close>

lemma seg_cong:
  assumes "xs \<noteq> [] \<Longrightarrow> deref q' s = deref q s"
    and "\<And>x. x \<in> set (butlast xs) \<Longrightarrow> tqe_next q' x = tqe_next q x"
    and "\<And>x. x \<in> set xs \<Longrightarrow> tqe_prev q' x = tqe_prev q x"
  shows "seg q' s xs \<longleftrightarrow> seg q s xs"
  using assms
proof (induction xs arbitrary: s)
  case Nil
  then show ?case by simp
next
  case (Cons x xs)
  have "seg q' (Next_of x) xs \<longleftrightarrow> seg q (Next_of x) xs"
  proof (rule Cons.IH)
    show "deref q' (Next_of x) = deref q (Next_of x)" if "xs \<noteq> []"
      using Cons.prems(2) [of x] that by (simp add: deref_def)
    show "tqe_next q' y = tqe_next q y" if "y \<in> set (butlast xs)" for y
      using Cons.prems(2) [of y] that by (cases xs) auto
    show "tqe_prev q' y = tqe_prev q y" if "y \<in> set xs" for y
      using Cons.prems(3) [of y] that by simp
  qed
  then show ?case using Cons.prems(1,3) by simp
qed

section \<open>What the macros do to the list\<close>

lemma rep_init: "tailq_rep (TAILQ_INIT q) []"
  by (simp add: tailq_rep_def TAILQ_INIT_def deref_def)

lemma rep_first:
  assumes "tailq_rep q xs"
  shows "TAILQ_FIRST q = first_of xs"
  using assms by (cases xs) (auto simp: tailq_rep_def TAILQ_FIRST_def deref_def)

lemma rep_empty: "tailq_rep q xs \<Longrightarrow> TAILQ_EMPTY q \<longleftrightarrow> xs = []"
  using rep_first [of q xs] by (simp add: TAILQ_EMPTY_def TAILQ_FIRST_def)

lemma rep_next:
  assumes "tailq_rep q zs" "x \<in> set zs"
  shows "TAILQ_NEXT q x = next_in zs x"
proof -
  from assms have "distinct zs" by (simp add: tailq_rep_def)
  then obtain xs ys where zs: "zs = xs @ x # ys" "x \<notin> set xs"
    using assms(2) by (rule distinct_split)
  have "seg q (Next_of x) ys" "deref q (end_slot (Next_of x) ys) = None"
    using assms(1) by (auto simp: tailq_rep_def zs seg_append)
  then have "tqe_next q x = first_of ys"
    by (cases ys) (auto simp: ptr_simps)
  then show ?thesis
    by (simp add: TAILQ_NEXT_def zs next_in_split)
qed

lemma rep_prev_cell:
  assumes "tailq_rep q (xs @ x # ys)"
  shows "tqe_prev q x = Some (end_slot Head_first xs)"
  using assms by (simp add: tailq_rep_def seg_append)

lemma rep_linked: "tailq_rep q zs \<Longrightarrow> x \<in> set zs \<Longrightarrow> tqe_prev q x \<noteq> None"
  by (metis option.distinct(1) rep_prev_cell split_list)

text \<open>The word after an end slot leads back to the last element of the segment.\<close>

lemma rep_back:
  assumes "tailq_rep q (xs @ ys)"
  shows "map_option (deref q) (second_word q (end_slot Head_first xs)) = Some (last_of xs)"
proof (cases xs rule: rev_cases)
  case Nil
  then show ?thesis
    using assms by (auto simp: tailq_rep_def second_word_def)
next
  case (snoc us u)
  then have "seg q (end_slot Head_first us) (u # ys)"
    using assms by (simp add: tailq_rep_def seg_append)
  then show ?thesis by (simp add: snoc second_word_def)
qed

lemma rep_last:
  assumes "tailq_rep q xs"
  shows "TAILQ_LAST q = Some (last_of xs)"
  using rep_back [of q xs "[]"] assms by (auto simp: TAILQ_LAST_def tailq_rep_def)

lemma rep_prev:
  assumes "tailq_rep q zs" "x \<in> set zs"
  shows "TAILQ_PREV q x = Some (prev_in zs x)"
proof -
  from assms have "distinct zs" by (simp add: tailq_rep_def)
  then obtain xs ys where zs: "zs = xs @ x # ys" "x \<notin> set ys"
    using assms(2) by (rule distinct_split)
  have "tqe_prev q x = Some (end_slot Head_first xs)"
    using rep_prev_cell assms(1) zs by simp
  moreover have "map_option (deref q) (second_word q (end_slot Head_first xs)) = Some (last_of xs)"
    using rep_back [of q xs "x # ys"] assms(1) zs by simp
  ultimately show ?thesis
    by (auto simp: TAILQ_PREV_def zs prev_in_split)
qed

lemma rep_insert_tail:
  assumes "tailq_rep q xs" "x \<notin> set xs"
  shows "tailq_rep (TAILQ_INSERT_TAIL q x) (xs @ [x])"
proof -
  let ?q = "TAILQ_INSERT_TAIL q x"
  have last: "tqh_last q = end_slot Head_first xs"
    using assms(1) by (simp add: tailq_rep_def)
  have fresh: "end_slot Head_first xs \<noteq> Next_of x"
    using assms(2) by (cases xs rule: rev_cases) auto
  have "seg ?q Head_first xs \<longleftrightarrow> seg q Head_first xs"
    using assms(2)
    by (cases xs rule: rev_cases)
      (rule seg_cong; use assms in \<open>auto simp: TAILQ_INSERT_TAIL_def ptr_simps last tailq_rep_def\<close>)+
  moreover have "deref ?q (end_slot Head_first xs) = Some x"
    "tqe_prev ?q x = Some (end_slot Head_first xs)" "deref ?q (Next_of x) = None"
    using fresh by (auto simp: TAILQ_INSERT_TAIL_def ptr_simps last Let_def)
  ultimately show ?thesis
    using assms by (simp add: tailq_rep_def seg_append) (simp add: TAILQ_INSERT_TAIL_def Let_def)
qed

text \<open>
  Splicing one element into a segment: the common core of the three other insertions.
\<close>

lemma rep_splice:
  assumes rep: "tailq_rep q (xs @ ys)" and x: "x \<notin> set xs" "x \<notin> set ys"
    and new: "deref q' (end_slot Head_first xs) = Some x" "tqe_next q' x = first_of ys"
      "tqe_prev q' x = Some (end_slot Head_first xs)"
      "ys \<noteq> [] \<Longrightarrow> tqe_prev q' (hd ys) = Some (Next_of x)"
    and same: "\<And>y. y \<noteq> x \<Longrightarrow> Next_of y \<noteq> end_slot Head_first xs \<Longrightarrow> tqe_next q' y = tqe_next q y"
      "\<And>y. y \<noteq> x \<Longrightarrow> Some y \<noteq> first_of ys \<Longrightarrow> tqe_prev q' y = tqe_prev q y"
      "end_slot Head_first xs \<noteq> Head_first \<Longrightarrow> tqh_first q' = tqh_first q"
    and last: "tqh_last q' = end_slot (Next_of x) ys"
  shows "tailq_rep q' (xs @ x # ys)"
proof -
  have d: "distinct (xs @ ys)" and segs: "seg q Head_first xs" "seg q (end_slot Head_first xs) ys"
    and nil: "deref q (end_slot Head_first (xs @ ys)) = None"
    using rep by (auto simp: tailq_rep_def seg_append)
  have "seg q' Head_first xs \<longleftrightarrow> seg q Head_first xs"
  proof (rule seg_cong)
    show "deref q' Head_first = deref q Head_first" if "xs \<noteq> []"
      using same(3) that by (simp add: ptr_simps end_slot_def)
    show "tqe_next q' y = tqe_next q y" if "y \<in> set (butlast xs)" for y
    proof (rule same(1))
      show "y \<noteq> x" using that x by (meson in_set_butlastD)
      show "Next_of y \<noteq> end_slot Head_first xs"
        using that d by (cases xs rule: rev_cases) auto
    qed
    show "tqe_prev q' y = tqe_prev q y" if "y \<in> set xs" for y
      using that x d by (intro same(2)) (auto simp: first_of_def split: list.splits)
  qed
  moreover have "seg q' (Next_of x) ys"
  proof (cases ys)
    case (Cons y zs)
    have "seg q' (Next_of y) zs \<longleftrightarrow> seg q (Next_of y) zs"
    proof (rule seg_cong)
      have ny: "Next_of z \<noteq> end_slot Head_first xs" if "z \<in> set ys" for z
        using that d by (cases xs rule: rev_cases) auto
      show "deref q' (Next_of y) = deref q (Next_of y)"
        using same(1) [of y] ny [of y] x Cons by (auto simp: ptr_simps)
      show "tqe_next q' z = tqe_next q z" if "z \<in> set (butlast zs)" for z
        using that same(1) [of z] ny [of z] x Cons by (auto dest: in_set_butlastD)
      show "tqe_prev q' z = tqe_prev q z" if "z \<in> set zs" for z
        using that same(2) [of z] x d Cons by auto
    qed
    then show ?thesis using segs(2) new Cons by (simp add: ptr_simps)
  qed simp
  moreover have "deref q' (end_slot (Next_of x) ys) = None"
  proof (cases ys rule: rev_cases)
    case Nil
    then show ?thesis using new by (simp add: ptr_simps)
  next
    case (snoc zs z)
    then have "Next_of z \<noteq> end_slot Head_first xs"
      using d by (auto simp: end_slot_def)
    then show ?thesis using nil same(1) [of z] x snoc by (auto simp: ptr_simps)
  qed
  ultimately show ?thesis
    using new segs d x last by (simp add: tailq_rep_def seg_append)
qed

lemma rep_last_cell: "tailq_rep q xs \<Longrightarrow> tqh_last q = end_slot Head_first xs"
  by (simp add: tailq_rep_def)

lemma rep_insert_head:
  assumes "tailq_rep q xs" "x \<notin> set xs"
  shows "tailq_rep (TAILQ_INSERT_HEAD q x) (x # xs)"
proof -
  have f: "tqh_first q = first_of xs"
    using rep_first [OF assms(1)] by (simp add: TAILQ_FIRST_def)
  have "tailq_rep (TAILQ_INSERT_HEAD q x) ([] @ x # xs)"
    using assms rep_last_cell [OF assms(1)]
    by (intro rep_splice [of q "[]" xs])
      (auto simp: TAILQ_INSERT_HEAD_def ptr_simps f Let_def first_of_def split: option.splits list.splits)
  then show ?thesis by simp
qed

lemma rep_insert_before:
  assumes "tailq_rep q zs" "x \<notin> set zs" "l \<in> set zs"
  shows "\<exists>q'. TAILQ_INSERT_BEFORE q l x = Some q' \<and> tailq_rep q' (insert_before l x zs)"
proof -
  from assms have "distinct zs" by (simp add: tailq_rep_def)
  then obtain xs ys where zs: "zs = xs @ l # ys" "l \<notin> set xs"
    using assms(3) by (rule distinct_split)
  have p: "tqe_prev q l = Some (end_slot Head_first xs)"
    using rep_prev_cell assms(1) zs by simp
  have ne: "x \<noteq> l" "end_slot Head_first xs \<noteq> Next_of x" "end_slot Head_first xs \<noteq> Next_of l"
    using assms(2) zs by (auto simp: end_slot_def)
  obtain q' where q': "TAILQ_INSERT_BEFORE q l x = Some q'"
    using p ne by (simp add: TAILQ_INSERT_BEFORE_def ptr_simps)
  have "tailq_rep q' (xs @ x # l # ys)"
    using assms zs q' p ne rep_last_cell [OF assms(1)]
    by (intro rep_splice [of q xs "l # ys"]) (auto simp: TAILQ_INSERT_BEFORE_def ptr_simps)
  then show ?thesis using q' zs by (simp add: insert_before_split)
qed

lemma rep_insert_after:
  assumes "tailq_rep q zs" "x \<notin> set zs" "l \<in> set zs"
  shows "tailq_rep (TAILQ_INSERT_AFTER q l x) (insert_after l x zs)"
proof -
  from assms have "distinct zs" by (simp add: tailq_rep_def)
  then obtain xs ys where zs: "zs = xs @ l # ys" "l \<notin> set xs" "l \<notin> set ys"
    using assms(3) by (rule distinct_split)
  have n: "tqe_next q l = first_of ys"
    using rep_next [OF assms(1,3)] zs by (simp add: TAILQ_NEXT_def next_in_split)
  have "tailq_rep (TAILQ_INSERT_AFTER q l x) ((xs @ [l]) @ x # ys)"
    using assms zs rep_last_cell [OF assms(1)]
    by (intro rep_splice [of q "xs @ [l]" ys])
      (auto simp: TAILQ_INSERT_AFTER_def ptr_simps n Let_def first_of_def split: option.splits list.splits)
  then show ?thesis using zs by (simp add: insert_after_split)
qed

lemma rep_remove_split:
  assumes rep: "tailq_rep q (xs @ x # ys)"
  shows "\<exists>q'. TAILQ_REMOVE q x = Some q' \<and> tailq_rep q' (xs @ ys)"
proof -
  let ?s = "end_slot Head_first xs"
  have d: "distinct (xs @ x # ys)" and segs: "seg q Head_first xs" "seg q (Next_of x) ys"
    and nil: "deref q (end_slot (Next_of x) ys) = None"
    and p: "tqe_prev q x = Some ?s" and last: "tqh_last q = end_slot (Next_of x) ys"
    using rep by (auto simp: tailq_rep_def seg_append)
  have n: "tqe_next q x = first_of ys"
    using rep_next [OF rep, of x] d by (simp add: TAILQ_NEXT_def next_in_split)
  have sx: "?s \<noteq> Next_of x" using d by (auto simp: end_slot_def)
  obtain q' where q': "TAILQ_REMOVE q x = Some q'"
    using n p d by (cases ys) (auto simp: TAILQ_REMOVE_def ptr_simps)
  have cells: "deref q' t = (if t = ?s then first_of ys else deref q t)" for t
    using q' n p d sx by (cases ys) (auto simp: TAILQ_REMOVE_def ptr_simps)
  have prevs: "tqe_prev q' y = (if Some y = first_of ys then Some ?s else tqe_prev q y)" for y
    using q' n p d by (cases ys) (auto simp: TAILQ_REMOVE_def ptr_simps)
  have lst: "tqh_last q' = end_slot ?s ys"
    using q' n p d last by (cases ys) (auto simp: TAILQ_REMOVE_def ptr_simps)
  have "seg q' Head_first xs \<longleftrightarrow> seg q Head_first xs"
  proof (rule seg_cong)
    show "tqe_next q' y = tqe_next q y" if "y \<in> set (butlast xs)" for y
      using that d cells [of "Next_of y"]
      by (cases xs rule: rev_cases) (auto simp: ptr_simps)
  qed (use cells prevs d in \<open>auto simp: end_slot_def first_of_def split: list.splits if_splits\<close>)
  moreover have "seg q' ?s ys"
  proof (cases ys)
    case (Cons y zs)
    have ny: "Next_of z \<noteq> ?s" if "z \<in> set ys" for z
      using that d by (cases xs rule: rev_cases) auto
    have "seg q' (Next_of y) zs \<longleftrightarrow> seg q (Next_of y) zs"
    proof (rule seg_cong)
      show "tqe_next q' z = tqe_next q z" if "z \<in> set (butlast zs)" for z
        using that cells [of "Next_of z"] ny [of z] Cons by (auto simp: ptr_simps dest: in_set_butlastD)
    qed (use cells prevs ny d Cons in auto)
    then show ?thesis using segs Cons cells prevs by simp
  qed simp
  moreover have "deref q' (end_slot ?s ys) = None"
    using cells nil d by (cases ys rule: rev_cases) (auto simp: end_slot_def)
  ultimately show ?thesis
    using q' d segs lst by (auto simp: tailq_rep_def seg_append end_slot_def)
qed

lemma rep_remove:
  assumes "tailq_rep q zs" "x \<in> set zs"
  shows "\<exists>q'. TAILQ_REMOVE q x = Some q' \<and> tailq_rep q' (remove1 x zs)"
proof -
  from assms have "distinct zs" by (simp add: tailq_rep_def)
  then obtain xs ys where "zs = xs @ x # ys" "x \<notin> set xs"
    using assms(2) by (rule distinct_split)
  then show ?thesis using rep_remove_split assms(1) by (metis remove1_split)
qed

section \<open>Links of elements outside the queue\<close>

text \<open>
  The users test \<^verbatim>\<open>tqe_next == NULL && tqe_prev == NULL\<close> to find out whether an element is
  queued. That works as long as the links of every element outside the queue are NULL,
  which the macros keep except \<^verbatim>\<open>TAILQ_REMOVE\<close>: it leaves the removed element's links.
\<close>

definition linked :: "'a tailq \<Rightarrow> 'a \<Rightarrow> bool" where
  "linked q x \<longleftrightarrow> tqe_next q x \<noteq> None \<or> tqe_prev q x \<noteq> None"

definition unlink :: "'a tailq \<Rightarrow> 'a \<Rightarrow> 'a tailq" where
  "unlink q x = set_prev (set_next q x None) x None"

definition same_links :: "'a tailq \<Rightarrow> 'a tailq \<Rightarrow> 'a set \<Rightarrow> bool" where
  "same_links q q' A \<longleftrightarrow>
     (\<forall>y. y \<notin> A \<longrightarrow> tqe_next q' y = tqe_next q y \<and> tqe_prev q' y = tqe_prev q y)"

lemma same_linksD: "same_links q q' A \<Longrightarrow> y \<notin> A \<Longrightarrow> linked q' y \<longleftrightarrow> linked q y"
  by (simp add: same_links_def linked_def)

lemma links_init: "same_links q (TAILQ_INIT q) {}"
  by (simp add: same_links_def TAILQ_INIT_def)

lemma links_insert_tail:
  assumes "tailq_rep q xs"
  shows "same_links q (TAILQ_INSERT_TAIL q x) (insert x (set xs))"
  using assms
  by (cases xs rule: rev_cases)
    (auto simp: same_links_def TAILQ_INSERT_TAIL_def ptr_simps tailq_rep_def Let_def)

lemma links_insert_head:
  assumes "tailq_rep q xs"
  shows "same_links q (TAILQ_INSERT_HEAD q x) (insert x (set xs))"
  using rep_first [OF assms]
  by (cases xs) (auto simp: same_links_def TAILQ_INSERT_HEAD_def TAILQ_FIRST_def ptr_simps Let_def)

lemma links_insert_before:
  assumes "tailq_rep q zs" "l \<in> set zs" "TAILQ_INSERT_BEFORE q l x = Some q'"
  shows "same_links q q' (insert x (set zs))"
proof -
  obtain xs ys where zs: "zs = xs @ l # ys"
    using assms(2) by (meson split_list)
  have "tqe_prev q l = Some (end_slot Head_first xs)"
    using rep_prev_cell assms(1) zs by simp
  then show ?thesis
    using assms(3)
    by (cases xs rule: rev_cases)
      (auto simp: same_links_def TAILQ_INSERT_BEFORE_def ptr_simps zs split: if_splits)
qed

lemma links_remove:
  assumes "tailq_rep q zs" "x \<in> set zs" "TAILQ_REMOVE q x = Some q'"
  shows "same_links q q' (set zs - {x})"
proof -
  have "distinct zs" using assms(1) by (simp add: tailq_rep_def)
  then obtain xs ys where zs: "zs = xs @ x # ys" "x \<notin> set xs" "x \<notin> set ys"
    using assms(2) by (rule distinct_split)
  have "tqe_prev q x = Some (end_slot Head_first xs)"
    using rep_prev_cell assms(1) zs by simp
  moreover have "tqe_next q x = first_of ys"
    using rep_next [OF assms(1,2)] zs by (simp add: TAILQ_NEXT_def next_in_split)
  ultimately show ?thesis
    using assms(3) zs
    by (cases xs rule: rev_cases; cases ys)
      (auto simp: same_links_def TAILQ_REMOVE_def ptr_simps zs)
qed

lemma rep_unlink:
  assumes "tailq_rep q xs" "x \<notin> set xs"
  shows "tailq_rep (unlink q x) xs"
proof -
  have "seg (unlink q x) Head_first xs \<longleftrightarrow> seg q Head_first xs"
    using assms(2) by (intro seg_cong) (auto simp: unlink_def ptr_simps dest: in_set_butlastD)
  moreover have "end_slot Head_first xs \<noteq> Next_of x"
    using assms(2) by (cases xs rule: rev_cases) auto
  ultimately show ?thesis
    using assms by (auto simp: tailq_rep_def) (auto simp: unlink_def ptr_simps)
qed

lemma links_unlink: "same_links q (unlink q x) {x}" "\<not> linked (unlink q x) x"
  by (auto simp: same_links_def unlink_def linked_def ptr_simps)

section \<open>The contract of a tail queue\<close>

text \<open>
  What a client of the macros relies on: the list a queue stands for, and which elements
  have links. The loops that clients run over a queue are treated once, here.
\<close>

locale tail_queue =
  fixes repr :: "'q \<Rightarrow> 'a list \<Rightarrow> bool"
    and frame :: "'q \<Rightarrow> 'q \<Rightarrow> 'a set \<Rightarrow> bool"
    and queued :: "'q \<Rightarrow> 'a \<Rightarrow> bool"
    and q_init :: "'q \<Rightarrow> 'q"
    and q_empty :: "'q \<Rightarrow> bool"
    and q_first :: "'q \<Rightarrow> 'a option"
    and q_next :: "'q \<Rightarrow> 'a \<Rightarrow> 'a option"
    and q_last :: "'q \<Rightarrow> 'a option option"
    and q_prev :: "'q \<Rightarrow> 'a \<Rightarrow> 'a option option"
    and ins_head :: "'q \<Rightarrow> 'a \<Rightarrow> 'q"
    and ins_tail :: "'q \<Rightarrow> 'a \<Rightarrow> 'q"
    and ins_before :: "'q \<Rightarrow> 'a \<Rightarrow> 'a \<Rightarrow> 'q option"
    and rem :: "'q \<Rightarrow> 'a \<Rightarrow> 'q option"
    and clear_links :: "'q \<Rightarrow> 'a \<Rightarrow> 'q"
  assumes repr_distinct: "repr q xs \<Longrightarrow> distinct xs"
    and repr_queued: "repr q xs \<Longrightarrow> x \<in> set xs \<Longrightarrow> queued q x"
    and frame_queued: "frame q q' A \<Longrightarrow> x \<notin> A \<Longrightarrow> queued q' x \<longleftrightarrow> queued q x"
    and frame_next: "frame q q' A \<Longrightarrow> x \<notin> A \<Longrightarrow> q_next q' x = q_next q x"
    and not_queued_next: "\<not> queued q x \<Longrightarrow> q_next q x = None"
    and init_repr: "repr (q_init q) []" "frame q (q_init q) {}"
    and empty_repr: "repr q xs \<Longrightarrow> q_empty q \<longleftrightarrow> xs = []"
    and first_repr: "repr q xs \<Longrightarrow> q_first q = first_of xs"
    and next_repr: "repr q xs \<Longrightarrow> x \<in> set xs \<Longrightarrow> q_next q x = next_in xs x"
    and last_repr: "repr q xs \<Longrightarrow> q_last q = Some (last_of xs)"
    and prev_repr: "repr q xs \<Longrightarrow> x \<in> set xs \<Longrightarrow> q_prev q x = Some (prev_in xs x)"
    and ins_head_repr: "repr q xs \<Longrightarrow> x \<notin> set xs \<Longrightarrow> repr (ins_head q x) (x # xs)"
      "repr q xs \<Longrightarrow> frame q (ins_head q x) (insert x (set xs))"
    and ins_tail_repr: "repr q xs \<Longrightarrow> x \<notin> set xs \<Longrightarrow> repr (ins_tail q x) (xs @ [x])"
      "repr q xs \<Longrightarrow> frame q (ins_tail q x) (insert x (set xs))"
    and ins_before_repr: "repr q xs \<Longrightarrow> x \<notin> set xs \<Longrightarrow> l \<in> set xs \<Longrightarrow>
      \<exists>q'. ins_before q l x = Some q' \<and> repr q' (insert_before l x xs) \<and>
        frame q q' (insert x (set xs))"
    and rem_repr: "repr q xs \<Longrightarrow> x \<in> set xs \<Longrightarrow>
      \<exists>q'. rem q x = Some q' \<and> repr q' (remove1 x xs) \<and> frame q q' (set xs - {x})"
    and clear_links_repr: "repr q xs \<Longrightarrow> x \<notin> set xs \<Longrightarrow> repr (clear_links q x) xs"
      "frame q (clear_links q x) {x}" "\<not> queued (clear_links q x) x"
begin

text \<open>Queues whose outside elements all have NULL links: being queued is being linked.\<close>

definition tidy :: "'q \<Rightarrow> 'a list \<Rightarrow> bool" where
  "tidy q xs \<longleftrightarrow> repr q xs \<and> (\<forall>x. queued q x \<longrightarrow> x \<in> set xs)"

lemma tidyD: "tidy q xs \<Longrightarrow> repr q xs"
  by (simp add: tidy_def)

lemma tidy_queued_iff: "tidy q xs \<Longrightarrow> queued q x \<longleftrightarrow> x \<in> set xs"
  using repr_queued by (auto simp: tidy_def)

lemma tidy_frame:
  assumes "tidy q xs" "repr q' ys" "frame q q' A" "A \<subseteq> set ys" "set xs - A \<subseteq> set ys"
  shows "tidy q' ys"
  using assms frame_queued [OF assms(3)] by (auto simp: tidy_def)

lemma tidy_ins_head: "tidy q xs \<Longrightarrow> \<not> queued q x \<Longrightarrow> tidy (ins_head q x) (x # xs)"
  by (rule tidy_frame [of q xs "ins_head q x" _ "insert x (set xs)"])
    (auto simp: tidy_queued_iff tidyD ins_head_repr)

lemma tidy_ins_tail: "tidy q xs \<Longrightarrow> \<not> queued q x \<Longrightarrow> tidy (ins_tail q x) (xs @ [x])"
  by (rule tidy_frame [of q xs "ins_tail q x" _ "insert x (set xs)"])
    (auto simp: tidy_queued_iff tidyD ins_tail_repr)

lemma set_insert_before: "l \<in> set xs \<Longrightarrow> set (insert_before l x xs) = insert x (set xs)"
  by (induction xs) auto

lemma tidy_ins_before:
  assumes "tidy q xs" "\<not> queued q x" "l \<in> set xs"
  shows "\<exists>q'. ins_before q l x = Some q' \<and> tidy q' (insert_before l x xs)"
proof -
  obtain q' where q': "ins_before q l x = Some q'" "repr q' (insert_before l x xs)"
    "frame q q' (insert x (set xs))"
    using ins_before_repr [of q xs x l] assms by (auto simp: tidyD tidy_queued_iff)
  then have "tidy q' (insert_before l x xs)"
    using tidy_frame [OF assms(1), of q' "insert_before l x xs" "insert x (set xs)"] assms(3)
    by (auto simp: set_insert_before)
  with q' show ?thesis by blast
qed

lemma tidy_rem_clear:
  assumes "tidy q xs" "x \<in> set xs"
  shows "\<exists>q'. rem q x = Some q' \<and> tidy (clear_links q' x) (remove1 x xs)"
proof -
  obtain q' where q': "rem q x = Some q'" "repr q' (remove1 x xs)" "frame q q' (set xs - {x})"
    using rem_repr tidyD assms by blast
  have x: "x \<notin> set (remove1 x xs)"
    using repr_distinct [OF tidyD [OF assms(1)]] by simp
  have "y \<in> set (remove1 x xs)" if "queued (clear_links q' x) y" for y
  proof -
    have "y \<noteq> x" using that clear_links_repr(3) by auto
    then have "queued q' y" using that frame_queued [OF clear_links_repr(2)] by auto
    then have "y \<in> set xs" using assms(1) frame_queued [OF q'(3)] by (auto simp: tidy_def)
    then show ?thesis using \<open>y \<noteq> x\<close> by simp
  qed
  then show ?thesis using q' x clear_links_repr(1) by (auto simp: tidy_def)
qed

lemma tidy_init: "tidy q [] \<Longrightarrow> tidy (q_init q) []"
  using tidy_frame [of q "[]" "q_init q" "[]" "{}"] init_repr by simp

text \<open>The scanning loop from the head, and the ordered insertion built on it.\<close>

lemma scan_repr:
  assumes "repr q xs"
  shows "scan_while (q_next q) c (q_first q) = Some (first_of (dropWhile c xs))"
  using scan_while_suffix [of xs "q_next q" "[]"] assms
  by (simp add: first_repr next_repr repr_distinct)

lemma insert_before_dropWhile:
  assumes "distinct xs" "first_of (dropWhile c xs) = Some l"
  shows "insert_before l x xs = takeWhile c xs @ x # dropWhile c xs"
proof -
  from assms(2) obtain ys where ys: "dropWhile c xs = l # ys"
    by (auto simp: first_of_eq_Some_iff)
  then have "xs = takeWhile c xs @ l # ys"
    by (metis takeWhile_dropWhile_id)
  moreover from this assms(1) have "l \<notin> set (takeWhile c xs)"
    by (metis disjoint_iff distinct_append list.set_intros(1))
  ultimately show ?thesis using ys insert_before_split by metis
qed

lemma ordered_insert:
  assumes "tidy q xs" "\<not> queued q x"
  shows "\<exists>q'. do { p \<leftarrow> scan_while (q_next q) c (q_first q);
                   case p of Some l \<Rightarrow> ins_before q l x | None \<Rightarrow> Some (ins_tail q x) } = Some q'
              \<and> tidy q' (takeWhile c xs @ x # dropWhile c xs)"
proof (cases "dropWhile c xs")
  case Nil
  then have "takeWhile c xs = xs" by (metis append_Nil2 takeWhile_dropWhile_id)
  moreover have "scan_while (q_next q) c (q_first q) = Some None"
    using scan_repr [OF tidyD [OF assms(1)], of c] Nil by simp
  ultimately show ?thesis
    using Nil assms by (simp only: bind.simps option.case) (simp add: tidy_ins_tail)
next
  case (Cons l ys)
  then have "l \<in> set xs" by (metis list.set_intros(1) set_dropWhileD)
  then obtain q' where q': "ins_before q l x = Some q'" "tidy q' (insert_before l x xs)"
    using tidy_ins_before assms by blast
  moreover have "insert_before l x xs = takeWhile c xs @ x # dropWhile c xs"
    using repr_distinct [OF tidyD [OF assms(1)]] Cons by (intro insert_before_dropWhile) auto
  ultimately show ?thesis
    using Cons assms by (simp add: scan_repr [OF tidyD])
qed

end

interpretation tq: tail_queue tailq_rep same_links linked TAILQ_INIT TAILQ_EMPTY TAILQ_FIRST
  TAILQ_NEXT TAILQ_LAST TAILQ_PREV TAILQ_INSERT_HEAD TAILQ_INSERT_TAIL TAILQ_INSERT_BEFORE
  TAILQ_REMOVE unlink
proof (unfold_locales, goal_cases)
  case 1 then show ?case by (simp add: tailq_rep_def)
next
  case 2 then show ?case using rep_linked by (fastforce simp: linked_def)
next
  case 3 then show ?case by (rule same_linksD)
next
  case 4 then show ?case by (simp add: same_links_def TAILQ_NEXT_def)
next
  case 5 then show ?case by (simp add: linked_def TAILQ_NEXT_def)
next
  case 17 then show ?case using rep_insert_before links_insert_before by metis
next
  case 18 then show ?case using rep_remove links_remove by metis
qed (simp_all add: rep_init links_init rep_empty rep_first rep_next rep_last rep_prev
  rep_insert_head links_insert_head rep_insert_tail links_insert_tail rep_unlink links_unlink)

section \<open>Programs of queue operations\<close>

datatype 'a tq_op =
  Insert_head 'a
| Insert_tail 'a
| Insert_after 'a 'a
| Insert_before 'a 'a
| Remove 'a

definition run_op :: "'a tq_op \<Rightarrow> 'a tailq \<Rightarrow> 'a tailq option" where
  "run_op c q =
     (case c of
        Insert_head x \<Rightarrow> Some (TAILQ_INSERT_HEAD q x)
      | Insert_tail x \<Rightarrow> Some (TAILQ_INSERT_TAIL q x)
      | Insert_after l x \<Rightarrow> Some (TAILQ_INSERT_AFTER q l x)
      | Insert_before l x \<Rightarrow> TAILQ_INSERT_BEFORE q l x
      | Remove x \<Rightarrow> TAILQ_REMOVE q x)"

text \<open>The same operations on lists; \<open>None\<close> marks a use the macros do not allow.\<close>

definition list_op :: "'a tq_op \<Rightarrow> 'a list \<Rightarrow> 'a list option" where
  "list_op c xs =
     (case c of
        Insert_head x \<Rightarrow> if x \<in> set xs then None else Some (x # xs)
      | Insert_tail x \<Rightarrow> if x \<in> set xs then None else Some (xs @ [x])
      | Insert_after l x \<Rightarrow> if x \<in> set xs \<or> l \<notin> set xs then None else Some (insert_after l x xs)
      | Insert_before l x \<Rightarrow> if x \<in> set xs \<or> l \<notin> set xs then None else Some (insert_before l x xs)
      | Remove x \<Rightarrow> if x \<in> set xs then Some (remove1 x xs) else None)"

lemma run_op_refines:
  assumes "tailq_rep q xs" "list_op c xs = Some ys"
  shows "\<exists>q'. run_op c q = Some q' \<and> tailq_rep q' ys"
  using assms
  by (cases c) (auto simp: run_op_def list_op_def rep_insert_head rep_insert_tail rep_insert_after
      rep_insert_before rep_remove split: if_splits)

lemma run_ops_refine:
  "tailq_rep q xs \<Longrightarrow> fold_opt list_op cs xs = Some ys \<Longrightarrow> \<exists>q'. fold_opt run_op cs q = Some q' \<and> tailq_rep q' ys"
proof (induction cs arbitrary: q xs)
  case (Cons c cs)
  then obtain zs where zs: "list_op c xs = Some zs" "fold_opt list_op cs zs = Some ys"
    by (auto simp: bind_Some_iff)
  obtain q1 where "run_op c q = Some q1" "tailq_rep q1 zs"
    using run_op_refines [OF Cons.prems(1) zs(1)] by blast
  then show ?case using Cons.IH [OF _ zs(2)] by simp
qed simp

text \<open>C1. The tail-queue macros implement lists. Every sequence of head, tail, after and before
  insertions and removals that is legal on a list (no element inserted twice, anchors and removed
  elements present) runs on the pointer structure without following a NULL back link, ends in a
  well-formed queue for exactly the resulting list, and there the first, last, next and previous
  macros return the list's neighbours.\<close>

theorem tailq_program_refines:
  assumes "tailq_rep q xs" "fold_opt list_op cs xs = Some ys"
  shows "\<exists>q'. fold_opt run_op cs q = Some q' \<and> tailq_rep q' ys \<and>
     (TAILQ_EMPTY q' \<longleftrightarrow> ys = []) \<and> TAILQ_FIRST q' = first_of ys \<and> TAILQ_LAST q' = Some (last_of ys) \<and>
     (\<forall>x \<in> set ys. TAILQ_NEXT q' x = next_in ys x \<and> TAILQ_PREV q' x = Some (prev_in ys x))"
proof -
  obtain q' where "fold_opt run_op cs q = Some q'" "tailq_rep q' ys"
    using run_ops_refine [OF assms] by blast
  then show ?thesis
    by (intro exI [of _ q']) (simp add: rep_empty rep_first rep_last rep_next rep_prev)
qed

theorem tailq_program_refines_witness:
  "\<exists>q'. fold_opt run_op [Insert_tail 1, Insert_head 2, Insert_after 2 3, Insert_before 1 4, Remove 2]
       (TAILQ_INIT \<lparr>tqh_first = None, tqh_last = Head_first, tqe_next = (\<lambda>_. None), tqe_prev = (\<lambda>_. None)\<rparr>) = Some q' \<and>
     tailq_rep q' [3, 4, 1 :: nat] \<and> TAILQ_PREV q' 4 = Some (prev_in [3, 4, 1] 4)"
  (is "\<exists>q'. fold_opt run_op ?cs ?q = Some q' \<and> _")
proof -
  have spec: "fold_opt list_op ?cs [] = Some [3, 4, 1 :: nat]"
    by (simp add: list_op_def)
  have rep: "tailq_rep ?q ([] :: nat list)" by (rule rep_init)
  obtain q' where "fold_opt run_op ?cs ?q = Some q'" "tailq_rep q' [3, 4, 1 :: nat]"
    "\<forall>x \<in> set [3, 4, 1 :: nat]. TAILQ_NEXT q' x = next_in [3, 4, 1] x \<and> TAILQ_PREV q' x = Some (prev_in [3, 4, 1] x)"
    using tailq_program_refines [OF rep spec] by blast
  moreover from this(3) have "TAILQ_PREV q' 4 = Some (prev_in [3, 4, 1] 4)" by simp
  ultimately show ?thesis by blast
qed

end
