(* ===== verification/Stream_Sched.thy ===== *)
theory Stream_Sched
  imports Tailq
begin

text \<open>
  The stream schedulers of \<^verbatim>\<open>netinet/sctp_ss_functions.c\<close>: default and ordered round robin,
  round robin per packet, priority, fair bandwidth, first come first served, and the
  dispatch table \<^verbatim>\<open>sctp_ss_functions[]\<close>.

  Streams (\<^verbatim>\<open>struct sctp_stream_out\<close>), queued messages
  (\<^verbatim>\<open>struct sctp_stream_queue_pending\<close>) and destinations (\<^verbatim>\<open>struct sctp_nets\<close>) are
  addresses (\<open>nat\<close>) into the stores \<open>strm\<close> and \<open>spq\<close> of the association. The wheel and
  the first-come list are tail queues at pointer level (theory Tailq), so that the code's
  tests for NULL links are literal; the per-stream \<open>outqueue\<close>, which this file only reads,
  is the list of its messages. The members of the C unions \<open>ss_params\<close> and \<open>out\<close> are
  separate fields: a scheduler reads and writes the members of its own variant only.
  \<open>asoc\<close> and \<^verbatim>\<open>stcb->asoc\<close> are the same object in every call, and the send lock, taken
  when \<open>holds_lock\<close> is 0, only delimits the critical section that one step of the
  model is. \<open>cmt_on_off\<close> is the system control \<^verbatim>\<open>sctp_cmt_on_off\<close>.
\<close>

section \<open>State\<close>

record pending =
  sp_net :: "nat option"
  sp_length :: u32
  sp_sid :: u16
  sp_msg_is_complete :: u8
  sp_some_taken :: u8

record stream_out =
  outqueue :: "nat list"
  sid :: u16
  priority :: u16
  rounds :: "32 word" \<comment> \<open>\<open>int32_t\<close>: read with \<open>sint\<close>\<close>

record asoc =
  locked_on_sending :: "nat option"
  last_out_stream :: "nat option"
  wheel :: "nat tailq"
  out_list :: "nat tailq"
  strmout :: "nat list"
  strm :: "nat \<Rightarrow> stream_out"
  spq :: "nat \<Rightarrow> pending"
  idata_supported :: u8
  stream_queue_cnt :: u32
  cmt_on_off :: u32

definition upd_strm :: "asoc \<Rightarrow> nat \<Rightarrow> (stream_out \<Rightarrow> stream_out) \<Rightarrow> asoc" where
  "upd_strm a s f = a\<lparr>strm := (strm a)(s := f (strm a s))\<rparr>"

definition first_msg :: "asoc \<Rightarrow> nat \<Rightarrow> pending option" where
  "first_msg a s = map_option (spq a) (first_of (outqueue (strm a s)))"

text \<open>
  The destination test shared by the selectors: with CMT off and a destination requested,
  a stream whose first message is bound to another destination is passed over.
\<close>

definition net_mismatch :: "asoc \<Rightarrow> nat option \<Rightarrow> nat option \<Rightarrow> bool" where
  "net_mismatch a net strq \<longleftrightarrow>
     (case (net, strq) of
        (Some n, Some s) \<Rightarrow>
          cmt_on_off a = 0 \<and>
          (case first_msg a s of
             None \<Rightarrow> False
           | Some sp \<Rightarrow> (case sp_net sp of None \<Rightarrow> False | Some m \<Rightarrow> m \<noteq> n))
      | _ \<Rightarrow> False)"

section \<open>Default scheduler\<close>

definition sctp_ss_default_init ::
  "(asoc \<Rightarrow> nat \<Rightarrow> nat option \<Rightarrow> asoc option) \<Rightarrow> asoc \<Rightarrow> asoc option" where
  "sctp_ss_default_init add_to_stream a =
     fold_opt (\<lambda>s a'. add_to_stream a' s None) (strmout a)
       (a\<lparr>locked_on_sending := None, last_out_stream := None, wheel := TAILQ_INIT (wheel a)\<rparr>)"

partial_function (option) clear_wheel ::
  "(stream_out \<Rightarrow> stream_out) \<Rightarrow> asoc \<Rightarrow> asoc option" where
  "clear_wheel reset a =
     (if TAILQ_EMPTY (wheel a) then Some a
      else do {
        strq \<leftarrow> TAILQ_FIRST (wheel a);
        w \<leftarrow> TAILQ_REMOVE (wheel a) strq;
        clear_wheel reset ((upd_strm a strq reset)\<lparr>wheel := unlink w strq\<rparr>)
      })"

definition sctp_ss_default_clear :: "asoc \<Rightarrow> bool \<Rightarrow> asoc option" where
  "sctp_ss_default_clear a clear_values = do {
     a1 \<leftarrow> clear_wheel id a;
     Some (a1\<lparr>last_out_stream := None\<rparr>)
   }"

definition adopt_stream :: "asoc \<Rightarrow> nat \<Rightarrow> nat option \<Rightarrow> asoc" where
  "adopt_stream a strq with_strq =
     (case with_strq of None \<Rightarrow> a
      | Some w \<Rightarrow>
         a\<lparr>locked_on_sending := (if locked_on_sending a = Some w then Some strq else locked_on_sending a),
           last_out_stream := (if last_out_stream a = Some w then Some strq else last_out_stream a)\<rparr>)"

definition sctp_ss_default_init_stream :: "asoc \<Rightarrow> nat \<Rightarrow> nat option \<Rightarrow> asoc" where
  "sctp_ss_default_init_stream a strq with_strq =
     (let a1 = adopt_stream a strq with_strq in a1\<lparr>wheel := unlink (wheel a1) strq\<rparr>)"

definition sctp_ss_default_add :: "asoc \<Rightarrow> nat \<Rightarrow> nat option \<Rightarrow> asoc option" where
  "sctp_ss_default_add a strq sp =
     Some (if outqueue (strm a strq) \<noteq> [] \<and>
              tqe_next (wheel a) strq = None \<and> tqe_prev (wheel a) strq = None
           then a\<lparr>wheel := TAILQ_INSERT_TAIL (wheel a) strq\<rparr> else a)"

definition sctp_ss_default_is_empty :: "asoc \<Rightarrow> bool" where
  "sctp_ss_default_is_empty a = TAILQ_EMPTY (wheel a)"

definition sctp_ss_default_remove :: "asoc \<Rightarrow> nat \<Rightarrow> nat option \<Rightarrow> asoc option" where
  "sctp_ss_default_remove a strq sp =
     (if outqueue (strm a strq) = [] \<and>
         (tqe_next (wheel a) strq \<noteq> None \<or> tqe_prev (wheel a) strq \<noteq> None)
      then do {
        l \<leftarrow> (if last_out_stream a = Some strq then do {
                 p \<leftarrow> TAILQ_PREV (wheel a) strq;
                 l \<leftarrow> (if p = None then TAILQ_LAST (wheel a) else Some p);
                 Some (if l = Some strq then None else l)
               } else Some (last_out_stream a));
        w \<leftarrow> TAILQ_REMOVE (wheel a) strq;
        Some (a\<lparr>last_out_stream := l, wheel := unlink w strq\<rparr>)
      } else Some a)"

text \<open>One turn of the wheel: the stream after \<open>strqt\<close>, or the first one.\<close>

definition next_on_wheel :: "asoc \<Rightarrow> nat option \<Rightarrow> nat option" where
  "next_on_wheel a strqt =
     (case strqt of
        None \<Rightarrow> TAILQ_FIRST (wheel a)
      | Some t \<Rightarrow> (case TAILQ_NEXT (wheel a) t of None \<Rightarrow> TAILQ_FIRST (wheel a) | Some s \<Rightarrow> Some s))"

partial_function (option) default_again ::
  "asoc \<Rightarrow> nat option \<Rightarrow> nat option \<Rightarrow> nat option option" where
  "default_again a net strqt =
     (let strq = next_on_wheel a strqt in
      if net_mismatch a net strq then
        (if strq = last_out_stream a then Some None else default_again a net strq)
      else Some strq)"

definition sctp_ss_default_select :: "asoc \<Rightarrow> nat option \<Rightarrow> nat option option" where
  "sctp_ss_default_select a net =
     (case locked_on_sending a of
        Some s \<Rightarrow> Some (Some s)
      | None \<Rightarrow> default_again a net (last_out_stream a))"

definition lock_after_move :: "asoc \<Rightarrow> nat \<Rightarrow> nat option" where
  "lock_after_move a strq =
     (if idata_supported a = 0 then
        (case first_msg a strq of
           None \<Rightarrow> None
         | Some sp \<Rightarrow> if sp_some_taken sp = 1 then Some strq else None)
      else None)"

definition sctp_ss_default_scheduled :: "asoc \<Rightarrow> nat option \<Rightarrow> nat \<Rightarrow> asoc option" where
  "sctp_ss_default_scheduled a net strq =
     Some (a\<lparr>last_out_stream := Some strq, locked_on_sending := lock_after_move a strq\<rparr>)"

definition sctp_ss_default_packet_done :: "asoc \<Rightarrow> nat option \<Rightarrow> asoc option" where
  "sctp_ss_default_packet_done a net = Some a"

definition sctp_ss_default_get_value :: "asoc \<Rightarrow> nat option \<Rightarrow> u16 option" where
  "sctp_ss_default_get_value a strq = None"

definition sctp_ss_default_set_value :: "asoc \<Rightarrow> nat option \<Rightarrow> u16 \<Rightarrow> (asoc \<times> int) option" where
  "sctp_ss_default_set_value a strq v = Some (a, -1)"

definition sctp_ss_default_is_user_msgs_incomplete :: "asoc \<Rightarrow> bool" where
  "sctp_ss_default_is_user_msgs_incomplete a =
     (if stream_queue_cnt a \<noteq> 1 then False
      else case locked_on_sending a of
        None \<Rightarrow> False
      | Some s \<Rightarrow> (case first_msg a s of None \<Rightarrow> False | Some sp \<Rightarrow> sp_msg_is_complete sp = 0))"

section \<open>Round robin\<close>

definition sctp_ss_rr_add :: "asoc \<Rightarrow> nat \<Rightarrow> nat option \<Rightarrow> asoc option" where
  "sctp_ss_rr_add a strq sp =
     (if outqueue (strm a strq) \<noteq> [] \<and>
         tqe_next (wheel a) strq = None \<and> tqe_prev (wheel a) strq = None
      then
        (if TAILQ_EMPTY (wheel a) then Some (a\<lparr>wheel := TAILQ_INSERT_HEAD (wheel a) strq\<rparr>)
         else do {
           w \<leftarrow> do {
             strqt \<leftarrow> scan_while (TAILQ_NEXT (wheel a))
                       (\<lambda>t. sid (strm a t) < sid (strm a strq)) (TAILQ_FIRST (wheel a));
             case strqt of
               Some t \<Rightarrow> TAILQ_INSERT_BEFORE (wheel a) t strq
             | None \<Rightarrow> Some (TAILQ_INSERT_TAIL (wheel a) strq)
           };
           Some (a\<lparr>wheel := w\<rparr>)
         })
      else Some a)"

definition sctp_ss_rrp_select :: "asoc \<Rightarrow> nat option \<Rightarrow> nat option option" where
  "sctp_ss_rrp_select a net = Some (last_out_stream a)"

partial_function (option) rrp_again ::
  "asoc \<Rightarrow> nat option \<Rightarrow> nat option \<Rightarrow> asoc option" where
  "rrp_again a net strqt =
     (let strq = next_on_wheel a strqt in
      if net_mismatch a net strq then
        (if strq = last_out_stream a then Some (a\<lparr>last_out_stream := None\<rparr>)
         else rrp_again a net strq)
      else Some (a\<lparr>last_out_stream := strq\<rparr>))"

definition sctp_ss_rrp_packet_done :: "asoc \<Rightarrow> nat option \<Rightarrow> asoc option" where
  "sctp_ss_rrp_packet_done a net = rrp_again a net (last_out_stream a)"

section \<open>Priority\<close>

definition sctp_ss_prio_clear :: "asoc \<Rightarrow> bool \<Rightarrow> asoc option" where
  "sctp_ss_prio_clear a clear_values = do {
     a1 \<leftarrow> clear_wheel (if clear_values then (\<lambda>s. s\<lparr>priority := 0\<rparr>) else id) a;
     Some (a1\<lparr>last_out_stream := None\<rparr>)
   }"

definition sctp_ss_prio_init_stream :: "asoc \<Rightarrow> nat \<Rightarrow> nat option \<Rightarrow> asoc" where
  "sctp_ss_prio_init_stream a strq with_strq =
     (let a1 = adopt_stream a strq with_strq;
          a2 = a1\<lparr>wheel := unlink (wheel a1) strq\<rparr>
      in upd_strm a2 strq (\<lambda>s. s\<lparr>priority :=
           (case with_strq of Some w \<Rightarrow> priority (strm a2 w) | None \<Rightarrow> 0)\<rparr>))"

definition sctp_ss_prio_add :: "asoc \<Rightarrow> nat \<Rightarrow> nat option \<Rightarrow> asoc option" where
  "sctp_ss_prio_add a strq sp =
     (if outqueue (strm a strq) \<noteq> [] \<and>
         tqe_next (wheel a) strq = None \<and> tqe_prev (wheel a) strq = None
      then
        (if TAILQ_EMPTY (wheel a) then Some (a\<lparr>wheel := TAILQ_INSERT_HEAD (wheel a) strq\<rparr>)
         else do {
           w \<leftarrow> do {
             strqt \<leftarrow> scan_while (TAILQ_NEXT (wheel a))
                       (\<lambda>t. priority (strm a t) < priority (strm a strq)) (TAILQ_FIRST (wheel a));
             case strqt of
               Some t \<Rightarrow> TAILQ_INSERT_BEFORE (wheel a) t strq
             | None \<Rightarrow> Some (TAILQ_INSERT_TAIL (wheel a) strq)
           };
           Some (a\<lparr>wheel := w\<rparr>)
         })
      else Some a)"

definition sctp_ss_prio_remove :: "asoc \<Rightarrow> nat \<Rightarrow> nat option \<Rightarrow> asoc option" where
  "sctp_ss_prio_remove a strq sp =
     (if outqueue (strm a strq) = [] \<and>
         (tqe_next (wheel a) strq \<noteq> None \<or> tqe_prev (wheel a) strq \<noteq> None)
      then do {
        l \<leftarrow> (if last_out_stream a = Some strq then do {
                 p \<leftarrow> TAILQ_PREV (wheel a) strq;
                 l \<leftarrow> (if p = None then TAILQ_LAST (wheel a) else Some p);
                 Some (if l = Some strq then None else l)
               } else Some (last_out_stream a));
        w \<leftarrow> TAILQ_REMOVE (wheel a) strq;
        Some (a\<lparr>last_out_stream := l, wheel := unlink w strq\<rparr>)
      } else Some a)"

definition next_same_priority :: "asoc \<Rightarrow> nat option \<Rightarrow> nat option" where
  "next_same_priority a strqt =
     (case strqt of
        None \<Rightarrow> TAILQ_FIRST (wheel a)
      | Some t \<Rightarrow>
          (case TAILQ_NEXT (wheel a) t of
             None \<Rightarrow> TAILQ_FIRST (wheel a)
           | Some n \<Rightarrow> if priority (strm a n) = priority (strm a t) then Some n
                       else TAILQ_FIRST (wheel a)))"

partial_function (option) prio_again ::
  "asoc \<Rightarrow> nat option \<Rightarrow> nat option \<Rightarrow> nat option option" where
  "prio_again a net strqt =
     (let strq = next_same_priority a strqt in
      if net_mismatch a net strq then
        (if strq = last_out_stream a then Some None else prio_again a net strq)
      else Some strq)"

definition sctp_ss_prio_select :: "asoc \<Rightarrow> nat option \<Rightarrow> nat option option" where
  "sctp_ss_prio_select a net = prio_again a net (last_out_stream a)"

definition sctp_ss_prio_get_value :: "asoc \<Rightarrow> nat option \<Rightarrow> u16 option" where
  "sctp_ss_prio_get_value a strq = map_option (\<lambda>s. priority (strm a s)) strq"

definition sctp_ss_prio_set_value :: "asoc \<Rightarrow> nat option \<Rightarrow> u16 \<Rightarrow> (asoc \<times> int) option" where
  "sctp_ss_prio_set_value a strq v =
     (case strq of
        None \<Rightarrow> Some (a, -1)
      | Some s \<Rightarrow> do {
          a1 \<leftarrow> sctp_ss_prio_remove (upd_strm a s (\<lambda>x. x\<lparr>priority := v\<rparr>)) s None;
          a2 \<leftarrow> sctp_ss_prio_add a1 s None;
          Some (a2, 1)
        })"

section \<open>Fair bandwidth\<close>

definition sctp_ss_fb_clear :: "asoc \<Rightarrow> bool \<Rightarrow> asoc option" where
  "sctp_ss_fb_clear a clear_values = do {
     a1 \<leftarrow> clear_wheel (if clear_values then (\<lambda>s. s\<lparr>rounds := -1\<rparr>) else id) a;
     Some (a1\<lparr>last_out_stream := None\<rparr>)
   }"

definition sctp_ss_fb_init_stream :: "asoc \<Rightarrow> nat \<Rightarrow> nat option \<Rightarrow> asoc" where
  "sctp_ss_fb_init_stream a strq with_strq =
     (let a1 = adopt_stream a strq with_strq;
          a2 = a1\<lparr>wheel := unlink (wheel a1) strq\<rparr>
      in upd_strm a2 strq (\<lambda>s. s\<lparr>rounds :=
           (case with_strq of Some w \<Rightarrow> rounds (strm a2 w) | None \<Rightarrow> -1)\<rparr>))"

definition sctp_ss_fb_add :: "asoc \<Rightarrow> nat \<Rightarrow> nat option \<Rightarrow> asoc option" where
  "sctp_ss_fb_add a strq sp =
     (if tqe_next (wheel a) strq = None \<and> tqe_prev (wheel a) strq = None then
        (case first_msg a strq of
           None \<Rightarrow> Some a
         | Some m \<Rightarrow>
             (let a1 = (if sint (rounds (strm a strq)) < 0
                        then upd_strm a strq (\<lambda>s. s\<lparr>rounds := sp_length m\<rparr>) else a)
              in Some (a1\<lparr>wheel := TAILQ_INSERT_TAIL (wheel a1) strq\<rparr>)))
      else Some a)"

definition sctp_ss_fb_remove :: "asoc \<Rightarrow> nat \<Rightarrow> nat option \<Rightarrow> asoc option" where
  "sctp_ss_fb_remove a strq sp =
     (if outqueue (strm a strq) = [] \<and>
         (tqe_next (wheel a) strq \<noteq> None \<or> tqe_prev (wheel a) strq \<noteq> None)
      then do {
        l \<leftarrow> (if last_out_stream a = Some strq then do {
                 p \<leftarrow> TAILQ_PREV (wheel a) strq;
                 l \<leftarrow> (if p = None then TAILQ_LAST (wheel a) else Some p);
                 Some (if l = Some strq then None else l)
               } else Some (last_out_stream a));
        w \<leftarrow> TAILQ_REMOVE (wheel a) strq;
        Some (a\<lparr>last_out_stream := l, wheel := unlink w strq\<rparr>)
      } else Some a)"

definition fb_eligible :: "asoc \<Rightarrow> nat option \<Rightarrow> nat \<Rightarrow> bool" where
  "fb_eligible a net t \<longleftrightarrow>
     cmt_on_off a > 0 \<or>
     (cmt_on_off a = 0 \<and>
      (case net of
         None \<Rightarrow> True
       | Some n \<Rightarrow>
           (case first_msg a t of
              None \<Rightarrow> False
            | Some m \<Rightarrow> (case sp_net m of None \<Rightarrow> True | Some k \<Rightarrow> k = n))))"

definition fb_take :: "asoc \<Rightarrow> nat option \<Rightarrow> nat option \<Rightarrow> nat option \<Rightarrow> nat option" where
  "fb_take a net strq strqt =
     (case strqt of
        None \<Rightarrow> strq
      | Some t \<Rightarrow>
          if fb_eligible a net t \<and> sint (rounds (strm a t)) \<ge> 0 \<and>
             (case strq of None \<Rightarrow> True
              | Some s \<Rightarrow> sint (rounds (strm a t)) < sint (rounds (strm a s)))
          then Some t else strq)"

partial_function (option) fb_loop ::
  "asoc \<Rightarrow> nat option \<Rightarrow> nat option \<Rightarrow> nat option \<Rightarrow> nat option option" where
  "fb_loop a net strq strqt =
     (let strq' = fb_take a net strq strqt;
          strqt' = (case strqt of Some t \<Rightarrow> TAILQ_NEXT (wheel a) t | None \<Rightarrow> TAILQ_FIRST (wheel a))
      in if strqt' \<noteq> strq' then fb_loop a net strq' strqt' else Some strq')"

definition sctp_ss_fb_select :: "asoc \<Rightarrow> nat option \<Rightarrow> nat option option" where
  "sctp_ss_fb_select a net = do {
     strqt \<leftarrow> (case last_out_stream a of
                 None \<Rightarrow> Some (TAILQ_FIRST (wheel a))
               | Some l \<Rightarrow> do {
                   e \<leftarrow> TAILQ_LAST (wheel a);
                   Some (if TAILQ_FIRST (wheel a) = e then TAILQ_FIRST (wheel a)
                         else TAILQ_NEXT (wheel a) l)
                 });
     fb_loop a net None strqt
   }"

text \<open>The counters are C integers, kept here as words. They are lengths of messages or -1, so that the difference leaves the range of an integer only for a message of
\<open>2 ^ 31 - 1\<close> bytes.\<close>

partial_function (option) fb_subtract :: "32 word \<Rightarrow> nat option \<Rightarrow> asoc \<Rightarrow> asoc option" where
  "fb_subtract subtract strqt a =
     (case strqt of
        None \<Rightarrow> Some a
      | Some t \<Rightarrow>
          (let r = rounds (strm a t) - subtract;
               a1 = upd_strm a t (\<lambda>s. s\<lparr>rounds := (if sint r < 0 then 0 else r)\<rparr>)
           in fb_subtract subtract (TAILQ_NEXT (wheel a1) t) a1))"

definition sctp_ss_fb_scheduled :: "asoc \<Rightarrow> nat option \<Rightarrow> nat \<Rightarrow> asoc option" where
  "sctp_ss_fb_scheduled a net strq = do {
     let a1 = a\<lparr>locked_on_sending := lock_after_move a strq\<rparr>;
     let subtract = rounds (strm a1 strq);
     a2 \<leftarrow> fb_subtract subtract (TAILQ_FIRST (wheel a1)) a1;
     let a3 = upd_strm a2 strq (\<lambda>s. s\<lparr>rounds :=
                (case first_msg a2 strq of Some m \<Rightarrow> sp_length m | None \<Rightarrow> -1)\<rparr>);
     Some (a3\<lparr>last_out_stream := Some strq\<rparr>)
   }"

section \<open>First come, first served\<close>

definition sctp_ss_fcfs_add :: "asoc \<Rightarrow> nat \<Rightarrow> nat option \<Rightarrow> asoc option" where
  "sctp_ss_fcfs_add a strq sp =
     Some (case sp of
        None \<Rightarrow> a
      | Some m \<Rightarrow> if tqe_next (out_list a) m = None \<and> tqe_prev (out_list a) m = None
                  then a\<lparr>out_list := TAILQ_INSERT_TAIL (out_list a) m\<rparr> else a)"

text \<open>One pass of the outer loop: the \<open>n\<close>-th message of every stream.\<close>

definition fcfs_pass :: "nat \<Rightarrow> asoc \<Rightarrow> (asoc \<times> bool) option" where
  "fcfs_pass n a =
     fold_opt (\<lambda>s (a', add_more).
        (if n < length (outqueue (strm a' s)) then
           map_option (\<lambda>a''. (a'', True)) (sctp_ss_fcfs_add a' s (Some (outqueue (strm a' s) ! n)))
         else Some (a', add_more)))
       (strmout a) (a, False)"

partial_function (option) fcfs_init_loop :: "nat \<Rightarrow> asoc \<Rightarrow> asoc option" where
  "fcfs_init_loop n a = do {
     r \<leftarrow> fcfs_pass n a;
     if snd r then fcfs_init_loop (Suc n) (fst r) else Some (fst r)
   }"

definition sctp_ss_fcfs_init :: "asoc \<Rightarrow> asoc option" where
  "sctp_ss_fcfs_init a = fcfs_init_loop 0 (a\<lparr>out_list := TAILQ_INIT (out_list a)\<rparr>)"

partial_function (option) fcfs_clear_loop :: "nat tailq \<Rightarrow> nat tailq option" where
  "fcfs_clear_loop q =
     (if TAILQ_EMPTY q then Some q
      else do { m \<leftarrow> TAILQ_FIRST q; q' \<leftarrow> TAILQ_REMOVE q m; fcfs_clear_loop q' })"

definition sctp_ss_fcfs_clear :: "asoc \<Rightarrow> bool \<Rightarrow> asoc option" where
  "sctp_ss_fcfs_clear a clear_values =
     (if clear_values then do {
        q \<leftarrow> fcfs_clear_loop (out_list a);
        Some (a\<lparr>out_list := q\<rparr>)
      } else Some a)"

definition sctp_ss_fcfs_init_stream :: "asoc \<Rightarrow> nat \<Rightarrow> nat option \<Rightarrow> asoc" where
  "sctp_ss_fcfs_init_stream a strq with_strq = adopt_stream a strq with_strq"

definition sctp_ss_fcfs_is_empty :: "asoc \<Rightarrow> bool" where
  "sctp_ss_fcfs_is_empty a = TAILQ_EMPTY (out_list a)"

definition sctp_ss_fcfs_remove :: "asoc \<Rightarrow> nat \<Rightarrow> nat option \<Rightarrow> asoc option" where
  "sctp_ss_fcfs_remove a strq sp =
     (case sp of
        None \<Rightarrow> Some a
      | Some m \<Rightarrow>
          if tqe_next (out_list a) m \<noteq> None \<or> tqe_prev (out_list a) m \<noteq> None then do {
            q \<leftarrow> TAILQ_REMOVE (out_list a) m;
            Some (a\<lparr>out_list := q\<rparr>)
          } else Some a)"

partial_function (option) fcfs_again ::
  "asoc \<Rightarrow> nat option \<Rightarrow> nat option \<Rightarrow> nat option option" where
  "fcfs_again a net sp =
     (case sp of
        None \<Rightarrow> Some None
      | Some m \<Rightarrow>
          (let i = unat (sp_sid (spq a m)) in
           if i < length (strmout a) then
             (if net_mismatch a net (Some (strmout a ! i))
              then fcfs_again a net (TAILQ_NEXT (out_list a) m)
              else Some (Some (strmout a ! i)))
           else None))"

definition sctp_ss_fcfs_select :: "asoc \<Rightarrow> nat option \<Rightarrow> nat option option" where
  "sctp_ss_fcfs_select a net = fcfs_again a net (TAILQ_FIRST (out_list a))"

section \<open>Dispatch table\<close>

record ss_functions =
  sctp_ss_init :: "asoc \<Rightarrow> asoc option"
  sctp_ss_clear :: "asoc \<Rightarrow> bool \<Rightarrow> asoc option"
  sctp_ss_init_stream :: "asoc \<Rightarrow> nat \<Rightarrow> nat option \<Rightarrow> asoc"
  sctp_ss_add_to_stream :: "asoc \<Rightarrow> nat \<Rightarrow> nat option \<Rightarrow> asoc option"
  sctp_ss_is_empty :: "asoc \<Rightarrow> bool"
  sctp_ss_remove_from_stream :: "asoc \<Rightarrow> nat \<Rightarrow> nat option \<Rightarrow> asoc option"
  sctp_ss_select_stream :: "asoc \<Rightarrow> nat option \<Rightarrow> nat option option"
  sctp_ss_scheduled :: "asoc \<Rightarrow> nat option \<Rightarrow> nat \<Rightarrow> asoc option"
  sctp_ss_packet_done :: "asoc \<Rightarrow> nat option \<Rightarrow> asoc option"
  sctp_ss_get_value :: "asoc \<Rightarrow> nat option \<Rightarrow> u16 option"
  sctp_ss_set_value :: "asoc \<Rightarrow> nat option \<Rightarrow> u16 \<Rightarrow> (asoc \<times> int) option"
  sctp_ss_is_user_msgs_incomplete :: "asoc \<Rightarrow> bool"

definition sctp_ss_default :: ss_functions where
  "sctp_ss_default = \<lparr>
     sctp_ss_init = sctp_ss_default_init sctp_ss_default_add,
     sctp_ss_clear = sctp_ss_default_clear,
     sctp_ss_init_stream = sctp_ss_default_init_stream,
     sctp_ss_add_to_stream = sctp_ss_default_add,
     sctp_ss_is_empty = sctp_ss_default_is_empty,
     sctp_ss_remove_from_stream = sctp_ss_default_remove,
     sctp_ss_select_stream = sctp_ss_default_select,
     sctp_ss_scheduled = sctp_ss_default_scheduled,
     sctp_ss_packet_done = sctp_ss_default_packet_done,
     sctp_ss_get_value = sctp_ss_default_get_value,
     sctp_ss_set_value = sctp_ss_default_set_value,
     sctp_ss_is_user_msgs_incomplete = sctp_ss_default_is_user_msgs_incomplete\<rparr>"

definition sctp_ss_functions :: "ss_functions list" where
  "sctp_ss_functions = [
     sctp_ss_default,
     \<comment> \<open>\<^verbatim>\<open>SCTP_SS_ROUND_ROBIN\<close>\<close>
     sctp_ss_default\<lparr>
       sctp_ss_init := sctp_ss_default_init sctp_ss_rr_add,
       sctp_ss_add_to_stream := sctp_ss_rr_add\<rparr>,
     \<comment> \<open>\<^verbatim>\<open>SCTP_SS_ROUND_ROBIN_PACKET\<close>\<close>
     sctp_ss_default\<lparr>
       sctp_ss_init := sctp_ss_default_init sctp_ss_rr_add,
       sctp_ss_add_to_stream := sctp_ss_rr_add,
       sctp_ss_select_stream := sctp_ss_rrp_select,
       sctp_ss_packet_done := sctp_ss_rrp_packet_done\<rparr>,
     \<comment> \<open>\<^verbatim>\<open>SCTP_SS_PRIORITY\<close>\<close>
     sctp_ss_default\<lparr>
       sctp_ss_init := sctp_ss_default_init sctp_ss_prio_add,
       sctp_ss_clear := sctp_ss_prio_clear,
       sctp_ss_init_stream := sctp_ss_prio_init_stream,
       sctp_ss_add_to_stream := sctp_ss_prio_add,
       sctp_ss_remove_from_stream := sctp_ss_prio_remove,
       sctp_ss_select_stream := sctp_ss_prio_select,
       sctp_ss_get_value := sctp_ss_prio_get_value,
       sctp_ss_set_value := sctp_ss_prio_set_value\<rparr>,
     \<comment> \<open>\<^verbatim>\<open>SCTP_SS_FAIR_BANDWITH\<close>\<close>
     sctp_ss_default\<lparr>
       sctp_ss_init := sctp_ss_default_init sctp_ss_fb_add,
       sctp_ss_clear := sctp_ss_fb_clear,
       sctp_ss_init_stream := sctp_ss_fb_init_stream,
       sctp_ss_add_to_stream := sctp_ss_fb_add,
       sctp_ss_remove_from_stream := sctp_ss_fb_remove,
       sctp_ss_select_stream := sctp_ss_fb_select,
       sctp_ss_scheduled := sctp_ss_fb_scheduled\<rparr>,
     \<comment> \<open>\<^verbatim>\<open>SCTP_SS_FIRST_COME\<close>\<close>
     sctp_ss_default\<lparr>
       sctp_ss_init := sctp_ss_fcfs_init,
       sctp_ss_clear := sctp_ss_fcfs_clear,
       sctp_ss_init_stream := sctp_ss_fcfs_init_stream,
       sctp_ss_add_to_stream := sctp_ss_fcfs_add,
       sctp_ss_is_empty := sctp_ss_fcfs_is_empty,
       sctp_ss_remove_from_stream := sctp_ss_fcfs_remove,
       sctp_ss_select_stream := sctp_ss_fcfs_select\<rparr>]"

end
