(* ===== verification/Sched_Wheel.thy ===== *)
theory Sched_Wheel
  imports Stream_Sched
begin

text \<open>
  The wheel invariant of the schedulers: the wheel is a well-formed tail queue that holds
  exactly the streams with queued messages, and the links of every other stream are NULL.
  The locale \<open>wheel_scheduler\<close> is the contract of one row of the dispatch table; it is
  interpreted for the five rows that keep a wheel. From the contract alone, every history
  of enqueueing, dequeueing, scheduling and rescheduling steps keeps the invariant, and none
  of the queue operations fails.
\<close>

section \<open>Wheel contents\<close>

abbreviation on_wheel :: "asoc \<Rightarrow> nat list \<Rightarrow> bool" where
  "on_wheel a xs \<equiv> tq.tidy (wheel a) xs"

definition busy :: "asoc \<Rightarrow> nat set" where
  "busy a = {s. outqueue (strm a s) \<noteq> []}"

definition same_data :: "asoc \<Rightarrow> asoc \<Rightarrow> bool" where
  "same_data a a' \<longleftrightarrow>
     (\<forall>s. outqueue (strm a' s) = outqueue (strm a s) \<and> sid (strm a' s) = sid (strm a s)) \<and>
     strmout a' = strmout a \<and> spq a' = spq a \<and> idata_supported a' = idata_supported a \<and>
     cmt_on_off a' = cmt_on_off a"

lemma same_data_refl [simp]: "same_data a a"
  by (simp add: same_data_def)

lemma same_data_trans: "same_data a b \<Longrightarrow> same_data b c \<Longrightarrow> same_data a c"
  by (simp add: same_data_def)

lemma same_data_fields [simp]:
  "same_data a (b\<lparr>wheel := w\<rparr>) \<longleftrightarrow> same_data a b"
  "same_data a (b\<lparr>last_out_stream := l\<rparr>) \<longleftrightarrow> same_data a b"
  "same_data a (b\<lparr>locked_on_sending := k\<rparr>) \<longleftrightarrow> same_data a b"
  by (simp_all add: same_data_def)

lemma same_data_upd_strm:
  assumes "outqueue (f (strm a s)) = outqueue (strm a s)" "sid (f (strm a s)) = sid (strm a s)"
  shows "same_data a (upd_strm a s f)"
  using assms by (simp add: same_data_def upd_strm_def)

lemma same_data_busy: "same_data a a' \<Longrightarrow> busy a' = busy a"
  by (simp add: same_data_def busy_def)

lemma upd_strm_fields [simp]:
  "wheel (upd_strm a s f) = wheel a"
  "last_out_stream (upd_strm a s f) = last_out_stream a"
  "locked_on_sending (upd_strm a s f) = locked_on_sending a"
  "strmout (upd_strm a s f) = strmout a"
  "spq (upd_strm a s f) = spq a"
  "cmt_on_off (upd_strm a s f) = cmt_on_off a"
  "idata_supported (upd_strm a s f) = idata_supported a"
  "out_list (upd_strm a s f) = out_list a"
  "strm (upd_strm a s f) t = (if t = s then f (strm a s) else strm a t)"
  by (simp_all add: upd_strm_def)

lemma null_links_iff:
  "on_wheel a xs \<Longrightarrow>
     (tqe_next (wheel a) s = None \<and> tqe_prev (wheel a) s = None) \<longleftrightarrow> s \<notin> set xs"
  using tq.tidy_queued_iff [of "wheel a" xs s] by (auto simp: linked_def)

lemma links_iff:
  "on_wheel a xs \<Longrightarrow>
     (tqe_next (wheel a) s \<noteq> None \<or> tqe_prev (wheel a) s \<noteq> None) \<longleftrightarrow> s \<in> set xs"
  using null_links_iff [of a xs s] by auto

section \<open>Adding\<close>

definition adds_to_wheel :: "(asoc \<Rightarrow> nat \<Rightarrow> nat option \<Rightarrow> asoc option) \<Rightarrow> bool" where
  "adds_to_wheel add \<longleftrightarrow>
     (\<forall>a xs s sp. on_wheel a xs \<longrightarrow>
        (\<exists>a' xs'. add a s sp = Some a' \<and> on_wheel a' xs' \<and> same_data a a' \<and>
           set xs' = set xs \<union> (if outqueue (strm a s) \<noteq> [] then {s} else {})))"

lemma default_add_queue:
  assumes "on_wheel a xs"
  shows "\<exists>a'. sctp_ss_default_add a s sp = Some a' \<and> same_data a a' \<and>
           on_wheel a' (if outqueue (strm a s) \<noteq> [] \<and> s \<notin> set xs then xs @ [s] else xs)"
  using assms tq.tidy_ins_tail [OF assms, of s]
  by (auto simp: sctp_ss_default_add_def null_links_iff tq.tidy_queued_iff)

lemma ordered_add_queue:
  assumes "on_wheel a xs" "s \<notin> set xs"
  shows "\<exists>w. (if TAILQ_EMPTY (wheel a) then Some (a\<lparr>wheel := TAILQ_INSERT_HEAD (wheel a) s\<rparr>)
         else do {
           w \<leftarrow> do {
             strqt \<leftarrow> scan_while (TAILQ_NEXT (wheel a)) c (TAILQ_FIRST (wheel a));
             case strqt of
               Some t \<Rightarrow> TAILQ_INSERT_BEFORE (wheel a) t s
             | None \<Rightarrow> Some (TAILQ_INSERT_TAIL (wheel a) s)
           };
           Some (a\<lparr>wheel := w\<rparr>)
         }) = Some (a\<lparr>wheel := w\<rparr>) \<and> tq.tidy w (takeWhile c xs @ s # dropWhile c xs)"
proof (cases "xs = []")
  case True
  then have "TAILQ_EMPTY (wheel a)"
    using rep_empty [OF tq.tidyD [OF assms(1)]] by simp
  then show ?thesis
    using True assms tq.tidy_ins_head [OF assms(1), of s]
    by (auto simp: tq.tidy_queued_iff)
next
  case False
  have q: "\<not> linked (wheel a) s"
    using assms by (simp add: tq.tidy_queued_iff)
  obtain w where "do { p \<leftarrow> scan_while (TAILQ_NEXT (wheel a)) c (TAILQ_FIRST (wheel a));
       case p of Some l \<Rightarrow> TAILQ_INSERT_BEFORE (wheel a) l s | None \<Rightarrow> Some (TAILQ_INSERT_TAIL (wheel a) s) }
       = Some w" "tq.tidy w (takeWhile c xs @ s # dropWhile c xs)"
    using tq.ordered_insert [OF assms(1) q, of c] by blast
  moreover have "\<not> TAILQ_EMPTY (wheel a)"
    using False rep_empty [OF tq.tidyD [OF assms(1)]] by simp
  ultimately show ?thesis by auto
qed

lemma rr_add_queue:
  assumes "on_wheel a xs"
  shows "\<exists>a'. sctp_ss_rr_add a s sp = Some a' \<and> same_data a a' \<and> strm a' = strm a \<and>
           on_wheel a' (if outqueue (strm a s) \<noteq> [] \<and> s \<notin> set xs
             then takeWhile (\<lambda>t. sid (strm a t) < sid (strm a s)) xs @ s #
                  dropWhile (\<lambda>t. sid (strm a t) < sid (strm a s)) xs else xs)"
proof (cases "outqueue (strm a s) \<noteq> [] \<and> s \<notin> set xs")
  case True
  then obtain w where w: "sctp_ss_rr_add a s sp = Some (a\<lparr>wheel := w\<rparr>)"
    "tq.tidy w (takeWhile (\<lambda>t. sid (strm a t) < sid (strm a s)) xs @ s #
                dropWhile (\<lambda>t. sid (strm a t) < sid (strm a s)) xs)"
    using ordered_add_queue [OF assms, of s "\<lambda>t. sid (strm a t) < sid (strm a s)"]
      null_links_iff [OF assms, of s]
    unfolding sctp_ss_rr_add_def by auto
  with True show ?thesis by auto
next
  case False
  then show ?thesis
    using assms null_links_iff [OF assms, of s] by (auto simp: sctp_ss_rr_add_def)
qed

lemma prio_add_queue:
  assumes "on_wheel a xs"
  shows "\<exists>a'. sctp_ss_prio_add a s sp = Some a' \<and> same_data a a' \<and> strm a' = strm a \<and>
           on_wheel a' (if outqueue (strm a s) \<noteq> [] \<and> s \<notin> set xs
             then takeWhile (\<lambda>t. priority (strm a t) < priority (strm a s)) xs @ s #
                  dropWhile (\<lambda>t. priority (strm a t) < priority (strm a s)) xs else xs)"
proof (cases "outqueue (strm a s) \<noteq> [] \<and> s \<notin> set xs")
  case True
  then obtain w where w: "sctp_ss_prio_add a s sp = Some (a\<lparr>wheel := w\<rparr>)"
    "tq.tidy w (takeWhile (\<lambda>t. priority (strm a t) < priority (strm a s)) xs @ s #
                dropWhile (\<lambda>t. priority (strm a t) < priority (strm a s)) xs)"
    using ordered_add_queue [OF assms, of s "\<lambda>t. priority (strm a t) < priority (strm a s)"]
      null_links_iff [OF assms, of s]
    unfolding sctp_ss_prio_add_def by auto
  with True show ?thesis by auto
next
  case False
  then show ?thesis
    using assms null_links_iff [OF assms, of s] by (auto simp: sctp_ss_prio_add_def)
qed

lemma fb_add_queue:
  assumes "on_wheel a xs"
  shows "\<exists>a'. sctp_ss_fb_add a s sp = Some a' \<and> same_data a a' \<and>
           on_wheel a' (if outqueue (strm a s) \<noteq> [] \<and> s \<notin> set xs then xs @ [s] else xs)"
  using assms tq.tidy_ins_tail [OF assms, of s]
  by (cases "outqueue (strm a s)")
    (auto simp: sctp_ss_fb_add_def first_msg_def null_links_iff tq.tidy_queued_iff Let_def
      intro: same_data_upd_strm)

lemma set_takeWhile_insert: "set (takeWhile c xs @ s # dropWhile c xs) = insert s (set xs)"
  by (metis Un_insert_right list.simps(15) set_append takeWhile_dropWhile_id)

lemma adds_default: "adds_to_wheel sctp_ss_default_add"
  unfolding adds_to_wheel_def
  by (intro allI impI, drule default_add_queue) (force split: if_splits)

lemma adds_rr: "adds_to_wheel sctp_ss_rr_add"
  unfolding adds_to_wheel_def
  by (intro allI impI, drule rr_add_queue) (force split: if_splits simp: set_takeWhile_insert simp del: set_append)

lemma adds_prio: "adds_to_wheel sctp_ss_prio_add"
  unfolding adds_to_wheel_def
  by (intro allI impI, drule prio_add_queue) (force split: if_splits simp: set_takeWhile_insert simp del: set_append)

lemma adds_fb: "adds_to_wheel sctp_ss_fb_add"
  unfolding adds_to_wheel_def
  by (intro allI impI, drule fb_add_queue) (force split: if_splits)

section \<open>Removing, clearing, initialising\<close>

definition removes_from_wheel :: "(asoc \<Rightarrow> nat \<Rightarrow> nat option \<Rightarrow> asoc option) \<Rightarrow> bool" where
  "removes_from_wheel rem \<longleftrightarrow>
     (\<forall>a xs s sp. on_wheel a xs \<longrightarrow>
        (\<exists>a'. rem a s sp = Some a' \<and> same_data a a' \<and> strm a' = strm a \<and>
           on_wheel a' (if outqueue (strm a s) = [] then remove1 s xs else xs)))"

text \<open>Where the round-robin pointer goes when the stream it names leaves the wheel.\<close>

definition pointer_after_remove :: "nat list \<Rightarrow> nat \<Rightarrow> nat option \<Rightarrow> nat option" where
  "pointer_after_remove xs s l =
     (if l = Some s then
        (case prev_in xs s of Some p \<Rightarrow> Some p
         | None \<Rightarrow> if last_of xs = Some s then None else last_of xs)
      else l)"

lemma default_remove_queue:
  assumes "on_wheel a xs" "outqueue (strm a s) = []" "s \<in> set xs"
  shows "\<exists>w. sctp_ss_default_remove a s sp =
           Some (a\<lparr>last_out_stream := pointer_after_remove xs s (last_out_stream a), wheel := w\<rparr>) \<and>
         tq.tidy w (remove1 s xs)"
proof -
  have rep: "tailq_rep (wheel a) xs" using assms(1) by (rule tq.tidyD)
  have "distinct xs" using rep by (rule tq.repr_distinct)
  obtain q' where q': "TAILQ_REMOVE (wheel a) s = Some q'" "tq.tidy (unlink q' s) (remove1 s xs)"
    using tq.tidy_rem_clear [OF assms(1,3)] by blast
  have prev: "prev_in xs s \<noteq> Some s"
    using \<open>distinct xs\<close> assms(3)
    by (metis distinct_split last_in_set last_of_def option.distinct(1) option.inject prev_in_split)
  have "tqe_next (wheel a) s \<noteq> None \<or> tqe_prev (wheel a) s \<noteq> None"
    using links_iff [OF assms(1)] assms(3) by blast
  then show ?thesis
    using assms q' rep_prev [OF rep assms(3)] rep_last [OF rep] prev
    by (auto simp: sctp_ss_default_remove_def pointer_after_remove_def split: option.splits)
qed

lemma remove_bodies:
  "sctp_ss_prio_remove = sctp_ss_default_remove"
  "sctp_ss_fb_remove = sctp_ss_default_remove"
  by (simp_all add: fun_eq_iff sctp_ss_prio_remove_def sctp_ss_fb_remove_def sctp_ss_default_remove_def)

lemma default_remove_id:
  assumes "on_wheel a xs" "outqueue (strm a s) \<noteq> [] \<or> s \<notin> set xs"
  shows "sctp_ss_default_remove a s sp = Some a"
  using assms links_iff [OF assms(1), of s] by (auto simp: sctp_ss_default_remove_def)

lemma removes_default: "removes_from_wheel sctp_ss_default_remove"
  unfolding removes_from_wheel_def
proof (intro allI impI)
  fix a xs s sp assume w: "on_wheel a xs"
  show "\<exists>a'. sctp_ss_default_remove a s sp = Some a' \<and> same_data a a' \<and> strm a' = strm a \<and>
           on_wheel a' (if outqueue (strm a s) = [] then remove1 s xs else xs)"
  proof (cases "outqueue (strm a s) = [] \<and> s \<in> set xs")
    case True
    then show ?thesis using default_remove_queue [OF w, of s sp] by auto
  next
    case False
    then have "sctp_ss_default_remove a s sp = Some a"
      using default_remove_id [OF w] by auto
    then show ?thesis using w False by (auto simp: remove1_idem)
  qed
qed

lemma clear_wheel_queue:
  assumes "on_wheel a xs" and "\<And>x. outqueue (reset x) = outqueue x" "\<And>x. sid (reset x) = sid x"
  shows "\<exists>a'. clear_wheel reset a = Some a' \<and> on_wheel a' [] \<and> same_data a a' \<and>
     (\<forall>s. strm a' s = (if s \<in> set xs then reset (strm a s) else strm a s))"
  using assms(1)
proof (induction xs arbitrary: a)
  case Nil
  then show ?case
    using rep_empty [OF tq.tidyD [OF Nil]] by (subst clear_wheel.simps) simp
next
  case (Cons x xs)
  have rep: "tailq_rep (wheel a) (x # xs)" and x: "x \<notin> set xs"
    using tq.tidyD [OF Cons.prems] tq.repr_distinct by fastforce+
  obtain q' where q': "TAILQ_REMOVE (wheel a) x = Some q'" "tq.tidy (unlink q' x) xs"
    using tq.tidy_rem_clear [OF Cons.prems, of x] by auto
  let ?a = "(upd_strm a x reset)\<lparr>wheel := unlink q' x\<rparr>"
  obtain a' where a': "clear_wheel reset ?a = Some a'" "on_wheel a' []" "same_data ?a a'"
    "\<forall>s. strm a' s = (if s \<in> set xs then reset (strm ?a s) else strm ?a s)"
    using Cons.IH [of ?a] q'(2) by auto
  have "clear_wheel reset a = Some a'"
    using rep_empty [OF rep] rep_first [OF rep] q'(1) a'(1) by (subst clear_wheel.simps) simp
  moreover have "same_data a a'"
    by (rule same_data_trans [OF _ a'(3)]) (simp add: same_data_upd_strm assms)
  ultimately show ?case
    using a' x by auto
qed

lemma default_init_queue:
  assumes "on_wheel a []" "adds_to_wheel add"
  shows "\<exists>a' xs. sctp_ss_default_init add a = Some a' \<and> on_wheel a' xs \<and> same_data a a' \<and>
           set xs = {s \<in> set (strmout a). outqueue (strm a s) \<noteq> []}"
proof -
  have "\<exists>a' xs. fold_opt (\<lambda>s a'. add a' s None) ss b = Some a' \<and> on_wheel a' xs \<and> same_data b a' \<and>
      set xs = set ys \<union> {s \<in> set ss. outqueue (strm b s) \<noteq> []}" if "on_wheel b ys" for ss b ys
    using that
  proof (induction ss arbitrary: b ys)
    case Nil
    then show ?case by auto
  next
    case (Cons s ss)
    obtain b' ys' where b': "add b s None = Some b'" "on_wheel b' ys'" "same_data b b'"
      "set ys' = set ys \<union> (if outqueue (strm b s) \<noteq> [] then {s} else {})"
      using assms(2) Cons.prems unfolding adds_to_wheel_def by blast
    obtain c zs where c: "fold_opt (\<lambda>s a'. add a' s None) ss b' = Some c" "on_wheel c zs" "same_data b' c"
      "set zs = set ys' \<union> {s \<in> set ss. outqueue (strm b' s) \<noteq> []}"
      using Cons.IH [OF b'(2)] by blast
    have "outqueue (strm b' t) = outqueue (strm b t)" for t
      using b'(3) by (simp add: same_data_def)
    then show ?case
      using b' c same_data_trans by (intro exI [of _ c] exI [of _ zs]) auto
  qed
  from this [of "a\<lparr>locked_on_sending := None, last_out_stream := None, wheel := TAILQ_INIT (wheel a)\<rparr>" "[]"
      "strmout a"]
  show ?thesis
    using tq.tidy_init [OF assms(1)]
    by (fastforce simp: sctp_ss_default_init_def same_data_def)
qed

section \<open>Fair bandwidth rounds\<close>

definition spend :: "32 word \<Rightarrow> stream_out \<Rightarrow> stream_out" where
  "spend n x = x\<lparr>rounds := (if sint (rounds x - n) < 0 then 0 else rounds x - n)\<rparr>"

lemma fb_subtract_suffix:
  assumes "tailq_rep (wheel a) (pre @ ys)"
  shows "\<exists>a'. fb_subtract n (first_of ys) a = Some a' \<and> same_data a a' \<and> wheel a' = wheel a \<and>
     last_out_stream a' = last_out_stream a \<and> locked_on_sending a' = locked_on_sending a \<and>
     (\<forall>s. strm a' s = (if s \<in> set ys then spend n (strm a s) else strm a s))"
  using assms
proof (induction ys arbitrary: a pre)
  case Nil
  then show ?case by (subst fb_subtract.simps) simp
next
  case (Cons y ys)
  let ?a = "upd_strm a y (spend n)"
  have d: "distinct (pre @ y # ys)" using Cons.prems by (rule tq.repr_distinct)
  then have nx: "TAILQ_NEXT (wheel a) y = first_of ys"
    using rep_next [OF Cons.prems, of y] by (simp add: next_in_split)
  obtain a' where a': "fb_subtract n (first_of ys) ?a = Some a'" "same_data ?a a'" "wheel a' = wheel a"
    "last_out_stream a' = last_out_stream a" "locked_on_sending a' = locked_on_sending a"
    "\<forall>s. strm a' s = (if s \<in> set ys then spend n (strm ?a s) else strm ?a s)"
    using Cons.IH [of ?a "pre @ [y]"] Cons.prems by auto
  have "same_data a ?a" by (rule same_data_upd_strm) (simp_all add: spend_def)
  moreover have "?a = upd_strm a y (\<lambda>s. s\<lparr>rounds := (if sint (rounds (strm a y) - n) < 0 then 0
      else rounds (strm a y) - n)\<rparr>)"
    by (simp add: upd_strm_def spend_def)
  then have "fb_subtract n (first_of (y # ys)) a = Some a'"
    using a'(1) nx by (subst fb_subtract.simps) (simp add: Let_def)
  ultimately show ?case using a' d same_data_trans by auto
qed

lemma fb_scheduled_queue:
  assumes "on_wheel a xs"
  shows "\<exists>a'. sctp_ss_fb_scheduled a net s = Some a' \<and> same_data a a' \<and> wheel a' = wheel a \<and>
     last_out_stream a' = Some s \<and> locked_on_sending a' = lock_after_move a s \<and>
     (\<forall>t. strm a' t =
        (if t = s then (strm a s)\<lparr>rounds := (case first_msg a s of Some m \<Rightarrow> sp_length m | None \<Rightarrow> -1)\<rparr>
         else if t \<in> set xs then spend (rounds (strm a s)) (strm a t) else strm a t))"
proof -
  let ?a = "a\<lparr>locked_on_sending := lock_after_move a s\<rparr>"
  have rep: "tailq_rep (wheel ?a) ([] @ xs)" using tq.tidyD [OF assms] by simp
  obtain a' where a': "fb_subtract (rounds (strm a s)) (first_of xs) ?a = Some a'" "same_data ?a a'"
    "wheel a' = wheel a" "locked_on_sending a' = lock_after_move a s"
    "\<forall>t. strm a' t = (if t \<in> set xs then spend (rounds (strm a s)) (strm a t) else strm a t)"
    using fb_subtract_suffix [OF rep, of "rounds (strm a s)"] by auto
  have fm: "first_msg a' s = first_msg a s"
    using a'(2) by (simp add: same_data_def first_msg_def)
  let ?f = "\<lambda>x. x\<lparr>rounds := (case first_msg a s of Some m \<Rightarrow> sp_length m | None \<Rightarrow> -1)\<rparr>"
  have "same_data a' (upd_strm a' s ?f)" by (rule same_data_upd_strm) simp_all
  moreover have "same_data a a'"
    using a'(2) by (simp add: same_data_def)
  ultimately have "same_data a (upd_strm a' s ?f)" by (rule same_data_trans [rotated])
  moreover have "TAILQ_FIRST (wheel a) = first_of xs"
    using tq.first_repr [OF tq.tidyD [OF assms]] .
  ultimately show ?thesis
    using a' fm by (auto simp: sctp_ss_fb_scheduled_def spend_def)
qed

section \<open>The contract of one row of the dispatch table\<close>

text \<open>
  The two events through which messages enter and leave a stream queue, as
  \<^verbatim>\<open>sctp_msg_append()\<close> and \<^verbatim>\<open>sctp_move_to_outqueue()\<close> perform them around the calls to
  the scheduler: the message is put on or taken off the stream's queue first.
\<close>

definition push_msg :: "asoc \<Rightarrow> nat \<Rightarrow> nat \<Rightarrow> asoc" where
  "push_msg a s m = upd_strm a s (\<lambda>x. x\<lparr>outqueue := outqueue x @ [m]\<rparr>)"

definition pop_msg :: "asoc \<Rightarrow> nat \<Rightarrow> asoc" where
  "pop_msg a s = upd_strm a s (\<lambda>x. x\<lparr>outqueue := tl (outqueue x)\<rparr>)"

inductive sched_step :: "ss_functions \<Rightarrow> asoc \<Rightarrow> asoc \<Rightarrow> bool" for F where
  enqueue: "s \<in> set (strmout a) \<Longrightarrow>
     sctp_ss_add_to_stream F (push_msg a s m) s (Some m) = Some a' \<Longrightarrow> sched_step F a a'"
| dequeue: "outqueue (strm a s) = m # ms \<Longrightarrow>
     sctp_ss_remove_from_stream F (pop_msg a s) s (Some m) = Some a' \<Longrightarrow> sched_step F a a'"
| scheduled: "sctp_ss_scheduled F a net s = Some a' \<Longrightarrow> sched_step F a a'"
| packet_done: "sctp_ss_packet_done F a net = Some a' \<Longrightarrow> sched_step F a a'"
| set_value: "sctp_ss_set_value F a s v = Some (a', r) \<Longrightarrow> sched_step F a a'"
| restart: "sctp_ss_clear F a cv = Some b \<Longrightarrow> sctp_ss_init F b = Some a' \<Longrightarrow> sched_step F a a'"

definition wheel_inv :: "asoc \<Rightarrow> bool" where
  "wheel_inv a \<longleftrightarrow> (\<exists>xs. on_wheel a xs \<and> set xs = busy a) \<and> busy a \<subseteq> set (strmout a)"

lemma wheel_invI:
  "on_wheel a xs \<Longrightarrow> set xs = busy a \<Longrightarrow> busy a \<subseteq> set (strmout a) \<Longrightarrow> wheel_inv a"
  by (auto simp: wheel_inv_def)

lemma push_msg_fields [simp]:
  "wheel (push_msg a s m) = wheel a" "strmout (push_msg a s m) = strmout a"
  "outqueue (strm (push_msg a s m) t) = (if t = s then outqueue (strm a s) @ [m] else outqueue (strm a t))"
  by (simp_all add: push_msg_def)

lemma pop_msg_fields [simp]:
  "wheel (pop_msg a s) = wheel a" "strmout (pop_msg a s) = strmout a"
  "outqueue (strm (pop_msg a s) t) = (if t = s then tl (outqueue (strm a s)) else outqueue (strm a t))"
  by (simp_all add: pop_msg_def)

lemma busy_push: "busy (push_msg a s m) = insert s (busy a)"
  by (auto simp: busy_def)

lemma busy_pop:
  assumes "outqueue (strm a s) = m # ms"
  shows "busy (pop_msg a s) = (if ms = [] then busy a - {s} else busy a)"
  using assms by (auto simp: busy_def)

locale wheel_scheduler =
  fixes F :: ss_functions
  assumes add_law: "adds_to_wheel (sctp_ss_add_to_stream F)"
    and remove_law: "removes_from_wheel (sctp_ss_remove_from_stream F)"
    and scheduled_law: "on_wheel a xs \<Longrightarrow>
      \<exists>a'. sctp_ss_scheduled F a net s = Some a' \<and> same_data a a' \<and> wheel a' = wheel a"
    and packet_done_law: "sctp_ss_packet_done F a net = Some a' \<Longrightarrow> same_data a a' \<and> wheel a' = wheel a"
    and set_value_law: "on_wheel a xs \<Longrightarrow>
      \<exists>a' r ys. sctp_ss_set_value F a t v = Some (a', r) \<and> same_data a a' \<and> on_wheel a' ys \<and>
        (set xs = busy a \<longrightarrow> set ys = busy a)"
    and clear_law: "on_wheel a xs \<Longrightarrow>
      \<exists>a'. sctp_ss_clear F a cv = Some a' \<and> on_wheel a' [] \<and> same_data a a'"
    and init_law: "on_wheel a [] \<Longrightarrow>
      \<exists>a' ys. sctp_ss_init F a = Some a' \<and> on_wheel a' ys \<and> same_data a a' \<and>
        set ys = {s \<in> set (strmout a). outqueue (strm a s) \<noteq> []}"
begin

lemma keep_inv:
  assumes "wheel_inv a" "same_data a a'" "wheel a' = wheel a"
  shows "wheel_inv a'"
  using assms same_data_busy [OF assms(2)] by (auto simp: wheel_inv_def same_data_def)

lemma enqueue_inv:
  assumes "wheel_inv a" "s \<in> set (strmout a)"
  shows "\<exists>a'. sctp_ss_add_to_stream F (push_msg a s m) s sp = Some a' \<and> wheel_inv a'"
proof -
  obtain xs where xs: "on_wheel a xs" "set xs = busy a" using assms by (auto simp: wheel_inv_def)
  obtain a' xs' where a': "sctp_ss_add_to_stream F (push_msg a s m) s sp = Some a'" "on_wheel a' xs'"
    "same_data (push_msg a s m) a'" "set xs' = set xs \<union> {s}"
    using add_law [unfolded adds_to_wheel_def, rule_format, of "push_msg a s m" xs s sp] xs(1)
    by auto
  moreover have "strmout a' = strmout a"
    using a'(3) by (simp add: same_data_def)
  ultimately have "wheel_inv a'"
    using xs assms same_data_busy [OF a'(3)]
    by (intro wheel_invI) (auto simp: busy_push wheel_inv_def)
  with a' show ?thesis by blast
qed

lemma dequeue_inv:
  assumes "wheel_inv a" "outqueue (strm a s) = m # ms"
  shows "\<exists>a'. sctp_ss_remove_from_stream F (pop_msg a s) s sp = Some a' \<and> wheel_inv a'"
proof -
  obtain xs where xs: "on_wheel a xs" "set xs = busy a" using assms by (auto simp: wheel_inv_def)
  have d: "distinct xs" using tq.repr_distinct [OF tq.tidyD [OF xs(1)]] .
  have w: "on_wheel (pop_msg a s) xs" using xs(1) by simp
  obtain a' where a': "sctp_ss_remove_from_stream F (pop_msg a s) s sp = Some a'"
    "same_data (pop_msg a s) a'" "on_wheel a' (if ms = [] then remove1 s xs else xs)"
    using remove_law [unfolded removes_from_wheel_def, rule_format, OF w, of s sp] assms(2)
    by auto
  moreover have "strmout a' = strmout a"
    using a'(2) by (simp add: same_data_def)
  ultimately have "wheel_inv a'"
    using xs assms d same_data_busy [OF a'(2)]
    by (intro wheel_invI [OF a'(3)]) (auto simp: busy_pop wheel_inv_def)
  with a' show ?thesis by blast
qed

lemma restart_inv:
  assumes "wheel_inv a"
  shows "\<exists>b a'. sctp_ss_clear F a cv = Some b \<and> sctp_ss_init F b = Some a' \<and> wheel_inv a'"
proof -
  obtain xs where xs: "on_wheel a xs" using assms by (auto simp: wheel_inv_def)
  obtain b where b: "sctp_ss_clear F a cv = Some b" "on_wheel b []" "same_data a b"
    using clear_law [OF xs] by blast
  obtain a' ys where a': "sctp_ss_init F b = Some a'" "on_wheel a' ys" "same_data b a'"
    "set ys = {s \<in> set (strmout b). outqueue (strm b s) \<noteq> []}"
    using init_law [OF b(2)] by blast
  have ab: "same_data a a'" using b(3) a'(3) by (rule same_data_trans)
  have "busy a' = busy a" "strmout a' = strmout a" "strmout b = strmout a" "busy b = busy a"
    using ab b(3) same_data_busy by (auto simp: same_data_def)
  then have "wheel_inv a'"
    using a'(2,4) assms by (intro wheel_invI) (auto simp: wheel_inv_def busy_def)
  with b a' show ?thesis by blast
qed

lemma set_value_inv:
  assumes "wheel_inv a" "sctp_ss_set_value F a t v = Some (a', r)"
  shows "wheel_inv a'"
proof -
  obtain xs where xs: "on_wheel a xs" "set xs = busy a" using assms by (auto simp: wheel_inv_def)
  obtain ys where ys: "same_data a a'" "on_wheel a' ys" "set ys = busy a"
    using set_value_law [OF xs(1), of t v] assms(2) xs(2) by auto
  moreover have "strmout a' = strmout a" using ys(1) by (simp add: same_data_def)
  ultimately show ?thesis
    using assms(1) same_data_busy [OF ys(1)] by (intro wheel_invI [OF ys(2)]) (auto simp: wheel_inv_def)
qed

lemma step_inv: "sched_step F a a' \<Longrightarrow> wheel_inv a \<Longrightarrow> wheel_inv a'"
proof (induction rule: sched_step.induct)
  case (enqueue s a m a')
  then show ?case using enqueue_inv [of a s m "Some m"] by auto
next
  case (dequeue a s m ms a')
  then show ?case using dequeue_inv [of a s m ms "Some m"] by auto
next
  case (scheduled a net s a')
  then obtain xs where "on_wheel a xs" by (auto simp: wheel_inv_def)
  then show ?case using scheduled keep_inv scheduled_law [of a xs net s] by auto
next
  case (packet_done a net a')
  then show ?case using keep_inv packet_done_law by blast
next
  case (set_value a s v a' r)
  then show ?case using set_value_inv by blast
next
  case (restart a cv b a')
  then show ?case using restart_inv [of a cv] by auto
qed

lemma run_inv: "(sched_step F)\<^sup>*\<^sup>* a a' \<Longrightarrow> wheel_inv a \<Longrightarrow> wheel_inv a'"
  by (induction rule: rtranclp_induct) (auto dest: step_inv)

end

section \<open>The rows of the table meet the contract\<close>

lemma rrp_again_keeps:
  assumes "rrp_again a net p = Some a'"
  shows "same_data a a' \<and> wheel a' = wheel a"
proof (rule rrp_again.raw_induct [where P = "\<lambda>a net p a'. same_data a a' \<and> wheel a' = wheel a", OF _ assms])
  fix f a net p a'
  assume IH: "\<And>a net p a'. f a net p = Some a' \<Longrightarrow> same_data a a' \<and> wheel a' = wheel a"
    and eq: "(let strq = next_on_wheel a p in
      if net_mismatch a net strq then
        (if strq = last_out_stream a then Some (a\<lparr>last_out_stream := None\<rparr>) else f a net strq)
      else Some (a\<lparr>last_out_stream := strq\<rparr>)) = Some a'"
  show "same_data a a' \<and> wheel a' = wheel a"
    using eq IH by (auto simp: Let_def split: if_splits)
qed

lemma clear_rows:
  assumes "on_wheel a xs"
  shows "\<exists>a'. sctp_ss_default_clear a cv = Some a' \<and> on_wheel a' [] \<and> same_data a a'"
    and "\<exists>a'. sctp_ss_prio_clear a cv = Some a' \<and> on_wheel a' [] \<and> same_data a a'"
    and "\<exists>a'. sctp_ss_fb_clear a cv = Some a' \<and> on_wheel a' [] \<and> same_data a a'"
proof -
  show "\<exists>a'. sctp_ss_default_clear a cv = Some a' \<and> on_wheel a' [] \<and> same_data a a'"
    using clear_wheel_queue [OF assms, of id] by (auto simp: sctp_ss_default_clear_def)
  show "\<exists>a'. sctp_ss_prio_clear a cv = Some a' \<and> on_wheel a' [] \<and> same_data a a'"
    using clear_wheel_queue [OF assms, of "if cv then (\<lambda>s. s\<lparr>priority := 0\<rparr>) else id"]
    by (auto simp: sctp_ss_prio_clear_def)
  show "\<exists>a'. sctp_ss_fb_clear a cv = Some a' \<and> on_wheel a' [] \<and> same_data a a'"
    using clear_wheel_queue [OF assms, of "if cv then (\<lambda>s. s\<lparr>rounds := -1\<rparr>) else id"]
    by (auto simp: sctp_ss_fb_clear_def)
qed

lemma prio_set_value_queue:
  assumes "on_wheel a xs"
  shows "\<exists>a' r ys. sctp_ss_prio_set_value a t v = Some (a', r) \<and> same_data a a' \<and> on_wheel a' ys \<and>
        (set xs = busy a \<longrightarrow> set ys = busy a)"
proof (cases t)
  case None
  then show ?thesis using assms by (auto simp: sctp_ss_prio_set_value_def)
next
  case (Some s)
  let ?a = "upd_strm a s (\<lambda>x. x\<lparr>priority := v\<rparr>)"
  have sd: "same_data a ?a" by (rule same_data_upd_strm) simp_all
  have w: "on_wheel ?a xs" using assms by simp
  have d: "distinct xs" using tq.repr_distinct [OF tq.tidyD [OF assms]] .
  obtain b where b: "sctp_ss_prio_remove ?a s None = Some b" "same_data ?a b"
    "on_wheel b (if outqueue (strm a s) = [] then remove1 s xs else xs)"
    using removes_default [unfolded removes_from_wheel_def, rule_format, OF w, of s None]
    by (auto simp: remove_bodies)
  obtain a' ys where a': "sctp_ss_prio_add b s None = Some a'" "same_data b a'" "on_wheel a' ys"
    "set ys = set (if outqueue (strm a s) = [] then remove1 s xs else xs) \<union>
       (if outqueue (strm b s) \<noteq> [] then {s} else {})"
    using adds_prio [unfolded adds_to_wheel_def, rule_format, OF b(3), of s None] by blast
  have "outqueue (strm b s) = outqueue (strm a s)"
    using b(2) sd by (simp add: same_data_def)
  then have "set xs = busy a \<longrightarrow> set ys = busy a"
    using a'(4) d by (auto simp: busy_def)
  moreover have "same_data a a'"
    using sd b(2) a'(2) same_data_trans by blast
  ultimately show ?thesis
    using Some b a' by (auto simp: sctp_ss_prio_set_value_def)
qed

lemmas row_defs = sctp_ss_functions_def sctp_ss_default_def

lemmas row_laws = adds_default adds_rr adds_prio adds_fb removes_default remove_bodies
  clear_rows prio_set_value_queue

interpretation ss_dflt: wheel_scheduler "sctp_ss_functions ! 0"
  by unfold_locales
    (simp_all add: row_defs row_laws sctp_ss_default_scheduled_def sctp_ss_default_packet_done_def
      sctp_ss_default_set_value_def, (use default_init_queue [OF _ adds_default] in blast)+)

interpretation ss_rr: wheel_scheduler "sctp_ss_functions ! 1"
  by unfold_locales
    (simp_all add: row_defs row_laws sctp_ss_default_scheduled_def sctp_ss_default_packet_done_def
      sctp_ss_default_set_value_def, (use default_init_queue [OF _ adds_rr] in blast)+)

interpretation ss_rrp: wheel_scheduler "sctp_ss_functions ! 2"
  by unfold_locales
    (simp_all add: row_defs row_laws sctp_ss_default_scheduled_def sctp_ss_rrp_packet_done_def
      rrp_again_keeps sctp_ss_default_set_value_def, (use default_init_queue [OF _ adds_rr] in blast)+)

interpretation ss_prio: wheel_scheduler "sctp_ss_functions ! 3"
  by unfold_locales
    (simp_all add: row_defs row_laws sctp_ss_default_scheduled_def sctp_ss_default_packet_done_def,
      (use default_init_queue [OF _ adds_prio] prio_set_value_queue in blast)+)

interpretation ss_fb: wheel_scheduler "sctp_ss_functions ! 4"
proof
  fix a :: asoc and xs net s assume "on_wheel a xs"
  then show "\<exists>a'. sctp_ss_scheduled (sctp_ss_functions ! 4) a net s = Some a' \<and> same_data a a' \<and>
      wheel a' = wheel a"
    using fb_scheduled_queue [of a xs net s] by (auto simp: row_defs)
qed (simp_all add: row_defs row_laws sctp_ss_default_packet_done_def sctp_ss_default_set_value_def,
    (use default_init_queue [OF _ adds_fb] in blast)+)

end
