(* ===== verification/Sched_Select.thy ===== *)
theory Sched_Select
  imports Sched_Wheel
begin

text \<open>
  What the selectors return. The round-robin selectors walk the wheel in cyclic order from
  the stream served last; the cyclic order is \<open>turn_order\<close>. They return the first stream
  whose head message may go to the requested destination, and the walk ends exactly when
  such a stream exists, the wheel is empty, or the stream served last is on the wheel.
\<close>

section \<open>Cyclic order\<close>

definition index_of :: "nat list \<Rightarrow> nat \<Rightarrow> nat" where
  "index_of xs t = length (takeWhile (\<lambda>x. x \<noteq> t) xs)"

definition turn_order :: "nat list \<Rightarrow> nat option \<Rightarrow> nat list" where
  "turn_order xs p =
     (case p of None \<Rightarrow> xs | Some t \<Rightarrow> if t \<in> set xs then rotate (Suc (index_of xs t)) xs else xs)"

lemma index_of_split: "t \<notin> set us \<Longrightarrow> index_of (us @ t # vs) t = length us"
  by (induction us) (auto simp: index_of_def)

lemma index_of_bound: "t \<in> set xs \<Longrightarrow> index_of xs t < length xs"
  and nth_index_of: "t \<in> set xs \<Longrightarrow> xs ! index_of xs t = t"
  by (auto dest!: split_list_first simp: index_of_split nth_append)

lemma index_of_nth: "distinct xs \<Longrightarrow> i < length xs \<Longrightarrow> index_of xs (xs ! i) = i"
  by (metis index_of_bound nth_eq_iff_index_eq nth_index_of nth_mem)

lemma set_turn_order [simp]: "set (turn_order xs p) = set xs"
  by (auto simp: turn_order_def split: option.splits)

lemma length_turn_order [simp]: "length (turn_order xs p) = length xs"
  by (auto simp: turn_order_def split: option.splits)

lemma distinct_turn_order [simp]: "distinct (turn_order xs p) = distinct xs"
  by (auto simp: turn_order_def split: option.splits)

lemma turn_order_Nil [simp]: "turn_order [] p = []"
  by (simp add: turn_order_def split: option.splits)

lemma first_of_nth: "xs \<noteq> [] \<Longrightarrow> first_of xs = Some (xs ! 0)"
  by (cases xs) auto

lemma first_turn_order:
  assumes "distinct xs" "i < length xs"
  shows "first_of (turn_order xs (Some (xs ! i))) = Some (xs ! (Suc i mod length xs))"
proof -
  have "xs \<noteq> []" using assms by auto
  then show ?thesis
    using assms by (simp add: turn_order_def index_of_nth first_of_nth nth_rotate del: rotate_Suc)
qed

lemma turn_order_last:
  assumes "t \<in> set xs"
  shows "last (turn_order xs (Some t)) = t"
proof -
  let ?n = "length xs" and ?i = "index_of xs t"
  have ne: "xs \<noteq> []" and i: "?i < ?n" using assms index_of_bound by auto
  have "Suc ?i + (?n - 1) = ?i + ?n" using ne by (cases xs) auto
  then have "(Suc ?i + (?n - 1)) mod ?n = ?i" using i by simp
  then have "rotate (Suc ?i) xs ! (?n - 1) = t"
    using ne assms by (simp add: nth_rotate nth_index_of del: rotate_Suc)
  then show ?thesis
    using ne assms by (simp add: turn_order_def last_conv_nth del: rotate_Suc)
qed

lemma next_on_wheel_eq:
  assumes "on_wheel a xs"
  shows "next_on_wheel a p = first_of (turn_order xs p)"
proof -
  have rep: "tailq_rep (wheel a) xs" using assms by (rule tq.tidyD)
  then have d: "distinct xs" by (rule tq.repr_distinct)
  have f: "TAILQ_FIRST (wheel a) = first_of xs" using rep by (rule rep_first)
  show ?thesis
  proof (cases "\<exists>t. p = Some t \<and> t \<in> set xs")
    case True
    then obtain t where t: "p = Some t" "t \<in> set xs" by blast
    then obtain us vs where xs: "xs = us @ t # vs" "t \<notin> set us" by (meson split_list_first)
    have "TAILQ_NEXT (wheel a) t = first_of vs"
      using rep_next [OF rep t(2)] xs by (simp add: next_in_split)
    moreover have "t = xs ! length us" using xs by simp
    then have "first_of (turn_order xs (Some t)) = Some (xs ! (Suc (length us) mod length xs))"
      using first_turn_order [OF d, of "length us"] xs by simp
    ultimately show ?thesis
      using t xs f by (cases vs) (auto simp: next_on_wheel_def nth_append first_of_nth)
  next
    case False
    have "TAILQ_NEXT (wheel a) t = None" if "p = Some t" for t
      using assms False that by (intro tq.not_queued_next) (simp add: tq.tidy_queued_iff)
    then show ?thesis
      using False f by (auto simp: next_on_wheel_def turn_order_def split: option.splits)
  qed
qed

text \<open>Inside a cyclic order, the successor of an element is the next one of the order.\<close>

lemma turn_order_step:
  assumes "distinct xs" "Suc j < length xs"
  shows "first_of (turn_order xs (Some (turn_order xs p ! j))) = Some (turn_order xs p ! Suc j)"
proof -
  obtain k where k: "\<And>j. j < length xs \<Longrightarrow> turn_order xs p ! j = xs ! ((k + j) mod length xs)"
  proof (cases "\<exists>t. p = Some t \<and> t \<in> set xs")
    case True
    then obtain t where "p = Some t" "t \<in> set xs" by blast
    then show ?thesis
      using that [of "Suc (index_of xs t)"] by (simp add: turn_order_def nth_rotate del: rotate_Suc)
  next
    case False
    then have "turn_order xs p = xs" by (auto simp: turn_order_def split: option.splits)
    then show ?thesis using that [of 0] by simp
  qed
  have "(k + j) mod length xs < length xs"
    using assms(2) by (metis Suc_lessD less_nat_zero_code mod_less_divisor neq0_conv)
  then show ?thesis
    using assms k [of j] k [of "Suc j"] first_turn_order [OF assms(1), of "(k + j) mod length xs"]
    by (simp add: mod_Suc_eq)
qed

section \<open>Round-robin selection\<close>

abbreviation sendable :: "asoc \<Rightarrow> nat option \<Rightarrow> nat \<Rightarrow> bool" where
  "sendable a net s \<equiv> \<not> net_mismatch a net (Some s)"

text \<open>The walk from position \<open>j\<close> of the cyclic order, as long as only mismatches came before.\<close>

lemma default_again_walk:
  assumes w: "on_wheel a xs" and o: "os = turn_order xs (last_out_stream a)"
    and nx: "next_on_wheel a p = Some (os ! j)" and j: "j < length os"
  shows "default_again a net p =
    (case filter (sendable a net) (drop j os) of
       s # _ \<Rightarrow> Some (Some s)
     | [] \<Rightarrow> (if last_out_stream a \<in> Some ` set xs then Some None
             else default_again a net (Some (last os))))"
  using nx j
proof (induction "length os - Suc j" arbitrary: j p)
  case 0
  then have js: "j = length os - 1" "drop j os = [os ! j]"
    by (auto simp: Cons_nth_drop_Suc [symmetric])
  then have js': "os ! j = last os" using 0 by (metis last_conv_nth less_nat_zero_code list.size(3))
  have last: "Some (last os) = last_out_stream a \<longleftrightarrow> last_out_stream a \<in> Some ` set xs"
    using turn_order_last 0 o
    by (metis (no_types, lifting) imageE image_eqI last_in_set length_0_conv less_nat_zero_code set_turn_order)
  show ?case
    using 0 js js' last by (subst default_again.simps) (auto simp: Let_def)
next
  case (Suc n)
  have d: "distinct xs" using tq.repr_distinct [OF tq.tidyD [OF w]] .
  have j': "Suc j < length xs" using Suc.hyps(2) o by simp
  have dr: "drop j os = os ! j # drop (Suc j) os"
    using Suc.prems by (simp add: Cons_nth_drop_Suc)
  have nx': "next_on_wheel a (Some (os ! j)) = Some (os ! Suc j)"
    using next_on_wheel_eq [OF w] turn_order_step [OF d j'] o by simp
  have IH: "default_again a net (Some (os ! j)) =
    (case filter (sendable a net) (drop (Suc j) os) of s # _ \<Rightarrow> Some (Some s)
     | [] \<Rightarrow> (if last_out_stream a \<in> Some ` set xs then Some None
             else default_again a net (Some (last os))))"
    using Suc.hyps(1) [OF _ nx'] Suc.hyps(2) j' o by simp
  have "Some (os ! j) \<noteq> last_out_stream a"
  proof
    assume "Some (os ! j) = last_out_stream a"
    then have "last os = os ! j" using turn_order_last o Suc.prems by (metis nth_mem set_turn_order)
    then show False using d o j' Suc.prems
      by (metis One_nat_def Suc_lessE diff_Suc_1 distinct_turn_order last_conv_nth length_greater_0_conv
          length_turn_order less_not_refl nth_eq_iff_index_eq zero_less_Suc lessI)
  qed
  then show ?case
    using Suc.prems IH dr by (subst default_again.simps) (auto simp: Let_def)
qed

text \<open>
  No result: with every stream bound elsewhere and the last-served stream off the wheel, the
  test that stops the walk never succeeds.
\<close>

lemma default_again_diverges:
  assumes "on_wheel a xs" "xs \<noteq> []" "\<And>s. s \<in> set xs \<Longrightarrow> \<not> sendable a net s"
    "last_out_stream a \<notin> Some ` set xs"
  shows "default_again a net p = None"
proof (rule ccontr)
  assume "default_again a net p \<noteq> None"
  then obtain r where r: "default_again a net p = Some r" by blast
  have "\<not> (a' = a \<and> net' = net)" if "default_again a' net' p' = Some r'" for a' net' p' r'
  proof (rule default_again.raw_induct [where P = "\<lambda>a' net' p' r'. \<not> (a' = a \<and> net' = net)", OF _ that])
    fix f a' net' p' r'
    assume IH: "\<And>a' net' p' r'. f a' net' p' = Some r' \<Longrightarrow> \<not> (a' = a \<and> net' = net)"
      and eq: "(let strq = next_on_wheel a' p' in
        if net_mismatch a' net' strq then
          (if strq = last_out_stream a' then Some None else f a' net' strq)
        else Some strq) = Some r'"
    show "\<not> (a' = a \<and> net' = net)"
    proof
      assume same: "a' = a \<and> net' = net"
      obtain s where s: "next_on_wheel a p' = Some s" "s \<in> set xs"
        using next_on_wheel_eq [OF assms(1), of p'] assms(2)
        by (metis first_of_nth length_greater_0_conv length_turn_order nth_mem set_turn_order)
      moreover have "last_out_stream a \<noteq> Some s" using s(2) assms(4) by auto
      ultimately have "f a net (Some s) = Some r'"
        using eq same assms(3) [OF s(2)] by (simp add: Let_def split: if_splits)
      then show False using IH by blast
    qed
  qed
  then show False using r by blast
qed

lemma default_again_result:
  assumes "on_wheel a xs"
  shows "default_again a net (last_out_stream a) =
    (case filter (sendable a net) (turn_order xs (last_out_stream a)) of
       s # _ \<Rightarrow> Some (Some s)
     | [] \<Rightarrow> (if xs = [] \<or> last_out_stream a \<in> Some ` set xs then Some None else None))"
proof (cases "xs = []")
  case True
  then show ?thesis
    using next_on_wheel_eq [OF assms] by (subst default_again.simps) (simp add: Let_def net_mismatch_def split: option.splits)
next
  case False
  let ?os = "turn_order xs (last_out_stream a)"
  have ne: "0 < length ?os" using False by simp
  have nx: "next_on_wheel a (last_out_stream a) = Some (?os ! 0)"
    using next_on_wheel_eq [OF assms] ne by (metis first_of_nth length_greater_0_conv)
  show ?thesis
  proof (cases "filter (sendable a net) ?os = [] \<and> last_out_stream a \<notin> Some ` set xs")
    case True
    then have "\<not> sendable a net s" if "s \<in> set xs" for s
      using that by (metis filter_empty_conv set_turn_order)
    then have "default_again a net (last_out_stream a) = None"
      using default_again_diverges [OF assms False] True by blast
    then show ?thesis using True False by (simp only: list.case) simp
  next
    case f: False
    show ?thesis
      using default_again_walk [OF assms refl nx ne, of net] f False
      by (cases "filter (sendable a net) ?os") auto
  qed
qed

lemma rrp_again_eq: "rrp_again a net p = map_option (\<lambda>s. a\<lparr>last_out_stream := s\<rparr>) (default_again a net p)"
proof -
  have 1: "default_again a net p = Some s \<Longrightarrow> rrp_again a net p = Some (a\<lparr>last_out_stream := s\<rparr>)" for s
  proof -
    assume "default_again a net p = Some s"
    then show ?thesis
    proof (rule default_again.raw_induct
        [where P = "\<lambda>a net p s. rrp_again a net p = Some (a\<lparr>last_out_stream := s\<rparr>)", rotated])
      fix f a net p s
      assume IH: "\<And>a net p s. f a net p = Some s \<Longrightarrow> rrp_again a net p = Some (a\<lparr>last_out_stream := s\<rparr>)"
        and eq: "(let strq = next_on_wheel a p in
          if net_mismatch a net strq then
            (if strq = last_out_stream a then Some None else f a net strq)
          else Some strq) = Some s"
      show "rrp_again a net p = Some (a\<lparr>last_out_stream := s\<rparr>)"
        using eq IH by (subst rrp_again.simps) (auto simp: Let_def split: if_splits)
    qed
  qed
  have 2: "rrp_again a net p = Some b \<Longrightarrow> \<exists>s. default_again a net p = Some s" for b
  proof -
    assume "rrp_again a net p = Some b"
    then show ?thesis
    proof (rule rrp_again.raw_induct
        [where P = "\<lambda>a net p b. \<exists>s. default_again a net p = Some s", rotated])
      fix f a net p b
      assume IH: "\<And>a net p b. f a net p = Some b \<Longrightarrow> \<exists>s. default_again a net p = Some s"
        and eq: "(let strq = next_on_wheel a p in
          if net_mismatch a net strq then
            (if strq = last_out_stream a then Some (a\<lparr>last_out_stream := None\<rparr>) else f a net strq)
          else Some (a\<lparr>last_out_stream := strq\<rparr>)) = Some b"
      show "\<exists>s. default_again a net p = Some s"
        using eq IH by (subst default_again.simps) (auto simp: Let_def split: if_splits)
    qed
  qed
  show ?thesis using 1 2 by (cases "default_again a net p"; cases "rrp_again a net p") auto
qed

section \<open>Order of the wheel\<close>

lemma sorted_ordered_insert:
  fixes key :: "nat \<Rightarrow> 'k::linorder"
  assumes "sorted (map key xs)"
  shows "sorted (map key (takeWhile (\<lambda>t. key t < key s) xs @ s # dropWhile (\<lambda>t. key t < key s) xs))"
proof -
  let ?c = "\<lambda>t. key t < key s"
  have "sorted (map key (takeWhile ?c xs @ dropWhile ?c xs))"
    using assms by (simp only: takeWhile_dropWhile_id)
  then have *: "sorted (map key (takeWhile ?c xs))" "sorted (map key (dropWhile ?c xs))"
    "\<And>x y. x \<in> set (takeWhile ?c xs) \<Longrightarrow> y \<in> set (dropWhile ?c xs) \<Longrightarrow> key x \<le> key y"
    unfolding map_append sorted_append by auto
  have ge: "key s \<le> key y" if "y \<in> set (dropWhile ?c xs)" for y
  proof -
    from that obtain z zs where z: "dropWhile ?c xs = z # zs" by (cases "dropWhile ?c xs") auto
    then have "\<not> ?c z" by (metis dropWhile_eq_Cons_conv)
    moreover have "key z \<le> key y" using *(2) z that by auto
    ultimately show ?thesis by (meson dual_order.trans not_less)
  qed
  have "key x \<le> key s" if "x \<in> set (takeWhile ?c xs)" for x
    using that by (metis less_imp_le set_takeWhileD)
  then show ?thesis using * ge by (auto simp: sorted_append)
qed

lemma sorted_remove1_key: "sorted (map key xs) \<Longrightarrow> sorted (map key (remove1 s xs))"
  by (induction xs) (auto dest: notin_set_remove1 simp: sorted_map_remove1)

end
