(* ===== verification/Sched_Prio.thy ===== *)
theory Sched_Prio
  imports Sched_Select
begin

text \<open>
  The walk of the priority selector over a wheel sorted by priority value: the streams behind the one served last that share
  its value, then the streams of the smallest value, again and again. Streams of any other value are never reached. The walk
  ends exactly when it meets a stream for the destination, the wheel is empty, or the stream served last has the smallest value.
\<close>

section \<open>Groups of equal priority\<close>

definition peers :: "asoc \<Rightarrow> nat list \<Rightarrow> nat \<Rightarrow> nat list" where
  "peers a xs l = filter (\<lambda>s. priority (strm a s) = priority (strm a l)) xs"

definition top_group :: "asoc \<Rightarrow> nat list \<Rightarrow> nat list" where
  "top_group a xs = (case xs of [] \<Rightarrow> [] | h # _ \<Rightarrow> peers a xs h)"

definition prio_turn :: "asoc \<Rightarrow> nat list \<Rightarrow> nat option \<Rightarrow> nat list" where
  "prio_turn a xs p =
     (case p of None \<Rightarrow> [] | Some l \<Rightarrow> tl (dropWhile (\<lambda>s. s \<noteq> l) (peers a xs l))) @ top_group a xs"

lemma sorted_groups:
  fixes f :: "nat \<Rightarrow> 'k :: linorder"
  assumes "sorted (map f xs)"
  shows "xs = filter (\<lambda>s. f s < v) xs @ filter (\<lambda>s. f s = v) xs @ filter (\<lambda>s. v < f s) xs"
  using assms
proof (induction xs)
  case (Cons x xs)
  have ge: "\<forall>s\<in>set xs. f x \<le> f s" using Cons.prems by simp
  have IH: "xs = filter (\<lambda>s. f s < v) xs @ filter (\<lambda>s. f s = v) xs @ filter (\<lambda>s. v < f s) xs" using Cons by simp
  consider "f x < v" | "f x = v" | "v < f x" by (rule linorder_cases)
  then show ?case
  proof cases
    case 1
    then have "f x \<noteq> v" "\<not> v < f x" by auto
    then show ?thesis using IH [symmetric] 1 by simp
  next
    case 2
    then have "filter (\<lambda>s. f s < v) xs = []" using ge by (auto simp: filter_empty_conv)
    then show ?thesis using IH [symmetric] 2 by simp
  next
    case 3
    then have "filter (\<lambda>s. f s < v) xs = []" "filter (\<lambda>s. f s = v) xs = []" using ge by (fastforce simp: filter_empty_conv)+
    moreover from 3 have "f x \<noteq> v" "\<not> f x < v" by auto
    ultimately show ?thesis using IH [symmetric] 3 by simp
  qed
qed simp

text \<open>Where a stream \<open>l\<close> of the wheel stands among its peers.\<close>

lemma peers_split:
  assumes "sorted (map (\<lambda>s. priority (strm a s)) xs)" "l \<in> set xs" "distinct xs"
  obtains lo us ws hi where "xs = lo @ us @ l # ws @ hi" "peers a xs l = us @ l # ws" "l \<notin> set us" "l \<notin> set ws"
    "\<forall>s\<in>set hi. priority (strm a s) \<noteq> priority (strm a l)"
proof -
  let ?f = "\<lambda>s. priority (strm a s)"
  have "l \<in> set (peers a xs l)" using assms(2) by (simp add: peers_def)
  then obtain us ws where uw: "peers a xs l = us @ l # ws" by (meson split_list)
  moreover have "distinct (peers a xs l)" using assms(3) by (simp add: peers_def)
  ultimately have "l \<notin> set us" "l \<notin> set ws" by auto
  moreover have "xs = filter (\<lambda>s. ?f s < ?f l) xs @ us @ l # ws @ filter (\<lambda>s. ?f l < ?f s) xs"
    using sorted_groups [OF assms(1), of "?f l"] uw by (simp add: peers_def)
  ultimately show ?thesis using that uw by fastforce
qed

lemma top_split:
  assumes "sorted (map (\<lambda>s. priority (strm a s)) (h # xs))"
  obtains ws hi where "h # xs = h # ws @ hi" "top_group a (h # xs) = h # ws" "\<forall>s\<in>set ws. priority (strm a s) = priority (strm a h)"
    "\<forall>s\<in>set hi. priority (strm a s) \<noteq> priority (strm a h)"
proof -
  let ?f = "\<lambda>s. priority (strm a s)"
  let ?ws = "filter (\<lambda>s. ?f s = ?f h) xs" and ?hi = "filter (\<lambda>s. ?f h < ?f s) xs"
  have "filter (\<lambda>s. ?f s < ?f h) (h # xs) = []" using assms by (auto simp: filter_empty_conv)
  then have "?ws @ ?hi = xs" using sorted_groups [OF assms, of "?f h", symmetric] by simp
  then show ?thesis by (intro that [of ?ws ?hi]) (auto simp: top_group_def peers_def)
qed

section \<open>Steps of the walk\<close>

lemma next_peer:
  assumes "on_wheel a (us @ t # vs)"
  shows "next_same_priority a (Some t) =
    (case vs of n # _ \<Rightarrow> if priority (strm a n) = priority (strm a t) then Some n else first_of (us @ t # vs)
     | [] \<Rightarrow> first_of (us @ t # vs))"
proof -
  have rep: "tailq_rep (wheel a) (us @ t # vs)" using assms by (rule tq.tidyD)
  have "t \<notin> set us" using tq.repr_distinct [OF rep] by simp
  then have "TAILQ_NEXT (wheel a) t = first_of vs" using rep_next [OF rep] by (simp add: next_in_split)
  then show ?thesis using rep_first [OF rep] by (cases vs) (simp_all add: next_same_priority_def)
qed

text \<open>Behind the last stream of a group, and from a stream off the wheel, the walk goes to the head.\<close>

lemma walk_to_head: "next_same_priority a p = next_same_priority a None \<Longrightarrow> prio_again a net p = prio_again a net None"
  by (subst (1 2) prio_again.simps) simp

lemma walk_peers:
  assumes "on_wheel a (us @ t # ws @ vs)" "\<forall>s\<in>set ws. priority (strm a s) = priority (strm a t)" "last_out_stream a \<notin> Some ` set ws"
  shows "prio_again a net (Some t) =
    (case filter (sendable a net) ws of s # _ \<Rightarrow> Some (Some s) | [] \<Rightarrow> prio_again a net (Some (last (t # ws))))"
  using assms
proof (induction ws arbitrary: us t)
  case (Cons n ws)
  have "next_same_priority a (Some t) = Some n" using next_peer [OF Cons.prems(1)] Cons.prems(2) by simp
  then have "prio_again a net (Some t) = (if sendable a net n then Some (Some n) else prio_again a net (Some n))"
    using Cons.prems(3) by (subst prio_again.simps) (auto simp: Let_def)
  then show ?case using Cons.IH [of "us @ [t]" n] Cons.prems by (simp split: list.split)
qed simp

lemma walk_group:
  assumes "on_wheel a (us @ t # ws @ vs)" "\<forall>s\<in>set ws. priority (strm a s) = priority (strm a t)" "last_out_stream a \<notin> Some ` set ws"
    and "\<forall>s\<in>set vs. priority (strm a s) \<noteq> priority (strm a t)"
  shows "prio_again a net (Some t) =
    (case filter (sendable a net) ws of s # _ \<Rightarrow> Some (Some s) | [] \<Rightarrow> prio_again a net None)"
proof -
  obtain zs z where z: "t # ws = zs @ [z]" "z = last (t # ws)" by (metis append_butlast_last_id list.distinct(1))
  then have same: "priority (strm a z) = priority (strm a t)" using assms(2) by (metis in_set_conv_decomp set_ConsD)
  have w: "on_wheel a ((us @ zs) @ z # vs)" using assms(1) z(1) by (metis append.assoc append_Cons append_Nil)
  have "next_same_priority a None = first_of ((us @ zs) @ z # vs)"
    using rep_first [OF tq.tidyD [OF w]] by (simp add: next_same_priority_def)
  then have "next_same_priority a (Some z) = next_same_priority a None"
    using next_peer [OF w] assms(4) same by (auto split: list.splits)
  from walk_to_head [OF this] show ?thesis using walk_peers [OF assms(1-3)] z(2) by (simp split: list.splits)
qed

section \<open>Rounds over the streams of the smallest value\<close>

lemma head_diverges:
  assumes "on_wheel a (h # ws @ hi)" "\<forall>s\<in>set ws. priority (strm a s) = priority (strm a h)"
    "\<forall>s\<in>set hi. priority (strm a s) \<noteq> priority (strm a h)"
    and "\<And>s. s \<in> set (h # ws) \<Longrightarrow> \<not> sendable a net s" "last_out_stream a \<notin> Some ` set (h # ws)"
  shows "prio_again a net None = None"
proof (rule ccontr)
  let ?in = "\<lambda>p. p = None \<or> p \<in> Some ` set (h # ws)"
  have step: "\<exists>s. next_same_priority a p = Some s \<and> s \<in> set (h # ws)" if p: "?in p" for p
  proof (cases p)
    case None
    then show ?thesis using rep_first [OF tq.tidyD [OF assms(1)]] by (simp add: next_same_priority_def)
  next
    case (Some t)
    then have "t \<in> set (h # ws)" using p by auto
    then obtain us vs where t: "h # ws = us @ t # vs" by (meson split_list)
    then have same: "priority (strm a t) = priority (strm a h)" using assms(2) by (metis in_set_conv_decomp set_ConsD)
    have w: "on_wheel a (us @ t # vs @ hi)" using assms(1) t by (metis append.assoc append_Cons)
    have "first_of (us @ t # vs @ hi) = Some h" using t by (metis append.assoc append_Cons first_of_simps(2))
    moreover have "set vs \<subseteq> set (h # ws)" using t by (metis set_append set_subset_Cons Un_upper2 order_trans)
    ultimately show ?thesis
      using next_peer [OF w] Some assms(3) same by (cases vs; cases hi) auto
  qed
  assume "prio_again a net None \<noteq> None"
  then obtain r where r: "prio_again a net None = Some r" by blast
  have "\<not> (a' = a \<and> net' = net \<and> ?in p')" if "prio_again a' net' p' = Some r'" for a' net' p' r'
  proof (rule prio_again.raw_induct [where P = "\<lambda>a' net' p' r'. \<not> (a' = a \<and> net' = net \<and> ?in p')", OF _ that])
    fix f a' net' p' r'
    assume IH: "\<And>a' net' p' r'. f a' net' p' = Some r' \<Longrightarrow> \<not> (a' = a \<and> net' = net \<and> ?in p')"
      and eq: "(let strq = next_same_priority a' p' in
        if net_mismatch a' net' strq then (if strq = last_out_stream a' then Some None else f a' net' strq) else Some strq) = Some r'"
    show "\<not> (a' = a \<and> net' = net \<and> ?in p')"
    proof
      assume same: "a' = a \<and> net' = net \<and> ?in p'"
      then obtain s where s: "next_same_priority a p' = Some s" "s \<in> set (h # ws)" using step by blast
      moreover have "last_out_stream a \<noteq> Some s" using s(2) assms(5) by auto
      ultimately have "f a net (Some s) = Some r'" using eq same assms(4) [OF s(2)] by (simp add: Let_def split: if_splits)
      then show False using IH s(2) by blast
    qed
  qed
  then show False using r by blast
qed

text \<open>A round from the head, when the streams behind the one served last are known not to be for the destination.\<close>

lemma head_round:
  assumes "on_wheel a (h # ws @ hi)" "\<forall>s\<in>set ws. priority (strm a s) = priority (strm a h)"
    "\<forall>s\<in>set hi. priority (strm a s) \<noteq> priority (strm a h)"
    and "\<And>l us vs. last_out_stream a = Some l \<Longrightarrow> h # ws = us @ l # vs \<Longrightarrow> filter (sendable a net) vs = []"
  shows "prio_again a net None =
    (case filter (sendable a net) (h # ws) of s # _ \<Rightarrow> Some (Some s)
     | [] \<Rightarrow> if last_out_stream a \<in> Some ` set (h # ws) then Some None else None)"
proof -
  have "next_same_priority a None = Some h"
    using rep_first [OF tq.tidyD [OF assms(1)]] by (simp add: next_same_priority_def)
  then have first: "prio_again a net None =
      (if sendable a net h then Some (Some h) else if last_out_stream a = Some h then Some None else prio_again a net (Some h))"
    by (subst prio_again.simps) (auto simp: Let_def)
  have d: "distinct (h # ws)" using tq.repr_distinct [OF tq.tidyD [OF assms(1)]] by simp
  consider (head) "last_out_stream a = Some h" | (off) "last_out_stream a \<notin> Some ` set (h # ws)"
    | (inside) l us vs where "last_out_stream a = Some l" "ws = us @ l # vs"
    by (metis (no_types, lifting) imageE set_ConsD split_list)
  then show ?thesis
  proof cases
    case head
    then show ?thesis using first assms(4) [of h "[]" ws] by auto
  next
    case off
    show ?thesis
    proof (cases "filter (sendable a net) (h # ws)")
      case Nil
      then have "\<not> sendable a net s" if "s \<in> set (h # ws)" for s using that by (metis filter_empty_conv)
      then have "prio_again a net None = None" by (rule head_diverges [OF assms(1-3) _ off])
      then show ?thesis using off Nil by (simp only: list.case if_False)
    next
      case (Cons s ss)
      then show ?thesis using off first walk_group [of a "[]" h ws hi net] assms(1-3)
        by (auto split: if_splits list.splits)
    qed
  next
    case inside
    have h: "last_out_stream a \<noteq> Some h" using d inside by auto
    have n: "last_out_stream a \<notin> Some ` set us" using d inside by auto
    have w: "on_wheel a ([] @ h # us @ (l # vs @ hi))" using assms(1) inside by simp
    obtain zs z where z: "h # us = zs @ [z]" "z = last (h # us)" by (metis append_butlast_last_id list.distinct(1))
    have wz: "on_wheel a (zs @ z # l # vs @ hi)" using w z(1) by (metis append.assoc append_Cons append_Nil)
    have "priority (strm a z) = priority (strm a h)" using z(2) assms(2) inside(2) by (cases us rule: rev_cases) auto
    then have "next_same_priority a (Some z) = Some l" using next_peer [OF wz] assms(2) inside(2) by simp
    then have "prio_again a net (Some z) = (if sendable a net l then Some (Some l) else Some None)"
      using inside by (subst prio_again.simps) (auto simp: Let_def)
    moreover have "filter (sendable a net) vs = []" using assms(4) [OF inside(1), of "h # us" vs] inside(2) by simp
    ultimately show ?thesis
      using first h walk_peers [OF w _ n] z(2) inside assms(2) by (auto split: list.splits)
  qed
qed

section \<open>The selector\<close>

lemma prio_select_result:
  assumes w: "on_wheel a xs" and s: "sorted (map (\<lambda>s. priority (strm a s)) xs)"
  shows "sctp_ss_prio_select a net =
    (case filter (sendable a net) (prio_turn a xs (last_out_stream a)) of s # _ \<Rightarrow> Some (Some s)
     | [] \<Rightarrow> if xs = [] \<or> last_out_stream a \<in> Some ` set (top_group a xs) then Some None else None)"
proof (cases xs)
  case Nil
  have rep: "tailq_rep (wheel a) []" using w Nil by (auto intro: tq.tidyD)
  have "TAILQ_NEXT (wheel a) t = None" for t using w Nil by (intro tq.not_queued_next) (simp add: tq.tidy_queued_iff)
  then have "next_same_priority a p = None" for p
    using rep_first [OF rep] by (simp add: next_same_priority_def split: option.splits)
  then have "sctp_ss_prio_select a net = Some None"
    unfolding sctp_ss_prio_select_def by (subst prio_again.simps) (simp add: net_mismatch_def Let_def split: option.split)
  then show ?thesis using Nil by (simp add: prio_turn_def peers_def top_group_def split: option.splits)
next
  case (Cons h xs')
  obtain ws hi where t: "xs = h # ws @ hi" "top_group a xs = h # ws" "\<forall>s\<in>set ws. priority (strm a s) = priority (strm a h)"
    "\<forall>s\<in>set hi. priority (strm a s) \<noteq> priority (strm a h)"
    using top_split [of a h xs'] s unfolding Cons by metis
  note round = head_round [OF w [unfolded t(1)] t(3,4)]
  have d: "distinct xs" using tq.repr_distinct [OF tq.tidyD [OF w]] .
  show ?thesis
  proof (cases "\<exists>l. last_out_stream a = Some l \<and> l \<in> set xs")
    case True
    then obtain l where l: "last_out_stream a = Some l" "l \<in> set xs" by blast
    obtain lo us vs hi' where p: "xs = lo @ us @ l # vs @ hi'" "peers a xs l = us @ l # vs" "l \<notin> set us" "l \<notin> set vs"
      "\<forall>s\<in>set hi'. priority (strm a s) \<noteq> priority (strm a l)" using peers_split [OF s l(2) d] by blast
    have turn: "prio_turn a xs (last_out_stream a) = vs @ h # ws" using l p(2,3) t(2) by (simp add: prio_turn_def dropWhile_append)
    have "\<forall>s\<in>set vs. priority (strm a s) = priority (strm a l)" 
    proof
      fix s
      assume "s \<in> set vs"
      then have "s \<in> set (peers a xs l)" using p(2) by simp
      then show "priority (strm a s) = priority (strm a l)" by (simp add: peers_def)
    qed
    then have walk: "sctp_ss_prio_select a net =
        (case filter (sendable a net) vs of s # _ \<Rightarrow> Some (Some s) | [] \<Rightarrow> prio_again a net None)"
      using walk_group [of a "lo @ us" l vs hi' net] w p l by (auto simp: sctp_ss_prio_select_def)
    show ?thesis
    proof (cases "filter (sendable a net) vs")
      case Nil
      have "filter (sendable a net) ws' = []" if "h # ws = us' @ l' # ws'" "last_out_stream a = Some l'" for l' us' ws'
      proof -
        have "l' = l" using that l by simp
        then have "priority (strm a l) = priority (strm a h)" using that(1) t(3) by (metis in_set_conv_decomp set_ConsD)
        then have "peers a xs l = h # ws" using t(2) Cons by (simp add: top_group_def peers_def)
        then have "us @ l # vs = us' @ l # ws'" using p(2) that(1) \<open>l' = l\<close> by simp
        moreover have "distinct (us' @ l # ws')" using d t(1) that(1) \<open>l' = l\<close> by (metis append_Cons distinct_append)
        ultimately have "ws' = vs" by (metis append_eq_Cons_conv append_Cons_eq_iff p(3,4) distinct_append distinct.simps(2) not_distinct_conv_prefix)
        then show ?thesis using Nil by simp
      qed
      then show ?thesis using round [of net] walk turn Nil t(2) Cons by simp
    next
      case Cons
      then show ?thesis using walk turn by simp
    qed
  next
    case False
    have "next_same_priority a (last_out_stream a) = next_same_priority a None"
    proof (cases "last_out_stream a")
      case (Some l)
      then have "TAILQ_NEXT (wheel a) l = None" using w False by (intro tq.not_queued_next) (simp add: tq.tidy_queued_iff)
      then show ?thesis using Some by (simp add: next_same_priority_def)
    qed simp
    then have "sctp_ss_prio_select a net = prio_again a net None" unfolding sctp_ss_prio_select_def by (rule walk_to_head)
    moreover have "prio_turn a xs (last_out_stream a) = h # ws"
    proof (cases "last_out_stream a")
      case (Some l)
      then have "dropWhile (\<lambda>s. s \<noteq> l) (peers a xs l) = []" using False by (auto simp: dropWhile_eq_Nil_conv peers_def)
      then show ?thesis using Some t(2) by (simp only: prio_turn_def option.case list.sel append_Nil)
    qed (simp add: prio_turn_def t(2))
    moreover have n: "last_out_stream a \<notin> Some ` set (h # ws)" using False t(1) by auto
    have "filter (sendable a net) vs = []" if "last_out_stream a = Some l" "h # ws = us @ l # vs" for l us vs
      using n that by (metis image_eqI in_set_conv_decomp)
    from round [OF this] have "prio_again a net None = (case filter (sendable a net) (h # ws) of s # _ \<Rightarrow> Some (Some s) | [] \<Rightarrow> None)"
      using n by (simp only: if_False)
    ultimately show ?thesis using n t(2) Cons by (simp only: list.distinct if_False simp_thms)
  qed
qed

end
