(* ===== verification/Sched_Fair.thy ===== *)
theory Sched_Fair
  imports Sched_Wheel
begin

text \<open>
  Fair bandwidth: the selector walks the wheel once around from the stream after the one served
  last and returns a stream with the fewest outstanding rounds. The walk is analysed for the
  case that every stream of the wheel may be chosen (no destination requested, or CMT on) and
  has a non-negative round count, which \<open>fb_add\<close> establishes and \<open>fb_scheduled\<close> keeps.
\<close>

definition fb_ready :: "asoc \<Rightarrow> nat option \<Rightarrow> nat list \<Rightarrow> bool" where
  "fb_ready a net xs \<longleftrightarrow>
     on_wheel a xs \<and> (\<forall>t \<in> set xs. fb_eligible a net t \<and> 0 \<le> sint (rounds (strm a t)))"

abbreviation credit :: "asoc \<Rightarrow> nat \<Rightarrow> int" where
  "credit a t \<equiv> sint (rounds (strm a t))"

lemma fb_take_ready:
  assumes "fb_ready a net xs" "t \<in> set xs"
  shows "fb_take a net acc (Some t) =
    (case acc of None \<Rightarrow> Some t | Some s \<Rightarrow> if credit a t < credit a s then Some t else Some s)"
  using assms by (auto simp: fb_take_def fb_ready_def split: option.splits)

lemma fb_take_choice:
  assumes "fb_ready a net xs" "t \<in> set xs"
  shows "\<exists>s. fb_take a net acc (Some t) = Some s \<and> (s = t \<or> acc = Some s) \<and>
    credit a s \<le> credit a t \<and> (\<forall>s0. acc = Some s0 \<longrightarrow> credit a s \<le> credit a s0)"
  using fb_take_ready [OF assms, of acc] by (auto split: option.splits)

lemma fb_ready_next:
  assumes "fb_ready a net (pre @ y # ys)"
  shows "TAILQ_NEXT (wheel a) y = first_of ys"
proof -
  have rep: "tailq_rep (wheel a) (pre @ y # ys)"
    using assms by (auto simp: fb_ready_def intro: tq.tidyD)
  then have "y \<notin> set pre" using tq.repr_distinct by fastforce
  then show ?thesis using rep_next [OF rep, of y] by (simp add: next_in_split)
qed

lemma fb_ready_distinct: "fb_ready a net xs \<Longrightarrow> distinct xs"
  using tq.repr_distinct tq.tidyD by (auto simp: fb_ready_def)

lemma fb_ready_first: "fb_ready a net xs \<Longrightarrow> TAILQ_FIRST (wheel a) = first_of xs"
  using tq.first_repr tq.tidyD by (auto simp: fb_ready_def)

text \<open>Walking to the end of the wheel with the best stream so far behind the pointer.\<close>

lemma fb_walk_to_end:
  assumes "fb_ready a net (pre @ ys)" "ys \<noteq> []" "acc \<notin> Some ` set ys"
  shows "\<exists>s. fb_loop a net acc (first_of ys) = fb_loop a net (Some s) None \<and>
     (s \<in> set ys \<or> Some s = acc) \<and> (\<forall>t \<in> set ys. credit a s \<le> credit a t) \<and>
     (\<forall>s0. acc = Some s0 \<longrightarrow> credit a s \<le> credit a s0)"
  using assms
proof (induction ys arbitrary: pre acc)
  case Nil
  then show ?case by simp
next
  case (Cons y ys)
  obtain s1 where s1: "fb_take a net acc (Some y) = Some s1" "s1 = y \<or> acc = Some s1"
    "credit a s1 \<le> credit a y" "\<forall>s0. acc = Some s0 \<longrightarrow> credit a s1 \<le> credit a s0"
    using fb_take_choice [OF Cons.prems(1), of y acc] by auto
  have nx: "TAILQ_NEXT (wheel a) y = first_of ys" using Cons.prems(1) by (rule fb_ready_next)
  have d: "y \<notin> set ys" using fb_ready_distinct [OF Cons.prems(1)] by simp
  have out: "Some s1 \<notin> Some ` set ys" using s1(2) d Cons.prems(3) by auto
  have "first_of ys \<noteq> Some s1" using out by (cases ys) auto
  then have step: "fb_loop a net acc (first_of (y # ys)) = fb_loop a net (Some s1) (first_of ys)"
    using s1(1) nx by (subst fb_loop.simps) (simp add: Let_def)
  show ?case
  proof (cases "ys = []")
    case True
    then show ?thesis using step s1 by (intro exI [of _ s1]) auto
  next
    case False
    have "fb_ready a net ((pre @ [y]) @ ys)" using Cons.prems(1) by simp
    from Cons.IH [OF this False out] obtain s where
      "fb_loop a net (Some s1) (first_of ys) = fb_loop a net (Some s) None"
      "s \<in> set ys \<or> s = s1" "\<forall>t \<in> set ys. credit a s \<le> credit a t" "credit a s \<le> credit a s1"
      by auto
    then show ?thesis using step s1 by (intro exI [of _ s]) fastforce
  qed
qed

text \<open>Passing streams that are no better than the best so far.\<close>

lemma fb_pass:
  assumes "fb_ready a net (pre @ us @ zs)" "us \<noteq> []" "s \<notin> set us"
    "\<And>t. t \<in> set us \<Longrightarrow> credit a s \<le> credit a t"
  shows "fb_loop a net (Some s) (first_of (us @ zs)) =
    (if first_of zs = Some s then Some (Some s) else fb_loop a net (Some s) (first_of zs))"
  using assms
proof (induction us arbitrary: pre)
  case Nil
  then show ?case by simp
next
  case (Cons u us)
  have "fb_ready a net (pre @ u # (us @ zs))" using Cons.prems(1) by simp
  then have nx: "TAILQ_NEXT (wheel a) u = first_of (us @ zs)" by (rule fb_ready_next)
  have tk: "fb_take a net (Some s) (Some u) = Some s"
    using fb_take_ready [OF Cons.prems(1), of u "Some s"] Cons.prems(4) [of u] by auto
  have IH: "us \<noteq> [] \<Longrightarrow> fb_loop a net (Some s) (first_of (us @ zs)) =
      (if first_of zs = Some s then Some (Some s) else fb_loop a net (Some s) (first_of zs))"
    using Cons.IH [of "pre @ [u]"] Cons.prems by simp
  show ?case
    using Cons.prems(3) nx tk IH by (subst fb_loop.simps) (cases us; auto simp: Let_def)
qed

lemma fb_wrap:
  assumes "fb_ready a net xs"
  shows "fb_loop a net acc None =
     (if first_of xs \<noteq> acc then fb_loop a net acc (first_of xs) else Some acc)"
  using fb_ready_first [OF assms] by (subst fb_loop.simps) (simp add: Let_def fb_take_def)

lemma fb_finish:
  assumes "fb_ready a net xs" "s \<in> set xs" "\<And>t. t \<in> set xs \<Longrightarrow> credit a s \<le> credit a t"
  shows "fb_loop a net (Some s) None = Some (Some s)"
proof -
  obtain us vs where xs: "xs = us @ s # vs" "s \<notin> set us"
    using assms(2) by (meson split_list_first)
  show ?thesis
  proof (cases "us = []")
    case True
    then show ?thesis using fb_wrap [OF assms(1)] xs by simp
  next
    case False
    then have "first_of xs \<noteq> Some s" using xs by (cases us) auto
    moreover have "fb_loop a net (Some s) (first_of (us @ s # vs)) = Some (Some s)"
      using fb_pass [of a net "[]" us "s # vs" s] False xs assms by auto
    ultimately show ?thesis using fb_wrap [OF assms(1)] xs by simp
  qed
qed

lemma fb_second_turn:
  assumes "fb_ready a net xs" "xs = us @ s # vs" "\<And>t. t \<in> set vs \<Longrightarrow> credit a s \<le> credit a t"
  shows "\<exists>s' \<in> set xs. fb_loop a net (Some s) None = Some (Some s') \<and>
     (\<forall>t \<in> set xs. credit a s' \<le> credit a t)"
proof (cases "\<forall>t \<in> set us. credit a s \<le> credit a t")
  case True
  then show ?thesis using fb_finish [OF assms(1), of s] assms by auto
next
  case False
  have d: "distinct xs" using assms(1) by (rule fb_ready_distinct)
  from False have "\<exists>t \<in> set us. \<not> credit a s \<le> credit a t" by simp
  from split_list_first_prop [OF this] obtain u t u2 where us: "us = u @ t # u2"
    and t: "\<not> credit a s \<le> credit a t" and pass: "\<forall>y \<in> set u. credit a s \<le> credit a y"
    by auto
  let ?zs = "u2 @ s # vs"
  have xs: "xs = u @ t # ?zs" using us assms(2) by simp
  have r1: "fb_ready a net ([] @ u @ t # ?zs)" using assms(1) xs by simp
  have st: "s \<noteq> t" "s \<notin> set u" using d xs by auto
  have "fb_loop a net (Some s) None = fb_loop a net (Some s) (Some t)"
  proof (cases "u = []")
    case True
    then have "first_of xs = Some t" using xs by simp
    then show ?thesis using fb_wrap [OF assms(1), of "Some s"] st by simp
  next
    case F: False
    have "fb_loop a net (Some s) (first_of (u @ t # ?zs)) = fb_loop a net (Some s) (Some t)"
      using fb_pass [OF r1 F st(2)] st pass by simp
    moreover have "first_of xs \<noteq> Some s"
      using F st(2) by (subst xs) (metis first_of_append hd_in_set option.inject)
    ultimately show ?thesis using fb_wrap [OF assms(1), of "Some s"] xs by simp
  qed
  also have "\<dots> = fb_loop a net (Some t) (first_of ?zs)"
  proof -
    have nx: "TAILQ_NEXT (wheel a) t = first_of ?zs"
      using fb_ready_next [of a net u t ?zs] assms(1) xs by simp
    have "fb_take a net (Some s) (Some t) = Some t"
      using fb_take_ready [OF assms(1), of t "Some s"] t xs by auto
    moreover have "first_of ?zs \<noteq> Some t" using d xs by (cases u2) auto
    ultimately show ?thesis using nx by (subst fb_loop.simps) (simp add: Let_def)
  qed
  finally have walk: "fb_loop a net (Some s) None = fb_loop a net (Some t) (first_of ?zs)" .
  have "fb_ready a net ((u @ [t]) @ ?zs)" using r1 by simp
  moreover have "Some t \<notin> Some ` set ?zs" using d xs by auto
  ultimately obtain s' where s': "fb_loop a net (Some t) (first_of ?zs) = fb_loop a net (Some s') None"
    "s' \<in> set ?zs \<or> s' = t" "\<forall>x \<in> set ?zs. credit a s' \<le> credit a x" "credit a s' \<le> credit a t"
    using fb_walk_to_end [of a net "u @ [t]" ?zs "Some t"] by auto
  have in_xs: "s' \<in> set xs" using s'(2) xs by auto
  have "credit a s' \<le> credit a x" if "x \<in> set xs" for x
  proof -
    from that consider "x \<in> set u" | "x = t" | "x \<in> set ?zs" using xs by (metis Un_iff set_ConsD set_append)
    then show ?thesis
    proof cases
      case 1
      then show ?thesis using pass t s'(4) by fastforce
    qed (use s' in auto)
  qed
  then show ?thesis using fb_finish [OF assms(1) in_xs] walk s'(1) in_xs by auto
qed

lemma fb_select_min:
  assumes "fb_ready a net xs" "xs \<noteq> []"
  shows "\<exists>s \<in> set xs. sctp_ss_fb_select a net = Some (Some s) \<and>
     (\<forall>t \<in> set xs. credit a s \<le> credit a t)"
proof -
  have from_suffix: "\<exists>s \<in> set xs. fb_loop a net None (first_of ys) = Some (Some s) \<and>
     (\<forall>t \<in> set xs. credit a s \<le> credit a t)" if xs: "xs = pre @ ys" and ys: "ys \<noteq> []" for pre ys
  proof -
    obtain s where s: "fb_loop a net None (first_of ys) = fb_loop a net (Some s) None" "s \<in> set ys"
      "\<forall>t \<in> set ys. credit a s \<le> credit a t"
      using fb_walk_to_end [of a net pre ys None] assms(1) xs ys by auto
    then obtain us vs where "ys = us @ s # vs" by (meson split_list)
    then show ?thesis
      using fb_second_turn [OF assms(1), of "pre @ us" s vs] s xs by auto
  qed
  have head: "\<exists>s \<in> set xs. fb_loop a net None (first_of xs) = Some (Some s) \<and>
     (\<forall>t \<in> set xs. credit a s \<le> credit a t)"
    using from_suffix [of "[]" xs] assms(2) by simp
  have wrap: "fb_loop a net None None = fb_loop a net None (first_of xs)"
    using fb_wrap [OF assms(1), of None] assms(2) by simp
  have rep: "on_wheel a xs" "tailq_rep (wheel a) xs"
    using assms(1) by (auto simp: fb_ready_def intro: tq.tidyD)
  have first: "TAILQ_FIRST (wheel a) = first_of xs" using assms(1) by (rule fb_ready_first)
  show ?thesis
  proof (cases "last_out_stream a")
    case None
    then show ?thesis using head first by (simp add: sctp_ss_fb_select_def)
  next
    case (Some l)
    have last: "TAILQ_LAST (wheel a) = Some (last_of xs)" using rep(2) by (rule rep_last)
    have "\<exists>s \<in> set xs. fb_loop a net None (TAILQ_NEXT (wheel a) l) = Some (Some s) \<and>
     (\<forall>t \<in> set xs. credit a s \<le> credit a t)"
    proof (cases "l \<in> set xs")
      case True
      then obtain us vs where xs: "xs = us @ l # vs" by (meson split_list)
      have "TAILQ_NEXT (wheel a) l = first_of vs"
        using fb_ready_next assms(1) xs by simp
      then show ?thesis
        using from_suffix [of "us @ [l]" vs] xs wrap head by (cases "vs = []") auto
    next
      case False
      then have "TAILQ_NEXT (wheel a) l = None"
        using rep(1) by (intro tq.not_queued_next) (simp add: tq.tidy_queued_iff)
      then show ?thesis using wrap head by simp
    qed
    then show ?thesis using Some last first head
      by (cases "first_of xs = last_of xs") (auto simp: sctp_ss_fb_select_def)
  qed
qed

end
