(* ===== verification/Sched_Fcfs.thy ===== *)
theory Sched_Fcfs
  imports Sched_Wheel
begin

text \<open>
  First come, first served: the list of messages, in the order they were queued, decides.
  Unlike the wheel schedulers this one never clears the links of a message it takes off
  the list, so its invariant (\<open>tq.tidy\<close>) does not survive a removal; what that costs when the
  list is rebuilt is stated at the end.
\<close>

section \<open>Adding, removing, selecting\<close>

lemma fcfs_add_queue:
  assumes "tq.tidy (out_list a) ms"
  shows "\<exists>q. sctp_ss_fcfs_add a s (Some m) = Some (a\<lparr>out_list := q\<rparr>) \<and>
     tq.tidy q (if m \<in> set ms then ms else ms @ [m])"
proof -
  have "(tqe_next (out_list a) m = None \<and> tqe_prev (out_list a) m = None) \<longleftrightarrow> m \<notin> set ms"
    using tq.tidy_queued_iff [OF assms, of m] by (auto simp: linked_def)
  then have "sctp_ss_fcfs_add a s (Some m) =
      Some (a\<lparr>out_list := (if m \<in> set ms then out_list a else TAILQ_INSERT_TAIL (out_list a) m)\<rparr>)"
    by (simp add: sctp_ss_fcfs_add_def)
  moreover have "tq.tidy (if m \<in> set ms then out_list a else TAILQ_INSERT_TAIL (out_list a) m)
      (if m \<in> set ms then ms else ms @ [m])"
    using assms tq.tidy_ins_tail [OF assms, of m] tq.tidy_queued_iff [OF assms, of m] by simp
  ultimately show ?thesis by blast
qed

lemma fcfs_remove_queue:
  assumes "tailq_rep (out_list a) ms" "m \<in> set ms"
  shows "\<exists>q. sctp_ss_fcfs_remove a s (Some m) = Some (a\<lparr>out_list := q\<rparr>) \<and>
     tailq_rep q (remove1 m ms) \<and> linked q m"
proof -
  obtain q where q: "TAILQ_REMOVE (out_list a) m = Some q" "tailq_rep q (remove1 m ms)"
    "same_links (out_list a) q (set ms - {m})"
    using tq.rem_repr [OF assms] by blast
  have l: "linked (out_list a) m" using tq.repr_queued [OF assms] .
  moreover have "linked q m \<longleftrightarrow> linked (out_list a) m"
    using same_linksD [OF q(3), of m] by simp
  ultimately show ?thesis
    using q by (auto simp: sctp_ss_fcfs_remove_def linked_def)
qed

definition msg_stream :: "asoc \<Rightarrow> nat \<Rightarrow> nat" where
  "msg_stream a m = strmout a ! unat (sp_sid (spq a m))"

lemma fcfs_again_suffix:
  assumes "tailq_rep (out_list a) (pre @ ms)"
    "\<And>m. m \<in> set ms \<Longrightarrow> unat (sp_sid (spq a m)) < length (strmout a)"
  shows "fcfs_again a net (first_of ms) =
     Some (first_of (filter (\<lambda>s. \<not> net_mismatch a net (Some s)) (map (msg_stream a) ms)))"
  using assms
proof (induction ms arbitrary: pre)
  case Nil
  then show ?case by (subst fcfs_again.simps) simp
next
  case (Cons m ms)
  have "distinct (pre @ m # ms)" using Cons.prems(1) by (rule tq.repr_distinct)
  then have nx: "TAILQ_NEXT (out_list a) m = first_of ms"
    using rep_next [OF Cons.prems(1), of m] by (simp add: next_in_split)
  have IH: "fcfs_again a net (first_of ms) =
     Some (first_of (filter (\<lambda>s. \<not> net_mismatch a net (Some s)) (map (msg_stream a) ms)))"
    using Cons.IH [of "pre @ [m]"] Cons.prems by simp
  show ?case
    using Cons.prems(2) [of m] nx IH
    by (subst fcfs_again.simps) (simp add: Let_def msg_stream_def)
qed

section \<open>Rebuilding the list\<close>

abbreviation queued_from :: "asoc \<Rightarrow> nat \<Rightarrow> nat set" where
  "queued_from a n \<equiv> {outqueue (strm a s) ! k | s k. s \<in> set (strmout a) \<and> n \<le> k \<and> k < length (outqueue (strm a s))}"

lemma fcfs_pass_tidy:
  assumes "tq.tidy (out_list a) ms"
  shows "\<exists>q ms'. fcfs_pass n a =
       Some (a\<lparr>out_list := q\<rparr>, \<exists>s \<in> set (strmout a). n < length (outqueue (strm a s))) \<and>
     tq.tidy q ms' \<and>
     set ms' = set ms \<union> {outqueue (strm a s) ! n | s. s \<in> set (strmout a) \<and> n < length (outqueue (strm a s))}"
proof -
  let ?f = "\<lambda>s (a', add_more).
        (if n < length (outqueue (strm a' s)) then
           map_option (\<lambda>a''. (a'', True)) (sctp_ss_fcfs_add a' s (Some (outqueue (strm a' s) ! n)))
         else Some (a', add_more))"
  have "\<exists>q ms'. fold_opt ?f ss (a\<lparr>out_list := q0\<rparr>, b) =
       Some (a\<lparr>out_list := q\<rparr>, b \<or> (\<exists>s \<in> set ss. n < length (outqueue (strm a s)))) \<and>
     tq.tidy q ms' \<and> set ms' = set ms0 \<union> {outqueue (strm a s) ! n | s. s \<in> set ss \<and> n < length (outqueue (strm a s))}"
    if "tq.tidy q0 ms0" for ss q0 ms0 b
    using that
  proof (induction ss arbitrary: q0 ms0 b)
    case Nil
    then show ?case by auto
  next
    case (Cons s ss)
    show ?case
    proof (cases "n < length (outqueue (strm a s))")
      case True
      let ?m = "outqueue (strm a s) ! n"
      obtain q1 where q1: "sctp_ss_fcfs_add (a\<lparr>out_list := q0\<rparr>) s (Some ?m) = Some (a\<lparr>out_list := q1\<rparr>)"
        "tq.tidy q1 (if ?m \<in> set ms0 then ms0 else ms0 @ [?m])"
        using fcfs_add_queue [of "a\<lparr>out_list := q0\<rparr>" ms0 s ?m] Cons.prems by auto
      have ms1: "set (if ?m \<in> set ms0 then ms0 else ms0 @ [?m]) = insert ?m (set ms0)" by auto
      from Cons.IH [OF q1(2), of True] obtain q ms' where
        "fold_opt ?f ss (a\<lparr>out_list := q1\<rparr>, True) = Some (a\<lparr>out_list := q\<rparr>, True)" "tq.tidy q ms'"
        "set ms' = insert ?m (set ms0) \<union> {outqueue (strm a s) ! n | s. s \<in> set ss \<and> n < length (outqueue (strm a s))}"
        unfolding ms1 simp_thms by blast
      then show ?thesis using True q1(1)
        by (intro exI [of _ q] exI [of _ ms']) auto
    next
      case False
      from Cons.IH [OF Cons.prems, of b] obtain q ms' where
        "fold_opt ?f ss (a\<lparr>out_list := q0\<rparr>, b) =
           Some (a\<lparr>out_list := q\<rparr>, b \<or> (\<exists>s \<in> set ss. n < length (outqueue (strm a s))))" "tq.tidy q ms'"
        "set ms' = set ms0 \<union> {outqueue (strm a s) ! n | s. s \<in> set ss \<and> n < length (outqueue (strm a s))}"
        by auto
      then show ?thesis using False by (intro exI [of _ q] exI [of _ ms']) auto
    qed
  qed
  from this [OF assms, of "strmout a" False] show ?thesis by (simp add: fcfs_pass_def)
qed

lemma fcfs_init_loop_tidy:
  assumes "tq.tidy (out_list a) ms" "\<And>s. s \<in> set (strmout a) \<Longrightarrow> length (outqueue (strm a s)) \<le> n + d"
  shows "\<exists>q ms'. fcfs_init_loop n a = Some (a\<lparr>out_list := q\<rparr>) \<and> tq.tidy q ms' \<and>
     set ms' = set ms \<union> queued_from a n"
  using assms
proof (induction d arbitrary: n a ms)
  case 0
  then have none: "\<not> n < length (outqueue (strm a s))" if "s \<in> set (strmout a)" for s
    using that by (simp add: leD)
  obtain q ms' where q: "fcfs_pass n a =
       Some (a\<lparr>out_list := q\<rparr>, \<exists>s \<in> set (strmout a). n < length (outqueue (strm a s)))"
     "tq.tidy q ms'"
     "set ms' = set ms \<union> {outqueue (strm a s) ! n | s. s \<in> set (strmout a) \<and> n < length (outqueue (strm a s))}"
    using fcfs_pass_tidy [OF 0(1), of n] by blast
  have "set ms' = set ms" using q(3) none by auto
  moreover have "\<not> (\<exists>s \<in> set (strmout a). n < length (outqueue (strm a s)))" using none by blast
  moreover have "queued_from a n = {}" using none by fastforce
  ultimately show ?case using q(1,2)
    by (intro exI [of _ q] exI [of _ ms'], subst fcfs_init_loop.simps) auto
next
  case (Suc d)
  obtain q ms' where q: "fcfs_pass n a =
       Some (a\<lparr>out_list := q\<rparr>, \<exists>s \<in> set (strmout a). n < length (outqueue (strm a s)))"
     "tq.tidy q ms'"
     "set ms' = set ms \<union> {outqueue (strm a s) ! n | s. s \<in> set (strmout a) \<and> n < length (outqueue (strm a s))}"
    using fcfs_pass_tidy [OF Suc.prems(1), of n] by blast
  have split: "queued_from a n =
      {outqueue (strm a s) ! n | s. s \<in> set (strmout a) \<and> n < length (outqueue (strm a s))} \<union> queued_from a (Suc n)"
    by (auto simp: Suc_le_eq) (metis le_neq_implies_less, metis less_imp_le_nat)
  show ?case
  proof (cases "\<exists>s \<in> set (strmout a). n < length (outqueue (strm a s))")
    case True
    obtain q2 ms2 where "fcfs_init_loop (Suc n) (a\<lparr>out_list := q\<rparr>) = Some (a\<lparr>out_list := q2\<rparr>)"
      "tq.tidy q2 ms2" "set ms2 = set ms' \<union> queued_from a (Suc n)"
      using Suc.IH [of "a\<lparr>out_list := q\<rparr>" ms' "Suc n"] q(2) Suc.prems(2) by auto
    then show ?thesis using True q split
      by (subst fcfs_init_loop.simps) (auto simp: Un_assoc)
  next
    case False
    then have "queued_from a n = {}" by (auto dest: order.strict_trans1)
    moreover have "set ms' = set ms" using q(3) False by auto
    ultimately show ?thesis using False q(1,2)
      by (intro exI [of _ q] exI [of _ ms'], subst fcfs_init_loop.simps) auto
  qed
qed

lemma queue_length_bound: "\<exists>d. \<forall>s \<in> set (strmout a). length (outqueue (strm a s)) \<le> d"
  by (meson finite_set finite_imageI finite_nat_set_iff_bounded_le imageI)

text \<open>Messages whose links are still set are passed over.\<close>

lemma fcfs_pass_stale:
  assumes "\<And>s m. s \<in> set (strmout a) \<Longrightarrow> m \<in> set (outqueue (strm a s)) \<Longrightarrow> linked (out_list a) m"
  shows "fcfs_pass n a = Some (a, \<exists>s \<in> set (strmout a). n < length (outqueue (strm a s)))"
proof -
  let ?f = "\<lambda>s (a', add_more).
        (if n < length (outqueue (strm a' s)) then
           map_option (\<lambda>a''. (a'', True)) (sctp_ss_fcfs_add a' s (Some (outqueue (strm a' s) ! n)))
         else Some (a', add_more))"
  have "fold_opt ?f ss (a, b) = Some (a, b \<or> (\<exists>s \<in> set ss. n < length (outqueue (strm a s))))"
    if "set ss \<subseteq> set (strmout a)" for ss b
    using that
  proof (induction ss arbitrary: b)
    case (Cons s ss)
    have "sctp_ss_fcfs_add a s (Some (outqueue (strm a s) ! n)) = Some a" if "n < length (outqueue (strm a s))"
      using assms [of s "outqueue (strm a s) ! n"] that Cons.prems by (auto simp: sctp_ss_fcfs_add_def linked_def)
    then show ?case using Cons.IH Cons.prems by auto
  qed simp
  from this [of "strmout a" False] show ?thesis by (simp add: fcfs_pass_def)
qed

lemma fcfs_init_loop_stale:
  assumes "\<And>s m. s \<in> set (strmout a) \<Longrightarrow> m \<in> set (outqueue (strm a s)) \<Longrightarrow> linked (out_list a) m"
    "\<And>s. s \<in> set (strmout a) \<Longrightarrow> length (outqueue (strm a s)) \<le> n + d"
  shows "fcfs_init_loop n a = Some a"
  using assms(2)
proof (induction d arbitrary: n)
  case 0
  then show ?case
    using fcfs_pass_stale [where n = n, OF assms(1)] by (subst fcfs_init_loop.simps) (auto dest: leD)
next
  case (Suc d)
  then have "fcfs_init_loop (Suc n) a = Some a" using Suc.IH [of "Suc n"] by simp
  then show ?case
    using fcfs_pass_stale [where n = n, OF assms(1)] by (subst fcfs_init_loop.simps) auto
qed

end
