(* ===== verification/Sched_Props.thy ===== *)
theory Sched_Props
  imports Sched_Prio Sched_Fair Sched_Fcfs
begin

text \<open>
  The theorems on the stream schedulers, over the dispatch table of the code, with the
  concrete associations on which they are instantiated.
\<close>

section \<open>Sample associations\<close>

definition null_queue :: "nat tailq" where
  "null_queue = \<lparr>tqh_first = None, tqh_last = Head_first, tqe_next = (\<lambda>_. None), tqe_prev = (\<lambda>_. None)\<rparr>"

definition idle_stream :: "nat \<Rightarrow> stream_out" where
  "idle_stream s = \<lparr>outqueue = [], sid = of_nat s, priority = 0, rounds = -1\<rparr>"

text \<open>Three idle streams; message \<open>m\<close> is for stream \<open>m mod 4\<close> and, from 4 on, bound to destination 1.\<close>

definition idle_asoc :: asoc where
  "idle_asoc = \<lparr>locked_on_sending = None, last_out_stream = None, wheel = null_queue,
     out_list = null_queue, strmout = [0, 1, 2], strm = idle_stream,
     spq = (\<lambda>m. \<lparr>sp_net = (if m < 4 then None else Some 1), sp_length = 100,
                  sp_sid = of_nat (m mod 4), sp_msg_is_complete = 1, sp_some_taken = 0\<rparr>),
     idata_supported = 0, stream_queue_cnt = 0, cmt_on_off = 0\<rparr>"

lemma null_queue_tidy: "tq.tidy null_queue []"
  by (simp add: tq.tidy_def tailq_rep_def null_queue_def linked_def deref_def)

lemma idle_inv: "wheel_inv idle_asoc" "on_wheel idle_asoc []" "tq.tidy (out_list idle_asoc) []"
  by (simp_all add: wheel_inv_def busy_def idle_asoc_def idle_stream_def null_queue_tidy)

section \<open>The wheel holds the streams with data\<close>

lemma wheel_rows: "k < 5 \<Longrightarrow> wheel_scheduler (sctp_ss_functions ! k)"
  using ss_dflt.wheel_scheduler_axioms ss_rr.wheel_scheduler_axioms ss_rrp.wheel_scheduler_axioms
    ss_prio.wheel_scheduler_axioms ss_fb.wheel_scheduler_axioms
  by (auto simp: less_Suc_eq eval_nat_numeral)

text \<open>C2. For each of the five schedulers that keep a wheel, every history of enqueueing,
  dequeueing, scheduling, packet-done, set-value and clear-and-reinitialise steps from a
  consistent state leads to a consistent state: the wheel is a well-formed tail queue that
  holds exactly the streams with queued messages, no stream twice, and the links of every
  other stream are NULL.\<close>

theorem wheel_history:
  assumes "k < 5" "wheel_inv a" "(sched_step (sctp_ss_functions ! k))\<^sup>*\<^sup>* a a'"
  shows "\<exists>xs. tailq_rep (wheel a') xs \<and> distinct xs \<and> set xs = {s. outqueue (strm a' s) \<noteq> []} \<and>
     (\<forall>s. linked (wheel a') s \<longleftrightarrow> outqueue (strm a' s) \<noteq> [])"
proof -
  have "wheel_inv a'"
    using wheel_scheduler.run_inv [OF wheel_rows [OF assms(1)] assms(3,2)] .
  then obtain xs where "on_wheel a' xs" "set xs = busy a'" by (auto simp: wheel_inv_def)
  then show ?thesis
    using tq.tidyD [of "wheel a'" xs] tq.repr_distinct [of "wheel a'" xs]
      tq.tidy_queued_iff [of "wheel a'" xs]
    by (intro exI [of _ xs]) (auto simp: busy_def)
qed

theorem wheel_history_witness:
  "\<exists>a'. (sched_step (sctp_ss_functions ! 3))\<^sup>*\<^sup>* idle_asoc a' \<and> outqueue (strm a' 1) = [5] \<and>
     (\<exists>xs. tailq_rep (wheel a') xs \<and> distinct xs \<and> set xs = {s. outqueue (strm a' s) \<noteq> []} \<and>
       (\<forall>s. linked (wheel a') s \<longleftrightarrow> outqueue (strm a' s) \<noteq> []))"
proof -
  let ?a = "(push_msg idle_asoc 1 5)\<lparr>wheel := TAILQ_INSERT_HEAD null_queue 1\<rparr>"
  have "sctp_ss_add_to_stream (sctp_ss_functions ! 3) (push_msg idle_asoc 1 5) 1 (Some 5) = Some ?a"
    by (simp add: row_defs sctp_ss_prio_add_def push_msg_def upd_strm_def idle_asoc_def idle_stream_def
        null_queue_def TAILQ_EMPTY_def)
  then have "sched_step (sctp_ss_functions ! 3) idle_asoc ?a"
    by (rule sched_step.enqueue [rotated]) (simp add: idle_asoc_def)
  then have run: "(sched_step (sctp_ss_functions ! 3))\<^sup>*\<^sup>* idle_asoc ?a" by blast
  moreover have "outqueue (strm ?a 1) = [5]"
    by (simp add: idle_asoc_def idle_stream_def)
  ultimately show ?thesis
    using wheel_history [OF _ idle_inv(1) run] by fastforce
qed

text \<open>None of the queue operations of the five wheel schedulers can fail in a consistent
  state: enqueueing, dequeueing and the clear-and-reinitialise sequence return, with a consistent
  state, and the emptiness test is exact.\<close>

theorem wheel_operations_total:
  assumes "k < 5" "wheel_inv a" "s \<in> set (strmout a)"
  shows "(\<exists>a'. sctp_ss_add_to_stream (sctp_ss_functions ! k) (push_msg a s m) s (Some m) = Some a' \<and> wheel_inv a') \<and>
    (outqueue (strm a s) \<noteq> [] \<longrightarrow>
       (\<exists>a'. sctp_ss_remove_from_stream (sctp_ss_functions ! k) (pop_msg a s) s (Some m) = Some a' \<and> wheel_inv a')) \<and>
    (\<exists>b a'. sctp_ss_clear (sctp_ss_functions ! k) a cv = Some b \<and>
       sctp_ss_init (sctp_ss_functions ! k) b = Some a' \<and> wheel_inv a') \<and>
    (sctp_ss_is_empty (sctp_ss_functions ! k) a \<longleftrightarrow> (\<forall>t. outqueue (strm a t) = []))"
proof (intro conjI impI)
  note W = wheel_rows [OF assms(1)]
  show "\<exists>a'. sctp_ss_add_to_stream (sctp_ss_functions ! k) (push_msg a s m) s (Some m) = Some a' \<and> wheel_inv a'"
    using wheel_scheduler.enqueue_inv [OF W assms(2,3)] .
  show "\<exists>a'. sctp_ss_remove_from_stream (sctp_ss_functions ! k) (pop_msg a s) s (Some m) = Some a' \<and> wheel_inv a'"
    if "outqueue (strm a s) \<noteq> []"
    using that wheel_scheduler.dequeue_inv [OF W assms(2), of s] by (cases "outqueue (strm a s)") auto
  show "\<exists>b a'. sctp_ss_clear (sctp_ss_functions ! k) a cv = Some b \<and>
       sctp_ss_init (sctp_ss_functions ! k) b = Some a' \<and> wheel_inv a'"
    using wheel_scheduler.restart_inv [OF W assms(2)] .
  have "sctp_ss_is_empty (sctp_ss_functions ! k) = sctp_ss_default_is_empty"
    using assms(1) by (auto simp: less_Suc_eq eval_nat_numeral row_defs)
  moreover obtain xs where xs: "on_wheel a xs" "set xs = busy a"
    using assms(2) by (auto simp: wheel_inv_def)
  ultimately show "sctp_ss_is_empty (sctp_ss_functions ! k) a \<longleftrightarrow> (\<forall>t. outqueue (strm a t) = [])"
    using tq.empty_repr [OF tq.tidyD [OF xs(1)]]
    by (auto simp: sctp_ss_default_is_empty_def busy_def)
qed

theorem wheel_operations_total_witness:
  "\<exists>a'. sctp_ss_add_to_stream (sctp_ss_functions ! 4) (push_msg idle_asoc 2 6) 2 (Some 6) = Some a' \<and> wheel_inv a'"
  using wheel_operations_total [of 4 idle_asoc 2 6] idle_inv(1) by (simp add: idle_asoc_def)

section \<open>Round robin serves the wheel in turn\<close>

text \<open>C3. With no stream locked, the default selector returns the first stream, in cyclic order
  after the stream served last, whose first message may go to the requested destination. When
  there is none it reports NULL if the wheel is empty or the stream served last is on the wheel,
  and otherwise it never returns.\<close>

theorem default_select_turn:
  assumes "on_wheel a xs" "locked_on_sending a = None"
  shows "sctp_ss_default_select a net =
    (case filter (\<lambda>s. \<not> net_mismatch a net (Some s)) (turn_order xs (last_out_stream a)) of
       s # _ \<Rightarrow> Some (Some s)
     | [] \<Rightarrow> (if xs = [] \<or> last_out_stream a \<in> Some ` set xs then Some None else None))"
  using default_again_result [OF assms(1), of net] assms(2)
  by (simp add: sctp_ss_default_select_def)

text \<open>Streams 0 and 1 hold one message each, both bound to destination 1.\<close>

definition two_bound :: asoc where
  "two_bound = (push_msg (push_msg idle_asoc 0 4) 1 5)\<lparr>
     wheel := TAILQ_INSERT_TAIL (TAILQ_INSERT_TAIL null_queue 0) 1\<rparr>"

lemma two_bound_wheel: "on_wheel two_bound [0, 1]"
proof -
  have 1: "tq.tidy (TAILQ_INSERT_TAIL null_queue 0) [0]"
    using tq.tidy_ins_tail [OF null_queue_tidy, of 0] tq.tidy_queued_iff [OF null_queue_tidy, of 0] by simp
  show ?thesis
    using tq.tidy_ins_tail [OF 1, of 1] tq.tidy_queued_iff [OF 1, of 1] by (simp add: two_bound_def)
qed

lemma two_bound_mismatch: "net_mismatch two_bound (Some 2) (Some s) \<longleftrightarrow> s = 0 \<or> s = 1"
  by (simp add: net_mismatch_def first_msg_def two_bound_def push_msg_def upd_strm_def idle_asoc_def
      idle_stream_def)

theorem default_select_turn_witness:
  "sctp_ss_default_select two_bound None = Some (Some 0) \<and> sctp_ss_default_select two_bound (Some 2) = None"
proof -
  have l: "locked_on_sending two_bound = None" "last_out_stream two_bound = None"
    by (simp_all add: two_bound_def push_msg_def upd_strm_def idle_asoc_def)
  show ?thesis
    using default_select_turn [OF two_bound_wheel l(1), of None] default_select_turn [OF two_bound_wheel l(1), of "Some 2"]
    by (simp add: l turn_order_def two_bound_mismatch) (simp add: net_mismatch_def)
qed

section \<open>Order of the wheel over a history\<close>

definition ordered_by :: "(stream_out \<Rightarrow> u16) \<Rightarrow> asoc \<Rightarrow> bool" where
  "ordered_by key a \<longleftrightarrow> (\<exists>xs. on_wheel a xs \<and> sorted (map (\<lambda>t. key (strm a t)) xs))"

lemma ordered_by_keep:
  "ordered_by key a \<Longrightarrow> wheel a' = wheel a \<Longrightarrow> (\<And>t. key (strm a' t) = key (strm a t)) \<Longrightarrow> ordered_by key a'"
  by (simp add: ordered_by_def)

lemma ordered_add:
  assumes "ordered_by key a"
    and "\<And>xs. on_wheel a xs \<Longrightarrow> \<exists>a'. add a s sp = Some a' \<and> same_data a a' \<and> strm a' = strm a \<and>
           on_wheel a' (if outqueue (strm a s) \<noteq> [] \<and> s \<notin> set xs
             then takeWhile (\<lambda>t. key (strm a t) < key (strm a s)) xs @ s #
                  dropWhile (\<lambda>t. key (strm a t) < key (strm a s)) xs else xs)"
  shows "\<exists>a'. add a s sp = Some a' \<and> ordered_by key a'"
proof -
  obtain xs where xs: "on_wheel a xs" "sorted (map (\<lambda>t. key (strm a t)) xs)"
    using assms(1) by (auto simp: ordered_by_def)
  let ?ys = "if outqueue (strm a s) \<noteq> [] \<and> s \<notin> set xs
             then takeWhile (\<lambda>t. key (strm a t) < key (strm a s)) xs @ s #
                  dropWhile (\<lambda>t. key (strm a t) < key (strm a s)) xs else xs"
  obtain a' where a': "add a s sp = Some a'" "strm a' = strm a" "on_wheel a' ?ys"
    using assms(2) [OF xs(1)] by blast
  have "sorted (map (\<lambda>t. key (strm a t)) ?ys)"
    using sorted_ordered_insert [OF xs(2), of s] xs(2) by simp
  then show ?thesis using a' unfolding ordered_by_def by metis
qed

lemmas ordered_rr_add = ordered_add [of sid _ sctp_ss_rr_add, OF _ rr_add_queue]
lemmas ordered_prio_add = ordered_add [of priority _ sctp_ss_prio_add, OF _ prio_add_queue]

lemma ordered_remove:
  assumes "ordered_by key a"
  shows "\<exists>a'. sctp_ss_default_remove a s sp = Some a' \<and> ordered_by key a'"
proof -
  obtain xs where xs: "on_wheel a xs" "sorted (map (\<lambda>t. key (strm a t)) xs)"
    using assms(1) by (auto simp: ordered_by_def)
  obtain a' where "sctp_ss_default_remove a s sp = Some a'" "strm a' = strm a"
    "on_wheel a' (if outqueue (strm a s) = [] then remove1 s xs else xs)"
    using removes_default [unfolded removes_from_wheel_def, rule_format, OF xs(1)] by blast
  then show ?thesis
    using xs(2) sorted_remove1_key [OF xs(2), of s] unfolding ordered_by_def
    by (cases "outqueue (strm a s) = []") auto
qed

lemma ordered_init:
  assumes "on_wheel a []" "\<And>b s. ordered_by key b \<Longrightarrow> \<exists>b'. add b s None = Some b' \<and> ordered_by key b'"
  shows "\<exists>a'. sctp_ss_default_init add a = Some a' \<and> ordered_by key a'"
  unfolding sctp_ss_default_init_def
  using tq.tidy_init [OF assms(1)] assms(2)
  by (intro fold_opt_inv) (auto simp: ordered_by_def)

lemma push_pop_keys [simp]:
  "sid (strm (push_msg a s m) t) = sid (strm a t)" "sid (strm (pop_msg a s) t) = sid (strm a t)"
  "priority (strm (push_msg a s m) t) = priority (strm a t)"
  "priority (strm (pop_msg a s) t) = priority (strm a t)"
  by (simp_all add: push_msg_def pop_msg_def)

lemma ordered_push_pop:
  assumes "ordered_by key a" "key = sid \<or> key = priority"
  shows "ordered_by key (push_msg a s m)" "ordered_by key (pop_msg a s)"
  using assms by (auto intro!: ordered_by_keep [OF assms(1)])

lemma rr_step_ordered:
  assumes "sched_step (sctp_ss_functions ! k) a a'" "k = 1 \<or> k = 2" "ordered_by sid a"
  shows "ordered_by sid a'"
  using assms(1)
proof cases
  case (enqueue s m)
  then show ?thesis
    using assms(2) ordered_rr_add [OF ordered_push_pop(1) [OF assms(3)], of s m s "Some m"] by (auto simp: row_defs)
next
  case (dequeue s m ms)
  then show ?thesis
    using assms(2) ordered_remove [OF ordered_push_pop(2) [OF assms(3)], of s s "Some m"] by (auto simp: row_defs)
next
  case (scheduled net s)
  then show ?thesis
    using assms(2) by (auto simp: row_defs sctp_ss_default_scheduled_def intro!: ordered_by_keep [OF assms(3)])
next
  case (packet_done net)
  then show ?thesis
    using assms(2,3)
    by (auto simp: row_defs sctp_ss_default_packet_done_def sctp_ss_rrp_packet_done_def rrp_again_eq
        intro!: ordered_by_keep [OF assms(3)])
next
  case (set_value s v r)
  then show ?thesis using assms(2,3) by (auto simp: row_defs sctp_ss_default_set_value_def)
next
  case (restart cv b)
  obtain xs where "on_wheel a xs" using assms(3) by (auto simp: ordered_by_def)
  then have "on_wheel b []"
    using restart(1) assms(2) clear_rows(1) [of a xs cv] by (auto simp: row_defs)
  then show ?thesis
    using restart(2) assms(2) ordered_init [of b sid sctp_ss_rr_add] ordered_rr_add
    by (fastforce simp: row_defs)
qed

text \<open>Round robin and round robin per packet always go through the streams in ascending
  order: over every history from an idle association, the wheel of these two schedulers is sorted
  by stream identifier.\<close>

theorem rr_ascending:
  assumes "k = 1 \<or> k = 2" "on_wheel a []" "(sched_step (sctp_ss_functions ! k))\<^sup>*\<^sup>* a a'"
  shows "\<exists>xs. tailq_rep (wheel a') xs \<and> sorted (map (\<lambda>s. sid (strm a' s)) xs)"
proof -
  have "ordered_by sid a'"
    using assms(3)
  proof (induction rule: rtranclp_induct)
    case base
    then show ?case using assms(2) by (auto simp: ordered_by_def)
  next
    case (step b c)
    then show ?case using rr_step_ordered [OF _ assms(1)] by blast
  qed
  then show ?thesis using tq.tidyD by (auto simp: ordered_by_def)
qed

theorem rr_ascending_witness:
  "\<exists>a'. sched_step (sctp_ss_functions ! 1) idle_asoc a' \<and>
     (\<exists>xs. tailq_rep (wheel a') xs \<and> sorted (map (\<lambda>s. sid (strm a' s)) xs))"
proof -
  obtain a' where "sctp_ss_add_to_stream (sctp_ss_functions ! 1) (push_msg idle_asoc 1 5) 1 (Some 5) = Some a'"
    using ss_rr.enqueue_inv [OF idle_inv(1), of 1 5] by (fastforce simp: idle_asoc_def)
  then have "sched_step (sctp_ss_functions ! 1) idle_asoc a'"
    by (rule sched_step.enqueue [rotated]) (simp add: idle_asoc_def)
  then show ?thesis using rr_ascending [OF _ idle_inv(2), of 1 a'] by auto
qed

section \<open>Priority\<close>

lemma prio_select_any: "sctp_ss_prio_select a None = Some (next_same_priority a (last_out_stream a))"
  by (simp add: sctp_ss_prio_select_def prio_again.simps net_mismatch_def)

text \<open>C4. Priority scheduling on a wheel sorted by priority value, for any requested destination. Adding and removing a stream
  keep the wheel sorted. The selector returns the first stream whose first message may go to the destination, among the streams
  behind the one served last that share its priority value, followed by the streams of the smallest value. So the code departs
  from its comment, which says that it always prefers streams by their priority: the group served last comes before a better
  one. When no stream of the two groups is for the destination the selector reports NULL if the wheel is empty or the stream
  served last has the smallest value, and otherwise never returns, even if a stream of another value could be sent.\<close>

theorem prio_select_turn:
  assumes "on_wheel a xs" "sorted (map (\<lambda>s. priority (strm a s)) xs)"
  shows "(\<exists>b. sctp_ss_prio_add a s sp = Some b \<and> ordered_by priority b) \<and>
    (\<exists>b. sctp_ss_prio_remove a s sp = Some b \<and> ordered_by priority b) \<and>
    sctp_ss_prio_select a net =
      (case filter (\<lambda>s. \<not> net_mismatch a net (Some s)) (prio_turn a xs (last_out_stream a)) of
         s # _ \<Rightarrow> Some (Some s)
       | [] \<Rightarrow> if xs = [] \<or> last_out_stream a \<in> Some ` set (top_group a xs) then Some None else None)"
proof (intro conjI)
  have o: "ordered_by priority a" using assms by (auto simp: ordered_by_def)
  show "\<exists>b. sctp_ss_prio_add a s sp = Some b \<and> ordered_by priority b" by (rule ordered_prio_add [OF o])
  show "\<exists>b. sctp_ss_prio_remove a s sp = Some b \<and> ordered_by priority b" using ordered_remove [OF o] by (simp add: remove_bodies)
qed (rule prio_select_result [OF assms])

theorem prio_select_turn_witness:
  "(\<exists>b. sctp_ss_prio_add two_bound 1 None = Some b \<and> ordered_by priority b) \<and>
   sctp_ss_prio_select two_bound (Some 1) = Some (Some 0) \<and> sctp_ss_prio_select two_bound (Some 2) = None"
proof -
  have s: "sorted (map (\<lambda>s. priority (strm two_bound s)) [0, 1])" "last_out_stream two_bound = None"
    "prio_turn two_bound [0, Suc 0] None = [0, Suc 0]"
    by (simp_all add: prio_turn_def top_group_def peers_def two_bound_def push_msg_def upd_strm_def idle_asoc_def idle_stream_def)
  have m: "\<not> net_mismatch two_bound (Some (Suc 0)) (Some 0)"
    by (simp add: net_mismatch_def first_msg_def two_bound_def push_msg_def upd_strm_def idle_asoc_def idle_stream_def)
  show ?thesis
    using prio_select_turn [OF two_bound_wheel s(1), of 1 None "Some 1"] prio_select_turn [OF two_bound_wheel s(1), of 1 None "Some 2"]
    by (simp add: s(2,3) m two_bound_mismatch)
qed

text \<open>Streams 0 and 1 wait with priority value 5, stream 0 was served last, stream 2 has value 1.\<close>

definition late_urgent :: asoc where
  "late_urgent = (push_msg two_bound 2 2)\<lparr>last_out_stream := Some 0,
     strm := (\<lambda>s. (strm (push_msg two_bound 2 2) s)\<lparr>priority := (if s = 2 then 1 else 5)\<rparr>)\<rparr>"

lemmas concrete_wheel = two_bound_def push_msg_def upd_strm_def idle_asoc_def idle_stream_def null_queue_def
  tailq_ops ptr_simps set_next_def set_prev_def store_def Let_def

text \<open>The limits of the priority order, on concrete associations. When a stream with a better
  priority value joins the wheel it becomes its head, but the selector goes on with the stream
  that shares the priority value of the one served last. And changing the priority of a waiting
  stream leaves it where it is: after raising the value of the first of two waiting streams the
  wheel is no longer sorted.\<close>

theorem prio_order_limits:
  "(\<exists>b. sctp_ss_prio_add late_urgent 2 (Some 2) = Some b \<and>
     TAILQ_FIRST (wheel b) = Some 2 \<and> priority (strm b 2) < priority (strm b 1) \<and>
     sctp_ss_prio_select b None = Some (Some 1)) \<and>
   (\<exists>b. sctp_ss_prio_set_value two_bound (Some 0) 9 = Some (b, 1) \<and>
     TAILQ_FIRST (wheel b) = Some 0 \<and> TAILQ_NEXT (wheel b) 0 = Some 1 \<and>
     priority (strm b 1) < priority (strm b 0))"
proof
  show "\<exists>b. sctp_ss_prio_add late_urgent 2 (Some 2) = Some b \<and>
     TAILQ_FIRST (wheel b) = Some 2 \<and> priority (strm b 2) < priority (strm b 1) \<and>
     sctp_ss_prio_select b None = Some (Some 1)"
    by (simp add: prio_select_any sctp_ss_prio_add_def late_urgent_def next_same_priority_def concrete_wheel)
  show "\<exists>b. sctp_ss_prio_set_value two_bound (Some 0) 9 = Some (b, 1) \<and>
     TAILQ_FIRST (wheel b) = Some 0 \<and> TAILQ_NEXT (wheel b) 0 = Some 1 \<and>
     priority (strm b 1) < priority (strm b 0)"
    by (simp add: sctp_ss_prio_set_value_def sctp_ss_prio_add_def sctp_ss_prio_remove_def concrete_wheel)
qed

section \<open>Fair bandwidth\<close>

lemma sint_diff_ge:
  fixes x y :: "32 word"
  assumes "0 \<le> sint y" "sint y \<le> sint x"
  shows "sint (x - y) = sint x - sint y"
proof -
  have "x - y = word_of_int (sint x - sint y)" by simp
  moreover have "sint x < 2 ^ 31" using sint_less [of x] by simp
  ultimately show ?thesis
    using assms by (simp add: signed_of_int signed_take_bit_int_eq_self del: of_int_diff)
qed

lemma sint_small: "uint (x :: 32 word) < 2 ^ 31 \<Longrightarrow> sint x = uint x"
  using signed_take_bit_int_eq_self [of 31 "uint x"] uint_ge_0 [of x] by (simp add: sint_uint)

text \<open>Fair bandwidth, one turn: on a non-empty wheel whose streams may all be served and have
  non-negative round counts, the selector returns, and returns a stream with the smallest round
  count. Scheduling that stream then lowers the count of every other stream of the wheel by
  exactly this amount, which keeps them non-negative and their order unchanged, and charges the
  stream with the length of its next message.\<close>

theorem fb_turn:
  assumes "fb_ready a net xs" "xs \<noteq> []"
  shows "\<exists>s \<in> set xs. sctp_ss_fb_select a net = Some (Some s) \<and>
     (\<forall>t \<in> set xs. credit a s \<le> credit a t) \<and>
     (\<exists>a'. sctp_ss_fb_scheduled a net s = Some a' \<and> last_out_stream a' = Some s \<and>
       (\<forall>t \<in> set xs - {s}. credit a' t = credit a t - credit a s \<and> 0 \<le> credit a' t) \<and>
       (\<forall>m. first_msg a s = Some m \<and> uint (sp_length m) < 2 ^ 31 \<longrightarrow> credit a' s = uint (sp_length m)))"
proof -
  obtain s where s: "s \<in> set xs" "sctp_ss_fb_select a net = Some (Some s)" "\<forall>t \<in> set xs. credit a s \<le> credit a t"
    using fb_select_min [OF assms] by blast
  have w: "on_wheel a xs" and nn: "\<forall>t \<in> set xs. 0 \<le> credit a t"
    using assms(1) by (auto simp: fb_ready_def)
  obtain a' where a': "sctp_ss_fb_scheduled a net s = Some a'" "last_out_stream a' = Some s"
    "\<forall>t. strm a' t =
        (if t = s then (strm a s)\<lparr>rounds := (case first_msg a s of Some m \<Rightarrow> sp_length m | None \<Rightarrow> -1)\<rparr>
         else if t \<in> set xs then spend (rounds (strm a s)) (strm a t) else strm a t)"
    using fb_scheduled_queue [OF w, of net s] by blast
  have "credit a' t = credit a t - credit a s \<and> 0 \<le> credit a' t" if "t \<in> set xs - {s}" for t
    using that a'(3) sint_diff_ge [of "rounds (strm a s)" "rounds (strm a t)"] nn s(1,3)
    by (auto simp: spend_def not_less)
  moreover have "credit a' s = uint (sp_length m)"
    if "first_msg a s = Some m" "uint (sp_length m) < 2 ^ 31" for m
    using that a'(3) sint_small [of "sp_length m"] by simp
  ultimately show ?thesis using s a' by blast
qed

theorem fb_turn_witness:
  "\<exists>s \<in> {0, 1}. \<exists>a. on_wheel a [0, 1] \<and> credit a 0 = 100 \<and> credit a 1 = 60 \<and>
     sctp_ss_fb_select a None = Some (Some s) \<and> credit a s \<le> credit a 0 \<and> credit a s \<le> credit a 1"
proof -
  let ?a = "two_bound\<lparr>strm := (\<lambda>s. (strm two_bound s)\<lparr>rounds := (if s = 0 then 100 else 60)\<rparr>)\<rparr>"
  have w: "on_wheel ?a [0, 1]" using two_bound_wheel by simp
  have c: "credit ?a 0 = 100" "credit ?a 1 = 60" by simp_all
  have "fb_ready ?a None [0, 1]"
    unfolding fb_ready_def using w
    by (simp add: fb_eligible_def) (simp add: two_bound_def push_msg_def upd_strm_def idle_asoc_def)
  from fb_turn [OF this] obtain s where "s \<in> {0, 1}" "sctp_ss_fb_select ?a None = Some (Some s)"
    "credit ?a s \<le> credit ?a 0" "credit ?a s \<le> credit ?a 1"
    by auto
  then show ?thesis using w c by blast
qed

section \<open>First come, first served\<close>

lemma fcfs_add_all:
  assumes "tq.tidy (out_list a) ms0" "distinct (ms0 @ ms)"
  shows "\<exists>q. fold_opt (\<lambda>m b. sctp_ss_fcfs_add b (msg_stream b m) (Some m)) ms a = Some (a\<lparr>out_list := q\<rparr>) \<and>
     tq.tidy q (ms0 @ ms)"
  using assms
proof (induction ms arbitrary: a ms0)
  case Nil
  then show ?case by (intro exI [of _ "out_list a"]) simp
next
  case (Cons m ms)
  obtain q where q: "sctp_ss_fcfs_add a (msg_stream a m) (Some m) = Some (a\<lparr>out_list := q\<rparr>)" "tq.tidy q (ms0 @ [m])"
    using fcfs_add_queue [OF Cons.prems(1), of "msg_stream a m" m] Cons.prems(2) by auto
  obtain q' where "fold_opt (\<lambda>m b. sctp_ss_fcfs_add b (msg_stream b m) (Some m)) ms (a\<lparr>out_list := q\<rparr>) =
      Some (a\<lparr>out_list := q'\<rparr>)" "tq.tidy q' (ms0 @ m # ms)"
    using Cons.IH [of "a\<lparr>out_list := q\<rparr>" "ms0 @ [m]"] q(2) Cons.prems(2) by auto
  then show ?case using q(1) by auto
qed

text \<open>C5. First come, first served keeps the order of the application: when messages are queued
  one after the other, the selector returns the stream of the earliest of them that may go to the
  requested destination, and NULL when there is none.\<close>

theorem fcfs_in_order:
  assumes "tq.tidy (out_list a) []" "distinct ms"
    and "\<And>m. m \<in> set ms \<Longrightarrow> unat (sp_sid (spq a m)) < length (strmout a)"
  shows "\<exists>a'. fold_opt (\<lambda>m b. sctp_ss_fcfs_add b (msg_stream b m) (Some m)) ms a = Some a' \<and>
     tailq_rep (out_list a') ms \<and>
     sctp_ss_fcfs_select a' net =
       Some (first_of (filter (\<lambda>s. \<not> net_mismatch a net (Some s)) (map (msg_stream a) ms)))"
proof -
  obtain q where q: "fold_opt (\<lambda>m b. sctp_ss_fcfs_add b (msg_stream b m) (Some m)) ms a = Some (a\<lparr>out_list := q\<rparr>)"
    "tq.tidy q ms"
    using fcfs_add_all [OF assms(1), of ms] assms(2) by auto
  let ?a = "a\<lparr>out_list := q\<rparr>"
  have rep: "tailq_rep (out_list ?a) ([] @ ms)" using tq.tidyD [OF q(2)] by simp
  have same: "msg_stream ?a = msg_stream a" "net_mismatch ?a = net_mismatch a"
    by (simp_all add: fun_eq_iff msg_stream_def net_mismatch_def first_msg_def cong: option.case_cong)
  have "fcfs_again ?a net (first_of ms) =
      Some (first_of (filter (\<lambda>s. \<not> net_mismatch ?a net (Some s)) (map (msg_stream ?a) ms)))"
    by (rule fcfs_again_suffix [OF rep]) (simp add: assms(3))
  moreover have "TAILQ_FIRST (out_list ?a) = first_of ms"
    using tq.first_repr [OF rep] by simp
  ultimately show ?thesis
    using q(1) rep by (simp add: sctp_ss_fcfs_select_def same)
qed

theorem fcfs_in_order_witness:
  "\<exists>a'. fold_opt (\<lambda>m b. sctp_ss_fcfs_add b (msg_stream b m) (Some m)) [2, 0, 1] idle_asoc = Some a' \<and>
     sctp_ss_fcfs_select a' None = Some (Some 2)"
proof -
  have b: "unat (sp_sid (spq idle_asoc m)) < length (strmout idle_asoc)" if "m \<in> set [2, 0, 1]" for m
    using that by (auto simp: idle_asoc_def)
  have "msg_stream idle_asoc 2 = 2" by (simp add: msg_stream_def idle_asoc_def)
  then show ?thesis
    using fcfs_in_order [where net = None and ms = "[2, 0, 1]", OF idle_inv(3) _ b]
    by (auto simp: net_mismatch_def)
qed

text \<open>C6. When a first-come scheduler is started on an association whose streams already hold
  messages and no message is linked yet, the loop over the stream queues ends, and the list then
  holds exactly the queued messages, each once.\<close>

theorem fcfs_init_complete:
  assumes "tq.tidy (out_list a) []"
  shows "\<exists>a' ms. sctp_ss_fcfs_init a = Some a' \<and> tailq_rep (out_list a') ms \<and> distinct ms \<and>
     set ms = (\<Union>s \<in> set (strmout a). set (outqueue (strm a s)))"
proof -
  obtain d where d: "\<forall>s \<in> set (strmout a). length (outqueue (strm a s)) \<le> d"
    using queue_length_bound by blast
  let ?a = "a\<lparr>out_list := TAILQ_INIT (out_list a)\<rparr>"
  obtain q ms where q: "fcfs_init_loop 0 ?a = Some (?a\<lparr>out_list := q\<rparr>)" "tq.tidy q ms"
    "set ms = queued_from ?a 0"
    using fcfs_init_loop_tidy [of ?a "[]" 0 d] tq.tidy_init [OF assms] d by auto
  have "queued_from ?a 0 = (\<Union>s \<in> set (strmout a). set (outqueue (strm a s)))"
    by (force simp: set_conv_nth [of "outqueue _"])
  then show ?thesis
    using q tq.tidyD [OF q(2)] tq.repr_distinct
    by (intro exI [of _ "?a\<lparr>out_list := q\<rparr>"] exI [of _ ms]) (auto simp: sctp_ss_fcfs_init_def)
qed

theorem fcfs_init_complete_witness:
  "\<exists>a' ms. sctp_ss_fcfs_init two_bound = Some a' \<and> tailq_rep (out_list a') ms \<and> set ms = {4, 5}"
proof -
  have o: "tq.tidy (out_list two_bound) []"
    using idle_inv(3) by (simp add: two_bound_def push_msg_def)
  have "(\<Union>s \<in> set (strmout two_bound). set (outqueue (strm two_bound s))) = {4, 5}"
    by (auto simp: two_bound_def idle_asoc_def idle_stream_def)
  then show ?thesis using fcfs_init_complete [OF o] by metis
qed

text \<open>Restarting it is different. \<^verbatim>\<open>sctp_ss_fcfs_clear\<close> without \<open>clear_values\<close> leaves the list, and
  the messages on it keep their links, so that the following initialisation passes over all of
  them and ends with an empty list although data is queued.\<close>

theorem fcfs_restart_loses:
  assumes "tailq_rep (out_list a) ms" "set ms = (\<Union>s \<in> set (strmout a). set (outqueue (strm a s)))"
  shows "\<exists>b a'. sctp_ss_fcfs_clear a False = Some b \<and> sctp_ss_fcfs_init b = Some a' \<and>
     sctp_ss_fcfs_is_empty a'"
proof -
  obtain d where d: "\<forall>s \<in> set (strmout a). length (outqueue (strm a s)) \<le> d"
    using queue_length_bound by blast
  let ?a = "a\<lparr>out_list := TAILQ_INIT (out_list a)\<rparr>"
  have "linked (out_list ?a) m" if "s \<in> set (strmout ?a)" "m \<in> set (outqueue (strm ?a s))" for s m
  proof -
    have "m \<in> set ms" using that assms(2) by auto
    then show ?thesis
      using tq.repr_queued [OF assms(1)] same_linksD [OF links_init [of "out_list a"], of m] by simp
  qed
  then have "fcfs_init_loop 0 ?a = Some ?a"
    by (rule fcfs_init_loop_stale [of _ _ d]) (use d in auto)
  then show ?thesis
    by (simp add: sctp_ss_fcfs_clear_def sctp_ss_fcfs_init_def sctp_ss_fcfs_is_empty_def
        TAILQ_EMPTY_def TAILQ_INIT_def)
qed

theorem fcfs_restart_loses_witness:
  "\<exists>a b a'. fold_opt (\<lambda>m b. sctp_ss_fcfs_add b (msg_stream b m) (Some m)) [4, 5] two_bound = Some a \<and>
     sctp_ss_fcfs_clear a False = Some b \<and> sctp_ss_fcfs_init b = Some a' \<and> sctp_ss_fcfs_is_empty a'"
proof -
  have o: "tq.tidy (out_list two_bound) []"
    using idle_inv(3) by (simp add: two_bound_def push_msg_def)
  obtain q where q: "fold_opt (\<lambda>m b. sctp_ss_fcfs_add b (msg_stream b m) (Some m)) [4, 5] two_bound =
      Some (two_bound\<lparr>out_list := q\<rparr>)" "tq.tidy q [4, 5]"
    using fcfs_add_all [OF o, of "[4, 5]"] by auto
  have "set [4, 5] = (\<Union>s \<in> set (strmout (two_bound\<lparr>out_list := q\<rparr>)).
      set (outqueue (strm (two_bound\<lparr>out_list := q\<rparr>) s)))"
    by (auto simp: two_bound_def idle_asoc_def idle_stream_def)
  then show ?thesis
    using fcfs_restart_loses [of "two_bound\<lparr>out_list := q\<rparr>" "[4, 5]"] tq.tidyD [OF q(2)] q(1) by auto
qed

end
