(* ===== verification/Sha1.thy ===== *)
theory Sha1
  imports Prelude
begin

text \<open>
  The SHA-1 of \<^verbatim>\<open>netinet/sctp_sha1.c\<close> (the built-in implementation) on a little-endian
  machine. The context record has the fields of \<^verbatim>\<open>struct sctp_sha1_context\<close>; the block buffer
  and the schedule are lists of 64 bytes and 80 words. \<open>how_many_in_block\<close> is kept below 64 by every
  operation (\<open>sha1_rep\<close>), so it is a natural number.
\<close>

section \<open>The routines\<close>

record sha1_context =
  reg_A :: u32
  reg_B :: u32
  reg_C :: u32
  reg_D :: u32
  reg_E :: u32
  H0 :: u32
  H1 :: u32
  H2 :: u32
  H3 :: u32
  H4 :: u32
  sched_words :: "u32 list"
  TEMP :: u32
  sha_block :: bytes
  how_many_in_block :: nat
  running_total :: u32

definition F1 :: "u32 \<Rightarrow> u32 \<Rightarrow> u32 \<Rightarrow> u32" where "F1 B C D = (B AND C) OR (NOT B AND D)"
definition F2 :: "u32 \<Rightarrow> u32 \<Rightarrow> u32 \<Rightarrow> u32" where "F2 B C D = B XOR C XOR D"
definition F3 :: "u32 \<Rightarrow> u32 \<Rightarrow> u32 \<Rightarrow> u32" where "F3 B C D = (B AND C) OR (B AND D) OR (C AND D)"
definition F4 :: "u32 \<Rightarrow> u32 \<Rightarrow> u32 \<Rightarrow> u32" where "F4 B C D = B XOR C XOR D"

definition CSHIFT :: "nat \<Rightarrow> u32 \<Rightarrow> u32" where
  "CSHIFT A B = push_bit A B OR drop_bit (32 - A) B"

definition sctp_sha1_init :: "sha1_context \<Rightarrow> sha1_context" where
  "sctp_sha1_init ctx = ctx\<lparr>
     reg_A := 0, reg_B := 0, reg_C := 0, reg_D := 0, reg_E := 0,
     H0 := 0x67452301, H1 := 0xefcdab89, H2 := 0x98badcfe, H3 := 0x10325476, H4 := 0xc3d2e1f0,
     TEMP := 0, sched_words := replicate 80 0, how_many_in_block := 0, running_total := 0\<rparr>"

text \<open>\<^verbatim>\<open>ntohl(block[i])\<close>: four bytes of the block, most significant first.\<close>

definition be_word :: "bytes \<Rightarrow> nat \<Rightarrow> u32" where
  "be_word block i =
     push_bit 24 (ucast (block ! (4 * i))) OR push_bit 16 (ucast (block ! (4 * i + 1))) OR
     push_bit 8 (ucast (block ! (4 * i + 2))) OR ucast (block ! (4 * i + 3))"

definition load_words :: "bytes \<Rightarrow> u32 list \<Rightarrow> u32 list" where
  "load_words block w = fold (\<lambda>i w. w[i := be_word block i]) [0..<16] w"

definition expand_words :: "u32 list \<Rightarrow> u32 list" where
  "expand_words w =
     fold (\<lambda>i w. w[i := CSHIFT 1 (w ! (i - 3) XOR w ! (i - 8) XOR w ! (i - 14) XOR w ! (i - 16))]) [16..<80] w"

definition round_temp :: "nat \<Rightarrow> sha1_context \<Rightarrow> u32" where
  "round_temp i ctx =
     (if i < 20 then
        CSHIFT 5 (reg_A ctx) + F1 (reg_B ctx) (reg_C ctx) (reg_D ctx) + reg_E ctx + sched_words ctx ! i + 0x5a827999
      else if i < 40 then
        CSHIFT 5 (reg_A ctx) + F2 (reg_B ctx) (reg_C ctx) (reg_D ctx) + reg_E ctx + sched_words ctx ! i + 0x6ed9eba1
      else if i < 60 then
        CSHIFT 5 (reg_A ctx) + F3 (reg_B ctx) (reg_C ctx) (reg_D ctx) + reg_E ctx + sched_words ctx ! i + 0x8f1bbcdc
      else
        CSHIFT 5 (reg_A ctx) + F4 (reg_B ctx) (reg_C ctx) (reg_D ctx) + reg_E ctx + sched_words ctx ! i + 0xca62c1d6)"

definition sha1_round :: "nat \<Rightarrow> sha1_context \<Rightarrow> sha1_context" where
  "sha1_round i ctx =
     (let t = round_temp i ctx in
      ctx\<lparr>TEMP := t, reg_E := reg_D ctx, reg_D := reg_C ctx, reg_C := CSHIFT 30 (reg_B ctx),
          reg_B := reg_A ctx, reg_A := t\<rparr>)"

definition sctp_sha1_process_a_block :: "sha1_context \<Rightarrow> bytes \<Rightarrow> sha1_context" where
  "sctp_sha1_process_a_block ctx block =
     (let ctx1 = ctx\<lparr>sched_words := expand_words (load_words block (sched_words ctx))\<rparr>;
          ctx2 = ctx1\<lparr>reg_A := H0 ctx1, reg_B := H1 ctx1, reg_C := H2 ctx1, reg_D := H3 ctx1, reg_E := H4 ctx1\<rparr>;
          ctx3 = fold sha1_round [0..<80] ctx2
      in ctx3\<lparr>H0 := H0 ctx3 + reg_A ctx3, H1 := H1 ctx3 + reg_B ctx3, H2 := H2 ctx3 + reg_C ctx3,
              H3 := H3 ctx3 + reg_D ctx3, H4 := H4 ctx3 + reg_E ctx3\<rparr>)"

text \<open>\<^verbatim>\<open>memcpy(&block[n], p, len)\<close>.\<close>

definition copy_into :: "bytes \<Rightarrow> nat \<Rightarrow> bytes \<Rightarrow> bytes" where
  "copy_into block n p = take n block @ p @ drop (n + length p) block"

function sctp_sha1_update :: "sha1_context \<Rightarrow> bytes \<Rightarrow> sha1_context" where
  "sctp_sha1_update ctx ptr =
     (if ptr = [] then ctx
      else
        let left_to_fill = 64 - how_many_in_block ctx in
        if left_to_fill > length ptr then
          ctx\<lparr>sha_block := copy_into (sha_block ctx) (how_many_in_block ctx) ptr,
              how_many_in_block := how_many_in_block ctx + length ptr,
              running_total := running_total ctx + of_nat (length ptr)\<rparr>
        else
          let block = copy_into (sha_block ctx) (how_many_in_block ctx) (take left_to_fill ptr);
              ctx1 = sctp_sha1_process_a_block (ctx\<lparr>sha_block := block\<rparr>) block
          in sctp_sha1_update (ctx1\<lparr>running_total := running_total ctx1 + of_nat left_to_fill, how_many_in_block := 0\<rparr>)
               (drop left_to_fill ptr))"
  by pat_completeness auto

definition be_bytes :: "u32 \<Rightarrow> bytes" where
  "be_bytes w = [ucast (drop_bit 24 w), ucast (drop_bit 16 w), ucast (drop_bit 8 w), ucast w]"

definition sctp_sha1_final :: "sha1_context \<Rightarrow> bytes \<times> sha1_context" where
  "sctp_sha1_final ctx =
     (let n = how_many_in_block ctx;
          ctx1 =
            (if n > 55 then
               let left_to_fill = 64 - n in
               if left_to_fill = 0 then
                 (sctp_sha1_process_a_block ctx (sha_block ctx))\<lparr>sha_block := 0x80 # replicate 63 0\<rparr>
               else if left_to_fill = 1 then
                 let block = (sha_block ctx)[n := 0x80] in
                 (sctp_sha1_process_a_block (ctx\<lparr>sha_block := block\<rparr>) block)\<lparr>sha_block := replicate 64 0\<rparr>
               else
                 let block = copy_into ((sha_block ctx)[n := 0x80]) (n + 1) (replicate (64 - (n + 1)) 0) in
                 (sctp_sha1_process_a_block (ctx\<lparr>sha_block := block\<rparr>) block)\<lparr>sha_block := replicate 64 0\<rparr>
             else ctx\<lparr>sha_block := copy_into ((sha_block ctx)[n := 0x80]) (n + 1) (replicate (64 - (n + 1)) 0)\<rparr>);
          total = running_total ctx1 * 8;
          last = copy_into (sha_block ctx1) 60 (be_bytes total);
          ctx2 = sctp_sha1_process_a_block (ctx1\<lparr>running_total := total, sha_block := last\<rparr>) last
      in (be_bytes (H0 ctx2) @ be_bytes (H1 ctx2) @ be_bytes (H2 ctx2) @ be_bytes (H3 ctx2) @ be_bytes (H4 ctx2), ctx2))"

lemma round_keeps [simp]:
  "how_many_in_block (sha1_round i c) = how_many_in_block c" "running_total (sha1_round i c) = running_total c"
  "sha_block (sha1_round i c) = sha_block c" "sched_words (sha1_round i c) = sched_words c"
  "H0 (sha1_round i c) = H0 c" "H1 (sha1_round i c) = H1 c" "H2 (sha1_round i c) = H2 c"
  "H3 (sha1_round i c) = H3 c" "H4 (sha1_round i c) = H4 c"
  by (simp_all add: sha1_round_def Let_def)

lemma rounds_keep [simp]:
  "how_many_in_block (fold sha1_round is c) = how_many_in_block c"
  "running_total (fold sha1_round is c) = running_total c"
  "sha_block (fold sha1_round is c) = sha_block c" "sched_words (fold sha1_round is c) = sched_words c"
  "H0 (fold sha1_round is c) = H0 c" "H1 (fold sha1_round is c) = H1 c" "H2 (fold sha1_round is c) = H2 c"
  "H3 (fold sha1_round is c) = H3 c" "H4 (fold sha1_round is c) = H4 c"
  by (induction "is" arbitrary: c) simp_all

lemma process_keeps [simp]:
  "how_many_in_block (sctp_sha1_process_a_block c b) = how_many_in_block c"
  "running_total (sctp_sha1_process_a_block c b) = running_total c"
  "sha_block (sctp_sha1_process_a_block c b) = sha_block c"
  by (simp_all add: sctp_sha1_process_a_block_def Let_def)

termination sctp_sha1_update
  by (relation "measure (\<lambda>(ctx, ptr). 2 * length ptr + (if how_many_in_block ctx \<ge> 64 then 1 else 0))")
    (auto simp: Let_def)

declare sctp_sha1_update.simps [simp del]

section \<open>The standard\<close>

text \<open>FIPS 180: message schedule, round function, compression, padding.\<close>

fun fips_W :: "bytes \<Rightarrow> nat \<Rightarrow> u32" where
  "fips_W b t =
     (if t < 16 then be_word b t
      else word_rotl 1 (fips_W b (t - 3) XOR fips_W b (t - 8) XOR fips_W b (t - 14) XOR fips_W b (t - 16)))"

declare fips_W.simps [simp del]

definition fips_f :: "nat \<Rightarrow> u32 \<Rightarrow> u32 \<Rightarrow> u32 \<Rightarrow> u32" where
  "fips_f t x y z =
     (if t < 20 then (x AND y) XOR (NOT x AND z)
      else if t < 40 then x XOR y XOR z
      else if t < 60 then (x AND y) XOR (x AND z) XOR (y AND z)
      else x XOR y XOR z)"

definition fips_K :: "nat \<Rightarrow> u32" where
  "fips_K t = (if t < 20 then 0x5a827999 else if t < 40 then 0x6ed9eba1 else if t < 60 then 0x8f1bbcdc else 0xca62c1d6)"

type_synonym sha1_state = "u32 \<times> u32 \<times> u32 \<times> u32 \<times> u32"

definition fips_round :: "bytes \<Rightarrow> nat \<Rightarrow> sha1_state \<Rightarrow> sha1_state" where
  "fips_round blk t = (\<lambda>(a, b, c, d, e). (word_rotl 5 a + fips_f t b c d + e + fips_K t + fips_W blk t, a, word_rotl 30 b, c, d))"

definition fips_compress :: "sha1_state \<Rightarrow> bytes \<Rightarrow> sha1_state" where
  "fips_compress h blk =
     (case (h, fold (fips_round blk) [0..<80] h) of
        ((h0, h1, h2, h3, h4), (a, b, c, d, e)) \<Rightarrow> (h0 + a, h1 + b, h2 + c, h3 + d, h4 + e))"

definition fips_iv :: sha1_state where
  "fips_iv = (0x67452301, 0xefcdab89, 0x98badcfe, 0x10325476, 0xc3d2e1f0)"

function blocks64 :: "bytes \<Rightarrow> bytes list" where
  "blocks64 xs = (if length xs < 64 then [] else take 64 xs # blocks64 (drop 64 xs))"
  by pat_completeness auto
termination
  by (relation "measure length") auto

declare blocks64.simps [simp del]

definition fips_pad :: "bytes \<Rightarrow> bytes" where
  "fips_pad msg =
     (let bits = of_nat (8 * length msg) :: u64 in
      msg @ 0x80 # replicate ((119 - length msg mod 64) mod 64) 0 @
        be_bytes (ucast (drop_bit 32 bits)) @ be_bytes (ucast bits))"

definition digest_bytes :: "sha1_state \<Rightarrow> bytes" where
  "digest_bytes = (\<lambda>(a, b, c, d, e). be_bytes a @ be_bytes b @ be_bytes c @ be_bytes d @ be_bytes e)"

definition sha1 :: "bytes \<Rightarrow> bytes" where
  "sha1 msg = digest_bytes (foldl fips_compress fips_iv (blocks64 (fips_pad msg)))"

section \<open>One block\<close>

lemma CSHIFT_rotl:
  assumes "0 < n" "n < 32"
  shows "CSHIFT n w = word_rotl n w"
proof -
  define k where "k = 32 - n"
  have k: "n = 32 - k" "0 < k" "k < 32" using assms by (simp_all add: k_def)
  have "bit (CSHIFT n w) m \<longleftrightarrow> bit (word_rotl n w) m" if "m < 32" for m
  proof (cases "m + k < 32")
    case True
    then show ?thesis using that k
      by (auto simp: CSHIFT_def bit_or_iff bit_push_bit_iff bit_drop_bit_eq bit_word_rotl_iff add.commute)
  next
    case False
    then have e: "m + k = (m - n) + 32" "m - n < 32" "n \<le> m" using k that by linarith+
    then have "(m + k) mod 32 = m - n" by (simp only: mod_add_self2 mod_less)
    moreover have "\<not> bit w (k + m)" using False by (auto dest: bit_imp_le_length)
    ultimately show ?thesis using that k e(3)
      by (simp add: CSHIFT_def bit_or_iff bit_push_bit_iff bit_drop_bit_eq bit_word_rotl_iff)
  qed
  then show ?thesis by (intro bit_word_eqI) simp
qed

lemma F_fips:
  "i < 20 \<Longrightarrow> F1 x y z = fips_f i x y z"
  "20 \<le> i \<Longrightarrow> i < 40 \<Longrightarrow> F2 x y z = fips_f i x y z"
  "40 \<le> i \<Longrightarrow> i < 60 \<Longrightarrow> F3 x y z = fips_f i x y z"
  "60 \<le> i \<Longrightarrow> F4 x y z = fips_f i x y z"
  by (auto simp: F1_def F2_def F3_def F4_def fips_f_def intro!: bit_word_eqI simp: bit_simps)

lemma load_words_nth:
  assumes "length w = 80"
  shows "length (load_words b w) = 80" "i < 16 \<Longrightarrow> load_words b w ! i = be_word b i"
proof -
  have *: "length (fold (\<lambda>i w. w[i := be_word b i]) [0..<n] w) = 80 \<and>
      (\<forall>i < n. fold (\<lambda>i w. w[i := be_word b i]) [0..<n] w ! i = be_word b i)" if "n \<le> 80" for n
    using that assms by (induction n) (auto simp: nth_list_update less_Suc_eq)
  show "length (load_words b w) = 80" "i < 16 \<Longrightarrow> load_words b w ! i = be_word b i"
    using * [of 16] by (simp_all add: load_words_def)
qed

lemma expand_words_nth:
  assumes "length w = 80" "\<And>i. i < 16 \<Longrightarrow> w ! i = be_word b i"
  shows "length (expand_words w) = 80" "i < 80 \<Longrightarrow> expand_words w ! i = fips_W b i"
proof -
  let ?g = "\<lambda>i w. w[i := CSHIFT 1 (w ! (i - 3) XOR w ! (i - 8) XOR w ! (i - 14) XOR w ! (i - 16))]"
  have *: "length (fold ?g [16..<16 + n] w) = 80 \<and> (\<forall>i < 16 + n. fold ?g [16..<16 + n] w ! i = fips_W b i)"
    if "n \<le> 64" for n
    using that
  proof (induction n)
    case 0
    then show ?case using assms by (simp add: fips_W.simps)
  next
    case (Suc n)
    define v where "v = fold ?g [16..<16 + n] w"
    have IH: "length v = 80" "\<And>i. i < 16 + n \<Longrightarrow> v ! i = fips_W b i" using Suc by (auto simp: v_def)
    have u: "[16..<16 + Suc n] = [16..<16 + n] @ [16 + n]"
      by (simp only: add_Suc_right upt_Suc_append le_add1)
    have "fold ?g [16..<16 + Suc n] w = ?g (16 + n) v" unfolding u v_def by simp
    moreover have "CSHIFT 1 (v ! (16 + n - 3) XOR v ! (16 + n - 8) XOR v ! (16 + n - 14) XOR v ! (16 + n - 16)) =
        fips_W b (16 + n)"
      by (simp add: IH(2) CSHIFT_rotl fips_W.simps [of b "16 + n"])
    ultimately have e: "fold ?g [16..<16 + Suc n] w = v[16 + n := fips_W b (16 + n)]" by simp
    have "v[16 + n := fips_W b (16 + n)] ! i = fips_W b i" if "i < 16 + Suc n" for i
      using that IH Suc.prems by (cases "i = 16 + n") auto
    then show ?case unfolding e using IH(1) by simp
  qed
  have sum: "16 + 64 = (80 :: nat)" by simp
  show "length (expand_words w) = 80" "i < 80 \<Longrightarrow> expand_words w ! i = fips_W b i"
    using * [of 64, unfolded sum, OF order_refl] unfolding expand_words_def by blast+
qed

definition regs :: "sha1_context \<Rightarrow> sha1_state" where
  "regs c = (reg_A c, reg_B c, reg_C c, reg_D c, reg_E c)"

definition chain_state :: "sha1_context \<Rightarrow> sha1_state" where
  "chain_state c = (H0 c, H1 c, H2 c, H3 c, H4 c)"

lemma regs_round:
  assumes "sched_words c ! i = fips_W b i"
  shows "regs (sha1_round i c) = fips_round b i (regs c)"
  using assms F_fips [of i "reg_B c" "reg_C c" "reg_D c"]
  by (auto simp: regs_def sha1_round_def round_temp_def fips_round_def fips_K_def CSHIFT_rotl Let_def ac_simps)

lemma regs_rounds:
  assumes "\<And>i. i \<in> set is \<Longrightarrow> sched_words c ! i = fips_W b i"
  shows "regs (fold sha1_round is c) = fold (fips_round b) is (regs c)"
  using assms
  by (induction "is" arbitrary: c) (simp_all add: regs_round)

lemma process_block:
  assumes "length (sched_words c) = 80"
  shows "chain_state (sctp_sha1_process_a_block c b) = fips_compress (chain_state c) b"
    "length (sched_words (sctp_sha1_process_a_block c b)) = 80"
proof -
  let ?w = "expand_words (load_words b (sched_words c))"
  have w: "length ?w = 80" "\<And>i. i < 80 \<Longrightarrow> ?w ! i = fips_W b i"
    using expand_words_nth [OF load_words_nth [OF assms]] by auto
  let ?c1 = "c\<lparr>sched_words := ?w, reg_A := H0 c, reg_B := H1 c, reg_C := H2 c, reg_D := H3 c, reg_E := H4 c\<rparr>"
  let ?c2 = "fold sha1_round [0..<80] ?c1"
  have "fold (fips_round b) [0..<80] (H0 c, H1 c, H2 c, H3 c, H4 c) =
      (reg_A ?c2, reg_B ?c2, reg_C ?c2, reg_D ?c2, reg_E ?c2)"
    using regs_rounds [of "[0..<80]" ?c1 b] w(2) by (simp add: regs_def)
  then show "chain_state (sctp_sha1_process_a_block c b) = fips_compress (chain_state c) b"
    by (simp add: sctp_sha1_process_a_block_def fips_compress_def chain_state_def Let_def)
  show "length (sched_words (sctp_sha1_process_a_block c b)) = 80"
    by (simp add: sctp_sha1_process_a_block_def w Let_def)
qed

section \<open>Streaming\<close>

text \<open>The context after the message \<open>full @ part\<close>, of which the whole blocks \<open>full\<close> are digested.\<close>

definition sha1_rep :: "sha1_context \<Rightarrow> bytes \<Rightarrow> bool" where
  "sha1_rep ctx msg \<longleftrightarrow>
     (\<exists>full part. msg = full @ part \<and> 64 dvd length full \<and> length part < 64 \<and>
        how_many_in_block ctx = length part \<and> take (length part) (sha_block ctx) = part \<and>
        chain_state ctx = foldl fips_compress fips_iv (blocks64 full)) \<and>
     length (sha_block ctx) = 64 \<and> length (sched_words ctx) = 80 \<and> running_total ctx = of_nat (length msg)"

lemma blocks64_append: "64 dvd length xs \<Longrightarrow> blocks64 (xs @ ys) = blocks64 xs @ blocks64 ys"
proof (induction xs rule: blocks64.induct)
  case (1 xs)
  show ?case
  proof (cases "xs = []")
    case True
    then show ?thesis by (simp add: blocks64.simps [of "[]"])
  next
    case False
    then have "64 \<le> length xs" using 1(2) by (simp add: dvd_imp_le)
    then show ?thesis
      using 1 by (simp add: blocks64.simps [of "xs @ ys"] blocks64.simps [of xs] dvd_diff_nat)
  qed
qed

lemma blocks64_one: "length b = 64 \<Longrightarrow> blocks64 b = [b]"
  by (simp add: blocks64.simps [of b] blocks64.simps [of "[]"])

lemma sha1_rep_init: "length (sha_block ctx) = 64 \<Longrightarrow> sha1_rep (sctp_sha1_init ctx) []"
  by (simp add: sha1_rep_def sctp_sha1_init_def chain_state_def fips_iv_def blocks64.simps [of "[]"])

lemma copy_into_length [simp]:
  "n + length p \<le> length b \<Longrightarrow> length (copy_into b n p) = length b"
  by (simp add: copy_into_def)

lemma chain_state_fields [simp]:
  "chain_state (c\<lparr>sha_block := b\<rparr>) = chain_state c" "chain_state (c\<lparr>how_many_in_block := n\<rparr>) = chain_state c"
  "chain_state (c\<lparr>running_total := t\<rparr>) = chain_state c"
  by (simp_all add: chain_state_def)

lemma sha1_rep_partial:
  assumes "sha1_rep ctx msg" "length p < 64 - how_many_in_block ctx"
  shows "sha1_rep (ctx\<lparr>sha_block := copy_into (sha_block ctx) (how_many_in_block ctx) p,
     how_many_in_block := how_many_in_block ctx + length p,
     running_total := running_total ctx + of_nat (length p)\<rparr>) (msg @ p)"
proof -
  obtain full part where f: "msg = full @ part" "64 dvd length full" "length part < 64"
    "how_many_in_block ctx = length part" "take (length part) (sha_block ctx) = part"
    "chain_state ctx = foldl fips_compress fips_iv (blocks64 full)" "length (sha_block ctx) = 64"
    "length (sched_words ctx) = 80" "running_total ctx = of_nat (length msg)"
    using assms(1) unfolding sha1_rep_def by blast
  then show ?thesis
    using assms(2) unfolding sha1_rep_def
    by (intro conjI exI [of _ full] exI [of _ "part @ p"]) (simp_all add: copy_into_def)
qed

lemma sha1_rep_full:
  assumes "sha1_rep ctx msg" "length p = 64 - how_many_in_block ctx"
    and "block = copy_into (sha_block ctx) (how_many_in_block ctx) p"
  shows "sha1_rep ((sctp_sha1_process_a_block (ctx\<lparr>sha_block := block\<rparr>) block)
     \<lparr>running_total := running_total ctx + of_nat (length p), how_many_in_block := 0\<rparr>) (msg @ p)"
proof -
  obtain full part where f: "msg = full @ part" "64 dvd length full" "length part < 64"
    "how_many_in_block ctx = length part" "take (length part) (sha_block ctx) = part"
    "chain_state ctx = foldl fips_compress fips_iv (blocks64 full)" "length (sha_block ctx) = 64"
    "length (sched_words ctx) = 80" "running_total ctx = of_nat (length msg)"
    using assms(1) unfolding sha1_rep_def by blast
  have b: "block = part @ p" and lb: "length block = 64"
    using f assms(2,3) by (simp_all add: copy_into_def)
  have "blocks64 (full @ part @ p) = blocks64 full @ [block]"
    using f(2) lb by (simp add: blocks64_append blocks64_one b)
  moreover have "64 dvd length (full @ part @ p)" using f(2) lb by (simp add: b)
  moreover have "of_nat (length part) + of_nat (length p) = (64 :: u32)"
    using arg_cong [OF lb, of "of_nat :: nat \<Rightarrow> u32"] by (simp add: b)
  ultimately show ?thesis
    using f lb process_block [of "ctx\<lparr>sha_block := block\<rparr>" block] unfolding sha1_rep_def
    by (intro conjI exI [of _ "full @ part @ p"] exI [of _ "[]"]) (simp_all add: b)
qed

lemma sha1_rep_bound: "sha1_rep ctx msg \<Longrightarrow> how_many_in_block ctx < 64"
  by (auto simp: sha1_rep_def)

lemma sha1_rep_update: "sha1_rep ctx msg \<Longrightarrow> sha1_rep (sctp_sha1_update ctx p) (msg @ p)"
proof (induction ctx p arbitrary: msg rule: sctp_sha1_update.induct)
  case (1 ctx ptr)
  let ?l = "64 - how_many_in_block ctx"
  show ?case
  proof (cases "ptr = [] \<or> ?l > length ptr")
    case True
    then show ?thesis
      using 1(2) sha1_rep_partial [OF 1(2), of ptr] by (subst sctp_sha1_update.simps) (auto simp: Let_def)
  next
    case False
    let ?b = "copy_into (sha_block ctx) (how_many_in_block ctx) (take ?l ptr)"
    let ?c = "(sctp_sha1_process_a_block (ctx\<lparr>sha_block := ?b\<rparr>) ?b)
       \<lparr>running_total := running_total ctx + of_nat ?l, how_many_in_block := 0\<rparr>"
    have "sha1_rep ?c (msg @ take ?l ptr)"
      using sha1_rep_full [OF 1(2), of "take ?l ptr" ?b] False by (simp add: min_absorb2)
    then have "sha1_rep (sctp_sha1_update ?c (drop ?l ptr)) ((msg @ take ?l ptr) @ drop ?l ptr)"
      using False 1(1) [OF _ refl _ refl refl, of "msg @ take ?l ptr"] by simp
    then show ?thesis
      using False by (subst sctp_sha1_update.simps) (simp add: Let_def)
  qed
qed

section \<open>The last blocks\<close>

lemma be_bytes_simps [simp]: "length (be_bytes w) = 4" "be_bytes 0 = replicate 4 0"
  by (simp_all add: be_bytes_def numeral_eq_Suc)

lemma fill_block:
  assumes "length part < 64" "take (length part) b = part" "length b = 64"
  shows "copy_into (b[length part := x]) (length part + 1) (replicate (64 - (length part + 1)) 0) =
      part @ x # replicate (63 - length part) 0"
  using assms take_Suc_conv_app_nth [of "length part" "b[length part := x]"]
  by (simp add: copy_into_def take_update_cancel)

lemma place_length:
  assumes "length b = 64" "length w = 4"
  shows "copy_into b 60 w = take 60 b @ w"
  using assms by (simp add: copy_into_def)

lemma total_bits:
  assumes "length msg < 2 ^ 29"
  shows "drop_bit 32 (of_nat (8 * length msg) :: u64) = 0"
    "ucast (of_nat (8 * length msg) :: u64) = (of_nat (length msg) * 8 :: u32)"
proof -
  have u: "unat (of_nat (8 * length msg) :: u64) = 8 * length msg"
    using assms by (simp add: unat_of_nat del: of_nat_mult)
  have "unat (drop_bit 32 (of_nat (8 * length msg) :: u64)) = drop_bit 32 (8 * length msg)"
    unfolding unat_drop_bit_eq u ..
  also have "\<dots> = 0" using assms by (simp add: drop_bit_eq_div)
  finally show "drop_bit 32 (of_nat (8 * length msg) :: u64) = 0" by (simp only: unat_eq_0)
  have "ucast (of_nat (8 * length msg) :: u64) = (of_nat (8 * length msg) :: u32)"
    by (simp add: word_unat_eq_iff unsigned_ucast_eq unat_of_nat take_bit_eq_mod mod_mod_cancel del: of_nat_mult)
  then show "ucast (of_nat (8 * length msg) :: u64) = (of_nat (length msg) * 8 :: u32)"
    by (simp add: mult.commute)
qed

text \<open>The last one or two blocks, as the code builds them and as the padding rule does.\<close>

lemma pad_blocks:
  assumes "msg = full @ part" "64 dvd length full" "length part < 64" "length msg < 2 ^ 29"
  shows "blocks64 (fips_pad msg) = blocks64 full @
    (if length part \<le> 55 then [part @ 0x80 # replicate (59 - length part) 0 @ be_bytes (of_nat (length msg) * 8)]
     else [part @ 0x80 # replicate (63 - length part) 0, replicate 60 0 @ be_bytes (of_nat (length msg) * 8)])"
proof -
  let ?n = "length part"
  have n: "length msg mod 64 = ?n"
    using assms(1-3) by (auto simp: mod_add_left_eq [symmetric] dvd_eq_mod_eq_0)
  let ?t = "be_bytes (of_nat (length msg) * 8)"
  let ?z = "(119 - ?n) mod 64"
  have "fips_pad msg = full @ part @ 0x80 # replicate ?z 0 @ replicate 4 0 @ ?t"
    unfolding fips_pad_def Let_def total_bits [OF assms(4)] n using assms(1) by simp
  also have "\<dots> = full @ part @ 0x80 # replicate (?z + 4) 0 @ ?t"
    by (simp only: replicate_add append_assoc)
  finally have pad: "fips_pad msg = full @ (part @ 0x80 # replicate (?z + 4) 0 @ ?t)" .
  show ?thesis
  proof (cases "?n \<le> 55")
    case True
    then have "119 - ?n = 64 + (55 - ?n)" by simp
    then have "?z + 4 = 59 - ?n" using True by (simp only: mod_add_self1) simp
    then show ?thesis
      using True assms(2) unfolding pad by (simp add: blocks64_append blocks64_one)
  next
    case False
    then have "?z + 4 = (63 - ?n) + 60" using assms(3) by simp
    define B1 :: bytes where "B1 = part @ 0x80 # replicate (63 - ?n) 0"
    define B2 where "B2 = replicate 60 0 @ ?t"
    have "part @ 0x80 # replicate (?z + 4) 0 @ ?t = B1 @ B2"
      unfolding B1_def B2_def \<open>?z + 4 = (63 - ?n) + 60\<close> by (simp only: replicate_add append_assoc append_Cons)
    then have "fips_pad msg = full @ (B1 @ B2)" using pad by simp
    moreover have "length B1 = 64" "length B2 = 64" using assms(3) by (simp_all add: B1_def B2_def)
    ultimately have "blocks64 (fips_pad msg) = blocks64 full @ [B1, B2]"
      using assms(2) by (simp add: blocks64_append blocks64_one)
    then show ?thesis using False by (simp add: B1_def B2_def)
  qed
qed

lemma sha1_final_spec:
  assumes "sha1_rep ctx msg" "length msg < 2 ^ 29"
  shows "fst (sctp_sha1_final ctx) = sha1 msg"
proof -
  obtain full part where f: "msg = full @ part" "64 dvd length full" "length part < 64"
    "how_many_in_block ctx = length part" "take (length part) (sha_block ctx) = part"
    "chain_state ctx = foldl fips_compress fips_iv (blocks64 full)" "length (sha_block ctx) = 64"
    "length (sched_words ctx) = 80" "running_total ctx = of_nat (length msg)"
    using assms(1) unfolding sha1_rep_def by blast
  let ?n = "length part" and ?t = "be_bytes (of_nat (length msg) * 8)"
  have fill: "copy_into ((sha_block ctx)[?n := 0x80]) (?n + 1) (replicate (64 - (?n + 1)) 0) =
      part @ 0x80 # replicate (63 - ?n) 0"
    using fill_block [OF f(3,5,7)] .
  have dig: "fst (be_bytes (H0 c) @ be_bytes (H1 c) @ be_bytes (H2 c) @ be_bytes (H3 c) @ be_bytes (H4 c), c) =
      digest_bytes (chain_state c)" for c
    by (simp add: digest_bytes_def chain_state_def)
  note blocks = pad_blocks [OF f(1-3) assms(2)]
  show ?thesis
  proof (cases "?n \<le> 55")
    case True
    define b where "b = part @ 0x80 # replicate (63 - ?n) (0 :: u8)"
    have lb: "length b = 64" using f(3) by (simp add: b_def)
    define pre where "pre = part @ 0x80 # replicate (59 - ?n) (0 :: u8)"
    have "b = pre @ replicate 4 0" "length pre = 60"
      using True by (simp_all add: b_def pre_def replicate_add [symmetric])
    then have "copy_into b 60 ?t = pre @ ?t"
      using lb place_length [of b ?t] by simp
    then have last: "copy_into b 60 ?t = part @ 0x80 # replicate (59 - ?n) 0 @ ?t"
      by (simp add: pre_def)
    have "fst (sctp_sha1_final ctx) = digest_bytes (fips_compress (chain_state ctx) (copy_into b 60 ?t))"
      unfolding sctp_sha1_final_def Let_def dig using True f(4,8,9) fill
      by (simp add: b_def process_block)
    then show ?thesis using True blocks by (simp add: sha1_def last f(6))
  next
    case False
    let ?b1 = "part @ 0x80 # replicate (63 - ?n) (0 :: u8)"
    have one: "(sha_block ctx)[?n := 0x80] = ?b1" if "64 - ?n = 1"
      using fill that f(3,7) by (simp add: copy_into_def)
    have last: "copy_into (replicate 64 0) 60 ?t = replicate 60 0 @ ?t"
      using place_length [of "replicate 64 0" ?t] by (simp add: take_replicate)
    have "fst (sctp_sha1_final ctx) =
        digest_bytes (fips_compress (fips_compress (chain_state ctx) ?b1) (copy_into (replicate 64 0) 60 ?t))"
      unfolding sctp_sha1_final_def Let_def dig using False f(3,4,8,9) fill one
      by (auto simp: process_block)
    then show ?thesis using False blocks by (simp add: sha1_def last f(6))
  qed
qed

section \<open>Theorems\<close>

text \<open>Hashing a message that arrives in pieces.\<close>

definition sha1_stream :: "sha1_context \<Rightarrow> bytes list \<Rightarrow> bytes" where
  "sha1_stream ctx bufs = fst (sctp_sha1_final (foldl sctp_sha1_update (sctp_sha1_init ctx) bufs))"

lemma sha1_rep_stream:
  "sha1_rep ctx msg \<Longrightarrow> sha1_rep (foldl sctp_sha1_update ctx bufs) (msg @ concat bufs)"
proof (induction bufs arbitrary: ctx msg)
  case (Cons b bufs)
  then show ?case using Cons.IH [OF sha1_rep_update [OF Cons.prems, of b]] by simp
qed simp

lemma sha1_stream_spec:
  assumes "length (sha_block ctx) = 64" "length (concat bufs) < 2 ^ 29"
  shows "sha1_stream ctx bufs = sha1 (concat bufs)"
  using sha1_final_spec [OF _ assms(2)] sha1_rep_stream [OF sha1_rep_init [OF assms(1)], of bufs]
  by (simp add: sha1_stream_def)

lemma sha1_length: "length (sha1 msg) = 20"
  by (simp add: sha1_def digest_bytes_def split: prod.split)

text \<open>C9. Initialising a context, whatever it held, feeding a message in pieces of any sizes and
  finishing gives the SHA-1 digest that FIPS 180 defines for the concatenated message (message
  schedule by recurrence, rotations, 64-bit length padding), for every message shorter than
  512 MiB; the digest has 20 bytes.\<close>

theorem sha1_is_fips:
  assumes "length (sha_block ctx) = 64" "length (concat bufs) < 2 ^ 29"
  shows "sha1_stream ctx bufs = sha1 (concat bufs) \<and> length (sha1_stream ctx bufs) = 20"
  using sha1_stream_spec [OF assms] sha1_length by simp

definition blank_ctx :: sha1_context where
  "blank_ctx = \<lparr>reg_A = 7, reg_B = 7, reg_C = 7, reg_D = 7, reg_E = 7, H0 = 7, H1 = 7, H2 = 7, H3 = 7, H4 = 7,
     sched_words = [], TEMP = 7, sha_block = replicate 64 7, how_many_in_block = 7, running_total = 7\<rparr>"

theorem sha1_is_fips_witness:
  "sha1_stream blank_ctx [[97], [98, 99]] = sha1 [97, 98, 99] \<and> length (sha1_stream blank_ctx [[97], [98, 99]]) = 20"
proof -
  have "length (sha_block blank_ctx) = 64" by (simp add: blank_ctx_def)
  then show ?thesis using sha1_is_fips [of blank_ctx "[[97], [98, 99]]"] by auto
qed

end
