(* ===== verification/Mbuf_Chain.thy ===== *)
theory Mbuf_Chain
  imports Prelude
begin

text \<open>
  Packet data in an mbuf chain, as the checksum and authentication routines read it: a chain is
  the list of its mbufs, \<^verbatim>\<open>SCTP_BUF_NEXT\<close> leads to the next one.
\<close>

text \<open>An mbuf: the address of its data and the \<^verbatim>\<open>m_len\<close> bytes there.\<close>

record data_buf =
  m_addr :: u64
  m_bytes :: bytes

abbreviation SCTP_BUF_LEN :: "data_buf \<Rightarrow> u32" where
  "SCTP_BUF_LEN m \<equiv> of_nat (length (m_bytes m))"

definition chain_bytes :: "data_buf list \<Rightarrow> bytes" where
  "chain_bytes ms = concat (map m_bytes ms)"

definition chain_ok :: "data_buf list \<Rightarrow> bool" where
  "chain_ok ms \<longleftrightarrow> (\<forall>m \<in> set ms. length (m_bytes m) < 2 ^ 31)"

lemma chain_simps [simp]:
  "chain_bytes [] = []" "chain_bytes (m # ms) = m_bytes m @ chain_bytes ms"
  "chain_ok []" "chain_ok (m # ms) \<longleftrightarrow> length (m_bytes m) < 2 ^ 31 \<and> chain_ok ms"
  by (simp_all add: chain_bytes_def chain_ok_def)

lemma unat_buf_len: "length (m_bytes m) < 2 ^ 31 \<Longrightarrow> unat (SCTP_BUF_LEN m) = length (m_bytes m)"
  by (simp add: unat_of_nat take_bit_nat_eq_self)

lemma last_le_chain: "ms \<noteq> [] \<Longrightarrow> length (m_bytes (last ms)) \<le> length (chain_bytes ms)"
  by (induction ms) (auto simp: trans_le_add2)

end
