(* ===== verification/Hmac.thy ===== *)
theory Hmac
  imports Sha1 Mbuf_Chain
begin

text \<open>
  The keyed hash of \<^verbatim>\<open>netinet/sctp_auth.c\<close> (built without SHA-256): \<^verbatim>\<open>sctp_hmac()\<close>, its mbuf
  variant, verification, and the variants that work on a key structure. Pointers that the code
  tests for NULL are options. The hash context and the \<open>temp\<close> buffer are uninitialised stack
  memory, so their contents are arguments (\<open>stk\<close>); the theorems show that nothing depends on
  them. A read outside a buffer has no result.
\<close>

section \<open>Algorithms\<close>

abbreviation (input) SCTP_AUTH_HMAC_ID_RSVD :: u16 where "SCTP_AUTH_HMAC_ID_RSVD \<equiv> 0"
abbreviation (input) SCTP_AUTH_HMAC_ID_SHA1 :: u16 where "SCTP_AUTH_HMAC_ID_SHA1 \<equiv> 1"

definition SCTP_SIZE32 :: "u32 \<Rightarrow> u32" where
  "SCTP_SIZE32 x = push_bit 2 (drop_bit 2 (x + 3))"

definition sctp_get_hmac_digest_len :: "u16 \<Rightarrow> u32" where
  "sctp_get_hmac_digest_len hmac_algo = (if hmac_algo = SCTP_AUTH_HMAC_ID_SHA1 then 20 else 0)"

definition sctp_get_auth_chunk_len :: "u16 \<Rightarrow> u32" where
  "sctp_get_auth_chunk_len hmac_algo = SCTP_SIZE32 (8 + sctp_get_hmac_digest_len hmac_algo)"

definition sctp_get_hmac_block_len :: "u16 \<Rightarrow> u32" where
  "sctp_get_hmac_block_len hmac_algo = (if hmac_algo = SCTP_AUTH_HMAC_ID_SHA1 then 64 else 0)"

definition sctp_hmac_init :: "u16 \<Rightarrow> sha1_context \<Rightarrow> sha1_context" where
  "sctp_hmac_init hmac_algo ctx = (if hmac_algo = SCTP_AUTH_HMAC_ID_SHA1 then sctp_sha1_init ctx else ctx)"

definition sctp_hmac_update :: "u16 \<Rightarrow> sha1_context \<Rightarrow> bytes \<Rightarrow> sha1_context" where
  "sctp_hmac_update hmac_algo ctx text =
     (if hmac_algo = SCTP_AUTH_HMAC_ID_SHA1 then sctp_sha1_update ctx text else ctx)"

definition sctp_hmac_final :: "u16 \<Rightarrow> sha1_context \<Rightarrow> bytes \<Rightarrow> bytes \<times> sha1_context" where
  "sctp_hmac_final hmac_algo ctx digest =
     (if hmac_algo = SCTP_AUTH_HMAC_ID_SHA1
      then (let (d, ctx') = sctp_sha1_final ctx in (copy_into digest 0 d, ctx'))
      else (digest, ctx))"

section \<open>HMAC over a buffer\<close>

type_synonym hmac_stack = "sha1_context \<times> bytes"

text \<open>\<^verbatim>\<open>temp\<close> after hashing the pieces, and the context.\<close>

definition hash_into_temp :: "u16 \<Rightarrow> hmac_stack \<Rightarrow> bytes list \<Rightarrow> hmac_stack" where
  "hash_into_temp hmac_algo stk bufs =
     (case sctp_hmac_final hmac_algo
             (foldl (sctp_hmac_update hmac_algo) (sctp_hmac_init hmac_algo (fst stk)) bufs) (snd stk)
      of (temp, ctx) \<Rightarrow> (ctx, temp))"

text \<open>"hash the key if it is longer than the hash block size"\<close>

definition shorten_key :: "u16 \<Rightarrow> hmac_stack \<Rightarrow> bytes \<Rightarrow> bytes \<times> hmac_stack" where
  "shorten_key hmac_algo stk key =
     (if length key > unat (sctp_get_hmac_block_len hmac_algo)
      then (let stk' = hash_into_temp hmac_algo stk [key]
            in (take (unat (sctp_get_hmac_digest_len hmac_algo)) (snd stk'), stk'))
      else (key, stk))"

definition key_pad :: "u16 \<Rightarrow> bytes \<Rightarrow> u8 \<Rightarrow> bytes" where
  "key_pad hmac_algo key x =
     map (\<lambda>b. b XOR x) (copy_into (replicate (unat (sctp_get_hmac_block_len hmac_algo)) 0) 0 key)"

text \<open>The outer hash, of the outer pad and the digest in \<open>temp\<close>, into the caller's buffer.\<close>

definition outer_hash :: "u16 \<Rightarrow> hmac_stack \<Rightarrow> bytes \<Rightarrow> bytes \<Rightarrow> bytes" where
  "outer_hash hmac_algo stk opad digest =
     fst (sctp_hmac_final hmac_algo
       (foldl (sctp_hmac_update hmac_algo) (sctp_hmac_init hmac_algo (fst stk))
         [opad, take (unat (sctp_get_hmac_digest_len hmac_algo)) (snd stk)]) digest)"

definition sctp_hmac ::
  "hmac_stack \<Rightarrow> u16 \<Rightarrow> bytes option \<Rightarrow> bytes option \<Rightarrow> bytes option \<Rightarrow> u32 \<times> bytes option" where
  "sctp_hmac stk hmac_algo key text digest =
     (case (key, text, digest) of
        (Some k, Some t, Some d) \<Rightarrow>
          if k = [] \<or> t = [] then (0, digest)
          else
            let digestlen = sctp_get_hmac_digest_len hmac_algo in
            if digestlen = 0 then (0, digest)
            else
              let (k', stk1) = shorten_key hmac_algo stk k;
                  ipad = key_pad hmac_algo k' 0x36;
                  opad = key_pad hmac_algo k' 0x5c;
                  stk2 = hash_into_temp hmac_algo stk1 [ipad, t]
              in (digestlen, Some (outer_hash hmac_algo stk2 opad d))
      | _ \<Rightarrow> (0, digest))"

section \<open>HMAC over a chain\<close>

fun skip_to_offset :: "data_buf list \<Rightarrow> u32 \<Rightarrow> data_buf list \<times> u32" where
  "skip_to_offset [] m_offset = ([], m_offset)"
| "skip_to_offset (m # ms) m_offset =
     (if m_offset \<ge> SCTP_BUF_LEN m then skip_to_offset ms (m_offset - SCTP_BUF_LEN m) else (m # ms, m_offset))"

definition read_at :: "bytes \<Rightarrow> u32 \<Rightarrow> u32 \<Rightarrow> bytes option" where
  "read_at data off n =
     (if unat off + unat n \<le> length data then Some (take (unat n) (drop (unat off) data)) else None)"

fun chain_update :: "u16 \<Rightarrow> u32 \<Rightarrow> sha1_context \<Rightarrow> u32 \<Rightarrow> data_buf list \<Rightarrow> sha1_context option" where
  "chain_update hmac_algo trailer ctx m_offset [] = Some ctx"
| "chain_update hmac_algo trailer ctx m_offset (m # ms) = do {
     t \<leftarrow> (if ms = [] \<and> trailer \<noteq> 0
           then read_at (m_bytes m) m_offset (SCTP_BUF_LEN m - (trailer + m_offset))
           else read_at (m_bytes m) m_offset (SCTP_BUF_LEN m - m_offset));
     chain_update hmac_algo trailer (sctp_hmac_update hmac_algo ctx t) 0 ms
   }"

definition sctp_hmac_m ::
  "hmac_stack \<Rightarrow> u16 \<Rightarrow> bytes option \<Rightarrow> data_buf list \<Rightarrow> u32 \<Rightarrow> bytes option \<Rightarrow> u32 \<Rightarrow>
     (u32 \<times> bytes option) option" where
  "sctp_hmac_m stk hmac_algo key m m_offset digest trailer =
     (case (key, digest) of
        (Some k, Some d) \<Rightarrow>
          if k = [] \<or> m = [] then Some (0, digest)
          else
            let digestlen = sctp_get_hmac_digest_len hmac_algo in
            if digestlen = 0 then Some (0, digest)
            else
              let (k', stk1) = shorten_key hmac_algo stk k;
                  ipad = key_pad hmac_algo k' 0x36;
                  opad = key_pad hmac_algo k' 0x5c;
                  ctx0 = sctp_hmac_update hmac_algo (sctp_hmac_init hmac_algo (fst stk1)) ipad;
                  (m_tmp, m_offset') = skip_to_offset m m_offset
              in do {
                ctx1 \<leftarrow> chain_update hmac_algo trailer ctx0 m_offset' m_tmp;
                let (temp, ctx2) = sctp_hmac_final hmac_algo ctx1 (snd stk1);
                Some (digestlen, Some (outer_hash hmac_algo (ctx2, temp) opad d))
              }
      | _ \<Rightarrow> Some (0, digest))"

section \<open>Verification and key structures\<close>

definition sctp_verify_hmac ::
  "hmac_stack \<Rightarrow> bytes \<Rightarrow> u16 \<Rightarrow> bytes option \<Rightarrow> bytes option \<Rightarrow> bytes option \<Rightarrow> int" where
  "sctp_verify_hmac stk temp hmac_algo key text digest =
     (case (key, text, digest) of
        (Some k, Some t, Some d) \<Rightarrow>
          if k = [] \<or> t = [] then -1
          else
            let len = sctp_get_hmac_digest_len hmac_algo in
            if len = 0 \<or> length d \<noteq> unat len then -1
            else
              (case sctp_hmac stk hmac_algo (Some k) (Some t) (Some temp) of
                 (r, out) \<Rightarrow>
                   if r \<noteq> len then -1
                   else (case out of
                           None \<Rightarrow> -1
                         | Some computed \<Rightarrow> if d \<noteq> take (length d) computed then -1 else 0))
      | _ \<Rightarrow> -1)"

text \<open>A \<^verbatim>\<open>sctp_key_t\<close> is the list of its \<open>keylen\<close> bytes; the hashed key replaces it.\<close>

definition sctp_compute_hmac ::
  "hmac_stack \<Rightarrow> u16 \<Rightarrow> bytes option \<Rightarrow> bytes option \<Rightarrow> bytes option \<Rightarrow> u32 \<times> bytes option \<times> bytes option" where
  "sctp_compute_hmac stk hmac_algo key text digest =
     (case (key, text, digest) of
        (Some k, Some t, Some d) \<Rightarrow>
          if t = [] then (0, digest, key)
          else if sctp_get_hmac_digest_len hmac_algo = 0 then (0, digest, key)
          else
            let (k', stk') = shorten_key hmac_algo stk k;
                (r, d') = sctp_hmac stk' hmac_algo (Some k') text digest
            in (r, d', Some k')
      | _ \<Rightarrow> (0, digest, key))"

definition sctp_compute_hmac_m ::
  "hmac_stack \<Rightarrow> u16 \<Rightarrow> bytes option \<Rightarrow> data_buf list \<Rightarrow> u32 \<Rightarrow> bytes option \<Rightarrow>
     (u32 \<times> bytes option \<times> bytes option) option" where
  "sctp_compute_hmac_m stk hmac_algo key m m_offset digest =
     (case (key, digest) of
        (Some k, Some d) \<Rightarrow>
          if m = [] then Some (0, digest, key)
          else if sctp_get_hmac_digest_len hmac_algo = 0 then Some (0, digest, key)
          else
            let (k', stk') = shorten_key hmac_algo stk k
            in map_option (\<lambda>(r, d'). (r, d', Some k'))
                 (sctp_hmac_m stk' hmac_algo (Some k') m m_offset digest 0)
      | _ \<Rightarrow> Some (0, digest, key))"

section \<open>The specification, over any streaming hash\<close>

text \<open>RFC 2104 with a block of 64 bytes.\<close>

definition fit_key :: "(bytes \<Rightarrow> bytes) \<Rightarrow> bytes \<Rightarrow> bytes" where
  "fit_key H k = (if length k > 64 then H k else k)"

definition hmac_spec :: "(bytes \<Rightarrow> bytes) \<Rightarrow> bytes \<Rightarrow> bytes \<Rightarrow> bytes" where
  "hmac_spec H k m =
     (let k0 = fit_key H k @ replicate (64 - length (fit_key H k)) 0
      in H (map (\<lambda>b. b XOR 0x5c) k0 @ H (map (\<lambda>b. b XOR 0x36) k0 @ m)))"

locale streaming_hash =
  fixes h_init :: "'c \<Rightarrow> 'c"
    and h_update :: "'c \<Rightarrow> bytes \<Rightarrow> 'c"
    and h_final :: "'c \<Rightarrow> bytes \<times> 'c"
    and ready :: "'c \<Rightarrow> bool"
    and H :: "bytes \<Rightarrow> bytes"
    and limit dlen :: nat
  assumes stream: "ready c \<Longrightarrow> length (concat bufs) < limit \<Longrightarrow>
      fst (h_final (foldl h_update (h_init c) bufs)) = H (concat bufs)"
    and ready_again: "ready c \<Longrightarrow> ready (snd (h_final (foldl h_update (h_init c) bufs)))"
    and digest_length: "length (H m) = dlen"
    and digest_fits: "dlen \<le> 64" "64 + dlen < limit"
begin

text \<open>Two nested hashes over the same context memory.\<close>

lemma nested_hash:
  assumes "ready c" "length k \<le> 64" "length (concat ms) + 64 < limit"
    and "k0 = k @ replicate (64 - length k) 0"
    and "h_final (foldl h_update (h_init c) (map (\<lambda>b. b XOR 0x36) k0 # ms)) = (inner, c')"
  shows "fst (h_final (foldl h_update (h_init c') [map (\<lambda>b. b XOR 0x5c) k0, inner])) = hmac_spec H k (concat ms)"
proof -
  let ?bufs = "map (\<lambda>b. b XOR 0x36) k0 # ms"
  have k0: "length k0 = 64" using assms(2,4) by simp
  have "inner = H (map (\<lambda>b. b XOR 0x36) k0 @ concat ms)"
    using stream [of c ?bufs] assms(1,3,5) k0 by simp
  moreover have "ready c'" using ready_again [OF assms(1), of ?bufs] assms(5) by simp
  ultimately show ?thesis
    using stream [of c' "[map (\<lambda>b. b XOR 0x5c) k0, inner]"] k0 digest_length digest_fits assms(2,4)
    by (simp add: hmac_spec_def fit_key_def Let_def)
qed

lemma fit_key_length: "length (fit_key H k) \<le> 64"
  using digest_length digest_fits by (simp add: fit_key_def)

text \<open>Replacing a long key by its digest does not change the result.\<close>

lemma fit_key_again: "hmac_spec H (fit_key H k) m = hmac_spec H k m"
  using fit_key_length [of k] by (simp add: hmac_spec_def fit_key_def [of H "fit_key H k"])

lemma hmac_length: "length (hmac_spec H k m) = dlen"
  by (simp add: hmac_spec_def digest_length Let_def)

end

section \<open>The code computes it\<close>

lemma process_block_buffer: "sha1_rep c msg \<Longrightarrow> length (sha_block (snd (sctp_sha1_final c))) = 64"
  by (auto simp: sctp_sha1_final_def Let_def sha1_rep_def copy_into_def)

interpretation sha: streaming_hash sctp_sha1_init sctp_sha1_update sctp_sha1_final
  "\<lambda>c. length (sha_block c) = 64" sha1 "2 ^ 29" 20
proof
  fix c bufs
  show "length (sha_block c) = 64 \<Longrightarrow> length (concat bufs) < 2 ^ 29 \<Longrightarrow>
      fst (sctp_sha1_final (foldl sctp_sha1_update (sctp_sha1_init c) bufs)) = sha1 (concat bufs)"
    using sha1_stream_spec [of c bufs] by (simp add: sha1_stream_def)
  show "length (sha_block c) = 64 \<Longrightarrow>
      length (sha_block (snd (sctp_sha1_final (foldl sctp_sha1_update (sctp_sha1_init c) bufs)))) = 64"
    using process_block_buffer [OF sha1_rep_stream [OF sha1_rep_init]] by blast
qed (simp_all add: sha1_length)

text \<open>The stack memory of the code: 64 bytes of block buffer, 32 bytes of \<open>temp\<close>.\<close>

definition stack_ok :: "hmac_stack \<Rightarrow> bool" where
  "stack_ok stk \<longleftrightarrow> length (sha_block (fst stk)) = 64 \<and> length (snd stk) = 32"

lemmas sha1_algo = sctp_get_hmac_digest_len_def sctp_get_hmac_block_len_def sctp_hmac_init_def
  sctp_hmac_update_def sctp_hmac_final_def

lemma sha1_final_length: "length (fst (sctp_sha1_final c)) = 20"
  by (simp add: sctp_sha1_final_def Let_def)

lemma hash_into_temp_spec:
  assumes "stack_ok stk" "length (concat bufs) < 2 ^ 29"
  shows "stack_ok (hash_into_temp 1 stk bufs) \<and> take 20 (snd (hash_into_temp 1 stk bufs)) = sha1 (concat bufs)"
proof -
  obtain c t where stk: "stk = (c, t)" "length (sha_block c) = 64" "length t = 32"
    using assms(1) by (cases stk) (auto simp: stack_ok_def)
  obtain d c' where f: "sctp_sha1_final (foldl sctp_sha1_update (sctp_sha1_init c) bufs) = (d, c')"
    by fastforce
  then have "d = sha1 (concat bufs)" "length (sha_block c') = 64"
    using sha.stream [OF stk(2) assms(2)] sha.ready_again [OF stk(2), of bufs] by simp_all
  moreover have "hash_into_temp 1 stk bufs = (c', copy_into t 0 d)"
    using f by (simp add: hash_into_temp_def stk(1) sha1_algo [abs_def])
  ultimately show ?thesis
    using stk(3) by (simp add: stack_ok_def copy_into_def sha1_length)
qed

lemma shorten_key_spec:
  assumes "stack_ok stk" "length k < 2 ^ 29" "shorten_key 1 stk k = (k', stk')"
  shows "k' = fit_key sha1 k" "stack_ok stk'"
  using hash_into_temp_spec [OF assms(1), of "[k]"] assms
  by (auto simp: shorten_key_def fit_key_def sha1_algo Let_def split: if_splits)

lemma key_pad_spec:
  "length k \<le> 64 \<Longrightarrow> key_pad 1 k x = map (\<lambda>b. b XOR x) (k @ replicate (64 - length k) 0)"
  by (simp add: key_pad_def copy_into_def sha1_algo)

text \<open>The two hashes of the code, for text given in pieces.\<close>

lemma nested_code:
  assumes "stack_ok stk" "length k \<le> 64" "length (concat ms) < 2 ^ 29 - 64" "20 \<le> length d"
    and "sctp_hmac_final 1 (foldl (sctp_hmac_update 1) (sctp_hmac_init 1 (fst stk)) (key_pad 1 k 0x36 # ms)) (snd stk)
      = (temp, ctx)"
  shows "outer_hash 1 (ctx, temp) (key_pad 1 k 0x5c) d = hmac_spec sha1 k (concat ms) @ drop 20 d"
proof -
  let ?k0 = "k @ replicate (64 - length k) 0"
  obtain inner c' where f: "sctp_sha1_final (foldl sctp_sha1_update (sctp_sha1_init (fst stk))
      (map (\<lambda>b. b XOR 0x36) ?k0 # ms)) = (inner, c')"
    by fastforce
  then have t: "ctx = c'" "temp = copy_into (snd stk) 0 inner"
    using assms(5) by (simp_all add: sha1_algo [abs_def] key_pad_spec [OF assms(2)])
  have "length inner = 20"
    using sha1_final_length f by (metis fst_conv)
  then have "take 20 temp = inner"
    using assms(1) by (simp add: t(2) copy_into_def stack_ok_def)
  moreover have "fst (sctp_sha1_final (foldl sctp_sha1_update (sctp_sha1_init c') [map (\<lambda>b. b XOR 0x5c) ?k0, inner])) =
      hmac_spec sha1 k (concat ms)"
    using sha.nested_hash [OF _ assms(2) _ refl f] assms(1,3) by (simp add: stack_ok_def)
  ultimately show ?thesis
    using sha.hmac_length [of k "concat ms"]
    by (simp add: outer_hash_def t(1) sha1_algo [abs_def] key_pad_spec [OF assms(2)] copy_into_def split: prod.split)
      (metis fst_conv)
qed

lemma sctp_hmac_spec:
  assumes "stack_ok stk" "k \<noteq> []" "length k < 2 ^ 29" "t \<noteq> []" "length t < 2 ^ 29 - 64" "20 \<le> length d"
  shows "sctp_hmac stk 1 (Some k) (Some t) (Some d) = (20, Some (hmac_spec sha1 k t @ drop 20 d))"
proof -
  obtain k' stk1 where sk: "shorten_key 1 stk k = (k', stk1)" by (cases "shorten_key 1 stk k")
  note s1 = shorten_key_spec [OF assms(1,3) sk]
  have k': "length k' \<le> 64" using sha.fit_key_length s1(1) by simp
  obtain temp ctx where f: "sctp_hmac_final 1 (foldl (sctp_hmac_update 1) (sctp_hmac_init 1 (fst stk1))
      [key_pad 1 k' 0x36, t]) (snd stk1) = (temp, ctx)"
    by fastforce
  then have "hash_into_temp 1 stk1 [key_pad 1 k' 0x36, t] = (ctx, temp)" by (simp add: hash_into_temp_def)
  moreover have "outer_hash 1 (ctx, temp) (key_pad 1 k' 0x5c) d = hmac_spec sha1 k t @ drop 20 d"
    using nested_code [OF s1(2) k' _ assms(6) f] assms(5) sha.fit_key_again [of k] s1(1) by simp
  ultimately show ?thesis
    using assms(2,4) sk by (simp add: sctp_hmac_def sctp_get_hmac_digest_len_def Let_def)
qed

section \<open>Chains\<close>

lemma read_at_rest:
  assumes "length b < 2 ^ 31" "unat off \<le> length b"
  shows "read_at b off (of_nat (length b) - off) = Some (drop (unat off) b)"
proof -
  have l: "unat (of_nat (length b) :: u32) = length b"
    using assms(1) by (simp add: unat_of_nat)
  then have "unat (of_nat (length b) - off) = length b - unat off"
    using assms(2) by (simp add: unat_sub word_le_nat_alt)
  then show ?thesis using assms(2) by (simp add: read_at_def)
qed

lemma read_at_trailer:
  assumes "length b < 2 ^ 31" "unat off + unat tr \<le> length b"
  shows "read_at b off (of_nat (length b) - (tr + off)) = Some (take (length b - unat tr - unat off) (drop (unat off) b))"
proof -
  have l: "unat (of_nat (length b) :: u32) = length b"
    using assms(1) by (simp add: unat_of_nat)
  have s: "unat (tr + off) = unat tr + unat off"
    using assms unat_add_lem [of tr off] by simp
  then have "unat (of_nat (length b) - (tr + off)) = length b - (unat tr + unat off)"
    using assms(2) l by (simp add: unat_sub word_le_nat_alt)
  then show ?thesis using assms(2) by (simp add: read_at_def)
qed

lemma chain_update_spec:
  assumes "chain_ok ms" "ms \<noteq> []" "unat off \<le> length (m_bytes (hd ms))"
    "unat tr \<le> length (m_bytes (last ms))" "unat off + unat tr \<le> length (chain_bytes ms)"
  shows "\<exists>bufs. chain_update 1 tr ctx off ms = Some (foldl (sctp_hmac_update 1) ctx bufs) \<and>
     concat bufs = take (length (chain_bytes ms) - unat off - unat tr) (drop (unat off) (chain_bytes ms))"
  using assms
proof (induction ms arbitrary: ctx off)
  case (Cons m ms)
  have lm: "length (m_bytes m) < 2 ^ 31" using Cons.prems(1) by simp
  show ?case
  proof (cases "ms = []")
    case True
    then show ?thesis
      using Cons.prems read_at_rest [OF lm, of off] read_at_trailer [OF lm, of off tr]
      by (intro exI [of _ "[take (length (m_bytes m) - unat off - unat tr) (drop (unat off) (m_bytes m))]"])
        (auto simp: add.commute)
  next
    case False
    let ?c = "sctp_hmac_update 1 ctx (drop (unat off) (m_bytes m))"
    have tr: "unat tr \<le> length (chain_bytes ms)"
      using Cons.prems(4) False last_le_chain [OF False] by simp
    obtain bufs where b: "chain_update 1 tr ?c 0 ms = Some (foldl (sctp_hmac_update 1) ?c bufs)"
      "concat bufs = take (length (chain_bytes ms) - unat tr) (chain_bytes ms)"
      using Cons.IH [of 0 ?c] Cons.prems False tr by auto
    then show ?thesis
      using False Cons.prems(3) read_at_rest [OF lm, of off] tr
      by (intro exI [of _ "drop (unat off) (m_bytes m) # bufs"]) simp
  qed
qed simp

lemma skip_to_offset_spec:
  assumes "chain_ok ms" "skip_to_offset ms off = (at, off')"
  shows "chain_ok at \<and> (\<exists>pre. ms = pre @ at) \<and>
    (if at = [] then length (chain_bytes ms) \<le> unat off
     else unat off' < length (m_bytes (hd at)) \<and>
       unat off = (length (chain_bytes ms) - length (chain_bytes at)) + unat off')"
  using assms
proof (induction ms arbitrary: off)
  case (Cons m ms)
  have n: "unat (SCTP_BUF_LEN m) = length (m_bytes m)"
    using Cons.prems(1) by (simp add: unat_buf_len)
  show ?case
  proof (cases "off \<ge> SCTP_BUF_LEN m")
    case True
    then have u: "unat (off - SCTP_BUF_LEN m) = unat off - length (m_bytes m)" "length (m_bytes m) \<le> unat off"
      using n unat_sub [of "SCTP_BUF_LEN m" off] by (simp_all add: word_le_nat_alt)
    have len: "length (chain_bytes at) \<le> length (chain_bytes ms)" if "ms = pre @ at" for pre
      using that by (simp add: chain_bytes_def)
    show ?thesis
      using Cons.IH [of "off - SCTP_BUF_LEN m"] Cons.prems True u len
      by (auto split: if_splits)
  next
    case False
    then show ?thesis
      using Cons.prems n by (auto simp: word_le_nat_alt not_le)
  qed
qed simp

lemma sctp_hmac_m_spec:
  assumes "stack_ok stk" "k \<noteq> []" "length k < 2 ^ 29" "20 \<le> length d"
    and "chain_ok ms" "ms \<noteq> []" "length (chain_bytes ms) < 2 ^ 29 - 64"
    and "unat tr \<le> length (m_bytes (last ms))" "unat off + unat tr \<le> length (chain_bytes ms)"
  shows "sctp_hmac_m stk 1 (Some k) ms off (Some d) tr =
    Some (20, Some (hmac_spec sha1 k
      (take (length (chain_bytes ms) - unat off - unat tr) (drop (unat off) (chain_bytes ms))) @ drop 20 d))"
proof -
  let ?text = "take (length (chain_bytes ms) - unat off - unat tr) (drop (unat off) (chain_bytes ms))"
  obtain k' stk1 where sk: "shorten_key 1 stk k = (k', stk1)" by (cases "shorten_key 1 stk k")
  note s1 = shorten_key_spec [OF assms(1,3) sk]
  have k': "length k' \<le> 64" using sha.fit_key_length s1(1) by simp
  obtain at off' where sko: "skip_to_offset ms off = (at, off')" by (cases "skip_to_offset ms off")
  let ?c0 = "sctp_hmac_update 1 (sctp_hmac_init 1 (fst stk1)) (key_pad 1 k' 0x36)"
  have "\<exists>bufs. chain_update 1 tr ?c0 off' at = Some (foldl (sctp_hmac_update 1) ?c0 bufs) \<and> concat bufs = ?text"
  proof (cases "at = []")
    case True
    then have "length (chain_bytes ms) \<le> unat off" using skip_to_offset_spec [OF assms(5) sko] by simp
    then show ?thesis using True by (intro exI [of _ "[]"]) simp
  next
    case False
    obtain pre where pre: "ms = pre @ at" "chain_ok at" "unat off' < length (m_bytes (hd at))"
      "unat off = (length (chain_bytes ms) - length (chain_bytes at)) + unat off'"
      using skip_to_offset_spec [OF assms(5) sko] False by auto
    have cb: "chain_bytes ms = chain_bytes pre @ chain_bytes at" by (simp add: pre(1) chain_bytes_def)
    then have off: "unat off = length (chain_bytes pre) + unat off'" using pre(4) by simp
    have "unat tr \<le> length (m_bytes (last at))" using assms(8) False by (simp add: pre(1))
    then obtain bufs where "chain_update 1 tr ?c0 off' at = Some (foldl (sctp_hmac_update 1) ?c0 bufs)"
      "concat bufs = take (length (chain_bytes at) - unat off' - unat tr) (drop (unat off') (chain_bytes at))"
      using chain_update_spec [OF pre(2) False, of off' tr ?c0] pre(3) assms(9) off cb by auto
    then show ?thesis using off cb by (intro exI [of _ bufs]) simp
  qed
  then obtain bufs where b: "chain_update 1 tr ?c0 off' at = Some (foldl (sctp_hmac_update 1) ?c0 bufs)"
    "concat bufs = ?text" by blast
  obtain temp ctx where f: "sctp_hmac_final 1 (foldl (sctp_hmac_update 1) (sctp_hmac_init 1 (fst stk1))
      (key_pad 1 k' 0x36 # bufs)) (snd stk1) = (temp, ctx)"
    by fastforce
  have "outer_hash 1 (ctx, temp) (key_pad 1 k' 0x5c) d = hmac_spec sha1 k ?text @ drop 20 d"
    using nested_code [OF s1(2) k' _ assms(4) f] b(2) assms(7) sha.fit_key_again [of k] s1(1) by simp
  then show ?thesis
    using assms(2,6) sk sko b(1) f by (simp add: sctp_hmac_m_def sctp_get_hmac_digest_len_def Let_def)
qed

section \<open>Theorems\<close>

text \<open>C10. With the SHA-1 identifier, a non-empty key and text, the code computes the HMAC of
  RFC 2104 over SHA-1, stores its 20 bytes at the start of the caller's buffer and leaves the rest
  of the buffer alone; the result does not depend on the uninitialised stack memory, and every
  other identifier is refused without writing.\<close>

theorem hmac_is_rfc2104:
  assumes "stack_ok stk" "k \<noteq> []" "length k < 2 ^ 29" "t \<noteq> []" "length t < 2 ^ 29 - 64" "20 \<le> length d"
  shows "sctp_hmac stk hmac_algo (Some k) (Some t) (Some d) =
    (if hmac_algo = 1 then (20, Some (hmac_spec sha1 k t @ drop 20 d)) else (0, Some d))"
  using sctp_hmac_spec [OF assms]
  by (cases "hmac_algo = 1") (simp_all add: sctp_hmac_def [of _ hmac_algo] sctp_get_hmac_digest_len_def)

definition demo_stack :: hmac_stack where
  "demo_stack = (blank_ctx, replicate 32 9)"

lemma demo_stack_ok: "stack_ok demo_stack"
  by (simp add: stack_ok_def demo_stack_def blank_ctx_def)

theorem hmac_is_rfc2104_witness:
  "sctp_hmac demo_stack 1 (Some [11, 12]) (Some [72, 105]) (Some (replicate 32 0)) =
     (20, Some (hmac_spec sha1 [11, 12] [72, 105] @ replicate 12 0)) \<and>
   sctp_hmac demo_stack 3 (Some [11, 12]) (Some [72, 105]) (Some (replicate 32 0)) = (0, Some (replicate 32 0))"
  using hmac_is_rfc2104 [OF demo_stack_ok, of "[11, 12]" "[72, 105]" "replicate 32 0" 1]
    hmac_is_rfc2104 [OF demo_stack_ok, of "[11, 12]" "[72, 105]" "replicate 32 0" 3]
  by simp

text \<open>The mbuf variant computes the HMAC of the packet bytes after the offset and before the
  trailer, however they are split over mbufs, and never reads outside an mbuf, as long as the
  trailer lies inside the last one.\<close>

theorem hmac_of_chain:
  assumes "stack_ok stk" "k \<noteq> []" "length k < 2 ^ 29" "20 \<le> length d"
    and "chain_ok ms" "ms \<noteq> []" "length (chain_bytes ms) < 2 ^ 29 - 64"
    and "unat tr \<le> length (m_bytes (last ms))" "unat off + unat tr \<le> length (chain_bytes ms)"
  shows "sctp_hmac_m stk 1 (Some k) ms off (Some d) tr =
    Some (20, Some (hmac_spec sha1 k
      (take (length (chain_bytes ms) - unat off - unat tr) (drop (unat off) (chain_bytes ms))) @ drop 20 d))"
  using sctp_hmac_m_spec [OF assms] .

theorem hmac_of_chain_witness:
  "sctp_hmac_m demo_stack 1 (Some [11]) [\<lparr>m_addr = 0, m_bytes = [1, 2]\<rparr>, \<lparr>m_addr = 8, m_bytes = [3, 4, 5]\<rparr>] 1
     (Some (replicate 20 0)) 1 = Some (20, Some (hmac_spec sha1 [11] [2, 3, 4]))"
  using hmac_of_chain [OF demo_stack_ok, of "[11]" "replicate 20 0"
      "[\<lparr>m_addr = 0, m_bytes = [1, 2]\<rparr>, \<lparr>m_addr = 8, m_bytes = [3, 4, 5]\<rparr>]" 1 1]
  by simp

text \<open>Verification accepts exactly the HMAC: for a non-empty key and text it returns 0 if and
  only if the algorithm is SHA-1 and the given digest is the 20-byte HMAC of the text, and -1
  otherwise. Computing over a key structure first replaces an over-long key by its digest, and
  that replacement never changes an HMAC.\<close>

theorem verify_hmac_exact:
  assumes "stack_ok stk" "length temp = 32" "k \<noteq> []" "length k < 2 ^ 29" "t \<noteq> []" "length t < 2 ^ 29 - 64"
  shows "sctp_verify_hmac stk temp hmac_algo (Some k) (Some t) (Some d) =
      (if hmac_algo = 1 \<and> d = hmac_spec sha1 k t then 0 else -1) \<and>
    (\<exists>k'. sctp_compute_hmac stk 1 (Some k) (Some t) (Some temp) =
       (20, Some (hmac_spec sha1 k t @ drop 20 temp), Some k') \<and> length k' \<le> 64 \<and>
       (\<forall>u. hmac_spec sha1 k' u = hmac_spec sha1 k u))"
proof
  have len: "length (hmac_spec sha1 k t) = 20" by (rule sha.hmac_length)
  show "sctp_verify_hmac stk temp hmac_algo (Some k) (Some t) (Some d) =
      (if hmac_algo = 1 \<and> d = hmac_spec sha1 k t then 0 else -1)"
    using sctp_hmac_spec [OF assms(1,3-6), of temp] assms(2,3,5) len
    by (auto simp: sctp_verify_hmac_def sctp_get_hmac_digest_len_def Let_def)
  obtain k' stk' where sk: "shorten_key 1 stk k = (k', stk')" by (cases "shorten_key 1 stk k")
  note s1 = shorten_key_spec [OF assms(1,4) sk]
  have k': "length k' \<le> 64" "k' \<noteq> []"
    using sha.fit_key_length s1(1) assms(3) sha1_length [of k] by (auto simp: fit_key_def split: if_splits)
  then show "\<exists>k'. sctp_compute_hmac stk 1 (Some k) (Some t) (Some temp) =
       (20, Some (hmac_spec sha1 k t @ drop 20 temp), Some k') \<and> length k' \<le> 64 \<and>
       (\<forall>u. hmac_spec sha1 k' u = hmac_spec sha1 k u)"
    using sctp_hmac_spec [OF s1(2) k'(2) _ assms(5,6), of temp] assms(2,5) sk s1(1) sha.fit_key_again
    by (intro exI [of _ k']) (simp add: sctp_compute_hmac_def sctp_get_hmac_digest_len_def Let_def)
qed

theorem verify_hmac_exact_witness:
  "sctp_verify_hmac demo_stack (replicate 32 0) 1 (Some [11]) (Some [1]) (Some []) = -1 \<and>
   sctp_verify_hmac demo_stack (replicate 32 0) 1 (Some [11]) (Some [1]) (Some (hmac_spec sha1 [11] [1])) = 0"
  using verify_hmac_exact [OF demo_stack_ok, of "replicate 32 0" "[11]" "[1]" 1 "[]"]
    verify_hmac_exact [OF demo_stack_ok, of "replicate 32 0" "[11]" "[1]" 1 "hmac_spec sha1 [11] [1]"]
    sha.hmac_length [of "[11]" "[1]"]
  by auto

end
