(* ===== verification/Auth_Lists.thy ===== *)
theory Auth_Lists
  imports Prelude
begin

text \<open>
  Lists of \<^verbatim>\<open>netinet/sctp_auth.c\<close>: the chunk types that must be authenticated (a 256-entry table
  with a counter) and the HMAC identifiers an endpoint supports. A NULL list is \<open>None\<close>; the
  operations that return a status return it with the list. Freshly allocated memory that the code
  does not clear is an argument, \<open>None\<close> when the allocation fails.
\<close>

section \<open>Chunk lists\<close>

record sctp_auth_chklist =
  chunks :: "u8 list"
  num_chunks :: u8

definition sctp_clear_chunklist :: "sctp_auth_chklist \<Rightarrow> sctp_auth_chklist" where
  "sctp_clear_chunklist chklist = \<lparr>chunks = replicate 256 0, num_chunks = 0\<rparr>"

definition sctp_alloc_chunklist :: "sctp_auth_chklist option \<Rightarrow> sctp_auth_chklist option" where
  "sctp_alloc_chunklist mem = map_option sctp_clear_chunklist mem"

definition sctp_copy_chunklist ::
  "sctp_auth_chklist option \<Rightarrow> sctp_auth_chklist option \<Rightarrow> sctp_auth_chklist option" where
  "sctp_copy_chunklist mem list =
     (case list of None \<Rightarrow> None
      | Some l \<Rightarrow> (case sctp_alloc_chunklist mem of None \<Rightarrow> None | Some new_list \<Rightarrow> Some l))"

abbreviation (input) SCTP_INITIATION :: u8 where "SCTP_INITIATION \<equiv> 0x01"
abbreviation (input) SCTP_INITIATION_ACK :: u8 where "SCTP_INITIATION_ACK \<equiv> 0x02"
abbreviation (input) SCTP_SHUTDOWN_COMPLETE :: u8 where "SCTP_SHUTDOWN_COMPLETE \<equiv> 0x0e"
abbreviation (input) SCTP_AUTHENTICATION :: u8 where "SCTP_AUTHENTICATION \<equiv> 0x0f"

definition sctp_auth_add_chunk :: "u8 \<Rightarrow> sctp_auth_chklist option \<Rightarrow> int \<times> sctp_auth_chklist option" where
  "sctp_auth_add_chunk chunk list =
     (case list of
        None \<Rightarrow> (-1, None)
      | Some l \<Rightarrow>
          if chunk = SCTP_INITIATION \<or> chunk = SCTP_INITIATION_ACK \<or>
             chunk = SCTP_SHUTDOWN_COMPLETE \<or> chunk = SCTP_AUTHENTICATION then (-1, list)
          else if chunks l ! unat chunk = 0 then
            (0, Some (l\<lparr>chunks := (chunks l)[unat chunk := 1], num_chunks := num_chunks l + 1\<rparr>))
          else (0, list))"

definition sctp_auth_delete_chunk :: "u8 \<Rightarrow> sctp_auth_chklist option \<Rightarrow> int \<times> sctp_auth_chklist option" where
  "sctp_auth_delete_chunk chunk list =
     (case list of
        None \<Rightarrow> (-1, None)
      | Some l \<Rightarrow>
          if chunks l ! unat chunk = 1 then
            (0, Some (l\<lparr>chunks := (chunks l)[unat chunk := 0], num_chunks := num_chunks l - 1\<rparr>))
          else (0, list))"

definition sctp_auth_get_chklist_size :: "sctp_auth_chklist option \<Rightarrow> nat" where
  "sctp_auth_get_chklist_size list = (case list of None \<Rightarrow> 0 | Some l \<Rightarrow> unat (num_chunks l))"

definition sctp_auth_is_required_chunk :: "u8 \<Rightarrow> sctp_auth_chklist option \<Rightarrow> bool" where
  "sctp_auth_is_required_chunk chunk list = (case list of None \<Rightarrow> False | Some l \<Rightarrow> chunks l ! unat chunk \<noteq> 0)"

text \<open>The bytes written from \<open>ptr\<close> on, and their number.\<close>

definition sctp_serialize_auth_chunks :: "sctp_auth_chklist option \<Rightarrow> bytes \<times> nat" where
  "sctp_serialize_auth_chunks list =
     (case list of
        None \<Rightarrow> ([], 0)
      | Some l \<Rightarrow>
          fold (\<lambda>i (out, count). if chunks l ! i \<noteq> 0 then (out @ [of_nat i], count + 1) else (out, count))
            [0..<256] ([], 0))"

definition write_at :: "bytes \<Rightarrow> bytes \<Rightarrow> bytes" where
  "write_at ptr out = out @ drop (length out) ptr"

definition sctp_pack_auth_chunks :: "sctp_auth_chklist option \<Rightarrow> bytes \<Rightarrow> bytes \<times> nat" where
  "sctp_pack_auth_chunks list ptr =
     (case list of
        None \<Rightarrow> (ptr, 0)
      | Some l \<Rightarrow>
          if num_chunks l \<le> 32 then
            (case fold (\<lambda>i (out, sz). if chunks l ! i \<noteq> 0 then (out @ [of_nat i], sz + 1) else (out, sz))
                    [0..<256] ([], 0)
             of (out, sz) \<Rightarrow> (write_at ptr out, sz))
          else
            (fold (\<lambda>i p. if chunks l ! i \<noteq> 0 then p[i div 8 := p ! (i div 8) OR push_bit (i mod 8) 1] else p)
               [0..<256] ptr, 32))"

definition sctp_unpack_auth_chunks ::
  "bytes \<Rightarrow> u8 \<Rightarrow> sctp_auth_chklist option \<Rightarrow> sctp_auth_chklist option \<times> nat" where
  "sctp_unpack_auth_chunks ptr n list =
     (case list of
        None \<Rightarrow> (None, 0)
      | Some l \<Rightarrow>
          if n \<le> 32 then (fold (\<lambda>i l'. snd (sctp_auth_add_chunk (ptr ! i) l')) [0..<unat n] list, unat n)
          else
            (fold (\<lambda>index l'.
               fold (\<lambda>offset l''. if (ptr ! index) AND push_bit offset 1 \<noteq> 0
                       then snd (sctp_auth_add_chunk (of_nat (index * 8 + offset)) l'') else l'') [0..<8] l')
               [0..<32] list, 32))"

section \<open>HMAC identifier lists\<close>

record sctp_hmaclist =
  max_algo :: u16
  num_algo :: u16
  hmac :: "u16 list"

abbreviation hmac_ids :: "sctp_hmaclist \<Rightarrow> u16 list" where
  "hmac_ids l \<equiv> take (unat (num_algo l)) (hmac l)"

definition sctp_alloc_hmaclist :: "u16 list option \<Rightarrow> u16 \<Rightarrow> sctp_hmaclist option" where
  "sctp_alloc_hmaclist mem num_hmacs =
     map_option (\<lambda>a. \<lparr>max_algo = num_hmacs, num_algo = 0, hmac = a\<rparr>) mem"

definition sctp_auth_add_hmacid :: "sctp_hmaclist option \<Rightarrow> u16 \<Rightarrow> int \<times> sctp_hmaclist option" where
  "sctp_auth_add_hmacid list hmac_id =
     (case list of
        None \<Rightarrow> (-1, None)
      | Some l \<Rightarrow>
          if num_algo l = max_algo l then (-1, list)
          else if hmac_id \<noteq> 1 then (-1, list)
          else if hmac_id \<in> set (hmac_ids l) then (-1, list)
          else (0, Some (l\<lparr>hmac := (hmac l)[unat (num_algo l) := hmac_id], num_algo := num_algo l + 1\<rparr>)))"

definition sctp_copy_hmaclist :: "u16 list option \<Rightarrow> sctp_hmaclist option \<Rightarrow> sctp_hmaclist option" where
  "sctp_copy_hmaclist mem list =
     (case list of
        None \<Rightarrow> None
      | Some l \<Rightarrow>
          (case sctp_alloc_hmaclist mem (max_algo l) of
             None \<Rightarrow> None
           | Some new_list \<Rightarrow>
               Some (fold (\<lambda>i n. n\<lparr>hmac := (hmac n)[i := hmac l ! i]\<rparr>) [0..<unat (num_algo l)]
                 (new_list\<lparr>max_algo := max_algo l, num_algo := num_algo l\<rparr>))))"

definition sctp_default_supported_hmaclist :: "u16 list option \<Rightarrow> sctp_hmaclist option" where
  "sctp_default_supported_hmaclist mem =
     (case sctp_alloc_hmaclist mem 1 of
        None \<Rightarrow> None
      | Some new_list \<Rightarrow> snd (sctp_auth_add_hmacid (Some new_list) 1))"

definition sctp_negotiate_hmacid :: "sctp_hmaclist option \<Rightarrow> sctp_hmaclist option \<Rightarrow> u16" where
  "sctp_negotiate_hmacid peer local_list =
     (case (local_list, peer) of
        (Some l, Some p) \<Rightarrow>
          (case find (\<lambda>i. \<exists>j \<in> set (hmac_ids l). i = j) (hmac_ids p) of Some i \<Rightarrow> i | None \<Rightarrow> 0)
      | _ \<Rightarrow> 0)"

definition sctp_serialize_hmaclist :: "sctp_hmaclist option \<Rightarrow> bytes \<times> nat" where
  "sctp_serialize_hmaclist list =
     (case list of
        None \<Rightarrow> ([], 0)
      | Some l \<Rightarrow> (concat (map (\<lambda>i. [ucast (drop_bit 8 i), ucast i]) (hmac_ids l)), unat (num_algo l) * 2))"

text \<open>The identifiers of the parameter in host order.\<close>

definition sctp_verify_hmac_param :: "u16 list \<Rightarrow> int" where
  "sctp_verify_hmac_param ids = (if 1 \<in> set ids then 0 else -1)"

definition sctp_auth_is_supported_hmac :: "sctp_hmaclist option \<Rightarrow> u16 \<Rightarrow> bool" where
  "sctp_auth_is_supported_hmac list i =
     (case list of None \<Rightarrow> False | Some l \<Rightarrow> i \<noteq> 0 \<and> i \<in> set (hmac_ids l))"

section \<open>Chunk lists as sets\<close>

definition restricted :: "u8 set" where
  "restricted = {0x01, 0x02, 0x0e, 0x0f}"

definition chunk_set :: "sctp_auth_chklist \<Rightarrow> u8 set" where
  "chunk_set l = {c. chunks l ! unat c \<noteq> 0}"

definition chk_inv :: "sctp_auth_chklist \<Rightarrow> bool" where
  "chk_inv l \<longleftrightarrow> length (chunks l) = 256 \<and> set (chunks l) \<subseteq> {0, 1} \<and>
     num_chunks l = of_nat (card (chunk_set l)) \<and> chunk_set l \<inter> restricted = {}"

lemma unat_u8: "unat (c :: u8) < 256"
  using unsigned_less [of c, where 'a = nat] by simp

lemma card_u8: "card (UNIV :: u8 set) = 256"
  by (simp add: card_word)

lemma card_chunk_set: "chk_inv l \<Longrightarrow> card (chunk_set l) \<le> 252"
proof -
  assume "chk_inv l"
  then have "chunk_set l \<subseteq> UNIV - restricted" by (auto simp: chk_inv_def)
  then have "card (chunk_set l) \<le> card (UNIV - restricted)" by (intro card_mono) auto
  also have "\<dots> = 252" by (simp add: card_Diff_subset card_u8 restricted_def)
  finally show ?thesis .
qed

lemma num_chunks_unat: "chk_inv l \<Longrightarrow> unat (num_chunks l) = card (chunk_set l)"
  using card_chunk_set [of l] by (simp add: chk_inv_def unat_of_nat)

lemma chk_inv_clear: "chk_inv (sctp_clear_chunklist l)" "chunk_set (sctp_clear_chunklist l) = {}"
proof -
  show e: "chunk_set (sctp_clear_chunklist l) = {}"
    by (simp add: chunk_set_def sctp_clear_chunklist_def unat_u8)
  then show "chk_inv (sctp_clear_chunklist l)"
    by (simp add: chk_inv_def) (simp add: sctp_clear_chunklist_def)
qed

text \<open>A consistent list is determined by its set.\<close>

lemma chk_inv_entry: "chk_inv l \<Longrightarrow> chunks l ! unat c = (if c \<in> chunk_set l then 1 else 0)"
proof -
  assume i: "chk_inv l"
  then have "chunks l ! unat c \<in> set (chunks l)" by (simp add: chk_inv_def unat_u8)
  then show ?thesis using i by (auto simp: chk_inv_def chunk_set_def)
qed

lemma chk_inv_ext:
  assumes "chk_inv l" "chk_inv l'" "chunk_set l = chunk_set l'"
  shows "l = l'"
proof -
  have "chunks l = chunks l'"
  proof (rule nth_equalityI)
    show "length (chunks l) = length (chunks l')" using assms by (simp add: chk_inv_def)
    fix i assume "i < length (chunks l)"
    then have "unat (of_nat i :: u8) = i" using assms(1) by (simp add: chk_inv_def unat_of_nat)
    then show "chunks l ! i = chunks l' ! i"
      using chk_inv_entry [OF assms(1), of "of_nat i"] chk_inv_entry [OF assms(2), of "of_nat i"] assms(3) by simp
  qed
  moreover have "num_chunks l = num_chunks l'" using assms by (simp add: chk_inv_def)
  ultimately show ?thesis by (cases l; cases l') simp
qed

lemma add_chunk_set:
  assumes "chk_inv l"
  shows "\<exists>l'. sctp_auth_add_chunk c (Some l) = (if c \<in> restricted then -1 else 0, Some l') \<and> chk_inv l' \<and>
     chunk_set l' = chunk_set l \<union> ({c} - restricted)"
proof (cases "c \<in> restricted \<or> c \<in> chunk_set l")
  case True
  then show ?thesis
    using assms by (auto simp: sctp_auth_add_chunk_def restricted_def chunk_set_def)
next
  case False
  let ?l = "l\<lparr>chunks := (chunks l)[unat c := 1], num_chunks := num_chunks l + 1\<rparr>"
  have len: "length (chunks l) = 256" using assms by (simp add: chk_inv_def)
  have s: "chunk_set ?l = insert c (chunk_set l)"
    by (auto simp: chunk_set_def nth_list_update len unat_u8 word_unat_eq_iff)
  have "card (chunk_set ?l) = Suc (card (chunk_set l))" using False by (simp add: s)
  then have "chk_inv ?l"
    using assms False s by (auto simp: chk_inv_def dest!: set_update_subset_insert [THEN subsetD])
  moreover have "sctp_auth_add_chunk c (Some l) = (0, Some ?l)"
    using False by (auto simp: sctp_auth_add_chunk_def restricted_def chunk_set_def)
  ultimately show ?thesis using False s by (intro exI [of _ ?l]) auto
qed

lemma delete_chunk_set:
  assumes "chk_inv l"
  shows "\<exists>l'. sctp_auth_delete_chunk c (Some l) = (0, Some l') \<and> chk_inv l' \<and> chunk_set l' = chunk_set l - {c}"
proof (cases "c \<in> chunk_set l")
  case True
  let ?l = "l\<lparr>chunks := (chunks l)[unat c := 0], num_chunks := num_chunks l - 1\<rparr>"
  have len: "length (chunks l) = 256" using assms by (simp add: chk_inv_def)
  have s: "chunk_set ?l = chunk_set l - {c}"
    by (auto simp: chunk_set_def nth_list_update len unat_u8 word_unat_eq_iff split: if_splits)
  have "card (chunk_set l) = Suc (card (chunk_set ?l))"
    using True card_Suc_Diff1 [of "chunk_set l" c] by (simp add: s)
  then have "of_nat (card (chunk_set l)) - 1 = (of_nat (card (chunk_set ?l)) :: u8)" by simp
  moreover have "num_chunks ?l = of_nat (card (chunk_set l)) - 1" using assms by (simp add: chk_inv_def)
  ultimately have "num_chunks ?l = of_nat (card (chunk_set ?l))" by simp
  then have "chk_inv ?l"
    using assms s by (auto simp: chk_inv_def dest!: set_update_subset_insert [THEN subsetD])
  moreover have "sctp_auth_delete_chunk c (Some l) = (0, Some ?l)"
    using True chk_inv_entry [OF assms, of c] by (simp add: sctp_auth_delete_chunk_def)
  ultimately show ?thesis using s by (intro exI [of _ ?l]) auto
next
  case False
  then show ?thesis
    using assms chk_inv_entry [OF assms, of c] by (auto simp: sctp_auth_delete_chunk_def)
qed

section \<open>Encodings\<close>

lemma fold_collect:
  "fold (\<lambda>i (out, count). if P i then (out @ [f i], count + 1) else (out, count)) xs (o', c) =
     (o' @ map f (filter P xs), c + length (filter P xs))"
  by (induction xs arbitrary: o' c) auto

definition listed :: "sctp_auth_chklist \<Rightarrow> nat list" where
  "listed l = filter (\<lambda>i. chunks l ! i \<noteq> 0) [0..<256]"

lemma listed_props:
  shows "set (map of_nat (listed l)) = chunk_set l" "distinct (map (of_nat :: nat \<Rightarrow> u8) (listed l))"
    "sorted (map (of_nat :: nat \<Rightarrow> u8) (listed l))" "length (listed l) = card (chunk_set l)"
proof -
  have u: "unat (of_nat i :: u8) = i" if "i \<in> set (listed l)" for i
    using that by (auto simp: listed_def unat_of_nat)
  show s: "set (map of_nat (listed l)) = chunk_set l"
  proof
    show "set (map of_nat (listed l)) \<subseteq> chunk_set l" using u by (auto simp: chunk_set_def listed_def)
    show "chunk_set l \<subseteq> set (map of_nat (listed l))"
    proof
      fix c assume "c \<in> chunk_set l"
      then have "unat c \<in> set (listed l)" by (simp add: listed_def chunk_set_def unat_u8)
      then show "c \<in> set (map of_nat (listed l))" by (force simp: image_iff)
    qed
  qed
  have inj: "inj_on (of_nat :: nat \<Rightarrow> u8) (set (listed l))" by (rule inj_on_inverseI [of _ unat]) (rule u)
  show d: "distinct (map (of_nat :: nat \<Rightarrow> u8) (listed l))"
    using inj by (simp add: distinct_map) (simp add: listed_def)
  show "sorted (map (of_nat :: nat \<Rightarrow> u8) (listed l))"
  proof -
    have "sorted (listed l)" by (simp add: listed_def sorted_filter [where f = id, simplified])
    then show ?thesis
      by (auto simp: sorted_wrt_map u word_le_nat_alt intro: sorted_wrt_mono_rel [of _ "(\<le>)"])
  qed
  show "length (listed l) = card (chunk_set l)"
    using distinct_card [OF d] s by simp
qed

lemma serialize_listed:
  "sctp_serialize_auth_chunks (Some l) = (map of_nat (listed l), card (chunk_set l))"
  unfolding sctp_serialize_auth_chunks_def option.case fold_collect listed_def [symmetric]
  by (simp add: listed_props(4))

text \<open>A loop of conditional additions.\<close>

lemma fold_adds:
  assumes "\<And>x l. x \<in> set xs \<Longrightarrow> chk_inv l \<Longrightarrow> \<exists>l'. f x (Some l) = Some l' \<and> chk_inv l' \<and> chunk_set l' = chunk_set l \<union> S x"
    and "chk_inv l"
  shows "\<exists>l'. fold f xs (Some l) = Some l' \<and> chk_inv l' \<and> chunk_set l' = chunk_set l \<union> (\<Union>x \<in> set xs. S x)"
  using assms
proof (induction xs arbitrary: l)
  case (Cons x xs)
  obtain l1 where l1: "f x (Some l) = Some l1" "chk_inv l1" "chunk_set l1 = chunk_set l \<union> S x"
    using Cons.prems(1) [OF _ Cons.prems(2), of x] by auto
  obtain l2 where "fold f xs (Some l1) = Some l2" "chk_inv l2" "chunk_set l2 = chunk_set l1 \<union> (\<Union>x \<in> set xs. S x)"
    using Cons.IH [OF _ l1(2)] Cons.prems(1) by auto
  then show ?case using l1 by auto
qed simp

lemma add_snd:
  assumes "chk_inv l"
  shows "\<exists>l'. snd (sctp_auth_add_chunk c (Some l)) = Some l' \<and> chk_inv l' \<and> chunk_set l' = chunk_set l \<union> ({c} - restricted)"
  using add_chunk_set [OF assms, of c] by auto

lemma unpack_list_set:
  assumes "chk_inv l" "n \<le> 32"
  shows "\<exists>l'. sctp_unpack_auth_chunks ptr n (Some l) = (Some l', unat n) \<and> chk_inv l' \<and>
     chunk_set l' = chunk_set l \<union> ((\<lambda>i. ptr ! i) ` {..<unat n} - restricted)"
proof -
  obtain l' where "fold (\<lambda>i l'. snd (sctp_auth_add_chunk (ptr ! i) l')) [0..<unat n] (Some l) = Some l'" "chk_inv l'"
    "chunk_set l' = chunk_set l \<union> (\<Union>i \<in> set [0..<unat n]. {ptr ! i} - restricted)"
    using fold_adds [of "[0..<unat n]" "\<lambda>i l'. snd (sctp_auth_add_chunk (ptr ! i) l')" "\<lambda>i. {ptr ! i} - restricted",
        OF _ assms(1)] add_snd by blast
  then show ?thesis using assms(2) by (auto simp: sctp_unpack_auth_chunks_def)
qed

lemma unpack_bits_set:
  assumes "chk_inv l" "\<not> n \<le> 32"
  shows "\<exists>l'. sctp_unpack_auth_chunks ptr n (Some l) = (Some l', 32) \<and> chk_inv l' \<and>
     chunk_set l' = chunk_set l \<union> ({c. bit (ptr ! (unat c div 8)) (unat c mod 8)} - restricted)"
proof -
  let ?g = "\<lambda>index offset l''. if (ptr ! index) AND push_bit offset 1 \<noteq> 0
      then snd (sctp_auth_add_chunk (of_nat (index * 8 + offset)) l'') else l''"
  let ?S = "\<lambda>index offset. if bit (ptr ! index) offset then {of_nat (index * 8 + offset) :: u8} - restricted else {}"
  have step: "\<exists>l'. ?g index offset (Some l) = Some l' \<and> chk_inv l' \<and> chunk_set l' = chunk_set l \<union> ?S index offset"
    if "chk_inv l" for index offset l
    using add_snd [OF that] that by (auto simp: bit_iff_and_push_bit_not_eq_0)
  have inner: "\<exists>l'. fold (?g index) [0..<8] (Some l) = Some l' \<and> chk_inv l' \<and>
      chunk_set l' = chunk_set l \<union> (\<Union>offset \<in> set [0..<8]. ?S index offset)" if "chk_inv l" for index l
    using fold_adds [of "[0..<8]" "?g index", OF step that] .
  obtain l' where l': "fold (\<lambda>index. fold (?g index) [0..<8]) [0..<32] (Some l) = Some l'" "chk_inv l'"
    "chunk_set l' = chunk_set l \<union> (\<Union>index \<in> set [0..<32]. \<Union>offset \<in> set [0..<8]. ?S index offset)"
    using fold_adds [of "[0..<32]" "\<lambda>index. fold (?g index) [0..<8]", OF inner assms(1)] by blast
  have "(\<Union>index \<in> set [0..<32]. \<Union>offset \<in> set [0..<8]. ?S index offset) =
      {c. bit (ptr ! (unat c div 8)) (unat c mod 8)} - restricted" (is "?A = ?B")
  proof
    show "?A \<subseteq> ?B"
    proof
      fix c assume "c \<in> ?A"
      then obtain i k where ik: "i < 32" "k < 8" "bit (ptr ! i) k" "c = of_nat (i * 8 + k)" "c \<notin> restricted"
        by (auto split: if_splits)
      have "unat c = i * 8 + k" using ik(1,2) unfolding ik(4) unat_of_nat by (simp del: of_nat_add of_nat_mult)
      then have "unat c div 8 = i" "unat c mod 8 = k" using ik(2) by simp_all
      then show "c \<in> ?B" using ik by simp
    qed
    show "?B \<subseteq> ?A"
    proof
      fix c assume c: "c \<in> ?B"
      have "c \<in> ?S (unat c div 8) (unat c mod 8)" using c by simp
      moreover have "unat c div 8 \<in> set [0..<32]" "unat c mod 8 \<in> set [0..<8]" using unat_u8 [of c] by auto
      ultimately show "c \<in> ?A" by blast
    qed
  qed
  then show ?thesis using l' assms(2) by (simp add: sctp_unpack_auth_chunks_def)
qed

lemma pack_bits:
  fixes ptr :: bytes
  assumes "32 \<le> length ptr" "n \<le> 256"
    and "p = fold (\<lambda>i p. if chunks l ! i \<noteq> 0 then p[i div 8 := p ! (i div 8) OR push_bit (i mod 8) 1] else p) [0..<n] ptr"
  shows "length p = length ptr \<and>
     (\<forall>j k. j < 32 \<longrightarrow> k < 8 \<longrightarrow> (bit (p ! j) k \<longleftrightarrow> bit (ptr ! j) k \<or> (8 * j + k < n \<and> chunks l ! (8 * j + k) \<noteq> 0)))"
  using assms(2,3)
proof (induction n arbitrary: p)
  case (Suc n)
  define q where "q = fold (\<lambda>i p. if chunks l ! i \<noteq> 0 then p[i div 8 := p ! (i div 8) OR push_bit (i mod 8) 1] else p) [0..<n] ptr"
  have q: "length q = length ptr"
    "\<And>j k. j < 32 \<Longrightarrow> k < 8 \<Longrightarrow> bit (q ! j) k \<longleftrightarrow> bit (ptr ! j) k \<or> (8 * j + k < n \<and> chunks l ! (8 * j + k) \<noteq> 0)"
    using Suc.IH [OF _ q_def] Suc.prems(1) by auto
  have p: "p = (if chunks l ! n \<noteq> 0 then q[n div 8 := q ! (n div 8) OR push_bit (n mod 8) 1] else q)"
    using Suc.prems(2) by (simp add: q_def)
  have n8: "n div 8 < length ptr" using Suc.prems(1) assms(1) by simp
  have "bit (p ! j) k \<longleftrightarrow> bit (ptr ! j) k \<or> (8 * j + k < Suc n \<and> chunks l ! (8 * j + k) \<noteq> 0)"
    if jk: "j < 32" "k < 8" for j k
  proof (cases "8 * j + k = n")
    case True
    then have "n div 8 = j" "n mod 8 = k" using jk by auto
    then show ?thesis
      using True q jk n8 by (auto simp: p bit_or_iff bit_push_bit_iff bit_exp_iff)
  next
    case False
    then have "\<not> (n div 8 = j \<and> n mod 8 = k)" by auto
    then have "bit (p ! j) k = bit (q ! j) k"
      using q(1) n8 by (auto simp: p nth_list_update bit_or_iff bit_push_bit_iff bit_1_iff bit_exp_iff)
    then show ?thesis using q(2) [OF jk] False by auto
  qed
  then show ?case using q(1) by (simp add: p)
qed simp

lemma unpack_pack:
  assumes "chk_inv l" "32 \<le> length ptr" "\<And>j. j < 32 \<Longrightarrow> ptr ! j = 0"
    and "sctp_pack_auth_chunks (Some l) ptr = (out, sz)"
  shows "sctp_unpack_auth_chunks out (num_chunks l) (Some (sctp_clear_chunklist m)) = (Some l, sz) \<and> sz \<le> 32"
proof -
  note c = chk_inv_clear [of m]
  show ?thesis
  proof (cases "num_chunks l \<le> 32")
    case True
    have "fold (\<lambda>i (out, sz). if chunks l ! i \<noteq> 0 then (out @ [of_nat i], sz + 1) else (out, sz)) [0..<256] ([], 0)
        = (map of_nat (listed l) :: bytes, length (listed l))"
      unfolding fold_collect by (simp add: listed_def)
    then have os: "out = map of_nat (listed l) @ drop (length (listed l)) ptr" "sz = length (listed l)"
      using assms(4) True by (auto simp: sctp_pack_auth_chunks_def write_at_def)
    have n: "unat (num_chunks l) = length (listed l)"
      using num_chunks_unat [OF assms(1)] listed_props(4) by simp
    have "(\<lambda>i. out ! i) ` {..<length (listed l)} = set (map of_nat (listed l))"
      using nth_image [of "length (listed l)" out] by (simp add: os(1) lessThan_atLeast0)
    then have "(\<lambda>i. out ! i) ` {..<unat (num_chunks l)} - restricted = chunk_set l"
      using assms(1) n listed_props(1) by (auto simp: chk_inv_def)
    then obtain l' where "sctp_unpack_auth_chunks out (num_chunks l) (Some (sctp_clear_chunklist m)) =
        (Some l', unat (num_chunks l))" "chk_inv l'" "chunk_set l' = chunk_set l"
      using unpack_list_set [OF c(1) True, of out] c(2) by auto
    then show ?thesis
      using chk_inv_ext [OF _ assms(1)] n os(2) True by (simp add: word_le_nat_alt)
  next
    case False
    then have os: "out = fold (\<lambda>i p. if chunks l ! i \<noteq> 0 then p[i div 8 := p ! (i div 8) OR push_bit (i mod 8) 1] else p)
        [0..<256] ptr" "sz = 32"
      using assms(4) by (simp_all add: sctp_pack_auth_chunks_def)
    have bits: "bit (out ! (unat c div 8)) (unat c mod 8) \<longleftrightarrow> c \<in> chunk_set l" for c
      using pack_bits [OF assms(2) order_refl os(1)] unat_u8 [of c] assms(3) by (auto simp: chunk_set_def)
    obtain l' where "sctp_unpack_auth_chunks out (num_chunks l) (Some (sctp_clear_chunklist m)) = (Some l', 32)"
      "chk_inv l'" "chunk_set l' = chunk_set l - restricted"
      using unpack_bits_set [OF c(1) False, of out] c(2) bits by auto
    moreover have "chunk_set l - restricted = chunk_set l" using assms(1) by (auto simp: chk_inv_def)
    ultimately show ?thesis using chk_inv_ext [OF _ assms(1)] os(2) by simp
  qed
qed

section \<open>HMAC lists\<close>

definition hmaclist_inv :: "sctp_hmaclist \<Rightarrow> bool" where
  "hmaclist_inv l \<longleftrightarrow> length (hmac l) = unat (max_algo l) \<and> num_algo l \<le> max_algo l \<and>
     distinct (hmac_ids l) \<and> set (hmac_ids l) \<subseteq> {1}"

lemma hmaclist_alloc: "length mem = unat n \<Longrightarrow>
    \<exists>l. sctp_alloc_hmaclist (Some mem) n = Some l \<and> hmaclist_inv l \<and> hmac_ids l = []"
  by (simp add: sctp_alloc_hmaclist_def hmaclist_inv_def)

lemma hmaclist_add:
  assumes "hmaclist_inv l"
  shows "\<exists>l'. sctp_auth_add_hmacid (Some l) i =
       (if num_algo l \<noteq> max_algo l \<and> i = 1 \<and> i \<notin> set (hmac_ids l) then 0 else -1, Some l') \<and> hmaclist_inv l' \<and>
     hmac_ids l' = (if num_algo l \<noteq> max_algo l \<and> i = 1 \<and> i \<notin> set (hmac_ids l) then hmac_ids l @ [i] else hmac_ids l)"
proof (cases "num_algo l \<noteq> max_algo l \<and> i = 1 \<and> i \<notin> set (hmac_ids l)")
  case True
  let ?n = "unat (num_algo l)"
  have lt: "num_algo l < max_algo l" using assms True by (simp add: hmaclist_inv_def less_le)
  then have "unat (num_algo l + 1) = Suc ?n"
    using unat_add_lem [of "num_algo l" 1] unsigned_less [of "max_algo l", where 'a = nat]
    by (simp add: word_less_nat_alt)
  moreover have "?n < length (hmac l)"
    using lt assms by (simp add: hmaclist_inv_def word_less_nat_alt)
  ultimately show ?thesis
    using True assms lt
    by (auto simp: sctp_auth_add_hmacid_def hmaclist_inv_def take_Suc_conv_app_nth word_le_nat_alt word_less_nat_alt)
next
  case False
  then show ?thesis
    using assms by (auto simp: sctp_auth_add_hmacid_def)
qed

lemma hmaclist_copy:
  assumes "hmaclist_inv l" "length mem = unat (max_algo l)"
  shows "\<exists>l'. sctp_copy_hmaclist (Some mem) (Some l) = Some l' \<and> hmaclist_inv l' \<and>
     hmac_ids l' = hmac_ids l \<and> max_algo l' = max_algo l"
proof -
  let ?g = "\<lambda>i (n :: sctp_hmaclist). n\<lparr>hmac := (hmac n)[i := hmac l ! i]\<rparr>"
  let ?n0 = "\<lparr>max_algo = max_algo l, num_algo = num_algo l, hmac = mem\<rparr>"
  have n: "unat (num_algo l) \<le> length mem" using assms by (simp add: hmaclist_inv_def word_le_nat_alt)
  have "max_algo (fold ?g [0..<k] ?n0) = max_algo l \<and> num_algo (fold ?g [0..<k] ?n0) = num_algo l \<and>
      length (hmac (fold ?g [0..<k] ?n0)) = length mem \<and> take k (hmac (fold ?g [0..<k] ?n0)) = take k (hmac l)"
    if "k \<le> length mem" for k
    using that
  proof (induction k)
    case (Suc k)
    then show ?case using assms by (simp add: take_Suc_conv_app_nth hmaclist_inv_def)
  qed simp
  from this [OF n] show ?thesis
    using assms by (simp add: sctp_copy_hmaclist_def sctp_alloc_hmaclist_def hmaclist_inv_def)
qed

lemma negotiate_spec:
  "sctp_negotiate_hmacid (Some p) (Some l) =
     (case filter (\<lambda>i. i \<in> set (hmac_ids l)) (hmac_ids p) of [] \<Rightarrow> 0 | i # _ \<Rightarrow> i)"
proof -
  have "find (\<lambda>i. \<exists>j \<in> set ys. i = j) xs = (case filter (\<lambda>i. i \<in> set ys) xs of [] \<Rightarrow> None | i # _ \<Rightarrow> Some i)" for xs ys :: "u16 list"
    by (induction xs) auto
  then show ?thesis by (simp add: sctp_negotiate_hmacid_def split: list.split)
qed

section \<open>Theorems\<close>

text \<open>C11. The chunk list is a set with a counter: adding a chunk type inserts it unless it is INIT,
  INIT-ACK, SHUTDOWN-COMPLETE or AUTH, which are refused with -1; deleting removes it; the counter
  is always the size of the set, with no wrap-around; and serialising writes exactly the members
  of the set, once each, in ascending order.\<close>

theorem chunk_list_is_set:
  assumes "chk_inv l"
  shows "(\<exists>l'. sctp_auth_add_chunk c (Some l) = (if c \<in> {0x01, 0x02, 0x0e, 0x0f} then -1 else 0, Some l') \<and>
       chk_inv l' \<and> (\<forall>d. sctp_auth_is_required_chunk d (Some l') \<longleftrightarrow>
         sctp_auth_is_required_chunk d (Some l) \<or> (d = c \<and> c \<notin> {0x01, 0x02, 0x0e, 0x0f}))) \<and>
    (\<exists>l'. sctp_auth_delete_chunk c (Some l) = (0, Some l') \<and> chk_inv l' \<and>
       (\<forall>d. sctp_auth_is_required_chunk d (Some l') \<longleftrightarrow> sctp_auth_is_required_chunk d (Some l) \<and> d \<noteq> c)) \<and>
    (\<exists>out. sctp_serialize_auth_chunks (Some l) = (out, sctp_auth_get_chklist_size (Some l)) \<and>
       sorted out \<and> distinct out \<and> set out = {d. sctp_auth_is_required_chunk d (Some l)} \<and> length out \<le> 252)"
proof (intro conjI)
  have req: "sctp_auth_is_required_chunk d (Some l) \<longleftrightarrow> d \<in> chunk_set l" for d l
    by (simp add: sctp_auth_is_required_chunk_def chunk_set_def)
  show "\<exists>l'. sctp_auth_add_chunk c (Some l) = (if c \<in> {0x01, 0x02, 0x0e, 0x0f} then -1 else 0, Some l') \<and>
       chk_inv l' \<and> (\<forall>d. sctp_auth_is_required_chunk d (Some l') \<longleftrightarrow>
         sctp_auth_is_required_chunk d (Some l) \<or> (d = c \<and> c \<notin> {0x01, 0x02, 0x0e, 0x0f}))"
    using add_chunk_set [OF assms, of c] unfolding req restricted_def by blast
  show "\<exists>l'. sctp_auth_delete_chunk c (Some l) = (0, Some l') \<and> chk_inv l' \<and>
       (\<forall>d. sctp_auth_is_required_chunk d (Some l') \<longleftrightarrow> sctp_auth_is_required_chunk d (Some l) \<and> d \<noteq> c)"
    using delete_chunk_set [OF assms, of c] unfolding req by blast
  show "\<exists>out. sctp_serialize_auth_chunks (Some l) = (out, sctp_auth_get_chklist_size (Some l)) \<and>
       sorted out \<and> distinct out \<and> set out = {d. sctp_auth_is_required_chunk d (Some l)} \<and> length out \<le> 252"
    using serialize_listed [of l] listed_props [of l] num_chunks_unat [OF assms] card_chunk_set [OF assms]
    by (intro exI [of _ "map of_nat (listed l)"]) (simp add: sctp_auth_get_chklist_size_def req)
qed

definition some_chunks :: sctp_auth_chklist where
  "some_chunks = sctp_clear_chunklist \<lparr>chunks = [], num_chunks = 9\<rparr>"

theorem chunk_list_is_set_witness:
  "(\<exists>l'. sctp_auth_add_chunk 0xc1 (Some some_chunks) = (0, Some l') \<and> chk_inv l' \<and>
     sctp_auth_is_required_chunk 0xc1 (Some l')) \<and>
   (\<exists>l'. sctp_auth_add_chunk 0x0f (Some some_chunks) = (-1, Some l') \<and> \<not> sctp_auth_is_required_chunk 0x0f (Some l'))"
proof -
  have i: "chk_inv some_chunks" by (simp add: some_chunks_def chk_inv_clear)
  have "\<not> sctp_auth_is_required_chunk 0x0f (Some some_chunks)"
    by (simp add: sctp_auth_is_required_chunk_def some_chunks_def sctp_clear_chunklist_def)
  then show ?thesis
    using chunk_list_is_set [OF i, of "0xc1"] chunk_list_is_set [OF i, of "0x0f"] by auto
qed

text \<open>Packing and unpacking round-trip: a chunk list packed into a zeroed buffer, as a list of
  types when there are at most 32 and as a 32-byte bitmap otherwise, and unpacked with its counter
  into a cleared list, is the same list; at most 32 bytes are used.\<close>

theorem chunk_pack_roundtrip:
  assumes "chk_inv l" "32 \<le> length ptr" "\<And>j. j < 32 \<Longrightarrow> ptr ! j = 0"
    and "sctp_pack_auth_chunks (Some l) ptr = (out, sz)"
  shows "sctp_unpack_auth_chunks out (num_chunks l) (Some (sctp_clear_chunklist m)) = (Some l, sz) \<and> sz \<le> 32"
  using unpack_pack [OF assms] .

theorem chunk_pack_roundtrip_witness:
  "\<exists>out sz. sctp_pack_auth_chunks (Some some_chunks) (replicate 32 0) = (out, sz) \<and>
     sctp_unpack_auth_chunks out (num_chunks some_chunks) (Some (sctp_clear_chunklist some_chunks)) = (Some some_chunks, sz)"
proof -
  have i: "chk_inv some_chunks" by (simp add: some_chunks_def chk_inv_clear)
  obtain out sz where p: "sctp_pack_auth_chunks (Some some_chunks) (replicate 32 0) = (out, sz)"
    by (cases "sctp_pack_auth_chunks (Some some_chunks) (replicate 32 0)")
  then show ?thesis
    using chunk_pack_roundtrip [OF i _ _ p, of some_chunks] by auto
qed

text \<open>HMAC identifier lists: adding keeps the list within its allocation, without duplicates
  and with supported algorithms only; copying preserves the identifiers; and negotiation returns
  the peer's most preferred identifier that is also in the local list, or the reserved
  identifier 0 when there is none.\<close>

theorem hmac_list_negotiation:
  assumes "hmaclist_inv l" "length mem = unat (max_algo l)"
  shows "(\<exists>r l'. sctp_auth_add_hmacid (Some l) i = (r, Some l') \<and> hmaclist_inv l' \<and>
       (r = 0 \<longleftrightarrow> num_algo l \<noteq> max_algo l \<and> i = 1 \<and> \<not> sctp_auth_is_supported_hmac (Some l) i) \<and>
       (r = 0 \<longrightarrow> sctp_auth_is_supported_hmac (Some l') i)) \<and>
    (\<exists>l'. sctp_copy_hmaclist (Some mem) (Some l) = Some l' \<and> hmac_ids l' = hmac_ids l) \<and>
    sctp_negotiate_hmacid (Some p) (Some l) =
      (case filter (\<lambda>i. i \<in> set (hmac_ids l)) (hmac_ids p) of [] \<Rightarrow> 0 | i # _ \<Rightarrow> i)"
  using hmaclist_add [OF assms(1), of i] hmaclist_copy [OF assms] negotiate_spec [of p l]
  by (auto simp: sctp_auth_is_supported_hmac_def)

theorem hmac_list_negotiation_witness:
  "\<exists>l'. sctp_auth_add_hmacid (Some \<lparr>max_algo = 1, num_algo = 0, hmac = [7]\<rparr>) 1 = (0, Some l') \<and>
     sctp_auth_is_supported_hmac (Some l') 1"
  using hmac_list_negotiation [of "\<lparr>max_algo = 1, num_algo = 0, hmac = [7]\<rparr>" "[0]" 1]
  by (auto simp: hmaclist_inv_def sctp_auth_is_supported_hmac_def)

end
