(* ===== verification/Auth_Keys.thy ===== *)
theory Auth_Keys
  imports Prelude
begin

text \<open>
  Keys of \<^verbatim>\<open>netinet/sctp_auth.c\<close>. A \<^verbatim>\<open>sctp_key_t\<close> is the list of its \<open>keylen\<close> bytes, a
  NULL key is \<open>None\<close>. Shared keys are reference-counted heap objects: the heap maps the address
  of a live object to its record, and the list head of an association or endpoint is the list of the
  addresses linked in it, in order. Reading an address that has been freed has no result.
  Notifications to the user are appended to a log.
\<close>

section \<open>Key material\<close>

definition sctp_get_keylen :: "bytes option \<Rightarrow> nat" where
  "sctp_get_keylen key = (case key of Some k \<Rightarrow> length k | None \<Rightarrow> 0)"

definition sctp_set_key :: "bool \<Rightarrow> bytes \<Rightarrow> bytes option" where
  "sctp_set_key have_memory key = (if have_memory then Some key else None)"

text \<open>The comparison loop, on values already padded to the same length.\<close>

fun compare_vals :: "bytes \<Rightarrow> bytes \<Rightarrow> int" where
  "compare_vals (v1 # p) (v2 # q) = (if v1 > v2 then 1 else if v1 < v2 then -1 else compare_vals p q)"
| "compare_vals _ _ = 0"

definition left_pad :: "nat \<Rightarrow> bytes \<Rightarrow> bytes" where
  "left_pad maxlen k = replicate (maxlen - length k) 0 @ k"

definition sctp_compare_key :: "bytes option \<Rightarrow> bytes option \<Rightarrow> int" where
  "sctp_compare_key key1 key2 =
     (let key1len = sctp_get_keylen key1; key2len = sctp_get_keylen key2 in
      if key1len = 0 \<and> key2len = 0 then 0
      else if key1len = 0 then -1
      else if key2len = 0 then 1
      else
        let maxlen = (if key1len < key2len then key2len else key1len);
            c = compare_vals (left_pad maxlen (the key1)) (left_pad maxlen (the key2)) in
        if c \<noteq> 0 then c
        else if key1len = key2len then 0 else if key1len < key2len then -1 else 1)"

definition key_bytes :: "bytes option \<Rightarrow> bytes" where
  "key_bytes key = (if sctp_get_keylen key \<noteq> 0 then the key else [])"

definition sctp_compute_hashkey :: "bool \<Rightarrow> bytes option \<Rightarrow> bytes option \<Rightarrow> bytes option \<Rightarrow> bytes option" where
  "sctp_compute_hashkey have_memory key1 key2 shared =
     (let keylen = sctp_get_keylen key1 + sctp_get_keylen key2 + sctp_get_keylen shared in
      if keylen > 0 then
        if \<not> have_memory then None
        else if sctp_compare_key key1 key2 \<le> 0
        then Some (key_bytes shared @ key_bytes key1 @ key_bytes key2)
        else Some (key_bytes shared @ key_bytes key2 @ key_bytes key1)
      else None)"

section \<open>Shared keys\<close>

record sharedkey =
  sk_key :: "bytes option"
  sk_refcount :: u32
  sk_keyid :: u16
  sk_deactivated :: bool

type_synonym key_heap = "nat \<Rightarrow> sharedkey option"

definition sctp_alloc_sharedkey :: "key_heap \<Rightarrow> nat option \<Rightarrow> (key_heap \<times> nat) option" where
  "sctp_alloc_sharedkey h mem =
     map_option (\<lambda>a. (h(a \<mapsto> \<lparr>sk_key = None, sk_refcount = 1, sk_keyid = 0, sk_deactivated = False\<rparr>), a)) mem"

definition sctp_free_sharedkey :: "key_heap \<Rightarrow> nat \<Rightarrow> key_heap option" where
  "sctp_free_sharedkey h skey = do {
     k \<leftarrow> h skey;
     Some (if sk_refcount k = 1 then h(skey := None)
           else h(skey \<mapsto> k\<lparr>sk_refcount := sk_refcount k - 1\<rparr>))
   }"

fun sctp_find_sharedkey :: "key_heap \<Rightarrow> nat list \<Rightarrow> u16 \<Rightarrow> nat option option" where
  "sctp_find_sharedkey h [] key_id = Some None"
| "sctp_find_sharedkey h (a # as) key_id = do {
     k \<leftarrow> h a;
     if sk_keyid k = key_id then Some (Some a) else sctp_find_sharedkey h as key_id
   }"

datatype insert_status = Inserted | Insert_EBUSY | Insert_EINVAL

text \<open>The ordered walk; \<open>new_skey\<close> is the address of the object to link in.\<close>

fun insert_walk :: "key_heap \<Rightarrow> nat list \<Rightarrow> nat \<Rightarrow> sharedkey \<Rightarrow> (insert_status \<times> nat list \<times> key_heap) option" where
  "insert_walk h [] new_skey n = Some (Insert_EINVAL, [], h)"
| "insert_walk h (skey # rest) new_skey n = do {
     k \<leftarrow> h skey;
     if sk_keyid n < sk_keyid k then Some (Inserted, new_skey # skey # rest, h)
     else if sk_keyid n = sk_keyid k then
       if sk_deactivated k \<and> sk_refcount k > 1 then Some (Insert_EBUSY, skey # rest, h)
       else do {
         h' \<leftarrow> sctp_free_sharedkey h skey;
         Some (Inserted, new_skey # rest, h')
       }
     else if rest = [] then Some (Inserted, [skey, new_skey], h)
     else do {
       (st, l, h') \<leftarrow> insert_walk h rest new_skey n;
       Some (st, skey # l, h')
     }
   }"

definition sctp_insert_sharedkey ::
  "key_heap \<Rightarrow> nat list \<Rightarrow> nat \<Rightarrow> (insert_status \<times> nat list \<times> key_heap) option" where
  "sctp_insert_sharedkey h shared_keys new_skey = do {
     n \<leftarrow> h new_skey;
     if shared_keys = [] then Some (Inserted, [new_skey], h)
     else insert_walk h shared_keys new_skey n
   }"

section \<open>Association state\<close>

record auth_asoc =
  key_heap :: key_heap
  shared_keys :: "nat list"
  random :: "bytes option"
  peer_random :: "bytes option"
  assoc_key :: "bytes option"
  recv_key :: "bytes option"
  active_keyid :: u16
  assoc_keyid :: u16
  recv_keyid :: u16
  notified_free :: "u16 list"

definition sctp_auth_key_acquire :: "auth_asoc \<Rightarrow> u16 \<Rightarrow> auth_asoc option" where
  "sctp_auth_key_acquire a key_id = do {
     skey \<leftarrow> sctp_find_sharedkey (key_heap a) (shared_keys a) key_id;
     (case skey of
        None \<Rightarrow> Some a
      | Some s \<Rightarrow> do {
          k \<leftarrow> key_heap a s;
          Some (a\<lparr>key_heap := (key_heap a)(s \<mapsto> k\<lparr>sk_refcount := sk_refcount k + 1\<rparr>)\<rparr>)
        })
   }"

definition sctp_auth_key_release :: "auth_asoc \<Rightarrow> u16 \<Rightarrow> auth_asoc option" where
  "sctp_auth_key_release a key_id = do {
     skey \<leftarrow> sctp_find_sharedkey (key_heap a) (shared_keys a) key_id;
     (case skey of
        None \<Rightarrow> Some a
      | Some s \<Rightarrow> do {
          k \<leftarrow> key_heap a s;
          let log = (if sk_refcount k \<le> 2 \<and> sk_deactivated k then notified_free a @ [key_id] else notified_free a);
          h' \<leftarrow> sctp_free_sharedkey (key_heap a) s;
          Some (a\<lparr>key_heap := h', notified_free := log\<rparr>)
        })
   }"

definition sctp_clear_cachedkeys :: "auth_asoc \<Rightarrow> u16 \<Rightarrow> auth_asoc" where
  "sctp_clear_cachedkeys a keyid =
     (let a1 = (if keyid = assoc_keyid a then a\<lparr>assoc_key := None\<rparr> else a)
      in if keyid = recv_keyid a1 then a1\<lparr>recv_key := None\<rparr> else a1)"

definition sctp_delete_sharedkey :: "auth_asoc \<Rightarrow> u16 \<Rightarrow> (int \<times> auth_asoc) option" where
  "sctp_delete_sharedkey a keyid =
     (if keyid = active_keyid a then Some (-1, a)
      else do {
        skey \<leftarrow> sctp_find_sharedkey (key_heap a) (shared_keys a) keyid;
        (case skey of
           None \<Rightarrow> Some (-1, a)
         | Some s \<Rightarrow> do {
             k \<leftarrow> key_heap a s;
             if sk_refcount k > 1 then Some (-1, a)
             else do {
               h' \<leftarrow> sctp_free_sharedkey (key_heap a) s;
               Some (0, sctp_clear_cachedkeys (a\<lparr>shared_keys := remove1 s (shared_keys a), key_heap := h'\<rparr>) keyid)
             }
           })
      })"

definition sctp_auth_setactivekey :: "auth_asoc \<Rightarrow> u16 \<Rightarrow> (int \<times> auth_asoc) option" where
  "sctp_auth_setactivekey a keyid = do {
     skey \<leftarrow> sctp_find_sharedkey (key_heap a) (shared_keys a) keyid;
     (case skey of
        None \<Rightarrow> Some (-1, a)
      | Some s \<Rightarrow> do {
          k \<leftarrow> key_heap a s;
          if sk_deactivated k \<and> sk_refcount k > 1 then Some (-1, a)
          else Some (0, a\<lparr>active_keyid := keyid, key_heap := (key_heap a)(s \<mapsto> k\<lparr>sk_deactivated := False\<rparr>)\<rparr>)
        })
   }"

definition sctp_deact_sharedkey :: "auth_asoc \<Rightarrow> u16 \<Rightarrow> (int \<times> auth_asoc) option" where
  "sctp_deact_sharedkey a keyid =
     (if keyid = active_keyid a then Some (-1, a)
      else do {
        skey \<leftarrow> sctp_find_sharedkey (key_heap a) (shared_keys a) keyid;
        (case skey of
           None \<Rightarrow> Some (-1, a)
         | Some s \<Rightarrow> do {
             k \<leftarrow> key_heap a s;
             let log = (if sk_refcount k = 1 then notified_free a @ [keyid] else notified_free a);
             Some (0, a\<lparr>notified_free := log, key_heap := (key_heap a)(s \<mapsto> k\<lparr>sk_deactivated := True\<rparr>)\<rparr>)
           })
      })"

text \<open>
  Installing a key by the socket option \<^verbatim>\<open>SCTP_AUTH_KEY\<close>, for the association it names: the cached keys of the
  identifier are dropped, the key bytes and the object are allocated, and the object is linked in. \<open>mem\<close> is
  the address of the new object, if memory is left, \<open>key_mem\<close> whether the key bytes can be allocated. The
  result is the option's error number.
\<close>

definition insert_errno :: "insert_status \<Rightarrow> int" where
  "insert_errno st = (case st of Inserted \<Rightarrow> 0 | Insert_EBUSY \<Rightarrow> 16 | Insert_EINVAL \<Rightarrow> 22)"

definition ENOMEM :: int where
  "ENOMEM = 12"

definition sctp_setopt_auth_key ::
  "auth_asoc \<Rightarrow> bool \<Rightarrow> nat option \<Rightarrow> u16 \<Rightarrow> bytes \<Rightarrow> (int \<times> auth_asoc) option" where
  "sctp_setopt_auth_key a key_mem mem keynumber sca_key =
     (let a1 = sctp_clear_cachedkeys a keynumber;
          key = (if length sca_key > 0 then sctp_set_key key_mem sca_key else None) in
      if length sca_key > 0 \<and> key = None then Some (ENOMEM, a1)
      else
        (case sctp_alloc_sharedkey (key_heap a1) mem of
           None \<Rightarrow> Some (ENOMEM, a1)
         | Some (h, s) \<Rightarrow> do {
             k \<leftarrow> h s;
             (st, l, h') \<leftarrow> sctp_insert_sharedkey (h(s \<mapsto> k\<lparr>sk_key := key, sk_keyid := keynumber\<rparr>)) (shared_keys a1) s;
             Some (insert_errno st, a1\<lparr>shared_keys := l, key_heap := h'\<rparr>)
           }))"

section \<open>Copying, and the endpoint's keys\<close>

definition sctp_copy_sharedkey :: "key_heap \<Rightarrow> nat option \<Rightarrow> bool \<Rightarrow> sharedkey \<Rightarrow> (key_heap \<times> nat) option" where
  "sctp_copy_sharedkey h mem key_mem skey =
     (case sctp_alloc_sharedkey h mem of
        None \<Rightarrow> None
      | Some (h1, s) \<Rightarrow>
          Some (h1(s \<mapsto> \<lparr>sk_key = (case sk_key skey of Some k \<Rightarrow> sctp_set_key key_mem k | None \<Rightarrow> None),
                         sk_refcount = 1, sk_keyid = sk_keyid skey, sk_deactivated = False\<rparr>), s))"

text \<open>\<open>alloc\<close> gives, for each key of the source, the address of its copy if memory is left, \<open>key_mem\<close> whether
  its key bytes can be allocated.\<close>

fun sctp_copy_skeylist ::
  "key_heap \<Rightarrow> (nat \<Rightarrow> nat option) \<Rightarrow> (nat \<Rightarrow> bool) \<Rightarrow> nat list \<Rightarrow> key_heap \<times> nat list \<Rightarrow>
     (int \<times> key_heap \<times> nat list) option" where
  "sctp_copy_skeylist src_heap alloc key_mem [] (h, dest) = Some (0, h, dest)"
| "sctp_copy_skeylist src_heap alloc key_mem (s # src) (h, dest) = do {
     k \<leftarrow> src_heap s;
     (case sctp_copy_sharedkey h (alloc s) (key_mem s) k of
        None \<Rightarrow> sctp_copy_skeylist src_heap alloc key_mem src (h, dest)
      | Some (h1, new_skey) \<Rightarrow> do {
          (st, dest', h2) \<leftarrow> sctp_insert_sharedkey h1 dest new_skey;
          if st \<noteq> Inserted then do {
            h3 \<leftarrow> sctp_free_sharedkey h2 new_skey;
            sctp_copy_skeylist src_heap alloc key_mem src (h3, dest')
          } else do {
            (count, r) \<leftarrow> sctp_copy_skeylist src_heap alloc key_mem src (h2, dest');
            Some (count + 1, r)
          }
        })
   }"

record auth_ep =
  ep_heap :: key_heap
  ep_shared_keys :: "nat list"
  default_keyid :: u16
  ep_asocs :: "auth_asoc list"

definition sctp_clear_cachedkeys_ep :: "auth_ep \<Rightarrow> u16 \<Rightarrow> auth_ep" where
  "sctp_clear_cachedkeys_ep e keyid = e\<lparr>ep_asocs := map (\<lambda>a. sctp_clear_cachedkeys a keyid) (ep_asocs e)\<rparr>"

definition sctp_delete_sharedkey_ep :: "auth_ep \<Rightarrow> u16 \<Rightarrow> (int \<times> auth_ep) option" where
  "sctp_delete_sharedkey_ep e keyid =
     (if keyid = default_keyid e then Some (-1, e)
      else do {
        skey \<leftarrow> sctp_find_sharedkey (ep_heap e) (ep_shared_keys e) keyid;
        (case skey of
           None \<Rightarrow> Some (-1, e)
         | Some s \<Rightarrow> do {
             h' \<leftarrow> sctp_free_sharedkey (ep_heap e) s;
             Some (0, sctp_clear_cachedkeys_ep (e\<lparr>ep_shared_keys := remove1 s (ep_shared_keys e), ep_heap := h'\<rparr>) keyid)
           })
      })"

definition sctp_auth_setactivekey_ep :: "auth_ep \<Rightarrow> u16 \<Rightarrow> (int \<times> auth_ep) option" where
  "sctp_auth_setactivekey_ep e keyid = do {
     skey \<leftarrow> sctp_find_sharedkey (ep_heap e) (ep_shared_keys e) keyid;
     Some (case skey of None \<Rightarrow> (-1, e) | Some s \<Rightarrow> (0, e\<lparr>default_keyid := keyid\<rparr>))
   }"

definition sctp_deact_sharedkey_ep :: "auth_ep \<Rightarrow> u16 \<Rightarrow> (int \<times> auth_ep) option" where
  "sctp_deact_sharedkey_ep e keyid =
     (if keyid = default_keyid e then Some (-1, e)
      else do {
        skey \<leftarrow> sctp_find_sharedkey (ep_heap e) (ep_shared_keys e) keyid;
        (case skey of
           None \<Rightarrow> Some (-1, e)
         | Some s \<Rightarrow> do {
             h' \<leftarrow> sctp_free_sharedkey (ep_heap e) s;
             Some (0, e\<lparr>ep_shared_keys := remove1 s (ep_shared_keys e), ep_heap := h'\<rparr>)
           })
      })"

section \<open>The order of keys\<close>

lemma compare_vals_swap: "length p = length q \<Longrightarrow> compare_vals q p = - compare_vals p q"
  by (induction p q rule: compare_vals.induct) auto

lemma compare_vals_eq: "length p = length q \<Longrightarrow> compare_vals p q = 0 \<longleftrightarrow> p = q"
  by (induction p q rule: compare_vals.induct) auto

lemma left_pad_length: "length k \<le> n \<Longrightarrow> length (left_pad n k) = n"
  by (simp add: left_pad_def)

lemma compare_key_swap: "sctp_compare_key key2 key1 = - sctp_compare_key key1 key2"
proof -
  have "compare_vals (left_pad (max (length k1) (length k2)) k2) (left_pad (max (length k1) (length k2)) k1) =
      - compare_vals (left_pad (max (length k1) (length k2)) k1) (left_pad (max (length k1) (length k2)) k2)" for k1 k2
    by (rule compare_vals_swap) (simp add: left_pad_length)
  moreover have "(if m < n then n else m) = max m n" for m n :: nat by (simp add: max_def)
  ultimately show ?thesis
    by (cases key1; cases key2)
      (auto simp: sctp_compare_key_def sctp_get_keylen_def Let_def max.commute split: if_splits)
qed

lemma compare_key_eq: "sctp_compare_key key1 key2 = 0 \<Longrightarrow> key_bytes key1 = key_bytes key2"
  by (cases key1; cases key2)
    (auto simp: sctp_compare_key_def sctp_get_keylen_def key_bytes_def Let_def left_pad_def compare_vals_eq
      split: if_splits)

lemma compute_hashkey_swap:
  "sctp_compute_hashkey mem key1 key2 shared = sctp_compute_hashkey mem key2 key1 shared"
proof (cases "sctp_compare_key key1 key2 = 0")
  case True
  then show ?thesis
    using compare_key_eq [OF True] compare_key_swap [of key1 key2]
    by (simp add: sctp_compute_hashkey_def Let_def add.commute)
next
  case False
  then show ?thesis
    using compare_key_swap [of key1 key2] by (auto simp: sctp_compute_hashkey_def Let_def add.commute)
qed

section \<open>The shared-key list\<close>

definition keys_inv :: "key_heap \<Rightarrow> nat list \<Rightarrow> bool" where
  "keys_inv h as \<longleftrightarrow> distinct as \<and> (\<forall>s \<in> set as. \<exists>k. h s = Some k \<and> sk_refcount k \<noteq> 0) \<and>
     sorted_wrt (<) (map (\<lambda>s. sk_keyid (the (h s))) as)"

definition key_at :: "key_heap \<Rightarrow> nat list \<Rightarrow> u16 \<Rightarrow> nat option" where
  "key_at h as i = find (\<lambda>s. sk_keyid (the (h s)) = i) as"

definition key_map :: "key_heap \<Rightarrow> nat list \<Rightarrow> u16 \<Rightarrow> sharedkey option" where
  "key_map h as i = Option.bind (key_at h as i) h"

lemma keys_inv_Cons:
  "keys_inv h (s # as) \<longleftrightarrow> s \<notin> set as \<and> (\<exists>k. h s = Some k \<and> sk_refcount k \<noteq> 0) \<and>
     (\<forall>t \<in> set as. sk_keyid (the (h s)) < sk_keyid (the (h t))) \<and> keys_inv h as"
  by (auto simp: keys_inv_def)

lemma keys_inv_Nil [simp]: "keys_inv h []"
  by (simp add: keys_inv_def)

lemma find_spec: "keys_inv h as \<Longrightarrow> sctp_find_sharedkey h as i = Some (key_at h as i)"
  by (induction as) (auto simp: keys_inv_Cons key_at_def)

lemma key_at_SomeD: "key_at h as i = Some s \<Longrightarrow> s \<in> set as \<and> sk_keyid (the (h s)) = i"
  by (induction as) (auto simp: key_at_def split: if_splits)

lemma key_at_NoneD: "key_at h as i = None \<Longrightarrow> s \<in> set as \<Longrightarrow> sk_keyid (the (h s)) \<noteq> i"
  by (auto simp: key_at_def find_None_iff)

lemma key_at_unique:
  assumes "keys_inv h as" "s \<in> set as" "sk_keyid (the (h s)) = i"
  shows "key_at h as i = Some s"
  using assms by (induction as) (auto simp: keys_inv_Cons key_at_def)

lemma key_map_iff:
  assumes "keys_inv h as"
  shows "key_map h as i = Some k \<longleftrightarrow> (\<exists>s \<in> set as. h s = Some k \<and> sk_keyid k = i)"
proof
  assume "key_map h as i = Some k"
  then show "\<exists>s \<in> set as. h s = Some k \<and> sk_keyid k = i"
    by (cases "key_at h as i") (auto simp: key_map_def dest: key_at_SomeD)
next
  assume "\<exists>s \<in> set as. h s = Some k \<and> sk_keyid k = i"
  then show "key_map h as i = Some k"
    using key_at_unique [OF assms] by (force simp: key_map_def)
qed

lemma key_map_None_iff:
  assumes "keys_inv h as"
  shows "key_map h as i = None \<longleftrightarrow> (\<forall>s \<in> set as. sk_keyid (the (h s)) \<noteq> i)"
proof -
  have "h s \<noteq> None" if "s \<in> set as" for s using assms that by (auto simp: keys_inv_def)
  then show ?thesis
    using key_map_iff [OF assms, of i] by (metis (no_types, lifting) not_None_eq option.sel)
qed

text \<open>Changes that keep the identifiers.\<close>

lemma keys_inv_cong:
  assumes "keys_inv h as" "\<And>s. s \<in> set as \<Longrightarrow> \<exists>k. h' s = Some k \<and> sk_refcount k \<noteq> 0 \<and> sk_keyid k = sk_keyid (the (h s))"
  shows "keys_inv h' as"
proof -
  have "map (\<lambda>s. sk_keyid (the (h' s))) as = map (\<lambda>s. sk_keyid (the (h s))) as"
    using assms(2) by (intro map_cong) force+
  then show ?thesis using assms unfolding keys_inv_def by (metis (no_types, lifting))
qed

text \<open>
  The ordered insertion: refused when the key with this identifier is deactivated and still
  referenced, otherwise the new object takes the place of that key or joins the list in order.
\<close>

definition insert_busy :: "key_heap \<Rightarrow> nat list \<Rightarrow> u16 \<Rightarrow> bool" where
  "insert_busy h as i \<longleftrightarrow> (\<exists>k. key_map h as i = Some k \<and> sk_deactivated k \<and> sk_refcount k > 1)"

lemma key_map_Cons:
  "key_map h (s # as) i = (if sk_keyid (the (h s)) = i then h s else key_map h as i)"
  by (simp add: key_map_def key_at_def)

lemma free_total: "h s = Some k \<Longrightarrow> \<exists>h'. sctp_free_sharedkey h s = Some h' \<and> (\<forall>x. x \<noteq> s \<longrightarrow> h' x = h x)"
  by (simp add: sctp_free_sharedkey_def)

lemma insert_walk_spec:
  assumes "keys_inv h as" "as \<noteq> []" "new_skey \<notin> set as" "h new_skey = Some n"
  shows "\<exists>as' h'. insert_walk h as new_skey n =
       Some (if insert_busy h as (sk_keyid n) then Insert_EBUSY else Inserted, as', h') \<and>
     (if insert_busy h as (sk_keyid n) then as' = as \<and> h' = h
      else distinct as' \<and> sorted_wrt (<) (map (\<lambda>s. sk_keyid (the (h s))) as') \<and>
        set as' = insert new_skey {s \<in> set as. sk_keyid (the (h s)) \<noteq> sk_keyid n} \<and>
        (\<forall>x. x \<notin> set as \<or> sk_keyid (the (h x)) \<noteq> sk_keyid n \<longrightarrow> h' x = h x))"
  using assms
proof (induction as)
  case (Cons s rest)
  obtain k where k: "h s = Some k" "sk_refcount k \<noteq> 0" using Cons.prems(1) by (auto simp: keys_inv_Cons)
  have lt: "\<And>t. t \<in> set rest \<Longrightarrow> sk_keyid k < sk_keyid (the (h t))" and s: "s \<notin> set rest"
    and d: "distinct rest" and so: "sorted_wrt (<) (map (\<lambda>s. sk_keyid (the (h s))) rest)" and kr: "keys_inv h rest"
    using Cons.prems(1) k by (auto simp: keys_inv_Cons keys_inv_def)
  consider (before) "sk_keyid n < sk_keyid k" | (same) "sk_keyid n = sk_keyid k"
    | (last) "sk_keyid n > sk_keyid k" "rest = []" | (later) "sk_keyid n > sk_keyid k" "rest \<noteq> []"
    by fastforce
  then show ?case
  proof cases
    case before
    then have ne: "sk_keyid (the (h t)) \<noteq> sk_keyid n" if "t \<in> set (s # rest)" for t
      using that lt [of t] k by auto
    then have nb: "\<not> insert_busy h (s # rest) (sk_keyid n)"
      using key_map_None_iff [OF Cons.prems(1), of "sk_keyid n"] by (simp add: insert_busy_def)
    show ?thesis
      using before nb k lt d so s Cons.prems(3,4) ne
      by (intro exI [of _ "new_skey # s # rest"] exI [of _ h]) (auto intro: less_trans)
  next
    case same
    have busy: "insert_busy h (s # rest) (sk_keyid n) \<longleftrightarrow> sk_deactivated k \<and> sk_refcount k > 1"
      using same k by (auto simp: insert_busy_def key_map_Cons)
    obtain h' where h': "sctp_free_sharedkey h s = Some h'" "\<And>x. x \<noteq> s \<Longrightarrow> h' x = h x"
      using free_total [of h s, OF k(1)] by blast
    have ne: "sk_keyid (the (h t)) \<noteq> sk_keyid n" if "t \<in> set rest" for t using lt [OF that] same by auto
    show ?thesis
    proof (cases "sk_deactivated k \<and> sk_refcount k > 1")
      case True
      then show ?thesis using same busy k by auto
    next
      case False
      have hx: "h' x = h x" if "x \<notin> set (s # rest) \<or> sk_keyid (the (h x)) \<noteq> sk_keyid n" for x
        using h'(2) [of x] that k same by (cases "x = s") auto
      have w: "insert_walk h (s # rest) new_skey n = Some (Inserted, new_skey # rest, h')"
        using False same k h'(1) by simp
      show ?thesis
        using False same busy k ne lt d so s hx w Cons.prems(3,4)
        by (intro exI [of _ "new_skey # rest"] exI [of _ h']) (auto simp del: insert_walk.simps)
    qed
  next
    case last
    then show ?thesis
      using k Cons.prems(3,4) by (auto simp: insert_busy_def key_map_def key_at_def)
  next
    case later
    have b: "insert_busy h (s # rest) (sk_keyid n) = insert_busy h rest (sk_keyid n)"
      using later(1) k by (auto simp: insert_busy_def key_map_Cons)
    obtain as' h' where IH: "insert_walk h rest new_skey n =
         Some (if insert_busy h rest (sk_keyid n) then Insert_EBUSY else Inserted, as', h')"
       "if insert_busy h rest (sk_keyid n) then as' = rest \<and> h' = h
        else distinct as' \<and> sorted_wrt (<) (map (\<lambda>s. sk_keyid (the (h s))) as') \<and>
          set as' = insert new_skey {s \<in> set rest. sk_keyid (the (h s)) \<noteq> sk_keyid n} \<and>
          (\<forall>x. x \<notin> set rest \<or> sk_keyid (the (h x)) \<noteq> sk_keyid n \<longrightarrow> h' x = h x)"
      using Cons.IH [OF kr later(2)] Cons.prems(3,4) by auto
    then show ?thesis
      using later k b lt s Cons.prems(3,4)
      by (intro exI [of _ "s # as'"] exI [of _ h']) (auto split: if_splits)
  qed
qed simp

lemma insert_spec:
  assumes "keys_inv h as" "new_skey \<notin> set as" "h new_skey = Some n" "sk_refcount n \<noteq> 0"
  shows "\<exists>as' h'. sctp_insert_sharedkey h as new_skey =
       Some (if insert_busy h as (sk_keyid n) then Insert_EBUSY else Inserted, as', h') \<and> keys_inv h' as' \<and>
     (if insert_busy h as (sk_keyid n) then as' = as \<and> h' = h
      else key_map h' as' = (key_map h as)(sk_keyid n \<mapsto> n) \<and>
        set as' = insert new_skey {s \<in> set as. sk_keyid (the (h s)) \<noteq> sk_keyid n} \<and> (\<forall>s \<in> set as'. h' s = h s))"
proof (cases "as = []")
  case True
  then show ?thesis
    using assms
    by (auto simp: sctp_insert_sharedkey_def insert_busy_def key_map_def key_at_def keys_inv_def fun_eq_iff)
next
  case False
  obtain as' h' where w: "insert_walk h as new_skey n =
       Some (if insert_busy h as (sk_keyid n) then Insert_EBUSY else Inserted, as', h')"
     "if insert_busy h as (sk_keyid n) then as' = as \<and> h' = h
      else distinct as' \<and> sorted_wrt (<) (map (\<lambda>s. sk_keyid (the (h s))) as') \<and>
        set as' = insert new_skey {s \<in> set as. sk_keyid (the (h s)) \<noteq> sk_keyid n} \<and>
        (\<forall>x. x \<notin> set as \<or> sk_keyid (the (h x)) \<noteq> sk_keyid n \<longrightarrow> h' x = h x)"
    using insert_walk_spec [OF assms(1) False assms(2,3)] by blast
  have ins: "sctp_insert_sharedkey h as new_skey =
      Some (if insert_busy h as (sk_keyid n) then Insert_EBUSY else Inserted, as', h')"
    using w(1) assms(3) False by (simp add: sctp_insert_sharedkey_def)
  show ?thesis
  proof (cases "insert_busy h as (sk_keyid n)")
    case True
    then show ?thesis using ins w(2) assms(1) by auto
  next
    case nb: False
    then have w': "distinct as'" "sorted_wrt (<) (map (\<lambda>s. sk_keyid (the (h s))) as')"
      "set as' = insert new_skey {s \<in> set as. sk_keyid (the (h s)) \<noteq> sk_keyid n}"
      "\<And>x. x \<notin> set as \<or> sk_keyid (the (h x)) \<noteq> sk_keyid n \<Longrightarrow> h' x = h x"
      using w(2) by auto
    have same: "h' s = h s" if "s \<in> set as'" for s using that w'(3,4) assms(2) by auto
    have "keys_inv h as'" using w'(1-3) assms by (auto simp: keys_inv_def)
    then have ki: "keys_inv h' as'" by (rule keys_inv_cong) (use same \<open>keys_inv h as'\<close> in \<open>auto simp: keys_inv_def\<close>)
    have "key_map h' as' i = Some k \<longleftrightarrow> ((key_map h as)(sk_keyid n \<mapsto> n)) i = Some k" for i k
    proof -
      have "key_map h' as' i = Some k \<longleftrightarrow> (\<exists>s \<in> set as'. h s = Some k \<and> sk_keyid k = i)"
        unfolding key_map_iff [OF ki] using same by auto
      also have "\<dots> \<longleftrightarrow> (k = n \<and> sk_keyid n = i) \<or>
          (\<exists>s \<in> set as. h s = Some k \<and> sk_keyid k = i \<and> sk_keyid k \<noteq> sk_keyid n)"
        unfolding w'(3) using assms(3) by auto
      also have "\<dots> \<longleftrightarrow> ((key_map h as)(sk_keyid n \<mapsto> n)) i = Some k"
        using key_map_iff [OF assms(1), of i k] by (cases "i = sk_keyid n") auto
      finally show ?thesis .
    qed
    then have "key_map h' as' = (key_map h as)(sk_keyid n \<mapsto> n)"
      by (metis (no_types, lifting) ext option.exhaust)
    then show ?thesis using ins nb ki same w'(3) by auto
  qed
qed

section \<open>Reference counts\<close>

text \<open>
  The chunks and messages of an association hold references to keys by identifier. \<open>hold\<close> counts, per identifier,
  the acquisitions not yet released. A history starts without keys and calls the operations in any
  order; it releases only what was acquired, keeps fewer than $2^{32} - 2$ references to a key, and installs a
  key only under an identifier with no outstanding reference.
\<close>

definition count_inv :: "auth_asoc \<Rightarrow> (u16 \<Rightarrow> nat) \<Rightarrow> bool" where
  "count_inv a hold \<longleftrightarrow> keys_inv (key_heap a) (shared_keys a) \<and>
     (\<forall>s \<in> set (shared_keys a). unat (sk_refcount (the (key_heap a s))) = Suc (hold (sk_keyid (the (key_heap a s)))))"

inductive key_history :: "auth_asoc \<Rightarrow> (u16 \<Rightarrow> nat) \<Rightarrow> bool" where
  start: "shared_keys a = [] \<Longrightarrow> key_history a (\<lambda>_. 0)"
| install: "key_history a hold \<Longrightarrow> hold i = 0 \<Longrightarrow> (\<And>s. mem = Some s \<Longrightarrow> key_heap a s = None) \<Longrightarrow>
    sctp_setopt_auth_key a key_mem mem i key = Some (r, a') \<Longrightarrow> key_history a' hold"
| acquire: "key_history a hold \<Longrightarrow> hold i < 2 ^ 32 - 2 \<Longrightarrow>
    sctp_auth_key_acquire a i = Some a' \<Longrightarrow> key_history a' (hold(i := Suc (hold i)))"
| release: "key_history a hold \<Longrightarrow> hold i = Suc n \<Longrightarrow>
    sctp_auth_key_release a i = Some a' \<Longrightarrow> key_history a' (hold(i := n))"
| remove: "key_history a hold \<Longrightarrow> sctp_delete_sharedkey a i = Some (r, a') \<Longrightarrow> key_history a' hold"
| activate: "key_history a hold \<Longrightarrow> sctp_auth_setactivekey a i = Some (r, a') \<Longrightarrow> key_history a' hold"
| deactivate: "key_history a hold \<Longrightarrow> sctp_deact_sharedkey a i = Some (r, a') \<Longrightarrow> key_history a' hold"

lemma count_inv_find:
  assumes "count_inv a hold"
  obtains (none) "sctp_find_sharedkey (key_heap a) (shared_keys a) i = Some None"
      "\<And>s. s \<in> set (shared_keys a) \<Longrightarrow> sk_keyid (the (key_heap a s)) \<noteq> i"
  | (key) s k where "sctp_find_sharedkey (key_heap a) (shared_keys a) i = Some (Some s)" "s \<in> set (shared_keys a)"
      "key_heap a s = Some k" "sk_keyid k = i" "unat (sk_refcount k) = Suc (hold i)"
      "\<And>t. t \<in> set (shared_keys a) \<Longrightarrow> t \<noteq> s \<Longrightarrow> sk_keyid (the (key_heap a t)) \<noteq> i"
proof -
  have ki: "keys_inv (key_heap a) (shared_keys a)" using assms by (simp add: count_inv_def)
  show thesis
  proof (cases "key_at (key_heap a) (shared_keys a) i")
    case None
    show ?thesis using none find_spec [OF ki, of i] key_at_NoneD [OF None] None by simp
  next
    case (Some s)
    then have s: "s \<in> set (shared_keys a)" "sk_keyid (the (key_heap a s)) = i" using key_at_SomeD by blast+
    obtain k where k: "key_heap a s = Some k" using ki s(1) by (auto simp: keys_inv_def)
    have "sk_keyid (the (key_heap a t)) \<noteq> i" if "t \<in> set (shared_keys a)" "t \<noteq> s" for t
      using key_at_unique [OF ki that(1)] Some that(2) by auto
    moreover have "unat (sk_refcount k) = Suc (hold i)" using assms s k by (force simp: count_inv_def)
    ultimately show ?thesis using key [of s k] find_spec [OF ki, of i] Some s k by auto
  qed
qed

lemma count_inv_update:
  assumes "count_inv a hold" "s \<in> set (shared_keys a)" "key_heap a s = Some k" "sk_keyid k' = sk_keyid k"
    "unat (sk_refcount k') = Suc (hold' (sk_keyid k))" "\<And>i. i \<noteq> sk_keyid k \<Longrightarrow> hold' i = hold i"
    "shared_keys a' = shared_keys a" "key_heap a' = (key_heap a)(s \<mapsto> k')"
  shows "count_inv a' hold'"
proof -
  have ki: "keys_inv (key_heap a) (shared_keys a)" using assms(1) by (simp add: count_inv_def)
  have "sk_refcount k' \<noteq> 0" using assms(5) by auto
  then have "keys_inv (key_heap a') (shared_keys a')"
    unfolding assms(7) by (rule_tac keys_inv_cong [OF ki]) (use ki assms in \<open>auto simp: keys_inv_def\<close>)
  moreover have "sk_keyid (the (key_heap a t)) \<noteq> sk_keyid k" if "t \<in> set (shared_keys a)" "t \<noteq> s" for t
    using key_at_unique [OF ki that(1) refl] key_at_unique [OF ki assms(2) refl] that(2) assms(3) by auto
  ultimately show ?thesis using assms by (auto simp: count_inv_def)
qed

lemma count_inv_remove:
  assumes "count_inv a hold" "shared_keys a' = remove1 s (shared_keys a)" "key_heap a' = (key_heap a)(s := None)"
  shows "count_inv a' hold"
proof -
  have d: "distinct (shared_keys a)" and so: "sorted_wrt (<) (map (\<lambda>s. sk_keyid (the (key_heap a s))) (shared_keys a))"
    using assms(1) by (auto simp: count_inv_def keys_inv_def)
  have mem: "t \<in> set (shared_keys a') \<longleftrightarrow> t \<in> set (shared_keys a) \<and> t \<noteq> s" for t
    using assms(2) d by auto
  have eq: "shared_keys a' = filter (\<lambda>t. t \<noteq> s) (shared_keys a)"
    using assms(2) distinct_remove1_removeAll [OF d] by (simp add: removeAll_filter_not_eq fun_eq_iff) metis
  have "sorted_wrt (\<lambda>x y. sk_keyid (the (key_heap a x)) < sk_keyid (the (key_heap a y))) (shared_keys a')"
    using so unfolding eq sorted_wrt_map by (rule sorted_wrt_filter)
  then have "keys_inv (key_heap a) (shared_keys a')"
    using assms(1) d mem eq by (auto simp: count_inv_def keys_inv_def sorted_wrt_map)
  then have "keys_inv (key_heap a') (shared_keys a')"
    by (rule keys_inv_cong) (use mem assms(1,3) in \<open>auto simp: count_inv_def keys_inv_def\<close>)
  then show ?thesis using assms(1,3) mem by (auto simp: count_inv_def)
qed

lemma clear_cachedkeys_keys [simp]:
  "key_heap (sctp_clear_cachedkeys a i) = key_heap a" "shared_keys (sctp_clear_cachedkeys a i) = shared_keys a"
  by (auto simp: sctp_clear_cachedkeys_def Let_def)

lemma unat_pred: "unat (w :: 'a::len word) = Suc n \<Longrightarrow> unat (w - 1) = n"
  by (metis diff_Suc_1 unat_minus_one unat_0 nat.distinct(1))

lemma acquire_ok:
  assumes "count_inv a hold" "hold i < 2 ^ 32 - 2"
  shows "\<exists>a'. sctp_auth_key_acquire a i = Some a' \<and> count_inv a' (hold(i := Suc (hold i)))"
  using assms(1)
proof (cases rule: count_inv_find [where i = i])
  case none
  then show ?thesis using assms(1) by (auto simp: sctp_auth_key_acquire_def count_inv_def)
next
  case (key s k)
  have "unat (sk_refcount k + 1) = Suc (Suc (hold i))"
    using key(5) assms(2) by (simp add: unat_word_ariths unat_plus_if')
  then show ?thesis
    using key count_inv_update [OF assms(1) key(2,3), of "k\<lparr>sk_refcount := sk_refcount k + 1\<rparr>" "hold(i := Suc (hold i))"]
    by (simp add: sctp_auth_key_acquire_def)
qed

lemma release_ok:
  assumes "count_inv a hold" "hold i = Suc n"
  shows "\<exists>a'. sctp_auth_key_release a i = Some a' \<and> count_inv a' (hold(i := n))"
  using assms(1)
proof (cases rule: count_inv_find [where i = i])
  case none
  then show ?thesis using assms(1) by (auto simp: sctp_auth_key_release_def count_inv_def)
next
  case (key s k)
  then have u: "unat (sk_refcount k - 1) = Suc n" using assms(2) by (simp add: unat_pred)
  have "sk_refcount k \<noteq> 1" using key(5) assms(2) by auto
  then show ?thesis
    using key u count_inv_update [OF assms(1) key(2,3), of "k\<lparr>sk_refcount := sk_refcount k - 1\<rparr>" "hold(i := n)"]
    by (simp add: sctp_auth_key_release_def sctp_free_sharedkey_def Let_def)
qed

lemma delete_ok:
  assumes "count_inv a hold"
  shows "\<exists>r a'. sctp_delete_sharedkey a i = Some (r, a') \<and> count_inv a' hold"
  using assms
proof (cases rule: count_inv_find [where i = i])
  case none
  then show ?thesis using assms by (auto simp: sctp_delete_sharedkey_def)
next
  case (key s k)
  show ?thesis
  proof (cases "i = active_keyid a \<or> sk_refcount k > 1")
    case True
    then show ?thesis using assms key by (auto simp: sctp_delete_sharedkey_def)
  next
    case False
    then have "unat (sk_refcount k) = unat (1 :: u32)" using key(5) by (simp add: word_less_nat_alt)
    then have one: "sk_refcount k = 1" by (simp only: word_unat_eq_iff)
    have "count_inv (sctp_clear_cachedkeys (a\<lparr>shared_keys := remove1 s (shared_keys a),
        key_heap := (key_heap a)(s := None)\<rparr>) i) hold"
      by (rule count_inv_remove [OF assms]) simp_all
    then show ?thesis using False key one by (auto simp: sctp_delete_sharedkey_def sctp_free_sharedkey_def)
  qed
qed

lemma setactive_ok:
  assumes "count_inv a hold"
  shows "\<exists>r a'. sctp_auth_setactivekey a i = Some (r, a') \<and> count_inv a' hold"
  using assms
proof (cases rule: count_inv_find [where i = i])
  case none
  then show ?thesis using assms by (auto simp: sctp_auth_setactivekey_def)
next
  case (key s k)
  then show ?thesis
    using assms count_inv_update [OF assms key(2,3), of "k\<lparr>sk_deactivated := False\<rparr>" hold]
    by (auto simp: sctp_auth_setactivekey_def)
qed

lemma deact_ok:
  assumes "count_inv a hold"
  shows "\<exists>r a'. sctp_deact_sharedkey a i = Some (r, a') \<and> count_inv a' hold"
  using assms
proof (cases rule: count_inv_find [where i = i])
  case none
  then show ?thesis using assms by (auto simp: sctp_deact_sharedkey_def)
next
  case (key s k)
  then show ?thesis
    using assms count_inv_update [OF assms key(2,3), of "k\<lparr>sk_deactivated := True\<rparr>" hold]
    by (auto simp: sctp_deact_sharedkey_def Let_def)
qed

text \<open>Installing: the object of a successful call is listed with a count of one and replaces the old key.\<close>

definition new_sharedkey :: "u16 \<Rightarrow> bytes \<Rightarrow> sharedkey" where
  "new_sharedkey i key = \<lparr>sk_key = (if key = [] then None else Some key), sk_refcount = 1, sk_keyid = i,
     sk_deactivated = False\<rparr>"

lemma setopt_alloc:
  "sctp_setopt_auth_key a True (Some s) i key = do {
     (st, l, h') \<leftarrow> sctp_insert_sharedkey ((key_heap a)(s \<mapsto> new_sharedkey i key)) (shared_keys a) s;
     Some (insert_errno st, (sctp_clear_cachedkeys a i)\<lparr>shared_keys := l, key_heap := h'\<rparr>)
   }"
  by (simp add: sctp_setopt_auth_key_def sctp_alloc_sharedkey_def sctp_set_key_def Let_def new_sharedkey_def)

lemma setopt_cases:
  "sctp_setopt_auth_key a key_mem mem i key =
     (case mem of
        Some s \<Rightarrow> if key = [] \<or> key_mem then sctp_setopt_auth_key a True (Some s) i key
                  else Some (ENOMEM, sctp_clear_cachedkeys a i)
      | None \<Rightarrow> Some (ENOMEM, sctp_clear_cachedkeys a i))"
  by (auto simp: sctp_setopt_auth_key_def sctp_alloc_sharedkey_def sctp_set_key_def Let_def split: option.split)

lemma keys_inv_fresh:
  assumes "keys_inv h as" "h s = None"
  shows "s \<notin> set as" "keys_inv (h(s \<mapsto> k)) as" "key_map (h(s \<mapsto> k)) as = key_map h as"
proof -
  show s: "s \<notin> set as" using assms by (auto simp: keys_inv_def)
  show "keys_inv (h(s \<mapsto> k)) as"
    by (rule keys_inv_cong [OF assms(1)]) (use assms s in \<open>auto simp: keys_inv_def\<close>)
  have "key_at (h(s \<mapsto> k)) as i = key_at h as i" for i
    unfolding key_at_def using s by (induction as) auto
  moreover have "key_at h as i = Some t \<Longrightarrow> t \<noteq> s" for i t using s by (auto dest: key_at_SomeD)
  ultimately show "key_map (h(s \<mapsto> k)) as = key_map h as"
    by (intro ext) (simp add: key_map_def split: bind_split)
qed

lemma setopt_spec:
  assumes "keys_inv (key_heap a) (shared_keys a)" "key_heap a s = None"
  shows "\<exists>a'. sctp_setopt_auth_key a True (Some s) i key =
       Some (if insert_busy (key_heap a) (shared_keys a) i then 16 else 0, a') \<and>
     keys_inv (key_heap a') (shared_keys a') \<and>
     (if insert_busy (key_heap a) (shared_keys a) i then shared_keys a' = shared_keys a \<and>
        (\<forall>t \<in> set (shared_keys a). key_heap a' t = key_heap a t)
      else key_map (key_heap a') (shared_keys a') = (key_map (key_heap a) (shared_keys a))(i \<mapsto> new_sharedkey i key) \<and>
        set (shared_keys a') = insert s {t \<in> set (shared_keys a). sk_keyid (the (key_heap a t)) \<noteq> i} \<and>
        (\<forall>t \<in> set (shared_keys a'). key_heap a' t = ((key_heap a)(s \<mapsto> new_sharedkey i key)) t))"
proof -
  let ?h = "(key_heap a)(s \<mapsto> new_sharedkey i key)"
  note fresh = keys_inv_fresh(1) [OF assms] keys_inv_fresh(2,3) [OF assms, of "new_sharedkey i key"]
  have "insert_busy ?h (shared_keys a) i = insert_busy (key_heap a) (shared_keys a) i"
    by (simp add: insert_busy_def fresh(3))
  moreover have "{t \<in> set (shared_keys a). sk_keyid (the (?h t)) \<noteq> i} =
      {t \<in> set (shared_keys a). sk_keyid (the (key_heap a t)) \<noteq> i}" using fresh(1) by auto
  moreover note insert_spec [OF fresh(2,1), of "new_sharedkey i key"]
  ultimately show ?thesis
    using fresh(1,3) by (fastforce simp: setopt_alloc insert_errno_def new_sharedkey_def)
qed

lemma install_ok:
  assumes "count_inv a hold" "hold i = 0" "\<And>s. mem = Some s \<Longrightarrow> key_heap a s = None"
  shows "\<exists>r a'. sctp_setopt_auth_key a key_mem mem i key = Some (r, a') \<and> count_inv a' hold"
proof -
  have ki: "keys_inv (key_heap a) (shared_keys a)" using assms(1) by (simp add: count_inv_def)
  have c: "count_inv (sctp_clear_cachedkeys a i) hold" using assms(1) by (simp add: count_inv_def)
  have "\<exists>r a'. sctp_setopt_auth_key a True (Some s) i key = Some (r, a') \<and> count_inv a' hold" if "mem = Some s" for s
  proof -
    have f: "key_heap a s = None" using assms(3) that by blast
    obtain a' r where a': "sctp_setopt_auth_key a True (Some s) i key = Some (r, a')"
        "keys_inv (key_heap a') (shared_keys a')"
        "if insert_busy (key_heap a) (shared_keys a) i then shared_keys a' = shared_keys a \<and>
          (\<forall>t \<in> set (shared_keys a). key_heap a' t = key_heap a t)
         else key_map (key_heap a') (shared_keys a') = (key_map (key_heap a) (shared_keys a))(i \<mapsto> new_sharedkey i key) \<and>
          set (shared_keys a') = insert s {t \<in> set (shared_keys a). sk_keyid (the (key_heap a t)) \<noteq> i} \<and>
          (\<forall>t \<in> set (shared_keys a'). key_heap a' t = ((key_heap a)(s \<mapsto> new_sharedkey i key)) t)"
      using setopt_spec [OF ki f, of i key] by blast
    have "unat (sk_refcount (the (key_heap a' t))) = Suc (hold (sk_keyid (the (key_heap a' t))))"
      if "t \<in> set (shared_keys a')" for t
      using a'(3) that assms(1,2) by (auto simp: count_inv_def new_sharedkey_def split: if_splits)
    then show ?thesis using a'(1,2) by (auto simp: count_inv_def)
  qed
  then show ?thesis
    using c setopt_cases [of a key_mem mem i key] by (cases mem) (auto split: if_splits)
qed

lemma history_inv: "key_history a hold \<Longrightarrow> count_inv a hold"
proof (induction rule: key_history.induct)
  case (start a)
  then show ?case by (simp add: count_inv_def)
next
  case (install a hold i mem key_mem key r a')
  then show ?case using install_ok [of a hold i mem key_mem key] by fastforce
next
  case (acquire a hold i a')
  then show ?case using acquire_ok [OF acquire.IH acquire.hyps(2)] by (metis option.inject)
next
  case (release a hold i n a')
  then show ?case using release_ok [OF release.IH release.hyps(2)] by (metis option.inject)
next
  case (remove a hold i r a')
  then show ?case using delete_ok [of a hold i] by fastforce
next
  case (activate a hold i r a')
  then show ?case using setactive_ok [of a hold i] by fastforce
next
  case (deactivate a hold i r a')
  then show ?case using deact_ok [of a hold i] by fastforce
qed

lemma find_dangling:
  assumes "s \<in> set as" "h s = None" "\<And>t. t \<in> set as \<Longrightarrow> t \<noteq> s \<Longrightarrow> \<exists>k. h t = Some k \<and> sk_keyid k \<noteq> i"
  shows "sctp_find_sharedkey h as i = None"
  using assms
proof (induction as)
  case (Cons t as)
  show ?case
  proof (cases "t = s")
    case True
    then show ?thesis using Cons.prems(2) by simp
  next
    case False
    then obtain k where "h t = Some k" "sk_keyid k \<noteq> i" using Cons.prems(3) [of t] by auto
    then show ?thesis using Cons False by simp
  qed
qed simp

section \<open>Properties\<close>

text \<open>The two ends of an association compute the same association key: exchanging the local and the peer
  random vector does not change the result of the hash-key computation, and the key consists of the shared key
  followed by the two vectors in one of the two orders.\<close>

theorem hashkey_symmetric:
  "sctp_compute_hashkey mem r1 r2 shared = sctp_compute_hashkey mem r2 r1 shared \<and>
   (\<forall>k. sctp_compute_hashkey mem r1 r2 shared = Some k \<longrightarrow>
      k \<in> {key_bytes shared @ key_bytes r1 @ key_bytes r2,
           key_bytes shared @ key_bytes r2 @ key_bytes r1})"
  using compute_hashkey_swap by (auto simp: sctp_compute_hashkey_def Let_def split: if_splits)

theorem hashkey_symmetric_witness:
  "[9] @ [1, 2] @ [3, 0] \<in> {key_bytes (Some [9]) @ key_bytes (Some [3, 0]) @ key_bytes (Some [1, 2]),
     key_bytes (Some [9]) @ key_bytes (Some [1, 2]) @ key_bytes (Some [3, 0])}"
  using hashkey_symmetric [of True "Some [3, 0]" "Some [1, 2]" "Some [9]"]
  by (simp add: sctp_compute_hashkey_def sctp_compare_key_def sctp_get_keylen_def left_pad_def key_bytes_def)

text \<open>C12. In every history of key operations that installs a key only under an identifier nobody holds, the
  key list is sorted without duplicates, every linked key is allocated, its count is one more than the number
  of outstanding acquisitions of its identifier, and no operation touches freed memory: finding, acquiring,
  releasing a held key, deleting, activating, deactivating and installing all return.\<close>

theorem key_history_safe:
  assumes "key_history a hold"
  shows "sorted_wrt (<) (map (\<lambda>s. sk_keyid (the (key_heap a s))) (shared_keys a)) \<and>
    (\<forall>s \<in> set (shared_keys a). \<exists>k. key_heap a s = Some k \<and> unat (sk_refcount k) = Suc (hold (sk_keyid k))) \<and>
    sctp_find_sharedkey (key_heap a) (shared_keys a) i \<noteq> None \<and>
    (hold i < 2 ^ 32 - 2 \<longrightarrow> sctp_auth_key_acquire a i \<noteq> None) \<and>
    (hold i > 0 \<longrightarrow> sctp_auth_key_release a i \<noteq> None) \<and>
    sctp_delete_sharedkey a i \<noteq> None \<and> sctp_auth_setactivekey a i \<noteq> None \<and> sctp_deact_sharedkey a i \<noteq> None \<and>
    (hold i = 0 \<and> key_heap a s = None \<longrightarrow> sctp_setopt_auth_key a key_mem (Some s) i key \<noteq> None)"
proof -
  have c: "count_inv a hold" using history_inv [OF assms] .
  have "hold i > 0 \<Longrightarrow> sctp_auth_key_release a i \<noteq> None"
    using release_ok [OF c, of i "hold i - 1"] by auto
  moreover have "sctp_find_sharedkey (key_heap a) (shared_keys a) i \<noteq> None"
    using c find_spec [of "key_heap a" "shared_keys a" i] by (simp add: count_inv_def)
  moreover have "\<exists>k. key_heap a s = Some k \<and> unat (sk_refcount k) = Suc (hold (sk_keyid k))"
    if "s \<in> set (shared_keys a)" for s
    using c that by (force simp: count_inv_def keys_inv_def)
  moreover have "sorted_wrt (<) (map (\<lambda>s. sk_keyid (the (key_heap a s))) (shared_keys a))"
    using c by (simp add: count_inv_def keys_inv_def)
  ultimately show ?thesis
    using acquire_ok [OF c, of i] delete_ok [OF c, of i] setactive_ok [OF c, of i] deact_ok [OF c, of i]
      install_ok [OF c, of i "Some s" key_mem key] by force
qed

text \<open>An association with key 5 at address 1, acquired once.\<close>

definition demo_asoc :: "key_heap \<Rightarrow> nat list \<Rightarrow> auth_asoc" where
  "demo_asoc h as = \<lparr>key_heap = h, shared_keys = as, random = Some [1], peer_random = Some [2], assoc_key = None,
     recv_key = None, active_keyid = 0, assoc_keyid = 0, recv_keyid = 0, notified_free = []\<rparr>"

definition demo_held :: auth_asoc where
  "demo_held = demo_asoc [1 \<mapsto> (new_sharedkey 5 [7])\<lparr>sk_refcount := 2\<rparr>] [1]"

lemmas demo_simps = demo_asoc_def new_sharedkey_def sctp_setopt_auth_key_def sctp_alloc_sharedkey_def
  sctp_set_key_def sctp_insert_sharedkey_def insert_errno_def sctp_clear_cachedkeys_def sctp_auth_key_acquire_def
  sctp_auth_key_release_def sctp_free_sharedkey_def

lemma demo_history: "key_history demo_held ((\<lambda>_. 0)(5 := 1))"
proof -
  have 1: "key_history (demo_asoc Map.empty []) (\<lambda>_. 0)" by (rule key_history.start) (simp add: demo_asoc_def)
  have 2: "key_history (demo_asoc [1 \<mapsto> new_sharedkey 5 [7]] [1]) (\<lambda>_. 0)"
    by (rule key_history.install [OF 1, where i = 5 and mem = "Some 1" and key_mem = True and key = "[7]" and r = 0])
      (simp_all add: demo_simps)
  show ?thesis
    using key_history.acquire [OF 2, of 5 demo_held] by (simp add: demo_held_def demo_simps)
qed

lemma demo_map: "key_map (key_heap demo_held) (shared_keys demo_held) =
    [5 \<mapsto> (new_sharedkey 5 [7])\<lparr>sk_refcount := 2\<rparr>]" "key_heap demo_held 2 = None"
  by (auto simp: demo_held_def demo_asoc_def key_map_def key_at_def new_sharedkey_def)

theorem key_history_safe_witness:
  "key_history demo_held ((\<lambda>_. 0)(5 := 1)) \<and> sctp_auth_key_release demo_held 5 \<noteq> None \<and>
   sctp_setopt_auth_key demo_held True (Some 2) 6 [1] \<noteq> None"
  using demo_history key_history_safe [OF demo_history, of 5 2 True "[1]"]
    key_history_safe [OF demo_history, of 6 2 True "[1]"]
  by (simp add: demo_held_def demo_simps)

text \<open>Installing a key is an update of the map from identifiers to keys: unless the key under that
  identifier is deactivated and still held, the option succeeds, a lookup of the identifier finds the new key,
  every other identifier keeps its key, the list stays sorted, and the association has no cached send or receive
  key for the identifier left; otherwise the option fails with EBUSY and all keys stay.\<close>

theorem install_is_update:
  assumes "key_history a hold" "key_heap a s = None"
  shows "\<exists>r a'. sctp_setopt_auth_key a True (Some s) i key = Some (r, a') \<and>
    (assoc_keyid a' = i \<longrightarrow> assoc_key a' = None) \<and> (recv_keyid a' = i \<longrightarrow> recv_key a' = None) \<and>
    sorted_wrt (<) (map (\<lambda>s. sk_keyid (the (key_heap a' s))) (shared_keys a')) \<and>
    (if \<exists>k. key_map (key_heap a) (shared_keys a) i = Some k \<and> sk_deactivated k \<and> sk_refcount k > 1
     then r = 16 \<and> shared_keys a' = shared_keys a
     else r = 0 \<and> key_map (key_heap a') (shared_keys a') =
       (key_map (key_heap a) (shared_keys a))(i \<mapsto> new_sharedkey i key))"
proof -
  have ki: "keys_inv (key_heap a) (shared_keys a)" using history_inv [OF assms(1)] by (simp add: count_inv_def)
  obtain a' where a': "sctp_setopt_auth_key a True (Some s) i key =
      Some (if insert_busy (key_heap a) (shared_keys a) i then 16 else 0, a')"
    "keys_inv (key_heap a') (shared_keys a')"
    "if insert_busy (key_heap a) (shared_keys a) i then shared_keys a' = shared_keys a
     else key_map (key_heap a') (shared_keys a') = (key_map (key_heap a) (shared_keys a))(i \<mapsto> new_sharedkey i key)"
    using setopt_spec [OF ki assms(2), of i key] by (auto split: if_splits)
  have "(assoc_keyid a' = i \<longrightarrow> assoc_key a' = None) \<and> (recv_keyid a' = i \<longrightarrow> recv_key a' = None)"
    using a'(1) by (auto simp: setopt_alloc sctp_clear_cachedkeys_def Let_def split: bind_splits if_splits)
  then show ?thesis using a' by (auto simp: keys_inv_def insert_busy_def)
qed

theorem install_is_update_witness:
  "\<exists>a'. sctp_setopt_auth_key demo_held True (Some 2) 6 [1] = Some (0, a') \<and>
     key_map (key_heap a') (shared_keys a') 6 = Some (new_sharedkey 6 [1])"
  using install_is_update [OF demo_history demo_map(2), of 6 "[1]"] by (auto simp: demo_map)

text \<open>C13. Why a history may not install a key under a held identifier: the option accepts the replacement of
  a held key that is not deactivated, the new object starts with a count of one, and the next release of the
  old reference frees the new object although it is still linked, so that the following lookup of this
  identifier reads freed memory.\<close>

theorem replace_held_key_dangles:
  assumes "key_history a hold" "key_map (key_heap a) (shared_keys a) i = Some k" "\<not> sk_deactivated k"
    "key_heap a s = None"
  shows "\<exists>a' a''. sctp_setopt_auth_key a True (Some s) i key = Some (0, a') \<and> sctp_auth_key_release a' i = Some a'' \<and>
    s \<in> set (shared_keys a'') \<and> key_heap a'' s = None \<and>
    sctp_find_sharedkey (key_heap a'') (shared_keys a'') i = None"
proof -
  have ki: "keys_inv (key_heap a) (shared_keys a)" using history_inv [OF assms(1)] by (simp add: count_inv_def)
  have "\<not> insert_busy (key_heap a) (shared_keys a) i" using assms(2,3) by (simp add: insert_busy_def)
  then obtain a' where a': "sctp_setopt_auth_key a True (Some s) i key = Some (0, a')"
    "keys_inv (key_heap a') (shared_keys a')"
    "set (shared_keys a') = insert s {t \<in> set (shared_keys a). sk_keyid (the (key_heap a t)) \<noteq> i}"
    "\<And>t. t \<in> set (shared_keys a') \<Longrightarrow> key_heap a' t = ((key_heap a)(s \<mapsto> new_sharedkey i key)) t"
    using setopt_spec [OF ki assms(4), of i key] by auto
  have s: "key_heap a' s = Some (new_sharedkey i key)" using a'(3,4) by auto
  then have "key_at (key_heap a') (shared_keys a') i = Some s"
    using key_at_unique [OF a'(2), of s i] a'(3) by (simp add: new_sharedkey_def)
  then have r: "sctp_auth_key_release a' i = Some (a'\<lparr>key_heap := (key_heap a')(s := None)\<rparr>)"
    using s find_spec [OF a'(2), of i] by (simp add: sctp_auth_key_release_def sctp_free_sharedkey_def new_sharedkey_def)
  have "sctp_find_sharedkey ((key_heap a')(s := None)) (shared_keys a') i = None"
    by (rule find_dangling [of s]) (use a'(3,4) ki in \<open>auto simp: keys_inv_def\<close>)
  then show ?thesis using a'(1,3) r by auto
qed

theorem replace_held_key_dangles_witness:
  "\<exists>a' a''. sctp_setopt_auth_key demo_held True (Some 2) 5 [1] = Some (0, a') \<and> sctp_auth_key_release a' 5 = Some a'' \<and>
     sctp_find_sharedkey (key_heap a'') (shared_keys a'') 5 = None"
  using replace_held_key_dangles [OF demo_history _ _ demo_map(2), of 5 "(new_sharedkey 5 [7])\<lparr>sk_refcount := 2\<rparr>" "[1]"]
  by (auto simp: demo_map new_sharedkey_def)

end
