(* ===== verification/Auth_Handle.thy ===== *)
theory Auth_Handle
  imports Hmac Auth_Lists Auth_Keys
begin

text \<open>
  AUTH chunks of \<^verbatim>\<open>netinet/sctp_auth.c\<close>: signing an outgoing packet and checking an incoming one. A packet is
  an mbuf chain; a chunk is named by its position in the chain. Writing outside the data of an mbuf, and
  reading freed or foreign memory, has no result. The uninitialised \<open>computed_digest\<close> of the stack is an
  argument, and so is whether the allocations succeed. Statistics are counters, notifications and queued error
  causes are logs.
\<close>

section \<open>Packet bytes\<close>

definition ntohs_at :: "bytes \<Rightarrow> nat \<Rightarrow> u16" where
  "ntohs_at b i = push_bit 8 (ucast (b ! i)) OR ucast (b ! Suc i)"

definition htons_bytes :: "u16 \<Rightarrow> bytes" where
  "htons_bytes w = [ucast (drop_bit 8 w), ucast w]"

definition overwrite :: "bytes \<Rightarrow> nat \<Rightarrow> bytes \<Rightarrow> bytes" where
  "overwrite d p bs = take p d @ bs @ drop (p + length bs) d"

text \<open>A store through a pointer into the chain, at byte \<open>p\<close>.\<close>

fun write_chain :: "data_buf list \<Rightarrow> nat \<Rightarrow> bytes \<Rightarrow> data_buf list option" where
  "write_chain [] p bs = (if bs = [] then Some [] else None)"
| "write_chain (m # ms) p bs =
     (if p < length (m_bytes m) then
        if p + length bs \<le> length (m_bytes m) then Some (m\<lparr>m_bytes := overwrite (m_bytes m) p bs\<rparr> # ms) else None
      else map_option ((#) m) (write_chain ms (p - length (m_bytes m)) bs))"

definition zero_at :: "bytes \<Rightarrow> u32 \<Rightarrow> u32 \<Rightarrow> bytes option" where
  "zero_at d off n =
     (if unat off + unat n \<le> length d then Some (overwrite d (unat off) (replicate (unat n) 0)) else None)"

text \<open>The second loop of \<^verbatim>\<open>sctp_zero_m()\<close>.\<close>

fun zero_rest :: "u32 \<Rightarrow> u32 \<Rightarrow> data_buf list \<Rightarrow> data_buf list option" where
  "zero_rest m_offset sz [] = Some []"
| "zero_rest m_offset sz (m # ms) =
     (if sz = 0 then Some (m # ms)
      else if sz > SCTP_BUF_LEN m then do {
        data \<leftarrow> zero_at (m_bytes m) m_offset (SCTP_BUF_LEN m);
        ms' \<leftarrow> zero_rest 0 (sz - SCTP_BUF_LEN m) ms;
        Some (m\<lparr>m_bytes := data\<rparr> # ms')
      } else do {
        data \<leftarrow> zero_at (m_bytes m) m_offset sz;
        ms' \<leftarrow> zero_rest 0 0 ms;
        Some (m\<lparr>m_bytes := data\<rparr> # ms')
      })"

definition sctp_zero_m :: "data_buf list \<Rightarrow> u32 \<Rightarrow> u32 \<Rightarrow> data_buf list option" where
  "sctp_zero_m m m_offset sz =
     (case skip_to_offset m m_offset of
        (m_tmp, m_offset') \<Rightarrow>
          map_option (\<lambda>m'. take (length m - length m_tmp) m @ m') (zero_rest m_offset' sz m_tmp))"

section \<open>Signing and checking\<close>

record auth_tcb = auth_asoc +
  local_hmacs :: "sctp_hmaclist option"
  peer_hmac_id :: u16
  recvauth :: nat
  recvauthfailed :: nat
  recvivalhmacid :: nat
  recvivalkeyid :: nat
  new_key_notes :: "(u16 \<times> u16) list"
  op_errs :: "u16 list"

text \<open>"is the desired key cached?"\<close>

definition get_send_key :: "bool \<Rightarrow> auth_tcb \<Rightarrow> u16 \<Rightarrow> auth_tcb option" where
  "get_send_key key_mem stcb keyid =
     (if keyid \<noteq> assoc_keyid stcb \<or> assoc_key stcb = None then do {
        skey \<leftarrow> sctp_find_sharedkey (key_heap stcb) (shared_keys stcb) keyid;
        key \<leftarrow> (case skey of None \<Rightarrow> Some None | Some s \<Rightarrow> map_option sk_key (key_heap stcb s));
        Some (stcb\<lparr>assoc_key := sctp_compute_hashkey key_mem (random stcb) (peer_random stcb) key,
                   assoc_keyid := keyid\<rparr>)
      } else Some stcb)"

definition sctp_fill_hmac_digest_m ::
  "hmac_stack \<Rightarrow> bool \<Rightarrow> data_buf list \<Rightarrow> u32 \<Rightarrow> nat option \<Rightarrow> auth_tcb \<Rightarrow> u16 \<Rightarrow> (auth_tcb \<times> data_buf list) option" where
  "sctp_fill_hmac_digest_m stk key_mem m auth_offset auth_ptr stcb keyid =
     (case auth_ptr of
        None \<Rightarrow> Some (stcb, m)
      | Some auth \<Rightarrow> do {
          let digestlen = sctp_get_hmac_digest_len (peer_hmac_id stcb);
          let zeros = replicate (unat (SCTP_SIZE32 digestlen)) 0;
          m1 \<leftarrow> write_chain m (auth + 8) zeros;
          stcb1 \<leftarrow> get_send_key key_mem stcb keyid;
          m2 \<leftarrow> write_chain m1 (auth + 4) (htons_bytes keyid);
          (r, digest, key) \<leftarrow> sctp_compute_hmac_m stk (peer_hmac_id stcb) (assoc_key stcb1) m2 auth_offset (Some zeros);
          m3 \<leftarrow> write_chain m2 (auth + 8) (the digest);
          Some (stcb1\<lparr>assoc_key := key\<rparr>, m3)
        })"

text \<open>The parts of \<^verbatim>\<open>sctp_handle_auth()\<close>: getting the receive key (\<open>None\<close> inside when the identifier is unknown),
  and checking the digest.\<close>

definition get_recv_key :: "bool \<Rightarrow> auth_tcb \<Rightarrow> u16 \<Rightarrow> auth_tcb option option" where
  "get_recv_key key_mem stcb shared_key_id =
     (if recv_key stcb = None \<or> recv_keyid stcb \<noteq> shared_key_id then do {
        skey \<leftarrow> sctp_find_sharedkey (key_heap stcb) (shared_keys stcb) shared_key_id;
        (case skey of
           None \<Rightarrow> Some None
         | Some s \<Rightarrow> do {
             k \<leftarrow> key_heap stcb s;
             Some (Some (stcb\<lparr>
               new_key_notes := (if recv_keyid stcb \<noteq> shared_key_id
                 then new_key_notes stcb @ [(shared_key_id, recv_keyid stcb)] else new_key_notes stcb),
               recv_key := sctp_compute_hashkey key_mem (random stcb) (peer_random stcb) (sk_key k),
               recv_keyid := shared_key_id\<rparr>))
           })
      } else Some (Some stcb))"

definition check_digest ::
  "hmac_stack \<Rightarrow> bytes \<Rightarrow> auth_tcb \<Rightarrow> bytes \<Rightarrow> data_buf list \<Rightarrow> u32 \<Rightarrow> (int \<times> auth_tcb \<times> data_buf list) option" where
  "check_digest stk computed_digest stcb auth m offset =
     (let hmac_id = ntohs_at auth 6; digestlen = sctp_get_hmac_digest_len hmac_id in
      if ucast (ntohs_at auth 2) < 8 + digestlen then
        Some (-1, stcb\<lparr>recvauthfailed := recvauthfailed stcb + 1\<rparr>, m)
      else do {
        digest \<leftarrow> read_at auth 8 digestlen;
        m' \<leftarrow> sctp_zero_m m (offset + 8) (SCTP_SIZE32 digestlen);
        (r, computed, key) \<leftarrow> sctp_compute_hmac_m stk hmac_id (recv_key stcb) m' offset (Some computed_digest);
        let stcb' = stcb\<lparr>recv_key := key\<rparr>;
        if digest \<noteq> take (unat digestlen) (the computed)
        then Some (-1, stcb'\<lparr>recvauthfailed := recvauthfailed stcb' + 1\<rparr>, m')
        else Some (0, stcb', m')
      })"

definition sctp_handle_auth ::
  "hmac_stack \<Rightarrow> bytes \<Rightarrow> bool \<Rightarrow> bool \<Rightarrow> auth_tcb \<Rightarrow> bytes \<Rightarrow> data_buf list \<Rightarrow> u32 \<Rightarrow>
     (int \<times> auth_tcb \<times> data_buf list) option" where
  "sctp_handle_auth stk computed_digest key_mem err_mem stcb auth m offset =
     (let chunklen = ntohs_at auth 2 in
      if chunklen < 8 then Some (-1, stcb\<lparr>recvauthfailed := recvauthfailed stcb + 1\<rparr>, m)
      else
        let t1 = stcb\<lparr>recvauth := recvauth stcb + 1\<rparr>;
            shared_key_id = ntohs_at auth 4;
            hmac_id = ntohs_at auth 6 in
        if \<not> sctp_auth_is_supported_hmac (local_hmacs t1) hmac_id then
          Some (-1, t1\<lparr>recvivalhmacid := recvivalhmacid t1 + 1,
                       op_errs := (if err_mem then op_errs t1 @ [hmac_id] else op_errs t1)\<rparr>, m)
        else do {
          found \<leftarrow> get_recv_key key_mem t1 shared_key_id;
          (case found of
             None \<Rightarrow> Some (-1, t1\<lparr>recvivalkeyid := recvivalkeyid t1 + 1\<rparr>, m)
           | Some t2 \<Rightarrow> check_digest stk computed_digest t2 auth m offset)
        })"

section \<open>Writing into a chain\<close>

lemma overwrite_length [simp]: "p + length bs \<le> length d \<Longrightarrow> length (overwrite d p bs) = length d"
  by (simp add: overwrite_def)

lemma overwrite_append1: "p + length bs \<le> length d \<Longrightarrow> overwrite (d @ e) p bs = overwrite d p bs @ e"
  by (simp add: overwrite_def)

lemma overwrite_append2: "length d \<le> p \<Longrightarrow> overwrite (d @ e) p bs = d @ overwrite e (p - length d) bs"
  by (simp add: overwrite_def)

lemma overwrite_splice: "p + length bs \<le> length d \<Longrightarrow> length cs = length bs \<Longrightarrow> overwrite (overwrite d p bs) p cs = overwrite d p cs"
  by (simp add: overwrite_def)

lemma drop_overwrite: "q \<le> p \<Longrightarrow> p \<le> length d \<Longrightarrow> drop q (overwrite d p bs) = overwrite (drop q d) (p - q) bs"
  by (simp add: overwrite_def add.commute drop_take)

lemma write_chain_spec:
  "write_chain ms p bs = Some ms' \<Longrightarrow> chain_ok ms \<Longrightarrow> bs \<noteq> [] \<Longrightarrow>
     chain_bytes ms' = overwrite (chain_bytes ms) p bs \<and> chain_ok ms' \<and> p + length bs \<le> length (chain_bytes ms) \<and>
     map (\<lambda>m. length (m_bytes m)) ms' = map (\<lambda>m. length (m_bytes m)) ms"
proof (induction ms p bs arbitrary: ms' rule: write_chain.induct)
  case (2 m ms p bs)
  then show ?case by (fastforce simp: overwrite_append1 overwrite_append2 split: if_splits)
qed (auto split: if_splits)

lemma zero_rest_stop [simp]: "zero_rest off 0 ms = Some ms"
  by (cases ms) simp_all

definition zeroed :: "bytes \<Rightarrow> nat \<Rightarrow> nat \<Rightarrow> bytes" where
  "zeroed d p n = overwrite d p (replicate (min n (length d - p)) 0)"

lemma zeroed_length [simp]: "p \<le> length d \<Longrightarrow> length (zeroed d p n) = length d"
  by (simp add: zeroed_def)

definition lens :: "data_buf list \<Rightarrow> nat list" where
  "lens ms = map (\<lambda>m. length (m_bytes m)) ms"

lemma lens_chain_ok: "lens ms' = lens ms \<Longrightarrow> chain_ok ms \<Longrightarrow> chain_ok ms'"
  unfolding lens_def chain_ok_def
  by (metis (mono_tags, lifting) imageE image_eqI list.set_map)

lemma lens_eq_Nil: "lens ms' = lens ms \<Longrightarrow> ms' = [] \<longleftrightarrow> ms = []"
  by (auto simp: lens_def)

lemma zero_at_Some: "unat off + unat n \<le> length d \<Longrightarrow> zero_at d off n = Some (overwrite d (unat off) (replicate (unat n) 0))"
  by (simp add: zero_at_def)

lemma zero_rest_0:
  assumes "chain_ok ms"
  shows "\<exists>ms'. zero_rest 0 sz ms = Some ms' \<and> chain_bytes ms' = zeroed (chain_bytes ms) 0 (unat sz) \<and> lens ms' = lens ms"
  using assms
proof (induction ms arbitrary: sz)
  case Nil
  then show ?case by (simp add: zeroed_def overwrite_def)
next
  case (Cons m ms)
  let ?b = "m_bytes m"
  have n: "unat (SCTP_BUF_LEN m) = length ?b" using Cons.prems by (simp add: unat_buf_len)
  show ?case
  proof (cases "sz > SCTP_BUF_LEN m")
    case True
    then have u: "unat (sz - SCTP_BUF_LEN m) = unat sz - length ?b" "length ?b < unat sz" "sz \<noteq> 0"
      using n unat_sub [of "SCTP_BUF_LEN m" sz] by (auto simp: word_less_nat_alt word_le_nat_alt)
    obtain ms' where ms': "zero_rest 0 (sz - SCTP_BUF_LEN m) ms = Some ms'"
      "chain_bytes ms' = zeroed (chain_bytes ms) 0 (unat sz - length ?b)" "lens ms' = lens ms"
      using Cons.IH [of "sz - SCTP_BUF_LEN m"] Cons.prems u by auto
    have "min (unat sz) (length ?b + length (chain_bytes ms)) =
        length ?b + min (unat sz - length ?b) (length (chain_bytes ms))" using u(2) by simp
    then have "replicate (length ?b) 0 @ zeroed (chain_bytes ms) 0 (unat sz - length ?b) =
        zeroed (?b @ chain_bytes ms) 0 (unat sz)"
      by (simp add: zeroed_def overwrite_def replicate_add)
    then show ?thesis
      using ms' True u(3) n by (simp add: zero_at_def overwrite_def lens_def)
  next
    case False
    then have "unat sz \<le> length ?b" using n by (simp add: word_less_nat_alt)
    then show ?thesis
      using False n Cons.prems
      by (cases "sz = 0") (simp_all add: zero_at_def zeroed_def overwrite_def lens_def)
  qed
qed

lemma zero_rest_first:
  assumes "chain_ok (m # ms)" "unat off < length (m_bytes m)" "sz \<noteq> 0"
  shows "if off = 0 \<or> unat off + unat sz \<le> length (m_bytes m)
    then \<exists>ms'. zero_rest off sz (m # ms) = Some ms' \<and>
      chain_bytes ms' = zeroed (chain_bytes (m # ms)) (unat off) (unat sz) \<and> lens ms' = lens (m # ms)
    else zero_rest off sz (m # ms) = None"
proof -
  have n: "unat (SCTP_BUF_LEN m) = length (m_bytes m)" using assms(1) by (simp add: unat_buf_len)
  consider (start) "off = 0" | (inside) "off \<noteq> 0" "unat off + unat sz \<le> length (m_bytes m)"
    | (over) "off \<noteq> 0" "unat off + unat sz > length (m_bytes m)" by linarith
  then show ?thesis
  proof cases
    case start
    then show ?thesis using zero_rest_0 [OF assms(1), of sz] by simp
  next
    case inside
    then have "\<not> sz > SCTP_BUF_LEN m" using n by (simp add: word_less_nat_alt)
    then show ?thesis
      using inside assms(3)
      by (auto simp: zero_at_Some zeroed_def overwrite_append1 min_def lens_def)
  next
    case over
    then have "unat off > 0" by (simp add: unat_gt_0)
    then show ?thesis using over assms(3) n by (auto simp: zero_at_def)
  qed
qed

lemma zero_m_spec:
  assumes "chain_ok ms" "skip_to_offset ms off = (b # bs, o')" "sz \<noteq> 0"
  shows "if o' = 0 \<or> unat o' + unat sz \<le> length (m_bytes b)
    then \<exists>ms'. sctp_zero_m ms off sz = Some ms' \<and>
      chain_bytes ms' = zeroed (chain_bytes ms) (unat off) (unat sz) \<and> lens ms' = lens ms
    else sctp_zero_m ms off sz = None"
proof -
  obtain pre where pre: "ms = pre @ b # bs" "chain_ok (b # bs)" "unat o' < length (m_bytes b)"
    "unat off = length (chain_bytes pre) + unat o'"
    using skip_to_offset_spec [OF assms(1,2)] by (auto simp: chain_bytes_def)
  have "zeroed (chain_bytes ms) (unat off) n = chain_bytes pre @ zeroed (chain_bytes (b # bs)) (unat o') n" for n
    using pre(4) overwrite_append2 [of "chain_bytes pre" "unat off" "chain_bytes (b # bs)"]
    by (simp add: pre(1) zeroed_def chain_bytes_def)
  then show ?thesis
    using zero_rest_first [OF pre(2,3) assms(3)] assms(2)
    by (cases "o' = 0 \<or> unat o' + unat sz \<le> length (m_bytes b)")
      (auto simp: sctp_zero_m_def pre(1) lens_def chain_bytes_def simp del: zero_rest.simps)
qed

section \<open>The digest\<close>

lemma compute_hmac_m_spec:
  assumes "stack_ok stk" "k \<noteq> []" "length k < 2 ^ 29" "20 \<le> length d"
    and "chain_ok ms" "ms \<noteq> []" "length (chain_bytes ms) < 2 ^ 29 - 64" "unat off \<le> length (chain_bytes ms)"
  shows "sctp_compute_hmac_m stk 1 (Some k) ms off (Some d) =
    Some (20, Some (hmac_spec sha1 k (drop (unat off) (chain_bytes ms)) @ drop 20 d), Some (fit_key sha1 k))"
proof -
  obtain k' stk' where sk: "shorten_key 1 stk k = (k', stk')" by (cases "shorten_key 1 stk k")
  note s1 = shorten_key_spec [OF assms(1,3) sk]
  have k': "length k' \<le> 64" "k' \<noteq> []"
    using sha.fit_key_length s1(1) assms(2) sha1_length [of k] by (auto simp: fit_key_def split: if_splits)
  then show ?thesis
    using sctp_hmac_m_spec [OF s1(2) k'(2) _ assms(4-7), of 0 off] assms(6,8) sk s1(1) sha.fit_key_again [of k]
    by (simp add: sctp_compute_hmac_m_def sctp_get_hmac_digest_len_def Let_def)
qed

text \<open>The text that is authenticated: the packet from the AUTH chunk on, with the digest zeroed.\<close>

definition auth_text :: "bytes \<Rightarrow> nat \<Rightarrow> bytes" where
  "auth_text pkt off = zeroed (drop off pkt) 8 20"

text \<open>The 20 bytes to zero start an mbuf or lie inside one.\<close>

definition digest_fits :: "data_buf list \<Rightarrow> u32 \<Rightarrow> bool" where
  "digest_fits ms off \<longleftrightarrow>
     (case skip_to_offset ms off of (b # bs, o') \<Rightarrow> o' = 0 \<or> unat o' + 20 \<le> length (m_bytes b) | _ \<Rightarrow> False)"

definition packet_long :: "data_buf list \<Rightarrow> u32 \<Rightarrow> bool" where
  "packet_long ms off \<longleftrightarrow> chain_ok ms \<and> length (chain_bytes ms) < 2 ^ 29 - 64 \<and> unat off + 28 \<le> length (chain_bytes ms)"

definition packet_ok :: "data_buf list \<Rightarrow> u32 \<Rightarrow> bool" where
  "packet_ok ms off \<longleftrightarrow> chain_ok ms \<and> length (chain_bytes ms) < 2 ^ 29 - 64 \<and>
     unat off + 28 \<le> length (chain_bytes ms) \<and> digest_fits ms (off + 8)"

lemma packet_ok_long: "packet_ok ms off \<longleftrightarrow> packet_long ms off \<and> digest_fits ms (off + 8)"
  by (auto simp: packet_ok_def packet_long_def)

lemma size32_20 [simp]: "SCTP_SIZE32 20 = 20"
  by (simp add: SCTP_SIZE32_def)

lemma unat_off_8:
  assumes "unat (off :: u32) + 28 \<le> n" "n < 2 ^ 29"
  shows "unat (off + 8) = unat off + 8"
  using assms by (simp add: unat_word_ariths)

lemma zero_digest:
  assumes "packet_ok ms off"
  shows "\<exists>ms'. sctp_zero_m ms (off + 8) 20 = Some ms' \<and> chain_ok ms' \<and> ms' \<noteq> [] \<and>
    length (chain_bytes ms') = length (chain_bytes ms) \<and>
    drop (unat off) (chain_bytes ms') = auth_text (chain_bytes ms) (unat off)"
proof -
  obtain b bs o' where sk: "skip_to_offset ms (off + 8) = (b # bs, o')" "o' = 0 \<or> unat o' + 20 \<le> length (m_bytes b)"
    using assms by (auto simp: packet_ok_def digest_fits_def split: prod.splits list.splits)
  have u: "unat (off + 8) = unat off + 8"
    using assms unat_off_8 [of off "length (chain_bytes ms)"] by (simp add: packet_ok_def)
  have le: "unat off + 28 \<le> length (chain_bytes ms)" using assms by (simp add: packet_ok_def)
  obtain ms' where ms': "sctp_zero_m ms (off + 8) 20 = Some ms'"
    "chain_bytes ms' = zeroed (chain_bytes ms) (unat off + 8) 20" "lens ms' = lens ms"
    using zero_m_spec [of ms "off + 8" b bs o' 20] assms sk u by (auto simp: packet_ok_def)
  have "drop (unat off) (chain_bytes ms') = auth_text (chain_bytes ms) (unat off)"
    using le by (simp add: ms'(2) auth_text_def zeroed_def drop_overwrite)
  moreover have "chain_ok ms'" using lens_chain_ok [OF ms'(3)] assms by (simp add: packet_ok_def)
  moreover have "ms' \<noteq> []" using lens_eq_Nil [OF ms'(3)] le by auto
  ultimately show ?thesis using ms' le by auto
qed

lemma zero_digest_unfit:
  assumes "packet_long ms off" "\<not> digest_fits ms (off + 8)"
  shows "sctp_zero_m ms (off + 8) 20 = None"
proof -
  obtain rest o' where sk: "skip_to_offset ms (off + 8) = (rest, o')" by fastforce
  have ok: "chain_ok ms" "unat (off + 8) < length (chain_bytes ms)"
    using assms(1) unat_off_8 [of off "length (chain_bytes ms)"] by (auto simp: packet_long_def)
  then have "rest \<noteq> []" using skip_to_offset_spec [OF ok(1) sk] by (auto simp: chain_bytes_def)
  then obtain b bs where rest: "rest = b # bs" by (cases rest) auto
  show ?thesis using zero_m_spec [OF ok(1) sk [unfolded rest], of 20] assms(2) sk rest by (auto simp: digest_fits_def)
qed

definition digest_good :: "bytes \<Rightarrow> bytes \<Rightarrow> bytes \<Rightarrow> nat \<Rightarrow> bool" where
  "digest_good K auth pkt off \<longleftrightarrow> unat (ntohs_at auth 2) \<ge> 28 \<and>
     take 20 (drop 8 auth) = hmac_spec sha1 K (auth_text pkt off)"

lemma chunk_long: "(ucast (w :: u16) :: u32) < 28 \<longleftrightarrow> unat w < 28"
proof -
  have "unat (ucast w :: u32) = unat w"
    using unsigned_less [where 'a = nat, of w] by (simp add: unsigned_ucast_eq take_bit_nat_eq_self)
  then show ?thesis by (simp add: word_less_nat_alt)
qed

lemma check_digest_spec:
  assumes "stack_ok stk" "20 \<le> length computed" "packet_ok m off" "ntohs_at auth 6 = 1"
    and "recv_key t = Some K" "K \<noteq> []" "length K < 2 ^ 29" "unat (ntohs_at auth 2) \<le> length auth"
  shows "\<exists>t' m'. check_digest stk computed t auth m off =
      Some (if digest_good K auth (chain_bytes m) (unat off) then 0 else -1, t', m') \<and>
    recvauthfailed t' = recvauthfailed t + (if digest_good K auth (chain_bytes m) (unat off) then 0 else 1) \<and>
    recvivalhmacid t' = recvivalhmacid t \<and> recvivalkeyid t' = recvivalkeyid t \<and> recv_keyid t' = recv_keyid t \<and>
    (\<exists>K'. recv_key t' = Some K' \<and> (\<forall>u. hmac_spec sha1 K' u = hmac_spec sha1 K u))"
proof (cases "unat (ntohs_at auth 2) < 28")
  case True
  then show ?thesis
    using assms(4,5) by (auto simp: check_digest_def sctp_get_hmac_digest_len_def chunk_long digest_good_def)
next
  case False
  then have rd: "read_at auth 8 20 = Some (take 20 (drop 8 auth))" using assms(8) by (simp add: read_at_def)
  obtain m' where m': "sctp_zero_m m (off + 8) 20 = Some m'" "chain_ok m'" "m' \<noteq> []"
    "length (chain_bytes m') = length (chain_bytes m)"
    "drop (unat off) (chain_bytes m') = auth_text (chain_bytes m) (unat off)"
    using zero_digest [OF assms(3)] by blast
  have "sctp_compute_hmac_m stk 1 (Some K) m' off (Some computed) =
      Some (20, Some (hmac_spec sha1 K (auth_text (chain_bytes m) (unat off)) @ drop 20 computed), Some (fit_key sha1 K))"
    using compute_hmac_m_spec [OF assms(1,6,7,2) m'(2,3), of off] m'(4,5) assms(3) by (simp add: packet_ok_def)
  then show ?thesis
    using False rd m'(1) assms(4,5) sha.hmac_length sha.fit_key_again [of K]
    by (auto simp: check_digest_def sctp_get_hmac_digest_len_def chunk_long digest_good_def)
qed

lemma check_digest_short:
  "ntohs_at auth 6 = 1 \<Longrightarrow> unat (ntohs_at auth 2) < 28 \<Longrightarrow>
     check_digest stk computed t auth m off = Some (-1, t\<lparr>recvauthfailed := recvauthfailed t + 1\<rparr>, m)"
  by (simp add: check_digest_def sctp_get_hmac_digest_len_def chunk_long)

lemma check_digest_unfit:
  assumes "packet_long m off" "\<not> digest_fits m (off + 8)" "ntohs_at auth 6 = 1" "28 \<le> unat (ntohs_at auth 2)"
  shows "check_digest stk computed t auth m off = None"
  using assms zero_digest_unfit [OF assms(1,2)]
  by (simp add: check_digest_def sctp_get_hmac_digest_len_def chunk_long Let_def split: option.split)

text \<open>Without a key the status of the digest computation is ignored, and the buffer on the stack keeps what it held.\<close>

lemma check_digest_null:
  assumes "packet_ok m off" "ntohs_at auth 6 = 1" "recv_key t = None" "unat (ntohs_at auth 2) \<le> length auth" "28 \<le> unat (ntohs_at auth 2)"
    and "good \<longleftrightarrow> take 20 (drop 8 auth) = take 20 computed"
  shows "\<exists>t' m'. check_digest stk computed t auth m off = Some (if good then 0 else -1, t', m') \<and>
    recvauthfailed t' = recvauthfailed t + (if good then 0 else 1) \<and> recvivalhmacid t' = recvivalhmacid t \<and> recvivalkeyid t' = recvivalkeyid t"
proof -
  obtain m' where m': "sctp_zero_m m (off + 8) 20 = Some m'" using zero_digest [OF assms(1)] by blast
  have rd: "read_at auth 8 20 = Some (take 20 (drop 8 auth))" using assms(4,5) by (simp add: read_at_def)
  show ?thesis
    using assms(2,3,5,6) m' rd by (simp add: check_digest_def sctp_get_hmac_digest_len_def chunk_long sctp_compute_hmac_m_def)
qed

text \<open>The secret a receiver uses for a key identifier: the cached one, or the one computed from the
  shared key and the two random vectors.\<close>

definition fresh_secret :: "auth_tcb \<Rightarrow> bytes option \<Rightarrow> bytes option" where
  "fresh_secret t key = sctp_compute_hashkey True (random t) (peer_random t) key"

definition recv_secret :: "auth_tcb \<Rightarrow> u16 \<Rightarrow> bytes option" where
  "recv_secret t i =
     (if recv_key t = None \<or> recv_keyid t \<noteq> i
      then (case key_map (key_heap t) (shared_keys t) i of None \<Rightarrow> None | Some k \<Rightarrow> fresh_secret t (sk_key k))
      else recv_key t)"

lemma find_key_map:
  assumes "keys_inv h as"
  obtains (none) "sctp_find_sharedkey h as i = Some None" "key_map h as i = None"
  | (key) s k where "sctp_find_sharedkey h as i = Some (Some s)" "h s = Some k" "key_map h as i = Some k"
proof (cases "key_at h as i")
  case None
  then show ?thesis using none find_spec [OF assms, of i] by (simp add: key_map_def)
next
  case (Some s)
  moreover obtain k where "h s = Some k" using key_at_SomeD [OF Some] assms by (auto simp: keys_inv_def)
  ultimately show ?thesis using key [of s k] find_spec [OF assms, of i] by (simp add: key_map_def)
qed

lemma hashkey_Some:
  assumes "r1 = Some (x # xs)"
  shows "\<exists>K. sctp_compute_hashkey True r1 r2 key = Some K \<and> K \<noteq> []"
  using assms by (auto simp: sctp_compute_hashkey_def sctp_get_keylen_def key_bytes_def Let_def)

section \<open>Signing\<close>

lemma write_chain_in:
  assumes "length (chain_bytes pre) \<le> p" "p < length (chain_bytes pre) + length (m_bytes b)"
    "p + length d \<le> length (chain_bytes pre) + length (m_bytes b)"
  shows "write_chain (pre @ b # bs) p d =
    Some (pre @ b\<lparr>m_bytes := overwrite (m_bytes b) (p - length (chain_bytes pre)) d\<rparr> # bs)"
  using assms by (induction pre arbitrary: p) auto

text \<open>A packet whose AUTH chunk at \<open>p\<close> has key identifier \<open>w\<close> and digest \<open>d\<close>.\<close>

definition signed_at :: "bytes \<Rightarrow> nat \<Rightarrow> u16 \<Rightarrow> bytes \<Rightarrow> bytes" where
  "signed_at pkt p w d = overwrite (overwrite pkt (p + 4) (htons_bytes w)) (p + 8) d"

lemma overwrite_nth:
  "p + length bs \<le> length d \<Longrightarrow> i < length d \<Longrightarrow>
     overwrite d p bs ! i = (if p \<le> i \<and> i < p + length bs then bs ! (i - p) else d ! i)"
  by (auto simp: overwrite_def nth_append min_def)

lemma overwrite_swap:
  assumes "p + length bs \<le> q" "q + length cs \<le> length d"
  shows "overwrite (overwrite d q cs) p bs = overwrite (overwrite d p bs) q cs"
  by (rule nth_equalityI) (use assms in \<open>auto simp: overwrite_nth\<close>)

lemma htons_length [simp]: "length (htons_bytes w) = 2"
  by (simp add: htons_bytes_def)

lemma signed_length [simp]: "p + 8 + length d \<le> length pkt \<Longrightarrow> length (signed_at pkt p w d) = length pkt"
  by (simp add: signed_at_def)

lemma signed_again:
  "length d = length d' \<Longrightarrow> p + 8 + length d \<le> length pkt \<Longrightarrow> overwrite (signed_at pkt p w d) (p + 8) d' = signed_at pkt p w d'"
  by (simp add: signed_at_def overwrite_splice)

lemma signed_drop:
  "p + 8 + length d \<le> length pkt \<Longrightarrow> drop p (signed_at pkt p w d) = signed_at (drop p pkt) 0 w d"
  by (simp add: signed_at_def drop_overwrite)

lemma signed_chain:
  assumes "length a \<le> p" "p + 8 + length d \<le> length a + length b"
  shows "signed_at (a @ b @ c) p w d = a @ signed_at b (p - length a) w d @ c"
  using assms by (simp add: signed_at_def overwrite_append1 overwrite_append2)

lemma ntohs_htons: "ntohs_at (xs @ htons_bytes w @ ys) (length xs) = w"
  by (rule bit_word_eqI)
    (auto simp: ntohs_at_def htons_bytes_def nth_append bit_simps)

lemma signed_auth_text:
  assumes "p + 28 \<le> length pkt" "length d = 20"
  shows "auth_text (signed_at pkt p w d) p = drop p (signed_at pkt p w (replicate 20 0))"
proof -
  have "min 20 (length pkt - (p + 8)) = 20" using assms(1) by simp
  then show ?thesis
    using assms signed_again [of d "replicate 20 0" 0 "drop p pkt" w]
    by (simp add: auth_text_def zeroed_def signed_drop)
qed

lemma signed_digest:
  assumes "p + 28 \<le> length pkt" "length d = 20"
  shows "take 20 (drop 8 (drop p (signed_at pkt p w d))) = d"
  using assms by (simp add: signed_at_def overwrite_def)

lemma signed_fields:
  assumes "p + 28 \<le> length pkt" "length d = 20"
  shows "ntohs_at (drop p (signed_at pkt p w d)) 4 = w"
    "ntohs_at (drop p (signed_at pkt p w d)) 2 = ntohs_at (drop p pkt) 2"
    "ntohs_at (drop p (signed_at pkt p w d)) 6 = ntohs_at (drop p pkt) 6"
proof -
  have *: "ntohs_at (signed_at (drop p pkt) 0 w d) 4 = ntohs_at (htons_bytes w) 0"
    using assms by (simp add: ntohs_at_def signed_at_def overwrite_nth)
  show "ntohs_at (drop p (signed_at pkt p w d)) 4 = w"
    using * ntohs_htons [of "[]" w "[]"] assms by (simp add: signed_drop)
  show "ntohs_at (drop p (signed_at pkt p w d)) 2 = ntohs_at (drop p pkt) 2"
    "ntohs_at (drop p (signed_at pkt p w d)) 6 = ntohs_at (drop p pkt) 6"
    using assms by (simp_all add: signed_drop) (simp_all add: ntohs_at_def signed_at_def overwrite_nth)
qed

text \<open>The shared key under an identifier (NULL when there is none), and the secret the sender uses.\<close>

definition shared_key_of :: "auth_tcb \<Rightarrow> u16 \<Rightarrow> bytes option" where
  "shared_key_of t i = (case key_map (key_heap t) (shared_keys t) i of None \<Rightarrow> None | Some k \<Rightarrow> sk_key k)"

definition send_secret :: "auth_tcb \<Rightarrow> u16 \<Rightarrow> bytes option" where
  "send_secret t i =
     (if i \<noteq> assoc_keyid t \<or> assoc_key t = None then fresh_secret t (shared_key_of t i) else assoc_key t)"

text \<open>The AUTH chunk lies inside one mbuf.\<close>

definition chunk_in_mbuf :: "data_buf list \<Rightarrow> nat \<Rightarrow> bool" where
  "chunk_in_mbuf m p \<longleftrightarrow> (\<exists>pre b bs. m = pre @ b # bs \<and> length (chain_bytes pre) \<le> p \<and>
     p + 28 \<le> length (chain_bytes pre) + length (m_bytes b))"

lemma chain_bytes_split: "chain_bytes (pre @ b # bs) = chain_bytes pre @ m_bytes b @ chain_bytes bs"
  by (simp add: chain_bytes_def)

lemma get_send_key_spec:
  assumes "keys_inv (key_heap t) (shared_keys t)" "send_secret t i = Some K"
  shows "get_send_key True t i = Some (t\<lparr>assoc_key := Some K, assoc_keyid := i\<rparr>)"
  using assms(1)
proof (cases rule: find_key_map [where i = i])
  case none
  then show ?thesis using assms(2) by (auto simp: get_send_key_def send_secret_def shared_key_of_def fresh_secret_def)
next
  case (key s k)
  then show ?thesis using assms(2) by (auto simp: get_send_key_def send_secret_def shared_key_of_def fresh_secret_def)
qed

text \<open>The three stores of the signing routine.\<close>

lemma write_signed:
  assumes "chunk_in_mbuf m p" "length z = 20"
  obtains m1 m2 m3 where "write_chain m (p + 8) z = Some m1" "write_chain m1 (p + 4) (htons_bytes w) = Some m2"
    "chain_bytes m2 = signed_at (chain_bytes m) p w z" "lens m2 = lens m"
    "\<And>d. length d = 20 \<Longrightarrow> write_chain m2 (p + 8) d = Some (m3 d) \<and>
      chain_bytes (m3 d) = signed_at (chain_bytes m) p w d \<and> lens (m3 d) = lens m"
proof -
  obtain pre b bs where m: "m = pre @ b # bs" "length (chain_bytes pre) \<le> p"
      "p + 28 \<le> length (chain_bytes pre) + length (m_bytes b)"
    using assms(1) by (auto simp: chunk_in_mbuf_def)
  define q where "q = p - length (chain_bytes pre)"
  have q: "q + 28 \<le> length (m_bytes b)" using m by (auto simp: q_def)
  let ?at = "\<lambda>d. pre @ b\<lparr>m_bytes := signed_at (m_bytes b) q w d\<rparr> # bs"
  have at: "chain_bytes (?at d) = signed_at (chain_bytes m) p w d" "lens (?at d) = lens m" if "length d = 20" for d
    using signed_chain [of "chain_bytes pre" p d "m_bytes b" "chain_bytes bs" w] m q that
    by (simp_all add: chain_bytes_split q_def lens_def)
  have w1: "write_chain m (p + 8) z = Some (pre @ b\<lparr>m_bytes := overwrite (m_bytes b) (q + 8) z\<rparr> # bs)"
    using write_chain_in [of pre "p + 8" b z bs] m assms(2) by (simp add: q_def)
  have w2: "write_chain (pre @ b\<lparr>m_bytes := overwrite (m_bytes b) (q + 8) z\<rparr> # bs) (p + 4) (htons_bytes w) = Some (?at z)"
    using write_chain_in [of pre "p + 4" "b\<lparr>m_bytes := overwrite (m_bytes b) (q + 8) z\<rparr>" "htons_bytes w" bs] m q assms(2)
      overwrite_swap [of "q + 4" "htons_bytes w" "q + 8" z "m_bytes b"]
    by (simp add: q_def signed_at_def)
  have w3: "write_chain (?at z) (p + 8) d = Some (?at d)" if "length d = 20" for d
    using write_chain_in [of pre "p + 8" "b\<lparr>m_bytes := signed_at (m_bytes b) q w z\<rparr>" d bs] m q that assms(2)
      signed_again [of z d q "m_bytes b" w] by (simp add: q_def)
  show thesis using that [OF w1 w2 at [OF assms(2)], of ?at] w3 at by blast
qed

lemma chunk_in_mbufD: "chunk_in_mbuf m p \<Longrightarrow> p + 28 \<le> length (chain_bytes m)"
  by (auto simp: chunk_in_mbuf_def chain_bytes_split)

lemma fill_spec:
  assumes "stack_ok stk" "keys_inv (key_heap t) (shared_keys t)" "peer_hmac_id t = 1"
    and "send_secret t i = Some K" "K \<noteq> []" "length K < 2 ^ 29"
    and "chain_ok m" "length (chain_bytes m) < 2 ^ 29 - 64" "chunk_in_mbuf m (unat off)"
  shows "\<exists>m' d. sctp_fill_hmac_digest_m stk True m off (Some (unat off)) t i =
      Some (t\<lparr>assoc_key := Some (fit_key sha1 K), assoc_keyid := i\<rparr>, m') \<and>
    chain_bytes m' = signed_at (chain_bytes m) (unat off) i d \<and> length d = 20 \<and> lens m' = lens m \<and>
    d = hmac_spec sha1 K (auth_text (chain_bytes m') (unat off))"
proof -
  let ?z = "replicate 20 0 :: bytes"
  note le = chunk_in_mbufD [OF assms(9)]
  obtain m1 m2 m3 where w: "write_chain m (unat off + 8) ?z = Some m1"
    "write_chain m1 (unat off + 4) (htons_bytes i) = Some m2"
    "chain_bytes m2 = signed_at (chain_bytes m) (unat off) i ?z" "lens m2 = lens m"
    "\<And>d. length d = 20 \<Longrightarrow> write_chain m2 (unat off + 8) d = Some (m3 d) \<and>
      chain_bytes (m3 d) = signed_at (chain_bytes m) (unat off) i d \<and> lens (m3 d) = lens m"
    using write_signed [OF assms(9), of ?z i] by (metis length_replicate)
  define d where "d = hmac_spec sha1 K (drop (unat off) (chain_bytes m2))"
  have d: "length d = 20" using sha.hmac_length by (simp add: d_def)
  have ok: "chain_ok m2" "m2 \<noteq> []"
    using lens_chain_ok [OF w(4)] assms(7) lens_eq_Nil [OF w(4)] le by auto
  have h: "sctp_compute_hmac_m stk 1 (Some K) m2 off (Some ?z) = Some (20, Some d, Some (fit_key sha1 K))"
    using compute_hmac_m_spec [OF assms(1,5,6) _ ok, of ?z off] w(3) assms(8) le by (simp add: d_def)
  have "sctp_fill_hmac_digest_m stk True m off (Some (unat off)) t i =
      Some (t\<lparr>assoc_key := Some (fit_key sha1 K), assoc_keyid := i\<rparr>, m3 d)"
    using w(1,2) w(5) [OF d] h get_send_key_spec [OF assms(2,4)] assms(3)
    by (simp add: sctp_fill_hmac_digest_m_def sctp_get_hmac_digest_len_def Let_def)
  moreover have "d = hmac_spec sha1 K (auth_text (chain_bytes (m3 d)) (unat off))"
    using w(3) w(5) [OF d] signed_auth_text [OF le d] by (simp add: d_def)
  ultimately show ?thesis using w(5) [OF d] d by blast
qed

section \<open>Cached secrets\<close>

text \<open>The caches hold the secret of their identifier, possibly already shortened to the length of a digest.\<close>

definition send_cache_ok :: "auth_tcb \<Rightarrow> bool" where
  "send_cache_ok t \<longleftrightarrow> (case assoc_key t of None \<Rightarrow> True
     | Some K \<Rightarrow> \<exists>F. fresh_secret t (shared_key_of t (assoc_keyid t)) = Some F \<and> K \<in> {F, fit_key sha1 F})"

definition recv_cache_ok :: "auth_tcb \<Rightarrow> bool" where
  "recv_cache_ok t \<longleftrightarrow> (case recv_key t of None \<Rightarrow> True
     | Some K \<Rightarrow> key_map (key_heap t) (shared_keys t) (recv_keyid t) \<noteq> None \<and>
         (\<exists>F. fresh_secret t (shared_key_of t (recv_keyid t)) = Some F \<and> K \<in> {F, fit_key sha1 F}))"

lemma fit_key_fit_key [simp]: "fit_key sha1 (fit_key sha1 F) = fit_key sha1 F"
  using sha.fit_key_length [of F] by (simp add: fit_key_def [of _ "fit_key sha1 F"])

lemma fit_key_props: "F \<noteq> [] \<Longrightarrow> length F < 2 ^ 29 \<Longrightarrow> fit_key sha1 F \<noteq> [] \<and> length (fit_key sha1 F) < 2 ^ 29"
  using sha.fit_key_length [of F] sha1_length [of F] by (auto simp: fit_key_def)

lemma send_secret_cached:
  assumes "send_cache_ok t" "fresh_secret t (shared_key_of t i) = Some F" "F \<noteq> []" "length F < 2 ^ 29"
  shows "\<exists>K. send_secret t i = Some K \<and> K \<noteq> [] \<and> length K < 2 ^ 29 \<and> K \<in> {F, fit_key sha1 F}"
  using assms fit_key_props [of F] by (auto simp: send_secret_def send_cache_ok_def split: option.splits if_splits)

lemma recv_secret_cached:
  assumes "recv_cache_ok t" "key_map (key_heap t) (shared_keys t) i \<noteq> None"
    "fresh_secret t (shared_key_of t i) = Some F" "F \<noteq> []" "length F < 2 ^ 29"
  shows "\<exists>K. recv_secret t i = Some K \<and> K \<noteq> [] \<and> length K < 2 ^ 29 \<and> K \<in> {F, fit_key sha1 F}"
  using assms fit_key_props [of F]
  by (auto simp: recv_secret_def recv_cache_ok_def shared_key_of_def split: option.splits if_splits)

lemma hmac_cached: "K \<in> {F, fit_key sha1 F} \<Longrightarrow> hmac_spec sha1 K u = hmac_spec sha1 F u"
  using sha.fit_key_again [of F u] by auto

section \<open>The verdict on a chunk\<close>

text \<open>What the check says of an AUTH chunk. It is refused when it is too short for a digest, or its HMAC or key is unknown. Otherwise the digest is cleared, which
goes wrong when its bytes start inside an mbuf and end in a later one. Then the digest must be the HMAC of the packet; but when the key is not cached and memory for it is refused, it must be
what the buffer on the stack happened to hold.\<close>

definition recv_cached :: "auth_tcb \<Rightarrow> u16 \<Rightarrow> bool" where
  "recv_cached t i \<longleftrightarrow> recv_key t \<noteq> None \<and> recv_keyid t = i"

definition auth_verdict :: "bool \<Rightarrow> bytes \<Rightarrow> auth_tcb \<Rightarrow> bytes \<Rightarrow> data_buf list \<Rightarrow> u32 \<Rightarrow> bool option" where
  "auth_verdict key_mem computed t auth m off =
     (let i = ntohs_at auth 4 in
      if unat (ntohs_at auth 2) < 28 \<or> \<not> sctp_auth_is_supported_hmac (local_hmacs t) (ntohs_at auth 6) \<or>
         \<not> (recv_cached t i \<or> key_map (key_heap t) (shared_keys t) i \<noteq> None) then Some False
      else if \<not> digest_fits m (off + 8) then None
      else Some (take 20 (drop 8 auth) =
        (if key_mem \<or> recv_cached t i then hmac_spec sha1 (the (recv_secret t i)) (auth_text (chain_bytes m) (unat off)) else take 20 computed)))"

lemma get_recv_key_cases:
  assumes "keys_inv (key_heap t) (shared_keys t)" "random t = Some (x # xs)"
  shows "if recv_cached t i \<or> key_map (key_heap t) (shared_keys t) i \<noteq> None
    then \<exists>t' K. get_recv_key key_mem t i = Some (Some t') \<and> recv_secret t i = Some K \<and>
      recv_key t' = (if key_mem \<or> recv_cached t i then Some K else None) \<and>
      recvauthfailed t' = recvauthfailed t \<and> recvivalhmacid t' = recvivalhmacid t \<and> recvivalkeyid t' = recvivalkeyid t
    else get_recv_key key_mem t i = Some None"
proof (cases "recv_cached t i")
  case True
  then show ?thesis by (auto simp: get_recv_key_def recv_cached_def recv_secret_def)
next
  case False
  then have c: "recv_key t = None \<or> recv_keyid t \<noteq> i" by (auto simp: recv_cached_def)
  show ?thesis
    using assms(1)
  proof (cases rule: find_key_map [where i = i])
    case none
    then show ?thesis using c False by (simp add: get_recv_key_def)
  next
    case (key s k)
    then show ?thesis
      using c False hashkey_Some [OF assms(2), of "peer_random t" "sk_key k"]
      by (cases key_mem) (auto simp: get_recv_key_def recv_secret_def fresh_secret_def sctp_compute_hashkey_def [of False] Let_def)
  qed
qed

text \<open>Where the digest is looked at.\<close>

lemma verdict_reached:
  assumes "stack_ok stk" "20 \<le> length computed" "packet_long m off" "unat (ntohs_at auth 2) \<le> length auth" "ntohs_at auth 6 = 1"
    and "recv_secret t (ntohs_at auth 4) = Some K" "recv_key t2 = (if key_mem \<or> recv_cached t (ntohs_at auth 4) then Some K else None)"
    and "K \<noteq> [] \<and> length K < 2 ^ 29"
    and "recv_cached t (ntohs_at auth 4) \<or> key_map (key_heap t) (shared_keys t) (ntohs_at auth 4) \<noteq> None"
    and "sctp_auth_is_supported_hmac (local_hmacs t) (ntohs_at auth 6)"
  shows "case auth_verdict key_mem computed t auth m off of
      None \<Rightarrow> check_digest stk computed t2 auth m off = None
    | Some ok \<Rightarrow> \<exists>t' m'. check_digest stk computed t2 auth m off = Some (if ok then 0 else -1, t', m') \<and>
        recvauthfailed t' + recvivalhmacid t' + recvivalkeyid t' =
          recvauthfailed t2 + recvivalhmacid t2 + recvivalkeyid t2 + (if ok then 0 else 1)"
proof -
  consider (short) "unat (ntohs_at auth 2) < 28" | (unfit) "28 \<le> unat (ntohs_at auth 2)" "\<not> digest_fits m (off + 8)"
    | (fits) "28 \<le> unat (ntohs_at auth 2)" "digest_fits m (off + 8)" by linarith
  then show ?thesis
  proof cases
    case short
    then show ?thesis using check_digest_short [OF assms(5)] by (simp add: auth_verdict_def Let_def)
  next
    case unfit
    then show ?thesis using check_digest_unfit [OF assms(3) _ assms(5)] assms(9,10) by (auto simp: auth_verdict_def Let_def)
  next
    case fits
    have p: "packet_ok m off" using assms(3) fits(2) by (simp add: packet_ok_long)
    have v: "auth_verdict key_mem computed t auth m off = Some (take 20 (drop 8 auth) =
        (if key_mem \<or> recv_cached t (ntohs_at auth 4) then hmac_spec sha1 K (auth_text (chain_bytes m) (unat off)) else take 20 computed))"
      using fits assms(6,9,10) by (auto simp: auth_verdict_def Let_def)
    show ?thesis
    proof (cases "key_mem \<or> recv_cached t (ntohs_at auth 4)")
      case True
      then have "recv_key t2 = Some K" using assms(7) by simp
      from check_digest_spec [OF assms(1,2) p assms(5) this _ _ assms(4)] show ?thesis
        using assms(8) fits(1) True unfolding v by (force simp: digest_good_def)
    next
      case False
      then have "recv_key t2 = None" using assms(7) by simp
      from check_digest_null [OF p assms(5) this assms(4) fits(1) refl, of stk computed] show ?thesis
        using False unfolding v by (auto split: if_splits)
    qed
  qed
qed

lemma handle_auth_spec:
  assumes "stack_ok stk" "20 \<le> length computed" "packet_long m off" "unat (ntohs_at auth 2) \<le> length auth"
    and "keys_inv (key_heap t) (shared_keys t)" "random t = Some (x # xs)"
    and "\<And>l. local_hmacs t = Some l \<Longrightarrow> hmaclist_inv l"
    and "\<And>K. recv_secret t (ntohs_at auth 4) = Some K \<Longrightarrow> K \<noteq> [] \<and> length K < 2 ^ 29"
  shows "case auth_verdict key_mem computed t auth m off of
      None \<Rightarrow> sctp_handle_auth stk computed key_mem err t auth m off = None
    | Some ok \<Rightarrow> \<exists>t' m'. sctp_handle_auth stk computed key_mem err t auth m off = Some (if ok then 0 else -1, t', m') \<and>
        recvauthfailed t' + recvivalhmacid t' + recvivalkeyid t' =
          recvauthfailed t + recvivalhmacid t + recvivalkeyid t + (if ok then 0 else 1)"
proof -
  let ?t = "t\<lparr>recvauth := recvauth t + 1\<rparr>" and ?i = "ntohs_at auth 4"
  let ?known = "recv_cached t ?i \<or> key_map (key_heap t) (shared_keys t) ?i \<noteq> None"
  consider (short) "ntohs_at auth 2 < 8" | (hmac) "\<not> ntohs_at auth 2 < 8"
      "\<not> sctp_auth_is_supported_hmac (local_hmacs t) (ntohs_at auth 6)"
    | (ok) "\<not> ntohs_at auth 2 < 8" "sctp_auth_is_supported_hmac (local_hmacs t) (ntohs_at auth 6)" by blast
  then show ?thesis
  proof cases
    case short
    then have "unat (ntohs_at auth 2) < 28" by (simp add: word_less_nat_alt)
    then show ?thesis using short by (simp add: sctp_handle_auth_def auth_verdict_def)
  next
    case hmac
    then show ?thesis by (simp add: sctp_handle_auth_def auth_verdict_def Let_def)
  next
    case ok
    then have sha: "ntohs_at auth 6 = 1"
      using assms(7) by (auto simp: sctp_auth_is_supported_hmac_def hmaclist_inv_def split: option.splits)
    have same: "recv_secret ?t i = recv_secret t i" "recv_cached ?t i = recv_cached t i" for i
      by (simp_all add: recv_secret_def fresh_secret_def recv_cached_def split: option.split)
    have sel: "key_heap ?t = key_heap t" "shared_keys ?t = shared_keys t" "random ?t = random t" "recvauthfailed ?t = recvauthfailed t"
      "recvivalhmacid ?t = recvivalhmacid t" "recvivalkeyid ?t = recvivalkeyid t" by simp_all
    note g = get_recv_key_cases [of ?t x xs ?i key_mem, unfolded same sel, OF assms(5,6)]
    show ?thesis
    proof (cases ?known)
      case False
      with g have "get_recv_key key_mem ?t ?i = Some None" by (simp only: if_False)
      then show ?thesis using False ok by (simp add: sctp_handle_auth_def auth_verdict_def Let_def)
    next
      case True
      then obtain t2 K where t2: "get_recv_key key_mem ?t ?i = Some (Some t2)" "recv_secret t ?i = Some K"
        "recv_key t2 = (if key_mem \<or> recv_cached t ?i then Some K else None)"
        "recvauthfailed t2 = recvauthfailed t" "recvivalhmacid t2 = recvivalhmacid t" "recvivalkeyid t2 = recvivalkeyid t"
        using g unfolding if_P [OF True] by blast
      have h: "sctp_handle_auth stk computed key_mem err t auth m off = check_digest stk computed t2 auth m off"
        using ok t2(1) by (simp add: sctp_handle_auth_def Let_def)
      show ?thesis
        unfolding h using verdict_reached [OF assms(1-4) sha t2(2,3) assms(8) [OF t2(2)] True ok(2)] by (simp only: t2(4-6))
    qed
  qed
qed

lemma handle_auth_signed:
  assumes "stack_ok stk" "20 \<le> length computed" "packet_long m off" "unat (ntohs_at auth 2) \<le> length auth"
    and "keys_inv (key_heap t) (shared_keys t)" "random t = Some (x # xs)"
    and "local_hmacs t = Some hl" "hmaclist_inv hl" "sctp_auth_is_supported_hmac (local_hmacs t) (ntohs_at auth 6)"
    and "recv_secret t (ntohs_at auth 4) = Some K" "K \<noteq> []" "length K < 2 ^ 29" "28 \<le> unat (ntohs_at auth 2)"
    and "take 20 (drop 8 auth) = hmac_spec sha1 K (auth_text (chain_bytes m) (unat off))"
  shows "if digest_fits m (off + 8) then \<exists>t' m'. sctp_handle_auth stk computed True err t auth m off = Some (0, t', m')
    else sctp_handle_auth stk computed True err t auth m off = None"
proof -
  have "recv_cached t (ntohs_at auth 4) \<or> key_map (key_heap t) (shared_keys t) (ntohs_at auth 4) \<noteq> None"
    using assms(10) by (auto simp: recv_secret_def recv_cached_def split: if_splits option.splits)
  then have "auth_verdict True computed t auth m off = (if digest_fits m (off + 8) then Some True else None)"
    using assms(9,10,13,14) by (simp add: auth_verdict_def Let_def)
  then show ?thesis using handle_auth_spec [OF assms(1-6), of True err] assms(7,8,10-12) by (auto split: if_splits)
qed

section \<open>Theorems\<close>

text \<open>Zeroing a range of a packet: when the range starts at the beginning of an mbuf or ends inside the mbuf
  it starts in, exactly the bytes of the range that lie in the packet become zero and no mbuf changes its length;
  in every other case the routine writes past the data of the first mbuf, because it does not subtract the
  offset from the mbuf's length.\<close>

theorem zero_m_exact:
  assumes "chain_ok ms" "skip_to_offset ms off = (b # bs, o')" "sz \<noteq> 0"
  shows "if o' = 0 \<or> unat o' + unat sz \<le> length (m_bytes b)
    then \<exists>ms'. sctp_zero_m ms off sz = Some ms' \<and>
      chain_bytes ms' = zeroed (chain_bytes ms) (unat off) (unat sz) \<and> lens ms' = lens ms
    else sctp_zero_m ms off sz = None"
  using zero_m_spec [OF assms] .

theorem zero_m_exact_witness:
  "(\<exists>ms'. sctp_zero_m [\<lparr>m_addr = 0, m_bytes = [1, 2, 3]\<rparr>, \<lparr>m_addr = 8, m_bytes = [4, 5]\<rparr>] 1 2 = Some ms' \<and>
     chain_bytes ms' = [1, 0, 0, 4, 5]) \<and>
   sctp_zero_m [\<lparr>m_addr = 0, m_bytes = [1, 2, 3]\<rparr>, \<lparr>m_addr = 8, m_bytes = [4, 5]\<rparr>] 1 3 = None"
  using zero_m_exact [of "[\<lparr>m_addr = 0, m_bytes = [1, 2, 3]\<rparr>, \<lparr>m_addr = 8, m_bytes = [4, 5]\<rparr>]" 1
      "\<lparr>m_addr = 0, m_bytes = [1, 2, 3]\<rparr>" "[\<lparr>m_addr = 8, m_bytes = [4, 5]\<rparr>]" 1 2]
    zero_m_exact [of "[\<lparr>m_addr = 0, m_bytes = [1, 2, 3]\<rparr>, \<lparr>m_addr = 8, m_bytes = [4, 5]\<rparr>]" 1
      "\<lparr>m_addr = 0, m_bytes = [1, 2, 3]\<rparr>" "[\<lparr>m_addr = 8, m_bytes = [4, 5]\<rparr>]" 1 3]
  by (simp add: zeroed_def overwrite_def word_le_nat_alt) blast

text \<open>C15. What checking an incoming AUTH chunk says, for every chunk that lies inside a packet of less than \<open>2 ^ 29 - 64\<close> bytes, with the receiver's own random vector set and keys below
\<open>2 ^ 29\<close> bytes. A chunk that is too short for a digest, or names an HMAC that is not supported or a key that is neither cached nor known, gets -1. Any other chunk whose digest
starts inside an mbuf and ends in a later one makes the code write past the end of that mbuf, so that it has no defined result. Otherwise the result is 0 if the chunk carries the HMAC of
the packet from the chunk on, computed with the digest zeroed under the secret of the key, and -1 if not; but when the secret is not cached and memory for it is refused, the digest is compared with what the buffer on the stack held before. With -1
exactly one failure counter is incremented, with 0 none.\<close>

theorem handle_auth_exact:
  assumes "stack_ok stk" "20 \<le> length computed" "packet_long m off" "unat (ntohs_at auth 2) \<le> length auth"
    and "keys_inv (key_heap t) (shared_keys t)" "random t = Some (x # xs)"
    and "\<And>l. local_hmacs t = Some l \<Longrightarrow> hmaclist_inv l"
    and "\<And>K. recv_secret t (ntohs_at auth 4) = Some K \<Longrightarrow> K \<noteq> [] \<and> length K < 2 ^ 29"
  shows "case auth_verdict key_mem computed t auth m off of
      None \<Rightarrow> sctp_handle_auth stk computed key_mem err t auth m off = None
    | Some ok \<Rightarrow> \<exists>t' m'. sctp_handle_auth stk computed key_mem err t auth m off = Some (if ok then 0 else -1, t', m') \<and>
        recvauthfailed t' + recvivalhmacid t' + recvivalkeyid t' =
          recvauthfailed t + recvivalhmacid t + recvivalkeyid t + (if ok then 0 else 1)"
  using handle_auth_spec [OF assms] .

text \<open>An association with key 5, a chunk of 28 bytes in one mbuf, and a digest.\<close>

definition demo_tcb :: "u8 \<Rightarrow> u8 \<Rightarrow> auth_tcb" where
  "demo_tcb r1 r2 = \<lparr>key_heap = [1 \<mapsto> new_sharedkey 5 [7]], shared_keys = [1], random = Some [r1], peer_random = Some [r2],
     assoc_key = None, recv_key = None, active_keyid = 5, assoc_keyid = 0, recv_keyid = 0, notified_free = [],
     local_hmacs = Some \<lparr>max_algo = 1, num_algo = 1, hmac = [1]\<rparr>, peer_hmac_id = 1, recvauth = 0, recvauthfailed = 0,
     recvivalhmacid = 0, recvivalkeyid = 0, new_key_notes = [], op_errs = []\<rparr>"

definition demo_chunk :: "bytes \<Rightarrow> data_buf list" where
  "demo_chunk d = [\<lparr>m_addr = 0, m_bytes = [15, 0, 0, 28, 0, 5, 0, 1] @ d\<rparr>]"

lemma single_packet_ok: "length d = 28 \<Longrightarrow> packet_ok [\<lparr>m_addr = 0, m_bytes = d\<rparr>] 0"
  by (simp add: packet_ok_def digest_fits_def word_le_nat_alt)

lemma demo_chunk_ok: "length d = 20 \<Longrightarrow> packet_ok (demo_chunk d) 0"
  using single_packet_ok [of "[15, 0, 0, 28, 0, 5, 0, 1] @ d"] by (simp add: demo_chunk_def)

lemma demo_fields:
  "ntohs_at (15 # 0 # 0 # 28 # 0 # 5 # 0 # 1 # d) 2 = 28" "ntohs_at (15 # 0 # 0 # 28 # 0 # 5 # 0 # 1 # d) 4 = 5"
  "ntohs_at (15 # 0 # 0 # 28 # 0 # 5 # 0 # 1 # d) 6 = 1"
  by (simp_all add: ntohs_at_def)

lemma demo_keys:
  "keys_inv (key_heap (demo_tcb a b)) (shared_keys (demo_tcb a b))"
  "key_map (key_heap (demo_tcb a b)) (shared_keys (demo_tcb a b)) = [5 \<mapsto> new_sharedkey 5 [7]]"
  by (auto simp: demo_tcb_def keys_inv_def key_map_def key_at_def new_sharedkey_def)

lemma demo_hmacs: "local_hmacs (demo_tcb a b) = Some l \<Longrightarrow> hmaclist_inv l \<and> hmac_ids l = [1]"
  by (auto simp: demo_tcb_def hmaclist_inv_def)

lemma demo_fresh: "fresh_secret (demo_tcb 1 2) (Some [7]) = Some [7, 1, 2]"
  by (simp add: fresh_secret_def demo_tcb_def sctp_compute_hashkey_def sctp_compare_key_def sctp_get_keylen_def
      left_pad_def key_bytes_def)

lemma demo_shared: "sk_key (new_sharedkey 5 [7]) = Some [7]" "shared_key_of (demo_tcb a b) 5 = Some [7]"
  by (simp_all add: shared_key_of_def demo_keys new_sharedkey_def)

lemma demo_secret: "recv_secret (demo_tcb 1 2) 5 = Some [7, 1, 2]"
  by (simp add: recv_secret_def demo_keys demo_shared demo_fresh) (simp add: demo_tcb_def)

definition demo_digest :: bytes where
  "demo_digest = hmac_spec sha1 [7, 1, 2] ([15, 0, 0, 28, 0, 5, 0, 1] @ replicate 20 0)"

lemma demo_digest_length [simp]: "length demo_digest = 20"
  by (simp add: demo_digest_def sha.hmac_length)

lemma demo_text: "length d = 20 \<Longrightarrow> auth_text (chain_bytes (demo_chunk d)) 0 = [15, 0, 0, 28, 0, 5, 0, 1] @ replicate 20 0"
  by (simp add: auth_text_def zeroed_def overwrite_def demo_chunk_def numeral_eq_Suc)

lemma demo_chunk_fields:
  "ntohs_at (chain_bytes (demo_chunk d)) 2 = 28" "ntohs_at (chain_bytes (demo_chunk d)) 4 = 5" "ntohs_at (chain_bytes (demo_chunk d)) 6 = 1"
  "drop 8 (chain_bytes (demo_chunk d)) = d" "length d = 20 \<Longrightarrow> length (chain_bytes (demo_chunk d)) = 28"
  by (simp_all add: demo_chunk_def demo_fields)

theorem handle_auth_exact_witness:
  "(\<exists>t' m'. sctp_handle_auth demo_stack (replicate 32 0) True True (demo_tcb 1 2)
     (chain_bytes (demo_chunk demo_digest)) (demo_chunk demo_digest) 0 = Some (0, t', m')) \<and>
   (\<exists>t' m'. sctp_handle_auth demo_stack (replicate 32 9) False True (demo_tcb 1 2)
     (chain_bytes (demo_chunk (replicate 20 9))) (demo_chunk (replicate 20 9)) 0 = Some (0, t', m'))"
proof -
  have s: "sctp_auth_is_supported_hmac (local_hmacs (demo_tcb 1 2)) 1" "\<not> recv_cached (demo_tcb 1 2) 5" "random (demo_tcb 1 2) = Some [1]"
    by (simp_all add: demo_tcb_def sctp_auth_is_supported_hmac_def recv_cached_def)
  have p: "packet_long (demo_chunk d) 0 \<and> digest_fits (demo_chunk d) (0 + 8)" if "length d = 20" for d
    using demo_chunk_ok [OF that] by (simp only: packet_ok_long)
  have h: "hmac_spec sha1 [7, 1, 2] (auth_text (chain_bytes (demo_chunk demo_digest)) 0) = demo_digest"
    by (simp only: demo_text demo_digest_length) (simp only: demo_digest_def)
  have "auth_verdict True (replicate 32 0) (demo_tcb 1 2) (chain_bytes (demo_chunk demo_digest)) (demo_chunk demo_digest) 0 = Some True"
    using s(1) p [OF demo_digest_length] h by (simp add: auth_verdict_def Let_def demo_chunk_fields demo_keys demo_secret)
  moreover have "auth_verdict False (replicate 32 9) (demo_tcb 1 2) (chain_bytes (demo_chunk (replicate 20 9))) (demo_chunk (replicate 20 9)) 0 = Some True"
    using s(1,2) p [of "replicate 20 9"] by (simp add: auth_verdict_def Let_def demo_chunk_fields demo_keys)
  ultimately show ?thesis
    using handle_auth_exact [OF demo_stack_ok _ conjunct1 [OF p [OF demo_digest_length]], of "replicate 32 0" "chain_bytes (demo_chunk demo_digest)"
        "demo_tcb 1 2" 1 "[]" True True]
      handle_auth_exact [OF demo_stack_ok _ conjunct1 [OF p [of "replicate 20 9"]], of "replicate 32 9" "chain_bytes (demo_chunk (replicate 20 9))"
        "demo_tcb 1 2" 1 "[]" False True] demo_keys demo_hmacs demo_secret s(3)
    by (simp add: demo_chunk_fields) blast
qed

text \<open>C14. What one end signs, the other accepts: the sender and the receiver have each other's random vectors and
  the same shared key under the identifier, their caches are consistent with their keys, memory for keys is not refused, and the receiver
  supports the HMAC. The sender's AUTH chunk lies inside one mbuf, as the stack allocates it. Then signing changes only the key identifier and the digest of the
  AUTH chunk, and the cache stays consistent. A receiver whose packet carries the signed bytes from the AUTH chunk on returns 0, in whatever way the
  packet is split over mbufs, provided the digest starts an mbuf or lies inside one; for every other split clearing the digest
  writes past the end of an mbuf and there is no defined result.\<close>

theorem sign_then_verify:
  assumes "stack_ok stk" "stack_ok stk'" "20 \<le> length computed"
    and "keys_inv (key_heap s) (shared_keys s)" "keys_inv (key_heap r) (shared_keys r)"
    and "random s = Some (x # xs)" "peer_random s = Some (y # ys)" "random r = peer_random s" "peer_random r = random s"
    and "key_map (key_heap r) (shared_keys r) i \<noteq> None" "shared_key_of s i = shared_key_of r i"
    and "send_cache_ok s" "recv_cache_ok r" "length (the (fresh_secret s (shared_key_of s i))) < 2 ^ 29"
    and "peer_hmac_id s = 1" "local_hmacs r = Some hl" "hmaclist_inv hl" "1 \<in> set (hmac_ids hl)"
    and "chain_ok m" "length (chain_bytes m) < 2 ^ 29 - 64" "chunk_in_mbuf m (unat off)"
    and "ntohs_at (drop (unat off) (chain_bytes m)) 2 = 28" "ntohs_at (drop (unat off) (chain_bytes m)) 6 = 1"
  shows "\<exists>s' m' d. sctp_fill_hmac_digest_m stk True m off (Some (unat off)) s i = Some (s', m') \<and> send_cache_ok s' \<and>
    chain_bytes m' = signed_at (chain_bytes m) (unat off) i d \<and> length d = 20 \<and>
    (\<forall>mr offr. packet_long mr offr \<and> drop (unat offr) (chain_bytes mr) = drop (unat off) (chain_bytes m') \<longrightarrow>
      (if digest_fits mr (offr + 8)
       then \<exists>r' mr'. sctp_handle_auth stk' computed True err r (drop (unat offr) (chain_bytes mr)) mr offr = Some (0, r', mr')
       else sctp_handle_auth stk' computed True err r (drop (unat offr) (chain_bytes mr)) mr offr = None))"
proof -
  obtain F where F: "fresh_secret s (shared_key_of s i) = Some F" "F \<noteq> []" "length F < 2 ^ 29"
    using hashkey_Some [OF assms(6), of "peer_random s" "shared_key_of s i"] assms(14) by (auto simp: fresh_secret_def)
  have Fr: "fresh_secret r (shared_key_of r i) = Some F"
    using F(1) assms(8,9,11) compute_hashkey_swap [of True "random s"] by (simp add: fresh_secret_def)
  obtain K where K: "send_secret s i = Some K" "K \<noteq> []" "length K < 2 ^ 29" "K \<in> {F, fit_key sha1 F}"
    using send_secret_cached [OF assms(12) F] by blast
  obtain Kr where Kr: "recv_secret r i = Some Kr" "Kr \<noteq> []" "length Kr < 2 ^ 29" "Kr \<in> {F, fit_key sha1 F}"
    using recv_secret_cached [OF assms(13,10) Fr F(2,3)] by blast
  note le = chunk_in_mbufD [OF assms(21)]
  let ?s = "s\<lparr>assoc_key := Some (fit_key sha1 K), assoc_keyid := i\<rparr>"
  obtain m' d where f: "sctp_fill_hmac_digest_m stk True m off (Some (unat off)) s i = Some (?s, m')"
    "chain_bytes m' = signed_at (chain_bytes m) (unat off) i d" "length d = 20"
    "d = hmac_spec sha1 K (auth_text (chain_bytes m') (unat off))"
    using fill_spec [OF assms(1,4,15) K(1-3) assms(19-21)] by blast
  have cache: "send_cache_ok ?s"
    using F(1) K(4) by (auto simp: send_cache_ok_def fresh_secret_def shared_key_of_def)
  have "if digest_fits mr (offr + 8)
       then \<exists>r' mr'. sctp_handle_auth stk' computed True err r (drop (unat offr) (chain_bytes mr)) mr offr = Some (0, r', mr')
       else sctp_handle_auth stk' computed True err r (drop (unat offr) (chain_bytes mr)) mr offr = None"
    if p: "packet_long mr offr" and eq: "drop (unat offr) (chain_bytes mr) = drop (unat off) (chain_bytes m')" for mr offr
  proof -
    let ?auth = "drop (unat offr) (chain_bytes mr)"
    have fl: "ntohs_at ?auth 4 = i" "ntohs_at ?auth 2 = 28" "ntohs_at ?auth 6 = 1"
      using signed_fields [OF le f(3)] assms(22,23) by (simp_all add: eq f(2))
    have "take 20 (drop 8 ?auth) = d" using signed_digest [OF le f(3), of i] by (simp only: eq f(2))
    also have "\<dots> = hmac_spec sha1 Kr (auth_text (chain_bytes m') (unat off))"
      unfolding hmac_cached [OF Kr(4)] hmac_cached [OF K(4), symmetric] by (rule f(4))
    also have "auth_text (chain_bytes m') (unat off) = auth_text (chain_bytes mr) (unat offr)"
      by (simp only: auth_text_def eq)
    finally have "take 20 (drop 8 ?auth) = hmac_spec sha1 Kr (auth_text (chain_bytes mr) (unat offr))" .
    moreover have "sctp_auth_is_supported_hmac (local_hmacs r) 1" using assms(16,18) by (simp add: sctp_auth_is_supported_hmac_def)
    moreover have "unat (ntohs_at ?auth 2) \<le> length ?auth" using p fl(2) by (auto simp: packet_long_def)
    moreover have "random r = Some (y # ys)" using assms(7,8) by simp
    ultimately show ?thesis
      using handle_auth_signed [OF assms(2,3) p _ assms(5)] fl Kr assms(16,17) by simp
  qed
  then show ?thesis using f(1-3) cache by blast
qed

theorem sign_then_verify_witness:
  "\<exists>s' m' r' mr'. sctp_fill_hmac_digest_m demo_stack True (demo_chunk (replicate 20 3)) 0 (Some 0) (demo_tcb 1 2) 5 =
       Some (s', m') \<and>
     sctp_handle_auth demo_stack (replicate 32 0) True True (demo_tcb 2 1) (chain_bytes m')
       [\<lparr>m_addr = 0, m_bytes = chain_bytes m'\<rparr>] 0 = Some (0, r', mr')"
proof -
  let ?m = "demo_chunk (replicate 20 3)"
  have "chunk_in_mbuf ?m 0"
    unfolding chunk_in_mbuf_def demo_chunk_def by (rule exI [of _ "[]"]) simp
  moreover have "shared_key_of (demo_tcb 1 2) 5 = shared_key_of (demo_tcb 2 1) 5" by (simp add: demo_shared)
  moreover have "send_cache_ok (demo_tcb 1 2)" "recv_cache_ok (demo_tcb 2 1)"
    by (simp_all add: send_cache_ok_def recv_cache_ok_def demo_tcb_def)
  moreover have "length (the (fresh_secret (demo_tcb 1 2) (shared_key_of (demo_tcb 1 2) 5))) < 2 ^ 29"
    by (simp add: demo_shared demo_fresh)
  moreover have "chain_ok ?m" "length (chain_bytes ?m) = 28" by (simp_all add: demo_chunk_def)
  moreover have "ntohs_at (chain_bytes ?m) 2 = 28" "ntohs_at (chain_bytes ?m) 6 = 1"
    by (simp_all add: demo_chunk_def demo_fields)
  moreover have "random (demo_tcb a b) = Some [a]" "peer_random (demo_tcb a b) = Some [b]" "peer_hmac_id (demo_tcb a b) = 1"
    "local_hmacs (demo_tcb a b) = Some \<lparr>max_algo = 1, num_algo = 1, hmac = [1]\<rparr>" for a b
    by (simp_all add: demo_tcb_def)
  ultimately have "\<exists>s' m' d. sctp_fill_hmac_digest_m demo_stack True ?m 0 (Some 0) (demo_tcb 1 2) 5 = Some (s', m') \<and> send_cache_ok s' \<and>
      chain_bytes m' = signed_at (chain_bytes ?m) 0 5 d \<and> length d = 20 \<and>
      (\<forall>mr offr. packet_long mr offr \<and> drop (unat offr) (chain_bytes mr) = chain_bytes m' \<longrightarrow>
        (if digest_fits mr (offr + 8)
         then \<exists>r' mr'. sctp_handle_auth demo_stack (replicate 32 0) True True (demo_tcb 2 1) (drop (unat offr) (chain_bytes mr)) mr offr = Some (0, r', mr')
         else sctp_handle_auth demo_stack (replicate 32 0) True True (demo_tcb 2 1) (drop (unat offr) (chain_bytes mr)) mr offr = None))"
    using sign_then_verify [OF demo_stack_ok demo_stack_ok, of "replicate 32 0" "demo_tcb 1 2" "demo_tcb 2 1" 1 "[]" 2 "[]" 5
        "\<lparr>max_algo = 1, num_algo = 1, hmac = [1]\<rparr>" ?m 0 True] demo_keys demo_hmacs [of 2 1]
    by simp
  then obtain s' m' d where "sctp_fill_hmac_digest_m demo_stack True ?m 0 (Some 0) (demo_tcb 1 2) 5 = Some (s', m')"
    "chain_bytes m' = signed_at (chain_bytes ?m) 0 5 d" "length d = 20"
    "\<And>mr offr. packet_long mr offr \<Longrightarrow> digest_fits mr (offr + 8) \<Longrightarrow> drop (unat offr) (chain_bytes mr) = chain_bytes m' \<Longrightarrow>
      (\<exists>r' mr'. sctp_handle_auth demo_stack (replicate 32 0) True True (demo_tcb 2 1)
        (drop (unat offr) (chain_bytes mr)) mr offr = Some (0, r', mr'))"
    by metis
  moreover from this have "length (chain_bytes m') = 28" by (simp add: demo_chunk_def)
  ultimately show ?thesis
    using single_packet_ok [of "chain_bytes m'"] by (metis packet_ok_long append_Nil2 chain_simps(1,2) data_buf.select_convs(2) drop_0 unat_0)
qed

end
