(* ===== verification/Callout.thy ===== *)
theory Callout
  imports Tailq
begin

text \<open>
  The timers of \<^verbatim>\<open>netinet/sctp_callout.c\<close>: a queue of pending callouts and the tick handler that fires the
  due ones. A timer is named by its address. The handler releases the lock while a callout function runs; what
  happens then (the function itself, and other threads) is a parameter, a sequence of timer operations that may
  depend on the function, its argument and the state. \<^verbatim>\<open>int\<close> arithmetic that leaves the range of a 32-bit
  \<^verbatim>\<open>int\<close> is undefined in C and has no result here. The lock itself is not modelled.
\<close>

section \<open>State and operations\<close>

definition in_int :: "int \<Rightarrow> bool" where
  "in_int i \<longleftrightarrow> - (2 ^ 31) \<le> i \<and> i < 2 ^ 31"

definition add_int :: "int \<Rightarrow> int \<Rightarrow> int option" where
  "add_int i j = (if in_int (i + j) then Some (i + j) else None)"

abbreviation (input) SCTP_CALLOUT_ACTIVE :: u32 where "SCTP_CALLOUT_ACTIVE \<equiv> 0x0002"
abbreviation (input) SCTP_CALLOUT_PENDING :: u32 where "SCTP_CALLOUT_PENDING \<equiv> 0x0004"

record sctp_callout =
  c_time :: int
  c_arg :: "nat option"
  c_func :: "nat option"
  c_flags :: u32

record callout_base =
  callqueue :: "nat tailq"
  ticks :: int
  sctp_os_timer_next :: "nat option"
  timer :: "nat \<Rightarrow> sctp_callout"

definition sctp_get_tick_count :: "callout_base \<Rightarrow> int" where
  "sctp_get_tick_count s = ticks s"

definition sctp_os_timer_init :: "callout_base \<Rightarrow> nat \<Rightarrow> callout_base" where
  "sctp_os_timer_init s c =
     s\<lparr>timer := (timer s)(c := \<lparr>c_time = 0, c_arg = None, c_func = None, c_flags = 0\<rparr>),
       callqueue := unlink (callqueue s) c\<rparr>"

definition SCTP_OS_TIMER_PENDING :: "callout_base \<Rightarrow> nat \<Rightarrow> bool" where
  "SCTP_OS_TIMER_PENDING s c \<longleftrightarrow> c_flags (timer s c) AND SCTP_CALLOUT_PENDING \<noteq> 0"

definition SCTP_OS_TIMER_ACTIVE :: "callout_base \<Rightarrow> nat \<Rightarrow> bool" where
  "SCTP_OS_TIMER_ACTIVE s c \<longleftrightarrow> c_flags (timer s c) AND SCTP_CALLOUT_ACTIVE \<noteq> 0"

definition SCTP_OS_TIMER_DEACTIVATE :: "callout_base \<Rightarrow> nat \<Rightarrow> callout_base" where
  "SCTP_OS_TIMER_DEACTIVATE s c =
     s\<lparr>timer := (timer s)(c := (timer s c)\<lparr>c_flags := c_flags (timer s c) AND NOT SCTP_CALLOUT_ACTIVE\<rparr>)\<rparr>"

text \<open>Taking a pending timer off the queue, keeping the handler's next timer valid.\<close>

definition unqueue :: "callout_base \<Rightarrow> nat \<Rightarrow> callout_base option" where
  "unqueue s c = do {
     let nxt = (if sctp_os_timer_next s = Some c then TAILQ_NEXT (callqueue s) c else sctp_os_timer_next s);
     q \<leftarrow> TAILQ_REMOVE (callqueue s) c;
     Some (s\<lparr>sctp_os_timer_next := nxt, callqueue := q\<rparr>)
   }"

definition sctp_os_timer_start ::
  "callout_base \<Rightarrow> nat option \<Rightarrow> int \<Rightarrow> nat option \<Rightarrow> nat option \<Rightarrow> callout_base option" where
  "sctp_os_timer_start s cp to_ticks ftn arg =
     (case (cp, ftn) of
        (Some c, Some f) \<Rightarrow> do {
          s1 \<leftarrow> (if SCTP_OS_TIMER_PENDING s c then unqueue s c else Some s);
          t \<leftarrow> add_int (ticks s1) (if to_ticks \<le> 0 then 1 else to_ticks);
          Some (s1\<lparr>timer := (timer s1)(c := \<lparr>c_time = t, c_arg = arg, c_func = ftn,
                                            c_flags = SCTP_CALLOUT_ACTIVE OR SCTP_CALLOUT_PENDING\<rparr>),
                   callqueue := TAILQ_INSERT_TAIL (callqueue s1) c\<rparr>)
        }
      | _ \<Rightarrow> Some s)"

definition sctp_os_timer_stop :: "callout_base \<Rightarrow> nat \<Rightarrow> (int \<times> callout_base) option" where
  "sctp_os_timer_stop s c =
     (if \<not> SCTP_OS_TIMER_PENDING s c then Some (0, SCTP_OS_TIMER_DEACTIVATE s c)
      else do {
        s' \<leftarrow> unqueue (s\<lparr>timer := (timer s)(c := (timer s c)\<lparr>c_flags :=
                 c_flags (timer s c) AND NOT (SCTP_CALLOUT_ACTIVE OR SCTP_CALLOUT_PENDING)\<rparr>)\<rparr>) c;
        Some (1, s')
      })"

text \<open>What runs while the handler has released the lock.\<close>

datatype timer_op = Start nat int nat "nat option" | Stop nat

fun timer_op_step :: "timer_op \<Rightarrow> callout_base \<Rightarrow> callout_base option" where
  "timer_op_step (Start c to_ticks f arg) s = sctp_os_timer_start s (Some c) to_ticks (Some f) arg"
| "timer_op_step (Stop c) s = map_option snd (sctp_os_timer_stop s c)"

fun timer_ops :: "timer_op list \<Rightarrow> callout_base \<Rightarrow> callout_base option" where
  "timer_ops [] s = Some s"
| "timer_ops (x # xs) s = Option.bind (timer_op_step x s) (timer_ops xs)"

type_synonym acts = "nat \<Rightarrow> nat option \<Rightarrow> callout_base \<Rightarrow> timer_op list"

text \<open>The loop of the tick handler, with the timers it fires; \<open>None\<close> also when the fuel ends.\<close>

fun tick_loop :: "nat \<Rightarrow> acts \<Rightarrow> callout_base \<Rightarrow> nat option \<Rightarrow> (callout_base \<times> nat list) option" where
  "tick_loop fuel acts s None = Some (s\<lparr>sctp_os_timer_next := None\<rparr>, [])"
| "tick_loop 0 acts s (Some c) = None"
| "tick_loop (Suc fuel) acts s (Some c) =
     (if c_time (timer s c) \<le> ticks s then do {
        let nxt = TAILQ_NEXT (callqueue s) c;
        q \<leftarrow> TAILQ_REMOVE (callqueue s) c;
        f \<leftarrow> c_func (timer s c);
        let s1 = s\<lparr>sctp_os_timer_next := nxt, callqueue := q,
          timer := (timer s)(c := (timer s c)\<lparr>c_flags := c_flags (timer s c) AND NOT SCTP_CALLOUT_PENDING\<rparr>)\<rparr>;
        s2 \<leftarrow> timer_ops (acts f (c_arg (timer s c)) s1) s1;
        (s', fired) \<leftarrow> tick_loop fuel acts s2 (sctp_os_timer_next s2);
        Some (s', c # fired)
      } else tick_loop fuel acts s (TAILQ_NEXT (callqueue s) c))"

definition sctp_handle_tick :: "nat \<Rightarrow> acts \<Rightarrow> callout_base \<Rightarrow> int \<Rightarrow> (callout_base \<times> nat list) option" where
  "sctp_handle_tick fuel acts s delta = do {
     t \<leftarrow> add_int (ticks s) delta;
     tick_loop fuel acts (s\<lparr>ticks := t\<rparr>) (TAILQ_FIRST (callqueue s))
   }"

text \<open>The timer thread: one element of the list per sleep, telling whether the thread is asked to exit;
  \<open>hz\<close> is 1000, so that ten milliseconds are ten ticks.\<close>

definition MSEC_TO_TICKS :: "int \<Rightarrow> int" where
  "MSEC_TO_TICKS x = (let hz = 1000 in if hz = 1000 then x else (x * hz + 999) div 1000)"

fun user_sctp_timer_iterate :: "nat \<Rightarrow> acts \<Rightarrow> bool list \<Rightarrow> callout_base \<Rightarrow> callout_base option" where
  "user_sctp_timer_iterate fuel acts [] s = Some s"
| "user_sctp_timer_iterate fuel acts (should_exit # rest) s =
     (if should_exit then Some s
      else do {
        (s', fired) \<leftarrow> sctp_handle_tick fuel acts s (MSEC_TO_TICKS 10);
        user_sctp_timer_iterate fuel acts rest s'
      })"

section \<open>The queue invariant\<close>

definition callq :: "callout_base \<Rightarrow> nat list \<Rightarrow> bool" where
  "callq s xs \<longleftrightarrow> tailq_rep (callqueue s) xs \<and> (\<forall>c. SCTP_OS_TIMER_PENDING s c \<longleftrightarrow> c \<in> set xs) \<and>
     (\<forall>c \<in> set xs. c_func (timer s c) \<noteq> None)"

definition due :: "callout_base \<Rightarrow> nat \<Rightarrow> bool" where
  "due s c \<longleftrightarrow> c_time (timer s c) \<le> ticks s"

text \<open>Where the handler stands: everything before the next timer to look at is not due.\<close>

definition settled :: "('a \<Rightarrow> bool) \<Rightarrow> 'a option \<Rightarrow> 'a list \<Rightarrow> bool" where
  "settled D nxt xs \<longleftrightarrow> (case nxt of None \<Rightarrow> \<forall>x \<in> set xs. \<not> D x
     | Some n \<Rightarrow> \<exists>pre post. xs = pre @ n # post \<and> (\<forall>x \<in> set pre. \<not> D x))"

lemma settled_None [simp]: "settled D None xs \<longleftrightarrow> (\<forall>x \<in> set xs. \<not> D x)"
  by (simp add: settled_def)

lemma settledI: "(\<And>x. x \<in> set pre \<Longrightarrow> \<not> D x) \<Longrightarrow> settled D (Some n) (pre @ n # post)"
  by (auto simp: settled_def)

lemma settledE:
  assumes "settled D (Some n) xs"
  obtains pre post where "xs = pre @ n # post" "\<And>x. x \<in> set pre \<Longrightarrow> \<not> D x"
  using assms by (auto simp: settled_def)

lemma settled_append: "settled D nxt xs \<Longrightarrow> \<not> D c \<Longrightarrow> settled D nxt (xs @ [c])"
  by (cases nxt) (auto elim!: settledE intro!: settledI)

lemma settled_cong: "settled D nxt xs \<Longrightarrow> (\<And>x. x \<in> set xs \<Longrightarrow> D' x \<Longrightarrow> D x) \<Longrightarrow> settled D' nxt xs"
  by (cases nxt) (auto elim!: settledE intro!: settledI)

lemma settled_remove:
  assumes "settled D nxt xs" "distinct xs" "c \<in> set xs"
  shows "settled D (if nxt = Some c then next_in xs c else nxt) (remove1 c xs)"
proof (cases nxt)
  case None
  then show ?thesis using assms by (simp add: settled_def)
next
  case (Some n)
  then obtain pre post where xs: "xs = pre @ n # post" "\<forall>x \<in> set pre. \<not> D x"
    using assms(1) by (auto simp: settled_def)
  show ?thesis
  proof (cases "n = c")
    case True
    then show ?thesis
      using xs Some assms(2) by (cases post) (auto simp: next_in_split remove1_append intro!: settledI)
  next
    case False
    then show ?thesis
      using xs Some assms(2,3) by (auto simp: remove1_append intro!: settledI dest: notin_set_remove1)
  qed
qed

section \<open>The operations\<close>

lemma flag_facts [simp]:
  "(w AND - 7) AND 4 = (0 :: u32)" "(w AND - 5) AND 4 = (0 :: u32)" "(w AND - 3) AND 4 = (w AND 4 :: u32)"
  "(w AND - 7) AND 2 = (0 :: u32)" "(w AND - 3) AND 2 = (0 :: u32)"
  by (simp_all add: and.assoc)

lemma callqD: "callq s xs \<Longrightarrow> tailq_rep (callqueue s) xs" "callq s xs \<Longrightarrow> distinct xs"
  by (auto simp: callq_def dest: tq.repr_distinct)

lemma unqueue_ok:
  assumes "tailq_rep (callqueue s) xs" "c \<in> set xs"
  shows "\<exists>q. unqueue s c = Some (s\<lparr>sctp_os_timer_next :=
      (if sctp_os_timer_next s = Some c then next_in xs c else sctp_os_timer_next s), callqueue := q\<rparr>) \<and>
    tailq_rep q (remove1 c xs)"
  using tq.rem_repr [OF assms] tq.next_repr [OF assms] by (auto simp: unqueue_def Let_def)

lemma start_ok:
  assumes "callq s xs" "in_int (ticks s + (if to_ticks \<le> 0 then 1 else to_ticks))"
  shows "\<exists>s'. sctp_os_timer_start s (Some c) to_ticks (Some f) arg = Some s' \<and> callq s' (remove1 c xs @ [c]) \<and>
    ticks s' = ticks s \<and> (\<forall>x. x \<noteq> c \<longrightarrow> timer s' x = timer s x) \<and>
    timer s' c = \<lparr>c_time = ticks s + (if to_ticks \<le> 0 then 1 else to_ticks), c_arg = arg, c_func = Some f, c_flags = 6\<rparr> \<and>
    sctp_os_timer_next s' =
      (if c \<in> set xs \<and> sctp_os_timer_next s = Some c then next_in xs c else sctp_os_timer_next s)"
proof -
  have d: "distinct xs" and r: "tailq_rep (callqueue s) xs" using callqD [OF assms(1)] by auto
  obtain q where q: "(if SCTP_OS_TIMER_PENDING s c then unqueue s c else Some s) = Some (s\<lparr>sctp_os_timer_next :=
      (if c \<in> set xs \<and> sctp_os_timer_next s = Some c then next_in xs c else sctp_os_timer_next s), callqueue := q\<rparr>)"
    "tailq_rep q (remove1 c xs)"
  proof (cases "c \<in> set xs")
    case True
    then show ?thesis using that unqueue_ok [OF r True] assms(1) by (auto simp: callq_def)
  next
    case False
    then show ?thesis using that [of "callqueue s"] r assms(1) by (simp add: callq_def remove1_idem)
  qed
  have "tailq_rep (TAILQ_INSERT_TAIL q c) (remove1 c xs @ [c])"
    using tq.ins_tail_repr(1) [OF q(2), of c] d by simp
  then show ?thesis
    using assms q(1) d
    by (auto simp: sctp_os_timer_start_def add_int_def callq_def SCTP_OS_TIMER_PENDING_def)
qed

lemma stop_ok:
  assumes "callq s xs"
  shows "\<exists>s'. sctp_os_timer_stop s c = Some (if c \<in> set xs then 1 else 0, s') \<and> callq s' (remove1 c xs) \<and>
    ticks s' = ticks s \<and> (\<forall>x. x \<noteq> c \<longrightarrow> timer s' x = timer s x) \<and> c_time (timer s' c) = c_time (timer s c) \<and>
    \<not> SCTP_OS_TIMER_PENDING s' c \<and> \<not> SCTP_OS_TIMER_ACTIVE s' c \<and>
    sctp_os_timer_next s' =
      (if c \<in> set xs \<and> sctp_os_timer_next s = Some c then next_in xs c else sctp_os_timer_next s)"
proof (cases "c \<in> set xs")
  case True
  let ?s = "s\<lparr>timer := (timer s)(c := (timer s c)\<lparr>c_flags := c_flags (timer s c) AND NOT 6\<rparr>)\<rparr>"
  have d: "distinct xs" and r: "tailq_rep (callqueue ?s) xs" using callqD [OF assms] by auto
  show ?thesis
    using unqueue_ok [OF r True] True assms d
    by (auto simp: sctp_os_timer_stop_def callq_def SCTP_OS_TIMER_PENDING_def SCTP_OS_TIMER_ACTIVE_def)
next
  case False
  show ?thesis
    using False assms
    by (auto simp: sctp_os_timer_stop_def callq_def SCTP_OS_TIMER_PENDING_def SCTP_OS_TIMER_DEACTIVATE_def
        SCTP_OS_TIMER_ACTIVE_def remove1_idem)
qed

text \<open>What runs during a callout: it keeps the queue and the handler's position, makes nothing due,
  and leaves the timers it does not name alone.\<close>

fun op_timer :: "timer_op \<Rightarrow> nat" where
  "op_timer (Start c to_ticks f arg) = c"
| "op_timer (Stop c) = c"

fun op_fits :: "int \<Rightarrow> timer_op \<Rightarrow> bool" where
  "op_fits now (Start c to_ticks f arg) \<longleftrightarrow> in_int (now + (if to_ticks \<le> 0 then 1 else to_ticks))"
| "op_fits now (Stop c) \<longleftrightarrow> True"

definition handled :: "callout_base \<Rightarrow> nat list \<Rightarrow> nat option \<Rightarrow> bool" where
  "handled s xs at \<longleftrightarrow> callq s xs \<and> settled (due s) at xs"

definition calm :: "nat set \<Rightarrow> callout_base \<Rightarrow> nat list \<Rightarrow> callout_base \<Rightarrow> nat list \<Rightarrow> bool" where
  "calm A s xs s' xs' \<longleftrightarrow> ticks s' = ticks s \<and> (\<forall>x \<in> set xs'. due s' x \<longrightarrow> x \<in> set xs \<and> due s x) \<and>
     (\<forall>x. x \<notin> A \<longrightarrow> timer s' x = timer s x \<and> (x \<in> set xs' \<longleftrightarrow> x \<in> set xs))"

lemma calm_refl: "calm A s xs s xs"
  by (simp add: calm_def)

lemma calm_trans: "calm A s xs s' xs' \<Longrightarrow> calm A s' xs' s'' xs'' \<Longrightarrow> calm A s xs s'' xs''"
  unfolding calm_def by auto

lemma calm_mono: "A \<subseteq> B \<Longrightarrow> calm A s xs s' xs' \<Longrightarrow> calm B s xs s' xs'"
  unfolding calm_def by blast

lemma op_step_ok:
  assumes "handled s xs (sctp_os_timer_next s)" "op_fits (ticks s) x"
  shows "\<exists>s' xs'. timer_op_step x s = Some s' \<and> handled s' xs' (sctp_os_timer_next s') \<and> calm {op_timer x} s xs s' xs'"
proof -
  define c where "c = op_timer x"
  define nxt where "nxt = (if c \<in> set xs \<and> sctp_os_timer_next s = Some c then next_in xs c else sctp_os_timer_next s)"
  have q: "callq s xs" and st: "settled (due s) (sctp_os_timer_next s) xs" using assms(1) by (auto simp: handled_def)
  note d = callqD(2) [OF q]
  have rem: "settled (due s) nxt (remove1 c xs)"
    using settled_remove [OF st d, of c] st by (cases "c \<in> set xs") (auto simp: nxt_def remove1_idem)
  show ?thesis
  proof (cases x)
    case (Start c' to_ticks f arg)
    then have fits: "in_int (ticks s + (if to_ticks \<le> 0 then 1 else to_ticks))" and c': "c' = c"
      using assms(2) by (simp_all add: c_def)
    obtain s' where s0: "sctp_os_timer_start s (Some c) to_ticks (Some f) arg = Some s'"
      and s': "callq s' (remove1 c xs @ [c])" "ticks s' = ticks s" "\<forall>y. y \<noteq> c \<longrightarrow> timer s' y = timer s y"
      and t: "timer s' c = \<lparr>c_time = ticks s + (if to_ticks \<le> 0 then 1 else to_ticks), c_arg = arg, c_func = Some f, c_flags = 6\<rparr>"
      and n: "sctp_os_timer_next s' = nxt"
      using start_ok [OF q fits, of c f arg, folded nxt_def] by (elim exE conjE) (rule that)
    have step: "timer_op_step x s = Some s'" using s0 Start c' by simp
    have nd: "\<not> due s' c" using s'(2) t by (simp add: due_def)
    have same: "due s' y = due s y" if "y \<noteq> c" for y using s'(2,3) that by (simp add: due_def)
    have "settled (due s') nxt (remove1 c xs)" by (rule settled_cong [OF rem]) (use same d in auto)
    then have "settled (due s') nxt (remove1 c xs @ [c])" using nd by (rule settled_append)
    moreover have "due s y" if "due s' y" for y using same nd that by (cases "y = c") auto
    then have "calm {c} s xs s' (remove1 c xs @ [c])" using s'(2,3) nd d by (auto simp: calm_def)
    ultimately show ?thesis using s'(1) step n c_def by (auto simp: handled_def)
  next
    case (Stop c')
    then have c': "c' = c" by (simp add: c_def)
    obtain s' r where s0: "sctp_os_timer_stop s c = Some (r, s')" and s': "callq s' (remove1 c xs)" "ticks s' = ticks s"
      "\<forall>y. y \<noteq> c \<longrightarrow> timer s' y = timer s y" and n: "sctp_os_timer_next s' = nxt"
      using stop_ok [OF q, of c, folded nxt_def] by (elim exE conjE) (rule that)
    have step: "timer_op_step x s = Some s'" using s0 Stop c' by simp
    have same: "due s' y = due s y" if "y \<noteq> c" for y using s'(2,3) that by (simp add: due_def)
    have "settled (due s') nxt (remove1 c xs)" by (rule settled_cong [OF rem]) (use same d in auto)
    moreover have "calm {c} s xs s' (remove1 c xs)" using s'(2,3) same d by (auto simp: calm_def)
    ultimately show ?thesis using s'(1) step n c_def by (auto simp: handled_def)
  qed
qed

lemma ops_ok:
  assumes "handled s xs (sctp_os_timer_next s)" "\<And>x. x \<in> set os \<Longrightarrow> op_fits (ticks s) x \<and> op_timer x \<in> A"
  shows "\<exists>s' xs'. timer_ops os s = Some s' \<and> handled s' xs' (sctp_os_timer_next s') \<and> calm A s xs s' xs'"
  using assms
proof (induction os arbitrary: s xs)
  case Nil
  then show ?case using calm_refl by auto
next
  case (Cons x os)
  obtain s1 xs1 where 1: "timer_op_step x s = Some s1" "handled s1 xs1 (sctp_os_timer_next s1)" "calm {op_timer x} s xs s1 xs1"
    using op_step_ok [OF Cons.prems(1)] Cons.prems(2) by force
  then have c: "calm A s xs s1 xs1" "ticks s1 = ticks s"
    using Cons.prems(2) [of x] calm_mono [of "{op_timer x}" A] by (auto simp: calm_def [of "{op_timer x}"])
  obtain s' xs' where "timer_ops os s1 = Some s'" "handled s' xs' (sctp_os_timer_next s')" "calm A s1 xs1 s' xs'"
    using Cons.IH [OF 1(2)] Cons.prems(2) c(2) by auto
  then show ?case using 1(1) calm_trans [OF c(1)] by auto
qed

section \<open>The tick handler\<close>

definition tick_result :: "nat set \<Rightarrow> callout_base \<Rightarrow> nat list \<Rightarrow> callout_base \<Rightarrow> nat list \<Rightarrow> nat list \<Rightarrow> bool" where
  "tick_result A s xs s' xs' fired \<longleftrightarrow> callq s' xs' \<and> ticks s' = ticks s \<and> sctp_os_timer_next s' = None \<and>
     (\<forall>x \<in> set xs'. \<not> due s' x) \<and> distinct fired \<and> set fired \<subseteq> {x \<in> set xs. due s x} \<and>
     (\<forall>x \<in> set xs. x \<notin> A \<longrightarrow> (if due s x then x \<in> set fired else x \<in> set xs' \<and> timer s' x = timer s x))"

definition acts_ok :: "acts \<Rightarrow> int \<Rightarrow> nat set \<Rightarrow> bool" where
  "acts_ok acts now A \<longleftrightarrow> (\<forall>f a s. \<forall>x \<in> set (acts f a s). op_fits now x \<and> op_timer x \<in> A)"

text \<open>Firing the timer at hand: it leaves the queue, the callout runs, and fewer timers are due.\<close>

lemma fire_ok:
  assumes "callq s (pre @ c # post)" "\<forall>x \<in> set pre. \<not> due s x" "due s c"
    and "acts_ok acts (ticks s) A"
  obtains f q s1 s2 xs2 where "c_func (timer s c) = Some f" "TAILQ_REMOVE (callqueue s) c = Some q"
    "s1 = s\<lparr>sctp_os_timer_next := TAILQ_NEXT (callqueue s) c, callqueue := q,
       timer := (timer s)(c := (timer s c)\<lparr>c_flags := c_flags (timer s c) AND - 5\<rparr>)\<rparr>"
    "timer_ops (acts f (c_arg (timer s c)) s1) s1 = Some s2" "handled s2 xs2 (sctp_os_timer_next s2)"
    "calm A s1 (pre @ post) s2 xs2"
proof -
  let ?xs = "pre @ c # post"
  have r: "tailq_rep (callqueue s) ?xs" and d: "distinct ?xs" using callqD [OF assms(1)] by auto
  obtain q where q: "TAILQ_REMOVE (callqueue s) c = Some q" "tailq_rep q (pre @ post)"
    using tq.rem_repr [OF r, of c] d by (auto simp: remove1_append)
  obtain f where f: "c_func (timer s c) = Some f" using assms(1) by (auto simp: callq_def)
  define s1 where "s1 = s\<lparr>sctp_os_timer_next := TAILQ_NEXT (callqueue s) c, callqueue := q,
       timer := (timer s)(c := (timer s c)\<lparr>c_flags := c_flags (timer s c) AND - 5\<rparr>)\<rparr>"
  have nxt: "sctp_os_timer_next s1 = first_of post"
    using tq.next_repr [OF r, of c] d by (simp add: s1_def next_in_split)
  have "callq s1 (pre @ post)"
    using assms(1) q(2) d by (auto simp: callq_def s1_def SCTP_OS_TIMER_PENDING_def)
  moreover have "due s1 = due s" by (rule ext) (simp add: due_def s1_def)
  then have "settled (due s1) (first_of post) (pre @ post)"
    using assms(2) by (cases post) (auto intro!: settledI)
  ultimately have h: "handled s1 (pre @ post) (sctp_os_timer_next s1)" by (simp add: handled_def nxt)
  have "ticks s1 = ticks s" by (simp add: s1_def)
  then obtain s2 xs2 where "timer_ops (acts f (c_arg (timer s c)) s1) s1 = Some s2"
      "handled s2 xs2 (sctp_os_timer_next s2)" "calm A s1 (pre @ post) s2 xs2"
    using ops_ok [OF h, of "acts f (c_arg (timer s c)) s1" A] assms(4) by (auto simp: acts_ok_def)
  then show thesis using that [OF f q(1) s1_def] by blast
qed

lemma due_fire: "due (s\<lparr>sctp_os_timer_next := n, callqueue := q,
    timer := (timer s)(c := (timer s c)\<lparr>c_flags := w\<rparr>)\<rparr>) = due s"
  by (rule ext) (simp add: due_def)

lemma tick_done:
  assumes "callq s xs" "\<And>x. x \<in> set xs \<Longrightarrow> \<not> due s x"
  shows "tick_result A s xs (s\<lparr>sctp_os_timer_next := None\<rparr>) xs []"
  using assms by (auto simp: tick_result_def callq_def due_def SCTP_OS_TIMER_PENDING_def)

text \<open>The rest of the loop after firing \<open>c\<close>.\<close>

lemma tick_result_fire:
  assumes "distinct (pre @ c # post)" "due s c" "s1 = s\<lparr>sctp_os_timer_next := n, callqueue := q,
       timer := (timer s)(c := (timer s c)\<lparr>c_flags := c_flags (timer s c) AND - 5\<rparr>)\<rparr>"
    "calm A s1 (pre @ post) s2 xs2" "tick_result A s2 xs2 s' xs' fired"
  shows "tick_result A s (pre @ c # post) s' xs' (c # fired)"
proof -
  have du: "ticks s1 = ticks s" "\<And>x. x \<noteq> c \<Longrightarrow> timer s1 x = timer s x" using assms(3) by auto
  have de: "due s1 = due s" unfolding assms(3) by (rule due_fire)
  have sub: "set fired \<subseteq> {x \<in> set (pre @ post). due s x}"
    using assms(4,5) de by (auto simp: calm_def tick_result_def)
  have keep: "if due s x then x \<in> set (c # fired) else x \<in> set xs' \<and> timer s' x = timer s x"
    if x: "x \<in> set (pre @ c # post)" "x \<notin> A" for x
  proof (cases "x = c")
    case True
    then show ?thesis using assms(2) by simp
  next
    case False
    then have "x \<in> set xs2" "timer s2 x = timer s x" "due s2 x = due s x"
      using assms(4) x du by (auto simp: calm_def due_def)
    then show ?thesis using assms(5) x(2) by (auto simp: tick_result_def)
  qed
  have "c \<notin> set fired" using sub assms(1) by auto
  moreover have "ticks s' = ticks s" using assms(4,5) du(1) by (simp add: calm_def tick_result_def)
  moreover have "callq s' xs'" "sctp_os_timer_next s' = None" "\<forall>x \<in> set xs'. \<not> due s' x" "distinct fired"
    using assms(5) by (auto simp: tick_result_def)
  ultimately show ?thesis
    unfolding tick_result_def using assms(2) sub by (intro conjI ballI impI keep) auto
qed

lemma tick_loop_ok:
  assumes "handled s xs at" "acts_ok acts (ticks s) A"
  shows "\<exists>fuel s' xs' fired. tick_loop fuel acts s at = Some (s', fired) \<and> tick_result A s xs s' xs' fired"
  using assms
proof (induction "card {x \<in> set xs. due s x}" arbitrary: s xs at rule: less_induct)
  case less
  let ?ends = "\<lambda>at. \<exists>fuel s' xs' fired. tick_loop fuel acts s at = Some (s', fired) \<and> tick_result A s xs s' xs' fired"
  have q: "callq s xs" using less.prems(1) by (simp add: handled_def)
  have fire: "?ends (Some c)" if xs: "xs = pre @ c # post" "\<And>x. x \<in> set pre \<Longrightarrow> \<not> due s x" and c: "due s c" for pre c post
  proof -
    note d = callqD(2) [OF q]
    have nd: "\<forall>x \<in> set pre. \<not> due s x" using xs(2) by blast
    obtain f q1 s1 s2 xs2 where *: "c_func (timer s c) = Some f" "TAILQ_REMOVE (callqueue s) c = Some q1"
      "s1 = s\<lparr>sctp_os_timer_next := TAILQ_NEXT (callqueue s) c, callqueue := q1,
         timer := (timer s)(c := (timer s c)\<lparr>c_flags := c_flags (timer s c) AND - 5\<rparr>)\<rparr>"
      "timer_ops (acts f (c_arg (timer s c)) s1) s1 = Some s2" "handled s2 xs2 (sctp_os_timer_next s2)"
      "calm A s1 (pre @ post) s2 xs2"
      by (rule fire_ok [OF q [unfolded xs(1)] nd c less.prems(2)]) (rule that)
    have t: "ticks s2 = ticks s" using *(3,6) by (simp add: calm_def)
    have "due s1 = due s" unfolding *(3) by (rule due_fire)
    then have "{x \<in> set xs2. due s2 x} \<subseteq> {x \<in> set xs. due s x} - {c}"
      using *(6) d xs(1) by (auto simp: calm_def)
    then have "card {x \<in> set xs2. due s2 x} < card {x \<in> set xs. due s x}"
      using c xs(1) by (intro psubset_card_mono) auto
    then obtain fuel s' xs' fired where "tick_loop fuel acts s2 (sctp_os_timer_next s2) = Some (s', fired)"
      "tick_result A s2 xs2 s' xs' fired"
      using less.hyps [OF _ *(5)] less.prems(2) t by auto
    then show ?thesis
      using *(1-4) c tick_result_fire [OF d [unfolded xs(1)] c *(3,6)] xs(1)
      by (intro exI [of _ "Suc fuel"] exI [of _ s'] exI [of _ xs'] exI [of _ "c # fired"]) (simp add: due_def)
  qed
  have walk: "?ends (Some c)" if "xs = pre @ c # post" "\<And>x. x \<in> set pre \<Longrightarrow> \<not> due s x" for pre c post
    using that
  proof (induction post arbitrary: pre c)
    case (Nil pre c)
    have "TAILQ_NEXT (callqueue s) c = None"
      using tq.next_repr [OF callqD(1) [OF q], of c] Nil.prems(1) callqD(2) [OF q] by (simp add: next_in_split)
    then have "tick_loop (Suc 0) acts s (Some c) = Some (s\<lparr>sctp_os_timer_next := None\<rparr>, [])" if "\<not> due s c"
      using that by (simp add: due_def)
    then show ?case
      using fire [OF Nil.prems] tick_done [OF q, of A] Nil.prems by (cases "due s c") fastforce+
  next
    case (Cons m post pre c)
    have n: "TAILQ_NEXT (callqueue s) c = Some m"
      using tq.next_repr [OF callqD(1) [OF q], of c] Cons.prems(1) callqD(2) [OF q] by (simp add: next_in_split)
    show ?case
    proof (cases "due s c")
      case True
      then show ?thesis using fire [OF Cons.prems] by blast
    next
      case False
      have "?ends (Some m)"
        by (rule Cons.IH [of "pre @ [c]"]) (use Cons.prems False in auto)
      then obtain fuel s' xs' fired where "tick_loop fuel acts s (Some m) = Some (s', fired)" "tick_result A s xs s' xs' fired"
        by blast
      then have "tick_loop (Suc fuel) acts s (Some c) = Some (s', fired)" using False n by (simp add: due_def)
      then show ?thesis using \<open>tick_result A s xs s' xs' fired\<close> by blast
    qed
  qed
  show ?case
  proof (cases at)
    case None
    then have "tick_loop 0 acts s at = Some (s\<lparr>sctp_os_timer_next := None\<rparr>, [])" by simp
    then show ?thesis using tick_done [OF q, of A] less.prems(1) None by (fastforce simp: handled_def)
  next
    case (Some c)
    then show ?thesis using less.prems(1) walk by (auto simp: handled_def elim!: settledE)
  qed
qed

section \<open>Theorems\<close>

text \<open>Starting a timer appends it to the queue of pending timers, taking it out first when it is already
  pending, and sets its time to now plus at least one tick; stopping removes it and reports whether it was
  pending. Both keep the invariant that exactly the pending timers are queued, once each, and leave
  every other timer alone.\<close>

theorem timer_start_stop:
  assumes "callq s xs" "in_int (ticks s + (if to_ticks \<le> 0 then 1 else to_ticks))"
  shows "(\<exists>s'. sctp_os_timer_start s (Some c) to_ticks (Some f) arg = Some s' \<and> callq s' (remove1 c xs @ [c]) \<and>
      c_time (timer s' c) = ticks s + (if to_ticks \<le> 0 then 1 else to_ticks) \<and> c_time (timer s' c) > ticks s' \<and>
      c_func (timer s' c) = Some f \<and> c_arg (timer s' c) = arg \<and> (\<forall>x. x \<noteq> c \<longrightarrow> timer s' x = timer s x)) \<and>
    (\<exists>s'. sctp_os_timer_stop s c = Some (if SCTP_OS_TIMER_PENDING s c then 1 else 0, s') \<and> callq s' (remove1 c xs) \<and>
      \<not> SCTP_OS_TIMER_PENDING s' c \<and> \<not> SCTP_OS_TIMER_ACTIVE s' c \<and> (\<forall>x. x \<noteq> c \<longrightarrow> timer s' x = timer s x))"
proof
  show "\<exists>s'. sctp_os_timer_start s (Some c) to_ticks (Some f) arg = Some s' \<and> callq s' (remove1 c xs @ [c]) \<and>
      c_time (timer s' c) = ticks s + (if to_ticks \<le> 0 then 1 else to_ticks) \<and> c_time (timer s' c) > ticks s' \<and>
      c_func (timer s' c) = Some f \<and> c_arg (timer s' c) = arg \<and> (\<forall>x. x \<noteq> c \<longrightarrow> timer s' x = timer s x)"
    using start_ok [OF assms, of c f arg] by (elim exE conjE) (intro exI conjI; simp)
  have "SCTP_OS_TIMER_PENDING s c \<longleftrightarrow> c \<in> set xs" using assms(1) by (simp add: callq_def)
  then show "\<exists>s'. sctp_os_timer_stop s c = Some (if SCTP_OS_TIMER_PENDING s c then 1 else 0, s') \<and> callq s' (remove1 c xs) \<and>
      \<not> SCTP_OS_TIMER_PENDING s' c \<and> \<not> SCTP_OS_TIMER_ACTIVE s' c \<and> (\<forall>x. x \<noteq> c \<longrightarrow> timer s' x = timer s x)"
    using stop_ok [OF assms(1), of c] by auto
qed

definition idle_base :: callout_base where
  "idle_base = \<lparr>callqueue = \<lparr>tqh_first = None, tqh_last = Head_first, tqe_next = (\<lambda>_. None), tqe_prev = (\<lambda>_. None)\<rparr>, ticks = 0, sctp_os_timer_next = None,
     timer = (\<lambda>_. \<lparr>c_time = 0, c_arg = None, c_func = None, c_flags = 0\<rparr>)\<rparr>"

lemma idle_callq: "callq idle_base []"
  by (simp add: callq_def idle_base_def tailq_rep_def deref_def SCTP_OS_TIMER_PENDING_def)

theorem timer_start_stop_witness:
  "\<exists>s'. sctp_os_timer_start idle_base (Some 3) 7 (Some 1) None = Some s' \<and> callq s' [3] \<and> c_time (timer s' 3) = 7"
  using timer_start_stop [OF idle_callq, of 7 3 1 None] by (auto simp: in_int_def idle_base_def)

text \<open>C16. The tick handler terminates whatever the callouts start or stop while they run, provided the new times
  fit an \<^verbatim>\<open>int\<close>: some fuel is enough. Afterwards no queued timer is due, the queue invariant holds and the handler's
  cursor is reset; no timer fires twice, only due timers fire, every due timer that the callouts do not touch
  fires, and every other untouched timer stays queued unchanged.\<close>

theorem tick_fires_due:
  assumes "callq s xs" "in_int (ticks s + delta)" "acts_ok acts (ticks s + delta) A"
  shows "\<exists>fuel s' xs' fired. sctp_handle_tick fuel acts s delta = Some (s', fired) \<and> callq s' xs' \<and>
    sctp_get_tick_count s' = ticks s + delta \<and> sctp_os_timer_next s' = None \<and>
    (\<forall>x \<in> set xs'. c_time (timer s' x) > ticks s + delta) \<and> distinct fired \<and>
    (\<forall>x \<in> set fired. x \<in> set xs \<and> c_time (timer s x) \<le> ticks s + delta) \<and>
    (\<forall>x \<in> set xs - A. if c_time (timer s x) \<le> ticks s + delta then x \<in> set fired
       else x \<in> set xs' \<and> timer s' x = timer s x)"
proof -
  let ?s = "s\<lparr>ticks := ticks s + delta\<rparr>"
  have q: "callq ?s xs" using assms(1) by (simp add: callq_def SCTP_OS_TIMER_PENDING_def)
  have "settled (due ?s) (first_of xs) xs"
    by (cases xs) (use settledI [of "[]"] in auto)
  then have "handled ?s xs (TAILQ_FIRST (callqueue s))"
    using q tq.first_repr [OF callqD(1) [OF assms(1)]] by (simp add: handled_def)
  then obtain fuel s' xs' fired where
    "tick_loop fuel acts ?s (TAILQ_FIRST (callqueue s)) = Some (s', fired)" "tick_result A ?s xs s' xs' fired"
    using tick_loop_ok [of ?s xs "TAILQ_FIRST (callqueue s)" acts A] assms(3) by auto
  then show ?thesis
    using assms(2)
    by (intro exI [of _ fuel] exI [of _ s'] exI [of _ xs'] exI [of _ fired])
      (auto simp: sctp_handle_tick_def add_int_def tick_result_def due_def sctp_get_tick_count_def subset_eq not_le)
qed

theorem tick_fires_due_witness:
  "\<exists>s fuel s' fired. sctp_os_timer_start idle_base (Some 3) 7 (Some 1) None = Some s \<and>
     sctp_handle_tick fuel (\<lambda>_ _ _. []) s 10 = Some (s', fired) \<and> 3 \<in> set fired"
proof -
  have t: "ticks idle_base = 0" by (simp add: idle_base_def)
  have f: "in_int (ticks idle_base + (if (7 :: int) \<le> 0 then 1 else 7))" by (simp add: in_int_def t)
  obtain s where s: "sctp_os_timer_start idle_base (Some 3) 7 (Some 1) None = Some s" "callq s [3]"
      "c_time (timer s 3) = 7" "ticks s = 0"
    using start_ok [OF idle_callq f, of 3 1 None] by (elim exE conjE) (rule that, simp_all add: t)
  have ok: "in_int (ticks s + 10)" "acts_ok (\<lambda>_ _ _. []) (ticks s + 10) {}" by (simp_all add: s(4) in_int_def acts_ok_def)
  obtain fuel s' xs' fired where tick: "sctp_handle_tick fuel (\<lambda>_ _ _. []) s 10 = Some (s', fired)"
      "\<forall>x \<in> set [3] - {}. if c_time (timer s x) \<le> ticks s + 10 then x \<in> set fired
         else x \<in> set xs' \<and> timer s' x = timer s x"
    using tick_fires_due [OF s(2) ok] by (elim exE conjE) (rule that; assumption)
  have "3 \<in> set fired" using tick(2) by (simp add: s(3,4))
  then show ?thesis using s(1) tick(1) by blast
qed

lemma idle_tick:
  assumes "callq s []"
  shows "sctp_handle_tick fuel acts s (MSEC_TO_TICKS 10) =
    (if in_int (ticks s + 10) then Some (s\<lparr>ticks := ticks s + 10, sctp_os_timer_next := None\<rparr>, []) else None)"
  using tq.first_repr [OF callqD(1) [OF assms]]
  by (simp add: sctp_handle_tick_def add_int_def MSEC_TO_TICKS_def)

lemma idle_iterate:
  assumes "callq s []" "0 \<le> ticks s" "in_int (ticks s)"
  shows "user_sctp_timer_iterate fuel acts (replicate n False) s \<noteq> None \<longleftrightarrow> in_int (ticks s + 10 * int n)"
  using assms
proof (induction n arbitrary: s)
  case (Suc n)
  let ?s = "s\<lparr>ticks := ticks s + 10, sctp_os_timer_next := None\<rparr>"
  have "callq ?s []" using Suc.prems(1) by (simp add: callq_def SCTP_OS_TIMER_PENDING_def)
  then have "in_int (ticks s + 10) \<Longrightarrow> user_sctp_timer_iterate fuel acts (replicate n False) ?s \<noteq> None \<longleftrightarrow>
      in_int (ticks s + 10 + 10 * int n)"
    using Suc.IH [of ?s] Suc.prems(2) by simp
  then show ?case
    using idle_tick [OF Suc.prems(1)] Suc.prems(2) by (auto simp: in_int_def add.assoc)
qed simp

text \<open>The tick counter is a signed 32-bit \<^verbatim>\<open>int\<close> that the timer thread increases by ten every ten
  milliseconds and never resets: an otherwise idle stack runs for exactly 214748364 iterations (a little under
  25 days), and the next iteration overflows, which is undefined.\<close>

theorem tick_counter_overflows:
  "user_sctp_timer_iterate fuel acts (replicate n False) idle_base \<noteq> None \<longleftrightarrow> n \<le> 214748364"
  using idle_iterate [OF idle_callq, of fuel acts n] by (auto simp: idle_base_def in_int_def)

end
