(* ===== verification/Jni.thy ===== *)
theory Jni
  imports Prelude
begin

text \<open>
  The native methods of \<^verbatim>\<open>net_sctp4nat_Sctp.c\<close>: the glue between the Java class and the SCTP stack. Calls into
  the Java virtual machine, the stack's socket interface and the C library are events. Their results come
  from the environment \<open>env\<close>, an argument of every method, which may depend on everything that happened
  before; events and results are recorded in the trace. Pointers are integers, NULL is 0. The
  \<^verbatim>\<open>SctpSocket\<close> objects live in a map from addresses; using an address that is not live has no result. Java
  arrays are passed with their contents.
\<close>

section \<open>Events\<close>

type_synonym ptr = int

record sockaddr_conn =
  sconn_addr :: ptr
  sconn_port :: u16

datatype sockopt =
  SO_LINGER int int
| SO_SNDBUF int
| SO_RCVBUF int
| SCTP_ENABLE_STREAM_RESET int
| SCTP_NODELAY int
| SCTP_EVENT int

record sctp_sndinfo =
  snd_sid :: u16
  snd_flags :: u16
  snd_ppid :: u32

datatype ev =
  Malloc
| Free ptr
| Register_address ptr
| Usrsctp_socket ptr
| Set_non_blocking ptr int
| Setsockopt ptr sockopt
| Bind ptr sockaddr_conn
| Listen ptr int
| Connect ptr sockaddr_conn
| Errno
| Accept ptr
| Close ptr
| Shutdown ptr int
| Sendv ptr bytes int int sctp_sndinfo
| Conninput ptr bytes int int
| Finish
| Sleep int
| Init u16
| Set_debug_on int
| Set_ecn_enable int
| Message string
| Get_elements bytes
| Release_elements ptr
| Attach
| Find_class string
| Get_method ptr string string
| New_global_ref ptr
| Delete_global_ref ptr
| New_byte_array int
| Set_region ptr bytes
| Call_receive ptr ptr "int list"
| Call_send ptr ptr "int list"
| Exception_clear
| Delete_local_ref ptr

record sctp_socket =
  sock_so :: ptr
  sock_localPort :: int

type_synonym env = "(ev \<times> int) list \<Rightarrow> ev \<Rightarrow> int"

record jni =
  trace :: "(ev \<times> int) list"
  sockets :: "ptr \<Rightarrow> sctp_socket option"
  Sctp_clazz :: ptr
  Sctp_receiveCb :: ptr
  Sctp_sendCb :: ptr
  Sctp_vm :: ptr

definition call :: "env \<Rightarrow> ev \<Rightarrow> jni \<Rightarrow> int \<times> jni" where
  "call env e s = (let r = env (trace s) e in (r, s\<lparr>trace := trace s @ [(e, r)]\<rparr>))"

text \<open>A call whose result is not used.\<close>

abbreviation perform :: "env \<Rightarrow> ev \<Rightarrow> jni \<Rightarrow> jni" where
  "perform env e s \<equiv> snd (call env e s)"

section \<open>Sockets\<close>

definition SCTP_EVENT_TYPES :: "int list" where
  "SCTP_EVENT_TYPES = [0x01, 0x02, 0x03, 0x04, 0x05, 0x06, 0x07, 0x08, 0x09, 0x0a, 0x0c, 0x0d, 0x02]"

definition bswap16 :: "u16 \<Rightarrow> u16" where
  "bswap16 w = push_bit 8 w OR drop_bit 8 w"

definition bswap32 :: "u32 \<Rightarrow> u32" where
  "bswap32 w = push_bit 24 w OR push_bit 16 (take_bit 8 (drop_bit 8 w)) OR push_bit 8 (take_bit 8 (drop_bit 16 w)) OR
     drop_bit 24 w"

definition getSctpSockAddr :: "ptr \<Rightarrow> int \<Rightarrow> sockaddr_conn" where
  "getSctpSockAddr addr port = \<lparr>sconn_addr = addr, sconn_port = bswap16 (of_int port)\<rparr>"

text \<open>The failure exits of the socket method: a message, \<^verbatim>\<open>free(sctpSocket)\<close>, and 0.\<close>

definition give_up :: "env \<Rightarrow> string \<Rightarrow> ptr \<Rightarrow> jni \<Rightarrow> ptr \<times> jni" where
  "give_up env msg p s =
     (let s1 = perform env (Free p) (perform env (Message msg) s) in (0, s1\<lparr>sockets := (sockets s1)(p := None)\<rparr>))"

fun subscribe_events :: "env \<Rightarrow> ptr \<Rightarrow> int list \<Rightarrow> jni \<Rightarrow> bool \<times> jni" where
  "subscribe_events env so [] s = (True, s)"
| "subscribe_events env so (t # ts) s =
     (case call env (Setsockopt so (SCTP_EVENT t)) s of
        (r, s') \<Rightarrow> if r < 0 then (False, s') else subscribe_events env so ts s')"

text \<open>The options of a new socket; the result is the message of the first step that fails.\<close>

definition configure_socket :: "env \<Rightarrow> ptr \<Rightarrow> jni \<Rightarrow> string option \<times> jni" where
  "configure_socket env so s =
     (let (r, s1) = call env (Set_non_blocking so 1) s in
      if r < 0 then (Some ''Failed to set SCTP to non blocking.'', s1)
      else
        let (r, s2) = call env (Setsockopt so (SO_LINGER 1 0)) s1 in
        if r \<noteq> 0 then (Some ''Failed to set SO_LINGER.'', s2)
        else
          let s3 = perform env (Setsockopt so (SO_SNDBUF 1048576)) s2;
              s4 = perform env (Setsockopt so (SO_RCVBUF 1048576)) s3;
              (r, s5) = call env (Setsockopt so (SCTP_ENABLE_STREAM_RESET 1)) s4 in
          if r \<noteq> 0 then (Some ''Failed to set SCTP_ENABLE_STREAM_RESET.'', s5)
          else
            let (r, s6) = call env (Setsockopt so (SCTP_NODELAY 1)) s5 in
            if r \<noteq> 0 then (Some ''Failed to set SCTP_NODELAY.'', s6)
            else
              let (ok, s7) = subscribe_events env so SCTP_EVENT_TYPES s6 in
              (if ok then None else Some ''Failed to set SCTP_EVENT type'', s7))"

text \<open>\<open>garbage\<close> is the content of freshly allocated memory.\<close>

definition usrsctp_socket :: "env \<Rightarrow> sctp_socket \<Rightarrow> int \<Rightarrow> jni \<Rightarrow> ptr \<times> jni" where
  "usrsctp_socket env garbage localPort s =
     (let (p, s1) = call env Malloc s in
      if p = 0 then (0, perform env (Message ''Out of memory!'') s1)
      else
        let s2 = perform env (Register_address p) (s1\<lparr>sockets := (sockets s1)(p \<mapsto> garbage)\<rparr>);
            (so, s3) = call env (Usrsctp_socket p) s2 in
        if so = 0 then give_up env ''usrsctp_socket'' p s3
        else
          (case configure_socket env so s3 of
             (Some msg, s4) \<Rightarrow> give_up env msg p s4
           | (None, s4) \<Rightarrow>
               (p, s4\<lparr>sockets := (sockets s4)(p \<mapsto> \<lparr>sock_so = so, sock_localPort = localPort\<rparr>)\<rparr>)))"

definition usrsctp_accept :: "env \<Rightarrow> ptr \<Rightarrow> jni \<Rightarrow> (bool \<times> jni) option" where
  "usrsctp_accept env ptr s = do {
     k \<leftarrow> sockets s ptr;
     let (so, s1) = call env (Accept (sock_so k)) s;
     Some (if so \<noteq> 0
           then let s2 = perform env (Close (sock_so k)) s1
                in (True, s2\<lparr>sockets := (sockets s2)(ptr \<mapsto> k\<lparr>sock_so := so\<rparr>)\<rparr>)
           else (False, s1))
   }"

definition usrsctp_close :: "env \<Rightarrow> ptr \<Rightarrow> jni \<Rightarrow> jni option" where
  "usrsctp_close env ptr s = do {
     k \<leftarrow> sockets s ptr;
     let s1 = perform env (Free ptr) (perform env (Close (sock_so k)) s);
     Some (s1\<lparr>sockets := (sockets s1)(ptr := None)\<rparr>)
   }"

definition usrsctp_shutdown :: "env \<Rightarrow> ptr \<Rightarrow> int \<Rightarrow> jni \<Rightarrow> (int \<times> jni) option" where
  "usrsctp_shutdown env ptr how s = do {
     k \<leftarrow> sockets s ptr;
     Some (call env (Shutdown (sock_so k) how) s)
   }"

definition EINPROGRESS :: int where
  "EINPROGRESS = 115"

definition connectSctp :: "env \<Rightarrow> ptr \<Rightarrow> int \<Rightarrow> jni \<Rightarrow> (int \<times> jni) option" where
  "connectSctp env ptr remotePort s = do {
     k \<leftarrow> sockets s ptr;
     let (r, s1) = call env (Bind (sock_so k) (getSctpSockAddr ptr (sock_localPort k))) s;
     Some (if r < 0 then (0, perform env (Message ''usrsctp_bind'') s1)
           else
             let (r, s2) = call env (Connect (sock_so k) (getSctpSockAddr ptr remotePort)) s1 in
             if r < 0 then
               let (errno, s3) = call env Errno s2 in
               if errno \<noteq> EINPROGRESS then (0, perform env (Message ''usrsctp_connect'') s3) else (1, s3)
             else (1, s2))
   }"

definition usrsctp_connect :: "env \<Rightarrow> ptr \<Rightarrow> int \<Rightarrow> jni \<Rightarrow> (bool \<times> jni) option" where
  "usrsctp_connect env ptr remotePort s = map_option (\<lambda>(r, s'). (r \<noteq> 0, s')) (connectSctp env ptr remotePort s)"

definition usrsctp_listen :: "env \<Rightarrow> ptr \<Rightarrow> jni \<Rightarrow> jni option" where
  "usrsctp_listen env ptr s = do {
     k \<leftarrow> sockets s ptr;
     let (r, s1) = call env (Bind (sock_so k) (getSctpSockAddr ptr (sock_localPort k))) s;
     let s2 = (if r < 0 then perform env (Message ''usrsctp_bind'') s1 else s1);
     let (r, s3) = call env (Listen (sock_so k) 1) s2;
     Some (if r < 0 then perform env (Message ''usrsctp_listen'') s3 else s3)
   }"

section \<open>The stack\<close>

definition usrsctp_init :: "env \<Rightarrow> int \<Rightarrow> jni \<Rightarrow> bool \<times> jni" where
  "usrsctp_init env port s =
     (let s1 = perform env (Message ''=====>: net_sctp4nat_origin_Sctp.c calling init'') s;
          s2 = perform env (Init (of_int port)) s1;
          s3 = perform env (Message ''=====>: net_sctp4nat_origin_Sctp.c about to set SCTP_DEBUG_ALL'') s2;
          s4 = perform env (Message ''=====>: net_sctp4nat_origin_Sctp.c setting SCTP_DEBUG_ALL'') s3;
          s5 = perform env (Set_debug_on 0) s4
      in (True, perform env (Set_ecn_enable 0) s5))"

function finish_loop :: "env \<Rightarrow> nat \<Rightarrow> jni \<Rightarrow> nat \<times> jni" where
  "finish_loop env count s =
     (case call env Finish s of
        (r, s1) \<Rightarrow> if r \<noteq> 0 \<and> count < 5 then finish_loop env (count + 1) (perform env (Sleep 1) s1) else (count, s1))"
  by pat_completeness auto
termination
  by (relation "measure (\<lambda>(_, count, _). 5 - count)") auto

definition usrsctp_finish :: "env \<Rightarrow> jni \<Rightarrow> bool \<times> jni" where
  "usrsctp_finish env s = (case finish_loop env 0 s of (count, s1) \<Rightarrow> (\<not> count \<ge> 5, s1))"

section \<open>Data\<close>

definition on_network_in :: "env \<Rightarrow> ptr \<Rightarrow> bytes \<Rightarrow> int \<Rightarrow> int \<Rightarrow> jni \<Rightarrow> jni" where
  "on_network_in env ptr pkt off len s =
     (let (pkt', s1) = call env (Get_elements pkt) s in
      if pkt' \<noteq> 0 then perform env (Release_elements pkt') (perform env (Conninput ptr pkt off len) s1) else s1)"

definition SCTP_UNORDERED :: u16 where
  "SCTP_UNORDERED = 0x0400"

definition usrsctp_send ::
  "env \<Rightarrow> ptr \<Rightarrow> bytes \<Rightarrow> int \<Rightarrow> int \<Rightarrow> bool \<Rightarrow> int \<Rightarrow> int \<Rightarrow> jni \<Rightarrow> (int \<times> jni) option" where
  "usrsctp_send env ptr data off len ordered sid ppid s =
     (let (data', s1) = call env (Get_elements data) s in do {
        (r, s4) \<leftarrow>
          (if data' \<noteq> 0 then do {
             k \<leftarrow> sockets s1 ptr;
             let sndinfo = \<lparr>snd_sid = of_int sid, snd_flags = (if \<not> ordered then SCTP_UNORDERED else 0),
                            snd_ppid = bswap32 (of_int ppid)\<rparr>;
             let (r, s2) = call env (Sendv (sock_so k) data off len sndinfo) s1;
             Some (r, perform env (Release_elements data') s2)
           } else Some (-1, s1));
        Some (sint (of_int r :: u32), if r < 0 then perform env (Message ''Sctp send error: '') s4 else s4)
      })"

text \<open>The upcalls.\<close>

definition callOnSctpInboundPacket ::
  "env \<Rightarrow> ptr \<Rightarrow> bytes \<Rightarrow> u16 \<Rightarrow> u16 \<Rightarrow> u32 \<Rightarrow> u32 \<Rightarrow> u16 \<Rightarrow> int \<Rightarrow> jni \<Rightarrow> jni" where
  "callOnSctpInboundPacket env socketPtr data sid ssn tsn ppid context flags s =
     (let vm = Sctp_vm s;
          (r, s1) = (if vm \<noteq> 0 then call env Attach s else (-1, s)) in
      if vm \<noteq> 0 \<and> r = 0 then
        let clazz = Sctp_clazz s1 in
        if clazz \<noteq> 0 then
          let receiveCb = Sctp_receiveCb s1 in
          if receiveCb \<noteq> 0 then
            let (data', s2) = call env (New_byte_array (int (length data))) s1 in
            if data' \<noteq> 0 then
              let s3 = perform env (Set_region data' data) s2;
                  s4 = perform env (Call_receive clazz receiveCb
                         [socketPtr, data', uint sid, uint ssn, sint tsn, uint (bswap32 ppid), uint context, flags]) s3
              in perform env (Delete_local_ref data') (perform env Exception_clear s4)
            else s2
          else perform env (Message ''Failed to get onSctpInboundPacket method'') s1
        else perform env (Message ''Failed to get SCTP class'') s1
      else perform env (Message ''Failed to attach new thread'') s1)"

definition callOnSctpOutboundPacket :: "env \<Rightarrow> ptr \<Rightarrow> bytes \<Rightarrow> u8 \<Rightarrow> u8 \<Rightarrow> jni \<Rightarrow> int \<times> jni" where
  "callOnSctpOutboundPacket env socketPtr data tos set_df s =
     (let vm = Sctp_vm s;
          (r, s1) = (if vm \<noteq> 0 then call env Attach s else (-1, s)) in
      if vm \<noteq> 0 \<and> r = 0 then
        let clazz = Sctp_clazz s1 in
        if clazz \<noteq> 0 then
          let sendCb = Sctp_sendCb s1 in
          if sendCb \<noteq> 0 then
            let (data', s2) = call env (New_byte_array (int (length data))) s1 in
            if data' \<noteq> 0 then
              let s3 = perform env (Set_region data' data) s2;
                  (r', s4) = call env (Call_send clazz sendCb [socketPtr, data', uint tos, uint set_df]) s3
              in (r', perform env (Delete_local_ref data') (perform env Exception_clear s4))
            else (-1, s2)
          else (-1, perform env (Message ''Failed to get onSctpInboundPacket method'') s1)
        else (-1, perform env (Message ''Failed to get SCTP class'') s1)
      else (-1, perform env (Message ''Failed to attach new thread'') s1))"

record sctp_rcvinfo =
  rcv_sid :: u16
  rcv_ssn :: u16
  rcv_tsn :: u32
  rcv_ppid :: u32
  rcv_context :: u32

definition MSG_NOTIFICATION :: int where
  "MSG_NOTIFICATION = 0x2000"

text \<open>\<open>data\<close> is the address and the content of the received data.\<close>

definition onSctpInboundPacket ::
  "env \<Rightarrow> (ptr \<times> bytes) option \<Rightarrow> sctp_rcvinfo \<Rightarrow> int \<Rightarrow> ptr \<Rightarrow> jni \<Rightarrow> int \<times> jni" where
  "onSctpInboundPacket env data rcv flags ulp_info s =
     (case data of
        None \<Rightarrow> (1, s)
      | Some (p, d) \<Rightarrow>
          let s1 = (if flags AND MSG_NOTIFICATION \<noteq> 0
                    then callOnSctpInboundPacket env ulp_info d 0 0 0 0 0 flags s
                    else callOnSctpInboundPacket env ulp_info d (rcv_sid rcv) (rcv_ssn rcv) (rcv_tsn rcv)
                           (rcv_ppid rcv) (ucast (rcv_context rcv)) flags s)
          in (1, perform env (Free p) s1))"

definition onSctpOutboundPacket :: "env \<Rightarrow> ptr \<Rightarrow> bytes option \<Rightarrow> u8 \<Rightarrow> u8 \<Rightarrow> jni \<Rightarrow> int \<times> jni" where
  "onSctpOutboundPacket env addr buffer tos set_df s =
     (case buffer of
        None \<Rightarrow> (-1, s)
      | Some b \<Rightarrow>
          if b = [] then (-1, s)
          else case callOnSctpOutboundPacket env addr b tos set_df s of
                 (r, s1) \<Rightarrow> (if r = 0 then 0 else -1, s1))"

section \<open>Loading\<close>

definition JNI_EVERSION :: int where "JNI_EVERSION = -3"
definition JNI_VERSION_1_4 :: int where "JNI_VERSION_1_4 = 0x00010004"

definition JNI_OnLoad :: "env \<Rightarrow> ptr \<Rightarrow> jni \<Rightarrow> int \<times> jni" where
  "JNI_OnLoad env vm s =
     (let (r, s1) = call env Attach s in
      if r \<noteq> 0 then (JNI_EVERSION, s1)
      else
        let (clazz, s2) = call env (Find_class ''net/sctp4nat/origin/Sctp'') s1 in
        if clazz = 0 then (JNI_EVERSION, s2)
        else
          let (receiveCb, s3) = call env (Get_method clazz ''onSctpInboundPacket'' ''(J[BIIIJII)V'') s2 in
          if receiveCb = 0 then (JNI_EVERSION, s3)
          else
            let (sendCb, s4) = call env (Get_method clazz ''onSctpOutboundPacket'' ''(J[BII)I'') s3 in
            if sendCb = 0 then (JNI_EVERSION, s4)
            else
              let (clazz', s5) = call env (New_global_ref clazz) s4 in
              if clazz' = 0 then (JNI_EVERSION, s5)
              else (JNI_VERSION_1_4,
                    s5\<lparr>Sctp_clazz := clazz', Sctp_receiveCb := receiveCb, Sctp_sendCb := sendCb, Sctp_vm := vm\<rparr>))"

definition JNI_OnUnload :: "env \<Rightarrow> ptr \<Rightarrow> jni \<Rightarrow> jni" where
  "JNI_OnUnload env vm s =
     (let clazz = Sctp_clazz s;
          s1 = s\<lparr>Sctp_clazz := 0, Sctp_receiveCb := 0, Sctp_sendCb := 0, Sctp_vm := 0\<rparr> in
      if clazz \<noteq> 0 then
        let (r, s2) = call env Attach s1 in
        if r = 0 then perform env (Delete_global_ref clazz) s2 else s2
      else s1)"

section \<open>Resources\<close>

text \<open>What a trace leaves open: stack sockets, and memory of socket objects.\<close>

fun open_step :: "ptr set \<Rightarrow> ev \<times> int \<Rightarrow> ptr set" where
  "open_step S (Usrsctp_socket p, r) = (if r = 0 then S else insert r S)"
| "open_step S (Accept p, r) = (if r = 0 then S else insert r S)"
| "open_step S (Close p, r) = S - {p}"
| "open_step S _ = S"

fun mem_step :: "ptr set \<Rightarrow> ev \<times> int \<Rightarrow> ptr set" where
  "mem_step S (Malloc, r) = (if r = 0 then S else insert r S)"
| "mem_step S (Free p, r) = S - {p}"
| "mem_step S _ = S"

definition open_socks :: "(ev \<times> int) list \<Rightarrow> ptr set" where
  "open_socks tr = foldl open_step {} tr"

definition live_mem :: "(ev \<times> int) list \<Rightarrow> ptr set" where
  "live_mem tr = foldl mem_step {} tr"

fun neutral :: "ev \<Rightarrow> bool" where
  "neutral (Usrsctp_socket p) = False"
| "neutral (Accept p) = False"
| "neutral (Close p) = False"
| "neutral Malloc = False"
| "neutral (Free p) = False"
| "neutral _ = True"

lemma neutral_steps: "neutral e \<Longrightarrow> open_step S (e, r) = S \<and> mem_step S (e, r) = S"
  by (cases e) auto

lemma ledger_append [simp]:
  "open_socks (tr @ xs) = foldl open_step (open_socks tr) xs" "live_mem (tr @ xs) = foldl mem_step (live_mem tr) xs"
  by (simp_all add: open_socks_def live_mem_def)

text \<open>The resources of a state; most operations leave them alone.\<close>

definition res :: "jni \<Rightarrow> (ptr \<Rightarrow> sctp_socket option) \<times> ptr set \<times> ptr set" where
  "res s = (sockets s, open_socks (trace s), live_mem (trace s))"

lemma res_call [simp]: "neutral e \<Longrightarrow> res (snd (call env e s)) = res s"
  by (simp add: res_def call_def Let_def neutral_steps)

lemma res_globals [simp]:
  "res (s\<lparr>Sctp_clazz := a\<rparr>) = res s" "res (s\<lparr>Sctp_receiveCb := a\<rparr>) = res s"
  "res (s\<lparr>Sctp_sendCb := a\<rparr>) = res s" "res (s\<lparr>Sctp_vm := a\<rparr>) = res s"
  by (simp_all add: res_def)

lemma res_subscribe [simp]: "res (snd (subscribe_events env so ts s)) = res s"
  by (induction ts arbitrary: s) (simp_all add: case_prod_beta)

lemma res_configure [simp]: "res (snd (configure_socket env so s)) = res s"
  by (simp add: configure_socket_def Let_def case_prod_beta)

lemma res_connect: "connectSctp env ptr port s = Some (r, s') \<Longrightarrow> res s' = res s"
  by (auto simp: connectSctp_def Let_def case_prod_beta split: if_splits bind_splits)

lemma res_listen: "usrsctp_listen env ptr s = Some s' \<Longrightarrow> res s' = res s"
  by (auto simp: usrsctp_listen_def Let_def case_prod_beta split: if_splits bind_splits)

lemma res_shutdown: "usrsctp_shutdown env ptr how s = Some (r, s') \<Longrightarrow> res s' = res s"
  by (auto simp: usrsctp_shutdown_def call_def res_def Let_def split: bind_splits)

lemma res_send: "usrsctp_send env ptr d off len ord sid ppid s = Some (r, s') \<Longrightarrow> res s' = res s"
  by (auto simp: usrsctp_send_def Let_def case_prod_beta split: if_splits bind_splits)

lemma res_network_in: "res (on_network_in env ptr pkt off len s) = res s"
  by (simp add: on_network_in_def Let_def case_prod_beta)

lemma res_finish_loop: "res (snd (finish_loop env n s)) = res s"
  by (induction env n s rule: finish_loop.induct) (subst finish_loop.simps, auto simp: case_prod_beta)

lemma res_finish: "res (snd (usrsctp_finish env s)) = res s"
  using res_finish_loop by (simp add: usrsctp_finish_def case_prod_beta)

lemma res_init: "res (snd (usrsctp_init env port s)) = res s"
  by (simp add: usrsctp_init_def Let_def)

lemma res_upcall [simp]: "res (callOnSctpInboundPacket env p d sid ssn tsn ppid ctx flags s) = res s"
  by (simp add: callOnSctpInboundPacket_def Let_def case_prod_beta)

lemma res_outbound: "res (snd (onSctpOutboundPacket env addr b tos df s)) = res s"
  by (simp add: onSctpOutboundPacket_def callOnSctpOutboundPacket_def Let_def case_prod_beta split: option.split)

lemma res_load: "res (snd (JNI_OnLoad env vm s)) = res s"
  by (simp add: JNI_OnLoad_def Let_def case_prod_beta)

lemma res_unload: "res (JNI_OnUnload env vm s) = res s"
  by (simp add: JNI_OnUnload_def Let_def case_prod_beta)

text \<open>The operations that open and close.\<close>

lemma res_give_up:
  "give_up env msg p s = (p', s') \<Longrightarrow>
     p' = 0 \<and> res s' = ((sockets s)(p := None), open_socks (trace s), live_mem (trace s) - {p})"
  by (auto simp: give_up_def Let_def res_def call_def)

lemma res_simps: "res s = (a, b, c) \<longleftrightarrow> sockets s = a \<and> open_socks (trace s) = b \<and> live_mem (trace s) = c"
  by (auto simp: res_def)

text \<open>The stack socket the call creates, asked for with the ledger of the state before the call.\<close>

lemma socket_cases:
  assumes "usrsctp_socket env g port s = (p', s')"
  obtains (no_memory) "env (trace s) Malloc = 0" "p' = 0" "res s' = res s"
  | (no_socket) p where "p = env (trace s) Malloc" "p \<noteq> 0" "p' = 0"
      "res s' = ((sockets s)(p := None), open_socks (trace s), live_mem (trace s) - {p})"
  | (no_option) p so tr where "p = env (trace s) Malloc" "p \<noteq> 0" "so = env tr (Usrsctp_socket p)" "so \<noteq> 0"
      "open_socks tr = open_socks (trace s)" "p' = 0"
      "res s' = ((sockets s)(p := None), insert so (open_socks (trace s)), live_mem (trace s) - {p})"
  | (created) p so tr where "p = env (trace s) Malloc" "p \<noteq> 0" "so = env tr (Usrsctp_socket p)" "so \<noteq> 0"
      "open_socks tr = open_socks (trace s)" "p' = p"
      "res s' = ((sockets s)(p \<mapsto> \<lparr>sock_so = so, sock_localPort = port\<rparr>), insert so (open_socks (trace s)),
         insert p (live_mem (trace s)))"
proof -
  define p where "p = env (trace s) Malloc"
  define s1 where "s1 = perform env Malloc s"
  define s2 where "s2 = perform env (Register_address p) (s1\<lparr>sockets := (sockets s1)(p \<mapsto> g)\<rparr>)"
  define so where "so = env (trace s2) (Usrsctp_socket p)"
  define s3 where "s3 = perform env (Usrsctp_socket p) s2"
  have c1: "call env Malloc s = (p, s1)" and c2: "call env (Usrsctp_socket p) s2 = (so, s3)"
    by (simp_all add: call_def Let_def p_def s1_def so_def s3_def)
  show thesis
  proof (cases "p = 0")
    case True
    then have "p' = 0 \<and> res s' = res s"
      using assms by (auto simp: usrsctp_socket_def call_def p_def Let_def res_def)
    then show ?thesis using True no_memory p_def by simp
  next
    case p: False
    have l2: "open_socks (trace s2) = open_socks (trace s)" "live_mem (trace s2) = insert p (live_mem (trace s))"
      "sockets s2 = (sockets s)(p \<mapsto> g)"
      using p by (simp_all add: s2_def s1_def call_def Let_def p_def)
    have l3: "open_socks (trace s3) = (if so = 0 then open_socks (trace s) else insert so (open_socks (trace s)))"
      "live_mem (trace s3) = insert p (live_mem (trace s))" "sockets s3 = (sockets s)(p \<mapsto> g)"
      using l2 by (auto simp: s3_def call_def Let_def so_def)
    have eq: "usrsctp_socket env g port s = (if so = 0 then give_up env ''usrsctp_socket'' p s3 else
         (case configure_socket env so s3 of (Some msg, s4) \<Rightarrow> give_up env msg p s4
          | (None, s4) \<Rightarrow> (p, s4\<lparr>sockets := (sockets s4)(p \<mapsto> \<lparr>sock_so = so, sock_localPort = port\<rparr>)\<rparr>)))"
      using p c1 c2 by (simp add: usrsctp_socket_def Let_def flip: s2_def)
    show ?thesis
    proof (cases "so = 0")
      case True
      then show ?thesis
        using no_socket [OF p_def p] eq assms res_give_up [of env "''usrsctp_socket''" p s3 p' s'] l3 by auto
    next
      case so: False
      obtain msg s4 where c: "configure_socket env so s3 = (msg, s4)" by fastforce
      then have l4: "res s4 = res s3" using res_configure [of env so s3] by simp
      show ?thesis
      proof (cases msg)
        case None
        then show ?thesis
          using created [OF p_def p so_def so l2(1)] eq assms c so l4 l3 by (auto simp: res_def)
      next
        case (Some m)
        then show ?thesis
          using no_option [OF p_def p so_def so l2(1)] eq assms c so l4 l3 res_give_up [of env m p s4 p' s']
          by (auto simp: res_def)
      qed
    qed
  qed
qed

text \<open>Every handle owns an open stack socket of its own.\<close>

definition owned :: "jni \<Rightarrow> bool" where
  "owned s \<longleftrightarrow> dom (sockets s) \<subseteq> live_mem (trace s) \<and>
     (\<forall>p k. sockets s p = Some k \<longrightarrow> sock_so k \<in> open_socks (trace s)) \<and>
     (\<forall>p q k l. sockets s p = Some k \<longrightarrow> sockets s q = Some l \<longrightarrow> sock_so k = sock_so l \<longrightarrow> p = q)"

text \<open>The allocator and the stack never hand out what is still in use.\<close>

definition env_fresh :: "env \<Rightarrow> bool" where
  "env_fresh env \<longleftrightarrow> (\<forall>tr p. env tr Malloc \<notin> live_mem tr \<and> env tr (Usrsctp_socket p) \<notin> open_socks tr \<and>
     env tr (Accept p) \<notin> open_socks tr)"

lemma owned_cong: "res s' = res s \<Longrightarrow> owned s \<Longrightarrow> owned s'"
  by (auto simp: owned_def res_def)

lemma owned_socket:
  assumes "env_fresh env" "owned s" "usrsctp_socket env g port s = (p', s')"
  shows "owned s'"
  using assms(3)
proof (cases rule: socket_cases)
  case no_memory
  then show ?thesis using assms(2) owned_cong by blast
next
  case (no_socket p)
  then have "sockets s p = None" using assms(1,2) by (auto simp: owned_def env_fresh_def)
  then have "(sockets s)(p := None) = sockets s" by auto
  then show ?thesis using no_socket(4) assms(1,2) no_socket(1) by (auto simp: owned_def res_def env_fresh_def)
next
  case (no_option p so tr)
  then have "sockets s p = None" using assms(1,2) by (auto simp: owned_def env_fresh_def)
  then have "(sockets s)(p := None) = sockets s" by auto
  then show ?thesis using no_option(1,7) assms(1,2) by (auto simp: owned_def res_def env_fresh_def)
next
  case (created p so tr)
  then have "so \<notin> open_socks (trace s)" using assms(1) by (metis env_fresh_def)
  then show ?thesis using created(7) assms(2) by (auto simp: owned_def res_def split: if_splits)
qed

lemma owned_close:
  assumes "owned s" "usrsctp_close env ptr s = Some s'"
  shows "owned s' \<and> (\<exists>k. sockets s ptr = Some k \<and> sock_so k \<in> open_socks (trace s) \<and>
    open_socks (trace s') = open_socks (trace s) - {sock_so k} \<and> sockets s' = (sockets s)(ptr := None))"
proof -
  obtain k where k: "sockets s ptr = Some k" using assms(2) by (auto simp: usrsctp_close_def split: bind_splits)
  then have "sockets s' = (sockets s)(ptr := None) \<and> open_socks (trace s') = open_socks (trace s) - {sock_so k} \<and>
      live_mem (trace s') = live_mem (trace s) - {ptr}"
    using assms(2) by (auto simp: usrsctp_close_def call_def Let_def)
  then show ?thesis using assms(1) k unfolding owned_def by (auto split: if_splits)
qed

lemma owned_accept:
  assumes "env_fresh env" "owned s" "usrsctp_accept env ptr s = Some (r, s')"
  shows "owned s'"
proof -
  obtain k where k: "sockets s ptr = Some k" using assms(3) by (auto simp: usrsctp_accept_def split: bind_splits)
  define so where "so = env (trace s) (Accept (sock_so k))"
  have fresh: "so \<notin> open_socks (trace s)" using assms(1) by (simp add: so_def env_fresh_def)
  have old: "sock_so k \<in> open_socks (trace s)" using assms(2) k by (auto simp: owned_def)
  have r: "if so \<noteq> 0 then sockets s' = (sockets s)(ptr \<mapsto> k\<lparr>sock_so := so\<rparr>) \<and>
      open_socks (trace s') = insert so (open_socks (trace s)) - {sock_so k} \<and> live_mem (trace s') = live_mem (trace s)
    else res s' = res s"
    using assms(3) k by (auto simp: usrsctp_accept_def call_def Let_def so_def res_def)
  show ?thesis
  proof (cases "so = 0")
    case True
    then show ?thesis using r assms(2) owned_cong by simp
  next
    case False
    have "so \<noteq> sock_so k" using fresh old by auto
    then show ?thesis using r False fresh assms(2) k unfolding owned_def by (auto split: if_splits)
  qed
qed

section \<open>Histories\<close>

text \<open>Any sequence of calls from Java and from the stack. Data the stack hands over is not a socket object.\<close>

inductive jni_history :: "env \<Rightarrow> jni \<Rightarrow> bool" for env where
  start: "trace s = [] \<Longrightarrow> sockets s = Map.empty \<Longrightarrow> jni_history env s"
| socket: "jni_history env s \<Longrightarrow> usrsctp_socket env g port s = (p, s') \<Longrightarrow> jni_history env s'"
| accept: "jni_history env s \<Longrightarrow> usrsctp_accept env ptr s = Some (b, s') \<Longrightarrow> jni_history env s'"
| close: "jni_history env s \<Longrightarrow> usrsctp_close env ptr s = Some s' \<Longrightarrow> jni_history env s'"
| connect: "jni_history env s \<Longrightarrow> connectSctp env ptr port s = Some (r, s') \<Longrightarrow> jni_history env s'"
| listen: "jni_history env s \<Longrightarrow> usrsctp_listen env ptr s = Some s' \<Longrightarrow> jni_history env s'"
| shutdown: "jni_history env s \<Longrightarrow> usrsctp_shutdown env ptr how s = Some (r, s') \<Longrightarrow> jni_history env s'"
| send: "jni_history env s \<Longrightarrow> usrsctp_send env ptr d off len ord sid ppid s = Some (r, s') \<Longrightarrow> jni_history env s'"
| network_in: "jni_history env s \<Longrightarrow> jni_history env (on_network_in env ptr d off len s)"
| inbound: "jni_history env s \<Longrightarrow> (\<And>p d. data = Some (p, d) \<Longrightarrow> sockets s p = None) \<Longrightarrow>
    jni_history env (snd (onSctpInboundPacket env data rcv flags ulp s))"
| outbound: "jni_history env s \<Longrightarrow> jni_history env (snd (onSctpOutboundPacket env addr buffer tos df s))"
| finish: "jni_history env s \<Longrightarrow> jni_history env (snd (usrsctp_finish env s))"
| init: "jni_history env s \<Longrightarrow> jni_history env (snd (usrsctp_init env port s))"
| load: "jni_history env s \<Longrightarrow> jni_history env (snd (JNI_OnLoad env vm s))"
| unload: "jni_history env s \<Longrightarrow> jni_history env (JNI_OnUnload env vm s)"

lemma owned_inbound:
  assumes "owned s" "\<And>p d. data = Some (p, d) \<Longrightarrow> sockets s p = None"
  shows "owned (snd (onSctpInboundPacket env data rcv flags ulp s))"
proof (cases data)
  case None
  then show ?thesis using assms(1) by (simp add: onSctpInboundPacket_def)
next
  case (Some pd)
  then obtain p d where pd: "data = Some (p, d)" by (cases pd) auto
  obtain s1 where s1: "snd (onSctpInboundPacket env data rcv flags ulp s) = perform env (Free p) s1" "res s1 = res s"
    by (auto simp: onSctpInboundPacket_def pd Let_def)
  then show ?thesis
    using assms(1) assms(2) [OF pd] by (auto simp: owned_def res_def call_def Let_def)
qed

lemma history_owned:
  assumes "env_fresh env" "jni_history env s"
  shows "owned s"
  using assms(2)
proof induction
  case (start s)
  then show ?case by (simp add: owned_def)
next
  case (socket s g port p s')
  then show ?case using owned_socket [OF assms(1)] by blast
next
  case (accept s ptr b s')
  then show ?case using owned_accept [OF assms(1)] by blast
next
  case (close s ptr s')
  then show ?case using owned_close by blast
next
  case (inbound s data rcv flags ulp)
  then show ?case using owned_inbound by blast
qed (use owned_cong res_connect res_listen res_shutdown res_send res_network_in res_outbound res_finish res_init res_load
    res_unload in metis)+

section \<open>Finishing\<close>

definition finish_results :: "(ev \<times> int) list \<Rightarrow> int list" where
  "finish_results tr = map snd (filter (\<lambda>x. fst x = Finish) tr)"

lemma finish_loop_spec:
  "finish_loop env n s = (c, s') \<Longrightarrow> n \<le> 5 \<Longrightarrow>
     \<exists>rs. finish_results (trace s') = finish_results (trace s) @ rs \<and> length rs = Suc c - n \<and> n \<le> c \<and> c \<le> 5 \<and>
       (\<forall>r \<in> set (butlast rs). r \<noteq> 0) \<and> (c < 5 \<longrightarrow> last rs = 0)"
proof (induction env n s rule: finish_loop.induct)
  case (1 env n s)
  define r where "r = env (trace s) Finish"
  define s1 where "s1 = s\<lparr>trace := trace s @ [(Finish, r)]\<rparr>"
  have c: "call env Finish s = (r, s1)" by (simp add: call_def r_def s1_def Let_def)
  show ?case
  proof (cases "r \<noteq> 0 \<and> n < 5")
    case True
    then have "finish_loop env (n + 1) (perform env (Sleep 1) s1) = (c, s')"
      using "1.prems"(1) c by (simp add: finish_loop.simps [of env n s] del: finish_loop.simps)
    then obtain rs where rs: "finish_results (trace s') = finish_results (trace (perform env (Sleep 1) s1)) @ rs"
      "length rs = Suc c - (n + 1)" "n + 1 \<le> c" "c \<le> 5" "\<forall>r \<in> set (butlast rs). r \<noteq> 0" "c < 5 \<longrightarrow> last rs = 0"
      using "1.IH" [OF c [symmetric] _ _ _] True by fastforce
    have "rs \<noteq> []" using rs(2,3) by auto
    then show ?thesis
      using rs True by (intro exI [of _ "r # rs"]) (auto simp: finish_results_def call_def s1_def Let_def)
  next
    case False
    then show ?thesis
      using 1 c by (intro exI [of _ "[r]"])
        (auto simp: finish_results_def s1_def finish_loop.simps [of env n s] simp del: finish_loop.simps)
  qed
qed

section \<open>Byte order\<close>

lemma bit_above: "32 \<le> n \<Longrightarrow> \<not> bit (w :: u32) n"
  using bit_imp_le_length [of w n] by auto

lemma bit_bswap32:
  assumes "n < 32"
  shows "bit (bswap32 w) n =
    bit w (if n < 8 then n + 24 else if n < 16 then n + 8 else if n < 24 then n - 8 else n - 24)"
proof -
  consider "n < 8" | "8 \<le> n" "n < 16" | "16 \<le> n" "n < 24" | "24 \<le> n" "n < 32" using assms by linarith
  then show ?thesis
    by cases (auto simp: bswap32_def bit_or_iff bit_push_bit_iff bit_take_bit_iff bit_drop_bit_eq bit_above add.commute)
qed

lemma bswap32_bswap32 [simp]: "bswap32 (bswap32 w) = w"
proof (rule bit_word_eqI)
  fix n assume "n < LENGTH(32)"
  then consider "n < 8" | "8 \<le> n" "n < 16" | "16 \<le> n" "n < 24" | "24 \<le> n" "n < 32" by fastforce
  then show "bit (bswap32 (bswap32 w)) n = bit w n" by cases (auto simp: bit_bswap32)
qed

section \<open>Theorems\<close>

text \<open>C17. Handles own their sockets: if the allocator and the stack hand out only what is not in use, then in every
  history of native calls each live handle refers to allocated memory and to an open stack socket, and different
  handles refer to different sockets. So accept, send, connect, listen, shutdown and close on a live handle
  all return, and closing a handle closes exactly its own, still open, socket.\<close>

theorem handles_own_sockets:
  assumes "env_fresh env" "jni_history env s" "sockets s ptr = Some k"
  shows "ptr \<in> live_mem (trace s) \<and> sock_so k \<in> open_socks (trace s) \<and>
    (\<forall>q l. sockets s q = Some l \<and> q \<noteq> ptr \<longrightarrow> sock_so l \<noteq> sock_so k) \<and>
    usrsctp_accept env ptr s \<noteq> None \<and> usrsctp_send env ptr d off len ord sid ppid s \<noteq> None \<and>
    usrsctp_connect env ptr port s \<noteq> None \<and> usrsctp_listen env ptr s \<noteq> None \<and> usrsctp_shutdown env ptr how s \<noteq> None \<and>
    (\<exists>s'. usrsctp_close env ptr s = Some s' \<and> open_socks (trace s') = open_socks (trace s) - {sock_so k} \<and>
       sockets s' = (sockets s)(ptr := None) \<and> usrsctp_close env ptr s' = None)"
proof -
  have o: "owned s" using history_owned [OF assms(1,2)] .
  have "sockets (perform env e s) = sockets s" for e by (simp add: call_def Let_def)
  then have "usrsctp_send env ptr d off len ord sid ppid s \<noteq> None"
    using assms(3) by (simp add: usrsctp_send_def Let_def case_prod_beta)
  moreover have "usrsctp_accept env ptr s \<noteq> None" "usrsctp_connect env ptr port s \<noteq> None" "usrsctp_listen env ptr s \<noteq> None"
    "usrsctp_shutdown env ptr how s \<noteq> None"
    using assms(3) by (simp_all add: usrsctp_accept_def usrsctp_connect_def connectSctp_def usrsctp_listen_def
        usrsctp_shutdown_def Let_def case_prod_beta)
  moreover obtain s' where s': "usrsctp_close env ptr s = Some s'"
    using assms(3) by (auto simp: usrsctp_close_def Let_def)
  moreover have "open_socks (trace s') = open_socks (trace s) - {sock_so k} \<and> sockets s' = (sockets s)(ptr := None)"
    using owned_close [OF o s'] assms(3) by auto
  moreover from this have "usrsctp_close env ptr s' = None" by (simp add: usrsctp_close_def)
  ultimately show ?thesis using o assms(3) unfolding owned_def by blast
qed

text \<open>A concrete environment: fresh pointers, and an option call that fails on demand.\<close>

definition fresh_ptr :: "(ev \<times> int) list \<Rightarrow> ptr" where
  "fresh_ptr tr = 1 + foldr (\<lambda>x m. max (snd x) m) tr 0"

fun demo_env :: "bool \<Rightarrow> env" where
  "demo_env bad tr Malloc = fresh_ptr tr"
| "demo_env bad tr (Usrsctp_socket p) = fresh_ptr tr"
| "demo_env bad tr (Accept p) = fresh_ptr tr"
| "demo_env bad tr (Set_non_blocking so n) = (if bad then -1 else 0)"
| "demo_env bad tr (Get_elements d) = 7"
| "demo_env bad tr (New_byte_array n) = 9"
| "demo_env bad tr (Get_method c n d) = 5"
| "demo_env bad tr (Find_class n) = 6"
| "demo_env bad tr (New_global_ref c) = 8"
| "demo_env bad tr _ = 0"

definition demo_jni :: jni where
  "demo_jni = \<lparr>trace = [], sockets = Map.empty, Sctp_clazz = 0, Sctp_receiveCb = 0, Sctp_sendCb = 0, Sctp_vm = 0\<rparr>"

lemma fresh_ptr_above: "r \<in> snd ` set tr \<Longrightarrow> r < fresh_ptr tr"
proof -
  have "r \<in> snd ` set tr \<Longrightarrow> r \<le> foldr (\<lambda>x m. max (snd x) m) tr 0" by (induction tr) (auto simp: le_max_iff_disj)
  then show "r \<in> snd ` set tr \<Longrightarrow> r < fresh_ptr tr" by (simp add: fresh_ptr_def)
qed

lemma ledger_results: "open_socks tr \<subseteq> snd ` set tr" "live_mem tr \<subseteq> snd ` set tr"
proof -
  have o: "open_step S x \<subseteq> insert (snd x) S" "mem_step S x \<subseteq> insert (snd x) S" for S x
    by (cases x; cases "fst x"; auto)+
  show "open_socks tr \<subseteq> snd ` set tr"
    by (induction tr rule: rev_induct) (use o(1) in \<open>auto simp: open_socks_def dest!: subsetD [OF o(1)]\<close>)
  show "live_mem tr \<subseteq> snd ` set tr"
    by (induction tr rule: rev_induct) (use o(2) in \<open>auto simp: live_mem_def dest!: subsetD [OF o(2)]\<close>)
qed

lemma demo_env_fresh: "env_fresh (demo_env bad)"
  using fresh_ptr_above ledger_results by (fastforce simp: env_fresh_def)

lemma demo_start: "jni_history env demo_jni"
  by (rule jni_history.start) (simp_all add: demo_jni_def)

lemmas socket_eval = usrsctp_socket_def configure_socket_def give_up_def call_def Let_def demo_jni_def
  SCTP_EVENT_TYPES_def fresh_ptr_def

lemma demo_socket:
  "fst (usrsctp_socket (demo_env False) \<lparr>sock_so = 0, sock_localPort = 0\<rparr> 5000 demo_jni) = 1"
  "sockets (snd (usrsctp_socket (demo_env False) \<lparr>sock_so = 0, sock_localPort = 0\<rparr> 5000 demo_jni)) 1 =
     Some \<lparr>sock_so = 2, sock_localPort = 5000\<rparr>"
  by (simp_all add: socket_eval)

definition demo_open :: jni where
  "demo_open = snd (usrsctp_socket (demo_env False) \<lparr>sock_so = 0, sock_localPort = 0\<rparr> 5000 demo_jni)"

lemma demo_open_history: "jni_history (demo_env False) demo_open"
  unfolding demo_open_def by (rule jni_history.socket [OF demo_start]) (rule surjective_pairing)

theorem handles_own_sockets_witness:
  "sockets demo_open 1 = Some \<lparr>sock_so = 2, sock_localPort = 5000\<rparr> \<and>
   (\<exists>s'. usrsctp_close (demo_env False) 1 demo_open = Some s' \<and> usrsctp_close (demo_env False) 1 s' = None)"
  using handles_own_sockets [OF demo_env_fresh demo_open_history, of 1 "\<lparr>sock_so = 2, sock_localPort = 5000\<rparr>" "[]" 0 0 True 0 0 0 0]
    demo_socket(2) by (auto simp: demo_open_def)

text \<open>A socket call that fails after the stack socket was created leaks it: the call returns 0 and frees the
  handle's memory, but exactly one new stack socket stays open, no handle owns it, and the memory that was given
  to the stack as its callback argument and registered as an address is free.\<close>

theorem failed_setup_leaks:
  assumes "env_fresh env" "jni_history env s" "usrsctp_socket env g port s = (0, s')"
    and "open_socks (trace s') \<noteq> open_socks (trace s)"
  shows "\<exists>so p tr. so = env tr (Usrsctp_socket p) \<and> so \<notin> open_socks (trace s) \<and>
    open_socks (trace s') = insert so (open_socks (trace s)) \<and> p \<notin> live_mem (trace s') \<and>
    sockets s' = sockets s \<and> (\<forall>q k. sockets s' q = Some k \<longrightarrow> sock_so k \<noteq> so)"
  using assms(3)
proof (cases rule: socket_cases)
  case (no_option p so tr)
  have o: "owned s" using history_owned [OF assms(1,2)] .
  then have "sockets s p = None" using no_option(1) assms(1) by (auto simp: owned_def env_fresh_def)
  then have "(sockets s)(p := None) = sockets s" by auto
  moreover have fresh: "so \<notin> open_socks (trace s)" using no_option(3,5) assms(1) by (metis env_fresh_def)
  moreover have "\<forall>q k. sockets s q = Some k \<longrightarrow> sock_so k \<noteq> so" using o fresh by (auto simp: owned_def)
  ultimately show ?thesis using no_option(3,7) by (intro exI [of _ so] exI [of _ p] exI [of _ tr]) (simp add: res_def)
qed (use assms(4) in \<open>auto simp: res_def\<close>)

theorem failed_setup_leaks_witness:
  "\<exists>s'. usrsctp_socket (demo_env True) \<lparr>sock_so = 0, sock_localPort = 0\<rparr> 5000 demo_jni = (0, s') \<and>
     (\<exists>so. so \<in> open_socks (trace s') \<and> (\<forall>q k. sockets s' q = Some k \<longrightarrow> sock_so k \<noteq> so))"
proof -
  obtain s' where s': "usrsctp_socket (demo_env True) \<lparr>sock_so = 0, sock_localPort = 0\<rparr> 5000 demo_jni = (0, s')"
      "open_socks (trace s') = {2}"
    by (simp add: socket_eval open_socks_def)
  then have "open_socks (trace s') \<noteq> open_socks (trace demo_jni)" by (simp add: demo_jni_def open_socks_def)
  then show ?thesis using failed_setup_leaks [OF demo_env_fresh demo_start s'(1)] s'(1) by blast
qed

text \<open>Shutting the stack down calls it at most six times, pausing in between, and stops after the first call that
  succeeds. The method reports success exactly when at most five calls were needed; a success of the sixth call is
  reported as a failure.\<close>

theorem finish_verdict:
  assumes "usrsctp_finish env s = (done, s')"
  shows "\<exists>rs. finish_results (trace s') = finish_results (trace s) @ rs \<and> 1 \<le> length rs \<and> length rs \<le> 6 \<and>
    (\<forall>r \<in> set (butlast rs). r \<noteq> 0) \<and> (done \<longleftrightarrow> length rs \<le> 5) \<and> (done \<longrightarrow> last rs = 0)"
proof -
  obtain c where c: "finish_loop env 0 s = (c, s')" "done \<longleftrightarrow> c < 5"
    using assms by (auto simp: usrsctp_finish_def not_le simp del: finish_loop.simps split: prod.splits)
  then show ?thesis using finish_loop_spec [OF c(1)] by fastforce
qed

fun stubborn :: env where
  "stubborn tr e = (if e = Finish \<and> length (finish_results tr) < 5 then -1 else 0)"

theorem finish_verdict_witness:
  "\<exists>s' rs. usrsctp_finish stubborn demo_jni = (False, s') \<and> finish_results (trace s') = rs \<and> length rs = 6 \<and> last rs = 0"
proof -
  have run: "usrsctp_finish stubborn demo_jni = (False, s') \<and> finish_results (trace s') = [-1, -1, -1, -1, -1, 0]"
    if "s' = snd (usrsctp_finish stubborn demo_jni)" for s'
    unfolding that by (simp add: usrsctp_finish_def finish_loop.simps call_def demo_jni_def finish_results_def Let_def)
  then show ?thesis using finish_verdict [of stubborn demo_jni False] by fastforce
qed

text \<open>The events of an upcall, whatever the environment answers to the calls that are not tested.\<close>

lemma call_events: "map fst (trace (snd (call env e s))) = map fst (trace s) @ [e]"
  by (simp add: call_def Let_def)

lemma call_globals:
  "Sctp_vm (snd (call env e s)) = Sctp_vm s" "Sctp_clazz (snd (call env e s)) = Sctp_clazz s"
  "Sctp_receiveCb (snd (call env e s)) = Sctp_receiveCb s" "Sctp_sendCb (snd (call env e s)) = Sctp_sendCb s"
  by (simp_all add: call_def Let_def)

lemma inbound_events:
  assumes "Sctp_vm s \<noteq> 0" "Sctp_clazz s \<noteq> 0" "Sctp_receiveCb s \<noteq> 0" "fst (call env Attach s) = 0"
    and "fst (call env (New_byte_array (int (length d))) (perform env Attach s)) = a" "a \<noteq> 0"
  shows "map fst (trace (callOnSctpInboundPacket env u d sid ssn tsn ppid ctx flags s)) = map fst (trace s) @
    [Attach, New_byte_array (int (length d)), Set_region a d,
     Call_receive (Sctp_clazz s) (Sctp_receiveCb s)
       [u, a, uint sid, uint ssn, sint tsn, uint (bswap32 ppid), uint ctx, flags],
     Exception_clear, Delete_local_ref a]"
  using assms unfolding callOnSctpInboundPacket_def by (simp add: Let_def case_prod_beta call_events call_globals)

text \<open>C18. Payload identifiers and stream numbers survive the native layer: whatever Java passes to send, when the
  stack delivers a message with the stream number and the identifier it was given, exactly one Java upcall
  receives the identifier as an unsigned 32-bit number and the stream number as an unsigned 16-bit number; the
  received buffer is freed, a pending exception is cleared and the local reference is deleted.\<close>

theorem message_roundtrip:
  assumes "sockets s ptr = Some k" "env (trace s) (Get_elements d) \<noteq> 0"
    and "Sctp_vm r \<noteq> 0" "Sctp_clazz r \<noteq> 0" "Sctp_receiveCb r \<noteq> 0" "env' (trace r) Attach = 0"
    and "\<And>tr n. env' tr (New_byte_array n) \<noteq> 0" "flags AND MSG_NOTIFICATION = 0"
  shows "\<exists>sndinfo x s'. usrsctp_send env ptr d off len ordered sid ppid s = Some (x, s') \<and>
    Sendv (sock_so k) d off len sndinfo \<in> fst ` set (trace s') \<and>
    (snd_flags sndinfo = (if ordered then 0 else SCTP_UNORDERED)) \<and>
    (\<forall>rcv p u. rcv_sid rcv = snd_sid sndinfo \<and> rcv_ppid rcv = snd_ppid sndinfo \<longrightarrow>
      (\<exists>a. map fst (trace (snd (onSctpInboundPacket env' (Some (p, d)) rcv flags u r))) = map fst (trace r) @
        [Attach, New_byte_array (int (length d)), Set_region a d,
         Call_receive (Sctp_clazz r) (Sctp_receiveCb r) [u, a, sid mod 2 ^ 16, uint (rcv_ssn rcv), sint (rcv_tsn rcv),
           ppid mod 2 ^ 32, uint (rcv_context rcv) mod 2 ^ 16, flags],
         Exception_clear, Delete_local_ref a, Free p]))"
proof -
  let ?i = "\<lparr>snd_sid = of_int sid, snd_flags = (if \<not> ordered then SCTP_UNORDERED else 0), snd_ppid = bswap32 (of_int ppid)\<rparr>"
  obtain x s' where sent: "usrsctp_send env ptr d off len ordered sid ppid s = Some (x, s')"
      "Sendv (sock_so k) d off len ?i \<in> fst ` set (trace s')"
    using assms(1,2) by (auto simp: usrsctp_send_def call_def Let_def)
  have got: "\<exists>a. map fst (trace (snd (onSctpInboundPacket env' (Some (p, d)) rcv flags u r))) = map fst (trace r) @
        [Attach, New_byte_array (int (length d)), Set_region a d,
         Call_receive (Sctp_clazz r) (Sctp_receiveCb r) [u, a, sid mod 2 ^ 16, uint (rcv_ssn rcv), sint (rcv_tsn rcv),
           ppid mod 2 ^ 32, uint (rcv_context rcv) mod 2 ^ 16, flags],
         Exception_clear, Delete_local_ref a, Free p]"
    if "rcv_sid rcv = snd_sid ?i" "rcv_ppid rcv = snd_ppid ?i" for rcv p u
  proof -
    have vals: "uint (rcv_sid rcv) = sid mod 2 ^ 16" "uint (bswap32 (rcv_ppid rcv)) = ppid mod 2 ^ 32"
      "uint (ucast (rcv_context rcv) :: u16) = uint (rcv_context rcv) mod 2 ^ 16"
      using that by (simp_all add: uint_word_of_int unsigned_ucast_eq take_bit_eq_mod)
    let ?a = "fst (call env' (New_byte_array (int (length d))) (perform env' Attach r))"
    have "fst (call env' Attach r) = 0" "?a \<noteq> 0" using assms(6,7) by (simp_all add: call_def Let_def)
    note ev = inbound_events [OF assms(3-5) this(1) refl this(2), where u = u and sid = "rcv_sid rcv"
      and ssn = "rcv_ssn rcv" and tsn = "rcv_tsn rcv" and ppid = "rcv_ppid rcv"
      and ctx = "ucast (rcv_context rcv)" and flags = flags]
    show ?thesis
      by (rule exI [of _ ?a]) (use ev assms(8) in \<open>simp add: onSctpInboundPacket_def call_events vals\<close>)
  qed
  show ?thesis
    by (rule exI [of _ ?i], rule exI [of _ x], rule exI [of _ s'], intro conjI allI impI)
      (rule sent, rule sent, simp, elim conjE, rule got, assumption+)
qed

definition demo_loaded :: jni where
  "demo_loaded = snd (JNI_OnLoad (demo_env False) 3 demo_jni)"

lemma demo_loaded: "Sctp_vm demo_loaded = 3" "Sctp_clazz demo_loaded = 8" "Sctp_receiveCb demo_loaded = 5"
  by (simp_all add: demo_loaded_def JNI_OnLoad_def call_def Let_def demo_jni_def)

lemma demo_handle: "sockets demo_open 1 = Some \<lparr>sock_so = 2, sock_localPort = 5000\<rparr>"
  using demo_socket(2) by (simp add: demo_open_def)

theorem message_roundtrip_witness:
  "\<exists>sndinfo x s'. usrsctp_send (demo_env False) 1 [1, 2] 0 2 False (- 1) (- 1) demo_open = Some (x, s') \<and>
    Sendv (sock_so \<lparr>sock_so = 2, sock_localPort = 5000\<rparr>) [1, 2] 0 2 sndinfo \<in> fst ` set (trace s') \<and>
    snd_flags sndinfo = (if False then 0 else SCTP_UNORDERED) \<and>
    (\<forall>rcv p u. rcv_sid rcv = snd_sid sndinfo \<and> rcv_ppid rcv = snd_ppid sndinfo \<longrightarrow>
      (\<exists>a. map fst (trace (snd (onSctpInboundPacket (demo_env False) (Some (p, [1, 2])) rcv 0 u demo_loaded))) =
        map fst (trace demo_loaded) @
        [Attach, New_byte_array (int (length [1 :: u8, 2])), Set_region a [1, 2],
         Call_receive (Sctp_clazz demo_loaded) (Sctp_receiveCb demo_loaded)
           [u, a, (- 1) mod 2 ^ 16, uint (rcv_ssn rcv), sint (rcv_tsn rcv), (- 1) mod 2 ^ 32,
            uint (rcv_context rcv) mod 2 ^ 16, 0],
         Exception_clear, Delete_local_ref a, Free p]))"
  by (rule message_roundtrip [OF demo_handle]) (simp_all add: demo_loaded)

end
