(* ===== verification/Mbuf.thy ===== *)
theory Mbuf
  imports Prelude
begin

text \<open>
  The mbuf layer of \<^verbatim>\<open>user_mbuf.c\<close> on an explicit heap: mbufs, the clusters they share, the reference
  counters of the clusters, and packet tags. \<^verbatim>\<open>None\<close> is undefined behaviour: a NULL or dangling
  pointer, or a copy outside a buffer. Memory comes from \<^verbatim>\<open>malloc\<close>, which may fail; which allocations
  succeed and what the memory holds at first are fields of the heap, and addresses are not used
  twice. The mbuf's union is modelled by its members side by side. Its internal buffer has \<^verbatim>\<open>MLEN\<close> bytes;
  a packet header takes the first 40, and \<^verbatim>\<open>m_pktdat\<close> is what follows. \<^verbatim>\<open>m_data\<close> is the offset in the
  cluster when there is one and in the internal buffer otherwise. Lengths and offsets are natural numbers: the code
  asserts that they are not negative, and a chain of less than \<open>2 ^ 31\<close> bytes keeps every sum within \<^verbatim>\<open>int\<close>.
\<close>

section \<open>Data\<close>

definition MLEN :: nat where "MLEN = 216"
definition MHLEN :: nat where "MHLEN = 176"
definition MINCLSIZE :: nat where "MINCLSIZE = MHLEN + 1"
definition MCLBYTES :: nat where "MCLBYTES = 2048"
definition M_COPYALL :: nat where "M_COPYALL = 1000000000"
definition max_protohdr :: nat where "max_protohdr = 5"

definition M_EXT :: u32 where "M_EXT = 0x0001"
definition M_PKTHDR :: u32 where "M_PKTHDR = 0x0002"
definition M_RDONLY :: u32 where "M_RDONLY = 0x0008"
definition M_NOFREE :: u32 where "M_NOFREE = 0x40000"
definition M_COPYFLAGS :: u32 where "M_COPYFLAGS = 0x33FFE"

definition EXT_CLUSTER :: int where "EXT_CLUSTER = 1"
definition MT_NOINIT :: int where "MT_NOINIT = 255"

text \<open>The offset of \<^verbatim>\<open>m_pktdat\<close> in the internal buffer.\<close>

definition PKTDAT :: nat where "PKTDAT = MLEN - MHLEN"

record m_tag =
  m_tag_id :: u16
  m_tag_cookie :: u32
  m_tag_content :: bytes

record pkthdr =
  rcvif :: "nat option"
  ph_header :: "nat option"
  ph_len :: int
  csum_flags :: int
  csum_data :: int
  tso_segsz :: u16
  ether_vtag :: u16
  ph_tags :: "nat list"

record m_ext =
  ext_buf :: "nat option"
  ext_size :: nat
  ref_cnt :: "nat option"
  ext_type :: int

record mbuf =
  m_next :: "nat option"
  m_nextpkt :: "nat option"
  m_data :: nat
  m_len :: nat
  m_flags :: u32
  m_type :: int
  m_pkthdr :: pkthdr
  m_ext_of :: m_ext
  m_dat :: bytes

record mheap =
  mbufs :: "nat \<Rightarrow> mbuf option"
  clusters :: "nat \<Rightarrow> bytes option"
  refs :: "nat \<Rightarrow> nat option"
  mtags :: "nat \<Rightarrow> m_tag option"
  brk :: nat
  new_mbuf :: "nat \<Rightarrow> mbuf option"
  new_clust :: "nat \<Rightarrow> bytes option"
  new_ref :: "nat \<Rightarrow> bool"
  new_tag :: "nat \<Rightarrow> bool"
  m_mcfail :: nat
  m_mpfail :: nat

definition flag :: "mbuf \<Rightarrow> u32 \<Rightarrow> bool" where
  "flag m f \<longleftrightarrow> m_flags m AND f \<noteq> 0"

text \<open>Access through a pointer to an mbuf.\<close>

definition get_mbuf :: "mheap \<Rightarrow> nat option \<Rightarrow> mbuf option" where
  "get_mbuf h p = Option.bind p (mbufs h)"

definition upd_mbuf :: "nat \<Rightarrow> (mbuf \<Rightarrow> mbuf) \<Rightarrow> mheap \<Rightarrow> mheap option" where
  "upd_mbuf a f h = do { m \<leftarrow> mbufs h a; Some (h\<lparr>mbufs := (mbufs h)(a \<mapsto> f m)\<rparr>) }"

text \<open>The buffer that \<^verbatim>\<open>m_data\<close> points into, and copies from and to \<^verbatim>\<open>mtod(m) + off\<close>.\<close>

definition buffer :: "mheap \<Rightarrow> mbuf \<Rightarrow> bytes option" where
  "buffer h m = (if flag m M_EXT then Option.bind (ext_buf (m_ext_of m)) (clusters h) else Some (m_dat m))"

definition copy_from :: "mheap \<Rightarrow> nat \<Rightarrow> nat \<Rightarrow> nat \<Rightarrow> bytes option" where
  "copy_from h a off n = do {
     m \<leftarrow> mbufs h a;
     b \<leftarrow> buffer h m;
     (if m_data m + off + n \<le> length b then Some (take n (drop (m_data m + off) b)) else None)
   }"

definition splice :: "bytes \<Rightarrow> nat \<Rightarrow> bytes \<Rightarrow> bytes" where
  "splice b i xs = take i b @ xs @ drop (i + length xs) b"

definition copy_to :: "nat \<Rightarrow> nat \<Rightarrow> bytes \<Rightarrow> mheap \<Rightarrow> mheap option" where
  "copy_to a off xs h = do {
     m \<leftarrow> mbufs h a;
     b \<leftarrow> buffer h m;
     (if m_data m + off + length xs \<le> length b then
        let b' = splice b (m_data m + off) xs in
        (if flag m M_EXT then map_option (\<lambda>c. h\<lparr>clusters := (clusters h)(c \<mapsto> b')\<rparr>) (ext_buf (m_ext_of m))
         else Some (h\<lparr>mbufs := (mbufs h)(a \<mapsto> m\<lparr>m_dat := b'\<rparr>)\<rparr>))
      else None)
   }"

section \<open>Allocation\<close>

definition mbuf_constructor_dup :: "u32 \<Rightarrow> int \<Rightarrow> mbuf \<Rightarrow> mbuf" where
  "mbuf_constructor_dup flags type m =
     (if type = MT_NOINIT then m
      else
        let m1 = m\<lparr>m_next := None, m_nextpkt := None, m_len := 0, m_flags := flags, m_type := type\<rparr> in
        if flags AND M_PKTHDR \<noteq> 0 then
          m1\<lparr>m_data := PKTDAT, m_pkthdr := \<lparr>rcvif = None, ph_header = None, ph_len = 0, csum_flags = 0,
               csum_data = 0, tso_segsz = 0, ether_vtag = 0, ph_tags = []\<rparr>\<rparr>
        else m1\<lparr>m_data := 0\<rparr>)"

definition alloc_mbuf :: "u32 \<Rightarrow> int \<Rightarrow> mheap \<Rightarrow> nat option \<times> mheap" where
  "alloc_mbuf flags type h =
     (case new_mbuf h (brk h) of
        None \<Rightarrow> (None, h\<lparr>brk := brk h + 1\<rparr>)
      | Some m \<Rightarrow>
          (Some (brk h), h\<lparr>mbufs := (mbufs h)(brk h \<mapsto> mbuf_constructor_dup flags type m), brk := brk h + 1\<rparr>))"

definition m_get :: "int \<Rightarrow> mheap \<Rightarrow> nat option \<times> mheap" where
  "m_get type h = alloc_mbuf 0 type h"

definition m_gethdr :: "int \<Rightarrow> mheap \<Rightarrow> nat option \<times> mheap" where
  "m_gethdr type h = alloc_mbuf M_PKTHDR type h"

text \<open>The reference counter is requested a second time when the first request fails, and written without a test.\<close>

definition clust_constructor_dup :: "nat option \<Rightarrow> nat \<Rightarrow> mheap \<Rightarrow> mheap option" where
  "clust_constructor_dup m_clust a h =
     (let r = (if new_ref h (brk h) then brk h else brk h + 1) in
      if new_ref h r then do {
        h1 \<leftarrow> upd_mbuf a (\<lambda>m. m\<lparr>m_data := 0, m_flags := m_flags m OR M_EXT,
                m_ext_of := \<lparr>ext_buf = m_clust, ext_size = MCLBYTES, ref_cnt = Some r, ext_type = EXT_CLUSTER\<rparr>\<rparr>) h;
        Some (h1\<lparr>refs := (refs h1)(r \<mapsto> 1), brk := r + 1\<rparr>)
      } else None)"

definition m_clget :: "nat option \<Rightarrow> mheap \<Rightarrow> mheap option" where
  "m_clget p h = do {
     a \<leftarrow> p;
     h1 \<leftarrow> upd_mbuf a (\<lambda>m. m\<lparr>m_ext_of := (m_ext_of m)\<lparr>ext_buf := None\<rparr>\<rparr>) h;
     (case new_clust h1 (brk h1) of
        None \<Rightarrow> clust_constructor_dup None a (h1\<lparr>brk := brk h1 + 1\<rparr>)
      | Some b \<Rightarrow>
          clust_constructor_dup (Some (brk h1)) a
            (h1\<lparr>clusters := (clusters h1)(brk h1 \<mapsto> b), brk := brk h1 + 1\<rparr>))
   }"

section \<open>Packet tags\<close>

text \<open>The singly linked list of tags is a list of addresses.\<close>

definition m_tag_delete :: "nat \<Rightarrow> nat \<Rightarrow> mheap \<Rightarrow> mheap option" where
  "m_tag_delete a t h = do {
     m \<leftarrow> mbufs h a;
     (if t \<in> set (ph_tags (m_pkthdr m)) \<and> mtags h t \<noteq> None then do {
        h1 \<leftarrow> upd_mbuf a (\<lambda>m. m\<lparr>m_pkthdr := (m_pkthdr m)\<lparr>ph_tags := remove1 t (ph_tags (m_pkthdr m))\<rparr>\<rparr>) h;
        Some (h1\<lparr>mtags := (mtags h1)(t := None)\<rparr>)
      } else None)
   }"

partial_function (option) delete_tags_after :: "nat \<Rightarrow> nat \<Rightarrow> mheap \<Rightarrow> mheap option" where
  "delete_tags_after a p h =
     Option.bind (mbufs h a) (\<lambda>m.
       case next_in (ph_tags (m_pkthdr m)) p of
         None \<Rightarrow> Some h
       | Some q \<Rightarrow> Option.bind (m_tag_delete a q h) (delete_tags_after a p))"

definition m_tag_delete_chain :: "nat \<Rightarrow> nat option \<Rightarrow> mheap \<Rightarrow> mheap option" where
  "m_tag_delete_chain a t h = do {
     m \<leftarrow> mbufs h a;
     (case (if t \<noteq> None then t else first_of (ph_tags (m_pkthdr m))) of
        None \<Rightarrow> Some h
      | Some p \<Rightarrow> do { h1 \<leftarrow> delete_tags_after a p h; m_tag_delete a p h1 })
   }"

definition m_tag_alloc :: "u32 \<Rightarrow> u16 \<Rightarrow> bytes \<Rightarrow> mheap \<Rightarrow> nat option \<times> mheap" where
  "m_tag_alloc cookie type content h =
     (let t = brk h; h1 = h\<lparr>brk := t + 1\<rparr> in
      if new_tag h t then
        (Some t, h1\<lparr>mtags := (mtags h1)(t \<mapsto> \<lparr>m_tag_id = type, m_tag_cookie = cookie, m_tag_content = content\<rparr>)\<rparr>)
      else (None, h1))"

definition m_tag_copy :: "nat \<Rightarrow> mheap \<Rightarrow> (nat option \<times> mheap) option" where
  "m_tag_copy t h = do {
     g \<leftarrow> mtags h t;
     Some (m_tag_alloc (m_tag_cookie g) (m_tag_id g) (m_tag_content g) h)
   }"

fun copy_tags :: "nat \<Rightarrow> nat option \<Rightarrow> nat list \<Rightarrow> mheap \<Rightarrow> (bool \<times> mheap) option" where
  "copy_tags to tprev [] h = Some (True, h)"
| "copy_tags to tprev (p # ps) h = do {
     (t, h1) \<leftarrow> m_tag_copy p h;
     (case t of
        None \<Rightarrow> map_option (Pair False) (m_tag_delete_chain to None h1)
      | Some t' \<Rightarrow> do {
          h2 \<leftarrow> upd_mbuf to (\<lambda>m. m\<lparr>m_pkthdr := (m_pkthdr m)\<lparr>ph_tags :=
                  (case tprev of None \<Rightarrow> t' # ph_tags (m_pkthdr m)
                   | Some q \<Rightarrow> insert_after q t' (ph_tags (m_pkthdr m)))\<rparr>\<rparr>) h1;
          copy_tags to (Some t') ps h2
        })
   }"

definition m_tag_copy_chain :: "nat \<Rightarrow> nat \<Rightarrow> mheap \<Rightarrow> (bool \<times> mheap) option" where
  "m_tag_copy_chain to from h = do {
     h1 \<leftarrow> m_tag_delete_chain to None h;
     f \<leftarrow> mbufs h1 from;
     copy_tags to None (ph_tags (m_pkthdr f)) h1
   }"

definition hdr_flags :: "mbuf \<Rightarrow> mbuf \<Rightarrow> mbuf" where
  "hdr_flags f t =
     (let t1 = t\<lparr>m_flags := (m_flags f AND M_COPYFLAGS) OR (m_flags t AND M_EXT)\<rparr> in
      if flag t1 M_EXT then t1 else t1\<lparr>m_data := PKTDAT\<rparr>)"

definition m_dup_pkthdr :: "nat \<Rightarrow> nat \<Rightarrow> mheap \<Rightarrow> (bool \<times> mheap) option" where
  "m_dup_pkthdr to from h = do {
     f \<leftarrow> mbufs h from;
     h1 \<leftarrow> upd_mbuf to (\<lambda>t. (hdr_flags f t)\<lparr>m_pkthdr := (m_pkthdr f)\<lparr>ph_tags := []\<rparr>\<rparr>) h;
     m_tag_copy_chain to from h1
   }"

definition m_move_pkthdr :: "nat \<Rightarrow> nat \<Rightarrow> mheap \<Rightarrow> mheap option" where
  "m_move_pkthdr to from h = do {
     f \<leftarrow> mbufs h from;
     h1 \<leftarrow> upd_mbuf to (\<lambda>t. (hdr_flags f t)\<lparr>m_pkthdr := m_pkthdr f\<rparr>) h;
     upd_mbuf from (\<lambda>f. f\<lparr>m_pkthdr := (m_pkthdr f)\<lparr>ph_tags := []\<rparr>, m_flags := m_flags f AND NOT M_PKTHDR\<rparr>) h1
   }"

section \<open>Freeing\<close>

definition mb_dtor_mbuf :: "nat \<Rightarrow> mheap \<Rightarrow> mheap option" where
  "mb_dtor_mbuf a h = do {
     m \<leftarrow> mbufs h a;
     (if flag m M_PKTHDR then m_tag_delete_chain a None h else Some h)
   }"

definition zone_free_mbuf :: "nat \<Rightarrow> mheap \<Rightarrow> mheap option" where
  "zone_free_mbuf a h = do { h1 \<leftarrow> mb_dtor_mbuf a h; Some (h1\<lparr>mbufs := (mbufs h1)(a := None)\<rparr>) }"

definition mb_free_ext :: "nat \<Rightarrow> mheap \<Rightarrow> mheap option" where
  "mb_free_ext a h = do {
     m \<leftarrow> mbufs h a;
     r \<leftarrow> ref_cnt (m_ext_of m);
     old \<leftarrow> refs h r;
     let h1 = h\<lparr>refs := (refs h)(r \<mapsto> (if old = 0 then 2 ^ 32 - 1 else old - 1))\<rparr>;
     h2 \<leftarrow> (if old = 1 \<and> ext_type (m_ext_of m) = EXT_CLUSTER then do {
              h' \<leftarrow> (case ext_buf (m_ext_of m) of
                       None \<Rightarrow> Some h1
                     | Some c \<Rightarrow> if clusters h1 c = None then None else Some (h1\<lparr>clusters := (clusters h1)(c := None)\<rparr>));
              upd_mbuf a (\<lambda>m. m\<lparr>m_ext_of := (m_ext_of m)\<lparr>ref_cnt := None\<rparr>\<rparr>) (h'\<lparr>refs := (refs h')(r := None)\<rparr>)
            } else Some h1);
     (if flag m M_NOFREE then Some h2
      else do {
        h3 \<leftarrow> upd_mbuf a (\<lambda>m. m\<lparr>m_ext_of := \<lparr>ext_buf = None, ext_size = 0, ref_cnt = None, ext_type = 0\<rparr>,
                m_flags := m_flags m AND NOT M_EXT\<rparr>) h2;
        zone_free_mbuf a h3
      })
   }"

definition m_free :: "nat \<Rightarrow> mheap \<Rightarrow> (nat option \<times> mheap) option" where
  "m_free a h = do {
     m \<leftarrow> mbufs h a;
     h1 \<leftarrow> (if flag m M_EXT then mb_free_ext a h
            else if \<not> flag m M_NOFREE then zone_free_mbuf a h
            else Some h);
     Some (m_next m, h1)
   }"

partial_function (option) m_freem :: "nat option \<Rightarrow> mheap \<Rightarrow> mheap option" where
  "m_freem mb h =
     (case mb of None \<Rightarrow> Some h
      | Some a \<Rightarrow> Option.bind (m_free a h) (\<lambda>(n, h1). m_freem n h1))"

section \<open>Reading and copying chains\<close>

text \<open>The first loop of \<^verbatim>\<open>m_copydata\<close> and of \<^verbatim>\<open>m_copym\<close>.\<close>

partial_function (option) skip_mbufs :: "mheap \<Rightarrow> nat option \<Rightarrow> nat \<Rightarrow> (nat option \<times> nat) option" where
  "skip_mbufs h p off =
     (if off > 0 then
        Option.bind (get_mbuf h p) (\<lambda>m. if off < m_len m then Some (p, off) else skip_mbufs h (m_next m) (off - m_len m))
      else Some (p, off))"

partial_function (option) copydata_loop :: "mheap \<Rightarrow> nat option \<Rightarrow> nat \<Rightarrow> nat \<Rightarrow> bytes option" where
  "copydata_loop h p off len =
     (if len > 0 then
        Option.bind p (\<lambda>a. Option.bind (mbufs h a) (\<lambda>m.
          let count = min (m_len m - off) len in
          Option.bind (copy_from h a off count) (\<lambda>xs.
          Option.bind (copydata_loop h (m_next m) 0 (len - count)) (\<lambda>ys. Some (xs @ ys)))))
      else Some [])"

text \<open>The result is what is written to the caller's buffer.\<close>

definition m_copydata :: "mheap \<Rightarrow> nat option \<Rightarrow> nat \<Rightarrow> nat \<Rightarrow> bytes option" where
  "m_copydata h m off len = do { (p, off') \<leftarrow> skip_mbufs h m off; copydata_loop h p off' len }"

partial_function (option) pack_send_buffer :: "mheap \<Rightarrow> nat option \<Rightarrow> bytes option" where
  "pack_send_buffer h mb =
     Option.bind mb (\<lambda>a. Option.bind (mbufs h a) (\<lambda>m.
       Option.bind (copy_from h a 0 (m_len m)) (\<lambda>xs.
       if m_next m = None then Some xs
       else Option.bind (pack_send_buffer h (m_next m)) (\<lambda>ys. Some (xs @ ys)))))"

definition mb_dupcl :: "nat \<Rightarrow> nat \<Rightarrow> mheap \<Rightarrow> mheap option" where
  "mb_dupcl n a h = do {
     m \<leftarrow> mbufs h a;
     r \<leftarrow> ref_cnt (m_ext_of m);
     k \<leftarrow> refs h r;
     upd_mbuf n (\<lambda>x. x\<lparr>m_ext_of := m_ext_of m, m_flags := m_flags x OR M_EXT\<rparr>) (h\<lparr>refs := (refs h)(r \<mapsto> k + 1)\<rparr>)
   }"

text \<open>\<^verbatim>\<open>*np = n\<close>, where \<open>np\<close> is the head of the copy or the link of its last mbuf.\<close>

definition set_link :: "nat option \<Rightarrow> nat option \<Rightarrow> nat option \<times> mheap \<Rightarrow> (nat option \<times> mheap) option" where
  "set_link np n s =
     (case np of
        None \<Rightarrow> Some (n, snd s)
      | Some b \<Rightarrow> map_option (Pair (fst s)) (upd_mbuf b (\<lambda>m. m\<lparr>m_next := n\<rparr>) (snd s)))"

definition copym_nospace :: "nat option \<Rightarrow> mheap \<Rightarrow> (nat option \<times> mheap) option" where
  "copym_nospace topp h = do { h1 \<leftarrow> m_freem topp h; Some (None, h1\<lparr>m_mcfail := m_mcfail h1 + 1\<rparr>) }"

text \<open>Duplicating the header and filling the new mbuf.\<close>

definition copym_header :: "nat \<Rightarrow> nat \<Rightarrow> nat \<Rightarrow> nat \<Rightarrow> mheap \<Rightarrow> (bool \<times> mheap) option" where
  "copym_header b a off0 len h = do {
     (ok, h1) \<leftarrow> m_dup_pkthdr b a h;
     (if ok then
        map_option (Pair True) (upd_mbuf b (\<lambda>n. n\<lparr>m_pkthdr := (m_pkthdr n)\<lparr>ph_len :=
          (if len = M_COPYALL then ph_len (m_pkthdr n) - int off0 else int len)\<rparr>\<rparr>) h1)
      else Some (False, h1))
   }"

definition copym_fill :: "nat \<Rightarrow> nat \<Rightarrow> nat \<Rightarrow> nat \<Rightarrow> mheap \<Rightarrow> mheap option" where
  "copym_fill b a off k h = do {
     m \<leftarrow> mbufs h a;
     h1 \<leftarrow> upd_mbuf b (\<lambda>n. n\<lparr>m_len := k\<rparr>) h;
     (if flag m M_EXT then do {
        h2 \<leftarrow> upd_mbuf b (\<lambda>n. n\<lparr>m_data := m_data m + off\<rparr>) h1;
        mb_dupcl b a h2
      } else do {
        xs \<leftarrow> copy_from h1 a off k;
        copy_to b 0 xs h1
      })
   }"

partial_function (option) copym_loop ::
  "nat \<Rightarrow> bool \<Rightarrow> nat option \<Rightarrow> nat \<Rightarrow> nat \<Rightarrow> nat option \<Rightarrow> nat option \<Rightarrow> mheap \<Rightarrow> (nat option \<times> mheap) option" where
  "copym_loop off0 copyhdr p off len np topp h =
     (if len > 0 \<and> p \<noteq> None then
        Option.bind p (\<lambda>a. Option.bind (mbufs h a) (\<lambda>m.
          let (n, h1) = (if copyhdr then m_gethdr (m_type m) h else m_get (m_type m) h) in
          Option.bind (set_link np n (topp, h1)) (\<lambda>(top1, h2).
          case n of
            None \<Rightarrow> copym_nospace top1 h2
          | Some b \<Rightarrow>
              Option.bind (if copyhdr then copym_header b a off0 len h2 else Some (True, h2)) (\<lambda>(ok, h3).
              if \<not> ok then copym_nospace top1 h3
              else
                let k = min len (m_len m - off) in
                Option.bind (copym_fill b a off k h3) (\<lambda>h4.
                copym_loop off0 False (m_next m) 0 (if len \<noteq> M_COPYALL then len - k else len) (Some b) top1 h4)))))
      else Some (topp, if topp = None then h\<lparr>m_mcfail := m_mcfail h + 1\<rparr> else h))"

definition m_copym :: "nat option \<Rightarrow> nat \<Rightarrow> nat \<Rightarrow> mheap \<Rightarrow> (nat option \<times> mheap) option" where
  "m_copym m off0 len h = do {
     copyhdr \<leftarrow> (if off0 = 0 then map_option (\<lambda>x. flag x M_PKTHDR) (get_mbuf h m) else Some False);
     (p, off) \<leftarrow> skip_mbufs h m off0;
     copym_loop off0 copyhdr p off len None None h
   }"

section \<open>Joining, trimming and splitting\<close>

partial_function (option) last_mbuf :: "mheap \<Rightarrow> nat \<Rightarrow> nat option" where
  "last_mbuf h a = Option.bind (mbufs h a) (\<lambda>m. case m_next m of None \<Rightarrow> Some a | Some b \<Rightarrow> last_mbuf h b)"

partial_function (option) cat_loop :: "nat \<Rightarrow> nat option \<Rightarrow> mheap \<Rightarrow> mheap option" where
  "cat_loop a n h =
     (case n of
        None \<Rightarrow> Some h
      | Some b \<Rightarrow>
          Option.bind (mbufs h a) (\<lambda>m. Option.bind (mbufs h b) (\<lambda>nb.
          if flag m M_EXT \<or> m_data m + m_len m + m_len nb \<ge> MLEN then upd_mbuf a (\<lambda>m. m\<lparr>m_next := Some b\<rparr>) h
          else
            Option.bind (copy_from h b 0 (m_len nb)) (\<lambda>xs.
            Option.bind (copy_to a (m_len m) xs h) (\<lambda>h1.
            Option.bind (upd_mbuf a (\<lambda>m. m\<lparr>m_len := m_len m + m_len nb\<rparr>) h1) (\<lambda>h2.
            Option.bind (m_free b h2) (\<lambda>(n', h3). cat_loop a n' h3)))))))"

definition m_cat :: "nat \<Rightarrow> nat option \<Rightarrow> mheap \<Rightarrow> mheap option" where
  "m_cat m n h = do { a \<leftarrow> last_mbuf h m; cat_loop a n h }"

text \<open>Trimming from the head; the result is the number of bytes that were not there.\<close>

partial_function (option) trim_head :: "nat option \<Rightarrow> nat \<Rightarrow> mheap \<Rightarrow> (nat \<times> mheap) option" where
  "trim_head p len h =
     (if p \<noteq> None \<and> len > 0 then
        Option.bind p (\<lambda>a. Option.bind (mbufs h a) (\<lambda>m.
          if m_len m \<le> len then
            Option.bind (upd_mbuf a (\<lambda>m. m\<lparr>m_len := 0\<rparr>) h) (\<lambda>h1. trim_head (m_next m) (len - m_len m) h1)
          else
            Option.bind (upd_mbuf a (\<lambda>m. m\<lparr>m_len := m_len m - len, m_data := m_data m + len\<rparr>) h) (\<lambda>h1. Some (0, h1))))
      else Some (len, h))"

text \<open>The length of a chain and its last mbuf.\<close>

partial_function (option) scan_tail :: "mheap \<Rightarrow> nat \<Rightarrow> nat \<Rightarrow> (nat \<times> nat) option" where
  "scan_tail h a count =
     Option.bind (mbufs h a) (\<lambda>m.
       case m_next m of None \<Rightarrow> Some (count + m_len m, a) | Some b \<Rightarrow> scan_tail h b (count + m_len m))"

partial_function (option) trim_tail :: "nat option \<Rightarrow> nat \<Rightarrow> mheap \<Rightarrow> mheap option" where
  "trim_tail p count h =
     (case p of
        None \<Rightarrow> Some h
      | Some a \<Rightarrow>
          Option.bind (mbufs h a) (\<lambda>m.
          if m_len m \<ge> count then
            Option.bind (upd_mbuf a (\<lambda>m. m\<lparr>m_len := count\<rparr>) h) (\<lambda>h1.
            if m_next m \<noteq> None then
              Option.bind (m_freem (m_next m) h1) (\<lambda>h2. upd_mbuf a (\<lambda>m. m\<lparr>m_next := None\<rparr>) h2)
            else Some h1)
          else trim_tail (m_next m) (count - m_len m) h))"

definition add_pkt_len :: "nat \<Rightarrow> (int \<Rightarrow> int) \<Rightarrow> mheap \<Rightarrow> mheap option" where
  "add_pkt_len a f h =
     upd_mbuf a (\<lambda>m. if flag m M_PKTHDR then m\<lparr>m_pkthdr := (m_pkthdr m)\<lparr>ph_len := f (ph_len (m_pkthdr m))\<rparr>\<rparr> else m) h"

definition m_adj :: "nat option \<Rightarrow> int \<Rightarrow> mheap \<Rightarrow> mheap option" where
  "m_adj mp req_len h =
     (case mp of
        None \<Rightarrow> Some h
      | Some a \<Rightarrow>
          if req_len \<ge> 0 then do {
            (left, h1) \<leftarrow> trim_head mp (nat req_len) h;
            add_pkt_len a (\<lambda>l. l - (req_len - int left)) h1
          } else do {
            let len = nat (- req_len);
            (count, z) \<leftarrow> scan_tail h a 0;
            m \<leftarrow> mbufs h z;
            (if m_len m \<ge> len then do {
               h1 \<leftarrow> upd_mbuf z (\<lambda>m. m\<lparr>m_len := m_len m - len\<rparr>) h;
               add_pkt_len a (\<lambda>l. l - int len) h1
             } else do {
               let count' = count - len;
               h1 \<leftarrow> add_pkt_len a (\<lambda>_. int count') h;
               trim_tail mp count' h1
             })
          })"

text \<open>\<^verbatim>\<open>x & ~(sizeof(long) - 1)\<close>\<close>

definition align_long :: "nat \<Rightarrow> nat" where
  "align_long x = x - x mod 8"

definition MH_ALIGN :: "nat \<Rightarrow> mbuf \<Rightarrow> mbuf" where
  "MH_ALIGN len m = m\<lparr>m_data := m_data m + align_long (MHLEN - len)\<rparr>"

definition M_ALIGN :: "nat \<Rightarrow> mbuf \<Rightarrow> mbuf" where
  "M_ALIGN len m = m\<lparr>m_data := m_data m + align_long (MLEN - len)\<rparr>"

partial_function (option) split_point :: "mheap \<Rightarrow> nat option \<Rightarrow> nat \<Rightarrow> (nat option \<times> nat) option" where
  "split_point h p len =
     (case p of
        None \<Rightarrow> Some (None, len)
      | Some a \<Rightarrow>
          Option.bind (mbufs h a) (\<lambda>m. if len > m_len m then split_point h (m_next m) (len - m_len m) else Some (p, len)))"

text \<open>The end of \<^verbatim>\<open>m_split\<close>, from the label \<^verbatim>\<open>extpacket\<close>.\<close>

definition extpacket :: "nat \<Rightarrow> nat \<Rightarrow> nat \<Rightarrow> nat \<Rightarrow> mheap \<Rightarrow> (nat option \<times> mheap) option" where
  "extpacket b a len remain h = do {
     m \<leftarrow> mbufs h a;
     h1 \<leftarrow> (if flag m M_EXT then do {
              h' \<leftarrow> upd_mbuf b (\<lambda>n. n\<lparr>m_data := m_data m + len\<rparr>) h;
              mb_dupcl b a h'
            } else do {
              xs \<leftarrow> copy_from h a len remain;
              copy_to b 0 xs h
            });
     h2 \<leftarrow> upd_mbuf b (\<lambda>n. n\<lparr>m_len := remain, m_next := m_next m\<rparr>) h1;
     h3 \<leftarrow> upd_mbuf a (\<lambda>m. m\<lparr>m_len := len, m_next := None\<rparr>) h2;
     Some (Some b, h3)
   }"

partial_function (option) m_split :: "nat \<Rightarrow> nat \<Rightarrow> mheap \<Rightarrow> (nat option \<times> mheap) option" where
  "m_split m0 len0 h =
     Option.bind (split_point h (Some m0) len0) (\<lambda>(p, len).
     case p of
       None \<Rightarrow> Some (None, h)
     | Some a \<Rightarrow>
         Option.bind (mbufs h m0) (\<lambda>x0. Option.bind (mbufs h a) (\<lambda>m.
         let remain = m_len m - len in
         if flag x0 M_PKTHDR then
           let (n, h1) = m_gethdr (m_type x0) h in
           (case n of
              None \<Rightarrow> Some (None, h1)
            | Some b \<Rightarrow>
                Option.bind (upd_mbuf b (\<lambda>n. n\<lparr>m_pkthdr := (m_pkthdr n)\<lparr>rcvif := rcvif (m_pkthdr x0),
                               ph_len := ph_len (m_pkthdr x0) - int len0\<rparr>\<rparr>) h1) (\<lambda>h2.
                Option.bind (upd_mbuf m0 (\<lambda>m. m\<lparr>m_pkthdr := (m_pkthdr m)\<lparr>ph_len := int len0\<rparr>\<rparr>) h2) (\<lambda>h3.
                if flag m M_EXT then extpacket b a len remain h3
                else if remain > MHLEN then
                  Option.bind (upd_mbuf b (MH_ALIGN 0) h3) (\<lambda>h4.
                  Option.bind (m_split a len h4) (\<lambda>(t, h5).
                  Option.bind (upd_mbuf b (\<lambda>n. n\<lparr>m_next := t\<rparr>) h5) (\<lambda>h6.
                  if t = None then map_option (\<lambda>(_, h7). (None, h7)) (m_free b h6)
                  else map_option (Pair (Some b)) (upd_mbuf b (\<lambda>n. n\<lparr>m_len := 0\<rparr>) h6))))
                else Option.bind (upd_mbuf b (MH_ALIGN remain) h3) (extpacket b a len remain))))
         else if remain = 0 then map_option (Pair (m_next m)) (upd_mbuf a (\<lambda>m. m\<lparr>m_next := None\<rparr>) h)
         else
           let (n, h1) = m_get (m_type m) h in
           (case n of
              None \<Rightarrow> Some (None, h1)
            | Some b \<Rightarrow> Option.bind (upd_mbuf b (M_ALIGN remain) h1) (extpacket b a len remain)))))"

section \<open>Making data contiguous\<close>

text \<open>The body of the loop of \<^verbatim>\<open>m_pullup\<close>, which runs at least once.\<close>

partial_function (option) pullup_loop ::
  "nat \<Rightarrow> nat \<Rightarrow> nat \<Rightarrow> nat \<Rightarrow> mheap \<Rightarrow> (nat \<times> nat option \<times> mheap) option" where
  "pullup_loop a b len space h =
     Option.bind (mbufs h a) (\<lambda>m. Option.bind (mbufs h b) (\<lambda>n.
       let count = min (min (max len max_protohdr) space) (m_len n) in
       Option.bind (copy_from h b 0 count) (\<lambda>xs.
       Option.bind (copy_to a (m_len m) xs h) (\<lambda>h1.
       Option.bind (upd_mbuf a (\<lambda>m. m\<lparr>m_len := m_len m + count\<rparr>) h1) (\<lambda>h2.
       Option.bind (upd_mbuf b (\<lambda>n. n\<lparr>m_len := m_len n - count\<rparr>) h2) (\<lambda>h3.
       Option.bind (if m_len n - count \<noteq> 0
                    then map_option (Pair (Some b)) (upd_mbuf b (\<lambda>n. n\<lparr>m_data := m_data n + count\<rparr>) h3)
                    else m_free b h3) (\<lambda>(n', h4).
       case n' of
         None \<Rightarrow> Some (len - count, None, h4)
       | Some b' \<Rightarrow> if len - count > 0 then pullup_loop a b' (len - count) (space - count) h4
                     else Some (len - count, Some b', h4))))))))"

definition pullup_bad :: "nat option \<Rightarrow> mheap \<Rightarrow> (nat option \<times> mheap) option" where
  "pullup_bad n h = do { h1 \<leftarrow> m_freem n h; Some (None, h1\<lparr>m_mpfail := m_mpfail h1 + 1\<rparr>) }"

definition pullup_into :: "nat \<Rightarrow> nat \<Rightarrow> nat \<Rightarrow> mheap \<Rightarrow> (nat option \<times> mheap) option" where
  "pullup_into a b len h = do {
     m \<leftarrow> mbufs h a;
     (left, n, h1) \<leftarrow> pullup_loop a b len (MLEN - (m_data m + m_len m)) h;
     (if left > 0 then do { (_, h2) \<leftarrow> m_free a h1; pullup_bad n h2 }
      else map_option (Pair (Some a)) (upd_mbuf a (\<lambda>m. m\<lparr>m_next := n\<rparr>) h1))
   }"

text \<open>The branch that puts a new mbuf in front.\<close>

definition pullup_new :: "nat \<Rightarrow> mbuf \<Rightarrow> nat \<Rightarrow> mheap \<Rightarrow> (nat option \<times> mheap) option" where
  "pullup_new a n len h =
     (if len > MHLEN then pullup_bad (Some a) h
      else
        let (m, h1) = m_get (m_type n) h in
        (case m of
           None \<Rightarrow> pullup_bad (Some a) h1
         | Some b \<Rightarrow> do {
             h2 \<leftarrow> upd_mbuf b (\<lambda>m. m\<lparr>m_len := 0\<rparr>) h1;
             h3 \<leftarrow> (if flag n M_PKTHDR then m_move_pkthdr b a h2 else Some h2);
             pullup_into b a len h3
           }))"

definition m_pullup :: "nat \<Rightarrow> nat \<Rightarrow> mheap \<Rightarrow> (nat option \<times> mheap) option" where
  "m_pullup a len h = do {
     n \<leftarrow> mbufs h a;
     (case m_next n of
        Some b \<Rightarrow>
          if \<not> flag n M_EXT \<and> m_data n + len < MLEN then
            (if m_len n \<ge> len then Some (Some a, h) else pullup_into a b (len - m_len n) h)
          else pullup_new a n len h
      | None \<Rightarrow> pullup_new a n len h)
   }"

definition M_WRITABLE :: "mheap \<Rightarrow> mbuf \<Rightarrow> bool option" where
  "M_WRITABLE h m =
     (if flag m M_RDONLY then Some False
      else if \<not> flag m M_EXT then Some True
      else do { r \<leftarrow> ref_cnt (m_ext_of m); k \<leftarrow> refs h r; Some (k = 1) })"

definition M_LEADINGSPACE :: "mheap \<Rightarrow> mbuf \<Rightarrow> nat option" where
  "M_LEADINGSPACE h m =
     (if flag m M_EXT then map_option (\<lambda>w. if w then m_data m else 0) (M_WRITABLE h m)
      else Some (if flag m M_PKTHDR then m_data m - PKTDAT else m_data m))"

definition M_TRAILINGSPACE :: "mheap \<Rightarrow> mbuf \<Rightarrow> nat option" where
  "M_TRAILINGSPACE h m =
     (if flag m M_EXT
      then map_option (\<lambda>w. if w then ext_size (m_ext_of m) - (m_data m + m_len m) else 0) (M_WRITABLE h m)
      else Some (MLEN - (m_data m + m_len m)))"

definition m_prepend :: "nat \<Rightarrow> nat \<Rightarrow> mheap \<Rightarrow> (nat option \<times> mheap) option" where
  "m_prepend a len h = do {
     m \<leftarrow> mbufs h a;
     let (mn, h1) = (if flag m M_PKTHDR then m_gethdr (m_type m) h else m_get (m_type m) h);
     (case mn of
        None \<Rightarrow> map_option (Pair None) (m_freem (Some a) h1)
      | Some b \<Rightarrow> do {
          h2 \<leftarrow> (if flag m M_PKTHDR then m_move_pkthdr b a h1 else Some h1);
          h3 \<leftarrow> upd_mbuf b (\<lambda>n. n\<lparr>m_next := Some a\<rparr>) h2;
          h4 \<leftarrow> upd_mbuf b (\<lambda>n. if flag n M_PKTHDR then (if len < MHLEN then MH_ALIGN len n else n)
                                  else if len < MLEN then M_ALIGN len n else n) h3;
          map_option (Pair (Some b)) (upd_mbuf b (\<lambda>n. n\<lparr>m_len := len\<rparr>) h4)
        })
   }"

definition M_PREPEND :: "nat \<Rightarrow> nat \<Rightarrow> mheap \<Rightarrow> (nat option \<times> mheap) option" where
  "M_PREPEND a plen h = do {
     m \<leftarrow> mbufs h a;
     room \<leftarrow> M_LEADINGSPACE h m;
     (mm, h1) \<leftarrow> (if room \<ge> plen
                  then map_option (Pair (Some a)) (upd_mbuf a (\<lambda>m. m\<lparr>m_data := m_data m - plen, m_len := m_len m + plen\<rparr>) h)
                  else m_prepend a plen h);
     (case mm of
        None \<Rightarrow> Some (None, h1)
      | Some b \<Rightarrow> map_option (Pair (Some b)) (add_pkt_len b (\<lambda>l. l + int plen) h1))
   }"

definition m_dup1 :: "nat \<Rightarrow> nat \<Rightarrow> nat \<Rightarrow> mheap \<Rightarrow> (nat option \<times> mheap) option" where
  "m_dup1 a off len h = do {
     m \<leftarrow> mbufs h a;
     let copyhdr = (off = 0 \<and> flag m M_PKTHDR);
     (if len > MCLBYTES then Some (None, h)
      else if len \<ge> MINCLSIZE then map_option (Pair None) (m_clget None h)
      else
        let (n, h1) = (if copyhdr then m_gethdr (m_type m) h else m_get (m_type m) h) in
        (case n of
           None \<Rightarrow> Some (None, h1)
         | Some b \<Rightarrow> do {
             (ok, h2) \<leftarrow> (if copyhdr then m_dup_pkthdr b a h1 else Some (True, h1));
             (if \<not> ok then map_option (\<lambda>(_, h3). (None, h3)) (m_free b h2)
              else do {
                xs \<leftarrow> m_copydata h2 (Some a) off len;
                h3 \<leftarrow> copy_to b 0 xs h2;
                map_option (Pair (Some b)) (upd_mbuf b (\<lambda>n. n\<lparr>m_len := len\<rparr>) h3)
              })
           }))
   }"

partial_function (option) pulldown_find :: "mheap \<Rightarrow> nat option \<Rightarrow> nat \<Rightarrow> (nat option \<times> nat) option" where
  "pulldown_find h p off =
     (if p \<noteq> None \<and> off > 0 then
        Option.bind (get_mbuf h p) (\<lambda>n. if m_len n > off then Some (p, off) else pulldown_find h (m_next n) (off - m_len n))
      else Some (p, off))"

partial_function (option) skip_empty :: "mheap \<Rightarrow> nat option \<Rightarrow> nat option option" where
  "skip_empty h p =
     (case p of
        None \<Rightarrow> Some None
      | Some a \<Rightarrow> Option.bind (mbufs h a) (\<lambda>n. if m_len n = 0 then skip_empty h (m_next n) else Some p))"

partial_function (option) chain_length :: "mheap \<Rightarrow> nat option \<Rightarrow> nat option" where
  "chain_length h p =
     (case p of
        None \<Rightarrow> Some 0
      | Some a \<Rightarrow> Option.bind (mbufs h a) (\<lambda>n. Option.bind (chain_length h (m_next n)) (\<lambda>l. Some (m_len n + l))))"

definition pulldown_fail :: "nat \<Rightarrow> mheap \<Rightarrow> ((nat \<times> nat) option \<times> mheap) option" where
  "pulldown_fail m h = map_option (Pair None) (m_freem (Some m) h)"

text \<open>The hard way: a new mbuf. With more than \<^verbatim>\<open>MLEN\<close> bytes the code calls \<^verbatim>\<open>m_clget\<close> on \<open>o\<close>, which is NULL
  after the loop that measures the chain.\<close>

definition pulldown_new :: "nat \<Rightarrow> nat \<Rightarrow> mbuf \<Rightarrow> nat \<Rightarrow> nat \<Rightarrow> nat \<Rightarrow> mheap \<Rightarrow> ((nat \<times> nat) option \<times> mheap) option" where
  "pulldown_new m a n off hlen tlen h = do {
     x \<leftarrow> mbufs h m;
     (if hlen + tlen > MLEN then do { h1 \<leftarrow> m_clget None h; pulldown_fail m h1 }
      else
        let (p, h1) = m_get (m_type x) h in
        (case p of
           None \<Rightarrow> pulldown_fail m h1
         | Some b \<Rightarrow> do {
             h2 \<leftarrow> upd_mbuf b (\<lambda>y. y\<lparr>m_len := hlen\<rparr>) h1;
             xs \<leftarrow> copy_from h2 a off hlen;
             h3 \<leftarrow> copy_to b 0 xs h2;
             h4 \<leftarrow> upd_mbuf a (\<lambda>n. n\<lparr>m_len := m_len n - hlen\<rparr>) h3;
             ys \<leftarrow> m_copydata h4 (m_next n) 0 tlen;
             h5 \<leftarrow> copy_to b hlen ys h4;
             h6 \<leftarrow> upd_mbuf b (\<lambda>y. y\<lparr>m_len := m_len y + tlen\<rparr>) h5;
             h7 \<leftarrow> m_adj (m_next n) (int tlen) h6;
             h8 \<leftarrow> upd_mbuf b (\<lambda>y. y\<lparr>m_next := m_next n\<rparr>) h7;
             h9 \<leftarrow> upd_mbuf a (\<lambda>n. n\<lparr>m_next := Some b\<rparr>) h8;
             Some (Some (b, 0), h9)
           }))
   }"

text \<open>Bytes of the mbuf \<open>a\<close> and of those after it have to be joined.\<close>

definition pulldown_join ::
  "nat \<Rightarrow> nat \<Rightarrow> mbuf \<Rightarrow> bool \<Rightarrow> nat \<Rightarrow> nat \<Rightarrow> bool \<Rightarrow> mheap \<Rightarrow> ((nat \<times> nat) option \<times> mheap) option" where
  "pulldown_join m a n writable off len offp h =
     (let hlen = m_len n - off; tlen = len - hlen in do {
        olen \<leftarrow> chain_length h (m_next n);
        (if hlen + olen < len then pulldown_fail m h
         else do {
           b \<leftarrow> m_next n;
           n1 \<leftarrow> mbufs h b;
           trail \<leftarrow> M_TRAILINGSPACE h n;
           lead \<leftarrow> M_LEADINGSPACE h n1;
           (if (off = 0 \<or> offp) \<and> trail \<ge> tlen \<and> writable then do {
              xs \<leftarrow> m_copydata h (Some b) 0 tlen;
              h1 \<leftarrow> copy_to a (m_len n) xs h;
              h2 \<leftarrow> upd_mbuf a (\<lambda>n. n\<lparr>m_len := m_len n + tlen\<rparr>) h1;
              h3 \<leftarrow> m_adj (Some b) (int tlen) h2;
              Some (Some (a, off), h3)
            } else if (off = 0 \<or> offp) \<and> lead \<ge> hlen \<and> writable then do {
              h1 \<leftarrow> upd_mbuf b (\<lambda>y. y\<lparr>m_data := m_data y - hlen, m_len := m_len y + hlen\<rparr>) h;
              xs \<leftarrow> copy_from h1 a off hlen;
              h2 \<leftarrow> copy_to b 0 xs h1;
              h3 \<leftarrow> upd_mbuf a (\<lambda>n. n\<lparr>m_len := m_len n - hlen\<rparr>) h2;
              Some (Some (b, 0), h3)
            } else pulldown_new m a n off hlen tlen h)
         })
      })"

text \<open>\<open>offp\<close> says whether the caller takes an offset; the result is an mbuf and the offset of the data in it.\<close>

definition m_pulldown :: "nat \<Rightarrow> nat \<Rightarrow> nat \<Rightarrow> bool \<Rightarrow> mheap \<Rightarrow> ((nat \<times> nat) option \<times> mheap) option" where
  "m_pulldown m off0 len offp h =
     (if len > MCLBYTES then pulldown_fail m h
      else do {
        (p, off) \<leftarrow> pulldown_find h (Some m) off0;
        q \<leftarrow> skip_empty h p;
        (case q of
           None \<Rightarrow> pulldown_fail m h
         | Some a \<Rightarrow> do {
             n \<leftarrow> mbufs h a;
             writable \<leftarrow> (if \<not> flag n M_EXT then Some True
                          else if ext_type (m_ext_of n) = EXT_CLUSTER then M_WRITABLE h n else Some False);
             (if (off = 0 \<or> offp) \<and> off + len \<le> m_len n \<and> writable then Some (Some (a, off), h)
              else if off + len \<le> m_len n then do {
                (p1, h1) \<leftarrow> m_dup1 a off (m_len n - off) h;
                (case p1 of
                   None \<Rightarrow> pulldown_fail m h1
                 | Some b \<Rightarrow> do {
                     h2 \<leftarrow> upd_mbuf a (\<lambda>n. n\<lparr>m_len := off\<rparr>) h1;
                     h3 \<leftarrow> upd_mbuf b (\<lambda>y. y\<lparr>m_next := m_next n\<rparr>) h2;
                     h4 \<leftarrow> upd_mbuf a (\<lambda>n. n\<lparr>m_next := Some b\<rparr>) h3;
                     Some (Some (b, 0), h4)
                   })
              } else pulldown_join m a n writable off len offp h)
           })
      })"

section \<open>Writing into a chain\<close>

text \<open>The first loop of \<^verbatim>\<open>m_copyback\<close>: the result is the mbuf that holds the offset, or \<open>None\<close> after a
  failed allocation (label \<^verbatim>\<open>out\<close>).\<close>

partial_function (option) copyback_skip ::
  "nat \<Rightarrow> nat \<Rightarrow> nat \<Rightarrow> nat \<Rightarrow> mheap \<Rightarrow> (nat option \<times> nat \<times> nat \<times> mheap) option" where
  "copyback_skip a off len totlen h =
     Option.bind (mbufs h a) (\<lambda>m.
     if off > m_len m then
       let off' = off - m_len m; totlen' = totlen + m_len m in
       (case m_next m of
          Some b \<Rightarrow> copyback_skip b off' len totlen' h
        | None \<Rightarrow>
            let (n, h1) = m_get (m_type m) h in
            (case n of
               None \<Rightarrow> Some (None, off', totlen', h1)
             | Some b \<Rightarrow>
                 Option.bind (copy_to b 0 (replicate MLEN 0) h1) (\<lambda>h2.
                 Option.bind (upd_mbuf b (\<lambda>n. n\<lparr>m_len := min MLEN (len + off')\<rparr>) h2) (\<lambda>h3.
                 Option.bind (upd_mbuf a (\<lambda>m. m\<lparr>m_next := Some b\<rparr>) h3) (\<lambda>h4.
                 copyback_skip b off' len totlen' h4)))))
     else Some (Some a, off, totlen, h))"

partial_function (option) copyback_loop :: "nat \<Rightarrow> nat \<Rightarrow> bytes \<Rightarrow> nat \<Rightarrow> mheap \<Rightarrow> (nat \<times> mheap) option" where
  "copyback_loop a off cp totlen h =
     (if cp = [] then Some (totlen, h)
      else
        Option.bind (mbufs h a) (\<lambda>m.
        let mlen = min (m_len m - off) (length cp) in
        Option.bind (copy_to a off (take mlen cp) h) (\<lambda>h1.
        let cp' = drop mlen cp; totlen' = totlen + (mlen + off) in
        if cp' = [] then Some (totlen', h1)
        else
          (case m_next m of
             Some b \<Rightarrow> copyback_loop b 0 cp' totlen' h1
           | None \<Rightarrow>
               let (n, h2) = m_get (m_type m) h1 in
               (case n of
                  None \<Rightarrow> Some (totlen', h2)
                | Some b \<Rightarrow>
                    Option.bind (upd_mbuf b (\<lambda>n. n\<lparr>m_len := min MLEN (length cp')\<rparr>) h2) (\<lambda>h3.
                    Option.bind (upd_mbuf a (\<lambda>m. m\<lparr>m_next := Some b\<rparr>) h3) (\<lambda>h4.
                    copyback_loop b 0 cp' totlen' h4)))))))"

definition m_copyback :: "nat option \<Rightarrow> nat \<Rightarrow> bytes \<Rightarrow> mheap \<Rightarrow> mheap option" where
  "m_copyback m0 off cp h =
     (case m0 of
        None \<Rightarrow> Some h
      | Some a \<Rightarrow> do {
          (p, off', totlen, h1) \<leftarrow> copyback_skip a off (length cp) 0 h;
          (totlen', h2) \<leftarrow> (case p of None \<Rightarrow> Some (totlen, h1) | Some b \<Rightarrow> copyback_loop b off' cp totlen h1);
          add_pkt_len a (\<lambda>l. if l < int totlen' then int totlen' else l) h2
        })"

text \<open>The loops are executable.\<close>

declare
  delete_tags_after.simps [code]
  m_freem.simps [code]
  skip_mbufs.simps [code]
  copydata_loop.simps [code]
  pack_send_buffer.simps [code]
  copym_loop.simps [code]
  last_mbuf.simps [code]
  cat_loop.simps [code]
  trim_head.simps [code]
  scan_tail.simps [code]
  trim_tail.simps [code]
  split_point.simps [code]
  m_split.simps [code]
  pullup_loop.simps [code]
  pulldown_find.simps [code]
  skip_empty.simps [code]
  chain_length.simps [code]
  copyback_skip.simps [code]
  copyback_loop.simps [code]

end
