(* ===== verification/Mbuf_Heap.thy ===== *)
theory Mbuf_Heap
  imports Mbuf
begin

text \<open>
  The invariant of the mbuf heap: every live mbuf points into its buffer, every reference counter is the number of
  mbufs that share the cluster, and nothing is allocated that no mbuf holds. A chain is described by the list
  of its addresses; its contents are the bytes its mbufs point to. The primitives keep the invariant and
  everything outside the mbufs they touch.
\<close>

section \<open>Flags\<close>

lemma flag_bit: "flag m (2 ^ k) \<longleftrightarrow> bit (m_flags m) k"
  by (simp add: flag_def and_exp_eq_0_iff_not_bit)

lemma flags_as_exp: "M_EXT = 2 ^ 0" "M_PKTHDR = 2 ^ 1" "M_NOFREE = 2 ^ 18" "M_RDONLY = 2 ^ 3"
  by (simp_all add: M_EXT_def M_PKTHDR_def M_NOFREE_def M_RDONLY_def)

lemma flag_iff [simp]:
  "flag m M_EXT \<longleftrightarrow> bit (m_flags m) 0" "flag m M_PKTHDR \<longleftrightarrow> bit (m_flags m) 1" "flag m M_NOFREE \<longleftrightarrow> bit (m_flags m) 18"
  "flag m M_RDONLY \<longleftrightarrow> bit (m_flags m) 3"
  unfolding flags_as_exp by (rule flag_bit)+

lemma flag_bits [simp]:
  "bit M_EXT n \<longleftrightarrow> n = 0" "bit M_PKTHDR n \<longleftrightarrow> n = 1" 
  "bit M_COPYFLAGS 0 \<longleftrightarrow> False" "bit M_COPYFLAGS 18 \<longleftrightarrow> False" "bit M_COPYFLAGS (Suc 0)"
  "M_PKTHDR AND M_PKTHDR \<noteq> 0" "M_PKTHDR \<noteq> 0"
  by (simp_all only: flags_as_exp bit_exp_iff) (auto simp: M_COPYFLAGS_def bit_simps)

section \<open>The invariant\<close>

definition local_ok :: "mheap \<Rightarrow> nat \<Rightarrow> mbuf \<Rightarrow> bool" where
  "local_ok h a m \<longleftrightarrow> a < brk h \<and> \<not> flag m M_NOFREE \<and> m_type m \<noteq> MT_NOINIT \<and> length (m_dat m) = MLEN \<and>
     (flag m M_PKTHDR \<longrightarrow> ph_tags (m_pkthdr m) = []) \<and>
     (if flag m M_EXT
      then \<exists>c b. ext_buf (m_ext_of m) = Some c \<and> clusters h c = Some b \<and> length b = ext_size (m_ext_of m) \<and>
        m_data m + m_len m \<le> length b \<and> ext_type (m_ext_of m) = EXT_CLUSTER
      else (if flag m M_PKTHDR then PKTDAT else 0) \<le> m_data m \<and> m_data m + m_len m \<le> MLEN)"

definition ext_view :: "mheap \<Rightarrow> nat \<Rightarrow> m_ext option" where
  "ext_view h a = (case mbufs h a of None \<Rightarrow> None | Some m \<Rightarrow> if flag m M_EXT then Some (m_ext_of m) else None)"

definition holders :: "(nat \<Rightarrow> m_ext option) \<Rightarrow> nat \<Rightarrow> nat set" where
  "holders V r = {a. \<exists>e. V a = Some e \<and> ref_cnt e = Some r}"

definition clust_ok :: "(nat \<Rightarrow> m_ext option) \<Rightarrow> (nat \<Rightarrow> bytes option) \<Rightarrow> (nat \<Rightarrow> nat option) \<Rightarrow> bool" where
  "clust_ok V C R \<longleftrightarrow> finite (dom V) \<and>
     (\<forall>a e. V a = Some e \<longrightarrow> ref_cnt e \<noteq> None \<and> ext_buf e \<noteq> None) \<and>
     (\<forall>a e a' e'. V a = Some e \<and> V a' = Some e' \<and> (ref_cnt e = ref_cnt e' \<or> ext_buf e = ext_buf e') \<longrightarrow> e = e') \<and>
     (\<forall>r. R r = (if holders V r = {} then None else Some (card (holders V r)))) \<and>
     (\<forall>c. C c \<noteq> None \<longleftrightarrow> (\<exists>a e. V a = Some e \<and> ext_buf e = Some c))"

definition heap_ok :: "mheap \<Rightarrow> bool" where
  "heap_ok h \<longleftrightarrow> (\<forall>a m. mbufs h a = Some m \<longrightarrow> local_ok h a m) \<and> clust_ok (ext_view h) (clusters h) (refs h) \<and>
     (\<forall>x \<ge> brk h. clusters h x = None \<and> refs h x = None) \<and>
     (\<forall>n m. new_mbuf h n = Some m \<longrightarrow> length (m_dat m) = MLEN) \<and>
     (\<forall>n b. new_clust h n = Some b \<longrightarrow> length b = MCLBYTES)"

definition mbytes :: "mheap \<Rightarrow> nat \<Rightarrow> bytes" where
  "mbytes h a = (case mbufs h a of None \<Rightarrow> [] | Some m \<Rightarrow> take (m_len m) (drop (m_data m) (the (buffer h m))))"

fun chain :: "mheap \<Rightarrow> nat option \<Rightarrow> nat list \<Rightarrow> bool" where
  "chain h p [] \<longleftrightarrow> p = None"
| "chain h p (a # as) \<longleftrightarrow> p = Some a \<and> (\<exists>m. mbufs h a = Some m \<and> chain h (m_next m) as)"

definition chain_data :: "mheap \<Rightarrow> nat list \<Rightarrow> bytes" where
  "chain_data h as = concat (map (mbytes h) as)"

text \<open>What an operation leaves alone: mbufs outside \<open>S\<close>, and the contents of old clusters, which it may only free.\<close>

definition frame :: "nat set \<Rightarrow> mheap \<Rightarrow> mheap \<Rightarrow> bool" where
  "frame S h h' \<longleftrightarrow> brk h \<le> brk h' \<and> (\<forall>a < brk h. a \<notin> S \<longrightarrow> mbufs h' a = mbufs h a) \<and>
     (\<forall>c < brk h. clusters h' c \<noteq> None \<longrightarrow> clusters h' c = clusters h c) \<and>
     new_mbuf h' = new_mbuf h \<and> new_clust h' = new_clust h \<and> new_ref h' = new_ref h"

lemma frame_refl [simp]: "frame S h h"
  by (simp add: frame_def)

lemma frame_trans:
  assumes "frame S h h'" "frame T h' h''" "\<And>a. a \<in> T \<Longrightarrow> a < brk h \<Longrightarrow> a \<in> S"
  shows "frame S h h''"
  unfolding frame_def
proof (intro conjI allI impI)
  have b: "brk h \<le> brk h'" "brk h' \<le> brk h''" using assms(1,2) by (simp_all add: frame_def)
  then show "brk h \<le> brk h''" by simp
  fix x assume x: "x < brk h"
  then have x': "x < brk h'" using b by simp
  show "mbufs h'' x = mbufs h x" if "x \<notin> S"
  proof -
    have "x \<notin> T" using assms(3) that x by blast
    then have "mbufs h'' x = mbufs h' x" using assms(2) x' by (simp add: frame_def)
    then show ?thesis using assms(1) that x by (simp add: frame_def)
  qed
  show "clusters h'' x = clusters h x" if "clusters h'' x \<noteq> None"
    using assms(1,2) that x x' by (simp add: frame_def)
qed (use assms(1,2) in \<open>simp_all add: frame_def\<close>)

lemma frame_mono: "frame S h h' \<Longrightarrow> S \<subseteq> T \<Longrightarrow> frame T h h'"
  by (auto simp: frame_def)

lemma chain_data_simps [simp]:
  "chain_data h [] = []" "chain_data h (a # as) = mbytes h a @ chain_data h as"
  "chain_data h (as @ bs) = chain_data h as @ chain_data h bs"
  by (simp_all add: chain_data_def)

lemma chain_data_cong: "(\<And>x. x \<in> set as \<Longrightarrow> mbytes h' x = mbytes h x) \<Longrightarrow> chain_data h' as = chain_data h as"
  by (simp add: chain_data_def cong: map_cong)

lemma heap_local: "heap_ok h \<Longrightarrow> mbufs h a = Some m \<Longrightarrow> local_ok h a m"
  by (simp add: heap_ok_def)

lemma heap_lt: "heap_ok h \<Longrightarrow> mbufs h a = Some m \<Longrightarrow> a < brk h"
  using heap_local [of h a m] by (simp add: local_ok_def)

lemma heap_brk: "heap_ok h \<Longrightarrow> mbufs h (brk h) = None"
  using heap_lt [of h "brk h"] by (cases "mbufs h (brk h)") auto

lemma local_buffer:
  assumes "local_ok h a m"
  obtains b where "buffer h m = Some b" "m_data m + m_len m \<le> length b" "\<not> flag m M_EXT \<Longrightarrow> b = m_dat m \<and> length b = MLEN"
  using assms by (auto simp: local_ok_def buffer_def split: if_splits)

lemma length_mbytes: "heap_ok h \<Longrightarrow> mbufs h a = Some m \<Longrightarrow> length (mbytes h a) = m_len m"
  by (erule (1) local_buffer [OF heap_local]) (simp add: mbytes_def)

lemma copy_from_ok:
  assumes "heap_ok h" "mbufs h a = Some m" "off + n \<le> m_len m"
  shows "copy_from h a off n = Some (take n (drop off (mbytes h a)))"
proof -
  obtain b where "buffer h m = Some b" "m_data m + m_len m \<le> length b" using local_buffer [OF heap_local [OF assms(1,2)]] .
  moreover from this have "take n (drop off (take (m_len m) (drop (m_data m) b))) = take n (drop (m_data m + off) b)"
    using assms(3) by (simp add: drop_take add.commute)
  ultimately show ?thesis using assms(2,3) by (simp add: copy_from_def mbytes_def)
qed

section \<open>Chains\<close>

lemma chain_live: "chain h p as \<Longrightarrow> a \<in> set as \<Longrightarrow> \<exists>m. mbufs h a = Some m"
  by (induction as arbitrary: p) auto

lemma chain_lt: "heap_ok h \<Longrightarrow> chain h p as \<Longrightarrow> a \<in> set as \<Longrightarrow> a < brk h"
  using chain_live heap_lt by blast

lemma chain_unique: "chain h p as \<Longrightarrow> chain h p bs \<Longrightarrow> as = bs"
proof (induction as arbitrary: p bs)
  case Nil
  then show ?case by (cases bs) auto
next
  case (Cons a as)
  then show ?case by (cases bs) auto
qed

lemma chain_suffix: "chain h p (as @ b # bs) \<Longrightarrow> chain h (Some b) (b # bs)"
  by (induction as arbitrary: p) auto

lemma chain_distinct: "chain h p as \<Longrightarrow> distinct as"
proof (induction as arbitrary: p)
  case Nil
  then show ?case by simp
next
  case (Cons a as)
  then obtain m where m: "mbufs h a = Some m" "chain h (m_next m) as" by auto
  have "a \<notin> set as"
  proof
    assume "a \<in> set as"
    then obtain xs ys where s: "as = xs @ a # ys" by (auto dest: split_list)
    then have "chain h (Some a) (a # ys)" using m(2) chain_suffix by blast
    moreover have "chain h (Some a) (a # as)" using m by simp
    ultimately have "a # ys = a # as" by (rule chain_unique)
    then show False using s by simp
  qed
  then show ?case using Cons.IH m(2) by simp
qed

lemma chain_frame:
  assumes "chain h p as" "\<And>a. a \<in> set as \<Longrightarrow> mbufs h' a = mbufs h a"
  shows "chain h' p as"
  using assms by (induction as arbitrary: p) auto

lemma frame_mbufs: "frame S h h' \<Longrightarrow> heap_ok h \<Longrightarrow> mbufs h a = Some m \<Longrightarrow> a \<notin> S \<Longrightarrow> mbufs h' a = Some m"
  using heap_lt [of h a m] by (simp add: frame_def)

lemma frame_outside:
  assumes "frame S h h'" "heap_ok h" "heap_ok h'" "brk h' = brk h" "a \<notin> S"
  shows "mbufs h' a = mbufs h a"
proof (cases "a < brk h")
  case True
  then show ?thesis using assms(1,5) by (simp add: frame_def)
next
  case False
  then have "mbufs h a = None" "mbufs h' a = None"
    using heap_lt [OF assms(2), of a] heap_lt [OF assms(3), of a] assms(4) by (cases "mbufs h a"; cases "mbufs h' a"; force)+
  then show ?thesis by simp
qed

lemma frame_bytes:
  assumes "frame S h h'" "heap_ok h" "heap_ok h'" "mbufs h a = Some m" "a \<notin> S"
  shows "mbytes h' a = mbytes h a"
proof -
  have m': "mbufs h' a = Some m" using frame_mbufs assms by blast
  have "buffer h' m = buffer h m"
  proof (cases "flag m M_EXT")
    case True
    then obtain c b where c: "ext_buf (m_ext_of m) = Some c" "clusters h c = Some b"
      using heap_local [OF assms(2,4)] by (auto simp: local_ok_def)
    moreover from True c(1) have "clusters h' c \<noteq> None" using heap_local [OF assms(3) m'] by (auto simp: local_ok_def)
    moreover have "c < brk h" using assms(2) c(2) by (metis heap_ok_def linorder_not_less option.distinct(1))
    ultimately show ?thesis using assms(1) True by (simp add: frame_def buffer_def)
  next
    case False
    then show ?thesis by (simp add: buffer_def)
  qed
  then show ?thesis using m' assms(4) by (simp add: mbytes_def)
qed

lemma frame_chain:
  assumes "frame S h h'" "heap_ok h" "heap_ok h'" "chain h p as" "set as \<inter> S = {}"
  shows "chain h' p as" "chain_data h' as = chain_data h as"
proof -
  have *: "mbufs h' a = mbufs h a \<and> mbytes h' a = mbytes h a" if "a \<in> set as" for a
    using chain_live [OF assms(4) that] frame_mbufs [OF assms(1,2)] frame_bytes [OF assms(1-3)] assms(5) that
    by (metis disjoint_iff)
  then show "chain h' p as" using chain_frame [OF assms(4)] by blast
  show "chain_data h' as = chain_data h as" using * by (simp add: chain_data_def cong: map_cong)
qed

section \<open>Primitives\<close>

text \<open>Changing an mbuf without its cluster.\<close>

lemma ext_view_same:
  assumes "mbufs h a = Some m" "flag m' M_EXT = flag m M_EXT" "flag m M_EXT \<Longrightarrow> m_ext_of m' = m_ext_of m"
  shows "ext_view (h\<lparr>mbufs := (mbufs h)(a \<mapsto> m')\<rparr>) = ext_view h"
  using assms by (auto simp: ext_view_def fun_eq_iff)

lemma local_ok_cong:
  assumes "local_ok h a m" "brk h \<le> brk h'" "\<And>c b. clusters h c = Some b \<Longrightarrow> \<exists>b'. clusters h' c = Some b' \<and> length b' = length b"
  shows "local_ok h' a m"
  using assms unfolding local_ok_def by (auto split: if_splits) metis+

lemma local_ok_fields [simp]:
  "local_ok h a (m\<lparr>m_next := x\<rparr>) = local_ok h a m"
  "local_ok h a (m\<lparr>m_pkthdr := (m_pkthdr m)\<lparr>ph_len := l\<rparr>\<rparr>) = local_ok h a m"
  "local_ok (h\<lparr>mbufs := M\<rparr>) a m = local_ok h a m"
  "local_ok (h\<lparr>m_mcfail := k\<rparr>) a m = local_ok h a m" "local_ok (h\<lparr>m_mpfail := k\<rparr>) a m = local_ok h a m"
  by (simp_all add: local_ok_def)

lemma buffer_fields [simp]:
  "buffer (h\<lparr>mbufs := M\<rparr>) m = buffer h m" "buffer (h\<lparr>refs := R\<rparr>) m = buffer h m" "buffer (h\<lparr>brk := n\<rparr>) m = buffer h m"
  "buffer h (m\<lparr>m_next := x\<rparr>) = buffer h m" "buffer h (m\<lparr>m_len := l\<rparr>) = buffer h m" "buffer h (m\<lparr>m_data := l\<rparr>) = buffer h m"
  "buffer h (m\<lparr>m_pkthdr := q\<rparr>) = buffer h m"
  by (simp_all add: buffer_def)

lemma mbytes_other: "x \<noteq> a \<Longrightarrow> mbytes (h\<lparr>mbufs := (mbufs h)(a := y)\<rparr>) x = mbytes h x"
  by (auto simp: mbytes_def split: option.splits)

lemma upd_ok:
  assumes "heap_ok h" "mbufs h a = Some m" "local_ok h a m'"
    and "flag m' M_EXT = flag m M_EXT" "flag m M_EXT \<Longrightarrow> m_ext_of m' = m_ext_of m"
  shows "heap_ok (h\<lparr>mbufs := (mbufs h)(a \<mapsto> m')\<rparr>)"
proof -
  let ?h = "h\<lparr>mbufs := (mbufs h)(a \<mapsto> m')\<rparr>"
  have "local_ok ?h x y" if "mbufs ?h x = Some y" for x y
  proof (rule local_ok_cong [of h])
    show "local_ok h x y" using that assms(3) heap_local [OF assms(1), of x y] by (cases "x = a") simp_all
  qed simp_all
  then show ?thesis using assms(1) ext_view_same [OF assms(2,4,5)] by (simp add: heap_ok_def)
qed

lemma frame_upd: "a \<in> S \<Longrightarrow> frame S h (h\<lparr>mbufs := (mbufs h)(a \<mapsto> m')\<rparr>)"
  by (simp add: frame_def)

lemma upd_mbuf_eq: "mbufs h a = Some m \<Longrightarrow> upd_mbuf a f h = Some (h\<lparr>mbufs := (mbufs h)(a \<mapsto> f m)\<rparr>)"
  by (simp add: upd_mbuf_def)

text \<open>Allocation.\<close>

lemma constructor_fields:
  assumes "type \<noteq> MT_NOINIT"
  shows "m_next (mbuf_constructor_dup fl type m) = None" "m_len (mbuf_constructor_dup fl type m) = 0"
    "m_flags (mbuf_constructor_dup fl type m) = fl" "m_type (mbuf_constructor_dup fl type m) = type"
    "m_data (mbuf_constructor_dup fl type m) = (if fl AND M_PKTHDR \<noteq> 0 then PKTDAT else 0)"
    "m_dat (mbuf_constructor_dup fl type m) = m_dat m"
    "fl AND M_PKTHDR \<noteq> 0 \<Longrightarrow> ph_tags (m_pkthdr (mbuf_constructor_dup fl type m)) = []"
  using assms by (simp_all add: mbuf_constructor_dup_def Let_def)

definition new_ok :: "u32 \<Rightarrow> int \<Rightarrow> mbuf \<Rightarrow> bool" where
  "new_ok fl type m \<longleftrightarrow> m_next m = None \<and> m_len m = 0 \<and> m_flags m = fl \<and> m_type m = type \<and>
     m_data m = (if fl = 0 then 0 else PKTDAT) \<and> (fl \<noteq> 0 \<longrightarrow> ph_tags (m_pkthdr m) = []) \<and> length (m_dat m) = MLEN"

lemma constructor_new:
  assumes "type \<noteq> MT_NOINIT" "fl = 0 \<or> fl = M_PKTHDR" "length (m_dat m) = MLEN"
  shows "new_ok fl type (mbuf_constructor_dup fl type m)"
  using assms(2)
proof
  assume "fl = 0"
  then show ?thesis using assms by (simp add: new_ok_def constructor_fields)
next
  assume "fl = M_PKTHDR"
  then show ?thesis using assms by (simp add: new_ok_def constructor_fields)
qed

lemma new_local:
  assumes "new_ok fl type m" "type \<noteq> MT_NOINIT" "fl = 0 \<or> fl = M_PKTHDR"
  shows "a < brk h \<Longrightarrow> local_ok h a m" "\<not> flag m M_EXT"
  using assms(3)
  by (rule disjE; use assms(1,2) in \<open>simp add: local_ok_def new_ok_def MLEN_def MHLEN_def PKTDAT_def\<close>)+

lemma alloc_ok:
  assumes "heap_ok h" "type \<noteq> MT_NOINIT" "fl = 0 \<or> fl = M_PKTHDR" "alloc_mbuf fl type h = (p, h')"
  shows "heap_ok h'" "frame {} h h'" "clusters h' = clusters h" "refs h' = refs h" "brk h' = brk h + 1"
    and "p = None \<and> mbufs h' = mbufs h \<or>
      (\<exists>m. p = Some (brk h) \<and> mbufs h' = (mbufs h)(brk h \<mapsto> m) \<and> new_ok fl type m)"
proof -
  consider "new_mbuf h (brk h) = None" "p = None" "h' = h\<lparr>brk := brk h + 1\<rparr>"
    | m where "new_mbuf h (brk h) = Some m" "p = Some (brk h)"
        "h' = h\<lparr>mbufs := (mbufs h)(brk h \<mapsto> mbuf_constructor_dup fl type m), brk := brk h + 1\<rparr>"
    using assms(4) by (auto simp: alloc_mbuf_def split: option.splits)
  then have "heap_ok h' \<and> frame {} h h' \<and> clusters h' = clusters h \<and> refs h' = refs h \<and> brk h' = brk h + 1 \<and>
    (p = None \<and> mbufs h' = mbufs h \<or>
      (\<exists>m. p = Some (brk h) \<and> mbufs h' = (mbufs h)(brk h \<mapsto> m) \<and> new_ok fl type m))"
  proof cases
    case 1
    have "local_ok h' x y" if "mbufs h' x = Some y" for x y
      by (rule local_ok_cong [OF heap_local [OF assms(1)]]) (use that 1 in simp_all)
    moreover have "ext_view h' = ext_view h" using 1 by (simp add: ext_view_def fun_eq_iff)
    ultimately have "heap_ok h'" using assms(1) 1 by (simp add: heap_ok_def)
    then show ?thesis using 1 by (simp add: frame_def)
  next
    case (2 m)
    let ?m = "mbuf_constructor_dup fl type m"
    have new: "new_ok fl type ?m" using assms(1) 2(1) by (intro constructor_new assms(2,3)) (simp add: heap_ok_def)
    have "local_ok h' x y" if "mbufs h' x = Some y" for x y
    proof (cases "x = brk h")
      case True
      then show ?thesis using that 2(3) new_local(1) [OF new assms(2,3)] by simp
    next
      case False
      then show ?thesis by (intro local_ok_cong [OF heap_local [OF assms(1)]]) (use that 2(3) in simp_all)
    qed
    moreover have "ext_view h' = ext_view h"
      using 2(3) new_local(2) [OF new assms(2,3)] heap_brk [OF assms(1)] by (simp add: ext_view_def fun_eq_iff)
    ultimately have "heap_ok h'" using assms(1) 2(3) by (simp add: heap_ok_def)
    then show ?thesis using 2 new by (simp add: frame_def) blast
  qed
  then show "heap_ok h'" "frame {} h h'" "clusters h' = clusters h" "refs h' = refs h" "brk h' = brk h + 1"
    and "p = None \<and> mbufs h' = mbufs h \<or>
      (\<exists>m. p = Some (brk h) \<and> mbufs h' = (mbufs h)(brk h \<mapsto> m) \<and> new_ok fl type m)"
    by blast+
qed

text \<open>The reference counters when an mbuf joins or leaves a cluster.\<close>

lemma holders_upd:
  "holders (V(a \<mapsto> e)) r = (if ref_cnt e = Some r then insert a (holders V r) else holders V r - {a})"
  "holders (V(a := None)) r = holders V r - {a}"
  by (auto simp: holders_def)

lemma finite_holders: "clust_ok V C R \<Longrightarrow> finite (holders V r)"
  by (rule finite_subset [of _ "dom V"]) (auto simp: holders_def clust_ok_def)

lemma clust_ref:
  assumes "clust_ok V C R" "V a = Some e"
  obtains r c where "ref_cnt e = Some r" "ext_buf e = Some c" "R r = Some (card (holders V r))" "a \<in> holders V r" "C c \<noteq> None"
  using assms that unfolding clust_ok_def holders_def by (smt (verit, best) mem_Collect_eq empty_iff not_None_eq)

lemma clust_same:
  "clust_ok V C R \<Longrightarrow> V a = Some e \<Longrightarrow> V a' = Some e' \<Longrightarrow> ref_cnt e = ref_cnt e' \<or> ext_buf e = ext_buf e' \<Longrightarrow> e = e'"
  unfolding clust_ok_def by blast

lemma clust_join:
  assumes ok: "clust_ok V C R" and e: "V a = Some e" and b: "V b = None" and r: "ref_cnt e = Some r"
  shows "clust_ok (V(b \<mapsto> e)) C (R(r \<mapsto> card (holders V r) + 1))"
proof -
  have ab: "a \<noteq> b" using e b by auto
  have nb: "b \<notin> holders V x" for x using b by (simp add: holders_def)
  have R: "(R(r \<mapsto> card (holders V r) + 1)) x =
      (if holders (V(b \<mapsto> e)) x = {} then None else Some (card (holders (V(b \<mapsto> e)) x)))" for x
    using ok r nb finite_holders [OF ok] by (auto simp: clust_ok_def holders_upd)
  have C: "C c \<noteq> None \<longleftrightarrow> (\<exists>x y. (V(b \<mapsto> e)) x = Some y \<and> ext_buf y = Some c)" for c
  proof -
    have "C c \<noteq> None \<longleftrightarrow> (\<exists>x y. V x = Some y \<and> ext_buf y = Some c)" using ok by (simp add: clust_ok_def)
    also have "\<dots> \<longleftrightarrow> (\<exists>x y. (V(b \<mapsto> e)) x = Some y \<and> ext_buf y = Some c)" using e b by (metis fun_upd_apply option.distinct(1) option.inject)
    finally show ?thesis .
  qed
  have "x = y" if "(V(b \<mapsto> e)) p = Some x" "(V(b \<mapsto> e)) q = Some y" "ref_cnt x = ref_cnt y \<or> ext_buf x = ext_buf y" for p q x y
    using that clust_same [OF ok] e by (auto split: if_splits)
  moreover have "ref_cnt x \<noteq> None \<and> ext_buf x \<noteq> None" if "(V(b \<mapsto> e)) p = Some x" for p x
    using that ok e by (auto simp: clust_ok_def split: if_splits)
  moreover have "finite (dom (V(b \<mapsto> e)))" using ok by (simp add: clust_ok_def)
  ultimately show ?thesis using R C unfolding clust_ok_def by blast
qed

lemma clust_leave:
  assumes ok: "clust_ok V C R" and e: "V a = Some e" and r: "ref_cnt e = Some r" and c: "ext_buf e = Some c"
  shows "card (holders V r) \<noteq> 1 \<Longrightarrow> clust_ok (V(a := None)) C (R(r \<mapsto> card (holders V r) - 1))"
    and "card (holders V r) = 1 \<Longrightarrow> clust_ok (V(a := None)) (C(c := None)) (R(r := None))"
proof -
  have fin: "finite (dom (V(a := None)))" using ok by (simp add: clust_ok_def)
  have some: "ref_cnt x \<noteq> None \<and> ext_buf x \<noteq> None" if "(V(a := None)) p = Some x" for p x
    using that ok by (auto simp: clust_ok_def split: if_splits)
  have same: "x = y" if "(V(a := None)) p = Some x" "(V(a := None)) q = Some y"
    "ref_cnt x = ref_cnt y \<or> ext_buf x = ext_buf y" for p q x y
    using that clust_same [OF ok] by (auto split: if_splits)
  have a: "a \<in> holders V r" using e r by (simp add: holders_def)
  have na: "a \<notin> holders V x" if "x \<noteq> r" for x using e r that by (simp add: holders_def)
  have Rx: "R x = (if holders V x = {} then None else Some (card (holders V x)))" for x using ok by (simp add: clust_ok_def)
  have Cx: "C x \<noteq> None \<longleftrightarrow> (\<exists>p y. V p = Some y \<and> ext_buf y = Some x)" for x using ok by (simp add: clust_ok_def)
  {
    assume k: "card (holders V r) \<noteq> 1"
    then have "holders V r \<noteq> {a}" by auto
    then obtain a' where a': "a' \<in> holders V r" "a' \<noteq> a" using a by blast
    then obtain e' where e': "V a' = Some e'" "ref_cnt e' = Some r" by (auto simp: holders_def)
    then have "e' = e" using clust_same [OF ok e'(1) e] r by simp
    then have "C x \<noteq> None \<longleftrightarrow> (\<exists>p y. (V(a := None)) p = Some y \<and> ext_buf y = Some x)" for x
      using Cx [of x] e e'(1) a'(2) by (metis fun_upd_apply option.distinct(1) option.inject)
    moreover have "(R(r \<mapsto> card (holders V r) - 1)) x =
        (if holders (V(a := None)) x = {} then None else Some (card (holders (V(a := None)) x)))" for x
      using Rx [of x] a a' na [of x] finite_holders [OF ok] by (auto simp: holders_upd)
    ultimately show "clust_ok (V(a := None)) C (R(r \<mapsto> card (holders V r) - 1))"
      using fin some same unfolding clust_ok_def by blast
  next
    assume k: "card (holders V r) = 1"
    then have h: "holders V r = {a}" using a by (metis card_1_singletonE singletonD)
    have only: "p = a" if "V p = Some y" "ext_buf y = Some c" for p y
    proof -
      have "y = e" using clust_same [OF ok that(1) e] that(2) c by simp
      then show ?thesis using that(1) r h by (auto simp: holders_def)
    qed
    have "(C(c := None)) x \<noteq> None \<longleftrightarrow> (\<exists>p y. (V(a := None)) p = Some y \<and> ext_buf y = Some x)" for x
    proof (cases "x = c")
      case True
      then show ?thesis using only by (auto split: if_splits)
    next
      case False
      then have "p \<noteq> a" if "V p = Some y" "ext_buf y = Some x" for p y using that e c by auto
      then show ?thesis using Cx [of x] False by (auto split: if_splits)
    qed
    moreover have "(R(r := None)) x =
        (if holders (V(a := None)) x = {} then None else Some (card (holders (V(a := None)) x)))" for x
      using Rx [of x] h na [of x] by (auto simp: holders_upd)
    ultimately show "clust_ok (V(a := None)) (C(c := None)) (R(r := None))"
      using fin some same unfolding clust_ok_def by blast
  }
qed

text \<open>Freeing.\<close>

lemma heap_clust: "heap_ok h \<Longrightarrow> clust_ok (ext_view h) (clusters h) (refs h)"
  by (simp add: heap_ok_def)

lemma ext_view_Some: "mbufs h a = Some m \<Longrightarrow> flag m M_EXT \<Longrightarrow> ext_view h a = Some (m_ext_of m)"
  by (simp add: ext_view_def)

lemma no_tags_dtor:
  "mbufs h a = Some m \<Longrightarrow> flag m M_PKTHDR \<Longrightarrow> ph_tags (m_pkthdr m) = [] \<Longrightarrow> mb_dtor_mbuf a h = Some h"
  "mbufs h a = Some m \<Longrightarrow> \<not> flag m M_PKTHDR \<Longrightarrow> mb_dtor_mbuf a h = Some h"
  by (simp_all add: mb_dtor_mbuf_def m_tag_delete_chain_def)

lemma zone_free_eq:
  "mbufs h a = Some m \<Longrightarrow> flag m M_PKTHDR \<longrightarrow> ph_tags (m_pkthdr m) = [] \<Longrightarrow>
   zone_free_mbuf a h = Some (h\<lparr>mbufs := (mbufs h)(a := None)\<rparr>)"
  using no_tags_dtor [of h a m] by (cases "flag m M_PKTHDR") (simp_all add: zone_free_mbuf_def)

text \<open>The heap after an mbuf is gone, given what is left of the clusters.\<close>

lemma removed_ok:
  assumes "heap_ok h" "clust_ok ((ext_view h)(a := None)) C R" "\<And>x. x \<ge> brk h \<Longrightarrow> C x = None \<and> R x = None"
    and "\<And>c b. C c = Some b \<Longrightarrow> clusters h c = Some b"
  shows "heap_ok (h\<lparr>mbufs := (mbufs h)(a := None), clusters := C, refs := R\<rparr>)" (is "heap_ok ?h")
proof -
  have view: "ext_view ?h = (ext_view h)(a := None)" by (simp add: ext_view_def fun_eq_iff)
  have "local_ok ?h x y" if "mbufs ?h x = Some y" for x y
  proof -
    have m: "mbufs h x = Some y" "x \<noteq> a" using that by (simp_all split: if_splits)
    have l: "local_ok h x y" by (rule heap_local [OF assms(1) m(1)])
    show ?thesis
    proof (cases "flag y M_EXT")
      case True
      then obtain c b where c: "ext_buf (m_ext_of y) = Some c" "clusters h c = Some b" "length b = ext_size (m_ext_of y)"
          "m_data y + m_len y \<le> length b" "ext_type (m_ext_of y) = EXT_CLUSTER"
        using l by (auto simp: local_ok_def)
      have "((ext_view h)(a := None)) x = Some (m_ext_of y)" using m True by (simp add: ext_view_def)
      then have "C c \<noteq> None" using assms(2) c(1) unfolding clust_ok_def by blast
      then have "C c = Some b" using assms(4) c(2) by fastforce
      then show ?thesis using l True c by (simp add: local_ok_def)
    qed (use l in \<open>simp add: local_ok_def\<close>)
  qed
  then show ?thesis using assms(1-3) view by (simp add: heap_ok_def)
qed

lemma m_free_ok:
  assumes ok: "heap_ok h" and m: "mbufs h a = Some m"
  obtains h' where "m_free a h = Some (m_next m, h')" "heap_ok h'" "frame {a} h h'" "mbufs h' = (mbufs h)(a := None)" "brk h' = brk h"
proof -
  have l: "local_ok h a m" by (rule heap_local [OF ok m])
  show thesis
  proof (cases "flag m M_EXT")
    case True
    note ext = ext_view_Some [OF m True]
    obtain r c where r: "ref_cnt (m_ext_of m) = Some r" "ext_buf (m_ext_of m) = Some c"
        "refs h r = Some (card (holders (ext_view h) r))" "a \<in> holders (ext_view h) r" "clusters h c \<noteq> None"
      by (rule clust_ref [OF heap_clust [OF ok] ext])
    let ?k = "card (holders (ext_view h) r)"
    have k0: "?k \<noteq> 0" using r(4) finite_holders [OF heap_clust [OF ok]] by auto
    have lt: "r < brk h" "c < brk h" using ok r(3,5) by (metis heap_ok_def linorder_not_less option.distinct(1))+
    have old: "clusters h x = None \<and> refs h x = None" if "x \<ge> brk h" for x using ok that by (simp add: heap_ok_def)
    have type: "ext_type (m_ext_of m) = EXT_CLUSTER" using l True by (auto simp: local_ok_def)
    let ?C = "if ?k = 1 then (clusters h)(c := None) else clusters h"
    let ?R = "if ?k = 1 then (refs h)(r := None) else (refs h)(r \<mapsto> ?k - 1)"
    let ?h = "h\<lparr>mbufs := (mbufs h)(a := None), clusters := ?C, refs := ?R\<rparr>"
    have "clust_ok ((ext_view h)(a := None)) ?C ?R" using clust_leave [OF heap_clust [OF ok] ext r(1,2)] by simp
    then have h': "heap_ok ?h" by (rule removed_ok [OF ok]) (use lt old in \<open>auto split: if_splits\<close>)
    have "mb_free_ext a h = Some ?h"
      using m r(1-3,5) type l True k0
      by (cases "?k = 1") (simp_all add: mb_free_ext_def upd_mbuf_def zone_free_eq local_ok_def bit_simps Let_def)
    then have "m_free a h = Some (m_next m, ?h)" using m True by (simp add: m_free_def)
    then show thesis by (rule that [OF _ h']) (simp_all add: frame_def)
  next
    case False
    let ?h = "h\<lparr>mbufs := (mbufs h)(a := None)\<rparr>"
    have "m_free a h = Some (m_next m, ?h)" using m False l by (simp add: m_free_def zone_free_eq local_ok_def)
    moreover have "(ext_view h)(a := None) = ext_view h" using m False by (auto simp: ext_view_def fun_eq_iff)
    then have "heap_ok (h\<lparr>mbufs := (mbufs h)(a := None), clusters := clusters h, refs := refs h\<rparr>)"
      using ok by (intro removed_ok) (simp_all add: heap_ok_def)
    then have "heap_ok ?h" by simp
    ultimately show thesis by (rule that) (simp_all add: frame_def)
  qed
qed

lemma m_freem_simps [simp]:
  "m_freem None h = Some h" "m_freem (Some a) h = Option.bind (m_free a h) (\<lambda>(n, h1). m_freem n h1)"
  by (subst m_freem.simps, simp)+

lemma m_freem_ok:
  assumes "heap_ok h" "chain h p as"
  obtains h' where "m_freem p h = Some h'" "heap_ok h'" "frame (set as) h h'" "mbufs h' = mbufs h |` (- set as)" "brk h' = brk h"
  using assms
proof (induction as arbitrary: p h thesis)
  case Nil
  then show ?case using Nil.prems(1) [of h] by simp
next
  case (Cons a as)
  then obtain m where m: "p = Some a" "mbufs h a = Some m" "chain h (m_next m) as" by auto
  obtain h1 where h1: "m_free a h = Some (m_next m, h1)" "heap_ok h1" "frame {a} h h1" "mbufs h1 = (mbufs h)(a := None)" "brk h1 = brk h"
    by (rule m_free_ok [OF Cons.prems(2) m(2)])
  have "a \<notin> set as" using chain_distinct [OF Cons.prems(3)] by simp
  then have "chain h1 (m_next m) as" by (intro chain_frame [OF m(3)]) (auto simp: h1(4))
  then obtain h2 where h2: "m_freem (m_next m) h1 = Some h2" "heap_ok h2" "frame (set as) h1 h2"
      "mbufs h2 = mbufs h1 |` (- set as)" "brk h2 = brk h1"
    using Cons.IH h1(2) by blast
  show ?case
  proof (rule Cons.prems(1))
    show "m_freem p h = Some h2" using m(1) h1(1) h2(1) by simp
    show "frame (set (a # as)) h h2"
      by (rule frame_trans [OF frame_mono [OF h1(3)] h2(3)]) auto
    show "mbufs h2 = mbufs h |` (- set (a # as))" using h2(4) h1(4) by (auto simp: restrict_map_def fun_eq_iff)
  qed (use h2 h1 in simp_all)
qed

text \<open>The statistics do not matter.\<close>

lemma stats_irrelevant [simp]:
  "heap_ok (h\<lparr>m_mcfail := k\<rparr>) = heap_ok h" "heap_ok (h\<lparr>m_mpfail := k\<rparr>) = heap_ok h"
  "frame S h (h'\<lparr>m_mcfail := k\<rparr>) = frame S h h'" "frame S h (h'\<lparr>m_mpfail := k\<rparr>) = frame S h h'"
  by (simp_all add: heap_ok_def ext_view_def [abs_def] frame_def)

lemma chain_last:
  assumes "chain h p as" "as \<noteq> []"
  obtains z where "mbufs h (last as) = Some z" "m_next z = None"
  using assms
proof (induction as arbitrary: p thesis)
  case (Cons a as)
  then obtain m where m: "mbufs h a = Some m" "chain h (m_next m) as" by auto
  show ?case
  proof (cases "as = []")
    case True
    then show ?thesis using Cons.prems(1) m by simp
  next
    case False
    obtain z where "mbufs h (last as) = Some z" "m_next z = None" by (rule Cons.IH [OF _ m(2) False])
    then show ?thesis using Cons.prems(1) False by simp
  qed
qed simp

end
