(* ===== verification/Mbuf_Ops.thy ===== *)
theory Mbuf_Ops
  imports Mbuf_Heap
begin

text \<open>
  What the chain operations of \<^verbatim>\<open>user_mbuf.c\<close> do to the contents of a chain.
\<close>

section \<open>Reading\<close>

lemma skip_mbufs_simps [simp]:
  "skip_mbufs h p 0 = Some (p, 0)"
  "mbufs h a = Some m \<Longrightarrow> off > 0 \<Longrightarrow>
     skip_mbufs h (Some a) off = (if off < m_len m then Some (Some a, off) else skip_mbufs h (m_next m) (off - m_len m))"
  by (subst skip_mbufs.simps, simp add: get_mbuf_def)+

lemma copydata_loop_simps [simp]:
  "copydata_loop h p off 0 = Some []"
  "mbufs h a = Some m \<Longrightarrow> len > 0 \<Longrightarrow> copydata_loop h (Some a) off len =
     Option.bind (copy_from h a off (min (m_len m - off) len)) (\<lambda>xs.
       Option.bind (copydata_loop h (m_next m) 0 (len - min (m_len m - off) len)) (\<lambda>ys. Some (xs @ ys)))"
  by (subst copydata_loop.simps, simp add: Let_def)+

text \<open>Where the skipping loop stops: at a suffix of the chain.\<close>

lemma skip_mbufs_ok:
  assumes "heap_ok h" "chain h p as" "off \<le> length (chain_data h as)"
  obtains bs cs q off' where "skip_mbufs h p off = Some (q, off')" "as = bs @ cs" "chain h q cs"
    "drop off (chain_data h as) = drop off' (chain_data h cs)" "off' = 0 \<or> (\<exists>b ds m. cs = b # ds \<and> mbufs h b = Some m \<and> off' < m_len m)"
  using assms
proof (induction as arbitrary: p off thesis)
  case Nil
  show ?case by (rule Nil.prems(1) [of p 0 "[]" "[]"]) (use Nil.prems in simp_all)
next
  case (Cons a as)
  then obtain m where m: "p = Some a" "mbufs h a = Some m" "chain h (m_next m) as" by auto
  note len = length_mbytes [OF \<open>heap_ok h\<close> m(2)]
  consider "off = 0" | "off > 0" "off < m_len m" | "off > 0" "m_len m \<le> off" by linarith
  then show ?case
  proof cases
    case 1
    show ?thesis by (rule Cons.prems(1) [of p 0 "[]" "a # as"]) (use 1 Cons.prems in simp_all)
  next
    case 2
    show ?thesis by (rule Cons.prems(1) [of p off "[]" "a # as"]) (use 2 m Cons.prems in simp_all)
  next
    case 3
    obtain bs cs q off' where r: "skip_mbufs h (m_next m) (off - m_len m) = Some (q, off')" "as = bs @ cs" "chain h q cs"
        "drop (off - m_len m) (chain_data h as) = drop off' (chain_data h cs)"
        "off' = 0 \<or> (\<exists>b ds m. cs = b # ds \<and> mbufs h b = Some m \<and> off' < m_len m)"
      by (rule Cons.IH [OF _ \<open>heap_ok h\<close> m(3), of "off - m_len m"]) (use Cons.prems(4) len in auto)
    show ?thesis by (rule Cons.prems(1) [of q off' "a # bs" cs]) (use 3 m r len in simp_all)
  qed
qed

lemma copydata_loop_ok:
  assumes "heap_ok h" "chain h p as" "off + len \<le> length (chain_data h as)"
    and "off = 0 \<or> (\<exists>b ds m. as = b # ds \<and> mbufs h b = Some m \<and> off < m_len m)"
  shows "copydata_loop h p off len = Some (take len (drop off (chain_data h as)))"
  using assms(2-)
proof (induction as arbitrary: p off len)
  case Nil
  then show ?case by simp
next
  case (Cons a as)
  then obtain m where m: "p = Some a" "mbufs h a = Some m" "chain h (m_next m) as" by auto
  note l = length_mbytes [OF assms(1) m(2)]
  have off: "off \<le> m_len m" using Cons.prems(3) m(2) by auto
  let ?c = "min (m_len m - off) len"
  show ?case
  proof (cases "len = 0")
    case False
    have "copy_from h a off ?c = Some (take ?c (drop off (mbytes h a)))"
      by (rule copy_from_ok [OF assms(1) m(2)]) (use off in auto)
    moreover have "copydata_loop h (m_next m) 0 (len - ?c) = Some (take (len - ?c) (drop 0 (chain_data h as)))"
      by (rule Cons.IH [OF m(3)]) (use Cons.prems(2) l off in auto)
    moreover have "take ?c (drop off (mbytes h a)) @ take (len - ?c) (chain_data h as) = take len (drop off (chain_data h (a # as)))"
      using off l by (simp add: min_def)
    ultimately show ?thesis using m False by simp
  qed simp
qed

lemma m_copydata_ok:
  assumes "heap_ok h" "chain h p as" "off + len \<le> length (chain_data h as)"
  shows "m_copydata h p off len = Some (take len (drop off (chain_data h as)))"
proof -
  have "off \<le> length (chain_data h as)" using assms(3) by simp
  then obtain bs cs q off' where s: "skip_mbufs h p off = Some (q, off')" "as = bs @ cs" "chain h q cs"
    "drop off (chain_data h as) = drop off' (chain_data h cs)"
    "off' = 0 \<or> (\<exists>b ds m. cs = b # ds \<and> mbufs h b = Some m \<and> off' < m_len m)"
    by (rule skip_mbufs_ok [OF assms(1,2)])
  have "length (drop off (chain_data h as)) = length (drop off' (chain_data h cs))" by (simp only: s(4))
  moreover have "off' \<le> length (chain_data h cs)"
    using s(5)
  proof
    assume "\<exists>b ds m. cs = b # ds \<and> mbufs h b = Some m \<and> off' < m_len m"
    then obtain b ds m where "cs = b # ds" "mbufs h b = Some m" "off' < m_len m" by blast
    then show ?thesis using length_mbytes [OF assms(1), of b m] by simp
  qed simp
  ultimately have "off' + len \<le> length (chain_data h cs)" using assms(3) by simp
  then show ?thesis using copydata_loop_ok [OF assms(1) s(3) _ s(5)] s(1,4) by (simp add: m_copydata_def)
qed

section \<open>Filling a new mbuf\<close>

lemma splice_length [simp]: "i + length xs \<le> length b \<Longrightarrow> length (splice b i xs) = length b"
  by (simp add: splice_def)

lemma splice_read:
  "i + length xs \<le> length b \<Longrightarrow> j + length ys = i \<Longrightarrow> take (length ys) (drop j b) = ys \<Longrightarrow>
   take (length ys + length xs) (drop j (splice b i xs)) = ys @ xs"
  by (simp add: splice_def take_add drop_take) (metis add.commute add_diff_cancel_right' drop_take)

lemma copy_to_ok:
  assumes "heap_ok h" "mbufs h b = Some n" "\<not> flag n M_EXT" "m_data n + off + length xs \<le> MLEN"
  shows "copy_to b off xs h = Some (h\<lparr>mbufs := (mbufs h)(b \<mapsto> n\<lparr>m_dat := splice (m_dat n) (m_data n + off) xs\<rparr>)\<rparr>)"
  using assms heap_local [OF assms(1,2)] by (simp add: copy_to_def buffer_def local_ok_def Let_def)

text \<open>An mbuf without a cluster joins the cluster of another.\<close>

lemma join_ok:
  assumes ok: "heap_ok h" and m: "mbufs h a = Some m" "flag m M_EXT" and n: "mbufs h b = Some n" "\<not> flag n M_EXT"
    and n': "flag n' M_EXT" "m_ext_of n' = m_ext_of m" "flag n' M_PKTHDR = flag n M_PKTHDR" "flag n' M_NOFREE = flag n M_NOFREE"
      "m_type n' = m_type n" "m_dat n' = m_dat n" "ph_tags (m_pkthdr n') = ph_tags (m_pkthdr n)"
      "m_data n' + m_len n' \<le> m_data m + m_len m"
  obtains r k where "ref_cnt (m_ext_of m) = Some r" "refs h r = Some k"
    "heap_ok (h\<lparr>mbufs := (mbufs h)(b \<mapsto> n'), refs := (refs h)(r \<mapsto> k + 1)\<rparr>)"
proof -
  note ext = ext_view_Some [OF m]
  obtain r c where r: "ref_cnt (m_ext_of m) = Some r" "ext_buf (m_ext_of m) = Some c"
      "refs h r = Some (card (holders (ext_view h) r))" "a \<in> holders (ext_view h) r" "clusters h c \<noteq> None"
    by (rule clust_ref [OF heap_clust [OF ok] ext])
  let ?h = "h\<lparr>mbufs := (mbufs h)(b \<mapsto> n'), refs := (refs h)(r \<mapsto> card (holders (ext_view h) r) + 1)\<rparr>"
  have b: "ext_view h b = None" using n by (simp add: ext_view_def)
  have view: "ext_view ?h = (ext_view h)(b \<mapsto> m_ext_of m)" using n'(1,2) by (simp add: ext_view_def fun_eq_iff)
  have "r < brk h" using ok r(3) by (metis heap_ok_def linorder_not_less option.distinct(1))
  moreover have "local_ok ?h x y" if "mbufs ?h x = Some y" for x y
  proof (cases "x = b")
    case True
    then show ?thesis
      using that n' heap_local [OF ok n(1)] heap_local [OF ok m(1)] m(2) by (auto simp: local_ok_def)
  next
    case False
    then show ?thesis by (intro local_ok_cong [OF heap_local [OF ok]]) (use that in simp_all)
  qed
  ultimately have "heap_ok ?h"
    using ok clust_join [OF heap_clust [OF ok] ext b r(1)] view by (auto simp: heap_ok_def)
  then show thesis using that r(1,3) by blast
qed

text \<open>The bytes of a sub-range, read through the cluster.\<close>

lemma sub_range: "off + k \<le> l \<Longrightarrow> take k (drop (d + off) b) = take k (drop off (take l (drop d b)))"
  by (simp add: drop_take min_def add.commute)

lemma copym_fill_ok:
  assumes ok: "heap_ok h" and m: "mbufs h a = Some m" and n: "mbufs h b = Some n" "\<not> flag n M_EXT" "m_len n = 0"
    and ab: "a \<noteq> b" and k: "off + k \<le> m_len m" "\<not> flag m M_EXT \<Longrightarrow> m_data n + k \<le> MLEN"
  obtains h' n' where "copym_fill b a off k h = Some h'" "heap_ok h'" "frame {b} h h'" "brk h' = brk h"
    "mbufs h' = (mbufs h)(b \<mapsto> n')" "m_next n' = m_next n" "m_pkthdr n' = m_pkthdr n" "flag n' M_PKTHDR = flag n M_PKTHDR"
    "mbytes h' b = take k (drop off (mbytes h a))"
proof (cases "flag m M_EXT")
  case True
  let ?n = "n\<lparr>m_len := k, m_data := m_data m + off, m_ext_of := m_ext_of m, m_flags := m_flags n OR M_EXT\<rparr>"
  obtain r j where r: "ref_cnt (m_ext_of m) = Some r" "refs h r = Some j"
    "heap_ok (h\<lparr>mbufs := (mbufs h)(b \<mapsto> ?n), refs := (refs h)(r \<mapsto> j + 1)\<rparr>)" (is "heap_ok ?h")
    by (rule join_ok [OF ok m True n(1,2), of ?n]) (use k(1) in \<open>simp_all add: bit_simps\<close>)
  have "copym_fill b a off k h = Some ?h"
    using m n ab True r(1,2) by (simp add: copym_fill_def upd_mbuf_def mb_dupcl_def)
  moreover have "buffer ?h ?n = buffer h m" using True by (simp add: buffer_def bit_simps)
  then have "mbytes ?h b = take k (drop off (mbytes h a))" using m k(1) by (simp add: mbytes_def sub_range)
  ultimately show thesis using r(3) by (intro that [of ?h ?n]) (simp_all add: frame_def bit_simps)
next
  case False
  let ?n1 = "n\<lparr>m_len := k\<rparr>" and ?xs = "take k (drop off (mbytes h a))"
  let ?h1 = "h\<lparr>mbufs := (mbufs h)(b \<mapsto> ?n1)\<rparr>"
  let ?n2 = "?n1\<lparr>m_dat := splice (m_dat n) (m_data n) ?xs\<rparr>"
  let ?h2 = "h\<lparr>mbufs := (mbufs h)(b \<mapsto> ?n2)\<rparr>"
  have l: "local_ok h b n" by (rule heap_local [OF ok n(1)])
  have len: "length ?xs = k" using length_mbytes [OF ok m] k(1) by simp
  have h1: "heap_ok ?h1" by (rule upd_ok [OF ok n(1)]) (use l k(2) [OF False] n(2) in \<open>simp_all add: local_ok_def\<close>)
  have "copy_from ?h1 a off k = Some ?xs"
    using copy_from_ok [OF h1, of a m off k] m ab k(1) by (simp add: mbytes_def buffer_def)
  moreover have "copy_to b 0 ?xs ?h1 = Some ?h2"
    using copy_to_ok [OF h1, of b ?n1 0 ?xs] n(2) k(2) [OF False] len by simp
  ultimately have "copym_fill b a off k h = Some ?h2" using m n(1) ab False by (simp add: copym_fill_def upd_mbuf_def)
  moreover have "heap_ok ?h2"
    by (rule upd_ok [OF ok n(1)]) (use l k(2) [OF False] n(2) len in \<open>simp_all add: local_ok_def\<close>)
  moreover have "mbytes ?h2 b = ?xs"
    using n(2) l k(2) [OF False] len splice_read [of "m_data n" ?xs "m_dat n" "m_data n" "[]"]
    by (simp add: mbytes_def buffer_def local_ok_def)
  ultimately show thesis by (intro that [of ?h2 ?n2]) (simp_all add: frame_def)
qed

lemma m_dup_pkthdr_ok:
  assumes "heap_ok h" "mbufs h a = Some m" "flag m M_PKTHDR" "mbufs h b = Some n" "a \<noteq> b"
  shows "m_dup_pkthdr b a h =
    Some (True, h\<lparr>mbufs := (mbufs h)(b \<mapsto> (hdr_flags m n)\<lparr>m_pkthdr := (m_pkthdr m)\<lparr>ph_tags := []\<rparr>\<rparr>)\<rparr>)"
  using assms heap_local [OF assms(1,2)]
  by (simp add: m_dup_pkthdr_def upd_mbuf_def m_tag_copy_chain_def m_tag_delete_chain_def local_ok_def)

lemma hdr_flags_fields:
  assumes "\<not> flag n M_EXT"
  shows "\<not> flag (hdr_flags m n) M_EXT" "flag (hdr_flags m n) M_PKTHDR = flag m M_PKTHDR" "\<not> flag (hdr_flags m n) M_NOFREE"
    "m_data (hdr_flags m n) = PKTDAT" "m_len (hdr_flags m n) = m_len n" "m_next (hdr_flags m n) = m_next n"
    "m_type (hdr_flags m n) = m_type n" "m_dat (hdr_flags m n) = m_dat n"
  using assms by (simp_all add: hdr_flags_def Let_def bit_simps)

section \<open>Copying a chain\<close>

lemma chain_snoc:
  assumes "chain h p as" "as \<noteq> []" "mbufs h (last as) = Some z" "b \<notin> set as"
    and "mbufs h' = (mbufs h)(last as \<mapsto> z\<lparr>m_next := Some b\<rparr>, b \<mapsto> n)" "m_next n = None"
  shows "chain h' p (as @ [b])"
  using assms(1-5)
proof (induction as arbitrary: p)
  case Nil
  then show ?case by simp
next
  case (Cons a as)
  then obtain m where m: "p = Some a" "mbufs h a = Some m" "chain h (m_next m) as" by auto
  have ab: "a \<noteq> b" and last: "mbufs h' b = Some n" using Cons.prems(4,5) by auto
  show ?case
  proof (cases "as = []")
    case True
    then have "mbufs h' a = Some (z\<lparr>m_next := Some b\<rparr>)" using ab Cons.prems(5) by simp
    then show ?thesis using True m(1) last assms(6) by simp
  next
    case False
    then have "a \<noteq> last as" using chain_distinct [OF Cons.prems(1)] last_in_set [of as] by auto
    then have "mbufs h' a = Some m" using ab m(2) Cons.prems(5) False by simp
    moreover have "chain h' (m_next m) (as @ [b])" using Cons.IH [OF m(3) False] Cons.prems(3-5) False by simp
    ultimately show ?thesis using m(1) by simp
  qed
qed

text \<open>The state of the copy: \<open>ns\<close> is the list of new mbufs.\<close>

definition copy_state :: "mheap \<Rightarrow> nat option \<Rightarrow> nat option \<Rightarrow> nat list \<Rightarrow> bool" where
  "copy_state h np topp ns \<longleftrightarrow> chain h topp ns \<and> np = last_of ns"

lemma copy_link:
  assumes "heap_ok h" "copy_state h np topp ns" "mbufs h b = Some n" "b \<notin> set ns" "m_next n = None"
  obtains top1 h' where "set_link np (Some b) (topp, h) = Some (top1, h')" "heap_ok h'" "frame (set ns) h h'" "brk h' = brk h"
    "copy_state h' (Some b) top1 (ns @ [b])" "mbufs h' b = Some n" "\<forall>a. a \<notin> set ns \<longrightarrow> mbufs h' a = mbufs h a"
    "\<forall>a \<in> set ns. mbytes h' a = mbytes h a"
proof (cases "ns = []")
  case True
  then have "np = None" using assms(2) by (simp add: copy_state_def)
  then show thesis using assms True by (intro that [of "Some b" h]) (simp_all add: set_link_def copy_state_def last_of_def)
next
  case False
  let ?z = "last ns"
  have np: "np = Some ?z" "chain h topp ns" using assms(2) False by (simp_all add: copy_state_def last_of_def)
  obtain z where z: "mbufs h ?z = Some z" using chain_live [OF np(2)] False by fastforce
  let ?h = "h\<lparr>mbufs := (mbufs h)(?z \<mapsto> z\<lparr>m_next := Some b\<rparr>)\<rparr>"
  have neq: "?z \<noteq> b" using assms(4) False by auto
  have ok: "heap_ok ?h"
    by (rule upd_ok [OF assms(1) z]) (use heap_local [OF assms(1) z] in simp_all)
  have "mbufs ?h = (mbufs h)(?z \<mapsto> z\<lparr>m_next := Some b\<rparr>, b \<mapsto> n)" using neq assms(3) by auto
  then have "chain ?h topp (ns @ [b])" by (rule chain_snoc [OF np(2) False z assms(4) _ assms(5)])
  moreover have "mbytes ?h a = mbytes h a" for a using z by (auto simp: mbytes_def split: option.splits)
  ultimately show thesis using np neq assms(3) ok z False
    by (intro that [of topp ?h]) (auto simp: set_link_def upd_mbuf_def copy_state_def frame_def last_of_def)
qed

text \<open>A new mbuf with its header, if the copy has one.\<close>

lemma copym_head_ok:
  assumes ok: "heap_ok h" and m: "mbufs h a = Some m" and n: "mbufs h b = Some n" "a \<noteq> b"
    and new: "new_ok (if hdr then M_PKTHDR else 0) (m_type m) n" and hdr: "hdr \<Longrightarrow> flag m M_PKTHDR"
  obtains h' n' where "(if hdr then copym_header b a off0 len h else Some (True, h)) = Some (True, h')" "heap_ok h'"
    "frame {b} h h'" "brk h' = brk h" "mbufs h' = (mbufs h)(b \<mapsto> n')" "m_next n' = m_next n" "m_len n' = 0" "\<not> flag n' M_EXT"
    "m_data n' = (if hdr then PKTDAT else 0)"
proof -
  have l: "local_ok h b n" by (rule heap_local [OF ok n(1)])
  have ext: "\<not> flag n M_EXT" and n0: "m_len n = 0" using new by (auto simp: new_ok_def split: if_splits)
  show thesis
  proof (cases hdr)
    case True
    let ?n = "(hdr_flags m n)\<lparr>m_pkthdr := (m_pkthdr m)\<lparr>ph_tags := [], ph_len :=
       (if len = M_COPYALL then ph_len (m_pkthdr m) - int off0 else int len)\<rparr>\<rparr>"
    let ?h = "h\<lparr>mbufs := (mbufs h)(b \<mapsto> ?n)\<rparr>"
    note f = hdr_flags_fields [OF ext, of m]
    have ext': "\<not> flag ?n M_EXT" using f(1) by (simp add: flag_def)
    have "copym_header b a off0 len h = Some (True, ?h)"
      using m_dup_pkthdr_ok [OF ok m hdr [OF True] n] by (simp add: copym_header_def upd_mbuf_def)
    moreover have "local_ok h b ?n"
      using l f n0 hdr [OF True] by (simp add: local_ok_def MLEN_def MHLEN_def PKTDAT_def)
    then have "heap_ok ?h" using ext ext' by (intro upd_ok [OF ok n(1)]) simp_all
    ultimately show thesis using True f n0 by (intro that [of ?h ?n]) (simp_all add: frame_def)
  next
    case False
    then show thesis using ok new n(1) ext n0 by (intro that [of h n]) (auto simp: new_ok_def)
  qed
qed

lemma chain_same_next:
  assumes "chain h p as" "\<And>x. x \<in> set as \<Longrightarrow> map_option m_next (mbufs h' x) = map_option m_next (mbufs h x)"
  shows "chain h' p as"
  using assms
proof (induction as arbitrary: p)
  case (Cons a as)
  then obtain m where m: "p = Some a" "mbufs h a = Some m" "chain h (m_next m) as" by auto
  then obtain m' where "mbufs h' a = Some m'" "m_next m' = m_next m" using Cons.prems(2) [of a] by auto
  then show ?case using Cons.IH [OF m(3)] Cons.prems(2) m(1) by simp
qed simp

lemma alloc_cases:
  assumes "heap_ok h" "mbufs h a = Some m" "(if hdr then m_gethdr (m_type m) h else m_get (m_type m) h) = (p, h1)"
  shows "heap_ok h1" "frame {} h h1" "brk h1 = brk h + 1"
    and "p = None \<and> mbufs h1 = mbufs h \<or> (\<exists>n. p = Some (brk h) \<and> mbufs h1 = (mbufs h)(brk h \<mapsto> n) \<and>
      new_ok (if hdr then M_PKTHDR else 0) (m_type m) n)"
proof -
  have "m_type m \<noteq> MT_NOINIT" using heap_local [OF assms(1,2)] by (simp add: local_ok_def)
  moreover have "alloc_mbuf (if hdr then M_PKTHDR else 0) (m_type m) h = (p, h1)"
    using assms(3) by (simp add: m_gethdr_def m_get_def split: if_splits)
  ultimately show "heap_ok h1" "frame {} h h1" "brk h1 = brk h + 1"
    and "p = None \<and> mbufs h1 = mbufs h \<or> (\<exists>n. p = Some (brk h) \<and> mbufs h1 = (mbufs h)(brk h \<mapsto> n) \<and>
      new_ok (if hdr then M_PKTHDR else 0) (m_type m) n)"
    using alloc_ok [OF assms(1), of "m_type m" "if hdr then M_PKTHDR else 0" p h1] by auto
qed

lemma copym_step:
  assumes ok: "heap_ok h" and st: "copy_state h np topp ns" and m: "mbufs h a = Some m" "a \<notin> set ns"
    and hdr: "hdr \<Longrightarrow> flag m M_PKTHDR" and k: "off + k \<le> m_len m"
    and al: "(if hdr then m_gethdr (m_type m) h else m_get (m_type m) h) = (Some b, h1)"
  obtains top1 h2 h3 h4 where "set_link np (Some b) (topp, h1) = Some (top1, h2)"
    "(if hdr then copym_header b a off0 len h2 else Some (True, h2)) = Some (True, h3)" "copym_fill b a off k h3 = Some h4"
    "heap_ok h4" "frame (set ns) h h4" "copy_state h4 (Some b) top1 (ns @ [b])" "b = brk h"
    "\<forall>x. x \<notin> set ns \<and> x \<noteq> b \<longrightarrow> mbufs h4 x = mbufs h x"
    "mbytes h4 b = take k (drop off (mbytes h a))" "\<forall>x \<in> set ns. mbytes h4 x = mbytes h x"
proof -
  note A = alloc_cases [OF ok m(1) al]
  from A(4) obtain n where b: "b = brk h"
      and n: "mbufs h1 = (mbufs h)(brk h \<mapsto> n)" "new_ok (if hdr then M_PKTHDR else 0) (m_type m) n"
    by blast
  have tops: "chain h topp ns" using st by (simp add: copy_state_def)
  have lt: "x < brk h" if "x \<in> set ns" for x by (rule chain_lt [OF ok tops that])
  have bns: "b \<notin> set ns" using lt b by blast
  have ab: "a \<noteq> b" using heap_lt [OF ok m(1)] b by simp
  have "mbufs h1 x = mbufs h x" if "x \<in> set ns" for x using n(1) lt [OF that] by simp
  then have "chain h1 topp ns" by (rule chain_frame [OF tops])
  then have st1: "copy_state h1 np topp ns" using st by (simp add: copy_state_def)
  have b1: "mbufs h1 b = Some n" "m_next n = None" using n b by (simp_all add: new_ok_def)
  obtain top1 h2 where L: "set_link np (Some b) (topp, h1) = Some (top1, h2)" "heap_ok h2" "frame (set ns) h1 h2" "brk h2 = brk h1"
    "copy_state h2 (Some b) top1 (ns @ [b])" "mbufs h2 b = Some n" "\<forall>x. x \<notin> set ns \<longrightarrow> mbufs h2 x = mbufs h1 x"
    "\<forall>x \<in> set ns. mbytes h2 x = mbytes h1 x"
    by (rule copy_link [OF A(1) st1 b1(1) bns b1(2)])
  have m2: "mbufs h2 a = Some m" using L(7) m n(1) b ab by simp
  obtain h3 n3 where H: "(if hdr then copym_header b a off0 len h2 else Some (True, h2)) = Some (True, h3)" "heap_ok h3"
    "frame {b} h2 h3" "brk h3 = brk h2" "mbufs h3 = (mbufs h2)(b \<mapsto> n3)" "m_next n3 = m_next n" "m_len n3 = 0" "\<not> flag n3 M_EXT"
    "m_data n3 = (if hdr then PKTDAT else 0)"
    by (rule copym_head_ok [OF L(2) m2 L(6) ab n(2) hdr])
  have m3: "mbufs h3 a = Some m" using H(5) m2 ab by simp
  have n3: "mbufs h3 b = Some n3" using H(5) by simp
  have room: "m_data n3 + k \<le> MLEN" if "\<not> flag m M_EXT"
    using heap_local [OF ok m(1)] that k hdr H(9) by (cases hdr) (auto simp: local_ok_def)
  obtain h4 n4 where F: "copym_fill b a off k h3 = Some h4" "heap_ok h4" "frame {b} h3 h4" "brk h4 = brk h3"
    "mbufs h4 = (mbufs h3)(b \<mapsto> n4)" "m_next n4 = m_next n3" "mbytes h4 b = take k (drop off (mbytes h3 a))"
    by (rule copym_fill_ok [OF H(2) m3 n3 H(8,7) ab k room])
  have f24: "frame {b} h2 h4" by (rule frame_trans [OF H(3) F(3)]) simp
  have f02: "frame (set ns) h h2" by (rule frame_trans [OF frame_mono [OF A(2)] L(3)]) simp_all
  have "frame (set ns) h h4" by (rule frame_trans [OF f02 f24]) (simp add: b)
  moreover have "copy_state h4 (Some b) top1 (ns @ [b])"
  proof -
    have "map_option m_next (mbufs h4 x) = map_option m_next (mbufs h2 x)" for x
      using L(6) H(5,6) F(5,6) by (cases "x = b") simp_all
    then show ?thesis using L(5) chain_same_next [of h2 top1 "ns @ [b]" h4] by (simp add: copy_state_def)
  qed
  moreover have "mbytes h4 b = take k (drop off (mbytes h a))"
  proof -
    have "frame (set ns) h h3" by (rule frame_trans [OF f02 H(3)]) (simp add: b)
    then have "mbytes h3 a = mbytes h a" by (rule frame_bytes [OF _ ok H(2) m])
    then show ?thesis using F(7) by simp
  qed
  moreover have "mbytes h4 x = mbytes h x" if x: "x \<in> set ns" for x
  proof -
    obtain y where y: "mbufs h x = Some y" using chain_live [OF tops x] by blast
    obtain y2 where y2: "mbufs h2 x = Some y2" using chain_live [of h2 top1 "ns @ [b]" x] L(5) x by (auto simp: copy_state_def)
    have "x \<noteq> b" using x bns by blast
    then have "mbytes h4 x = mbytes h2 x" using frame_bytes [OF f24 L(2) F(2) y2] by simp
    also have "\<dots> = mbytes h1 x" using L(8) x by blast
    also have "\<dots> = mbytes h x" using frame_bytes [OF A(2) ok A(1) y] by simp
    finally show ?thesis .
  qed
  moreover have "mbufs h4 x = mbufs h x" if "x \<notin> set ns" "x \<noteq> b" for x
    using F(5) H(5) L(7) that n(1) b by simp
  ultimately show thesis using L(1) H(1) F(1,2) b by (intro that [of top1 h2 h3 h4] allI ballI impI; (elim conjE)?) blast+
qed

lemma set_link_null:
  assumes "copy_state h np topp ns" "mbufs h1 = mbufs h"
  shows "set_link np None (topp, h1) = Some (topp, h1)"
proof (cases "ns = []")
  case True
  then show ?thesis using assms(1) by (simp add: set_link_def copy_state_def)
next
  case False
  then have np: "np = Some (last ns)" "chain h topp ns" using assms(1) by (simp_all add: copy_state_def last_of_def)
  obtain z where z: "mbufs h (last ns) = Some z" "m_next z = None" by (rule chain_last [OF np(2) False])
  have "z\<lparr>m_next := None\<rparr> = z" using z(2) by simp
  then show ?thesis using z(1) np(1) assms(2) by (simp add: set_link_def upd_mbuf_def fun_upd_idem)
qed

lemma copym_nospace_ok:
  assumes "heap_ok h" "chain h topp ns"
  obtains h' where "copym_nospace topp h = Some (None, h')" "heap_ok h'" "frame (set ns) h h'" "mbufs h' = mbufs h |` (- set ns)"
  by (rule m_freem_ok [OF assms]) (simp add: copym_nospace_def that)

lemma copym_loop_end:
  "len = 0 \<or> p = None \<Longrightarrow>
   copym_loop off0 hdr p off len np topp h = Some (topp, if topp = None then h\<lparr>m_mcfail := m_mcfail h + 1\<rparr> else h)"
  by (subst copym_loop.simps) auto

lemma copym_loop_fail:
  "mbufs h a = Some m \<Longrightarrow> 0 < len \<Longrightarrow> (if hdr then m_gethdr (m_type m) h else m_get (m_type m) h) = (None, h1) \<Longrightarrow>
   set_link np None (topp, h1) = Some (top1, h2) \<Longrightarrow>
   copym_loop off0 hdr (Some a) off len np topp h = copym_nospace top1 h2"
  by (subst copym_loop.simps) simp

lemma copym_loop_step:
  "mbufs h a = Some m \<Longrightarrow> 0 < len \<Longrightarrow> (if hdr then m_gethdr (m_type m) h else m_get (m_type m) h) = (Some b, h1) \<Longrightarrow>
   set_link np (Some b) (topp, h1) = Some (top1, h2) \<Longrightarrow>
   (if hdr then copym_header b a off0 len h2 else Some (True, h2)) = Some (True, h3) \<Longrightarrow>
   copym_fill b a off (min len (m_len m - off)) h3 = Some h4 \<Longrightarrow>
   copym_loop off0 hdr (Some a) off len np topp h =
     copym_loop off0 False (m_next m) 0 (if len \<noteq> M_COPYALL then len - min len (m_len m - off) else len) (Some b) top1 h4"
  by (subst copym_loop.simps) simp

text \<open>The bytes still to be copied.\<close>

lemma copy_bytes:
  fixes d :: bytes
  assumes "off \<le> length x" "length x + length d \<le> M_COPYALL" "len \<le> M_COPYALL"
  shows "take len (drop off (x @ d)) = take (min len (length x - off)) (drop off x) @
    take (if len \<noteq> M_COPYALL then len - min len (length x - off) else len) d"
  using assms by (auto simp: min_def)

definition copied :: "mheap \<Rightarrow> nat list \<Rightarrow> bytes \<Rightarrow> nat option \<Rightarrow> mheap \<Rightarrow> bool" where
  "copied h ns wanted r h' \<longleftrightarrow> heap_ok h' \<and> frame (set ns) h h' \<and>
     (r = None \<and> mbufs h' = mbufs h |` (- set ns) \<and> (ns = [] \<and> wanted = [] \<or> (\<exists>i. new_mbuf h i = None)) \<or>
      (\<exists>ns'. ns @ ns' \<noteq> [] \<and> chain h' r (ns @ ns') \<and> chain_data h' (ns @ ns') = chain_data h ns @ wanted \<and>
        (\<forall>x \<in> set ns'. brk h \<le> x) \<and> (\<forall>x. x \<notin> set ns \<union> set ns' \<longrightarrow> mbufs h' x = mbufs h x)))"

lemma copied_end:
  assumes "heap_ok h" "copy_state h np topp ns" "len = 0 \<or> p = None" "wanted = []"
  shows "\<exists>r h'. copym_loop off0 hdr p off len np topp h = Some (r, h') \<and> copied h ns wanted r h'"
proof (cases "ns = []")
  case True
  then have "topp = None" using assms(2) by (simp add: copy_state_def)
  moreover have "mbufs h |` UNIV = mbufs h" by (simp add: restrict_map_def)
  ultimately show ?thesis using assms True by (simp add: copym_loop_end copied_def)
next
  case False
  then have c: "chain h topp ns" "topp \<noteq> None" using assms(2) by (cases ns; simp add: copy_state_def)+
  then have "copied h ns wanted topp h" unfolding copied_def using assms(1,4) False by (intro conjI disjI2 exI [of _ "[]"]) simp_all
  then show ?thesis using c(2) assms(3) by (auto simp: copym_loop_end)
qed

lemma copied_extend:
  assumes h: "heap_ok h" "chain h topp ns" and h4: "heap_ok h4" "frame (set ns) h h4"
    "\<forall>x. x \<notin> set ns \<and> x \<noteq> brk h \<longrightarrow> mbufs h4 x = mbufs h x" "\<forall>x \<in> set ns. mbytes h4 x = mbytes h x" "brk h < brk h4"
    and r: "copied h4 (ns @ [brk h]) w r h'"
  shows "copied h ns (mbytes h4 (brk h) @ w) r h'"
proof -
  have f: "frame (set ns) h h'"
    by (rule frame_trans [OF h4(2), of "set (ns @ [brk h])"]) (use r in \<open>auto simp: copied_def\<close>)
  have lt: "x < brk h" if "x \<in> set ns" for x by (rule chain_lt [OF h that])
  have data: "chain_data h4 ns = chain_data h ns" using h4(4) by (simp add: chain_data_def cong: map_cong)
  have ok: "heap_ok h'" using r by (simp add: copied_def)
  have alloc: "new_mbuf h4 = new_mbuf h" using h4(2) by (simp add: frame_def)
  from r consider "r = None" "mbufs h' = mbufs h4 |` (- set (ns @ [brk h]))" "\<exists>i. new_mbuf h4 i = None"
    | ns' where "chain h' r ((ns @ [brk h]) @ ns')" "chain_data h' ((ns @ [brk h]) @ ns') = chain_data h4 (ns @ [brk h]) @ w"
        "\<forall>x \<in> set ns'. brk h4 \<le> x" "\<forall>x. x \<notin> set (ns @ [brk h]) \<union> set ns' \<longrightarrow> mbufs h' x = mbufs h4 x"
    by (auto simp only: copied_def)
  then show ?thesis
  proof cases
    case 1
    have "mbufs h' = mbufs h |` (- set ns)"
    proof
      fix x
      show "mbufs h' x = (mbufs h |` (- set ns)) x"
        using 1(2) h4(3) heap_brk [OF h(1)] by (cases "x = brk h") (simp_all add: restrict_map_def)
    qed
    then show ?thesis using 1(1,3) ok f alloc by (simp add: copied_def)
  next
    case (2 ns')
    have "chain h' r (ns @ (brk h # ns'))" using 2(1) by simp
    moreover have "chain_data h' (ns @ (brk h # ns')) = chain_data h ns @ (mbytes h4 (brk h) @ w)"
      using 2(2) data by simp
    moreover have "\<forall>x \<in> set (brk h # ns'). brk h \<le> x" using 2(3) h4(5) by auto
    moreover have "\<forall>x. x \<notin> set ns \<union> set (brk h # ns') \<longrightarrow> mbufs h' x = mbufs h x" using 2(4) h4(3) by simp
    ultimately show ?thesis unfolding copied_def using ok f by blast
  qed
qed

lemma copym_loop_ok:
  assumes "heap_ok h" "chain h p cs" "copy_state h np topp ns" "set ns \<inter> set cs = {}"
    and "off = 0 \<or> (\<exists>b ds m. cs = b # ds \<and> mbufs h b = Some m \<and> off < m_len m)"
    and "hdr \<Longrightarrow> \<exists>b ds m. cs = b # ds \<and> mbufs h b = Some m \<and> flag m M_PKTHDR"
    and "length (chain_data h cs) \<le> M_COPYALL" "len \<le> M_COPYALL"
  shows "\<exists>r h'. copym_loop off0 hdr p off len np topp h = Some (r, h') \<and> copied h ns (take len (drop off (chain_data h cs))) r h'"
  using assms
proof (induction cs arbitrary: h p off len np topp ns hdr)
  case Nil
  then show ?case by (intro copied_end) simp_all
next
  case (Cons a cs)
  then obtain m where m: "p = Some a" "mbufs h a = Some m" "chain h (m_next m) cs" by auto
  note l = length_mbytes [OF Cons.prems(1) m(2)]
  note st = Cons.prems(3)
  have tops: "chain h topp ns" using st by (simp add: copy_state_def)
  have an: "a \<notin> set ns" using Cons.prems(4) by auto
  have off: "off \<le> m_len m" using Cons.prems(5) m(2) by auto
  have hdr: "flag m M_PKTHDR" if hdr using Cons.prems(6) [OF that] m(2) by auto
  obtain q h1 where al: "(if hdr then m_gethdr (m_type m) h else m_get (m_type m) h) = (q, h1)" by (metis surj_pair)
  show ?case
  proof (cases "len = 0")
    case True
    then show ?thesis using Cons.prems(1) st by (intro copied_end) simp_all
  next
    case False
    then have len: "0 < len" by simp
    let ?k = "min len (m_len m - off)"
    let ?len = "if len \<noteq> M_COPYALL then len - ?k else len"
    note A = alloc_cases [OF Cons.prems(1) m(2) al]
    show ?thesis
    proof (cases q)
      case None
      then have h1: "mbufs h1 = mbufs h" using A(4) by simp
      have refused: "\<exists>i. new_mbuf h i = None"
        using al None by (auto simp: m_get_def m_gethdr_def alloc_mbuf_def split: option.splits if_splits)
      have "chain h1 topp ns" by (rule chain_frame [OF tops]) (simp add: h1)
      then obtain h2 where h2: "copym_nospace topp h1 = Some (None, h2)" "heap_ok h2" "frame (set ns) h1 h2"
          "mbufs h2 = mbufs h1 |` (- set ns)"
        by (rule copym_nospace_ok [OF A(1)])
      have "frame (set ns) h h2" by (rule frame_trans [OF frame_mono [OF A(2)] h2(3)]) simp_all
      then have "copied h ns w None h2" for w using h2(2,4) h1 refused by (simp add: copied_def)
      then show ?thesis
        using copym_loop_fail [OF m(2) len al [unfolded None] set_link_null [OF st h1]] h2(1) m(1) by auto
    next
      case (Some b)
      have k: "off + ?k \<le> m_len m" using off by simp
      obtain top1 h2 h3 h4 where S: "set_link np (Some b) (topp, h1) = Some (top1, h2)"
        "(if hdr then copym_header b a off0 len h2 else Some (True, h2)) = Some (True, h3)" "copym_fill b a off ?k h3 = Some h4"
        "heap_ok h4" "frame (set ns) h h4" "copy_state h4 (Some b) top1 (ns @ [b])" "b = brk h"
        "\<forall>x. x \<notin> set ns \<and> x \<noteq> b \<longrightarrow> mbufs h4 x = mbufs h x"
        "mbytes h4 b = take ?k (drop off (mbytes h a))" "\<forall>x \<in> set ns. mbytes h4 x = mbytes h x"
        by (rule copym_step [OF Cons.prems(1) st m(2) an hdr k al [unfolded Some]])
      have "set cs \<inter> set ns = {}" using Cons.prems(4) by auto
      note C = frame_chain [OF S(5) Cons.prems(1) S(4) m(3) this]
      have b4: "b < brk h4" using chain_lt [OF S(4), of top1 "ns @ [b]" b] S(6) by (simp add: copy_state_def)
      have bcs: "b \<notin> set cs" using chain_lt [OF Cons.prems(1) m(3)] S(7) by blast
      have "\<exists>r h'. copym_loop off0 False (m_next m) 0 ?len (Some b) top1 h4 = Some (r, h') \<and>
          copied h4 (ns @ [b]) (take ?len (drop 0 (chain_data h4 cs))) r h'"
        by (rule Cons.IH [OF S(4) C(1) S(6)]) (use Cons.prems(4,7,8) C(2) bcs in auto)
      then obtain r h' where R: "copym_loop off0 False (m_next m) 0 ?len (Some b) top1 h4 = Some (r, h')"
          "copied h4 (ns @ [b]) (take ?len (chain_data h cs)) r h'"
        using C(2) by auto
      have "copied h ns (mbytes h4 (brk h) @ take ?len (chain_data h cs)) r h'"
        by (rule copied_extend [OF Cons.prems(1) tops S(4,5)]) (use S(8,10) b4 R(2) S(7) in auto)
      moreover have "take len (drop off (chain_data h (a # cs))) = mbytes h4 (brk h) @ take ?len (chain_data h cs)"
        using copy_bytes [of off "mbytes h a" "chain_data h cs" len] off l Cons.prems(7,8) S(7,9) by simp
      ultimately show ?thesis
        using copym_loop_step [OF m(2) len al [unfolded Some] S(1-3)] R(1) m(1) by auto
    qed
  qed
qed

text \<open>The clusters and counters of a heap are determined by its mbufs.\<close>

lemma clust_dom: "clust_ok V C R \<Longrightarrow> C c \<noteq> None \<longleftrightarrow> (\<exists>a e. V a = Some e \<and> ext_buf e = Some c)"
  by (simp add: clust_ok_def)

lemma heap_determined:
  assumes "heap_ok h" "heap_ok h'" "mbufs h' = mbufs h" "frame S h h'"
  shows "refs h' = refs h" "clusters h' = clusters h"
proof -
  have v: "ext_view h' = ext_view h" using assms(3) by (simp add: ext_view_def fun_eq_iff)
  have c: "clust_ok (ext_view h) (clusters h) (refs h)" "clust_ok (ext_view h) (clusters h') (refs h')"
    using heap_clust [OF assms(1)] heap_clust [OF assms(2)] v by simp_all
  then have "refs h' r = refs h r" for r by (simp add: clust_ok_def)
  then show "refs h' = refs h" by blast
  have dom: "clusters h' x \<noteq> None \<longleftrightarrow> clusters h x \<noteq> None" for x
    by (simp only: clust_dom [OF c(1)] clust_dom [OF c(2)])
  have "clusters h' x = clusters h x" for x
  proof (cases "clusters h x")
    case None
    then show ?thesis using dom [of x] by simp
  next
    case (Some y)
    then have "x < brk h" using assms(1) by (metis heap_ok_def linorder_not_less option.distinct(1))
    then show ?thesis using assms(4) dom [of x] Some by (simp add: frame_def)
  qed
  then show "clusters h' = clusters h" by blast
qed

lemma chain_head:
  assumes "chain h (Some a) as"
  obtains as' m where "mbufs h a = Some m" "as = a # as'" "chain h (m_next m) as'"
proof (cases as)
  case Nil
  then have False using assms by simp
  then show ?thesis ..
next
  case (Cons b bs)
  then have "b = a \<and> (\<exists>m. mbufs h a = Some m \<and> chain h (m_next m) bs)" using assms by simp
  then show ?thesis using that Cons by blast
qed

lemma m_copym_ok:
  assumes "heap_ok h" "chain h (Some a) as" "off \<le> length (chain_data h as)" "length (chain_data h as) \<le> M_COPYALL" "len \<le> M_COPYALL"
  shows "\<exists>r h'. m_copym (Some a) off len h = Some (r, h') \<and> copied h [] (take len (drop off (chain_data h as))) r h'"
proof -
  obtain as' m where m: "mbufs h a = Some m" "as = a # as'" by (rule chain_head [OF assms(2)])
  obtain bs cs q off' where s: "skip_mbufs h (Some a) off = Some (q, off')" "as = bs @ cs" "chain h q cs"
    "drop off (chain_data h as) = drop off' (chain_data h cs)"
    "off' = 0 \<or> (\<exists>b ds m. cs = b # ds \<and> mbufs h b = Some m \<and> off' < m_len m)"
    by (rule skip_mbufs_ok [OF assms(1-3)])
  let ?hdr = "off = 0 \<and> flag m M_PKTHDR"
  have cs: "cs = a # as'" if "off = 0"
  proof -
    have "q = Some a" using s(1) that by simp
    then show ?thesis using chain_unique s(3) assms(2) m(2) by blast
  qed
  have "\<exists>r h'. copym_loop off ?hdr q off' len None None h = Some (r, h') \<and> copied h [] (take len (drop off' (chain_data h cs))) r h'"
  proof (rule copym_loop_ok [OF assms(1) s(3) _ _ s(5) _ _ assms(5)])
    show "\<exists>b ds m. cs = b # ds \<and> mbufs h b = Some m \<and> flag m M_PKTHDR" if ?hdr using cs that m(1) by blast
    show "length (chain_data h cs) \<le> M_COPYALL" using assms(4) s(2) by simp
  qed (simp_all add: copy_state_def)
  then show ?thesis using s(1,4) m(1) by (cases "off = 0") (auto simp: m_copym_def get_mbuf_def)
qed

end
