(* ===== verification/Mbuf_Edit.thy ===== *)
theory Mbuf_Edit
  imports Mbuf_Ops
begin

text \<open>
  Joining, trimming, splitting and pulling up chains: what happens to the contents, and which mbufs are freed.
\<close>

section \<open>Joining\<close>

lemma last_mbuf_ok: "chain h (Some a) (a # as) \<Longrightarrow> last_mbuf h a = Some (last (a # as))"
proof (induction as arbitrary: a)
  case Nil
  then show ?case by (subst last_mbuf.simps) auto
next
  case (Cons b bs)
  then obtain m where "mbufs h a = Some m" "m_next m = Some b" "chain h (Some b) (b # bs)" by auto
  then show ?case using Cons.IH [of b] by (subst last_mbuf.simps) simp
qed

lemma chain_join:
  assumes "chain h p as" "as \<noteq> []" "mbufs h (last as) = Some z" "chain h q bs" "set as \<inter> set bs = {}"
    and "mbufs h' = (mbufs h)(last as \<mapsto> z\<lparr>m_next := q\<rparr>)"
  shows "chain h' p (as @ bs)"
  using assms
proof (induction as arbitrary: p)
  case Nil
  then show ?case by simp
next
  case (Cons a as)
  then obtain m where m: "p = Some a" "mbufs h a = Some m" "chain h (m_next m) as" by auto
  show ?case
  proof (cases "as = []")
    case True
    then have "a \<notin> set bs" "mbufs h' = (mbufs h)(a \<mapsto> z\<lparr>m_next := q\<rparr>)" using Cons.prems(5,6) by auto
    moreover from this have "chain h' q bs" by (intro chain_frame [OF Cons.prems(4)]) auto
    ultimately show ?thesis using True m(1) by simp
  next
    case False
    then have "a \<noteq> last as" using chain_distinct [OF Cons.prems(1)] last_in_set [of as] by auto
    then have "mbufs h' a = Some m" using m(2) Cons.prems(6) False by simp
    moreover have "chain h' (m_next m) (as @ bs)" using Cons.IH [OF m(3) False] Cons.prems(3-6) False by simp
    ultimately show ?thesis using m(1) by simp
  qed
qed

lemma cat_loop_simps:
  "cat_loop a None h = Some h"
  "mbufs h a = Some m \<Longrightarrow> mbufs h b = Some nb \<Longrightarrow> flag m M_EXT \<or> m_data m + m_len m + m_len nb \<ge> MLEN \<Longrightarrow>
   cat_loop a (Some b) h = Some (h\<lparr>mbufs := (mbufs h)(a \<mapsto> m\<lparr>m_next := Some b\<rparr>)\<rparr>)"
  by (subst cat_loop.simps, simp add: upd_mbuf_def)+

lemma cat_loop_step:
  "mbufs h a = Some m \<Longrightarrow> mbufs h b = Some nb \<Longrightarrow> \<not> (flag m M_EXT \<or> m_data m + m_len m + m_len nb \<ge> MLEN) \<Longrightarrow>
   copy_from h b 0 (m_len nb) = Some xs \<Longrightarrow> copy_to a (m_len m) xs h = Some h1 \<Longrightarrow>
   upd_mbuf a (\<lambda>m. m\<lparr>m_len := m_len m + m_len nb\<rparr>) h1 = Some h2 \<Longrightarrow> m_free b h2 = Some (n', h3) \<Longrightarrow>
   cat_loop a (Some b) h = cat_loop a n' h3"
  by (subst cat_loop.simps) simp

text \<open>Appending bytes to an mbuf that has room for them.\<close>

lemma append_ok:
  assumes ok: "heap_ok h" and m: "mbufs h a = Some m" "\<not> flag m M_EXT" "m_data m + m_len m + length xs \<le> MLEN"
  obtains h2 m2 where "Option.bind (copy_to a (m_len m) xs h) (upd_mbuf a (\<lambda>m. m\<lparr>m_len := m_len m + length xs\<rparr>)) = Some h2"
    "heap_ok h2" "frame {a} h h2" "brk h2 = brk h" "mbufs h2 = (mbufs h)(a \<mapsto> m2)" "m_next m2 = m_next m" "m_pkthdr m2 = m_pkthdr m"
    "m_flags m2 = m_flags m" "mbytes h2 a = mbytes h a @ xs" "m_data m2 = m_data m" "m_len m2 = m_len m + length xs" "m_type m2 = m_type m"
proof -
  let ?m = "m\<lparr>m_dat := splice (m_dat m) (m_data m + m_len m) xs, m_len := m_len m + length xs\<rparr>"
  let ?h = "h\<lparr>mbufs := (mbufs h)(a \<mapsto> ?m)\<rparr>"
  have l: "local_ok h a m" by (rule heap_local [OF ok m(1)])
  have "copy_to a (m_len m) xs h = Some (h\<lparr>mbufs := (mbufs h)(a \<mapsto> m\<lparr>m_dat := splice (m_dat m) (m_data m + m_len m) xs\<rparr>)\<rparr>)"
    by (rule copy_to_ok [OF ok m])
  then have eq: "Option.bind (copy_to a (m_len m) xs h) (upd_mbuf a (\<lambda>m. m\<lparr>m_len := m_len m + length xs\<rparr>)) = Some ?h"
    by (simp add: upd_mbuf_def)
  have ok': "heap_ok ?h" by (rule upd_ok [OF ok m(1)]) (use l m(2,3) in \<open>simp_all add: local_ok_def\<close>)
  have "mbytes h a = take (m_len m) (drop (m_data m) (m_dat m))" using m(1,2) by (simp add: mbytes_def buffer_def)
  then have "mbytes ?h a = mbytes h a @ xs"
    using splice_read [of "m_data m + m_len m" xs "m_dat m" "m_data m" "mbytes h a"] length_mbytes [OF ok m(1)] m(2,3) l
    by (simp add: mbytes_def buffer_def local_ok_def)
  then show thesis by (intro that [of ?h ?m, OF eq ok']) (simp_all add: frame_def)
qed

definition joined :: "mheap \<Rightarrow> nat option \<Rightarrow> nat set \<Rightarrow> bytes \<Rightarrow> mheap \<Rightarrow> bool" where
  "joined h p S d h' \<longleftrightarrow> heap_ok h' \<and> frame S h h' \<and> brk h' = brk h \<and> (\<forall>x. x \<notin> S \<longrightarrow> mbufs h' x = mbufs h x) \<and>
     (\<exists>zs. chain h' p zs \<and> chain_data h' zs = d \<and> set zs \<subseteq> S \<and> (\<forall>x \<in> S - set zs. mbufs h' x = None))"

lemma joined_freed:
  assumes "frame (insert b S) h h1" "brk h1 = brk h" "\<forall>x. x \<notin> insert b S \<longrightarrow> mbufs h1 x = mbufs h x"
    and "joined h1 p S d h'" "mbufs h1 b = None" "b \<notin> S"
  shows "joined h p (insert b S) d h'"
proof -
  have "frame (insert b S) h h'" by (rule frame_trans [OF assms(1), of S]) (use assms(4) in \<open>auto simp: joined_def\<close>)
  moreover obtain zs where zs: "chain h' p zs" "chain_data h' zs = d" "set zs \<subseteq> S" "\<forall>x \<in> S - set zs. mbufs h' x = None"
    using assms(4) by (auto simp: joined_def)
  moreover have out: "\<forall>x. x \<notin> S \<longrightarrow> mbufs h' x = mbufs h1 x" using assms(4) by (simp add: joined_def)
  moreover from this have "\<forall>x \<in> insert b S - set zs. mbufs h' x = None" using zs(4) assms(5,6) by auto
  ultimately show ?thesis unfolding joined_def using assms(2,3,4)
    by (intro conjI exI [of _ zs]) (auto simp: joined_def)
qed

lemma cat_loop_ok:
  assumes "heap_ok h" "chain h p ms" "ms \<noteq> []" "chain h n ns" "set ms \<inter> set ns = {}"
  shows "\<exists>h'. cat_loop (last ms) n h = Some h' \<and> joined h p (set ms \<union> set ns) (chain_data h ms @ chain_data h ns) h'"
  using assms
proof (induction ns arbitrary: h n)
  case Nil
  then show ?case by (auto simp: cat_loop_simps joined_def)
next
  case (Cons b ns)
  let ?a = "last ms"
  obtain nb where n: "n = Some b" "mbufs h b = Some nb" "chain h (m_next nb) ns" using Cons.prems(4) by auto
  obtain m where m: "mbufs h ?a = Some m" "m_next m = None" by (rule chain_last [OF Cons.prems(2,3)])
  have ams: "?a \<in> set ms" using Cons.prems(3) by simp
  have ab: "?a \<noteq> b" "b \<notin> set ms" "b \<notin> set ns" using Cons.prems(5) ams chain_distinct [OF Cons.prems(4)] by auto
  have lb: "length (mbytes h b) = m_len nb" by (rule length_mbytes [OF Cons.prems(1) n(2)])
  show ?case
  proof (cases "flag m M_EXT \<or> m_data m + m_len m + m_len nb \<ge> MLEN")
    case True
    let ?h = "h\<lparr>mbufs := (mbufs h)(?a \<mapsto> m\<lparr>m_next := Some b\<rparr>)\<rparr>"
    have ok: "heap_ok ?h" by (rule upd_ok [OF Cons.prems(1) m(1)]) (use heap_local [OF Cons.prems(1) m(1)] in simp_all)
    have "chain ?h p (ms @ b # ns)"
      by (rule chain_join [OF Cons.prems(2,3) m(1) _ Cons.prems(5)]) (use Cons.prems(4) n(1) in simp_all)
    moreover have "chain_data ?h (ms @ b # ns) = chain_data h (ms @ b # ns)"
      by (rule chain_data_cong) (use m(1) in \<open>auto simp: mbytes_def split: option.splits\<close>)
    then have "chain_data ?h (ms @ b # ns) = chain_data h ms @ chain_data h (b # ns)" by (simp only: chain_data_simps)
    moreover have "frame (set ms \<union> set (b # ns)) h ?h" using ams by (intro frame_upd) simp
    ultimately have "joined h p (set ms \<union> set (b # ns)) (chain_data h ms @ chain_data h (b # ns)) ?h"
      unfolding joined_def using ok ams by (intro conjI exI [of _ "ms @ b # ns"]) auto
    then show ?thesis using cat_loop_simps(2) [OF m(1) n(2) True] n(1) by auto
  next
    case False
    let ?xs = "mbytes h b"
    have ext: "\<not> flag m M_EXT" and room: "m_data m + m_len m + length ?xs \<le> MLEN" using False lb by auto
    have xs: "copy_from h b 0 (m_len nb) = Some ?xs" using copy_from_ok [OF Cons.prems(1) n(2), of 0 "m_len nb"] lb by simp
    obtain h2 m2 where A: "Option.bind (copy_to ?a (m_len m) ?xs h) (upd_mbuf ?a (\<lambda>m. m\<lparr>m_len := m_len m + length ?xs\<rparr>)) = Some h2"
        "heap_ok h2" "frame {?a} h h2" "brk h2 = brk h" "mbufs h2 = (mbufs h)(?a \<mapsto> m2)" "m_next m2 = m_next m"
        "mbytes h2 ?a = mbytes h ?a @ ?xs"
      by (rule append_ok [OF Cons.prems(1) m(1) ext room])
    obtain h1 where h1: "copy_to ?a (m_len m) ?xs h = Some h1" "upd_mbuf ?a (\<lambda>m. m\<lparr>m_len := m_len m + m_len nb\<rparr>) h1 = Some h2"
      using A(1) lb by (auto simp: bind_Some_iff)
    have b2: "mbufs h2 b = Some nb" using A(5) n(2) ab(1) by simp
    obtain h3 where F: "m_free b h2 = Some (m_next nb, h3)" "heap_ok h3" "frame {b} h2 h3" "mbufs h3 = (mbufs h2)(b := None)" "brk h3 = brk h2"
      by (rule m_free_ok [OF A(2) b2])
    have f: "frame {?a, b} h h3" by (rule frame_trans [OF frame_mono [OF A(3)] F(3)]) auto
    have ms3: "chain h3 p ms"
    proof (rule chain_same_next [OF Cons.prems(2)])
      fix x assume "x \<in> set ms"
      then show "map_option m_next (mbufs h3 x) = map_option m_next (mbufs h x)"
        using ab(2) A(5,6) F(4) m(1) by (cases "x = ?a") auto
    qed
    have "set ns \<inter> {?a, b} = {}" using Cons.prems(5) ams ab(3) by auto
    note ns3 = frame_chain [OF f Cons.prems(1) F(2) n(3) this]
    have data3: "chain_data h3 ms = chain_data h ms @ ?xs"
    proof -
      obtain ms' where ms: "ms = ms' @ [?a]" using Cons.prems(3) append_butlast_last_id by metis
      have d: "distinct ms" by (rule chain_distinct [OF Cons.prems(2)])
      have "mbytes h3 x = mbytes h x" if "x \<in> set ms'" for x
      proof -
        have "x \<in> set ms" "x \<noteq> ?a" using that d by (subst ms, simp) (use that d ms in \<open>metis distinct_append disjoint_iff list.set_intros(1)\<close>)
        then show ?thesis using frame_bytes [OF f Cons.prems(1) F(2)] chain_live [OF Cons.prems(2)] ab(2) by blast
      qed
      then have "chain_data h3 ms' = chain_data h ms'" by (rule chain_data_cong)
      moreover have "mbytes h3 ?a = mbytes h ?a @ ?xs"
        using frame_bytes [OF F(3) A(2) F(2), of ?a m2] A(5,7) ab(1) by simp
      ultimately show ?thesis by (subst (1 2) ms) simp
    qed
    have "\<exists>h'. cat_loop ?a (m_next nb) h3 = Some h' \<and> joined h3 p (set ms \<union> set ns) (chain_data h3 ms @ chain_data h3 ns) h'"
      by (rule Cons.IH [OF F(2) ms3 Cons.prems(3) ns3(1)]) (use Cons.prems(5) in auto)
    then obtain h' where R: "cat_loop ?a (m_next nb) h3 = Some h'"
        "joined h3 p (set ms \<union> set ns) (chain_data h ms @ chain_data h (b # ns)) h'"
      using data3 ns3(2) by auto
    have "joined h p (insert b (set ms \<union> set ns)) (chain_data h ms @ chain_data h (b # ns)) h'"
      by (rule joined_freed [OF _ _ _ R(2)]) (use f ab ams A(4,5) F(4,5) in \<open>auto intro: frame_mono\<close>)
    then show ?thesis using cat_loop_step [OF m(1) n(2) False xs h1 F(1)] R(1) n(1) by auto
  qed
qed

lemma m_cat_ok:
  assumes "heap_ok h" "chain h (Some a) as" "chain h n ns" "set as \<inter> set ns = {}"
  shows "\<exists>h'. m_cat a n h = Some h' \<and> joined h (Some a) (set as \<union> set ns) (chain_data h as @ chain_data h ns) h'"
proof -
  obtain as' m where m: "mbufs h a = Some m" "as = a # as'" by (rule chain_head [OF assms(2)])
  then have "last_mbuf h a = Some (last as)" using last_mbuf_ok assms(2) by simp
  then show ?thesis using cat_loop_ok [OF assms(1,2) _ assms(3,4)] m(2) by (simp add: m_cat_def)
qed

section \<open>Trimming\<close>

text \<open>The mbufs \<open>S\<close> of a chain became the chain \<open>zs\<close> with contents \<open>d\<close>; the headers are as before.\<close>

definition edited :: "nat set \<Rightarrow> mheap \<Rightarrow> nat option \<Rightarrow> nat list \<Rightarrow> bytes \<Rightarrow> mheap \<Rightarrow> bool" where
  "edited S h p zs d h' \<longleftrightarrow> heap_ok h' \<and> frame S h h' \<and> brk h' = brk h \<and> chain h' p zs \<and> chain_data h' zs = d \<and> set zs \<subseteq> S \<and>
     (\<forall>x \<in> S - set zs. mbufs h' x = None) \<and> (\<forall>x. x \<notin> S \<longrightarrow> mbufs h' x = mbufs h x) \<and>
     (\<forall>x \<in> set zs. map_option (\<lambda>m. (m_pkthdr m, m_flags m)) (mbufs h' x) = map_option (\<lambda>m. (m_pkthdr m, m_flags m)) (mbufs h x))"

lemma edited_same: "heap_ok h \<Longrightarrow> chain h p as \<Longrightarrow> edited (set as) h p as (chain_data h as) h"
  by (simp add: edited_def)

lemma edited_cons:
  assumes h1: "heap_ok h1" "h1 = h\<lparr>mbufs := (mbufs h)(a \<mapsto> m1)\<rparr>" "mbufs h a = Some m" "m_pkthdr m1 = m_pkthdr m" "m_flags m1 = m_flags m"
    and as: "a \<notin> S" and e: "edited S h1 (m_next m1) zs d h'"
  shows "edited (insert a S) h (Some a) (a # zs) (mbytes h1 a @ d) h'"
proof -
  have a1: "mbufs h1 a = Some m1" by (simp add: h1(2))
  have E: "heap_ok h'" "frame S h1 h'" "brk h' = brk h1" "chain h' (m_next m1) zs" "chain_data h' zs = d" "set zs \<subseteq> S"
    "\<forall>x \<in> S - set zs. mbufs h' x = None" "\<forall>x. x \<notin> S \<longrightarrow> mbufs h' x = mbufs h1 x"
    "\<forall>x \<in> set zs. map_option (\<lambda>m. (m_pkthdr m, m_flags m)) (mbufs h' x) = map_option (\<lambda>m. (m_pkthdr m, m_flags m)) (mbufs h1 x)"
    using e unfolding edited_def by blast+
  have a': "mbufs h' a = Some m1" using E(8) as a1 by simp
  have "frame (insert a S) h h1" unfolding h1(2) by (rule frame_upd) simp
  then have "frame (insert a S) h h'" by (rule frame_trans [OF _ E(2)]) simp
  moreover have "mbytes h' a = mbytes h1 a" by (rule frame_bytes [OF E(2) h1(1) E(1) a1 as])
  moreover have "\<forall>x \<in> set (a # zs). map_option (\<lambda>m. (m_pkthdr m, m_flags m)) (mbufs h' x) =
      map_option (\<lambda>m. (m_pkthdr m, m_flags m)) (mbufs h x)"
  proof
    fix x assume x: "x \<in> set (a # zs)"
    show "map_option (\<lambda>m. (m_pkthdr m, m_flags m)) (mbufs h' x) = map_option (\<lambda>m. (m_pkthdr m, m_flags m)) (mbufs h x)"
    proof (cases "x = a")
      case True
      then show ?thesis using a' h1(3-5) by simp
    next
      case False
      then show ?thesis using x E(9) h1(2) by simp
    qed
  qed
  moreover have "\<forall>x. x \<notin> insert a S \<longrightarrow> mbufs h' x = mbufs h x" using E(8) h1(2) by simp
  moreover have "chain h' (Some a) (a # zs)" using a' E(4) by simp
  moreover have "brk h' = brk h" using E(3) h1(2) by simp
  ultimately show ?thesis unfolding edited_def using E(1,5-7) by (intro conjI) auto
qed

lemma trim_head_simps:
  "trim_head None len h = Some (len, h)" "trim_head p 0 h = Some (0, h)"
  "mbufs h a = Some m \<Longrightarrow> 0 < len \<Longrightarrow> m_len m \<le> len \<Longrightarrow>
   trim_head (Some a) len h = trim_head (m_next m) (len - m_len m) (h\<lparr>mbufs := (mbufs h)(a \<mapsto> m\<lparr>m_len := 0\<rparr>)\<rparr>)"
  "mbufs h a = Some m \<Longrightarrow> 0 < len \<Longrightarrow> len < m_len m \<Longrightarrow>
   trim_head (Some a) len h = Some (0, h\<lparr>mbufs := (mbufs h)(a \<mapsto> m\<lparr>m_len := m_len m - len, m_data := m_data m + len\<rparr>)\<rparr>)"
  by (subst trim_head.simps, simp add: upd_mbuf_def)+

text \<open>Moving the bounds of the data inward.\<close>

lemma shrink_ok:
  assumes ok: "heap_ok h" and m: "mbufs h a = Some m" and b: "m_data m \<le> d" "d + l \<le> m_data m + m_len m"
  shows "heap_ok (h\<lparr>mbufs := (mbufs h)(a \<mapsto> m\<lparr>m_len := l, m_data := d\<rparr>)\<rparr>)" (is "heap_ok ?h")
    and "mbytes (h\<lparr>mbufs := (mbufs h)(a \<mapsto> m\<lparr>m_len := l, m_data := d\<rparr>)\<rparr>) a = take l (drop (d - m_data m) (mbytes h a))"
proof -
  show "heap_ok ?h" by (rule upd_ok [OF ok m]) (use heap_local [OF ok m] b in \<open>auto simp: local_ok_def split: if_splits\<close>)
  have "d - m_data m + l \<le> m_len m" using b by simp
  from sub_range [OF this, of "m_data m"] show "mbytes ?h a = take l (drop (d - m_data m) (mbytes h a))"
    using m b(1) by (simp add: mbytes_def)
qed

lemma trim_head_ok:
  assumes "heap_ok h" "chain h p as"
  shows "\<exists>h'. trim_head p len h = Some (len - length (chain_data h as), h') \<and> edited (set as) h p as (drop len (chain_data h as)) h'"
  using assms
proof (induction as arbitrary: h p len)
  case Nil
  then show ?case by (simp add: trim_head_simps edited_def)
next
  case (Cons a as)
  then obtain m where m: "p = Some a" "mbufs h a = Some m" "chain h (m_next m) as" by auto
  note l = length_mbytes [OF Cons.prems(1) m(2)]
  have a: "a \<notin> set as" using chain_distinct [OF Cons.prems(2)] by simp
  consider "len = 0" | "0 < len" "m_len m \<le> len" | "0 < len" "len < m_len m" by linarith
  then show ?case
  proof cases
    case 1
    then show ?thesis using edited_same [OF Cons.prems] by (simp add: trim_head_simps)
  next
    case 2
    let ?h = "h\<lparr>mbufs := (mbufs h)(a \<mapsto> m\<lparr>m_len := 0, m_data := m_data m\<rparr>)\<rparr>"
    have h1: "heap_ok ?h" "mbytes ?h a = []" using shrink_ok [OF Cons.prems(1) m(2), of "m_data m" 0] by simp_all
    have c: "chain ?h (m_next m) as" "chain_data ?h as = chain_data h as"
      using frame_chain [OF frame_upd [of a "{a}"] Cons.prems(1) h1(1) m(3)] a by simp_all
    obtain h' where r: "trim_head (m_next m) (len - m_len m) ?h = Some (len - m_len m - length (chain_data h as), h')"
        "edited (set as) ?h (m_next m) as (drop (len - m_len m) (chain_data h as)) h'"
      using Cons.IH [OF h1(1) c(1), of "len - m_len m"] c(2) by auto
    have "edited (insert a (set as)) h (Some a) (a # as) (mbytes ?h a @ drop (len - m_len m) (chain_data h as)) h'"
      by (rule edited_cons [OF h1(1) refl m(2)]) (use a r(2) in simp_all)
    then show ?thesis using r(1) m(1,2) 2 l h1(2) by (simp add: trim_head_simps)
  next
    case 3
    let ?h = "h\<lparr>mbufs := (mbufs h)(a \<mapsto> m\<lparr>m_len := m_len m - len, m_data := m_data m + len\<rparr>)\<rparr>"
    have h1: "heap_ok ?h" "mbytes ?h a = drop len (mbytes h a)"
      using shrink_ok [OF Cons.prems(1) m(2), of "m_data m + len" "m_len m - len"] 3 l by simp_all
    have c: "chain ?h (m_next m) as" "chain_data ?h as = chain_data h as"
      using frame_chain [OF frame_upd [of a "{a}"] Cons.prems(1) h1(1) m(3)] a by simp_all
    have "edited (insert a (set as)) h (Some a) (a # as) (mbytes ?h a @ chain_data ?h as) ?h"
      by (rule edited_cons [OF h1(1) refl m(2)]) (use a edited_same [OF h1(1) c(1)] in simp_all)
    then show ?thesis using m(1,2) 3 l h1(2) c(2) by (simp add: trim_head_simps)
  qed
qed

lemma scan_tail_ok:
  "heap_ok h \<Longrightarrow> chain h (Some a) (a # as) \<Longrightarrow> scan_tail h a n = Some (n + length (chain_data h (a # as)), last (a # as))"
proof (induction as arbitrary: a n)
  case Nil
  then show ?case using length_mbytes [of h a] by (subst scan_tail.simps) auto
next
  case (Cons b bs)
  then obtain m where "mbufs h a = Some m" "m_next m = Some b" "chain h (Some b) (b # bs)" by auto
  then show ?case using Cons.IH [of b "n + m_len m"] Cons.prems(1) length_mbytes [of h a m] by (subst scan_tail.simps) simp
qed

lemma trim_tail_simps:
  "mbufs h a = Some m \<Longrightarrow> count \<le> m_len m \<Longrightarrow> trim_tail (Some a) count h =
     (let h1 = h\<lparr>mbufs := (mbufs h)(a \<mapsto> m\<lparr>m_len := count\<rparr>)\<rparr> in
      if m_next m \<noteq> None then Option.bind (m_freem (m_next m) h1) (\<lambda>h2. upd_mbuf a (\<lambda>m. m\<lparr>m_next := None\<rparr>) h2) else Some h1)"
  "mbufs h a = Some m \<Longrightarrow> m_len m < count \<Longrightarrow> trim_tail (Some a) count h = trim_tail (m_next m) (count - m_len m) h"
  by (subst trim_tail.simps, simp add: upd_mbuf_def Let_def)+

lemma trim_tail_ok:
  assumes "heap_ok h" "chain h p as" "as \<noteq> []" "count \<le> length (chain_data h as)"
  shows "\<exists>h' zs. trim_tail p count h = Some h' \<and> edited (set as) h p zs (take count (chain_data h as)) h'"
  using assms
proof (induction as arbitrary: p count)
  case (Cons a as)
  then obtain m where m: "p = Some a" "mbufs h a = Some m" "chain h (m_next m) as" by auto
  note l = length_mbytes [OF assms(1) m(2)]
  have a: "a \<notin> set as" using chain_distinct [OF Cons.prems(2)] by simp
  show ?case
  proof (cases "count \<le> m_len m")
    case True
    let ?m = "m\<lparr>m_len := count, m_data := m_data m\<rparr>"
    let ?h = "h\<lparr>mbufs := (mbufs h)(a \<mapsto> ?m)\<rparr>"
    have h1: "heap_ok ?h" "mbytes ?h a = take count (mbytes h a)"
      using shrink_ok [OF assms(1) m(2), of "m_data m" count] True by simp_all
    have c: "chain ?h (m_next m) as" using frame_chain [OF frame_upd [of a "{a}"] assms(1) h1(1) m(3)] a by simp
    obtain h2 where F: "m_freem (m_next m) ?h = Some h2" "heap_ok h2" "frame (set as) ?h h2" "mbufs h2 = mbufs ?h |` (- set as)" "brk h2 = brk ?h"
      by (rule m_freem_ok [OF h1(1) c])
    have a2: "mbufs h2 a = Some ?m" using F(4) a by simp
    let ?h3 = "h2\<lparr>mbufs := (mbufs h2)(a \<mapsto> ?m\<lparr>m_next := None\<rparr>)\<rparr>"
    have ok3: "heap_ok ?h3" by (rule upd_ok [OF F(2) a2]) (use heap_local [OF F(2) a2] in simp_all)
    have b3: "mbytes ?h3 a = take count (mbytes h a)"
      using frame_bytes [OF F(3) h1(1) F(2), of a ?m] a h1(2) a2 by (simp add: mbytes_def)
    have "frame (set (a # as)) h ?h" by (rule frame_upd) simp
    then have "frame (set (a # as)) h h2" by (rule frame_trans [OF _ F(3)]) simp
    then have f: "frame (set (a # as)) h ?h3" by (rule frame_trans [OF _ frame_upd [of a "{a}"]]) simp_all
    have eq: "trim_tail p count h = Some ?h3"
    proof (cases "m_next m")
      case None
      then have "h2 = ?h" using F(1) by simp
      then show ?thesis using m(1,2) True None by (cases m) (simp add: trim_tail_simps)
    next
      case (Some q)
      then show ?thesis using m(1,2) True F(1) a2 by (simp add: trim_tail_simps upd_mbuf_def del: m_freem_simps)
    qed
    have "edited (set (a # as)) h p [a] (take count (chain_data h (a # as))) ?h3"
      unfolding edited_def using ok3 f F(4,5) m(1,2) b3 True l by (intro conjI) (auto simp: restrict_map_def)
    then show ?thesis using eq by blast
  next
    case False
    have ne: "as \<noteq> []" using Cons.prems(4) False l by auto
    have "\<exists>h' zs. trim_tail (m_next m) (count - m_len m) h = Some h' \<and>
        edited (set as) h (m_next m) zs (take (count - m_len m) (chain_data h as)) h'"
      by (rule Cons.IH [OF assms(1) m(3) ne]) (use Cons.prems(4) l in simp)
    then obtain h' zs where r: "trim_tail (m_next m) (count - m_len m) h = Some h'"
        "edited (set as) h (m_next m) zs (take (count - m_len m) (chain_data h as)) h'" by blast
    have triv: "h = h\<lparr>mbufs := (mbufs h)(a \<mapsto> m)\<rparr>" using m(2) by (simp add: fun_upd_idem)
    have "edited (insert a (set as)) h (Some a) (a # zs) (mbytes h a @ take (count - m_len m) (chain_data h as)) h'"
      by (rule edited_cons [OF assms(1) triv m(2) refl refl a r(2)])
    then show ?thesis using r(1) m(1,2) False l by (auto simp: trim_tail_simps)
  qed
qed simp

lemma add_pkt_len_ok:
  assumes ok: "heap_ok h" and m: "mbufs h a = Some m"
  obtains h' m' where "add_pkt_len a f h = Some h'" "heap_ok h'" "frame {a} h h'" "brk h' = brk h" "mbufs h' = (mbufs h)(a \<mapsto> m')"
    "m_next m' = m_next m" "m_flags m' = m_flags m" "\<forall>x. mbytes h' x = mbytes h x" "flag m M_PKTHDR \<longrightarrow> ph_len (m_pkthdr m') = f (ph_len (m_pkthdr m))"
proof -
  let ?m = "if flag m M_PKTHDR then m\<lparr>m_pkthdr := (m_pkthdr m)\<lparr>ph_len := f (ph_len (m_pkthdr m))\<rparr>\<rparr> else m"
  let ?h = "h\<lparr>mbufs := (mbufs h)(a \<mapsto> ?m)\<rparr>"
  have eq: "add_pkt_len a f h = Some ?h" using m by (simp add: add_pkt_len_def upd_mbuf_def)
  have "local_ok h a ?m" using heap_local [OF ok m] by simp
  then have ok': "heap_ok ?h" by (intro upd_ok [OF ok m]) simp_all
  have "\<forall>x. mbytes ?h x = mbytes h x" using m by (auto simp: mbytes_def split: option.splits)
  then show thesis by (intro that [of ?h ?m, OF eq ok']) (simp_all add: frame_def)
qed

lemma edited_joined: "edited S h p zs d h' \<Longrightarrow> joined h p S d h'"
  unfolding edited_def joined_def by blast

lemma joined_hdr:
  assumes j: "joined h (Some a) S d h1" and h2: "heap_ok h2" "frame {a} h1 h2" "brk h2 = brk h1" "mbufs h2 = (mbufs h1)(a \<mapsto> m')"
    "mbufs h1 a = Some m" "m_next m' = m_next m" "\<forall>x. mbytes h2 x = mbytes h1 x"
  shows "joined h (Some a) S d h2"
proof -
  obtain zs where zs: "chain h1 (Some a) zs" "chain_data h1 zs = d" "set zs \<subseteq> S" "\<forall>x \<in> S - set zs. mbufs h1 x = None"
    using j by (auto simp: joined_def)
  obtain zs' where "zs = a # zs'" by (rule chain_head [OF zs(1)])
  then have a: "a \<in> set zs" by simp
  have "chain h2 (Some a) zs" by (rule chain_same_next [OF zs(1)]) (use h2(4-6) in auto)
  moreover have "chain_data h2 zs = d" using zs(2) h2(7) by (metis chain_data_cong)
  moreover have "frame S h h2" by (rule frame_trans [OF _ h2(2)]) (use j a zs(3) in \<open>auto simp: joined_def\<close>)
  moreover have "\<forall>x \<in> S - set zs. mbufs h2 x = None" using zs(4) h2(4) a by auto
  moreover have "\<forall>x. x \<notin> S \<longrightarrow> mbufs h2 x = mbufs h x" using j h2(4) a zs(3) by (auto simp: joined_def)
  ultimately show ?thesis unfolding joined_def using j h2(1,3) zs(3) by (auto simp: joined_def)
qed

text \<open>What trimming leaves of the contents.\<close>

definition trimmed :: "int \<Rightarrow> bytes \<Rightarrow> bytes" where
  "trimmed n d = (if n \<ge> 0 then drop (nat n) d else take (length d - nat (- n)) d)"

definition hdr_len :: "mheap \<Rightarrow> nat \<Rightarrow> int option" where
  "hdr_len h a = (case mbufs h a of None \<Rightarrow> None | Some m \<Rightarrow> if flag m M_PKTHDR then Some (ph_len (m_pkthdr m)) else None)"

lemma hdr_len_eq:
  "map_option (\<lambda>m. (m_pkthdr m, m_flags m)) (mbufs h' a) = map_option (\<lambda>m. (m_pkthdr m, m_flags m)) (mbufs h a) \<Longrightarrow> hdr_len h' a = hdr_len h a"
  by (auto simp: hdr_len_def map_option_case split: option.splits)

lemma adjust_len_ok:
  assumes j: "joined h (Some a) S d h1"
  obtains h2 where "add_pkt_len a f h1 = Some h2" "joined h (Some a) S d h2" "hdr_len h2 a = map_option f (hdr_len h1 a)"
proof -
  have ok: "heap_ok h1" using j by (simp add: joined_def)
  obtain zs where "chain h1 (Some a) zs" using j by (auto simp: joined_def)
  then obtain m where m: "mbufs h1 a = Some m" by (rule chain_head)
  obtain h2 m' where A: "add_pkt_len a f h1 = Some h2" "heap_ok h2" "frame {a} h1 h2" "brk h2 = brk h1" "mbufs h2 = (mbufs h1)(a \<mapsto> m')"
    "m_next m' = m_next m" "m_flags m' = m_flags m" "\<forall>x. mbytes h2 x = mbytes h1 x" "flag m M_PKTHDR \<longrightarrow> ph_len (m_pkthdr m') = f (ph_len (m_pkthdr m))"
    by (rule add_pkt_len_ok [OF ok m])
  have "hdr_len h2 a = map_option f (hdr_len h1 a)" using A(5,7,9) m by (simp add: hdr_len_def)
  then show thesis by (rule that [OF A(1) joined_hdr [OF j A(2-5) m A(6,8)]])
qed

lemma last_shrink:
  assumes ok: "heap_ok h" and c: "chain h p as" "as \<noteq> []" and m: "mbufs h (last as) = Some m" and k: "k \<le> m_len m"
  shows "edited (set as) h p as (take (length (chain_data h as) - k) (chain_data h as))
    (h\<lparr>mbufs := (mbufs h)(last as \<mapsto> m\<lparr>m_len := m_len m - k\<rparr>)\<rparr>)" (is "edited _ _ _ _ _ ?h")
proof -
  have ok': "heap_ok ?h" and bytes: "mbytes ?h (last as) = take (m_len m - k) (mbytes h (last as))"
    using shrink_ok [OF ok m, of "m_data m" "m_len m - k"] by simp_all
  obtain bs where as: "as = bs @ [last as]" using c(2) append_butlast_last_id by metis
  have f: "frame {last as} h ?h" by (rule frame_upd) simp
  have "last as \<notin> set bs" using chain_distinct [OF c(1)] as by (metis distinct_append disjoint_iff list.set_intros(1))
  then have "chain_data ?h bs = chain_data h bs"
    by (intro chain_data_cong) (auto simp: mbytes_def split: option.splits)
  then have d: "chain_data ?h as = chain_data h bs @ take (m_len m - k) (mbytes h (last as))"
    by (subst as) (simp add: bytes)
  moreover have "chain_data h as = chain_data h bs @ mbytes h (last as)" by (subst as) simp
  ultimately have "chain_data ?h as = take (length (chain_data h as) - k) (chain_data h as)"
    using length_mbytes [OF ok m] k by simp
  moreover have "chain ?h p as" by (rule chain_same_next [OF c(1)]) (use m in auto)
  moreover have "last as \<in> set as" using c(2) by simp
  ultimately show ?thesis unfolding edited_def using ok' m frame_mono [OF f, of "set as"] by (intro conjI) auto
qed

lemma joined_after:
  assumes "frame {a} h h1" "brk h1 = brk h" "mbufs h1 = (mbufs h)(a \<mapsto> m')" "a \<in> S" "joined h1 p S d h'"
  shows "joined h p S d h'"
proof -
  have "frame S h h'" by (rule frame_trans [OF frame_mono [OF assms(1)], of S S]) (use assms(4,5) in \<open>auto simp: joined_def\<close>)
  moreover have "\<forall>x. x \<notin> S \<longrightarrow> mbufs h' x = mbufs h x" using assms(3-5) by (auto simp: joined_def)
  ultimately show ?thesis using assms(2,5) unfolding joined_def by simp
qed

lemma last_len:
  assumes "heap_ok h" "as \<noteq> []" "mbufs h (last as) = Some z"
  shows "m_len z \<le> length (chain_data h as)"
proof -
  obtain bs where "as = bs @ [last as]" using assms(2) append_butlast_last_id by metis
  then have "chain_data h as = chain_data h bs @ mbytes h (last as)" by (metis chain_data_simps append_Nil2)
  then show ?thesis using length_mbytes [OF assms(1,3)] by simp
qed

lemma m_adj_ok:
  assumes ok: "heap_ok h" and c: "chain h (Some a) as"
  shows "\<exists>h'. m_adj (Some a) n h = Some h' \<and> joined h (Some a) (set as) (trimmed n (chain_data h as)) h' \<and>
    (hdr_len h a = Some (int (length (chain_data h as))) \<longrightarrow> hdr_len h' a = Some (int (length (trimmed n (chain_data h as)))))"
proof -
  let ?d = "chain_data h as"
  obtain as' m where a: "mbufs h a = Some m" "as = a # as'" by (rule chain_head [OF c])
  show ?thesis
  proof (cases "n \<ge> 0")
    case True
    obtain h1 where t: "trim_head (Some a) (nat n) h = Some (nat n - length ?d, h1)" "edited (set as) h (Some a) as (drop (nat n) ?d) h1"
      using trim_head_ok [OF ok c] by blast
    have h: "hdr_len h1 a = hdr_len h a" by (rule hdr_len_eq) (use t(2) a(2) in \<open>simp add: edited_def\<close>)
    obtain h2 where h2: "add_pkt_len a (\<lambda>l. l - (n - int (nat n - length ?d))) h1 = Some h2"
      "joined h (Some a) (set as) (drop (nat n) ?d) h2" "hdr_len h2 a = map_option (\<lambda>l. l - (n - int (nat n - length ?d))) (hdr_len h1 a)"
      by (rule adjust_len_ok [OF edited_joined [OF t(2)]])
    show ?thesis using t(1) h2 h True by (auto simp: m_adj_def trimmed_def)
  next
    case False
    let ?len = "nat (- n)"
    have s: "scan_tail h a 0 = Some (length ?d, last as)" using scan_tail_ok [OF ok, of a as' 0] c a(2) by simp
    have ne: "as \<noteq> []" using a(2) by simp
    obtain z where z: "mbufs h (last as) = Some z" "m_next z = None" by (rule chain_last [OF c ne])
    show ?thesis
    proof (cases "?len \<le> m_len z")
      case True
      note e = last_shrink [OF ok c ne z(1) True]
      have h: "hdr_len (h\<lparr>mbufs := (mbufs h)(last as \<mapsto> z\<lparr>m_len := m_len z - ?len\<rparr>)\<rparr>) a = hdr_len h a"
        by (rule hdr_len_eq) (use e a(2) in \<open>simp add: edited_def\<close>)
      have le: "m_len z \<le> length ?d" by (rule last_len [OF ok ne z(1)])
      obtain h2 where h2: "add_pkt_len a (\<lambda>l. l - int ?len) (h\<lparr>mbufs := (mbufs h)(last as \<mapsto> z\<lparr>m_len := m_len z - ?len\<rparr>)\<rparr>) = Some h2"
        "joined h (Some a) (set as) (take (length ?d - ?len) ?d) h2"
        "hdr_len h2 a = map_option (\<lambda>l. l - int ?len) (hdr_len (h\<lparr>mbufs := (mbufs h)(last as \<mapsto> z\<lparr>m_len := m_len z - ?len\<rparr>)\<rparr>) a)"
        by (rule adjust_len_ok [OF edited_joined [OF e]])
      show ?thesis using s z h2 h True False le by (auto simp: m_adj_def trimmed_def upd_mbuf_def)
    next
      case big: False
      let ?n = "length ?d - ?len"
      obtain h1 m' where A: "add_pkt_len a (\<lambda>_. int ?n) h = Some h1" "heap_ok h1" "frame {a} h h1" "brk h1 = brk h"
          "mbufs h1 = (mbufs h)(a \<mapsto> m')" "m_next m' = m_next m" "m_flags m' = m_flags m" "\<forall>x. mbytes h1 x = mbytes h x"
          "flag m M_PKTHDR \<longrightarrow> ph_len (m_pkthdr m') = int ?n"
        by (rule add_pkt_len_ok [OF ok a(1)])
      have c1: "chain h1 (Some a) as" by (rule chain_same_next [OF c]) (use A(5,6) a(1) in auto)
      have d1: "chain_data h1 as = ?d" using A(8) by (metis chain_data_cong)
      obtain h' zs where t: "trim_tail (Some a) ?n h1 = Some h'" "edited (set as) h1 (Some a) zs (take ?n ?d) h'"
        using trim_tail_ok [OF A(2) c1 ne, of ?n] d1 by auto
      have zs: "chain h' (Some a) zs" using t(2) by (simp add: edited_def)
      then have "a \<in> set zs" by (rule chain_head) simp
      then have "hdr_len h' a = hdr_len h1 a" using t(2) by (intro hdr_len_eq) (simp add: edited_def)
      moreover have "hdr_len h1 a = map_option (\<lambda>_. int ?n) (hdr_len h a)" using A(5,7,9) a(1) by (simp add: hdr_len_def)
      moreover have "joined h (Some a) (set as) (take ?n ?d) h'"
        by (rule joined_after [OF A(3-5) _ edited_joined [OF t(2)]]) (simp add: a(2))
      ultimately show ?thesis using s z t(1) A(1) big False by (auto simp: m_adj_def trimmed_def)
    qed
  qed
qed

end
