(* ===== verification/Mbuf_Split.thy ===== *)
theory Mbuf_Split
  imports Mbuf_Edit
begin

text \<open>
  Splitting a chain in two.
\<close>

lemma split_point_simps:
  "split_point h None len = Some (None, len)"
  "mbufs h a = Some m \<Longrightarrow> split_point h (Some a) len =
     (if len > m_len m then split_point h (m_next m) (len - m_len m) else Some (Some a, len))"
  by (subst split_point.simps, simp)+

lemma split_point_ok:
  assumes "heap_ok h" "chain h p as" "as \<noteq> []" "len \<le> length (chain_data h as)"
  obtains bs a cs k m where "as = bs @ a # cs" "split_point h p len = Some (Some a, k)" "mbufs h a = Some m" "k \<le> m_len m"
    "length (chain_data h bs) + k = len"
  using assms
proof (induction as arbitrary: p len thesis)
  case (Cons a as)
  then obtain m where m: "p = Some a" "mbufs h a = Some m" "chain h (m_next m) as" by auto
  note l = length_mbytes [OF \<open>heap_ok h\<close> m(2)]
  show ?case
  proof (cases "len \<le> m_len m")
    case True
    show ?thesis by (rule Cons.prems(1) [of "[]" a as len m]) (use True m in \<open>simp_all add: split_point_simps\<close>)
  next
    case False
    have ne: "as \<noteq> []" using Cons.prems(5) False l by auto
    have le: "len - m_len m \<le> length (chain_data h as)" using Cons.prems(5) l by simp
    obtain bs x cs k n where r: "as = bs @ x # cs" "split_point h (m_next m) (len - m_len m) = Some (Some x, k)" "mbufs h x = Some n"
        "k \<le> m_len n" "length (chain_data h bs) + k = len - m_len m"
      by (rule Cons.IH [OF _ Cons.prems(2) m(3) ne le])
    show ?thesis by (rule Cons.prems(1) [of "a # bs" x cs k n]) (use r m False l in \<open>simp_all add: split_point_simps\<close>)
  qed
qed simp

text \<open>The end of the routine: the bytes from \<open>k\<close> on move to the new mbuf, which takes over the rest of the chain.\<close>

lemma extpacket_ok:
  assumes ok: "heap_ok h" and m: "mbufs h a = Some m" and n: "mbufs h b = Some n" "\<not> flag n M_EXT" "m_len n = 0"
    and ab: "a \<noteq> b" and k: "k \<le> m_len m" "\<not> flag m M_EXT \<Longrightarrow> m_data n + (m_len m - k) \<le> MLEN"
  obtains h' m' n' where "extpacket b a k (m_len m - k) h = Some (Some b, h')" "heap_ok h'" "frame {a, b} h h'" "brk h' = brk h"
    "mbufs h' = (mbufs h)(b \<mapsto> n', a \<mapsto> m')" "m_next n' = m_next m" "m_next m' = None" "m_pkthdr m' = m_pkthdr m" "m_flags m' = m_flags m"
    "mbytes h' a = take k (mbytes h a)" "mbytes h' b = drop k (mbytes h a)"
proof -
  let ?r = "m_len m - k"
  have len: "length (mbytes h a) = m_len m" by (rule length_mbytes [OF ok m])
  obtain h1 n1 where F: "(if flag m M_EXT then Option.bind (upd_mbuf b (\<lambda>n. n\<lparr>m_data := m_data m + k\<rparr>) h) (mb_dupcl b a)
        else Option.bind (copy_from h a k ?r) (\<lambda>xs. copy_to b 0 xs h)) = Some h1"
      "heap_ok (h1\<lparr>mbufs := (mbufs h1)(b \<mapsto> n1\<lparr>m_len := ?r\<rparr>)\<rparr>)" "mbufs h1 = (mbufs h)(b \<mapsto> n1)" "clusters h1 = clusters h" "brk h1 = brk h"
      "new_mbuf h1 = new_mbuf h" "new_clust h1 = new_clust h" "new_ref h1 = new_ref h"
      "mbytes (h1\<lparr>mbufs := (mbufs h1)(b \<mapsto> n1\<lparr>m_len := ?r\<rparr>)\<rparr>) b = drop k (mbytes h a)"
  proof (cases "flag m M_EXT")
    case True
    let ?n = "n\<lparr>m_data := m_data m + k, m_ext_of := m_ext_of m, m_flags := m_flags n OR M_EXT\<rparr>"
    let ?n' = "?n\<lparr>m_len := ?r\<rparr>"
    obtain q j where q: "ref_cnt (m_ext_of m) = Some q" "refs h q = Some j"
        "heap_ok (h\<lparr>mbufs := (mbufs h)(b \<mapsto> ?n'), refs := (refs h)(q \<mapsto> j + 1)\<rparr>)" (is "heap_ok ?h'")
      by (rule join_ok [OF ok m True n(1,2), of ?n']) (use k(1) in \<open>simp_all add: bit_simps\<close>)
    let ?h1 = "h\<lparr>mbufs := (mbufs h)(b \<mapsto> ?n), refs := (refs h)(q \<mapsto> j + 1)\<rparr>"
    have "buffer ?h1 ?n' = buffer h m" using True by (simp add: buffer_def bit_simps)
    then have "mbytes (?h1\<lparr>mbufs := (mbufs ?h1)(b \<mapsto> ?n')\<rparr>) b = drop k (mbytes h a)"
      using m k(1) len sub_range [of k ?r "m_len m" "m_data m" "the (buffer h m)"] by (simp add: mbytes_def)
    moreover have "?h1\<lparr>mbufs := (mbufs ?h1)(b \<mapsto> ?n')\<rparr> = ?h'" by (cases h) simp
    then have "heap_ok (?h1\<lparr>mbufs := (mbufs ?h1)(b \<mapsto> ?n')\<rparr>)" using q(3) by metis
    ultimately show thesis using True q(1,2) m n(1) ab
      by (intro that [of ?h1 ?n]) (simp_all add: upd_mbuf_def mb_dupcl_def)
  next
    case False
    let ?xs = "take ?r (drop k (mbytes h a))"
    let ?n = "n\<lparr>m_dat := splice (m_dat n) (m_data n) ?xs\<rparr>"
    let ?h1 = "h\<lparr>mbufs := (mbufs h)(b \<mapsto> ?n)\<rparr>"
    let ?h2 = "h\<lparr>mbufs := (mbufs h)(b \<mapsto> ?n\<lparr>m_len := ?r\<rparr>)\<rparr>"
    have l: "local_ok h b n" by (rule heap_local [OF ok n(1)])
    have xs: "length ?xs = ?r" "?xs = drop k (mbytes h a)" using len by simp_all
    have "copy_from h a k ?r = Some ?xs" by (rule copy_from_ok [OF ok m]) (use k(1) in simp)
    moreover have "copy_to b 0 ?xs h = Some ?h1" using copy_to_ok [OF ok n(1,2), of 0 ?xs] k(2) [OF False] xs(1) by simp
    moreover have "heap_ok ?h2"
      by (rule upd_ok [OF ok n(1)]) (use l k(2) [OF False] n(2) xs(1) in \<open>simp_all add: local_ok_def\<close>)
    moreover have "mbytes ?h2 b = ?xs"
      using n(2) l k(2) [OF False] xs(1) splice_read [of "m_data n" ?xs "m_dat n" "m_data n" "[]"]
      by (simp add: mbytes_def buffer_def local_ok_def)
    ultimately show thesis using False xs(2) by (intro that [of ?h1 ?n]) simp_all
  qed
  let ?n2 = "n1\<lparr>m_len := ?r\<rparr>"
  let ?h2 = "h1\<lparr>mbufs := (mbufs h1)(b \<mapsto> ?n2)\<rparr>"
  let ?n' = "n1\<lparr>m_len := ?r, m_next := m_next m\<rparr>" and ?m' = "m\<lparr>m_len := k, m_next := None\<rparr>"
  let ?h3 = "h1\<lparr>mbufs := (mbufs h)(b \<mapsto> ?n', a \<mapsto> ?m')\<rparr>"
  have eq: "extpacket b a k ?r h = Some (Some b, ?h3)"
    using F(1,3) m ab by (cases "flag m M_EXT") (auto simp: extpacket_def upd_mbuf_def bind_Some_iff)
  have b2: "mbufs ?h2 b = Some ?n2" by simp
  let ?h2' = "?h2\<lparr>mbufs := (mbufs ?h2)(b \<mapsto> ?n2\<lparr>m_next := m_next m\<rparr>)\<rparr>"
  have ok2: "heap_ok ?h2'" by (rule upd_ok [OF F(2) b2]) (use heap_local [OF F(2) b2] in simp_all)
  have a2: "mbufs ?h2' a = Some m" using m ab F(3) by simp
  let ?h3' = "?h2'\<lparr>mbufs := (mbufs ?h2')(a \<mapsto> m\<lparr>m_len := k, m_data := m_data m\<rparr>)\<rparr>"
  have ok3: "heap_ok ?h3'" by (rule shrink_ok(1) [OF ok2 a2]) (use k(1) in simp_all)
  have a3: "mbufs ?h3' a = Some (m\<lparr>m_len := k, m_data := m_data m\<rparr>)" by simp
  have "heap_ok (?h3'\<lparr>mbufs := (mbufs ?h3')(a \<mapsto> m\<lparr>m_len := k, m_data := m_data m\<rparr>\<lparr>m_next := None\<rparr>)\<rparr>)"
    by (rule upd_ok [OF ok3 a3]) (use heap_local [OF ok3 a3] in simp_all)
  then have ok': "heap_ok ?h3" using F(3) by (simp add: fun_upd_twist [OF ab])
  have buf: "buffer ?h3 m = buffer h m" using F(4) by (simp add: buffer_def)
  have "mbytes ?h3 a = take k (mbytes h a)" using buf m k(1) by (simp add: mbytes_def)
  moreover have "mbytes ?h3 b = drop k (mbytes h a)" using F(9) ab by (simp add: mbytes_def)
  ultimately show thesis
    using F(4-8) ab by (intro that [of ?h3 ?n' ?m', OF eq ok']) (auto simp: frame_def)
qed

text \<open>The mbufs \<open>S\<close> were replaced by those of \<open>Y\<close>: outside \<open>Y\<close> nothing is left of \<open>S\<close> and everything else is as before.\<close>

definition kept :: "nat set \<Rightarrow> nat set \<Rightarrow> mheap \<Rightarrow> mheap \<Rightarrow> bool" where
  "kept Y S h h' \<longleftrightarrow> (\<forall>x. x \<notin> Y \<longrightarrow> mbufs h' x = (if x \<in> S then None else mbufs h x))"

lemma kept_from: "kept Y S h h' \<Longrightarrow> (\<And>x. x \<notin> S \<Longrightarrow> mbufs h x = mbufs h0 x) \<Longrightarrow> kept Y S h0 h'"
  by (simp add: kept_def)

lemma kept_mono: "kept Y S h h' \<Longrightarrow> S \<subseteq> S' \<Longrightarrow> (\<And>x. x \<in> S' - S \<Longrightarrow> mbufs h x = None) \<Longrightarrow> kept Y S' h h'"
  unfolding kept_def by (metis DiffI subsetD)

lemma kept_more: "kept Y S h h' \<Longrightarrow> kept (Y \<union> Z) (S \<union> Z) h h'"
  by (simp add: kept_def)

lemma heap_none: "heap_ok h \<Longrightarrow> brk h \<le> x \<Longrightarrow> mbufs h x = None"
  using heap_lt [of h x] by (cases "mbufs h x") auto

text \<open>The result of a split: two chains, or the old chain when memory ran out. \<open>d\<close> is the old contents, \<open>N\<close> are new mbufs.\<close>

definition split_into ::
  "mheap \<Rightarrow> nat set \<Rightarrow> nat option \<Rightarrow> nat list \<Rightarrow> bytes \<Rightarrow> nat \<Rightarrow> nat option \<Rightarrow> mheap \<Rightarrow> bool" where
  "split_into h N p as d len r h' \<longleftrightarrow> heap_ok h' \<and> frame (set as \<union> N) h h' \<and>
     ((\<exists>bs ns. chain h' p bs \<and> chain h' r ns \<and> set bs \<inter> set ns = {} \<and> set bs \<subseteq> set as \<and> set ns \<subseteq> set as \<union> N \<and>
         chain_data h' bs = take len d \<and> chain_data h' ns = drop len d \<and>
         kept (set bs \<union> set ns) (set as \<union> N) h h') \<or>
      (r = None \<and> chain h' p as \<and> chain_data h' as = d \<and> (\<exists>i. new_mbuf h i = None) \<and> kept (set as) (set as \<union> N) h h'))"

lemma split_into_cases:
  assumes "split_into h N p as d len r h'"
  obtains bs ns where "chain h' p bs" "chain h' r ns" "set bs \<inter> set ns = {}" "set bs \<subseteq> set as" "set ns \<subseteq> set as \<union> N"
      "chain_data h' bs = take len d" "chain_data h' ns = drop len d" "kept (set bs \<union> set ns) (set as \<union> N) h h'"
    | "r = None" "chain h' p as" "chain_data h' as = d" "\<exists>i. new_mbuf h i = None" "kept (set as) (set as \<union> N) h h'"
  using assms unfolding split_into_def by blast

lemma split_into_refused:
  "heap_ok h' \<Longrightarrow> frame (set as \<union> N) h h' \<Longrightarrow> chain h' p as \<Longrightarrow> chain_data h' as = d \<Longrightarrow> new_mbuf h i = None \<Longrightarrow>
   kept (set as) (set as \<union> N) h h' \<Longrightarrow> split_into h N p as d len None h'"
  unfolding split_into_def by blast

lemma split_ext:
  assumes ok: "heap_ok h" and c: "chain h (Some a) (a # cs)" and m: "mbufs h a = Some m"
    and n: "mbufs h b = Some n" "\<not> flag n M_EXT" "m_len n = 0" and b: "b \<notin> set (a # cs)"
    and k: "k \<le> m_len m" "\<not> flag m M_EXT \<Longrightarrow> m_data n + (m_len m - k) \<le> MLEN"
  shows "\<exists>h'. extpacket b a k (m_len m - k) h = Some (Some b, h') \<and> split_into h {b} (Some a) (a # cs) (chain_data h (a # cs)) k (Some b) h'"
proof -
  have ab: "a \<noteq> b" using b by simp
  obtain h' m' n' where E: "extpacket b a k (m_len m - k) h = Some (Some b, h')" "heap_ok h'" "frame {a, b} h h'" "brk h' = brk h"
    "mbufs h' = (mbufs h)(b \<mapsto> n', a \<mapsto> m')" "m_next n' = m_next m" "m_next m' = None"
    "mbytes h' a = take k (mbytes h a)" "mbytes h' b = drop k (mbytes h a)"
    by (rule extpacket_ok [OF ok m n ab k])
  have a: "a \<notin> set cs" using chain_distinct [OF c] by simp
  have cs: "chain h (m_next m) cs" using c m by simp
  have "set cs \<inter> {a, b} = {}" using a b by auto
  note C = frame_chain [OF E(3) ok E(2) cs this]
  have "chain h' (Some a) [a]" using E(5,7) by simp
  moreover have "chain h' (Some b) (b # cs)" using E(5,6) C(1) ab by simp
  moreover have "chain_data h' [a] = take k (chain_data h (a # cs))" using E(8) k(1) length_mbytes [OF ok m] by simp
  moreover have "chain_data h' (b # cs) = drop k (chain_data h (a # cs))" using E(9) C(2) k(1) length_mbytes [OF ok m] by simp
  moreover have "frame (set (a # cs) \<union> {b}) h h'" using E(3) by (rule frame_mono) auto
  ultimately have "split_into h {b} (Some a) (a # cs) (chain_data h (a # cs)) k (Some b) h'"
    unfolding split_into_def using E(2,5) b a by (intro conjI disjI1 exI [of _ "[a]"] exI [of _ "b # cs"]) (auto simp: kept_def)
  then show ?thesis using E(1) by blast
qed

lemma chain_prefix:
  assumes "chain h p (bs @ a # cs)" "\<And>x. x \<in> set bs \<Longrightarrow> mbufs h' x = mbufs h x" "chain h' (Some a) ds"
  shows "chain h' p (bs @ ds)"
  using assms by (induction bs arbitrary: p) auto

lemma split_prefix:
  assumes ok: "heap_ok h" and c: "chain h p (bs @ a # cs)" and N: "N \<inter> set bs = {}" 
    and s: "split_into h N (Some a) (a # cs) (chain_data h (a # cs)) k r h'"
  shows "split_into h N p (bs @ a # cs) (chain_data h (bs @ a # cs)) (length (chain_data h bs) + k) r h'"
proof -
  have ok': "heap_ok h'" and f: "frame (set (a # cs) \<union> N) h h'" using s by (simp_all add: split_into_def)
  have dis: "set bs \<inter> (set (a # cs) \<union> N) = {}" using chain_distinct [OF c] N by auto
  have live: "mbufs h' x = mbufs h x \<and> mbytes h' x = mbytes h x" if x: "x \<in> set bs" for x
  proof -
    obtain y where "mbufs h x = Some y" using chain_live [OF c] x by auto
    then show ?thesis using frame_mbufs [OF f ok] frame_bytes [OF f ok ok'] dis x by (metis disjoint_iff)
  qed
  have pre: "chain h' p (bs @ ds)" if "chain h' (Some a) ds" for ds by (rule chain_prefix [OF c _ that]) (simp add: live)
  have data: "chain_data h' bs = chain_data h bs" by (rule chain_data_cong) (simp add: live)
  have f': "frame (set (bs @ a # cs) \<union> N) h h'" using f by (rule frame_mono) auto
  from s show ?thesis
  proof (cases rule: split_into_cases)
    case (1 xs ns)
    have "set (bs @ xs) \<inter> set ns = {}" using 1(3,5) dis by auto
    moreover have "kept (set (bs @ xs) \<union> set ns) (set (bs @ a # cs) \<union> N) h h'" using kept_more [OF 1(8), of "set bs"] by (simp add: ac_simps)
    ultimately show ?thesis unfolding split_into_def using ok' f' 1 pre [OF 1(1)] data
      by (intro conjI disjI1 exI [of _ "bs @ xs"] exI [of _ ns]) auto
  next
    case 2
    have "kept (set (bs @ a # cs)) (set (bs @ a # cs) \<union> N) h h'" using kept_more [OF 2(5), of "set bs"] by (simp add: ac_simps)
    then show ?thesis unfolding split_into_def using ok' f' 2 pre [OF 2(2)] data by (intro conjI disjI2) simp_all
  qed
qed

lemma split_from:
  assumes "frame S h0 h" "S \<subseteq> set as \<union> N" "split_into h N p as d len r h'" "\<And>x. x \<notin> set as \<union> N \<Longrightarrow> mbufs h x = mbufs h0 x"
  shows "split_into h0 N p as d len r h'"
proof -
  have "frame (set as \<union> N) h0 h'"
    by (rule frame_trans [OF frame_mono [OF assms(1,2)], of "set as \<union> N"]) (use assms(3) in \<open>auto simp: split_into_def\<close>)
  moreover have "new_mbuf h = new_mbuf h0" using assms(1) by (simp add: frame_def)
  moreover have "kept Y (set as \<union> N) h0 h'" if "kept Y (set as \<union> N) h h'" for Y by (rule kept_from [OF that assms(4)])
  ultimately show ?thesis using assms(3) unfolding split_into_def by metis
qed

lemma align_long_le: "align_long x \<le> x"
  by (simp add: align_long_def)

lemma m_split_plain:
  assumes ok: "heap_ok h" and c: "chain h (Some a0) as" and x0: "mbufs h a0 = Some x0" "\<not> flag x0 M_PKTHDR"
    and len: "len0 \<le> length (chain_data h as)"
  shows "\<exists>r h'. m_split a0 len0 h = Some (r, h') \<and> split_into h {brk h} (Some a0) as (chain_data h as) len0 r h'"
proof -
  have ne: "as \<noteq> []" using c by auto
  obtain bs a cs k m where P: "as = bs @ a # cs" "split_point h (Some a0) len0 = Some (Some a, k)" "mbufs h a = Some m" "k \<le> m_len m"
      "length (chain_data h bs) + k = len0"
    by (rule split_point_ok [OF ok c ne len])
  have ca: "chain h (Some a) (a # cs)" using c P(1) chain_suffix by blast
  have lt: "x < brk h" if "x \<in> set as" for x by (rule chain_lt [OF ok c that])
  have N: "{brk h} \<inter> set bs = {}" using lt P(1) by auto
  have result: "split_into h {brk h} (Some a0) as (chain_data h as) len0 r h'"
    if "split_into h {brk h} (Some a) (a # cs) (chain_data h (a # cs)) k r h'" for r h'
    using split_prefix [OF ok c [unfolded P(1)] N that] P(1,5) by simp
  let ?r = "m_len m - k"
  show ?thesis
  proof (cases "?r = 0")
    case True
    let ?h = "h\<lparr>mbufs := (mbufs h)(a \<mapsto> m\<lparr>m_next := None\<rparr>)\<rparr>"
    have ok': "heap_ok ?h" by (rule upd_ok [OF ok P(3)]) (use heap_local [OF ok P(3)] in simp_all)
    have a: "a \<notin> set cs" using chain_distinct [OF ca] by simp
    have C: "chain ?h (m_next m) cs" "chain_data ?h cs = chain_data h cs"
      using frame_chain [OF frame_upd [of a "{a}"] ok ok' , of "m_next m" cs] ca P(3) a by simp_all
    have bytes: "mbytes ?h a = mbytes h a" using P(3) by (simp add: mbytes_def)
    have l: "length (mbytes h a) = k" using length_mbytes [OF ok P(3)] True P(4) by simp
    have "split_into h {brk h} (Some a) (a # cs) (chain_data h (a # cs)) k (m_next m) ?h"
      unfolding split_into_def using ok' C bytes l a heap_brk [OF ok] frame_upd [of a "set (a # cs) \<union> {brk h}" h]
      by (intro conjI disjI1 exI [of _ "[a]"] exI [of _ cs]) (auto simp: kept_def)
    moreover have "m_split a0 len0 h = Some (m_next m, ?h)"
      using P(2,3) x0 True by (subst m_split.simps) (simp add: upd_mbuf_def)
    ultimately show ?thesis using result by blast
  next
    case False
    obtain q h1 where al: "m_get (m_type m) h = (q, h1)" by (rule prod.exhaust)
    then have al': "(if False then m_gethdr (m_type m) h else m_get (m_type m) h) = (q, h1)" by simp
    note A = alloc_cases [OF ok P(3) al']
    show ?thesis
    proof (cases q)
      case None
      then have M: "mbufs h1 = mbufs h" using A(4) by simp
      have "new_mbuf h (brk h) = None" using al None by (auto simp: m_get_def alloc_mbuf_def split: option.splits)
      then have "split_into h {brk h} (Some a0) as (chain_data h as) len0 None h1"
        using frame_chain [OF A(2) ok A(1) c] A(1) frame_mono [OF A(2)] M heap_brk [OF ok]
        by (intro split_into_refused [of _ _ _ _ _ _ "brk h"]) (simp_all add: kept_def)
      moreover have "m_split a0 len0 h = Some (None, h1)"
        using P(2,3) x0 False al None by (subst m_split.simps) simp
      ultimately show ?thesis by blast
    next
      case (Some b)
      then obtain n where n: "b = brk h" "mbufs h1 = (mbufs h)(brk h \<mapsto> n)" "new_ok 0 (m_type m) n" using A(4) by auto
      have b: "b \<notin> set as" using lt n(1) by blast
      let ?n = "M_ALIGN ?r n"
      let ?h2 = "h1\<lparr>mbufs := (mbufs h1)(b \<mapsto> ?n)\<rparr>"
      have b1: "mbufs h1 b = Some n" using n by simp
      have nf: "\<not> flag n M_EXT" "m_len n = 0" "m_data n = 0" using n(3) by (simp_all add: new_ok_def)
      have "align_long (MLEN - ?r) \<le> MLEN" using align_long_le [of "MLEN - ?r"] by simp
      then have ok2: "heap_ok ?h2"
        by (intro upd_ok [OF A(1) b1]) (use heap_local [OF A(1) b1] nf in \<open>auto simp: local_ok_def M_ALIGN_def split: if_splits\<close>)
      have f: "frame {b} h ?h2" by (rule frame_trans [OF frame_mono [OF A(2)] frame_upd [of b "{b}"]]) simp_all
      have ca2: "chain ?h2 (Some a) (a # cs)" "chain_data ?h2 (a # cs) = chain_data h (a # cs)"
        using frame_chain [OF f ok ok2 ca] b P(1) by auto
      have "a \<noteq> b" using b P(1) by auto
      then have m2: "mbufs ?h2 a = Some m" using n(1,2) P(3) by simp
      have room: "m_data ?n + ?r \<le> MLEN" if "\<not> flag m M_EXT"
        using heap_local [OF ok P(3)] that nf align_long_le [of "MLEN - ?r"] by (auto simp: local_ok_def M_ALIGN_def split: if_splits)
      obtain h' where h': "extpacket b a k ?r ?h2 = Some (Some b, h')"
          "split_into ?h2 {b} (Some a) (a # cs) (chain_data h (a # cs)) k (Some b) h'"
        using split_ext [OF ok2 ca2(1) m2, of b ?n k] nf b P(1,4) room ca2(2) by (auto simp: M_ALIGN_def)
      have "split_into h {brk h} (Some a) (a # cs) (chain_data h (a # cs)) k (Some b) h'"
        using split_from [OF f _ h'(2)] n(1,2) by simp
      moreover have "m_split a0 len0 h = Some (Some b, h')"
        using P(2,3) x0 False al Some h'(1) b1 by (subst m_split.simps) (simp add: upd_mbuf_def)
      ultimately show ?thesis using result by blast
    qed
  qed
qed

lemma pkthdr_upd_ok:
  assumes "heap_ok h" "mbufs h x = Some y" "ph_tags q = ph_tags (m_pkthdr y)"
  shows "heap_ok (h\<lparr>mbufs := (mbufs h)(x \<mapsto> y\<lparr>m_pkthdr := q\<rparr>)\<rparr>)" (is "heap_ok ?h")
    and "mbytes (h\<lparr>mbufs := (mbufs h)(x \<mapsto> y\<lparr>m_pkthdr := q\<rparr>)\<rparr>) z = mbytes h z"
    and "chain h p as \<Longrightarrow> chain (h\<lparr>mbufs := (mbufs h)(x \<mapsto> y\<lparr>m_pkthdr := q\<rparr>)\<rparr>) p as"
proof -
  have "local_ok h x (y\<lparr>m_pkthdr := q\<rparr>) = local_ok h x y" using assms(3) by (simp add: local_ok_def)
  then show "heap_ok ?h" using heap_local [OF assms(1,2)] by (intro upd_ok [OF assms(1,2)]) simp_all
  show "mbytes ?h z = mbytes h z" using assms(2) by (auto simp: mbytes_def split: option.splits)
  show "chain ?h p as" if "chain h p as" by (rule chain_same_next [OF that]) (use assms(2) in auto)
qed

text \<open>The heap after the headers of the new and of the old first mbuf are written.\<close>

lemma split_headers:
  assumes ok: "heap_ok h" and c: "chain h (Some a0) as" and x0: "mbufs h a0 = Some x0"
    and al: "m_gethdr (m_type x0) h = (Some b, h1)"
  obtains h3 n x1 where "b = brk h" "heap_ok h3" "frame (insert b (set as)) h h3" "chain h3 (Some a0) as" "\<forall>z \<in> set as. mbytes h3 z = mbytes h z"
    "mbufs h3 = (mbufs h)(b \<mapsto> n, a0 \<mapsto> x1)" "m_len n = 0" "\<not> flag n M_EXT" "flag n M_PKTHDR" "m_data n = PKTDAT"
    "x1 = x0\<lparr>m_pkthdr := (m_pkthdr x0)\<lparr>ph_len := int len0\<rparr>\<rparr>"
    "Option.bind (upd_mbuf b (\<lambda>n. n\<lparr>m_pkthdr := (m_pkthdr n)\<lparr>rcvif := rcvif (m_pkthdr x0),
        ph_len := ph_len (m_pkthdr x0) - int len0\<rparr>\<rparr>) h1)
      (upd_mbuf a0 (\<lambda>m. m\<lparr>m_pkthdr := (m_pkthdr m)\<lparr>ph_len := int len0\<rparr>\<rparr>)) = Some h3"
proof -
  have al': "(if True then m_gethdr (m_type x0) h else m_get (m_type x0) h) = (Some b, h1)" using al by simp
  note A = alloc_cases [OF ok x0 al']
  then obtain n where n: "b = brk h" "mbufs h1 = (mbufs h)(brk h \<mapsto> n)" "new_ok M_PKTHDR (m_type x0) n" by auto
  have "a0 \<in> set as" using c by (cases as) auto
  have lt: "x < brk h" if "x \<in> set as" for x by (rule chain_lt [OF ok c that])
  have b: "b \<notin> set as" using lt n(1) by blast
  have ab: "a0 \<noteq> b" using b \<open>a0 \<in> set as\<close> by blast
  let ?q = "(m_pkthdr n)\<lparr>rcvif := rcvif (m_pkthdr x0), ph_len := ph_len (m_pkthdr x0) - int len0\<rparr>"
  let ?n = "n\<lparr>m_pkthdr := ?q\<rparr>" and ?x = "x0\<lparr>m_pkthdr := (m_pkthdr x0)\<lparr>ph_len := int len0\<rparr>\<rparr>"
  let ?h2 = "h1\<lparr>mbufs := (mbufs h1)(b \<mapsto> ?n)\<rparr>"
  let ?h3 = "?h2\<lparr>mbufs := (mbufs ?h2)(a0 \<mapsto> ?x)\<rparr>"
  have b1: "mbufs h1 b = Some n" using n by simp
  have a2: "mbufs ?h2 a0 = Some x0" using n(1,2) ab x0 by simp
  have ok2: "heap_ok ?h2" by (rule pkthdr_upd_ok(1) [OF A(1) b1]) simp
  have ok3: "heap_ok ?h3" by (rule pkthdr_upd_ok(1) [OF ok2 a2]) simp
  have f2: "frame {b} h ?h2" by (rule frame_trans [OF frame_mono [OF A(2)] frame_upd [of b "{b}"]]) simp_all
  have f3: "frame (insert b (set as)) h ?h3"
    by (rule frame_trans [OF frame_mono [OF f2] frame_upd [of a0 "{a0}"]]) (use \<open>a0 \<in> set as\<close> in simp_all)
  have c2: "chain ?h2 (Some a0) as" using frame_chain(1) [OF f2 ok ok2 c] b by simp
  have c3: "chain ?h3 (Some a0) as" by (rule pkthdr_upd_ok(3) [OF ok2 a2 _ c2]) simp
  have d3: "mbytes ?h3 z = mbytes h z" if z: "z \<in> set as" for z
  proof -
    obtain y where "mbufs h z = Some y" using chain_live [OF c z] by blast
    moreover have "z \<noteq> b" using b z by blast
    ultimately have "mbytes ?h2 z = mbytes h z" using frame_bytes [OF f2 ok ok2] by simp
    then show ?thesis using pkthdr_upd_ok(2) [OF ok2 a2, of "m_pkthdr ?x" z] by simp
  qed
  have nf: "m_len n = 0" "m_flags n = M_PKTHDR" "m_data n = PKTDAT" using n(3) by (simp_all add: new_ok_def)
  show thesis
    by (rule that [of ?h3 ?n ?x]) (use n(1,2) ok3 f3 c3 d3 nf b1 ab x0 in \<open>simp_all add: upd_mbuf_def fun_upd_twist\<close>)
qed

lemma split_nested:
  assumes ok: "heap_ok h" and c: "chain h (Some a) (a # cs)" and m: "mbufs h a = Some m" "\<not> flag m M_PKTHDR" "k < m_len m"
    and n: "mbufs h b = Some n" "m_len n = 0" and b: "b \<notin> set (a # cs)"
  shows "\<exists>r h'. Option.bind (m_split a k h) (\<lambda>(t, h5). Option.bind (upd_mbuf b (\<lambda>n. n\<lparr>m_next := t\<rparr>) h5) (\<lambda>h6.
      if t = None then map_option (\<lambda>(_, h7). (None, h7)) (m_free b h6)
      else map_option (Pair (Some b)) (upd_mbuf b (\<lambda>n. n\<lparr>m_len := 0\<rparr>) h6))) = Some (r, h') \<and>
    split_into h (insert b {x. brk h \<le> x}) (Some a) (a # cs) (chain_data h (a # cs)) k r h'"
proof -
  let ?d = "chain_data h (a # cs)" and ?as = "a # cs" and ?N = "insert b {x. brk h \<le> x}"
  have len: "k < length ?d" using length_mbytes [OF ok m(1)] m(3) by simp
  obtain t h5 where S: "m_split a k h = Some (t, h5)" "split_into h {brk h} (Some a) ?as ?d k t h5"
    using m_split_plain [OF ok c m(1,2) less_imp_le [OF len]] by blast
  have ok5: "heap_ok h5" and f5: "frame (set ?as \<union> {brk h}) h h5" using S(2) by (simp_all add: split_into_def)
  have lt: "b < brk h" by (rule heap_lt [OF ok n(1)])
  have b5: "mbufs h5 b = Some n" by (rule frame_mbufs [OF f5 ok n(1)]) (use b lt in auto)
  let ?n = "n\<lparr>m_next := t\<rparr>"
  let ?h6 = "h5\<lparr>mbufs := (mbufs h5)(b \<mapsto> ?n)\<rparr>"
  have ok6: "heap_ok ?h6" by (rule upd_ok [OF ok5 b5]) (use heap_local [OF ok5 b5] in simp_all)
  have b6: "mbufs ?h6 b = Some ?n" by simp
  have f56: "frame {b} h5 ?h6" by (rule frame_upd) simp
  have f6: "frame (set ?as \<union> ?N) h ?h6" by (rule frame_trans [OF frame_mono [OF f5] f56]) auto
  have free: "mbufs h x = None" if "brk h \<le> x" for x by (rule heap_none [OF ok that])
  from S(2) show ?thesis
  proof (cases rule: split_into_cases)
    case (1 xs ns)
    have "ns \<noteq> []" using 1(7) len by auto
    then obtain c' where t: "t = Some c'" using 1(2) by (cases ns) auto
    let ?h7 = "?h6\<lparr>mbufs := (mbufs ?h6)(b \<mapsto> ?n\<lparr>m_len := 0\<rparr>)\<rparr>"
    have eq: "?n\<lparr>m_len := 0\<rparr> = ?n" using n(2) by simp
    have h7: "?h7 = ?h6" unfolding eq by simp
    have bx: "b \<notin> set xs" "b \<notin> set ns" using 1(4,5) b lt by auto
    note X = frame_chain [OF f56 ok5 ok6 1(1)] frame_chain [OF f56 ok5 ok6 1(2)]
    have "kept (set xs \<union> set (b # ns)) (set ?as \<union> ?N) h ?h6" using 1(8) free by (auto simp: kept_def)
    moreover have "mbytes ?h6 b = []" using n(2) by (simp add: mbytes_def)
    ultimately have "split_into h ?N (Some a) ?as ?d k (Some b) ?h6"
      unfolding split_into_def using ok6 f6 X bx b6 1(3-7)
      by (intro conjI disjI1 exI [of _ xs] exI [of _ "b # ns"]) auto
    moreover have "upd_mbuf b (\<lambda>n. n\<lparr>m_len := 0\<rparr>) ?h6 = Some ?h7" using b6 by (rule upd_mbuf_eq)
    moreover have "upd_mbuf b (\<lambda>n. n\<lparr>m_next := t\<rparr>) h5 = Some ?h6" using b5 by (rule upd_mbuf_eq)
    ultimately show ?thesis using S(1) t h7 by (intro exI [of _ "Some b"] exI [of _ ?h6]) simp
  next
    case 2
    obtain h7 where F: "m_free b ?h6 = Some (m_next ?n, h7)" "heap_ok h7" "frame {b} ?h6 h7" "mbufs h7 = (mbufs ?h6)(b := None)"
      by (rule m_free_ok [OF ok6 b6])
    have f57: "frame {b} h5 h7" by (rule frame_trans [OF f56 F(3)]) simp
    have X: "chain h7 (Some a) ?as" "chain_data h7 ?as = ?d" using frame_chain [OF f57 ok5 F(2) 2(2)] b 2(3) by simp_all
    have "frame (set ?as \<union> ?N) h h7" by (rule frame_trans [OF f6 F(3)]) auto
    moreover have "kept (set ?as) (set ?as \<union> ?N) h h7" using F(4) 2(5) free by (auto simp: kept_def)
    ultimately have "split_into h ?N (Some a) ?as ?d k None h7" unfolding split_into_def using F(2) X 2(4) by simp
    moreover have "upd_mbuf b (\<lambda>n. n\<lparr>m_next := t\<rparr>) h5 = Some ?h6" using b5 by (rule upd_mbuf_eq)
    ultimately show ?thesis using S(1) 2(1) F(1) by (intro exI [of _ None] exI [of _ h7]) simp
  qed
qed

lemma split_mono:
  assumes "split_into h N p as d len r h'" "N \<subseteq> N'" "\<And>x. x \<in> N' - N \<Longrightarrow> x \<notin> set as \<and> mbufs h x = None"
  shows "split_into h N' p as d len r h'"
proof -
  have "frame (set as \<union> N') h h'" by (rule frame_mono [of "set as \<union> N"]) (use assms in \<open>auto simp: split_into_def\<close>)
  moreover have "set ns \<subseteq> set as \<union> N'" if "set ns \<subseteq> set as \<union> N" for ns using that assms(2) by blast
  moreover have "kept Y (set as \<union> N') h h'" if "kept Y (set as \<union> N) h h'" for Y
    by (rule kept_mono [OF that]) (use assms(2,3) in auto)
  ultimately show ?thesis using assms(1) unfolding split_into_def by blast
qed

lemma m_split_header:
  assumes ok: "heap_ok h" and c: "chain h (Some a0) as" and x0: "mbufs h a0 = Some x0" "flag x0 M_PKTHDR"
    and len: "len0 \<le> length (chain_data h as)"
  shows "\<exists>r h'. m_split a0 len0 h = Some (r, h') \<and> split_into h {x. brk h \<le> x} (Some a0) as (chain_data h as) len0 r h'"
proof -
  let ?N = "{x. brk h \<le> x}"
  have ne: "as \<noteq> []" using c by auto
  obtain bs a cs k m where P: "as = bs @ a # cs" "split_point h (Some a0) len0 = Some (Some a, k)" "mbufs h a = Some m" "k \<le> m_len m"
      "length (chain_data h bs) + k = len0"
    by (rule split_point_ok [OF ok c ne len])
  have lt: "x < brk h" if "x \<in> set as" for x by (rule chain_lt [OF ok c that])
  have N: "?N \<inter> set bs = {}" using lt P(1) by force
  obtain q h1 where al: "m_gethdr (m_type x0) h = (q, h1)" by (rule prod.exhaust)
  show ?thesis
  proof (cases q)
    case None
    have al': "(if True then m_gethdr (m_type x0) h else m_get (m_type x0) h) = (q, h1)" using al by simp
    note A = alloc_cases [OF ok x0(1) al']
    have M: "mbufs h1 = mbufs h" using A(4) None by simp
    have "new_mbuf h (brk h) = None" using al None by (auto simp: m_gethdr_def alloc_mbuf_def split: option.splits)
    then have "split_into h ?N (Some a0) as (chain_data h as) len0 None h1"
      using frame_chain [OF A(2) ok A(1) c] A(1) frame_mono [OF A(2)] M heap_none [OF ok]
      by (intro split_into_refused [of _ _ _ _ _ _ "brk h"]) (simp_all add: kept_def)
    moreover have "m_split a0 len0 h = Some (None, h1)" using P(2,3) x0 al None by (subst m_split.simps) simp
    ultimately show ?thesis by blast
  next
    case (Some b)
    obtain h3 n x1 where H: "b = brk h" "heap_ok h3" "frame (insert b (set as)) h h3" "chain h3 (Some a0) as" "\<forall>z \<in> set as. mbytes h3 z = mbytes h z"
      "mbufs h3 = (mbufs h)(b \<mapsto> n, a0 \<mapsto> x1)" "m_len n = 0" "\<not> flag n M_EXT" "flag n M_PKTHDR" "m_data n = PKTDAT"
      "x1 = x0\<lparr>m_pkthdr := (m_pkthdr x0)\<lparr>ph_len := int len0\<rparr>\<rparr>"
      "Option.bind (upd_mbuf b (\<lambda>n. n\<lparr>m_pkthdr := (m_pkthdr n)\<lparr>rcvif := rcvif (m_pkthdr x0),
          ph_len := ph_len (m_pkthdr x0) - int len0\<rparr>\<rparr>) h1)
        (upd_mbuf a0 (\<lambda>m. m\<lparr>m_pkthdr := (m_pkthdr m)\<lparr>ph_len := int len0\<rparr>\<rparr>)) = Some h3"
      by (rule split_headers [OF ok c x0(1) al [unfolded Some], of len0])
    obtain h2 where H2: "upd_mbuf b (\<lambda>n. n\<lparr>m_pkthdr := (m_pkthdr n)\<lparr>rcvif := rcvif (m_pkthdr x0),
          ph_len := ph_len (m_pkthdr x0) - int len0\<rparr>\<rparr>) h1 = Some h2"
        "upd_mbuf a0 (\<lambda>m. m\<lparr>m_pkthdr := (m_pkthdr m)\<lparr>ph_len := int len0\<rparr>\<rparr>) h2 = Some h3"
      using H(12) by (auto simp: bind_Some_iff)
    have b: "b \<notin> set as" using lt H(1) by blast
    define m3 where "m3 = (if a = a0 then x1 else m)"
    have "a0 \<in> set as" by (rule chain_head [OF c]) simp
    then have "a \<noteq> b" "a0 \<noteq> b" using b P(1) by auto
    then have m3: "mbufs h3 a = Some m3" using H(6) P(3) by (simp add: m3_def)
    have m3f: "m_len m3 = m_len m" "m_flags m3 = m_flags m" "m_data m3 = m_data m" using H(11) x0(1) P(3) by (auto simp: m3_def)
    have b3: "mbufs h3 b = Some n" using H(6) \<open>a0 \<noteq> b\<close> by simp
    have data: "chain_data h3 zs = chain_data h zs" if "set zs \<subseteq> set as" for zs using H(5) that by (intro chain_data_cong) auto
    have ca: "chain h3 (Some a) (a # cs)" using H(4) P(1) chain_suffix by blast
    let ?d = "chain_data h (a # cs)"
    have da: "chain_data h3 (a # cs) = ?d" by (rule data) (auto simp: P(1))
    have dbs: "chain_data h3 bs = chain_data h bs" by (rule data) (auto simp: P(1))
    have result: "split_into h ?N (Some a0) as (chain_data h as) len0 r h'" if "split_into h3 ?N (Some a) (a # cs) ?d k r h'" for r h'
    proof -
      have "split_into h3 ?N (Some a0) (bs @ a # cs) (chain_data h3 (bs @ a # cs)) (length (chain_data h3 bs) + k) r h'"
        using split_prefix [OF H(2) H(4) [unfolded P(1)] N] that da by simp
      then have "split_into h3 ?N (Some a0) as (chain_data h as) len0 r h'" 
        using data [of as] dbs P(1,5) by (simp del: chain_data_simps)
      then show ?thesis by (rule split_from [OF H(3), rotated]) (use H(1,6) \<open>a0 \<in> set as\<close> in auto)
    qed
    have aligned: "heap_ok (h3\<lparr>mbufs := (mbufs h3)(b \<mapsto> MH_ALIGN l n)\<rparr>) \<and> frame {b} h3 (h3\<lparr>mbufs := (mbufs h3)(b \<mapsto> MH_ALIGN l n)\<rparr>)" for l
    proof
      have "align_long (MHLEN - l) \<le> MHLEN" using align_long_le [of "MHLEN - l"] by simp
      then have "local_ok h3 b (MH_ALIGN l n)" using heap_local [OF H(2) b3] H(7-10) 
        by (simp add: local_ok_def MH_ALIGN_def MLEN_def MHLEN_def PKTDAT_def)
      then show "heap_ok (h3\<lparr>mbufs := (mbufs h3)(b \<mapsto> MH_ALIGN l n)\<rparr>)"
        by (intro upd_ok [OF H(2) b3]) (use H(8) in \<open>simp_all add: MH_ALIGN_def\<close>)
    qed (rule frame_upd, simp)
    have fresh: "x \<notin> set (a # cs) \<and> mbufs h3 x = None" if "brk h \<le> x" "x \<noteq> b" for x
      using that heap_none [OF ok, of x] H(6) lt [of x] lt [of a0] \<open>a0 \<in> set as\<close> P(1) by auto
    let ?r = "m_len m - k"
    consider "flag m M_EXT" | "\<not> flag m M_EXT" "?r > MHLEN" | "\<not> flag m M_EXT" "?r \<le> MHLEN" by linarith
    then show ?thesis
    proof cases
      case 1
      obtain h' where h': "extpacket b a k ?r h3 = Some (Some b, h')" "split_into h3 {b} (Some a) (a # cs) ?d k (Some b) h'"
        using split_ext [OF H(2) ca m3 b3 H(8,7), of k] b P(1,4) m3f 1 da by auto
      have "split_into h3 ?N (Some a) (a # cs) ?d k (Some b) h'" using h'(2) by (rule split_mono) (use H(1) fresh in auto)
      moreover have "m_split a0 len0 h = Some (Some b, h')"
        using P(2,3) x0 al Some 1 h'(1) H2 by (subst m_split.simps) simp
      ultimately show ?thesis using result by blast
    next
      case 2
      let ?n = "MH_ALIGN 0 n"
      let ?h4 = "h3\<lparr>mbufs := (mbufs h3)(b \<mapsto> ?n)\<rparr>"
      have ok4: "heap_ok ?h4" and f4: "frame {b} h3 ?h4" using aligned [of 0] by simp_all
      have C: "chain ?h4 (Some a) (a # cs)" "chain_data ?h4 (a # cs) = ?d"
        using frame_chain [OF f4 H(2) ok4 ca] b P(1) da by auto
      have m4: "mbufs ?h4 a = Some m3" using m3 \<open>a \<noteq> b\<close> by simp
      have plain: "\<not> flag m3 M_PKTHDR" using heap_local [OF ok P(3)] 2 m3f(2) by (auto simp: local_ok_def MLEN_def MHLEN_def PKTDAT_def)
      have k: "k < m_len m3" using 2(2) m3f(1) by simp
      have b4: "mbufs ?h4 b = Some ?n" "m_len ?n = 0" using H(7) by (simp_all add: MH_ALIGN_def)
      obtain r h' where r: "Option.bind (m_split a k ?h4) (\<lambda>(t, h5). Option.bind (upd_mbuf b (\<lambda>n. n\<lparr>m_next := t\<rparr>) h5) (\<lambda>h6.
            if t = None then map_option (\<lambda>(_, h7). (None, h7)) (m_free b h6)
            else map_option (Pair (Some b)) (upd_mbuf b (\<lambda>n. n\<lparr>m_len := 0\<rparr>) h6))) = Some (r, h')"
          "split_into ?h4 (insert b {x. brk ?h4 \<le> x}) (Some a) (a # cs) ?d k r h'"
        using split_nested [OF ok4 C(1) m4 plain k b4] b P(1) C(2) by auto
      have "brk h \<le> brk h3" using H(3) by (simp add: frame_def)
      then have "split_into ?h4 ?N (Some a) (a # cs) ?d k r h'" by (intro split_mono [OF r(2)]) (use H(1) fresh in auto)
      then have "split_into h3 ?N (Some a) (a # cs) ?d k r h'" by (rule split_from [OF f4, rotated]) (simp_all add: H(1))
      moreover have "upd_mbuf b (MH_ALIGN 0) h3 = Some ?h4" using b3 by (rule upd_mbuf_eq)
      then have "m_split a0 len0 h = Some (r, h')"
        using P(2,3) x0 al Some 2 r(1) H2 by (subst m_split.simps) simp
      ultimately show ?thesis using result by blast
    next
      case 3
      let ?n = "MH_ALIGN ?r n"
      let ?h4 = "h3\<lparr>mbufs := (mbufs h3)(b \<mapsto> ?n)\<rparr>"
      have ok4: "heap_ok ?h4" and f4: "frame {b} h3 ?h4" using aligned [of ?r] by simp_all
      have C: "chain ?h4 (Some a) (a # cs)" "chain_data ?h4 (a # cs) = ?d"
        using frame_chain [OF f4 H(2) ok4 ca] b P(1) da by auto
      have m4: "mbufs ?h4 a = Some m3" using m3 \<open>a \<noteq> b\<close> by simp
      have b4: "mbufs ?h4 b = Some ?n" "\<not> flag ?n M_EXT" "m_len ?n = 0" using H(7,8) by (simp_all add: MH_ALIGN_def)
      have room: "m_data ?n + ?r \<le> MLEN"
        using H(10) 3(2) align_long_le [of "MHLEN - ?r"] by (simp add: MH_ALIGN_def MLEN_def MHLEN_def PKTDAT_def)
      obtain h' where h': "extpacket b a k ?r ?h4 = Some (Some b, h')" "split_into ?h4 {b} (Some a) (a # cs) ?d k (Some b) h'"
        using split_ext [OF ok4 C(1) m4 b4, of k] b P(1,4) m3f(1) room C(2) by auto
      have "split_into ?h4 ?N (Some a) (a # cs) ?d k (Some b) h'" using h'(2) by (rule split_mono) (use H(1) fresh in auto)
      then have "split_into h3 ?N (Some a) (a # cs) ?d k (Some b) h'" by (rule split_from [OF f4, rotated]) (simp_all add: H(1))
      moreover have "upd_mbuf b (MH_ALIGN ?r) h3 = Some ?h4" using b3 by (rule upd_mbuf_eq)
      then have "m_split a0 len0 h = Some (Some b, h')"
        using P(2,3) x0 al Some 3 h'(1) H2 by (subst m_split.simps) simp
      ultimately show ?thesis using result by blast
    qed
  qed
qed

end
