(* ===== verification/Mbuf_Pullup.thy ===== *)
theory Mbuf_Pullup
  imports Mbuf_Edit
begin

text \<open>
  Making the first bytes of a chain contiguous: the copying loop ends and keeps the contents.
\<close>

text \<open>Moving bytes from the front of one mbuf to the end of another.\<close>

lemma pullup_move:
  assumes ok: "heap_ok h" and m: "mbufs h a = Some m" "\<not> flag m M_EXT" and n: "mbufs h b = Some n" and ab: "a \<noteq> b"
    and k: "k \<le> m_len n" "m_data m + m_len m + k \<le> MLEN"
  obtains h1 h2 h3 m' n' where "copy_from h b 0 k = Some (take k (mbytes h b))" "copy_to a (m_len m) (take k (mbytes h b)) h = Some h1"
    "upd_mbuf a (\<lambda>m. m\<lparr>m_len := m_len m + k\<rparr>) h1 = Some h2" "upd_mbuf b (\<lambda>n. n\<lparr>m_len := m_len n - k\<rparr>) h2 = Some h3"
    "heap_ok h3" "frame {a, b} h h3" "brk h3 = brk h" "mbufs h3 = (mbufs h)(a \<mapsto> m', b \<mapsto> n')" "n' = n\<lparr>m_len := m_len n - k\<rparr>"
    "m_next m' = m_next m" "m_len m' = m_len m + k" "m_data m' = m_data m" "m_flags m' = m_flags m" "m_type m' = m_type m"
    "mbytes h3 a = mbytes h a @ take k (mbytes h b)"
    "heap_ok (h3\<lparr>mbufs := (mbufs h3)(b \<mapsto> n'\<lparr>m_data := m_data n + k\<rparr>)\<rparr>)"
    "mbytes (h3\<lparr>mbufs := (mbufs h3)(b \<mapsto> n'\<lparr>m_data := m_data n + k\<rparr>)\<rparr>) b = drop k (mbytes h b)"
proof -
  let ?xs = "take k (mbytes h b)"
  have lb: "length (mbytes h b) = m_len n" by (rule length_mbytes [OF ok n])
  have xs: "length ?xs = k" using lb k(1) by simp
  have cf: "copy_from h b 0 k = Some ?xs" using copy_from_ok [OF ok n, of 0 k] k(1) by simp
  have room: "m_data m + m_len m + length ?xs \<le> MLEN" using xs k(2) by simp
  obtain h2 m2 where A: "Option.bind (copy_to a (m_len m) ?xs h) (upd_mbuf a (\<lambda>m. m\<lparr>m_len := m_len m + length ?xs\<rparr>)) = Some h2"
    "heap_ok h2" "frame {a} h h2" "brk h2 = brk h" "mbufs h2 = (mbufs h)(a \<mapsto> m2)" "m_next m2 = m_next m" "m_pkthdr m2 = m_pkthdr m"
    "m_flags m2 = m_flags m" "mbytes h2 a = mbytes h a @ ?xs" "m_data m2 = m_data m" "m_len m2 = m_len m + length ?xs" "m_type m2 = m_type m"
    by (rule append_ok [OF ok m room])
  then obtain h1 where h1: "copy_to a (m_len m) ?xs h = Some h1" "upd_mbuf a (\<lambda>m. m\<lparr>m_len := m_len m + k\<rparr>) h1 = Some h2"
    using xs by (auto simp: bind_Some_iff)
  have b2: "mbufs h2 b = Some n" using A(5) n ab by simp
  let ?n = "n\<lparr>m_len := m_len n - k\<rparr>"
  let ?h3 = "h2\<lparr>mbufs := (mbufs h2)(b \<mapsto> ?n)\<rparr>"
  let ?h4 = "?h3\<lparr>mbufs := (mbufs ?h3)(b \<mapsto> ?n\<lparr>m_data := m_data n + k\<rparr>)\<rparr>"
  have ok3: "heap_ok ?h3" using shrink_ok(1) [OF A(2) b2, of "m_data n" "m_len n - k"] by simp
  have ok4: "heap_ok ?h4" using shrink_ok(1) [OF A(2) b2, of "m_data n + k" "m_len n - k"] k(1) by simp
  have bb: "mbytes h2 b = mbytes h b" using frame_bytes [OF A(3) ok A(2) n] ab by simp
  have b4: "mbytes ?h4 b = drop k (mbytes h b)"
    using shrink_ok(2) [OF A(2) b2, of "m_data n + k" "m_len n - k"] k(1) bb lb by simp
  have a3: "mbytes ?h3 a = mbytes h a @ ?xs" using A(9) ab by (simp add: mbytes_other)
  have f: "frame {a, b} h ?h3" by (rule frame_trans [OF frame_mono [OF A(3)] frame_upd [of b "{b}"]]) auto
  show thesis
    by (rule that [of h1 h2 ?h3 m2 ?n, OF cf h1(1) h1(2) _ ok3 f])
      (use A b2 xs a3 ok4 b4 in \<open>simp_all add: upd_mbuf_def\<close>)
qed

text \<open>What the loop leaves: \<open>a\<close> has taken bytes from the front of the chain at \<open>b\<close>.\<close>

definition pulled :: "mheap \<Rightarrow> nat \<Rightarrow> mbuf \<Rightarrow> nat list \<Rightarrow> nat \<Rightarrow> nat \<Rightarrow> nat option \<Rightarrow> mheap \<Rightarrow> bool" where
  "pulled h a m bs len left n h' \<longleftrightarrow> heap_ok h' \<and> frame (insert a (set bs)) h h' \<and> brk h' = brk h \<and>
     (\<exists>m' cs. mbufs h' a = Some m' \<and> m_next m' = m_next m \<and> m_flags m' = m_flags m \<and> m_len m + (len - left) \<le> m_len m' \<and>
        chain h' n cs \<and> set cs \<subseteq> set bs \<and> (\<forall>x \<in> set bs - set cs. mbufs h' x = None) \<and>
        mbytes h' a @ chain_data h' cs = mbytes h a @ chain_data h bs) \<and>
     (if len \<le> length (chain_data h bs) then left = 0 else 0 < left \<and> n = None)"

lemma pullup_loop_step:
  assumes "mbufs h a = Some m" "mbufs h b = Some n" "count = min (min (max len max_protohdr) space) (m_len n)"
    and "copy_from h b 0 count = Some xs" "copy_to a (m_len m) xs h = Some h1"
    "upd_mbuf a (\<lambda>m. m\<lparr>m_len := m_len m + count\<rparr>) h1 = Some h2" "upd_mbuf b (\<lambda>n. n\<lparr>m_len := m_len n - count\<rparr>) h2 = Some h3"
  shows "pullup_loop a b len space h =
    Option.bind (if m_len n - count \<noteq> 0
                 then map_option (Pair (Some b)) (upd_mbuf b (\<lambda>n. n\<lparr>m_data := m_data n + count\<rparr>) h3)
                 else m_free b h3) (\<lambda>(n', h4).
      case n' of None \<Rightarrow> Some (len - count, None, h4)
      | Some b' \<Rightarrow> if len - count > 0 then pullup_loop a b' (len - count) (space - count) h4 else Some (len - count, Some b', h4))"
  using assms(1,2,4-) unfolding assms(3) by (subst pullup_loop.simps) (simp add: Let_def)

lemma pulled_more:
  assumes ok: "heap_ok h" and m4: "mbufs h4 a = Some m4" "m_next m4 = m_next m" "m_flags m4 = m_flags m" "m_len m4 = m_len m + k"
    and f: "frame {a, b} h h4" "brk h4 = brk h" and b4: "mbufs h4 b = None" and b: "b \<notin> set bs" "a \<noteq> b"
    and d: "mbytes h4 a @ chain_data h4 bs = mbytes h a @ chain_data h (b # bs)"
    and len: "length (chain_data h (b # bs)) = k + length (chain_data h4 bs)" "k \<le> len"
    and p: "pulled h4 a m4 bs (len - k) left n h'"
  shows "pulled h a m (b # bs) len left n h'"
proof -
  have P: "heap_ok h'" "frame (insert a (set bs)) h4 h'" "brk h' = brk h4" using p by (simp_all add: pulled_def)
  obtain m' cs where M: "mbufs h' a = Some m'" "m_next m' = m_next m4" "m_flags m' = m_flags m4" "m_len m4 + (len - k - left) \<le> m_len m'"
      "chain h' n cs" "set cs \<subseteq> set bs" "\<forall>x \<in> set bs - set cs. mbufs h' x = None" "mbytes h' a @ chain_data h' cs = mbytes h4 a @ chain_data h4 bs"
    using p unfolding pulled_def by blast
  have left: "if len - k \<le> length (chain_data h4 bs) then left = 0 else 0 < left \<and> n = None" using p by (simp add: pulled_def)
  have f': "frame (insert a (set (b # bs))) h h'" by (rule frame_trans [OF frame_mono [OF f(1)] P(2)]) auto
  have "b < brk h4 \<or> brk h4 \<le> b" by linarith
  then have "mbufs h' b = None"
  proof
    assume "b < brk h4"
    then show ?thesis using P(2) b b4 by (simp add: frame_def)
  next
    assume "brk h4 \<le> b"
    then show ?thesis using heap_lt [OF P(1), of b] P(3) by (cases "mbufs h' b") auto
  qed
  then have "\<forall>x \<in> set (b # bs) - set cs. mbufs h' x = None" using M(7) by auto
  then show ?thesis unfolding pulled_def using P f f' M m4 d left len
    by (intro conjI exI [of _ m'] exI [of _ cs]) (auto split: if_splits)
qed

text \<open>One round of the loop.\<close>

lemma pullup_round:
  assumes ok: "heap_ok h" and m: "mbufs h a = Some m" "\<not> flag m M_EXT" and c: "chain h (Some b) (b # bs)" and a: "a \<notin> set (b # bs)"
    and space: "space = MLEN - (m_data m + m_len m)" "len \<le> space"
  obtains h4 where "pullup_loop a b len space h = Some (0, Some b, h4)" "pulled h a m (b # bs) len 0 (Some b) h4"
  | n k m4 h4 where "mbufs h b = Some n" "k = m_len n" "pullup_loop a b len space h = (case m_next n of None \<Rightarrow> Some (len - k, None, h4)
      | Some b' \<Rightarrow> if len - k > 0 then pullup_loop a b' (len - k) (space - k) h4 else Some (len - k, Some b', h4))"
    "heap_ok h4" "frame {a, b} h h4" "brk h4 = brk h" "mbufs h4 a = Some m4" "mbufs h4 b = None" "chain h4 (m_next n) bs"
    "m_next m4 = m_next m" "m_flags m4 = m_flags m" "m_len m4 = m_len m + k" "m_data m4 = m_data m"
    "mbytes h4 a @ chain_data h4 bs = mbytes h a @ chain_data h (b # bs)" "length (chain_data h (b # bs)) = k + length (chain_data h4 bs)" "k \<le> space"
proof -
  obtain n where n: "mbufs h b = Some n" "chain h (m_next n) bs" using c by auto
  have ab: "a \<noteq> b" "a \<notin> set bs" using a by auto
  have b: "b \<notin> set bs" using chain_distinct [OF c] by simp
  have lm: "m_data m + m_len m \<le> MLEN" using heap_local [OF ok m(1)] m(2) by (simp add: local_ok_def)
  have lb: "length (mbytes h b) = m_len n" by (rule length_mbytes [OF ok n(1)])
  define k where "k = min (min (max len max_protohdr) space) (m_len n)"
  have k: "k \<le> m_len n" "m_data m + m_len m + k \<le> MLEN" "k \<le> space" using space(1) lm by (auto simp: k_def)
  obtain h1 h2 h3 m3 n3 where M: "copy_from h b 0 k = Some (take k (mbytes h b))" "copy_to a (m_len m) (take k (mbytes h b)) h = Some h1"
    "upd_mbuf a (\<lambda>m. m\<lparr>m_len := m_len m + k\<rparr>) h1 = Some h2" "upd_mbuf b (\<lambda>n. n\<lparr>m_len := m_len n - k\<rparr>) h2 = Some h3"
    "heap_ok h3" "frame {a, b} h h3" "brk h3 = brk h" "mbufs h3 = (mbufs h)(a \<mapsto> m3, b \<mapsto> n3)" "n3 = n\<lparr>m_len := m_len n - k\<rparr>"
    "m_next m3 = m_next m" "m_len m3 = m_len m + k" "m_data m3 = m_data m" "m_flags m3 = m_flags m" "m_type m3 = m_type m"
    "mbytes h3 a = mbytes h a @ take k (mbytes h b)"
    "heap_ok (h3\<lparr>mbufs := (mbufs h3)(b \<mapsto> n3\<lparr>m_data := m_data n + k\<rparr>)\<rparr>)"
    "mbytes (h3\<lparr>mbufs := (mbufs h3)(b \<mapsto> n3\<lparr>m_data := m_data n + k\<rparr>)\<rparr>) b = drop k (mbytes h b)"
    by (rule pullup_move [OF ok m n(1) ab(1) k(1,2)])
  note step = pullup_loop_step [OF m(1) n(1) k_def M(1-4)]
  have b3: "mbufs h3 b = Some n3" using M(8) by simp
  show thesis
  proof (cases "m_len n - k = 0")
    case False
    let ?h4 = "h3\<lparr>mbufs := (mbufs h3)(b \<mapsto> n3\<lparr>m_data := m_data n + k\<rparr>)\<rparr>"
    have "len \<le> k" using False space(2) by (auto simp: k_def min_def max_def split: if_splits)
    then have loop: "pullup_loop a b len space h = Some (0, Some b, ?h4)"
      using step False b3 M(9) by (simp add: upd_mbuf_eq)
    have f4: "frame {a, b} h ?h4" by (rule frame_trans [OF M(6) frame_upd [of b "{b}"]]) auto
    have "chain ?h4 (m_next n) bs" "chain_data ?h4 bs = chain_data h bs"
      using frame_chain [OF f4 ok M(16) n(2)] ab b by auto
    moreover have "mbytes ?h4 a = mbytes h a @ take k (mbytes h b)" using M(15) ab(1) by (simp add: mbytes_other)
    moreover have "chain ?h4 (Some b) (b # bs)" using calculation(1) M(9) by simp
    ultimately have "pulled h a m (b # bs) len 0 (Some b) ?h4"
      unfolding pulled_def using M(7,8,10,11,13,16,17) f4 ab(1) \<open>len \<le> k\<close> k(1) lb
      by (intro conjI exI [of _ m3] exI [of _ "b # bs"]) (auto elim: frame_mono)
    then show thesis using that(1) [OF loop] by blast
  next
    case True
    then have kn: "k = m_len n" using k(1) by simp
    obtain h4 where F: "m_free b h3 = Some (m_next n3, h4)" "heap_ok h4" "frame {b} h3 h4" "mbufs h4 = (mbufs h3)(b := None)" "brk h4 = brk h3"
      by (rule m_free_ok [OF M(5) b3])
    have f4: "frame {a, b} h h4" by (rule frame_trans [OF M(6) F(3)]) auto
    have C: "chain h4 (m_next n) bs" "chain_data h4 bs = chain_data h bs"
      using frame_chain [OF f4 ok F(2) n(2)] ab b by auto
    have a3: "mbufs h3 a = Some m3" using M(8) ab(1) by simp
    have "mbytes h4 a = mbytes h a @ mbytes h b" using frame_bytes [OF F(3) M(5) F(2) a3] ab(1) M(15) kn lb by simp
    moreover have "pullup_loop a b len space h = (case m_next n of None \<Rightarrow> Some (len - k, None, h4)
      | Some b' \<Rightarrow> if len - k > 0 then pullup_loop a b' (len - k) (space - k) h4 else Some (len - k, Some b', h4))"
      using step True F(1) M(9) by simp
    ultimately show thesis
      using that(2) [OF n(1) kn _ F(2) f4 _ _ _ C(1), of m3] M(7,8,10-13) F(4,5) C(2) ab(1) k(3) lb kn by simp
  qed
qed

lemma pullup_loop_ok:
  assumes "heap_ok h" "mbufs h a = Some m" "\<not> flag m M_EXT" "chain h (Some b) (b # bs)" "a \<notin> set (b # bs)"
    and "space = MLEN - (m_data m + m_len m)" "len \<le> space"
  shows "\<exists>left n h'. pullup_loop a b len space h = Some (left, n, h') \<and> pulled h a m (b # bs) len left n h'"
  using assms
proof (induction bs arbitrary: b h m len space)
  case Nil
  show ?case
  proof (rule pullup_round [OF Nil.prems])
    fix h4 assume "pullup_loop a b len space h = Some (0, Some b, h4)" "pulled h a m [b] len 0 (Some b) h4"
    then show ?thesis by blast
  next
    fix n k m4 h4
    assume n: "mbufs h b = Some n" "k = m_len n" and l: "pullup_loop a b len space h = (case m_next n of None \<Rightarrow> Some (len - k, None, h4)
        | Some b' \<Rightarrow> if len - k > 0 then pullup_loop a b' (len - k) (space - k) h4 else Some (len - k, Some b', h4))"
      and R: "heap_ok h4" "frame {a, b} h h4" "brk h4 = brk h" "mbufs h4 a = Some m4" "mbufs h4 b = None" "chain h4 (m_next n) []"
      "m_next m4 = m_next m" "m_flags m4 = m_flags m" "m_len m4 = m_len m + k"
      "mbytes h4 a @ chain_data h4 [] = mbytes h a @ chain_data h [b]" "length (chain_data h [b]) = k + length (chain_data h4 [])"
    have "pulled h a m [b] len (len - k) None h4"
      unfolding pulled_def using R by (intro conjI exI [of _ m4] exI [of _ "[]"]) auto
    then show ?thesis using l R(6) by simp
  qed
next
  case (Cons c bs)
  show ?case
  proof (rule pullup_round [OF Cons.prems])
    fix h4 assume "pullup_loop a b len space h = Some (0, Some b, h4)" "pulled h a m (b # c # bs) len 0 (Some b) h4"
    then show ?thesis by blast
  next
    fix n k m4 h4
    assume n: "mbufs h b = Some n" "k = m_len n" and l: "pullup_loop a b len space h = (case m_next n of None \<Rightarrow> Some (len - k, None, h4)
        | Some b' \<Rightarrow> if len - k > 0 then pullup_loop a b' (len - k) (space - k) h4 else Some (len - k, Some b', h4))"
      and R: "heap_ok h4" "frame {a, b} h h4" "brk h4 = brk h" "mbufs h4 a = Some m4" "mbufs h4 b = None" "chain h4 (m_next n) (c # bs)"
      "m_next m4 = m_next m" "m_flags m4 = m_flags m" "m_len m4 = m_len m + k" "m_data m4 = m_data m"
      "mbytes h4 a @ chain_data h4 (c # bs) = mbytes h a @ chain_data h (b # c # bs)"
      "length (chain_data h (b # c # bs)) = k + length (chain_data h4 (c # bs))" "k \<le> space"
    have nx: "m_next n = Some c" using R(6) by simp
    have ab: "a \<noteq> b" "a \<notin> set (c # bs)" "b \<notin> set (c # bs)" using Cons.prems(5) chain_distinct [OF Cons.prems(4)] by auto
    show ?thesis
    proof (cases "len - k > 0")
      case True
      have "\<exists>left n h'. pullup_loop a c (len - k) (space - k) h4 = Some (left, n, h') \<and> pulled h4 a m4 (c # bs) (len - k) left n h'"
        by (rule Cons.IH [OF R(1,4)]) (use R(6,8-10,13) nx Cons.prems(3,6,7) ab(2) in auto)
      then obtain left n' h' where r: "pullup_loop a c (len - k) (space - k) h4 = Some (left, n', h')"
          "pulled h4 a m4 (c # bs) (len - k) left n' h'" by blast
      have "k \<le> len" using True by simp
      then have "pulled h a m (b # c # bs) len left n' h'"
        using pulled_more [OF Cons.prems(1) R(4,7-9) R(2,3,5) ab(3,1) R(11,12) _ r(2)] by simp
      then show ?thesis using l nx True r(1) by auto
    next
      case False
      have "pulled h a m (b # c # bs) len 0 (Some c) h4"
        unfolding pulled_def using R nx False by (intro conjI exI [of _ m4] exI [of _ "c # bs"]) (auto elim: frame_mono)
      then show ?thesis using l nx False by auto
    qed
  qed
qed

text \<open>The outcome for a chain with contents \<open>d\<close> made of the mbufs \<open>S\<close>.\<close>

definition pulled_up :: "mheap \<Rightarrow> nat set \<Rightarrow> bytes \<Rightarrow> nat \<Rightarrow> nat option \<Rightarrow> mheap \<Rightarrow> bool" where
  "pulled_up h S d len r h' \<longleftrightarrow> heap_ok h' \<and> frame S h h' \<and>
     (case r of
        None \<Rightarrow> \<forall>x. mbufs h' x = (if x \<in> S then None else mbufs h x)
      | Some b \<Rightarrow> \<exists>zs m. chain h' r (b # zs) \<and> chain_data h' (b # zs) = d \<and> mbufs h' b = Some m \<and> len \<le> m_len m \<and> \<not> flag m M_EXT \<and>
          set (b # zs) \<subseteq> S \<union> {x. brk h \<le> x} \<and> (\<forall>x. x \<notin> set (b # zs) \<longrightarrow> mbufs h' x = (if x \<in> S then None else mbufs h x)))"

lemma pullup_bad_ok:
  assumes "heap_ok h" "chain h p as"
  shows "\<exists>h'. pullup_bad p h = Some (None, h') \<and> heap_ok h' \<and> frame (set as) h h' \<and> (\<forall>x. mbufs h' x = (if x \<in> set as then None else mbufs h x))"
proof -
  obtain h1 where "m_freem p h = Some h1" "heap_ok h1" "frame (set as) h h1" "mbufs h1 = mbufs h |` (- set as)"
    by (rule m_freem_ok [OF assms])
  then show ?thesis by (simp add: pullup_bad_def restrict_map_def)
qed

lemma pullup_into_ok:
  assumes ok: "heap_ok h" and m: "mbufs h a = Some m" "\<not> flag m M_EXT" and c: "chain h (Some b) (b # bs)" and a: "a \<notin> set (b # bs)"
    and len: "len \<le> MLEN - (m_data m + m_len m)"
  shows "\<exists>r h'. pullup_into a b len h = Some (r, h') \<and>
    pulled_up h (insert a (set (b # bs))) (mbytes h a @ chain_data h (b # bs)) (m_len m + len) r h' \<and>
    (r = None \<longleftrightarrow> length (chain_data h (b # bs)) < len)"
proof -
  let ?S = "insert a (set (b # bs))"
  obtain left n h1 where L: "pullup_loop a b len (MLEN - (m_data m + m_len m)) h = Some (left, n, h1)" "pulled h a m (b # bs) len left n h1"
    using pullup_loop_ok [OF ok m c a refl len] by blast
  then have ok1: "heap_ok h1" and f1: "frame ?S h h1" by (simp_all add: pulled_def)
  obtain m' cs where M: "mbufs h1 a = Some m'" "m_next m' = m_next m" "m_flags m' = m_flags m" "m_len m + (len - left) \<le> m_len m'"
      "chain h1 n cs" "set cs \<subseteq> set (b # bs)" "\<forall>x \<in> set (b # bs) - set cs. mbufs h1 x = None"
      "mbytes h1 a @ chain_data h1 cs = mbytes h a @ chain_data h (b # bs)"
    using L(2) unfolding pulled_def by blast
  show ?thesis
  proof (cases "len \<le> length (chain_data h (b # bs))")
    case True
    then have left: "left = 0" using L(2) by (simp add: pulled_def)
    let ?m = "m'\<lparr>m_next := n\<rparr>"
    let ?h = "h1\<lparr>mbufs := (mbufs h1)(a \<mapsto> ?m)\<rparr>"
    have ok': "heap_ok ?h" by (rule upd_ok [OF ok1 M(1)]) (use heap_local [OF ok1 M(1)] in simp_all)
    have "a \<notin> set cs" using a M(6) by blast
    then have C: "chain ?h n cs" "chain_data ?h cs = chain_data h1 cs"
      using frame_chain [OF frame_upd [of a "{a}"] ok1 ok' M(5)] by simp_all
    have "mbytes ?h a = mbytes h1 a" using M(1) by (simp add: mbytes_def)
    then have "chain_data ?h (a # cs) = mbytes h a @ chain_data h (b # bs)" using C(2) M(8) by simp
    moreover have f: "frame ?S h ?h" by (rule frame_trans [OF f1 frame_upd [of a "{a}"]]) auto
    moreover have "mbufs ?h x = (if x \<in> ?S then None else mbufs h x)" if x: "x \<notin> set (a # cs)" for x
    proof (cases "x \<in> ?S")
      case True
      then show ?thesis using M(7) x by simp
    next
      case False
      have "brk ?h = brk h" using L(2) by (simp add: pulled_def)
      from frame_outside [OF f ok ok' this False] show ?thesis using False by simp
    qed
    moreover have "set (a # cs) \<subseteq> ?S \<union> {x. brk h \<le> x}" using M(6) by auto
    moreover have "chain ?h (Some a) (a # cs)" "mbufs ?h a = Some ?m" "m_len m + len \<le> m_len ?m" "\<not> flag ?m M_EXT"
      using C(1) M(3,4) m(2) left by simp_all
    ultimately have "pulled_up h ?S (mbytes h a @ chain_data h (b # bs)) (m_len m + len) (Some a) ?h"
      unfolding pulled_up_def option.case using ok' by blast
    moreover have "pullup_into a b len h = Some (Some a, ?h)" using m(1) L(1) left M(1) by (simp add: pullup_into_def upd_mbuf_def)
    ultimately show ?thesis using True by auto
  next
    case False
    then have left: "0 < left" "n = None" using L(2) by (simp_all add: pulled_def split: if_splits)
    then have cs: "cs = []" using M(5) by (cases cs) auto
    obtain h2 where F: "m_free a h1 = Some (m_next m', h2)" "heap_ok h2" "frame {a} h1 h2" "mbufs h2 = (mbufs h1)(a := None)" "brk h2 = brk h1"
      by (rule m_free_ok [OF ok1 M(1)])
    have "pullup_into a b len h = Some (None, h2\<lparr>m_mpfail := m_mpfail h2 + 1\<rparr>)"
      using m(1) L(1) left F(1) by (simp add: pullup_into_def pullup_bad_def)
    moreover have f2: "frame ?S h h2" by (rule frame_trans [OF f1 F(3)]) auto
    have "mbufs h2 x = mbufs h x" if "x \<notin> ?S" for x
    proof (rule frame_outside [OF f2 ok F(2) _ that])
      show "brk h2 = brk h" using L(2) F(5) by (simp add: pulled_def)
    qed
    then have "pulled_up h ?S d l None (h2\<lparr>m_mpfail := m_mpfail h2 + 1\<rparr>)" for d l
      unfolding pulled_up_def using F(2,4) M(7) cs f2 by simp
    ultimately show ?thesis using False by simp
  qed
qed

text \<open>A new mbuf takes over the packet header.\<close>

lemma move_pkthdr_ok:
  assumes ok: "heap_ok h" and m: "mbufs h a = Some m" "flag m M_PKTHDR" and n: "mbufs h b = Some n" "\<not> flag n M_EXT" "m_len n = 0" and ab: "a \<noteq> b"
  obtains h' n' m' where "m_move_pkthdr b a h = Some h'" "heap_ok h'" "frame {a, b} h h'" "brk h' = brk h" "mbufs h' = (mbufs h)(b \<mapsto> n', a \<mapsto> m')"
    "\<not> flag n' M_EXT" "m_len n' = 0" "m_data n' = PKTDAT" "mbytes h' a = mbytes h a" "m_next m' = m_next m"
proof -
  let ?n = "(hdr_flags m n)\<lparr>m_pkthdr := m_pkthdr m\<rparr>"
  let ?m = "m\<lparr>m_pkthdr := (m_pkthdr m)\<lparr>ph_tags := []\<rparr>, m_flags := m_flags m AND NOT M_PKTHDR\<rparr>"
  let ?h1 = "h\<lparr>mbufs := (mbufs h)(b \<mapsto> ?n)\<rparr>"
  let ?h2 = "?h1\<lparr>mbufs := (mbufs ?h1)(a \<mapsto> ?m)\<rparr>"
  note f = hdr_flags_fields [OF n(2), of m]
  have tags: "ph_tags (m_pkthdr m) = []" using heap_local [OF ok m(1)] m(2) by (simp add: local_ok_def)
  have "local_ok h b ?n" using heap_local [OF ok n(1)] f n(3) tags m(2) by (simp add: local_ok_def MLEN_def MHLEN_def PKTDAT_def)
  moreover have ext: "\<not> flag ?n M_EXT" using f(1) by (simp add: flag_def)
  ultimately have ok1: "heap_ok ?h1" using n(2) by (intro upd_ok [OF ok n(1)]) simp_all
  have a1: "mbufs ?h1 a = Some m" using m(1) ab by simp
  have "local_ok ?h1 a ?m" using heap_local [OF ok1 a1] m(2) by (simp add: local_ok_def bit_simps split: if_splits)
  then have ok2: "heap_ok ?h2" by (intro upd_ok [OF ok1 a1]) (simp_all add: bit_simps)
  have eq: "m_move_pkthdr b a h = Some ?h2" using m(1) n(1) ab by (simp add: m_move_pkthdr_def upd_mbuf_def)
  have "mbytes ?h2 a = mbytes h a" using m(1) by (simp add: mbytes_def buffer_def bit_simps)
  moreover have "frame {a, b} h ?h2"
    by (rule frame_trans [OF frame_upd [of b "{a, b}"] frame_upd [of a "{a}"]]) simp_all
  ultimately show thesis
    by (intro that [of ?h2 ?n ?m, OF eq ok2]) (use f n(3) in simp_all)
qed

lemma pullup_new_ok:
  assumes ok: "heap_ok h" and c: "chain h (Some a) as" and n: "mbufs h a = Some n"
  shows "\<exists>r h'. pullup_new a n len h = Some (r, h') \<and> pulled_up h (set as) (chain_data h as) len r h' \<and>
    (r = None \<longrightarrow> length (chain_data h as) < len \<or> MHLEN < len \<or> new_mbuf h (brk h) = None)"
proof -
  have bad: "\<exists>h'. pullup_bad (Some a) h1 = Some (None, h') \<and> pulled_up h (set as) (chain_data h as) len None h'"
    if h1: "heap_ok h1" "frame {} h h1" "mbufs h1 = mbufs h" for h1
  proof -
    have "chain h1 (Some a) as" using frame_chain(1) [OF h1(2) ok h1(1) c] by simp
    then obtain h' where "pullup_bad (Some a) h1 = Some (None, h')" "heap_ok h'" "frame (set as) h1 h'"
        "\<forall>x. mbufs h' x = (if x \<in> set as then None else mbufs h1 x)"
      using pullup_bad_ok [OF h1(1)] by blast
    moreover from this have "frame (set as) h h'" by (intro frame_trans [OF frame_mono [OF h1(2)]]) simp_all
    ultimately show ?thesis using h1(3) by (auto simp: pulled_up_def)
  qed
  show ?thesis
  proof (cases "len > MHLEN")
    case True
    then show ?thesis using bad [OF ok frame_refl refl] by (auto simp: pullup_new_def)
  next
    case False
    obtain q h1 where al: "m_get (m_type n) h = (q, h1)" by (rule prod.exhaust)
    then have al': "(if False then m_gethdr (m_type n) h else m_get (m_type n) h) = (q, h1)" by simp
    note A = alloc_cases [OF ok n al']
    show ?thesis
    proof (cases q)
      case None
      then have "new_mbuf h (brk h) = None" using al by (auto simp: m_get_def alloc_mbuf_def split: option.splits)
      moreover have "mbufs h1 = mbufs h" using A(4) None by simp
      ultimately show ?thesis using False al None bad [OF A(1,2)] by (auto simp: pullup_new_def)
    next
      case (Some b)
      then obtain x where x: "b = brk h" "mbufs h1 = (mbufs h)(brk h \<mapsto> x)" "new_ok 0 (m_type n) x" using A(4) by auto
      have lt: "y < brk h" if "y \<in> set as" for y by (rule chain_lt [OF ok c that])
      have b: "b \<notin> set as" using lt x(1) by blast
      obtain as' where as: "as = a # as'" by (rule chain_head [OF c])
      then have ab: "a \<noteq> b" using b by auto
      have b1: "mbufs h1 b = Some x" using x(1,2) by simp
      have a1: "mbufs h1 a = Some n" using x(1,2) n ab by simp
      have xf: "\<not> flag x M_EXT" "m_len x = 0" "m_data x = 0" using x(3) by (simp_all add: new_ok_def)
      have "x\<lparr>m_len := 0\<rparr> = x" using xf(2) by simp
      then have h2: "upd_mbuf b (\<lambda>m. m\<lparr>m_len := 0\<rparr>) h1 = Some h1" using b1 by (simp add: upd_mbuf_def fun_upd_idem)
      obtain h3 x3 where H: "(if flag n M_PKTHDR then m_move_pkthdr b a h1 else Some h1) = Some h3" "heap_ok h3" "frame {a, b} h1 h3"
          "mbufs h3 b = Some x3" "\<not> flag x3 M_EXT" "m_len x3 = 0" "m_data x3 \<le> PKTDAT" "chain h3 (Some a) as" "chain_data h3 as = chain_data h as"
          "\<forall>y. y \<notin> {a, b} \<longrightarrow> mbufs h3 y = mbufs h1 y"
      proof (cases "flag n M_PKTHDR")
        case True
        obtain h' n' m' where M: "m_move_pkthdr b a h1 = Some h'" "heap_ok h'" "frame {a, b} h1 h'" "brk h' = brk h1" "mbufs h' = (mbufs h1)(b \<mapsto> n', a \<mapsto> m')"
            "\<not> flag n' M_EXT" "m_len n' = 0" "m_data n' = PKTDAT" "mbytes h' a = mbytes h1 a" "m_next m' = m_next n"
          by (rule move_pkthdr_ok [OF A(1) a1 True b1 xf(1,2) ab])
        have C: "chain h1 (Some a) as" "chain_data h1 as = chain_data h as" using frame_chain [OF A(2) ok A(1) c] by simp_all
        have "map_option m_next (mbufs h' y) = map_option m_next (mbufs h1 y)" if "y \<in> set as" for y
          using M(5,10) a1 that b by (cases "y = a") auto
        then have "chain h' (Some a) as" by (rule chain_same_next [OF C(1)])
        moreover have "mbytes h' y = mbytes h1 y" if y: "y \<in> set as" for y
        proof (cases "y = a")
          case False
          obtain z where "mbufs h1 y = Some z" using chain_live [OF C(1) y] by blast
          then show ?thesis using frame_bytes [OF M(3) A(1) M(2)] False y b by auto
        qed (use M(9) in simp)
        then have "chain_data h' as = chain_data h1 as" by (rule chain_data_cong)
        ultimately show thesis using True M C(2) ab by (intro that [of h' n']) simp_all
      next
        case False
        then show thesis using A(1) b1 xf frame_chain [OF A(2) ok A(1) c] by (intro that [of h1 x]) simp_all
      qed
      have len: "len \<le> MLEN - (m_data x3 + m_len x3)" using False H(6,7) by (simp add: MLEN_def MHLEN_def PKTDAT_def)
      have into: "\<exists>r h'. pullup_into b a len h3 = Some (r, h') \<and>
          pulled_up h3 (insert b (set (a # as'))) (mbytes h3 b @ chain_data h3 (a # as')) (m_len x3 + len) r h' \<and>
          (r = None \<longleftrightarrow> length (chain_data h3 (a # as')) < len)"
        by (rule pullup_into_ok [OF H(2,4,5)]) (use H(8) as b len in auto)
      have "mbytes h3 b = []" using H(4,6) by (simp add: mbytes_def)
      then obtain r h' where R: "pullup_into b a len h3 = Some (r, h')" "pulled_up h3 (insert b (set as)) (chain_data h as) len r h'"
          "r = None \<longleftrightarrow> length (chain_data h as) < len"
        using into [folded as] H(6,9) by auto
      have "frame {a, b} h h3" by (rule frame_trans [OF frame_mono [OF A(2)] H(3)]) simp_all
      then have "frame (insert b (set as)) h h3" by (rule frame_mono) (simp add: as)
      then have "frame (insert b (set as)) h h'" by (rule frame_trans [of _ _ _ "insert b (set as)"]) (use R(2) in \<open>auto simp: pulled_up_def\<close>)
      then have "frame (set as) h h'" using x(1) by (auto simp: frame_def)
      moreover have gone: "mbufs h' x = (if x \<in> set as then None else mbufs h x)"
        if *: "mbufs h' x = (if x \<in> insert b (set as) then None else mbufs h3 x)" for x
      proof (cases "x \<in> insert b (set as)")
        case True
        then show ?thesis using * b heap_brk [OF ok] x(1) by auto
      next
        case False
        then have "x \<notin> {a, b}" using as by auto
        then have "mbufs h3 x = mbufs h1 x" by (rule H(10) [rule_format])
        then show ?thesis using * x(1,2) False by simp
      qed
      moreover have "brk h \<le> brk h3" using H(3) A(3) by (simp add: frame_def)
      then have sub: "Y \<subseteq> set as \<union> {x. brk h \<le> x}" if "Y \<subseteq> insert b (set as) \<union> {x. brk h3 \<le> x}" for Y using that x(1) by auto
      ultimately have "pulled_up h (set as) (chain_data h as) len r h'"
      proof (cases r)
        case None
        then show ?thesis using R(2) gone \<open>frame (set as) h h'\<close> by (simp add: pulled_up_def)
      next
        case (Some y)
        then obtain zs z where Z: "heap_ok h'" "chain h' r (y # zs)" "chain_data h' (y # zs) = chain_data h as" "mbufs h' y = Some z" "len \<le> m_len z"
            "\<not> flag z M_EXT" "set (y # zs) \<subseteq> insert b (set as) \<union> {x. brk h3 \<le> x}"
            "\<forall>x. x \<notin> set (y # zs) \<longrightarrow> mbufs h' x = (if x \<in> insert b (set as) then None else mbufs h3 x)"
          using R(2) by (auto simp: pulled_up_def simp del: chain_data_simps)
        have "\<forall>x. x \<notin> set (y # zs) \<longrightarrow> mbufs h' x = (if x \<in> set as then None else mbufs h x)" using Z(8) gone by blast
        then show ?thesis unfolding pulled_up_def Some option.case
          using Z(1-6) sub [OF Z(7)] \<open>frame (set as) h h'\<close> Some by (intro conjI exI [of _ zs] exI [of _ z]) simp_all
      qed
      moreover have "pullup_new a n len h = Some (r, h')" using False al Some h2 H(1) R(1) by (simp add: pullup_new_def split: if_splits)
      ultimately show ?thesis using R(3) by blast
    qed
  qed
qed

lemma m_pullup_ok:
  assumes ok: "heap_ok h" and c: "chain h (Some a) as"
  shows "\<exists>r h'. m_pullup a len h = Some (r, h') \<and> pulled_up h (set as) (chain_data h as) len r h' \<and>
    (r = None \<longrightarrow> length (chain_data h as) < len \<or> MHLEN < len \<or> new_mbuf h (brk h) = None)"
proof -
  obtain as' n where n: "mbufs h a = Some n" "as = a # as'" "chain h (m_next n) as'" by (rule chain_head [OF c])
  note new = pullup_new_ok [OF ok c n(1), of len]
  show ?thesis
  proof (cases "m_next n")
    case None
    then show ?thesis using new n(1) by (simp add: m_pullup_def)
  next
    case (Some b)
    then obtain bs where bs: "as' = b # bs" using n(3) by (cases as') auto
    show ?thesis
    proof (cases "\<not> flag n M_EXT \<and> m_data n + len < MLEN")
      case False
      then show ?thesis using new n(1) Some by (auto simp: m_pullup_def)
    next
      case inplace: True
      show ?thesis
      proof (cases "m_len n \<ge> len")
        case True
        have "pulled_up h (set as) (chain_data h as) len (Some a) h" unfolding pulled_up_def using ok c n True inplace by auto
        then show ?thesis using n(1) Some inplace True by (auto simp: m_pullup_def)
      next
        case False
        have "\<exists>r h'. pullup_into a b (len - m_len n) h = Some (r, h') \<and>
            pulled_up h (insert a (set (b # bs))) (mbytes h a @ chain_data h (b # bs)) (m_len n + (len - m_len n)) r h' \<and>
            (r = None \<longleftrightarrow> length (chain_data h (b # bs)) < len - m_len n)"
          by (rule pullup_into_ok [OF ok n(1)]) (use inplace n(3) Some bs chain_distinct [OF c] n(2) False in auto)
        then obtain r h' where "pullup_into a b (len - m_len n) h = Some (r, h')" "pulled_up h (set as) (chain_data h as) len r h'"
            "r = None \<longleftrightarrow> length (chain_data h (b # bs)) < len - m_len n"
          using False n(2) bs by auto
        moreover from this have "r = None \<Longrightarrow> length (chain_data h as) < len" using n(2) bs length_mbytes [OF ok n(1)] by simp
        ultimately show ?thesis using n(1) Some inplace False by (auto simp: m_pullup_def)
      qed
    qed
  qed
qed

end
