(* ===== verification/Crc32c.thy ===== *)
theory Crc32c
  imports Crc32c_Tables Mbuf_Chain
begin

text \<open>
  The CRC-32C routines of \<^verbatim>\<open>netinet/sctp_crc32.c\<close> on a little-endian machine: the single-table
  loop, slicing by eight, and the checksum over an mbuf chain, and their agreement with the
  bit-serial register. A buffer is its address, of which only the alignment matters, and its
  bytes; a read past its end has no result.
\<close>

section \<open>The routines\<close>

fun byte_loop :: "u32 list \<Rightarrow> nat \<Rightarrow> u32 \<Rightarrow> bytes \<Rightarrow> (u32 \<times> bytes) option" where
  "byte_loop tab 0 crc p = Some (crc, p)"
| "byte_loop tab (Suc n) crc [] = None"
| "byte_loop tab (Suc n) crc (b # p) =
     byte_loop tab n (tab ! unat ((crc XOR ucast b) AND 0xFF) XOR drop_bit 8 crc) p"

fun read_le32 :: "bytes \<Rightarrow> (u32 \<times> bytes) option" where
  "read_le32 (a # b # c # d # p) =
     Some (ucast a OR push_bit 8 (ucast b) OR push_bit 16 (ucast c) OR push_bit 24 (ucast d), p)"
| "read_le32 _ = None"

definition sb8_block :: "u32 \<Rightarrow> bytes \<Rightarrow> (u32 \<times> bytes) option" where
  "sb8_block crc0 p_buf = do {
     (w1, p1) \<leftarrow> read_le32 p_buf;
     let crc1 = crc0 XOR w1;
     let term1 = sctp_crc_tableil8_o88 ! unat (crc1 AND 0xFF) XOR
                 sctp_crc_tableil8_o80 ! unat (drop_bit 8 crc1 AND 0xFF);
     let term2 = drop_bit 16 crc1;
     let crc2 = term1 XOR sctp_crc_tableil8_o72 ! unat (term2 AND 0xFF) XOR
                sctp_crc_tableil8_o64 ! unat (drop_bit 8 term2 AND 0xFF);
     (w2, p2) \<leftarrow> read_le32 p1;
     let term1' = sctp_crc_tableil8_o56 ! unat (w2 AND 0xFF) XOR
                  sctp_crc_tableil8_o48 ! unat (drop_bit 8 w2 AND 0xFF);
     let term2' = drop_bit 16 w2;
     Some (crc2 XOR term1' XOR sctp_crc_tableil8_o40 ! unat (term2' AND 0xFF) XOR
           sctp_crc_tableil8_o32 ! unat (drop_bit 8 term2' AND 0xFF), p2)
   }"

fun block_loop :: "nat \<Rightarrow> u32 \<Rightarrow> bytes \<Rightarrow> (u32 \<times> bytes) option" where
  "block_loop 0 crc p = Some (crc, p)"
| "block_loop (Suc n) crc p = do { (crc', p') \<leftarrow> sb8_block crc p; block_loop n crc' p' }"

definition sctp_crc32c_sb8_64_bit :: "u32 \<Rightarrow> bytes \<Rightarrow> u32 \<Rightarrow> u32 \<Rightarrow> u32 option" where
  "sctp_crc32c_sb8_64_bit crc p_buf len init_bytes = do {
     let running_length = ((len - init_bytes) div 8) * 8;
     let end_bytes = len - init_bytes - running_length;
     (crc1, p1) \<leftarrow> byte_loop sctp_crc_tableil8_o32 (unat init_bytes) crc p_buf;
     (crc2, p2) \<leftarrow> block_loop (unat (running_length div 8)) crc1 p1;
     (crc3, p3) \<leftarrow> byte_loop sctp_crc_tableil8_o32 (unat end_bytes) crc2 p2;
     Some crc3
   }"

definition multitable_crc32c :: "u32 \<Rightarrow> u64 \<Rightarrow> bytes \<Rightarrow> u32 \<Rightarrow> u32 option" where
  "multitable_crc32c crc32c addr buffer len =
     (if len = 0 then Some crc32c
      else (let to_even_word = ucast (4 - (addr AND 3)) in
            sctp_crc32c_sb8_64_bit crc32c buffer len to_even_word))"

definition singletable_crc32c :: "u32 \<Rightarrow> bytes \<Rightarrow> u32 \<Rightarrow> u32 option" where
  "singletable_crc32c crc32c buffer len = map_option fst (byte_loop sctp_crc_c (unat len) crc32c buffer)"

definition calculate_crc32c :: "u32 \<Rightarrow> u64 \<Rightarrow> bytes \<Rightarrow> u32 \<Rightarrow> u32 option" where
  "calculate_crc32c crc32c addr buffer len =
     (if len < 4 then singletable_crc32c crc32c buffer len
      else multitable_crc32c crc32c addr buffer len)"

definition sctp_finalize_crc32c :: "u32 \<Rightarrow> u32" where
  "sctp_finalize_crc32c crc32c = NOT crc32c"

fun skip_offset :: "data_buf list \<Rightarrow> u32 \<Rightarrow> data_buf list \<times> u32" where
  "skip_offset [] offset = ([], offset)"
| "skip_offset (m # ms) offset =
     (if offset > SCTP_BUF_LEN m then skip_offset ms (offset - SCTP_BUF_LEN m) else (m # ms, offset))"

fun cksum_loop :: "data_buf list \<Rightarrow> u32 \<Rightarrow> u32 \<Rightarrow> u32 option" where
  "cksum_loop [] offset base = Some base"
| "cksum_loop (m # ms) offset base = do {
     base' \<leftarrow> (if SCTP_BUF_LEN m - offset > 0
               then calculate_crc32c base (m_addr m + ucast offset) (drop (unat offset) (m_bytes m))
                      (SCTP_BUF_LEN m - offset)
               else Some base);
     let offset' = (if offset \<noteq> 0 then (if offset < SCTP_BUF_LEN m then 0 else offset - SCTP_BUF_LEN m)
                    else offset);
     cksum_loop ms offset' base'
   }"

definition sctp_calculate_cksum :: "data_buf list \<Rightarrow> u32 \<Rightarrow> u32 option" where
  "sctp_calculate_cksum m offset =
     (let (at, offset') = skip_offset m offset
      in map_option sctp_finalize_crc32c (cksum_loop at offset' 0xffffffff))"

section \<open>The reference register\<close>

definition crc_spec :: "u32 \<Rightarrow> bytes \<Rightarrow> u32" where
  "crc_spec crc bs = foldl (\<lambda>c b. crc_byte (c XOR ucast b)) crc bs"

lemma crc_spec_simps [simp]:
  "crc_spec crc [] = crc"
  "crc_spec crc (b # bs) = crc_spec (crc_byte (crc XOR ucast b)) bs"
  "crc_spec crc (bs @ cs) = crc_spec (crc_spec crc bs) cs"
  by (simp_all add: crc_spec_def)

lemma low_byte: "unat ((c :: u32) AND 0xFF) < 256"
proof -
  have "c AND 0xFF \<le> 0xFF" by (rule word_and_le1)
  then show ?thesis by (simp add: word_le_nat_alt)
qed

section \<open>Table lookups\<close>

lemma table_lengths:
  "length sctp_crc_tableil8_o32 = 256" "length sctp_crc_tableil8_o40 = 256"
  "length sctp_crc_tableil8_o48 = 256" "length sctp_crc_tableil8_o56 = 256"
  "length sctp_crc_tableil8_o64 = 256" "length sctp_crc_tableil8_o72 = 256"
  "length sctp_crc_tableil8_o80 = 256" "length sctp_crc_tableil8_o88 = 256"
  by (simp_all add: table_o88 table_o80 table_o72 table_o64 table_o56 table_o48 table_o40 table_o32)

lemma lookup_map:
  assumes "T' = map crc_byte T" "length T = 256" "unat x < 256" "T ! unat x = (crc_byte ^^ n) x"
  shows "T' ! unat x = (crc_byte ^^ Suc n) x"
  using assms by simp

lemma lookup_o32: "unat x < 256 \<Longrightarrow> sctp_crc_tableil8_o32 ! unat x = (crc_byte ^^ Suc 0) x"
  unfolding table_o32 by (subst nth_map) simp_all

lemmas lookup_o40 = lookup_map [OF table_o40 table_lengths(1) _ lookup_o32]
lemmas lookup_o48 = lookup_map [OF table_o48 table_lengths(2) _ lookup_o40]
lemmas lookup_o56 = lookup_map [OF table_o56 table_lengths(3) _ lookup_o48]
lemmas lookup_o64 = lookup_map [OF table_o64 table_lengths(4) _ lookup_o56]
lemmas lookup_o72 = lookup_map [OF table_o72 table_lengths(5) _ lookup_o64]
lemmas lookup_o80 = lookup_map [OF table_o80 table_lengths(6) _ lookup_o72]
lemmas lookup_o88 = lookup_map [OF table_o88 table_lengths(7) _ lookup_o80]

lemmas table_lookup = lookup_o32 lookup_o40 lookup_o48 lookup_o56 lookup_o64 lookup_o72 lookup_o80 lookup_o88

lemma crc_pow_xor: "(crc_byte ^^ n) (a XOR b) = (crc_byte ^^ n) a XOR (crc_byte ^^ n) b"
  by (induction n) (simp_all add: crc_byte_xor)

section \<open>Bytes of a word\<close>

lemma crc_shift_even: "\<not> bit c 0 \<Longrightarrow> crc_shift c = drop_bit 1 c"
  by (simp add: crc_shift_def)

lemma crc_shift_drop: "\<not> bit c n \<Longrightarrow> crc_shift (drop_bit n c) = drop_bit (Suc n) c"
  by (simp add: crc_shift_even bit_drop_bit_eq drop_bit_drop_bit)

lemma crc_byte_high:
  assumes "\<And>i. i < 8 \<Longrightarrow> \<not> bit c i"
  shows "crc_byte c = drop_bit 8 c"
  using crc_shift_drop [of c 0] crc_shift_drop [of c 1] crc_shift_drop [of c 2] crc_shift_drop [of c 3]
    crc_shift_drop [of c 4] crc_shift_drop [of c 5] crc_shift_drop [of c 6] crc_shift_drop [of c 7] assms
  by (simp add: crc_byte_def numeral_2_eq_2 [symmetric])

lemma crc_byte_split: "crc_byte c = drop_bit 8 c XOR crc_byte (c AND 0xFF)"
proof -
  have m: "bit (0xFF :: u32) n \<longleftrightarrow> n < 8" for n
    using bit_mask_iff [where 'a = u32, of 8 n] by (auto simp: mask_eq_exp_minus_1)
  define h where "h = push_bit 8 (drop_bit 8 c)"
  have h: "bit h n \<longleftrightarrow> 8 \<le> n \<and> bit c n" for n
    by (auto simp: h_def bit_simps dest: bit_imp_le_length)
  have "c = h XOR (c AND 0xFF)"
    by (rule bit_word_eqI) (unfold bit_xor_iff bit_and_iff h m, auto)
  then have "crc_byte c = crc_byte h XOR crc_byte (c AND 0xFF)"
    by (metis crc_byte_xor)
  moreover have "crc_byte h = drop_bit 8 h"
    by (rule crc_byte_high) (simp add: h)
  moreover have "drop_bit 8 h = drop_bit 8 c"
    by (rule bit_word_eqI) (auto simp: bit_drop_bit_eq h)
  ultimately show ?thesis by simp
qed

lemma crc_pow_split:
  "(crc_byte ^^ Suc n) c = (crc_byte ^^ n) (drop_bit 8 c) XOR (crc_byte ^^ Suc n) (c AND 0xFF)"
proof -
  have "(crc_byte ^^ Suc n) c = (crc_byte ^^ n) (crc_byte c)" by (simp add: funpow_swap1)
  also have "\<dots> = (crc_byte ^^ n) (drop_bit 8 c XOR crc_byte (c AND 0xFF))"
    by (subst crc_byte_split [of c]) (rule refl)
  finally show ?thesis by (simp add: crc_pow_xor funpow_swap1)
qed

lemma crc_word_split:
  "(crc_byte ^^ Suc (Suc (Suc (Suc n)))) c =
     (crc_byte ^^ Suc (Suc (Suc (Suc n)))) (c AND 0xFF) XOR (crc_byte ^^ Suc (Suc (Suc n))) (drop_bit 8 c AND 0xFF) XOR
     ((crc_byte ^^ Suc (Suc n)) (drop_bit 16 c AND 0xFF) XOR (crc_byte ^^ Suc n) (drop_bit 24 c AND 0xFF))"
proof -
  have d: "drop_bit 32 c = 0"
    by (rule bit_word_eqI) (auto simp: bit_drop_bit_eq dest: bit_imp_le_length)
  have z: "(crc_byte ^^ n) 0 = 0" by (induction n) simp_all
  show ?thesis
    using crc_pow_split [of "Suc (Suc (Suc n))" c] crc_pow_split [of "Suc (Suc n)" "drop_bit 8 c"]
      crc_pow_split [of "Suc n" "drop_bit 16 c"] crc_pow_split [of n "drop_bit 24 c"] d z
    by (simp add: drop_bit_drop_bit ac_simps del: funpow.simps)
qed

section \<open>The loops compute the register\<close>

lemma byte_loop_spec:
  assumes "n \<le> length p" "tab = sctp_crc_tableil8_o32"
  shows "byte_loop tab n crc p = Some (crc_spec crc (take n p), drop n p)"
  using assms(1)
proof (induction n arbitrary: crc p)
  case (Suc n)
  then obtain b p' where p: "p = b # p'" by (cases p) auto
  have "drop_bit 8 (crc XOR ucast b) = drop_bit 8 crc"
    by (rule bit_word_eqI) (auto simp: bit_simps dest: bit_imp_le_length)
  then have "tab ! unat ((crc XOR ucast b) AND 0xFF) XOR drop_bit 8 crc = crc_byte (crc XOR ucast b)"
    using crc_byte_split [of "crc XOR ucast b"] by (simp add: assms(2) lookup_o32 low_byte xor.commute)
  then show ?case using Suc p by simp
qed simp

lemma crc_byte_push:
  fixes b :: u8
  shows "crc_byte (push_bit 8 (ucast b)) = ucast b"
    "crc_byte (push_bit 16 (ucast b)) = push_bit 8 (ucast b)"
    "crc_byte (push_bit 24 (ucast b)) = push_bit 16 (ucast b)"
  by (subst crc_byte_high; (rule bit_word_eqI)?; auto simp: bit_simps dest: bit_imp_le_length)+

lemma read_le32_xor:
  fixes a b c d :: u8
  shows "(ucast a OR push_bit 8 (ucast b) OR push_bit 16 (ucast c) OR push_bit 24 (ucast d) :: u32) =
     ucast a XOR push_bit 8 (ucast b) XOR push_bit 16 (ucast c) XOR push_bit 24 (ucast d)"
  by (rule bit_word_eqI) (auto simp: bit_simps dest: bit_imp_le_length)

lemma crc_word_bytes:
  "(crc_byte ^^ Suc (Suc (Suc (Suc 0))))
     (crc XOR (ucast a OR push_bit 8 (ucast b) OR push_bit 16 (ucast c) OR push_bit 24 (ucast d))) =
   crc_spec crc [a, b, c, d]"
  by (simp add: read_le32_xor crc_byte_xor crc_byte_push ac_simps)

lemma slices:
  "((sctp_crc_tableil8_o88 ! unat (x AND 0xFF) XOR sctp_crc_tableil8_o80 ! unat (drop_bit 8 x AND 0xFF)) XOR
    (sctp_crc_tableil8_o72 ! unat (drop_bit 16 x AND 0xFF) XOR
     sctp_crc_tableil8_o64 ! unat (drop_bit 8 (drop_bit 16 x) AND 0xFF))) XOR
   ((sctp_crc_tableil8_o56 ! unat (y AND 0xFF) XOR sctp_crc_tableil8_o48 ! unat (drop_bit 8 y AND 0xFF)) XOR
    (sctp_crc_tableil8_o40 ! unat (drop_bit 16 y AND 0xFF) XOR
     sctp_crc_tableil8_o32 ! unat (drop_bit 8 (drop_bit 16 y) AND 0xFF))) =
   (crc_byte ^^ Suc (Suc (Suc (Suc (Suc (Suc (Suc (Suc 0)))))))) x XOR (crc_byte ^^ Suc (Suc (Suc (Suc 0)))) y"
  by (simp add: table_lookup low_byte crc_word_split [of "Suc (Suc (Suc (Suc 0)))" x] crc_word_split [of 0 y]
      drop_bit_drop_bit ac_simps del: funpow.simps)

lemma sb8_block_spec:
  assumes "8 \<le> length p"
  shows "sb8_block crc p = Some (crc_spec crc (take 8 p), drop 8 p)"
proof -
  obtain a b c d e f g h r where p: "p = a # b # c # d # e # f # g # h # r"
    using assms by (auto simp: numeral_eq_Suc Suc_le_length_iff)
  define x where "x = crc XOR (ucast a OR push_bit 8 (ucast b) OR push_bit 16 (ucast c) OR push_bit 24 (ucast d))"
  define y :: u32 where "y = ucast e OR push_bit 8 (ucast f) OR push_bit 16 (ucast g) OR push_bit 24 (ucast h)"
  have tb: "sb8_block crc p = Some ((crc_byte ^^ Suc (Suc (Suc (Suc (Suc (Suc (Suc (Suc 0)))))))) x XOR
      (crc_byte ^^ Suc (Suc (Suc (Suc 0)))) y, r)"
    by (simp only: sb8_block_def p read_le32.simps Option.bind.simps prod.case Let_def slices x_def y_def)
  have "crc_spec crc (take 8 p) = crc_spec (crc_spec crc [a, b, c, d]) [e, f, g, h]"
    by (simp add: p)
  also have "\<dots> = (crc_byte ^^ Suc (Suc (Suc (Suc 0)))) ((crc_byte ^^ Suc (Suc (Suc (Suc 0)))) x XOR y)"
    by (simp only: crc_word_bytes [symmetric] x_def y_def)
  finally show ?thesis
    using tb by (simp add: p crc_pow_xor crc_byte_xor)
qed

lemma block_loop_spec:
  assumes "8 * n \<le> length p"
  shows "block_loop n crc p = Some (crc_spec crc (take (8 * n) p), drop (8 * n) p)"
  using assms
proof (induction n arbitrary: crc p)
  case (Suc n)
  have "take (8 * Suc n) p = take 8 p @ take (8 * n) (drop 8 p)"
    by (simp add: take_add)
  then show ?case
    using Suc sb8_block_spec [of p crc] by (simp add: add.commute)
qed simp

lemma unat_running_length:
  fixes x :: u32
  shows "unat ((x div 8) * 8) = unat x div 8 * 8" "unat ((x div 8) * 8 div 8) = unat x div 8"
proof -
  have "unat (x div 8) * unat (8 :: u32) < 2 ^ LENGTH(32)"
    using unsigned_less [of x, where 'a = nat] by (simp add: unat_div_distrib)
  then show "unat ((x div 8) * 8) = unat x div 8 * 8"
    using unat_mult_lem [of "x div 8" 8] by (simp add: unat_div_distrib)
  then show "unat ((x div 8) * 8 div 8) = unat x div 8"
    by (simp add: unat_div_distrib)
qed

lemma sb8_spec:
  assumes "unat len = length p" "init_bytes \<le> len"
  shows "sctp_crc32c_sb8_64_bit crc p len init_bytes = Some (crc_spec crc p)"
proof -
  let ?i = "unat init_bytes" and ?x = "len - init_bytes"
  have x: "unat ?x = length p - ?i" and i: "?i \<le> length p"
    using assms by (simp_all add: unat_sub word_le_nat_alt)
  let ?k = "(length p - ?i) div 8"
  have k: "8 * ?k \<le> length p - ?i" by simp
  have "?x div 8 * 8 \<le> ?x"
    by (simp add: word_le_nat_alt unat_running_length)
  then have e: "unat (?x - ?x div 8 * 8) = length p - ?i - 8 * ?k"
    by (simp add: unat_sub unat_running_length x)
  define p2 where "p2 = drop ?i p"
  have "crc_spec (crc_spec (crc_spec crc (take ?i p)) (take (8 * ?k) p2)) (drop (8 * ?k) p2) = crc_spec crc p"
    using crc_spec_simps(3) [of crc "take ?i p" p2]
      crc_spec_simps(3) [of "crc_spec crc (take ?i p)" "take (8 * ?k) p2" "drop (8 * ?k) p2"]
    unfolding append_take_drop_id p2_def by simp
  then show ?thesis
    using i k e
    by (simp add: sctp_crc32c_sb8_64_bit_def byte_loop_spec block_loop_spec unat_running_length x p2_def)
qed

lemma even_word_bound: "ucast (4 - ((addr :: u64) AND 3)) \<le> (4 :: u32)"
proof -
  have "addr AND 3 \<le> 3" by (rule word_and_le1)
  then have "addr AND 3 = 0 \<or> addr AND 3 = 1 \<or> addr AND 3 = 2 \<or> addr AND 3 = 3"
    by (simp add: word_le_nat_alt word_unat_eq_iff) linarith
  then show ?thesis by auto
qed

lemma calculate_crc32c_spec:
  assumes "unat len = length p"
  shows "calculate_crc32c crc addr p len = Some (crc_spec crc p)"
proof (cases "len < 4")
  case True
  then show ?thesis
    using byte_loop_spec [of "unat len" p sctp_crc_c crc] assms
    by (simp add: calculate_crc32c_def singletable_crc32c_def table_single)
next
  case False
  then have "ucast (4 - (addr AND 3)) \<le> len"
    using even_word_bound [of addr] by (meson leI order_trans)
  then show ?thesis
    using sb8_spec [OF assms] False by (auto simp: calculate_crc32c_def multitable_crc32c_def)
qed

section \<open>The chain\<close>

lemma cksum_loop_spec:
  assumes "chain_ok ms" "ms \<noteq> [] \<Longrightarrow> unat offset \<le> length (m_bytes (hd ms))"
  shows "cksum_loop ms offset base =
    Some (crc_spec base (if ms = [] then [] else drop (unat offset) (chain_bytes ms)))"
  using assms
proof (induction ms arbitrary: offset base)
  case (Cons m ms)
  let ?n = "length (m_bytes m)"
  have n: "unat (SCTP_BUF_LEN m) = ?n" and o: "unat offset \<le> ?n"
    using Cons.prems by (simp_all add: unat_buf_len)
  have d: "unat (SCTP_BUF_LEN m - offset) = ?n - unat offset"
    using n o by (simp add: unat_sub word_le_nat_alt)
  have full: "offset = SCTP_BUF_LEN m" if "\<not> offset < SCTP_BUF_LEN m"
    using that n o by (simp add: word_less_nat_alt word_unat_eq_iff)
  have "(if SCTP_BUF_LEN m - offset > 0
      then calculate_crc32c base (m_addr m + ucast offset) (drop (unat offset) (m_bytes m)) (SCTP_BUF_LEN m - offset)
      else Some base) = Some (crc_spec base (drop (unat offset) (m_bytes m)))"
    using d o calculate_crc32c_spec [of "SCTP_BUF_LEN m - offset" "drop (unat offset) (m_bytes m)"]
    by (auto simp: word_less_nat_alt)
  moreover have "(if offset \<noteq> 0 then (if offset < SCTP_BUF_LEN m then 0 else offset - SCTP_BUF_LEN m) else offset) = 0"
    using full by auto
  ultimately have "cksum_loop (m # ms) offset base =
      cksum_loop ms 0 (crc_spec base (drop (unat offset) (m_bytes m)))"
    by (simp add: Let_def)
  then show ?case
    using Cons.IH [of 0] Cons.prems(1) o by simp
qed simp

lemma skip_offset_spec:
  assumes "chain_ok ms" "skip_offset ms offset = (at, offset')"
  shows "chain_ok at \<and> drop (unat offset) (chain_bytes ms) = (if at = [] then [] else drop (unat offset') (chain_bytes at)) \<and>
    (at \<noteq> [] \<longrightarrow> unat offset' \<le> length (m_bytes (hd at)))"
  using assms
proof (induction ms arbitrary: offset)
  case (Cons m ms)
  have n: "unat (SCTP_BUF_LEN m) = length (m_bytes m)"
    using Cons.prems(1) by (simp add: unat_buf_len)
  show ?case
  proof (cases "offset > SCTP_BUF_LEN m")
    case True
    then have u: "unat (offset - SCTP_BUF_LEN m) = unat offset - length (m_bytes m)" "length (m_bytes m) < unat offset"
      using n unat_sub [of "SCTP_BUF_LEN m" offset] by (simp_all add: word_less_nat_alt less_imp_le)
    then show ?thesis
      using Cons.IH [of "offset - SCTP_BUF_LEN m"] Cons.prems True by simp
  next
    case False
    then show ?thesis
      using Cons.prems n by (auto simp: word_less_nat_alt not_less)
  qed
qed simp

lemma cksum_spec:
  assumes "chain_ok ms"
  shows "sctp_calculate_cksum ms offset = Some (NOT (crc_spec 0xffffffff (drop (unat offset) (chain_bytes ms))))"
  using skip_offset_spec [OF assms, of offset] cksum_loop_spec [of _ _ "0xffffffff"]
  by (cases "skip_offset ms offset") (auto simp: sctp_calculate_cksum_def sctp_finalize_crc32c_def)

section \<open>The register loses no information\<close>

lemma crc_shift_eq_0: "crc_shift x = 0 \<Longrightarrow> x = 0"
proof -
  assume z: "crc_shift x = 0"
  have nb: "\<not> bit x 0"
  proof
    assume "bit x 0"
    then have "drop_bit 1 x = 0x82F63B78" using z by (intro xor_eq_0D [of "drop_bit 1 x"]) (simp add: crc_shift_def)
    then have "bit (drop_bit 1 x) 31" by simp
    then show False by (auto simp: bit_drop_bit_eq dest: bit_imp_le_length)
  qed
  then have d: "drop_bit 1 x = 0" using z by (simp add: crc_shift_def)
  have "\<not> bit x n" for n
    using nb arg_cong [OF d, of "\<lambda>w. bit w (n - 1)"] by (cases n) (auto simp: bit_drop_bit_eq)
  then show "x = 0" by (intro bit_word_eqI) simp
qed

lemma crc_byte_inj: "crc_byte x = crc_byte y \<Longrightarrow> x = y"
proof -
  assume "crc_byte x = crc_byte y"
  then have "crc_byte (x XOR y) = 0" by (simp add: crc_byte_xor)
  then have "x XOR y = 0" by (auto simp: crc_byte_def dest!: crc_shift_eq_0)
  then show "x = y" by (rule xor_eq_0D)
qed

lemma crc_spec_inj: "crc_spec c bs = crc_spec d bs \<Longrightarrow> c = d"
proof (induction bs arbitrary: c d)
  case (Cons b bs)
  then have "crc_byte (c XOR ucast b) = crc_byte (d XOR ucast b)" by simp
  then show ?case using crc_byte_inj xor_right_cancel by blast
qed simp

lemma read_le32_inj:
  fixes a b c d a' b' c' d' :: u8
  assumes "(ucast a OR push_bit 8 (ucast b) OR push_bit 16 (ucast c) OR push_bit 24 (ucast d) :: u32) =
     ucast a' OR push_bit 8 (ucast b') OR push_bit 16 (ucast c') OR push_bit 24 (ucast d')"
  shows "a = a'" "b = b'" "c = c'" "d = d'"
proof -
  have bits: "bit (ucast a OR push_bit 8 (ucast b) OR push_bit 16 (ucast c) OR push_bit 24 (ucast d) :: u32) n \<longleftrightarrow>
     bit (ucast a' OR push_bit 8 (ucast b') OR push_bit 16 (ucast c') OR push_bit 24 (ucast d') :: u32) n" for n
    using assms by simp
  show "a = a'"
  proof (rule bit_word_eqI)
    fix n assume "n < LENGTH(8)"
    then show "bit a n \<longleftrightarrow> bit a' n" using bits [of n] by (auto simp: bit_simps)
  qed
  show "b = b'"
  proof (rule bit_word_eqI)
    fix n assume "n < LENGTH(8)"
    then show "bit b n \<longleftrightarrow> bit b' n" using bits [of "n + 8"] by (auto simp: bit_simps dest: bit_imp_le_length)
  qed
  show "c = c'"
  proof (rule bit_word_eqI)
    fix n assume "n < LENGTH(8)"
    then show "bit c n \<longleftrightarrow> bit c' n" using bits [of "n + 16"] by (auto simp: bit_simps dest: bit_imp_le_length)
  qed
  show "d = d'"
  proof (rule bit_word_eqI)
    fix n assume "n < LENGTH(8)"
    then show "bit d n \<longleftrightarrow> bit d' n" using bits [of "n + 24"] by (auto simp: bit_simps dest: bit_imp_le_length)
  qed
qed

lemma crc_spec_word_inj:
  assumes "length w = 4" "length w' = 4" "crc_spec crc w = crc_spec crc w'"
  shows "w = w'"
proof -
  obtain a b c d where w: "w = [a, b, c, d]"
    using assms(1) by (auto simp: numeral_eq_Suc length_Suc_conv)
  obtain a' b' c' d' where w': "w' = [a', b', c', d']"
    using assms(2) by (auto simp: numeral_eq_Suc length_Suc_conv)
  define u v :: u32 where "u = ucast a OR push_bit 8 (ucast b) OR push_bit 16 (ucast c) OR push_bit 24 (ucast d)"
    and "v = ucast a' OR push_bit 8 (ucast b') OR push_bit 16 (ucast c') OR push_bit 24 (ucast d')"
  have "(crc_byte ^^ Suc (Suc (Suc (Suc 0)))) (crc XOR u) = (crc_byte ^^ Suc (Suc (Suc (Suc 0)))) (crc XOR v)"
    using assms(3) unfolding w w' crc_word_bytes [symmetric] u_def v_def .
  then have "u XOR crc = v XOR crc"
    by (auto simp: xor.commute dest!: crc_byte_inj simp del: crc_spec_simps)
  then have "u = v" by (rule xor_right_cancel)
  then show ?thesis
    using read_le32_inj [of a b c d a' b' c' d'] unfolding w w' u_def v_def by simp
qed

lemma crc_spec_burst:
  assumes "length w = length w'" "length w \<le> 4" "w \<noteq> w'"
  shows "crc_spec crc (xs @ w @ ys) \<noteq> crc_spec crc (xs @ w' @ ys)"
proof
  let ?z = "replicate (4 - length w) 0"
  assume "crc_spec crc (xs @ w @ ys) = crc_spec crc (xs @ w' @ ys)"
  then have "crc_spec (crc_spec crc xs) w = crc_spec (crc_spec crc xs) w'"
    by (auto dest: crc_spec_inj)
  then have "crc_spec (crc_spec crc xs) (w @ ?z) = crc_spec (crc_spec crc xs) (w' @ ?z)" by simp
  then have "w @ ?z = w' @ ?z"
    using assms(1,2) by (intro crc_spec_word_inj) auto
  then show False using assms(3) by simp
qed

section \<open>Theorems\<close>

lemma crc_shift_8: "(crc_shift ^^ 8) c = crc_byte c"
  by (simp add: crc_byte_def numeral_eq_Suc)

text \<open>C7. Whatever the alignment of the buffer, the table-driven routine (single table for short
  buffers, slicing by eight otherwise) reads exactly the buffer and computes the register that
  the reflected CRC-32C polynomial gives bit by bit, least significant bit first.\<close>

theorem crc32c_is_bit_serial:
  assumes "unat len = length buffer"
  shows "calculate_crc32c crc addr buffer len =
    Some (foldl (\<lambda>c b. (crc_shift ^^ 8) (c XOR ucast b)) crc buffer)"
  using calculate_crc32c_spec [OF assms] by (simp add: crc_spec_def crc_shift_8)

text \<open>The register after each digit of the standard check string "123456789".\<close>

lemma check_digits:
  "crc_byte (0xFFFFFFFF XOR 49) = 0x6F0A661C"
  "crc_byte (0x6F0A661C XOR 50) = 0x8CAA3B9F"
  "crc_byte (0x8CAA3B9F XOR 51) = 0xEF84D04D"
  "crc_byte (0xEF84D04D XOR 52) = 0x9C50B11"
  "crc_byte (0x9C50B11 XOR 53) = 0xE72EDCCA"
  "crc_byte (0xE72EDCCA XOR 54) = 0xBECA8E79"
  "crc_byte (0xBECA8E79 XOR 55) = 0xEDBD6815"
  "crc_byte (0xEDBD6815 XOR 56) = 0x9F787F65"
  "crc_byte (0x9F787F65 XOR 57) = 0x1CF96D7C"
  by (simp_all add: crc_byte_def crc_shift_def)

theorem crc32c_is_bit_serial_witness:
  "calculate_crc32c 0xFFFFFFFF 1 [49, 50, 51, 52, 53, 54, 55, 56, 57] 9 = Some (NOT 0xE3069283)"
proof -
  have "calculate_crc32c 0xFFFFFFFF 1 [49, 50, 51, 52, 53, 54, 55, 56, 57] 9 =
      Some (foldl (\<lambda>c b. (crc_shift ^^ 8) (c XOR ucast b)) 0xFFFFFFFF [49 :: u8, 50, 51, 52, 53, 54, 55, 56, 57])"
    by (rule crc32c_is_bit_serial) simp
  then show ?thesis by (simp add: crc_shift_8 check_digits [simplified])
qed

text \<open>The checksum of an mbuf chain depends only on the bytes that follow the offset, not on
  how they are split over mbufs nor on where the mbufs lie: it is the complemented CRC-32C of
  those bytes, for every offset, and for an offset at or past the end of the chain it is 0.\<close>

theorem cksum_of_chain:
  assumes "chain_ok ms"
  shows "sctp_calculate_cksum ms offset = Some (NOT (crc_spec 0xffffffff (drop (unat offset) (chain_bytes ms)))) \<and>
    (length (chain_bytes ms) \<le> unat offset \<longrightarrow> sctp_calculate_cksum ms offset = Some 0)"
  using cksum_spec [OF assms, of offset] by simp

theorem cksum_of_chain_witness:
  "sctp_calculate_cksum [\<lparr>m_addr = 8, m_bytes = [1, 2, 3]\<rparr>, \<lparr>m_addr = 17, m_bytes = [4, 5]\<rparr>] 4 =
     Some (NOT (crc_spec 0xffffffff [5])) \<and>
   sctp_calculate_cksum [\<lparr>m_addr = 8, m_bytes = [1, 2, 3]\<rparr>] 7 = Some 0"
  using cksum_of_chain [of "[\<lparr>m_addr = 8, m_bytes = [1, 2, 3]\<rparr>, \<lparr>m_addr = 17, m_bytes = [4, 5]\<rparr>]" 4]
    cksum_of_chain [of "[\<lparr>m_addr = 8, m_bytes = [1, 2, 3]\<rparr>]" 7]
  by simp

text \<open>C8. The checksum detects every corruption that is confined to four consecutive bytes: two
  packets that agree before and after a window of at most four bytes and differ inside it have
  different checksums.\<close>

theorem cksum_detects_burst:
  assumes "chain_ok ms" "chain_ok ms'" "chain_bytes ms = xs @ w @ ys" "chain_bytes ms' = xs @ w' @ ys"
    and "length w = length w'" "length w \<le> 4" "w \<noteq> w'"
  shows "sctp_calculate_cksum ms 0 \<noteq> sctp_calculate_cksum ms' 0"
proof -
  have "NOT (crc_spec 0xffffffff (xs @ w @ ys)) \<noteq> NOT (crc_spec 0xffffffff (xs @ w' @ ys))"
    using crc_spec_burst [OF assms(5-7), where crc = "0xffffffff" and xs = xs and ys = ys] bit.compl_eq_compl_iff by blast
  then show ?thesis
    using cksum_spec [OF assms(1), of 0] cksum_spec [OF assms(2), of 0] assms(3,4) by simp
qed

theorem cksum_detects_burst_witness:
  "sctp_calculate_cksum [\<lparr>m_addr = 0, m_bytes = [1, 2, 3]\<rparr>] 0 \<noteq> sctp_calculate_cksum [\<lparr>m_addr = 0, m_bytes = [1, 9, 3]\<rparr>] 0"
  by (rule cksum_detects_burst [of _ _ "[1]" "[2]" "[3]" "[9]"]) simp_all

end
