(* ===== verification/Conn_Input.thy ===== *)
theory Conn_Input
  imports Mbuf_Pullup Crc32c
begin

text \<open>
  The way of a packet from Java into the stack: \<^verbatim>\<open>usrsctp_conninput\<close> of \<^verbatim>\<open>user_socket.c\<close> copies it into a chain of
  mbufs and makes its headers contiguous, and \<^verbatim>\<open>sctp_common_input_processing\<close> of \<^verbatim>\<open>sctp_input.c\<close> first verifies
  its checksum. What that routine does afterwards is a parameter. Statistics counters are left out.
\<close>

section \<open>Definitions\<close>

definition MT_DATA :: int where "MT_DATA = 1"

definition sctp_get_mbuf_for_msg :: "int \<Rightarrow> u32 \<Rightarrow> bool \<Rightarrow> bool \<Rightarrow> int \<Rightarrow> mheap \<Rightarrow> (nat option \<times> mheap) option" where
  "sctp_get_mbuf_for_msg sctp_mbuf_threshold_count space_needed want_header allonebuf type h =
     (let (m, h1) = (if want_header then m_gethdr type h else m_get type h) in
      case m of
        None \<Rightarrow> Some (None, h1)
      | Some a \<Rightarrow>
          let mbuf_threshold = (if allonebuf then 1 else sctp_mbuf_threshold_count);
              big = (sint space_needed > (mbuf_threshold - 1) * int MLEN + int MHLEN) in do {
            h2 \<leftarrow> (if big then m_clget (Some a) h1 else Some h1);
            x \<leftarrow> mbufs h2 a;
            (if big \<and> \<not> flag x M_EXT then map_option (Pair None) (m_freem (Some a) h2)
             else map_option (Pair (Some a)) (upd_mbuf a (\<lambda>x. x\<lparr>m_len := 0, m_next := None, m_nextpkt := None\<rparr>) h2))
          })"

text \<open>\<open>process\<close> stands for \<^verbatim>\<open>sctp_common_input_processing\<close>: it gets the chain and the port fields of the SCTP
  header and returns what is left of the chain.\<close>

definition usrsctp_conninput ::
  "int \<Rightarrow> (nat \<Rightarrow> bytes \<Rightarrow> bytes \<Rightarrow> mheap \<Rightarrow> (nat option \<times> mheap) option) \<Rightarrow> bytes \<Rightarrow> mheap \<Rightarrow> mheap option" where
  "usrsctp_conninput threshold process buf h = do {
     (m, h1) \<leftarrow> sctp_get_mbuf_for_msg threshold (of_nat (length buf)) True False MT_DATA h;
     (case m of
        None \<Rightarrow> Some h1
      | Some a \<Rightarrow> do {
          h2 \<leftarrow> m_copyback (Some a) 0 (take (nat (sint (of_nat (length buf) :: u32))) buf) h1;
          x \<leftarrow> mbufs h2 a;
          (p, h3) \<leftarrow> (if m_len x < 16 then m_pullup a 16 h2 else Some (Some a, h2));
          (case p of
             None \<Rightarrow> Some h3
           | Some b \<Rightarrow> do {
               src_port \<leftarrow> copy_from h3 b 0 2;
               dest_port \<leftarrow> copy_from h3 b 2 2;
               (q, h4) \<leftarrow> process b src_port dest_port h3;
               m_freem q h4
             })
        })
   }"

text \<open>The chain as the checksum routine walks it; \<open>addr\<close> gives the addresses of the data.\<close>

partial_function (option) chain_bufs :: "(nat \<Rightarrow> u64) \<Rightarrow> mheap \<Rightarrow> nat option \<Rightarrow> data_buf list option" where
  "chain_bufs addr h p =
     (case p of
        None \<Rightarrow> Some []
      | Some a \<Rightarrow>
          Option.bind (mbufs h a) (\<lambda>m. Option.bind (copy_from h a 0 (m_len m)) (\<lambda>xs.
          Option.bind (chain_bufs addr h (m_next m)) (\<lambda>bs. Some (\<lparr>m_addr = addr a, m_bytes = xs\<rparr> # bs)))))"

text \<open>The first block of \<^verbatim>\<open>sctp_common_input_processing\<close>; the checksum is the word at offset 8 of the SCTP header.\<close>

definition input_cksum :: "(nat \<Rightarrow> u64) \<Rightarrow> nat \<Rightarrow> mheap \<Rightarrow> (bool \<times> mheap) option" where
  "input_cksum addr m h = do {
     field \<leftarrow> copy_from h m 8 4;
     (check, _) \<leftarrow> read_le32 field;
     h1 \<leftarrow> copy_to m 8 (replicate 4 0) h;
     ms \<leftarrow> chain_bufs addr h1 (Some m);
     calc_check \<leftarrow> sctp_calculate_cksum ms 0;
     h2 \<leftarrow> copy_to m 8 field h1;
     Some (calc_check = check, h2)
   }"

section \<open>A new cluster\<close>

lemma clust_create:
  assumes ok: "clust_ok V C R" and a: "V a = None" and e: "ref_cnt e = Some r" "ext_buf e = Some c" and fresh: "C c = None" "R r = None"
  shows "clust_ok (V(a \<mapsto> e)) (C(c \<mapsto> b)) (R(r \<mapsto> 1))"
proof -
  have Rx: "R x = (if holders V x = {} then None else Some (card (holders V x)))" for x using ok by (simp add: clust_ok_def)
  have nor: "holders V r = {}" using Rx [of r] fresh(2) by (simp split: if_splits)
  have noc: "ext_buf y \<noteq> Some c" if "V p = Some y" for p y using clust_dom [OF ok, of c] fresh(1) that by blast
  have nr: "ref_cnt y \<noteq> Some r" if "V p = Some y" for p y using nor that by (auto simp: holders_def)
  have na: "a \<notin> holders V x" for x using a by (simp add: holders_def)
  have "(R(r \<mapsto> 1)) x = (if holders (V(a \<mapsto> e)) x = {} then None else Some (card (holders (V(a \<mapsto> e)) x)))" for x
    using Rx [of x] nor e(1) na by (auto simp: holders_upd)
  moreover have "(C(c \<mapsto> b)) x \<noteq> None \<longleftrightarrow> (\<exists>p y. (V(a \<mapsto> e)) p = Some y \<and> ext_buf y = Some x)" for x
  proof (cases "x = c")
    case False
    then have "(\<exists>p y. (V(a \<mapsto> e)) p = Some y \<and> ext_buf y = Some x) \<longleftrightarrow> (\<exists>p y. V p = Some y \<and> ext_buf y = Some x)"
      using e(2) a by (metis fun_upd_apply option.inject option.distinct(1))
    then show ?thesis using clust_dom [OF ok, of x] False by simp
  qed (use e(2) in auto)
  moreover have "x = y" if "(V(a \<mapsto> e)) p = Some x" "(V(a \<mapsto> e)) q = Some y" "ref_cnt x = ref_cnt y \<or> ext_buf x = ext_buf y" for p q x y
    by (cases "p = a"; cases "q = a") (use that clust_same [OF ok] noc nr e in \<open>simp_all, metis+\<close>)
  moreover have "ref_cnt x \<noteq> None \<and> ext_buf x \<noteq> None" if "(V(a \<mapsto> e)) p = Some x" for p x
    using that ok e by (auto simp: clust_ok_def split: if_splits)
  moreover have "finite (dom (V(a \<mapsto> e)))" using ok by (simp add: clust_ok_def)
  ultimately show ?thesis unfolding clust_ok_def by blast
qed

lemma m_clget_ok:
  assumes ok: "heap_ok h" and m: "mbufs h a = Some m" "\<not> flag m M_EXT" "m_len m = 0"
    and mem: "\<And>n. new_clust h n \<noteq> None" "\<And>n. new_ref h n"
  obtains h' m' where "m_clget (Some a) h = Some h'" "heap_ok h'" "frame {a} h h'" "mbufs h' = (mbufs h)(a \<mapsto> m')" "flag m' M_EXT"
    "m_len m' = 0" "m_next m' = m_next m" "brk h \<le> brk h'"
proof -
  obtain b where b: "new_clust h (brk h) = Some b" using mem(1) by blast
  have lb: "length b = MCLBYTES" using ok b by (simp add: heap_ok_def)
  let ?c = "brk h" and ?r = "brk h + 1"
  let ?e = "\<lparr>ext_buf = Some ?c, ext_size = MCLBYTES, ref_cnt = Some ?r, ext_type = EXT_CLUSTER\<rparr>"
  let ?m = "m\<lparr>m_data := 0, m_flags := m_flags m OR M_EXT, m_ext_of := ?e\<rparr>"
  let ?h = "h\<lparr>mbufs := (mbufs h)(a \<mapsto> ?m), clusters := (clusters h)(?c \<mapsto> b), refs := (refs h)(?r \<mapsto> 1), brk := brk h + 2\<rparr>"
  have eq: "m_clget (Some a) h = Some ?h"
    using m(1) b mem(2) by (simp add: m_clget_def clust_constructor_dup_def upd_mbuf_def)
  have old: "clusters h x = None \<and> refs h x = None" if "x \<ge> brk h" for x using ok that by (simp add: heap_ok_def)
  have va: "ext_view h a = None" using m by (simp add: ext_view_def)
  have view: "ext_view ?h = (ext_view h)(a \<mapsto> ?e)" by (simp add: ext_view_def fun_eq_iff bit_simps)
  have cl: "clust_ok ((ext_view h)(a \<mapsto> ?e)) ((clusters h)(?c \<mapsto> b)) ((refs h)(?r \<mapsto> 1))"
    by (rule clust_create [OF heap_clust [OF ok] va]) (use old in simp_all)
  have "local_ok ?h x y" if y: "mbufs ?h x = Some y" for x y
  proof (cases "x = a")
    case True
    then have e: "y = ?m" using y by simp
    show ?thesis unfolding e True using heap_local [OF ok m(1)] m(3) lb by (simp add: local_ok_def bit_simps)
  next
    case False
    then have "local_ok h x y" using heap_local [OF ok] y by simp
    moreover have "\<exists>b'. clusters ?h c = Some b' \<and> length b' = length b1" if "clusters h c = Some b1" for c b1
      using that old [of c] by (cases "c = ?c") auto
    ultimately show ?thesis using local_ok_cong [of h x y ?h] by simp
  qed
  then have ok': "heap_ok ?h" unfolding heap_ok_def view using cl old ok by (auto simp: heap_ok_def)
  show thesis by (rule that [of ?h ?m, OF eq ok']) (use m(3) old in \<open>auto simp: frame_def bit_simps\<close>)
qed

section \<open>Writing a packet into an empty chain\<close>

lemma mbytes_relink: "mbufs h a = Some m \<Longrightarrow> mbytes (h\<lparr>mbufs := (mbufs h)(a \<mapsto> m\<lparr>m_next := q\<rparr>)\<rparr>) x = mbytes h x"
  by (auto simp: mbytes_def split: option.splits)

lemma copyback_grow:
  assumes ok: "heap_ok h" and c: "chain h p as" "as \<noteq> []" and m: "mbufs h (last as) = Some m"
    and al: "m_get (m_type m) h = (Some b, h1)" and k: "k \<le> MLEN"
  obtains h2 h3 n where "upd_mbuf b (\<lambda>n. n\<lparr>m_len := k\<rparr>) h1 = Some h2" "upd_mbuf (last as) (\<lambda>m. m\<lparr>m_next := Some b\<rparr>) h2 = Some h3"
    "heap_ok h3" "frame (set as) h h3" "chain h3 p (as @ [b])" "b = brk h" "brk h < brk h3"
    "mbufs h3 = (mbufs h)(last as \<mapsto> m\<lparr>m_next := Some b\<rparr>, b \<mapsto> n)" "m_len n = k" "m_next n = None" "\<not> flag n M_EXT"
    "\<forall>x \<in> set as. mbytes h3 x = mbytes h x"
proof -
  let ?z = "last as"
  have z: "?z \<in> set as" using c(2) by simp
  have al': "(if False then m_gethdr (m_type m) h else m_get (m_type m) h) = (Some b, h1)" using al by simp
  note A = alloc_cases [OF ok m al']
  obtain n where n: "b = brk h" "mbufs h1 = (mbufs h)(brk h \<mapsto> n)" "new_ok 0 (m_type m) n" using A(4) by auto
  have b: "b \<notin> set as" using chain_lt [OF ok c(1)] n(1) by blast
  have bz: "b \<noteq> ?z" using b z by metis
  have ext: "\<not> flag n M_EXT" using new_local(2) [OF n(3)] heap_local [OF ok m] by (simp add: local_ok_def)
  let ?n = "n\<lparr>m_len := k\<rparr>" and ?m = "m\<lparr>m_next := Some b\<rparr>"
  let ?h2 = "h1\<lparr>mbufs := (mbufs h1)(b \<mapsto> ?n)\<rparr>"
  let ?h3 = "?h2\<lparr>mbufs := (mbufs ?h2)(?z \<mapsto> ?m)\<rparr>"
  have b1: "mbufs h1 b = Some n" using n by simp
  have ok2: "heap_ok ?h2"
    by (rule upd_ok [OF A(1) b1]) (use heap_local [OF A(1) b1] n(3) k in \<open>simp_all add: local_ok_def new_ok_def\<close>)
  have z2: "mbufs ?h2 ?z = Some m" using m n(2) bz by (simp add: n(1))
  have ok3: "heap_ok ?h3" by (rule upd_ok [OF ok2 z2]) (use heap_local [OF ok2 z2] in simp_all)
  have M: "mbufs ?h3 = (mbufs h)(?z \<mapsto> ?m, b \<mapsto> ?n)" using n(1,2) bz by (auto simp: fun_eq_iff)
  have f: "frame {b, ?z} h1 ?h3" by (rule frame_trans [OF frame_upd [of b] frame_upd [of ?z]]) auto
  have "frame {?z} h ?h3" by (rule frame_trans [OF frame_mono [OF A(2)] f]) (use n(1) in auto)
  then have fr: "frame (set as) h ?h3" using z by (auto intro: frame_mono)
  have same: "mbytes ?h3 x = mbytes h x" if x: "x \<in> set as" for x
  proof -
    obtain y where y: "mbufs h x = Some y" using chain_live [OF c(1) x] by blast
    have "mbytes h1 x = mbytes h x" by (rule frame_bytes [OF A(2) ok A(1) y]) simp
    moreover have "mbytes ?h2 x = mbytes h1 x" by (rule mbytes_other) (use x b in auto)
    moreover have "mbytes ?h3 x = mbytes ?h2 x" by (rule mbytes_relink [OF z2])
    ultimately show ?thesis by simp
  qed
  have ch: "chain ?h3 p (as @ [b])"
    by (rule chain_snoc [OF c m b M]) (use n(3) in \<open>simp add: new_ok_def\<close>)
  show thesis
    by (rule that [of ?h2 ?h3 ?n]) (use b1 z2 ok3 fr ch n M A(3) same ext in \<open>simp_all add: upd_mbuf_def new_ok_def\<close>)
qed

lemma overwrite_ok:
  assumes ok: "heap_ok h" and n: "mbufs h b = Some n" "\<not> flag n M_EXT" and xs: "length xs = m_len n"
  obtains h' n' where "copy_to b 0 xs h = Some h'" "heap_ok h'" "frame {b} h h'" "brk h' = brk h" "mbufs h' = (mbufs h)(b \<mapsto> n')"
    "m_next n' = m_next n" "m_type n' = m_type n" "m_len n' = m_len n" "mbytes h' b = xs"
proof -
  let ?n = "n\<lparr>m_dat := splice (m_dat n) (m_data n + 0) xs\<rparr>"
  let ?h = "h\<lparr>mbufs := (mbufs h)(b \<mapsto> ?n)\<rparr>"
  have l: "local_ok h b n" by (rule heap_local [OF ok n(1)])
  have fit: "m_data n + length xs \<le> length (m_dat n)" using l n(2) xs by (simp add: local_ok_def)
  have eq: "copy_to b 0 xs h = Some ?h" by (rule copy_to_ok [OF ok n]) (use fit l in \<open>simp add: local_ok_def\<close>)
  have ok': "heap_ok ?h" by (rule upd_ok [OF ok n(1)]) (use l n(2) fit in \<open>simp_all add: local_ok_def\<close>)
  have "mbytes ?h b = xs" using n(2) xs fit by (simp add: mbytes_def buffer_def splice_def)
  then show thesis by (intro that [of ?h ?n, OF eq ok']) (simp_all add: frame_def)
qed

lemma overwrite_nothing:
  assumes "heap_ok h" "mbufs h a = Some m"
  shows "copy_to a 0 [] h = Some h"
proof -
  obtain b where b: "buffer h m = Some b" "m_data m + m_len m \<le> length b" using local_buffer [OF heap_local [OF assms]] .
  have sp: "splice b (m_data m) [] = b" by (simp add: splice_def)
  show ?thesis
  proof (cases "flag m M_EXT")
    case True
    then obtain c where c: "ext_buf (m_ext_of m) = Some c" "clusters h c = Some b" using b(1) by (auto simp: buffer_def bind_eq_Some_conv)
    then have "(clusters h)(c \<mapsto> b) = clusters h" by (simp add: fun_upd_idem)
    then show ?thesis using True c b sp assms(2) by (simp add: copy_to_def)
  next
    case False
    then have "m\<lparr>m_dat := b\<rparr> = m" using b(1) by (simp add: buffer_def)
    then have "(mbufs h)(a \<mapsto> m\<lparr>m_dat := b\<rparr>) = mbufs h" using assms(2) by (simp add: fun_upd_idem)
    then show ?thesis using False b sp assms(2) by (simp add: copy_to_def)
  qed
qed

lemma copyback_loop_steps:
  assumes "mbufs h a = Some m" "m_next m = None" "copy_to a 0 (take (m_len m) cp) h = Some h1" "cp \<noteq> []"
  shows "length cp \<le> m_len m \<Longrightarrow> copyback_loop a 0 cp t h = Some (t + length cp, h1)"
    and "m_len m < length cp \<Longrightarrow> m_get (m_type m) h1 = (None, h2) \<Longrightarrow> copyback_loop a 0 cp t h = Some (t + m_len m, h2)"
    and "m_len m < length cp \<Longrightarrow> m_get (m_type m) h1 = (Some b, h2) \<Longrightarrow>
      upd_mbuf b (\<lambda>n. n\<lparr>m_len := min MLEN (length cp - m_len m)\<rparr>) h2 = Some h3 \<Longrightarrow> upd_mbuf a (\<lambda>m. m\<lparr>m_next := Some b\<rparr>) h3 = Some h4 \<Longrightarrow>
      copyback_loop a 0 cp t h = copyback_loop b 0 (drop (m_len m) cp) (t + m_len m) h4"
  using assms by (subst copyback_loop.simps, simp add: Let_def)+

definition written :: "mheap \<Rightarrow> nat option \<Rightarrow> nat list \<Rightarrow> bytes \<Rightarrow> bytes \<Rightarrow> mheap \<Rightarrow> bool" where
  "written h p as d cp h' \<longleftrightarrow> heap_ok h' \<and> frame (set as) h h' \<and>
     (\<forall>x \<in> set as. map_option m_len (mbufs h' x) = map_option m_len (mbufs h x)) \<and>
     (\<exists>ns j. chain h' p (as @ ns) \<and> chain_data h' (as @ ns) = d @ take j cp \<and> (\<forall>x \<in> set ns. brk h \<le> x) \<and>
        (\<forall>x. x \<notin> set as \<union> set ns \<longrightarrow> mbufs h' x = mbufs h x) \<and> (j = length cp \<or> (\<exists>i. new_mbuf h i = None)))"

text \<open>The data so far, after the last mbuf has been filled.\<close>

lemma filled_data:
  assumes ok: "heap_ok h" "heap_ok h1" and c: "chain h p as" "as \<noteq> []" and f: "frame {last as} h h1" and b: "mbytes h1 (last as) = xs"
  shows "chain_data h1 as = chain_data h (butlast as) @ xs"
proof -
  have as: "as = butlast as @ [last as]" using c(2) by simp
  have d: "last as \<notin> set (butlast as)" using chain_distinct [OF c(1)] as by (metis distinct_append disjoint_iff list.set_intros(1))
  have "mbytes h1 x = mbytes h x" if x: "x \<in> set (butlast as)" for x
  proof -
    have "x \<noteq> last as" using x d by blast
    then show ?thesis using chain_live [OF c(1) in_set_butlastD [OF x]] frame_bytes [OF f ok] by auto
  qed
  then have "chain_data h1 (butlast as) = chain_data h (butlast as)" by (rule chain_data_cong)
  moreover have "chain_data h1 as = chain_data h1 (butlast as) @ mbytes h1 (last as)"
    by (subst (1) as) (simp only: chain_data_simps append_Nil2)
  ultimately show ?thesis using b by simp
qed

lemma copyback_round:
  assumes ok: "heap_ok h" and c: "chain h p as" "as \<noteq> []" and m: "mbufs h (last as) = Some m" and lt: "m_len m < length cp"
    and w: "copy_to (last as) 0 (take (m_len m) cp) h = Some h1" and h1: "heap_ok h1" "frame {last as} h h1" "brk h1 = brk h"
    "mbufs h1 = (mbufs h)(last as \<mapsto> m1)" "m_next m1 = m_next m" "m_type m1 = m_type m" "m_len m1 = m_len m" "mbytes h1 (last as) = take (m_len m) cp"
    and IH: "\<And>h4 b n t. heap_ok h4 \<Longrightarrow> chain h4 p (as @ [b]) \<Longrightarrow> mbufs h4 b = Some n \<Longrightarrow> \<not> flag n M_EXT \<Longrightarrow>
      m_len n = min MLEN (length cp - m_len m) \<Longrightarrow> \<exists>t' h'. copyback_loop b 0 (drop (m_len m) cp) t h4 = Some (t', h') \<and>
        written h4 p (as @ [b]) (chain_data h4 as) (drop (m_len m) cp) h'"
  shows "\<exists>t' h'. copyback_loop (last as) 0 cp t h = Some (t', h') \<and> written h p as (chain_data h (butlast as)) cp h'"
proof -
  let ?z = "last as" and ?cp = "drop (m_len m) cp"
  have z: "?z \<in> set as" using c(2) by simp
  obtain m0 where "mbufs h ?z = Some m0" "m_next m0 = None" by (rule chain_last [OF c])
  then have mn: "m_next m = None" using m by simp
  have cp: "cp \<noteq> []" using lt by auto
  have c1: "chain h1 p as" by (rule chain_same_next [OF c(1)]) (use h1(4,5) m in auto)
  have m1: "mbufs h1 ?z = Some m1" using h1(4) by simp
  have d1: "chain_data h1 as = chain_data h (butlast as) @ take (m_len m) cp" by (rule filled_data [OF ok h1(1) c h1(2,8)])
  obtain q h2 where al: "m_get (m_type m) h1 = (q, h2)" by fastforce
  have al': "(if False then m_gethdr (m_type m1) h1 else m_get (m_type m1) h1) = (q, h2)" using al h1(6) by simp
  note A = alloc_cases [OF h1(1) m1 al']
  show ?thesis
  proof (cases q)
    case None
    have M: "mbufs h2 = mbufs h1" using A(4) None by simp
    have ch: "chain h2 p as" using c1 M by (metis chain_frame)
    have f: "frame (set as) h h2" by (rule frame_trans [OF frame_mono [OF h1(2)] A(2)]) (use z in auto)
    have "chain_data h2 as = chain_data h1 as" using frame_chain(2) [OF A(2) h1(1) A(1) c1] by simp
    moreover have "new_mbuf h1 (brk h1) = None" using al None by (auto simp: m_get_def alloc_mbuf_def split: option.splits)
    then have "\<exists>i. new_mbuf h i = None" using h1(2) by (auto simp: frame_def)
    moreover have "\<forall>x. x \<notin> set as \<longrightarrow> mbufs h2 x = mbufs h x" using M h1(4) z by auto
    moreover have "\<forall>x \<in> set as. map_option m_len (mbufs h2 x) = map_option m_len (mbufs h x)" using M h1(4,7) m by auto
    ultimately have "written h p as (chain_data h (butlast as)) cp h2" unfolding written_def
      using A(1) f ch d1 by (intro conjI exI [of _ "[]"] exI [of _ "m_len m"]) auto
    then show ?thesis using copyback_loop_steps(2) [OF m mn w cp lt al [unfolded None]] by blast
  next
    case (Some b)
    have al1: "m_get (m_type m1) h1 = (Some b, h2)" using al Some h1(6) by simp
    have k: "min MLEN (length cp - m_len m) \<le> MLEN" by simp
    obtain h3 h4 n where G: "upd_mbuf b (\<lambda>n. n\<lparr>m_len := min MLEN (length cp - m_len m)\<rparr>) h2 = Some h3"
        "upd_mbuf ?z (\<lambda>m. m\<lparr>m_next := Some b\<rparr>) h3 = Some h4" "heap_ok h4" "frame (set as) h1 h4" "chain h4 p (as @ [b])" "b = brk h1"
        "brk h1 < brk h4" "mbufs h4 = (mbufs h1)(?z \<mapsto> m1\<lparr>m_next := Some b\<rparr>, b \<mapsto> n)" "m_len n = min MLEN (length cp - m_len m)"
        "m_next n = None" "\<not> flag n M_EXT" "\<forall>x \<in> set as. mbytes h4 x = mbytes h1 x"
      by (rule copyback_grow [OF h1(1) c1 c(2) m1 al1 k])
    obtain t' h' where R: "copyback_loop b 0 ?cp (t + m_len m) h4 = Some (t', h')" "written h4 p (as @ [b]) (chain_data h4 as) ?cp h'"
      using IH [OF G(3,5) _ G(11,9), of "t + m_len m"] G(8) by auto
    have d4: "chain_data h4 as = chain_data h1 as" using G(12) by (metis chain_data_cong)
    have f4: "frame (set as) h h4" by (rule frame_trans [OF frame_mono [OF h1(2)] G(4)]) (use z in auto)
    obtain ns j where ns: "chain h' p ((as @ [b]) @ ns)" "chain_data h' ((as @ [b]) @ ns) = chain_data h4 as @ take j ?cp"
        "\<forall>x \<in> set ns. brk h4 \<le> x" "\<forall>x. x \<notin> set (as @ [b]) \<union> set ns \<longrightarrow> mbufs h' x = mbufs h4 x"
        "j = length ?cp \<or> (\<exists>i. new_mbuf h4 i = None)" "heap_ok h'" "frame (set (as @ [b])) h4 h'"
        "\<forall>x \<in> set (as @ [b]). map_option m_len (mbufs h' x) = map_option m_len (mbufs h4 x)"
      using R(2) unfolding written_def by blast
    have "frame (set as) h h'" by (rule frame_trans [OF f4 ns(7)]) (use G(6) h1(3) in auto)
    moreover have "chain_data h' (as @ b # ns) = chain_data h (butlast as) @ take (m_len m + j) cp"
      using ns(2) d4 d1 by (simp add: take_add del: chain_data_simps)
    moreover have "\<forall>x \<in> set (b # ns). brk h \<le> x" using ns(3) G(6,7) h1(3) by auto
    moreover have "\<forall>x. x \<notin> set as \<union> set (b # ns) \<longrightarrow> mbufs h' x = mbufs h x" using ns(4) G(8) h1(4) z by auto
    moreover have "m_len m + j = length cp \<or> (\<exists>i. new_mbuf h i = None)" using ns(5) f4 lt by (auto simp: frame_def)
    moreover have "b \<notin> set as" using chain_lt [OF ok c(1)] G(6) h1(3) by auto
    then have "\<forall>x \<in> set as. map_option m_len (mbufs h4 x) = map_option m_len (mbufs h x)" using G(8) h1(4,7) m by auto
    then have "\<forall>x \<in> set as. map_option m_len (mbufs h' x) = map_option m_len (mbufs h x)" using ns(8) by simp
    ultimately have "written h p as (chain_data h (butlast as)) cp h'" unfolding written_def
      using ns(1,6) by (intro conjI exI [of _ "b # ns"] exI [of _ "m_len m + j"]) simp_all
    then show ?thesis using copyback_loop_steps(3) [OF m mn w cp lt al [unfolded Some] G(1,2)] R(1) by auto
  qed
qed

lemma copyback_tail:
  assumes "heap_ok h" "chain h p as" "as \<noteq> []" "mbufs h (last as) = Some m" "\<not> flag m M_EXT" "m_len m = min MLEN (length cp)" "cp \<noteq> []"
  shows "\<exists>t' h'. copyback_loop (last as) 0 cp t h = Some (t', h') \<and> written h p as (chain_data h (butlast as)) cp h'"
  using assms
proof (induction "length cp" arbitrary: h as m cp t rule: less_induct)
  case less
  note ok = less.prems(1) and c = less.prems(2,3) and m = less.prems(4,5)
  have z: "last as \<in> set as" using c(2) by simp
  obtain m0 where "mbufs h (last as) = Some m0" "m_next m0 = None" by (rule chain_last [OF c])
  then have mn: "m_next m = None" using m(1) by simp
  have l: "length (take (m_len m) cp) = m_len m" using less.prems(6) by simp
  obtain h1 m1 where W: "copy_to (last as) 0 (take (m_len m) cp) h = Some h1" "heap_ok h1" "frame {last as} h h1" "brk h1 = brk h"
      "mbufs h1 = (mbufs h)(last as \<mapsto> m1)" "m_next m1 = m_next m" "m_type m1 = m_type m" "m_len m1 = m_len m"
      "mbytes h1 (last as) = take (m_len m) cp"
    by (rule overwrite_ok [OF ok m l])
  show ?case
  proof (cases "length cp \<le> MLEN")
    case True
    then have full: "length cp \<le> m_len m" using less.prems(6) by simp
    have "chain h1 p as" by (rule chain_same_next [OF c(1)]) (use W(5,6) m in auto)
    moreover have "chain_data h1 as = chain_data h (butlast as) @ cp" using filled_data [OF ok W(2) c W(3,9)] full by simp
    moreover have "frame (set as) h h1" using W(3) z by (auto intro: frame_mono)
    moreover have "\<forall>x \<in> set as. map_option m_len (mbufs h1 x) = map_option m_len (mbufs h x)" using W(5,8) m(1) by auto
    ultimately have "written h p as (chain_data h (butlast as)) cp h1" unfolding written_def
      using W(2,5) z by (intro conjI exI [of _ "[]"] exI [of _ "length cp"]) auto
    then show ?thesis using copyback_loop_steps(1) [OF m(1) mn W(1) less.prems(7) full] by blast
  next
    case False
    then have lt: "m_len m < length cp" and pos: "0 < m_len m" using less.prems(6) by (simp_all add: MLEN_def)
    show ?thesis
    proof (rule copyback_round [OF ok c m(1) lt W])
      fix h4 b n t
      assume h4: "heap_ok h4" "chain h4 p (as @ [b])" "mbufs h4 b = Some n" "\<not> flag n M_EXT" "m_len n = min MLEN (length cp - m_len m)"
      have "length (drop (m_len m) cp) < length cp" using lt pos by simp
      from less.hyps [OF this h4(1,2), of n t]
      show "\<exists>t' h'. copyback_loop b 0 (drop (m_len m) cp) t h4 = Some (t', h') \<and>
          written h4 p (as @ [b]) (chain_data h4 as) (drop (m_len m) cp) h'"
        using h4(3-5) lt by simp
    qed
  qed
qed

lemma copyback_empty_loop:
  assumes ok: "heap_ok h" and m: "mbufs h a = Some m" "m_next m = None" "m_len m = 0"
  shows "\<exists>t' h'. copyback_loop a 0 cp t h = Some (t', h') \<and> written h (Some a) [a] [] cp h'"
proof -
  have c: "chain h (Some a) [a]" using m by simp
  have e: "mbytes h a = []" using length_mbytes [OF ok m(1)] m(3) by simp
  show ?thesis
  proof (cases "cp = []")
    case True
    have "copyback_loop a 0 cp t h = Some (t, h)" using True by (subst copyback_loop.simps) simp
    then show ?thesis using True ok c e by (auto simp: written_def intro!: exI [of _ "[]"])
  next
    case False
    have "\<exists>t' h'. copyback_loop (last [a]) 0 cp t h = Some (t', h') \<and> written h (Some a) [a] (chain_data h (butlast [a])) cp h'"
    proof (rule copyback_round [OF ok c, of m _ h m])
      fix h4 b n t
      assume h4: "heap_ok h4" "chain h4 (Some a) ([a] @ [b])" "mbufs h4 b = Some n" "\<not> flag n M_EXT" "m_len n = min MLEN (length cp - m_len m)"
      from copyback_tail [OF h4(1,2), of n cp t]
      show "\<exists>t' h'. copyback_loop b 0 (drop (m_len m) cp) t h4 = Some (t', h') \<and>
          written h4 (Some a) ([a] @ [b]) (chain_data h4 [a]) (drop (m_len m) cp) h'"
        using h4(3-5) m(3) False by simp
    qed (use m False overwrite_nothing [OF ok m(1)] ok e in \<open>auto simp: fun_upd_idem\<close>)
    then show ?thesis by simp
  qed
qed

lemma m_copyback_empty:
  assumes ok: "heap_ok h" and m: "mbufs h a = Some m" "m_next m = None" "m_len m = 0"
  shows "\<exists>h'. m_copyback (Some a) 0 cp h = Some h' \<and> written h (Some a) [a] [] cp h'"
proof -
  obtain t h1 where L: "copyback_loop a 0 cp 0 h = Some (t, h1)" "written h (Some a) [a] [] cp h1"
    using copyback_empty_loop [OF assms] by blast
  then obtain ns j where W: "chain h1 (Some a) (a # ns)" "chain_data h1 (a # ns) = take j cp" "\<forall>x \<in> set ns. brk h \<le> x"
      "\<forall>x. x \<notin> set [a] \<union> set ns \<longrightarrow> mbufs h1 x = mbufs h x" "j = length cp \<or> (\<exists>i. new_mbuf h i = None)" "heap_ok h1" "frame (set [a]) h h1"
      "map_option m_len (mbufs h1 a) = Some 0"
    unfolding written_def using m by auto
  obtain m1 where m1: "mbufs h1 a = Some m1" using W(1) by auto
  obtain h2 m2 where P: "add_pkt_len a (\<lambda>l. if l < int t then int t else l) h1 = Some h2" "heap_ok h2" "frame {a} h1 h2" "brk h2 = brk h1"
      "mbufs h2 = (mbufs h1)(a \<mapsto> m2)" "m_next m2 = m_next m1" "\<forall>x. mbytes h2 x = mbytes h1 x"
    by (rule add_pkt_len_ok [OF W(6) m1])
  have "chain h2 (Some a) (a # ns)" by (rule chain_same_next [OF W(1)]) (use P(5,6) m1 in auto)
  moreover have "chain_data h2 (a # ns) = take j cp" using W(2) P(7) by (metis chain_data_cong)
  moreover have "frame (set [a]) h h2" by (rule frame_trans [OF W(7) P(3)]) simp
  moreover have "\<forall>x. x \<notin> set [a] \<union> set ns \<longrightarrow> mbufs h2 x = mbufs h x" using W(4) P(5) by simp
  moreover have "m_len m2 = 0"
    using length_mbytes [OF P(2), of a m2] length_mbytes [OF W(6) m1] P(5,7) W(8) m1 by simp
  then have "map_option m_len (mbufs h2 a) = map_option m_len (mbufs h a)" using P(5) m by simp
  ultimately have "written h (Some a) [a] [] cp h2" unfolding written_def
    using W(3,5) P(2) by (intro conjI exI [of _ ns] exI [of _ j]) simp_all
  moreover have "copyback_skip a 0 (length cp) 0 h = Some (Some a, 0, 0, h)" using m(1) by (subst copyback_skip.simps) simp
  ultimately show ?thesis using L(1) P(1) by (simp add: m_copyback_def)
qed

section \<open>Receiving a packet\<close>

lemma get_mbuf_for_msg_ok:
  assumes ok: "heap_ok h" and ty: "type \<noteq> MT_NOINIT" and mem: "\<And>n. new_clust h n \<noteq> None" "\<And>n. new_ref h n"
  shows "\<exists>r h'. sctp_get_mbuf_for_msg th space hdr one type h = Some (r, h') \<and> heap_ok h' \<and> frame {} h h' \<and>
    (r = None \<and> mbufs h' = mbufs h \<and> new_mbuf h (brk h) = None \<or>
     (\<exists>m. r = Some (brk h) \<and> mbufs h' = (mbufs h)(brk h \<mapsto> m) \<and> m_next m = None \<and> m_len m = 0 \<and> brk h < brk h'))"
proof -
  let ?fl = "if hdr then M_PKTHDR else 0"
  obtain p h1 where al: "alloc_mbuf ?fl type h = (p, h1)" by fastforce
  then have al': "(if hdr then m_gethdr type h else m_get type h) = (p, h1)" by (simp add: m_get_def m_gethdr_def split: if_splits)
  have fl: "?fl = 0 \<or> ?fl = M_PKTHDR" by simp
  note A = alloc_ok [OF ok ty fl al]
  show ?thesis
  proof (cases p)
    case None
    then have "new_mbuf h (brk h) = None" using al by (auto simp: alloc_mbuf_def split: option.splits)
    moreover have "mbufs h1 = mbufs h" using A(6) None by simp
    moreover have "sctp_get_mbuf_for_msg th space hdr one type h = Some (None, h1)" using al' None by (simp add: sctp_get_mbuf_for_msg_def)
    ultimately show ?thesis using A(1,2) by auto
  next
    case (Some a)
    then obtain m where m: "a = brk h" "mbufs h1 = (mbufs h)(brk h \<mapsto> m)" "new_ok ?fl type m" using A(6) by auto
    have a1: "mbufs h1 a = Some m" using m by simp
    let ?big = "sint space > ((if one then 1 else th) - 1) * int MLEN + int MHLEN"
    have "\<exists>h2 m2. (if ?big then m_clget (Some a) h1 else Some h1) = Some h2 \<and> heap_ok h2 \<and> frame {a} h1 h2 \<and>
        mbufs h2 = (mbufs h1)(a \<mapsto> m2) \<and> (?big \<longrightarrow> flag m2 M_EXT) \<and> m_len m2 = 0 \<and> brk h1 \<le> brk h2"
    proof (cases ?big)
      case True
      have ext: "\<not> flag m M_EXT" by (rule new_local(2) [OF m(3) ty fl])
      have l0: "m_len m = 0" using m(3) by (simp add: new_ok_def)
      have mem1: "\<And>n. new_clust h1 n \<noteq> None" "\<And>n. new_ref h1 n" using mem A(2) by (simp_all add: frame_def)
      obtain h2 m2 where "m_clget (Some a) h1 = Some h2" "heap_ok h2" "frame {a} h1 h2" "mbufs h2 = (mbufs h1)(a \<mapsto> m2)" "flag m2 M_EXT"
          "m_len m2 = 0" "m_next m2 = m_next m" "brk h1 \<le> brk h2"
        by (rule m_clget_ok [OF A(1) a1 ext l0 mem1])
      then show ?thesis using True by auto
    next
      case False
      then show ?thesis using A(1) m by (intro exI [of _ h1] exI [of _ m]) (auto simp: new_ok_def fun_upd_idem)
    qed
    then obtain h2 m2 where C: "(if ?big then m_clget (Some a) h1 else Some h1) = Some h2" "heap_ok h2" "frame {a} h1 h2"
        "mbufs h2 = (mbufs h1)(a \<mapsto> m2)" "?big \<longrightarrow> flag m2 M_EXT" "m_len m2 = 0" "brk h1 \<le> brk h2" by blast
    let ?m = "m2\<lparr>m_len := 0, m_next := None, m_nextpkt := None\<rparr>"
    let ?h = "h2\<lparr>mbufs := (mbufs h2)(a \<mapsto> ?m)\<rparr>"
    have a2: "mbufs h2 a = Some m2" using C(4) by simp
    have "upd_mbuf a (\<lambda>x. x\<lparr>m_len := 0, m_next := None, m_nextpkt := None\<rparr>) h2 = Some ?h" by (rule upd_mbuf_eq [OF a2])
    then have eq: "sctp_get_mbuf_for_msg th space hdr one type h = Some (Some a, ?h)"
      using al' Some C(1,5) a2 by (simp add: sctp_get_mbuf_for_msg_def Let_def split: if_splits)
    have "local_ok h2 a ?m" using heap_local [OF C(2) a2] by (auto simp: local_ok_def split: if_splits)
    then have "heap_ok ?h" by (intro upd_ok [OF C(2) a2]) simp_all
    moreover have "frame {a} h1 ?h" by (rule frame_trans [OF C(3) frame_upd]) auto
    then have "frame {} h ?h" by (rule frame_trans [OF A(2)]) (use m(1) in simp)
    ultimately show ?thesis using eq m(1,2) C(4,7) A(5) by auto
  qed
qed

lemma chain_bufs_simps:
  "chain_bufs addr h None = Some []"
  "chain_bufs addr h (Some a) = Option.bind (mbufs h a) (\<lambda>m. Option.bind (copy_from h a 0 (m_len m)) (\<lambda>xs.
     Option.bind (chain_bufs addr h (m_next m)) (\<lambda>bs. Some (\<lparr>m_addr = addr a, m_bytes = xs\<rparr> # bs))))"
  by (subst chain_bufs.simps, simp)+

lemma chain_bufs_ok:
  assumes "heap_ok h" "chain h p as" "length (chain_data h as) < 2 ^ 31"
  shows "\<exists>bs. chain_bufs addr h p = Some bs \<and> chain_bytes bs = chain_data h as \<and> chain_ok bs"
  using assms
proof (induction as arbitrary: p)
  case Nil
  then show ?case by (simp add: chain_bufs_simps)
next
  case (Cons a as)
  then obtain m where m: "p = Some a" "mbufs h a = Some m" "chain h (m_next m) as" by auto
  have "length (chain_data h as) < 2 ^ 31" "length (mbytes h a) < 2 ^ 31" using Cons.prems(3) by simp_all
  moreover from this obtain bs where "chain_bufs addr h (m_next m) = Some bs" "chain_bytes bs = chain_data h as" "chain_ok bs"
    using Cons.IH [OF Cons.prems(1) m(3)] by blast
  ultimately show ?case
    using m copy_from_ok [OF Cons.prems(1) m(2), of 0 "m_len m"] length_mbytes [OF Cons.prems(1) m(2)] by (simp add: chain_bufs_simps)
qed

text \<open>What a receiver has to check (RFC 4960, section 6.8): the field holds the CRC-32C of the packet with the field zeroed.\<close>

definition good_checksum :: "bytes \<Rightarrow> bool" where
  "good_checksum d \<longleftrightarrow>
     map_option fst (read_le32 (drop 8 d)) = Some (NOT (crc_spec 0xffffffff (take 8 d @ replicate 4 0 @ drop 12 d)))"

lemma cut_list:
  fixes b :: "'a list"
  assumes "d + n \<le> length b"
  obtains p q r where "b = p @ q @ r" "length p = d" "length q = n"
proof (rule that [of "take d b" "take n (drop d b)" "drop (d + n) b"])
  show "b = take d b @ take n (drop d b) @ drop (d + n) b" by (metis append_take_drop_id add.commute drop_drop)
qed (use assms in auto)

lemma splice_back:
  assumes "i + length xs \<le> length b" "length xs = k"
  shows "splice (splice b i xs) i (take k (drop i b)) = b"
  by (rule cut_list [OF assms(1)]) (use assms in \<open>simp add: splice_def\<close>)

lemma splice_window:
  assumes "i + length xs \<le> n" "d + n \<le> length b"
  shows "take n (drop d (splice b (d + i) xs)) = splice (take n (drop d b)) i xs"
  by (rule cut_list [OF assms(2)]) (use assms in \<open>simp add: splice_def\<close>)

lemma input_cksum_ok:
  assumes ok: "heap_ok h" and c: "chain h (Some a) (a # zs)" and m: "mbufs h a = Some m" "\<not> flag m M_EXT" "12 \<le> m_len m"
    and l: "length (chain_data h (a # zs)) < 2 ^ 31"
  shows "input_cksum addr a h = Some (good_checksum (chain_data h (a # zs)), h)"
proof -
  let ?x = "mbytes h a" and ?z = "replicate 4 (0 :: u8)"
  let ?f = "take 4 (drop 8 ?x)" and ?D = "m_data m + 8"
  let ?m = "m\<lparr>m_dat := splice (m_dat m) ?D ?z\<rparr>"
  let ?h = "h\<lparr>mbufs := (mbufs h)(a \<mapsto> ?m)\<rparr>"
  have loc: "local_ok h a m" by (rule heap_local [OF ok m(1)])
  have fit: "?D + 4 \<le> length (m_dat m)" "length (m_dat m) = MLEN" "m_data m + m_len m \<le> MLEN"
    using loc m(2,3) by (auto simp: local_ok_def)
  have lx: "length ?x = m_len m" by (rule length_mbytes [OF ok m(1)])
  have lf: "length ?f = 4" using lx m(3) by simp
  have x: "?x = take (m_len m) (drop (m_data m) (m_dat m))" using m(1,2) by (simp add: mbytes_def buffer_def)
  have f: "?f = take 4 (drop ?D (m_dat m))" using m(3) by (simp add: x drop_take add.commute)
  have rd: "copy_from h a 8 4 = Some ?f" using copy_from_ok [OF ok m(1), of 8 4] m(3) by simp
  have wr: "copy_to a 8 ?z h = Some ?h" by (rule copy_to_ok [OF ok m(1,2)]) (use fit in simp)
  have ok1: "heap_ok ?h" by (rule upd_ok [OF ok m(1)]) (use loc m(2) fit in \<open>simp_all add: local_ok_def\<close>)
  have a1: "mbufs ?h a = Some ?m" by simp
  have "splice (splice (m_dat m) ?D ?z) ?D ?f = m_dat m" unfolding f by (rule splice_back) (use fit in simp_all)
  then have "copy_to a 8 ?f ?h = Some (?h\<lparr>mbufs := (mbufs ?h)(a \<mapsto> ?m\<lparr>m_dat := m_dat m\<rparr>)\<rparr>)"
    using copy_to_ok [OF ok1 a1, of 8 ?f] m(2) lf fit by simp
  also have "?h\<lparr>mbufs := (mbufs ?h)(a \<mapsto> ?m\<lparr>m_dat := m_dat m\<rparr>)\<rparr> = h\<lparr>mbufs := (mbufs h)(a \<mapsto> m)\<rparr>" by simp
  also have "(mbufs h)(a \<mapsto> m) = mbufs h" using m(1) by (simp add: fun_upd_idem)
  also have "h\<lparr>mbufs := mbufs h\<rparr> = h" by simp
  finally have undo: "copy_to a 8 ?f ?h = Some h" .
  have az: "a \<notin> set zs" using chain_distinct [OF c] by simp
  have b1: "mbytes ?h a = take 8 ?x @ ?z @ drop 12 ?x"
    using m fit splice_window [of 8 ?z "m_len m" "m_data m" "m_dat m"] by (simp add: mbytes_def buffer_def x splice_def [of _ 8])
  have "chain_data ?h zs = chain_data h zs" by (rule chain_data_cong, rule mbytes_other) (use az in auto)
  then have d1: "chain_data ?h (a # zs) = take 8 (chain_data h (a # zs)) @ ?z @ drop 12 (chain_data h (a # zs))"
    using b1 lx m(3) by simp
  have "chain ?h (Some a) (a # zs)" by (rule chain_same_next [OF c]) (use m(1) in auto)
  moreover have "length (chain_data ?h (a # zs)) < 2 ^ 31" using l lx m(3) unfolding d1 by simp
  ultimately obtain bs where bs: "chain_bufs addr ?h (Some a) = Some bs" "chain_bytes bs = chain_data ?h (a # zs)" "chain_ok bs"
    using chain_bufs_ok [OF ok1] by blast
  have "\<exists>p q r s. y = [p, q, r, s]" if "length y = 4" for y :: bytes using that by (auto simp: numeral_eq_Suc length_Suc_conv)
  from this [OF lf] obtain p q r s where pq: "?f = [p, q, r, s]" by blast
  have "drop 8 (chain_data h (a # zs)) = ?f @ drop 12 ?x @ chain_data h zs"
    using lx m(3) append_take_drop_id [of 4 "drop 8 ?x"] by simp
  then have rl: "map_option fst (read_le32 (drop 8 (chain_data h (a # zs)))) = map_option fst (read_le32 ?f)" by (simp add: pq)
  let ?d = "chain_data h (a # zs)"
  have "sctp_calculate_cksum bs 0 = Some (NOT (crc_spec 0xffffffff (take 8 ?d @ ?z @ drop 12 ?d)))"
    using cksum_spec [OF bs(3), of 0] unfolding bs(2) d1 by (simp del: chain_data_simps crc_spec_simps)
  then show ?thesis unfolding input_cksum_def good_checksum_def rl
    using rd wr bs(1) undo pq by (auto simp del: chain_data_simps crc_spec_simps)
qed

lemma sint_length: "n < 2 ^ 31 \<Longrightarrow> sint (of_nat n :: u32) = int n"
  using signed_take_bit_int_eq_self [of 31 "int n"] by (simp add: signed_of_nat)

lemma conninput_ok:
  assumes ok: "heap_ok h" and mem: "\<And>n. new_clust h n \<noteq> None" "\<And>n. new_ref h n" and len: "length buf < 2 ^ 31"
  obtains (dropped) h' where "usrsctp_conninput th process buf h = Some h'" "heap_ok h'" "frame {} h h'" "mbufs h' = mbufs h"
      "length buf < 16 \<or> (\<exists>i. new_mbuf h i = None)"
  | (passed) b zs j h' where "usrsctp_conninput th process buf h =
        Option.bind (process b (take 2 buf) (take 2 (drop 2 buf)) h') (\<lambda>(q, h4). m_freem q h4)"
      "heap_ok h'" "frame {} h h'" "chain h' (Some b) (b # zs)" "set (b # zs) \<subseteq> {x. brk h \<le> x}"
      "\<forall>x. x \<notin> set (b # zs) \<longrightarrow> mbufs h' x = mbufs h x" "chain_data h' (b # zs) = take j buf" "16 \<le> length (take j buf)"
      "j = length buf \<or> (\<exists>i. new_mbuf h i = None)" "\<forall>addr. input_cksum addr b h' = Some (good_checksum (take j buf), h')"
proof -
  have ty: "MT_DATA \<noteq> MT_NOINIT" by (simp add: MT_DATA_def MT_NOINIT_def)
  obtain r h1 where G: "sctp_get_mbuf_for_msg th (of_nat (length buf)) True False MT_DATA h = Some (r, h1)" "heap_ok h1" "frame {} h h1"
      "r = None \<and> mbufs h1 = mbufs h \<and> new_mbuf h (brk h) = None \<or>
       (\<exists>m. r = Some (brk h) \<and> mbufs h1 = (mbufs h)(brk h \<mapsto> m) \<and> m_next m = None \<and> m_len m = 0 \<and> brk h < brk h1)"
    using get_mbuf_for_msg_ok [OF ok ty mem, of th "of_nat (length buf)" True False] by blast
  have full: "take (nat (sint (of_nat (length buf) :: u32))) buf = buf" using sint_length [OF len] by simp
  show thesis
  proof (cases r)
    case None
    then have "usrsctp_conninput th process buf h = Some h1" using G(1) by (simp add: usrsctp_conninput_def)
    then show thesis by (rule dropped) (use G(2-4) None in auto)
  next
    case (Some a)
    then obtain m where m: "a = brk h" "mbufs h1 = (mbufs h)(a \<mapsto> m)" "m_next m = None" "m_len m = 0" "brk h < brk h1" using G(4) by auto
    have a1: "mbufs h1 a = Some m" using m(2) by simp
    obtain h2 where C: "m_copyback (Some a) 0 buf h1 = Some h2" "written h1 (Some a) [a] [] buf h2"
      using m_copyback_empty [OF G(2) a1 m(3,4)] by blast
    then obtain ns j where W: "chain h2 (Some a) (a # ns)" "chain_data h2 (a # ns) = take j buf" "\<forall>x \<in> set ns. brk h1 \<le> x"
        "\<forall>x. x \<notin> set (a # ns) \<longrightarrow> mbufs h2 x = mbufs h1 x" "j = length buf \<or> (\<exists>i. new_mbuf h1 i = None)" "heap_ok h2" "frame {a} h1 h2"
        "map_option m_len (mbufs h2 a) = Some 0"
      unfolding written_def using a1 m(4) by auto
    have new: "new_mbuf h1 = new_mbuf h" "new_mbuf h2 = new_mbuf h" using G(3) W(7) by (simp_all add: frame_def)
    obtain x where x: "mbufs h2 a = Some x" "m_len x = 0" using W(8) by auto
    obtain q h3 where P: "m_pullup a 16 h2 = Some (q, h3)" "pulled_up h2 (set (a # ns)) (take j buf) 16 q h3"
        "q = None \<longrightarrow> length (take j buf) < 16 \<or> MHLEN < 16 \<or> new_mbuf h2 (brk h2) = None"
      using m_pullup_ok [OF W(6,1), of 16] unfolding W(2) by blast
    have fresh: "set (a # ns) \<subseteq> {x. brk h \<le> x}" using W(3) m(1,5) by auto
    have none: "mbufs h y = None" if "brk h \<le> y" for y using heap_lt [OF ok, of y] that by (cases "mbufs h y") auto
    have f3: "frame {} h h3"
    proof -
      have "frame {a} h h2" by (rule frame_trans [OF frame_mono [OF G(3)] W(7)]) simp_all
      then have "frame (set (a # ns)) h h2" by (rule frame_mono) simp
      then have "frame (set (a # ns)) h h3" by (rule frame_trans [of _ _ _ "set (a # ns)"]) (use P(2) in \<open>simp_all add: pulled_up_def\<close>)
      then show ?thesis using fresh by (auto simp: frame_def)
    qed
    have same: "mbufs h3 y = mbufs h y" if "mbufs h3 y = (if y \<in> set (a # ns) then None else mbufs h2 y)" for y
      using that W(4) m(2) fresh none by (cases "y \<in> set (a # ns)") auto
    have run: "usrsctp_conninput th process buf h = (case q of None \<Rightarrow> Some h3 | Some b \<Rightarrow>
        Option.bind (copy_from h3 b 0 2) (\<lambda>s. Option.bind (copy_from h3 b 2 2) (\<lambda>d. Option.bind (process b s d h3) (\<lambda>(q, h4). m_freem q h4))))"
      unfolding usrsctp_conninput_def using G(1) Some C(1) full x P(1) by (simp split: option.splits)
    show thesis
    proof (cases q)
      case None
      have "mbufs h3 = mbufs h" by (rule ext, rule same) (use P(2) None in \<open>simp add: pulled_up_def\<close>)
      moreover have "length buf < 16 \<or> (\<exists>i. new_mbuf h i = None)" using P(3) None W(5) new by (auto simp: MHLEN_def)
      ultimately show thesis using run None P(2) f3 by (intro dropped [of h3]) (simp_all add: pulled_up_def)
    next
      case (Some b)
      then obtain zs z where Z: "heap_ok h3" "chain h3 (Some b) (b # zs)" "chain_data h3 (b # zs) = take j buf" "mbufs h3 b = Some z" "16 \<le> m_len z"
          "\<not> flag z M_EXT" "set (b # zs) \<subseteq> set (a # ns) \<union> {x. brk h2 \<le> x}"
          "\<forall>x. x \<notin> set (b # zs) \<longrightarrow> mbufs h3 x = (if x \<in> set (a # ns) then None else mbufs h2 x)"
        using P(2) by (auto simp: pulled_up_def simp del: chain_data_simps)
      have lz: "length (mbytes h3 b) = m_len z" by (rule length_mbytes [OF Z(1,4)])
      have d: "take j buf = mbytes h3 b @ chain_data h3 zs" using Z(3) by simp
      have rd: "copy_from h3 b i 2 = Some (take 2 (drop i buf))" if "i + 2 \<le> 16" for i
      proof -
        have "take 2 (drop i (mbytes h3 b)) = take 2 (drop i (take j buf))" using d lz Z(5) that by simp
        also have "... = take 2 (drop i buf)"
        proof -
          have "16 \<le> j" using arg_cong [OF d, of length] lz Z(5) by simp
          then show ?thesis using that by (simp add: drop_take min_def)
        qed
        finally show ?thesis using copy_from_ok [OF Z(1,4), of i 2] Z(5) that by simp
      qed
      have "brk h \<le> brk h2" using G(3) W(7) by (simp add: frame_def)
      then have "set (b # zs) \<subseteq> {x. brk h \<le> x}" using Z(7) fresh by auto
      moreover have "16 \<le> length (take j buf)" unfolding d using lz Z(5) by simp
      moreover have "\<forall>addr. input_cksum addr b h3 = Some (good_checksum (take j buf), h3)"
        using input_cksum_ok [OF Z(1,2,4,6)] Z(5) len unfolding Z(3) by simp
      moreover have "\<forall>x. x \<notin> set (b # zs) \<longrightarrow> mbufs h3 x = mbufs h x" using Z(8) same by blast
      moreover have "usrsctp_conninput th process buf h =
          Option.bind (process b (take 2 buf) (take 2 (drop 2 buf)) h3) (\<lambda>(q, h4). m_freem q h4)"
        using run Some rd [of 0] rd [of 2] by simp
      ultimately show thesis using Z(1-3) f3 W(5) new by (intro passed [of b h3 zs j]) simp_all
    qed
  qed
qed

end
