(* ===== verification/Mbuf_Props.thy ===== *)
theory Mbuf_Props
  imports Mbuf_Split Conn_Input "HOL-Library.Multiset"
begin

text \<open>
  Theorems about mbufs: copying and freeing, splitting and joining, trimming, making a header contiguous, and
  whole programs over chains, which neither lose an mbuf nor use one twice. A small heap serves as the example.
\<close>

section \<open>An example heap\<close>

text \<open>A packet of six bytes: three in an mbuf with a packet header, three in a cluster.\<close>

definition blank :: mbuf where
  "blank = \<lparr>m_next = None, m_nextpkt = None, m_data = 0, m_len = 0, m_flags = 0, m_type = 1,
     m_pkthdr = \<lparr>rcvif = None, ph_header = None, ph_len = 0, csum_flags = 0, csum_data = 0, tso_segsz = 0, ether_vtag = 0, ph_tags = []\<rparr>,
     m_ext_of = \<lparr>ext_buf = None, ext_size = 0, ref_cnt = None, ext_type = 0\<rparr>, m_dat = replicate MLEN 0\<rparr>"

definition empty_heap :: mheap where
  "empty_heap = \<lparr>mbufs = Map.empty, clusters = Map.empty, refs = Map.empty, mtags = Map.empty, brk = 0, new_mbuf = (\<lambda>_. Some blank),
     new_clust = (\<lambda>_. Some (replicate MCLBYTES 0)), new_ref = (\<lambda>_. True), new_tag = (\<lambda>_. True), m_mcfail = 0, m_mpfail = 0\<rparr>"

definition example_heap :: mheap where
  "example_heap = empty_heap\<lparr>
     mbufs := [0 \<mapsto> blank\<lparr>m_next := Some 1, m_data := PKTDAT, m_len := 3, m_flags := M_PKTHDR, m_pkthdr := (m_pkthdr blank)\<lparr>ph_len := 6\<rparr>,
                   m_dat := splice (replicate MLEN 0) PKTDAT [1, 2, 3]\<rparr>,
              1 \<mapsto> blank\<lparr>m_len := 3, m_flags := M_EXT,
                   m_ext_of := \<lparr>ext_buf = Some 2, ext_size = MCLBYTES, ref_cnt = Some 3, ext_type = EXT_CLUSTER\<rparr>\<rparr>],
     clusters := [2 \<mapsto> splice (replicate MCLBYTES 0) 0 [4, 5, 6]], refs := [3 \<mapsto> 1], brk := 4\<rparr>"


lemma example_view: "ext_view example_heap = [1 \<mapsto> \<lparr>ext_buf = Some 2, ext_size = MCLBYTES, ref_cnt = Some 3, ext_type = EXT_CLUSTER\<rparr>]"
  by (auto simp: ext_view_def example_heap_def fun_eq_iff)

lemma example_heap_ok: "heap_ok example_heap"
proof -
  have "local_ok example_heap a m" if "mbufs example_heap a = Some m" for a m
    using that by (auto simp: example_heap_def local_ok_def blank_def bit_simps MLEN_def MHLEN_def PKTDAT_def MCLBYTES_def MT_NOINIT_def split: if_splits)
  moreover have "holders [1 \<mapsto> e] r = (if ref_cnt e = Some r then {1} else {})" for e r by (auto simp: holders_def)
  then have "clust_ok (ext_view example_heap) (clusters example_heap) (refs example_heap)"
    unfolding example_view by (auto simp: clust_ok_def example_heap_def fun_eq_iff)
  ultimately show ?thesis by (auto simp: heap_ok_def example_heap_def empty_heap_def blank_def)
qed

lemma example_chain: "chain example_heap (Some 0) [0, 1]" "chain_data example_heap [0, 1] = [1, 2, 3, 4, 5, 6]"
  by (simp_all add: example_heap_def blank_def mbytes_def buffer_def splice_def PKTDAT_def MLEN_def MHLEN_def MCLBYTES_def bit_simps)

section \<open>Ownership\<close>





lemma copied_chain:
  assumes "copied h [] w r h'"
  obtains ns where "chain h' r ns" "\<forall>x \<in> set ns. brk h \<le> x" "\<forall>x. x \<notin> set ns \<longrightarrow> mbufs h' x = mbufs h x"
    "r \<noteq> None \<longrightarrow> chain_data h' ns = w" "r = None \<longrightarrow> w = [] \<or> (\<exists>i. new_mbuf h i = None)"
proof (cases "r = None \<and> mbufs h' = mbufs h \<and> (w = [] \<or> (\<exists>i. new_mbuf h i = None))")
  case True
  then show thesis using that [of "[]"] by simp
next
  case False
  have "mbufs h |` UNIV = mbufs h" by (simp add: restrict_map_def)
  then have "r = None \<and> mbufs h' = mbufs h \<and> (w = [] \<or> (\<exists>i. new_mbuf h i = None)) \<or>
      (\<exists>ns. ns \<noteq> [] \<and> chain h' r ns \<and> chain_data h' ns = w \<and> (\<forall>x \<in> set ns. brk h \<le> x) \<and> (\<forall>x. x \<notin> set ns \<longrightarrow> mbufs h' x = mbufs h x))"
    using assms by (simp add: copied_def)
  with False obtain ns where ns: "ns \<noteq> []" "chain h' r ns" "chain_data h' ns = w" "\<forall>x \<in> set ns. brk h \<le> x"
      "\<forall>x. x \<notin> set ns \<longrightarrow> mbufs h' x = mbufs h x" by blast
  then have "r \<noteq> None" by (cases ns) auto
  then show thesis using ns by (intro that [of ns]) auto
qed


lemma split_ok:
  assumes ok: "heap_ok h" and c: "chain h (Some a) as" and len: "len \<le> length (chain_data h as)"
  shows "\<exists>r h'. m_split a len h = Some (r, h') \<and> split_into h {x. brk h \<le> x} (Some a) as (chain_data h as) len r h'"
proof -
  obtain as' m where m: "mbufs h a = Some m" "as = a # as'" by (rule chain_head [OF c])
  show ?thesis
  proof (cases "flag m M_PKTHDR")
    case True
    show ?thesis by (rule m_split_header [OF ok c m(1) True len])
  next
    case False
    obtain r h' where "m_split a len h = Some (r, h')" "split_into h {brk h} (Some a) as (chain_data h as) len r h'"
      using m_split_plain [OF ok c m(1) False len] by blast
    moreover have "x \<notin> set as \<and> mbufs h x = None" if "brk h \<le> x" for x using chain_lt [OF ok c, of x] heap_none [OF ok that] that by auto
    ultimately show ?thesis using split_mono [of h "{brk h}" _ _ _ _ _ _ "{x. brk h \<le> x}"] by auto
  qed
qed









section \<open>Programs over chains\<close>





























section \<open>Theorems\<close>




text \<open>C20. Copying a range of a chain gives a new chain with exactly those bytes and leaves the old chain as it was; clusters are
  shared, not copied, and the counters know it: freeing the copy restores every mbuf, cluster and counter. No chain is returned only when
  the range is empty or an mbuf was refused.\<close>

theorem copy_then_free:
  assumes "heap_ok h" "chain h (Some a) as" "off \<le> length (chain_data h as)" "length (chain_data h as) \<le> M_COPYALL" "len \<le> M_COPYALL"
  shows "\<exists>r h1 h2 ns. m_copym (Some a) off len h = Some (r, h1) \<and> heap_ok h1 \<and> chain h1 (Some a) as \<and> chain_data h1 as = chain_data h as \<and>
    chain h1 r ns \<and> set ns \<inter> dom (mbufs h) = {} \<and>
    (r \<noteq> None \<longrightarrow> chain_data h1 ns = take len (drop off (chain_data h as))) \<and>
    (r = None \<longrightarrow> take len (drop off (chain_data h as)) = [] \<or> (\<exists>i. new_mbuf h i = None)) \<and>
    m_freem r h1 = Some h2 \<and> mbufs h2 = mbufs h \<and> clusters h2 = clusters h \<and> refs h2 = refs h"
proof -
  let ?w = "take len (drop off (chain_data h as))"
  obtain r h1 where R: "m_copym (Some a) off len h = Some (r, h1)" "copied h [] ?w r h1" using m_copym_ok [OF assms] by blast
  then have h1: "heap_ok h1" "frame {} h h1" by (simp_all add: copied_def)
  obtain ns where ns: "chain h1 r ns" "\<forall>x \<in> set ns. brk h \<le> x" "\<forall>x. x \<notin> set ns \<longrightarrow> mbufs h1 x = mbufs h x"
      "r \<noteq> None \<longrightarrow> chain_data h1 ns = ?w" "r = None \<longrightarrow> ?w = [] \<or> (\<exists>i. new_mbuf h i = None)"
    by (rule copied_chain [OF R(2)])
  have none: "mbufs h x = None" if "x \<in> set ns" for x using heap_none [OF assms(1)] ns(2) that by blast
  obtain h2 where F: "m_freem r h1 = Some h2" "heap_ok h2" "frame (set ns) h1 h2" "mbufs h2 = mbufs h1 |` (- set ns)" by (rule m_freem_ok [OF h1(1) ns(1)])
  have m: "mbufs h2 = mbufs h" using F(4) ns(3) none by (auto simp: fun_eq_iff restrict_map_def)
  have "frame (set ns) h h2" by (rule frame_trans [OF frame_mono [OF h1(2)] F(3)]) simp_all
  note D = heap_determined [OF assms(1) F(2) m this]
  have "chain h1 (Some a) as" "chain_data h1 as = chain_data h as" using frame_chain [OF h1(2) assms(1) h1(1) assms(2)] by simp_all
  moreover have "set ns \<inter> dom (mbufs h) = {}" using none by auto
  ultimately show ?thesis using R(1) h1(1) ns F(1) m D by blast
qed

theorem copy_then_free_witness:
  "\<exists>r h1 h2 ns. m_copym (Some 0) 2 3 example_heap = Some (r, h1) \<and> chain h1 r ns \<and> chain_data h1 ns = [3, 4, 5] \<and>
     m_freem r h1 = Some h2 \<and> mbufs h2 = mbufs example_heap \<and> refs h2 = refs example_heap"
proof -
  obtain r h1 h2 ns where R: "m_copym (Some 0) 2 3 example_heap = Some (r, h1)" "chain h1 r ns" "r \<noteq> None \<longrightarrow> chain_data h1 ns = [3, 4, 5]"
      "r \<noteq> None" "m_freem r h1 = Some h2" "mbufs h2 = mbufs example_heap" "refs h2 = refs example_heap"
    using copy_then_free [OF example_heap_ok example_chain(1), of 2 3] unfolding example_chain(2)
    by (auto simp: M_COPYALL_def example_heap_def empty_heap_def)
  then show ?thesis by blast
qed

text \<open>C21. Splitting a chain, with or without a packet header, gives the first bytes in the old chain and the rest in a new one, and
  joining the two again gives the old contents. When an mbuf is refused the contents stay as they were.\<close>

theorem split_then_cat:
  assumes "heap_ok h" "chain h (Some a) as" "len \<le> length (chain_data h as)"
  shows "\<exists>r h1 bs ns h2 zs. m_split a len h = Some (r, h1) \<and> heap_ok h1 \<and> chain h1 (Some a) bs \<and> chain h1 r ns \<and> set bs \<inter> set ns = {} \<and>
    (chain_data h1 bs = take len (chain_data h as) \<and> chain_data h1 ns = drop len (chain_data h as) \<or>
     ns = [] \<and> chain_data h1 bs = chain_data h as \<and> (\<exists>i. new_mbuf h i = None)) \<and>
    m_cat a r h1 = Some h2 \<and> heap_ok h2 \<and> chain h2 (Some a) zs \<and> chain_data h2 zs = chain_data h as"
proof -
  obtain r h1 where S: "m_split a len h = Some (r, h1)" "split_into h {x. brk h \<le> x} (Some a) as (chain_data h as) len r h1"
    using split_ok [OF assms] by blast
  have ok1: "heap_ok h1" using S(2) by (simp add: split_into_def)
  obtain bs ns where B: "chain h1 (Some a) bs" "chain h1 r ns" "set bs \<inter> set ns = {}" "chain_data h1 bs @ chain_data h1 ns = chain_data h as"
      "chain_data h1 bs = take len (chain_data h as) \<and> chain_data h1 ns = drop len (chain_data h as) \<or>
       ns = [] \<and> chain_data h1 bs = chain_data h as \<and> (\<exists>i. new_mbuf h i = None)"
    using S(2)
  proof (cases rule: split_into_cases)
    case (1 bs ns)
    then show ?thesis by (intro that [of bs ns]) simp_all
  next
    case 2
    then show ?thesis by (intro that [of as "[]"]) simp_all
  qed
  obtain h2 where C: "m_cat a r h1 = Some h2" "joined h1 (Some a) (set bs \<union> set ns) (chain_data h1 bs @ chain_data h1 ns) h2"
    using m_cat_ok [OF ok1 B(1-3)] by blast
  then obtain zs where "heap_ok h2" "chain h2 (Some a) zs" "chain_data h2 zs = chain_data h as" using B(4) unfolding joined_def by auto
  then show ?thesis using S(1) ok1 B(1-3,5) C(1) by blast
qed

theorem split_then_cat_witness:
  "\<exists>r h1 bs ns h2 zs. m_split 0 2 example_heap = Some (r, h1) \<and> chain h1 (Some 0) bs \<and> chain_data h1 bs = [1, 2] \<and>
     chain h1 r ns \<and> chain_data h1 ns = [3, 4, 5, 6] \<and> m_cat 0 r h1 = Some h2 \<and> chain h2 (Some 0) zs \<and> chain_data h2 zs = [1, 2, 3, 4, 5, 6]"
proof -
  have "\<not> (\<exists>i. new_mbuf example_heap i = None)" by (simp add: example_heap_def empty_heap_def)
  moreover obtain r h1 bs ns h2 zs where S: "m_split 0 2 example_heap = Some (r, h1)" "chain h1 (Some 0) bs" "chain h1 r ns"
      "chain_data h1 bs = take 2 [1, 2, 3, 4, 5, 6] \<and> chain_data h1 ns = drop 2 [1, 2, 3, 4, 5, 6] \<or>
       ns = [] \<and> chain_data h1 bs = [1, 2, 3, 4, 5, 6] \<and> (\<exists>i. new_mbuf example_heap i = None)"
      "m_cat 0 r h1 = Some h2" "chain h2 (Some 0) zs" "chain_data h2 zs = [1, 2, 3, 4, 5, 6]"
    using split_then_cat [OF example_heap_ok example_chain(1), of 2] unfolding example_chain(2) by fastforce
  ultimately have "chain_data h1 bs = take 2 [1, 2, 3, 4, 5, 6] \<and> chain_data h1 ns = drop 2 [1, 2, 3, 4, 5, 6]" by blast
  then have "chain_data h1 bs = [1, 2] \<and> chain_data h1 ns = [3, 4, 5, 6]" by simp
  then show ?thesis using S(1-3,5-7) by blast
qed

text \<open>Trimming removes exactly the first \<open>n\<close> bytes, or for a negative \<open>n\<close> the last \<open>-n\<close> bytes (everything when there are not so many),
  touches no mbuf outside the chain, and keeps the length in the packet header equal to the number of bytes.\<close>

theorem adj_exact:
  assumes "heap_ok h" "chain h (Some a) as"
  shows "\<exists>h' zs. m_adj (Some a) n h = Some h' \<and> heap_ok h' \<and> frame (set as) h h' \<and> chain h' (Some a) zs \<and> set zs \<subseteq> set as \<and>
    chain_data h' zs = (if 0 \<le> n then drop (nat n) (chain_data h as) else take (length (chain_data h as) - nat (- n)) (chain_data h as)) \<and>
    (hdr_len h a = Some (int (length (chain_data h as))) \<longrightarrow> hdr_len h' a = Some (int (length (chain_data h' zs))))"
proof -
  obtain h' where h': "m_adj (Some a) n h = Some h'" "joined h (Some a) (set as) (trimmed n (chain_data h as)) h'"
      "hdr_len h a = Some (int (length (chain_data h as))) \<longrightarrow> hdr_len h' a = Some (int (length (trimmed n (chain_data h as))))"
    using m_adj_ok [OF assms] by blast
  then obtain zs where z: "chain h' (Some a) zs" "chain_data h' zs = trimmed n (chain_data h as)" "set zs \<subseteq> set as" "heap_ok h'" "frame (set as) h h'"
    unfolding joined_def by blast
  then show ?thesis using h'(1,3) unfolding trimmed_def [symmetric] by metis
qed

theorem adj_exact_witness:
  "\<exists>h' zs. m_adj (Some 0) (- 4) example_heap = Some h' \<and> chain h' (Some 0) zs \<and> chain_data h' zs = [1, 2] \<and> hdr_len h' 0 = Some 2"
proof -
  have "hdr_len example_heap 0 = Some 6" by (simp add: hdr_len_def example_heap_def)
  then show ?thesis using adj_exact [OF example_heap_ok example_chain(1), of "- 4"] unfolding example_chain(2)
    by (simp add: numeral_eq_Suc del: chain.simps) force
qed

text \<open>Pulling up: the result is a chain with the same bytes whose first mbuf holds at least \<open>len\<close> of them in its own buffer, or
  nothing, and then the whole chain has been freed; nothing happens only when the chain is shorter than \<open>len\<close>, when \<open>len\<close> exceeds the
  space in a header mbuf, or when an mbuf was refused.\<close>

theorem pullup_exact:
  assumes "heap_ok h" "chain h (Some a) as"
  shows "\<exists>r h'. m_pullup a len h = Some (r, h') \<and> heap_ok h' \<and>
    (case r of
       None \<Rightarrow> (\<forall>x. mbufs h' x = (if x \<in> set as then None else mbufs h x)) \<and>
         (length (chain_data h as) < len \<or> MHLEN < len \<or> new_mbuf h (brk h) = None)
     | Some b \<Rightarrow> \<exists>zs m. chain h' r (b # zs) \<and> chain_data h' (b # zs) = chain_data h as \<and> mbufs h' b = Some m \<and> len \<le> m_len m \<and>
         \<not> flag m M_EXT \<and> (\<forall>x. x \<notin> set (b # zs) \<longrightarrow> mbufs h' x = (if x \<in> set as then None else mbufs h x)))"
proof -
  obtain r h' where R: "m_pullup a len h = Some (r, h')" "pulled_up h (set as) (chain_data h as) len r h'"
      "r = None \<longrightarrow> length (chain_data h as) < len \<or> MHLEN < len \<or> new_mbuf h (brk h) = None"
    using m_pullup_ok [OF assms] by blast
  show ?thesis
  proof (cases r)
    case None
    then show ?thesis using R by (simp add: pulled_up_def)
  next
    case (Some b)
    then obtain zs m where "heap_ok h'" "chain h' r (b # zs)" "chain_data h' (b # zs) = chain_data h as" "mbufs h' b = Some m" "len \<le> m_len m"
        "\<not> flag m M_EXT" "\<forall>x. x \<notin> set (b # zs) \<longrightarrow> mbufs h' x = (if x \<in> set as then None else mbufs h x)"
      using R(2) by (auto simp: pulled_up_def simp del: chain_data_simps)
    then show ?thesis using R(1) Some by (intro exI [of _ r] exI [of _ h'] conjI) (simp_all only: option.case, blast)
  qed
qed

theorem pullup_exact_witness:
  "\<exists>b h' zs m. m_pullup 0 5 example_heap = Some (Some b, h') \<and> chain h' (Some b) (b # zs) \<and> chain_data h' (b # zs) = [1, 2, 3, 4, 5, 6] \<and>
     mbufs h' b = Some m \<and> 5 \<le> m_len m"
proof -
  have n: "new_mbuf example_heap (brk example_heap) \<noteq> None" by (simp add: example_heap_def empty_heap_def)
  obtain r h' where R: "m_pullup 0 5 example_heap = Some (r, h')"
    and C: "case r of
       None \<Rightarrow> (\<forall>x. mbufs h' x = (if x \<in> set [0, 1] then None else mbufs example_heap x)) \<and>
         (length [1 :: u8, 2, 3, 4, 5, 6] < 5 \<or> MHLEN < 5 \<or> new_mbuf example_heap (brk example_heap) = None)
     | Some b \<Rightarrow> \<exists>zs m. chain h' r (b # zs) \<and> chain_data h' (b # zs) = [1, 2, 3, 4, 5, 6] \<and> mbufs h' b = Some m \<and> 5 \<le> m_len m \<and>
         \<not> flag m M_EXT \<and> (\<forall>x. x \<notin> set (b # zs) \<longrightarrow> mbufs h' x = (if x \<in> set [0, 1] then None else mbufs example_heap x))"
    using pullup_exact [OF example_heap_ok example_chain(1), of 5] unfolding example_chain(2) by blast
  have "r \<noteq> None" using C n by (cases r) (simp_all add: MHLEN_def)
  then obtain b where "r = Some b" by blast
  then show ?thesis using R C unfolding \<open>r = Some b\<close> option.case by blast
qed



end
