(* ===== verification/Tsn_Map.thy ===== *)
theory Tsn_Map
  imports Prelude
begin

text \<open>
  Which TSNs an endpoint has received: the two bit arrays of an association, \<^verbatim>\<open>mapping_array\<close> for data that
  may still be dropped and \<^verbatim>\<open>nr_mapping_array\<close> for data that may not, and the routines of \<^verbatim>\<open>sctp_indata.c\<close> and
  \<^verbatim>\<open>sctputil.c\<close> that keep them: accepting a TSN, marking it, growing and sliding the arrays, FORWARD-TSN, and the gap
  blocks that \<^verbatim>\<open>sctp_send_sack\<close> of \<^verbatim>\<open>sctp_output.c\<close> reports. An access outside an array has no result. Logging and
  the diagnostic output of branches that should not be reached are left out.
\<close>

section \<open>Serial numbers\<close>

definition SCTP_TSN_GT :: "u32 \<Rightarrow> u32 \<Rightarrow> bool" where
  "SCTP_TSN_GT a b \<longleftrightarrow> a < b \<and> b - a > 0x80000000 \<or> a > b \<and> a - b < 0x80000000"

definition SCTP_TSN_GE :: "u32 \<Rightarrow> u32 \<Rightarrow> bool" where
  "SCTP_TSN_GE a b \<longleftrightarrow> SCTP_TSN_GT a b \<or> a = b"

section \<open>The arrays\<close>

record tsn_map =
  cumulative_tsn :: u32
  mapping_array_base_tsn :: u32
  highest_tsn_inside_map :: u32
  highest_tsn_inside_nr_map :: u32
  mapping_array :: bytes
  nr_mapping_array :: bytes
  mapping_array_size :: u16
  dup_tsns :: "u32 list" \<comment> \<open>the first \<^verbatim>\<open>numduptsns\<close> entries\<close>
  send_sack :: bool

definition SCTP_MAPPING_ARRAY :: u32 where "SCTP_MAPPING_ARRAY = 512"
definition SCTP_INITIAL_MAPPING_ARRAY :: nat where "SCTP_INITIAL_MAPPING_ARRAY = 16"
definition SCTP_MAPPING_ARRAY_INCR :: u32 where "SCTP_MAPPING_ARRAY_INCR = 32"
definition SCTP_MAX_DUP_TSNS :: nat where "SCTP_MAX_DUP_TSNS = 20"

definition entry :: "'a list \<Rightarrow> nat \<Rightarrow> 'a option" where
  "entry xs i = (if i < length xs then Some (xs ! i) else None)"

definition SCTP_IS_TSN_PRESENT :: "bytes \<Rightarrow> u32 \<Rightarrow> bool option" where
  "SCTP_IS_TSN_PRESENT arry gap = map_option (\<lambda>x. drop_bit (unat (gap AND 7)) x AND 1 \<noteq> 0) (entry arry (unat (drop_bit 3 gap)))"

definition SCTP_SET_TSN_PRESENT :: "bytes \<Rightarrow> u32 \<Rightarrow> bytes option" where
  "SCTP_SET_TSN_PRESENT arry gap = (let i = unat (drop_bit 3 gap) in
     map_option (\<lambda>x. arry[i := x OR push_bit (unat (gap AND 7)) 1]) (entry arry i))"

definition SCTP_UNSET_TSN_PRESENT :: "bytes \<Rightarrow> u32 \<Rightarrow> bytes option" where
  "SCTP_UNSET_TSN_PRESENT arry gap = (let i = unat (drop_bit 3 gap) in
     map_option (\<lambda>x. arry[i := x AND NOT (push_bit (unat (gap AND 7)) 1)]) (entry arry i))"

definition SCTP_CALC_TSN_TO_GAP :: "u32 \<Rightarrow> u32 \<Rightarrow> u32" where
  "SCTP_CALC_TSN_TO_GAP tsn mapping_tsn =
     (if tsn \<ge> mapping_tsn then tsn - mapping_tsn else (0xffffffff - mapping_tsn) + tsn + 1)"

text \<open>\<open>mem\<close> says whether both allocations succeed.\<close>

definition sctp_expand_mapping_array :: "bool \<Rightarrow> u32 \<Rightarrow> tsn_map \<Rightarrow> (bool \<times> tsn_map) option" where
  "sctp_expand_mapping_array mem needed a =
     (let size = unat (mapping_array_size a);
          new_size = ucast (mapping_array_size a) + ((needed + 7) div 8 + SCTP_MAPPING_ARRAY_INCR);
          grown = (\<lambda>xs :: bytes. take size xs @ replicate (unat new_size - size) 0) in
      if \<not> mem then Some (False, a)
      else if size \<le> unat new_size \<and> size \<le> length (mapping_array a) \<and> size \<le> length (nr_mapping_array a) then
        Some (True, a\<lparr>mapping_array := grown (mapping_array a), nr_mapping_array := grown (nr_mapping_array a),
                     mapping_array_size := ucast new_size\<rparr>)
      else None)"

section \<open>Sliding\<close>

definition sctp_map_lookup_tab :: "nat list" where
  "sctp_map_lookup_tab = [
    0, 1, 0, 2, 0, 1, 0, 3, 0, 1, 0, 2, 0, 1, 0, 4,
    0, 1, 0, 2, 0, 1, 0, 3, 0, 1, 0, 2, 0, 1, 0, 5,
    0, 1, 0, 2, 0, 1, 0, 3, 0, 1, 0, 2, 0, 1, 0, 4,
    0, 1, 0, 2, 0, 1, 0, 3, 0, 1, 0, 2, 0, 1, 0, 6,
    0, 1, 0, 2, 0, 1, 0, 3, 0, 1, 0, 2, 0, 1, 0, 4,
    0, 1, 0, 2, 0, 1, 0, 3, 0, 1, 0, 2, 0, 1, 0, 5,
    0, 1, 0, 2, 0, 1, 0, 3, 0, 1, 0, 2, 0, 1, 0, 4,
    0, 1, 0, 2, 0, 1, 0, 3, 0, 1, 0, 2, 0, 1, 0, 7,
    0, 1, 0, 2, 0, 1, 0, 3, 0, 1, 0, 2, 0, 1, 0, 4,
    0, 1, 0, 2, 0, 1, 0, 3, 0, 1, 0, 2, 0, 1, 0, 5,
    0, 1, 0, 2, 0, 1, 0, 3, 0, 1, 0, 2, 0, 1, 0, 4,
    0, 1, 0, 2, 0, 1, 0, 3, 0, 1, 0, 2, 0, 1, 0, 6,
    0, 1, 0, 2, 0, 1, 0, 3, 0, 1, 0, 2, 0, 1, 0, 4,
    0, 1, 0, 2, 0, 1, 0, 3, 0, 1, 0, 2, 0, 1, 0, 5,
    0, 1, 0, 2, 0, 1, 0, 3, 0, 1, 0, 2, 0, 1, 0, 4,
    0, 1, 0, 2, 0, 1, 0, 3, 0, 1, 0, 2, 0, 1, 0, 8]"

text \<open>The first loop: \<open>n\<close> bytes are left.\<close>

fun scan_map :: "bytes \<Rightarrow> bytes \<Rightarrow> nat \<Rightarrow> nat \<Rightarrow> nat \<Rightarrow> (nat \<times> nat) option" where
  "scan_map nr m 0 slide_from at = Some (slide_from, at)"
| "scan_map nr m (Suc n) slide_from at = do {
     x \<leftarrow> entry nr slide_from;
     y \<leftarrow> entry m slide_from;
     let val = x OR y;
     (if val = 0xff then scan_map nr m n (Suc slide_from) (at + 8)
      else Some (slide_from, at + sctp_map_lookup_tab ! unat val))
   }"

fun copy_down :: "nat \<Rightarrow> nat \<Rightarrow> nat \<Rightarrow> bytes \<Rightarrow> bytes option" where
  "copy_down 0 ii slide_from arr = Some arr"
| "copy_down (Suc n) ii slide_from arr = do {
     x \<leftarrow> entry arr (slide_from + ii);
     (if ii < length arr then copy_down n (Suc ii) slide_from (arr[ii := x]) else None)
   }"

definition clear_range :: "nat \<Rightarrow> nat \<Rightarrow> bytes \<Rightarrow> bytes option" where
  "clear_range i j arr = (if j \<le> length arr \<or> j \<le> i then Some (take i arr @ replicate (j - i) 0 @ drop (max i j) arr) else None)"

definition highest_tsn :: "tsn_map \<Rightarrow> u32" where
  "highest_tsn a = (if SCTP_TSN_GT (highest_tsn_inside_nr_map a) (highest_tsn_inside_map a)
     then highest_tsn_inside_nr_map a else highest_tsn_inside_map a)"

text \<open>The last branch: the arrays are moved by \<open>slide_from\<close> bytes.\<close>

definition slide_down :: "nat \<Rightarrow> tsn_map \<Rightarrow> tsn_map option" where
  "slide_down slide_from a =
     (let size = int (unat (mapping_array_size a));
          lgap = sint (SCTP_CALC_TSN_TO_GAP (highest_tsn a) (mapping_array_base_tsn a));
          slide_end = lgap div 8 in
      if slide_end < int slide_from then Some a
      else
        let slide_end = (if slide_end > size then size else slide_end);
            distance = slide_end - int slide_from + 1 in
        if distance + int slide_from > size \<or> distance < 0 then Some a
        else do {
          m1 \<leftarrow> copy_down (nat distance) 0 slide_from (mapping_array a);
          n1 \<leftarrow> copy_down (nat distance) 0 slide_from (nr_mapping_array a);
          m2 \<leftarrow> clear_range (nat distance) (nat size) m1;
          n2 \<leftarrow> clear_range (nat distance) (nat size) n1;
          let shift = of_nat (slide_from * 8);
          let b = mapping_array_base_tsn a;
          Some (a\<lparr>mapping_array := m2, nr_mapping_array := n2,
                  highest_tsn_inside_map := (if highest_tsn_inside_map a + 1 = b then highest_tsn_inside_map a + shift else highest_tsn_inside_map a),
                  highest_tsn_inside_nr_map := (if highest_tsn_inside_nr_map a + 1 = b then highest_tsn_inside_nr_map a + shift else highest_tsn_inside_nr_map a),
                  mapping_array_base_tsn := b + shift\<rparr>)
        })"

definition sctp_slide_mapping_arrays :: "tsn_map \<Rightarrow> tsn_map option" where
  "sctp_slide_mapping_arrays a0 = do {
     let size = unat (mapping_array_size a0);
     (slide_from, at) \<leftarrow> scan_map (nr_mapping_array a0) (mapping_array a0) size 0 0;
     let cum = mapping_array_base_tsn a0 + (of_nat at - 1);
     let a1 = a0\<lparr>cumulative_tsn := cum\<rparr>;
     let a = (if SCTP_TSN_GT cum (highest_tsn_inside_map a1) \<and> SCTP_TSN_GT cum (highest_tsn_inside_nr_map a1)
              then a1\<lparr>highest_tsn_inside_map := cum, highest_tsn_inside_nr_map := cum\<rparr> else a1);
     (if cum = highest_tsn a \<and> at \<ge> 8 then do {
        let clr = min ((at + 7) div 8) size;
        m \<leftarrow> clear_range 0 clr (mapping_array a);
        n \<leftarrow> clear_range 0 clr (nr_mapping_array a);
        Some (a\<lparr>mapping_array := m, nr_mapping_array := n, mapping_array_base_tsn := cum + 1,
                highest_tsn_inside_nr_map := cum, highest_tsn_inside_map := cum\<rparr>)
      } else if at \<ge> 8 then slide_down slide_from a
      else Some a)
   }"

section \<open>Receiving\<close>

text \<open>The start of \<^verbatim>\<open>sctp_process_a_data_chunk\<close>: whether a TSN is new. A \<^verbatim>\<open>Fresh\<close> one comes with its gap.\<close>

datatype tsn_verdict = Duplicate | Out_of_range | No_memory | Fresh u32

definition note_dup :: "u32 \<Rightarrow> tsn_map \<Rightarrow> tsn_map" where
  "note_dup tsn a = a\<lparr>dup_tsns := (if length (dup_tsns a) < SCTP_MAX_DUP_TSNS then dup_tsns a @ [tsn] else dup_tsns a), send_sack := True\<rparr>"

definition accept_tsn :: "bool \<Rightarrow> u32 \<Rightarrow> tsn_map \<Rightarrow> (tsn_verdict \<times> tsn_map) option" where
  "accept_tsn mem tsn a =
     (if SCTP_TSN_GE (cumulative_tsn a) tsn then Some (Duplicate, note_dup tsn a)
      else
        let gap = SCTP_CALC_TSN_TO_GAP tsn (mapping_array_base_tsn a) in
        if gap \<ge> push_bit 3 SCTP_MAPPING_ARRAY then Some (Out_of_range, a)
        else do {
          (grown, a1) \<leftarrow> (if gap \<ge> push_bit 3 (ucast (mapping_array_size a)) then sctp_expand_mapping_array mem gap a else Some (True, a));
          (if \<not> grown then Some (No_memory, a1)
           else do {
             x \<leftarrow> SCTP_IS_TSN_PRESENT (mapping_array a1) gap;
             y \<leftarrow> (if x then Some True else SCTP_IS_TSN_PRESENT (nr_mapping_array a1) gap);
             Some (if y then (Duplicate, note_dup tsn a1) else (Fresh gap, a1))
           })
        })"

text \<open>The mark of a TSN, in the array of data that may not be dropped or in the other one.\<close>

definition mark_tsn :: "bool \<Rightarrow> u32 \<Rightarrow> u32 \<Rightarrow> tsn_map \<Rightarrow> tsn_map option" where
  "mark_tsn nr tsn gap a =
     (if nr then do {
        n \<leftarrow> SCTP_SET_TSN_PRESENT (nr_mapping_array a) gap;
        Some (a\<lparr>nr_mapping_array := n, highest_tsn_inside_nr_map :=
                  (if SCTP_TSN_GT tsn (highest_tsn_inside_nr_map a) then tsn else highest_tsn_inside_nr_map a)\<rparr>)
      } else do {
        m \<leftarrow> SCTP_SET_TSN_PRESENT (mapping_array a) gap;
        Some (a\<lparr>mapping_array := m, highest_tsn_inside_map :=
                  (if SCTP_TSN_GT tsn (highest_tsn_inside_map a) then tsn else highest_tsn_inside_map a)\<rparr>)
      })"

definition advance_tsn :: "u32 \<Rightarrow> tsn_map \<Rightarrow> tsn_map" where
  "advance_tsn tsn a = (if tsn = cumulative_tsn a + 1 then a\<lparr>cumulative_tsn := tsn\<rparr> else a)"

text \<open>A data chunk: \<open>keep\<close> is what the rest of the routine makes of a new one, which it drops or puts into one of the arrays.\<close>

definition receive_tsn :: "bool \<Rightarrow> bool option \<Rightarrow> u32 \<Rightarrow> tsn_map \<Rightarrow> (tsn_verdict \<times> tsn_map) option" where
  "receive_tsn mem keep tsn a = do {
     (v, a1) \<leftarrow> accept_tsn mem tsn a;
     (case (v, keep) of
        (Fresh gap, Some nr) \<Rightarrow> map_option (\<lambda>a2. (v, advance_tsn tsn a2)) (mark_tsn nr tsn gap a1)
      | _ \<Rightarrow> Some (v, a1))
   }"

text \<open>Delivered data may no longer be dropped. The loop looks for the highest TSN that is left; \<open>i\<close> goes down.\<close>

partial_function (option) back_down :: "tsn_map \<Rightarrow> u32 \<Rightarrow> u32 option" where
  "back_down a i =
     (if SCTP_TSN_GE i (mapping_array_base_tsn a) then
        Option.bind (SCTP_IS_TSN_PRESENT (mapping_array a) (SCTP_CALC_TSN_TO_GAP i (mapping_array_base_tsn a))) (\<lambda>x.
          if x then Some i else back_down a (i - 1))
      else Some (mapping_array_base_tsn a - 1))"

definition sctp_mark_non_revokable :: "bool \<Rightarrow> u32 \<Rightarrow> tsn_map \<Rightarrow> tsn_map option" where
  "sctp_mark_non_revokable do_drain tsn a =
     (if \<not> do_drain then Some a
      else if SCTP_TSN_GT (cumulative_tsn a + 1) tsn then Some a
      else do {
        let gap = SCTP_CALC_TSN_TO_GAP tsn (mapping_array_base_tsn a);
        in_r \<leftarrow> SCTP_IS_TSN_PRESENT (mapping_array a) gap;
        in_nr \<leftarrow> SCTP_IS_TSN_PRESENT (nr_mapping_array a) gap;
        n \<leftarrow> (if \<not> in_nr then SCTP_SET_TSN_PRESENT (nr_mapping_array a) gap else Some (nr_mapping_array a));
        m \<leftarrow> (if in_r then SCTP_UNSET_TSN_PRESENT (mapping_array a) gap else Some (mapping_array a));
        let a1 = a\<lparr>nr_mapping_array := n, mapping_array := m, highest_tsn_inside_nr_map :=
                    (if SCTP_TSN_GT tsn (highest_tsn_inside_nr_map a) then tsn else highest_tsn_inside_nr_map a)\<rparr>;
        (if tsn = highest_tsn_inside_map a1 then do {
           h \<leftarrow> back_down a1 (tsn - 1);
           Some (a1\<lparr>highest_tsn_inside_map := h\<rparr>)
         } else Some a1)
      })"

text \<open>The first part of \<^verbatim>\<open>sctp_handle_forward_tsn\<close>; \<open>space\<close> is the room in the socket buffer, and \<open>True\<close> is an abort.\<close>

fun fill_gaps :: "nat \<Rightarrow> nat \<Rightarrow> tsn_map \<Rightarrow> tsn_map option" where
  "fill_gaps 0 i a = Some a"
| "fill_gaps (Suc n) i a = do {
     x \<leftarrow> SCTP_IS_TSN_PRESENT (mapping_array a) (of_nat i);
     y \<leftarrow> (if x then Some True else SCTP_IS_TSN_PRESENT (nr_mapping_array a) (of_nat i));
     a1 \<leftarrow> (if y then Some a else mark_tsn True (mapping_array_base_tsn a + of_nat i) (of_nat i) a);
     fill_gaps n (Suc i) a1
   }"

definition forward_tsn :: "int \<Rightarrow> u32 \<Rightarrow> tsn_map \<Rightarrow> (bool \<times> tsn_map) option" where
  "forward_tsn space new_cum_tsn a =
     (if SCTP_TSN_GE (cumulative_tsn a) new_cum_tsn then Some (False, a)
      else
        let gap = SCTP_CALC_TSN_TO_GAP new_cum_tsn (mapping_array_base_tsn a);
            size = unat (mapping_array_size a);
            a1 = a\<lparr>cumulative_tsn := new_cum_tsn\<rparr> in
        if gap \<ge> push_bit 3 (ucast (mapping_array_size a)) then
          if uint gap > space then Some (True, a1)
          else do {
            m \<leftarrow> clear_range 0 size (mapping_array a);
            n \<leftarrow> clear_range 0 size (nr_mapping_array a);
            Some (False, a1\<lparr>mapping_array := m, mapping_array_base_tsn := new_cum_tsn + 1, highest_tsn_inside_map := new_cum_tsn,
                           nr_mapping_array := n, highest_tsn_inside_nr_map := new_cum_tsn\<rparr>)
          }
        else map_option (Pair False) (fill_gaps (Suc (unat gap)) 0 a1))"

section \<open>The whole component\<close>

text \<open>\<^verbatim>\<open>sctp_init_asoc\<close> and \<^verbatim>\<open>sctp_process_init\<close>: the peer's first TSN will be \<open>initial_tsn\<close>.\<close>

definition tsn_init :: "u32 \<Rightarrow> tsn_map" where
  "tsn_init initial_tsn = \<lparr>cumulative_tsn = initial_tsn - 1, mapping_array_base_tsn = initial_tsn,
     highest_tsn_inside_map = initial_tsn - 1, highest_tsn_inside_nr_map = initial_tsn - 1,
     mapping_array = replicate SCTP_INITIAL_MAPPING_ARRAY 0, nr_mapping_array = replicate SCTP_INITIAL_MAPPING_ARRAY 0,
     mapping_array_size = of_nat SCTP_INITIAL_MAPPING_ARRAY, dup_tsns = [], send_sack = False\<rparr>"

text \<open>What happens to an association: data arrives, data is delivered, a FORWARD-TSN arrives, or the arrays are slid
  before a SACK. TSNs are given by their number, counted from the initial TSN.\<close>

datatype tsn_event = Data bool "bool option" int | Deliver bool int | Forward int int | Sack

datatype tsn_answer = Known | Accepted | Dropped | Done | Aborted

definition tsn_step :: "u32 \<Rightarrow> tsn_event \<Rightarrow> tsn_map \<Rightarrow> (tsn_answer \<times> tsn_map) option" where
  "tsn_step isn e a = (case e of
     Data mem keep k \<Rightarrow> map_option (\<lambda>(v, a'). (case v of Duplicate \<Rightarrow> Known | Fresh gap \<Rightarrow> if keep = None then Dropped else Accepted | _ \<Rightarrow> Dropped, a'))
       (receive_tsn mem keep (isn + of_int k) a)
   | Deliver drain k \<Rightarrow> map_option (Pair Done) (sctp_mark_non_revokable drain (isn + of_int k) a)
   | Forward space k \<Rightarrow> map_option (map_prod (\<lambda>abort. if abort then Aborted else Done) id) (forward_tsn space (isn + of_int k) a)
   | Sack \<Rightarrow> map_option (Pair Done) (sctp_slide_mapping_arrays a))"

end
