(* ===== verification/Sack_Gaps.thy ===== *)
theory Sack_Gaps
  imports Tsn_Map
begin

text \<open>
  The gap blocks of a SACK or NR-SACK, as \<^verbatim>\<open>sctp_send_sack\<close> of \<^verbatim>\<open>sctp_output.c\<close> finds them: the table of the runs of ones
  in a byte, and the loops that take a mapping array byte by byte and merge runs that meet at a byte boundary. \<open>room\<close> is
  the number of blocks that fit between the header of the chunk and \<^verbatim>\<open>limit\<close>; a write beyond it has no result. \<open>my_rwnd\<close> is
  the window that is offered. Choosing a destination, the chunk's mbuf, its flags and its place in the control queue are left out.
\<close>

section \<open>The table\<close>

datatype sack_track = Sack_track (right_edge: nat) (left_edge: nat) (num_entries: nat) (spare: nat) (gaps: "(nat \<times> nat) list")

definition sack_array :: "sack_track list" where
  "sack_array = [
    Sack_track 0 0 0 0 [(0, 0), (0, 0), (0, 0), (0, 0)],
    Sack_track 1 0 1 0 [(0, 0), (0, 0), (0, 0), (0, 0)],
    Sack_track 0 0 1 0 [(1, 1), (0, 0), (0, 0), (0, 0)],
    Sack_track 1 0 1 0 [(0, 1), (0, 0), (0, 0), (0, 0)],
    Sack_track 0 0 1 0 [(2, 2), (0, 0), (0, 0), (0, 0)],
    Sack_track 1 0 2 0 [(0, 0), (2, 2), (0, 0), (0, 0)],
    Sack_track 0 0 1 0 [(1, 2), (0, 0), (0, 0), (0, 0)],
    Sack_track 1 0 1 0 [(0, 2), (0, 0), (0, 0), (0, 0)],
    Sack_track 0 0 1 0 [(3, 3), (0, 0), (0, 0), (0, 0)],
    Sack_track 1 0 2 0 [(0, 0), (3, 3), (0, 0), (0, 0)],
    Sack_track 0 0 2 0 [(1, 1), (3, 3), (0, 0), (0, 0)],
    Sack_track 1 0 2 0 [(0, 1), (3, 3), (0, 0), (0, 0)],
    Sack_track 0 0 1 0 [(2, 3), (0, 0), (0, 0), (0, 0)],
    Sack_track 1 0 2 0 [(0, 0), (2, 3), (0, 0), (0, 0)],
    Sack_track 0 0 1 0 [(1, 3), (0, 0), (0, 0), (0, 0)],
    Sack_track 1 0 1 0 [(0, 3), (0, 0), (0, 0), (0, 0)],
    Sack_track 0 0 1 0 [(4, 4), (0, 0), (0, 0), (0, 0)],
    Sack_track 1 0 2 0 [(0, 0), (4, 4), (0, 0), (0, 0)],
    Sack_track 0 0 2 0 [(1, 1), (4, 4), (0, 0), (0, 0)],
    Sack_track 1 0 2 0 [(0, 1), (4, 4), (0, 0), (0, 0)],
    Sack_track 0 0 2 0 [(2, 2), (4, 4), (0, 0), (0, 0)],
    Sack_track 1 0 3 0 [(0, 0), (2, 2), (4, 4), (0, 0)],
    Sack_track 0 0 2 0 [(1, 2), (4, 4), (0, 0), (0, 0)],
    Sack_track 1 0 2 0 [(0, 2), (4, 4), (0, 0), (0, 0)],
    Sack_track 0 0 1 0 [(3, 4), (0, 0), (0, 0), (0, 0)],
    Sack_track 1 0 2 0 [(0, 0), (3, 4), (0, 0), (0, 0)],
    Sack_track 0 0 2 0 [(1, 1), (3, 4), (0, 0), (0, 0)],
    Sack_track 1 0 2 0 [(0, 1), (3, 4), (0, 0), (0, 0)],
    Sack_track 0 0 1 0 [(2, 4), (0, 0), (0, 0), (0, 0)],
    Sack_track 1 0 2 0 [(0, 0), (2, 4), (0, 0), (0, 0)],
    Sack_track 0 0 1 0 [(1, 4), (0, 0), (0, 0), (0, 0)],
    Sack_track 1 0 1 0 [(0, 4), (0, 0), (0, 0), (0, 0)],
    Sack_track 0 0 1 0 [(5, 5), (0, 0), (0, 0), (0, 0)],
    Sack_track 1 0 2 0 [(0, 0), (5, 5), (0, 0), (0, 0)],
    Sack_track 0 0 2 0 [(1, 1), (5, 5), (0, 0), (0, 0)],
    Sack_track 1 0 2 0 [(0, 1), (5, 5), (0, 0), (0, 0)],
    Sack_track 0 0 2 0 [(2, 2), (5, 5), (0, 0), (0, 0)],
    Sack_track 1 0 3 0 [(0, 0), (2, 2), (5, 5), (0, 0)],
    Sack_track 0 0 2 0 [(1, 2), (5, 5), (0, 0), (0, 0)],
    Sack_track 1 0 2 0 [(0, 2), (5, 5), (0, 0), (0, 0)],
    Sack_track 0 0 2 0 [(3, 3), (5, 5), (0, 0), (0, 0)],
    Sack_track 1 0 3 0 [(0, 0), (3, 3), (5, 5), (0, 0)],
    Sack_track 0 0 3 0 [(1, 1), (3, 3), (5, 5), (0, 0)],
    Sack_track 1 0 3 0 [(0, 1), (3, 3), (5, 5), (0, 0)],
    Sack_track 0 0 2 0 [(2, 3), (5, 5), (0, 0), (0, 0)],
    Sack_track 1 0 3 0 [(0, 0), (2, 3), (5, 5), (0, 0)],
    Sack_track 0 0 2 0 [(1, 3), (5, 5), (0, 0), (0, 0)],
    Sack_track 1 0 2 0 [(0, 3), (5, 5), (0, 0), (0, 0)],
    Sack_track 0 0 1 0 [(4, 5), (0, 0), (0, 0), (0, 0)],
    Sack_track 1 0 2 0 [(0, 0), (4, 5), (0, 0), (0, 0)],
    Sack_track 0 0 2 0 [(1, 1), (4, 5), (0, 0), (0, 0)],
    Sack_track 1 0 2 0 [(0, 1), (4, 5), (0, 0), (0, 0)],
    Sack_track 0 0 2 0 [(2, 2), (4, 5), (0, 0), (0, 0)],
    Sack_track 1 0 3 0 [(0, 0), (2, 2), (4, 5), (0, 0)],
    Sack_track 0 0 2 0 [(1, 2), (4, 5), (0, 0), (0, 0)],
    Sack_track 1 0 2 0 [(0, 2), (4, 5), (0, 0), (0, 0)],
    Sack_track 0 0 1 0 [(3, 5), (0, 0), (0, 0), (0, 0)],
    Sack_track 1 0 2 0 [(0, 0), (3, 5), (0, 0), (0, 0)],
    Sack_track 0 0 2 0 [(1, 1), (3, 5), (0, 0), (0, 0)],
    Sack_track 1 0 2 0 [(0, 1), (3, 5), (0, 0), (0, 0)],
    Sack_track 0 0 1 0 [(2, 5), (0, 0), (0, 0), (0, 0)],
    Sack_track 1 0 2 0 [(0, 0), (2, 5), (0, 0), (0, 0)],
    Sack_track 0 0 1 0 [(1, 5), (0, 0), (0, 0), (0, 0)],
    Sack_track 1 0 1 0 [(0, 5), (0, 0), (0, 0), (0, 0)],
    Sack_track 0 0 1 0 [(6, 6), (0, 0), (0, 0), (0, 0)],
    Sack_track 1 0 2 0 [(0, 0), (6, 6), (0, 0), (0, 0)],
    Sack_track 0 0 2 0 [(1, 1), (6, 6), (0, 0), (0, 0)],
    Sack_track 1 0 2 0 [(0, 1), (6, 6), (0, 0), (0, 0)],
    Sack_track 0 0 2 0 [(2, 2), (6, 6), (0, 0), (0, 0)],
    Sack_track 1 0 3 0 [(0, 0), (2, 2), (6, 6), (0, 0)],
    Sack_track 0 0 2 0 [(1, 2), (6, 6), (0, 0), (0, 0)],
    Sack_track 1 0 2 0 [(0, 2), (6, 6), (0, 0), (0, 0)],
    Sack_track 0 0 2 0 [(3, 3), (6, 6), (0, 0), (0, 0)],
    Sack_track 1 0 3 0 [(0, 0), (3, 3), (6, 6), (0, 0)],
    Sack_track 0 0 3 0 [(1, 1), (3, 3), (6, 6), (0, 0)],
    Sack_track 1 0 3 0 [(0, 1), (3, 3), (6, 6), (0, 0)],
    Sack_track 0 0 2 0 [(2, 3), (6, 6), (0, 0), (0, 0)],
    Sack_track 1 0 3 0 [(0, 0), (2, 3), (6, 6), (0, 0)],
    Sack_track 0 0 2 0 [(1, 3), (6, 6), (0, 0), (0, 0)],
    Sack_track 1 0 2 0 [(0, 3), (6, 6), (0, 0), (0, 0)],
    Sack_track 0 0 2 0 [(4, 4), (6, 6), (0, 0), (0, 0)],
    Sack_track 1 0 3 0 [(0, 0), (4, 4), (6, 6), (0, 0)],
    Sack_track 0 0 3 0 [(1, 1), (4, 4), (6, 6), (0, 0)],
    Sack_track 1 0 3 0 [(0, 1), (4, 4), (6, 6), (0, 0)],
    Sack_track 0 0 3 0 [(2, 2), (4, 4), (6, 6), (0, 0)],
    Sack_track 1 0 4 0 [(0, 0), (2, 2), (4, 4), (6, 6)],
    Sack_track 0 0 3 0 [(1, 2), (4, 4), (6, 6), (0, 0)],
    Sack_track 1 0 3 0 [(0, 2), (4, 4), (6, 6), (0, 0)],
    Sack_track 0 0 2 0 [(3, 4), (6, 6), (0, 0), (0, 0)],
    Sack_track 1 0 3 0 [(0, 0), (3, 4), (6, 6), (0, 0)],
    Sack_track 0 0 3 0 [(1, 1), (3, 4), (6, 6), (0, 0)],
    Sack_track 1 0 3 0 [(0, 1), (3, 4), (6, 6), (0, 0)],
    Sack_track 0 0 2 0 [(2, 4), (6, 6), (0, 0), (0, 0)],
    Sack_track 1 0 3 0 [(0, 0), (2, 4), (6, 6), (0, 0)],
    Sack_track 0 0 2 0 [(1, 4), (6, 6), (0, 0), (0, 0)],
    Sack_track 1 0 2 0 [(0, 4), (6, 6), (0, 0), (0, 0)],
    Sack_track 0 0 1 0 [(5, 6), (0, 0), (0, 0), (0, 0)],
    Sack_track 1 0 2 0 [(0, 0), (5, 6), (0, 0), (0, 0)],
    Sack_track 0 0 2 0 [(1, 1), (5, 6), (0, 0), (0, 0)],
    Sack_track 1 0 2 0 [(0, 1), (5, 6), (0, 0), (0, 0)],
    Sack_track 0 0 2 0 [(2, 2), (5, 6), (0, 0), (0, 0)],
    Sack_track 1 0 3 0 [(0, 0), (2, 2), (5, 6), (0, 0)],
    Sack_track 0 0 2 0 [(1, 2), (5, 6), (0, 0), (0, 0)],
    Sack_track 1 0 2 0 [(0, 2), (5, 6), (0, 0), (0, 0)],
    Sack_track 0 0 2 0 [(3, 3), (5, 6), (0, 0), (0, 0)],
    Sack_track 1 0 3 0 [(0, 0), (3, 3), (5, 6), (0, 0)],
    Sack_track 0 0 3 0 [(1, 1), (3, 3), (5, 6), (0, 0)],
    Sack_track 1 0 3 0 [(0, 1), (3, 3), (5, 6), (0, 0)],
    Sack_track 0 0 2 0 [(2, 3), (5, 6), (0, 0), (0, 0)],
    Sack_track 1 0 3 0 [(0, 0), (2, 3), (5, 6), (0, 0)],
    Sack_track 0 0 2 0 [(1, 3), (5, 6), (0, 0), (0, 0)],
    Sack_track 1 0 2 0 [(0, 3), (5, 6), (0, 0), (0, 0)],
    Sack_track 0 0 1 0 [(4, 6), (0, 0), (0, 0), (0, 0)],
    Sack_track 1 0 2 0 [(0, 0), (4, 6), (0, 0), (0, 0)],
    Sack_track 0 0 2 0 [(1, 1), (4, 6), (0, 0), (0, 0)],
    Sack_track 1 0 2 0 [(0, 1), (4, 6), (0, 0), (0, 0)],
    Sack_track 0 0 2 0 [(2, 2), (4, 6), (0, 0), (0, 0)],
    Sack_track 1 0 3 0 [(0, 0), (2, 2), (4, 6), (0, 0)],
    Sack_track 0 0 2 0 [(1, 2), (4, 6), (0, 0), (0, 0)],
    Sack_track 1 0 2 0 [(0, 2), (4, 6), (0, 0), (0, 0)],
    Sack_track 0 0 1 0 [(3, 6), (0, 0), (0, 0), (0, 0)],
    Sack_track 1 0 2 0 [(0, 0), (3, 6), (0, 0), (0, 0)],
    Sack_track 0 0 2 0 [(1, 1), (3, 6), (0, 0), (0, 0)],
    Sack_track 1 0 2 0 [(0, 1), (3, 6), (0, 0), (0, 0)],
    Sack_track 0 0 1 0 [(2, 6), (0, 0), (0, 0), (0, 0)],
    Sack_track 1 0 2 0 [(0, 0), (2, 6), (0, 0), (0, 0)],
    Sack_track 0 0 1 0 [(1, 6), (0, 0), (0, 0), (0, 0)],
    Sack_track 1 0 1 0 [(0, 6), (0, 0), (0, 0), (0, 0)],
    Sack_track 0 1 1 0 [(7, 7), (0, 0), (0, 0), (0, 0)],
    Sack_track 1 1 2 0 [(0, 0), (7, 7), (0, 0), (0, 0)],
    Sack_track 0 1 2 0 [(1, 1), (7, 7), (0, 0), (0, 0)],
    Sack_track 1 1 2 0 [(0, 1), (7, 7), (0, 0), (0, 0)],
    Sack_track 0 1 2 0 [(2, 2), (7, 7), (0, 0), (0, 0)],
    Sack_track 1 1 3 0 [(0, 0), (2, 2), (7, 7), (0, 0)],
    Sack_track 0 1 2 0 [(1, 2), (7, 7), (0, 0), (0, 0)],
    Sack_track 1 1 2 0 [(0, 2), (7, 7), (0, 0), (0, 0)],
    Sack_track 0 1 2 0 [(3, 3), (7, 7), (0, 0), (0, 0)],
    Sack_track 1 1 3 0 [(0, 0), (3, 3), (7, 7), (0, 0)],
    Sack_track 0 1 3 0 [(1, 1), (3, 3), (7, 7), (0, 0)],
    Sack_track 1 1 3 0 [(0, 1), (3, 3), (7, 7), (0, 0)],
    Sack_track 0 1 2 0 [(2, 3), (7, 7), (0, 0), (0, 0)],
    Sack_track 1 1 3 0 [(0, 0), (2, 3), (7, 7), (0, 0)],
    Sack_track 0 1 2 0 [(1, 3), (7, 7), (0, 0), (0, 0)],
    Sack_track 1 1 2 0 [(0, 3), (7, 7), (0, 0), (0, 0)],
    Sack_track 0 1 2 0 [(4, 4), (7, 7), (0, 0), (0, 0)],
    Sack_track 1 1 3 0 [(0, 0), (4, 4), (7, 7), (0, 0)],
    Sack_track 0 1 3 0 [(1, 1), (4, 4), (7, 7), (0, 0)],
    Sack_track 1 1 3 0 [(0, 1), (4, 4), (7, 7), (0, 0)],
    Sack_track 0 1 3 0 [(2, 2), (4, 4), (7, 7), (0, 0)],
    Sack_track 1 1 4 0 [(0, 0), (2, 2), (4, 4), (7, 7)],
    Sack_track 0 1 3 0 [(1, 2), (4, 4), (7, 7), (0, 0)],
    Sack_track 1 1 3 0 [(0, 2), (4, 4), (7, 7), (0, 0)],
    Sack_track 0 1 2 0 [(3, 4), (7, 7), (0, 0), (0, 0)],
    Sack_track 1 1 3 0 [(0, 0), (3, 4), (7, 7), (0, 0)],
    Sack_track 0 1 3 0 [(1, 1), (3, 4), (7, 7), (0, 0)],
    Sack_track 1 1 3 0 [(0, 1), (3, 4), (7, 7), (0, 0)],
    Sack_track 0 1 2 0 [(2, 4), (7, 7), (0, 0), (0, 0)],
    Sack_track 1 1 3 0 [(0, 0), (2, 4), (7, 7), (0, 0)],
    Sack_track 0 1 2 0 [(1, 4), (7, 7), (0, 0), (0, 0)],
    Sack_track 1 1 2 0 [(0, 4), (7, 7), (0, 0), (0, 0)],
    Sack_track 0 1 2 0 [(5, 5), (7, 7), (0, 0), (0, 0)],
    Sack_track 1 1 3 0 [(0, 0), (5, 5), (7, 7), (0, 0)],
    Sack_track 0 1 3 0 [(1, 1), (5, 5), (7, 7), (0, 0)],
    Sack_track 1 1 3 0 [(0, 1), (5, 5), (7, 7), (0, 0)],
    Sack_track 0 1 3 0 [(2, 2), (5, 5), (7, 7), (0, 0)],
    Sack_track 1 1 4 0 [(0, 0), (2, 2), (5, 5), (7, 7)],
    Sack_track 0 1 3 0 [(1, 2), (5, 5), (7, 7), (0, 0)],
    Sack_track 1 1 3 0 [(0, 2), (5, 5), (7, 7), (0, 0)],
    Sack_track 0 1 3 0 [(3, 3), (5, 5), (7, 7), (0, 0)],
    Sack_track 1 1 4 0 [(0, 0), (3, 3), (5, 5), (7, 7)],
    Sack_track 0 1 4 0 [(1, 1), (3, 3), (5, 5), (7, 7)],
    Sack_track 1 1 4 0 [(0, 1), (3, 3), (5, 5), (7, 7)],
    Sack_track 0 1 3 0 [(2, 3), (5, 5), (7, 7), (0, 0)],
    Sack_track 1 1 4 0 [(0, 0), (2, 3), (5, 5), (7, 7)],
    Sack_track 0 1 3 0 [(1, 3), (5, 5), (7, 7), (0, 0)],
    Sack_track 1 1 3 0 [(0, 3), (5, 5), (7, 7), (0, 0)],
    Sack_track 0 1 2 0 [(4, 5), (7, 7), (0, 0), (0, 0)],
    Sack_track 1 1 3 0 [(0, 0), (4, 5), (7, 7), (0, 0)],
    Sack_track 0 1 3 0 [(1, 1), (4, 5), (7, 7), (0, 0)],
    Sack_track 1 1 3 0 [(0, 1), (4, 5), (7, 7), (0, 0)],
    Sack_track 0 1 3 0 [(2, 2), (4, 5), (7, 7), (0, 0)],
    Sack_track 1 1 4 0 [(0, 0), (2, 2), (4, 5), (7, 7)],
    Sack_track 0 1 3 0 [(1, 2), (4, 5), (7, 7), (0, 0)],
    Sack_track 1 1 3 0 [(0, 2), (4, 5), (7, 7), (0, 0)],
    Sack_track 0 1 2 0 [(3, 5), (7, 7), (0, 0), (0, 0)],
    Sack_track 1 1 3 0 [(0, 0), (3, 5), (7, 7), (0, 0)],
    Sack_track 0 1 3 0 [(1, 1), (3, 5), (7, 7), (0, 0)],
    Sack_track 1 1 3 0 [(0, 1), (3, 5), (7, 7), (0, 0)],
    Sack_track 0 1 2 0 [(2, 5), (7, 7), (0, 0), (0, 0)],
    Sack_track 1 1 3 0 [(0, 0), (2, 5), (7, 7), (0, 0)],
    Sack_track 0 1 2 0 [(1, 5), (7, 7), (0, 0), (0, 0)],
    Sack_track 1 1 2 0 [(0, 5), (7, 7), (0, 0), (0, 0)],
    Sack_track 0 1 1 0 [(6, 7), (0, 0), (0, 0), (0, 0)],
    Sack_track 1 1 2 0 [(0, 0), (6, 7), (0, 0), (0, 0)],
    Sack_track 0 1 2 0 [(1, 1), (6, 7), (0, 0), (0, 0)],
    Sack_track 1 1 2 0 [(0, 1), (6, 7), (0, 0), (0, 0)],
    Sack_track 0 1 2 0 [(2, 2), (6, 7), (0, 0), (0, 0)],
    Sack_track 1 1 3 0 [(0, 0), (2, 2), (6, 7), (0, 0)],
    Sack_track 0 1 2 0 [(1, 2), (6, 7), (0, 0), (0, 0)],
    Sack_track 1 1 2 0 [(0, 2), (6, 7), (0, 0), (0, 0)],
    Sack_track 0 1 2 0 [(3, 3), (6, 7), (0, 0), (0, 0)],
    Sack_track 1 1 3 0 [(0, 0), (3, 3), (6, 7), (0, 0)],
    Sack_track 0 1 3 0 [(1, 1), (3, 3), (6, 7), (0, 0)],
    Sack_track 1 1 3 0 [(0, 1), (3, 3), (6, 7), (0, 0)],
    Sack_track 0 1 2 0 [(2, 3), (6, 7), (0, 0), (0, 0)],
    Sack_track 1 1 3 0 [(0, 0), (2, 3), (6, 7), (0, 0)],
    Sack_track 0 1 2 0 [(1, 3), (6, 7), (0, 0), (0, 0)],
    Sack_track 1 1 2 0 [(0, 3), (6, 7), (0, 0), (0, 0)],
    Sack_track 0 1 2 0 [(4, 4), (6, 7), (0, 0), (0, 0)],
    Sack_track 1 1 3 0 [(0, 0), (4, 4), (6, 7), (0, 0)],
    Sack_track 0 1 3 0 [(1, 1), (4, 4), (6, 7), (0, 0)],
    Sack_track 1 1 3 0 [(0, 1), (4, 4), (6, 7), (0, 0)],
    Sack_track 0 1 3 0 [(2, 2), (4, 4), (6, 7), (0, 0)],
    Sack_track 1 1 4 0 [(0, 0), (2, 2), (4, 4), (6, 7)],
    Sack_track 0 1 3 0 [(1, 2), (4, 4), (6, 7), (0, 0)],
    Sack_track 1 1 3 0 [(0, 2), (4, 4), (6, 7), (0, 0)],
    Sack_track 0 1 2 0 [(3, 4), (6, 7), (0, 0), (0, 0)],
    Sack_track 1 1 3 0 [(0, 0), (3, 4), (6, 7), (0, 0)],
    Sack_track 0 1 3 0 [(1, 1), (3, 4), (6, 7), (0, 0)],
    Sack_track 1 1 3 0 [(0, 1), (3, 4), (6, 7), (0, 0)],
    Sack_track 0 1 2 0 [(2, 4), (6, 7), (0, 0), (0, 0)],
    Sack_track 1 1 3 0 [(0, 0), (2, 4), (6, 7), (0, 0)],
    Sack_track 0 1 2 0 [(1, 4), (6, 7), (0, 0), (0, 0)],
    Sack_track 1 1 2 0 [(0, 4), (6, 7), (0, 0), (0, 0)],
    Sack_track 0 1 1 0 [(5, 7), (0, 0), (0, 0), (0, 0)],
    Sack_track 1 1 2 0 [(0, 0), (5, 7), (0, 0), (0, 0)],
    Sack_track 0 1 2 0 [(1, 1), (5, 7), (0, 0), (0, 0)],
    Sack_track 1 1 2 0 [(0, 1), (5, 7), (0, 0), (0, 0)],
    Sack_track 0 1 2 0 [(2, 2), (5, 7), (0, 0), (0, 0)],
    Sack_track 1 1 3 0 [(0, 0), (2, 2), (5, 7), (0, 0)],
    Sack_track 0 1 2 0 [(1, 2), (5, 7), (0, 0), (0, 0)],
    Sack_track 1 1 2 0 [(0, 2), (5, 7), (0, 0), (0, 0)],
    Sack_track 0 1 2 0 [(3, 3), (5, 7), (0, 0), (0, 0)],
    Sack_track 1 1 3 0 [(0, 0), (3, 3), (5, 7), (0, 0)],
    Sack_track 0 1 3 0 [(1, 1), (3, 3), (5, 7), (0, 0)],
    Sack_track 1 1 3 0 [(0, 1), (3, 3), (5, 7), (0, 0)],
    Sack_track 0 1 2 0 [(2, 3), (5, 7), (0, 0), (0, 0)],
    Sack_track 1 1 3 0 [(0, 0), (2, 3), (5, 7), (0, 0)],
    Sack_track 0 1 2 0 [(1, 3), (5, 7), (0, 0), (0, 0)],
    Sack_track 1 1 2 0 [(0, 3), (5, 7), (0, 0), (0, 0)],
    Sack_track 0 1 1 0 [(4, 7), (0, 0), (0, 0), (0, 0)],
    Sack_track 1 1 2 0 [(0, 0), (4, 7), (0, 0), (0, 0)],
    Sack_track 0 1 2 0 [(1, 1), (4, 7), (0, 0), (0, 0)],
    Sack_track 1 1 2 0 [(0, 1), (4, 7), (0, 0), (0, 0)],
    Sack_track 0 1 2 0 [(2, 2), (4, 7), (0, 0), (0, 0)],
    Sack_track 1 1 3 0 [(0, 0), (2, 2), (4, 7), (0, 0)],
    Sack_track 0 1 2 0 [(1, 2), (4, 7), (0, 0), (0, 0)],
    Sack_track 1 1 2 0 [(0, 2), (4, 7), (0, 0), (0, 0)],
    Sack_track 0 1 1 0 [(3, 7), (0, 0), (0, 0), (0, 0)],
    Sack_track 1 1 2 0 [(0, 0), (3, 7), (0, 0), (0, 0)],
    Sack_track 0 1 2 0 [(1, 1), (3, 7), (0, 0), (0, 0)],
    Sack_track 1 1 2 0 [(0, 1), (3, 7), (0, 0), (0, 0)],
    Sack_track 0 1 1 0 [(2, 7), (0, 0), (0, 0), (0, 0)],
    Sack_track 1 1 2 0 [(0, 0), (2, 7), (0, 0), (0, 0)],
    Sack_track 0 1 1 0 [(1, 7), (0, 0), (0, 0), (0, 0)],
    Sack_track 1 1 1 0 [(0, 7), (0, 0), (0, 0), (0, 0)]]"

section \<open>The loops\<close>

text \<open>The gap descriptors, the index of the next one, and the number of the blocks of the kind that is being written.\<close>

record gap_buf =
  blocks :: "(u16 \<times> u16) list"
  descriptor :: nat
  num_blocks :: nat

text \<open>The entries of a table row, left to right; the result says whether the limit is reached.\<close>

fun put_gaps :: "nat \<Rightarrow> bool \<Rightarrow> int \<Rightarrow> (nat \<times> nat) list \<Rightarrow> bool \<Rightarrow> gap_buf \<Rightarrow> (bool \<times> bool \<times> gap_buf) option" where
  "put_gaps room right offset [] mergeable b = Some (False, mergeable, b)"
| "put_gaps room right offset ((s, e) # es) mergeable b =
     (let i = descriptor b in
      if i < room \<and> i < length (blocks b) then
        let start = (if mergeable \<and> right then fst (blocks b ! i) else of_int (int s + offset));
            b1 = b\<lparr>blocks := (blocks b)[i := (start, of_int (int e + offset))], descriptor := Suc i, num_blocks := Suc (num_blocks b)\<rparr> in
        if Suc (descriptor b1) > room then Some (True, False, b1) else put_gaps room right offset es False b1
      else None)"

definition mask_first :: "int \<Rightarrow> u8 \<Rightarrow> u8 option" where
  "mask_first offset x = (let n = 1 - offset in
     if 0 \<le> n \<and> n < 32 then Some (x AND ucast (push_bit (nat n) (0xffffffff :: u32))) else None)"

text \<open>A byte of the array: the row of the table, merged with the last block if both touch.\<close>

definition gap_byte :: "nat \<Rightarrow> int \<Rightarrow> bool \<Rightarrow> u8 \<Rightarrow> gap_buf \<Rightarrow> (bool \<times> bool \<times> gap_buf) option" where
  "gap_byte room offset mergeable x b = do {
     let selector = sack_array ! unat x;
     let right = right_edge selector \<noteq> 0;
     b1 \<leftarrow> (if mergeable \<and> right then
              if descriptor b = 0 \<or> num_blocks b = 0 then None
              else Some (b\<lparr>descriptor := descriptor b - 1, num_blocks := num_blocks b - 1\<rparr>)
            else Some b);
     (if num_entries selector = 0 then Some (False, False, b1)
      else do {
        (limit, merge, b2) \<leftarrow> put_gaps room right offset (take (num_entries selector) (gaps selector)) mergeable b1;
        Some (limit, (if left_edge selector \<noteq> 0 then True else merge), b2)
      })
   }"

fun gap_loop :: "nat \<Rightarrow> (nat \<Rightarrow> u8 option) \<Rightarrow> nat \<Rightarrow> nat \<Rightarrow> int \<Rightarrow> bool \<Rightarrow> gap_buf \<Rightarrow> (bool \<times> gap_buf) option" where
  "gap_loop room tsn_map 0 i offset mergeable b = Some (False, b)"
| "gap_loop room tsn_map (Suc n) i offset mergeable b = do {
     x0 \<leftarrow> tsn_map i;
     x \<leftarrow> (if i = 0 then mask_first offset x0 else Some x0);
     (limit, merge, b1) \<leftarrow> gap_byte room offset mergeable x b;
     (if limit then Some (True, b1) else gap_loop room tsn_map n (Suc i) (offset + 8) merge b1)
   }"

section \<open>The chunk\<close>

record sack_chunk =
  send_size :: u16 \<comment> \<open>the length of the chunk\<close>
  cum_tsn_ack :: u32
  a_rwnd :: u32
  gap_ack_blks :: "(u16 \<times> u16) list"
  nr_gap_ack_blks :: "(u16 \<times> u16) list"
  duplicates :: "u32 list"

definition MAX_TSN :: u32 where "MAX_TSN = 0xffffffff"

definition highest_in_maps :: "tsn_map \<Rightarrow> u32" where
  "highest_in_maps a = (if SCTP_TSN_GT (highest_tsn_inside_map a) (highest_tsn_inside_nr_map a)
     then highest_tsn_inside_map a else highest_tsn_inside_nr_map a)"

text \<open>The number of bytes to look at, in a SACK and for either array of an NR-SACK.\<close>

definition siz_sack :: "u32 \<Rightarrow> u32 \<Rightarrow> nat" where
  "siz_sack highest base = unat ((if highest > base then ((highest - base) + 1) + 7 else ((MAX_TSN - highest) + 1) + highest + 7) div 8)"

definition siz_nr_sack :: "u32 \<Rightarrow> u32 \<Rightarrow> nat" where
  "siz_nr_sack highest base = unat ((if highest > base then ((highest - base) + 1) + 7 else ((MAX_TSN - base) + 1) + highest + 7) div 8)"

definition first_offset :: "tsn_map \<Rightarrow> int" where
  "first_offset a = (if SCTP_TSN_GT (mapping_array_base_tsn a) (cumulative_tsn a) then 1
     else sint (mapping_array_base_tsn a - cumulative_tsn a))"

definition or_byte :: "tsn_map \<Rightarrow> nat \<Rightarrow> u8 option" where
  "or_byte a i = do { x \<leftarrow> entry (mapping_array a) i; y \<leftarrow> entry (nr_mapping_array a) i; Some (x OR y) }"

fun put_dups :: "nat \<Rightarrow> nat \<Rightarrow> u32 list \<Rightarrow> u32 list" where
  "put_dups room used [] = []"
| "put_dups room used (d # ds) = d # (if Suc (Suc used) > room then [] else put_dups room (Suc used) ds)"

text \<open>A SACK, or an NR-SACK if \<open>nr\<close>, for slid arrays. Afterwards the duplicates have been reported.\<close>

definition build_sack :: "bool \<Rightarrow> nat \<Rightarrow> u32 \<Rightarrow> tsn_map \<Rightarrow> (sack_chunk \<times> tsn_map) option" where
  "build_sack nr room my_rwnd a = do {
     let b = \<lparr>blocks = replicate room (0, 0), descriptor = 0, num_blocks = 0\<rparr>;
     let base = mapping_array_base_tsn a;
     let highest = (if nr then highest_tsn_inside_map a else highest_in_maps a);
     let siz = (if nr then siz_nr_sack highest base else siz_sack highest base);
     (limit1, b1) \<leftarrow> (if SCTP_TSN_GT highest (cumulative_tsn a)
        then gap_loop room (if nr then entry (mapping_array a) else or_byte a) siz 0 (first_offset a) False b else Some (False, b));
     (limit2, b2) \<leftarrow> (if nr \<and> \<not> limit1 \<and> SCTP_TSN_GT (highest_tsn_inside_nr_map a) (cumulative_tsn a)
        then gap_loop room (entry (nr_mapping_array a)) (siz_nr_sack (highest_tsn_inside_nr_map a) base) 0 (first_offset a) False (b1\<lparr>num_blocks := 0\<rparr>)
        else Some (limit1, b1\<lparr>num_blocks := 0\<rparr>));
     let dups = (if \<not> limit2 then put_dups room (descriptor b2) (dup_tsns a) else []);
     let size = (if nr then 20 else 16) + (num_blocks b1 + num_blocks b2) * 4 + length dups * 4;
     Some (\<lparr>send_size = of_nat size, cum_tsn_ack = cumulative_tsn a, a_rwnd = my_rwnd, gap_ack_blks = take (num_blocks b1) (blocks b2),
            nr_gap_ack_blks = take (num_blocks b2) (drop (num_blocks b1) (blocks b2)), duplicates = dups\<rparr>,
           a\<lparr>dup_tsns := (if \<not> limit2 then [] else dup_tsns a), send_sack := False\<rparr>)
   }"

definition sctp_send_sack :: "bool \<Rightarrow> nat \<Rightarrow> u32 \<Rightarrow> tsn_map \<Rightarrow> (sack_chunk \<times> tsn_map) option" where
  "sctp_send_sack nr room my_rwnd a = Option.bind (sctp_slide_mapping_arrays a) (build_sack nr room my_rwnd)"

end
