(* ===== verification/Sack_Runs.thy ===== *)
theory Sack_Runs
  imports Sack_Gaps
begin

text \<open>
  The loops of \<^theory_text>\<open>Sack_Gaps\<close> find the maximal runs of ones of a bit sequence: the table holds the runs of a byte, and the
  runs of a longer sequence are those of its bytes, merged where they meet.
\<close>

section \<open>Maximal runs\<close>

definition covered :: "(nat \<times> nat) list \<Rightarrow> nat set" where
  "covered bs = (\<Union>(s, e) \<in> set bs. {s..e})"

definition runs :: "nat \<Rightarrow> (nat \<Rightarrow> bool) \<Rightarrow> (nat \<times> nat) list \<Rightarrow> bool" where
  "runs n P bs \<longleftrightarrow> sorted_wrt (\<lambda>x y. Suc (snd x) < fst y) bs \<and> (\<forall>(s, e) \<in> set bs. s \<le> e) \<and> covered bs = {i. i < n \<and> P i}"

abbreviation shift :: "nat \<Rightarrow> nat \<times> nat \<Rightarrow> nat \<times> nat" where
  "shift n \<equiv> map_prod ((+) n) ((+) n)"

lemma covered_simps [simp]:
  "covered [] = {}" "covered (x # bs) = {fst x..snd x} \<union> covered bs" "covered (bs @ cs) = covered bs \<union> covered cs"
  by (auto simp: covered_def)

lemma covered_iff: "i \<in> covered bs \<longleftrightarrow> list_ex (\<lambda>(s, e). s \<le> i \<and> i \<le> e) bs"
  by (induction bs) auto

lemma covered_shift: "covered (map (shift n) bs) = (+) n ` covered bs"
proof (induction bs)
  case (Cons x bs)
  have "(+) n ` {fst x..snd x} = {n + fst x..n + snd x}" by simp
  with Cons show ?case by (simp add: image_Un add.commute)
qed simp

lemma runs_Nil: "runs 0 P []"
  by (simp add: runs_def)

lemma runs_bounds:
  assumes "runs n P bs" "(s, e) \<in> set bs"
  shows "s \<le> e" "e < n" "\<And>i. s \<le> i \<Longrightarrow> i \<le> e \<Longrightarrow> P i"
proof -
  show se: "s \<le> e" using assms by (auto simp: runs_def)
  have "{s..e} \<subseteq> {i. i < n \<and> P i}" using assms by (auto simp: runs_def covered_def)
  with se show "e < n" "\<And>i. s \<le> i \<Longrightarrow> i \<le> e \<Longrightarrow> P i" by auto
qed

lemma split_range: "{i. i < n + m \<and> P i} = {i :: nat. i < n \<and> P i} \<union> (+) n ` {i. i < m \<and> P (n + i)}"
proof -
  have "i \<in> (+) n ` {i. i < m \<and> P (n + i)}" if "\<not> i < n" "i < n + m" "P i" for i
    using that by (intro image_eqI [of _ _ "i - n"]) auto
  then show ?thesis by auto
qed

lemma runs_append:
  assumes bs: "runs n P bs" and cs: "runs m (\<lambda>i. P (n + i)) cs"
    and apart: "\<And>b c. b \<in> set bs \<Longrightarrow> c \<in> set cs \<Longrightarrow> Suc (snd b) < n + fst c"
  shows "runs (n + m) P (bs @ map (shift n) cs)"
proof -
  have "sorted_wrt (\<lambda>x y. Suc (snd x) < fst y) (map (shift n) cs)"
    using cs by (auto simp: runs_def sorted_wrt_map)
  moreover have "covered (bs @ map (shift n) cs) = {i. i < n + m \<and> P i}"
    using bs cs unfolding split_range by (simp add: runs_def covered_shift)
  ultimately show ?thesis using bs cs apart by (auto simp: runs_def sorted_wrt_append)
qed

lemma runs_last:
  assumes "runs n P (bs @ [(s, e)])" "0 < n" "P (n - 1)"
  shows "e = n - 1"
proof -
  have "n - 1 \<in> covered (bs @ [(s, e)])" using assms by (simp add: runs_def)
  then obtain s' e' where b: "(s', e') \<in> set (bs @ [(s, e)])" "n - 1 \<le> e'" by (fastforce simp: covered_def)
  have "e' \<le> e" using b(1) assms(1) by (auto simp: runs_def sorted_wrt_append)
  then show ?thesis using runs_bounds(2) [OF assms(1), of s e] b(2) by simp
qed

lemma runs_first:
  assumes "runs n P ((s, e) # bs)" "0 < n" "P 0"
  shows "s = 0"
proof -
  have "0 \<in> covered ((s, e) # bs)" using assms by (simp add: runs_def)
  then obtain s' e' where b: "(s', e') \<in> set ((s, e) # bs)" "s' = 0" by (fastforce simp: covered_def)
  then show ?thesis using assms(1) by (auto simp: runs_def)
qed

lemma runs_nonempty: "runs n P bs \<Longrightarrow> i < n \<Longrightarrow> P i \<Longrightarrow> bs \<noteq> []"
  by (auto simp: runs_def)

lemma runs_apart:
  assumes bs: "runs n P bs" and cs: "runs m (\<lambda>i. P (n + i)) cs" and edge: "\<not> (0 < n \<and> P (n - 1) \<and> P n)"
    and "b \<in> set bs" "c \<in> set cs"
  shows "Suc (snd b) < n + fst c"
proof -
  obtain s e s' e' where bc: "b = (s, e)" "c = (s', e')" by (cases b, cases c)
  note b = runs_bounds [OF bs assms(4) [unfolded bc]] and c = runs_bounds [OF cs assms(5) [unfolded bc]]
  have "\<not> (Suc e = n \<and> s' = 0)" using edge b(1,3) c(1) c(3) [of 0] b(3) [of e] by auto
  then have "Suc e < n + s'" using b(2) by linarith
  with bc show ?thesis by simp
qed

text \<open>Two runs that meet are one.\<close>

lemma runs_merge:
  assumes bs: "runs n P (bs @ [(s, e)])" and cs: "runs m (\<lambda>i. P (n + i)) ((s', e') # cs)" and edge: "0 < n" "0 < m" "P (n - 1)" "P n"
  shows "runs (n + m) P (bs @ [(s, n + e')] @ map (shift n) cs)"
proof -
  have e: "e = n - 1" "s' = 0" using runs_last [OF bs edge(1,3)] runs_first [OF cs edge(2)] edge(4) by simp_all
  have se: "s \<le> e" using runs_bounds(1) [OF bs, of s e] by simp
  have "covered (bs @ [(s, n + e')] @ map (shift n) cs) = covered (bs @ [(s, e)]) \<union> (+) n ` covered ((s', e') # cs)"
  proof -
    have "{s..n + e'} = {s..e} \<union> (+) n ` {s'..e'}" using e se edge(1) by auto
    then show ?thesis by (auto simp: covered_shift image_Un)
  qed
  also have "\<dots> = {i. i < n + m \<and> P i}" using bs cs unfolding split_range runs_def by simp
  finally have "covered (bs @ [(s, n + e')] @ map (shift n) cs) = {i. i < n + m \<and> P i}" .
  moreover have "sorted_wrt (\<lambda>x y. Suc (snd x) < fst y) (bs @ [(s, n + e')] @ map (shift n) cs)"
    using bs cs e se by (auto simp: runs_def sorted_wrt_append sorted_wrt_map)
  ultimately show ?thesis using bs cs e se by (auto simp: runs_def)
qed

section \<open>The table\<close>

definition row_ok :: "int \<Rightarrow> sack_track \<Rightarrow> bool" where
  "row_ok k t = (let es = take (num_entries t) (gaps t) in
     sorted_wrt (\<lambda>x y. Suc (snd x) < fst y) es \<and> list_all (\<lambda>(s, e). s \<le> e \<and> e < 8) es \<and>
     list_all (\<lambda>i. bit k i = list_ex (\<lambda>(s, e). s \<le> i \<and> i \<le> e) es) [0..<8] \<and>
     (right_edge t \<noteq> 0) = bit k 0 \<and> (left_edge t \<noteq> 0) = bit k 7 \<and> (num_entries t = 0) = (es = []))"

lemma table_check: "list_all (\<lambda>(k, t). row_ok k t) (zip [0..255] sack_array)"
  by code_simp

lemma table_row: "row_ok (uint x) (sack_array ! unat (x :: u8))"
proof -
  have x: "unat x < 256" using unsigned_less [of x, where 'a = nat] by simp
  have "0 + int (unat x) \<le> 255" using x by linarith
  from nth_upto [OF this] have "[0..255] ! unat x = uint x" by simp
  moreover have "length sack_array = 256" by (simp add: sack_array_def)
  ultimately have "zip [0..255] sack_array ! unat x = (uint x, sack_array ! unat x)" "unat x < length (zip [0..255] sack_array)"
    using x by simp_all
  then have "(uint x, sack_array ! unat x) \<in> set (zip [0..255] sack_array)" by (metis nth_mem)
  with table_check show ?thesis by (auto simp: list_all_iff)
qed

lemma table_runs:
  fixes x :: u8
  defines "t \<equiv> sack_array ! unat x"
  shows "runs 8 (bit x) (take (num_entries t) (gaps t))" "right_edge t \<noteq> 0 \<longleftrightarrow> bit x 0" "left_edge t \<noteq> 0 \<longleftrightarrow> bit x 7"
    "num_entries t = 0 \<longleftrightarrow> take (num_entries t) (gaps t) = []"
proof -
  define es where "es = take (num_entries t) (gaps t)"
  have row: "sorted_wrt (\<lambda>x y. Suc (snd x) < fst y) es" "list_all (\<lambda>(s, e). s \<le> e \<and> e < 8) es"
      "list_all (\<lambda>i. bit x i = list_ex (\<lambda>(s, e). s \<le> i \<and> i \<le> e) es) [0..<8]"
      "(right_edge t \<noteq> 0) = bit x 0" "(left_edge t \<noteq> 0) = bit x 7" "(num_entries t = 0) = (es = [])"
    using table_row [of x] by (simp_all add: row_ok_def Let_def es_def t_def bit_uint_iff list_all_iff)
  have "i < 8" if "i \<in> covered es" for i using that row(2) by (fastforce simp: covered_iff list_all_iff list_ex_iff)
  moreover have "i \<in> covered es \<longleftrightarrow> bit x i" if "i < 8" for i using that row(3) by (simp add: covered_iff list_all_iff)
  ultimately have "covered es = {i. i < 8 \<and> bit x i}" by auto
  with row(1,2) show "runs 8 (bit x) (take (num_entries t) (gaps t))" unfolding es_def [symmetric] by (auto simp: runs_def list_all_iff)
  show "right_edge t \<noteq> 0 \<longleftrightarrow> bit x 0" "left_edge t \<noteq> 0 \<longleftrightarrow> bit x 7" "num_entries t = 0 \<longleftrightarrow> take (num_entries t) (gaps t) = []"
    using row(4-6) by (simp_all add: es_def)
qed

section \<open>The loops\<close>

definition block :: "int \<Rightarrow> nat \<times> nat \<Rightarrow> u16 \<times> u16" where
  "block off = (\<lambda>(s, e). (of_int (int s + off), of_int (int e + off)))"

text \<open>The buffer holds \<open>pre\<close>, then the blocks of the runs \<open>bs\<close>.\<close>

definition holds :: "nat \<Rightarrow> (u16 \<times> u16) list \<Rightarrow> int \<Rightarrow> (nat \<times> nat) list \<Rightarrow> gap_buf \<Rightarrow> bool" where
  "holds room pre off bs b \<longleftrightarrow> length (blocks b) = room \<and> descriptor b = length pre + length bs \<and> num_blocks b = length bs \<and>
     (\<exists>rest. blocks b = pre @ map (block off) bs @ rest)"

lemma holds_room: "holds room pre off bs b \<Longrightarrow> descriptor b \<le> room"
  by (auto simp: holds_def)

lemma holds_put:
  assumes "holds room pre off bs b" "descriptor b < room"
  shows "holds room pre off (bs @ [x]) (b\<lparr>blocks := (blocks b)[descriptor b := block off x], descriptor := Suc (descriptor b),
           num_blocks := Suc (num_blocks b)\<rparr>)"
proof -
  obtain rest where r: "blocks b = pre @ map (block off) bs @ rest" "rest \<noteq> []" using assms by (auto simp: holds_def)
  then obtain y ys where "rest = y # ys" by (cases rest) auto
  with assms r show ?thesis by (auto simp: holds_def list_update_append)
qed

lemma put_gaps_ok:
  assumes "holds room pre off bs b" "descriptor b < room" "\<not> (mergeable \<and> right)"
  obtains limit merge b' k where "put_gaps room right (off + int n) es mergeable b = Some (limit, merge, b')"
    "holds room pre off (bs @ map (shift n) (take k es)) b'" "limit \<longleftrightarrow> descriptor b' = room" "\<not> limit \<longrightarrow> take k es = es" "es \<noteq> [] \<longrightarrow> \<not> merge"
  using assms
proof (induction es arbitrary: bs b mergeable thesis)
  case Nil
  then show ?case by (intro Nil.prems(1) [of False mergeable b 0]) simp_all
next
  case (Cons x es)
  obtain s e where x: "x = (s, e)" by (cases x)
  define b1 where "b1 = b\<lparr>blocks := (blocks b)[descriptor b := block off (shift n x)], descriptor := Suc (descriptor b), num_blocks := Suc (num_blocks b)\<rparr>"
  have b1: "holds room pre off (bs @ [shift n x]) b1" unfolding b1_def by (rule holds_put [OF Cons.prems(2,3)])
  have len: "length (blocks b) = room" using Cons.prems(2) by (simp add: holds_def)
  have step: "put_gaps room right (off + int n) (x # es) mergeable b =
      (if Suc (descriptor b1) > room then Some (True, False, b1) else put_gaps room right (off + int n) es False b1)"
    using Cons.prems(3,4) len by (auto simp: x b1_def block_def Let_def algebra_simps)
  show ?case
  proof (cases "Suc (descriptor b1) > room")
    case True
    with step b1 show ?thesis
      using holds_room [OF b1] by (intro Cons.prems(1) [of True False b1 1]) (simp_all add: x)
  next
    case False
    then have room: "descriptor b1 < room" by simp
    obtain limit merge b' k where r: "put_gaps room right (off + int n) es False b1 = Some (limit, merge, b')"
        "holds room pre off ((bs @ [shift n x]) @ map (shift n) (take k es)) b'" "limit \<longleftrightarrow> descriptor b' = room"
        "\<not> limit \<longrightarrow> take k es = es" "es \<noteq> [] \<longrightarrow> \<not> merge"
      by (rule Cons.IH [OF _ b1 room, of False]) ((rule that; assumption), simp)
    have "\<not> merge" using r(1,5) by (cases es) auto
    with r step False show ?thesis by (intro Cons.prems(1) [of limit merge b' "Suc k"]) simp_all
  qed
qed

lemma runs_cong: "(\<And>i. i < n \<Longrightarrow> P i = Q i) \<Longrightarrow> runs n P bs = runs n Q bs"
  unfolding runs_def by (metis (mono_tags, lifting) Collect_cong)

text \<open>The last block is taken back, and its end is written again.\<close>

lemma put_merged:
  assumes h: "holds room pre off (bs @ [(s, e)]) b" and room: "descriptor b < room"
  shows "put_gaps room True (off + int n) ((0, e') # es) True (b\<lparr>descriptor := descriptor b - 1, num_blocks := num_blocks b - 1\<rparr>) =
      put_gaps room True (off + int n) es False (b\<lparr>blocks := (blocks b)[descriptor b - 1 := block off (s, n + e')]\<rparr>)"
    "holds room pre off (bs @ [(s, n + e')]) (b\<lparr>blocks := (blocks b)[descriptor b - 1 := block off (s, n + e')]\<rparr>)"
proof -
  obtain rest where r: "blocks b = pre @ map (block off) bs @ block off (s, e) # rest" using h by (auto simp: holds_def)
  have d: "descriptor b = length pre + Suc (length bs)" "num_blocks b = Suc (length bs)" "length (blocks b) = room"
    using h by (simp_all add: holds_def)
  have "fst (blocks b ! (descriptor b - 1)) = fst (block off (s, e))" using r d(1) by (simp add: nth_append)
  then show "put_gaps room True (off + int n) ((0, e') # es) True (b\<lparr>descriptor := descriptor b - 1, num_blocks := num_blocks b - 1\<rparr>) =
      put_gaps room True (off + int n) es False (b\<lparr>blocks := (blocks b)[descriptor b - 1 := block off (s, n + e')]\<rparr>)"
    using d room by (cases b) (simp add: block_def Let_def algebra_simps)
  show "holds room pre off (bs @ [(s, n + e')]) (b\<lparr>blocks := (blocks b)[descriptor b - 1 := block off (s, n + e')]\<rparr>)"
    using r d by (auto simp: holds_def list_update_append)
qed

text \<open>A byte in terms of its runs \<open>es\<close>.\<close>

lemma gap_byte_eq:
  assumes h: "holds room pre off bs b" and x: "\<And>q. q < 8 \<Longrightarrow> bit x q = P (n + q)"
  obtains es where "runs 8 (\<lambda>q. P (n + q)) es"
    "mergeable \<and> P n \<longrightarrow> bs \<noteq> [] \<Longrightarrow> gap_byte room (off + int n) mergeable x b =
      (if es = [] then Some (False, False, b)
       else map_option (\<lambda>(limit, merge, b'). (limit, P (n + 7) \<or> merge, b'))
         (put_gaps room (P n) (off + int n) es mergeable
           (if mergeable \<and> P n then b\<lparr>descriptor := descriptor b - 1, num_blocks := num_blocks b - 1\<rparr> else b)))"
proof -
  define t where "t = sack_array ! unat x"
  define es where "es = take (num_entries t) (gaps t)"
  have es: "runs 8 (\<lambda>q. P (n + q)) es" "right_edge t \<noteq> 0 \<longleftrightarrow> P n" "left_edge t \<noteq> 0 \<longleftrightarrow> P (n + 7)" "num_entries t = 0 \<longleftrightarrow> es = []"
    using table_runs [of x, folded t_def, folded es_def] x runs_cong [of 8 "bit x" "\<lambda>q. P (n + q)"] x [of 0] x [of 7] by simp_all
  show ?thesis
  proof (rule that [OF es(1)])
    assume "mergeable \<and> P n \<longrightarrow> bs \<noteq> []"
    moreover have "\<not> (descriptor b = 0 \<or> num_blocks b = 0)" if "bs \<noteq> []" using h that by (simp add: holds_def)
    moreover have "P n \<Longrightarrow> es \<noteq> []" using runs_nonempty [OF es(1), of 0] by simp
    ultimately show "gap_byte room (off + int n) mergeable x b =
      (if es = [] then Some (False, False, b)
       else map_option (\<lambda>(limit, merge, b'). (limit, P (n + 7) \<or> merge, b'))
         (put_gaps room (P n) (off + int n) es mergeable
           (if mergeable \<and> P n then b\<lparr>descriptor := descriptor b - 1, num_blocks := num_blocks b - 1\<rparr> else b)))"
      using es(2-4) by (auto simp: gap_byte_def Let_def t_def [symmetric] es_def [symmetric] map_option_case split: option.splits)
  qed
qed

lemma gap_byte_merged:
  assumes h: "holds room pre off bs b" and room: "descriptor b < room" and bs: "runs n P bs"
    and es: "runs 8 (\<lambda>q. P (n + q)) es" and edge: "0 < n" "P (n - 1)" "P n"
  obtains limit b' rs k where "put_gaps room True (off + int n) es True (b\<lparr>descriptor := descriptor b - 1, num_blocks := num_blocks b - 1\<rparr>) = Some (limit, False, b')"
    "runs (n + 8) P rs" "holds room pre off (take k rs) b'" "limit \<longleftrightarrow> descriptor b' = room" "\<not> limit \<longrightarrow> take k rs = rs"
proof -
  have "bs \<noteq> []" "es \<noteq> []" using edge runs_nonempty [OF bs, of "n - 1"] runs_nonempty [OF es, of 0] by simp_all
  then obtain bs0 s e s' e' es1 where split: "bs = bs0 @ [(s, e)]" "es = (s', e') # es1"
    by (metis list.exhaust rev_exhaust surj_pair)
  have s': "s' = 0" using runs_first [of 8 "\<lambda>q. P (n + q)"] es edge(3) split(2) by simp
  let ?b1 = "b\<lparr>blocks := (blocks b)[descriptor b - 1 := block off (s, n + e')]\<rparr>"
  note merged = put_merged [OF h [unfolded split] room, of n e']
  have room1: "descriptor ?b1 < room" "\<not> (False \<and> True)" using room by simp_all
  obtain limit merge b' k where p: "put_gaps room True (off + int n) es1 False ?b1 = Some (limit, merge, b')"
      "holds room pre off ((bs0 @ [(s, n + e')]) @ map (shift n) (take k es1)) b'" "limit \<longleftrightarrow> descriptor b' = room"
      "\<not> limit \<longrightarrow> take k es1 = es1" "es1 \<noteq> [] \<longrightarrow> \<not> merge"
    by (rule put_gaps_ok [OF merged(2) room1]) (rule that; assumption)
  have "\<not> merge" using p(1,5) by (cases es1) auto
  moreover have "runs (n + 8) P (bs0 @ [(s, n + e')] @ map (shift n) es1)"
    using runs_merge [OF bs [unfolded split] es [unfolded split]] edge by simp
  ultimately show ?thesis
    using merged(1) p by (intro that [of limit b' "bs0 @ [(s, n + e')] @ map (shift n) es1" "length bs0 + 1 + k"]) (simp_all add: split s' take_map)
qed

lemma gap_byte_ok:
  assumes h: "holds room pre off bs b" and room: "descriptor b < room" and bs: "runs n P bs"
    and x: "\<And>q. q < 8 \<Longrightarrow> bit x q = P (n + q)" and mg: "mergeable \<longleftrightarrow> 0 < n \<and> P (n - 1)"
  obtains limit merge b' rs k where "gap_byte room (off + int n) mergeable x b = Some (limit, merge, b')" "runs (n + 8) P rs"
    "holds room pre off (take k rs) b'" "limit \<longleftrightarrow> descriptor b' = room" "\<not> limit \<longrightarrow> take k rs = rs \<and> (merge \<longleftrightarrow> P (n + 7))"
proof -
  obtain es where es: "runs 8 (\<lambda>q. P (n + q)) es"
    "mergeable \<and> P n \<longrightarrow> bs \<noteq> [] \<Longrightarrow> gap_byte room (off + int n) mergeable x b =
      (if es = [] then Some (False, False, b)
       else map_option (\<lambda>(limit, merge, b'). (limit, P (n + 7) \<or> merge, b'))
         (put_gaps room (P n) (off + int n) es mergeable
           (if mergeable \<and> P n then b\<lparr>descriptor := descriptor b - 1, num_blocks := num_blocks b - 1\<rparr> else b)))"
    by (rule gap_byte_eq [OF h x]) (assumption, (rule that; assumption))
  show ?thesis
  proof (cases "mergeable \<and> P n")
    case True
    then have edge: "0 < n" "P (n - 1)" "P n" using mg by simp_all
    obtain limit b' rs k where p: "put_gaps room True (off + int n) es True (b\<lparr>descriptor := descriptor b - 1, num_blocks := num_blocks b - 1\<rparr>) = Some (limit, False, b')"
        "runs (n + 8) P rs" "holds room pre off (take k rs) b'" "limit \<longleftrightarrow> descriptor b' = room" "\<not> limit \<longrightarrow> take k rs = rs"
      by (rule gap_byte_merged [OF h room bs es(1) edge]) (rule that; assumption)
    moreover have "bs \<noteq> []" "es \<noteq> []" using edge runs_nonempty [OF bs, of "n - 1"] runs_nonempty [OF es(1), of 0] by simp_all
    ultimately show ?thesis using es(2) True by (intro that [of limit "P (n + 7)" b' rs k]) simp_all
  next
    case False
    have rs: "runs (n + 8) P (bs @ map (shift n) es)"
      using runs_apart [OF bs es(1)] False mg by (intro runs_append [OF bs es(1)]) blast
    obtain limit merge b' k where p: "put_gaps room (P n) (off + int n) es mergeable b = Some (limit, merge, b')"
        "holds room pre off (bs @ map (shift n) (take k es)) b'" "limit \<longleftrightarrow> descriptor b' = room"
        "\<not> limit \<longrightarrow> take k es = es" "es \<noteq> [] \<longrightarrow> \<not> merge"
      by (rule put_gaps_ok [OF h room False]) (rule that; assumption)
    show ?thesis
    proof (cases "es = []")
      case True
      then have "\<not> P (n + 7)" using runs_nonempty [OF es(1), of 7] by auto
      with True es(2) False rs h room show ?thesis by (intro that [of False False b "bs @ map (shift n) es" "length bs"]) auto
    next
      case False
      with es(2) \<open>\<not> (mergeable \<and> P n)\<close> p rs show ?thesis
        by (intro that [of limit "P (n + 7) \<or> merge" b' "bs @ map (shift n) es" "length bs + k"]) (auto simp: take_map)
    qed
  qed
qed

definition byte_at :: "int \<Rightarrow> (nat \<Rightarrow> u8 option) \<Rightarrow> nat \<Rightarrow> u8 option" where
  "byte_at off tsn_map j = Option.bind (tsn_map j) (\<lambda>x. if j = 0 then mask_first off x else Some x)"

lemma gap_loop_ok:
  assumes "holds room pre off bs b" "descriptor b < room" "runs (8 * i) P bs" "mergeable \<longleftrightarrow> 0 < i \<and> P (8 * i - 1)"
    and "\<And>j. i \<le> j \<Longrightarrow> j < i + n \<Longrightarrow> \<exists>x. byte_at off tsn_map j = Some x \<and> (\<forall>q < 8. bit x q = P (8 * j + q))"
  obtains limit b' N rs k where "gap_loop room tsn_map n i (off + int (8 * i)) mergeable b = Some (limit, b')" "runs N P rs" "N \<le> 8 * (i + n)"
    "holds room pre off (take k rs) b'" "limit \<longleftrightarrow> descriptor b' = room" "\<not> limit \<longrightarrow> take k rs = rs \<and> N = 8 * (i + n)"
  using assms
proof (induction n arbitrary: i bs b mergeable thesis)
  case 0
  then show ?case by (intro "0.prems"(1) [of False b "8 * i" bs "length bs"]) auto
next
  case (Suc n)
  obtain x where x: "byte_at off tsn_map i = Some x" "\<And>q. q < 8 \<Longrightarrow> bit x q = P (8 * i + q)" using Suc.prems(6) [of i] by auto
  have mg: "mergeable \<longleftrightarrow> 0 < 8 * i \<and> P (8 * i - 1)" using Suc.prems(5) by simp
  obtain limit merge b1 rs k where b1: "gap_byte room (off + int (8 * i)) mergeable x b = Some (limit, merge, b1)" "runs (8 * i + 8) P rs"
      "holds room pre off (take k rs) b1" "limit \<longleftrightarrow> descriptor b1 = room" "\<not> limit \<longrightarrow> take k rs = rs \<and> (merge \<longleftrightarrow> P (8 * i + 7))"
    by (rule gap_byte_ok [OF Suc.prems(2-4) x(2) mg]) (assumption, (rule that; assumption))
  have step: "gap_loop room tsn_map (Suc n) i (off + int (8 * i)) mergeable b =
      (if limit then Some (True, b1) else gap_loop room tsn_map n (Suc i) (off + int (8 * Suc i)) merge b1)"
    using x(1) b1(1) by (cases "i = 0") (auto simp: byte_at_def bind_eq_Some_conv algebra_simps)
  show ?case
  proof (cases limit)
    case True
    with b1 step show ?thesis by (intro Suc.prems(1) [of True b1 "8 * i + 8" rs k]) auto
  next
    case False
    then have next_ok: "holds room pre off rs b1" "descriptor b1 < room" "runs (8 * Suc i) P rs" "merge \<longleftrightarrow> 0 < Suc i \<and> P (8 * Suc i - 1)"
      using b1 holds_room [OF b1(3)] by (auto simp: algebra_simps)
    have more: "\<exists>x. byte_at off tsn_map j = Some x \<and> (\<forall>q < 8. bit x q = P (8 * j + q))" if "Suc i \<le> j" "j < Suc i + n" for j
      using Suc.prems(6) that by simp
    obtain limit' b' N rs' k' where r: "gap_loop room tsn_map n (Suc i) (off + int (8 * Suc i)) merge b1 = Some (limit', b')" "runs N P rs'"
        "N \<le> 8 * (Suc i + n)" "holds room pre off (take k' rs') b'" "limit' \<longleftrightarrow> descriptor b' = room" "\<not> limit' \<longrightarrow> take k' rs' = rs' \<and> N = 8 * (Suc i + n)"
      by (rule Suc.IH [OF _ next_ok more]) ((rule that; assumption), assumption, assumption)
    with False step show ?thesis by (intro Suc.prems(1) [of limit' b' N rs' k']) simp_all
  qed
qed

text \<open>Every block starts a run, so that few runs leave room for all of them.\<close>

definition run_starts :: "nat \<Rightarrow> (nat \<Rightarrow> bool) \<Rightarrow> nat set" where
  "run_starts n P = {i. i < n \<and> P i \<and> (i = 0 \<or> \<not> P (i - 1))}"

lemma runs_distinct:
  assumes "runs n P rs"
  shows "distinct (map fst rs)"
proof -
  have "sorted_wrt (\<lambda>x y. fst x < fst y) rs"
  proof (rule sorted_wrt_mono_rel [of rs "\<lambda>x y. Suc (snd x) < fst y"])
    show "fst x < fst y" if "x \<in> set rs" "Suc (snd x) < fst y" for x y
      using assms that by (fastforce simp: runs_def)
    show "sorted_wrt (\<lambda>x y. Suc (snd x) < fst y) rs" using assms by (simp add: runs_def)
  qed
  then show ?thesis using strict_sorted_iff [of "map fst rs"] by (simp add: sorted_wrt_map)
qed

lemma runs_start:
  assumes "runs n P rs" "(s, e) \<in> set rs"
  shows "s \<in> run_starts n P"
proof -
  note b = runs_bounds [OF assms]
  have "\<not> P (s - 1)" if "0 < s"
  proof
    assume "P (s - 1)"
    then have "s - 1 \<in> covered rs" using assms(1) b(1,2) by (auto simp: runs_def)
    then obtain s' e' where c: "(s', e') \<in> set rs" "s' \<le> s - 1" "s - 1 \<le> e'" by (fastforce simp: covered_def)
    obtain i j where ij: "i < length rs" "rs ! i = (s, e)" "j < length rs" "rs ! j = (s', e')"
      using assms(2) c(1) by (metis in_set_conv_nth)
    have "\<And>i j. i < j \<Longrightarrow> j < length rs \<Longrightarrow> Suc (snd (rs ! i)) < fst (rs ! j)"
      using assms(1) by (auto simp: runs_def intro: sorted_wrt_nth_less)
    from this [of i j] this [of j i] ij c that b(1) show False by (cases i j rule: linorder_cases) auto
  qed
  then show ?thesis using b by (auto simp: run_starts_def)
qed

lemma runs_length:
  assumes "runs n P rs"
  shows "length rs \<le> card (run_starts n P)"
proof -
  have "finite (run_starts n P)" by (rule finite_subset [of _ "{..<n}"]) (auto simp: run_starts_def)
  moreover have "fst ` set rs \<subseteq> run_starts n P" using runs_start [OF assms] by auto
  ultimately have "card (fst ` set rs) \<le> card (run_starts n P)" by (rule card_mono)
  moreover have "card (fst ` set rs) = length rs" using distinct_card [OF runs_distinct [OF assms]] by simp
  ultimately show ?thesis by simp
qed

end
