(* ===== verification/Tsn_Bits.thy ===== *)
theory Tsn_Bits
  imports Tsn_Map
begin

text \<open>
  Arithmetic of serial numbers, and the mapping arrays as arrays of bits: what setting, clearing, moving and scanning
  them does to their bits.
\<close>

section \<open>Serial number arithmetic\<close>

lemma sint_32_uint: "sint (x :: u32) = (if uint x < 2147483648 then uint x else uint x - 4294967296)"
proof -
  have "bit (uint x) 31 \<longleftrightarrow> 2147483648 \<le> uint x"
  proof (cases "2147483648 \<le> uint x")
    case True
    then have "uint x div 2147483648 = 1" using uint_lt2p [of x] by (simp add: div_pos_geq)
    with True show ?thesis by (simp add: bit_iff_odd)
  next
    case False
    then show ?thesis by (simp add: bit_iff_odd)
  qed
  moreover have "take_bit 32 (uint x) = uint x" using uint_lt2p [of x] by (simp add: take_bit_eq_mod)
  ultimately show ?thesis by (simp add: sint_uint signed_take_bit_eq_take_bit_minus)
qed

lemma sint_32_range: "- 2147483648 \<le> sint (x :: u32)" "sint (x :: u32) < 2147483648"
  using sint_greater_eq [of x] sint_lt [of x] by simp_all

lemma sint_32_of_int: "- 2147483648 \<le> i \<Longrightarrow> i < 2147483648 \<Longrightarrow> sint (of_int i :: u32) = i"
  using signed_take_bit_int_eq_self [of 31 i] by (simp add: signed_of_int)

lemma sint_32_add: "- 2147483648 \<le> sint x + i \<Longrightarrow> sint x + i < 2147483648 \<Longrightarrow> sint (x + of_int i :: u32) = sint x + i"
  using sint_32_of_int [of "sint x + i"] by simp

lemma unat_32_sint: "0 \<le> sint (x :: u32) \<Longrightarrow> int (unat x) = sint x"
  using uint_lt2p [of x] by (auto simp: sint_32_uint split: if_splits)

lemma uint_32_sub: "uint (a - b :: u32) = (if uint b \<le> uint a then uint a - uint b else uint a - uint b + 4294967296)"
  using uint_lt2p [of a] uint_lt2p [of b] uint_sub_if' [of a b] by simp

lemma SCTP_TSN_GT_iff: "SCTP_TSN_GT a b \<longleftrightarrow> 0 < sint (a - b)"
  using uint_lt2p [of a] uint_lt2p [of b]
  by (simp add: SCTP_TSN_GT_def sint_32_uint word_less_def uint_32_sub) (use uint_ge_0 [of a] uint_ge_0 [of b] in arith)

lemma SCTP_TSN_GE_iff: "SCTP_TSN_GE a b \<longleftrightarrow> 0 \<le> sint (a - b)"
  by (auto simp: SCTP_TSN_GE_def SCTP_TSN_GT_iff order_le_less eq_commute [of 0] signed_eq_0_iff)

lemma SCTP_CALC_TSN_TO_GAP_eq: "SCTP_CALC_TSN_TO_GAP a b = a - b"
  by (simp add: SCTP_CALC_TSN_TO_GAP_def)

section \<open>The bits of an array\<close>

definition tsn_bit :: "bytes \<Rightarrow> nat \<Rightarrow> bool" where
  "tsn_bit xs i \<longleftrightarrow> i < 8 * length xs \<and> bit (xs ! (i div 8)) (i mod 8)"

lemma tsn_bit_bound: "tsn_bit xs i \<Longrightarrow> i < 8 * length xs"
  by (simp add: tsn_bit_def)

lemma gap_split: "unat (drop_bit 3 gap) = unat (gap :: u32) div 8" "unat (gap AND 7) = unat gap mod 8"
proof -
  show "unat (drop_bit 3 gap) = unat gap div 8" by (simp add: drop_bit_eq_div unat_div_distrib)
  have "gap AND 7 = take_bit 3 gap" by (simp add: take_bit_eq_mask mask_eq_exp_minus_1)
  then show "unat (gap AND 7) = unat gap mod 8" by (simp add: take_bit_eq_mod unat_mod_distrib)
qed

lemma bit_test: "drop_bit n x AND 1 \<noteq> 0 \<longleftrightarrow> bit (x :: u8) n"
  by (simp add: and_one_eq bit_iff_odd_drop_bit odd_iff_mod_2_eq_one)

lemma SCTP_IS_TSN_PRESENT_eq:
  "SCTP_IS_TSN_PRESENT arr gap = (if unat gap < 8 * length arr then Some (tsn_bit arr (unat gap)) else None)"
  by (auto simp: SCTP_IS_TSN_PRESENT_def entry_def gap_split bit_test tsn_bit_def)

lemma tsn_bit_update:
  assumes "i < length xs" "\<And>j. j < 8 \<Longrightarrow> bit y j = (if j = k then v else bit (xs ! i) j)" "k < 8"
  shows "tsn_bit (xs[i := y]) j = (if j = 8 * i + k then v else tsn_bit xs j)"
proof (cases "j div 8 = i")
  case True
  then have "j < 8 * length xs" using assms(1) by linarith
  moreover have "j mod 8 = k \<longleftrightarrow> j = 8 * i + k" using True assms(3) by presburger
  ultimately show ?thesis using True assms by (simp add: tsn_bit_def)
next
  case False
  then have "j \<noteq> 8 * i + k" using assms(3) by auto
  with False show ?thesis by (simp add: tsn_bit_def)
qed

lemma SCTP_SET_TSN_PRESENT_ok:
  assumes "unat gap < 8 * length arr"
  obtains arr' where "SCTP_SET_TSN_PRESENT arr gap = Some arr'" "length arr' = length arr"
    "\<And>i. tsn_bit arr' i \<longleftrightarrow> i = unat gap \<or> tsn_bit arr i"
proof -
  have i: "unat gap div 8 < length arr" using assms by linarith
  let ?y = "arr ! (unat gap div 8) OR push_bit (unat gap mod 8) 1"
  have "bit ?y j = (if j = unat gap mod 8 then True else bit (arr ! (unat gap div 8)) j)" if "j < 8" for j
    using that by (auto simp: bit_or_iff bit_exp_iff)
  from tsn_bit_update [OF i this] have "tsn_bit (arr[unat gap div 8 := ?y]) j = (if j = unat gap then True else tsn_bit arr j)" for j
    by simp
  then show ?thesis
    using i by (intro that [of "arr[unat gap div 8 := ?y]"]) (simp_all add: SCTP_SET_TSN_PRESENT_def gap_split entry_def Let_def)
qed

lemma SCTP_UNSET_TSN_PRESENT_ok:
  assumes "unat gap < 8 * length arr"
  obtains arr' where "SCTP_UNSET_TSN_PRESENT arr gap = Some arr'" "length arr' = length arr"
    "\<And>i. tsn_bit arr' i \<longleftrightarrow> i \<noteq> unat gap \<and> tsn_bit arr i"
proof -
  have i: "unat gap div 8 < length arr" using assms by linarith
  let ?y = "arr ! (unat gap div 8) AND NOT (push_bit (unat gap mod 8) 1)"
  have "bit ?y j = (if j = unat gap mod 8 then False else bit (arr ! (unat gap div 8)) j)" if "j < 8" for j
    using that by (auto simp: bit_and_iff bit_not_iff bit_exp_iff)
  from tsn_bit_update [OF i this] have "tsn_bit (arr[unat gap div 8 := ?y]) j = (if j = unat gap then False else tsn_bit arr j)" for j
    by simp
  then show ?thesis
    using i by (intro that [of "arr[unat gap div 8 := ?y]"]) (simp_all add: SCTP_UNSET_TSN_PRESENT_def gap_split entry_def Let_def)
qed

lemma tsn_bit_replicate [simp]: "\<not> tsn_bit (replicate n 0) i"
  by (auto simp: tsn_bit_def nth_replicate less_mult_imp_div_less mult.commute)

lemma tsn_bit_append: "tsn_bit (xs @ ys) i \<longleftrightarrow> tsn_bit xs i \<or> 8 * length xs \<le> i \<and> tsn_bit ys (i - 8 * length xs)"
proof (cases "i < 8 * length xs")
  case True
  then have "i div 8 < length xs" by linarith
  with True show ?thesis by (simp add: tsn_bit_def nth_append)
next
  case False
  then have "i = 8 * length xs + (i - 8 * length xs)" by simp
  then obtain k where "i = 8 * length xs + k" ..
  then show ?thesis by (simp add: tsn_bit_def nth_append)
qed

lemma tsn_bit_take: "tsn_bit (take n xs) i \<longleftrightarrow> i < 8 * n \<and> tsn_bit xs i"
  by (auto simp: tsn_bit_def min_def split: if_splits)

lemma tsn_bit_drop: "n \<le> length xs \<Longrightarrow> tsn_bit (drop n xs) i \<longleftrightarrow> tsn_bit xs (i + 8 * n)"
  by (simp add: tsn_bit_def add.commute less_diff_conv diff_mult_distrib2)

lemma clear_range_ok:
  assumes "j \<le> length arr" "i \<le> j"
  obtains arr' where "clear_range i j arr = Some arr'" "length arr' = length arr"
    "\<And>k. tsn_bit arr' k \<longleftrightarrow> tsn_bit arr k \<and> \<not> (8 * i \<le> k \<and> k < 8 * j)"
  using assms by (intro that [of "take i arr @ replicate (j - i) 0 @ drop j arr"])
    (auto simp: clear_range_def tsn_bit_append tsn_bit_take tsn_bit_drop diff_mult_distrib2 dest: tsn_bit_bound)

lemma copy_down_ok:
  assumes "s + ii + n \<le> length arr"
  obtains arr' where "copy_down n ii s arr = Some arr'" "length arr' = length arr"
    "\<And>k. k < length arr \<Longrightarrow> arr' ! k = (if ii \<le> k \<and> k < ii + n then arr ! (k + s) else arr ! k)"
  using assms
proof (induction n arbitrary: ii arr thesis)
  case 0
  show ?case by (rule "0.prems"(1) [of arr]) auto
next
  case (Suc n)
  obtain arr' where A: "copy_down n (Suc ii) s (arr[ii := arr ! (s + ii)]) = Some arr'" "length arr' = length arr"
      "\<And>k. k < length arr \<Longrightarrow> arr' ! k = (if Suc ii \<le> k \<and> k < Suc ii + n
         then arr[ii := arr ! (s + ii)] ! (k + s) else arr[ii := arr ! (s + ii)] ! k)"
    using Suc.IH [of "Suc ii" "arr[ii := arr ! (s + ii)]"] Suc.prems(2) by auto
  show ?case
    using A Suc.prems(2) by (intro Suc.prems(1) [of arr']) (auto simp: entry_def add.commute nth_list_update)
qed

lemma lookup_tab_check:
  "list_all (\<lambda>(k :: int, n). n < 8 \<and> list_all (bit k) [0..<n] \<and> \<not> bit k n) (zip [0..254] sctp_map_lookup_tab)"
  by code_simp

lemma lookup_tab_ones:
  assumes "v \<noteq> 0xff"
  shows "sctp_map_lookup_tab ! unat v < 8" "i < sctp_map_lookup_tab ! unat v \<Longrightarrow> bit (v :: u8) i"
    "\<not> bit v (sctp_map_lookup_tab ! unat v)"
proof -
  have "unat v \<noteq> 255" using assms by (metis of_nat_numeral of_nat_unat ucast_id)
  then have v: "unat v < 255" using unsigned_less [of v, where 'a = nat] by simp
  have "0 + int (unat v) \<le> 254" using v by linarith
  from nth_upto [OF this] have "[0..254] ! unat v = uint v" by simp
  moreover have "length sctp_map_lookup_tab = 256" by (simp add: sctp_map_lookup_tab_def)
  ultimately have "zip [0..254] sctp_map_lookup_tab ! unat v = (uint v, sctp_map_lookup_tab ! unat v)"
      "unat v < length (zip [0..254] sctp_map_lookup_tab)"
    using v by simp_all
  then have "(uint v, sctp_map_lookup_tab ! unat v) \<in> set (zip [0..254] sctp_map_lookup_tab)" by (metis nth_mem)
  with lookup_tab_check have "sctp_map_lookup_tab ! unat v < 8" "\<forall>i < sctp_map_lookup_tab ! unat v. bit (uint v) i"
      "\<not> bit (uint v) (sctp_map_lookup_tab ! unat v)"
    by (auto simp: list_all_iff)
  then show "sctp_map_lookup_tab ! unat v < 8" "\<not> bit v (sctp_map_lookup_tab ! unat v)"
      "i < sctp_map_lookup_tab ! unat v \<Longrightarrow> bit v i"
    by (auto simp: bit_uint_iff)
qed

section \<open>The first missing TSN\<close>

definition present :: "tsn_map \<Rightarrow> nat \<Rightarrow> bool" where
  "present a i \<longleftrightarrow> tsn_bit (mapping_array a) i \<or> tsn_bit (nr_mapping_array a) i"

lemma full_byte: "(v :: u8) = 0xff \<longleftrightarrow> (\<forall>i < 8. bit v i)"
proof -
  have "bit (0xff :: u8) i" if "i < 8" for i :: nat
  proof -
    have "(0xff :: u8) = mask 8" by (simp add: mask_eq_exp_minus_1)
    then show ?thesis using that by (simp only: bit_mask_iff) simp
  qed
  then show ?thesis by (auto simp: bit_eq_iff bit_imp_le_length)
qed

lemma scan_map_ok:
  assumes "length nr = sf + n" "length m = sf + n" "\<And>i. i < 8 * sf \<Longrightarrow> tsn_bit m i \<or> tsn_bit nr i"
  obtains at where "scan_map nr m n sf (8 * sf) = Some (at div 8, at)" "at \<le> 8 * length m"
    "\<And>i. i < at \<Longrightarrow> tsn_bit m i \<or> tsn_bit nr i" "\<not> tsn_bit m at" "\<not> tsn_bit nr at"
  using assms
proof (induction n arbitrary: sf thesis)
  case 0
  then show ?case by (intro "0.prems"(1) [of "8 * sf"]) (auto simp: tsn_bit_def)
next
  case (Suc n)
  let ?v = "nr ! sf OR m ! sf"
  have low: "tsn_bit m i \<or> tsn_bit nr i \<longleftrightarrow> bit ?v (i mod 8)" if "i div 8 = sf" for i
    using that Suc.prems(2,3) by (auto simp: tsn_bit_def bit_or_iff)
  show ?case
  proof (cases "?v = 0xff")
    case True
    have "tsn_bit m i \<or> tsn_bit nr i" if "i < 8 * Suc sf" for i
    proof (cases "i < 8 * sf")
      case True
      then show ?thesis by (rule Suc.prems(4))
    next
      case False
      then have "i div 8 = sf" using that by simp
      moreover have "bit ?v (i mod 8)" using \<open>?v = 0xff\<close> unfolding full_byte by auto
      ultimately show ?thesis using low by blast
    qed
    then obtain at where "scan_map nr m n (Suc sf) (8 * Suc sf) = Some (at div 8, at)" "at \<le> 8 * length m"
        "\<And>i. i < at \<Longrightarrow> tsn_bit m i \<or> tsn_bit nr i" "\<not> tsn_bit m at" "\<not> tsn_bit nr at"
      using Suc.IH [of "Suc sf"] Suc.prems(2,3) by auto
    with True Suc.prems(2,3) show ?thesis by (intro Suc.prems(1) [of at]) (simp_all add: entry_def add.commute)
  next
    case False
    let ?n = "sctp_map_lookup_tab ! unat ?v"
    note tab = lookup_tab_ones [OF False]
    have "tsn_bit m i \<or> tsn_bit nr i" if "i < 8 * sf + ?n" for i
    proof (cases "i < 8 * sf")
      case True
      then show ?thesis by (rule Suc.prems(4))
    next
      case False
      then have "i div 8 = sf" using that tab(1) by linarith
      then have "i mod 8 < ?n" using that by (simp add: minus_div_mult_eq_mod [symmetric])
      note \<open>i div 8 = sf\<close> this
      with low tab(2) show ?thesis by simp
    qed
    moreover have "\<not> (tsn_bit m (8 * sf + ?n) \<or> tsn_bit nr (8 * sf + ?n))"
      using low [of "8 * sf + ?n"] tab(1,3) by simp
    ultimately show ?thesis
      using False Suc.prems(2,3) tab(1) by (intro Suc.prems(1) [of "8 * sf + ?n"]) (simp_all add: entry_def)
  qed
qed

end
