(* ===== verification/Tsn_Rep.thy ===== *)
theory Tsn_Rep
  imports Tsn_Bits
begin

text \<open>
  What the mapping arrays represent. An association's TSNs are numbered from its initial TSN; \<open>rep\<close> relates the two
  bit arrays, with their base and their highest TSNs, to the set of the numbers received. The lemmas show that each
  routine keeps the relation and makes no access outside the arrays.
\<close>

section \<open>The relation\<close>

definition off :: "tsn_map \<Rightarrow> u32 \<Rightarrow> int" where
  "off a h = sint (h - mapping_array_base_tsn a)"

abbreviation off_r :: "tsn_map \<Rightarrow> int" where "off_r a \<equiv> off a (highest_tsn_inside_map a)"
abbreviation off_nr :: "tsn_map \<Rightarrow> int" where "off_nr a \<equiv> off a (highest_tsn_inside_nr_map a)"

definition msize :: "tsn_map \<Rightarrow> nat" where
  "msize a = unat (mapping_array_size a)"

definition arrays_ok :: "tsn_map \<Rightarrow> bool" where
  "arrays_ok a \<longleftrightarrow> length (mapping_array a) = msize a \<and>
     length (nr_mapping_array a) = msize a \<and> msize a \<le> 1056"

text \<open>A highest TSN may fall behind the base, but its array has no bits then.\<close>

definition highest_ok :: "tsn_map \<Rightarrow> bool" where
  "highest_ok a \<longleftrightarrow> (\<forall>i. tsn_bit (mapping_array a) i \<longrightarrow> int i \<le> off_r a) \<and>
     (\<forall>i. tsn_bit (nr_mapping_array a) i \<longrightarrow> int i \<le> off_nr a) \<and>
     off_r a < 8 * int (msize a) \<and> off_nr a < 8 * int (msize a) \<and>
     (- 1 \<le> off_r a \<or> - 1 \<le> off_nr a)"

definition rep :: "u32 \<Rightarrow> int \<Rightarrow> int \<Rightarrow> int set \<Rightarrow> tsn_map \<Rightarrow> bool" where
  "rep isn B C R a \<longleftrightarrow> arrays_ok a \<and> highest_ok a \<and>
     mapping_array_base_tsn a = isn + of_int B \<and> cumulative_tsn a = isn + of_int (C - 1) \<and>
     B \<le> C \<and> {..<C} \<subseteq> R \<and> (\<forall>i. present a i \<longleftrightarrow> B + int i \<in> R)"

text \<open>No highest TSN is so far behind that comparing serial numbers fails.\<close>

definition recent :: "tsn_map \<Rightarrow> bool" where
  "recent a \<longleftrightarrow> - 1073741824 \<le> off_r a \<and> - 1073741824 \<le> off_nr a"

definition lag :: "tsn_map \<Rightarrow> int" where
  "lag a = max (- off_r a) (- off_nr a)"

lemma recent_lag: "recent a \<longleftrightarrow> lag a \<le> 1073741824"
  by (auto simp: recent_def lag_def)

lemma highest_eq: "h = mapping_array_base_tsn a + of_int (off a h)"
  by (simp add: off_def)

lemma off_base_plus: "- 2147483648 \<le> i \<Longrightarrow> i < 2147483648 \<Longrightarrow> off a (mapping_array_base_tsn a + of_int i) = i"
  by (simp add: off_def sint_32_of_int)

lemma SCTP_TSN_GT_off:
  assumes "- 1073741824 \<le> off a x" "off a x < 1073741824" "- 1073741824 \<le> off a y" "off a y < 1073741824"
  shows "SCTP_TSN_GT x y \<longleftrightarrow> off a y < off a x"
proof -
  have "x - y = of_int (off a x - off a y)" by (simp add: off_def)
  then show ?thesis using assms by (simp add: SCTP_TSN_GT_iff sint_32_of_int del: of_int_diff)
qed

lemma present_bound: "arrays_ok a \<Longrightarrow> present a i \<Longrightarrow> i < 8 * msize a"
  by (auto simp: present_def arrays_ok_def dest: tsn_bit_bound)

lemma off_bounds:
  assumes "arrays_ok a" "highest_ok a"
  shows "off_r a < 8448" "off_nr a < 8448"
  using assms by (auto simp: arrays_ok_def highest_ok_def)

lemma off_highest:
  assumes "arrays_ok a" "highest_ok a" "recent a"
  shows "off a (highest_tsn a) = max (off_r a) (off_nr a)"
  using assms off_bounds [OF assms(1,2)] by (simp add: highest_tsn_def recent_def SCTP_TSN_GT_off [of a] max_def)

section \<open>Sliding\<close>

lemma moved_bits:
  assumes "length arr = n" "sf + d \<le> n"
  obtains arr1 arr2 where "copy_down d 0 sf arr = Some arr1" "clear_range d n arr1 = Some arr2" "length arr2 = n"
    "\<And>i. tsn_bit arr2 i \<longleftrightarrow> i < 8 * d \<and> tsn_bit arr (i + 8 * sf)"
proof -
  obtain arr1 where 1: "copy_down d 0 sf arr = Some arr1" "length arr1 = n"
      "\<And>k. k < n \<Longrightarrow> arr1 ! k = (if k < d then arr ! (k + sf) else arr ! k)"
    using copy_down_ok [of sf 0 d arr] assms by auto
  obtain arr2 where 2: "clear_range d n arr1 = Some arr2" "length arr2 = n"
      "\<And>i. tsn_bit arr2 i \<longleftrightarrow> tsn_bit arr1 i \<and> \<not> (8 * d \<le> i \<and> i < 8 * n)"
    using clear_range_ok [of n arr1 d] 1(2) assms by auto
  have "tsn_bit arr2 i \<longleftrightarrow> i < 8 * d \<and> tsn_bit arr (i + 8 * sf)" for i
  proof (cases "i < 8 * d")
    case True
    then have "i div 8 < d" by linarith
    with True assms 1(2,3) show ?thesis unfolding 2(3) by (simp add: tsn_bit_def add.commute)
  next
    case False
    then show ?thesis using 1(2) unfolding 2(3) by (auto simp: tsn_bit_def)
  qed
  with 1 2 show ?thesis by (intro that)
qed

text \<open>A highest TSN just below the base moves with it, so that it does not fall behind.\<close>

lemma slid_offset:
  assumes x: "- 1073741824 \<le> off a x" and sf: "sf \<le> 1056" and base: "mapping_array_base_tsn a' = mapping_array_base_tsn a + of_int (8 * int sf)"
  shows "off a' (if x + 1 = mapping_array_base_tsn a then x + of_nat (sf * 8) else x) = (if off a x = - 1 then - 1 else off a x - 8 * int sf)"
proof (cases "x + 1 = mapping_array_base_tsn a")
  case True
  then have "x = mapping_array_base_tsn a - 1" by (simp add: eq_diff_eq)
  then show ?thesis by (simp add: off_def base)
next
  case False
  then have "off a x \<noteq> - 1" using highest_eq [of x a] by auto
  moreover have "sint (x - mapping_array_base_tsn a + of_int (- (8 * int sf))) = off a x - 8 * int sf"
    using x sf sint_32_range [of "x - mapping_array_base_tsn a"] unfolding off_def by (subst sint_32_add) simp_all
  ultimately show ?thesis using False by (simp add: off_def base algebra_simps)
qed

lemma slide_down_ok:
  assumes ok: "arrays_ok a" "highest_ok a" "recent a" and sf: "8 * int sf \<le> off a (highest_tsn a)"
  obtains a' where "slide_down sf a = Some a'" "arrays_ok a'" "highest_ok a'"
    "\<And>i. present a' i \<longleftrightarrow> present a (i + 8 * sf)" "mapping_array_base_tsn a' = mapping_array_base_tsn a + of_int (8 * int sf)"
    "cumulative_tsn a' = cumulative_tsn a" "mapping_array_size a' = mapping_array_size a" "dup_tsns a' = dup_tsns a" "send_sack a' = send_sack a"
    "lag a' \<le> lag a + 8448"
proof -
  define h where "h = off a (highest_tsn a)"
  define d where "d = nat (h div 8) - sf + 1"
  have h: "h = max (off_r a) (off_nr a)" unfolding h_def by (rule off_highest [OF ok])
  have n: "h < 8 * int (msize a)" "msize a \<le> 1056" using ok(1,2) unfolding h by (auto simp: highest_ok_def arrays_ok_def)
  have sf: "8 * int sf \<le> h" using sf by (simp add: h_def)
  have d: "sf + d \<le> msize a" "int d = h div 8 - int sf + 1" using sf n unfolding d_def by linarith+
  obtain m1 m2 where M: "copy_down d 0 sf (mapping_array a) = Some m1" "clear_range d (msize a) m1 = Some m2" "length m2 = msize a"
      "\<And>i. tsn_bit m2 i \<longleftrightarrow> i < 8 * d \<and> tsn_bit (mapping_array a) (i + 8 * sf)"
    using moved_bits [OF _ d(1), of "mapping_array a"] ok(1) by (auto simp: arrays_ok_def)
  obtain n1 n2 where N: "copy_down d 0 sf (nr_mapping_array a) = Some n1" "clear_range d (msize a) n1 = Some n2" "length n2 = msize a"
      "\<And>i. tsn_bit n2 i \<longleftrightarrow> i < 8 * d \<and> tsn_bit (nr_mapping_array a) (i + 8 * sf)"
    using moved_bits [OF _ d(1), of "nr_mapping_array a"] ok(1) by (auto simp: arrays_ok_def)
  have "int i + 8 * int sf \<le> h" if "tsn_bit (mapping_array a) (i + 8 * sf) \<or> tsn_bit (nr_mapping_array a) (i + 8 * sf)" for i
    using that ok(2) unfolding h highest_ok_def by (auto simp: le_max_iff_disj)
  then have in_range: "i < 8 * d" if "tsn_bit (mapping_array a) (i + 8 * sf) \<or> tsn_bit (nr_mapping_array a) (i + 8 * sf)" for i
    using that d(2) by force
  define up where "up x = (if x + 1 = mapping_array_base_tsn a then x + of_nat (sf * 8) else x)" for x
  define a' where "a' = a\<lparr>mapping_array := m2, nr_mapping_array := n2, highest_tsn_inside_map := up (highest_tsn_inside_map a),
      highest_tsn_inside_nr_map := up (highest_tsn_inside_nr_map a), mapping_array_base_tsn := mapping_array_base_tsn a + of_nat (sf * 8)\<rparr>"
  have "int sf \<le> h div 8" "int sf + int d \<le> int (msize a)" using sf d(1) by linarith+
  then have guards: "nat (h div 8 - int sf + 1) = d" "\<not> h div 8 < int sf" "\<not> int (msize a) < h div 8"
      "\<not> int (msize a) < h div 8 - int sf + 1 + int sf" "\<not> h div 8 - int sf + 1 < 0"
    using d(2) by linarith+
  have result: "slide_down sf a = Some a'"
    using d M(1,2) N(1,2) guards
    by (simp add: slide_down_def SCTP_CALC_TSN_TO_GAP_eq Let_def a'_def up_def flip: msize_def off_def h_def)
  have base: "mapping_array_base_tsn a' = mapping_array_base_tsn a + of_int (8 * int sf)" by (simp add: a'_def)
  have size: "msize a' = msize a" by (simp add: msize_def a'_def)
  have bits: "tsn_bit (mapping_array a') i \<longleftrightarrow> tsn_bit (mapping_array a) (i + 8 * sf)"
      "tsn_bit (nr_mapping_array a') i \<longleftrightarrow> tsn_bit (nr_mapping_array a) (i + 8 * sf)" for i
    using in_range [of i] by (auto simp: a'_def M(4) N(4))
  have "sf \<le> 1056" using d(1) n(2) by simp
  from slid_offset [OF _ this base] have up: "off a' (up x) = (if off a x = - 1 then - 1 else off a x - 8 * int sf)"
    if "- 1073741824 \<le> off a x" for x using that by (simp add: up_def)
  have offs: "off_r a' = (if off_r a = - 1 then - 1 else off_r a - 8 * int sf)"
      "off_nr a' = (if off_nr a = - 1 then - 1 else off_nr a - 8 * int sf)"
    using up ok(3) by (simp_all add: recent_def) (simp_all add: a'_def)
  show ?thesis
  proof (rule that [OF result _ _ _ base])
    show "arrays_ok a'" using ok(1) M(3) N(3) by (simp add: arrays_ok_def size) (simp add: a'_def)
    show "highest_ok a'"
      using ok(2) sf h unfolding highest_ok_def bits offs size by (auto simp: max_def split: if_splits)
    show "present a' i \<longleftrightarrow> present a (i + 8 * sf)" for i by (simp add: present_def bits)
    show "lag a' \<le> lag a + 8448" using d(1) n(2) unfolding lag_def offs by auto
  qed (simp_all add: a'_def)
qed

lemma highest_covers:
  assumes "arrays_ok a" "highest_ok a" "recent a"
  shows "present a i \<Longrightarrow> int i \<le> off a (highest_tsn a)" "- 1 \<le> off a (highest_tsn a)"
  using assms by (auto simp: off_highest highest_ok_def present_def le_max_iff_disj)

lemma highest_not_behind:
  assumes ok: "arrays_ok a" "highest_ok a" "recent a" and at: "\<And>i. i < at \<Longrightarrow> present a i"
  shows "int at - 1 \<le> off a (highest_tsn a)"
  using highest_covers [OF ok] at [of "at - 1"] by (cases at) auto

text \<open>The arrays are emptied when everything that was received is contiguous.\<close>

lemma emptied:
  assumes ok: "arrays_ok a" and none: "\<And>i. present a i \<Longrightarrow> i < at" and at: "at \<le> 8 * msize a"
  obtains m n where "clear_range 0 (min ((at + 7) div 8) (msize a)) (mapping_array a) = Some m" "length m = msize a"
    "clear_range 0 (min ((at + 7) div 8) (msize a)) (nr_mapping_array a) = Some n" "length n = msize a" "\<And>i. \<not> tsn_bit m i" "\<And>i. \<not> tsn_bit n i"
proof -
  let ?c = "min ((at + 7) div 8) (msize a)"
  have c: "at \<le> 8 * ?c" using at by (simp add: min_def) linarith
  obtain m where m: "clear_range 0 ?c (mapping_array a) = Some m" "length m = msize a"
      "\<And>k. tsn_bit m k \<longleftrightarrow> tsn_bit (mapping_array a) k \<and> \<not> (8 * 0 \<le> k \<and> k < 8 * ?c)"
    using clear_range_ok [of ?c "mapping_array a" 0] ok by (auto simp: arrays_ok_def)
  obtain n where n: "clear_range 0 ?c (nr_mapping_array a) = Some n" "length n = msize a"
      "\<And>k. tsn_bit n k \<longleftrightarrow> tsn_bit (nr_mapping_array a) k \<and> \<not> (8 * 0 \<le> k \<and> k < 8 * ?c)"
    using clear_range_ok [of ?c "nr_mapping_array a" 0] ok by (auto simp: arrays_ok_def)
  show ?thesis
  proof (rule that [OF m(1,2) n(1,2)])
    show "\<not> tsn_bit m i" "\<not> tsn_bit n i" for i
      using none [of i] c unfolding m(3) n(3) present_def by auto
  qed
qed

lemma cumulative_indep [simp]:
  "off (a\<lparr>cumulative_tsn := c\<rparr>) h = off a h" "msize (a\<lparr>cumulative_tsn := c\<rparr>) = msize a"
  "arrays_ok (a\<lparr>cumulative_tsn := c\<rparr>) = arrays_ok a" "highest_ok (a\<lparr>cumulative_tsn := c\<rparr>) = highest_ok a"
  "recent (a\<lparr>cumulative_tsn := c\<rparr>) = recent a" "present (a\<lparr>cumulative_tsn := c\<rparr>) i = present a i"
  "highest_tsn (a\<lparr>cumulative_tsn := c\<rparr>) = highest_tsn a" "lag (a\<lparr>cumulative_tsn := c\<rparr>) = lag a"
  by (simp_all add: lag_def off_def msize_def arrays_ok_def highest_ok_def recent_def present_def highest_tsn_def)

lemma cum_not_above:
  assumes ok: "arrays_ok a" "highest_ok a" "recent a" and "off a c \<le> off a (highest_tsn a)" "- 1 \<le> off a c"
  shows "\<not> (SCTP_TSN_GT c (highest_tsn_inside_map a) \<and> SCTP_TSN_GT c (highest_tsn_inside_nr_map a))"
proof -
  have "off a c < 8448" using assms off_bounds [OF ok(1,2)] by (simp add: off_highest [OF ok])
  then show ?thesis using assms off_bounds [OF ok(1,2)]
    by (auto simp: off_highest [OF ok] SCTP_TSN_GT_off [of a] recent_def)
qed

text \<open>The result of the scan decides which of three things the routine does.\<close>

lemma slide_cases:
  assumes ok: "arrays_ok a" "highest_ok a" "recent a"
    and at: "at \<le> 8 * msize a" "\<And>i. i < at \<Longrightarrow> present a i" "\<not> present a at"
    and scan: "scan_map (nr_mapping_array a) (mapping_array a) (msize a) 0 0 = Some (at div 8, at)"
  obtains a' s where "sctp_slide_mapping_arrays a = Some a'" "arrays_ok a'" "highest_ok a'" "s \<le> at" "at < s + 8"
    "\<And>i. present a' i \<longleftrightarrow> present a (i + s)" "mapping_array_base_tsn a' = mapping_array_base_tsn a + of_int (int s)"
    "cumulative_tsn a' = mapping_array_base_tsn a + of_int (int at - 1)"
    "mapping_array_size a' = mapping_array_size a" "dup_tsns a' = dup_tsns a" "send_sack a' = send_sack a" "lag a' \<le> lag a + 8448"
proof -
  define c where "c = mapping_array_base_tsn a + of_int (int at - 1)"
  define a1 where "a1 = a\<lparr>cumulative_tsn := c\<rparr>"
  have at_bound: "at \<le> 8448" using at(1) ok(1) by (simp add: arrays_ok_def)
  have off_c: "off a c = int at - 1" unfolding c_def using at_bound by (intro off_base_plus) linarith+
  have above: "int at - 1 \<le> off a (highest_tsn a)" by (rule highest_not_behind [OF ok at(2)])
  have c_eq: "mapping_array_base_tsn a + (of_nat at - 1) = c" by (simp add: c_def)
  have not_above: "\<not> (SCTP_TSN_GT c (highest_tsn_inside_map a) \<and> SCTP_TSN_GT c (highest_tsn_inside_nr_map a))"
    using above off_c by (intro cum_not_above [OF ok]) simp_all
  have a1: "sctp_slide_mapping_arrays a = (if c = highest_tsn a \<and> 8 \<le> at then do {
        m \<leftarrow> clear_range 0 (min ((at + 7) div 8) (msize a)) (mapping_array a);
        n \<leftarrow> clear_range 0 (min ((at + 7) div 8) (msize a)) (nr_mapping_array a);
        Some (a1\<lparr>mapping_array := m, nr_mapping_array := n, mapping_array_base_tsn := c + 1,
                highest_tsn_inside_nr_map := c, highest_tsn_inside_map := c\<rparr>)
      } else if at \<ge> 8 then slide_down (at div 8) a1 else Some a1)"
    using scan [unfolded msize_def]
    by (simp add: sctp_slide_mapping_arrays_def Let_def msize_def a1_def c_eq if_not_P [OF not_above])
  consider (empty) "c = highest_tsn a" "8 \<le> at" | (down) "c \<noteq> highest_tsn a" "8 \<le> at" | (stay) "at < 8" by linarith
  then show ?thesis
  proof cases
    case empty
    have none: "i < at" if "present a i" for i
      using highest_covers(1) [OF ok that] off_c empty(1) by simp
    obtain m n where mn: "clear_range 0 (min ((at + 7) div 8) (msize a)) (mapping_array a) = Some m" "length m = msize a"
        "clear_range 0 (min ((at + 7) div 8) (msize a)) (nr_mapping_array a) = Some n" "length n = msize a"
        "\<And>i. \<not> tsn_bit m i" "\<And>i. \<not> tsn_bit n i"
      using emptied [OF ok(1) none at(1)] by blast
    let ?a' = "a1\<lparr>mapping_array := m, nr_mapping_array := n, mapping_array_base_tsn := c + 1,
                highest_tsn_inside_nr_map := c, highest_tsn_inside_map := c\<rparr>"
    have size: "msize ?a' = msize a" by (simp add: msize_def a1_def)
    have offs: "off_r ?a' = - 1" "off_nr ?a' = - 1" by (simp_all add: off_def)
    show ?thesis
    proof (rule that [of ?a' at])
      show "sctp_slide_mapping_arrays a = Some ?a'" using a1 mn(1,3) empty by simp
      show "arrays_ok ?a'" using ok(1) mn(2,4) by (simp add: arrays_ok_def size)
      show "highest_ok ?a'" unfolding highest_ok_def offs size by (simp add: mn(5,6))
      show "present ?a' i \<longleftrightarrow> present a (i + at)" for i using none [of "i + at"] by (auto simp: present_def mn(5,6))
      show "mapping_array_base_tsn ?a' = mapping_array_base_tsn a + of_int (int at)" by (simp add: c_def)
      show "lag ?a' \<le> lag a + 8448" using off_bounds [OF ok(1,2)] unfolding lag_def offs by simp
    qed (simp_all add: a1_def c_def)
  next
    case down
    have "off a (highest_tsn a) \<noteq> int at - 1" using down(1) c_def highest_eq [of "highest_tsn a" a] by auto
    then have "8 * int (at div 8) \<le> off a1 (highest_tsn a1)" using above by (simp add: a1_def)
    moreover have "arrays_ok a1" "highest_ok a1" "recent a1" using ok by (simp_all add: a1_def)
    ultimately obtain a' where a': "slide_down (at div 8) a1 = Some a'" "arrays_ok a'" "highest_ok a'"
        "\<And>i. present a' i \<longleftrightarrow> present a1 (i + 8 * (at div 8))"
        "mapping_array_base_tsn a' = mapping_array_base_tsn a1 + of_int (8 * int (at div 8))"
        "cumulative_tsn a' = cumulative_tsn a1" "mapping_array_size a' = mapping_array_size a1" "dup_tsns a' = dup_tsns a1" "send_sack a' = send_sack a1" "lag a' \<le> lag a1 + 8448"
      using slide_down_ok by metis
    have "8 * (at div 8) \<le> at" "at < 8 * (at div 8) + 8" by linarith+
    with a' a1 down show ?thesis by (intro that [of a' "8 * (at div 8)"]) (simp_all add: a1_def c_def)
  next
    case stay
    with a1 ok show ?thesis by (intro that [of a1 0]) (simp_all add: a1_def c_def)
  qed
qed

lemma sctp_slide_mapping_arrays_ok:
  assumes rep: "rep isn B C R a" and recent: "recent a"
  obtains a' B' C' where "sctp_slide_mapping_arrays a = Some a'" "rep isn B' C' R a'" "C' \<notin> R" "C \<le> C'" "C' < B' + 8"
    "mapping_array_size a' = mapping_array_size a" "dup_tsns a' = dup_tsns a" "send_sack a' = send_sack a" "lag a' \<le> lag a + 8448"
proof -
  note R = rep [unfolded rep_def]
  have len: "length (nr_mapping_array a) = 0 + msize a" "length (mapping_array a) = 0 + msize a" using R by (simp_all add: arrays_ok_def)
  obtain at where at: "scan_map (nr_mapping_array a) (mapping_array a) (msize a) 0 0 = Some (at div 8, at)" "at \<le> 8 * msize a"
      "\<And>i. i < at \<Longrightarrow> present a i" "\<not> present a at"
    using scan_map_ok [OF len] len by (auto simp: present_def)
  obtain a' s where a': "sctp_slide_mapping_arrays a = Some a'" "arrays_ok a'" "highest_ok a'" "s \<le> at" "at < s + 8"
      "\<And>i. present a' i \<longleftrightarrow> present a (i + s)" "mapping_array_base_tsn a' = mapping_array_base_tsn a + of_int (int s)"
      "cumulative_tsn a' = mapping_array_base_tsn a + of_int (int at - 1)"
      "mapping_array_size a' = mapping_array_size a" "dup_tsns a' = dup_tsns a" "send_sack a' = send_sack a" "lag a' \<le> lag a + 8448"
    using slide_cases [OF _ _ recent at(2-4,1)] R by blast
  have next_C: "B + int at \<notin> R" using at(4) R by simp
  have below: "{..<B + int at} \<subseteq> R"
  proof
    fix k assume "k \<in> {..<B + int at}"
    then consider "k < B" | "B \<le> k" "nat (k - B) < at" by fastforce
    then show "k \<in> R"
    proof cases
      case 1
      then show ?thesis using R by auto
    next
      case 2
      then have "B + int (nat (k - B)) \<in> R" using at(3) R by blast
      with 2 show ?thesis by simp
    qed
  qed
  show ?thesis
  proof (rule that [of a' "B + int s" "B + int at", OF a'(1)])
    show "rep isn (B + int s) (B + int at) R a'"
      using R a'(2-8) below by (simp add: rep_def algebra_simps)
    show "C \<le> B + int at" using next_C R by (auto simp: not_le [symmetric])
  qed (use a' next_C in auto)
qed

end
