(* ===== verification/Tsn_Ops.thy ===== *)
theory Tsn_Ops
  imports Tsn_Rep
begin

text \<open>
  The operations on the mapping arrays keep the relation of \<^theory_text>\<open>Tsn_Rep\<close>: receiving a TSN adds its number,
  delivering one changes nothing, a FORWARD-TSN adds all numbers up to its own.
\<close>

section \<open>Marking a TSN\<close>

text \<open>What the operations below leave alone.\<close>

definition same_place :: "tsn_map \<Rightarrow> tsn_map \<Rightarrow> bool" where
  "same_place a a' \<longleftrightarrow> mapping_array_base_tsn a' = mapping_array_base_tsn a \<and> cumulative_tsn a' = cumulative_tsn a \<and>
     mapping_array_size a' = mapping_array_size a \<and> dup_tsns a' = dup_tsns a \<and> send_sack a' = send_sack a"

lemma same_place_refl [simp]: "same_place a a"
  by (simp add: same_place_def)

lemma same_place_trans [trans]: "same_place a b \<Longrightarrow> same_place b c \<Longrightarrow> same_place a c"
  by (simp add: same_place_def)

lemma same_place_simps:
  assumes "same_place a a'"
  shows "off a' h = off a h" "msize a' = msize a" "mapping_array_base_tsn a' = mapping_array_base_tsn a"
    "cumulative_tsn a' = cumulative_tsn a"
  using assms by (simp_all add: same_place_def off_def msize_def)

definition map_ok :: "tsn_map \<Rightarrow> bool" where
  "map_ok a \<longleftrightarrow> arrays_ok a \<and> highest_ok a \<and> recent a"

lemma rep_same_place:
  assumes "rep isn B C R a" "same_place a a'" "arrays_ok a'" "highest_ok a'" "\<And>i. present a' i \<longleftrightarrow> B + int i \<in> R'"
    "{..<C} \<subseteq> R'"
  shows "rep isn B C R' a'"
  using assms by (simp add: rep_def same_place_def)

lemma off_after:
  assumes "map_ok a" "i < 8 * msize a" "h = highest_tsn_inside_map a \<or> h = highest_tsn_inside_nr_map a"
    "tsn = mapping_array_base_tsn a + of_int (int i)"
  shows "off a (if SCTP_TSN_GT tsn h then tsn else h) = max (int i) (off a h)"
proof -
  have i: "i < 8448" using assms(1,2) by (simp add: map_ok_def arrays_ok_def)
  then have "off a tsn = int i" unfolding assms(4) by (intro off_base_plus) linarith+
  moreover have "- 1073741824 \<le> off a h" "off a h < 8448"
    using assms(1,3) off_bounds [of a] by (auto simp: map_ok_def recent_def)
  ultimately show ?thesis using i by (simp add: SCTP_TSN_GT_off [of a] max_def)
qed

lemma mark_tsn_ok:
  assumes ok: "map_ok a" and gap: "unat gap = g" "g < 8 * msize a" and tsn: "tsn = mapping_array_base_tsn a + of_int (int g)"
  obtains a' where "mark_tsn nr tsn gap a = Some a'" "map_ok a'" "same_place a a'" "\<And>i. present a' i \<longleftrightarrow> i = g \<or> present a i"
proof (cases nr)
  case True
  obtain n where n: "SCTP_SET_TSN_PRESENT (nr_mapping_array a) gap = Some n" "length n = length (nr_mapping_array a)"
      "\<And>i. tsn_bit n i \<longleftrightarrow> i = g \<or> tsn_bit (nr_mapping_array a) i"
    using SCTP_SET_TSN_PRESENT_ok [of gap "nr_mapping_array a"] ok gap by (auto simp: map_ok_def arrays_ok_def)
  let ?h = "if SCTP_TSN_GT tsn (highest_tsn_inside_nr_map a) then tsn else highest_tsn_inside_nr_map a"
  let ?a' = "a\<lparr>nr_mapping_array := n, highest_tsn_inside_nr_map := ?h\<rparr>"
  have h: "off a ?h = max (int g) (off_nr a)" by (rule off_after [OF ok gap(2) _ tsn]) simp
  have place: "same_place a ?a'" by (simp add: same_place_def)
  show ?thesis
  proof (rule that [of ?a'])
    show "map_ok ?a'" using ok n gap(2)
      by (auto simp: map_ok_def arrays_ok_def highest_ok_def recent_def same_place_simps [OF place] h)
  qed (use True n place in \<open>auto simp: mark_tsn_def present_def\<close>)
next
  case False
  obtain m where m: "SCTP_SET_TSN_PRESENT (mapping_array a) gap = Some m" "length m = length (mapping_array a)"
      "\<And>i. tsn_bit m i \<longleftrightarrow> i = g \<or> tsn_bit (mapping_array a) i"
    using SCTP_SET_TSN_PRESENT_ok [of gap "mapping_array a"] ok gap by (auto simp: map_ok_def arrays_ok_def)
  let ?h = "if SCTP_TSN_GT tsn (highest_tsn_inside_map a) then tsn else highest_tsn_inside_map a"
  let ?a' = "a\<lparr>mapping_array := m, highest_tsn_inside_map := ?h\<rparr>"
  have h: "off a ?h = max (int g) (off_r a)" by (rule off_after [OF ok gap(2) _ tsn]) simp
  have place: "same_place a ?a'" by (simp add: same_place_def)
  show ?thesis
  proof (rule that [of ?a'])
    show "map_ok ?a'" using ok m gap(2)
      by (auto simp: map_ok_def arrays_ok_def highest_ok_def recent_def same_place_simps [OF place] h)
  qed (use False m place in \<open>auto simp: mark_tsn_def present_def\<close>)
qed

lemma SCTP_IS_TSN_PRESENT_ok:
  assumes "arrays_ok a" "unat gap = g" "g < 8 * msize a"
  shows "SCTP_IS_TSN_PRESENT (mapping_array a) gap = Some (tsn_bit (mapping_array a) g)"
    "SCTP_IS_TSN_PRESENT (nr_mapping_array a) gap = Some (tsn_bit (nr_mapping_array a) g)"
  using assms by (simp_all add: SCTP_IS_TSN_PRESENT_eq arrays_ok_def)

section \<open>FORWARD-TSN\<close>

lemma fill_gaps_ok:
  assumes "map_ok a" "i + n \<le> 8 * msize a"
  obtains a' where "fill_gaps n i a = Some a'" "map_ok a'" "same_place a a'" "\<And>j. present a' j \<longleftrightarrow> i \<le> j \<and> j < i + n \<or> present a j"
  using assms
proof (induction n arbitrary: i a thesis)
  case 0
  then show ?case by (intro "0.prems"(1) [of a]) auto
next
  case (Suc n)
  have size: "msize a \<le> 1056" "arrays_ok a" using Suc.prems(2) by (auto simp: map_ok_def arrays_ok_def)
  then have i: "unat (of_nat i :: u32) = i" using Suc.prems(3) by (simp add: unsigned_of_nat take_bit_nat_eq_self)
  obtain a1 where a1: "(if present a i then Some a else mark_tsn True (mapping_array_base_tsn a + of_nat i) (of_nat i) a) = Some a1"
      "map_ok a1" "same_place a a1" "\<And>j. present a1 j \<longleftrightarrow> j = i \<or> present a j"
  proof (cases "present a i")
    case True
    then show ?thesis using Suc.prems(2) by (intro that [of a]) auto
  next
    case False
    obtain a1 where "mark_tsn True (mapping_array_base_tsn a + of_nat i) (of_nat i) a = Some a1"
        "map_ok a1" "same_place a a1" "\<And>j. present a1 j \<longleftrightarrow> j = i \<or> present a j"
      using mark_tsn_ok [OF Suc.prems(2) i, of "mapping_array_base_tsn a + of_nat i" True] Suc.prems(3) by auto
    with False show ?thesis by (intro that [of a1]) simp_all
  qed
  obtain a' where a': "fill_gaps n (Suc i) a1 = Some a'" "map_ok a'" "same_place a1 a'"
      "\<And>j. present a' j \<longleftrightarrow> Suc i \<le> j \<and> j < Suc i + n \<or> present a1 j"
    using Suc.IH [of "Suc i" a1] a1(2) Suc.prems(3) same_place_simps(2) [OF a1(3)] by auto
  have "fill_gaps (Suc n) i a = Some a'"
    using a1(1) a'(1) SCTP_IS_TSN_PRESENT_ok [OF size(2) i] Suc.prems(3) by (auto simp: present_def split: if_splits)
  moreover have "present a' j \<longleftrightarrow> i \<le> j \<and> j < i + Suc n \<or> present a j" for j unfolding a'(4) a1(4) by auto
  ultimately show ?case using Suc.prems(1) a'(2) same_place_trans [OF a1(3) a'(3)] by blast
qed

text \<open>Serial numbers are compared correctly within half of their range.\<close>

definition near :: "int \<Rightarrow> int \<Rightarrow> bool" where
  "near C k \<longleftrightarrow> - 2147483647 < k - (C - 1) \<and> k - (C - 1) < 2147483648"

lemma GE_cumulative:
  assumes "rep isn B C R a" "near C k"
  shows "SCTP_TSN_GE (cumulative_tsn a) (isn + of_int k) \<longleftrightarrow> k < C"
proof -
  have "cumulative_tsn a - (isn + of_int k) = of_int (C - 1 - k)" using assms(1) by (simp add: rep_def)
  then show ?thesis using assms(2) by (simp add: SCTP_TSN_GE_iff near_def sint_32_of_int del: of_int_diff)
qed

lemma GT_next:
  assumes "rep isn B C R a" "near C k"
  shows "SCTP_TSN_GT (cumulative_tsn a + 1) (isn + of_int k) \<longleftrightarrow> k < C"
proof -
  have "cumulative_tsn a + 1 - (isn + of_int k) = of_int (C - k)" using assms(1) by (simp add: rep_def)
  then show ?thesis using assms(2) by (simp add: SCTP_TSN_GT_iff near_def sint_32_of_int del: of_int_diff)
qed

lemma cumulative_bound:
  assumes "rep isn B C R a"
  shows "C \<le> B + 8 * int (msize a)" "C \<le> B + 8448"
proof -
  have "C - 1 \<in> R" using assms by (auto simp: rep_def)
  then have "C \<le> B \<or> present a (nat (C - 1 - B))" using assms by (simp add: rep_def)
  then show "C \<le> B + 8 * int (msize a)" using assms present_bound [of a "nat (C - 1 - B)"] by (auto simp: rep_def)
  then show "C \<le> B + 8448" using assms by (simp add: rep_def arrays_ok_def)
qed

lemma gap_number:
  assumes "rep isn B C R a" "near C k" "C \<le> k"
  shows "SCTP_CALC_TSN_TO_GAP (isn + of_int k) (mapping_array_base_tsn a) = of_int (k - B)" "uint (of_int (k - B) :: u32) = k - B"
    "unat (of_int (k - B) :: u32) = nat (k - B)" "B \<le> k"
proof -
  show B: "B \<le> k" using assms by (simp add: rep_def)
  show "SCTP_CALC_TSN_TO_GAP (isn + of_int k) (mapping_array_base_tsn a) = of_int (k - B)"
    using assms(1) by (simp add: SCTP_CALC_TSN_TO_GAP_eq rep_def)
  show "uint (of_int (k - B) :: u32) = k - B"
    using assms(2) cumulative_bound(2) [OF assms(1)] B by (simp add: uint_word_of_int near_def del: of_int_diff)
  then show "unat (of_int (k - B) :: u32) = nat (k - B)" by (simp add: unat_eq_nat_uint)
qed

lemma rep_below: "rep isn B C R a \<Longrightarrow> k < C \<Longrightarrow> k \<in> R"
  by (auto simp: rep_def)

lemma rep_number:
  assumes "rep isn B C R a" "B \<le> k"
  shows "present a (nat (k - B)) \<longleftrightarrow> k \<in> R" "k \<in> R \<Longrightarrow> k < B + 8 * int (msize a)"
proof -
  show "present a (nat (k - B)) \<longleftrightarrow> k \<in> R" using assms by (simp add: rep_def)
  then show "k \<in> R \<Longrightarrow> k < B + 8 * int (msize a)" using assms present_bound [of a "nat (k - B)"] by (simp add: rep_def)
qed

lemma above_array:
  assumes "rep isn B C R a" "B + 8 * int (msize a) \<le> k"
  shows "R \<union> {..k} = {..k}"
proof -
  have "j \<le> k" if "j \<in> R" for j
  proof (rule ccontr)
    assume "\<not> j \<le> k"
    then have "present a (nat (j - B))" using assms that by (simp add: rep_def)
    then show False using assms \<open>\<not> j \<le> k\<close> present_bound [of a "nat (j - B)"] by (simp add: rep_def)
  qed
  then show ?thesis by auto
qed

lemma size_in_bits: "unat (push_bit 3 (ucast (mapping_array_size a)) :: u32) = 8 * msize a"
proof -
  have "unat (mapping_array_size a) < 65536" using unsigned_less [of "mapping_array_size a", where 'a = nat] by simp
  then show ?thesis by (simp add: msize_def push_bit_eq_mult unat_word_ariths unsigned_ucast_eq take_bit_nat_eq_self)
qed

lemma clear_all: "length arr = n \<Longrightarrow> clear_range 0 n arr = Some (replicate n 0)"
  by (simp add: clear_range_def)

lemma forward_far:
  assumes rep: "rep isn B C R a" and k: "near C k" "C \<le> k" "B + 8 * int (msize a) \<le> k" "k - B \<le> space"
  obtains a' where "forward_tsn space (isn + of_int k) a = Some (False, a')" "rep isn (k + 1) (k + 1) (R \<union> {..k}) a'" "recent a'"
proof -
  have arrays: "length (mapping_array a) = msize a" "length (nr_mapping_array a) = msize a" "msize a \<le> 1056"
    using rep by (simp_all add: rep_def arrays_ok_def)
  let ?t = "isn + of_int k" and ?z = "replicate (msize a) 0"
  let ?a' = "a\<lparr>cumulative_tsn := ?t, mapping_array := ?z, mapping_array_base_tsn := ?t + 1, highest_tsn_inside_map := ?t,
                nr_mapping_array := ?z, highest_tsn_inside_nr_map := ?t\<rparr>"
  have "push_bit 3 (ucast (mapping_array_size a)) \<le> (of_int (k - B) :: u32)"
    unfolding word_le_nat_alt size_in_bits gap_number(3) [OF rep k(1,2)] using k(3) by simp
  then have "forward_tsn space ?t a = Some (False, ?a')"
    using k gap_number(1,2) [OF rep k(1,2)] arrays
    by (simp add: forward_tsn_def GE_cumulative [OF rep k(1)] Let_def clear_all flip: msize_def del: of_int_diff)
  moreover have "msize ?a' = msize a" by (simp add: msize_def)
  then have "rep isn (k + 1) (k + 1) (R \<union> {..k}) ?a'"
    unfolding above_array [OF rep k(3)] using arrays(3)
    by (auto simp: rep_def arrays_ok_def highest_ok_def off_def present_def)
  moreover have "recent ?a'" by (simp add: recent_def off_def)
  ultimately show ?thesis by (rule that)
qed

lemma forward_inside:
  assumes rep: "rep isn B C R a" and k: "near C k" "C \<le> k" "k < B + 8 * int (msize a)" and recent: "recent a"
  obtains a' where "forward_tsn space (isn + of_int k) a = Some (False, a')" "rep isn B (k + 1) (R \<union> {..k}) a'" "recent a'"
proof -
  let ?a1 = "a\<lparr>cumulative_tsn := isn + of_int k\<rparr>"
  note gap = gap_number [OF rep k(1,2)]
  have "map_ok ?a1" using rep recent by (simp add: map_ok_def rep_def)
  moreover have "0 + Suc (nat (k - B)) \<le> 8 * msize ?a1" using k(3) gap(4) by simp
  ultimately obtain a' where a': "fill_gaps (Suc (nat (k - B))) 0 ?a1 = Some a'" "map_ok a'" "same_place ?a1 a'"
      "\<And>j. present a' j \<longleftrightarrow> j < Suc (nat (k - B)) \<or> present a j"
    by (rule fill_gaps_ok) (simp del: fill_gaps.simps)
  have "\<not> push_bit 3 (ucast (mapping_array_size a)) \<le> (of_int (k - B) :: u32)"
    unfolding word_le_nat_alt size_in_bits gap(3) using k(3) gap(4) by simp
  then have "forward_tsn space (isn + of_int k) a = Some (False, a')"
    using k a'(1) gap(1,3) by (simp add: forward_tsn_def GE_cumulative [OF rep k(1)] Let_def del: of_int_diff fill_gaps.simps)
  moreover have "rep isn B (k + 1) (R \<union> {..k}) a'"
    using rep a' gap(4) k(2) by (auto simp: rep_def map_ok_def same_place_def)
  moreover have "recent a'" using a'(2) by (simp add: map_ok_def)
  ultimately show ?thesis by (rule that)
qed

lemma forward_refused:
  assumes rep: "rep isn B C R a" and k: "near C k" "C \<le> k" "B + 8 * int (msize a) \<le> k" "space < k - B"
  shows "\<exists>a'. forward_tsn space (isn + of_int k) a = Some (True, a')"
proof -
  have "push_bit 3 (ucast (mapping_array_size a)) \<le> (of_int (k - B) :: u32)"
    unfolding word_le_nat_alt size_in_bits gap_number(3) [OF rep k(1,2)] using k(3) by simp
  then show ?thesis
    using k gap_number(1,2) [OF rep k(1,2)] by (simp add: forward_tsn_def GE_cumulative [OF rep k(1)] Let_def del: of_int_diff)
qed

section \<open>Receiving\<close>

lemma sctp_expand_mapping_array_ok:
  assumes ok: "map_ok a" and gap: "unat gap < 4096" "8 * msize a \<le> unat gap"
  obtains a' where "sctp_expand_mapping_array True gap a = Some (True, a')" "map_ok a'" "unat gap < 8 * msize a'" "msize a \<le> msize a'"
    "\<And>i. present a' i \<longleftrightarrow> present a i" "same_place a (a'\<lparr>mapping_array_size := mapping_array_size a\<rparr>)"
proof -
  define n where "n = msize a + ((unat gap + 7) div 8 + 32)"
  define new where "new = (ucast (mapping_array_size a) + ((gap + 7) div 8 + SCTP_MAPPING_ARRAY_INCR) :: u32)"
  have small: "msize a \<le> 511" using gap by linarith
  have part: "(unat gap + 7) div 8 \<le> 512" "unat gap < 8 * ((unat gap + 7) div 8) + 8" using gap(1) by presburger+
  with small have n: "unat gap < 8 * n" "msize a \<le> n" "n \<le> 1056" unfolding n_def by simp_all
  have "unat (gap + 7) = unat gap + 7" using gap(1) by (simp add: unat_word_ariths)
  with part(1) have "unat ((gap + 7) div 8 + SCTP_MAPPING_ARRAY_INCR) = (unat gap + 7) div 8 + 32"
    by (simp add: SCTP_MAPPING_ARRAY_INCR_def unat_word_ariths)
  moreover have "unat (ucast (mapping_array_size a) :: u32) = msize a"
    using small by (simp add: msize_def unsigned_ucast_eq take_bit_nat_eq_self)
  ultimately have new: "unat new = n" using n(3) unfolding new_def n_def by (simp add: unat_word_ariths)
  have len: "length (mapping_array a) = msize a" "length (nr_mapping_array a) = msize a" using ok by (simp_all add: map_ok_def arrays_ok_def)
  define a' where "a' = a\<lparr>mapping_array := mapping_array a @ replicate (n - msize a) 0, nr_mapping_array := nr_mapping_array a @ replicate (n - msize a) 0,
               mapping_array_size := ucast new\<rparr>"
  have size: "msize a' = n" using new n(3) by (simp add: msize_def a'_def unsigned_ucast_eq take_bit_nat_eq_self)
  have offs: "off a' h = off a h" for h by (simp add: off_def a'_def)
  have bits: "tsn_bit (mapping_array a') i = tsn_bit (mapping_array a) i" "tsn_bit (nr_mapping_array a') i = tsn_bit (nr_mapping_array a) i" for i
    by (simp_all add: a'_def tsn_bit_append)
  have fields: "highest_tsn_inside_map a' = highest_tsn_inside_map a" "highest_tsn_inside_nr_map a' = highest_tsn_inside_nr_map a"
      "length (mapping_array a') = n" "length (nr_mapping_array a') = n"
    using len n by (simp_all add: a'_def)
  show ?thesis
  proof (rule that [of a'])
    show "sctp_expand_mapping_array True gap a = Some (True, a')"
      using len n(2) new by (simp add: sctp_expand_mapping_array_def Let_def a'_def flip: msize_def new_def)
    show "map_ok a'" using ok n by (auto simp: map_ok_def arrays_ok_def highest_ok_def recent_def size offs bits fields)
  qed (use n in \<open>simp_all add: present_def bits size\<close>, simp add: same_place_def a'_def)
qed

lemma note_dup_indep [simp]: "rep isn B C R (note_dup tsn a) = rep isn B C R a" "recent (note_dup tsn a) = recent a" "msize (note_dup tsn a) = msize a"
  by (simp_all add: note_dup_def rep_def arrays_ok_def highest_ok_def recent_def off_def present_def msize_def)

lemma expanded:
  assumes rep: "rep isn B C R a" and recent: "recent a" and k: "near C k" "C \<le> k" "k < B + 4096"
    and mem: "mem \<or> k < B + 8 * int (msize a)"
  obtains a' where "(if push_bit 3 (ucast (mapping_array_size a)) \<le> (of_int (k - B) :: u32)
      then sctp_expand_mapping_array mem (of_int (k - B)) a else Some (True, a)) = Some (True, a')"
    "rep isn B C R a'" "recent a'" "k < B + 8 * int (msize a')"
proof -
  note gap = gap_number [OF rep k(1,2)]
  have guard: "push_bit 3 (ucast (mapping_array_size a)) \<le> (of_int (k - B) :: u32) \<longleftrightarrow> \<not> k < B + 8 * int (msize a)"
    unfolding word_le_nat_alt size_in_bits gap(3) using gap(4) by auto
  show ?thesis
  proof (cases "k < B + 8 * int (msize a)")
    case True
    with guard rep recent show ?thesis by (intro that [of a]) simp_all
  next
    case False
    then have "unat (of_int (k - B) :: u32) < 4096" "8 * msize a \<le> unat (of_int (k - B) :: u32)"
      unfolding gap(3) using k(3) gap(4) by auto
    moreover have "map_ok a" using rep recent by (simp add: map_ok_def rep_def)
    ultimately obtain a' where "sctp_expand_mapping_array True (of_int (k - B)) a = Some (True, a')" "map_ok a'"
        "unat (of_int (k - B) :: u32) < 8 * msize a'" "msize a \<le> msize a'" "\<And>i. present a' i \<longleftrightarrow> present a i"
        "same_place a (a'\<lparr>mapping_array_size := mapping_array_size a\<rparr>)"
      using sctp_expand_mapping_array_ok [of a "of_int (k - B)"] by metis
    with guard False mem rep gap(3) show ?thesis
      by (intro that [of a']) (simp_all add: rep_def map_ok_def same_place_def del: of_int_diff)
  qed
qed

lemma accept_tsn_ok:
  assumes rep: "rep isn B C R a" and recent: "recent a" and near: "near C k"
  obtains v a' where "accept_tsn mem (isn + of_int k) a = Some (v, a')" "rep isn B C R a'" "recent a'"
    "v = Duplicate \<and> k \<in> R \<or> v = Out_of_range \<and> B + 4096 \<le> k \<or> v = No_memory \<and> \<not> mem \<and> k \<notin> R \<or>
     v = Fresh (of_int (k - B)) \<and> k \<notin> R \<and> C \<le> k \<and> k < B + 8 * int (msize a')"
proof (cases "k < C")
  case True
  with rep recent GE_cumulative [OF rep near] show ?thesis
    by (intro that [of Duplicate "note_dup (isn + of_int k) a"]) (auto simp: accept_tsn_def rep_below)
next
  case False
  then have C: "C \<le> k" by simp
  note gap = gap_number [OF rep near C]
  have "unat (push_bit 3 SCTP_MAPPING_ARRAY) = 4096" by (simp add: SCTP_MAPPING_ARRAY_def)
  then have far_iff: "push_bit 3 SCTP_MAPPING_ARRAY \<le> (of_int (k - B) :: u32) \<longleftrightarrow> B + 4096 \<le> k"
    unfolding word_le_nat_alt gap(3) using gap(4) by (auto simp: le_nat_iff)
  consider (far) "B + 4096 \<le> k" | (nomem) "k < B + 4096" "\<not> mem" "B + 8 * int (msize a) \<le> k"
    | (fine) "k < B + 4096" "mem \<or> k < B + 8 * int (msize a)" by linarith
  then show ?thesis
  proof cases
    case far
    with far_iff rep recent C show ?thesis
      by (intro that [of Out_of_range a]) (auto simp: accept_tsn_def GE_cumulative [OF rep near] gap(1) Let_def simp del: of_int_diff)
  next
    case nomem
    then have "push_bit 3 (ucast (mapping_array_size a)) \<le> (of_int (k - B) :: u32)" "k \<notin> R"
      using rep_number(2) [OF rep gap(4)] unfolding word_le_nat_alt size_in_bits gap(3) by auto
    with nomem far_iff rep recent C show ?thesis
      by (intro that [of No_memory a])
        (auto simp: accept_tsn_def GE_cumulative [OF rep near] gap(1) Let_def sctp_expand_mapping_array_def simp del: of_int_diff)
  next
    case fine
    then obtain a' where a': "(if push_bit 3 (ucast (mapping_array_size a)) \<le> (of_int (k - B) :: u32)
        then sctp_expand_mapping_array mem (of_int (k - B)) a else Some (True, a)) = Some (True, a')"
        "rep isn B C R a'" "recent a'" "k < B + 8 * int (msize a')"
      using expanded [OF rep recent near C] by blast
    have "nat (k - B) < 8 * msize a'" "arrays_ok a'" using a'(2,4) gap(4) by (auto simp: rep_def)
    note bits = SCTP_IS_TSN_PRESENT_ok [OF this(2) gap(3) this(1)]
    have "accept_tsn mem (isn + of_int k) a =
        Some (if present a' (nat (k - B)) then (Duplicate, note_dup (isn + of_int k) a') else (Fresh (of_int (k - B)), a'))"
      using far_iff fine(1) C
      by (simp add: accept_tsn_def GE_cumulative [OF rep near] gap(1) Let_def a'(1) bits present_def del: of_int_diff)
    with a' C show ?thesis
      by (cases "k \<in> R") (auto simp: rep_number(1) [OF a'(2) gap(4)] intro: that)
  qed
qed

lemma advance_tsn_ok:
  assumes rep: "rep isn B C R a" and k: "near C k" "k \<in> R"
  shows "rep isn B (if k = C then C + 1 else C) R (advance_tsn (isn + of_int k) a)" "recent (advance_tsn (isn + of_int k) a) = recent a"
proof -
  have "isn + of_int k = cumulative_tsn a + 1 \<longleftrightarrow> (of_int (k - C) :: u32) = 0" using rep by (auto simp: rep_def)
  also have "\<dots> \<longleftrightarrow> k = C"
  proof
    assume "(of_int (k - C) :: u32) = 0"
    then have "sint (of_int (k - C) :: u32) = 0" by simp
    then show "k = C" using k(1) by (simp add: near_def sint_32_of_int del: of_int_diff)
  qed simp
  finally have "isn + of_int k = cumulative_tsn a + 1 \<longleftrightarrow> k = C" .
  moreover have "{..<C + 1} \<subseteq> R" if "k = C" using rep_below [OF rep] k(2) that by (auto simp: le_less)
  ultimately show "rep isn B (if k = C then C + 1 else C) R (advance_tsn (isn + of_int k) a)"
    using rep by (auto simp: rep_def advance_tsn_def)
  show "recent (advance_tsn (isn + of_int k) a) = recent a" by (simp add: advance_tsn_def)
qed

lemma receive_tsn_ok:
  assumes rep: "rep isn B C R a" and recent: "recent a" and near: "near C k"
  obtains v a' where "receive_tsn mem keep (isn + of_int k) a = Some (v, a')"
    "(v = Duplicate \<and> k \<in> R \<or> v = Out_of_range \<and> B + 4096 \<le> k \<or> v = No_memory \<and> \<not> mem \<and> k \<notin> R \<or>
      (\<exists>gap. v = Fresh gap) \<and> keep = None \<and> k \<notin> R) \<and> rep isn B C R a' \<or>
     (\<exists>gap. v = Fresh gap) \<and> keep \<noteq> None \<and> k \<notin> R \<and> rep isn B (if k = C then C + 1 else C) (insert k R) a'"
proof -
  obtain v a1 where 1: "accept_tsn mem (isn + of_int k) a = Some (v, a1)" "rep isn B C R a1" "recent a1"
      "v = Duplicate \<and> k \<in> R \<or> v = Out_of_range \<and> B + 4096 \<le> k \<or> v = No_memory \<and> \<not> mem \<and> k \<notin> R \<or>
       v = Fresh (of_int (k - B)) \<and> k \<notin> R \<and> C \<le> k \<and> k < B + 8 * int (msize a1)"
    using accept_tsn_ok [OF assms] by blast
  show ?thesis
  proof (cases "\<exists>gap nr. v = Fresh gap \<and> keep = Some nr")
    case False
    with 1 have "receive_tsn mem keep (isn + of_int k) a = Some (v, a1)"
      by (auto simp: receive_tsn_def split: tsn_verdict.splits option.splits)
    with 1 False show ?thesis by (intro that [of v a1]) auto
  next
    case True
    then obtain nr where keep: "keep = Some nr" by blast
    have v: "v = Fresh (of_int (k - B))" "k \<notin> R" "C \<le> k" "k < B + 8 * int (msize a1)" using 1(4) True by auto
    note gap = gap_number [OF 1(2) near v(3)]
    have "map_ok a1" using 1(2,3) by (simp add: map_ok_def rep_def)
    moreover have "isn + of_int k = mapping_array_base_tsn a1 + of_int (int (nat (k - B)))" using 1(2) gap(4) by (simp add: rep_def)
    moreover have "nat (k - B) < 8 * msize a1" using v(4) gap(4) by simp
    ultimately obtain a2 where 2: "mark_tsn nr (isn + of_int k) (of_int (k - B)) a1 = Some a2" "map_ok a2" "same_place a1 a2"
        "\<And>i. present a2 i \<longleftrightarrow> i = nat (k - B) \<or> present a1 i"
      using mark_tsn_ok [OF _ gap(3)] by metis
    have "rep isn B C (insert k R) a2"
      using 1(2) 2(2,4) gap(4) by (intro rep_same_place [OF 1(2) 2(3)]) (auto simp: map_ok_def rep_def)
    then have "rep isn B (if k = C then C + 1 else C) (insert k R) (advance_tsn (isn + of_int k) a2)"
      by (rule advance_tsn_ok [OF _ near]) simp
    then show ?thesis
      using 1(1) 2(1) v keep by (intro that [of v "advance_tsn (isn + of_int k) a2"]) (simp_all add: receive_tsn_def del: of_int_diff)
  qed
qed

section \<open>Delivering\<close>

lemma back_down_ok:
  assumes "arrays_ok a" "- 1 \<le> j" "j < 8 * int (msize a)"
  obtains h where "back_down a (mapping_array_base_tsn a + of_int j) = Some h" "- 1 \<le> off a h" "off a h \<le> j"
    "\<And>i. tsn_bit (mapping_array a) i \<Longrightarrow> int i \<le> j \<Longrightarrow> int i \<le> off a h"
  using assms(2,3)
proof (induction "nat (j + 1)" arbitrary: j thesis)
  case 0
  then have "j = - 1" by simp
  then show ?case
    by (intro 0(2) [of "mapping_array_base_tsn a - 1"]) (simp_all add: back_down.simps [of a] SCTP_TSN_GE_iff off_def)
next
  case (Suc n)
  then have j: "0 \<le> j" "j \<le> 8448" using assms(1) by (simp_all add: arrays_ok_def)
  then have gap: "unat (of_int j :: u32) = nat j" by (simp add: unat_eq_nat_uint uint_word_of_int)
  have off: "off a (mapping_array_base_tsn a + of_int j) = j" using j by (intro off_base_plus) linarith+
  have step: "back_down a (mapping_array_base_tsn a + of_int j) =
      (if tsn_bit (mapping_array a) (nat j) then Some (mapping_array_base_tsn a + of_int j)
       else back_down a (mapping_array_base_tsn a + of_int (j - 1)))"
    using j off SCTP_IS_TSN_PRESENT_ok(1) [OF assms(1) gap] Suc.prems(3)
    by (subst back_down.simps) (simp add: SCTP_TSN_GE_iff SCTP_CALC_TSN_TO_GAP_eq sint_32_of_int algebra_simps)
  show ?case
  proof (cases "tsn_bit (mapping_array a) (nat j)")
    case True
    with step off j show ?thesis by (intro Suc.prems(1) [of "mapping_array_base_tsn a + of_int j"]) simp_all
  next
    case False
    have "n = nat (j - 1 + 1)" "- 1 \<le> j - 1" "j - 1 < 8 * int (msize a)" using Suc.hyps(2) Suc.prems(3) j by simp_all
    then obtain h where h: "back_down a (mapping_array_base_tsn a + of_int (j - 1)) = Some h" "- 1 \<le> off a h" "off a h \<le> j - 1"
        "\<And>i. tsn_bit (mapping_array a) i \<Longrightarrow> int i \<le> j - 1 \<Longrightarrow> int i \<le> off a h"
      using Suc.hyps(1) [of "j - 1"] by metis
    have "int i \<le> off a h" if "tsn_bit (mapping_array a) i" "int i \<le> j" for i
      using h(4) [OF that(1)] that False by (cases "int i = j") auto
    with h step False show ?thesis by (intro Suc.prems(1) [of h]) simp_all
  qed
qed

lemma moved_mark:
  assumes ok: "map_ok a" and g: "unat gap = g" "g < 8 * msize a" "present a g" and tsn: "tsn = mapping_array_base_tsn a + of_int (int g)"
  obtains m n where
    "(if \<not> tsn_bit (nr_mapping_array a) g then SCTP_SET_TSN_PRESENT (nr_mapping_array a) gap else Some (nr_mapping_array a)) = Some n"
    "(if tsn_bit (mapping_array a) g then SCTP_UNSET_TSN_PRESENT (mapping_array a) gap else Some (mapping_array a)) = Some m"
    "length m = msize a" "length n = msize a" "\<And>i. tsn_bit m i \<longleftrightarrow> i \<noteq> g \<and> tsn_bit (mapping_array a) i"
    "\<And>i. tsn_bit n i \<longleftrightarrow> i = g \<or> tsn_bit (nr_mapping_array a) i"
proof -
  have len: "length (mapping_array a) = msize a" "length (nr_mapping_array a) = msize a" using ok by (simp_all add: map_ok_def arrays_ok_def)
  obtain n where n: "(if \<not> tsn_bit (nr_mapping_array a) g then SCTP_SET_TSN_PRESENT (nr_mapping_array a) gap else Some (nr_mapping_array a)) = Some n"
      "length n = msize a" "\<And>i. tsn_bit n i \<longleftrightarrow> i = g \<or> tsn_bit (nr_mapping_array a) i"
  proof (cases "tsn_bit (nr_mapping_array a) g")
    case True
    with len show ?thesis by (intro that [of "nr_mapping_array a"]) auto
  next
    case False
    obtain n where "SCTP_SET_TSN_PRESENT (nr_mapping_array a) gap = Some n" "length n = length (nr_mapping_array a)"
        "\<And>i. tsn_bit n i \<longleftrightarrow> i = unat gap \<or> tsn_bit (nr_mapping_array a) i"
      by (rule SCTP_SET_TSN_PRESENT_ok [of gap "nr_mapping_array a"]) (use len g in auto)
    with False len g show ?thesis by (intro that [of n]) simp_all
  qed
  obtain m where m: "(if tsn_bit (mapping_array a) g then SCTP_UNSET_TSN_PRESENT (mapping_array a) gap else Some (mapping_array a)) = Some m"
      "length m = msize a" "\<And>i. tsn_bit m i \<longleftrightarrow> i \<noteq> g \<and> tsn_bit (mapping_array a) i"
  proof (cases "tsn_bit (mapping_array a) g")
    case False
    with len show ?thesis by (intro that [of "mapping_array a"]) auto
  next
    case True
    obtain m where "SCTP_UNSET_TSN_PRESENT (mapping_array a) gap = Some m" "length m = length (mapping_array a)"
        "\<And>i. tsn_bit m i \<longleftrightarrow> i \<noteq> unat gap \<and> tsn_bit (mapping_array a) i"
      by (rule SCTP_UNSET_TSN_PRESENT_ok [of gap "mapping_array a"]) (use len g in auto)
    with True len g show ?thesis by (intro that [of m]) simp_all
  qed
  show ?thesis by (rule that [OF n(1) m(1,2) n(2) m(3) n(3)])
qed

text \<open>A TSN moves from one array to the other, which leaves what is represented; \<open>h\<close> is the highest TSN of the first one then.\<close>

lemma promoted_ok:
  assumes rep: "rep isn B C R a" and ok: "map_ok a" and g: "g < 8 * msize a" "present a g" and place: "same_place a a1" and arrays: "arrays_ok a1"
    and bits: "\<And>i. tsn_bit (mapping_array a1) i \<longleftrightarrow> i \<noteq> g \<and> tsn_bit (mapping_array a) i"
      "\<And>i. tsn_bit (nr_mapping_array a1) i \<longleftrightarrow> i = g \<or> tsn_bit (nr_mapping_array a) i"
    and nr: "off_nr a1 = max (int g) (off_nr a)"
    and h: "- 1073741824 \<le> off a h" "off a h < 8 * int (msize a)" "\<And>i. tsn_bit (mapping_array a1) i \<Longrightarrow> int i \<le> off a h"
  shows "rep isn B C R (a1\<lparr>highest_tsn_inside_map := h\<rparr>)" "recent (a1\<lparr>highest_tsn_inside_map := h\<rparr>)"
proof -
  let ?a' = "a1\<lparr>highest_tsn_inside_map := h\<rparr>"
  have p: "same_place a ?a'" using place by (simp add: same_place_def)
  note same = same_place_simps [OF p] nr [unfolded same_place_simps [OF place]]
  have "arrays_ok ?a'" using arrays by (simp add: arrays_ok_def msize_def)
  moreover have "highest_ok ?a'"
    using ok h g(1) unfolding highest_ok_def by (auto simp: same bits(2) map_ok_def highest_ok_def)
  moreover have "present ?a' i \<longleftrightarrow> present a i" for i using g(2) by (auto simp: present_def bits)
  ultimately show "rep isn B C R ?a'" using rep by (intro rep_same_place [OF rep p]) (auto simp: rep_def)
  show "recent ?a'" using ok h(1) by (auto simp: recent_def map_ok_def same)
qed

lemma sctp_mark_non_revokable_ok:
  assumes rep: "rep isn B C R a" and recent: "recent a" and k: "near C k" "k \<in> R"
  obtains a' where "sctp_mark_non_revokable drain (isn + of_int k) a = Some a'" "rep isn B C R a'" "recent a'"
proof (cases "drain \<and> C \<le> k")
  case False
  with rep recent GT_next [OF rep k(1)] show ?thesis by (intro that [of a]) (auto simp: sctp_mark_non_revokable_def Let_def)
next
  case True
  then have C: "C \<le> k" by simp
  define t where "t = isn + of_int k"
  define g where "g = nat (k - B)"
  note gap = gap_number [OF rep k(1) C]
  have ok: "map_ok a" using rep recent by (simp add: map_ok_def rep_def)
  have g: "unat (of_int (k - B) :: u32) = g" "g < 8 * msize a" "present a g" "t = mapping_array_base_tsn a + of_int (int g)"
    using gap rep_number [OF rep gap(4)] k(2) rep by (auto simp: g_def t_def rep_def)
  obtain m n where mn:
      "(if \<not> tsn_bit (nr_mapping_array a) g then SCTP_SET_TSN_PRESENT (nr_mapping_array a) (of_int (k - B)) else Some (nr_mapping_array a)) = Some n"
      "(if tsn_bit (mapping_array a) g then SCTP_UNSET_TSN_PRESENT (mapping_array a) (of_int (k - B)) else Some (mapping_array a)) = Some m"
      "length m = msize a" "length n = msize a" "\<And>i. tsn_bit m i \<longleftrightarrow> i \<noteq> g \<and> tsn_bit (mapping_array a) i"
      "\<And>i. tsn_bit n i \<longleftrightarrow> i = g \<or> tsn_bit (nr_mapping_array a) i"
    by (rule moved_mark [OF ok g]) (rule that; assumption)
  define a1 where "a1 = a\<lparr>nr_mapping_array := n, mapping_array := m, highest_tsn_inside_nr_map :=
      (if SCTP_TSN_GT t (highest_tsn_inside_nr_map a) then t else highest_tsn_inside_nr_map a)\<rparr>"
  have unfold: "sctp_mark_non_revokable drain t a =
      (if t = highest_tsn_inside_map a then map_option (\<lambda>h. a1\<lparr>highest_tsn_inside_map := h\<rparr>) (back_down a1 (t - 1)) else Some a1)"
    using True GT_next [OF rep k(1)] mn(1,2) SCTP_IS_TSN_PRESENT_ok [OF _ g(1,2)] ok
    by (simp add: sctp_mark_non_revokable_def Let_def t_def [symmetric] gap(1) [folded t_def] a1_def map_ok_def map_option_case bind_eq_Some_conv
        split: option.split del: of_int_diff)
  have place: "same_place a a1" by (simp add: a1_def same_place_def)
  note same = same_place_simps [OF place]
  have arrays: "arrays_ok a1" using ok mn(3,4) by (simp add: map_ok_def arrays_ok_def same) (simp add: a1_def)
  have bits: "tsn_bit (mapping_array a1) i \<longleftrightarrow> i \<noteq> g \<and> tsn_bit (mapping_array a) i"
      "tsn_bit (nr_mapping_array a1) i \<longleftrightarrow> i = g \<or> tsn_bit (nr_mapping_array a) i" for i
    by (simp_all add: a1_def mn(5,6))
  have offs: "off_nr a1 = max (int g) (off_nr a)"
    using off_after [OF ok g(2) _ g(4), of "highest_tsn_inside_nr_map a"] by (simp add: same) (simp add: a1_def)
  note kept = promoted_ok [OF rep ok g(2,3) place arrays bits offs]
  show ?thesis
  proof (cases "t = highest_tsn_inside_map a")
    case False
    have "a1 = a1\<lparr>highest_tsn_inside_map := highest_tsn_inside_map a\<rparr>" by (simp add: a1_def)
    with kept [of "highest_tsn_inside_map a"] ok have "rep isn B C R a1 \<and> recent a1"
      by (auto simp: map_ok_def recent_def highest_ok_def bits(1))
    with unfold False show ?thesis by (intro that [of a1]) (simp_all add: t_def)
  next
    case True
    have r: "off_r a = int g" using g(2,4) ok unfolding True [symmetric] g(4)
      by (intro off_base_plus) (auto simp: map_ok_def arrays_ok_def)
    have below: "int i \<le> int g - 1" if "tsn_bit (mapping_array a1) i" for i
      using that ok r unfolding bits by (force simp: map_ok_def highest_ok_def)
    have t: "t - 1 = mapping_array_base_tsn a1 + of_int (int g - 1)" using g(4) by (simp add: same)
    obtain h where h: "back_down a1 (t - 1) = Some h" "- 1 \<le> off a1 h" "off a1 h \<le> int g - 1"
        "\<And>i. tsn_bit (mapping_array a1) i \<Longrightarrow> int i \<le> int g - 1 \<Longrightarrow> int i \<le> off a1 h"
      using back_down_ok [OF arrays, of "int g - 1"] g(2) unfolding t same by auto
    have "rep isn B C R (a1\<lparr>highest_tsn_inside_map := h\<rparr>) \<and> recent (a1\<lparr>highest_tsn_inside_map := h\<rparr>)"
      using kept [of h] h(2-4) below g(2) unfolding same by simp
    with unfold True h(1) show ?thesis by (intro that [of "a1\<lparr>highest_tsn_inside_map := h\<rparr>"]) (simp_all add: t_def)
  qed
qed

end
