(* ===== verification/Tsn_Props.thy ===== *)
theory Tsn_Props
  imports Tsn_Ops
begin

text \<open>
  The mapping arrays refine a set of received TSNs. \<open>tsn_spec\<close> is the specification: a number is accepted once, the
  cumulative TSN is below the first number that is missing. The locale \<open>forward_simulation\<close> carries the refinement from
  single steps to whole histories. At the end, traces of the code alone: its answers agree with the TSNs that its earlier answers received.
\<close>

section \<open>The specification\<close>

text \<open>The state is the first number above the cumulative TSN and the set of the numbers received; an aborted
  association has none.\<close>

type_synonym tsn_abs = "(int \<times> int set) option"

inductive tsn_spec :: "tsn_abs \<Rightarrow> tsn_event \<Rightarrow> tsn_answer \<Rightarrow> tsn_abs \<Rightarrow> bool" where
  known: "k \<in> R \<Longrightarrow> tsn_spec (Some (C, R)) (Data mem keep k) Known (Some (C, R))"
| accepted: "k \<notin> R \<Longrightarrow> tsn_spec (Some (C, R)) (Data mem (Some nr) k) Accepted (Some (if k = C then C + 1 else C, insert k R))"
| dropped: "tsn_spec (Some (C, R)) (Data mem keep k) Dropped (Some (C, R))"
| delivered: "tsn_spec (Some (C, R)) (Deliver drain k) Done (Some (C, R))"
| forward_old: "k < C \<Longrightarrow> tsn_spec (Some (C, R)) (Forward space k) Done (Some (C, R))"
| forward_new: "C \<le> k \<Longrightarrow> tsn_spec (Some (C, R)) (Forward space k) Done (Some (k + 1, R \<union> {..k}))"
| aborted: "C \<le> k \<Longrightarrow> tsn_spec (Some (C, R)) (Forward space k) Aborted None"
| sack: "C' \<notin> R \<Longrightarrow> {..<C'} \<subseteq> R \<Longrightarrow> tsn_spec (Some (C, R)) Sack Done (Some (C', R))"

inductive_cases tsn_specE:
  "tsn_spec (Some (C, R)) (Data mem keep k) x t" "tsn_spec (Some (C, R)) (Deliver drain k) x t"
  "tsn_spec (Some (C, R)) (Forward space k) x t" "tsn_spec (Some (C, R)) Sack x t" "tsn_spec None e x t"

definition tsn_legal :: "tsn_event \<Rightarrow> tsn_map \<Rightarrow> tsn_abs \<Rightarrow> bool" where
  "tsn_legal e a t \<longleftrightarrow> recent a \<and> (\<exists>C R. t = Some (C, R) \<and> (case e of
     Data mem keep k \<Rightarrow> near C k
   | Deliver drain k \<Rightarrow> near C k \<and> k \<in> R
   | Forward space k \<Rightarrow> near C k
   | Sack \<Rightarrow> True))"

definition tsn_rel :: "u32 \<Rightarrow> tsn_map \<Rightarrow> tsn_abs \<Rightarrow> bool" where
  "tsn_rel isn a t \<longleftrightarrow> (case t of None \<Rightarrow> True | Some (C, R) \<Rightarrow> \<exists>B. rep isn B C R a)"

lemma tsn_relI: "rep isn B C R a \<Longrightarrow> tsn_rel isn a (Some (C, R))"
  by (auto simp: tsn_rel_def)

section \<open>Simulation\<close>

text \<open>Histories of a system and of its specification, in step.\<close>

inductive lockstep :: "('e \<Rightarrow> 's \<Rightarrow> ('x \<times> 's) option) \<Rightarrow> ('t \<Rightarrow> 'e \<Rightarrow> 'x \<Rightarrow> 't \<Rightarrow> bool) \<Rightarrow> ('e \<Rightarrow> 's \<Rightarrow> 't \<Rightarrow> bool) \<Rightarrow>
    's \<Rightarrow> 't \<Rightarrow> ('e \<times> 'x) list \<Rightarrow> 's \<Rightarrow> 't \<Rightarrow> bool"
  for step spec legal s0 t0 where
  start: "lockstep step spec legal s0 t0 [] s0 t0"
| next_step: "lockstep step spec legal s0 t0 h s t \<Longrightarrow> legal e s t \<Longrightarrow> step e s = Some (x, s') \<Longrightarrow> spec t e x t' \<Longrightarrow>
    lockstep step spec legal s0 t0 (h @ [(e, x)]) s' t'"

locale forward_simulation =
  fixes step :: "'e \<Rightarrow> 's \<Rightarrow> ('x \<times> 's) option" and spec :: "'t \<Rightarrow> 'e \<Rightarrow> 'x \<Rightarrow> 't \<Rightarrow> bool"
    and legal :: "'e \<Rightarrow> 's \<Rightarrow> 't \<Rightarrow> bool" and rel :: "'s \<Rightarrow> 't \<Rightarrow> bool"
  assumes simulate: "rel s t \<Longrightarrow> legal e s t \<Longrightarrow> \<exists>x s' t'. step e s = Some (x, s') \<and> spec t e x t' \<and> rel s' t'"
    and spec_fun: "spec t e x t1 \<Longrightarrow> spec t e x t2 \<Longrightarrow> t1 = t2"
begin

lemma related:
  assumes "lockstep step spec legal s0 t0 h s t" "rel s0 t0"
  shows "rel s t"
  using assms
proof (induction rule: lockstep.induct)
  case (next_step h s t e x s' t')
  then obtain x1 s1 t1 where "step e s = Some (x1, s1)" "spec t e x1 t1" "rel s1 t1" using simulate by blast
  moreover from this next_step.hyps have "t1 = t'" by (auto intro: spec_fun)
  ultimately show ?case using next_step.hyps by auto
qed

lemma never_stuck:
  assumes "lockstep step spec legal s0 t0 h s t" "rel s0 t0" "legal e s t"
  shows "\<exists>x s' t'. step e s = Some (x, s') \<and> spec t e x t' \<and> rel s' t'"
  using simulate [OF related [OF assms(1,2)] assms(3)] .

end

lemma tsn_spec_fun: "tsn_spec t e x t1 \<Longrightarrow> tsn_spec t e x t2 \<Longrightarrow> t1 = t2"
proof (induction rule: tsn_spec.induct)
  case (sack C' R C)
  from sack(3) show ?case using sack(1,2) by (auto elim!: tsn_specE) (metis lessThan_iff linorder_cases subsetD)+
qed (auto elim: tsn_specE)

lemma data_simulates:
  assumes rep: "rep isn B C R a" and ok: "recent a" "near C k"
  shows "\<exists>x a' t'. tsn_step isn (Data mem keep k) a = Some (x, a') \<and> tsn_spec (Some (C, R)) (Data mem keep k) x t' \<and> tsn_rel isn a' t'"
proof -
  obtain v a' where r: "receive_tsn mem keep (isn + of_int k) a = Some (v, a')"
    "(v = Duplicate \<and> k \<in> R \<or> v = Out_of_range \<and> B + 4096 \<le> k \<or> v = No_memory \<and> \<not> mem \<and> k \<notin> R \<or>
      (\<exists>gap. v = Fresh gap) \<and> keep = None \<and> k \<notin> R) \<and> rep isn B C R a' \<or>
     (\<exists>gap. v = Fresh gap) \<and> keep \<noteq> None \<and> k \<notin> R \<and> rep isn B (if k = C then C + 1 else C) (insert k R) a'"
    by (rule receive_tsn_ok [OF assms])
  define x where "x = (case v of Duplicate \<Rightarrow> Known | Fresh gap \<Rightarrow> if keep = None then Dropped else Accepted | _ \<Rightarrow> Dropped)"
  have step: "tsn_step isn (Data mem keep k) a = Some (x, a')" by (simp add: tsn_step_def r(1) x_def)
  from r(2) consider "x = Known" "k \<in> R" "rep isn B C R a'" | "x = Dropped" "rep isn B C R a'"
    | nr where "x = Accepted" "k \<notin> R" "keep = Some nr" "rep isn B (if k = C then C + 1 else C) (insert k R) a'"
    by (auto simp: x_def)
  then show ?thesis
  proof cases
    case 1
    with step show ?thesis using tsn_spec.known [OF 1(2)] tsn_relI [OF 1(3)] by blast
  next
    case 2
    with step show ?thesis using tsn_spec.dropped tsn_relI [OF 2(2)] by blast
  next
    case 3
    with step show ?thesis using tsn_spec.accepted [OF 3(2)] tsn_relI [OF 3(4)] by blast
  qed
qed

lemma forward_simulates:
  assumes rep: "rep isn B C R a" and ok: "recent a" "near C k"
  shows "\<exists>x a' t'. tsn_step isn (Forward space k) a = Some (x, a') \<and> tsn_spec (Some (C, R)) (Forward space k) x t' \<and> tsn_rel isn a' t'"
proof -
  consider "k < C" | "C \<le> k" "k < B + 8 * int (msize a) \<or> k - B \<le> space" | "C \<le> k" "B + 8 * int (msize a) \<le> k" "space < k - B" by linarith
  then show ?thesis
  proof cases
    case 1
    then have "tsn_step isn (Forward space k) a = Some (Done, a)"
      by (simp add: tsn_step_def forward_tsn_def GE_cumulative [OF rep ok(2)])
    then show ?thesis using tsn_spec.forward_old [OF 1] rep by (fastforce simp: tsn_rel_def)
  next
    case 2
    then obtain a' B' where "forward_tsn space (isn + of_int k) a = Some (False, a')" "rep isn B' (k + 1) (R \<union> {..k}) a'"
      using forward_inside [OF rep ok(2) 2(1) _ ok(1)] forward_far [OF rep ok(2) 2(1)] by (metis not_le)
    then show ?thesis using tsn_spec.forward_new [OF 2(1)] by (fastforce simp: tsn_rel_def tsn_step_def)
  next
    case 3
    then obtain a' where "forward_tsn space (isn + of_int k) a = Some (True, a')" using forward_refused [OF rep ok(2)] by blast
    then show ?thesis using tsn_spec.aborted [OF 3(1)] by (fastforce simp: tsn_rel_def tsn_step_def)
  qed
qed

lemma tsn_simulate:
  assumes "tsn_rel isn a t" "tsn_legal e a t"
  shows "\<exists>x a' t'. tsn_step isn e a = Some (x, a') \<and> tsn_spec t e x t' \<and> tsn_rel isn a' t'"
proof -
  obtain C R where t: "t = Some (C, R)" and recent: "recent a" using assms(2) by (auto simp: tsn_legal_def)
  then obtain B where rep: "rep isn B C R a" using assms(1) by (auto simp: tsn_rel_def)
  show ?thesis
  proof (cases e)
    case (Data mem keep k)
    then show ?thesis using data_simulates [OF rep recent] assms(2) t by (simp add: tsn_legal_def)
  next
    case (Deliver drain k)
    then have k: "near C k" "k \<in> R" using assms(2) t by (simp_all add: tsn_legal_def)
    then obtain a' where "sctp_mark_non_revokable drain (isn + of_int k) a = Some a'" "rep isn B C R a'"
      using sctp_mark_non_revokable_ok [OF rep recent] by metis
    then show ?thesis unfolding t Deliver using tsn_spec.delivered by (fastforce simp: tsn_rel_def tsn_step_def)
  next
    case (Forward space k)
    then show ?thesis using forward_simulates [OF rep recent] assms(2) t by (simp add: tsn_legal_def)
  next
    case Sack
    obtain a' B' C' where s: "sctp_slide_mapping_arrays a = Some a'" "rep isn B' C' R a'" "C' \<notin> R"
      by (rule sctp_slide_mapping_arrays_ok [OF rep recent])
    then have "{..<C'} \<subseteq> R" by (simp add: rep_def)
    from tsn_spec.sack [OF s(3) this] show ?thesis unfolding t Sack using s by (fastforce simp: tsn_rel_def tsn_step_def)
  qed
qed

interpretation tsn: forward_simulation "tsn_step isn" tsn_spec tsn_legal "tsn_rel isn" for isn
  using tsn_simulate tsn_spec_fun by unfold_locales

section \<open>Histories\<close>

abbreviation tsn_history :: "u32 \<Rightarrow> (tsn_event \<times> tsn_answer) list \<Rightarrow> tsn_map \<Rightarrow> tsn_abs \<Rightarrow> bool" where
  "tsn_history isn \<equiv> lockstep (tsn_step isn) tsn_spec tsn_legal (tsn_init isn) (Some (0, {..<0}))"

lemma history_start: "tsn_history isn [] (tsn_init isn) (Some (0, {..<0}))"
  by (rule lockstep.start)

lemma history_step:
  "tsn_history isn h a t \<Longrightarrow> tsn_legal e a t \<Longrightarrow> tsn_step isn e a = Some (x, a') \<Longrightarrow> tsn_spec t e x t' \<Longrightarrow>
   tsn_history isn (h @ [(e, x)]) a' t'"
  by (rule lockstep.next_step)

lemma tsn_init_rep: "rep isn 0 0 {..<0} (tsn_init isn)"
  by (auto simp: rep_def arrays_ok_def highest_ok_def off_def present_def msize_def tsn_init_def SCTP_INITIAL_MAPPING_ARRAY_def)

text \<open>An example: the TSNs numbered 0 and 2 arrive and the arrays are slid. If the first TSN is 0xfffffffe the numbers wrap.\<close>

definition example_map :: "u32 \<Rightarrow> bool \<Rightarrow> tsn_map" where
  "example_map isn two = (tsn_init isn)\<lparr>cumulative_tsn := isn, highest_tsn_inside_nr_map := (if two then isn + 2 else isn),
     nr_mapping_array := (if two then 5 else 1) # replicate 15 0\<rparr>"

definition example_ok :: "u32 \<Rightarrow> bool" where
  "example_ok isn \<longleftrightarrow> tsn_step isn (Data True (Some True) 0) (tsn_init isn) = Some (Accepted, example_map isn False) \<and>
     tsn_step isn (Data True (Some True) 2) (example_map isn False) = Some (Accepted, example_map isn True) \<and>
     tsn_step isn Sack (example_map isn True) = Some (Done, example_map isn True) \<and>
     lag (tsn_init isn) \<le> 1 \<and> lag (example_map isn False) \<le> 1 \<and> lag (example_map isn True) \<le> 1"

lemma example_checks: "example_ok 1000" "example_ok 0xfffffffe"
  by code_simp+

lemma example_history:
  assumes "example_ok isn"
  shows "tsn_history isn [(Data True (Some True) 0, Accepted), (Data True (Some True) 2, Accepted), (Sack, Done)]
     (example_map isn True) (Some (1, insert 2 (insert 0 {..<0})))"
proof -
  note ok = assms [unfolded example_ok_def]
  have recent: "recent (tsn_init isn)" "recent (example_map isn False)" "recent (example_map isn True)" using ok by (simp_all add: recent_lag)
  note specs = tsn_spec.accepted [of 0 "{..<0}" 0 True True] tsn_spec.accepted [of 2 "insert 0 {..<0}" 1 True True]
    tsn_spec.sack [of 1 "insert 2 (insert 0 {..<0})" 1]
  have 1: "tsn_history isn [(Data True (Some True) 0, Accepted)] (example_map isn False) (Some (1, insert 0 {..<0}))"
    using history_step [OF history_start _ ok [THEN conjunct1]] specs(1) recent by (simp add: tsn_legal_def near_def)
  have 2: "tsn_history isn [(Data True (Some True) 0, Accepted), (Data True (Some True) 2, Accepted)]
      (example_map isn True) (Some (1, insert 2 (insert 0 {..<0})))"
    using history_step [OF 1 _ ok [THEN conjunct2, THEN conjunct1]] specs(2) recent by (simp add: tsn_legal_def near_def)
  have "{..<1} \<subseteq> insert 2 (insert 0 {..<0 :: int})" by auto
  with specs(3) show ?thesis
    using history_step [OF 2 _ ok [THEN conjunct2, THEN conjunct2, THEN conjunct1]] recent by (simp add: tsn_legal_def)
qed

text \<open>C23. Every history of legal events (data and FORWARD-TSN chunks within half the serial number range of the cumulative
  TSN, delivery of data that was received, sliding the arrays) keeps the mapping arrays in step with the set of received
  TSNs: the next legal event always has a result, without an access outside the arrays, its answer is one the
  specification allows, and the arrays then represent the set that the specification prescribes.\<close>

theorem tsn_history_refines:
  assumes "tsn_history isn h a t" "tsn_legal e a t"
  shows "\<exists>x a' t'. tsn_step isn e a = Some (x, a') \<and> tsn_spec t e x t' \<and> tsn_rel isn a' t'"
  using tsn.never_stuck [OF assms(1) tsn_relI [OF tsn_init_rep] assms(2)] .

theorem tsn_history_refines_witness:
  "\<exists>x a' t'. tsn_step 0xfffffffe (Data True (Some True) 0) (example_map 0xfffffffe True) = Some (x, a') \<and>
     tsn_spec (Some (1, insert 2 (insert 0 {..<0}))) (Data True (Some True) 0) x t' \<and> tsn_rel 0xfffffffe a' t'"
  using tsn_history_refines [OF example_history [OF example_checks(2)], of "Data True (Some True) 0"] example_checks(2)
  by (simp add: tsn_legal_def near_def example_ok_def recent_lag)

section \<open>Traces of the code alone\<close>

text \<open>The answers of the code to a list of events, and the TSNs received according to these answers: those below the first one, those accepted, and those
that a FORWARD-TSN skipped.\<close>

fun tsn_trace :: "u32 \<Rightarrow> tsn_event list \<Rightarrow> tsn_map \<Rightarrow> (tsn_answer list \<times> tsn_map) option" where
  "tsn_trace isn [] a = Some ([], a)"
| "tsn_trace isn (e # es) a = do { (x, a) \<leftarrow> tsn_step isn e a; (xs, a) \<leftarrow> tsn_trace isn es a; Some (x # xs, a) }"

definition accepted :: "(tsn_event \<times> tsn_answer) list \<Rightarrow> int list" where
  "accepted h = concat (map (\<lambda>(e, x). case e of Data mem keep k \<Rightarrow> if x = Accepted then [k] else [] | _ \<Rightarrow> []) h)"

definition recvd :: "(tsn_event \<times> tsn_answer) list \<Rightarrow> int set" where
  "recvd h = {n. n < 0 \<or> n \<in> set (accepted h) \<or> (\<exists>space k. (Forward space k, Done) \<in> set h \<and> n \<le> k)}"

text \<open>The events that may come, judged by the state of the code: the first number above its cumulative TSN is followed from state to state; chunks are
within half the range of serial numbers of it, and what is delivered is below it or was accepted. Nothing is asked of the answers.\<close>

definition next_number :: "u32 \<Rightarrow> int \<Rightarrow> tsn_map \<Rightarrow> int" where
  "next_number isn C a = C + sint (cumulative_tsn a + 1 - (isn + of_int C))"

fun legal_events :: "u32 \<Rightarrow> int \<Rightarrow> int list \<Rightarrow> tsn_event list \<Rightarrow> tsn_map \<Rightarrow> bool" where
  "legal_events isn C acc [] a \<longleftrightarrow> True"
| "legal_events isn C acc (e # es) a \<longleftrightarrow> recent a \<and>
     (case e of Data mem keep k \<Rightarrow> near C k | Deliver drain k \<Rightarrow> near C k \<and> (k < C \<or> k \<in> set acc) | Forward space k \<Rightarrow> near C k | Sack \<Rightarrow> True) \<and>
     (case tsn_step isn e a of None \<Rightarrow> True
      | Some (x, a') \<Rightarrow> if x = Aborted then es = [] else legal_events isn (next_number isn C a') (accepted [(e, x)] @ acc) es a')"

lemma accepted_simps [simp]: "accepted [] = []" "accepted (h @ h') = accepted h @ accepted h'"
  by (simp_all add: accepted_def)

lemma recvd_snoc:
  "recvd (h @ [(e, x)]) = recvd h \<union> set (accepted [(e, x)]) \<union> {n. \<exists>space k. (e, x) = (Forward space k, Done) \<and> n \<le> k}"
  by (auto simp: recvd_def)

lemma next_number_rep:
  assumes "rep isn B C' R a" "C \<le> C'" "C' < C + 2147483648"
  shows "next_number isn C a = C'"
proof -
  have "cumulative_tsn a + 1 - (isn + of_int C) = (of_int (C' - C) :: u32)" using assms(1) by (simp add: rep_def)
  then show ?thesis using assms(2,3) by (simp add: next_number_def sint_32_of_int del: of_int_diff)
qed

lemma full_prefix_bound:
  assumes "rep isn B C R a" "{..<C'} \<subseteq> R"
  shows "C' \<le> C + 8448"
proof -
  have "C' - 1 \<in> R" using assms(2) by auto
  then have "C' \<le> B \<or> present a (nat (C' - 1 - B))" using assms(1) by (simp add: rep_def)
  then have "C' \<le> B + 8 * int (msize a)" using assms present_bound [of a "nat (C' - 1 - B)"] by (auto simp: rep_def)
  then show ?thesis using assms(1) by (simp add: rep_def arrays_ok_def)
qed

text \<open>One event: the code answers, the answer agrees with the TSNs received so far, and the arrays represent those received after it.\<close>

definition answer_ok :: "int set \<Rightarrow> tsn_event \<Rightarrow> tsn_answer \<Rightarrow> bool" where
  "answer_ok R e x \<longleftrightarrow> (\<forall>mem keep k. e = Data mem keep k \<longrightarrow> (x = Accepted \<longrightarrow> k \<notin> R) \<and> (x = Known \<longrightarrow> k \<in> R))"

lemma event_answer:
  assumes "rep isn B C (recvd h) a" "set acc \<subseteq> recvd h" "legal_events isn C acc (e # es) a"
  shows "\<exists>x a'. tsn_step isn e a = Some (x, a') \<and> answer_ok (recvd h) e x \<and>
    (x = Aborted \<or> (\<exists>B'. rep isn B' (next_number isn C a') (recvd (h @ [(e, x)])) a'))"
proof -
  have below: "{..<C} \<subseteq> recvd h" using assms(1) by (simp add: rep_def)
  have "tsn_legal e a (Some (C, recvd h))" using assms(2,3) below by (auto simp: tsn_legal_def split: tsn_event.splits)
  from tsn_simulate [OF tsn_relI [OF assms(1)] this] obtain x a' t' where s: "tsn_step isn e a = Some (x, a')"
    "tsn_spec (Some (C, recvd h)) e x t'" "tsn_rel isn a' t'" by blast
  have near: "near C k" if "e = Forward space k" for space k using assms(3) that by simp
  have next': "\<exists>B'. rep isn B' (next_number isn C a') R' a'" if "t' = Some (C', R')" "C \<le> C'" "C' < C + 2147483648" for C' R'
    using s(3) that next_number_rep by (fastforce simp: tsn_rel_def)
  from s(2) have "answer_ok (recvd h) e x \<and> (x = Aborted \<or>
    (\<exists>C'. t' = Some (C', recvd (h @ [(e, x)])) \<and> C \<le> C' \<and> C' < C + 2147483648))"
  proof cases
    case (forward_old k space)
    then have "{n. n \<le> k} \<subseteq> recvd h" using below by auto
    then show ?thesis using forward_old by (auto simp: answer_ok_def recvd_snoc accepted_def)
  next
    case (forward_new k space)
    then show ?thesis using near [of space k] by (auto simp: answer_ok_def recvd_snoc accepted_def near_def)
  next
    case (sack C')
    then have "C \<le> C'" using below by (meson lessThan_iff not_le subsetD)
    then show ?thesis using sack full_prefix_bound [OF assms(1) sack(5)] by (auto simp: answer_ok_def recvd_snoc accepted_def)
  qed (auto simp: answer_ok_def recvd_snoc accepted_def)
  then show ?thesis using s(1) next' by blast
qed

lemma trace_answers:
  assumes "rep isn B C (recvd h) a" "set acc \<subseteq> recvd h" "legal_events isn C acc es a"
  shows "\<exists>xs a'. tsn_trace isn es a = Some (xs, a') \<and> length xs = length es \<and>
    (\<forall>h1 e x h2. zip es xs = h1 @ (e, x) # h2 \<longrightarrow> answer_ok (recvd (h @ h1)) e x)"
  using assms
proof (induction es arbitrary: B C h a acc)
  case (Cons e es)
  obtain x a' where s: "tsn_step isn e a = Some (x, a')" "answer_ok (recvd h) e x"
    "x = Aborted \<or> (\<exists>B'. rep isn B' (next_number isn C a') (recvd (h @ [(e, x)])) a')"
    using event_answer [OF Cons.prems] by blast
  have first: "answer_ok (recvd (h @ h1)) e1 x1"
    if "\<And>h1 e x h2. zip es xs = h1 @ (e, x) # h2 \<Longrightarrow> answer_ok (recvd ((h @ [(e', x')]) @ h1)) e x" "e' = e" "x' = x"
      "zip (e # es) (x # xs) = h1 @ (e1, x1) # h2" for xs h1 e1 x1 h2 e' x'
    using that s(2) by (cases h1) auto
  show ?case
  proof (cases "x = Aborted")
    case True
    then have "es = []" using Cons.prems(3) s(1) by simp
    then show ?thesis using s by (auto simp: Cons_eq_append_conv)
  next
    case False
    then obtain B' where "rep isn B' (next_number isn C a') (recvd (h @ [(e, x)])) a'" using s(3) by blast
    moreover have "set (accepted [(e, x)] @ acc) \<subseteq> recvd (h @ [(e, x)])" using Cons.prems(2) by (auto simp: recvd_snoc)
    moreover have "legal_events isn (next_number isn C a') (accepted [(e, x)] @ acc) es a'" using Cons.prems(3) s(1) False by simp
    ultimately obtain xs a2 where "tsn_trace isn es a' = Some (xs, a2)" "length xs = length es"
      "\<forall>h1 e1 x1 h2. zip es xs = h1 @ (e1, x1) # h2 \<longrightarrow> answer_ok (recvd ((h @ [(e, x)]) @ h1)) e1 x1"
      using Cons.IH by blast
    then show ?thesis using s(1) first [of xs e x] by auto
  qed
qed simp

lemma accepted_distinct:
  assumes "\<And>h1 e x h2. h = h1 @ (e, x) # h2 \<Longrightarrow> answer_ok (recvd h1) e x"
  shows "distinct (accepted h)"
  using assms
proof (induction h rule: rev_induct)
  case (snoc p h)
  obtain e x where p: "p = (e, x)" by fastforce
  have "distinct (accepted h)" using snoc by simp
  moreover have "answer_ok (recvd h) e x" using snoc.prems [of h e x "[]"] p by simp
  ultimately show ?case unfolding p by (cases e) (auto simp: accepted_def answer_ok_def recvd_def)
qed simp

text \<open>C24. In every trace of the code from a new association, over events that are legal for the states the code goes through, the code always answers, accepts no TSN
twice, and decides exactly by the answers it gave before: data is accepted only if its TSN was not received before (not below the first TSN, not accepted and not
skipped by a FORWARD-TSN), and called a duplicate only if it was, whatever is retransmitted, skipped or slid out of the arrays.\<close>

theorem tsn_accepted_once:
  assumes "legal_events isn 0 [] es (tsn_init isn)"
  shows "\<exists>xs a'. tsn_trace isn es (tsn_init isn) = Some (xs, a') \<and> length xs = length es \<and> distinct (accepted (zip es xs)) \<and>
    (\<forall>h1 mem keep k x h2. zip es xs = h1 @ (Data mem keep k, x) # h2 \<longrightarrow> (x = Accepted \<longrightarrow> k \<notin> recvd h1) \<and> (x = Known \<longrightarrow> k \<in> recvd h1))"
proof -
  have "recvd [] = {..<0}" by (auto simp: recvd_def)
  then have "rep isn 0 0 (recvd []) (tsn_init isn)" using tsn_init_rep by simp
  from trace_answers [OF this _ assms] obtain xs a' where t: "tsn_trace isn es (tsn_init isn) = Some (xs, a')" "length xs = length es"
    "\<And>h1 e x h2. zip es xs = h1 @ (e, x) # h2 \<Longrightarrow> answer_ok (recvd h1) e x" by auto
  have "distinct (accepted (zip es xs))" by (rule accepted_distinct [OF t(3)])
  then show ?thesis using t by (auto simp: answer_ok_def)
qed

text \<open>The example again, with the second TSN sent twice.\<close>

definition example_events :: "tsn_event list" where
  "example_events = [Data True (Some True) 0, Data True (Some True) 2, Sack, Data True (Some True) 2]"

lemma example_legal: "legal_events 0xfffffffe 0 [] example_events (tsn_init 0xfffffffe)"
  by code_simp

theorem tsn_accepted_once_witness:
  "\<exists>xs a'. tsn_trace 0xfffffffe example_events (tsn_init 0xfffffffe) = Some (xs, a') \<and> distinct (accepted (zip example_events xs))"
  using tsn_accepted_once [OF example_legal] by blast

end
