(* ===== verification/Sack_Props.thy ===== *)
theory Sack_Props
  imports Sack_Runs Tsn_Props
begin

text \<open>
  What a SACK tells the peer: the TSNs that its gap blocks acknowledge have all been received, and if there is room for
  them all, and the TSNs in the array do not wrap around, these are all that were received above the cumulative TSN.
\<close>

section \<open>The bits above the cumulative TSN\<close>

definition beyond :: "int \<Rightarrow> (nat \<Rightarrow> bool) \<Rightarrow> nat \<Rightarrow> bool" where
  "beyond d Q i \<longleftrightarrow> Q i \<and> d \<le> int i"

lemma first_offset_eq:
  assumes "rep isn B C R a" "C < B + 8"
  shows "first_offset a = B - C + 1"
proof -
  have "mapping_array_base_tsn a - cumulative_tsn a = of_int (B - C + 1)" "B \<le> C" using assms(1) by (simp_all add: rep_def)
  then show ?thesis using assms(2) by (simp add: first_offset_def SCTP_TSN_GT_iff sint_32_of_int del: of_int_diff of_int_add)
qed

lemma mask_first_bits:
  assumes "0 \<le> d" "d < 8"
  obtains y where "mask_first (1 - d) x = Some y" "\<And>q. q < 8 \<Longrightarrow> bit y q \<longleftrightarrow> bit x q \<and> d \<le> int q"
proof -
  have "bit (ucast (push_bit (nat d) (0xffffffff :: u32)) :: u8) q \<longleftrightarrow> nat d \<le> q" if "q < 8" for q
  proof -
    have "(0xffffffff :: u32) = mask 32" by (simp add: mask_eq_exp_minus_1)
    then show ?thesis using that by (simp only: bit_simps) auto
  qed
  then show ?thesis using assms by (intro that [of "x AND ucast (push_bit (nat d) 0xffffffff)"]) (auto simp: mask_first_def bit_and_iff)
qed

lemma byte_beyond:
  assumes "0 \<le> d" "d < 8" and x: "tsn_map j = Some x" "\<And>q. q < 8 \<Longrightarrow> bit x q = Q (8 * j + q)"
  shows "\<exists>y. byte_at (1 - d) tsn_map j = Some y \<and> (\<forall>q < 8. bit y q = beyond d Q (8 * j + q))"
proof (cases "j = 0")
  case True
  obtain y where "mask_first (1 - d) x = Some y" "\<And>q. q < 8 \<Longrightarrow> bit y q \<longleftrightarrow> bit x q \<and> d \<le> int q"
    using mask_first_bits [OF assms(1,2)] by metis
  with True x show ?thesis by (auto simp: byte_at_def beyond_def)
next
  case False
  with assms show ?thesis by (auto simp: byte_at_def beyond_def)
qed

lemma or_byte_bits:
  assumes "arrays_ok a" "j < msize a"
  shows "\<exists>x. or_byte a j = Some x \<and> (\<forall>q < 8. bit x q = present a (8 * j + q))"
  using assms by (auto simp: or_byte_def entry_def arrays_ok_def present_def tsn_bit_def bit_or_iff)

lemma array_byte_bits:
  assumes "length arr = n" "j < n"
  shows "\<exists>x. entry arr j = Some x \<and> (\<forall>q < 8. bit x q = tsn_bit arr (8 * j + q))"
  using assms by (auto simp: entry_def tsn_bit_def)

section \<open>The blocks\<close>

text \<open>The numbers that the blocks of a SACK with cumulative TSN number \<open>C - 1\<close> acknowledge.\<close>

definition acked :: "int \<Rightarrow> (u16 \<times> u16) list \<Rightarrow> int set" where
  "acked C bs = (\<Union>(x, y) \<in> set bs. {C - 1 + uint x..C - 1 + uint y})"

lemma acked_blocks:
  assumes runs: "runs N (beyond (C - B) Q) rs" and N: "N \<le> 8448" and C: "C < B + 8" "B \<le> C" and bs: "set bs \<subseteq> set rs"
  shows "acked C (map (block (B - C + 1)) bs) = (\<lambda>i. B + int i) ` covered bs"
proof -
  have one: "{C - 1 + uint (fst (block (B - C + 1) (s, e)))..C - 1 + uint (snd (block (B - C + 1) (s, e)))} = (\<lambda>i. B + int i) ` {s..e}"
    if "(s, e) \<in> set bs" for s e
  proof -
    have se: "s \<le> e" "e < N" "beyond (C - B) Q s" using runs_bounds [OF runs, of s e] bs that by auto
    have "uint (of_int (int i + (B - C + 1)) :: u16) = int i + (B - C + 1)" if "s \<le> i" "i \<le> e" for i
      using se that N C by (simp add: uint_word_of_int beyond_def del: of_int_add of_int_diff)
    then have "{C - 1 + uint (fst (block (B - C + 1) (s, e)))..C - 1 + uint (snd (block (B - C + 1) (s, e)))} = {B + int s..B + int e}"
      using se(1) by (simp add: block_def del: of_int_add of_int_diff)
    also have "\<dots> = (+) B ` int ` {s..e}" by (simp add: image_int_atLeastAtMost add.commute)
    finally show ?thesis by (simp add: image_image)
  qed
  have "acked C (map (block (B - C + 1)) bs) = (\<Union>x \<in> set bs. {C - 1 + uint (fst (block (B - C + 1) x))..C - 1 + uint (snd (block (B - C + 1) x))})"
    by (simp add: acked_def split_beta)
  also have "\<dots> = (\<Union>x \<in> set bs. (\<lambda>i. B + int i) ` {fst x..snd x})" using one by (intro SUP_cong refl) auto
  finally show ?thesis by (simp add: covered_def split_beta image_UN)
qed

text \<open>What the blocks of a truncated list of runs tell is true; the whole list tells everything.\<close>

lemma acked_sound:
  assumes "rep isn B C R a" "C < B + 8" "runs N (beyond (C - B) Q) rs" "N \<le> 8448" "\<And>i. Q i \<Longrightarrow> present a i"
  shows "acked C (map (block (B - C + 1)) (take k rs)) \<subseteq> R"
proof -
  have "covered (take k rs) \<subseteq> {i. i < N \<and> beyond (C - B) Q i}"
    using assms(3) set_take_subset [of k rs] unfolding runs_def covered_def by blast
  moreover have "B \<le> C" "\<And>i. present a i \<longleftrightarrow> B + int i \<in> R" using assms(1) by (simp_all add: rep_def)
  ultimately show ?thesis
    using acked_blocks [OF assms(3,4,2) _ set_take_subset, of k] assms(5) by (auto simp: beyond_def)
qed

lemma acked_all:
  assumes "B \<le> C" "C < B + 8" and rs: "runs N (beyond (C - B) Q) rs" "N \<le> 8448" and all: "\<And>i. beyond (C - B) Q i \<Longrightarrow> i < N"
  shows "acked C (map (block (B - C + 1)) rs) = (\<lambda>i. B + int i) ` {i. beyond (C - B) Q i}"
  using acked_blocks [OF rs assms(2,1), of rs] rs(1) all by (auto simp: runs_def)

lemma beyond_numbers:
  assumes rep: "rep isn B C R a" "C \<notin> R"
  shows "(\<lambda>i. B + int i) ` {i. beyond (C - B) (present a) i} = {k \<in> R. C < k}"
proof (intro set_eqI iffI)
  have BC: "B \<le> C" and pr: "\<And>i. present a i \<longleftrightarrow> B + int i \<in> R" using rep(1) by (simp_all add: rep_def)
  fix k
  show "k \<in> {k \<in> R. C < k}" if "k \<in> (\<lambda>i. B + int i) ` {i. beyond (C - B) (present a) i}"
  proof -
    from that have "k \<in> R" "C \<le> k" by (auto simp: beyond_def pr)
    with rep(2) show ?thesis by (auto simp: order_le_less)
  qed
  show "k \<in> (\<lambda>i. B + int i) ` {i. beyond (C - B) (present a) i}" if "k \<in> {k \<in> R. C < k}"
    using that BC by (intro image_eqI [of _ _ "nat (k - B)"]) (auto simp: beyond_def pr)
qed

lemma starts_numbers:
  assumes rep: "rep isn B C R a" "C \<notin> R"
  shows "card (run_starts N (beyond (C - B) (present a))) \<le> card {k \<in> R. C < k \<and> k - 1 \<notin> R}"
proof -
  have BC: "B \<le> C" and pr: "\<And>i. present a i \<longleftrightarrow> B + int i \<in> R" using rep(1) by (simp_all add: rep_def)
  have "{k \<in> R. C < k \<and> k - 1 \<notin> R} \<subseteq> {C..<B + 8 * int (msize a)}" using rep_number(2) [OF rep(1)] BC by auto
  then have "finite {k \<in> R. C < k \<and> k - 1 \<notin> R}" by (rule finite_subset) simp
  moreover have "(\<lambda>i. B + int i) ` run_starts N (beyond (C - B) (present a)) \<subseteq> {k \<in> R. C < k \<and> k - 1 \<notin> R}"
  proof
    fix k assume "k \<in> (\<lambda>i. B + int i) ` run_starts N (beyond (C - B) (present a))"
    then obtain i where "k = B + int i" "beyond (C - B) (present a) i" and first: "i = 0 \<or> \<not> beyond (C - B) (present a) (i - 1)"
      by (auto simp: run_starts_def)
    then have i: "k = B + int i" "B + int i \<in> R" "C \<le> B + int i" by (simp_all add: beyond_def pr)
    have "C < k" using i rep(2) by (auto simp: order_le_less)
    moreover have "k - 1 \<notin> R"
      using i first \<open>C < k\<close> BC pr [of "i - 1"] by (cases i) (auto simp: beyond_def)
    ultimately show "k \<in> {k \<in> R. C < k \<and> k - 1 \<notin> R}" using i by simp
  qed
  moreover have "inj_on (\<lambda>i. B + int i) (run_starts N (beyond (C - B) (present a)))" by (simp add: inj_on_def)
  ultimately show ?thesis by (meson card_inj_on_le)
qed

section \<open>The chunk\<close>

lemma off_highest_in_maps:
  assumes "arrays_ok a" "highest_ok a" "recent a"
  shows "off a (highest_in_maps a) = max (off_r a) (off_nr a)"
  using assms off_bounds [OF assms(1,2)] by (simp add: highest_in_maps_def recent_def SCTP_TSN_GT_off [of a] max_def)

lemma uint_off: "0 \<le> off a h \<Longrightarrow> uint (h - mapping_array_base_tsn a) = off a h"
  using unat_32_sint [of "h - mapping_array_base_tsn a"] by (simp add: off_def)

lemma siz_eq:
  assumes "0 \<le> off a h" "off a h < 8448"
  shows "siz_sack h (mapping_array_base_tsn a) = (if mapping_array_base_tsn a < h then nat (off a h) div 8 + 1 else 0)"
    "siz_nr_sack h (mapping_array_base_tsn a) = (if mapping_array_base_tsn a < h then nat (off a h) div 8 + 1 else (nat (off a h) + 7) div 8)"
proof -
  have u: "unat (h - mapping_array_base_tsn a) = nat (off a h)" using uint_off [OF assms(1)] by (simp add: unat_eq_nat_uint)
  then have "unat (h - mapping_array_base_tsn a + 1 + 7) = nat (off a h) + 8" "unat (h - mapping_array_base_tsn a + 7) = nat (off a h) + 7"
    using assms by (simp_all add: unat_word_ariths)
  moreover have "MAX_TSN - h + 1 + h + 7 = 7" "MAX_TSN - mapping_array_base_tsn a + 1 + h + 7 = h - mapping_array_base_tsn a + 7"
    by (simp_all add: MAX_TSN_def)
  moreover have "(nat (off a h) + 8) div 8 = nat (off a h) div 8 + 1" by simp
  ultimately show "siz_sack h (mapping_array_base_tsn a) = (if mapping_array_base_tsn a < h then nat (off a h) div 8 + 1 else 0)"
    "siz_nr_sack h (mapping_array_base_tsn a) = (if mapping_array_base_tsn a < h then nat (off a h) div 8 + 1 else (nat (off a h) + 7) div 8)"
    by (simp_all only: siz_sack_def siz_nr_sack_def unat_div_distrib split: if_split) simp_all
qed

lemma SCTP_TSN_GT_cumulative:
  assumes "rep isn B C R a" "recent a" "C < B + 8" "h = highest_tsn_inside_map a \<or> h = highest_tsn_inside_nr_map a"
  shows "SCTP_TSN_GT h (cumulative_tsn a) \<longleftrightarrow> C - B \<le> off a h"
proof -
  have "off a h < 8448" "- 1073741824 \<le> off a h" using assms off_bounds [of a] by (auto simp: rep_def recent_def)
  moreover have "cumulative_tsn a = mapping_array_base_tsn a + of_int (C - 1 - B)" "B \<le> C" using assms(1) by (simp_all add: rep_def)
  moreover from this have "off a (cumulative_tsn a) = C - 1 - B" using assms(3) by (simp only:) (intro off_base_plus; linarith)
  ultimately have "SCTP_TSN_GT h (cumulative_tsn a) \<longleftrightarrow> C - 1 - B < off a h" using assms(3) by (simp add: SCTP_TSN_GT_off [of a])
  then show ?thesis by linarith
qed

lemma empty_buffer: "holds room [] c [] \<lparr>blocks = replicate room (0, 0), descriptor = 0, num_blocks = 0\<rparr>"
  by (simp add: holds_def)

text \<open>An array as the loop sees it: its bytes, the bits in them and the highest TSN.\<close>

definition tracked :: "tsn_map \<Rightarrow> (nat \<Rightarrow> bool) \<Rightarrow> u32 \<Rightarrow> (nat \<Rightarrow> u8 option) \<Rightarrow> bool" where
  "tracked a Q h tsn_map \<longleftrightarrow> (\<forall>j < msize a. \<exists>x. tsn_map j = Some x \<and> (\<forall>q < 8. bit x q = Q (8 * j + q))) \<and>
     (\<forall>i. Q i \<longrightarrow> int i \<le> off a h \<and> present a i) \<and> off a h < 8 * int (msize a) \<and>
     (h = highest_tsn_inside_map a \<or> h = highest_tsn_inside_nr_map a)"

lemma tracked_arrays:
  assumes "arrays_ok a" "highest_ok a" "recent a"
  shows "tracked a (present a) (highest_in_maps a) (or_byte a)"
    "tracked a (tsn_bit (mapping_array a)) (highest_tsn_inside_map a) (entry (mapping_array a))"
    "tracked a (tsn_bit (nr_mapping_array a)) (highest_tsn_inside_nr_map a) (entry (nr_mapping_array a))"
proof -
  have "int i \<le> off a (highest_in_maps a)" if "present a i" for i
    using that assms(2) unfolding off_highest_in_maps [OF assms] by (auto simp: present_def highest_ok_def le_max_iff_disj)
  moreover have "off a (highest_in_maps a) < 8 * int (msize a)"
    using assms(2) unfolding off_highest_in_maps [OF assms] by (simp add: highest_ok_def)
  moreover have "highest_in_maps a = highest_tsn_inside_map a \<or> highest_in_maps a = highest_tsn_inside_nr_map a"
    by (simp add: highest_in_maps_def)
  ultimately show "tracked a (present a) (highest_in_maps a) (or_byte a)"
    unfolding tracked_def using or_byte_bits [OF assms(1)] by blast
  show "tracked a (tsn_bit (mapping_array a)) (highest_tsn_inside_map a) (entry (mapping_array a))"
      "tracked a (tsn_bit (nr_mapping_array a)) (highest_tsn_inside_nr_map a) (entry (nr_mapping_array a))"
    using assms(1,2) array_byte_bits by (auto simp: tracked_def arrays_ok_def highest_ok_def present_def)
qed

lemma wrap_free:
  assumes rep: "rep isn B C R a" "C \<notin> R" and t: "tracked a Q h tsn_map" and "h = mapping_array_base_tsn a"
  shows "\<not> beyond (C - B) Q i"
proof
  assume P: "beyond (C - B) Q i"
  then have "int i \<le> 0" "present a i" using t assms(4) by (auto simp: tracked_def beyond_def off_def)
  with P rep show False by (auto simp: beyond_def rep_def)
qed

lemma array_loop:
  assumes rep: "rep isn B C R a" "recent a" "C < B + 8" "C \<notin> R" and t: "tracked a Q h tsn_map"
    and siz: "0 \<le> off a h \<Longrightarrow> siz \<le> nat (off a h) div 8 + 1 \<and> (mapping_array_base_tsn a < h \<longrightarrow> siz = nat (off a h) div 8 + 1)"
    and b: "holds room pre (B - C + 1) [] b" "descriptor b < room"
  obtains limit b' N rs k where
    "(if SCTP_TSN_GT h (cumulative_tsn a) then gap_loop room tsn_map siz 0 (first_offset a) False b else Some (False, b)) = Some (limit, b')"
    "runs N (beyond (C - B) Q) rs" "N \<le> 8448" "holds room pre (B - C + 1) (take k rs) b'" "limit \<longleftrightarrow> descriptor b' = room"
    "\<not> limit \<longrightarrow> take k rs = rs \<and> (mapping_array_base_tsn a \<le> h \<longrightarrow> (\<forall>i. beyond (C - B) Q i \<longrightarrow> i < N))"
proof -
  let ?P = "beyond (C - B) Q"
  have ok: "arrays_ok a" "B \<le> C" "msize a \<le> 1056" using rep(1) by (simp_all add: rep_def arrays_ok_def)
  have top: "int i \<le> off a h" if "Q i" for i using t that by (simp add: tracked_def)
  have gt: "SCTP_TSN_GT h (cumulative_tsn a) \<longleftrightarrow> C - B \<le> off a h"
    using t by (intro SCTP_TSN_GT_cumulative [OF rep(1-3)]) (simp add: tracked_def)
  show ?thesis
  proof (cases "C - B \<le> off a h")
    case False
    then have "\<not> ?P i" for i using top [of i] by (auto simp: beyond_def)
    with False gt b show ?thesis by (intro that [of False b 0 "[]" 0]) (simp_all add: runs_Nil)
  next
    case True
    then have h: "0 \<le> off a h" "off a h < 8 * int (msize a)" using ok t by (simp_all add: tracked_def)
    note siz = siz [OF h(1)]
    have fits: "siz \<le> msize a" using h siz by linarith
    have bytes: "\<exists>x. byte_at (B - C + 1) tsn_map j = Some x \<and> (\<forall>q < 8. bit x q = ?P (8 * j + q))" if "0 \<le> j" "j < 0 + siz" for j
    proof -
      have "j < msize a" using fits that by simp
      then obtain x where "tsn_map j = Some x" "\<And>q. q < 8 \<Longrightarrow> bit x q = Q (8 * j + q)" using t unfolding tracked_def by blast
      with byte_beyond [of "C - B" tsn_map j x Q] ok(2) rep(3) show ?thesis by (simp add: algebra_simps)
    qed
    have off: "first_offset a = B - C + 1 + int (8 * 0)" using first_offset_eq [OF rep(1,3)] by simp
    have start: "runs (8 * 0) ?P []" "False \<longleftrightarrow> 0 < (0 :: nat) \<and> ?P (8 * 0 - 1)" by (simp_all add: runs_Nil)
    obtain limit b' N rs k where r: "gap_loop room tsn_map siz 0 (B - C + 1 + int (8 * 0)) False b = Some (limit, b')"
        "runs N ?P rs" "N \<le> 8 * (0 + siz)" "holds room pre (B - C + 1) (take k rs) b'" "limit \<longleftrightarrow> descriptor b' = room"
        "\<not> limit \<longrightarrow> take k rs = rs \<and> N = 8 * (0 + siz)"
      by (rule gap_loop_ok [where n = siz, OF b start bytes]) (assumption, assumption, (rule that; assumption))
    have "i < 8 * siz" if "mapping_array_base_tsn a \<le> h" "?P i" for i
    proof -
      have "mapping_array_base_tsn a < h" using wrap_free [OF rep(1,4) t] that by (metis order_le_less)
      then show ?thesis using top [of i] that(2) siz by (simp add: beyond_def)
    qed
    with r gt True fits ok(3) off show ?thesis by (intro that [of limit b' N rs k]) auto
  qed
qed

lemma build_sack_ok:
  assumes rep: "rep isn B C R a" "recent a" "C < B + 8" "C \<notin> R" and room: "0 < room"
  obtains s a' where "build_sack False room w a = Some (s, a')" "cum_tsn_ack s = isn + of_int (C - 1)" "a_rwnd s = w"
    "send_size s = of_nat (16 + 4 * (length (gap_ack_blks s) + length (duplicates s)))" "acked C (gap_ack_blks s) \<subseteq> R"
    "mapping_array_base_tsn a \<le> highest_in_maps a \<Longrightarrow> card {k \<in> R. C < k \<and> k - 1 \<notin> R} < room \<Longrightarrow> acked C (gap_ack_blks s) = {k \<in> R. C < k}"
    "mapping_array_base_tsn a' = mapping_array_base_tsn a" "highest_in_maps a' = highest_in_maps a"
proof -
  define b0 :: gap_buf where "b0 = \<lparr>blocks = replicate room (0, 0), descriptor = 0, num_blocks = 0\<rparr>"
  have b0: "holds room [] (B - C + 1) [] b0" "descriptor b0 < room" using room by (simp_all add: b0_def empty_buffer)
  have ok: "arrays_ok a" "highest_ok a" using rep(1) by (simp_all add: rep_def)
  let ?h = "highest_in_maps a" and ?base = "mapping_array_base_tsn a"
  have t: "tracked a (present a) ?h (or_byte a)" by (rule tracked_arrays [OF ok rep(2)])
  have siz: "siz_sack ?h ?base \<le> nat (off a ?h) div 8 + 1 \<and> (?base < ?h \<longrightarrow> siz_sack ?h ?base = nat (off a ?h) div 8 + 1)" if "0 \<le> off a ?h"
    using siz_eq(1) [OF that] off_bounds [OF ok] by (simp add: off_highest_in_maps [OF ok rep(2)])
  obtain limit b N rs k where l:
    "(if SCTP_TSN_GT ?h (cumulative_tsn a) then gap_loop room (or_byte a) (siz_sack ?h ?base) 0 (first_offset a) False b0 else Some (False, b0)) = Some (limit, b)"
    "runs N (beyond (C - B) (present a)) rs" "N \<le> 8448" "holds room [] (B - C + 1) (take k rs) b" "limit \<longleftrightarrow> descriptor b = room"
    "\<not> limit \<longrightarrow> take k rs = rs \<and> (?base \<le> ?h \<longrightarrow> (\<forall>i. beyond (C - B) (present a) i \<longrightarrow> i < N))"
    by (rule array_loop [OF rep t siz b0]) (assumption, (rule that; assumption))
  have blocks: "take (num_blocks b) (blocks b) = map (block (B - C + 1)) (take k rs)" "num_blocks b = length (take k rs)"
    using l(4) by (auto simp: holds_def)
  define dups where "dups = (if \<not> limit then put_dups room (descriptor b) (dup_tsns a) else [])"
  define s where "s = \<lparr>send_size = of_nat (16 + 4 * (length (take k rs) + length dups)), cum_tsn_ack = cumulative_tsn a, a_rwnd = w, gap_ack_blks = map (block (B - C + 1)) (take k rs), nr_gap_ack_blks = [],
    duplicates = dups\<rparr>"
  define a' where "a' = a\<lparr>dup_tsns := (if \<not> limit then [] else dup_tsns a), send_sack := False\<rparr>"
  have result: "build_sack False room w a = Some (s, a')" unfolding build_sack_def Let_def if_False l(1) [unfolded b0_def] by (simp add: blocks(1) s_def a'_def dups_def) (simp add: blocks(2))
  have "acked C (gap_ack_blks s) = {k \<in> R. C < k}"
    if "mapping_array_base_tsn a \<le> highest_in_maps a" "card {k \<in> R. C < k \<and> k - 1 \<notin> R} < room"
  proof -
    have "length (take k rs) \<le> card (run_starts N (beyond (C - B) (present a)))" using runs_length [OF l(2)] by simp
    also have "\<dots> < room" using starts_numbers [OF rep(1,4), of N] that(2) by simp
    finally have "\<not> limit" using l(4,5) by (simp add: holds_def)
    with l(6) that(1) have "take k rs = rs" "\<And>i. beyond (C - B) (present a) i \<Longrightarrow> i < N" by blast+
    then show ?thesis using acked_all [OF _ rep(3) l(2,3)] beyond_numbers [OF rep(1,4)] rep(1) by (simp add: s_def rep_def)
  qed
  moreover have "acked C (gap_ack_blks s) \<subseteq> R" using acked_sound [OF rep(1,3) l(2,3)] by (simp add: s_def)
  moreover have "cum_tsn_ack s = isn + of_int (C - 1)" "a_rwnd s = w" "send_size s = of_nat (16 + 4 * (length (gap_ack_blks s) + length (duplicates s)))"
    using rep(1) by (simp_all add: s_def rep_def)
  moreover have "mapping_array_base_tsn a' = mapping_array_base_tsn a" "highest_in_maps a' = highest_in_maps a" by (simp_all add: a'_def highest_in_maps_def)
  ultimately show ?thesis using that [OF result] by blast
qed

lemma runs_few:
  assumes rep: "rep isn B C R a" "C \<notin> R" and rs: "runs N (beyond (C - B) Q) rs" and Q: "\<And>i. Q i \<Longrightarrow> present a i"
  shows "length rs \<le> card {k \<in> R. C < k}"
proof -
  have "B \<le> C" using rep(1) by (simp add: rep_def)
  then have "{k \<in> R. C < k} \<subseteq> {C..<B + 8 * int (msize a)}" using rep_number(2) [OF rep(1)] by auto
  then have "finite {k \<in> R. C < k}" by (rule finite_subset) simp
  moreover have "(\<lambda>i. B + int i) ` run_starts N (beyond (C - B) Q) \<subseteq> {k \<in> R. C < k}"
    using Q unfolding beyond_numbers [OF rep, symmetric] by (auto simp: run_starts_def beyond_def)
  moreover have "inj_on (\<lambda>i. B + int i) (run_starts N (beyond (C - B) Q))" by (simp add: inj_on_def)
  ultimately have "card (run_starts N (beyond (C - B) Q)) \<le> card {k \<in> R. C < k}" by (meson card_inj_on_le)
  with runs_length [OF rs] show ?thesis by simp
qed

lemma holds_after: "holds room pre c bs b \<Longrightarrow> holds room (pre @ map (block c) bs) c [] (b\<lparr>num_blocks := 0\<rparr>)"
  by (auto simp: holds_def)

text \<open>The second loop of an NR-SACK goes on where the first one stopped, unless that filled the chunk.\<close>

lemma second_loop:
  assumes rep: "rep isn B C R a" "recent a" "C < B + 8" "C \<notin> R" and t: "tracked a Q h tsn_map"
    and siz: "0 \<le> off a h \<Longrightarrow> siz \<le> nat (off a h) div 8 + 1 \<and> (mapping_array_base_tsn a < h \<longrightarrow> siz = nat (off a h) div 8 + 1)"
    and b: "holds room pre (B - C + 1) [] b" "limit1 \<longleftrightarrow> descriptor b = room"
  obtains limit b' N rs k where
    "(if \<not> limit1 \<and> SCTP_TSN_GT h (cumulative_tsn a) then gap_loop room tsn_map siz 0 (first_offset a) False b else Some (limit1, b)) = Some (limit, b')"
    "runs N (beyond (C - B) Q) rs" "N \<le> 8448" "holds room pre (B - C + 1) (take k rs) b'" "limit \<longleftrightarrow> descriptor b' = room"
    "\<not> limit \<longrightarrow> \<not> limit1 \<and> take k rs = rs \<and> (mapping_array_base_tsn a \<le> h \<longrightarrow> (\<forall>i. beyond (C - B) Q i \<longrightarrow> i < N))"
proof (cases limit1)
  case True
  with b show ?thesis by (intro that [of True b 0 "[]" 0]) (simp_all add: runs_Nil)
next
  case False
  then have "descriptor b < room" using b holds_room [OF b(1)] by simp
  note loop = array_loop [OF rep t siz b(1) this]
  obtain limit b' N rs k where
    "(if SCTP_TSN_GT h (cumulative_tsn a) then gap_loop room tsn_map siz 0 (first_offset a) False b else Some (False, b)) = Some (limit, b')"
    "runs N (beyond (C - B) Q) rs" "N \<le> 8448" "holds room pre (B - C + 1) (take k rs) b'" "limit \<longleftrightarrow> descriptor b' = room"
    "\<not> limit \<longrightarrow> take k rs = rs \<and> (mapping_array_base_tsn a \<le> h \<longrightarrow> (\<forall>i. beyond (C - B) Q i \<longrightarrow> i < N))"
    by (rule loop) (assumption, (rule that; assumption))
  with False show ?thesis by (intro that [of limit b' N rs k]) (simp_all split: if_splits)
qed

lemma siz_nr_le:
  assumes "off a h < 8448" "0 \<le> off a h"
  shows "siz_nr_sack h (mapping_array_base_tsn a) \<le> nat (off a h) div 8 + 1 \<and>
    (mapping_array_base_tsn a < h \<longrightarrow> siz_nr_sack h (mapping_array_base_tsn a) = nat (off a h) div 8 + 1)"
proof -
  have "(n + 7) div 8 \<le> n div 8 + 1" for n :: nat by linarith
  with siz_eq(2) [OF assms(2,1)] show ?thesis by simp
qed

lemma build_nr_sack_ok:
  assumes rep: "rep isn B C R a" "recent a" "C < B + 8" "C \<notin> R" and room: "0 < room"
  obtains s a' where "build_sack True room w a = Some (s, a')" "cum_tsn_ack s = isn + of_int (C - 1)"
    "acked C (gap_ack_blks s) \<union> acked C (nr_gap_ack_blks s) \<subseteq> R"
    "mapping_array_base_tsn a \<le> highest_tsn_inside_map a \<Longrightarrow> mapping_array_base_tsn a \<le> highest_tsn_inside_nr_map a \<Longrightarrow>
     2 * card {k \<in> R. C < k} < room \<Longrightarrow> acked C (gap_ack_blks s) \<union> acked C (nr_gap_ack_blks s) = {k \<in> R. C < k}"
    "mapping_array_base_tsn a' = mapping_array_base_tsn a" "highest_tsn_inside_map a' = highest_tsn_inside_map a"
    "highest_tsn_inside_nr_map a' = highest_tsn_inside_nr_map a"
proof -
  define b0 :: gap_buf where "b0 = \<lparr>blocks = replicate room (0, 0), descriptor = 0, num_blocks = 0\<rparr>"
  have b0: "holds room [] (B - C + 1) [] b0" "descriptor b0 < room" using room by (simp_all add: b0_def empty_buffer)
  have ok: "arrays_ok a" "highest_ok a" "B \<le> C" using rep(1) by (simp_all add: rep_def)
  let ?h = "highest_tsn_inside_map a" and ?g = "highest_tsn_inside_nr_map a" and ?base = "mapping_array_base_tsn a"
  let ?Q = "tsn_bit (mapping_array a)" and ?S = "tsn_bit (nr_mapping_array a)"
  note t = tracked_arrays(2,3) [OF ok(1,2) rep(2)]
  note siz = siz_nr_le [OF off_bounds(1) [OF ok(1,2)]] siz_nr_le [OF off_bounds(2) [OF ok(1,2)]]
  obtain limit1 b1 N rs k where l1:
    "(if SCTP_TSN_GT ?h (cumulative_tsn a) then gap_loop room (entry (mapping_array a)) (siz_nr_sack ?h ?base) 0 (first_offset a) False b0 else Some (False, b0)) = Some (limit1, b1)"
    "runs N (beyond (C - B) ?Q) rs" "N \<le> 8448" "holds room [] (B - C + 1) (take k rs) b1" "limit1 \<longleftrightarrow> descriptor b1 = room"
    "\<not> limit1 \<longrightarrow> take k rs = rs \<and> (?base \<le> ?h \<longrightarrow> (\<forall>i. beyond (C - B) ?Q i \<longrightarrow> i < N))"
    by (rule array_loop [OF rep t(1) siz(1) b0]) (assumption, (rule that; assumption))
  define pre where "pre = map (block (B - C + 1)) (take k rs)"
  have b1: "holds room pre (B - C + 1) [] (b1\<lparr>num_blocks := 0\<rparr>)" "limit1 \<longleftrightarrow> descriptor (b1\<lparr>num_blocks := 0\<rparr>) = room"
    using holds_after [OF l1(4)] l1(5) by (simp_all add: pre_def)
  obtain limit2 b2 N2 rs2 k2 where l2:
    "(if \<not> limit1 \<and> SCTP_TSN_GT ?g (cumulative_tsn a)
      then gap_loop room (entry (nr_mapping_array a)) (siz_nr_sack ?g ?base) 0 (first_offset a) False (b1\<lparr>num_blocks := 0\<rparr>)
      else Some (limit1, b1\<lparr>num_blocks := 0\<rparr>)) = Some (limit2, b2)"
    "runs N2 (beyond (C - B) ?S) rs2" "N2 \<le> 8448" "holds room pre (B - C + 1) (take k2 rs2) b2" "limit2 \<longleftrightarrow> descriptor b2 = room"
    "\<not> limit2 \<longrightarrow> \<not> limit1 \<and> take k2 rs2 = rs2 \<and> (?base \<le> ?g \<longrightarrow> (\<forall>i. beyond (C - B) ?S i \<longrightarrow> i < N2))"
    by (rule second_loop [OF rep t(2) siz(2) b1]) (assumption, (rule that; assumption))
  define dups where "dups = (if \<not> limit2 then put_dups room (descriptor b2) (dup_tsns a) else [])"
  define s where "s = \<lparr>send_size = of_nat (20 + 4 * (length pre + length (take k2 rs2) + length dups)), cum_tsn_ack = cumulative_tsn a, a_rwnd = w, gap_ack_blks = pre, nr_gap_ack_blks = map (block (B - C + 1)) (take k2 rs2),
    duplicates = dups\<rparr>"
  define a' where "a' = a\<lparr>dup_tsns := (if \<not> limit2 then [] else dup_tsns a), send_sack := False\<rparr>"
  have "num_blocks b1 = length pre" using l1(4) by (simp add: holds_def pre_def)
  then have blocks: "take (num_blocks b1) (blocks b2) = pre" "take (num_blocks b2) (drop (num_blocks b1) (blocks b2)) = map (block (B - C + 1)) (take k2 rs2)"
      "num_blocks b1 = length pre" "num_blocks b2 = length (take k2 rs2)"
    using l2(4) by (auto simp: holds_def)
  have result: "build_sack True room w a = Some (s, a')"
    unfolding build_sack_def Let_def if_True l1(1) [unfolded b0_def] bind.simps prod.case simp_thms l2(1) by (simp add: blocks(1,2) s_def a'_def dups_def) (simp add: blocks(3,4))
  have "acked C (gap_ack_blks s) \<subseteq> R" "acked C (nr_gap_ack_blks s) \<subseteq> R"
    using acked_sound [OF rep(1,3) l1(2,3)] acked_sound [OF rep(1,3) l2(2,3)] by (simp_all add: s_def pre_def present_def)
  moreover have "acked C (gap_ack_blks s) \<union> acked C (nr_gap_ack_blks s) = {k \<in> R. C < k}"
    if "?base \<le> ?h" "?base \<le> ?g" "2 * card {k \<in> R. C < k} < room"
  proof -
    have "length rs \<le> card {k \<in> R. C < k}" "length rs2 \<le> card {k \<in> R. C < k}"
      using runs_few [OF rep(1,4) l1(2)] runs_few [OF rep(1,4) l2(2)] by (simp_all add: present_def)
    then have "descriptor b2 \<noteq> room" using l2(4) that(3) by (simp add: holds_def pre_def)
    then have full: "take k rs = rs" "\<And>i. beyond (C - B) ?Q i \<Longrightarrow> i < N" "take k2 rs2 = rs2" "\<And>i. beyond (C - B) ?S i \<Longrightarrow> i < N2"
      using l1(6) l2(5,6) that(1,2) by blast+
    have "acked C (gap_ack_blks s) \<union> acked C (nr_gap_ack_blks s) = (\<lambda>i. B + int i) ` ({i. beyond (C - B) ?Q i} \<union> {i. beyond (C - B) ?S i})"
      using acked_all [OF ok(3) rep(3) l1(2,3) full(2)] acked_all [OF ok(3) rep(3) l2(2,3) full(4)] full(1,3)
      by (simp add: s_def pre_def image_Un)
    also have "{i. beyond (C - B) ?Q i} \<union> {i. beyond (C - B) ?S i} = {i. beyond (C - B) (present a) i}" by (auto simp: beyond_def present_def)
    finally show ?thesis using beyond_numbers [OF rep(1,4)] by simp
  qed
  moreover have "cum_tsn_ack s = isn + of_int (C - 1)" using rep(1) by (simp add: s_def rep_def)
  moreover have "mapping_array_base_tsn a' = ?base" "highest_tsn_inside_map a' = ?h" "highest_tsn_inside_nr_map a' = ?g" by (simp_all add: a'_def)
  ultimately show ?thesis by (intro that [OF result]) simp_all
qed

lemma slid:
  assumes "tsn_history isn h a (Some (C0, R))" "lag a \<le> 536870912"
  obtains a1 B C where "sctp_slide_mapping_arrays a = Some a1" "rep isn B C R a1" "recent a1" "C < B + 8" "C \<notin> R" "{..<C} \<subseteq> R"
proof -
  obtain B0 where "rep isn B0 C0 R a" using tsn.related [OF assms(1) tsn_relI [OF tsn_init_rep]] by (auto simp: tsn_rel_def)
  moreover have "recent a" using assms(2) by (simp add: recent_lag)
  ultimately obtain a1 B C where a1: "sctp_slide_mapping_arrays a = Some a1" "rep isn B C R a1" "C \<notin> R" "C < B + 8" "lag a1 \<le> lag a + 8448"
    by (rule sctp_slide_mapping_arrays_ok)
  then show ?thesis using assms(2) by (intro that [of a1 B C]) (auto simp: recent_lag rep_def)
qed

text \<open>When the TSNs in the arrays wrap around, so that the highest TSN is numerically below the base, a SACK has no gap blocks
  at all, although TSNs above the cumulative one may have been received: \<^verbatim>\<open>siz\<close> is computed from \<^verbatim>\<open>highest_tsn\<close> alone and is 0.\<close>

lemma sack_wrap_silent:
  assumes "sctp_send_sack False room w a = Some (s, a')" "highest_in_maps a' < mapping_array_base_tsn a'"
  shows "gap_ack_blks s = []"
proof -
  obtain a1 where "build_sack False room w a1 = Some (s, a')" using assms(1) by (auto simp: sctp_send_sack_def bind_eq_Some_conv)
  moreover from this have "highest_in_maps a1 = highest_in_maps a'" "mapping_array_base_tsn a1 = mapping_array_base_tsn a'"
    by (auto simp: build_sack_def Let_def bind_eq_Some_conv highest_in_maps_def split: if_splits)
  moreover from this have "siz_sack (highest_in_maps a1) (mapping_array_base_tsn a1) = 0"
    using assms(2) by (auto simp: siz_sack_def MAX_TSN_def)
  ultimately show ?thesis by (auto simp: build_sack_def Let_def bind_eq_Some_conv split: if_splits)
qed

lemma sack_wrap_example:
  "\<exists>s a'. sctp_send_sack False 10 9000 (example_map 0xfffffffe True) = Some (s, a') \<and> gap_ack_blks s = [] \<and>
     SCTP_TSN_GT (highest_in_maps a') (cum_tsn_ack s) \<and> SCTP_IS_TSN_PRESENT (nr_mapping_array a') 2 = Some True"
proof -
  have "case sctp_send_sack False 10 9000 (example_map 0xfffffffe True) of None \<Rightarrow> False
      | Some (s, a') \<Rightarrow> highest_in_maps a' < mapping_array_base_tsn a' \<and> SCTP_TSN_GT (highest_in_maps a') (cum_tsn_ack s) \<and>
          SCTP_IS_TSN_PRESENT (nr_mapping_array a') 2 = Some True" by code_simp
  then show ?thesis using sack_wrap_silent [of 10 9000 "example_map 0xfffffffe True"] by (auto split: option.splits)
qed

text \<open>C25. From any state that a history of legal events leads to, \<^verbatim>\<open>sctp_send_sack\<close> builds a SACK without an access outside the
  arrays or the chunk. Its cumulative TSN is the last one before the first that is missing, its length is that of its header, blocks and
  duplicates, and its gap blocks acknowledge only TSNs that were received. If the received TSNs above it form fewer runs than there is room for, and the
  highest TSN is not numerically below the base of the arrays, the blocks acknowledge exactly the TSNs received above it.
  If it is, because the TSNs wrapped around, there are no blocks at all.\<close>

theorem sack_reports:
  assumes "tsn_history isn h a (Some (C0, R))" "lag a \<le> 536870912" "0 < room"
  shows "\<exists>s a' C. sctp_send_sack False room w a = Some (s, a') \<and> C \<notin> R \<and> {..<C} \<subseteq> R \<and> cum_tsn_ack s = isn + of_int (C - 1) \<and>
    a_rwnd s = w \<and> send_size s = of_nat (16 + 4 * (length (gap_ack_blks s) + length (duplicates s))) \<and> acked C (gap_ack_blks s) \<subseteq> R \<and>
    (mapping_array_base_tsn a' \<le> highest_in_maps a' \<and> card {k \<in> R. C < k \<and> k - 1 \<notin> R} < room \<longrightarrow>
     acked C (gap_ack_blks s) = {k \<in> R. C < k}) \<and>
    (highest_in_maps a' < mapping_array_base_tsn a' \<longrightarrow> gap_ack_blks s = [])"
proof -
  obtain a1 B C where a1: "sctp_slide_mapping_arrays a = Some a1" "rep isn B C R a1" "recent a1" "C < B + 8" "C \<notin> R" "{..<C} \<subseteq> R"
    by (rule slid [OF assms(1,2)])
  obtain s a' where "build_sack False room w a1 = Some (s, a')" "cum_tsn_ack s = isn + of_int (C - 1)" "a_rwnd s = w"
    "send_size s = of_nat (16 + 4 * (length (gap_ack_blks s) + length (duplicates s)))" "acked C (gap_ack_blks s) \<subseteq> R"
      "mapping_array_base_tsn a1 \<le> highest_in_maps a1 \<Longrightarrow> card {k \<in> R. C < k \<and> k - 1 \<notin> R} < room \<Longrightarrow> acked C (gap_ack_blks s) = {k \<in> R. C < k}"
      "mapping_array_base_tsn a' = mapping_array_base_tsn a1" "highest_in_maps a' = highest_in_maps a1"
    by (rule build_sack_ok [OF a1(2-5) assms(3)]) (rule that; assumption)
  moreover from this(1) have result: "sctp_send_sack False room w a = Some (s, a')" using a1(1) by (simp add: sctp_send_sack_def)
  ultimately show ?thesis
    using a1(5,6) sack_wrap_silent [OF result] by (intro exI [of _ s] exI [of _ a'] exI [of _ C]) simp
qed

theorem sack_reports_witness:
  "(\<exists>s a' C. sctp_send_sack False 10 9000 (example_map 1000 True) = Some (s, a') \<and> C \<notin> insert 2 (insert 0 {..<0}) \<and> {..<C} \<subseteq> insert 2 (insert 0 {..<0}) \<and>
      cum_tsn_ack s = 1000 + of_int (C - 1) \<and>
      a_rwnd s = 9000 \<and> send_size s = of_nat (16 + 4 * (length (gap_ack_blks s) + length (duplicates s))) \<and> acked C (gap_ack_blks s) \<subseteq> insert 2 (insert 0 {..<0}) \<and>
      (mapping_array_base_tsn a' \<le> highest_in_maps a' \<and> card {k \<in> insert 2 (insert 0 {..<0}). C < k \<and> k - 1 \<notin> insert 2 (insert 0 {..<0})} < 10 \<longrightarrow>
       acked C (gap_ack_blks s) = {k \<in> insert 2 (insert 0 {..<0}). C < k}) \<and>
      (highest_in_maps a' < mapping_array_base_tsn a' \<longrightarrow> gap_ack_blks s = [])) \<and>
   map_option (gap_ack_blks \<circ> fst) (sctp_send_sack False 10 9000 (example_map 1000 True)) = Some [(2, 2)]"
proof
  have "lag (example_map 1000 True) \<le> 536870912" using example_checks(1) by (simp add: example_ok_def)
  from sack_reports [OF example_history [OF example_checks(1)] this, of 10 9000] show
    "\<exists>s a' C. sctp_send_sack False 10 9000 (example_map 1000 True) = Some (s, a') \<and> C \<notin> insert 2 (insert 0 {..<0}) \<and> {..<C} \<subseteq> insert 2 (insert 0 {..<0}) \<and>
      cum_tsn_ack s = 1000 + of_int (C - 1) \<and>
      a_rwnd s = 9000 \<and> send_size s = of_nat (16 + 4 * (length (gap_ack_blks s) + length (duplicates s))) \<and> acked C (gap_ack_blks s) \<subseteq> insert 2 (insert 0 {..<0}) \<and>
      (mapping_array_base_tsn a' \<le> highest_in_maps a' \<and> card {k \<in> insert 2 (insert 0 {..<0}). C < k \<and> k - 1 \<notin> insert 2 (insert 0 {..<0})} < 10 \<longrightarrow>
       acked C (gap_ack_blks s) = {k \<in> insert 2 (insert 0 {..<0}). C < k}) \<and>
      (highest_in_maps a' < mapping_array_base_tsn a' \<longrightarrow> gap_ack_blks s = [])" by simp
  show "map_option (gap_ack_blks \<circ> fst) (sctp_send_sack False 10 9000 (example_map 1000 True)) = Some [(2, 2)]" by code_simp
qed

text \<open>An NR-SACK counts one TSN too few in this case: the TSN eight above the base, alone in its byte, is not reported.\<close>

lemma nr_sack_wrap_short:
  "map_option (nr_gap_ack_blks \<circ> fst) (sctp_send_sack True 10 9000 ((tsn_init 0xfffffff8)\<lparr>highest_tsn_inside_nr_map := 0, nr_mapping_array := 0 # 1 # replicate 14 0\<rparr>))
     = Some []"
  by code_simp

text \<open>The same for an NR-SACK, whose two kinds of blocks together acknowledge what was received.\<close>

theorem nr_sack_reports:
  assumes "tsn_history isn h a (Some (C0, R))" "lag a \<le> 536870912" "0 < room"
  shows "\<exists>s a' C. sctp_send_sack True room w a = Some (s, a') \<and> C \<notin> R \<and> {..<C} \<subseteq> R \<and> cum_tsn_ack s = isn + of_int (C - 1) \<and>
    acked C (gap_ack_blks s) \<union> acked C (nr_gap_ack_blks s) \<subseteq> R \<and>
    (mapping_array_base_tsn a' \<le> highest_tsn_inside_map a' \<and> mapping_array_base_tsn a' \<le> highest_tsn_inside_nr_map a' \<and>
     2 * card {k \<in> R. C < k} < room \<longrightarrow> acked C (gap_ack_blks s) \<union> acked C (nr_gap_ack_blks s) = {k \<in> R. C < k})"
proof -
  obtain a1 B C where a1: "sctp_slide_mapping_arrays a = Some a1" "rep isn B C R a1" "recent a1" "C < B + 8" "C \<notin> R" "{..<C} \<subseteq> R"
    by (rule slid [OF assms(1,2)])
  obtain s a' where "build_sack True room w a1 = Some (s, a')" "cum_tsn_ack s = isn + of_int (C - 1)"
      "acked C (gap_ack_blks s) \<union> acked C (nr_gap_ack_blks s) \<subseteq> R"
      "mapping_array_base_tsn a1 \<le> highest_tsn_inside_map a1 \<Longrightarrow> mapping_array_base_tsn a1 \<le> highest_tsn_inside_nr_map a1 \<Longrightarrow>
       2 * card {k \<in> R. C < k} < room \<Longrightarrow> acked C (gap_ack_blks s) \<union> acked C (nr_gap_ack_blks s) = {k \<in> R. C < k}"
      "mapping_array_base_tsn a' = mapping_array_base_tsn a1" "highest_tsn_inside_map a' = highest_tsn_inside_map a1"
      "highest_tsn_inside_nr_map a' = highest_tsn_inside_nr_map a1"
    by (rule build_nr_sack_ok [OF a1(2-5) assms(3)]) (rule that; assumption)
  then show ?thesis using a1(1,5,6) by (intro exI [of _ s] exI [of _ a'] exI [of _ C]) (simp add: sctp_send_sack_def)
qed

end
