(* ===== verification/Cc.thy ===== *)
theory Cc
  imports Prelude
begin

text \<open>
  Congestion control (\<^verbatim>\<open>sctp_cc_functions.c\<close>), part one: the window of a destination, the default
  module (RFC 4960) and the RTT-based module RTCC, which share their main routines. The high-speed modules are in
  the theories \<open>Cc_Hs\<close> and \<open>Cc_Htcp\<close>, the dispatch table in \<open>Cc_Table\<close>.

  A destination is a \<open>cc_net\<close>, the fields of \<^verbatim>\<open>struct sctp_nets\<close> that the file uses; \<open>cc_asoc\<close> likewise stands
  for \<^verbatim>\<open>struct sctp_association\<close>. The union \<^verbatim>\<open>cc_mod\<close> is two fields: a module uses only its own member and sets it
  when it is selected. An integer division is \<open>cdiv\<close>, whose result \<open>None\<close> for a zero divisor is the trap
  of the processor. Every integer has its C width. Calls of the timer routines of \<^verbatim>\<open>sctputil.c\<close> are recorded in order in the field
  \<open>timer_calls\<close>; a destination is named by its position in the list of destinations.
\<close>

section \<open>Data\<close>

definition cdiv :: "'a::len word \<Rightarrow> 'a word \<Rightarrow> 'a word option" where
  "cdiv a b = (if b = 0 then None else Some (a div b))"

record htcp =
  alpha :: u16
  beta :: u8
  modeswitch :: u8
  last_cong :: u32
  undo_last_cong :: u32
  bytes_acked :: u16
  bytecount :: u32
  minRTT :: u32
  maxRTT :: u32
  undo_maxRTT :: u32
  undo_old_maxB :: u32
  minB :: u32
  maxB :: u32
  old_maxB :: u32
  Bi :: u32
  lasttime :: u32

record rtcc_cc =
  tls :: "int \<times> int"
  lbw :: u64
  lbw_rtt :: u64
  bw_bytes :: u64
  bw_tot_time :: u64
  new_tot_time :: u64
  bw_bytes_at_last_rttc :: u64
  cwnd_at_bw_set :: u32
  vol_reduce :: u32
  steady_step :: u16
  step_cnt :: u16
  ret_from_eq :: u8
  use_dccc_ecn :: u8
  tls_needs_set :: u8
  last_step_state :: u8
  rtt_set_this_sack :: bool
  last_inst_ind :: u8

record cc_net =
  mtu :: u32
  ssthresh :: u32
  lastsa :: u32
  rtt :: u64
  RTO :: u32
  htcp_ca :: htcp
  rtcc :: rtcc_cc
  flight_size :: u32
  cwnd :: u32
  prev_cwnd :: u32
  ecn_prev_cwnd :: u32
  partial_bytes_acked :: u32
  net_ack :: u32
  fast_recovery_tsn :: u32
  fast_retran_loss_recovery :: bool
  fast_retran_ip :: u8
  new_pseudo_cumack :: bool
  last_hs_used :: u8
  lan_type :: u8

datatype timer_call = Timer_stop_send nat | Timer_start_send nat

record cc_asoc =
  nets :: "cc_net list"
  send_queue :: "u32 list"
  sending_seq :: u32
  asoc_recovery_tsn :: u32
  asoc_loss_recovery :: bool
  peers_rwnd :: u32
  numnets :: u32
  max_burst :: u32
  max_cwnd :: u32
  sctp_cmt_on_off :: u8
  seen_a_sack_this_pkt :: bool
  use_precise_time :: bool
  timer_calls :: "timer_call list"
  sctps_fastretransinrtt :: u32
  sctps_ecnereducedcwnd :: u32

record cc_sysctl =
  sctp_initial_cwnd :: u32
  sctp_L2_abc_variable :: u32
  sctp_rttvar_bw :: u32
  sctp_rttvar_rtt :: u32
  sctp_rttvar_eqret :: u32
  sctp_steady_step :: u32
  sctp_use_dccc_ecn :: u32

definition SCTP_CMT_RPV1 :: u8 where "SCTP_CMT_RPV1 = 2"
definition SCTP_CMT_RPV2 :: u8 where "SCTP_CMT_RPV2 = 3"
definition SCTP_CMT_MPTCP :: u8 where "SCTP_CMT_MPTCP = 4"
definition SCTP_INITIAL_CWND :: u32 where "SCTP_INITIAL_CWND = 4380"
definition SCTP_LAN_LOCAL :: u8 where "SCTP_LAN_LOCAL = 1"
definition SCTP_INST_LOOSING :: u8 where "SCTP_INST_LOOSING = 1"
definition SCTP_INST_NEUTRAL :: u8 where "SCTP_INST_NEUTRAL = 2"
definition SCTP_INST_GAINING :: u8 where "SCTP_INST_GAINING = 3"

lemmas cc_consts = SCTP_CMT_RPV1_def SCTP_CMT_RPV2_def SCTP_CMT_MPTCP_def SCTP_INITIAL_CWND_def
  SCTP_LAN_LOCAL_def SCTP_INST_LOOSING_def SCTP_INST_NEUTRAL_def SCTP_INST_GAINING_def

section \<open>The window limit and the initial window\<close>

text \<open>The expression \<^verbatim>\<open>net->mtu - sizeof(struct sctphdr)\<close> has the type \<^verbatim>\<open>size_t\<close>.\<close>

definition mtu_room :: "cc_net \<Rightarrow> u64" where
  "mtu_room n = ucast (mtu n) - 12"

definition sctp_enforce_cwnd_limit :: "cc_asoc \<Rightarrow> cc_net \<Rightarrow> cc_net" where
  "sctp_enforce_cwnd_limit a n =
     (if 0 < max_cwnd a \<and> max_cwnd a < cwnd n \<and> mtu_room n < ucast (cwnd n)
      then let n1 = n\<lparr>cwnd := max_cwnd a\<rparr>
           in if ucast (cwnd n1) < mtu_room n1 then n1\<lparr>cwnd := ucast (mtu_room n1)\<rparr> else n1
      else n)"

definition initial_cwnd :: "cc_sysctl \<Rightarrow> cc_asoc \<Rightarrow> cc_net \<Rightarrow> u32" where
  "initial_cwnd sc a n =
     (let cwnd_in_mtu = sctp_initial_cwnd sc
      in if cwnd_in_mtu = 0 then min (mtu n * 4) (max (2 * mtu n) SCTP_INITIAL_CWND)
         else let c = (if 0 < max_burst a \<and> max_burst a < cwnd_in_mtu then max_burst a else cwnd_in_mtu)
              in ucast (mtu_room n * ucast c))"

definition sctp_set_initial_cc_param :: "cc_sysctl \<Rightarrow> cc_asoc \<Rightarrow> cc_net \<Rightarrow> cc_net option" where
  "sctp_set_initial_cc_param sc a n = do {
     let n = n\<lparr>cwnd := initial_cwnd sc a n\<rparr>;
     n \<leftarrow> (if sctp_cmt_on_off a = SCTP_CMT_RPV1 \<or> sctp_cmt_on_off a = SCTP_CMT_RPV2
           then do {
             c \<leftarrow> cdiv (cwnd n) (numnets a);
             let n = n\<lparr>cwnd := c\<rparr>;
             Some (if ucast (cwnd n) < mtu_room n then n\<lparr>cwnd := ucast (mtu_room n)\<rparr> else n)
           } else Some n);
     let n = sctp_enforce_cwnd_limit a n;
     Some (n\<lparr>ssthresh := peers_rwnd a\<rparr>)
   }"

section \<open>Fast retransmit\<close>

text \<open>The sums over all destinations that the resource pooling variants (CMT/RPv1, CMT/RPv2) use.\<close>

fun fr_totals :: "cc_net list \<Rightarrow> u32 \<times> u32 \<times> u64 \<Rightarrow> u32 \<times> u32 \<times> u64" where
  "fr_totals [] t = t"
| "fr_totals (n # ns) (t_ssthresh, t_cwnd, t_ucwnd_sbw) =
     fr_totals ns (t_ssthresh + ssthresh n, t_cwnd + cwnd n,
       if 0 <s lastsa n then t_ucwnd_sbw + ucast (cwnd n) div scast (lastsa n) else t_ucwnd_sbw)"

definition fr_sums :: "cc_asoc \<Rightarrow> u32 \<times> u32 \<times> u64" where
  "fr_sums a =
     (if sctp_cmt_on_off a = SCTP_CMT_RPV1 \<or> sctp_cmt_on_off a = SCTP_CMT_RPV2
      then case fr_totals (nets a) (0, 0, 0) of (t_ssthresh, t_cwnd, t_ucwnd_sbw) \<Rightarrow>
             (t_ssthresh, t_cwnd, if t_ucwnd_sbw = 0 then 1 else t_ucwnd_sbw)
      else (0, 0, 0))"

text \<open>The two lines that the fast retransmit and the timeout share: a destination with more than half of the total window
keeps at least the excess, and at least one MTU.\<close>

definition raise_ssthresh :: "u32 \<Rightarrow> cc_net \<Rightarrow> cc_net" where
  "raise_ssthresh t_cwnd n =
     (let n = (if t_cwnd div 2 < cwnd n \<and> ssthresh n < cwnd n - t_cwnd div 2
               then n\<lparr>ssthresh := cwnd n - t_cwnd div 2\<rparr> else n)
      in if ssthresh n < mtu n then n\<lparr>ssthresh := mtu n\<rparr> else n)"

definition srtt_of :: "cc_net \<Rightarrow> u32" where
  "srtt_of n = (if lastsa n = 0 then 1 else lastsa n)"

definition fr_cut :: "u32 \<times> u32 \<times> u64 \<Rightarrow> cc_asoc \<Rightarrow> cc_net \<Rightarrow> cc_net option" where
  "fr_cut t a n = (case t of (t_ssthresh, t_cwnd, t_ucwnd_sbw) \<Rightarrow> do {
     n \<leftarrow> (if sctp_cmt_on_off a = SCTP_CMT_RPV1 \<or> sctp_cmt_on_off a = SCTP_CMT_RPV2
           then do {
             n \<leftarrow> (if sctp_cmt_on_off a = SCTP_CMT_RPV1
                   then do {
                     q \<leftarrow> cdiv (4 * ucast (mtu n) * ucast (ssthresh n) :: u64) (ucast t_ssthresh);
                     Some (n\<lparr>ssthresh := ucast q\<rparr>)
                   } else Some n);
             n \<leftarrow> (if sctp_cmt_on_off a = SCTP_CMT_RPV2
                   then do {
                     q \<leftarrow> cdiv (4 * ucast (mtu n) * ucast (cwnd n) :: u64) (ucast (srtt_of n) * t_ucwnd_sbw);
                     Some (n\<lparr>ssthresh := ucast q\<rparr>)
                   } else Some n);
             Some (raise_ssthresh t_cwnd n)
           } else
             let n = n\<lparr>ssthresh := cwnd n div 2\<rparr>
             in Some (if ssthresh n < mtu n * 2 then n\<lparr>ssthresh := 2 * mtu n\<rparr> else n));
     let n = n\<lparr>cwnd := ssthresh n\<rparr>;
     Some (sctp_enforce_cwnd_limit a n)
   })"

text \<open>What all three fast retransmit routines do after the cut: open the recovery window and restart the timer.\<close>

definition recovery_end :: "cc_asoc \<Rightarrow> u32" where
  "recovery_end a = (case first_of (send_queue a) of None \<Rightarrow> sending_seq a - 1 | Some tsn \<Rightarrow> tsn - 1)"

definition enter_recovery_net :: "cc_asoc \<Rightarrow> cc_net \<Rightarrow> cc_net" where
  "enter_recovery_net a n = n\<lparr>partial_bytes_acked := 0, fast_retran_loss_recovery := True,
     fast_recovery_tsn := recovery_end a\<rparr>"

definition enter_recovery :: "nat \<Rightarrow> cc_asoc \<Rightarrow> cc_asoc" where
  "enter_recovery i a = a\<lparr>asoc_loss_recovery := True, asoc_recovery_tsn := recovery_end a,
     timer_calls := timer_calls a @ [Timer_stop_send i, Timer_start_send i]\<rparr>"

text \<open>The loop over the destinations, with the routine that cuts the window as an argument: the three modules have a copy each.\<close>

fun fr_loop :: "(cc_asoc \<Rightarrow> cc_net \<Rightarrow> cc_net option) \<Rightarrow> nat \<Rightarrow> cc_asoc \<Rightarrow> cc_net list
    \<Rightarrow> (cc_asoc \<times> cc_net list) option" where
  "fr_loop red i a [] = Some (a, [])"
| "fr_loop red i a (n # ns) =
     (if \<not> asoc_loss_recovery a \<or> 0 < sctp_cmt_on_off a
      then if 0 < net_ack n
           then do {
             m \<leftarrow> red a n;
             (a', ns') \<leftarrow> fr_loop red (Suc i) (enter_recovery i a) ns;
             Some (a', enter_recovery_net a m # ns')
           }
           else do { (a', ns') \<leftarrow> fr_loop red (Suc i) a ns; Some (a', n # ns') }
      else do {
        (a', ns') \<leftarrow> fr_loop red (Suc i)
           (if 0 < net_ack n then a\<lparr>sctps_fastretransinrtt := sctps_fastretransinrtt a + 1\<rparr> else a) ns;
        Some (a', n # ns')
      })"

definition run_fr :: "(cc_asoc \<Rightarrow> cc_net \<Rightarrow> cc_net option) \<Rightarrow> cc_asoc \<Rightarrow> cc_asoc option" where
  "run_fr red a = do { (a', ns) \<leftarrow> fr_loop red 0 a (nets a); Some (a'\<lparr>nets := ns\<rparr>) }"

definition sctp_cwnd_update_after_fr :: "cc_asoc \<Rightarrow> cc_asoc option" where
  "sctp_cwnd_update_after_fr a = run_fr (fr_cut (fr_sums a)) a"

end
