(* ===== verification/Cc_Rtcc.thy ===== *)
theory Cc_Rtcc
  imports Cc
begin

text \<open>
  The RTT-based module RTCC of \<^verbatim>\<open>sctp_cc_functions.c\<close>: the decision \<open>cc_bw_limit\<close> whether the window may
  grow, from the change of bandwidth and round trip time since the last estimate, and the hooks that collect the
  measurements. The decision is an \<open>int\<close> as in the code: not zero means that the window must not grow.
  The clock is an argument, seconds and microseconds.
\<close>

text \<open>Both branches of \<^verbatim>\<open>cc_bw_same\<close> count the rounds in which nothing improved, and after every
\<^verbatim>\<open>steady_step\<close> of them give up one MTU. The second component tells whether this happened.\<close>

definition try_step_down :: "cc_net \<Rightarrow> u8 \<Rightarrow> cc_net \<times> bool" where
  "try_step_down n inst_ind =
     (if steady_step (rtcc n) \<noteq> 0 \<and> inst_ind \<noteq> SCTP_INST_LOOSING
      then let n = (if last_step_state (rtcc n) = 5
                    then n\<lparr>rtcc := (rtcc n)\<lparr>step_cnt := step_cnt (rtcc n) + 1\<rparr>\<rparr>
                    else n\<lparr>rtcc := (rtcc n)\<lparr>step_cnt := 1\<rparr>\<rparr>);
               n = n\<lparr>rtcc := (rtcc n)\<lparr>last_step_state := 5\<rparr>\<rparr>
           in if step_cnt (rtcc n) = steady_step (rtcc n) \<or>
                 (steady_step (rtcc n) < step_cnt (rtcc n) \<and> step_cnt (rtcc n) mod steady_step (rtcc n) = 0)
              then if 4 * mtu n < cwnd n
                   then (n\<lparr>cwnd := cwnd n - mtu n, rtcc := (rtcc n)\<lparr>vol_reduce := vol_reduce (rtcc n) + 1\<rparr>\<rparr>, True)
                   else (n\<lparr>rtcc := (rtcc n)\<lparr>step_cnt := 0\<rparr>\<rparr>, False)
              else (n, False)
      else (n, False))"

text \<open>The estimate that is locked in: bandwidth, round trip time and window.\<close>

definition set_bw :: "u64 \<Rightarrow> cc_net \<Rightarrow> cc_net" where
  "set_bw nbw n = n\<lparr>rtcc := (rtcc n)\<lparr>lbw := nbw, lbw_rtt := rtt n, cwnd_at_bw_set := cwnd n\<rparr>\<rparr>"

definition cc_bw_same :: "cc_net \<Rightarrow> u64 \<Rightarrow> u64 \<Rightarrow> u8 \<Rightarrow> cc_net \<times> int" where
  "cc_bw_same n nbw rtt_offset inst_ind =
     (if lbw_rtt (rtcc n) + rtt_offset < rtt n then (fst (try_step_down n inst_ind), 1)
      else if rtt n < lbw_rtt (rtcc n) - rtt_offset
      then if steady_step (rtcc n) \<noteq> 0 \<and> last_step_state (rtcc n) = 5 \<and> steady_step (rtcc n) < step_cnt (rtcc n)
           then (n\<lparr>rtcc := (rtcc n)\<lparr>step_cnt := 0\<rparr>\<rparr>, 1)
           else let n = (if steady_step (rtcc n) \<noteq> 0
                         then n\<lparr>rtcc := (rtcc n)\<lparr>last_step_state := 6, step_cnt := 0\<rparr>\<rparr> else n);
                    n = set_bw nbw n
                in (n, if inst_ind = SCTP_INST_GAINING then 1 else if inst_ind = SCTP_INST_NEUTRAL then 1 else 0)
      else case try_step_down n inst_ind of (n, stepped) \<Rightarrow>
             if stepped then (n, 1)
             else (n, if inst_ind = SCTP_INST_GAINING then 1 else if inst_ind = SCTP_INST_NEUTRAL then 1
                      else uint (ret_from_eq (rtcc n))))"

text \<open>The three branches of \<^verbatim>\<open>cc_bw_decrease\<close> that do not stop growth take back one MTU that was given up, and note their
number.\<close>

definition take_back :: "cc_asoc \<Rightarrow> cc_net \<Rightarrow> u8 \<Rightarrow> u8 \<Rightarrow> cc_net" where
  "take_back a n inst_ind state =
     (if steady_step (rtcc n) \<noteq> 0
      then let n = (if vol_reduce (rtcc n) \<noteq> 0 \<and> inst_ind \<noteq> SCTP_INST_GAINING
                    then let n = sctp_enforce_cwnd_limit a (n\<lparr>cwnd := cwnd n + mtu n\<rparr>)
                         in n\<lparr>rtcc := (rtcc n)\<lparr>vol_reduce := vol_reduce (rtcc n) - 1\<rparr>\<rparr>
                    else n)
           in n\<lparr>rtcc := (rtcc n)\<lparr>last_step_state := state, step_cnt := 0\<rparr>\<rparr>
      else n)"

definition cc_bw_decrease :: "cc_asoc \<Rightarrow> cc_net \<Rightarrow> u64 \<Rightarrow> u64 \<Rightarrow> u8 \<Rightarrow> cc_net \<times> int" where
  "cc_bw_decrease a n nbw rtt_offset inst_ind =
     (let out_decision = (\<lambda>n. (set_bw nbw n, if inst_ind = SCTP_INST_GAINING then 1 else 0))
      in if lbw_rtt (rtcc n) + rtt_offset < rtt n
         then if cwnd_at_bw_set (rtcc n) < cwnd n \<and> inst_ind \<noteq> SCTP_INST_LOOSING
              then (if ret_from_eq (rtcc n) \<noteq> 0
                    then n\<lparr>ssthresh := cwnd n - 1, partial_bytes_acked := 0\<rparr> else n, 1)
              else out_decision (take_back a n inst_ind 2)
         else if rtt n < lbw_rtt (rtcc n) - rtt_offset then out_decision (take_back a n inst_ind 3)
         else out_decision (take_back a n inst_ind 4))"

definition cc_bw_increase :: "cc_net \<Rightarrow> u64 \<Rightarrow> cc_net \<times> int" where
  "cc_bw_increase n nbw =
     (let n = (if steady_step (rtcc n) \<noteq> 0
               then n\<lparr>rtcc := (rtcc n)\<lparr>last_step_state := 0, step_cnt := 0, vol_reduce := 0\<rparr>\<rparr> else n)
      in (set_bw nbw n, 0))"

text \<open>The indication of the last round trip alone: gaining, neutral or losing.\<close>

definition instant_bw :: "cc_sysctl \<Rightarrow> cc_net \<Rightarrow> u64 \<Rightarrow> cc_net \<times> u8" where
  "instant_bw sc n nbw =
     (if rtt_set_this_sack (rtcc n)
      then let bytes_for_this_rtt = bw_bytes (rtcc n) - bw_bytes_at_last_rttc (rtcc n);
               n = n\<lparr>rtcc := (rtcc n)\<lparr>rtt_set_this_sack := False, bw_bytes_at_last_rttc := bw_bytes (rtcc n)\<rparr>\<rparr>
           in if rtt n div 1000 \<noteq> 0
              then let inst_bw = bytes_for_this_rtt div (rtt n div 1000);
                       inst_off = drop_bit (unat (sctp_rttvar_bw sc)) inst_bw
                   in (n, if nbw < inst_bw then SCTP_INST_GAINING
                          else if inst_bw + inst_off < nbw then SCTP_INST_LOOSING
                          else SCTP_INST_NEUTRAL)
              else (n, last_inst_ind (rtcc n))
      else (n, last_inst_ind (rtcc n)))"

text \<open>The shift counts are system settings, which are at most 32.\<close>

definition cc_bw_limit :: "cc_sysctl \<Rightarrow> cc_asoc \<Rightarrow> cc_net \<Rightarrow> u64 \<Rightarrow> cc_net \<times> int" where
  "cc_bw_limit sc a n nbw =
     (case instant_bw sc n nbw of (n, inst_ind) \<Rightarrow>
        let bw_offset = drop_bit (unat (sctp_rttvar_bw sc)) (lbw (rtcc n));
            rtt_offset = drop_bit (unat (sctp_rttvar_rtt sc)) (lbw_rtt (rtcc n));
            (n, ret) = (if lbw (rtcc n) + bw_offset < nbw then cc_bw_increase n nbw
                        else if nbw < lbw (rtcc n) - bw_offset then cc_bw_decrease a n nbw rtt_offset inst_ind
                        else cc_bw_same n nbw rtt_offset inst_ind)
        in (n\<lparr>rtcc := (rtcc n)\<lparr>last_inst_ind := inst_ind\<rparr>\<rparr>, ret))"

section \<open>Hooks that collect measurements\<close>

definition sctp_cwnd_update_rtcc_tsn_acknowledged :: "u16 \<Rightarrow> cc_net \<Rightarrow> cc_net" where
  "sctp_cwnd_update_rtcc_tsn_acknowledged send_size n =
     n\<lparr>rtcc := (rtcc n)\<lparr>bw_bytes := bw_bytes (rtcc n) + ucast send_size\<rparr>\<rparr>"

fun timevalsub :: "int \<times> int \<Rightarrow> int \<times> int \<Rightarrow> int \<times> int" where
  "timevalsub (s1, u1) (s2, u2) =
     (if u1 - u2 < 0 then (s1 - s2 - 1, u1 - u2 + 1000000) else (s1 - s2, u1 - u2))"

definition sctp_cwnd_prepare_rtcc_net_for_sack :: "int \<times> int \<Rightarrow> cc_net \<Rightarrow> cc_net" where
  "sctp_cwnd_prepare_rtcc_net_for_sack now n =
     (if 0 < tls_needs_set (rtcc n)
      then case timevalsub now (tls (rtcc n)) of (sec, usec) \<Rightarrow>
             n\<lparr>rtcc := (rtcc n)\<lparr>new_tot_time := word_of_int (sec * 1000000 + usec)\<rparr>\<rparr>
      else n)"

definition sctp_cwnd_new_rtcc_transmission_begins :: "cc_sysctl \<Rightarrow> cc_asoc \<Rightarrow> cc_net \<Rightarrow> cc_net" where
  "sctp_cwnd_new_rtcc_transmission_begins sc a n =
     (if lbw (rtcc n) \<noteq> 0
      then let n = n\<lparr>rtcc := (rtcc n)\<lparr>lbw_rtt := 0, cwnd_at_bw_set := 0, lbw := 0, bw_bytes_at_last_rttc := 0,
                       vol_reduce := 0, bw_tot_time := 0, bw_bytes := 0, tls_needs_set := 0\<rparr>\<rparr>;
               n = (if steady_step (rtcc n) \<noteq> 0
                    then n\<lparr>rtcc := (rtcc n)\<lparr>vol_reduce := 0, step_cnt := 0, last_step_state := 0\<rparr>\<rparr> else n)
           in if ret_from_eq (rtcc n) \<noteq> 0
              then let c = initial_cwnd sc a n in if c < cwnd n then n\<lparr>cwnd := c\<rparr> else n
              else n
      else n)"

definition sctp_set_rtcc_initial_cc_param :: "cc_sysctl \<Rightarrow> cc_asoc \<Rightarrow> cc_net \<Rightarrow> (cc_asoc \<times> cc_net) option" where
  "sctp_set_rtcc_initial_cc_param sc a n = do {
     n \<leftarrow> sctp_set_initial_cc_param sc a n;
     Some (a\<lparr>use_precise_time := True\<rparr>,
       n\<lparr>rtcc := (rtcc n)\<lparr>lbw_rtt := 0, cwnd_at_bw_set := 0, vol_reduce := 0, lbw := 0,
         bw_bytes_at_last_rttc := 0, bw_tot_time := 0, bw_bytes := 0, tls_needs_set := 0,
         ret_from_eq := ucast (sctp_rttvar_eqret sc), steady_step := ucast (sctp_steady_step sc),
         use_dccc_ecn := ucast (sctp_use_dccc_ecn sc), step_cnt := 0, last_step_state := 0\<rparr>\<rparr>)
   }"

definition sctp_cwnd_update_rtcc_packet_transmitted :: "int \<times> int \<Rightarrow> cc_net \<Rightarrow> cc_net" where
  "sctp_cwnd_update_rtcc_packet_transmitted now n =
     (if tls_needs_set (rtcc n) = 0 then n\<lparr>rtcc := (rtcc n)\<lparr>tls := now, tls_needs_set := 2\<rparr>\<rparr> else n)"

definition sctp_rtt_rtcc_calculated :: "cc_net \<Rightarrow> cc_net" where
  "sctp_rtt_rtcc_calculated n = n\<lparr>rtcc := (rtcc n)\<lparr>rtt_set_this_sack := True\<rparr>\<rparr>"

section \<open>The socket option\<close>

datatype cc_opt = SCTP_CC_OPT_RTCC_SETMODE | SCTP_CC_OPT_USE_DCCC_ECN | SCTP_CC_OPT_STEADY_STEP | Other_opt

datatype cc_errno = EINVAL | EFAULT

definition all_rtcc :: "(rtcc_cc \<Rightarrow> rtcc_cc) \<Rightarrow> cc_asoc \<Rightarrow> cc_asoc" where
  "all_rtcc f a = a\<lparr>nets := map (\<lambda>n. n\<lparr>rtcc := f (rtcc n)\<rparr>) (nets a)\<rparr>"

fun rtcc_option_set :: "cc_opt \<Rightarrow> u32 \<Rightarrow> cc_asoc \<Rightarrow> cc_errno + cc_asoc" where
  "rtcc_option_set SCTP_CC_OPT_RTCC_SETMODE v a =
     (if v \<noteq> 0 \<and> v \<noteq> 1 then Inl EINVAL else Inr (all_rtcc (\<lambda>r. r\<lparr>ret_from_eq := ucast v\<rparr>) a))"
| "rtcc_option_set SCTP_CC_OPT_USE_DCCC_ECN v a =
     (if v \<noteq> 0 \<and> v \<noteq> 1 then Inl EINVAL else Inr (all_rtcc (\<lambda>r. r\<lparr>use_dccc_ecn := ucast v\<rparr>) a))"
| "rtcc_option_set SCTP_CC_OPT_STEADY_STEP v a = Inr (all_rtcc (\<lambda>r. r\<lparr>steady_step := ucast v\<rparr>) a)"
| "rtcc_option_set Other_opt v a = Inl EINVAL"

definition first_rtcc :: "(rtcc_cc \<Rightarrow> u32) \<Rightarrow> cc_asoc \<Rightarrow> cc_errno + u32" where
  "first_rtcc f a = (case first_of (nets a) of None \<Rightarrow> Inl EFAULT | Some n \<Rightarrow> Inr (f (rtcc n)))"

fun rtcc_option_get :: "cc_opt \<Rightarrow> cc_asoc \<Rightarrow> cc_errno + u32" where
  "rtcc_option_get SCTP_CC_OPT_RTCC_SETMODE a = first_rtcc (\<lambda>r. ucast (ret_from_eq r)) a"
| "rtcc_option_get SCTP_CC_OPT_USE_DCCC_ECN a = first_rtcc (\<lambda>r. ucast (use_dccc_ecn r)) a"
| "rtcc_option_get SCTP_CC_OPT_STEADY_STEP a = first_rtcc (\<lambda>r. ucast (steady_step r)) a"
| "rtcc_option_get Other_opt a = Inl EINVAL"

end
