(* ===== verification/Cc_Rfc.thy ===== *)
theory Cc_Rfc
  imports Cc_Rtcc
begin

text \<open>
  The routines that the modules of \<^verbatim>\<open>sctp_cc_functions.c\<close> share: window growth after a SACK in the default
  module and in RTCC, and the reactions to a timeout, an ECN echo, a packet drop report and a burst limit.
\<close>

section \<open>After a SACK\<close>

text \<open>The sums over the destinations: total threshold and window, window over round trip time, and for the MPTCP
variant the sum and the maximum of the path rates. The product \<^verbatim>\<open>srtt * srtt\<close> is computed in 32 bits.\<close>

record sack_sums =
  t_ssthresh :: u32
  t_cwnd :: u32
  t_ucwnd_sbw :: u64
  t_path_mptcp :: u64
  max_path :: u64

fun sack_totals :: "cc_net list \<Rightarrow> sack_sums \<Rightarrow> sack_sums option" where
  "sack_totals [] t = Some t"
| "sack_totals (n # ns) t = do {
     let t = t\<lparr>t_ssthresh := t_ssthresh t + ssthresh n, t_cwnd := t_cwnd t + cwnd n\<rparr>;
     let srtt = lastsa n;
     t \<leftarrow> (if 0 < srtt then do {
             u \<leftarrow> cdiv (ucast (cwnd n) :: u64) (ucast srtt);
             p \<leftarrow> cdiv (push_bit 16 (ucast (cwnd n)) :: u64) (ucast (mtu n) * ucast srtt);
             q \<leftarrow> cdiv (push_bit 40 (ucast (cwnd n)) :: u64) (ucast (mtu n) * ucast (srtt * srtt));
             Some (t\<lparr>t_ucwnd_sbw := t_ucwnd_sbw t + u, t_path_mptcp := t_path_mptcp t + p,
                     max_path := (if max_path t < q then q else max_path t)\<rparr>)
           } else Some t);
     sack_totals ns t
   }"

text \<open>The result is \<^verbatim>\<open>t_ssthresh\<close>, \<^verbatim>\<open>t_ucwnd_sbw\<close> and \<^verbatim>\<open>mptcp_like_alpha\<close>; the total window is not used.\<close>

definition sack_factors :: "cc_asoc \<Rightarrow> (u32 \<times> u64 \<times> u64) option" where
  "sack_factors a = do {
     (ts, tu, mp_alpha) \<leftarrow>
       (if sctp_cmt_on_off a = SCTP_CMT_RPV1 \<or> sctp_cmt_on_off a = SCTP_CMT_RPV2
           \<or> sctp_cmt_on_off a = SCTP_CMT_MPTCP
        then do {
          t \<leftarrow> sack_totals (nets a) \<lparr>t_ssthresh = 0, t_cwnd = 0, t_ucwnd_sbw = 0, t_path_mptcp = 0, max_path = 0\<rparr>;
          mp_alpha \<leftarrow> (if 0 < t_path_mptcp t then cdiv (max_path t) (t_path_mptcp t * t_path_mptcp t) else Some 1);
          Some (t_ssthresh t, t_ucwnd_sbw t, mp_alpha)
        } else Some (0, 0, 1));
     Some (if ts = 0 then 1 else ts, if tu = 0 then 1 else tu, mp_alpha)
   }"

text \<open>The increments of slow start and of congestion avoidance, one case per value of \<^verbatim>\<open>sctp_cmt_on_off\<close>.\<close>

definition ss_incr :: "cc_sysctl \<Rightarrow> cc_asoc \<Rightarrow> u32 \<times> u64 \<times> u64 \<Rightarrow> cc_net \<Rightarrow> u32 option" where
  "ss_incr sc a f n = (case f of (ts, tu, mp_alpha) \<Rightarrow>
     if sctp_cmt_on_off a = SCTP_CMT_RPV1 then do {
       l \<leftarrow> cdiv (ucast (mtu n) * ucast (sctp_L2_abc_variable sc) * ucast (ssthresh n) :: u64) (ucast ts);
       q \<leftarrow> cdiv (ucast (net_ack n) * ucast (ssthresh n) :: u64) (ucast ts);
       let limit = ucast l; let incr = ucast q;
       let incr = (if limit < incr then limit else incr);
       Some (if incr = 0 then 1 else incr)
     } else if sctp_cmt_on_off a = SCTP_CMT_RPV2 then do {
       l \<leftarrow> cdiv (ucast (mtu n) * ucast (sctp_L2_abc_variable sc) * ucast (cwnd n) :: u64)
                (ucast (srtt_of n) * tu);
       q \<leftarrow> cdiv (ucast (net_ack n) * ucast (cwnd n) :: u64) (ucast (srtt_of n) * tu);
       let limit = ucast l; let incr = ucast q;
       let incr = (if limit < incr then limit else incr);
       Some (if incr = 0 then 1 else incr)
     } else if sctp_cmt_on_off a = SCTP_CMT_MPTCP then
       let limit = ucast (drop_bit 8 (ucast (mtu n) * mp_alpha * ucast (sctp_L2_abc_variable sc)));
           incr = ucast (drop_bit 8 (ucast (net_ack n) * mp_alpha));
           incr = (if limit < incr then limit else incr);
           incr = (if net_ack n < incr then net_ack n else incr)
       in Some (if mtu n < incr then mtu n else incr)
     else
       let incr = net_ack n
       in Some (if mtu n * sctp_L2_abc_variable sc < incr then mtu n * sctp_L2_abc_variable sc else incr))"

definition ca_incr :: "cc_asoc \<Rightarrow> u32 \<times> u64 \<times> u64 \<Rightarrow> cc_net \<Rightarrow> u32 option" where
  "ca_incr a f n = (case f of (ts, tu, mp_alpha) \<Rightarrow>
     if sctp_cmt_on_off a = SCTP_CMT_RPV1 then do {
       q \<leftarrow> cdiv (ucast (mtu n) * ucast (ssthresh n) :: u64) (ucast ts);
       let incr = ucast q;
       Some (if incr = 0 then 1 else incr)
     } else if sctp_cmt_on_off a = SCTP_CMT_RPV2 then do {
       q \<leftarrow> cdiv (ucast (mtu n) * ucast (cwnd n) :: u64) (ucast (srtt_of n) * tu);
       let incr = ucast q;
       Some (if incr = 0 then 1 else incr)
     } else if sctp_cmt_on_off a = SCTP_CMT_MPTCP then
       let incr = ucast (drop_bit 8 (mp_alpha * ucast (cwnd n)))
       in Some (if mtu n < incr then mtu n else incr)
     else Some (mtu n))"

text \<open>The update of one destination to which the cumulative acknowledgement applies.\<close>

definition grow_net :: "cc_sysctl \<Rightarrow> cc_asoc \<Rightarrow> u32 \<times> u64 \<times> u64 \<Rightarrow> cc_net \<Rightarrow> cc_net option" where
  "grow_net sc a f n =
     (if cwnd n \<le> ssthresh n
      then if cwnd n \<le> flight_size n + net_ack n
           then do {
             incr \<leftarrow> ss_incr sc a f n;
             Some (sctp_enforce_cwnd_limit a (n\<lparr>cwnd := cwnd n + incr\<rparr>))
           }
           else Some n
      else let n = n\<lparr>partial_bytes_acked := partial_bytes_acked n + net_ack n\<rparr>
           in if cwnd n \<le> flight_size n + net_ack n \<and> cwnd n \<le> partial_bytes_acked n
              then do {
                let n = n\<lparr>partial_bytes_acked := partial_bytes_acked n - cwnd n\<rparr>;
                incr \<leftarrow> ca_incr a f n;
                Some (sctp_enforce_cwnd_limit a (n\<lparr>cwnd := cwnd n + incr\<rparr>))
              }
              else Some n)"

text \<open>The bandwidth measurement of RTCC; the second component tells that the window must be held.\<close>

definition rtcc_measure :: "cc_sysctl \<Rightarrow> cc_asoc \<Rightarrow> cc_net \<Rightarrow> cc_net \<times> bool" where
  "rtcc_measure sc a n =
     (let nbw = (if 0 < new_tot_time (rtcc n) div 1000
                 then bw_bytes (rtcc n) div (new_tot_time (rtcc n) div 1000) else bw_bytes (rtcc n))
      in if lbw (rtcc n) \<noteq> 0 then case cc_bw_limit sc a n nbw of (n, ret) \<Rightarrow> (n, ret \<noteq> 0)
         else let n = n\<lparr>rtcc := (rtcc n)\<lparr>lbw := nbw, lbw_rtt := rtt n\<rparr>\<rparr>
              in (if rtt_set_this_sack (rtcc n)
                  then n\<lparr>rtcc := (rtcc n)\<lparr>rtt_set_this_sack := False, bw_bytes_at_last_rttc := bw_bytes (rtcc n)\<rparr>\<rparr>
                  else n, False))"

definition sack_net :: "cc_sysctl \<Rightarrow> cc_asoc \<Rightarrow> u32 \<times> u64 \<times> u64 \<Rightarrow> bool \<Rightarrow> bool \<Rightarrow> cc_net \<Rightarrow> cc_net option" where
  "sack_net sc a f accum_moved use_rtcc n =
     (case (if use_rtcc \<and> 0 < tls_needs_set (rtcc n) then rtcc_measure sc a n else (n, False)) of (n, hold) \<Rightarrow>
        if hold then Some n
        else if accum_moved \<or> (0 < sctp_cmt_on_off a \<and> new_pseudo_cumack n) then grow_net sc a f n
        else Some n)"

text \<open>The loop over the destinations, shared with the high-speed modules: it skips destinations on which nothing was acknowledged
and returns at the first other one when the association is in loss recovery.\<close>

fun sack_loop :: "cc_asoc \<Rightarrow> bool \<Rightarrow> (cc_net \<Rightarrow> cc_net option) \<Rightarrow> cc_net list \<Rightarrow> cc_net list option" where
  "sack_loop a will_exit upd [] = Some []"
| "sack_loop a will_exit upd (n # ns) =
     (if net_ack n = 0 then do { ns' \<leftarrow> sack_loop a will_exit upd ns; Some (n # ns') }
      else if asoc_loss_recovery a \<and> \<not> will_exit \<and> sctp_cmt_on_off a = 0 then Some (n # ns)
      else do { n' \<leftarrow> upd n; ns' \<leftarrow> sack_loop a will_exit upd ns; Some (n' # ns') })"

definition run_sack :: "bool \<Rightarrow> (cc_net \<Rightarrow> cc_net option) \<Rightarrow> cc_asoc \<Rightarrow> cc_asoc option" where
  "run_sack will_exit upd a = do { ns \<leftarrow> sack_loop a will_exit upd (nets a); Some (a\<lparr>nets := ns\<rparr>) }"

definition sctp_cwnd_update_after_sack_common ::
    "cc_sysctl \<Rightarrow> bool \<Rightarrow> bool \<Rightarrow> bool \<Rightarrow> cc_asoc \<Rightarrow> cc_asoc option" where
  "sctp_cwnd_update_after_sack_common sc accum_moved will_exit use_rtcc a = do {
     f \<leftarrow> sack_factors a;
     run_sack will_exit (sack_net sc a f accum_moved use_rtcc) a
   }"

definition sctp_cwnd_update_after_sack :: "cc_sysctl \<Rightarrow> bool \<Rightarrow> bool \<Rightarrow> cc_asoc \<Rightarrow> cc_asoc option" where
  "sctp_cwnd_update_after_sack sc accum_moved will_exit a =
     sctp_cwnd_update_after_sack_common sc accum_moved will_exit False a"

definition sctp_cwnd_update_rtcc_after_sack :: "cc_sysctl \<Rightarrow> bool \<Rightarrow> bool \<Rightarrow> cc_asoc \<Rightarrow> cc_asoc option" where
  "sctp_cwnd_update_rtcc_after_sack sc accum_moved will_exit a =
     sctp_cwnd_update_after_sack_common sc accum_moved will_exit True a"

section \<open>Other events\<close>

definition sctp_cwnd_update_exit_pf_common :: "cc_net \<Rightarrow> cc_net" where
  "sctp_cwnd_update_exit_pf_common n = n\<lparr>cwnd := mtu n\<rparr>"

fun to_totals :: "cc_net list \<Rightarrow> u32 \<times> u32 \<times> u64 \<Rightarrow> u32 \<times> u32 \<times> u64" where
  "to_totals [] t = t"
| "to_totals (n # ns) (ts, tc, tu) =
     to_totals ns (ts + ssthresh n, tc + cwnd n,
       if 0 < lastsa n then tu + ucast (cwnd n) div ucast (lastsa n) else tu)"

definition sctp_cwnd_update_after_timeout :: "cc_asoc \<Rightarrow> cc_net \<Rightarrow> cc_net option" where
  "sctp_cwnd_update_after_timeout a n = do {
     n \<leftarrow> (if sctp_cmt_on_off a = SCTP_CMT_RPV1 \<or> sctp_cmt_on_off a = SCTP_CMT_RPV2
           then (case to_totals (nets a) (0, 0, 0) of (ts, tc, tu) \<Rightarrow> do {
             let ts = (if ts < 1 then 1 else ts);
             let tu = (if tu < 1 then 1 else tu);
             n \<leftarrow> (if sctp_cmt_on_off a = SCTP_CMT_RPV1
                   then do {
                     q \<leftarrow> cdiv (4 * ucast (mtu n) * ucast (ssthresh n) :: u64) (ucast ts);
                     Some (n\<lparr>ssthresh := ucast q\<rparr>)
                   } else
                     let cc_delta = tu * ucast (srtt_of n) div 2
                     in Some (if cc_delta < ucast tc then n\<lparr>ssthresh := ucast (ucast tc - cc_delta)\<rparr>
                              else n\<lparr>ssthresh := mtu n\<rparr>));
             Some (raise_ssthresh tc n)
           })
           else Some (n\<lparr>ssthresh := max (cwnd n div 2) (4 * mtu n)\<rparr>));
     Some (n\<lparr>cwnd := mtu n, partial_bytes_acked := 0\<rparr>)
   }"

definition sctp_cwnd_update_after_ecn_echo_common ::
    "bool \<Rightarrow> u32 \<Rightarrow> bool \<Rightarrow> cc_asoc \<Rightarrow> cc_net \<Rightarrow> cc_asoc \<times> cc_net" where
  "sctp_cwnd_update_after_ecn_echo_common in_window num_pkt_lost use_rtcc a n =
     (let cnt = a\<lparr>sctps_ecnereducedcwnd := sctps_ecnereducedcwnd a + 1\<rparr>
      in if use_rtcc \<and> lan_type n = SCTP_LAN_LOCAL \<and> use_dccc_ecn (rtcc n) \<noteq> 0
         then (cnt,
               if \<not> in_window
               then let n = (if ecn_prev_cwnd n < cwnd n
                             then n\<lparr>cwnd := ecn_prev_cwnd n - mtu n * num_pkt_lost\<rparr>
                             else n\<lparr>cwnd := cwnd n div 2\<rparr>)
                    in n\<lparr>ssthresh := cwnd n - num_pkt_lost * mtu n\<rparr>
               else n\<lparr>ssthresh := ssthresh n - mtu n * num_pkt_lost, cwnd := cwnd n - mtu n * num_pkt_lost\<rparr>)
         else if \<not> in_window
         then (cnt,
               let n = n\<lparr>ssthresh := cwnd n div 2\<rparr>;
                   n = (if ssthresh n < mtu n then n\<lparr>ssthresh := mtu n, RTO := push_bit 1 (RTO n)\<rparr> else n)
               in n\<lparr>cwnd := ssthresh n\<rparr>)
         else (a, n))"

definition sctp_cwnd_update_after_ecn_echo :: "bool \<Rightarrow> u32 \<Rightarrow> cc_asoc \<Rightarrow> cc_net \<Rightarrow> cc_asoc \<times> cc_net" where
  "sctp_cwnd_update_after_ecn_echo in_window num_pkt_lost a n =
     sctp_cwnd_update_after_ecn_echo_common in_window num_pkt_lost False a n"

definition sctp_cwnd_update_rtcc_after_ecn_echo :: "bool \<Rightarrow> u32 \<Rightarrow> cc_asoc \<Rightarrow> cc_net \<Rightarrow> cc_asoc \<times> cc_net" where
  "sctp_cwnd_update_rtcc_after_ecn_echo in_window num_pkt_lost a n =
     sctp_cwnd_update_after_ecn_echo_common in_window num_pkt_lost True a n"

text \<open>A packet drop report carries the bandwidth of the bottleneck and the length of its queue, here already in host byte order. The
share of the excess that is ours is a product divided by a number of segments, in unsigned arithmetic; the local
variables are signed.\<close>

definition pd_on_queue :: "u32 \<Rightarrow> cc_net \<Rightarrow> u32" where
  "pd_on_queue current_onq n = (if current_onq < flight_size n then flight_size n else current_onq)"

definition pd_bw_avail :: "u32 \<Rightarrow> cc_net \<Rightarrow> u32" where
  "pd_bw_avail bottle_bw n =
     (let bw_avail = ucast ((ucast bottle_bw * rtt n :: u64) div 1000000)
      in if bottle_bw < bw_avail then bottle_bw else bw_avail)"

definition my_portion :: "u32 \<Rightarrow> u32 \<Rightarrow> cc_net \<Rightarrow> u32 option" where
  "my_portion on_queue incr n = do {
     seg_inflight \<leftarrow> cdiv (flight_size n) (mtu n);
     seg_onqueue \<leftarrow> cdiv on_queue (mtu n);
     p \<leftarrow> cdiv (incr * seg_inflight) seg_onqueue;
     Some (if flight_size n < cwnd n
           then let diff_adj = cwnd n - flight_size n in if p <s diff_adj then 0 else p - diff_adj
           else p)
   }"

text \<open>The bottleneck has no room: the window shrinks by our share of the excess, and the destination leaves slow start.\<close>

definition pd_over :: "u32 \<Rightarrow> u32 \<Rightarrow> cc_asoc \<Rightarrow> cc_net \<Rightarrow> cc_net option" where
  "pd_over on_queue bw_avail a n = do {
     let n = n\<lparr>partial_bytes_acked := 0\<rparr>;
     let incr = on_queue - bw_avail;
     let n = (if seen_a_sack_this_pkt a then n\<lparr>cwnd := prev_cwnd n\<rparr> else n);
     p \<leftarrow> my_portion on_queue incr n;
     let n = n\<lparr>cwnd := cwnd n - p\<rparr>;
     let n = (if cwnd n \<le> mtu n then n\<lparr>cwnd := mtu n\<rparr> else n);
     Some (n\<lparr>ssthresh := cwnd n - 1\<rparr>)
   }"

text \<open>There is room: a quarter of it, at most a burst.\<close>

definition pd_under :: "u32 \<Rightarrow> u32 \<Rightarrow> cc_asoc \<Rightarrow> cc_net \<Rightarrow> cc_net" where
  "pd_under on_queue bw_avail a n =
     (let incr = drop_bit 2 (bw_avail - on_queue);
          incr = (if 0 < max_burst a \<and> max_burst a * mtu n < incr then max_burst a * mtu n else incr)
      in n\<lparr>cwnd := cwnd n + incr\<rparr>)"

definition pd_clip :: "u32 \<Rightarrow> cc_net \<Rightarrow> cc_net" where
  "pd_clip bw_avail n =
     (let n = (if bw_avail < cwnd n then n\<lparr>cwnd := bw_avail\<rparr> else n)
      in if cwnd n < mtu n then n\<lparr>cwnd := mtu n\<rparr> else n)"

definition sctp_cwnd_update_after_packet_dropped ::
    "u32 \<Rightarrow> u32 \<Rightarrow> cc_asoc \<Rightarrow> cc_net \<Rightarrow> (cc_net \<times> u32 \<times> u32) option" where
  "sctp_cwnd_update_after_packet_dropped bottle_bw current_onq a n = do {
     let on_queue = pd_on_queue current_onq n;
     let bw_avail = pd_bw_avail bottle_bw n;
     n \<leftarrow> (if bw_avail < on_queue then pd_over on_queue bw_avail a n
           else Some (pd_under on_queue bw_avail a n));
     Some (sctp_enforce_cwnd_limit a (pd_clip bw_avail n), bottle_bw, on_queue)
   }"

definition sctp_cwnd_update_after_output :: "u32 \<Rightarrow> cc_asoc \<Rightarrow> cc_net \<Rightarrow> cc_net" where
  "sctp_cwnd_update_after_output burst_limit a n =
     (let n = (if ssthresh n < cwnd n then n\<lparr>ssthresh := cwnd n\<rparr> else n)
      in if burst_limit \<noteq> 0
         then sctp_enforce_cwnd_limit a (n\<lparr>cwnd := flight_size n + burst_limit * mtu n\<rparr>)
         else n)"

end
