(* ===== verification/Cc_Hs.thy ===== *)
theory Cc_Hs
  imports Cc_Rfc
begin

text \<open>
  The high-speed module (HS-TCP) of \<^verbatim>\<open>sctp_cc_functions.c\<close>: above 38 kilobytes the window changes by the
  entries of a table. The table gives, for each row, the window in kilobytes up to which it applies, the increase in kilobytes
  and the decrease in percent; the columns are signed in the code and never negative. Reading outside the table is \<open>None\<close>.
\<close>

definition sctp_cwnd_adjust :: "(u32 \<times> u32 \<times> u32) list" where
  "sctp_cwnd_adjust = [
    (38, 1, 50), (118, 2, 44), (221, 3, 41), (347, 4, 38), (495, 5, 37), (663, 6, 35), (851, 7, 34),
    (1058, 8, 33), (1284, 9, 32), (1529, 10, 31), (1793, 11, 30), (2076, 12, 29), (2378, 13, 28),
    (2699, 14, 28), (3039, 15, 27), (3399, 16, 27), (3778, 17, 26), (4177, 18, 26), (4596, 19, 25),
    (5036, 20, 25), (5497, 21, 24), (5979, 22, 24), (6483, 23, 23), (7009, 24, 23), (7558, 25, 22),
    (8130, 26, 22), (8726, 27, 22), (9346, 28, 21), (9991, 29, 21), (10661, 30, 21), (11358, 31, 20),
    (12082, 32, 20), (12834, 33, 20), (13614, 34, 19), (14424, 35, 19), (15265, 36, 19), (16137, 37, 19),
    (17042, 38, 18), (17981, 39, 18), (18955, 40, 18), (19965, 41, 17), (21013, 42, 17), (22101, 43, 17),
    (23230, 44, 17), (24402, 45, 16), (25618, 46, 16), (26881, 47, 16), (28193, 48, 16), (29557, 49, 15),
    (30975, 50, 15), (32450, 51, 15), (33986, 52, 15), (35586, 53, 14), (37253, 54, 14), (38992, 55, 14),
    (40808, 56, 14), (42707, 57, 13), (44694, 58, 13), (46776, 59, 13), (48961, 60, 13), (51258, 61, 13),
    (53677, 62, 12), (56230, 63, 12), (58932, 64, 12), (61799, 65, 12), (64851, 66, 11), (68113, 67, 11),
    (71617, 68, 11), (75401, 69, 10), (79517, 70, 10), (84035, 71, 10), (89053, 72, 10), (94717, 73, 9)]"

definition SCTP_HS_TABLE_SIZE :: nat where "SCTP_HS_TABLE_SIZE = 73"

definition hs_cwnd :: "nat \<Rightarrow> u32" where "hs_cwnd i = fst (sctp_cwnd_adjust ! i)"
definition hs_increase :: "nat \<Rightarrow> u32" where "hs_increase i = fst (snd (sctp_cwnd_adjust ! i))"
definition hs_drop_percent :: "nat \<Rightarrow> u32" where "hs_drop_percent i = snd (snd (sctp_cwnd_adjust ! i))"

text \<open>The search upwards from the row used last; when no row fits, the last one is used.\<close>

function hs_search :: "u32 \<Rightarrow> nat \<Rightarrow> nat" where
  "hs_search cur_val i =
     (if i < SCTP_HS_TABLE_SIZE
      then if cur_val < hs_cwnd i then i else hs_search cur_val (Suc i)
      else SCTP_HS_TABLE_SIZE - 1)"
  by auto
termination by (relation "measure (\<lambda>(_, i). SCTP_HS_TABLE_SIZE - i)") auto

declare hs_search.simps [simp del]

definition sctp_hs_cwnd_increase :: "cc_asoc \<Rightarrow> cc_net \<Rightarrow> cc_net" where
  "sctp_hs_cwnd_increase a n =
     (let cur_val = drop_bit 10 (cwnd n);
          n = (if cur_val < hs_cwnd 0
               then if mtu n < net_ack n then n\<lparr>cwnd := cwnd n + mtu n\<rparr> else n\<lparr>cwnd := cwnd n + net_ack n\<rparr>
               else let indx = hs_search cur_val (unat (last_hs_used n));
                        n = n\<lparr>last_hs_used := of_nat indx\<rparr>
                    in n\<lparr>cwnd := cwnd n + push_bit 10 (hs_increase indx)\<rparr>)
      in sctp_enforce_cwnd_limit a n)"

text \<open>After the drop the code searches downwards for the row of the new window, but then stores the row that it started from: the
loop has no effect other than reading rows at or below it.\<close>

definition sctp_hs_cwnd_decrease :: "cc_asoc \<Rightarrow> cc_net \<Rightarrow> cc_net option" where
  "sctp_hs_cwnd_decrease a n = do {
     n \<leftarrow> (if drop_bit 10 (cwnd n) < hs_cwnd 0
           then let n = n\<lparr>ssthresh := cwnd n div 2\<rparr>;
                    n = (if ssthresh n < mtu n * 2 then n\<lparr>ssthresh := 2 * mtu n\<rparr> else n)
                in Some (n\<lparr>cwnd := ssthresh n\<rparr>)
           else if unat (last_hs_used n) < SCTP_HS_TABLE_SIZE
           then let indx = last_hs_used n;
                    n = n\<lparr>ssthresh := cwnd n - cwnd n div 100 * hs_drop_percent (unat indx)\<rparr>;
                    n = n\<lparr>cwnd := ssthresh n\<rparr>
                in Some (if drop_bit 10 (cwnd n) < hs_cwnd 0 then n\<lparr>last_hs_used := 0\<rparr>
                         else n\<lparr>last_hs_used := indx\<rparr>)
           else None);
     Some (sctp_enforce_cwnd_limit a n)
   }"

definition sctp_hs_cwnd_update_after_fr :: "cc_asoc \<Rightarrow> cc_asoc option" where
  "sctp_hs_cwnd_update_after_fr a = run_fr sctp_hs_cwnd_decrease a"

definition hs_sack_net :: "cc_asoc \<Rightarrow> bool \<Rightarrow> cc_net \<Rightarrow> cc_net" where
  "hs_sack_net a accum_moved n =
     (if accum_moved \<or> (0 < sctp_cmt_on_off a \<and> new_pseudo_cumack n)
      then if cwnd n \<le> ssthresh n
           then if cwnd n \<le> flight_size n + net_ack n then sctp_hs_cwnd_increase a n else n
           else let n = n\<lparr>partial_bytes_acked := partial_bytes_acked n + net_ack n\<rparr>
                in if cwnd n \<le> flight_size n + net_ack n \<and> cwnd n \<le> partial_bytes_acked n
                   then sctp_enforce_cwnd_limit a
                          (n\<lparr>partial_bytes_acked := partial_bytes_acked n - cwnd n, cwnd := cwnd n + mtu n\<rparr>)
                   else n
      else n)"

definition sctp_hs_cwnd_update_after_sack :: "bool \<Rightarrow> bool \<Rightarrow> cc_asoc \<Rightarrow> cc_asoc option" where
  "sctp_hs_cwnd_update_after_sack accum_moved will_exit a =
     run_sack will_exit (\<lambda>n. Some (hs_sack_net a accum_moved n)) a"

end
