(* ===== verification/Cc_Htcp.thy ===== *)
theory Cc_Htcp
  imports Cc_Rfc
begin

text \<open>
  The H-TCP module of \<^verbatim>\<open>sctp_cc_functions.c\<close>. The increase \<open>alpha\<close> and the decrease \<open>beta\<close> are
  fixed point numbers with seven binary digits, kept in 16 and 8 bits. The tick counter \<^verbatim>\<open>sctp_get_tick_count()\<close> is the
  argument \<open>now\<close>: one tick is a millisecond, and it is taken not to advance while one routine runs.
\<close>

definition hz :: u32 where "hz = 1000"
definition MSEC_TO_TICKS_U :: "u32 \<Rightarrow> u32" where "MSEC_TO_TICKS_U x = (if hz = 1000 then x else (x * hz + 999) div 1000)"
definition ALPHA_BASE :: u16 where "ALPHA_BASE = 128"
definition BETA_MIN :: u8 where "BETA_MIN = 64"
definition BETA_MAX :: u8 where "BETA_MAX = 102"
definition use_rtt_scaling :: bool where "use_rtt_scaling = True"
definition use_bandwidth_switch :: bool where "use_bandwidth_switch = True"

lemmas htcp_consts = hz_def MSEC_TO_TICKS_U_def ALPHA_BASE_def BETA_MIN_def BETA_MAX_def
  use_rtt_scaling_def use_bandwidth_switch_def

definition between :: "u32 \<Rightarrow> u32 \<Rightarrow> u32 \<Rightarrow> bool" where
  "between seq1 seq2 seq3 \<longleftrightarrow> seq1 - seq2 \<le> seq3 - seq2"

definition htcp_cong_time :: "u32 \<Rightarrow> htcp \<Rightarrow> u32" where
  "htcp_cong_time now ca = now - last_cong ca"

definition htcp_ccount :: "u32 \<Rightarrow> htcp \<Rightarrow> u32 option" where
  "htcp_ccount now ca = cdiv (htcp_cong_time now ca) (minRTT ca)"

definition htcp_reset :: "u32 \<Rightarrow> htcp \<Rightarrow> htcp" where
  "htcp_reset now ca = ca\<lparr>undo_last_cong := last_cong ca, undo_maxRTT := maxRTT ca,
     undo_old_maxB := old_maxB ca, last_cong := now\<rparr>"

definition measure_rtt :: "u32 \<Rightarrow> cc_net \<Rightarrow> cc_net option" where
  "measure_rtt now n = do {
     let srtt = signed_drop_bit 3 (lastsa n);
     let n = (if srtt < minRTT (htcp_ca n) \<or> minRTT (htcp_ca n) = 0
              then n\<lparr>htcp_ca := (htcp_ca n)\<lparr>minRTT := srtt\<rparr>\<rparr> else n);
     if fast_retran_ip n = 0 \<and> ssthresh n < 0xFFFF
     then do {
       c \<leftarrow> htcp_ccount now (htcp_ca n);
       Some (if 3 < c
             then let n = (if maxRTT (htcp_ca n) < minRTT (htcp_ca n)
                           then n\<lparr>htcp_ca := (htcp_ca n)\<lparr>maxRTT := minRTT (htcp_ca n)\<rparr>\<rparr> else n)
                  in if maxRTT (htcp_ca n) < srtt \<and> srtt \<le> maxRTT (htcp_ca n) + MSEC_TO_TICKS_U 20
                     then n\<lparr>htcp_ca := (htcp_ca n)\<lparr>maxRTT := srtt\<rparr>\<rparr> else n
             else n)
     }
     else Some n
   }"

definition measure_achieved_throughput :: "u32 \<Rightarrow> cc_net \<Rightarrow> cc_net option" where
  "measure_achieved_throughput now n = do {
     let n = (if fast_retran_ip n = 0 then n\<lparr>htcp_ca := (htcp_ca n)\<lparr>bytes_acked := ucast (net_ack n)\<rparr>\<rparr> else n);
     if \<not> use_bandwidth_switch then Some n
     else if fast_retran_ip n = 1 then Some (n\<lparr>htcp_ca := (htcp_ca n)\<lparr>bytecount := 0, lasttime := now\<rparr>\<rparr>)
     else do {
       let n = n\<lparr>htcp_ca := (htcp_ca n)\<lparr>bytecount := bytecount (htcp_ca n) + net_ack n\<rparr>\<rparr>;
       let al = drop_bit 7 (alpha (htcp_ca n));
       if cwnd n - (if al \<noteq> 0 then ucast al else 1) * mtu n \<le> bytecount (htcp_ca n)
          \<and> minRTT (htcp_ca n) \<le> now - lasttime (htcp_ca n) \<and> 0 < minRTT (htcp_ca n)
       then do {
         b \<leftarrow> cdiv (bytecount (htcp_ca n)) (mtu n);
         cur_Bi \<leftarrow> cdiv (b * hz) (now - lasttime (htcp_ca n));
         c \<leftarrow> htcp_ccount now (htcp_ca n);
         let n = (if c \<le> 3
                  then n\<lparr>htcp_ca := (htcp_ca n)\<lparr>Bi := cur_Bi, maxB := cur_Bi, minB := cur_Bi\<rparr>\<rparr>
                  else let ca = (htcp_ca n)\<lparr>Bi := (3 * Bi (htcp_ca n) + cur_Bi) div 4\<rparr>;
                           ca = (if maxB ca < Bi ca then ca\<lparr>maxB := Bi ca\<rparr> else ca);
                           ca = (if maxB ca < minB ca then ca\<lparr>minB := maxB ca\<rparr> else ca)
                       in n\<lparr>htcp_ca := ca\<rparr>);
         Some (n\<lparr>htcp_ca := (htcp_ca n)\<lparr>bytecount := 0, lasttime := now\<rparr>\<rparr>)
       }
       else Some n
     }
   }"

definition htcp_beta_update :: "u32 \<Rightarrow> u32 \<Rightarrow> htcp \<Rightarrow> htcp" where
  "htcp_beta_update min_RTT max_RTT ca =
     (let max_B = maxB ca; old_max_B = old_maxB ca;
          ca = (if use_bandwidth_switch then ca\<lparr>old_maxB := maxB ca\<rparr> else ca)
      in if use_bandwidth_switch \<and> \<not> between (5 * max_B) (4 * old_max_B) (6 * old_max_B)
         then ca\<lparr>beta := BETA_MIN, modeswitch := 0\<rparr>
         else if modeswitch ca \<noteq> 0 \<and> MSEC_TO_TICKS_U 10 < min_RTT \<and> max_RTT \<noteq> 0
         then let ca = ca\<lparr>beta := ucast (push_bit 7 min_RTT div max_RTT)\<rparr>
              in if beta ca < BETA_MIN then ca\<lparr>beta := BETA_MIN\<rparr>
                 else if BETA_MAX < beta ca then ca\<lparr>beta := BETA_MAX\<rparr> else ca
         else ca\<lparr>beta := BETA_MIN, modeswitch := 1\<rparr>)"

definition htcp_alpha_update :: "u32 \<Rightarrow> htcp \<Rightarrow> htcp option" where
  "htcp_alpha_update now ca = do {
     let min_RTT = minRTT ca;
     let diff = htcp_cong_time now ca;
     let factor = (if hz < diff
                   then let diff = diff - hz in 1 + (10 * diff + diff div 2 * (diff div 2) div hz) div hz
                   else 1);
     factor \<leftarrow> (if use_rtt_scaling \<and> min_RTT \<noteq> 0
                then do {
                  s \<leftarrow> cdiv (push_bit 3 hz) (10 * min_RTT);
                  let scale = min (max s 4) 80;
                  q \<leftarrow> cdiv (push_bit 3 factor) scale;
                  Some (if q = 0 then 1 else q)
                } else Some factor);
     let ca = ca\<lparr>alpha := ucast (2 * factor * (128 - ucast (beta ca)))\<rparr>;
     Some (if alpha ca = 0 then ca\<lparr>alpha := ALPHA_BASE\<rparr> else ca)
   }"

definition htcp_param_update :: "u32 \<Rightarrow> cc_net \<Rightarrow> cc_net option" where
  "htcp_param_update now n = do {
     let min_RTT = minRTT (htcp_ca n);
     let max_RTT = maxRTT (htcp_ca n);
     ca \<leftarrow> htcp_alpha_update now (htcp_beta_update min_RTT max_RTT (htcp_ca n));
     Some (n\<lparr>htcp_ca := (if 0 < min_RTT \<and> min_RTT < max_RTT
                         then ca\<lparr>maxRTT := min_RTT + (max_RTT - min_RTT) * 95 div 100\<rparr> else ca)\<rparr>)
   }"

definition htcp_recalc_ssthresh :: "u32 \<Rightarrow> cc_net \<Rightarrow> (cc_net \<times> u32) option" where
  "htcp_recalc_ssthresh now n = do {
     n \<leftarrow> htcp_param_update now n;
     q \<leftarrow> cdiv (cwnd n) (mtu n);
     Some (n, max (drop_bit 7 (q * ucast (beta (htcp_ca n))) * mtu n) (2 * mtu n))
   }"

definition htcp_cong_avoid :: "cc_sysctl \<Rightarrow> u32 \<Rightarrow> cc_asoc \<Rightarrow> cc_net \<Rightarrow> cc_net option" where
  "htcp_cong_avoid sc now a n =
     (if cwnd n \<le> ssthresh n
      then Some (if cwnd n \<le> flight_size n + net_ack n
                 then let n = (if mtu n * sctp_L2_abc_variable sc < net_ack n
                               then n\<lparr>cwnd := cwnd n + mtu n * sctp_L2_abc_variable sc\<rparr>
                               else n\<lparr>cwnd := cwnd n + net_ack n\<rparr>)
                      in sctp_enforce_cwnd_limit a n
                 else n)
      else do {
        n \<leftarrow> measure_rtt now n;
        q \<leftarrow> cdiv (partial_bytes_acked n) (mtu n);
        n \<leftarrow> (if cwnd n \<le> drop_bit 7 (q * ucast (alpha (htcp_ca n))) * mtu n
              then do {
                let n = n\<lparr>cwnd := cwnd n + mtu n, partial_bytes_acked := 0\<rparr>;
                let n = sctp_enforce_cwnd_limit a n;
                ca \<leftarrow> htcp_alpha_update now (htcp_ca n);
                Some (n\<lparr>htcp_ca := ca\<rparr>)
              }
              else Some (n\<lparr>partial_bytes_acked := partial_bytes_acked n + net_ack n\<rparr>));
        Some (n\<lparr>htcp_ca := (htcp_ca n)\<lparr>bytes_acked := ucast (mtu n)\<rparr>\<rparr>)
      })"

definition htcp_init :: "u32 \<Rightarrow> cc_net \<Rightarrow> cc_net" where
  "htcp_init now n = n\<lparr>htcp_ca := \<lparr>alpha = ALPHA_BASE, beta = BETA_MIN, modeswitch = 0, last_cong = now,
     undo_last_cong = 0, bytes_acked = ucast (mtu n), bytecount = 0, minRTT = 0, maxRTT = 0, undo_maxRTT = 0,
     undo_old_maxB = 0, minB = 0, maxB = 0, old_maxB = 0, Bi = 0, lasttime = 0\<rparr>\<rparr>"

definition sctp_htcp_set_initial_cc_param :: "u32 \<Rightarrow> cc_asoc \<Rightarrow> cc_net \<Rightarrow> cc_net" where
  "sctp_htcp_set_initial_cc_param now a n =
     (let n = n\<lparr>cwnd := min (mtu n * 4) (max (2 * mtu n) SCTP_INITIAL_CWND), ssthresh := peers_rwnd a\<rparr>
      in htcp_init now (sctp_enforce_cwnd_limit a n))"

definition htcp_sack_net :: "cc_sysctl \<Rightarrow> u32 \<Rightarrow> cc_asoc \<Rightarrow> bool \<Rightarrow> cc_net \<Rightarrow> cc_net option" where
  "htcp_sack_net sc now a accum_moved n =
     (if accum_moved \<or> (0 < sctp_cmt_on_off a \<and> new_pseudo_cumack n)
      then do { n \<leftarrow> htcp_cong_avoid sc now a n; measure_achieved_throughput now n }
      else Some n)"

definition sctp_htcp_cwnd_update_after_sack :: "cc_sysctl \<Rightarrow> u32 \<Rightarrow> bool \<Rightarrow> bool \<Rightarrow> cc_asoc \<Rightarrow> cc_asoc option" where
  "sctp_htcp_cwnd_update_after_sack sc now accum_moved will_exit a =
     run_sack will_exit (htcp_sack_net sc now a accum_moved) a"

text \<open>Fast retransmit, timeout and ECN echo reset the congestion clock and recompute the threshold.\<close>

definition htcp_backoff :: "u32 \<Rightarrow> cc_net \<Rightarrow> cc_net option" where
  "htcp_backoff now n = do {
     (n, th) \<leftarrow> htcp_recalc_ssthresh now (n\<lparr>htcp_ca := htcp_reset now (htcp_ca n)\<rparr>);
     Some (n\<lparr>ssthresh := th\<rparr>)
   }"

definition htcp_fr_cut :: "u32 \<Rightarrow> cc_asoc \<Rightarrow> cc_net \<Rightarrow> cc_net option" where
  "htcp_fr_cut now a n = do {
     n \<leftarrow> htcp_backoff now n;
     Some (sctp_enforce_cwnd_limit a (n\<lparr>cwnd := ssthresh n\<rparr>))
   }"

definition sctp_htcp_cwnd_update_after_fr :: "u32 \<Rightarrow> cc_asoc \<Rightarrow> cc_asoc option" where
  "sctp_htcp_cwnd_update_after_fr now a = run_fr (htcp_fr_cut now) a"

definition sctp_htcp_cwnd_update_after_timeout :: "u32 \<Rightarrow> cc_net \<Rightarrow> cc_net option" where
  "sctp_htcp_cwnd_update_after_timeout now n = do {
     n \<leftarrow> htcp_backoff now n;
     Some (n\<lparr>cwnd := mtu n, partial_bytes_acked := 0\<rparr>)
   }"

definition sctp_htcp_cwnd_update_after_ecn_echo ::
    "u32 \<Rightarrow> bool \<Rightarrow> cc_asoc \<Rightarrow> cc_net \<Rightarrow> (cc_asoc \<times> cc_net) option" where
  "sctp_htcp_cwnd_update_after_ecn_echo now in_window a n =
     (if \<not> in_window
      then do {
        n \<leftarrow> htcp_backoff now n;
        let n = (if ssthresh n < mtu n then n\<lparr>ssthresh := mtu n, RTO := push_bit 1 (RTO n)\<rparr> else n);
        Some (a\<lparr>sctps_ecnereducedcwnd := sctps_ecnereducedcwnd a + 1\<rparr>,
              sctp_enforce_cwnd_limit a (n\<lparr>cwnd := ssthresh n\<rparr>))
      }
      else Some (a, n))"

end
