(* ===== verification/Cc_Table.thy ===== *)
theory Cc_Table
  imports Cc_Hs Cc_Htcp
begin

text \<open>
  The dispatch table \<^verbatim>\<open>sctp_cc_functions\<close> with its four rows (RFC 4960, HS-TCP, H-TCP, RTCC), the socket option that
  limits the window, and the calls that the rest of the stack makes through the table as events. Hooks that a row leaves NULL are
  \<open>None\<close>; the callers test them. Between calls the rest of the stack sets the inputs of congestion control (bytes in flight,
  bytes acknowledged, round trip times, the path MTU): the event \<open>Ev_input\<close>.
\<close>

record sctp_cc_functions =
  set_initial :: "cc_asoc \<Rightarrow> cc_net \<Rightarrow> (cc_asoc \<times> cc_net) option"
  after_sack :: "bool \<Rightarrow> bool \<Rightarrow> cc_asoc \<Rightarrow> cc_asoc option"
  exit_pf :: "cc_net \<Rightarrow> cc_net"
  after_fr :: "cc_asoc \<Rightarrow> cc_asoc option"
  after_timeout :: "cc_asoc \<Rightarrow> cc_net \<Rightarrow> cc_net option"
  after_ecn_echo :: "bool \<Rightarrow> u32 \<Rightarrow> cc_asoc \<Rightarrow> cc_net \<Rightarrow> (cc_asoc \<times> cc_net) option"
  after_packet_dropped :: "u32 \<Rightarrow> u32 \<Rightarrow> cc_asoc \<Rightarrow> cc_net \<Rightarrow> (cc_net \<times> u32 \<times> u32) option"
  after_output :: "u32 \<Rightarrow> cc_asoc \<Rightarrow> cc_net \<Rightarrow> cc_net"
  packet_transmitted :: "(int \<times> int \<Rightarrow> cc_net \<Rightarrow> cc_net) option"
  tsn_acknowledged :: "(u16 \<Rightarrow> cc_net \<Rightarrow> cc_net) option"
  new_transmission_begins :: "(cc_asoc \<Rightarrow> cc_net \<Rightarrow> cc_net) option"
  prepare_net_for_sack :: "(int \<times> int \<Rightarrow> cc_net \<Rightarrow> cc_net) option"
  socket_option_set :: "(cc_opt \<Rightarrow> u32 \<Rightarrow> cc_asoc \<Rightarrow> cc_errno + cc_asoc) option"
  rtt_calculated :: "(cc_net \<Rightarrow> cc_net) option"

datatype cc_row = CC_RFC2581 | CC_HSTCP | CC_HTCP | CC_RTCC

definition keep_asoc :: "cc_asoc \<Rightarrow> cc_net option \<Rightarrow> (cc_asoc \<times> cc_net) option" where
  "keep_asoc a r = map_option (Pair a) r"

definition rfc_row :: "cc_sysctl \<Rightarrow> sctp_cc_functions" where
  "rfc_row sc = \<lparr>set_initial = (\<lambda>a n. keep_asoc a (sctp_set_initial_cc_param sc a n)),
     after_sack = sctp_cwnd_update_after_sack sc,
     exit_pf = sctp_cwnd_update_exit_pf_common,
     after_fr = sctp_cwnd_update_after_fr,
     after_timeout = sctp_cwnd_update_after_timeout,
     after_ecn_echo = (\<lambda>w l a n. Some (sctp_cwnd_update_after_ecn_echo w l a n)),
     after_packet_dropped = sctp_cwnd_update_after_packet_dropped,
     after_output = sctp_cwnd_update_after_output,
     packet_transmitted = None, tsn_acknowledged = None, new_transmission_begins = None,
     prepare_net_for_sack = None, socket_option_set = None, rtt_calculated = None\<rparr>"

fun cc_functions :: "cc_sysctl \<Rightarrow> u32 \<Rightarrow> cc_row \<Rightarrow> sctp_cc_functions" where
  "cc_functions sc now CC_RFC2581 = rfc_row sc"
| "cc_functions sc now CC_HSTCP = (rfc_row sc)\<lparr>after_sack := sctp_hs_cwnd_update_after_sack,
     after_fr := sctp_hs_cwnd_update_after_fr\<rparr>"
| "cc_functions sc now CC_HTCP = (rfc_row sc)
     \<lparr>set_initial := (\<lambda>a n. Some (a, sctp_htcp_set_initial_cc_param now a n)),
      after_sack := sctp_htcp_cwnd_update_after_sack sc now,
      after_fr := sctp_htcp_cwnd_update_after_fr now,
      after_timeout := (\<lambda>a. sctp_htcp_cwnd_update_after_timeout now),
      after_ecn_echo := (\<lambda>w l. sctp_htcp_cwnd_update_after_ecn_echo now w)\<rparr>"
| "cc_functions sc now CC_RTCC = (rfc_row sc)
     \<lparr>set_initial := sctp_set_rtcc_initial_cc_param sc,
      after_sack := sctp_cwnd_update_rtcc_after_sack sc,
      after_ecn_echo := (\<lambda>w l a n. Some (sctp_cwnd_update_rtcc_after_ecn_echo w l a n)),
      packet_transmitted := Some sctp_cwnd_update_rtcc_packet_transmitted,
      tsn_acknowledged := Some sctp_cwnd_update_rtcc_tsn_acknowledged,
      new_transmission_begins := Some (sctp_cwnd_new_rtcc_transmission_begins sc),
      prepare_net_for_sack := Some sctp_cwnd_prepare_rtcc_net_for_sack,
      socket_option_set := Some rtcc_option_set,
      rtt_calculated := Some sctp_rtt_rtcc_calculated\<rparr>"

text \<open>The socket option \<^verbatim>\<open>SCTP_MAX_CWND\<close> on one association.\<close>

definition set_max_cwnd :: "u32 \<Rightarrow> cc_asoc \<Rightarrow> cc_asoc" where
  "set_max_cwnd v a =
     (let a = a\<lparr>max_cwnd := v\<rparr>
      in if 0 < max_cwnd a
         then a\<lparr>nets := map (\<lambda>n.
                if max_cwnd a < cwnd n \<and> mtu_room n < ucast (cwnd n)
                then let n = n\<lparr>cwnd := max_cwnd a\<rparr>
                     in if ucast (cwnd n) < mtu_room n then n\<lparr>cwnd := ucast (mtu_room n)\<rparr> else n
                else n) (nets a)\<rparr>
         else a)"

section \<open>Events\<close>

text \<open>The inputs that other parts of the stack set on a destination.\<close>

record net_input =
  in_lastsa :: u32
  in_rtt :: u64
  in_flight :: u32
  in_acked :: u32
  in_pseudo_cumack :: bool

datatype cc_event =
    Ev_initial nat
  | Ev_sack bool bool
  | Ev_fast_retransmit
  | Ev_exit_pf nat
  | Ev_timeout nat
  | Ev_ecn_echo nat bool u32
  | Ev_packet_dropped nat u32 u32
  | Ev_output nat u32
  | Ev_transmitted nat "int \<times> int"
  | Ev_acknowledged nat u16
  | Ev_begins nat
  | Ev_prepare nat "int \<times> int"
  | Ev_rtt nat
  | Ev_option cc_opt u32
  | Ev_max_cwnd u32
  | Ev_input nat net_input
  | Ev_path_mtu nat u32
  | Ev_recovery_over

definition on_net :: "(cc_asoc \<Rightarrow> cc_net \<Rightarrow> (cc_asoc \<times> cc_net) option) \<Rightarrow> nat \<Rightarrow> cc_asoc \<Rightarrow> cc_asoc option" where
  "on_net f i a =
     (if i < length (nets a)
      then do { (a', n) \<leftarrow> f a (nets a ! i); Some (a'\<lparr>nets := (nets a')[i := n]\<rparr>) }
      else None)"

definition only_net :: "(cc_net \<Rightarrow> cc_net) \<Rightarrow> nat \<Rightarrow> cc_asoc \<Rightarrow> cc_asoc option" where
  "only_net f = on_net (\<lambda>a n. Some (a, f n))"

definition net_hook :: "(cc_net \<Rightarrow> cc_net) option \<Rightarrow> nat \<Rightarrow> cc_asoc \<Rightarrow> cc_asoc option" where
  "net_hook h = (case h of None \<Rightarrow> only_net (\<lambda>n. n) | Some f \<Rightarrow> only_net f)"

text \<open>A router reports a smaller MTU of the path.\<close>

definition path_mtu :: "u32 \<Rightarrow> cc_net \<Rightarrow> cc_net" where
  "path_mtu next_mtu n = (if next_mtu < mtu n then n\<lparr>mtu := next_mtu\<rparr> else n)"

definition put_input :: "net_input \<Rightarrow> cc_net \<Rightarrow> cc_net" where
  "put_input v n = n\<lparr>lastsa := in_lastsa v, rtt := in_rtt v, flight_size := in_flight v,
     net_ack := in_acked v, new_pseudo_cumack := in_pseudo_cumack v\<rparr>"

fun cc_step :: "sctp_cc_functions \<Rightarrow> cc_event \<Rightarrow> cc_asoc \<Rightarrow> cc_asoc option" where
  "cc_step cc (Ev_initial i) a = on_net (set_initial cc) i a"
| "cc_step cc (Ev_sack accum_moved will_exit) a = after_sack cc accum_moved will_exit a"
| "cc_step cc Ev_fast_retransmit a = after_fr cc a"
| "cc_step cc (Ev_exit_pf i) a = only_net (exit_pf cc) i a"
| "cc_step cc (Ev_timeout i) a = on_net (\<lambda>a n. keep_asoc a (after_timeout cc a n)) i a"
| "cc_step cc (Ev_ecn_echo i in_window lost) a = on_net (after_ecn_echo cc in_window lost) i a"
| "cc_step cc (Ev_packet_dropped i bw q) a =
     on_net (\<lambda>a n. keep_asoc a (map_option fst (after_packet_dropped cc bw q a n))) i a"
| "cc_step cc (Ev_output i burst_limit) a = only_net (after_output cc burst_limit a) i a"
| "cc_step cc (Ev_transmitted i t) a = net_hook (map_option (\<lambda>f. f t) (packet_transmitted cc)) i a"
| "cc_step cc (Ev_acknowledged i sz) a = net_hook (map_option (\<lambda>f. f sz) (tsn_acknowledged cc)) i a"
| "cc_step cc (Ev_begins i) a = net_hook (map_option (\<lambda>f. f a) (new_transmission_begins cc)) i a"
| "cc_step cc (Ev_prepare i t) a = net_hook (map_option (\<lambda>f. f t) (prepare_net_for_sack cc)) i a"
| "cc_step cc (Ev_rtt i) a = net_hook (rtt_calculated cc) i a"
| "cc_step cc (Ev_option opt v) a =
     (case socket_option_set cc of None \<Rightarrow> Some a
      | Some f \<Rightarrow> (case f opt v a of Inl _ \<Rightarrow> Some a | Inr a' \<Rightarrow> Some a'))"
| "cc_step cc (Ev_max_cwnd v) a = Some (set_max_cwnd v a)"
| "cc_step cc (Ev_input i v) a = only_net (put_input v) i a"
| "cc_step cc (Ev_path_mtu i v) a = only_net (path_mtu v) i a"
| "cc_step cc Ev_recovery_over a = Some (a\<lparr>asoc_loss_recovery := False\<rparr>)"

text \<open>A history: events with the tick count at which they happen.\<close>

fun cc_run :: "cc_sysctl \<Rightarrow> cc_row \<Rightarrow> (u32 \<times> cc_event) list \<Rightarrow> cc_asoc \<Rightarrow> cc_asoc option" where
  "cc_run sc row [] a = Some a"
| "cc_run sc row ((now, e) # es) a = do { a \<leftarrow> cc_step (cc_functions sc now row) e a; cc_run sc row es a }"

end
