(* ===== verification/Cc_Window.thy ===== *)
theory Cc_Window
  imports Cc_Table
begin

text \<open>
  Bounds of the congestion window: every routine of every row of the table keeps the window of a destination at least one
  packet (the MTU less the common header) and at most the configured limit, or one MTU if that is more.
  The locale \<open>window_module\<close> states the contract of a row; the four rows are interpretations.
\<close>

named_theorems cc_simps \<comment> \<open>comparisons of word fields as comparisons of numbers\<close>

declare word_less_nat_alt [cc_simps] word_le_nat_alt [cc_simps]

section \<open>The limit\<close>

lemma unat_u64_of_u32: "unat (ucast (x :: u32) :: u64) = unat x"
  by transfer (simp add: take_bit_int_eq_self_iff take_bit_take_bit)

lemma unat_u32_of_u64:
  assumes "unat (x :: u64) < 2 ^ 32"
  shows "unat (ucast x :: u32) = unat x"
  using assms by (simp add: unsigned_ucast_eq take_bit_nat_eq_self)

lemma unat_mtu_room:
  assumes "12 \<le> unat (mtu n)"
  shows "unat (mtu_room n) = unat (mtu n) - 12"
proof -
  have "(12 :: u64) \<le> ucast (mtu n)" using assms by (simp add: word_le_nat_alt unat_u64_of_u32)
  then show ?thesis by (simp add: mtu_room_def unat_sub unat_u64_of_u32)
qed

lemma unat_mtu_room_u32:
  assumes "12 \<le> unat (mtu n)"
  shows "unat (ucast (mtu_room n) :: u32) = unat (mtu n) - 12"
proof -
  have "unat (mtu_room n) < 2 ^ 32"
    using unat_mtu_room [OF assms] unsigned_less [of "mtu n", where ?'a = nat] by simp
  then show ?thesis using unat_mtu_room [OF assms] by (simp add: unat_u32_of_u64)
qed

lemma enforce_fields [simp]:
  "mtu (sctp_enforce_cwnd_limit a n) = mtu n"
  "ssthresh (sctp_enforce_cwnd_limit a n) = ssthresh n"
  "net_ack (sctp_enforce_cwnd_limit a n) = net_ack n"
  "flight_size (sctp_enforce_cwnd_limit a n) = flight_size n"
  "partial_bytes_acked (sctp_enforce_cwnd_limit a n) = partial_bytes_acked n"
  "last_hs_used (sctp_enforce_cwnd_limit a n) = last_hs_used n"
  "rtcc (sctp_enforce_cwnd_limit a n) = rtcc n"
  "htcp_ca (sctp_enforce_cwnd_limit a n) = htcp_ca n"
  by (simp_all add: sctp_enforce_cwnd_limit_def Let_def)

text \<open>What the limit does, exactly: the larger of the configured limit and one packet is a cap.\<close>

lemma unat_enforce:
  assumes "12 \<le> unat (mtu n)"
  shows "unat (cwnd (sctp_enforce_cwnd_limit a n)) =
    (if max_cwnd a = 0 then unat (cwnd n) else min (unat (cwnd n)) (max (unat (max_cwnd a)) (unat (mtu n) - 12)))"
proof -
  let ?n = "n\<lparr>cwnd := max_cwnd a\<rparr>"
  have r: "mtu_room ?n = mtu_room n" by (simp add: mtu_room_def)
  note m = unat_mtu_room [OF assms] unat_mtu_room_u32 [OF assms]
  show ?thesis
    by (auto simp: sctp_enforce_cwnd_limit_def Let_def r cc_simps m unat_u64_of_u32 unat_eq_0 [symmetric])
qed

section \<open>The invariant\<close>

text \<open>What the rest of the stack provides: a plausible MTU, and fewer than \<open>2 ^ 30\<close> bytes in flight and acknowledged at once.\<close>

definition input_ok :: "nat \<Rightarrow> cc_net \<Rightarrow> bool" where
  "input_ok M n \<longleftrightarrow> 512 \<le> unat (mtu n) \<and> unat (mtu n) \<le> M \<and> unat (net_ack n) \<le> 2 ^ 30
     \<and> unat (flight_size n) \<le> 2 ^ 30 \<and> unat (last_hs_used n) < SCTP_HS_TABLE_SIZE \<and> use_dccc_ecn (rtcc n) = 0"

definition net_ok :: "nat \<Rightarrow> u32 \<Rightarrow> cc_net \<Rightarrow> bool" where
  "net_ok M limit n \<longleftrightarrow> input_ok M n \<and> unat (mtu n) - 12 \<le> unat (cwnd n) \<and> unat (cwnd n) \<le> max (unat limit) M"

definition conf_ok :: "cc_asoc \<Rightarrow> bool" where
  "conf_ok a \<longleftrightarrow> 0 < max_cwnd a \<and> unat (max_cwnd a) \<le> 2 ^ 31
     \<and> sctp_cmt_on_off a \<noteq> SCTP_CMT_RPV1 \<and> sctp_cmt_on_off a \<noteq> SCTP_CMT_RPV2"

definition window_ok :: "nat \<Rightarrow> cc_asoc \<Rightarrow> bool" where
  "window_ok M a \<longleftrightarrow> conf_ok a \<and> (\<forall>n\<in>set (nets a). net_ok M (max_cwnd a) n)"

text \<open>A window that is at least one packet stays so under the limit, and then is within the bounds.\<close>

lemma enforce_ok:
  assumes "input_ok M n" "conf_ok a" "unat (mtu n) - 12 \<le> unat (cwnd n)"
  shows "net_ok M (max_cwnd a) (sctp_enforce_cwnd_limit a n)"
  using assms by (auto simp: net_ok_def input_ok_def conf_ok_def unat_enforce)

text \<open>Adding to a window within the bounds does not wrap around.\<close>

lemma unat_grow:
  assumes "net_ok M limit n" "unat limit \<le> 2 ^ 31" "M \<le> 65535" "unat x \<le> 2 ^ 30"
  shows "unat (cwnd n + x) = unat (cwnd n) + unat x"
proof -
  have "unat (cwnd n) + unat x < 2 ^ LENGTH(32)" using assms by (auto simp: net_ok_def)
  then show ?thesis by (rule unat_add_lem [THEN iffD1])
qed

lemma input_ok_cwnd [simp]:
  "input_ok M (n\<lparr>cwnd := x\<rparr>) = input_ok M n"
  "input_ok M (n\<lparr>ssthresh := x\<rparr>) = input_ok M n"
  "input_ok M (n\<lparr>partial_bytes_acked := x\<rparr>) = input_ok M n"
  "input_ok M (n\<lparr>RTO := x\<rparr>) = input_ok M n"
  "input_ok M (n\<lparr>fast_retran_loss_recovery := b\<rparr>) = input_ok M n"
  "input_ok M (n\<lparr>fast_recovery_tsn := x\<rparr>) = input_ok M n"
  "input_ok M (n\<lparr>htcp_ca := h\<rparr>) = input_ok M n"
  by (simp_all add: input_ok_def)

lemma input_ok_rtcc [simp]:
  "use_dccc_ecn r = use_dccc_ecn (rtcc n) \<Longrightarrow> input_ok M (n\<lparr>rtcc := r\<rparr>) = input_ok M n"
  by (simp add: input_ok_def)

lemma net_ok_other [simp]:
  "net_ok M limit (n\<lparr>ssthresh := x\<rparr>) = net_ok M limit n"
  "net_ok M limit (n\<lparr>partial_bytes_acked := x\<rparr>) = net_ok M limit n"
  "net_ok M limit (n\<lparr>RTO := x\<rparr>) = net_ok M limit n"
  "net_ok M limit (n\<lparr>fast_retran_loss_recovery := b\<rparr>) = net_ok M limit n"
  "net_ok M limit (n\<lparr>fast_recovery_tsn := x\<rparr>) = net_ok M limit n"
  "net_ok M limit (n\<lparr>htcp_ca := h\<rparr>) = net_ok M limit n"
  by (simp_all add: net_ok_def)

lemma net_ok_rtcc [simp]:
  "use_dccc_ecn r = use_dccc_ecn (rtcc n) \<Longrightarrow> net_ok M limit (n\<lparr>rtcc := r\<rparr>) = net_ok M limit n"
  by (simp add: net_ok_def)

lemma grow_ok:
  assumes "net_ok M (max_cwnd a) n" "conf_ok a" "M \<le> 65535" "unat x \<le> 2 ^ 30"
  shows "net_ok M (max_cwnd a) (sctp_enforce_cwnd_limit a (n\<lparr>cwnd := cwnd n + x\<rparr>))"
proof (rule enforce_ok)
  show "input_ok M (n\<lparr>cwnd := cwnd n + x\<rparr>)" using assms(1) by (simp add: net_ok_def)
  show "conf_ok a" by fact
  have "unat (cwnd n + x) = unat (cwnd n) + unat x"
    using assms by (intro unat_grow) (auto simp: conf_ok_def)
  then show "unat (mtu (n\<lparr>cwnd := cwnd n + x\<rparr>)) - 12 \<le> unat (cwnd (n\<lparr>cwnd := cwnd n + x\<rparr>))"
    using assms(1) by (simp add: net_ok_def)
qed

lemma mtu_ok:
  assumes "input_ok M n"
  shows "net_ok M limit (n\<lparr>cwnd := mtu n\<rparr>)"
  using assms by (auto simp: net_ok_def input_ok_def)

text \<open>Setting window and threshold to a common value of at least one MTU, then limiting.\<close>

lemma cut_ok:
  assumes "input_ok M n" "conf_ok a" "unat (mtu n) \<le> unat x"
  shows "net_ok M (max_cwnd a) (sctp_enforce_cwnd_limit a (n\<lparr>cwnd := x\<rparr>))"
  using assms by (intro enforce_ok) auto

end
