(* ===== verification/Cc_Rows.thy ===== *)
theory Cc_Rows
  imports Cc_Window
begin

text \<open>
  Every routine of \<^verbatim>\<open>sctp_cc_functions.c\<close> keeps the bounds of the congestion window: one lemma per routine.
\<close>

named_theorems keeps_window \<comment> \<open>routines that keep the bounds of the window\<close>

section \<open>Arithmetic\<close>

lemma unat_mtu_mult:
  assumes "unat (m :: u32) \<le> 65535" "unat k \<le> 2 ^ 15"
  shows "unat (m * k) = unat m * unat k" "unat (k * m) = unat k * unat m"
proof -
  have "unat m * unat k \<le> 65535 * 2 ^ 15" using assms by (intro mult_le_mono) auto
  then have "unat m * unat k < 2 ^ LENGTH(32)" by simp
  then have "unat (m * k) = unat m * unat k" by (rule unat_mult_lem [THEN iffD1])
  then show "unat (m * k) = unat m * unat k" "unat (k * m) = unat k * unat m" by (simp_all add: mult.commute)
qed

lemma input_ok_mtu:
  assumes "input_ok M n" "M \<le> 65535"
  shows "unat (mtu n * 2) = 2 * unat (mtu n)" "unat (2 * mtu n) = 2 * unat (mtu n)"
    "unat (mtu n * 4) = 4 * unat (mtu n)" "unat (4 * mtu n) = 4 * unat (mtu n)"
  using assms by (simp_all add: input_ok_def unat_mtu_mult)

lemma unat_min_max:
  "unat (min a b) = min (unat a) (unat b)" "unat (max a b) = max (unat a) (unat b)"
  by (simp_all add: min_def max_def word_le_nat_alt)

section \<open>The default module\<close>

definition sc_ok :: "cc_sysctl \<Rightarrow> bool" where
  "sc_ok sc \<longleftrightarrow> unat (sctp_initial_cwnd sc) \<le> 2 ^ 15 \<and> (ucast (sctp_use_dccc_ecn sc) :: u8) = 0"

lemma rfc_initial_ge:
  assumes "input_ok M n" "M \<le> 65535"
  shows "unat (mtu n) \<le> unat (min (mtu n * 4) (max (2 * mtu n) SCTP_INITIAL_CWND))"
  using input_ok_mtu [OF assms] by (simp add: unat_min_max)

lemma initial_cwnd_ge:
  assumes "input_ok M n" "M \<le> 65535" "sc_ok sc"
  shows "unat (mtu n) - 12 \<le> unat (initial_cwnd sc a n)"
proof (cases "sctp_initial_cwnd sc = 0")
  case True
  then show ?thesis using rfc_initial_ge [OF assms(1,2)] by (simp add: initial_cwnd_def)
next
  case False
  define c where "c = (if 0 < max_burst a \<and> max_burst a < sctp_initial_cwnd sc then max_burst a else sctp_initial_cwnd sc)"
  have c: "0 < unat c" "unat c \<le> 2 ^ 15"
    using assms(3) False by (auto simp: c_def sc_ok_def cc_simps unat_gt_0)
  have m: "unat (mtu_room n) = unat (mtu n) - 12" "unat (mtu n) - 12 \<le> 65535"
    using assms(1,2) by (auto simp: input_ok_def intro: unat_mtu_room)
  have le: "unat (mtu_room n) * unat (ucast c :: u64) \<le> 65535 * 2 ^ 15"
    using m c by (intro mult_le_mono) (auto simp: unat_u64_of_u32)
  then have p: "unat (mtu_room n * ucast c) = unat (mtu_room n) * unat c"
    by (subst unat_mult_lem [THEN iffD1]) (simp_all add: unat_u64_of_u32)
  then have "unat (ucast (mtu_room n * ucast c) :: u32) = (unat (mtu n) - 12) * unat c"
    using le m by (subst unat_u32_of_u64) (simp_all add: unat_u64_of_u32)
  moreover have "(unat (mtu n) - 12) * 1 \<le> (unat (mtu n) - 12) * unat c"
    using c by (intro mult_le_mono2) simp
  ultimately show ?thesis using False by (simp add: initial_cwnd_def c_def Let_def)
qed

lemma set_initial_ok [keeps_window]:
  assumes "sctp_set_initial_cc_param sc a n = Some n'" "input_ok M n" "conf_ok a" "M \<le> 65535" "sc_ok sc"
  shows "net_ok M (max_cwnd a) n'"
proof -
  have "n' = (sctp_enforce_cwnd_limit a (n\<lparr>cwnd := initial_cwnd sc a n\<rparr>))\<lparr>ssthresh := peers_rwnd a\<rparr>"
    using assms(1,3) by (simp add: sctp_set_initial_cc_param_def conf_ok_def)
  then show ?thesis
    using enforce_ok [of M "n\<lparr>cwnd := initial_cwnd sc a n\<rparr>" a] initial_cwnd_ge [OF assms(2,4,5), of a] assms(2,3)
    by simp
qed

lemma fr_cut_ok [keeps_window]:
  assumes "fr_cut t a n = Some n'" "net_ok M (max_cwnd a) n" "conf_ok a" "M \<le> 65535"
  shows "net_ok M (max_cwnd a) n'"
proof -
  define x where "x = (if cwnd n div 2 < mtu n * 2 then 2 * mtu n else cwnd n div 2)"
  have i: "input_ok M n" using assms(2) by (simp add: net_ok_def)
  have "n' = sctp_enforce_cwnd_limit a (n\<lparr>ssthresh := x, cwnd := x\<rparr>)"
    using assms(1,3) by (auto simp: fr_cut_def conf_ok_def Let_def x_def split: prod.splits)
  moreover have "unat (mtu n) \<le> unat x"
    using input_ok_mtu [OF i assms(4)] by (auto simp: x_def cc_simps)
  ultimately show ?thesis using cut_ok [of M "n\<lparr>ssthresh := x\<rparr>" a x] i assms(3) by simp
qed

lemma enter_recovery_net_ok [simp]: "net_ok M limit (enter_recovery_net a n) = net_ok M limit n"
  by (simp add: enter_recovery_net_def)

text \<open>The parts of an association that no routine of this file changes.\<close>

definition same_conf :: "cc_asoc \<Rightarrow> cc_asoc \<Rightarrow> bool" where
  "same_conf a b \<longleftrightarrow> max_cwnd b = max_cwnd a \<and> sctp_cmt_on_off b = sctp_cmt_on_off a"

lemma same_conf_refl [simp]: "same_conf a a"
  by (simp add: same_conf_def)

lemma same_conf_ok: "same_conf a b \<Longrightarrow> conf_ok b = conf_ok a"
  by (simp add: same_conf_def conf_ok_def)

lemma enter_recovery_conf [simp]: "same_conf a (enter_recovery i a)"
  by (simp add: enter_recovery_def same_conf_def)

lemma stat_conf [simp]: "same_conf a (a\<lparr>sctps_fastretransinrtt := x\<rparr>)"
  by (simp add: same_conf_def)

lemma same_conf_trans: "same_conf a b \<Longrightarrow> same_conf b c \<Longrightarrow> same_conf a c"
  by (simp add: same_conf_def)

text \<open>The three ways one destination goes through the loop.\<close>

lemma fr_loop_cases:
  assumes "fr_loop red i a (n # ns) = Some (a', ns')"
  obtains (cut) m ms where "\<not> asoc_loss_recovery a \<or> 0 < sctp_cmt_on_off a" "0 < net_ack n" "red a n = Some m"
      "fr_loop red (Suc i) (enter_recovery i a) ns = Some (a', ms)" "ns' = enter_recovery_net a m # ms"
  | (skip) ms where "net_ack n = 0" "fr_loop red (Suc i) a ns = Some (a', ms)" "ns' = n # ms"
  | (held) ms where "asoc_loss_recovery a" "sctp_cmt_on_off a = 0" "0 < net_ack n"
      "fr_loop red (Suc i) (a\<lparr>sctps_fastretransinrtt := sctps_fastretransinrtt a + 1\<rparr>) ns = Some (a', ms)"
      "ns' = n # ms"
proof (cases "\<not> asoc_loss_recovery a \<or> 0 < sctp_cmt_on_off a")
  case True
  show ?thesis
  proof (cases "0 < net_ack n")
    case acked: True
    with True assms obtain m ms where "red a n = Some m"
      "fr_loop red (Suc i) (enter_recovery i a) ns = Some (a', ms)" "ns' = enter_recovery_net a m # ms"
      by (auto simp: bind_Some_iff)
    with True acked show ?thesis by (rule cut)
  next
    case False
    with True assms obtain ms where "fr_loop red (Suc i) a ns = Some (a', ms)" "ns' = n # ms"
      by (auto simp: bind_Some_iff)
    with False show ?thesis by (intro skip) (auto simp: word_gt_0)
  qed
next
  case False
  show ?thesis
  proof (cases "0 < net_ack n")
    case acked: True
    with False assms obtain ms where
      "fr_loop red (Suc i) (a\<lparr>sctps_fastretransinrtt := sctps_fastretransinrtt a + 1\<rparr>) ns = Some (a', ms)"
      "ns' = n # ms"
      by (auto simp: bind_Some_iff)
    with False acked show ?thesis by (intro held) (auto simp: word_gt_0)
  next
    case none: False
    with False assms obtain ms where "fr_loop red (Suc i) a ns = Some (a', ms)" "ns' = n # ms"
      by (auto simp: bind_Some_iff)
    with none show ?thesis by (intro skip) (auto simp: word_gt_0)
  qed
qed

text \<open>A routine that keeps the bounds of one destination.\<close>

definition cut_keeps :: "nat \<Rightarrow> (cc_asoc \<Rightarrow> cc_net \<Rightarrow> cc_net option) \<Rightarrow> bool" where
  "cut_keeps M red \<longleftrightarrow> (\<forall>a n n'. red a n = Some n' \<longrightarrow> net_ok M (max_cwnd a) n \<longrightarrow> conf_ok a
     \<longrightarrow> net_ok M (max_cwnd a) n')"

lemma fr_loop_ok:
  assumes "cut_keeps M red" "fr_loop red i a ns = Some (a', ns')"
    "\<forall>n\<in>set ns. net_ok M (max_cwnd a) n" "conf_ok a"
  shows "(\<forall>n\<in>set ns'. net_ok M (max_cwnd a) n) \<and> same_conf a a' \<and> length ns' = length ns"
  using assms(2-4)
proof (induction ns arbitrary: i a ns')
  case Nil
  then show ?case by simp
next
  case (Cons n ns)
  have step: "(\<forall>n\<in>set ms. net_ok M (max_cwnd a) n) \<and> same_conf a a' \<and> length ms = length ns"
    if "fr_loop red (Suc i) b ns = Some (a', ms)" "same_conf a b" for b ms
    using Cons.IH [OF that(1)] Cons.prems(2,3) that(2) same_conf_ok [OF that(2)]
    by (auto simp: same_conf_def)
  show ?case
    using Cons.prems(1)
  proof (cases rule: fr_loop_cases)
    case (cut m ms)
    have "net_ok M (max_cwnd a) m"
      using assms(1) cut(3) Cons.prems(2,3) by (simp add: cut_keeps_def)
    with step [OF cut(4)] cut(5) show ?thesis by simp
  next
    case (skip ms)
    with step [OF skip(2)] Cons.prems(2) show ?thesis by simp
  next
    case (held ms)
    with step [OF held(4)] Cons.prems(2) show ?thesis by simp
  qed
qed

lemma run_fr_ok:
  assumes "cut_keeps M red" "run_fr red a = Some a'" "window_ok M a"
  shows "window_ok M a' \<and> same_conf a a' \<and> length (nets a') = length (nets a)"
proof -
  from assms(2) obtain b ns where r: "fr_loop red 0 a (nets a) = Some (b, ns)" and a': "a' = b\<lparr>nets := ns\<rparr>"
    by (auto simp: run_fr_def bind_Some_iff)
  have "(\<forall>n\<in>set ns. net_ok M (max_cwnd a) n) \<and> same_conf a b \<and> length ns = length (nets a)"
    using fr_loop_ok [OF assms(1) r] assms(3) by (simp add: window_ok_def)
  then show ?thesis using assms(3) by (simp add: a' window_ok_def conf_ok_def same_conf_def)
qed

lemma after_fr_ok [keeps_window]:
  assumes "sctp_cwnd_update_after_fr a = Some a'" "window_ok M a" "M \<le> 65535"
  shows "window_ok M a' \<and> same_conf a a' \<and> length (nets a') = length (nets a)"
proof (rule run_fr_ok)
  show "cut_keeps M (fr_cut (fr_sums a))" using fr_cut_ok assms(3) by (auto simp: cut_keeps_def)
  show "run_fr (fr_cut (fr_sums a)) a = Some a'" using assms(1) by (simp add: sctp_cwnd_update_after_fr_def)
qed fact

section \<open>After a SACK\<close>

lemma ss_incr_le:
  assumes "ss_incr sc a f n = Some x" "input_ok M n" "conf_ok a"
  shows "unat x \<le> 2 ^ 30"
proof -
  have "x \<le> net_ack n"
    using assms(1,3)
    by (auto simp: ss_incr_def conf_ok_def Let_def split: prod.splits if_splits)
  then show ?thesis using assms(2) by (simp add: word_le_nat_alt input_ok_def)
qed

lemma ca_incr_le:
  assumes "ca_incr a f n = Some x" "input_ok M n" "conf_ok a" "M \<le> 65535"
  shows "unat x \<le> 2 ^ 30"
proof -
  have "x \<le> mtu n"
    using assms(1,3)
    by (auto simp: ca_incr_def conf_ok_def Let_def split: prod.splits if_splits)
  then show ?thesis using assms(2,4) by (simp add: word_le_nat_alt input_ok_def)
qed

lemma net_ok_input: "net_ok M limit n \<Longrightarrow> input_ok M n"
  by (simp add: net_ok_def)

lemma grow_net_ok [keeps_window]:
  assumes "grow_net sc a f n = Some n'" "net_ok M (max_cwnd a) n" "conf_ok a" "M \<le> 65535"
  shows "net_ok M (max_cwnd a) n'"
proof -
  let ?p = "\<lambda>x. n\<lparr>partial_bytes_acked := x\<rparr>"
  have ss: "net_ok M (max_cwnd a) (sctp_enforce_cwnd_limit a (n\<lparr>cwnd := cwnd n + x\<rparr>))"
    if "ss_incr sc a f n = Some x" for x
    using grow_ok [OF assms(2-4) ss_incr_le [OF that net_ok_input [OF assms(2)] assms(3)]] .
  have ca: "net_ok M (max_cwnd a) (sctp_enforce_cwnd_limit a ((?p y)\<lparr>cwnd := cwnd n + x\<rparr>))"
    if "ca_incr a f (?p y) = Some x" for x y
    using grow_ok [of M a "?p y" x] ca_incr_le [OF that _ assms(3,4)] assms(2-4) net_ok_input [OF assms(2)]
    by simp
  show ?thesis
    using assms(1,2) ss ca
    by (auto simp: grow_net_def Let_def bind_Some_iff split: if_splits)
qed

lemma step_down_ok:
  assumes "try_step_down n inst = (n', s)" "net_ok M limit n" "M \<le> 65535"
  shows "net_ok M limit n'"
proof -
  have "net_ok M limit (n\<lparr>cwnd := cwnd n - mtu n\<rparr>)" if "4 * mtu n < cwnd n"
  proof -
    have "4 * unat (mtu n) < unat (cwnd n)"
      using that input_ok_mtu [OF net_ok_input [OF assms(2)] assms(3)] by (simp add: cc_simps)
    moreover from this have "unat (cwnd n - mtu n) = unat (cwnd n) - unat (mtu n)"
      by (intro unat_sub) (simp add: word_le_nat_alt)
    ultimately show ?thesis using assms(2) by (auto simp: net_ok_def)
  qed
  then show ?thesis
    using assms(1,2) by (auto simp: try_step_down_def Let_def split: if_splits)
qed

lemma set_bw_ok [simp]: "net_ok M limit (set_bw nbw n) = net_ok M limit n"
  by (simp add: set_bw_def)

lemma cc_bw_same_ok:
  assumes "cc_bw_same n nbw off inst = (n', r)" "net_ok M limit n" "M \<le> 65535"
  shows "net_ok M limit n'"
proof -
  obtain m s where t: "try_step_down n inst = (m, s)" by fastforce
  note step_down_ok [OF t assms(2,3)]
  then show ?thesis
    using assms(1,2) t by (auto simp: cc_bw_same_def Let_def split: if_splits)
qed

lemma take_back_ok:
  assumes "net_ok M (max_cwnd a) n" "conf_ok a" "M \<le> 65535"
  shows "net_ok M (max_cwnd a) (take_back a n inst st)"
proof -
  have "unat (mtu n) \<le> 2 ^ 30" using assms by (auto simp: net_ok_def input_ok_def)
  from grow_ok [OF assms this] show ?thesis
    using assms(1) by (simp add: take_back_def Let_def)
qed

lemma cc_bw_decrease_ok:
  assumes "cc_bw_decrease a n nbw off inst = (n', r)" "net_ok M (max_cwnd a) n" "conf_ok a" "M \<le> 65535"
  shows "net_ok M (max_cwnd a) n'"
  using assms(1,2) take_back_ok [OF assms(2-4)]
  by (auto simp: cc_bw_decrease_def Let_def split: if_splits)

lemma cc_bw_increase_ok:
  assumes "cc_bw_increase n nbw = (n', r)" "net_ok M limit n"
  shows "net_ok M limit n'"
  using assms by (auto simp: cc_bw_increase_def Let_def split: if_splits)

lemma instant_bw_ok:
  assumes "instant_bw sc n nbw = (n', i)" "net_ok M limit n"
  shows "net_ok M limit n'"
  using assms by (auto simp: instant_bw_def Let_def split: if_splits)

lemma cc_bw_limit_ok:
  assumes "cc_bw_limit sc a n nbw = (n', r)" "net_ok M (max_cwnd a) n" "conf_ok a" "M \<le> 65535"
  shows "net_ok M (max_cwnd a) n'"
proof -
  obtain m i where m: "instant_bw sc n nbw = (m, i)" by fastforce
  note mk = instant_bw_ok [OF m assms(2)]
  define k where "k = (if lbw (rtcc m) + drop_bit (unat (sctp_rttvar_bw sc)) (lbw (rtcc m)) < nbw
    then cc_bw_increase m nbw
    else if nbw < lbw (rtcc m) - drop_bit (unat (sctp_rttvar_bw sc)) (lbw (rtcc m))
    then cc_bw_decrease a m nbw (drop_bit (unat (sctp_rttvar_rtt sc)) (lbw_rtt (rtcc m))) i
    else cc_bw_same m nbw (drop_bit (unat (sctp_rttvar_rtt sc)) (lbw_rtt (rtcc m))) i)"
  obtain p q where k: "k = (p, q)" by fastforce
  have "net_ok M (max_cwnd a) p"
    using k mk cc_bw_increase_ok [of m nbw p q] cc_bw_decrease_ok [of a m nbw _ i p q] assms(3,4)
      cc_bw_same_ok [of m nbw _ i p q]
    by (auto simp: k_def split: if_splits)
  moreover have "n' = p\<lparr>rtcc := (rtcc p)\<lparr>last_inst_ind := i\<rparr>\<rparr>"
    using assms(1) k unfolding k_def by (simp add: cc_bw_limit_def m Let_def)
  ultimately show ?thesis by simp
qed

lemma rtcc_measure_ok:
  assumes "rtcc_measure sc a n = (n', h)" "net_ok M (max_cwnd a) n" "conf_ok a" "M \<le> 65535"
  shows "net_ok M (max_cwnd a) n'"
proof (cases "lbw (rtcc n) = 0")
  case True
  then show ?thesis using assms(1,2) by (auto simp: rtcc_measure_def Let_def split: if_splits)
next
  case False
  then show ?thesis
    using assms(1) cc_bw_limit_ok [OF _ assms(2-4), of sc]
    by (fastforce simp: rtcc_measure_def Let_def split: prod.splits)
qed

lemma sack_net_ok [keeps_window]:
  assumes "sack_net sc a f acc use n = Some n'" "net_ok M (max_cwnd a) n" "conf_ok a" "M \<le> 65535"
  shows "net_ok M (max_cwnd a) n'"
proof -
  obtain m h where m: "(if use \<and> 0 < tls_needs_set (rtcc n) then rtcc_measure sc a n else (n, False)) = (m, h)"
    by fastforce
  have "net_ok M (max_cwnd a) m"
    using m rtcc_measure_ok [OF _ assms(2-4), of sc m h] assms(2) by (auto split: if_splits)
  then show ?thesis
    using assms(1,3,4) grow_net_ok [of sc a f m n' M]
    by (auto simp: sack_net_def m split: if_splits)
qed

definition upd_keeps :: "nat \<Rightarrow> cc_asoc \<Rightarrow> (cc_net \<Rightarrow> cc_net option) \<Rightarrow> bool" where
  "upd_keeps M a upd \<longleftrightarrow> (\<forall>n n'. upd n = Some n' \<longrightarrow> net_ok M (max_cwnd a) n \<longrightarrow> net_ok M (max_cwnd a) n')"

lemma sack_loop_ok:
  assumes "upd_keeps M a upd" "sack_loop a will_exit upd ns = Some ns'" "\<forall>n\<in>set ns. net_ok M (max_cwnd a) n"
  shows "(\<forall>n\<in>set ns'. net_ok M (max_cwnd a) n) \<and> length ns' = length ns"
  using assms(2,3)
proof (induction ns arbitrary: ns')
  case (Cons n ns)
  then show ?case
    using assms(1) by (auto simp: bind_Some_iff upd_keeps_def split: if_splits)
qed simp

lemma run_sack_ok:
  assumes "upd_keeps M a upd" "run_sack will_exit upd a = Some a'" "window_ok M a"
  shows "window_ok M a' \<and> same_conf a a' \<and> length (nets a') = length (nets a)"
  using assms(2,3) sack_loop_ok [OF assms(1), of will_exit "nets a"]
  by (auto simp: run_sack_def bind_Some_iff window_ok_def conf_ok_def same_conf_def)

lemma after_sack_ok [keeps_window]:
  assumes "sctp_cwnd_update_after_sack_common sc acc will_exit use a = Some a'" "window_ok M a" "M \<le> 65535"
  shows "window_ok M a' \<and> same_conf a a' \<and> length (nets a') = length (nets a)"
proof -
  from assms(1) obtain f where "run_sack will_exit (sack_net sc a f acc use) a = Some a'"
    by (auto simp: sctp_cwnd_update_after_sack_common_def bind_Some_iff)
  moreover have "upd_keeps M a (sack_net sc a f acc use)"
    using sack_net_ok assms(2,3) by (auto simp: upd_keeps_def window_ok_def)
  ultimately show ?thesis using run_sack_ok assms(2) by blast
qed

section \<open>Other events\<close>

lemma after_timeout_ok [keeps_window]:
  assumes "sctp_cwnd_update_after_timeout a n = Some n'" "net_ok M limit n" "conf_ok a"
  shows "net_ok M limit n'"
proof -
  let ?n = "n\<lparr>ssthresh := max (cwnd n div 2) (4 * mtu n)\<rparr>"
  have "n' = ?n\<lparr>cwnd := mtu ?n, partial_bytes_acked := 0\<rparr>"
    using assms(1,3) by (auto simp: sctp_cwnd_update_after_timeout_def conf_ok_def)
  then show ?thesis using mtu_ok [of M ?n limit] net_ok_input [OF assms(2)] by simp
qed

lemma after_ecn_echo_ok [keeps_window]:
  assumes "sctp_cwnd_update_after_ecn_echo_common w l use a n = (a', n')" "net_ok M (max_cwnd a) n"
  shows "net_ok M (max_cwnd a) n' \<and> same_conf a a' \<and> nets a' = nets a"
proof -
  have "use_dccc_ecn (rtcc n) = 0" using assms(2) by (simp add: net_ok_def input_ok_def)
  moreover have "net_ok M (max_cwnd a) (n\<lparr>cwnd := x\<rparr>)" if "x = cwnd n div 2" "\<not> x < mtu n" for x
    using assms(2) that by (auto simp: net_ok_def cc_simps unat_div)
  moreover have "net_ok M (max_cwnd a) (n\<lparr>cwnd := mtu n\<rparr>)"
    by (rule mtu_ok [OF net_ok_input [OF assms(2)]])
  ultimately show ?thesis
    using assms by (auto simp: sctp_cwnd_update_after_ecn_echo_common_def Let_def same_conf_def net_ok_def split: if_splits)
qed

lemma pd_over_ok:
  assumes "pd_over q bw a n = Some n'" "input_ok M n"
  shows "input_ok M n'"
  using assms by (auto simp: pd_over_def Let_def bind_Some_iff)

lemma pd_under_ok: "input_ok M n \<Longrightarrow> input_ok M (pd_under q bw a n)"
  by (simp add: pd_under_def Let_def)

lemma pd_clip_ok:
  assumes "input_ok M n"
  shows "input_ok M (pd_clip bw n)" "unat (mtu (pd_clip bw n)) \<le> unat (cwnd (pd_clip bw n))"
  using assms by (auto simp: pd_clip_def Let_def cc_simps)

lemma after_packet_dropped_ok [keeps_window]:
  assumes "sctp_cwnd_update_after_packet_dropped bw q a n = Some (n', r)" "input_ok M n" "conf_ok a"
  shows "net_ok M (max_cwnd a) n'"
proof -
  let ?r = "if pd_bw_avail bw n < pd_on_queue q n then pd_over (pd_on_queue q n) (pd_bw_avail bw n) a n
    else Some (pd_under (pd_on_queue q n) (pd_bw_avail bw n) a n)"
  obtain m where m: "?r = Some m" and n': "n' = sctp_enforce_cwnd_limit a (pd_clip (pd_bw_avail bw n) m)"
    using assms(1) by (auto simp only: sctp_cwnd_update_after_packet_dropped_def Let_def bind_Some_iff
        option.inject prod.inject)
  have i: "input_ok M m"
    using m pd_over_ok [OF _ assms(2)] pd_under_ok [OF assms(2)] by (auto split: if_splits)
  show ?thesis unfolding n'
    using enforce_ok [OF pd_clip_ok(1) [OF i] assms(3)] pd_clip_ok(2) [OF i, of "pd_bw_avail bw n"] by simp
qed

lemma after_output_ok [keeps_window]:
  assumes "net_ok M (max_cwnd a) n" "conf_ok a" "M \<le> 65535" "unat b * M \<le> 2 ^ 30"
  shows "net_ok M (max_cwnd a) (sctp_cwnd_update_after_output b a n)"
proof (cases "b = 0")
  case True
  then show ?thesis using assms(1) by (simp add: sctp_cwnd_update_after_output_def Let_def)
next
  case False
  have i: "input_ok M n" by (rule net_ok_input [OF assms(1)])
  have b: "0 < unat b" using False by (simp add: unat_gt_0)
  have "unat b * unat (mtu n) \<le> unat b * M" using i by (intro mult_le_mono2) (simp add: input_ok_def)
  then have p: "unat b * unat (mtu n) \<le> 2 ^ 30" using assms(4) by linarith
  then have pm: "unat (b * mtu n) = unat b * unat (mtu n)"
    by (intro unat_mult_lem [THEN iffD1]) simp
  then have s: "unat (flight_size n + b * mtu n) = unat (flight_size n) + unat b * unat (mtu n)"
    using p i by (subst unat_add_lem [THEN iffD1]) (simp_all add: input_ok_def)
  have "unat (mtu n) \<le> unat b * unat (mtu n)" using b by simp
  then have "unat (mtu n) \<le> unat (flight_size n + b * mtu n)" using s by linarith
  from cut_ok [OF i assms(2) this] cut_ok [of M "n\<lparr>ssthresh := cwnd n\<rparr>" a "flight_size n + b * mtu n"] this i assms(2)
  show ?thesis using False by (simp add: sctp_cwnd_update_after_output_def Let_def)
qed

end
