(* ===== verification/Cc_Modules.thy ===== *)
theory Cc_Modules
  imports Cc_Rows
begin

text \<open>
  The high-speed modules keep the bounds of the window as well, and the contract of a row of the table: the locale
  \<open>window_module\<close>, interpreted for all four rows. Its client is the history of calls.
\<close>

section \<open>HS-TCP\<close>

lemma hs_table_ok:
  assumes "i < SCTP_HS_TABLE_SIZE"
  shows "unat (hs_increase i) \<le> 73" "unat (hs_drop_percent i) \<le> 50"
proof -
  have "list_all (\<lambda>(c, u, d). unat u \<le> 73 \<and> unat d \<le> 50) sctp_cwnd_adjust"
    by (simp add: sctp_cwnd_adjust_def)
  moreover have "length sctp_cwnd_adjust = SCTP_HS_TABLE_SIZE"
    by (simp add: sctp_cwnd_adjust_def SCTP_HS_TABLE_SIZE_def)
  ultimately show "unat (hs_increase i) \<le> 73" "unat (hs_drop_percent i) \<le> 50"
    using assms by (auto simp: list_all_length hs_increase_def hs_drop_percent_def case_prod_beta)
qed

lemma hs_cwnd_0: "hs_cwnd 0 = 38"
  by (simp add: hs_cwnd_def sctp_cwnd_adjust_def)

lemma hs_search_less: "hs_search v i < SCTP_HS_TABLE_SIZE"
proof (induction v i rule: hs_search.induct)
  case (1 v i)
  then show ?case by (subst hs_search.simps) (simp add: SCTP_HS_TABLE_SIZE_def)
qed

lemma unat_hs_increase:
  assumes "i < SCTP_HS_TABLE_SIZE"
  shows "unat (push_bit 10 (hs_increase i)) = 1024 * unat (hs_increase i)"
proof -
  have "unat (hs_increase i) * unat (1024 :: u32) < 2 ^ LENGTH(32)" using hs_table_ok [OF assms] by simp
  from unat_mult_lem [THEN iffD1, OF this] show ?thesis by (simp add: push_bit_eq_mult mult.commute)
qed

lemma net_ok_hs [simp]:
  "unat x < SCTP_HS_TABLE_SIZE \<Longrightarrow> net_ok M limit n \<Longrightarrow> net_ok M limit (n\<lparr>last_hs_used := x\<rparr>)"
  by (simp add: net_ok_def input_ok_def)

lemma unat_of_row: "i < SCTP_HS_TABLE_SIZE \<Longrightarrow> unat (of_nat i :: u8) = i"
  by (simp add: SCTP_HS_TABLE_SIZE_def unat_of_nat)

lemma hs_increase_ok [keeps_window]:
  assumes "net_ok M (max_cwnd a) n" "conf_ok a" "M \<le> 65535"
  shows "net_ok M (max_cwnd a) (sctp_hs_cwnd_increase a n)"
proof (cases "drop_bit 10 (cwnd n) < hs_cwnd 0")
  case True
  have "unat (mtu n) \<le> 2 ^ 30" "unat (net_ack n) \<le> 2 ^ 30" using assms by (auto simp: net_ok_def input_ok_def)
  with grow_ok [OF assms] show ?thesis
    using True by (simp add: sctp_hs_cwnd_increase_def Let_def)
next
  case False
  define i where "i = hs_search (drop_bit 10 (cwnd n)) (unat (last_hs_used n))"
  have i: "i < SCTP_HS_TABLE_SIZE" unfolding i_def by (rule hs_search_less)
  have "net_ok M (max_cwnd a) (n\<lparr>last_hs_used := of_nat i\<rparr>)"
    using assms(1) i by (simp add: unat_of_row)
  from grow_ok [OF this assms(2,3), of "push_bit 10 (hs_increase i)"] show ?thesis
    using False hs_table_ok(1) [OF i] unat_hs_increase [OF i]
    by (simp add: sctp_hs_cwnd_increase_def Let_def i_def)
qed

text \<open>The table never takes away more than half, and it applies from 38 kilobytes on.\<close>

lemma hs_drop_ge:
  assumes "\<not> drop_bit 10 (c :: u32) < 38" "unat d \<le> 50"
  shows "19456 \<le> unat (c - c div 100 * d)" "unat (c - c div 100 * d) \<le> unat c"
proof -
  have c: "38912 \<le> unat c"
    using assms(1) by (simp add: word_less_nat_alt drop_bit_eq_div unat_div)
  have half: "unat c div 100 * unat d \<le> unat c div 2"
  proof -
    have "unat c div 100 * unat d \<le> unat c div 100 * 50" using assms(2) by simp
    also have "\<dots> \<le> unat c div 2" by linarith
    finally show ?thesis .
  qed
  moreover have "unat c < 2 ^ 32" using unsigned_less [of c, where ?'a = nat] by simp
  ultimately have "unat (c div 100) * unat d < 2 ^ LENGTH(32)" by (simp add: unat_div)
  from unat_mult_lem [THEN iffD1, OF this] have p: "unat (c div 100 * d) = unat c div 100 * unat d"
    by (simp add: unat_div)
  with half have "unat (c - c div 100 * d) = unat c - unat c div 100 * unat d"
    by (subst unat_sub) (simp_all add: word_le_nat_alt)
  with half c show "19456 \<le> unat (c - c div 100 * d)" "unat (c - c div 100 * d) \<le> unat c"
    by linarith+
qed

lemma hs_decrease_ok [keeps_window]:
  assumes "sctp_hs_cwnd_decrease a n = Some n'" "net_ok M (max_cwnd a) n" "conf_ok a" "M \<le> 19456"
  shows "net_ok M (max_cwnd a) n'"
proof (cases "drop_bit 10 (cwnd n) < hs_cwnd 0")
  case True
  define x where "x = (if cwnd n div 2 < mtu n * 2 then 2 * mtu n else cwnd n div 2)"
  have i: "input_ok M n" using assms(2) by (simp add: net_ok_def)
  have "n' = sctp_enforce_cwnd_limit a (n\<lparr>ssthresh := x, cwnd := x\<rparr>)"
    using assms(1) True by (auto simp: sctp_hs_cwnd_decrease_def Let_def x_def)
  moreover have "unat (mtu n) \<le> unat x"
    using input_ok_mtu [OF i] assms(4) by (auto simp: x_def cc_simps)
  ultimately show ?thesis using cut_ok [of M "n\<lparr>ssthresh := x\<rparr>" a x] i assms(3) by simp
next
  case False
  define x where "x = cwnd n - cwnd n div 100 * hs_drop_percent (unat (last_hs_used n))"
  have i: "input_ok M n" using assms(2) by (simp add: net_ok_def)
  have l: "unat (last_hs_used n) < SCTP_HS_TABLE_SIZE" using i by (simp add: input_ok_def)
  have x: "19456 \<le> unat x"
    using hs_drop_ge(1) False hs_table_ok(2) [OF l] by (simp add: x_def hs_cwnd_0)
  define u where "u = (if drop_bit 10 x < hs_cwnd 0 then 0 else last_hs_used n)"
  have u: "unat u < SCTP_HS_TABLE_SIZE" using l by (simp add: u_def SCTP_HS_TABLE_SIZE_def)
  have n': "n' = sctp_enforce_cwnd_limit a (n\<lparr>ssthresh := x, cwnd := x, last_hs_used := u\<rparr>)"
    using assms(1) False l by (auto simp: sctp_hs_cwnd_decrease_def Let_def x_def u_def)
  show ?thesis unfolding n'
    by (rule enforce_ok) (use i u x assms(3,4) in \<open>auto simp: input_ok_def\<close>)
qed

lemma hs_after_fr_ok [keeps_window]:
  assumes "sctp_hs_cwnd_update_after_fr a = Some a'" "window_ok M a" "M \<le> 19456"
  shows "window_ok M a' \<and> same_conf a a' \<and> length (nets a') = length (nets a)"
proof (rule run_fr_ok)
  show "cut_keeps M sctp_hs_cwnd_decrease" using hs_decrease_ok assms(3) by (auto simp: cut_keeps_def)
  show "run_fr sctp_hs_cwnd_decrease a = Some a'" using assms(1) by (simp add: sctp_hs_cwnd_update_after_fr_def)
qed fact

lemma hs_sack_net_ok:
  assumes "net_ok M (max_cwnd a) n" "conf_ok a" "M \<le> 65535"
  shows "net_ok M (max_cwnd a) (hs_sack_net a acc n)"
proof -
  have "unat (mtu n) \<le> 2 ^ 30" using assms by (auto simp: net_ok_def input_ok_def)
  then have "net_ok M (max_cwnd a) (sctp_enforce_cwnd_limit a (n\<lparr>partial_bytes_acked := x, cwnd := cwnd n + mtu n\<rparr>))" for x
    using grow_ok [of M a "n\<lparr>partial_bytes_acked := x\<rparr>" "mtu n"] assms by simp
  with hs_increase_ok [OF assms] show ?thesis
    using assms(1) by (simp add: hs_sack_net_def Let_def)
qed

lemma hs_after_sack_ok [keeps_window]:
  assumes "sctp_hs_cwnd_update_after_sack acc will_exit a = Some a'" "window_ok M a" "M \<le> 65535"
  shows "window_ok M a' \<and> same_conf a a' \<and> length (nets a') = length (nets a)"
proof (rule run_sack_ok)
  show "upd_keeps M a (\<lambda>n. Some (hs_sack_net a acc n))"
    using hs_sack_net_ok assms(2,3) by (auto simp: upd_keeps_def window_ok_def)
  show "run_sack will_exit (\<lambda>n. Some (hs_sack_net a acc n)) a = Some a'"
    using assms(1) by (simp add: sctp_hs_cwnd_update_after_sack_def)
qed fact

section \<open>H-TCP\<close>

lemma htcp_param_update_shape:
  assumes "htcp_param_update now n = Some n'"
  obtains h where "n' = n\<lparr>htcp_ca := h\<rparr>"
  using assms by (auto simp: htcp_param_update_def Let_def bind_Some_iff)

lemma htcp_backoff_shape:
  assumes "htcp_backoff now n = Some n'"
  obtains h th where "n' = n\<lparr>htcp_ca := h, ssthresh := th\<rparr>" "2 * mtu n \<le> th"
proof -
  let ?n = "n\<lparr>htcp_ca := htcp_reset now (htcp_ca n)\<rparr>"
  from assms obtain m q where m: "htcp_param_update now ?n = Some m" and q: "cdiv (cwnd m) (mtu m) = Some q"
    and n': "n' = m\<lparr>ssthresh := max (drop_bit 7 (q * ucast (beta (htcp_ca m))) * mtu m) (2 * mtu m)\<rparr>"
    by (auto simp: htcp_backoff_def htcp_recalc_ssthresh_def bind_Some_iff)
  obtain h where "m = n\<lparr>htcp_ca := h\<rparr>" by (rule htcp_param_update_shape [OF m]) simp
  with n' show ?thesis by (intro that) auto
qed

lemma measure_rtt_shape:
  assumes "measure_rtt now n = Some n'"
  obtains h where "n' = n\<lparr>htcp_ca := h\<rparr>"
proof -
  have "\<exists>h. n' = n\<lparr>htcp_ca := h\<rparr>"
    using assms
    by (auto simp: measure_rtt_def Let_def bind_Some_iff split: if_splits intro: exI [of _ "htcp_ca n"])
  then show ?thesis using that by blast
qed

lemma measure_throughput_shape:
  assumes "measure_achieved_throughput now n = Some n'"
  obtains h where "n' = n\<lparr>htcp_ca := h\<rparr>"
proof -
  have "\<exists>h. n' = n\<lparr>htcp_ca := h\<rparr>"
    using assms
    by (auto simp: measure_achieved_throughput_def use_bandwidth_switch_def Let_def bind_Some_iff
        split: if_splits intro: exI [of _ "htcp_ca n"])
  then show ?thesis using that by blast
qed

lemma htcp_backoff_ok:
  assumes "htcp_backoff now n = Some n'" "input_ok M n" "M \<le> 65535"
  shows "input_ok M n'" "unat (mtu n') \<le> unat (ssthresh n')"
proof -
  obtain h th where n': "n' = n\<lparr>htcp_ca := h, ssthresh := th\<rparr>" and th: "2 * mtu n \<le> th"
    by (rule htcp_backoff_shape [OF assms(1)])
  show "input_ok M n'" using assms(2) by (simp add: n')
  show "unat (mtu n') \<le> unat (ssthresh n')"
    using th input_ok_mtu(2) [OF assms(2,3)] by (simp add: n' word_le_nat_alt)
qed

lemma htcp_fr_cut_ok [keeps_window]:
  assumes "htcp_fr_cut now a n = Some n'" "net_ok M (max_cwnd a) n" "conf_ok a" "M \<le> 65535"
  shows "net_ok M (max_cwnd a) n'"
proof -
  from assms(1) obtain m where m: "htcp_backoff now n = Some m"
    and n': "n' = sctp_enforce_cwnd_limit a (m\<lparr>cwnd := ssthresh m\<rparr>)"
    by (auto simp: htcp_fr_cut_def bind_Some_iff)
  show ?thesis unfolding n'
    by (rule cut_ok [OF _ assms(3)]) (use htcp_backoff_ok [OF m net_ok_input [OF assms(2)] assms(4)] in auto)
qed

lemma htcp_after_fr_ok [keeps_window]:
  assumes "sctp_htcp_cwnd_update_after_fr now a = Some a'" "window_ok M a" "M \<le> 65535"
  shows "window_ok M a' \<and> same_conf a a' \<and> length (nets a') = length (nets a)"
proof (rule run_fr_ok)
  show "cut_keeps M (htcp_fr_cut now)" using htcp_fr_cut_ok assms(3) by (auto simp: cut_keeps_def)
  show "run_fr (htcp_fr_cut now) a = Some a'" using assms(1) by (simp add: sctp_htcp_cwnd_update_after_fr_def)
qed fact

lemma htcp_after_timeout_ok [keeps_window]:
  assumes "sctp_htcp_cwnd_update_after_timeout now n = Some n'" "net_ok M limit n" "M \<le> 65535"
  shows "net_ok M limit n'"
proof -
  from assms(1) obtain m where m: "htcp_backoff now n = Some m"
    and n': "n' = m\<lparr>cwnd := mtu m, partial_bytes_acked := 0\<rparr>"
    by (auto simp: sctp_htcp_cwnd_update_after_timeout_def bind_Some_iff)
  show ?thesis
    using mtu_ok [OF htcp_backoff_ok(1) [OF m net_ok_input [OF assms(2)] assms(3)], of limit] by (simp add: n')
qed

lemma htcp_after_ecn_echo_ok [keeps_window]:
  assumes "sctp_htcp_cwnd_update_after_ecn_echo now w a n = Some (a', n')" "net_ok M (max_cwnd a) n" "conf_ok a"
    "M \<le> 65535"
  shows "net_ok M (max_cwnd a) n' \<and> same_conf a a' \<and> nets a' = nets a"
proof (cases w)
  case True
  then show ?thesis using assms(1,2) by (simp add: sctp_htcp_cwnd_update_after_ecn_echo_def)
next
  case False
  with assms(1) obtain m where m: "htcp_backoff now n = Some m"
    by (auto simp: sctp_htcp_cwnd_update_after_ecn_echo_def bind_Some_iff)
  note b = htcp_backoff_ok [OF m net_ok_input [OF assms(2)] assms(4)]
  have "\<not> ssthresh m < mtu m" using b(2) by (simp add: word_less_nat_alt)
  then have "n' = sctp_enforce_cwnd_limit a (m\<lparr>cwnd := ssthresh m\<rparr>)"
    "a' = a\<lparr>sctps_ecnereducedcwnd := sctps_ecnereducedcwnd a + 1\<rparr>"
    using assms(1) False m by (auto simp: sctp_htcp_cwnd_update_after_ecn_echo_def)
  then show ?thesis using cut_ok [OF b(1) assms(3) b(2)] by (simp add: same_conf_def)
qed

lemma htcp_cong_avoid_ok:
  assumes "htcp_cong_avoid sc now a n = Some n'" "net_ok M (max_cwnd a) n" "conf_ok a" "M \<le> 65535"
  shows "net_ok M (max_cwnd a) n'"
proof (cases "cwnd n \<le> ssthresh n")
  case True
  have "unat (net_ack n) \<le> 2 ^ 30" using assms(2) by (simp add: net_ok_def input_ok_def)
  moreover from this have "unat (mtu n * sctp_L2_abc_variable sc) \<le> 2 ^ 30"
    if "mtu n * sctp_L2_abc_variable sc < net_ack n" using that by (simp add: word_less_nat_alt)
  ultimately show ?thesis
    using grow_ok [OF assms(2-4)] assms(1,2) True by (auto simp: htcp_cong_avoid_def Let_def split: if_splits)
next
  case False
  with assms(1) obtain m where m: "measure_rtt now n = Some m" by (auto simp: htcp_cong_avoid_def bind_Some_iff)
  obtain h where h: "m = n\<lparr>htcp_ca := h\<rparr>" by (rule measure_rtt_shape [OF m])
  have "unat (mtu n) \<le> 2 ^ 30" using assms(2,4) by (simp add: net_ok_def input_ok_def)
  then have "net_ok M (max_cwnd a) (sctp_enforce_cwnd_limit a (n\<lparr>htcp_ca := h, cwnd := cwnd n + mtu n, partial_bytes_acked := 0\<rparr>))"
    using enforce_ok [of M "n\<lparr>htcp_ca := h, cwnd := cwnd n + mtu n, partial_bytes_acked := 0\<rparr>" a] assms(2-4)
      unat_grow [OF assms(2) _ assms(4), of "mtu n"]
    by (simp add: net_ok_def conf_ok_def)
  then show ?thesis
    using assms(1,2) False m by (auto simp: htcp_cong_avoid_def h bind_Some_iff Let_def split: if_splits)
qed

lemma htcp_after_sack_ok [keeps_window]:
  assumes "sctp_htcp_cwnd_update_after_sack sc now acc will_exit a = Some a'" "window_ok M a" "M \<le> 65535"
  shows "window_ok M a' \<and> same_conf a a' \<and> length (nets a') = length (nets a)"
proof (rule run_sack_ok)
  have "net_ok M (max_cwnd a) n'" if "htcp_sack_net sc now a acc n = Some n'" "net_ok M (max_cwnd a) n" for n n'
  proof (cases "acc \<or> (0 < sctp_cmt_on_off a \<and> new_pseudo_cumack n)")
    case True
    with that obtain m where m: "htcp_cong_avoid sc now a n = Some m"
      and n': "measure_achieved_throughput now m = Some n'"
      by (auto simp: htcp_sack_net_def bind_Some_iff)
    obtain h where "n' = m\<lparr>htcp_ca := h\<rparr>" by (rule measure_throughput_shape [OF n'])
    then show ?thesis
      using htcp_cong_avoid_ok [OF m that(2)] assms(2,3) by (simp add: window_ok_def)
  next
    case False
    then show ?thesis using that by (auto simp: htcp_sack_net_def)
  qed
  then show "upd_keeps M a (htcp_sack_net sc now a acc)" by (simp add: upd_keeps_def)
  show "run_sack will_exit (htcp_sack_net sc now a acc) a = Some a'"
    using assms(1) by (simp add: sctp_htcp_cwnd_update_after_sack_def)
qed fact

lemma htcp_initial_ok [keeps_window]:
  assumes "input_ok M n" "conf_ok a" "M \<le> 65535"
  shows "net_ok M (max_cwnd a) (sctp_htcp_set_initial_cc_param now a n)"
proof -
  let ?c = "min (mtu n * 4) (max (2 * mtu n) SCTP_INITIAL_CWND)"
  have "net_ok M (max_cwnd a) (sctp_enforce_cwnd_limit a (n\<lparr>cwnd := ?c, ssthresh := peers_rwnd a\<rparr>))"
    by (rule enforce_ok) (use rfc_initial_ge [OF assms(1,3)] assms in simp_all)
  then show ?thesis by (simp add: sctp_htcp_set_initial_cc_param_def htcp_init_def Let_def)
qed

section \<open>RTCC\<close>

lemma rtcc_initial_ok [keeps_window]:
  assumes "sctp_set_rtcc_initial_cc_param sc a n = Some (a', n')" "input_ok M n" "conf_ok a" "M \<le> 65535" "sc_ok sc"
  shows "net_ok M (max_cwnd a) n' \<and> same_conf a a' \<and> nets a' = nets a"
proof -
  from assms(1) obtain m where m: "sctp_set_initial_cc_param sc a n = Some m"
    by (auto simp: sctp_set_rtcc_initial_cc_param_def bind_Some_iff)
  have ok: "net_ok M (max_cwnd a) m" by (rule set_initial_ok [OF m assms(2-5)])
  then have "use_dccc_ecn (rtcc m) = 0" by (simp add: net_ok_def input_ok_def)
  with ok assms(1,5) m show ?thesis
    by (auto simp: sctp_set_rtcc_initial_cc_param_def sc_ok_def same_conf_def)
qed

lemma rtcc_begins_ok [keeps_window]:
  assumes "net_ok M limit n" "M \<le> 65535" "sc_ok sc"
  shows "net_ok M limit (sctp_cwnd_new_rtcc_transmission_begins sc a n)"
proof -
  have *: "net_ok M limit (m\<lparr>cwnd := initial_cwnd sc a m\<rparr>)"
    if "net_ok M limit m" "initial_cwnd sc a m < cwnd m" for m
    using that initial_cwnd_ge [OF net_ok_input [OF that(1)] assms(2,3), of a]
    by (auto simp: net_ok_def cc_simps)
  show ?thesis
    unfolding sctp_cwnd_new_rtcc_transmission_begins_def Let_def
    using assms(1) by (auto intro!: *)
qed

lemma rtcc_hooks_ok [keeps_window]:
  assumes "net_ok M limit n"
  shows "net_ok M limit (sctp_cwnd_update_rtcc_packet_transmitted t n)"
    "net_ok M limit (sctp_cwnd_update_rtcc_tsn_acknowledged sz n)"
    "net_ok M limit (sctp_cwnd_prepare_rtcc_net_for_sack t n)"
    "net_ok M limit (sctp_rtt_rtcc_calculated n)"
  using assms
  by (simp_all add: sctp_cwnd_update_rtcc_packet_transmitted_def sctp_cwnd_update_rtcc_tsn_acknowledged_def
      sctp_cwnd_prepare_rtcc_net_for_sack_def sctp_rtt_rtcc_calculated_def split: prod.splits)

lemma rtcc_option_ok [keeps_window]:
  assumes "rtcc_option_set opt v a = Inr a'" "window_ok M a" "opt = SCTP_CC_OPT_USE_DCCC_ECN \<Longrightarrow> v = 0"
  shows "window_ok M a' \<and> same_conf a a' \<and> length (nets a') = length (nets a)"
  using assms
  by (cases opt) (auto simp: all_rtcc_def window_ok_def conf_ok_def same_conf_def net_ok_def input_ok_def split: if_splits)

end
