(* ===== verification/Cc_History.thy ===== *)
theory Cc_History
  imports Cc_Modules
begin

text \<open>
  Histories of congestion control. The locale \<open>window_module\<close> is the contract of a row of the dispatch table: every hook
  keeps the bounds of the window, for MTUs up to \<open>M\<close>. Its client proves that histories of calls do. All four
  rows are interpretations; HS-TCP only for MTUs up to 19456 bytes, half of the smallest window its table applies to.
\<close>

section \<open>Destinations of an association\<close>

lemma on_net_ok:
  assumes "on_net f i a = Some a'" "window_ok M a"
    and "\<And>n b n'. f a n = Some (b, n') \<Longrightarrow> net_ok M (max_cwnd a) n
      \<Longrightarrow> net_ok M (max_cwnd a) n' \<and> same_conf a b \<and> nets b = nets a"
  shows "window_ok M a' \<and> same_conf a a' \<and> length (nets a') = length (nets a)"
proof -
  from assms(1) obtain b n' where i: "i < length (nets a)" and f: "f a (nets a ! i) = Some (b, n')"
    and a': "a' = b\<lparr>nets := (nets b)[i := n']\<rparr>"
    by (auto simp: on_net_def bind_Some_iff split: if_splits)
  have "net_ok M (max_cwnd a) (nets a ! i)" using assms(2) i by (simp add: window_ok_def)
  from assms(3) [OF f this] have n': "net_ok M (max_cwnd a) n'" and c: "same_conf a b" and b: "nets b = nets a"
    by auto
  have "\<forall>n\<in>set ((nets a)[i := n']). net_ok M (max_cwnd a) n"
    using n' assms(2) set_update_subset_insert [of "nets a" i n'] by (auto simp: window_ok_def)
  then show ?thesis using assms(2) c by (simp add: a' b window_ok_def conf_ok_def same_conf_def)
qed

lemma only_net_ok:
  assumes "only_net f i a = Some a'" "window_ok M a"
    and "\<And>n. net_ok M (max_cwnd a) n \<Longrightarrow> net_ok M (max_cwnd a) (f n)"
  shows "window_ok M a' \<and> same_conf a a' \<and> length (nets a') = length (nets a)"
  using assms(1) unfolding only_net_def
  by (rule on_net_ok [OF _ assms(2)]) (use assms(3) in auto)

lemma net_hook_ok:
  assumes "net_hook h i a = Some a'" "window_ok M a"
    and "\<And>f n. h = Some f \<Longrightarrow> net_ok M (max_cwnd a) n \<Longrightarrow> net_ok M (max_cwnd a) (f n)"
  shows "window_ok M a' \<and> same_conf a a' \<and> length (nets a') = length (nets a)"
proof (cases h)
  case None
  then show ?thesis using only_net_ok [OF _ assms(2), of "\<lambda>n. n" i a'] assms(1) by (simp add: net_hook_def)
next
  case (Some f)
  then show ?thesis using only_net_ok [OF _ assms(2), of f i a'] assms(1,3) by (simp add: net_hook_def)
qed

lemma put_input_ok:
  assumes "net_ok M limit n" "unat (in_acked v) \<le> 2 ^ 30" "unat (in_flight v) \<le> 2 ^ 30"
  shows "net_ok M limit (put_input v n)"
  using assms by (simp add: put_input_def net_ok_def input_ok_def)

lemma path_mtu_ok:
  assumes "net_ok M limit n" "512 \<le> unat v"
  shows "net_ok M limit (path_mtu v n)"
  using assms by (auto simp: path_mtu_def net_ok_def input_ok_def cc_simps)

lemma set_max_cwnd_ok:
  assumes "window_ok M a" "0 < v" "unat v \<le> 2 ^ 31"
  shows "window_ok M (set_max_cwnd v a) \<and> length (nets (set_max_cwnd v a)) = length (nets a)
    \<and> sctp_cmt_on_off (set_max_cwnd v a) = sctp_cmt_on_off a"
proof -
  let ?a = "a\<lparr>max_cwnd := v\<rparr>"
  have c: "conf_ok ?a" using assms by (simp add: window_ok_def conf_ok_def)
  have e: "set_max_cwnd v a = ?a\<lparr>nets := map (sctp_enforce_cwnd_limit ?a) (nets a)\<rparr>"
    using assms(2) by (simp add: set_max_cwnd_def sctp_enforce_cwnd_limit_def Let_def)
  have "net_ok M v (sctp_enforce_cwnd_limit ?a n)" if "n \<in> set (nets a)" for n
    using enforce_ok [of M n ?a] c assms(1) that by (simp add: window_ok_def net_ok_def)
  then show ?thesis using c unfolding e by (simp add: window_ok_def conf_ok_def)
qed

section \<open>The contract of a row\<close>

fun event_ok :: "nat \<Rightarrow> nat \<Rightarrow> cc_event \<Rightarrow> bool" where
  "event_ok M k (Ev_initial i) = (i < k)"
| "event_ok M k (Ev_exit_pf i) = (i < k)"
| "event_ok M k (Ev_timeout i) = (i < k)"
| "event_ok M k (Ev_ecn_echo i in_window lost) = (i < k)"
| "event_ok M k (Ev_packet_dropped i bw q) = (i < k)"
| "event_ok M k (Ev_output i burst_limit) = (i < k \<and> unat burst_limit * M \<le> 2 ^ 30)"
| "event_ok M k (Ev_transmitted i t) = (i < k)"
| "event_ok M k (Ev_acknowledged i sz) = (i < k)"
| "event_ok M k (Ev_begins i) = (i < k)"
| "event_ok M k (Ev_prepare i t) = (i < k)"
| "event_ok M k (Ev_rtt i) = (i < k)"
| "event_ok M k (Ev_option opt v) = (opt = SCTP_CC_OPT_USE_DCCC_ECN \<longrightarrow> v = 0)"
| "event_ok M k (Ev_max_cwnd v) = (0 < v \<and> unat v \<le> 2 ^ 31)"
| "event_ok M k (Ev_input i v) = (i < k \<and> unat (in_acked v) \<le> 2 ^ 30 \<and> unat (in_flight v) \<le> 2 ^ 30)"
| "event_ok M k (Ev_path_mtu i v) = (i < k \<and> 512 \<le> unat v)"
| "event_ok M k (Ev_sack accum_moved will_exit) = True"
| "event_ok M k Ev_fast_retransmit = True"
| "event_ok M k Ev_recovery_over = True"

locale window_module =
  fixes cc :: "cc_sysctl \<Rightarrow> u32 \<Rightarrow> sctp_cc_functions" and M :: nat
  assumes initial_law: "sc_ok sc \<Longrightarrow> input_ok M n \<Longrightarrow> conf_ok a \<Longrightarrow> set_initial (cc sc now) a n = Some (a', n')
      \<Longrightarrow> net_ok M (max_cwnd a) n' \<and> same_conf a a' \<and> nets a' = nets a"
    and sack_law: "window_ok M a \<Longrightarrow> after_sack (cc sc now) acc w a = Some a'
      \<Longrightarrow> window_ok M a' \<and> same_conf a a' \<and> length (nets a') = length (nets a)"
    and fr_law: "window_ok M a \<Longrightarrow> after_fr (cc sc now) a = Some a'
      \<Longrightarrow> window_ok M a' \<and> same_conf a a' \<and> length (nets a') = length (nets a)"
    and exit_law: "net_ok M limit n \<Longrightarrow> net_ok M limit (exit_pf (cc sc now) n)"
    and timeout_law: "conf_ok a \<Longrightarrow> net_ok M (max_cwnd a) n \<Longrightarrow> after_timeout (cc sc now) a n = Some n'
      \<Longrightarrow> net_ok M (max_cwnd a) n'"
    and ecn_law: "conf_ok a \<Longrightarrow> net_ok M (max_cwnd a) n \<Longrightarrow> after_ecn_echo (cc sc now) w l a n = Some (a', n')
      \<Longrightarrow> net_ok M (max_cwnd a) n' \<and> same_conf a a' \<and> nets a' = nets a"
    and dropped_law: "conf_ok a \<Longrightarrow> net_ok M (max_cwnd a) n
      \<Longrightarrow> after_packet_dropped (cc sc now) bw q a n = Some (n', r) \<Longrightarrow> net_ok M (max_cwnd a) n'"
    and output_law: "conf_ok a \<Longrightarrow> net_ok M (max_cwnd a) n \<Longrightarrow> unat b * M \<le> 2 ^ 30
      \<Longrightarrow> net_ok M (max_cwnd a) (after_output (cc sc now) b a n)"
    and transmitted_law: "packet_transmitted (cc sc now) = Some f \<Longrightarrow> net_ok M limit n \<Longrightarrow> net_ok M limit (f t n)"
    and acknowledged_law: "tsn_acknowledged (cc sc now) = Some g \<Longrightarrow> net_ok M limit n \<Longrightarrow> net_ok M limit (g sz n)"
    and begins_law: "sc_ok sc \<Longrightarrow> new_transmission_begins (cc sc now) = Some h \<Longrightarrow> net_ok M limit n
      \<Longrightarrow> net_ok M limit (h a n)"
    and prepare_law: "prepare_net_for_sack (cc sc now) = Some f \<Longrightarrow> net_ok M limit n \<Longrightarrow> net_ok M limit (f t n)"
    and rtt_law: "rtt_calculated (cc sc now) = Some k \<Longrightarrow> net_ok M limit n \<Longrightarrow> net_ok M limit (k n)"
    and option_law: "socket_option_set (cc sc now) = Some p \<Longrightarrow> p opt v a = Inr a' \<Longrightarrow> window_ok M a
      \<Longrightarrow> (opt = SCTP_CC_OPT_USE_DCCC_ECN \<longrightarrow> v = 0)
      \<Longrightarrow> window_ok M a' \<and> same_conf a a' \<and> length (nets a') = length (nets a)"
begin

lemma step_keeps:
  assumes "cc_step (cc sc now) e a = Some a'" "window_ok M a" "event_ok M (length (nets a)) e" "sc_ok sc"
  shows "window_ok M a' \<and> length (nets a') = length (nets a) \<and> sctp_cmt_on_off a' = sctp_cmt_on_off a"
proof -
  have c: "conf_ok a" using assms(2) by (simp add: window_ok_def)
  have fin: "window_ok M a' \<and> same_conf a a' \<and> length (nets a') = length (nets a) \<Longrightarrow> ?thesis"
    by (simp add: same_conf_def)
  show ?thesis
  proof (cases e)
    case (Ev_initial i)
    with assms(1) have s: "on_net (set_initial (cc sc now)) i a = Some a'" by simp
    show ?thesis
      by (rule fin, rule on_net_ok [OF s assms(2)]) (use initial_law [OF assms(4) net_ok_input c] in blast)
  next
    case (Ev_sack m w)
    then show ?thesis using assms(1) sack_law [OF assms(2)] fin by simp
  next
    case Ev_fast_retransmit
    then show ?thesis using assms(1) fr_law [OF assms(2)] fin by simp
  next
    case (Ev_exit_pf i)
    with assms(1) have s: "only_net (exit_pf (cc sc now)) i a = Some a'" by simp
    show ?thesis
      by (rule fin, rule only_net_ok [OF s assms(2)]) (use exit_law in blast)
  next
    case (Ev_timeout i)
    with assms(1) have s: "on_net (\<lambda>a n. keep_asoc a (after_timeout (cc sc now) a n)) i a = Some a'" by simp
    show ?thesis
      by (rule fin, rule on_net_ok [OF s assms(2)]) (use timeout_law [OF c] in \<open>auto simp: keep_asoc_def\<close>)
  next
    case (Ev_ecn_echo i w l)
    with assms(1) have s: "on_net (after_ecn_echo (cc sc now) w l) i a = Some a'" by simp
    show ?thesis
      by (rule fin, rule on_net_ok [OF s assms(2)]) (use ecn_law [OF c] in blast)
  next
    case (Ev_packet_dropped i bw q)
    with assms(1) have s: "on_net (\<lambda>a n. keep_asoc a (map_option fst (after_packet_dropped (cc sc now) bw q a n))) i a = Some a'" by simp
    show ?thesis
      by (rule fin, rule on_net_ok [OF s assms(2)]) (use dropped_law [OF c] in \<open>auto simp: keep_asoc_def\<close>)
  next
    case (Ev_output i b)
    with assms(1) have s: "only_net (after_output (cc sc now) b a) i a = Some a'" by simp
    show ?thesis
      by (rule fin, rule only_net_ok [OF s assms(2)]) (use output_law [OF c] assms(3) Ev_output in simp)
  next
    case (Ev_transmitted i t)
    with assms(1) have s: "net_hook (map_option (\<lambda>f. f t) (packet_transmitted (cc sc now))) i a = Some a'" by simp
    show ?thesis
      by (rule fin, rule net_hook_ok [OF s assms(2)]) (use transmitted_law [where t = t] in auto)
  next
    case (Ev_acknowledged i sz)
    with assms(1) have s: "net_hook (map_option (\<lambda>f. f sz) (tsn_acknowledged (cc sc now))) i a = Some a'" by simp
    show ?thesis
      by (rule fin, rule net_hook_ok [OF s assms(2)]) (use acknowledged_law in auto)
  next
    case (Ev_begins i)
    with assms(1) have s: "net_hook (map_option (\<lambda>f. f a) (new_transmission_begins (cc sc now))) i a = Some a'" by simp
    show ?thesis
      by (rule fin, rule net_hook_ok [OF s assms(2)]) (use begins_law [OF assms(4)] in auto)
  next
    case (Ev_prepare i t)
    with assms(1) have s: "net_hook (map_option (\<lambda>f. f t) (prepare_net_for_sack (cc sc now))) i a = Some a'" by simp
    show ?thesis
      by (rule fin, rule net_hook_ok [OF s assms(2)]) (use prepare_law [where t = t] in auto)
  next
    case (Ev_rtt i)
    with assms(1) have s: "net_hook (rtt_calculated (cc sc now)) i a = Some a'" by simp
    show ?thesis
      by (rule fin, rule net_hook_ok [OF s assms(2)]) (use rtt_law in blast)
  next
    case (Ev_option opt v)
    then show ?thesis
      using assms(1-3) option_law [of sc now _ opt v a a'] fin by (auto split: option.splits sum.splits)
  next
    case (Ev_max_cwnd v)
    then show ?thesis using assms(1,3) set_max_cwnd_ok [OF assms(2)] by auto
  next
    case (Ev_input i v)
    with assms(1) have s: "only_net (put_input v) i a = Some a'" by simp
    show ?thesis
      by (rule fin, rule only_net_ok [OF s assms(2)]) (use put_input_ok assms(3) Ev_input in simp)
  next
    case (Ev_path_mtu i v)
    with assms(1) have s: "only_net (path_mtu v) i a = Some a'" by simp
    show ?thesis
      by (rule fin, rule only_net_ok [OF s assms(2)]) (use path_mtu_ok assms(3) Ev_path_mtu in simp)
  next
    case Ev_recovery_over
    then show ?thesis using assms(1,2) by (auto simp: window_ok_def conf_ok_def)
  qed
qed

text \<open>Setting the initial parameters of all destinations one after the other, from inputs that are only plausible.\<close>

lemma initial_step:
  assumes "cc_step (cc sc now) (Ev_initial k) a = Some a'" "conf_ok a" "sc_ok sc"
    "\<forall>i<length (nets a). input_ok M (nets a ! i)" "\<forall>i<k. net_ok M (max_cwnd a) (nets a ! i)" "k < length (nets a)"
  shows "conf_ok a' \<and> length (nets a') = length (nets a) \<and> max_cwnd a' = max_cwnd a \<and>
    sctp_cmt_on_off a' = sctp_cmt_on_off a \<and>
    (\<forall>i<length (nets a'). input_ok M (nets a' ! i)) \<and> (\<forall>i<Suc k. net_ok M (max_cwnd a') (nets a' ! i))"
proof -
  from assms(1,6) obtain b n' where f: "set_initial (cc sc now) a (nets a ! k) = Some (b, n')"
    and a': "a' = b\<lparr>nets := (nets b)[k := n']\<rparr>"
    by (auto simp: on_net_def bind_Some_iff)
  have "input_ok M (nets a ! k)" using assms(4,6) by simp
  from initial_law [OF assms(3) this assms(2) f]
  have n': "net_ok M (max_cwnd a) n'" and c: "same_conf a b" and b: "nets b = nets a" by auto
  show ?thesis
    using n' net_ok_input [OF n'] c assms(2,4,5,6)
    by (auto simp: a' b same_conf_def conf_ok_def nth_list_update less_Suc_eq)
qed

end

section \<open>Rows that never trap\<close>

text \<open>A row without a division that can fail, other than in the packet drop report.\<close>

locale total_module = window_module +
  assumes initial_total: "conf_ok a \<Longrightarrow> input_ok M n \<Longrightarrow> \<exists>r. set_initial (cc sc now) a n = Some r"
    and sack_total: "window_ok M a \<Longrightarrow> sctp_cmt_on_off a \<le> 1 \<Longrightarrow> \<exists>a'. after_sack (cc sc now) acc w a = Some a'"
    and fr_total: "window_ok M a \<Longrightarrow> \<exists>a'. after_fr (cc sc now) a = Some a'"
    and timeout_total: "conf_ok a \<Longrightarrow> \<exists>n'. after_timeout (cc sc now) a n = Some n'"
    and ecn_total: "\<exists>r. after_ecn_echo (cc sc now) w l a n = Some r"
begin

lemma step_total:
  assumes "window_ok M a" "event_ok M (length (nets a)) e" "sctp_cmt_on_off a \<le> 1"
    "\<And>i bw q. e \<noteq> Ev_packet_dropped i bw q"
  shows "\<exists>a'. cc_step (cc sc now) e a = Some a'"
proof -
  have c: "conf_ok a" using assms(1) by (simp add: window_ok_def)
  have on: "\<exists>a'. on_net f i a = Some a'"
    if "i < length (nets a)" "\<And>n. n \<in> set (nets a) \<Longrightarrow> \<exists>r. f a n = Some r" for f i
    using that(1) that(2) [OF nth_mem [OF that(1)]] by (auto simp: on_net_def)
  have only: "\<exists>a'. only_net f i a = Some a'" if "i < length (nets a)" for f i
    using on [OF that] by (simp add: only_net_def)
  have hook: "\<exists>a'. net_hook h i a = Some a'" if "i < length (nets a)" for h i
    using only [OF that] by (cases h) (simp_all add: net_hook_def)
  show ?thesis
  proof (cases e)
    case (Ev_initial i)
    have "\<exists>r. set_initial (cc sc now) a n = Some r" if "n \<in> set (nets a)" for n
      by (rule initial_total [OF c]) (use assms(1) that in \<open>auto simp: window_ok_def dest: net_ok_input\<close>)
    with on [of i "set_initial (cc sc now)"] assms(2) show ?thesis by (simp add: Ev_initial)
  next
    case (Ev_timeout i)
    have "\<exists>r. keep_asoc a (after_timeout (cc sc now) a n) = Some r" for n
      using timeout_total [OF c, of sc now n] by (auto simp: keep_asoc_def)
    with on [of i "\<lambda>a n. keep_asoc a (after_timeout (cc sc now) a n)"] assms(2) show ?thesis
      by (simp add: Ev_timeout)
  next
    case (Ev_ecn_echo i w l)
    then show ?thesis using on [of i] ecn_total assms(2) by simp
  qed (use assms only hook sack_total fr_total in \<open>auto split: option.splits sum.splits\<close>)
qed

end

lemma fr_cut_total: "conf_ok a \<Longrightarrow> \<exists>n'. fr_cut t a n = Some n'"
  by (auto simp: fr_cut_def conf_ok_def Let_def split: prod.splits)

lemma hs_decrease_total: "input_ok M n \<Longrightarrow> \<exists>n'. sctp_hs_cwnd_decrease a n = Some n'"
  by (simp add: sctp_hs_cwnd_decrease_def input_ok_def Let_def)

lemma fr_loop_total:
  assumes "\<And>b n. conf_ok b \<Longrightarrow> n \<in> set ns \<Longrightarrow> \<exists>n'. red b n = Some n'" "conf_ok a"
  shows "\<exists>r. fr_loop red i a ns = Some r"
  using assms
proof (induction ns arbitrary: i a)
  case (Cons n ns)
  have rest: "\<exists>a' ns'. fr_loop red (Suc i) b ns = Some (a', ns')" if "same_conf a b" for b
    using Cons.IH [of b "Suc i"] Cons.prems same_conf_ok [OF that] by auto
  have c: "same_conf a (if 0 < net_ack n then a\<lparr>sctps_fastretransinrtt := x\<rparr> else a)" for x by simp
  show ?case
    using Cons.prems(1) [OF Cons.prems(2), of n] rest [OF enter_recovery_conf, of i] rest [OF same_conf_refl]
      rest [OF c, of "sctps_fastretransinrtt a + 1"]
    by auto
qed simp

lemma run_fr_total:
  assumes "\<And>b n. conf_ok b \<Longrightarrow> n \<in> set (nets a) \<Longrightarrow> \<exists>n'. red b n = Some n'" "window_ok M a"
  shows "\<exists>a'. run_fr red a = Some a'"
  using fr_loop_total [of "nets a" red a 0, OF assms(1)] assms(2) by (auto simp: run_fr_def window_ok_def)

lemma grow_net_total:
  assumes "sctp_cmt_on_off a \<le> 1"
  shows "\<exists>n'. grow_net sc a f n = Some n'"
proof -
  have "sctp_cmt_on_off a \<noteq> SCTP_CMT_RPV1" "sctp_cmt_on_off a \<noteq> SCTP_CMT_RPV2" "sctp_cmt_on_off a \<noteq> SCTP_CMT_MPTCP"
    using assms by (auto simp: cc_consts word_le_nat_alt)
  then show ?thesis
    by (auto simp: grow_net_def ss_incr_def ca_incr_def Let_def split: prod.splits)
qed

lemma sack_loop_total:
  assumes "\<And>n. \<exists>n'. upd n = Some n'"
  shows "\<exists>ns'. sack_loop a w upd ns = Some ns'"
proof (induction ns)
  case (Cons n ns)
  then show ?case using assms [of n] by auto
qed simp

lemma run_sack_total: "(\<And>n. \<exists>n'. upd n = Some n') \<Longrightarrow> \<exists>a'. run_sack w upd a = Some a'"
  using sack_loop_total [of upd a w "nets a"] by (auto simp: run_sack_def)

lemma after_sack_total:
  assumes "sctp_cmt_on_off a \<le> 1"
  shows "\<exists>a'. sctp_cwnd_update_after_sack_common sc acc w use a = Some a'"
proof -
  have "sctp_cmt_on_off a \<noteq> SCTP_CMT_RPV1" "sctp_cmt_on_off a \<noteq> SCTP_CMT_RPV2" "sctp_cmt_on_off a \<noteq> SCTP_CMT_MPTCP"
    using assms by (auto simp: cc_consts word_le_nat_alt)
  then have f: "sack_factors a = Some (1, 1, 1)" by (simp add: sack_factors_def)
  have "\<exists>n'. sack_net sc a f acc use n = Some n'" for f n
    using grow_net_total [OF assms] by (auto simp: sack_net_def split: prod.splits)
  from run_sack_total [OF this] show ?thesis by (simp add: sctp_cwnd_update_after_sack_common_def f)
qed

section \<open>The four rows\<close>

text \<open>What a row does, seen from the table.\<close>

lemmas row_simps = rfc_row_def keep_asoc_def sctp_cwnd_update_after_sack_def sctp_cwnd_update_rtcc_after_sack_def
  sctp_cwnd_update_after_ecn_echo_def sctp_cwnd_update_rtcc_after_ecn_echo_def sctp_cwnd_update_exit_pf_common_def

interpretation rfc: window_module "\<lambda>sc now. cc_functions sc now CC_RFC2581" 65535
  by unfold_locales
    (auto simp: row_simps dest: after_sack_ok after_fr_ok after_timeout_ok after_ecn_echo_ok after_packet_dropped_ok
      set_initial_ok intro: mtu_ok net_ok_input after_output_ok)

interpretation hs: window_module "\<lambda>sc now. cc_functions sc now CC_HSTCP" 19456
  by unfold_locales
    (auto simp: row_simps dest: hs_after_sack_ok hs_after_fr_ok after_timeout_ok after_ecn_echo_ok after_packet_dropped_ok
      set_initial_ok intro: mtu_ok net_ok_input after_output_ok)

interpretation htcp: window_module "\<lambda>sc now. cc_functions sc now CC_HTCP" 65535
  by unfold_locales
    (auto simp: row_simps dest: htcp_after_sack_ok htcp_after_fr_ok htcp_after_timeout_ok htcp_after_ecn_echo_ok
      after_packet_dropped_ok intro: mtu_ok net_ok_input after_output_ok htcp_initial_ok)

interpretation rtcc: window_module "\<lambda>sc now. cc_functions sc now CC_RTCC" 65535
  by unfold_locales
    (auto simp: row_simps dest: after_sack_ok after_fr_ok after_timeout_ok after_ecn_echo_ok after_packet_dropped_ok
      rtcc_initial_ok rtcc_option_ok intro: mtu_ok net_ok_input after_output_ok rtcc_begins_ok rtcc_hooks_ok)

lemma after_timeout_total: "conf_ok a \<Longrightarrow> \<exists>n'. sctp_cwnd_update_after_timeout a n = Some n'"
  by (simp add: sctp_cwnd_update_after_timeout_def conf_ok_def)

lemma set_initial_total: "conf_ok a \<Longrightarrow> \<exists>n'. sctp_set_initial_cc_param sc a n = Some n'"
  by (simp add: sctp_set_initial_cc_param_def conf_ok_def)

lemma rtcc_initial_total: "conf_ok a \<Longrightarrow> \<exists>a' n'. sctp_set_rtcc_initial_cc_param sc a n = Some (a', n')"
  using set_initial_total [of a sc n] by (auto simp: sctp_set_rtcc_initial_cc_param_def)

lemma after_fr_total: "window_ok M a \<Longrightarrow> \<exists>a'. sctp_cwnd_update_after_fr a = Some a'"
  unfolding sctp_cwnd_update_after_fr_def by (rule run_fr_total [OF fr_cut_total])

lemma hs_after_fr_total: "window_ok M a \<Longrightarrow> \<exists>a'. sctp_hs_cwnd_update_after_fr a = Some a'"
  unfolding sctp_hs_cwnd_update_after_fr_def
  by (rule run_fr_total [OF hs_decrease_total]) (auto simp: window_ok_def dest: net_ok_input)

lemma hs_after_sack_total: "\<exists>a'. sctp_hs_cwnd_update_after_sack acc w a = Some a'"
  unfolding sctp_hs_cwnd_update_after_sack_def by (rule run_sack_total) simp

interpretation rfc_total: total_module "\<lambda>sc now. cc_functions sc now CC_RFC2581" 65535
  by unfold_locales
    (use set_initial_total after_sack_total after_fr_total after_timeout_total in \<open>fastforce simp: row_simps\<close>)+

interpretation hs_total: total_module "\<lambda>sc now. cc_functions sc now CC_HSTCP" 19456
  by unfold_locales
    (use set_initial_total hs_after_sack_total hs_after_fr_total after_timeout_total in \<open>fastforce simp: row_simps\<close>)+

interpretation rtcc_total: total_module "\<lambda>sc now. cc_functions sc now CC_RTCC" 65535
  by unfold_locales
    (use rtcc_initial_total after_sack_total after_fr_total after_timeout_total in \<open>fastforce simp: row_simps\<close>)+

end
