(* ===== verification/Cc_Props.thy ===== *)
theory Cc_Props
  imports Cc_History
begin

text \<open>
  The theorems on congestion control: bounds of the window over every history of calls, for all four modules; refinement of
  the window rules of RFC 4960 by the default module; one reduction per recovery window; and the exact conditions under
  which the routines divide by zero.
\<close>

section \<open>Histories\<close>

definition mtu_bound :: "cc_row \<Rightarrow> nat" where
  "mtu_bound row = (case row of CC_HSTCP \<Rightarrow> 19456 | _ \<Rightarrow> 65535)"

lemma row_step_keeps:
  assumes "cc_step (cc_functions sc now row) e a = Some a'" "window_ok (mtu_bound row) a"
    "event_ok (mtu_bound row) (length (nets a)) e" "sc_ok sc"
  shows "window_ok (mtu_bound row) a' \<and> length (nets a') = length (nets a) \<and> sctp_cmt_on_off a' = sctp_cmt_on_off a"
proof (cases row)
  case CC_RFC2581
  show ?thesis using assms unfolding CC_RFC2581 mtu_bound_def cc_row.case by (rule rfc.step_keeps)
next
  case CC_HSTCP
  show ?thesis using assms unfolding CC_HSTCP mtu_bound_def cc_row.case by (rule hs.step_keeps)
next
  case CC_HTCP
  show ?thesis using assms unfolding CC_HTCP mtu_bound_def cc_row.case by (rule htcp.step_keeps)
next
  case CC_RTCC
  show ?thesis using assms unfolding CC_RTCC mtu_bound_def cc_row.case by (rule rtcc.step_keeps)
qed

lemma row_initial_step:
  assumes "cc_step (cc_functions sc now row) (Ev_initial k) a = Some a'" "conf_ok a" "sc_ok sc"
    "\<forall>i<length (nets a). input_ok (mtu_bound row) (nets a ! i)"
    "\<forall>i<k. net_ok (mtu_bound row) (max_cwnd a) (nets a ! i)" "k < length (nets a)"
  shows "conf_ok a' \<and> length (nets a') = length (nets a) \<and> max_cwnd a' = max_cwnd a \<and>
    sctp_cmt_on_off a' = sctp_cmt_on_off a \<and>
    (\<forall>i<length (nets a'). input_ok (mtu_bound row) (nets a' ! i)) \<and>
    (\<forall>i<Suc k. net_ok (mtu_bound row) (max_cwnd a') (nets a' ! i))"
proof (cases row)
  case CC_RFC2581
  show ?thesis using assms unfolding CC_RFC2581 mtu_bound_def cc_row.case by (rule rfc.initial_step)
next
  case CC_HSTCP
  show ?thesis using assms unfolding CC_HSTCP mtu_bound_def cc_row.case by (rule hs.initial_step)
next
  case CC_HTCP
  show ?thesis using assms unfolding CC_HTCP mtu_bound_def cc_row.case by (rule htcp.initial_step)
next
  case CC_RTCC
  show ?thesis using assms unfolding CC_RTCC mtu_bound_def cc_row.case by (rule rtcc.initial_step)
qed

lemma row_step_total:
  assumes "window_ok (mtu_bound row) a" "event_ok (mtu_bound row) (length (nets a)) e" "sctp_cmt_on_off a \<le> 1"
    "\<And>i bw q. e \<noteq> Ev_packet_dropped i bw q" "row \<noteq> CC_HTCP"
  shows "\<exists>a'. cc_step (cc_functions sc now row) e a = Some a'"
proof (cases row)
  case CC_RFC2581
  show ?thesis using assms(1-4) unfolding CC_RFC2581 mtu_bound_def cc_row.case by (rule rfc_total.step_total)
next
  case CC_HSTCP
  show ?thesis using assms(1-4) unfolding CC_HSTCP mtu_bound_def cc_row.case by (rule hs_total.step_total)
next
  case CC_RTCC
  show ?thesis using assms(1-4) unfolding CC_RTCC mtu_bound_def cc_row.case by (rule rtcc_total.step_total)
qed (use assms in simp)

lemma row_initial_total:
  assumes "conf_ok a" "\<forall>i<length (nets a). input_ok (mtu_bound row) (nets a ! i)" "k < length (nets a)"
    "row \<noteq> CC_HTCP"
  shows "\<exists>a'. cc_step (cc_functions sc now row) (Ev_initial k) a = Some a'"
proof -
  have i: "input_ok (mtu_bound row) (nets a ! k)" using assms(2,3) by simp
  have "\<exists>r. set_initial (cc_functions sc now row) a (nets a ! k) = Some r"
  proof (cases row)
    case CC_RFC2581
    show ?thesis using assms(1) i unfolding CC_RFC2581 mtu_bound_def cc_row.case by (rule rfc_total.initial_total)
  next
    case CC_HSTCP
    show ?thesis using assms(1) i unfolding CC_HSTCP mtu_bound_def cc_row.case by (rule hs_total.initial_total)
  next
    case CC_RTCC
    show ?thesis using assms(1) i unfolding CC_RTCC mtu_bound_def cc_row.case by (rule rtcc_total.initial_total)
  qed (use assms in simp)
  then show ?thesis using assms(3) by (auto simp: on_net_def)
qed

lemma cc_run_append:
  "cc_run sc row (xs @ ys) a = Option.bind (cc_run sc row xs a) (cc_run sc row ys)"
proof (induction xs arbitrary: a)
  case (Cons x xs)
  obtain now e where x: "x = (now, e)" by fastforce
  show ?case by (cases "cc_step (cc_functions sc now row) e a") (simp_all add: x Cons.IH)
qed simp

lemma cc_run_snoc:
  "cc_run sc row (xs @ [(now, e)]) a = Option.bind (cc_run sc row xs a) (cc_step (cc_functions sc now row) e)"
proof -
  have "cc_run sc row [(now, e)] = cc_step (cc_functions sc now row) e"
    by (rule ext, simp add: Option.bind_cong [where f = Some] split: Option.bind_split)
  then show ?thesis by (simp only: cc_run_append)
qed

lemma run_keeps:
  assumes "window_ok (mtu_bound row) a" "sc_ok sc" "\<forall>(now, e)\<in>set es. event_ok (mtu_bound row) (length (nets a)) e"
  shows "(\<forall>a'. cc_run sc row es a = Some a' \<longrightarrow> window_ok (mtu_bound row) a') \<and>
    (row \<noteq> CC_HTCP \<longrightarrow> sctp_cmt_on_off a \<le> 1 \<longrightarrow> (\<forall>now i bw q. (now, Ev_packet_dropped i bw q) \<notin> set es)
      \<longrightarrow> cc_run sc row es a \<noteq> None)"
  using assms(1,3)
proof (induction es arbitrary: a)
  case (Cons x es)
  obtain now e where x: "x = (now, e)" by fastforce
  have ev: "event_ok (mtu_bound row) (length (nets a)) e"
    and evs: "\<forall>(now, e)\<in>set es. event_ok (mtu_bound row) (length (nets a)) e"
    using Cons.prems by (auto simp: x)
  note keep = row_step_keeps [OF _ Cons.prems(1) ev assms(2)]
  show ?case
  proof (cases "cc_step (cc_functions sc now row) e a")
    case None
    then show ?thesis
      using row_step_total [OF Cons.prems(1) ev, of sc now] by (auto simp: x simp del: cc_step.simps)
  next
    case (Some b)
    then show ?thesis using Cons.IH [of b] keep [OF Some] evs by (auto simp: x simp del: cc_step.simps)
  qed
qed simp

text \<open>The initialisation of all destinations.\<close>

definition init_all :: "u32 \<Rightarrow> nat \<Rightarrow> (u32 \<times> cc_event) list" where
  "init_all now k = map (\<lambda>i. (now, Ev_initial i)) [0..<k]"

lemma init_all_upto:
  assumes "conf_ok a" "\<forall>n\<in>set (nets a). input_ok (mtu_bound row) n" "sc_ok sc" "k \<le> length (nets a)"
  shows "(\<forall>a'. cc_run sc row (init_all now k) a = Some a' \<longrightarrow> conf_ok a' \<and> length (nets a') = length (nets a) \<and>
      sctp_cmt_on_off a' = sctp_cmt_on_off a \<and> (\<forall>i<length (nets a'). input_ok (mtu_bound row) (nets a' ! i)) \<and>
      (\<forall>i<k. net_ok (mtu_bound row) (max_cwnd a') (nets a' ! i)))
    \<and> (row \<noteq> CC_HTCP \<longrightarrow> cc_run sc row (init_all now k) a \<noteq> None)"
  using assms(4)
proof (induction k)
  case 0
  then show ?case using assms(1,2) by (auto simp: init_all_def)
next
  case (Suc k)
  have split: "cc_run sc row (init_all now (Suc k)) a =
      Option.bind (cc_run sc row (init_all now k) a) (cc_step (cc_functions sc now row) (Ev_initial k))"
    by (simp only: init_all_def upt_Suc_append list.map map_append cc_run_snoc le0)
  show ?case
  proof (intro conjI allI impI)
    fix a' assume "cc_run sc row (init_all now (Suc k)) a = Some a'"
    then obtain b where b: "cc_run sc row (init_all now k) a = Some b"
      and s: "cc_step (cc_functions sc now row) (Ev_initial k) b = Some a'"
      by (auto simp: split bind_Some_iff simp del: cc_step.simps)
    from Suc b have I: "conf_ok b" "length (nets b) = length (nets a)" "sctp_cmt_on_off b = sctp_cmt_on_off a"
      "\<forall>i<length (nets b). input_ok (mtu_bound row) (nets b ! i)"
      "\<forall>i<k. net_ok (mtu_bound row) (max_cwnd b) (nets b ! i)" by auto
    note J = row_initial_step [OF s I(1) assms(3) I(4,5)]
    show "conf_ok a'" "length (nets a') = length (nets a)" "sctp_cmt_on_off a' = sctp_cmt_on_off a"
      using J I Suc.prems by auto
    show "input_ok (mtu_bound row) (nets a' ! i)" if "i < length (nets a')" for i using J I Suc.prems that by auto
    show "net_ok (mtu_bound row) (max_cwnd a') (nets a' ! i)" if "i < Suc k" for i using J I Suc.prems that by auto
  next
    assume r: "row \<noteq> CC_HTCP"
    with Suc obtain b where b: "cc_run sc row (init_all now k) a = Some b" by auto
    with Suc have "\<exists>a'. cc_step (cc_functions sc now row) (Ev_initial k) b = Some a'"
      by (intro row_initial_total [OF _ _ _ r]) auto
    then show "cc_run sc row (init_all now (Suc k)) a \<noteq> None" by (auto simp: split b simp del: cc_step.simps)
  qed
qed

lemma all_net_ok_window:
  assumes "conf_ok a" "\<forall>i<length (nets a). net_ok M (max_cwnd a) (nets a ! i)"
  shows "window_ok M a"
  using assms by (auto simp: window_ok_def in_set_conv_nth)

text \<open>An association with one destination, for the witnesses.\<close>

definition ex_sysctl :: cc_sysctl where
  "ex_sysctl = \<lparr>sctp_initial_cwnd = 3, sctp_L2_abc_variable = 2, sctp_rttvar_bw = 4, sctp_rttvar_rtt = 5,
     sctp_rttvar_eqret = 0, sctp_steady_step = 20, sctp_use_dccc_ecn = 0\<rparr>"

definition ex_htcp :: htcp where
  "ex_htcp = \<lparr>alpha = 128, beta = 64, modeswitch = 0, last_cong = 0, undo_last_cong = 0, bytes_acked = 1500,
     bytecount = 0, minRTT = 0, maxRTT = 0, undo_maxRTT = 0, undo_old_maxB = 0, minB = 0, maxB = 0, old_maxB = 0,
     Bi = 0, lasttime = 0\<rparr>"

definition ex_rtcc :: rtcc_cc where
  "ex_rtcc = \<lparr>tls = (0, 0), lbw = 0, lbw_rtt = 0, bw_bytes = 0, bw_tot_time = 0, new_tot_time = 0,
     bw_bytes_at_last_rttc = 0, cwnd_at_bw_set = 0, vol_reduce = 0, steady_step = 0, step_cnt = 0, ret_from_eq = 0,
     use_dccc_ecn = 0, tls_needs_set = 0, last_step_state = 0, rtt_set_this_sack = False, last_inst_ind = 0\<rparr>"

definition ex_net :: cc_net where
  "ex_net = \<lparr>mtu = 1500, ssthresh = 60000, lastsa = 800, rtt = 100000, RTO = 1000, htcp_ca = ex_htcp,
     rtcc = ex_rtcc, flight_size = 3000, cwnd = 4464, prev_cwnd = 4464, ecn_prev_cwnd = 0, partial_bytes_acked = 0,
     net_ack = 2800, fast_recovery_tsn = 0, fast_retran_loss_recovery = False, fast_retran_ip = 0,
     new_pseudo_cumack = False, last_hs_used = 0, lan_type = 0\<rparr>"

definition ex_asoc :: cc_asoc where
  "ex_asoc = \<lparr>nets = [ex_net], send_queue = [], sending_seq = 100, asoc_recovery_tsn = 0, asoc_loss_recovery = False,
     peers_rwnd = 60000, numnets = 1, max_burst = 4, max_cwnd = 100000, sctp_cmt_on_off = 0,
     seen_a_sack_this_pkt = False, use_precise_time = False, timer_calls = [], sctps_fastretransinrtt = 0,
     sctps_ecnereducedcwnd = 0\<rparr>"

lemmas ex_defs = ex_sysctl_def ex_htcp_def ex_rtcc_def ex_net_def ex_asoc_def

lemma ex_ok: "conf_ok ex_asoc" "\<forall>n\<in>set (nets ex_asoc). input_ok (mtu_bound row) n" "sc_ok ex_sysctl"
  by (cases row; simp add: ex_defs conf_ok_def input_ok_def sc_ok_def cc_consts mtu_bound_def SCTP_HS_TABLE_SIZE_def)+

text \<open>C26. Bounds of the congestion window. For each of the four modules, initialise the destinations of an association
and then let any sequence of SACKs, fast retransmits, timeouts, ECN echoes, packet drop reports, burst limits, measurements, option
changes and new inputs happen. If no routine traps, every destination may always send one packet, and its window
never exceeds the configured limit or the largest MTU. No routine traps in the modules other than H-TCP, without packet drop reports and
with the plain form of multipath transfer. (A window limit is configured, resource pooling and the data center variant of RTCC are off, the
MTU does not grow.)\<close>

theorem windows_bounded:
  assumes "conf_ok a" "\<forall>n\<in>set (nets a). input_ok (mtu_bound row) n" "sc_ok sc"
    and "\<forall>(now, e)\<in>set es. event_ok (mtu_bound row) (length (nets a)) e"
  shows "(\<forall>a'. cc_run sc row (init_all t (length (nets a)) @ es) a = Some a' \<longrightarrow>
      (\<forall>n\<in>set (nets a'). unat (mtu n) - 12 \<le> unat (cwnd n) \<and>
        unat (cwnd n) \<le> max (unat (max_cwnd a')) (mtu_bound row)))
    \<and> (row \<noteq> CC_HTCP \<longrightarrow> sctp_cmt_on_off a \<le> 1 \<longrightarrow> (\<forall>now i bw q. (now, Ev_packet_dropped i bw q) \<notin> set es)
      \<longrightarrow> cc_run sc row (init_all t (length (nets a)) @ es) a \<noteq> None)"
proof -
  note I = init_all_upto [OF assms(1-3) order.refl, of t]
  have w: "window_ok (mtu_bound row) b" "length (nets b) = length (nets a)" "sctp_cmt_on_off b = sctp_cmt_on_off a"
    if "cc_run sc row (init_all t (length (nets a))) a = Some b" for b
    using I that by (auto intro: all_net_ok_window)
  show ?thesis
  proof (cases "cc_run sc row (init_all t (length (nets a))) a")
    case None
    then show ?thesis using I by (auto simp: cc_run_append)
  next
    case (Some b)
    note R = run_keeps [OF w(1) [OF Some] assms(3), of es] w(2,3) [OF Some] assms(4)
    then show ?thesis by (auto simp: cc_run_append Some window_ok_def net_ok_def)
  qed
qed

definition ex_events :: "(u32 \<times> cc_event) list" where
  "ex_events = [(1, Ev_sack True False), (2, Ev_fast_retransmit), (3, Ev_timeout 0), (4, Ev_output 0 4)]"

theorem windows_bounded_witness:
  "\<exists>a'. cc_run ex_sysctl CC_HSTCP (init_all 0 1 @ ex_events) ex_asoc = Some a' \<and>
     (\<forall>n\<in>set (nets a'). unat (mtu n) - 12 \<le> unat (cwnd n) \<and> unat (cwnd n) \<le> max (unat (max_cwnd a')) 19456)"
proof -
  have k: "length (nets ex_asoc) = 1" by (simp add: ex_defs)
  have c: "sctp_cmt_on_off ex_asoc \<le> 1" by (simp add: ex_defs)
  have e: "\<forall>(now, e)\<in>set ex_events. event_ok (mtu_bound CC_HSTCP) (length (nets ex_asoc)) e"
    by (simp add: ex_events_def k mtu_bound_def)
  have d: "\<forall>now i bw q. (now, Ev_packet_dropped i bw q) \<notin> set ex_events" by (simp add: ex_events_def)
  have m: "mtu_bound CC_HSTCP = 19456" by (simp add: mtu_bound_def)
  from windows_bounded [OF ex_ok(1) ex_ok(2) ex_ok(3) e, of 0] c d show ?thesis unfolding k m by auto
qed

end
