(* ===== verification/Cc_Rfc_Props.thy ===== *)
theory Cc_Rfc_Props
  imports Cc_Props
begin

text \<open>
  What congestion control does, event by event: the default module beside the rules of RFC 4960, section 7.2, on natural
  numbers, which it follows but for the threshold after a fast retransmit; and fast retransmit reduces one destination per recovery window.
\<close>

section \<open>Fast retransmit\<close>

definition peg_count :: "cc_net list \<Rightarrow> u32" where
  "peg_count ns = of_nat (length (filter (\<lambda>n. 0 < net_ack n) ns))"

lemma fr_loop_recovering:
  assumes "asoc_loss_recovery a" "sctp_cmt_on_off a = 0"
  shows "fr_loop red i a ns =
    Some (a\<lparr>sctps_fastretransinrtt := sctps_fastretransinrtt a + peg_count ns\<rparr>, ns)"
  using assms
proof (induction ns arbitrary: i a)
  case Nil
  then show ?case by (simp add: peg_count_def)
next
  case (Cons n ns)
  then show ?case by (simp add: peg_count_def add.assoc)
qed

lemma fr_loop_idle:
  assumes "\<forall>n\<in>set ns. net_ack n = 0"
  shows "fr_loop red i a ns = Some (a, ns)"
  using assms by (induction ns arbitrary: i) auto

lemma fr_loop_first:
  assumes "\<forall>p\<in>set pre. net_ack p = 0" "0 < net_ack n" "\<not> asoc_loss_recovery a" "sctp_cmt_on_off a = 0"
  shows "fr_loop red i a (pre @ n # post) =
    map_option (\<lambda>m. ((enter_recovery (i + length pre) a)
        \<lparr>sctps_fastretransinrtt := sctps_fastretransinrtt a + peg_count post\<rparr>,
      pre @ enter_recovery_net a m # post)) (red a n)"
  using assms(1)
proof (induction pre arbitrary: i)
  case Nil
  have "asoc_loss_recovery (enter_recovery i a)" "sctp_cmt_on_off (enter_recovery i a) = 0"
    using assms(4) by (simp_all add: enter_recovery_def)
  then show ?case
    using assms(2,3) fr_loop_recovering [of "enter_recovery i a" red "Suc i" post]
    by (cases "red a n") (simp_all add: enter_recovery_def)
next
  case (Cons p pre)
  then show ?case using assms(3) by (cases "red a n") simp_all
qed

lemma first_acked:
  obtains (none) "\<forall>n\<in>set ns. net_ack n = (0 :: u32)"
  | (first) pre n post where "ns = pre @ n # post" "\<forall>p\<in>set pre. net_ack p = 0" "0 < net_ack n"
proof (cases "\<exists>n\<in>set ns. 0 < net_ack n")
  case True
  then obtain pre n post where "ns = pre @ n # post" "0 < net_ack n" "\<forall>p\<in>set pre. \<not> 0 < net_ack p"
    using split_list_first_prop [of ns "\<lambda>n. 0 < net_ack n"] by blast
  then show ?thesis by (intro first) (auto simp: word_gt_0)
next
  case False
  then show ?thesis by (intro none) (auto simp: word_gt_0)
qed

text \<open>The routine that each row passes to the loop.\<close>

definition row_cut :: "u32 \<Rightarrow> cc_asoc \<Rightarrow> cc_row \<Rightarrow> cc_asoc \<Rightarrow> cc_net \<Rightarrow> cc_net option" where
  "row_cut now a row = (case row of CC_HSTCP \<Rightarrow> sctp_hs_cwnd_decrease | CC_HTCP \<Rightarrow> htcp_fr_cut now
     | _ \<Rightarrow> fr_cut (fr_sums a))"

lemma row_after_fr: "after_fr (cc_functions sc now row) a = run_fr (row_cut now a row) a"
  by (cases row) (simp_all add: rfc_row_def row_cut_def sctp_cwnd_update_after_fr_def
      sctp_hs_cwnd_update_after_fr_def sctp_htcp_cwnd_update_after_fr_def)

text \<open>C28. One reduction per recovery window, without multipath transfer and for every module. Outside a recovery window a fast
retransmit changes exactly the first destination that has newly acknowledged bytes: its partial count is reset, the
recovery window of the destination and of the association ends before the next TSN to be sent, and the retransmission timer of
that destination is restarted. Until the recovery is over no further fast retransmit, of any module, changes a destination or a timer.\<close>

theorem one_reduction_per_window:
  assumes "after_fr (cc_functions sc now row) a = Some a'" "sctp_cmt_on_off a = 0"
  shows "(asoc_loss_recovery a \<longrightarrow> nets a' = nets a \<and> timer_calls a' = timer_calls a)
    \<and> (\<not> asoc_loss_recovery a \<longrightarrow> (\<forall>pre n post. nets a = pre @ n # post \<longrightarrow> (\<forall>p\<in>set pre. net_ack p = 0)
        \<longrightarrow> 0 < net_ack n \<longrightarrow>
        (\<exists>n'. nets a' = pre @ n' # post \<and> partial_bytes_acked n' = 0 \<and> fast_retran_loss_recovery n'
          \<and> fast_recovery_tsn n' = recovery_end a \<and> asoc_recovery_tsn a' = recovery_end a \<and> asoc_loss_recovery a'
          \<and> timer_calls a' = timer_calls a @ [Timer_stop_send (length pre), Timer_start_send (length pre)])))
    \<and> (asoc_loss_recovery a' \<longrightarrow> (\<forall>sc2 now2 row2. \<exists>a''. after_fr (cc_functions sc2 now2 row2) a' = Some a'' \<and>
        nets a'' = nets a' \<and> timer_calls a'' = timer_calls a'))"
proof -
  have rec: "\<exists>b'. after_fr (cc_functions sc2 now2 row2) b = Some b' \<and> nets b' = nets b \<and> timer_calls b' = timer_calls b
      \<and> sctp_cmt_on_off b' = 0" if "asoc_loss_recovery b" "sctp_cmt_on_off b = 0" for b sc2 now2 row2
    using that by (simp add: row_after_fr run_fr_def fr_loop_recovering)
  have cutting: "\<exists>n'. nets a' = pre @ n' # post \<and> partial_bytes_acked n' = 0 \<and> fast_retran_loss_recovery n'
      \<and> fast_recovery_tsn n' = recovery_end a \<and> asoc_recovery_tsn a' = recovery_end a \<and> asoc_loss_recovery a'
      \<and> sctp_cmt_on_off a' = 0
      \<and> timer_calls a' = timer_calls a @ [Timer_stop_send (length pre), Timer_start_send (length pre)]"
    if "\<not> asoc_loss_recovery a" "nets a = pre @ n # post" "\<forall>p\<in>set pre. net_ack p = 0" "0 < net_ack n" for pre n post
    using assms(1) fr_loop_first [OF that(3,4,1) assms(2), of "row_cut now a row" 0 post] assms(2)
    by (auto simp: row_after_fr run_fr_def that(2) bind_Some_iff enter_recovery_def enter_recovery_net_def)
  have cmt: "sctp_cmt_on_off a' = 0"
  proof (cases "asoc_loss_recovery a")
    case True
    then show ?thesis using rec [OF True assms(2), of sc now row] assms(1) by auto
  next
    case False
    show ?thesis
    proof (cases rule: first_acked [of "nets a"])
      case none
      then show ?thesis using assms by (simp add: row_after_fr run_fr_def fr_loop_idle)
    next
      case (first pre n post)
      then show ?thesis using cutting [OF False] by blast
    qed
  qed
  have held: "nets a' = nets a \<and> timer_calls a' = timer_calls a" if "asoc_loss_recovery a"
    using rec [OF that assms(2), of sc now row] assms(1) by auto
  show ?thesis
  proof (intro conjI impI allI)
    fix pre n post
    assume "\<not> asoc_loss_recovery a" "nets a = pre @ n # post" "\<forall>p\<in>set pre. net_ack p = 0" "0 < net_ack n"
    from cutting [OF this] show "\<exists>n'. nets a' = pre @ n' # post \<and> partial_bytes_acked n' = 0
        \<and> fast_retran_loss_recovery n' \<and> fast_recovery_tsn n' = recovery_end a \<and> asoc_recovery_tsn a' = recovery_end a
        \<and> asoc_loss_recovery a'
        \<and> timer_calls a' = timer_calls a @ [Timer_stop_send (length pre), Timer_start_send (length pre)]"
      by blast
  qed (use held rec [OF _ cmt] in blast)+
qed

theorem one_reduction_per_window_witness:
  "\<exists>a' n'. after_fr (cc_functions ex_sysctl 0 CC_RFC2581) ex_asoc = Some a' \<and> nets a' = [n'] \<and>
     fast_retran_loss_recovery n' \<and> asoc_recovery_tsn a' = 99 \<and>
     timer_calls a' = [Timer_stop_send 0, Timer_start_send 0]"
proof -
  have c: "sctp_cmt_on_off ex_asoc = 0" "\<not> asoc_loss_recovery ex_asoc" "nets ex_asoc = [] @ ex_net # []"
    "0 < net_ack ex_net" "recovery_end ex_asoc = 99" "timer_calls ex_asoc = []"
    by (simp_all add: ex_defs recovery_end_def)
  have "window_ok 65535 ex_asoc"
    by (simp add: ex_defs window_ok_def net_ok_def conf_ok_def input_ok_def cc_consts SCTP_HS_TABLE_SIZE_def)
  from after_fr_total [OF this] obtain a' where a': "after_fr (cc_functions ex_sysctl 0 CC_RFC2581) ex_asoc = Some a'"
    by (auto simp: rfc_row_def)
  from one_reduction_per_window [OF a' c(1), THEN conjunct2, THEN conjunct1, rule_format, OF c(2) c(3) _ c(4)]
  show ?thesis using a' c(5,6) by auto
qed

section \<open>The rules of RFC 4960\<close>

text \<open>A destination as the RFC sees it, with natural numbers. Section 7.2.1: slow start below the threshold, growing by the
acknowledged bytes, at most \<open>L\<close> MTUs, where the RFC has \<open>L = 1\<close>. Section 7.2.2: one MTU per window of acknowledged bytes. Section 7.2.3:
the reaction to losses, with four MTUs as the smallest threshold. \<open>loss_reduction\<close> is the rule for losses that SACKs report, with any
number \<open>k\<close> of MTUs; the code of the default module uses \<open>k = 2\<close>.\<close>

record rfc_path =
  p_mtu :: nat
  p_ssthresh :: nat
  p_cwnd :: nat
  p_pba :: nat
  p_flight :: nat
  p_acked :: nat

definition rfc_ack :: "nat \<Rightarrow> rfc_path \<Rightarrow> rfc_path" where
  "rfc_ack L p =
     (if p_acked p = 0 then p
      else if p_cwnd p \<le> p_ssthresh p
      then if p_cwnd p \<le> p_flight p + p_acked p then p\<lparr>p_cwnd := p_cwnd p + min (p_acked p) (L * p_mtu p)\<rparr> else p
      else let pba = p_pba p + p_acked p
           in if p_cwnd p \<le> p_flight p + p_acked p \<and> p_cwnd p \<le> pba
              then p\<lparr>p_cwnd := p_cwnd p + p_mtu p, p_pba := pba - p_cwnd p\<rparr> else p\<lparr>p_pba := pba\<rparr>)"

definition rfc_loss :: "nat \<Rightarrow> rfc_path \<Rightarrow> rfc_path" where
  "rfc_loss k p = p\<lparr>p_ssthresh := max (p_cwnd p div 2) (k * p_mtu p)\<rparr>"

definition loss_reduction :: "nat \<Rightarrow> rfc_path \<Rightarrow> rfc_path" where
  "loss_reduction k p = (let q = rfc_loss k p in q\<lparr>p_cwnd := p_ssthresh q, p_pba := 0\<rparr>)"

definition rfc_fast_retransmit :: "rfc_path \<Rightarrow> rfc_path" where
  "rfc_fast_retransmit = loss_reduction 4"

definition rfc_timeout :: "rfc_path \<Rightarrow> rfc_path" where
  "rfc_timeout p = (rfc_loss 4 p)\<lparr>p_cwnd := p_mtu p, p_pba := 0\<rparr>"

fun first_loss :: "(rfc_path \<Rightarrow> rfc_path) \<Rightarrow> rfc_path list \<Rightarrow> rfc_path list" where
  "first_loss rule [] = []"
| "first_loss rule (p # ps) = (if p_acked p = 0 then p # first_loss rule ps else rule p # ps)"

definition path_of :: "cc_net \<Rightarrow> rfc_path" where
  "path_of n = \<lparr>p_mtu = unat (mtu n), p_ssthresh = unat (ssthresh n), p_cwnd = unat (cwnd n),
     p_pba = unat (partial_bytes_acked n), p_flight = unat (flight_size n), p_acked = unat (net_ack n)\<rparr>"

definition small :: "cc_net \<Rightarrow> bool" where
  "small n \<longleftrightarrow> unat (mtu n) \<le> 65535 \<and> unat (flight_size n) \<le> 2 ^ 30 \<and> unat (net_ack n) \<le> 2 ^ 30
     \<and> unat (cwnd n) \<le> 2 ^ 30 \<and> unat (partial_bytes_acked n) \<le> 2 ^ 30"

lemma small_add:
  assumes "unat (x :: u32) \<le> 2 ^ 30" "unat y \<le> 2 ^ 30"
  shows "unat (x + y) = unat x + unat y"
  using assms by (intro unat_add_lem [THEN iffD1]) simp

lemma no_limit: "max_cwnd a = 0 \<Longrightarrow> sctp_enforce_cwnd_limit a n = n"
  by (simp add: sctp_enforce_cwnd_limit_def)

lemma grow_net_refines:
  assumes "small n" "sctp_cmt_on_off a = 0" "max_cwnd a = 0" "unat (sctp_L2_abc_variable sc) \<le> 2 ^ 15" "net_ack n \<noteq> 0"
  shows "\<exists>n'. grow_net sc a f n = Some n' \<and> path_of n' = rfc_ack (unat (sctp_L2_abc_variable sc)) (path_of n)"
proof -
  let ?L = "sctp_L2_abc_variable sc"
  define x where "x = (if mtu n * ?L < net_ack n then mtu n * ?L else net_ack n)"
  have s: "unat (mtu n * ?L) = unat (mtu n) * unat ?L" using assms(1,4) by (intro unat_mtu_mult) (auto simp: small_def)
  have x: "unat x = min (unat (net_ack n)) (unat ?L * unat (mtu n))" by (simp add: x_def word_less_nat_alt s mult.commute)
  have xl: "unat x \<le> 2 ^ 30" using assms(1) by (simp add: x small_def min_le_iff_disj)
  have incr: "ss_incr sc a f n = Some x" "ca_incr a f m = Some (mtu m)" for m
    using assms(2) by (auto simp: ss_incr_def ca_incr_def cc_consts x_def Let_def split: prod.splits)
  have add: "unat (cwnd n + x) = unat (cwnd n) + unat x"
    "unat (flight_size n + net_ack n) = unat (flight_size n) + unat (net_ack n)"
    "unat (partial_bytes_acked n + net_ack n) = unat (partial_bytes_acked n) + unat (net_ack n)"
    "unat (cwnd n + mtu n) = unat (cwnd n) + unat (mtu n)"
    using assms(1) xl by (auto simp: small_def intro!: small_add)
  have sub: "unat (partial_bytes_acked n + net_ack n - cwnd n) = unat (partial_bytes_acked n + net_ack n) - unat (cwnd n)"
    if "cwnd n \<le> partial_bytes_acked n + net_ack n" using that by (rule unat_sub)
  have nz: "unat (net_ack n) \<noteq> 0" using assms(5) by (simp add: unat_eq_0)
  show ?thesis
    using nz sub
    by (auto simp: grow_net_def rfc_ack_def path_of_def Let_def incr no_limit [OF assms(3)] word_le_nat_alt add x)
qed

lemma sack_loop_map:
  assumes "\<And>n. n \<in> set ns \<Longrightarrow> net_ack n \<noteq> 0 \<Longrightarrow> \<exists>n'. upd n = Some n' \<and> path_of n' = g (path_of n)"
    and "\<And>n. net_ack n = 0 \<Longrightarrow> g (path_of n) = path_of n"
    and "\<not> (asoc_loss_recovery a \<and> \<not> w \<and> sctp_cmt_on_off a = 0)"
  shows "\<exists>ns'. sack_loop a w upd ns = Some ns' \<and> map path_of ns' = map g (map path_of ns)"
  using assms(1)
proof (induction ns)
  case (Cons n ns)
  then obtain ns' where ns': "sack_loop a w upd ns = Some ns'" "map path_of ns' = map g (map path_of ns)" by auto
  show ?case
  proof (cases "net_ack n = 0")
    case True
    then show ?thesis using ns' assms(2) by simp
  next
    case False
    then obtain n' where "upd n = Some n'" "path_of n' = g (path_of n)" using Cons.prems by auto
    then show ?thesis using ns' False assms(3) by auto
  qed
qed simp

lemma sack_loop_recovering:
  assumes "asoc_loss_recovery a" "sctp_cmt_on_off a = 0"
  shows "sack_loop a False upd ns = Some ns"
  using assms by (induction ns) auto

lemma fr_cut_refines:
  assumes "small n" "sctp_cmt_on_off a = 0" "max_cwnd a = 0"
  shows "\<exists>m. fr_cut t a n = Some m \<and> path_of (enter_recovery_net a m) = loss_reduction 2 (path_of n)"
proof -
  define x where "x = (if cwnd n div 2 < mtu n * 2 then 2 * mtu n else cwnd n div 2)"
  have m: "unat (mtu n * 2) = 2 * unat (mtu n)" "unat (2 * mtu n) = 2 * unat (mtu n)"
    using unat_mtu_mult [of "mtu n" 2] assms(1) by (simp_all add: small_def)
  have x: "unat x = max (unat (cwnd n) div 2) (2 * unat (mtu n))"
    by (simp add: x_def word_less_nat_alt m unat_div)
  have "fr_cut t a n = Some (n\<lparr>ssthresh := x, cwnd := x\<rparr>)"
    using assms(2) by (auto simp: fr_cut_def cc_consts Let_def x_def no_limit [OF assms(3)] split: prod.splits)
  then show ?thesis
    by (simp add: enter_recovery_net_def path_of_def loss_reduction_def rfc_loss_def Let_def x)
qed

lemma first_loss_append:
  assumes "\<forall>p\<in>set pre. net_ack p = 0" "0 < net_ack n"
  shows "first_loss rule (map path_of (pre @ n # post)) = map path_of pre @ rule (path_of n) # map path_of post"
  using assms by (induction pre) (auto simp: path_of_def unat_eq_0)

lemma first_loss_idle: "\<forall>n\<in>set ns. net_ack n = 0 \<Longrightarrow> first_loss rule (map path_of ns) = map path_of ns"
  by (induction ns) (auto simp: path_of_def)

lemma after_fr_refines:
  assumes "\<forall>n\<in>set (nets a). small n" "sctp_cmt_on_off a = 0" "max_cwnd a = 0"
  shows "\<exists>a'. sctp_cwnd_update_after_fr a = Some a' \<and> map path_of (nets a') =
    (if asoc_loss_recovery a then map path_of (nets a) else first_loss (loss_reduction 2) (map path_of (nets a)))"
proof (cases "asoc_loss_recovery a")
  case True
  then show ?thesis
    using assms(2) by (simp add: sctp_cwnd_update_after_fr_def run_fr_def fr_loop_recovering)
next
  case False
  show ?thesis
  proof (cases rule: first_acked [of "nets a"])
    case none
    then show ?thesis
      using False by (simp add: sctp_cwnd_update_after_fr_def run_fr_def fr_loop_idle first_loss_idle)
  next
    case (first pre n post)
    from assms(1) first(1) have "small n" by simp
    from fr_cut_refines [OF this assms(2,3), of "fr_sums a"] obtain m where m: "fr_cut (fr_sums a) a n = Some m"
      "path_of (enter_recovery_net a m) = loss_reduction 2 (path_of n)" by blast
    show ?thesis
      using fr_loop_first [OF first(2,3) False assms(2), of "fr_cut (fr_sums a)" 0 post] m False
        first_loss_append [OF first(2,3), of "loss_reduction 2" post]
      by (simp add: sctp_cwnd_update_after_fr_def run_fr_def first(1))
  qed
qed

lemma after_timeout_refines:
  assumes "small n" "sctp_cmt_on_off a = 0"
  shows "\<exists>n'. sctp_cwnd_update_after_timeout a n = Some n' \<and> path_of n' = rfc_timeout (path_of n)"
proof -
  have "unat (4 * mtu n) = 4 * unat (mtu n)" using unat_mtu_mult [of "mtu n" 4] assms(1) by (simp add: small_def)
  then show ?thesis
    using assms(2)
    by (simp add: sctp_cwnd_update_after_timeout_def cc_consts path_of_def rfc_timeout_def rfc_loss_def unat_min_max unat_div)
qed

text \<open>The two rules for losses: the code and the RFC agree exactly from a window of eight MTUs on, below it the code's window is smaller.\<close>

lemma loss_reduction_rfc:
  "(loss_reduction 2 p = rfc_fast_retransmit p) \<longleftrightarrow> 8 * p_mtu p \<le> p_cwnd p"
  "p_cwnd p < 8 * p_mtu p \<Longrightarrow> p_cwnd (loss_reduction 2 p) < p_cwnd (rfc_fast_retransmit p)"
proof -
  have "4 * m \<le> c div 2 \<longleftrightarrow> 8 * m \<le> c" for m c :: nat by linarith
  moreover have "max (c div 2) (2 * m) = max (c div 2) (4 * m) \<longleftrightarrow> 4 * m \<le> c div 2" for m c :: nat by (auto simp: max_def)
  ultimately show "(loss_reduction 2 p = rfc_fast_retransmit p) \<longleftrightarrow> 8 * p_mtu p \<le> p_cwnd p"
    by (cases p) (simp add: loss_reduction_def rfc_fast_retransmit_def rfc_loss_def Let_def)
  show "p_cwnd (loss_reduction 2 p) < p_cwnd (rfc_fast_retransmit p)" if "p_cwnd p < 8 * p_mtu p"
    using that by (auto simp: loss_reduction_def rfc_fast_retransmit_def rfc_loss_def Let_def)
qed

text \<open>C27. The default module beside the rules of RFC 4960 on natural numbers, as long as no number exceeds \<open>2 ^ 30\<close>, multipath
transfer is off and no window limit is set. A SACK that moves the cumulative acknowledgement applies the rules of slow start
(with the configured number \<open>L\<close> of MTUs) and congestion avoidance to every destination, unless the association stays in loss recovery; any
other SACK changes no window. A timeout applies the timeout rule, and also clears the count of partially acknowledged bytes. A fast retransmit reduces the
first destination with acknowledged bytes, but not by the rule of the RFC: the smallest threshold is two MTUs, not four. Its effect is
that of the RFC exactly if the window has at least eight MTUs; otherwise the new window is smaller than the RFC's. All three always return.\<close>

theorem rfc4960_compared:
  assumes "\<forall>n\<in>set (nets a). small n" "sctp_cmt_on_off a = 0" "max_cwnd a = 0" "unat (sctp_L2_abc_variable sc) \<le> 2 ^ 15"
  shows "(\<exists>a'. sctp_cwnd_update_after_sack sc moved will_exit a = Some a' \<and> map path_of (nets a') =
      (if moved \<and> (asoc_loss_recovery a \<longrightarrow> will_exit)
       then map (rfc_ack (unat (sctp_L2_abc_variable sc))) (map path_of (nets a)) else map path_of (nets a)))
    \<and> (\<exists>a'. sctp_cwnd_update_after_fr a = Some a' \<and> map path_of (nets a') =
      (if asoc_loss_recovery a then map path_of (nets a) else first_loss (loss_reduction 2) (map path_of (nets a))))
    \<and> (\<forall>n\<in>set (nets a). (loss_reduction 2 (path_of n) = rfc_fast_retransmit (path_of n) \<longleftrightarrow> 8 * unat (mtu n) \<le> unat (cwnd n))
      \<and> (unat (cwnd n) < 8 * unat (mtu n) \<longrightarrow> p_cwnd (loss_reduction 2 (path_of n)) < p_cwnd (rfc_fast_retransmit (path_of n))))
    \<and> (\<forall>n\<in>set (nets a). \<exists>n'. sctp_cwnd_update_after_timeout a n = Some n' \<and> path_of n' = rfc_timeout (path_of n))"
proof (intro conjI ballI)
  let ?L = "unat (sctp_L2_abc_variable sc)"
  let ?upd = "sack_net sc a (1, 1, 1) moved False"
  let ?g = "if moved then rfc_ack ?L else id"
  have sf: "sctp_cwnd_update_after_sack sc moved will_exit a = run_sack will_exit ?upd a"
    using assms(2)
    by (simp add: sctp_cwnd_update_after_sack_def sctp_cwnd_update_after_sack_common_def sack_factors_def cc_consts)
  show "\<exists>a'. sctp_cwnd_update_after_sack sc moved will_exit a = Some a' \<and> map path_of (nets a') =
      (if moved \<and> (asoc_loss_recovery a \<longrightarrow> will_exit)
       then map (rfc_ack ?L) (map path_of (nets a)) else map path_of (nets a))"
  proof (cases "asoc_loss_recovery a \<and> \<not> will_exit")
    case True
    then show ?thesis
      unfolding sf using sack_loop_recovering [of a ?upd "nets a"] assms(2) by (simp add: run_sack_def)
  next
    case False
    have "\<exists>n'. ?upd n = Some n' \<and> path_of n' = ?g (path_of n)" if "n \<in> set (nets a)" "net_ack n \<noteq> 0" for n
      using grow_net_refines [OF _ assms(2-4) that(2), of "(1, 1, 1)"] assms(1,2) that(1) by (simp add: sack_net_def)
    moreover have "?g (path_of n) = path_of n" if "net_ack n = 0" for n
      using that by (simp add: rfc_ack_def path_of_def)
    ultimately obtain ns' where "sack_loop a will_exit ?upd (nets a) = Some ns'"
      "map path_of ns' = map ?g (map path_of (nets a))"
      using sack_loop_map [of "nets a" ?upd ?g a will_exit] False by blast
    then show ?thesis using False by (auto simp: sf run_sack_def)
  qed
  show "\<exists>a'. sctp_cwnd_update_after_fr a = Some a' \<and> map path_of (nets a') =
      (if asoc_loss_recovery a then map path_of (nets a) else first_loss (loss_reduction 2) (map path_of (nets a)))"
    by (rule after_fr_refines [OF assms(1-3)])
  show "loss_reduction 2 (path_of n) = rfc_fast_retransmit (path_of n) \<longleftrightarrow> 8 * unat (mtu n) \<le> unat (cwnd n)"
    "unat (cwnd n) < 8 * unat (mtu n) \<longrightarrow> p_cwnd (loss_reduction 2 (path_of n)) < p_cwnd (rfc_fast_retransmit (path_of n))" for n
    using loss_reduction_rfc [of "path_of n"] by (simp_all add: path_of_def)
  show "\<exists>n'. sctp_cwnd_update_after_timeout a n = Some n' \<and> path_of n' = rfc_timeout (path_of n)"
    if "n \<in> set (nets a)" for n
    using after_timeout_refines assms(1,2) that by blast
qed

theorem rfc4960_compared_witness:
  "\<exists>a'. sctp_cwnd_update_after_sack ex_sysctl True False (ex_asoc\<lparr>max_cwnd := 0\<rparr>) = Some a' \<and>
     map (\<lambda>n. unat (cwnd n)) (nets a') = [7264]"
proof -
  let ?a = "ex_asoc\<lparr>max_cwnd := 0\<rparr>"
  have "\<forall>n\<in>set (nets ?a). small n" "sctp_cmt_on_off ?a = 0" "max_cwnd ?a = 0"
    "unat (sctp_L2_abc_variable ex_sysctl) \<le> 2 ^ 15" "\<not> asoc_loss_recovery ?a"
    by (simp_all add: ex_defs small_def)
  note r = rfc4960_compared [OF this(1-4), of True False, THEN conjunct1] this(5)
  have p: "map (rfc_ack (unat (sctp_L2_abc_variable ex_sysctl))) (map path_of (nets ?a)) =
      [(path_of ex_net)\<lparr>p_cwnd := 7264\<rparr>]"
    by (simp add: ex_defs path_of_def rfc_ack_def)
  from r obtain a' where a': "sctp_cwnd_update_after_sack ex_sysctl True False ?a = Some a'"
    and m: "map path_of (nets a') = [(path_of ex_net)\<lparr>p_cwnd := 7264\<rparr>]"
    using p by auto
  from m have "map p_cwnd (map path_of (nets a')) = [7264]" by simp
  then have "map (\<lambda>n. unat (cwnd n)) (nets a') = [7264]" by (simp add: path_of_def comp_def)
  with a' show ?thesis by (intro exI conjI)
qed

end
