(* ===== verification/Cc_Traps.thy ===== *)
theory Cc_Traps
  imports Cc_Rfc_Props
begin

text \<open>
  The inputs on which congestion control divides by zero, and what two defects of the high-speed modules lead to. The conditions are exact:
  on all other inputs the routines return.
\<close>

lemma cdiv_None_iff [simp]: "cdiv a b = None \<longleftrightarrow> b = 0"
  by (simp add: cdiv_def)

section \<open>Packet drop reports\<close>








section \<open>Multipath transfer\<close>

lemma ucast_mult_eq_0:
  assumes "(x :: u32) \<noteq> 0" "(y :: u32) \<noteq> 0"
  shows "(ucast x * ucast y :: u64) \<noteq> 0"
proof -
  have l: "unat x < 2 ^ 32" "unat y < 2 ^ 32"
    using unsigned_less [of x, where ?'a = nat] unsigned_less [of y, where ?'a = nat] by simp_all
  then have "unat x * unat y < 2 ^ 32 * 2 ^ 32" by (intro mult_strict_mono) auto
  then have "unat (ucast x :: u64) * unat (ucast y :: u64) < 2 ^ LENGTH(64)" by (simp add: unat_u64_of_u32)
  from unat_mult_lem [THEN iffD1, OF this]
  have "unat (ucast x * ucast y :: u64) = unat x * unat y" by (simp add: unat_u64_of_u32)
  with assms show ?thesis by (auto simp: unat_eq_0 simp flip: unat_eq_0)
qed

text \<open>The sums trap exactly on a measured destination without an MTU, or with a smoothed round trip time whose square is zero
in 32 bits.\<close>

lemma sack_totals_None_iff:
  "sack_totals ns t = None \<longleftrightarrow> (\<exists>n\<in>set ns. lastsa n \<noteq> 0 \<and> (mtu n = 0 \<or> lastsa n * lastsa n = 0))"
proof (induction ns arbitrary: t)
  case (Cons n ns)
  show ?case
  proof (cases "lastsa n = 0")
    case True
    then show ?thesis by (simp add: Cons.IH)
  next
    case False
    have s: "(ucast (lastsa n) :: u64) \<noteq> 0"
      using ucast_mult_eq_0 [OF False False] by auto
    have p: "(ucast (mtu n) * ucast (lastsa n) :: u64) = 0 \<longleftrightarrow> mtu n = 0"
      using ucast_mult_eq_0 [OF _ False, of "mtu n"] by auto
    have q: "(ucast (mtu n) * ucast (lastsa n * lastsa n) :: u64) = 0 \<longleftrightarrow> mtu n = 0 \<or> lastsa n * lastsa n = 0"
      using ucast_mult_eq_0 [of "mtu n" "lastsa n * lastsa n"] by auto
    show ?thesis
    proof (cases "mtu n = 0 \<or> lastsa n * lastsa n = 0")
      case True
      then show ?thesis using False s p q by (auto simp: word_gt_0 cdiv_def)
    next
      case no: False
      then show ?thesis using False s p q by (simp add: word_gt_0 cdiv_def Cons.IH Let_def)
    qed
  qed
qed simp

lemma square_eq_0_iff: "(x :: u32) * x = 0 \<longleftrightarrow> 65536 dvd unat x"
proof -
  have "x * x = 0 \<longleftrightarrow> 2 ^ 32 dvd unat x * unat x"
    by (simp add: unat_word_ariths mod_eq_0_iff_dvd flip: unat_eq_0)
  also have "\<dots> \<longleftrightarrow> (2 ^ 16) ^ 2 dvd (unat x) ^ 2" by (simp add: power2_eq_square)
  also have "\<dots> \<longleftrightarrow> 2 ^ 16 dvd unat x" by (rule pow_divides_pow_iff) simp
  finally show ?thesis by simp
qed

text \<open>Round trip times that stop the process. With resource pooling or the MPTCP-like variant of multipath transfer, a SACK makes the
default module and RTCC divide by zero as soon as the smoothed round trip time of some destination, in eighths of a
millisecond, is a multiple of 65536 other than zero (8.192 seconds, for example), whatever the SACK acknowledges: its square
is computed in 32 bits. Without these variants a SACK never traps.\<close>

theorem srtt_square_traps:
  "(sctp_cmt_on_off a \<in> {SCTP_CMT_RPV1, SCTP_CMT_RPV2, SCTP_CMT_MPTCP} \<and>
      (\<exists>n\<in>set (nets a). lastsa n \<noteq> 0 \<and> 65536 dvd unat (lastsa n))
      \<longrightarrow> sctp_cwnd_update_after_sack_common sc moved will_exit use_rtcc a = None)
    \<and> (sctp_cmt_on_off a \<le> 1 \<longrightarrow> sctp_cwnd_update_after_sack_common sc moved will_exit use_rtcc a \<noteq> None)"
proof (intro conjI impI)
  assume A: "sctp_cmt_on_off a \<in> {SCTP_CMT_RPV1, SCTP_CMT_RPV2, SCTP_CMT_MPTCP} \<and>
    (\<exists>n\<in>set (nets a). lastsa n \<noteq> 0 \<and> 65536 dvd unat (lastsa n))"
  then have "sack_totals (nets a) t = None" for t
    unfolding sack_totals_None_iff square_eq_0_iff by blast
  with A show "sctp_cwnd_update_after_sack_common sc moved will_exit use_rtcc a = None"
    by (auto simp: sctp_cwnd_update_after_sack_common_def sack_factors_def)
next
  assume "sctp_cmt_on_off a \<le> 1"
  then show "sctp_cwnd_update_after_sack_common sc moved will_exit use_rtcc a \<noteq> None"
    using after_sack_total [of a sc moved will_exit use_rtcc] by auto
qed

theorem srtt_square_traps_witness:
  "sctp_cwnd_update_after_sack_common ex_sysctl True False False
     (ex_asoc\<lparr>sctp_cmt_on_off := 4, nets := [ex_net\<lparr>lastsa := 65536\<rparr>]\<rparr>) = None"
  using srtt_square_traps [of "ex_asoc\<lparr>sctp_cmt_on_off := 4, nets := [ex_net\<lparr>lastsa := 65536\<rparr>]\<rparr>" ex_sysctl True False False]
  by (simp add: cc_consts)

section \<open>H-TCP\<close>

lemma sint_cases: "sint (x :: u32) = (if uint x < 2 ^ 31 then uint x else uint x - 2 ^ 32)"
proof -
  have u: "0 \<le> uint x" "uint x < 2 ^ 32" using uint_lt2p [of x] by simp_all
  have "sint x = take_bit 32 (uint x) - 2 ^ 32 * of_bool (bit (uint x) 31)"
    using signed_take_bit_eq_take_bit_minus [of 31 "uint x"] by (simp add: sint_uint)
  moreover have "take_bit 32 (uint x) = uint x" using u by (simp add: take_bit_int_eq_self)
  moreover have "bit (uint x) 31 \<longleftrightarrow> 2 ^ 31 \<le> uint x"
  proof -
    have "uint x div 2 ^ 31 = (if 2 ^ 31 \<le> uint x then 1 else 0)" using u by auto
    then show ?thesis by (simp add: bit_iff_odd)
  qed
  ultimately show ?thesis by auto
qed

lemma signed_shift_eq_0_iff: "signed_drop_bit 3 (x :: u32) = 0 \<longleftrightarrow> x < 8"
proof -
  have "signed_drop_bit 3 x = 0 \<longleftrightarrow> sint (signed_drop_bit 3 x) = 0" by (simp add: signed_eq_0_iff)
  also have "\<dots> \<longleftrightarrow> sint x div 8 = 0" by (simp add: sint_signed_drop_bit_eq drop_bit_eq_div)
  also have "\<dots> \<longleftrightarrow> 0 \<le> sint x \<and> sint x < 8" by (auto simp: div_eq_0_iff)
  also have "\<dots> \<longleftrightarrow> x < 8" using uint_lt2p [of x] by (auto simp: sint_cases word_less_def)
  finally show ?thesis .
qed

lemma signed_shift_less:
  assumes "(x :: u32) < 0x10000000"
  shows "signed_drop_bit 3 x < 0x10000000"
proof -
  have u: "0 \<le> uint x" "uint x < 2 ^ 28" using assms by (simp_all add: word_less_def)
  have "sint (signed_drop_bit 3 x) = uint x div 8"
    using u sint_cases [of x] by (simp add: sint_signed_drop_bit_eq drop_bit_eq_div)
  then have s: "0 \<le> sint (signed_drop_bit 3 x)" "sint (signed_drop_bit 3 x) < 2 ^ 28"
    using u by (simp_all add: pos_imp_zdiv_nonneg_iff div_less_dividend int_div_less_self zdiv_mono1)
  then show ?thesis
    using uint_lt2p [of "signed_drop_bit 3 x"] sint_cases [of "signed_drop_bit 3 x"]
    by (auto simp: word_less_def split: if_splits)
qed

lemma measure_rtt_None_iff:
  "measure_rtt now n = None \<longleftrightarrow> fast_retran_ip n = 0 \<and> ssthresh n < 0xFFFF \<and> lastsa n < 8"
proof -
  let ?s = "signed_drop_bit 3 (lastsa n)"
  have "(if ?s < minRTT (htcp_ca n) \<or> minRTT (htcp_ca n) = 0 then ?s else minRTT (htcp_ca n)) = 0 \<longleftrightarrow> ?s = 0"
    by (auto simp: word_gt_0)
  then show ?thesis
    unfolding signed_shift_eq_0_iff [symmetric]
    by (auto simp: measure_rtt_def htcp_ccount_def Let_def bind_eq_None_conv split: if_splits)
qed

lemma measure_rtt_keeps:
  assumes "measure_rtt now n = Some m" "lastsa n < 0x10000000" "minRTT (htcp_ca n) < 0x10000000"
  shows "minRTT (htcp_ca m) < 0x10000000" "mtu m = mtu n"
  using assms(1,3) signed_shift_less [OF assms(2)]
  by (auto simp: measure_rtt_def Let_def bind_Some_iff split: if_splits)

lemma htcp_alpha_total:
  assumes "minRTT ca < 0x10000000"
  shows "\<exists>ca'. htcp_alpha_update now ca = Some ca'"
proof -
  have "10 * minRTT ca \<noteq> 0" if "minRTT ca \<noteq> 0"
  proof -
    have "10 * unat (minRTT ca) < 2 ^ 32" using assms by (simp add: word_less_nat_alt)
    then have "unat (10 :: u32) * unat (minRTT ca) < 2 ^ LENGTH(32)" by simp
    from unat_mult_lem [THEN iffD1, OF this] have "unat (10 * minRTT ca) = 10 * unat (minRTT ca)" by simp
    with that show ?thesis by (auto simp flip: unat_eq_0)
  qed
  moreover have "min (max s 4) 80 \<noteq> (0 :: u32)" for s by (simp add: min_def max_def) (auto simp: word_le_nat_alt)
  ultimately show ?thesis by (simp add: htcp_alpha_update_def cdiv_def Let_def)
qed

lemma htcp_cong_avoid_None_iff:
  assumes "mtu n \<noteq> 0" "lastsa n < 0x10000000" "minRTT (htcp_ca n) < 0x10000000"
  shows "htcp_cong_avoid sc now a n = None \<longleftrightarrow> ssthresh n < cwnd n \<and> measure_rtt now n = None"
proof (cases "measure_rtt now n")
  case None
  then show ?thesis by (auto simp: htcp_cong_avoid_def)
next
  case (Some m)
  note k = measure_rtt_keeps [OF Some assms(2,3)]
  have "\<exists>ca. htcp_alpha_update now (htcp_ca m) = Some ca" by (rule htcp_alpha_total [OF k(1)])
  then show ?thesis using Some k(2) assms(1) by (auto simp: htcp_cong_avoid_def cdiv_def Let_def)
qed

lemma throughput_total:
  assumes "mtu n \<noteq> 0"
  shows "measure_achieved_throughput now n \<noteq> None"
proof -
  have "now - lasttime h \<noteq> 0" if "minRTT h \<le> now - lasttime h" "0 < minRTT h" for h
    using that by (metis leD)
  then show ?thesis
    using assms by (auto simp: measure_achieved_throughput_def htcp_ccount_def cdiv_def Let_def word_gt_0)
qed

lemma sack_loop_None_iff:
  assumes "\<not> (asoc_loss_recovery a \<and> \<not> w \<and> sctp_cmt_on_off a = 0)"
  shows "sack_loop a w upd ns = None \<longleftrightarrow> (\<exists>n\<in>set ns. net_ack n \<noteq> 0 \<and> upd n = None)"
proof (induction ns)
  case (Cons n ns)
  then show ?case using assms by (auto simp: bind_eq_None_conv)
qed simp

lemma htcp_cong_avoid_mtu: "htcp_cong_avoid sc now a n = Some m \<Longrightarrow> mtu m = mtu n"
  by (auto simp: htcp_cong_avoid_def Let_def bind_Some_iff split: if_splits elim!: measure_rtt_shape)

text \<open>C30. H-TCP divides by zero on fast paths. A SACK that moves the cumulative acknowledgement outside loss recovery stops the process exactly when some
destination on which bytes were acknowledged is in congestion avoidance, not in a fast retransmit, with a threshold below
65535 bytes and a smoothed round trip time below one millisecond. (MTUs are not zero and round trip times are below \<open>2 ^ 25\<close> milliseconds.)\<close>

theorem htcp_short_rtt_traps:
  assumes "\<forall>n\<in>set (nets a). mtu n \<noteq> 0 \<and> lastsa n < 0x10000000 \<and> minRTT (htcp_ca n) < 0x10000000"
    and "\<not> asoc_loss_recovery a"
  shows "sctp_htcp_cwnd_update_after_sack sc now True will_exit a = None \<longleftrightarrow>
    (\<exists>n\<in>set (nets a). net_ack n \<noteq> 0 \<and> ssthresh n < cwnd n \<and> ssthresh n < 0xFFFF \<and> fast_retran_ip n = 0 \<and> lastsa n < 8)"
proof -
  have "htcp_sack_net sc now a True n = None \<longleftrightarrow>
      ssthresh n < cwnd n \<and> ssthresh n < 0xFFFF \<and> fast_retran_ip n = 0 \<and> lastsa n < 8" if "n \<in> set (nets a)" for n
  proof -
    from assms(1) that have n: "mtu n \<noteq> 0" "lastsa n < 0x10000000" "minRTT (htcp_ca n) < 0x10000000" by auto
    have "htcp_sack_net sc now a True n = None \<longleftrightarrow> htcp_cong_avoid sc now a n = None"
    proof (cases "htcp_cong_avoid sc now a n")
      case (Some m)
      then show ?thesis
        using throughput_total [of m now] htcp_cong_avoid_mtu [OF Some] n(1) by (simp add: htcp_sack_net_def)
    qed (simp add: htcp_sack_net_def)
    then show ?thesis unfolding htcp_cong_avoid_None_iff [OF n] measure_rtt_None_iff by blast
  qed
  moreover have "sctp_htcp_cwnd_update_after_sack sc now True will_exit a = None \<longleftrightarrow>
      (\<exists>n\<in>set (nets a). net_ack n \<noteq> 0 \<and> htcp_sack_net sc now a True n = None)"
    unfolding sctp_htcp_cwnd_update_after_sack_def run_sack_def
    by (subst sack_loop_None_iff [symmetric]) (use assms(2) in \<open>simp_all add: bind_eq_None_conv\<close>)
  ultimately show ?thesis by (simp cong: bex_cong)
qed

theorem htcp_short_rtt_traps_witness:
  "sctp_htcp_cwnd_update_after_sack ex_sysctl 5000 True False (ex_asoc\<lparr>nets := [ex_net\<lparr>lastsa := 7, ssthresh := 3000\<rparr>]\<rparr>) = None"
proof -
  let ?a = "ex_asoc\<lparr>nets := [ex_net\<lparr>lastsa := 7, ssthresh := 3000\<rparr>]\<rparr>"
  have "\<forall>n\<in>set (nets ?a). mtu n \<noteq> 0 \<and> lastsa n < 0x10000000 \<and> minRTT (htcp_ca n) < 0x10000000"
    "\<not> asoc_loss_recovery ?a"
    by (simp_all add: ex_defs)
  from htcp_short_rtt_traps [OF this, of ex_sysctl 5000 False] show ?thesis by (simp add: ex_defs)
qed

text \<open>The increase of H-TCP is kept in 16 bits. Thirty seconds after the last congestion event, on a path of 100 milliseconds, it is
64128 / 128; a second later the computed value no longer fits and the increase is 1792 / 128.\<close>

lemma htcp_alpha_wraps:
  "map_option (\<lambda>ca. unat (alpha ca)) (htcp_alpha_update 30000 (ex_htcp\<lparr>minRTT := 100\<rparr>)) = Some 64128"
  "map_option (\<lambda>ca. unat (alpha ca)) (htcp_alpha_update 31000 (ex_htcp\<lparr>minRTT := 100\<rparr>)) = Some 1792"
  by (simp_all add: htcp_alpha_update_def ex_htcp_def htcp_consts htcp_cong_time_def cdiv_def Let_def)

section \<open>HS-TCP\<close>

text \<open>The row that an increase uses: the first one from the row used last on whose bound is above the window, or the last row.\<close>

lemma hs_search_first:
  assumes "i < SCTP_HS_TABLE_SIZE"
  shows "i \<le> hs_search v i" "\<And>j. i \<le> j \<Longrightarrow> j < hs_search v i \<Longrightarrow> hs_cwnd j \<le> v"
    "v < hs_cwnd (hs_search v i) \<or> hs_search v i = SCTP_HS_TABLE_SIZE - 1"
proof -
  have "i \<le> hs_search v i \<and> (\<forall>j. i \<le> j \<longrightarrow> j < hs_search v i \<longrightarrow> hs_cwnd j \<le> v) \<and>
      (v < hs_cwnd (hs_search v i) \<or> hs_search v i = SCTP_HS_TABLE_SIZE - 1)"
    using assms
  proof (induction v i rule: hs_search.induct)
    case (1 v i)
    show ?case
    proof (cases "v < hs_cwnd i")
      case True
      then show ?thesis using 1(2) by (subst (1 2 3 4) hs_search.simps) simp
    next
      case False
      then have s: "hs_search v i = hs_search v (Suc i)" using 1(2) by (subst hs_search.simps) simp
      show ?thesis
      proof (cases "Suc i < SCTP_HS_TABLE_SIZE")
        case True
        note IH = 1(1) [OF 1(2) False True]
        have "hs_cwnd j \<le> v" if "i \<le> j" "j < hs_search v (Suc i)" for j
          using that IH False by (cases "j = i") (auto simp: not_less)
        then show ?thesis unfolding s using IH by auto
      next
        case no: False
        then have "hs_search v (Suc i) = SCTP_HS_TABLE_SIZE - 1" by (subst hs_search.simps) simp
        then show ?thesis unfolding s using 1(2) no by auto
      qed
    qed
  qed
  then show "i \<le> hs_search v i" "\<And>j. i \<le> j \<Longrightarrow> j < hs_search v i \<Longrightarrow> hs_cwnd j \<le> v"
    "v < hs_cwnd (hs_search v i) \<or> hs_search v i = SCTP_HS_TABLE_SIZE - 1"
    by blast+
qed

text \<open>After a reduction the row is not searched again: as long as the window stays above 38 kilobytes, the next increase starts from the row of the
window before the loss, and so never uses a smaller one.\<close>

lemma hs_row_not_lowered:
  assumes "sctp_hs_cwnd_decrease a n = Some n'" "\<not> drop_bit 10 (cwnd n) < hs_cwnd 0" "max_cwnd a = 0"
    "\<not> drop_bit 10 (cwnd n') < hs_cwnd 0"
  shows "last_hs_used n' = last_hs_used n" "last_hs_used n \<le> last_hs_used (sctp_hs_cwnd_increase a n')"
proof -
  show l: "last_hs_used n' = last_hs_used n"
    using assms by (auto simp: sctp_hs_cwnd_decrease_def no_limit [OF assms(3)] Let_def split: if_splits)
  have i: "unat (last_hs_used n) < SCTP_HS_TABLE_SIZE"
    using assms(1,2) by (auto simp: sctp_hs_cwnd_decrease_def split: if_splits)
  have "unat (last_hs_used (sctp_hs_cwnd_increase a n')) = hs_search (drop_bit 10 (cwnd n')) (unat (last_hs_used n))"
    using assms(4) by (simp add: sctp_hs_cwnd_increase_def no_limit [OF assms(3)] Let_def l unat_of_row hs_search_less)
  then show "last_hs_used n \<le> last_hs_used (sctp_hs_cwnd_increase a n')"
    using hs_search_first(1) [OF i] by (simp add: word_le_nat_alt)
qed

end
