(* ===== verification/Vtag.thy ===== *)
theory Vtag
  imports Hmac
begin

text \<open>
  Verification tags: the generator of initial TSNs and tags (\<^verbatim>\<open>sctputil.c\<close>), the table of tags in time wait and the test
  whether a tag may be used (\<^verbatim>\<open>sctp_pcb.c\<close>).

  The generator keeps a digest of SHA-1 in its store and hands it out in words of four bytes; the next digest is the HMAC of a counter, with the
  random numbers of the endpoint as key. The table has 32 chains of blocks with 15 entries; the entry with tag 0 is free. Times are
  seconds, as integers; the expiry of an entry is kept in 32 bits. Every routine runs under the lock of the
  endpoint table, and the compare-and-set on the position in the store is taken to succeed at once.
\<close>

section \<open>The generator\<close>

record sctp_pcb_rand =
  random_counter :: u32
  random_numbers :: bytes
  random_store :: bytes
  initial_sequence_debug :: u32
  store_at :: u32

definition SCTP_HMAC :: u16 where "SCTP_HMAC = 1"
definition SCTP_SIGNATURE_SIZE :: nat where "SCTP_SIGNATURE_SIZE = 20"

text \<open>A 32-bit word in memory, low byte first.\<close>

definition word_bytes :: "u32 \<Rightarrow> bytes" where
  "word_bytes x = [ucast x, ucast (drop_bit 8 x), ucast (drop_bit 16 x), ucast (drop_bit 24 x)]"

definition read_word :: "bytes \<Rightarrow> nat \<Rightarrow> u32 option" where
  "read_word bs i =
     (if i + 4 \<le> length bs
      then Some (ucast (bs ! i) OR push_bit 8 (ucast (bs ! (i + 1))) OR push_bit 16 (ucast (bs ! (i + 2)))
             OR push_bit 24 (ucast (bs ! (i + 3))))
      else None)"

definition sctp_fill_random_store :: "hmac_stack \<Rightarrow> sctp_pcb_rand \<Rightarrow> sctp_pcb_rand" where
  "sctp_fill_random_store stk m =
     (let m1 = m\<lparr>store_at := 0\<rparr>;
          digest = snd (sctp_hmac stk SCTP_HMAC (Some (random_numbers m1)) (Some (word_bytes (random_counter m1)))
                     (Some (random_store m1)));
          m2 = (case digest of Some d \<Rightarrow> m1\<lparr>random_store := d\<rparr> | None \<Rightarrow> m1)
      in m2\<lparr>random_counter := random_counter m2 + 1\<rparr>)"

text \<open>The lines of \<^verbatim>\<open>sctp_inpcb_alloc\<close> that start the generator, with the bytes read from the source of random numbers.\<close>

definition seed_generator :: "hmac_stack \<Rightarrow> bytes \<Rightarrow> sctp_pcb_rand \<Rightarrow> sctp_pcb_rand" where
  "seed_generator stk rnd m =
     sctp_fill_random_store stk
       (m\<lparr>random_counter := 1, store_at := of_nat SCTP_SIGNATURE_SIZE, random_numbers := rnd\<rparr>)"

definition sctp_select_initial_TSN :: "hmac_stack \<Rightarrow> sctp_pcb_rand \<Rightarrow> (u32 \<times> sctp_pcb_rand) option" where
  "sctp_select_initial_TSN stk m =
     (if initial_sequence_debug m \<noteq> 0
      then Some (initial_sequence_debug m, m\<lparr>initial_sequence_debug := initial_sequence_debug m + 1\<rparr>)
      else do {
        let at = store_at m;
        let new_store = at + 4;
        let new_store = (if of_nat (SCTP_SIGNATURE_SIZE - 3) \<le> new_store then 0 else new_store);
        let m = m\<lparr>store_at := new_store\<rparr>;
        let m = (if new_store = 0 then sctp_fill_random_store stk m else m);
        x \<leftarrow> read_word (random_store m) (unat at);
        Some (x, m)
      })"

section \<open>Tags in time wait\<close>

record sctp_timewait =
  tv_sec_at_expire :: u32
  v_tag :: u32
  tw_lport :: u16
  tw_rport :: u16

definition SCTP_NUMBER_IN_VTAG_BLOCK :: nat where "SCTP_NUMBER_IN_VTAG_BLOCK = 15"
definition SCTP_STACK_VTAG_HASH_SIZE :: nat where "SCTP_STACK_VTAG_HASH_SIZE = 32"

definition free_entry :: sctp_timewait where
  "free_entry = \<lparr>tv_sec_at_expire = 0, v_tag = 0, tw_lport = 0, tw_rport = 0\<rparr>"

type_synonym tag_chain = "sctp_timewait list list"

record tag_asoc =
  my_vtag :: u32
  tag_lport :: u16
  tag_rport :: u16
  socket_allgone :: bool

record tag_info =
  vtag_timewait :: "tag_chain list"
  sctp_asochash :: "nat \<Rightarrow> tag_asoc list"
  hashasocmark :: u64

definition chain_index :: "u32 \<Rightarrow> nat" where
  "chain_index tag = unat tag mod SCTP_STACK_VTAG_HASH_SIZE"

definition same_tag :: "u32 \<Rightarrow> u16 \<Rightarrow> u16 \<Rightarrow> sctp_timewait \<Rightarrow> bool" where
  "same_tag tag lport rport e \<longleftrightarrow> v_tag e = tag \<and> tw_lport e = lport \<and> tw_rport e = rport"

definition expired :: "int \<Rightarrow> sctp_timewait \<Rightarrow> bool" where
  "expired now e \<longleftrightarrow> uint (tv_sec_at_expire e) < now"

fun block_delete :: "u32 \<Rightarrow> u16 \<Rightarrow> u16 \<Rightarrow> sctp_timewait list \<Rightarrow> sctp_timewait list \<times> bool" where
  "block_delete tag lport rport [] = ([], False)"
| "block_delete tag lport rport (e # es) =
     (if same_tag tag lport rport e then (free_entry # es, True)
      else case block_delete tag lport rport es of (es', found) \<Rightarrow> (e # es', found))"

fun chain_delete :: "u32 \<Rightarrow> u16 \<Rightarrow> u16 \<Rightarrow> tag_chain \<Rightarrow> tag_chain" where
  "chain_delete tag lport rport [] = []"
| "chain_delete tag lport rport (b # bs) =
     (case block_delete tag lport rport b of (b', found) \<Rightarrow>
        if found then b' # bs else b' # chain_delete tag lport rport bs)"

definition sctp_delete_from_timewait :: "u32 \<Rightarrow> u16 \<Rightarrow> u16 \<Rightarrow> tag_info \<Rightarrow> tag_info" where
  "sctp_delete_from_timewait tag lport rport s =
     (let i = chain_index tag
      in s\<lparr>vtag_timewait := (vtag_timewait s)[i := chain_delete tag lport rport (vtag_timewait s ! i)]\<rparr>)"

definition sctp_is_in_timewait :: "u32 \<Rightarrow> u16 \<Rightarrow> u16 \<Rightarrow> tag_info \<Rightarrow> bool" where
  "sctp_is_in_timewait tag lport rport s =
     list_ex (list_ex (same_tag tag lport rport)) (vtag_timewait s ! chain_index tag)"

text \<open>Adding a tag: the first free or expired entry takes it; the other expired entries of the same block are freed. The flag tells whether the
tag has been placed.\<close>

fun block_add :: "int \<Rightarrow> sctp_timewait \<Rightarrow> bool \<Rightarrow> sctp_timewait list \<Rightarrow> sctp_timewait list \<times> bool" where
  "block_add now new placed [] = ([], placed)"
| "block_add now new placed (e # es) =
     (if v_tag e = 0 \<and> \<not> placed
      then case block_add now new True es of (es', p) \<Rightarrow> (new # es', p)
      else if v_tag e \<noteq> 0 \<and> expired now e
      then case block_add now new True es of (es', p) \<Rightarrow> ((if placed then free_entry else new) # es', p)
      else case block_add now new placed es of (es', p) \<Rightarrow> (e # es', p))"

fun chain_add :: "int \<Rightarrow> sctp_timewait \<Rightarrow> tag_chain \<Rightarrow> tag_chain \<times> bool" where
  "chain_add now new [] = ([], False)"
| "chain_add now new (b # bs) =
     (case block_add now new False b of (b', placed) \<Rightarrow>
        if placed then (b' # bs, True)
        else case chain_add now new bs of (bs', p) \<Rightarrow> (b' # bs', p))"

text \<open>The argument \<open>alloc\<close> is the answer of the allocator when a new block is needed.\<close>

definition sctp_add_vtag_to_timewait ::
    "bool \<Rightarrow> int \<Rightarrow> u32 \<Rightarrow> u32 \<Rightarrow> u16 \<Rightarrow> u16 \<Rightarrow> tag_info \<Rightarrow> tag_info" where
  "sctp_add_vtag_to_timewait alloc now tag time lport rport s =
     (if time = 0 then s
      else let i = chain_index tag;
               new = \<lparr>tv_sec_at_expire = word_of_int (now + uint time), v_tag = tag, tw_lport = lport, tw_rport = rport\<rparr>
           in case chain_add now new (vtag_timewait s ! i) of (c, placed) \<Rightarrow>
                let s1 = s\<lparr>vtag_timewait := (vtag_timewait s)[i := c]\<rparr>
                in if placed then s1
                   else if alloc
                   then s1\<lparr>vtag_timewait := (vtag_timewait s1)
                          [i := (new # replicate (SCTP_NUMBER_IN_VTAG_BLOCK - 1) free_entry) # vtag_timewait s1 ! i]\<rparr>
                   else s1)"

section \<open>Whether a tag may be used\<close>

fun tag_in_use :: "u32 \<Rightarrow> u16 \<Rightarrow> u16 \<Rightarrow> tag_asoc list \<Rightarrow> bool" where
  "tag_in_use tag lport rport [] = False"
| "tag_in_use tag lport rport (t # ts) =
     (if socket_allgone t then tag_in_use tag lport rport ts
      else if my_vtag t = tag
      then if tag_rport t \<noteq> rport then tag_in_use tag lport rport ts
           else if tag_lport t \<noteq> lport then tag_in_use tag lport rport ts
           else True
      else tag_in_use tag lport rport ts)"

fun block_good :: "int \<Rightarrow> u32 \<Rightarrow> u16 \<Rightarrow> u16 \<Rightarrow> sctp_timewait list \<Rightarrow> sctp_timewait list \<times> bool" where
  "block_good now tag lport rport [] = ([], True)"
| "block_good now tag lport rport (e # es) =
     (if v_tag e = 0 then case block_good now tag lport rport es of (es', g) \<Rightarrow> (e # es', g)
      else if expired now e then case block_good now tag lport rport es of (es', g) \<Rightarrow> (free_entry # es', g)
      else if same_tag tag lport rport e then (e # es, False)
      else case block_good now tag lport rport es of (es', g) \<Rightarrow> (e # es', g))"

fun chain_good :: "int \<Rightarrow> u32 \<Rightarrow> u16 \<Rightarrow> u16 \<Rightarrow> tag_chain \<Rightarrow> tag_chain \<times> bool" where
  "chain_good now tag lport rport [] = ([], True)"
| "chain_good now tag lport rport (b # bs) =
     (case block_good now tag lport rport b of (b', g) \<Rightarrow>
        if g then case chain_good now tag lport rport bs of (bs', g') \<Rightarrow> (b' # bs', g')
        else (b' # bs, False))"

definition sctp_is_vtag_good :: "int \<Rightarrow> u32 \<Rightarrow> u16 \<Rightarrow> u16 \<Rightarrow> tag_info \<Rightarrow> bool \<times> tag_info" where
  "sctp_is_vtag_good now tag lport rport s =
     (if tag_in_use tag lport rport (sctp_asochash s (unat ((ucast tag :: u64) AND hashasocmark s))) then (False, s)
      else let i = chain_index tag
           in case chain_good now tag lport rport (vtag_timewait s ! i) of (c, g) \<Rightarrow>
                (g, s\<lparr>vtag_timewait := (vtag_timewait s)[i := c]\<rparr>))"

section \<open>Choosing a tag\<close>

text \<open>The loop draws until a tag is usable; not returning is \<open>None\<close>.\<close>

partial_function (option) sctp_select_a_tag ::
    "hmac_stack \<Rightarrow> int \<Rightarrow> u16 \<Rightarrow> u16 \<Rightarrow> bool \<Rightarrow> sctp_pcb_rand \<Rightarrow> tag_info \<Rightarrow> (u32 \<times> sctp_pcb_rand \<times> tag_info) option" where
  "sctp_select_a_tag stk now lport rport check m s =
     Option.bind (sctp_select_initial_TSN stk m) (\<lambda>(x, m').
       if x = 0 then sctp_select_a_tag stk now lport rport check m' s
       else if \<not> check then Some (x, m', s)
       else case sctp_is_vtag_good now x lport rport s of (good, s') \<Rightarrow>
              if good then Some (x, m', s') else sctp_select_a_tag stk now lport rport check m' s')"

end
