(* ===== verification/Rto.thy ===== *)
theory Rto
  imports Cc_Table Vtag
begin

text \<open>
  Retransmission timeouts and destinations: the computation of the RTO and the tables of MTUs (\<^verbatim>\<open>sctputil.c\<close>), the backoff, the
  error thresholds and the choice of another destination (\<^verbatim>\<open>sctp_timer.c\<close>).

  A \<open>path\<close> is a destination (\<^verbatim>\<open>struct sctp_nets\<close>); its fields that congestion control uses are the record \<open>p_cc\<close>, of which the signed
  field \<open>lastsa\<close> is kept as a word. Signed arithmetic that overflows is \<open>None\<close>. A destination is named by a number, and \<open>order\<close> is the list of
  the destinations of the association. Calls into other parts of the stack are recorded in order in the field \<open>path_calls\<close>.
\<close>

section \<open>Data\<close>

record path =
  p_cc :: cc_net
  lastsv :: u32
  RTO_measured :: bool
  l_addr :: nat
  dest_state :: u16
  failure_threshold :: u16
  pf_threshold :: u16
  error_count :: u16
  last_active :: u32
  heartbeat_random1 :: u32
  heartbeat_random2 :: u32
  ro_rt :: bool
  s_addr :: bool
  src_addr_selected :: bool
  hb_responded :: bool
  heart_beat_delay :: u32
  last_sent_time :: "int \<times> int"

datatype path_call =
    Notify_interface_down nat
  | Notify_interface_up nat
  | Notify_interface_confirmed nat
  | Send_hb nat
  | Stop_heartbeat nat
  | Start_heartbeat nat
  | Abort_association
  | Send_shutdown "nat option"
  | Start_shutdown "nat option"
  | Send_shutdown_ack "nat option"
  | Start_shutdown_ack "nat option"
  | Audit_stream_queues
  | Free_ifa nat
  | Free_remote_addr nat
  | Mobility_adaptation

record assoc =
  a_cc :: cc_asoc
  dest :: "nat \<Rightarrow> path"
  order :: "nat list"
  primary_destination :: nat
  alternate :: "nat option"
  minrto :: u32
  maxrto :: u32
  initial_rto :: u32
  sat_network :: bool
  sat_network_lockout :: bool
  overall_error_count :: u32
  max_send_times :: u16
  total_output_queue_size :: u32
  sent_queue_empty :: bool
  hb_random_values :: bytes
  hb_random_idx :: u8
  hb_ect_randombit :: u8
  ep_rand :: sctp_pcb_rand
  path_calls :: "path_call list"

definition called :: "path_call list \<Rightarrow> assoc \<Rightarrow> assoc" where
  "called cs a = a\<lparr>path_calls := path_calls a @ cs\<rparr>"

definition on_dest :: "nat \<Rightarrow> (path \<Rightarrow> path) \<Rightarrow> assoc \<Rightarrow> assoc" where
  "on_dest i f a = a\<lparr>dest := (dest a)(i := f (dest a i))\<rparr>"

definition SCTP_ADDR_REACHABLE :: u16 where "SCTP_ADDR_REACHABLE = 0x001"
definition SCTP_ADDR_NOHB :: u16 where "SCTP_ADDR_NOHB = 0x004"
definition SCTP_ADDR_UNCONFIRMED :: u16 where "SCTP_ADDR_UNCONFIRMED = 0x200"
definition SCTP_ADDR_REQ_PRIMARY :: u16 where "SCTP_ADDR_REQ_PRIMARY = 0x400"
definition SCTP_ADDR_PF :: u16 where "SCTP_ADDR_PF = 0x800"
definition SCTP_RTT_SHIFT :: nat where "SCTP_RTT_SHIFT = 3"
definition SCTP_RTT_VAR_SHIFT :: nat where "SCTP_RTT_VAR_SHIFT = 2"
definition SCTP_CLOCK_GRANULARITY :: int where "SCTP_CLOCK_GRANULARITY = 10"
definition SCTP_SAT_NETWORK_MIN :: u32 where "SCTP_SAT_NETWORK_MIN = 400"
definition SCTP_LOCAL_LAN_RTT :: u64 where "SCTP_LOCAL_LAN_RTT = 900"
definition SCTP_LAN_UNKNOWN :: u8 where "SCTP_LAN_UNKNOWN = 0"
definition SCTP_LAN_INTERNET :: u8 where "SCTP_LAN_INTERNET = 2"

lemmas rto_consts = SCTP_RTT_SHIFT_def SCTP_RTT_VAR_SHIFT_def SCTP_CLOCK_GRANULARITY_def SCTP_SAT_NETWORK_MIN_def
  SCTP_LOCAL_LAN_RTT_def SCTP_LAN_UNKNOWN_def SCTP_LAN_INTERNET_def

section \<open>MTUs\<close>

definition sctp_mtu_sizes :: "u32 list" where
  "sctp_mtu_sizes = [68, 296, 508, 512, 544, 576, 1006, 1492, 1500, 1536, 2002, 2048, 4352, 4464, 8166, 17914, 32000, 65535]"

fun prev_loop :: "u32 \<Rightarrow> u32 \<Rightarrow> u32 list \<Rightarrow> u32" where
  "prev_loop val before [] = before"
| "prev_loop val before (s # ss) = (if val \<le> s then before else prev_loop val s ss)"

definition sctp_get_prev_mtu :: "u32 \<Rightarrow> u32" where
  "sctp_get_prev_mtu val =
     (if val \<le> sctp_mtu_sizes ! 0 then val else prev_loop val (sctp_mtu_sizes ! 0) (drop 1 sctp_mtu_sizes))"

fun next_loop :: "u32 \<Rightarrow> u32 list \<Rightarrow> u32" where
  "next_loop val [] = val"
| "next_loop val (s # ss) = (if val < s then s else next_loop val ss)"

definition sctp_get_next_mtu :: "u32 \<Rightarrow> u32" where
  "sctp_get_next_mtu val = next_loop val sctp_mtu_sizes"

section \<open>The retransmission timeout\<close>

text \<open>A signed 32-bit result, \<open>None\<close> on overflow.\<close>

definition s32 :: "int \<Rightarrow> int option" where
  "s32 x = (if - (2 ^ 31) \<le> x \<and> x < 2 ^ 31 then Some x else None)"

definition shl32 :: "int \<Rightarrow> nat \<Rightarrow> int option" where
  "shl32 x k = (if 0 \<le> x then s32 (x * 2 ^ k) else None)"

datatype align = sctp_align_safe_nocopy | sctp_align_unsafe_makecopy | align_other

text \<open>The smoothed values: \<open>sa\<close> is eight times the round trip time, \<open>sv\<close> four times its variance, both in milliseconds.\<close>

definition smooth :: "int \<Rightarrow> int \<times> int \<Rightarrow> (int \<times> int) option" where
  "smooth ms v = (case v of (sa, sv) \<Rightarrow> do {
     d \<leftarrow> s32 (ms - sa div 2 ^ SCTP_RTT_SHIFT);
     sa \<leftarrow> s32 (sa + d);
     d \<leftarrow> (if d < 0 then s32 (- d) else Some d);
     d \<leftarrow> s32 (d - sv div 2 ^ SCTP_RTT_VAR_SHIFT);
     sv \<leftarrow> s32 (sv + d);
     Some (sa, sv)
   })"

definition first_rtt :: "int \<Rightarrow> (int \<times> int) option" where
  "first_rtt ms = do {
     sa \<leftarrow> shl32 ms SCTP_RTT_SHIFT;
     sv \<leftarrow> shl32 (ms div 2) SCTP_RTT_VAR_SHIFT;
     Some (sa, sv)
   }"

definition rtt_us :: "int \<times> int \<Rightarrow> int \<times> int \<Rightarrow> u64" where
  "rtt_us now old = (case timevalsub now old of (sec, usec) \<Rightarrow> 1000000 * word_of_int sec + word_of_int usec)"

definition rtt_ms :: "u64 \<Rightarrow> int" where
  "rtt_ms us = sint (ucast (us div 1000) :: u32)"

text \<open>The first part stores the measurement, tells congestion control and decides once whether the destination is in the local network.\<close>

definition note_rtt :: "sctp_cc_functions \<Rightarrow> bool \<Rightarrow> u64 \<Rightarrow> path \<Rightarrow> path" where
  "note_rtt cc from_data v n =
     (let n = n\<lparr>p_cc := (p_cc n)\<lparr>rtt := v\<rparr>\<rparr>;
          n = (case rtt_calculated cc of Some f \<Rightarrow> if from_data then n\<lparr>p_cc := f (p_cc n)\<rparr> else n | None \<Rightarrow> n)
      in if from_data \<and> lan_type (p_cc n) = SCTP_LAN_UNKNOWN
         then n\<lparr>p_cc := (p_cc n)\<lparr>lan_type := if SCTP_LOCAL_LAN_RTT < rtt (p_cc n) then SCTP_LAN_INTERNET else SCTP_LAN_LOCAL\<rparr>\<rparr>
         else n)"

definition note_satellite :: "u32 \<Rightarrow> bool \<Rightarrow> assoc \<Rightarrow> assoc" where
  "note_satellite new_rto first_measure a =
     (if SCTP_SAT_NETWORK_MIN < new_rto \<and> \<not> sat_network_lockout a then a\<lparr>sat_network := True\<rparr>
      else if \<not> first_measure \<and> sat_network a then a\<lparr>sat_network := False, sat_network_lockout := True\<rparr>
      else a)"

definition sctp_calculate_rto ::
    "sctp_cc_functions \<Rightarrow> int \<times> int \<Rightarrow> int \<times> int \<Rightarrow> align \<Rightarrow> bool \<Rightarrow> assoc \<Rightarrow> path \<Rightarrow> (u32 \<times> assoc \<times> path) option" where
  "sctp_calculate_rto cc now told safe from_data a n =
     (if safe = align_other then Some (0, a, n)
      else do {
        let ms = rtt_ms (rtt_us now told);
        let n = note_rtt cc from_data (rtt_us now told) n;
        let first_measure = (\<not> RTO_measured n);
        (sa, sv) \<leftarrow> (if RTO_measured n then smooth ms (sint (lastsa (p_cc n)), sint (lastsv n)) else first_rtt ms);
        let sv = (if sv = 0 then SCTP_CLOCK_GRANULARITY else sv);
        let n = n\<lparr>p_cc := (p_cc n)\<lparr>lastsa := word_of_int sa\<rparr>, lastsv := word_of_int sv, RTO_measured := True\<rparr>;
        sum \<leftarrow> s32 (sa div 2 ^ SCTP_RTT_SHIFT + sv);
        let new_rto = (word_of_int sum :: u32);
        let a = note_satellite new_rto first_measure a;
        let new_rto = (if new_rto < minrto a then minrto a else new_rto);
        let new_rto = (if maxrto a < new_rto then maxrto a else new_rto);
        Some (new_rto, a, n)
      })"

text \<open>The callers store the result.\<close>

definition update_rto :: "sctp_cc_functions \<Rightarrow> int \<times> int \<Rightarrow> int \<times> int \<Rightarrow> bool \<Rightarrow> nat \<Rightarrow> assoc \<Rightarrow> assoc option" where
  "update_rto cc now told from_data i a = do {
     (r, a, n) \<leftarrow> sctp_calculate_rto cc now told sctp_align_safe_nocopy from_data a (dest a i);
     Some (on_dest i (\<lambda>_. n\<lparr>p_cc := (p_cc n)\<lparr>RTO := r\<rparr>\<rparr>) a)
   }"

definition cc_view :: "assoc \<Rightarrow> cc_asoc" where
  "cc_view a = (a_cc a)\<lparr>nets := map (p_cc \<circ> dest a) (order a)\<rparr>"

definition double_rto :: "assoc \<Rightarrow> path \<Rightarrow> path" where
  "double_rto a n =
     (let n = (if RTO (p_cc n) = 0
               then n\<lparr>p_cc := (p_cc n)\<lparr>RTO := if RTO_measured n then minrto a else initial_rto a\<rparr>\<rparr> else n);
          n = n\<lparr>p_cc := (p_cc n)\<lparr>RTO := push_bit 1 (RTO (p_cc n))\<rparr>\<rparr>
      in if maxrto a < RTO (p_cc n) then n\<lparr>p_cc := (p_cc n)\<lparr>RTO := maxrto a\<rparr>\<rparr> else n)"

definition sctp_backoff_on_timeout :: "sctp_cc_functions \<Rightarrow> nat \<Rightarrow> bool \<Rightarrow> int \<Rightarrow> int \<Rightarrow> assoc \<Rightarrow> assoc option" where
  "sctp_backoff_on_timeout cc i win_probe num_marked num_abandoned a =
     (let a = on_dest i (double_rto a) a
      in if \<not> win_probe \<and> (num_marked \<noteq> 0 \<or> num_abandoned \<noteq> 0)
         then do {
           m \<leftarrow> after_timeout cc (cc_view a) (p_cc (dest a i));
           Some (on_dest i (\<lambda>n. n\<lparr>p_cc := m\<rparr>) a)
         }
         else Some a)"

end
