(* ===== verification/Paths.thy ===== *)
theory Paths
  imports Rto
begin

text \<open>
  The supervision of destinations: error thresholds, the choice of another destination, heartbeats and their answers
  (\<^verbatim>\<open>sctp_timer.c\<close>, \<^verbatim>\<open>sctp_input.c\<close>).
\<close>

section \<open>States of a destination\<close>

definition has :: "u16 \<Rightarrow> path \<Rightarrow> bool" where
  "has flag n \<longleftrightarrow> dest_state n AND flag \<noteq> 0"

definition clear_flag :: "u16 \<Rightarrow> path \<Rightarrow> path" where
  "clear_flag flag n = n\<lparr>dest_state := dest_state n AND NOT flag\<rparr>"

definition set_flag :: "u16 \<Rightarrow> path \<Rightarrow> path" where
  "set_flag flag n = n\<lparr>dest_state := dest_state n OR flag\<rparr>"

section \<open>Error thresholds\<close>

definition threshold_net :: "u32 \<Rightarrow> nat \<Rightarrow> assoc \<Rightarrow> assoc" where
  "threshold_net ticks i a =
     (let a = on_dest i (\<lambda>n. n\<lparr>error_count := error_count n + 1\<rparr>) a;
          n = dest a i
      in if failure_threshold n < error_count n
         then if has SCTP_ADDR_REACHABLE n
              then called [Notify_interface_down i]
                     (on_dest i (clear_flag SCTP_ADDR_PF \<circ> clear_flag SCTP_ADDR_REQ_PRIMARY \<circ> clear_flag SCTP_ADDR_REACHABLE) a)
              else a
         else if pf_threshold n < failure_threshold n \<and> pf_threshold n < error_count n
         then if \<not> has SCTP_ADDR_PF n
              then called [Send_hb i, Stop_heartbeat i, Start_heartbeat i]
                     (on_dest i (\<lambda>n. (set_flag SCTP_ADDR_PF n)\<lparr>last_active := ticks\<rparr>) a)
              else a
         else a)"

text \<open>The result tells whether the association has been aborted.\<close>

definition sctp_threshold_management :: "u32 \<Rightarrow> nat option \<Rightarrow> u16 \<Rightarrow> assoc \<Rightarrow> bool \<times> assoc" where
  "sctp_threshold_management ticks net threshold a =
     (let a = (case net of Some i \<Rightarrow> threshold_net ticks i a | None \<Rightarrow> a);
          a = (if (case net of Some i \<Rightarrow> \<not> has SCTP_ADDR_UNCONFIRMED (dest a i) | None \<Rightarrow> True)
               then a\<lparr>overall_error_count := overall_error_count a + 1\<rparr> else a)
      in if ucast threshold < overall_error_count a then (True, called [Abort_association] a) else (False, a))"

section \<open>Another destination\<close>

definition alive :: "path \<Rightarrow> bool" where
  "alive n \<longleftrightarrow> has SCTP_ADDR_REACHABLE n \<and> \<not> has SCTP_ADDR_UNCONFIRMED n"

text \<open>A random bit from the four bytes that the association keeps; when they are used up the generator of the endpoint gives a new word. With CMT
the position then starts at 0, with potentially failed destinations it counts on.\<close>

definition random_bit :: "hmac_stack \<Rightarrow> bool \<Rightarrow> assoc \<Rightarrow> (bool \<times> assoc) option" where
  "random_bit stk restart a = do {
     (r, a) \<leftarrow> (if 3 < hb_random_idx a
               then do {
                 (x, m) \<leftarrow> sctp_select_initial_TSN stk (ep_rand a);
                 Some (word_bytes x ! 0, a\<lparr>ep_rand := m, hb_random_values := word_bytes x,
                   hb_random_idx := (if restart then 0 else hb_random_idx a + 1)\<rparr>)
               }
               else if unat (hb_random_idx a) < length (hb_random_values a)
               then Some (hb_random_values a ! unat (hb_random_idx a), a\<lparr>hb_random_idx := hb_random_idx a + 1\<rparr>)
               else None);
     Some (r mod 2 = 1, a\<lparr>hb_ect_randombit := 0\<rparr>)
   }"

text \<open>The destination with the largest window so far.\<close>

definition offer_cwnd :: "hmac_stack \<Rightarrow> bool \<Rightarrow> nat \<Rightarrow> nat option \<times> u32 \<Rightarrow> assoc \<Rightarrow> ((nat option \<times> u32) \<times> assoc) option" where
  "offer_cwnd stk restart i best a =
     (let c = cwnd (p_cc (dest a i))
      in if snd best < c then Some ((Some i, c), a)
         else if snd best = c then do {
           (b, a) \<leftarrow> random_bit stk restart a;
           Some (if b then (Some i, c) else best, a)
         }
         else Some (best, a))"

text \<open>The potentially failed destination with the fewest errors so far; the one that timed out counts one more.\<close>

definition offer_errors :: "nat option \<Rightarrow> nat \<Rightarrow> (nat \<times> int) option \<Rightarrow> assoc \<Rightarrow> (nat \<times> int) option" where
  "offer_errors net i least a =
     (let e = uint (error_count (dest a i)) + (if net = Some i then 1 else 0)
      in case least of None \<Rightarrow> Some (i, e)
         | Some (j, min_errors) \<Rightarrow>
             if e < min_errors then Some (i, e)
             else if e = min_errors \<and> last_active (dest a j) < last_active (dest a i) then Some (i, e)
             else least)"

fun pf_loop :: "hmac_stack \<Rightarrow> nat option \<Rightarrow> nat list \<Rightarrow> nat option \<times> u32 \<Rightarrow> (nat \<times> int) option \<Rightarrow> assoc
    \<Rightarrow> ((nat option \<times> u32) \<times> (nat \<times> int) option \<times> assoc) option" where
  "pf_loop stk net [] best least a = Some (best, least, a)"
| "pf_loop stk net (i # is) best least a =
     (if \<not> alive (dest a i) then pf_loop stk net is best least a
      else if has SCTP_ADDR_PF (dest a i) then pf_loop stk net is best (offer_errors net i least a) a
      else do { (best, a) \<leftarrow> offer_cwnd stk False i best a; pf_loop stk net is best least a })"

fun cmt_loop :: "hmac_stack \<Rightarrow> nat list \<Rightarrow> nat option \<times> u32 \<Rightarrow> assoc \<Rightarrow> ((nat option \<times> u32) \<times> assoc) option" where
  "cmt_loop stk [] best a = Some (best, a)"
| "cmt_loop stk (i # is) best a =
     (if \<not> alive (dest a i) then cmt_loop stk is best a
      else do { (best, a) \<leftarrow> offer_cwnd stk True i best a; cmt_loop stk is best a })"

definition refresh_source :: "nat \<Rightarrow> assoc \<Rightarrow> assoc" where
  "refresh_source i a =
     (if \<not> ro_rt (dest a i)
      then on_dest i (\<lambda>n. n\<lparr>src_addr_selected := False\<rparr>)
             (if s_addr (dest a i) then called [Free_ifa i] (on_dest i (\<lambda>n. n\<lparr>s_addr := False\<rparr>) a) else a)
      else a)"

datatype loop_exit = Break_with "nat option" | Return_null

text \<open>One step along the list, which starts again at the head once.\<close>

definition advance :: "nat list \<Rightarrow> nat \<Rightarrow> nat \<Rightarrow> loop_exit + nat \<times> nat" where
  "advance ns mnet once =
     (case next_in ns mnet of Some alt \<Rightarrow> Inr (alt, once)
      | None \<Rightarrow> let once = once + 1
                in if 1 < once then Inl (Break_with None)
                   else (case first_of ns of None \<Rightarrow> Inl Return_null | Some alt \<Rightarrow> Inr (alt, once)))"

partial_function (option) insv_loop :: "nat \<Rightarrow> nat \<Rightarrow> assoc \<Rightarrow> (loop_exit \<times> assoc) option" where
  "insv_loop mnet once a =
     (case advance (order a) mnet once of
        Inl ex \<Rightarrow> Some (ex, a)
      | Inr (alt, once') \<Rightarrow>
          if alive (dest a alt) \<and> ro_rt (dest a alt) then Some (Break_with (Some alt), a)
          else insv_loop alt once' (refresh_source alt a))"

partial_function (option) dormant_loop :: "nat \<Rightarrow> assoc \<Rightarrow> nat \<Rightarrow> nat \<Rightarrow> nat option option" where
  "dormant_loop net a mnet once =
     (case advance (order a) mnet once of
        Inl ex \<Rightarrow> Some None
      | Inr (alt, once') \<Rightarrow>
          if \<not> has SCTP_ADDR_UNCONFIRMED (dest a alt) \<and> alt \<noteq> net then Some (Some alt)
          else dormant_loop net a alt once')"

text \<open>The part that all modes share.\<close>

definition rotate_net :: "nat option \<Rightarrow> assoc \<Rightarrow> (nat option \<times> assoc) option" where
  "rotate_net net a =
     (case (case net of None \<Rightarrow> first_of (order a) | Some i \<Rightarrow> Some i) of
        None \<Rightarrow> Some (None, a)
      | Some mnet \<Rightarrow> do {
          (ex, a) \<leftarrow> insv_loop mnet 0 a;
          (case ex of
             Return_null \<Rightarrow> Some (None, a)
           | Break_with (Some alt) \<Rightarrow> Some (Some alt, a)
           | Break_with None \<Rightarrow>
               (case net of None \<Rightarrow> Some (first_of (order a), a)
                | Some i \<Rightarrow> do {
                    alt \<leftarrow> dormant_loop i a i 0;
                    Some (case alt of None \<Rightarrow> net | Some j \<Rightarrow> Some j, a)
                  }))
        })"

definition sctp_find_alternate_net :: "hmac_stack \<Rightarrow> nat option \<Rightarrow> int \<Rightarrow> assoc \<Rightarrow> (nat option \<times> assoc) option" where
  "sctp_find_alternate_net stk net mode a =
     (if numnets (a_cc a) = 1 then Some (first_of (order a), a)
      else if mode = 2 then do {
        (best, least, a) \<leftarrow> pf_loop stk net (order a) (None, 0) None a;
        Some (case fst best of None \<Rightarrow> (case least of None \<Rightarrow> net | Some (j, _) \<Rightarrow> Some j) | Some j \<Rightarrow> Some j, a)
      }
      else do {
        (best, a) \<leftarrow> (if mode = 1 then cmt_loop stk (order a) (None, 0) a else Some ((None, 0), a));
        (case fst best of Some j \<Rightarrow> Some (Some j, a) | None \<Rightarrow> rotate_net net a)
      })"

section \<open>Timers\<close>

definition sctp_shutdown_timer :: "sctp_cc_functions \<Rightarrow> hmac_stack \<Rightarrow> u32 \<Rightarrow> nat \<Rightarrow> assoc \<Rightarrow> (bool \<times> assoc) option" where
  "sctp_shutdown_timer cc stk ticks i a =
     (case sctp_threshold_management ticks (Some i) (max_send_times a) a of (aborted, a) \<Rightarrow>
        if aborted then Some (True, a)
        else do {
          a \<leftarrow> sctp_backoff_on_timeout cc i True 0 0 a;
          (alt, a) \<leftarrow> sctp_find_alternate_net stk (Some i) 0 a;
          Some (False, called [Send_shutdown alt, Start_shutdown alt] a)
        })"

definition sctp_shutdownack_timer :: "sctp_cc_functions \<Rightarrow> hmac_stack \<Rightarrow> u32 \<Rightarrow> nat \<Rightarrow> assoc \<Rightarrow> (bool \<times> assoc) option" where
  "sctp_shutdownack_timer cc stk ticks i a =
     (case sctp_threshold_management ticks (Some i) (max_send_times a) a of (aborted, a) \<Rightarrow>
        if aborted then Some (True, a)
        else do {
          a \<leftarrow> sctp_backoff_on_timeout cc i True 0 0 a;
          (alt, a) \<leftarrow> sctp_find_alternate_net stk (Some i) 0 a;
          Some (False, called [Send_shutdown_ack alt, Start_shutdown_ack alt] a)
        })"

text \<open>Milliseconds since the last packet to a destination, in 32 bits.\<close>

definition ms_gone_by :: "int \<times> int \<Rightarrow> path \<Rightarrow> u32" where
  "ms_gone_by now n =
     (if 0 < fst (last_sent_time n) \<or> 0 < snd (last_sent_time n)
      then case timevalsub now (last_sent_time n) of (sec, usec) \<Rightarrow> word_of_int (sec * 1000) + word_of_int (usec div 1000)
      else 0xffffffff)"

definition hb_missed :: "sctp_cc_functions \<Rightarrow> u32 \<Rightarrow> nat \<Rightarrow> assoc \<Rightarrow> (bool \<times> assoc) option" where
  "hb_missed cc ticks i a = do {
     let a = (if s_addr (dest a i)
              then on_dest i (\<lambda>n. n\<lparr>s_addr := False, src_addr_selected := False\<rparr>) (called [Free_ifa i] a) else a);
     a \<leftarrow> sctp_backoff_on_timeout cc i True 0 0 a;
     Some (sctp_threshold_management ticks (Some i) (max_send_times a) a)
   }"

definition sctp_heartbeat_timer :: "sctp_cc_functions \<Rightarrow> u32 \<Rightarrow> int \<times> int \<Rightarrow> nat \<Rightarrow> assoc \<Rightarrow> (bool \<times> assoc) option" where
  "sctp_heartbeat_timer cc ticks now i a = do {
     let net_was_pf = has SCTP_ADDR_PF (dest a i);
     (aborted, a) \<leftarrow> (if \<not> hb_responded (dest a i) then hb_missed cc ticks i a else Some (False, a));
     if aborted then Some (True, a)
     else do {
       let a = (if partial_bytes_acked (p_cc (dest a i)) \<noteq> 0
                then on_dest i (\<lambda>n. n\<lparr>p_cc := (p_cc n)\<lparr>partial_bytes_acked := 0\<rparr>\<rparr>) a else a);
       let a = (if 0 < total_output_queue_size a \<and> send_queue (a_cc a) = [] \<and> sent_queue_empty a
                then called [Audit_stream_queues] a else a);
       let n = dest a i;
       Some (False,
         if \<not> has SCTP_ADDR_NOHB n \<and> \<not> (\<not> net_was_pf \<and> has SCTP_ADDR_PF n) \<and>
            (heart_beat_delay n \<le> ms_gone_by now n \<or> has SCTP_ADDR_PF n)
         then called [Send_hb i] a else a)
     }
   }"

section \<open>Answers to heartbeats\<close>

text \<open>What a HEARTBEAT-ACK carries back: the address, the time of the heartbeat and the two random numbers. An answer whose length or address is not
well formed is dropped before (\<open>None\<close> as address); the part for mobility features at the end is the call \<open>Mobility_adaptation\<close>.\<close>

record hb_info =
  hb_address :: "nat option"
  time_value_1 :: u32
  time_value_2 :: u32
  random_value1 :: u32
  random_value2 :: u32

definition sctp_findnet :: "nat \<Rightarrow> assoc \<Rightarrow> nat option" where
  "sctp_findnet addr a = find (\<lambda>i. l_addr (dest a i) = addr) (order a)"

definition confirm :: "nat \<Rightarrow> assoc \<Rightarrow> bool \<times> assoc" where
  "confirm r a =
     (let a = on_dest r (clear_flag SCTP_ADDR_UNCONFIRMED) a;
          req_prim = has SCTP_ADDR_REQ_PRIMARY (dest a r);
          a = (if req_prim
               then let a = on_dest r (clear_flag SCTP_ADDR_REQ_PRIMARY) (a\<lparr>primary_destination := r\<rparr>)
                    in if first_of (order a) \<noteq> Some r then a\<lparr>order := r # remove1 r (order a)\<rparr> else a
               else a)
      in (req_prim, called [Notify_interface_confirmed r, Stop_heartbeat r, Start_heartbeat r] a))"

definition sctp_handle_heartbeat_ack ::
    "sctp_cc_functions \<Rightarrow> int \<times> int \<Rightarrow> hb_info \<Rightarrow> nat \<Rightarrow> assoc \<Rightarrow> assoc option" where
  "sctp_handle_heartbeat_ack cc now hb net a =
     (case Option.bind (hb_address hb) (\<lambda>addr. sctp_findnet addr a) of
        None \<Rightarrow> Some a
      | Some r \<Rightarrow> do {
          let (req_prim, a) = (if has SCTP_ADDR_UNCONFIRMED (dest a r) \<and> heartbeat_random1 (dest a r) = random_value1 hb \<and>
                      heartbeat_random2 (dest a r) = random_value2 hb
                   then confirm r a else (False, a));
          let old_error_counter = error_count (dest a r);
          let a = on_dest r (\<lambda>n. n\<lparr>error_count := 0, hb_responded := True\<rparr>) a;
          a \<leftarrow> update_rto cc now (uint (time_value_1 hb), uint (time_value_2 hb)) False r a;
          let a = (if \<not> has SCTP_ADDR_REACHABLE (dest a r)
                   then called [Notify_interface_up r] (on_dest r (set_flag SCTP_ADDR_REACHABLE) a) else a);
          let a = (if has SCTP_ADDR_PF (dest a r)
                   then on_dest net (\<lambda>n. n\<lparr>p_cc := exit_pf cc (p_cc n)\<rparr>) (on_dest r (clear_flag SCTP_ADDR_PF) a) else a);
          let a = (if 0 < old_error_counter then called [Stop_heartbeat r, Start_heartbeat r] a else a);
          let a = (if r = primary_destination a
                   then (case alternate a of Some j \<Rightarrow> (called [Free_remote_addr j] a)\<lparr>alternate := None\<rparr> | None \<Rightarrow> a)
                   else a);
          Some (if req_prim then called [Mobility_adaptation] a else a)
        })"

end
