(* ===== verification/Rto_Props.thy ===== *)
theory Rto_Props
  imports Complex_Main Rto Cc_History
begin

text \<open>
  The retransmission timeout beside the rules of RFC 4960 in exact arithmetic; it stays within its bounds over every history of
  measurements and timeouts, and doubles with every timeout; the neighbours of an MTU in the table.
\<close>

section \<open>Measured times\<close>

definition us :: "int \<times> int \<Rightarrow> int" where
  "us t = fst t * 1000000 + snd t"

text \<open>A measurement: the normalised time of the start, not after the present one, and at most \<open>R\<close> milliseconds ago.\<close>

definition measured :: "int \<Rightarrow> int \<times> int \<Rightarrow> int \<times> int \<Rightarrow> bool" where
  "measured R now told \<longleftrightarrow> us told \<le> us now \<and> (us now - us told) div 1000 \<le> R"

lemma us_timevalsub: "us (timevalsub t u) = us t - us u"
  by (cases t; cases u) (simp add: us_def)

lemma rtt_us_exact:
  assumes "0 \<le> us now - us told" "us now - us told < 2 ^ 64"
  shows "uint (rtt_us now told) = us now - us told"
proof -
  obtain sec usec where d: "timevalsub now told = (sec, usec)" by fastforce
  have "rtt_us now told = word_of_int (us now - us told)"
    unfolding us_timevalsub [of now told, symmetric] by (simp add: rtt_us_def d us_def ac_simps)
  moreover have "uint (word_of_int x :: u64) = x" if "0 \<le> x" "x < 2 ^ 64" for x
    using that by (simp add: uint_word_of_int_eq take_bit_int_eq_self)
  ultimately show ?thesis using assms by presburger
qed

lemma rtt_ms_exact:
  assumes "measured R now told" "R < 2 ^ 28"
  shows "rtt_ms (rtt_us now told) = (us now - us told) div 1000" "0 \<le> rtt_ms (rtt_us now told)" "rtt_ms (rtt_us now told) \<le> R"
proof -
  let ?d = "us now - us told"
  have b: "0 \<le> ?d" "?d div 1000 < 2 ^ 28" "0 \<le> ?d div 1000" using assms by (auto simp: measured_def)
  have "?d = 1000 * (?d div 1000) + ?d mod 1000" "?d mod 1000 < 1000" by simp_all
  then have "?d < 1000 * 2 ^ 28 + 1000" using b by linarith
  also have "\<dots> < (2 ^ 64 :: int)" by simp
  finally have "?d < 2 ^ 64" .
  with b have u: "uint (rtt_us now told) = ?d" using rtt_us_exact by simp
  have "uint (rtt_us now told div 1000) = ?d div 1000" by (simp add: uint_div u)
  moreover have "ucast w = (word_of_int (uint w) :: u32)" for w :: u64 by simp
  ultimately have "ucast (rtt_us now told div 1000) = (word_of_int (?d div 1000) :: u32)" by metis
  then show e: "rtt_ms (rtt_us now told) = ?d div 1000"
    using b by (simp add: rtt_ms_def sint_sbintrunc' signed_take_bit_int_eq_self)
  show "0 \<le> rtt_ms (rtt_us now told)" "rtt_ms (rtt_us now told) \<le> R" using e b assms(1) by (simp_all add: measured_def)
qed

section \<open>Smoothing\<close>

lemma s32_Some: "- (2 ^ 31) \<le> x \<Longrightarrow> x < 2 ^ 31 \<Longrightarrow> s32 x = Some x"
  by (simp add: s32_def)

lemma smooth_exact:
  assumes "0 \<le> ms" "ms \<le> R" "0 \<le> sa" "sa \<le> 8 * R" "0 \<le> sv" "sv \<le> 4 * R" "R < 2 ^ 28"
  shows "smooth ms (sa, sv) = Some (sa - sa div 8 + ms, sv - sv div 4 + \<bar>ms - sa div 8\<bar>)"
proof -
  have "sa div 8 \<le> R" "0 \<le> sa div 8" "sv div 4 \<le> R" "0 \<le> sv div 4" "sa - sa div 8 \<le> 7 * R" "sv - sv div 4 \<le> 3 * R"
    using assms by linarith+
  then show ?thesis
    using assms by (simp add: smooth_def rto_consts s32_def)
qed

lemma smooth_bounds:
  assumes "0 \<le> ms" "ms \<le> R" "0 \<le> sa" "sa \<le> 8 * R" "0 \<le> sv" "sv \<le> 4 * (R :: int)"
  shows "0 \<le> sa - sa div 8 + ms" "sa - sa div 8 + ms \<le> 8 * R"
    "0 \<le> sv - sv div 4 + \<bar>ms - sa div 8\<bar>" "sv - sv div 4 + \<bar>ms - sa div 8\<bar> \<le> 4 * R"
proof -
  have "sa div 8 \<le> R" "0 \<le> sa div 8" "0 \<le> sv div 4" "sa - sa div 8 \<le> 7 * R" "sv - sv div 4 \<le> 3 * R" "0 \<le> sv - sv div 4" "0 \<le> sa - sa div 8"
    using assms by linarith+
  then show "0 \<le> sa - sa div 8 + ms" "sa - sa div 8 + ms \<le> 8 * R"
    "0 \<le> sv - sv div 4 + \<bar>ms - sa div 8\<bar>" "sv - sv div 4 + \<bar>ms - sa div 8\<bar> \<le> 4 * R"
    using assms by linarith+
qed

lemma first_rtt_exact:
  assumes "0 \<le> ms" "ms < 2 ^ 28"
  shows "first_rtt ms = Some (8 * ms, 4 * (ms div 2))"
proof -
  have "ms div 2 \<le> ms" "0 \<le> ms div 2" using assms by simp_all
  then show ?thesis using assms by (simp add: first_rtt_def rto_consts shl32_def s32_def)
qed

section \<open>Histories\<close>

datatype rto_event = Rtt_measured "int \<times> int" "int \<times> int" bool nat | Timed_out nat bool int int

fun rto_step :: "sctp_cc_functions \<Rightarrow> rto_event \<Rightarrow> assoc \<Rightarrow> assoc option" where
  "rto_step cc (Rtt_measured now told from_data i) a = update_rto cc now told from_data i a"
| "rto_step cc (Timed_out i win_probe num_marked num_abandoned) a = sctp_backoff_on_timeout cc i win_probe num_marked num_abandoned a"

fun rto_run :: "sctp_cc_functions \<Rightarrow> rto_event list \<Rightarrow> assoc \<Rightarrow> assoc option" where
  "rto_run cc [] a = Some a"
| "rto_run cc (e # es) a = do { a \<leftarrow> rto_step cc e a; rto_run cc es a }"

fun rto_event_ok :: "int \<Rightarrow> rto_event \<Rightarrow> bool" where
  "rto_event_ok R (Rtt_measured now told from_data i) \<longleftrightarrow> measured R now told"
| "rto_event_ok R (Timed_out i win_probe num_marked num_abandoned) \<longleftrightarrow> True"

fun event_dest :: "rto_event \<Rightarrow> nat" where
  "event_dest (Rtt_measured now told from_data i) = i"
| "event_dest (Timed_out i win_probe num_marked num_abandoned) = i"

text \<open>The smoothed values belong to round trip times of at most \<open>R\<close> milliseconds; the RTO is unset or within its bounds.\<close>

definition path_rto_ok :: "int \<Rightarrow> u32 \<Rightarrow> u32 \<Rightarrow> path \<Rightarrow> bool" where
  "path_rto_ok R lo hi n \<longleftrightarrow> 0 \<le> sint (lastsa (p_cc n)) \<and> sint (lastsa (p_cc n)) \<le> 8 * R \<and> 0 \<le> sint (lastsv n) \<and> sint (lastsv n) \<le> 4 * R \<and>
     (RTO (p_cc n) = 0 \<or> lo \<le> RTO (p_cc n)) \<and> RTO (p_cc n) \<le> hi"

definition rto_conf :: "assoc \<Rightarrow> bool" where
  "rto_conf a \<longleftrightarrow> 0 < minrto a \<and> minrto a \<le> initial_rto a \<and> initial_rto a \<le> maxrto a \<and> maxrto a < 2 ^ 31"

definition rto_ok :: "int \<Rightarrow> assoc \<Rightarrow> bool" where
  "rto_ok R a \<longleftrightarrow> rto_conf a \<and> (\<forall>i. path_rto_ok R (minrto a) (maxrto a) (dest a i))"

lemma sint_of_small: "0 \<le> x \<Longrightarrow> x < 2 ^ 31 \<Longrightarrow> sint (word_of_int x :: u32) = x"
  by (simp add: sint_sbintrunc' signed_take_bit_int_eq_self)

lemma clip_bounds: "lo \<le> (hi :: u32) \<Longrightarrow> lo \<le> min (max x lo) hi \<and> min (max x lo) hi \<le> hi"
  by (auto simp: min_def max_def)

lemma min_scale:
  assumes "1 \<le> (c :: nat)"
  shows "min (c * min x y) y = min (c * x) y"
proof (cases "x \<le> y")
  case False
  have "y \<le> c * y" "y \<le> c * x" using assms False by (simp_all add: le_trans [of y x])
  then show ?thesis using False by simp
qed simp

text \<open>Doubling: without wrap-around below \<open>2 ^ 31\<close>.\<close>

lemma unat_double: "x < 2 ^ 31 \<Longrightarrow> unat (push_bit 1 (x :: u32)) = 2 * unat x"
  by (simp add: push_bit_eq_mult unat_mult_lem [THEN iffD1] word_less_nat_alt mult.commute)

definition timer_base :: "assoc \<Rightarrow> path \<Rightarrow> u32" where
  "timer_base a n = (if RTO (p_cc n) = 0 then if RTO_measured n then minrto a else initial_rto a else RTO (p_cc n))"

lemma double_rto_spec:
  assumes "timer_base a n < 2 ^ 31"
  shows "unat (RTO (p_cc (double_rto a n))) = min (2 * unat (timer_base a n)) (unat (maxrto a))"
    "lastsa (p_cc (double_rto a n)) = lastsa (p_cc n)" "lastsv (double_rto a n) = lastsv n"
    "RTO_measured (double_rto a n) = RTO_measured n"
  using unat_double [OF assms] by (auto simp: double_rto_def timer_base_def Let_def word_less_nat_alt)

section \<open>What congestion control leaves alone\<close>

text \<open>A congestion control module whose hook on measurements keeps the smoothed values, and whose reaction to a timeout always returns and keeps the
values of the timer.\<close>

lemma note_satellite_keeps [simp]:
  "minrto (note_satellite r f a) = minrto a" "maxrto (note_satellite r f a) = maxrto a" "initial_rto (note_satellite r f a) = initial_rto a"
  "dest (note_satellite r f a) = dest a" "a_cc (note_satellite r f a) = a_cc a" "order (note_satellite r f a) = order a"
  by (simp_all add: note_satellite_def)

locale keeps_timer =
  fixes cc :: sctp_cc_functions
  assumes hook_keeps: "rtt_calculated cc = Some f \<Longrightarrow>
      lastsa (f m) = lastsa m \<and> rtt (f m) = rtt m \<and> RTO (f m) = RTO m \<and> lan_type (f m) = lan_type m"
    and timeout_returns: "\<exists>m'. after_timeout cc b m = Some m'"
    and timeout_keeps: "after_timeout cc b m = Some m' \<Longrightarrow> lastsa m' = lastsa m \<and> RTO m' = RTO m"
begin

lemma note_rtt_keeps [simp]:
  "lastsa (p_cc (note_rtt cc d v n)) = lastsa (p_cc n)" "lastsv (note_rtt cc d v n) = lastsv n"
  "RTO_measured (note_rtt cc d v n) = RTO_measured n" "RTO (p_cc (note_rtt cc d v n)) = RTO (p_cc n)"
  using hook_keeps by (auto simp: note_rtt_def Let_def split: option.split)

text \<open>One measurement: the result and the new state, from the smoothed values.\<close>

lemma calculate_from:
  assumes "(if RTO_measured n then smooth ms (sint (lastsa (p_cc n)), sint (lastsv n)) else first_rtt ms) = Some (sa, v)"
    and "rtt_ms (rtt_us now told) = ms" and sv: "sv = (if v = 0 then 10 else v)"
    and "0 \<le> sa" "sa \<le> 8 * R" "0 \<le> v" "v \<le> 4 * R" "R < 2 ^ 28"
  shows "\<exists>a' n'. sctp_calculate_rto cc now told sctp_align_safe_nocopy from_data a n =
      Some (min (max (word_of_int (sa div 8 + sv)) (minrto a)) (maxrto a), a', n') \<and>
    lastsa (p_cc n') = word_of_int sa \<and> lastsv n' = word_of_int sv \<and> RTO_measured n' \<and> RTO (p_cc n') = RTO (p_cc n) \<and>
    minrto a' = minrto a \<and> maxrto a' = maxrto a \<and> initial_rto a' = initial_rto a \<and> dest a' = dest a \<and> a_cc a' = a_cc a \<and> order a' = order a"
proof -
  have sum: "s32 (sa div 8 + sv) = Some (sa div 8 + sv)"
  proof (rule s32_Some)
    have "0 \<le> sv" "sv \<le> 10 \<or> sv \<le> 4 * R" using assms(6,7) by (simp_all add: sv)
    then show "- (2 ^ 31) \<le> sa div 8 + sv" "sa div 8 + sv < 2 ^ 31" using assms(4,5,8) by auto
  qed
  have shift: "(2 :: int) ^ SCTP_RTT_SHIFT = 8" by (simp add: rto_consts)
  have g: "(if v = 0 then SCTP_CLOCK_GRANULARITY else v) = sv" by (simp add: sv rto_consts)
  have clip: "(if b < (if x < c then c else x) then b else if x < c then c else x) = min (max x c) b" for x b c :: u32
    by (auto simp: min_def max_def)
  have "sctp_calculate_rto cc now told sctp_align_safe_nocopy from_data a n =
      Some (min (max (word_of_int (sa div 8 + sv)) (minrto a)) (maxrto a),
        note_satellite (word_of_int (sa div 8 + sv)) (\<not> RTO_measured n) a,
        (note_rtt cc from_data (rtt_us now told) n)\<lparr>p_cc := (p_cc (note_rtt cc from_data (rtt_us now told) n))\<lparr>lastsa := word_of_int sa\<rparr>,
          lastsv := word_of_int sv, RTO_measured := True\<rparr>)"
    unfolding sctp_calculate_rto_def Let_def note_rtt_keeps assms(1,2)
    by (simp only: shift g sum Option.bind.bind_lunit prod.case note_satellite_keeps clip align.distinct if_False)
  then show ?thesis by simp
qed

lemma calculate_measured:
  assumes "measured R now told" "R < 2 ^ 28" "RTO_measured n"
    and "0 \<le> sint (lastsa (p_cc n))" "sint (lastsa (p_cc n)) \<le> 8 * R" "0 \<le> sint (lastsv n)" "sint (lastsv n) \<le> 4 * R"
    and ms: "ms = (us now - us told) div 1000"
    and sa: "sa = sint (lastsa (p_cc n)) - sint (lastsa (p_cc n)) div 8 + ms"
    and v: "v = sint (lastsv n) - sint (lastsv n) div 4 + \<bar>ms - sint (lastsa (p_cc n)) div 8\<bar>"
    and sv: "sv = (if v = 0 then 10 else v)"
  shows "\<exists>a' n'. sctp_calculate_rto cc now told sctp_align_safe_nocopy from_data a n =
      Some (min (max (word_of_int (sa div 8 + sv)) (minrto a)) (maxrto a), a', n') \<and>
    lastsa (p_cc n') = word_of_int sa \<and> lastsv n' = word_of_int sv \<and> RTO_measured n' \<and> RTO (p_cc n') = RTO (p_cc n) \<and>
    minrto a' = minrto a \<and> maxrto a' = maxrto a \<and> initial_rto a' = initial_rto a \<and> dest a' = dest a \<and> a_cc a' = a_cc a \<and> order a' = order a"
proof -
  have r: "rtt_ms (rtt_us now told) = ms" "0 \<le> ms" "ms \<le> R" using rtt_ms_exact [OF assms(1,2)] ms by auto
  note S = smooth_exact [OF r(2,3) assms(4-7,2), folded sa v] and B = smooth_bounds [OF r(2,3) assms(4-7), folded sa v]
  show ?thesis by (rule calculate_from [OF _ r(1) sv B(1-4) assms(2)]) (simp add: assms(3) S)
qed

lemma calculate_first:
  assumes "measured R now told" "R < 2 ^ 28" "\<not> RTO_measured n"
    and ms: "ms = (us now - us told) div 1000" and sv: "sv = (if ms div 2 = 0 then 10 else 4 * (ms div 2))"
  shows "\<exists>a' n'. sctp_calculate_rto cc now told sctp_align_safe_nocopy from_data a n =
      Some (min (max (word_of_int (ms + sv)) (minrto a)) (maxrto a), a', n') \<and>
    lastsa (p_cc n') = word_of_int (8 * ms) \<and> lastsv n' = word_of_int sv \<and> RTO_measured n' \<and> RTO (p_cc n') = RTO (p_cc n) \<and>
    minrto a' = minrto a \<and> maxrto a' = maxrto a \<and> initial_rto a' = initial_rto a \<and> dest a' = dest a \<and> a_cc a' = a_cc a \<and> order a' = order a"
proof -
  have r: "rtt_ms (rtt_us now told) = ms" "0 \<le> ms" "ms \<le> R" using rtt_ms_exact [OF assms(1,2)] ms by auto
  have f: "first_rtt ms = Some (8 * ms, 4 * (ms div 2))" using r assms(2) by (intro first_rtt_exact) auto
  have "\<exists>a' n'. sctp_calculate_rto cc now told sctp_align_safe_nocopy from_data a n =
      Some (min (max (word_of_int (8 * ms div 8 + sv)) (minrto a)) (maxrto a), a', n') \<and>
    lastsa (p_cc n') = word_of_int (8 * ms) \<and> lastsv n' = word_of_int sv \<and> RTO_measured n' \<and> RTO (p_cc n') = RTO (p_cc n) \<and>
    minrto a' = minrto a \<and> maxrto a' = maxrto a \<and> initial_rto a' = initial_rto a \<and> dest a' = dest a \<and> a_cc a' = a_cc a \<and> order a' = order a"
    by (rule calculate_from [where v = "4 * (ms div 2)" and R = R and ms = ms]) (use r f sv assms(2,3) in auto)
  then show ?thesis by simp
qed

lemma measure_ok:
  assumes "rto_ok R a" "measured R now told" "3 \<le> R" "R < 2 ^ 28"
  shows "\<exists>a'. update_rto cc now told d i a = Some a' \<and> rto_ok R a' \<and> minrto a \<le> RTO (p_cc (dest a' i)) \<and>
    minrto a' = minrto a \<and> maxrto a' = maxrto a \<and> initial_rto a' = initial_rto a \<and> (\<forall>j. j \<noteq> i \<longrightarrow> dest a' j = dest a j)"
proof -
  let ?n = "dest a i"
  define ms where "ms = (us now - us told) div 1000"
  have ms: "0 \<le> ms" "ms \<le> R" using rtt_ms_exact [OF assms(2,4)] by (simp_all add: ms_def)
  have ok: "path_rto_ok R (minrto a) (maxrto a) ?n" and lo: "minrto a \<le> maxrto a"
    using assms(1) by (auto simp: rto_ok_def rto_conf_def)
  obtain x a' n' sa sv where c: "sctp_calculate_rto cc now told sctp_align_safe_nocopy d a ?n = Some (min (max x (minrto a)) (maxrto a), a', n')"
    and n': "lastsa (p_cc n') = word_of_int sa" "lastsv n' = word_of_int sv"
    and a': "minrto a' = minrto a" "maxrto a' = maxrto a" "initial_rto a' = initial_rto a" "dest a' = dest a"
    and b: "0 \<le> sa" "sa \<le> 8 * R" "0 \<le> sv" "sv \<le> 4 * R"
  proof (cases "RTO_measured ?n")
    case True
    have o: "0 \<le> sint (lastsa (p_cc ?n))" "sint (lastsa (p_cc ?n)) \<le> 8 * R" "0 \<le> sint (lastsv ?n)" "sint (lastsv ?n) \<le> 4 * R"
      using ok by (simp_all add: path_rto_ok_def)
    define sa where "sa = sint (lastsa (p_cc ?n)) - sint (lastsa (p_cc ?n)) div 8 + ms"
    define v where "v = sint (lastsv ?n) - sint (lastsv ?n) div 4 + \<bar>ms - sint (lastsa (p_cc ?n)) div 8\<bar>"
    define sv where "sv = (if v = 0 then 10 else v)"
    note B = smooth_bounds [OF ms o, folded sa_def v_def]
    obtain a' n' where c: "sctp_calculate_rto cc now told sctp_align_safe_nocopy d a ?n =
        Some (min (max (word_of_int (sa div 8 + sv)) (minrto a)) (maxrto a), a', n')"
      "lastsa (p_cc n') = word_of_int sa" "lastsv n' = word_of_int sv"
      "minrto a' = minrto a" "maxrto a' = maxrto a" "initial_rto a' = initial_rto a" "dest a' = dest a"
      using calculate_measured [OF assms(2,4) True o ms_def sa_def v_def sv_def, of d a] by blast
    have "0 \<le> sv" "sv \<le> 4 * R" using B assms(3) by (simp_all add: sv_def)
    then show ?thesis by (intro that [OF c] B)
  next
    case False
    define sv where "sv = (if ms div 2 = 0 then 10 else 4 * (ms div 2))"
    obtain a' n' where c: "sctp_calculate_rto cc now told sctp_align_safe_nocopy d a ?n =
        Some (min (max (word_of_int (ms + sv)) (minrto a)) (maxrto a), a', n')"
      "lastsa (p_cc n') = word_of_int (8 * ms)" "lastsv n' = word_of_int sv"
      "minrto a' = minrto a" "maxrto a' = maxrto a" "initial_rto a' = initial_rto a" "dest a' = dest a"
      using calculate_first [OF assms(2,4) False ms_def sv_def, of d a] by blast
    have "0 \<le> 8 * ms" "8 * ms \<le> 8 * R" "0 \<le> sv" "sv \<le> 4 * R" using ms assms(3) by (auto simp: sv_def)
    then show ?thesis by (intro that [OF c])
  qed
  have s: "sint (word_of_int sa :: u32) = sa" "sint (word_of_int sv :: u32) = sv" using b assms(4) by (auto intro: sint_of_small)
  show ?thesis
    using c assms(1) clip_bounds [OF lo, of x] b
    by (auto simp: update_rto_def rto_ok_def rto_conf_def a' on_dest_def path_rto_ok_def n' s)
qed

lemma timeout_ok:
  assumes "rto_ok R a"
  shows "\<exists>a'. sctp_backoff_on_timeout cc i w k l a = Some a' \<and> rto_ok R a' \<and>
    unat (RTO (p_cc (dest a' i))) = min (2 * unat (timer_base a (dest a i))) (unat (maxrto a)) \<and> RTO_measured (dest a' i) = RTO_measured (dest a i) \<and>
    minrto a' = minrto a \<and> maxrto a' = maxrto a \<and> initial_rto a' = initial_rto a \<and> (\<forall>j. j \<noteq> i \<longrightarrow> dest a' j = dest a j)"
proof -
  let ?n = "dest a i"
  have ok: "path_rto_ok R (minrto a) (maxrto a) ?n" and conf: "rto_conf a"
    using assms by (auto simp: rto_ok_def)
  have base: "timer_base a ?n < 2 ^ 31" "minrto a \<le> timer_base a ?n"
    using ok conf by (auto simp: timer_base_def path_rto_ok_def rto_conf_def)
  note D = double_rto_spec [OF base(1)]
  have lo: "minrto a \<le> RTO (p_cc (double_rto a ?n))" "RTO (p_cc (double_rto a ?n)) \<le> maxrto a"
    using D(1) base conf by (auto simp: word_le_nat_alt rto_conf_def)
  have ok': "path_rto_ok R (minrto a) (maxrto a) (double_rto a ?n)"
    using ok lo by (simp add: path_rto_ok_def D)
  let ?a = "on_dest i (double_rto a) a"
  obtain m where m: "after_timeout cc (cc_view ?a) (p_cc (dest ?a i)) = Some m" using timeout_returns by blast
  have m': "lastsa m = lastsa (p_cc ?n)" "RTO m = RTO (p_cc (double_rto a ?n))"
    using timeout_keeps [OF m] D by (simp_all add: on_dest_def)
  show ?thesis
    using m m' ok' assms D(1,4)
    by (auto simp: sctp_backoff_on_timeout_def Let_def rto_ok_def rto_conf_def on_dest_def path_rto_ok_def D)
qed

lemma step_ok:
  assumes "rto_ok R a" "rto_event_ok R e" "3 \<le> R" "R < 2 ^ 28"
  shows "\<exists>a'. rto_step cc e a = Some a' \<and> rto_ok R a' \<and> minrto a' = minrto a \<and> maxrto a' = maxrto a \<and>
    RTO (p_cc (dest a' (event_dest e))) \<noteq> 0 \<and> (\<forall>j. RTO (p_cc (dest a j)) \<noteq> 0 \<longrightarrow> RTO (p_cc (dest a' j)) \<noteq> 0)"
proof (cases e)
  case (Rtt_measured now told d i)
  then have "measured R now told" using assms(2) by simp
  from measure_ok [OF assms(1) this assms(3,4), of d i] obtain a' where a': "update_rto cc now told d i a = Some a'" "rto_ok R a'"
    "minrto a \<le> RTO (p_cc (dest a' i))" "minrto a' = minrto a" "maxrto a' = maxrto a" "\<forall>j. j \<noteq> i \<longrightarrow> dest a' j = dest a j" by blast
  have "0 < minrto a" using assms(1) by (simp add: rto_ok_def rto_conf_def)
  then have "RTO (p_cc (dest a' i)) \<noteq> 0" using a'(3) by auto
  then show ?thesis using a' by (intro exI [of _ a']) (simp add: Rtt_measured, metis)
next
  case (Timed_out i w k l)
  from timeout_ok [OF assms(1), of i w k l] obtain a' where a': "sctp_backoff_on_timeout cc i w k l a = Some a'" "rto_ok R a'"
    "unat (RTO (p_cc (dest a' i))) = min (2 * unat (timer_base a (dest a i))) (unat (maxrto a))"
    "minrto a' = minrto a" "maxrto a' = maxrto a" "\<forall>j. j \<noteq> i \<longrightarrow> dest a' j = dest a j" by blast
  have "0 < unat (minrto a)" "unat (minrto a) \<le> unat (initial_rto a)" "unat (minrto a) \<le> unat (maxrto a)"
    using assms(1) by (auto simp: rto_ok_def rto_conf_def word_less_nat_alt word_le_nat_alt)
  moreover have "0 < unat (RTO (p_cc (dest a i))) \<or> RTO (p_cc (dest a i)) = 0" by (simp add: unat_gt_0)
  ultimately have "RTO (p_cc (dest a' i)) \<noteq> 0" using a'(3) by (auto simp: timer_base_def split: if_splits)
  then show ?thesis using a' by (intro exI [of _ a']) (simp add: Timed_out, metis)
qed

lemma run_ok:
  assumes "rto_ok R a" "\<forall>e\<in>set es. rto_event_ok R e" "3 \<le> R" "R < 2 ^ 28"
  shows "\<exists>a'. rto_run cc es a = Some a' \<and> rto_ok R a' \<and> minrto a' = minrto a \<and> maxrto a' = maxrto a \<and>
    (\<forall>e\<in>set es. RTO (p_cc (dest a' (event_dest e))) \<noteq> 0) \<and> (\<forall>j. RTO (p_cc (dest a j)) \<noteq> 0 \<longrightarrow> RTO (p_cc (dest a' j)) \<noteq> 0)"
  using assms(1,2)
proof (induction es arbitrary: a)
  case (Cons e es)
  obtain a1 where a1: "rto_step cc e a = Some a1" "rto_ok R a1" "minrto a1 = minrto a" "maxrto a1 = maxrto a"
    "RTO (p_cc (dest a1 (event_dest e))) \<noteq> 0" "\<forall>j. RTO (p_cc (dest a j)) \<noteq> 0 \<longrightarrow> RTO (p_cc (dest a1 j)) \<noteq> 0"
    using step_ok [OF Cons.prems(1) _ assms(3,4), of e] Cons.prems(2) by auto
  obtain a2 where "rto_run cc es a1 = Some a2" "rto_ok R a2" "minrto a2 = minrto a1" "maxrto a2 = maxrto a1"
    "\<forall>e\<in>set es. RTO (p_cc (dest a2 (event_dest e))) \<noteq> 0" "\<forall>j. RTO (p_cc (dest a1 j)) \<noteq> 0 \<longrightarrow> RTO (p_cc (dest a2 j)) \<noteq> 0"
    using Cons.IH [OF a1(2)] Cons.prems(2) by auto
  then show ?case using a1 by (intro exI [of _ a2]) auto
qed simp

text \<open>Timeouts in a row.\<close>

lemma backoff_run:
  assumes "rto_ok R a"
  shows "\<exists>a'. rto_run cc (replicate (Suc k) (Timed_out i w m l)) a = Some a' \<and>
    unat (RTO (p_cc (dest a' i))) = min (2 ^ Suc k * unat (timer_base a (dest a i))) (unat (maxrto a))"
  using assms
proof (induction k arbitrary: a)
  case 0
  show ?case using timeout_ok [OF 0, of i w m l] by auto
next
  case (Suc k)
  obtain a1 where a1: "sctp_backoff_on_timeout cc i w m l a = Some a1" "rto_ok R a1" "maxrto a1 = maxrto a"
    "unat (RTO (p_cc (dest a1 i))) = min (2 * unat (timer_base a (dest a i))) (unat (maxrto a))"
    using timeout_ok [OF Suc.prems, of i w m l] by blast
  have "RTO (p_cc (dest a1 i)) \<noteq> 0"
    using step_ok [OF Suc.prems, of "Timed_out i w m l"] a1(1) timeout_ok [OF Suc.prems, of i w m l] Suc.prems
    by (auto simp: timer_base_def rto_ok_def rto_conf_def word_less_nat_alt word_le_nat_alt path_rto_ok_def split: if_splits)
  then have "timer_base a1 (dest a1 i) = RTO (p_cc (dest a1 i))" by (simp add: timer_base_def)
  then obtain a2 where "rto_run cc (replicate (Suc k) (Timed_out i w m l)) a1 = Some a2"
    "unat (RTO (p_cc (dest a2 i))) = min (2 ^ Suc k * min (2 * unat (timer_base a (dest a i))) (unat (maxrto a))) (unat (maxrto a))"
    using Suc.IH [OF a1(2)] a1(3,4) by auto
  moreover have "2 ^ Suc k * (2 * x) = 2 ^ Suc (Suc k) * x" for x :: nat by simp
  ultimately show ?case using a1(1) min_scale [of "2 ^ Suc k" "2 * unat (timer_base a (dest a i))"]
    by (intro exI [of _ a2]) simp
qed

end

lemma raise_ssthresh_keeps [simp]: "lastsa (raise_ssthresh t m) = lastsa m" "RTO (raise_ssthresh t m) = RTO m"
  by (simp_all add: raise_ssthresh_def Let_def)

lemma widen_nonzero: "(ucast (if ts < 1 then 1 else ts :: u32) :: u64) \<noteq> 0"
proof -
  have "unat (if ts < 1 then 1 else ts) \<noteq> 0" by (auto simp: word_less_nat_alt)
  then show ?thesis by (metis unat_0 unat_u64_of_u32)
qed

lemma default_timeout: "\<exists>m'. sctp_cwnd_update_after_timeout b m = Some m'"
proof -
  obtain ts tc tu where "to_totals (nets b) (0, 0, 0) = (ts, tc, tu)" by (cases "to_totals (nets b) (0, 0, 0)") auto
  then show ?thesis using widen_nonzero [of ts] by (simp add: sctp_cwnd_update_after_timeout_def cdiv_def Let_def)
qed

lemma default_timeout_keeps:
  assumes "sctp_cwnd_update_after_timeout b m = Some m'"
  shows "lastsa m' = lastsa m \<and> RTO m' = RTO m"
  using assms by (auto simp: sctp_cwnd_update_after_timeout_def Let_def split: Option.bind_splits if_splits prod.splits)

interpretation rfc_timer: keeps_timer "cc_functions sc ticks CC_RFC2581" for sc ticks
  by unfold_locales (use default_timeout default_timeout_keeps in \<open>auto simp: rfc_row_def\<close>)

interpretation hs_timer: keeps_timer "cc_functions sc ticks CC_HSTCP" for sc ticks
  by unfold_locales (use default_timeout default_timeout_keeps in \<open>auto simp: rfc_row_def\<close>)

interpretation rtcc_timer: keeps_timer "cc_functions sc ticks CC_RTCC" for sc ticks
  by unfold_locales (use default_timeout default_timeout_keeps in \<open>auto simp: rfc_row_def sctp_rtt_rtcc_calculated_def\<close>)

section \<open>The properties\<close>

lemma timer_row: "row \<noteq> CC_HTCP \<Longrightarrow> keeps_timer (cc_functions sc ticks row)"
  using rfc_timer.keeps_timer_axioms hs_timer.keeps_timer_axioms rtcc_timer.keeps_timer_axioms by (cases row) auto

definition demo_path :: path where
  "demo_path = \<lparr>p_cc = \<lparr>mtu = 1500, ssthresh = 9000, lastsa = 0, rtt = 0, RTO = 0,
      htcp_ca = \<lparr>alpha = 0, beta = 0, modeswitch = 0, last_cong = 0, undo_last_cong = 0, bytes_acked = 0, bytecount = 0, minRTT = 0,
        maxRTT = 0, undo_maxRTT = 0, undo_old_maxB = 0, minB = 0, maxB = 0, old_maxB = 0, Bi = 0, lasttime = 0\<rparr>,
      rtcc = \<lparr>tls = (0, 0), lbw = 0, lbw_rtt = 0, bw_bytes = 0, bw_tot_time = 0, new_tot_time = 0, bw_bytes_at_last_rttc = 0,
        cwnd_at_bw_set = 0, vol_reduce = 0, steady_step = 0, step_cnt = 0, ret_from_eq = 0, use_dccc_ecn = 0, tls_needs_set = 0,
        last_step_state = 0, rtt_set_this_sack = False, last_inst_ind = 0\<rparr>,
      flight_size = 0, cwnd = 4380, prev_cwnd = 0, ecn_prev_cwnd = 0, partial_bytes_acked = 0, net_ack = 0, fast_recovery_tsn = 0,
      fast_retran_loss_recovery = False, fast_retran_ip = 0, new_pseudo_cumack = False, last_hs_used = 0, lan_type = 0\<rparr>,
    lastsv = 0, RTO_measured = False, l_addr = 0, dest_state = 1, failure_threshold = 5, pf_threshold = 2, error_count = 0, last_active = 0,
    heartbeat_random1 = 1, heartbeat_random2 = 2, ro_rt = True, s_addr = False, src_addr_selected = False, hb_responded = True,
    heart_beat_delay = 30000, last_sent_time = (0, 0)\<rparr>"

definition demo_sysctl :: cc_sysctl where
  "demo_sysctl = \<lparr>sctp_initial_cwnd = 3, sctp_L2_abc_variable = 2, sctp_rttvar_bw = 4, sctp_rttvar_rtt = 5, sctp_rttvar_eqret = 0,
     sctp_steady_step = 20, sctp_use_dccc_ecn = 1\<rparr>"

definition demo_assoc :: assoc where
  "demo_assoc = \<lparr>a_cc = \<lparr>nets = [], send_queue = [], sending_seq = 0, asoc_recovery_tsn = 0, asoc_loss_recovery = False, peers_rwnd = 65536,
      numnets = 2, max_burst = 4, max_cwnd = 0, sctp_cmt_on_off = 0, seen_a_sack_this_pkt = False, use_precise_time = False,
      timer_calls = [], sctps_fastretransinrtt = 0, sctps_ecnereducedcwnd = 0\<rparr>,
    dest = (\<lambda>i. demo_path\<lparr>l_addr := i\<rparr>), order = [0, 1], primary_destination = 0, alternate = None, minrto = 1000, maxrto = 60000,
    initial_rto = 3000, sat_network = False, sat_network_lockout = False, overall_error_count = 0, max_send_times = 10,
    total_output_queue_size = 0, sent_queue_empty = True, hb_random_values = [1, 2, 3, 4], hb_random_idx = 0, hb_ect_randombit = 0,
    ep_rand = \<lparr>random_counter = 0, random_numbers = [], random_store = [], initial_sequence_debug = 1, store_at = 0\<rparr>, path_calls = []\<rparr>"

lemma demo_assoc_ok: "rto_ok 1000 demo_assoc"
  by (simp add: rto_ok_def rto_conf_def demo_assoc_def demo_path_def path_rto_ok_def)

text \<open>C36. Over every history of round trip measurements of at most \<open>R\<close> milliseconds (\<open>R < 2 ^ 28\<close>) and timeouts, with every congestion control
module but H-TCP, no signed computation of the retransmission timeout overflows, the smoothed values stay those of times of at most \<open>R\<close>, and the
timeout of every destination that has seen an event lies between the configured bounds.\<close>

theorem rto_history:
  assumes "rto_ok R a" "\<forall>e\<in>set es. rto_event_ok R e" "3 \<le> R" "R < 2 ^ 28" "row \<noteq> CC_HTCP"
  shows "\<exists>a'. rto_run (cc_functions sc ticks row) es a = Some a' \<and> rto_ok R a' \<and>
    (\<forall>e\<in>set es. minrto a \<le> RTO (p_cc (dest a' (event_dest e))) \<and> RTO (p_cc (dest a' (event_dest e))) \<le> maxrto a)"
proof -
  have "\<exists>a'. rto_run (cc_functions sc ticks row) es a = Some a' \<and> rto_ok R a' \<and> minrto a' = minrto a \<and> maxrto a' = maxrto a \<and>
      (\<forall>e\<in>set es. RTO (p_cc (dest a' (event_dest e))) \<noteq> 0) \<and> (\<forall>j. RTO (p_cc (dest a j)) \<noteq> 0 \<longrightarrow> RTO (p_cc (dest a' j)) \<noteq> 0)"
    by (rule keeps_timer.run_ok [OF timer_row [OF assms(5)] assms(1-4)])
  then obtain a' where "rto_run (cc_functions sc ticks row) es a = Some a'" "rto_ok R a'" "minrto a' = minrto a" "maxrto a' = maxrto a"
    "\<forall>e\<in>set es. RTO (p_cc (dest a' (event_dest e))) \<noteq> 0" by blast
  then show ?thesis by (intro exI [of _ a']) (auto simp: rto_ok_def path_rto_ok_def)
qed

theorem rto_history_witness:
  "\<forall>sc ticks. \<exists>a'. rto_run (cc_functions sc ticks CC_RFC2581) [Rtt_measured (10, 500000) (10, 100000) True 0, Timed_out 0 False 3 0, Timed_out 1 True 0 0]
      demo_assoc = Some a' \<and> minrto demo_assoc \<le> RTO (p_cc (dest a' 0)) \<and> RTO (p_cc (dest a' 1)) \<le> maxrto demo_assoc"
proof (intro allI)
  fix sc ticks
  show "\<exists>a'. rto_run (cc_functions sc ticks CC_RFC2581) [Rtt_measured (10, 500000) (10, 100000) True 0, Timed_out 0 False 3 0, Timed_out 1 True 0 0]
      demo_assoc = Some a' \<and> minrto demo_assoc \<le> RTO (p_cc (dest a' 0)) \<and> RTO (p_cc (dest a' 1)) \<le> maxrto demo_assoc"
    using rto_history [OF demo_assoc_ok, of "[Rtt_measured (10, 500000) (10, 100000) True 0, Timed_out 0 False 3 0, Timed_out 1 True 0 0]"
        CC_RFC2581 sc ticks]
    by (auto simp: measured_def us_def)
qed

section \<open>The rules of RFC 4960\<close>

text \<open>Section 6.3.1 with real numbers, all times in milliseconds: SRTT and RTTVAR after the first measurement and after a later one, the
granularity rule G1 with the granularity that the source documents, and the timeout.\<close>

definition rfc_first :: "real \<Rightarrow> real \<times> real" where
  "rfc_first r = (r, r / 2)"

definition rfc_later :: "real \<Rightarrow> real \<times> real \<Rightarrow> real \<times> real" where
  "rfc_later r v = (case v of (srtt, rttvar) \<Rightarrow> ((1 - 1/8) * srtt + 1/8 * r, (1 - 1/4) * rttvar + 1/4 * \<bar>srtt - r\<bar>))"

definition rfc_granularity :: "real \<Rightarrow> real" where
  "rfc_granularity rttvar = (if rttvar = 0 then 10 else rttvar)"

definition rfc_rto :: "real \<times> real \<Rightarrow> real" where
  "rfc_rto v = (case v of (srtt, rttvar) \<Rightarrow> srtt + 4 * rttvar)"

text \<open>The rounding of the fixed-point arithmetic.\<close>

lemma smooth_error:
  fixes sa sv ms :: int
  assumes "sa' = sa - sa div 8 + ms" "v' = sv - sv div 4 + \<bar>ms - sa div 8\<bar>"
    and "rfc_later (of_int ms) (of_int sa / 8, of_int sv / 4) = (s, v)"
  shows "0 \<le> of_int sa' / 8 - s" "of_int sa' / 8 - s < 1 / 8" "- (1 / 4) < of_int v' / 4 - v" "of_int v' / 4 - v < 1 / 2"
proof -
  define q r p t :: real where "q = of_int (sa div 8)" and "r = of_int (sa mod 8)" and "p = of_int (sv div 4)" and "t = of_int (sv mod 4)"
  have "sa = 8 * (sa div 8) + sa mod 8" "sv = 4 * (sv div 4) + sv mod 4" by simp_all
  then have e: "of_int sa = 8 * q + r" "of_int sv = 4 * p + t" unfolding q_def r_def p_def t_def by (metis of_int_add of_int_mult of_int_numeral)+
  have "0 \<le> sa mod 8" "sa mod 8 \<le> 7" "0 \<le> sv mod 4" "sv mod 4 \<le> 3" by presburger+
  then have b: "0 \<le> r" "r \<le> 7" "0 \<le> t" "t \<le> 3" unfolding r_def t_def by simp_all
  have a: "of_int sa' = 7 * q + r + of_int ms" "of_int v' = 3 * p + t + \<bar>of_int ms - q\<bar>"
    unfolding assms(1,2) by (simp_all add: e q_def [symmetric] p_def [symmetric])
  have s: "s = 7/8 * (q + r / 8) + of_int ms / 8" "v = 3/4 * (p + t / 4) + \<bar>q + r / 8 - of_int ms\<bar> / 4"
    using assms(3) by (auto simp: rfc_later_def e field_simps)
  show "0 \<le> of_int sa' / 8 - s" "of_int sa' / 8 - s < 1 / 8" using b by (simp_all add: a s field_simps)
  define x y where "x = \<bar>of_int ms - q\<bar>" and "y = \<bar>q + r / 8 - of_int ms\<bar>"
  have "x - y \<le> 7 / 8" "y - x \<le> 7 / 8" using b unfolding x_def y_def by linarith+
  moreover have "16 * (of_int v' / 4 - v) = t + 4 * (x - y)" unfolding a s x_def [symmetric] y_def [symmetric] by (simp add: field_simps)
  ultimately show "- (1 / 4) < of_int v' / 4 - v" "of_int v' / 4 - v < 1 / 2" using b by (simp_all add: field_simps)
qed

lemma unat_clip:
  assumes "0 \<le> x" "x < 2 ^ 32"
  shows "unat (min (max (word_of_int x) lo) (hi :: u32)) = min (max (nat x) (unat lo)) (unat hi)"
proof -
  have "unat (word_of_int x :: u32) = nat x"
    using assms by (simp add: unat_eq_nat_uint uint_word_of_int_eq take_bit_int_eq_self)
  then show ?thesis by (auto simp: min_def max_def word_le_nat_alt)
qed

text \<open>C35. A measurement of \<open>ms\<close> whole milliseconds (below \<open>2 ^ 28\<close>; not with H-TCP) beside the rules of RFC 4960, section 6.3.1, in exact arithmetic. The
first one sets the smoothed time to \<open>ms\<close> and the variance to half of it, rounded down. A later one differs from the rules by less than 1/8
of a millisecond above in the smoothed time, and by less than 1/4 below and 1/2 above in the variance, so that the timeout before it is cut to its bounds
differs by less than 2 below and 17/8 above. The code departs from the granularity rule G1: a variance of 0 is replaced by 10 in the scaled field, which is 2.5 milliseconds
and not the 10 milliseconds that G1 asks for and the comment on the constant states. The result is the smoothed time in whole milliseconds plus
four times the variance, within the configured bounds.\<close>

theorem rto_beside_rfc4960:
  assumes "measured R now told" "R < 2 ^ 28" "path_rto_ok R lo hi n" "row \<noteq> CC_HTCP"
    and ms: "ms = (us now - us told) div 1000" and sa: "sa = sint (lastsa (p_cc n))" and sv: "sv = sint (lastsv n)"
    and rfc: "(s, v) = (if RTO_measured n then rfc_later (of_int ms) (of_int sa / 8, of_int sv / 4) else rfc_first (of_int ms))"
  shows "\<exists>r a' n' v'. sctp_calculate_rto (cc_functions sc ticks row) now told sctp_align_safe_nocopy from_data a n = Some (r, a', n') \<and>
    RTO_measured n' \<and>
    (if RTO_measured n
     then 0 \<le> of_int (sint (lastsa (p_cc n'))) / 8 - s \<and> of_int (sint (lastsa (p_cc n'))) / 8 - s < 1 / 8 \<and>
       - (1 / 4) < of_int v' / 4 - v \<and> of_int v' / 4 - v < 1 / 2 \<and>
       - 2 < of_int (sint (lastsa (p_cc n')) div 8 + v') - rfc_rto (s, v) \<and> of_int (sint (lastsa (p_cc n')) div 8 + v') - rfc_rto (s, v) < 17 / 8
     else of_int (sint (lastsa (p_cc n'))) / 8 = s \<and> of_int v' / 4 = (of_int \<lfloor>v\<rfloor> :: real)) \<and>
    (if v' = 0 then of_int (sint (lastsv n')) / 4 = (5 / 2 :: real) \<and> rfc_granularity (of_int v' / 4) = 10 else sint (lastsv n') = v') \<and>
    unat r = min (max (nat (sint (lastsa (p_cc n')) div 8 + sint (lastsv n'))) (unat (minrto a))) (unat (maxrto a))"
proof -
  let ?cc = "cc_functions sc ticks row"
  have o: "0 \<le> sa" "sa \<le> 8 * R" "0 \<le> sv" "sv \<le> 4 * R" using assms(3) by (simp_all add: path_rto_ok_def sa sv)
  have m: "0 \<le> ms" "ms \<le> R" using rtt_ms_exact [OF assms(1,2)] by (simp_all add: ms)
  define sa' where "sa' = (if RTO_measured n then sa - sa div 8 + ms else 8 * ms)"
  define v' where "v' = (if RTO_measured n then sv - sv div 4 + \<bar>ms - sa div 8\<bar> else 4 * (ms div 2))"
  define sv' where "sv' = (if v' = 0 then 10 else v')"
  note B = smooth_bounds [OF m o]
  have b: "0 \<le> sa'" "sa' \<le> 8 * R" "0 \<le> v'" "v' \<le> 4 * R" using B m by (auto simp: sa'_def v'_def)
  note timer = timer_row [OF assms(4), of sc ticks]
  have core: "(if RTO_measured n then smooth ms (sint (lastsa (p_cc n)), sint (lastsv n)) else first_rtt ms) = Some (sa', v')"
    using smooth_exact [OF m o assms(2)] first_rtt_exact [OF m(1)] m(2) assms(2) by (simp add: sa'_def v'_def flip: sa sv)
  have t: "rtt_ms (rtt_us now told) = ms" using rtt_ms_exact [OF assms(1,2)] ms by simp
  from keeps_timer.calculate_from [OF timer core t sv'_def b assms(2), of from_data a]
  obtain a' n' where c: "sctp_calculate_rto ?cc now told sctp_align_safe_nocopy from_data a n =
      Some (min (max (word_of_int (sa' div 8 + sv')) (minrto a)) (maxrto a), a', n')"
    "lastsa (p_cc n') = word_of_int sa'" "lastsv n' = word_of_int sv'" "RTO_measured n'" by blast
  have e: "0 \<le> sv'" "sv' < 2 ^ 31" "sa' < 2 ^ 31" using b assms(2) by (auto simp: sv'_def)
  then have sint: "sint (lastsa (p_cc n')) = sa'" "sint (lastsv n') = sv'" using c b(1) by (auto intro: sint_of_small)
  have "0 \<le> sa' div 8 + sv'" "sa' div 8 + sv' < 2 ^ 32" using e b by auto
  note clip = unat_clip [OF this, of "minrto a" "maxrto a"]
  have g: "if v' = 0 then of_int (sint (lastsv n')) / 4 = (5 / 2 :: real) \<and> rfc_granularity (of_int v' / 4) = 10 else sint (lastsv n') = v'"
    by (simp add: sint(2) sv'_def rfc_granularity_def)
  show ?thesis
  proof (cases "RTO_measured n")
    case True
    then have later: "rfc_later (of_int ms) (of_int sa / 8, of_int sv / 4) = (s, v)" using rfc by simp
    have "sa' = sa - sa div 8 + ms" "v' = sv - sv div 4 + \<bar>ms - sa div 8\<bar>" using True by (simp_all add: sa'_def v'_def)
    note E = smooth_error [OF this later]
    have "\<lfloor>(of_int sa' :: real) / 8\<rfloor> = sa' div 8" using floor_divide_of_int_eq [of sa' 8, where 'a = real] by simp
    then have "(of_int sa' :: real) / 8 - 1 < of_int (sa' div 8)" "of_int (sa' div 8) \<le> (of_int sa' :: real) / 8"
      using floor_correct [of "(of_int sa' :: real) / 8"] by simp_all
    then have "- 2 < of_int (sa' div 8 + v') - rfc_rto (s, v)" "of_int (sa' div 8 + v') - rfc_rto (s, v) < 17 / 8"
      using E unfolding rfc_rto_def prod.case of_int_add by linarith+
    then show ?thesis
      using c(1,4) clip g E sint(1,2) by (intro exI [of _ "min (max (word_of_int (sa' div 8 + sv')) (minrto a)) (maxrto a)"] exI [of _ a'] exI [of _ n']
          exI [of _ v'] conjI) (simp_all only: True sint if_True)
  next
    case False
    then have sv: "s = of_int ms" "v = of_int ms / of_int 2" using rfc by (simp_all add: rfc_first_def)
    have "(of_int sa' :: real) / 8 = s" "of_int v' / 4 = (of_int \<lfloor>v\<rfloor> :: real)"
      unfolding sv floor_divide_of_int_eq using False by (simp_all add: sa'_def v'_def)
    then show ?thesis
      using c(1,4) clip g sint(1,2) by (intro exI [of _ "min (max (word_of_int (sa' div 8 + sv')) (minrto a)) (maxrto a)"] exI [of _ a'] exI [of _ n']
          exI [of _ v'] conjI) (simp_all only: False sint if_False)
  qed
qed

theorem rto_beside_rfc4960_witness:
  "\<exists>r a' n'. sctp_calculate_rto (cc_functions demo_sysctl 0 CC_RFC2581) (10, 500000) (10, 100000) sctp_align_safe_nocopy True demo_assoc demo_path =
     Some (r, a', n') \<and> sint (lastsa (p_cc n')) = 3200 \<and> unat r = 1200"
proof -
  have h: "path_rto_ok 1000 1000 60000 demo_path" "\<not> RTO_measured demo_path" "minrto demo_assoc = 1000" "maxrto demo_assoc = 60000"
    "measured 1000 (10, 500000) (10, 100000)" "400 = (us (10, 500000) - us (10, 100000)) div 1000"
    by (simp_all add: demo_path_def demo_assoc_def path_rto_ok_def measured_def us_def)
  have f: "(400, 200) = (if RTO_measured demo_path then rfc_later (of_int 400) (of_int (sint (lastsa (p_cc demo_path))) / 8,
      of_int (sint (lastsv demo_path)) / 4) else rfc_first (of_int 400))" using h(2) by (simp add: rfc_first_def)
  obtain r a' n' v' where c: "sctp_calculate_rto (cc_functions demo_sysctl 0 CC_RFC2581) (10, 500000) (10, 100000) sctp_align_safe_nocopy True
      demo_assoc demo_path = Some (r, a', n')" "of_int (sint (lastsa (p_cc n'))) / 8 = (400 :: real)" "of_int v' / 4 = (of_int \<lfloor>200 :: real\<rfloor> :: real)"
      "if v' = 0 then of_int (sint (lastsv n')) / 4 = (5 / 2 :: real) \<and> rfc_granularity (of_int v' / 4) = 10 else sint (lastsv n') = v'"
      "unat r = min (max (nat (sint (lastsa (p_cc n')) div 8 + sint (lastsv n'))) (unat (minrto demo_assoc))) (unat (maxrto demo_assoc))"
    using rto_beside_rfc4960 [OF h(5) _ h(1) _ h(6) refl refl f, of CC_RFC2581 demo_sysctl 0 True demo_assoc, unfolded if_not_P [OF h(2)]] by auto
  have "(of_int (sint (lastsa (p_cc n'))) :: real) = of_int 3200" "(of_int v' :: real) = of_int 800" using c(2,3) by simp_all
  then have "sint (lastsa (p_cc n')) = 3200" "v' = 800" by (simp_all only: of_int_eq_iff)
  then show ?thesis using c(1,4,5) h(3,4) by auto
qed

text \<open>Every timeout doubles the retransmission timeout: after \<open>k\<close> timeouts in a row it is \<open>2 ^ k\<close> times the value at the start (the
minimum or the initial value when none was set), cut off at the configured maximum.\<close>

theorem backoff_exponential:
  assumes "rto_ok R a" "row \<noteq> CC_HTCP" "0 < k"
  shows "\<exists>a'. rto_run (cc_functions sc ticks row) (replicate k (Timed_out i win_probe num_marked num_abandoned)) a = Some a' \<and>
    unat (RTO (p_cc (dest a' i))) = min (2 ^ k * unat (timer_base a (dest a i))) (unat (maxrto a))"
proof -
  obtain j where "k = Suc j" using assms(3) gr0_conv_Suc by blast
  then show ?thesis
    using keeps_timer.backoff_run [OF timer_row [OF assms(2)] assms(1)] by blast
qed

theorem backoff_exponential_witness:
  "\<exists>a'. rto_run (cc_functions demo_sysctl 0 CC_RFC2581) (replicate 3 (Timed_out 1 True 0 0)) demo_assoc = Some a' \<and>
    unat (RTO (p_cc (dest a' 1))) = 24000"
proof -
  have "timer_base demo_assoc (dest demo_assoc 1) = 3000" "maxrto demo_assoc = 60000"
    by (simp_all add: timer_base_def demo_assoc_def demo_path_def)
  then show ?thesis
    using backoff_exponential [OF demo_assoc_ok, of CC_RFC2581 3 demo_sysctl 0 1 True 0 0] by auto
qed

text \<open>A first measurement overflows exactly when the milliseconds, taken modulo \<open>2 ^ 32\<close>, are negative or not below \<open>2 ^ 28\<close>: a start of the clock that
the peer has sent back in a HEARTBEAT-ACK is enough.\<close>

lemma first_measurement_overflows:
  assumes "\<not> RTO_measured n"
  shows "sctp_calculate_rto (cc_functions sc ticks CC_RFC2581) now told sctp_align_safe_nocopy d a n = None \<longleftrightarrow>
    \<not> (0 \<le> rtt_ms (rtt_us now told) \<and> rtt_ms (rtt_us now told) < 2 ^ 28)"
proof (cases "0 \<le> rtt_ms (rtt_us now told) \<and> rtt_ms (rtt_us now told) < 2 ^ 28")
  case True
  let ?ms = "rtt_ms (rtt_us now told)"
  have core: "(if RTO_measured n then smooth ?ms (sint (lastsa (p_cc n)), sint (lastsv n)) else first_rtt ?ms) = Some (8 * ?ms, 4 * (?ms div 2))"
    using first_rtt_exact [of ?ms] True assms by simp
  have "0 \<le> 8 * ?ms" "8 * ?ms \<le> 8 * ?ms" "0 \<le> 4 * (?ms div 2)" "4 * (?ms div 2) \<le> 4 * ?ms" "?ms < 2 ^ 28" using True by auto
  from rfc_timer.calculate_from [OF core refl refl this, of sc ticks d a]
  have "\<exists>y. sctp_calculate_rto (cc_functions sc ticks CC_RFC2581) now told sctp_align_safe_nocopy d a n = Some y" by blast
  then show ?thesis using True by auto
next
  case False
  then have "first_rtt (rtt_ms (rtt_us now told)) = None" by (auto simp: first_rtt_def shl32_def s32_def rto_consts)
  then show ?thesis
    using False assms rfc_timer.note_rtt_keeps(3) [of sc ticks d "rtt_us now told" n]
    by (simp add: sctp_calculate_rto_def Let_def del: cc_functions.simps)
qed

lemma heartbeat_time_overflows:
  "\<not> RTO_measured n \<Longrightarrow> sctp_calculate_rto (cc_functions sc ticks CC_RFC2581) (1500000000, 0) (0, 0) sctp_align_safe_nocopy d a n = None"
  by (subst first_measurement_overflows) (simp_all add: rtt_ms_def rtt_us_def)

section \<open>Neighbours in the table of MTUs\<close>

lemma next_loop_spec:
  assumes "sorted xs"
  shows "next_loop v xs = (if \<exists>s\<in>set xs. v < s then Min {s \<in> set xs. v < s} else v)"
  using assms
proof (induction xs)
  case (Cons s ss)
  show ?case
  proof (cases "v < s")
    case True
    then have "Min {t \<in> set (s # ss). v < t} = s" using Cons.prems by (intro Min_eqI) auto
    then show ?thesis using True by auto
  next
    case False
    then have "{t \<in> set (s # ss). v < t} = {t \<in> set ss. v < t}" by auto
    then show ?thesis using False Cons by auto
  qed
qed simp

lemma prev_loop_spec:
  assumes "sorted (b # xs)" "b < v"
  shows "prev_loop v b xs = Max {s \<in> set (b # xs). s < v}"
  using assms
proof (induction xs arbitrary: b)
  case Nil
  then have "{s \<in> set [b]. s < v} = {b}" by auto
  then show ?case by simp
next
  case (Cons s ss)
  show ?case
  proof (cases "v \<le> s")
    case True
    then have "Max {t \<in> set (b # s # ss). t < v} = b" using Cons.prems by (intro Max_eqI) auto
    then show ?thesis using True by simp
  next
    case False
    let ?A = "{t \<in> set (s # ss). t < v}"
    have "s \<in> ?A" using False by auto
    then have "s \<le> Max ?A" by (intro Max_ge) auto
    then have "b \<le> Max ?A" using Cons.prems(1) by auto
    moreover have "{t \<in> set (b # s # ss). t < v} = insert b ?A" using Cons.prems by auto
    moreover have "Max (insert b ?A) = max b (Max ?A)" using \<open>s \<in> ?A\<close> by (intro Max_insert) auto
    ultimately have "Max {t \<in> set (b # s # ss). t < v} = Max ?A" by (simp add: max_absorb2)
    then show ?thesis using Cons.IH [of s] Cons.prems False by simp
  qed
qed

lemma mtu_sizes_sorted: "sorted sctp_mtu_sizes"
  by (simp add: sctp_mtu_sizes_def)

text \<open>The next MTU is the smallest value of the table above the argument and the previous one the largest below it; without such a value
both return the argument.\<close>

theorem mtu_neighbours:
  "sctp_get_next_mtu v = (if \<exists>s\<in>set sctp_mtu_sizes. v < s then Min {s \<in> set sctp_mtu_sizes. v < s} else v) \<and>
   sctp_get_prev_mtu v = (if \<exists>s\<in>set sctp_mtu_sizes. s < v then Max {s \<in> set sctp_mtu_sizes. s < v} else v)"
proof -
  have t: "sctp_mtu_sizes = 68 # drop 1 sctp_mtu_sizes" "sctp_mtu_sizes ! 0 = 68" by (simp_all add: sctp_mtu_sizes_def)
  have low: "68 \<le> s" if "s \<in> set sctp_mtu_sizes" for s using mtu_sizes_sorted that t(1) by (metis sorted_simps(2) set_ConsD order_refl)
  have "sctp_get_prev_mtu v = (if \<exists>s\<in>set sctp_mtu_sizes. s < v then Max {s \<in> set sctp_mtu_sizes. s < v} else v)"
  proof (cases "v \<le> 68")
    case True
    then have "\<not> (\<exists>s\<in>set sctp_mtu_sizes. s < v)" using low by (meson leD order_trans)
    then show ?thesis using True t(2) by (simp add: sctp_get_prev_mtu_def)
  next
    case False
    then have "\<exists>s\<in>set sctp_mtu_sizes. s < v" using t(1) by (metis linorder_not_le list.set_intros(1))
    then show ?thesis
      using False t prev_loop_spec [of 68 "drop 1 sctp_mtu_sizes" v] mtu_sizes_sorted by (simp add: sctp_get_prev_mtu_def flip: t(1))
  qed
  then show ?thesis using next_loop_spec [OF mtu_sizes_sorted] by (simp add: sctp_get_next_mtu_def)
qed

end
