(* ===== verification/Vtag_Props.thy ===== *)
theory Vtag_Props
  imports Vtag
begin

text \<open>
  The table of tags in time wait is a set of tags with expiry times; a tag in time wait is not chosen before it expires; the
  generator hands out every word of its digests once; choosing a tag returns the first usable word.
\<close>

section \<open>What waits in a block, a chain and the table\<close>

definition tag_of :: "sctp_timewait \<Rightarrow> u32 \<times> u16 \<times> u16" where
  "tag_of e = (v_tag e, tw_lport e, tw_rport e)"

definition block_waiting :: "int \<Rightarrow> sctp_timewait list \<Rightarrow> (u32 \<times> u16 \<times> u16) set" where
  "block_waiting t b = tag_of ` {e \<in> set b. v_tag e \<noteq> 0 \<and> t \<le> uint (tv_sec_at_expire e)}"

definition chain_waiting :: "int \<Rightarrow> tag_chain \<Rightarrow> (u32 \<times> u16 \<times> u16) set" where
  "chain_waiting t c = (\<Union>b\<in>set c. block_waiting t b)"

definition waiting :: "int \<Rightarrow> tag_info \<Rightarrow> (u32 \<times> u16 \<times> u16) set" where
  "waiting t s = (\<Union>i<length (vtag_timewait s). chain_waiting t (vtag_timewait s ! i))"

definition tag_chain_ok :: "nat \<Rightarrow> tag_chain \<Rightarrow> bool" where
  "tag_chain_ok i c \<longleftrightarrow> (\<forall>b\<in>set c. length b = SCTP_NUMBER_IN_VTAG_BLOCK \<and> (\<forall>e\<in>set b. v_tag e \<noteq> 0 \<longrightarrow> chain_index (v_tag e) = i))"

definition table_ok :: "tag_info \<Rightarrow> bool" where
  "table_ok s \<longleftrightarrow> length (vtag_timewait s) = SCTP_STACK_VTAG_HASH_SIZE \<and>
     (\<forall>i<SCTP_STACK_VTAG_HASH_SIZE. tag_chain_ok i (vtag_timewait s ! i))"

lemma block_waiting_simps [simp]:
  "block_waiting t [] = {}"
  "block_waiting t (e # es) =
    (if v_tag e \<noteq> 0 \<and> t \<le> uint (tv_sec_at_expire e) then {tag_of e} else {}) \<union> block_waiting t es"
  by (auto simp: block_waiting_def)

lemma chain_waiting_simps [simp]:
  "chain_waiting t [] = {}"
  "chain_waiting t (b # bs) = block_waiting t b \<union> chain_waiting t bs"
  by (simp_all add: chain_waiting_def)

lemma free_entry_simps [simp]: "v_tag free_entry = 0"
  by (simp add: free_entry_def)

lemma block_waiting_free [simp]: "block_waiting t (replicate n free_entry) = {}"
  by (auto simp: block_waiting_def)

lemma chain_index_less [simp]: "chain_index tag < SCTP_STACK_VTAG_HASH_SIZE"
  by (simp add: chain_index_def SCTP_STACK_VTAG_HASH_SIZE_def)

lemma same_tag_iff: "same_tag tag l r e \<longleftrightarrow> tag_of e = (tag, l, r)"
  by (auto simp: same_tag_def tag_of_def)

text \<open>Waiting tags of one chain are those of the table with the hash of the chain.\<close>

lemma chain_waiting_index:
  assumes "tag_chain_ok i c" "(tag, l, r) \<in> chain_waiting t c"
  shows "chain_index tag = i"
  using assms by (auto simp: tag_chain_ok_def chain_waiting_def block_waiting_def tag_of_def)

lemma waiting_in_chain:
  assumes "table_ok s"
  shows "(tag, l, r) \<in> waiting t s \<longleftrightarrow> (tag, l, r) \<in> chain_waiting t (vtag_timewait s ! chain_index tag)"
proof
  assume "(tag, l, r) \<in> waiting t s"
  then obtain i where i: "i < length (vtag_timewait s)" "(tag, l, r) \<in> chain_waiting t (vtag_timewait s ! i)"
    by (auto simp: waiting_def)
  moreover have "tag_chain_ok i (vtag_timewait s ! i)" using assms i(1) by (simp add: table_ok_def)
  ultimately show "(tag, l, r) \<in> chain_waiting t (vtag_timewait s ! chain_index tag)"
    using chain_waiting_index by blast
next
  assume "(tag, l, r) \<in> chain_waiting t (vtag_timewait s ! chain_index tag)"
  then show "(tag, l, r) \<in> waiting t s"
    using assms by (auto simp: waiting_def table_ok_def)
qed

lemma waiting_update:
  assumes "table_ok s" "i < SCTP_STACK_VTAG_HASH_SIZE" "tag_chain_ok i c" "chain_waiting t c = chain_waiting t (vtag_timewait s ! i) \<union> X"
  shows "waiting t (s\<lparr>vtag_timewait := (vtag_timewait s)[i := c]\<rparr>) = waiting t s \<union> X"
proof -
  let ?n = "length (vtag_timewait s)"
  have l: "i < ?n" using assms by (simp add: table_ok_def)
  have upd: "chain_waiting t ((vtag_timewait s)[i := c] ! j) =
      (if j = i then chain_waiting t (vtag_timewait s ! i) \<union> X else chain_waiting t (vtag_timewait s ! j))" for j
    using l assms(4) by (cases "j = i") simp_all
  show ?thesis
    unfolding waiting_def by (rule set_eqI) (use l in \<open>auto simp: upd split: if_splits\<close>)
qed

lemma table_ok_update:
  assumes "table_ok s" "i < SCTP_STACK_VTAG_HASH_SIZE" "tag_chain_ok i c"
  shows "table_ok (s\<lparr>vtag_timewait := (vtag_timewait s)[i := c]\<rparr>)"
  using assms by (auto simp: table_ok_def nth_list_update)

section \<open>The test of a tag\<close>

lemma block_good_spec:
  assumes "block_good now tag l r b = (b', g)" "tag \<noteq> 0"
  shows "length b' = length b \<and> (\<forall>e\<in>set b'. v_tag e \<noteq> 0 \<longrightarrow> e \<in> set b) \<and> (g \<longleftrightarrow> (tag, l, r) \<notin> block_waiting now b)
    \<and> (\<forall>t. now \<le> t \<longrightarrow> block_waiting t b' = block_waiting t b)"
  using assms(1)
proof (induction b arbitrary: b' g)
  case (Cons e es)
  obtain es' g' where es: "block_good now tag l r es = (es', g')" by fastforce
  note IH = Cons.IH [OF es]
  consider (free) "v_tag e = 0" | (old) "v_tag e \<noteq> 0" "expired now e"
    | (hit) "v_tag e \<noteq> 0" "\<not> expired now e" "same_tag tag l r e"
    | (other) "v_tag e \<noteq> 0" "\<not> expired now e" "\<not> same_tag tag l r e" by blast
  then show ?case
    by cases (use Cons.prems IH es in \<open>auto simp: same_tag_iff expired_def\<close>)
qed auto

lemma chain_good_spec:
  assumes "chain_good now tag l r c = (c', g)" "tag \<noteq> 0"
  shows "(tag_chain_ok i c \<longrightarrow> tag_chain_ok i c') \<and> (g \<longleftrightarrow> (tag, l, r) \<notin> chain_waiting now c)
    \<and> (\<forall>t. now \<le> t \<longrightarrow> chain_waiting t c' = chain_waiting t c)"
  using assms(1)
proof (induction c arbitrary: c' g)
  case (Cons b bs)
  obtain b' h where b: "block_good now tag l r b = (b', h)" by fastforce
  note B = block_good_spec [OF b assms(2)]
  obtain bs' h' where bs: "chain_good now tag l r bs = (bs', h')" by fastforce
  note IH = Cons.IH [OF bs]
  show ?case
    by (cases h) (use Cons.prems IH B b bs in \<open>auto simp: tag_chain_ok_def\<close>)
qed auto

text \<open>Whether a tag may be used, as a question to the two sets.\<close>

definition in_use :: "u32 \<Rightarrow> u16 \<Rightarrow> u16 \<Rightarrow> tag_info \<Rightarrow> bool" where
  "in_use tag l r s \<longleftrightarrow> tag_in_use tag l r (sctp_asochash s (unat ((ucast tag :: u64) AND hashasocmark s)))"

lemma tag_in_use_iff:
  "tag_in_use tag l r ts \<longleftrightarrow> (\<exists>a\<in>set ts. \<not> socket_allgone a \<and> my_vtag a = tag \<and> tag_lport a = l \<and> tag_rport a = r)"
  by (induction ts) auto

lemma is_vtag_good_spec:
  assumes "sctp_is_vtag_good now tag l r s = (g, s')" "table_ok s" "tag \<noteq> 0"
  shows "table_ok s' \<and> (g \<longleftrightarrow> \<not> in_use tag l r s \<and> (tag, l, r) \<notin> waiting now s)
    \<and> (\<forall>t. now \<le> t \<longrightarrow> waiting t s' = waiting t s) \<and> sctp_asochash s' = sctp_asochash s \<and> hashasocmark s' = hashasocmark s"
proof (cases "in_use tag l r s")
  case True
  then show ?thesis using assms by (simp add: sctp_is_vtag_good_def in_use_def)
next
  case False
  let ?i = "chain_index tag"
  obtain c h where c: "chain_good now tag l r (vtag_timewait s ! ?i) = (c, h)" by fastforce
  note C = chain_good_spec [OF c assms(3), of ?i]
  have s': "s' = s\<lparr>vtag_timewait := (vtag_timewait s)[?i := c]\<rparr>" "g = h"
    using assms(1) False c by (auto simp: sctp_is_vtag_good_def in_use_def)
  have ok: "tag_chain_ok ?i c" using C assms(2) by (simp add: table_ok_def)
  have "waiting t s' = waiting t s" if "now \<le> t" for t
    unfolding s' using waiting_update [OF assms(2) _ ok, of t "{}"] C that by simp
  then show ?thesis
    using table_ok_update [OF assms(2) _ ok] C False waiting_in_chain [OF assms(2)] by (simp add: s')
qed

section \<open>Adding and deleting\<close>

lemma block_add_spec:
  assumes "block_add now new p b = (b', q)" "v_tag new \<noteq> 0"
  shows "length b' = length b \<and> (p \<longrightarrow> q) \<and> (\<forall>e\<in>set b'. v_tag e \<noteq> 0 \<longrightarrow> e \<in> set b \<or> e = new)
    \<and> (\<forall>t. now \<le> t \<longrightarrow> block_waiting t b' = block_waiting t b \<union> (if q \<and> \<not> p then block_waiting t [new] else {}))"
  using assms(1)
proof (induction b arbitrary: p b' q)
  case (Cons e es)
  consider (free) "v_tag e = 0" "\<not> p" | (old) "v_tag e \<noteq> 0" "expired now e" | (keep) "\<not> (v_tag e = 0 \<and> \<not> p)" "\<not> (v_tag e \<noteq> 0 \<and> expired now e)"
    by blast
  then show ?case
  proof cases
    case free
    obtain es' q' where es: "block_add now new True es = (es', q')" by fastforce
    show ?thesis using Cons.prems Cons.IH [OF es] es free assms(2) by auto
  next
    case old
    obtain es' q' where es: "block_add now new True es = (es', q')" by fastforce
    have b': "b' = (if p then free_entry else new) # es'" "q" "q = q'"
      using Cons.prems Cons.IH [OF es] es old by auto
    then show ?thesis using Cons.IH [OF es] old(2) assms(2) by (cases p) (auto simp: expired_def)
  next
    case keep
    obtain es' q' where es: "block_add now new p es = (es', q')" by fastforce
    have "b' = e # es'" "q = q'" using Cons.prems keep es by auto
    then show ?thesis using Cons.IH [OF es] by auto
  qed
qed auto

lemma chain_add_spec:
  assumes "chain_add now new c = (c', q)" "v_tag new \<noteq> 0" "tag_chain_ok (chain_index (v_tag new)) c"
  shows "tag_chain_ok (chain_index (v_tag new)) c' \<and>
    (\<forall>t. now \<le> t \<longrightarrow> chain_waiting t c' = chain_waiting t c \<union> (if q then block_waiting t [new] else {}))"
  using assms(1,3)
proof (induction c arbitrary: c' q)
  case (Cons b bs)
  obtain b' p where b: "block_add now new False b = (b', p)" by fastforce
  note B = block_add_spec [OF b assms(2)]
  obtain bs' p' where bs: "chain_add now new bs = (bs', p')" by fastforce
  have ok: "tag_chain_ok (chain_index (v_tag new)) bs" using Cons.prems(2) by (simp add: tag_chain_ok_def)
  note IH = Cons.IH [OF bs ok]
  have okb: "tag_chain_ok (chain_index (v_tag new)) [b']" using B Cons.prems(2) by (auto simp: tag_chain_ok_def)
  show ?case
  proof (cases p)
    case True
    then have "c' = b' # bs" "q" using Cons.prems(1) b by auto
    then show ?thesis using B True ok okb by (auto simp: tag_chain_ok_def)
  next
    case False
    then have "c' = b' # bs'" "q = p'" using Cons.prems(1) b bs by auto
    then show ?thesis using B False IH okb by (auto simp: tag_chain_ok_def)
  qed
qed auto


text \<open>A tag finds a place in a chain when some entry is free or has expired.\<close>

definition room :: "int \<Rightarrow> tag_chain \<Rightarrow> bool" where
  "room now c \<longleftrightarrow> (\<exists>b\<in>set c. \<exists>e\<in>set b. v_tag e = 0 \<or> expired now e)"

lemma block_add_placed: "snd (block_add now new p b) \<longleftrightarrow> p \<or> (\<exists>e\<in>set b. v_tag e = 0 \<or> expired now e)"
  by (induction b arbitrary: p) (auto simp: case_prod_beta expired_def)

lemma chain_add_placed: "snd (chain_add now new c) \<longleftrightarrow> room now c"
proof (induction c)
  case (Cons b bs)
  then show ?case
    using block_add_placed [of now new False b] by (auto simp: room_def split: prod.split)
qed (simp add: room_def)

definition tag_room :: "int \<Rightarrow> u32 \<Rightarrow> tag_info \<Rightarrow> bool" where
  "tag_room now tag s \<longleftrightarrow> room now (vtag_timewait s ! chain_index tag)"

text \<open>The last second at which a tag entered at \<open>now\<close> waits: the sum in 32 bits.\<close>

definition wait_until :: "int \<Rightarrow> u32 \<Rightarrow> int" where
  "wait_until now time = (now + uint time) mod 2 ^ 32"

lemma chain_new_block:
  assumes "v_tag new \<noteq> 0" "tag_chain_ok (chain_index (v_tag new)) c"
  shows "tag_chain_ok (chain_index (v_tag new)) ((new # replicate (SCTP_NUMBER_IN_VTAG_BLOCK - 1) free_entry) # c)"
  using assms by (auto simp: tag_chain_ok_def SCTP_NUMBER_IN_VTAG_BLOCK_def)

lemma add_vtag_spec:
  assumes "table_ok s" "tag \<noteq> 0" and s'_def: "s' = sctp_add_vtag_to_timewait alloc now tag time l r s"
  shows "table_ok s' \<and> sctp_asochash s' = sctp_asochash s \<and> hashasocmark s' = hashasocmark s \<and>
    (\<forall>t. now \<le> t \<longrightarrow> waiting t s' = waiting t s \<union>
      (if time \<noteq> 0 \<and> (alloc \<or> tag_room now tag s) \<and> t \<le> wait_until now time then {(tag, l, r)} else {}))"
proof (cases "time = 0")
  case False
  let ?i = "chain_index tag"
  define new where "new = \<lparr>tv_sec_at_expire = word_of_int (now + uint time), v_tag = tag, tw_lport = l, tw_rport = r\<rparr>"
  have new: "v_tag new = tag" "tag_of new = (tag, l, r)" "uint (tv_sec_at_expire new) = wait_until now time"
    by (simp_all add: new_def tag_of_def wait_until_def uint_word_ariths uint_word_of_int mod_simps)
  obtain c q where c: "chain_add now new (vtag_timewait s ! ?i) = (c, q)" by fastforce
  have q: "q = tag_room now tag s"
    using chain_add_placed [of now new "vtag_timewait s ! ?i"] c by (simp add: tag_room_def)
  have ok: "tag_chain_ok ?i (vtag_timewait s ! ?i)" using assms(1) by (simp add: table_ok_def)
  have C: "tag_chain_ok ?i c" "now \<le> t \<Longrightarrow> chain_waiting t c = chain_waiting t (vtag_timewait s ! ?i) \<union> (if q then block_waiting t [new] else {})" for t
    using chain_add_spec [OF c] ok assms(2) new(1) by auto
  define c' where "c' = (if q \<or> \<not> alloc then c else (new # replicate (SCTP_NUMBER_IN_VTAG_BLOCK - 1) free_entry) # c)"
  have len: "?i < length (vtag_timewait s)" using assms(1) by (simp add: table_ok_def)
  have s': "s' = s\<lparr>vtag_timewait := (vtag_timewait s)[?i := c']\<rparr>"
    unfolding s'_def sctp_add_vtag_to_timewait_def Let_def new_def [symmetric] c
    using False len by (simp add: c'_def)
  have ok': "tag_chain_ok ?i c'" using C(1) chain_new_block [of new c] assms(2) new(1) by (simp add: c'_def)
  have "chain_waiting t c' = chain_waiting t (vtag_timewait s ! ?i) \<union>
      (if (alloc \<or> q) \<and> t \<le> wait_until now time then {(tag, l, r)} else {})" if "now \<le> t" for t
    using C(2) [OF that] new assms(2) by (auto simp: c'_def)
  then show ?thesis
    using waiting_update [OF assms(1) _ ok'] table_ok_update [OF assms(1) _ ok'] False
    by (simp add: s' q)
qed (use assms in \<open>simp add: sctp_add_vtag_to_timewait_def\<close>)

text \<open>Deleting frees the first entry with the tag, expired or not; other tags stay.\<close>

lemma block_delete_spec:
  assumes "block_delete tag l r b = (b', g)"
  shows "length b' = length b \<and> (\<forall>e\<in>set b'. v_tag e \<noteq> 0 \<longrightarrow> e \<in> set b) \<and>
    block_waiting t b - {(tag, l, r)} \<subseteq> block_waiting t b' \<and> block_waiting t b' \<subseteq> block_waiting t b"
  using assms
proof (induction b arbitrary: b' g)
  case (Cons e es)
  obtain es' g' where es: "block_delete tag l r es = (es', g')" by fastforce
  show ?case
    using Cons.IH [OF es] Cons.prems es by (cases "same_tag tag l r e") (auto simp: same_tag_iff)
qed auto

lemma chain_delete_spec:
  "(tag_chain_ok i c \<longrightarrow> tag_chain_ok i (chain_delete tag l r c)) \<and>
    chain_waiting t c - {(tag, l, r)} \<subseteq> chain_waiting t (chain_delete tag l r c) \<and>
    chain_waiting t (chain_delete tag l r c) \<subseteq> chain_waiting t c"
proof (induction c)
  case (Cons b bs)
  obtain b' g where b: "block_delete tag l r b = (b', g)" by fastforce
  have ok: "tag_chain_ok i (b # bs) \<longrightarrow> tag_chain_ok i [b'] \<and> tag_chain_ok i bs"
    using block_delete_spec [OF b] by (auto simp: tag_chain_ok_def)
  show ?case
  proof (cases g)
    case True
    then show ?thesis using block_delete_spec [OF b, of t] ok b by (auto simp: tag_chain_ok_def)
  next
    case False
    then show ?thesis using block_delete_spec [OF b, of t] ok b Cons.IH by (auto simp: tag_chain_ok_def)
  qed
qed (simp add: tag_chain_ok_def)

lemma waiting_chain_mono:
  assumes "table_ok s" "table_ok s'" "\<forall>x. chain_index x \<noteq> chain_index tag \<longrightarrow> vtag_timewait s' ! chain_index x = vtag_timewait s ! chain_index x"
    and "chain_waiting t (vtag_timewait s ! chain_index tag) - K \<subseteq> chain_waiting t (vtag_timewait s' ! chain_index tag)"
  shows "waiting t s - K \<subseteq> waiting t s'"
proof clarify
  fix x l r assume "(x, l, r) \<in> waiting t s" "(x, l, r) \<notin> K"
  then show "(x, l, r) \<in> waiting t s'"
    using assms(3,4) waiting_in_chain [OF assms(1)] waiting_in_chain [OF assms(2)]
    by (cases "chain_index x = chain_index tag") auto
qed

lemma delete_spec:
  assumes "table_ok s" and s': "s' = sctp_delete_from_timewait tag l r s"
  shows "table_ok s' \<and> sctp_asochash s' = sctp_asochash s \<and> hashasocmark s' = hashasocmark s \<and>
    waiting t s - {(tag, l, r)} \<subseteq> waiting t s' \<and> waiting t s' \<subseteq> waiting t s"
proof -
  let ?i = "chain_index tag"
  have len: "?i < length (vtag_timewait s)" using assms(1) by (simp add: table_ok_def)
  note D = chain_delete_spec [of ?i "vtag_timewait s ! ?i" tag l r t]
  have ok': "table_ok s'"
    using table_ok_update [OF assms(1), of ?i] D assms(1) by (simp add: s' sctp_delete_from_timewait_def Let_def table_ok_def)
  have at: "vtag_timewait s' ! ?i = chain_delete tag l r (vtag_timewait s ! ?i)"
    and other: "chain_index x \<noteq> ?i \<longrightarrow> vtag_timewait s' ! chain_index x = vtag_timewait s ! chain_index x" for x
    using len by (simp_all add: s' sctp_delete_from_timewait_def Let_def)
  have "waiting t s - {(tag, l, r)} \<subseteq> waiting t s'"
    by (rule waiting_chain_mono [OF assms(1) ok', of tag]) (use other at D in auto)
  moreover have "waiting t s' - {} \<subseteq> waiting t s"
    by (rule waiting_chain_mono [OF ok' assms(1), of tag]) (use other at D in auto)
  ultimately show ?thesis using ok' by (simp add: s' sctp_delete_from_timewait_def Let_def)
qed

text \<open>Tags are also found by a plain search, which does not look at the times.\<close>

lemma is_in_timewait_iff:
  "sctp_is_in_timewait tag l r s \<longleftrightarrow>
     (\<exists>b\<in>set (vtag_timewait s ! chain_index tag). (tag, l, r) \<in> tag_of ` set b)"
  by (auto simp: sctp_is_in_timewait_def list_ex_iff same_tag_iff image_iff) metis+

lemma waiting_is_in_timewait:
  assumes "table_ok s" "(tag, l, r) \<in> waiting t s"
  shows "sctp_is_in_timewait tag l r s"
  using assms waiting_in_chain [OF assms(1)]
  by (auto simp: is_in_timewait_iff chain_waiting_def block_waiting_def)

section \<open>Histories\<close>

text \<open>What the stack does with the table: entering, testing and deleting tags, and changes of the associations.\<close>

datatype tag_op =
    Add_Tag bool int u32 u32 u16 u16
  | Test_Tag int u32 u16 u16
  | Delete_Tag u32 u16 u16
  | Change_Assocs "nat \<Rightarrow> tag_asoc list" u64

fun tag_step :: "tag_op \<Rightarrow> tag_info \<Rightarrow> tag_info" where
  "tag_step (Add_Tag alloc now tag time l r) s = sctp_add_vtag_to_timewait alloc now tag time l r s"
| "tag_step (Test_Tag now tag l r) s = snd (sctp_is_vtag_good now tag l r s)"
| "tag_step (Delete_Tag tag l r) s = sctp_delete_from_timewait tag l r s"
| "tag_step (Change_Assocs h mark) s = s\<lparr>sctp_asochash := h, hashasocmark := mark\<rparr>"

fun op_legal :: "tag_op \<Rightarrow> bool" where
  "op_legal (Add_Tag alloc now tag time l r) \<longleftrightarrow> tag \<noteq> 0"
| "op_legal (Test_Tag now tag l r) \<longleftrightarrow> tag \<noteq> 0"
| "op_legal (Delete_Tag tag l r) \<longleftrightarrow> True"
| "op_legal (Change_Assocs h mark) \<longleftrightarrow> True"

fun op_before :: "int \<Rightarrow> tag_op \<Rightarrow> bool" where
  "op_before t (Add_Tag alloc now tag time l r) \<longleftrightarrow> now \<le> t"
| "op_before t (Test_Tag now tag l r) \<longleftrightarrow> now \<le> t"
| "op_before t (Delete_Tag tag l r) \<longleftrightarrow> True"
| "op_before t (Change_Assocs h mark) \<longleftrightarrow> True"

fun op_deletes :: "u32 \<times> u16 \<times> u16 \<Rightarrow> tag_op \<Rightarrow> bool" where
  "op_deletes k (Delete_Tag tag l r) \<longleftrightarrow> k = (tag, l, r)"
| "op_deletes k op \<longleftrightarrow> False"

text \<open>A store that holds keys until a time: what every step keeps, a history keeps.\<close>

locale holding_store =
  fixes ok :: "'s \<Rightarrow> bool"
    and held :: "int \<Rightarrow> 's \<Rightarrow> 'k set"
    and step :: "'o \<Rightarrow> 's \<Rightarrow> 's"
    and legal :: "'o \<Rightarrow> bool"
    and before :: "int \<Rightarrow> 'o \<Rightarrow> bool"
    and releases :: "'k \<Rightarrow> 'o \<Rightarrow> bool"
  assumes step_ok: "ok s \<Longrightarrow> legal op \<Longrightarrow> ok (step op s)"
    and step_holds: "ok s \<Longrightarrow> legal op \<Longrightarrow> before t op \<Longrightarrow> \<not> releases k op \<Longrightarrow> k \<in> held t s \<Longrightarrow> k \<in> held t (step op s)"
begin

lemma history_ok: "ok s \<Longrightarrow> \<forall>op\<in>set ops. legal op \<Longrightarrow> ok (fold step ops s)"
  by (induction ops arbitrary: s) (auto intro: step_ok)

lemma history_holds:
  "ok s \<Longrightarrow> \<forall>op\<in>set ops. legal op \<and> before t op \<and> \<not> releases k op \<Longrightarrow> k \<in> held t s \<Longrightarrow> k \<in> held t (fold step ops s)"
  by (induction ops arbitrary: s) (auto intro: step_ok step_holds)

end

lemma waiting_assocs [simp]:
  "waiting t (s\<lparr>sctp_asochash := h, hashasocmark := mark\<rparr>) = waiting t s"
  "table_ok (s\<lparr>sctp_asochash := h, hashasocmark := mark\<rparr>) = table_ok s"
  by (simp_all add: waiting_def table_ok_def)

interpretation tags: holding_store table_ok waiting tag_step op_legal op_before op_deletes
proof
  show "table_ok (tag_step op s)" if "table_ok s" "op_legal op" for s op
    using that add_vtag_spec [OF that(1) _ refl] is_vtag_good_spec [OF surjective_pairing that(1)]
      delete_spec [OF that(1) refl]
    by (cases op) auto
  show "k \<in> waiting t (tag_step op s)"
    if "table_ok s" "op_legal op" "op_before t op" "\<not> op_deletes k op" "k \<in> waiting t s" for s op t k
    using that add_vtag_spec [OF that(1) _ refl] is_vtag_good_spec [OF surjective_pairing that(1)]
  proof (cases op)
    case (Delete_Tag tag l r)
    then show ?thesis using that delete_spec [OF that(1) refl, where t = t] by auto
  qed auto
qed

end
