(* ===== verification/Vtag_Choice.thy ===== *)
theory Vtag_Choice
  imports Vtag_Props
begin

text \<open>
  The words of the generator after seeding, the tag that \<^verbatim>\<open>sctp_select_a_tag\<close> chooses, and the main properties of verification tags.
\<close>

section \<open>The words of the generator\<close>

fun draws :: "hmac_stack \<Rightarrow> nat \<Rightarrow> sctp_pcb_rand \<Rightarrow> (u32 list \<times> sctp_pcb_rand) option" where
  "draws stk 0 m = Some ([], m)"
| "draws stk (Suc n) m = do {
     (x, m') \<leftarrow> sctp_select_initial_TSN stk m;
     (xs, m'') \<leftarrow> draws stk n m';
     Some (x # xs, m'')
   }"

text \<open>Digest number \<open>j\<close> is the HMAC of the counter value \<open>j\<close>.\<close>

definition gen_digest :: "bytes \<Rightarrow> nat \<Rightarrow> bytes" where
  "gen_digest rnd j = hmac_spec sha1 rnd (word_bytes (of_nat j))"

definition gen_word :: "bytes \<Rightarrow> nat \<Rightarrow> u32" where
  "gen_word rnd k = the (read_word (gen_digest rnd (1 + (k + 1) div 5)) (4 * (k mod 5)))"

text \<open>The generator after \<open>k\<close> words.\<close>

definition gen_at :: "bytes \<Rightarrow> nat \<Rightarrow> sctp_pcb_rand \<Rightarrow> bool" where
  "gen_at rnd k m \<longleftrightarrow> random_numbers m = rnd \<and> initial_sequence_debug m = 0 \<and> store_at m = of_nat (4 * (k mod 5)) \<and>
     random_counter m = of_nat (2 + k div 5) \<and> random_store m = gen_digest rnd (1 + k div 5)"

lemma gen_digest_length [simp]: "length (gen_digest rnd j) = 20"
  by (simp add: gen_digest_def sha.hmac_length)

lemma fill_store_spec:
  assumes "stack_ok stk" "length (random_numbers m) = 20" "length (random_store m) = 20"
    and "random_counter m = of_nat j"
  shows "sctp_fill_random_store stk m =
    m\<lparr>store_at := 0, random_store := gen_digest (random_numbers m) j, random_counter := of_nat (Suc j)\<rparr>"
proof -
  have "random_numbers m \<noteq> []" using assms(2) by auto
  then have "sctp_hmac stk SCTP_HMAC (Some (random_numbers m)) (Some (word_bytes (random_counter m))) (Some (random_store m)) =
      (20, Some (gen_digest (random_numbers m) j))"
    using sctp_hmac_spec [OF assms(1), of "random_numbers m" "word_bytes (random_counter m)" "random_store m"] assms
    by (simp add: SCTP_HMAC_def gen_digest_def word_bytes_def)
  then show ?thesis by (simp add: sctp_fill_random_store_def Let_def assms(4))
qed

lemma seed_spec:
  assumes "stack_ok stk" "length rnd = 20" "length (random_store m) = 20" "initial_sequence_debug m = 0"
  shows "gen_at rnd 0 (seed_generator stk rnd m)"
  using assms by (simp add: seed_generator_def fill_store_spec [of _ _ 1] gen_at_def)

lemma draw_step:
  assumes "stack_ok stk" "length rnd = 20" "gen_at rnd k m"
  shows "\<exists>m'. sctp_select_initial_TSN stk m = Some (gen_word rnd k, m') \<and> gen_at rnd (Suc k) m'"
proof (cases "k mod 5 = 4")
  case True
  have d: "Suc k mod 5 = 0" "Suc k div 5 = Suc (k div 5)" using True by presburger+
  show ?thesis
    using assms True d fill_store_spec [OF assms(1), of "m\<lparr>store_at := 0\<rparr>" "2 + k div 5"]
    by (simp add: sctp_select_initial_TSN_def gen_at_def gen_word_def read_word_def Let_def SCTP_SIGNATURE_SIZE_def)
next
  case False
  have d: "Suc k mod 5 = Suc (k mod 5)" "Suc k div 5 = k div 5" using False by presburger+
  have "k mod 5 < 4" using False by presburger
  then consider "k mod 5 = 0" | "k mod 5 = 1" | "k mod 5 = 2" | "k mod 5 = 3" by linarith
  then show ?thesis
    using assms d
    by cases (simp_all add: sctp_select_initial_TSN_def gen_at_def gen_word_def read_word_def Let_def SCTP_SIGNATURE_SIZE_def)
qed

lemma draws_gen:
  assumes "stack_ok stk" "length rnd = 20" "gen_at rnd k m"
  shows "\<exists>m'. draws stk n m = Some (map (gen_word rnd) [k..<k + n], m') \<and> gen_at rnd (k + n) m'"
  using assms(3)
proof (induction n arbitrary: k m)
  case (Suc n)
  obtain m1 where m1: "sctp_select_initial_TSN stk m = Some (gen_word rnd k, m1)" "gen_at rnd (Suc k) m1"
    using draw_step [OF assms(1,2) Suc.prems] by blast
  obtain m2 where "draws stk n m1 = Some (map (gen_word rnd) [Suc k..<Suc k + n], m2)" "gen_at rnd (Suc k + n) m2"
    using Suc.IH [OF m1(2)] by blast
  moreover have "[k..<k + Suc n] = k # [Suc k..<Suc k + n]" by (simp add: upt_conv_Cons del: upt_Suc)
  ultimately show ?case using m1(1) by (simp del: upt_Suc)
qed simp

section \<open>The tag that is chosen\<close>

definition usable :: "int \<Rightarrow> u16 \<Rightarrow> u16 \<Rightarrow> bool \<Rightarrow> tag_info \<Rightarrow> u32 \<Rightarrow> bool" where
  "usable now l r check s x \<longleftrightarrow> x \<noteq> 0 \<and> (check \<longrightarrow> \<not> in_use x l r s \<and> (x, l, r) \<notin> waiting now s)"

text \<open>Tests change the table only by freeing entries that have expired.\<close>

definition kept :: "int \<Rightarrow> tag_info \<Rightarrow> tag_info \<Rightarrow> bool" where
  "kept now s s' \<longleftrightarrow> table_ok s' \<and> (\<forall>t. now \<le> t \<longrightarrow> waiting t s' = waiting t s) \<and>
     sctp_asochash s' = sctp_asochash s \<and> hashasocmark s' = hashasocmark s"

lemma kept_trans: "kept now s s' \<Longrightarrow> kept now s' s'' \<Longrightarrow> kept now s s''"
  by (simp add: kept_def)

lemma kept_usable: "kept now s s' \<Longrightarrow> usable now l r check s' x = usable now l r check s x"
  by (simp add: kept_def usable_def in_use_def)

text \<open>One round of the loop.\<close>

lemma select_round:
  assumes "table_ok s" "sctp_select_initial_TSN stk m = Some (x, m1)"
  shows "\<exists>s1. kept now s s1 \<and> sctp_select_a_tag stk now l r check m s =
    (if usable now l r check s x then Some (x, m1, s1) else sctp_select_a_tag stk now l r check m1 s1)"
proof (cases "x = 0 \<or> \<not> check")
  case True
  then show ?thesis
    using assms by (intro exI [of _ s]) (auto simp: sctp_select_a_tag.simps [of _ _ _ _ _ m] usable_def kept_def)
next
  case False
  obtain g s1 where g: "sctp_is_vtag_good now x l r s = (g, s1)" by fastforce
  show ?thesis
    using is_vtag_good_spec [OF g assms(1)] False assms(2) g
    by (intro exI [of _ s1]) (auto simp: sctp_select_a_tag.simps [of _ _ _ _ _ m] usable_def kept_def)
qed

lemma select_first:
  assumes "table_ok s" "draws stk (Suc n) m = Some (xs, m')"
    and "usable now l r check s (xs ! n)" "\<forall>i<n. \<not> usable now l r check s (xs ! i)"
  shows "\<exists>s'. sctp_select_a_tag stk now l r check m s = Some (xs ! n, m', s') \<and> kept now s s'"
  using assms
proof (induction n arbitrary: m s xs)
  case 0
  then obtain x where x: "sctp_select_initial_TSN stk m = Some (x, m')" "xs = [x]"
    by (auto split: Option.bind_splits)
  show ?case using select_round [OF 0(1) x(1), of now l r check] 0(3) x(2) by auto
next
  case (Suc n)
  obtain x m1 ys where x: "sctp_select_initial_TSN stk m = Some (x, m1)" "draws stk (Suc n) m1 = Some (ys, m')" "xs = x # ys"
    using Suc.prems(2) by (auto split: Option.bind_splits simp del: draws.simps(2) simp: draws.simps(2) [of _ "Suc n"])
  have bad: "\<not> usable now l r check s x" using Suc.prems(4) x(3) by fastforce
  obtain s1 where s1: "kept now s s1" "sctp_select_a_tag stk now l r check m s = sctp_select_a_tag stk now l r check m1 s1"
    using select_round [OF Suc.prems(1) x(1), of now l r check] bad by auto
  have "\<exists>s'. sctp_select_a_tag stk now l r check m1 s1 = Some (ys ! n, m', s') \<and> kept now s1 s'"
  proof (rule Suc.IH [OF _ x(2)])
    show "table_ok s1" using s1(1) by (simp add: kept_def)
    show "usable now l r check s1 (ys ! n)" using Suc.prems(3) x(3) kept_usable [OF s1(1)] by simp
    show "\<forall>i<n. \<not> usable now l r check s1 (ys ! i)" using Suc.prems(4) x(3) kept_usable [OF s1(1)] by fastforce
  qed
  then show ?case using s1 x(3) kept_trans by auto
qed

lemma select_sound:
  assumes "sctp_select_a_tag stk now l r check m s = Some (x, m', s')" "table_ok s"
  shows "usable now l r check s x \<and> kept now s s'"
proof -
  define P where "P = (\<lambda>(stk :: hmac_stack) now l r check (m :: sctp_pcb_rand) s y.
    table_ok s \<longrightarrow> usable now l r check s (fst y) \<and> kept now s (snd (snd y :: sctp_pcb_rand \<times> tag_info)))"
  have "P stk now l r check m s (x, m', s')"
  proof (rule sctp_select_a_tag.raw_induct [where P = P, OF _ assms(1)])
    fix f stk now l r check m s y
    assume IH: "\<And>stk now l r check m s y. f stk now l r check m s = Some y \<Longrightarrow> P stk now l r check m s y"
      and eq: "Option.bind (sctp_select_initial_TSN stk m) (\<lambda>(x, m'). if x = 0 then f stk now l r check m' s
        else if \<not> check then Some (x, m', s)
        else case sctp_is_vtag_good now x l r s of (good, s') \<Rightarrow>
               if good then Some (x, m', s') else f stk now l r check m' s') = Some y"
    obtain x m1 where x: "sctp_select_initial_TSN stk m = Some (x, m1)"
      using eq by (auto split: Option.bind_splits)
    obtain g s1 where g: "sctp_is_vtag_good now x l r s = (g, s1)" by fastforce
    show "P stk now l r check m s y"
    proof (cases "x = 0 \<or> \<not> check")
      case True
      then show ?thesis using IH [of stk now l r check m1 s y] eq x
        by (auto simp: P_def usable_def kept_def split: if_splits)
    next
      case False
      have k: "kept now s s1" "g \<longleftrightarrow> usable now l r check s x" if "table_ok s"
        using is_vtag_good_spec [OF g that] False by (auto simp: kept_def usable_def)
      show ?thesis
        using IH [of stk now l r check m1 s1 y] eq x False g k kept_trans [of now s s1] kept_usable [of now s s1]
        by (auto simp: P_def kept_def split: if_splits)
    qed
  qed
  then show ?thesis using assms(2) by (simp add: P_def)
qed

section \<open>The properties\<close>

definition no_tags :: tag_info where
  "no_tags = \<lparr>vtag_timewait = replicate SCTP_STACK_VTAG_HASH_SIZE [], sctp_asochash = (\<lambda>_. []), hashasocmark = 1023\<rparr>"

lemma no_tags_ok: "table_ok no_tags"
  by (simp add: table_ok_def no_tags_def tag_chain_ok_def)

lemma no_tags_waiting: "waiting t no_tags = {}"
  by (simp add: waiting_def no_tags_def)

text \<open>C32. The table of tags in time wait implements a set of tags with expiry times. Testing a tag answers whether no association uses it and
it does not wait; it changes no waiting tag. Entering a tag adds it until the second \<open>now + time\<close> (in 32 bits) if an entry is free, has expired
or can be allocated, and otherwise changes no waiting tag. Deleting a tag keeps all others and adds none. A waiting tag is found by the
search. Every operation keeps each tag in the chain of its hash value and each block at 15 entries.\<close>

theorem timewait_is_set:
  assumes "table_ok s" "tag \<noteq> 0" "now \<le> t"
  shows "(\<forall>g s'. sctp_is_vtag_good now tag l r s = (g, s') \<longrightarrow>
      table_ok s' \<and> (g \<longleftrightarrow> \<not> in_use tag l r s \<and> (tag, l, r) \<notin> waiting now s) \<and> waiting t s' = waiting t s)
    \<and> (\<forall>s'. sctp_add_vtag_to_timewait alloc now tag time l r s = s' \<longrightarrow>
      table_ok s' \<and> waiting t s' = waiting t s \<union>
        (if time \<noteq> 0 \<and> (alloc \<or> tag_room now tag s) \<and> t \<le> wait_until now time then {(tag, l, r)} else {}))
    \<and> (\<forall>s'. sctp_delete_from_timewait tag l r s = s' \<longrightarrow>
      table_ok s' \<and> waiting t s - {(tag, l, r)} \<subseteq> waiting t s' \<and> waiting t s' \<subseteq> waiting t s)
    \<and> ((tag, l, r) \<in> waiting t s \<longrightarrow> sctp_is_in_timewait tag l r s)"
  using is_vtag_good_spec [OF _ assms(1,2), of now l r] add_vtag_spec [OF assms(1,2) refl, of alloc now time l r]
    delete_spec [OF assms(1) refl, where t = t] waiting_is_in_timewait [OF assms(1), of tag l r t] assms(3)
  by simp

definition tags_77 :: tag_info where
  "tags_77 = sctp_add_vtag_to_timewait True 100 77 60 5000 5001 no_tags"

lemma tags_77_ok: "table_ok tags_77" "160 \<le> t \<Longrightarrow> waiting t tags_77 = (if t \<le> 160 then {(77, 5000, 5001)} else {})"
  using add_vtag_spec [OF no_tags_ok, of 77 tags_77 True 100 60 5000 5001] no_tags_waiting
  by (simp_all add: tags_77_def wait_until_def)

theorem timewait_is_set_witness:
  "table_ok no_tags \<and> waiting 160 tags_77 = {(77, 5000, 5001)} \<and> waiting 161 tags_77 = {}"
  using timewait_is_set [OF no_tags_ok, of 77 100 160 5000 5001 True 60]
    timewait_is_set [OF no_tags_ok, of 77 100 161 5000 5001 True 60] no_tags_ok no_tags_waiting
  by (simp add: tags_77_def wait_until_def)

text \<open>C31. A tag that enters time wait is not chosen again for the same ports while it waits: whatever tags are entered, tested and deleted in
between (but for deleting this one) and however the associations change, up to the second \<open>now + time\<close> the test refuses the tag
and choosing a tag returns a different one, which is not 0, not used by an association and not waiting either.\<close>

theorem tag_not_reused:
  assumes "table_ok s" "tag \<noteq> 0" "time \<noteq> 0" "alloc \<or> tag_room now tag s"
    and "0 \<le> now" "now + uint time < 2 ^ 32" "now \<le> t" "t \<le> now + uint time"
    and "\<forall>op\<in>set ops. op_legal op \<and> op_before t op \<and> \<not> op_deletes (tag, l, r) op"
    and s1: "s1 = fold tag_step ops (sctp_add_vtag_to_timewait alloc now tag time l r s)"
  shows "\<not> fst (sctp_is_vtag_good t tag l r s1) \<and>
    (\<forall>stk m x m' s2. sctp_select_a_tag stk t l r True m s1 = Some (x, m', s2) \<longrightarrow>
       x \<noteq> tag \<and> x \<noteq> 0 \<and> \<not> in_use x l r s1 \<and> (x, l, r) \<notin> waiting t s1)"
proof -
  let ?s = "sctp_add_vtag_to_timewait alloc now tag time l r s"
  have until: "wait_until now time = now + uint time" using assms(5,6) by (simp add: wait_until_def)
  have "table_ok ?s" "(tag, l, r) \<in> waiting t ?s"
    using add_vtag_spec [OF assms(1,2) refl, of alloc now time l r] assms(3,4,7,8) until by auto
  then have "table_ok s1" "(tag, l, r) \<in> waiting t s1"
    using tags.history_ok tags.history_holds assms(9) s1 by simp_all
  then show ?thesis
    using is_vtag_good_spec [OF surjective_pairing _ assms(2)] select_sound by (auto simp: usable_def)
qed

theorem tag_not_reused_witness:
  "\<not> fst (sctp_is_vtag_good 160 77 5000 5001
      (fold tag_step [Test_Tag 120 5 1 2, Add_Tag False 130 109 60 5000 5001, Delete_Tag 109 5000 5001] tags_77))"
  using tag_not_reused [OF no_tags_ok, of 77 60 True 100 160
      "[Test_Tag 120 5 1 2, Add_Tag False 130 109 60 5000 5001, Delete_Tag 109 5000 5001]" 5000 5001 _, OF _ _ _ _ _ _ _ _ refl]
  by (simp add: tags_77_def)

text \<open>C34. After seeding, word \<open>k\<close> of the generator is word \<open>k mod 5\<close> of the HMAC-SHA-1 of the counter value \<open>1 + (k + 1) div 5\<close> under the
random numbers of the endpoint, whatever the memory held before; no read leaves the store, and until the counter wraps
no word of a digest is handed out twice.\<close>

theorem generator_stream:
  assumes "stack_ok stk" "length rnd = 20" "length (random_store m) = 20" "initial_sequence_debug m = 0"
  shows "(\<exists>m'. draws stk n (seed_generator stk rnd m) = Some (map (gen_word rnd) [0..<n], m') \<and> gen_at rnd n m') \<and>
    inj_on (\<lambda>k. (word_of_nat (1 + (k + 1) div 5) :: u32, k mod 5)) {..<5 * (2 ^ 32 - 2)}"
proof
  show "\<exists>m'. draws stk n (seed_generator stk rnd m) = Some (map (gen_word rnd) [0..<n], m') \<and> gen_at rnd n m'"
    using draws_gen [OF assms(1,2) seed_spec [OF assms], of n] by simp
  show "inj_on (\<lambda>k. (word_of_nat (1 + (k + 1) div 5) :: u32, k mod 5)) {..<5 * (2 ^ 32 - 2)}"
  proof (rule inj_onI)
    fix j k :: nat
    assume jk: "j \<in> {..<5 * (2 ^ 32 - 2)}" "k \<in> {..<5 * (2 ^ 32 - 2)}"
      "(word_of_nat (1 + (j + 1) div 5) :: u32, j mod 5) = (word_of_nat (1 + (k + 1) div 5), k mod 5)"
    have u: "unat (word_of_nat n :: u32) = n" if "n < 2 ^ 32" for n using that by (simp add: unat_of_nat)
    have "1 + (j + 1) div 5 < 2 ^ 32" "1 + (k + 1) div 5 < 2 ^ 32" using jk(1,2) by simp_all
    then have "1 + (j + 1) div 5 = 1 + (k + 1) div 5" using u jk(3) by (metis prod.inject)
    then have "j div 5 = k div 5" using jk(3) by (simp add: div_Suc mod_Suc split: if_splits)
    then show "j = k" using jk(3) by (metis div_mult_mod_eq prod.inject)
  qed
qed

definition rand_of :: "u32 \<Rightarrow> sctp_pcb_rand" where
  "rand_of d = \<lparr>random_counter = 9, random_numbers = replicate 20 9, random_store = replicate 20 9, initial_sequence_debug = d, store_at = 9\<rparr>"

theorem generator_stream_witness:
  "\<exists>m'. draws demo_stack 2 (seed_generator demo_stack (replicate 20 7) (rand_of 0)) =
    Some ([gen_word (replicate 20 7) 0, gen_word (replicate 20 7) 1], m')"
  using generator_stream [OF demo_stack_ok, of "replicate 20 7" "rand_of 0" 2] by (auto simp: rand_of_def numeral_2_eq_2)

text \<open>C33. Choosing a tag ends at the first word of the generator that is usable: not 0 and, when the table is asked, neither used by an association
nor waiting. It returns that word, has drawn exactly the words up to it, and changes no waiting tag.\<close>

theorem first_usable_tag:
  assumes "table_ok s" "draws stk (Suc n) m = Some (xs, m')"
    and "usable now l r check s (xs ! n)" "\<forall>i<n. \<not> usable now l r check s (xs ! i)"
  shows "\<exists>s'. sctp_select_a_tag stk now l r check m s = Some (xs ! n, m', s') \<and> kept now s s'"
  using assms by (rule select_first)

theorem first_usable_tag_witness:
  "\<exists>s'. sctp_select_a_tag demo_stack 160 5000 5001 True (rand_of 77) tags_77 = Some (78, rand_of 79, s') \<and> kept 160 tags_77 s'"
proof -
  have "draws demo_stack (Suc 1) (rand_of 77) = Some ([77, 78], rand_of 79)"
    by (simp add: sctp_select_initial_TSN_def rand_of_def)
  moreover have "in_use x l r tags_77 = False" for x l r
    using add_vtag_spec [OF no_tags_ok, of 77 tags_77 True 100 60 5000 5001] by (simp add: in_use_def tags_77_def no_tags_def)
  ultimately show ?thesis
    using first_usable_tag [OF tags_77_ok(1), of demo_stack 1 "rand_of 77" "[77, 78]" "rand_of 79" 160 5000 5001 True]
    by (simp add: usable_def tags_77_ok(2))
qed

end
