(* ===== verification/Paths_Props.thy ===== *)
theory Paths_Props
  imports Paths Rto_Props Vtag_Choice
begin

text \<open>
  A destination that stays silent is declared failed and its association is aborted at exactly the configured number of errors; which destination is
  chosen for a retransmission; what the answer to a heartbeat repairs, and for which destination.
\<close>

section \<open>Flags\<close>

lemmas addr_flags = SCTP_ADDR_REACHABLE_def SCTP_ADDR_NOHB_def SCTP_ADDR_UNCONFIRMED_def SCTP_ADDR_REQ_PRIMARY_def SCTP_ADDR_PF_def

lemma has_clear: "has f (clear_flag g n) \<longleftrightarrow> dest_state n AND (NOT g AND f) \<noteq> 0"
  by (simp add: has_def clear_flag_def and.assoc)

lemma has_set: "has f (set_flag g n) \<longleftrightarrow> has f n \<or> g AND f \<noteq> 0"
proof -
  have "(x OR g) AND f = 0 \<longleftrightarrow> x AND f = 0 \<and> g AND f = 0" for x :: u16
    by (simp add: bit.conj_disj_distrib2 or_eq_0_iff)
  then show ?thesis by (auto simp: has_def set_flag_def)
qed

lemma has_simps [simp]:
  "has SCTP_ADDR_REACHABLE (clear_flag SCTP_ADDR_REACHABLE n) = False"
  "has SCTP_ADDR_PF (clear_flag SCTP_ADDR_PF n) = False"
  "has SCTP_ADDR_UNCONFIRMED (clear_flag SCTP_ADDR_UNCONFIRMED n) = False"
  "has SCTP_ADDR_REACHABLE (clear_flag SCTP_ADDR_PF n) = has SCTP_ADDR_REACHABLE n"
  "has SCTP_ADDR_REACHABLE (clear_flag SCTP_ADDR_REQ_PRIMARY n) = has SCTP_ADDR_REACHABLE n"
  "has SCTP_ADDR_REACHABLE (clear_flag SCTP_ADDR_UNCONFIRMED n) = has SCTP_ADDR_REACHABLE n"
  "has SCTP_ADDR_UNCONFIRMED (clear_flag SCTP_ADDR_PF n) = has SCTP_ADDR_UNCONFIRMED n"
  "has SCTP_ADDR_UNCONFIRMED (clear_flag SCTP_ADDR_REQ_PRIMARY n) = has SCTP_ADDR_UNCONFIRMED n"
  "has SCTP_ADDR_UNCONFIRMED (clear_flag SCTP_ADDR_REACHABLE n) = has SCTP_ADDR_UNCONFIRMED n"
  "has SCTP_ADDR_PF (clear_flag SCTP_ADDR_UNCONFIRMED n) = has SCTP_ADDR_PF n"
  "has SCTP_ADDR_PF (clear_flag SCTP_ADDR_REQ_PRIMARY n) = has SCTP_ADDR_PF n"
  "has SCTP_ADDR_PF (clear_flag SCTP_ADDR_REACHABLE n) = has SCTP_ADDR_PF n"
  unfolding has_clear by (simp_all add: has_def addr_flags)

lemma has_set_simps [simp]:
  "has SCTP_ADDR_PF (set_flag SCTP_ADDR_PF n) = True"
  "has SCTP_ADDR_REACHABLE (set_flag SCTP_ADDR_REACHABLE n) = True"
  "has SCTP_ADDR_REACHABLE (set_flag SCTP_ADDR_PF n) = has SCTP_ADDR_REACHABLE n"
  "has SCTP_ADDR_UNCONFIRMED (set_flag SCTP_ADDR_PF n) = has SCTP_ADDR_UNCONFIRMED n"
  "has SCTP_ADDR_UNCONFIRMED (set_flag SCTP_ADDR_REACHABLE n) = has SCTP_ADDR_UNCONFIRMED n"
  "has SCTP_ADDR_PF (set_flag SCTP_ADDR_REACHABLE n) = has SCTP_ADDR_PF n"
  by (simp_all add: has_set addr_flags)

lemma has_more [simp]:
  "has f (n\<lparr>error_count := e\<rparr>) = has f n" "has f (n\<lparr>last_active := t\<rparr>) = has f n" "has f (n\<lparr>p_cc := m\<rparr>) = has f n"
  "has f (n\<lparr>hb_responded := h\<rparr>) = has f n" "has f (n\<lparr>s_addr := x\<rparr>) = has f n" "has f (n\<lparr>src_addr_selected := x\<rparr>) = has f n"
  "has f (n\<lparr>lastsv := v\<rparr>) = has f n" "has f (n\<lparr>RTO_measured := b\<rparr>) = has f n"
  by (simp_all add: has_def)

lemma flag_fields [simp]:
  "error_count (clear_flag f n) = error_count n" "failure_threshold (clear_flag f n) = failure_threshold n"
  "pf_threshold (clear_flag f n) = pf_threshold n" "p_cc (clear_flag f n) = p_cc n"
  "error_count (set_flag f n) = error_count n" "failure_threshold (set_flag f n) = failure_threshold n"
  "pf_threshold (set_flag f n) = pf_threshold n" "p_cc (set_flag f n) = p_cc n"
  by (simp_all add: clear_flag_def set_flag_def)

lemma on_dest_simps [simp]:
  "dest (on_dest i f a) = (dest a)(i := f (dest a i))" "order (on_dest i f a) = order a" "a_cc (on_dest i f a) = a_cc a"
  "overall_error_count (on_dest i f a) = overall_error_count a" "path_calls (on_dest i f a) = path_calls a"
  "max_send_times (on_dest i f a) = max_send_times a"
  by (simp_all add: on_dest_def)

lemma called_simps [simp]:
  "dest (called cs a) = dest a" "order (called cs a) = order a" "a_cc (called cs a) = a_cc a"
  "overall_error_count (called cs a) = overall_error_count a" "path_calls (called cs a) = path_calls a @ cs"
  "max_send_times (called cs a) = max_send_times a"
  by (simp_all add: called_def)

section \<open>A silent destination\<close>

primrec silent :: "u32 \<Rightarrow> nat \<Rightarrow> u16 \<Rightarrow> nat \<Rightarrow> assoc \<Rightarrow> bool \<times> assoc" where
  "silent ticks i threshold 0 a = (False, a)"
| "silent ticks i threshold (Suc k) a =
     (case silent ticks i threshold k a of (aborted, a') \<Rightarrow>
        if aborted then (True, a') else sctp_threshold_management ticks (Some i) threshold a')"

text \<open>The destination after \<open>k\<close> errors in a row.\<close>

definition failing :: "nat \<Rightarrow> nat \<Rightarrow> assoc \<Rightarrow> assoc \<Rightarrow> bool" where
  "failing i k a a' \<longleftrightarrow>
     (let n = dest a i; n' = dest a' i; F = unat (failure_threshold n); P = unat (pf_threshold n)
      in overall_error_count a' = of_nat k \<and> unat (error_count n') = k \<and>
         failure_threshold n' = failure_threshold n \<and> pf_threshold n' = pf_threshold n \<and> \<not> has SCTP_ADDR_UNCONFIRMED n' \<and>
         (has SCTP_ADDR_REACHABLE n' \<longleftrightarrow> k \<le> F) \<and> (has SCTP_ADDR_PF n' \<longleftrightarrow> P < F \<and> P < k \<and> k \<le> F) \<and>
         count_list (path_calls a') (Notify_interface_down i) = count_list (path_calls a) (Notify_interface_down i) + (if F < k then 1 else 0) \<and>
         (\<forall>j. j \<noteq> i \<longrightarrow> dest a' j = dest a j))"

lemma threshold_net_failing:
  assumes "failing i k a a'" "Suc k < 2 ^ 16" and a1_def: "a1 = threshold_net ticks i a'"
  shows "failing i (Suc k) a (a1\<lparr>overall_error_count := overall_error_count a1 + 1\<rparr>) \<and> \<not> has SCTP_ADDR_UNCONFIRMED (dest a1 i) \<and>
    overall_error_count a1 = of_nat k"
proof -
  let ?n = "dest a i" and ?n' = "dest a' i"
  have u: "unat (error_count ?n' + 1) = Suc k"
    using assms(1,2) by (simp add: failing_def Let_def unat_word_ariths)
  have "failure_threshold ?n < error_count ?n' + 1 \<longleftrightarrow> unat (failure_threshold ?n) < Suc k"
    "pf_threshold ?n < error_count ?n' + 1 \<longleftrightarrow> unat (pf_threshold ?n) < Suc k"
    "pf_threshold ?n < failure_threshold ?n \<longleftrightarrow> unat (pf_threshold ?n) < unat (failure_threshold ?n)"
    using assms(1) u by (auto simp: word_less_nat_alt failing_def Let_def)
  note cmp = this
  note f = assms(1) [unfolded failing_def Let_def]
  let ?F = "unat (failure_threshold ?n)" and ?P = "unat (pf_threshold ?n)"
  let ?a0 = "on_dest i (\<lambda>n. n\<lparr>error_count := error_count n + 1\<rparr>) a'"
  consider (down) "?F < Suc k" "k \<le> ?F" | (gone) "?F < Suc k" "\<not> k \<le> ?F"
    | (pf) "\<not> ?F < Suc k" "?P < ?F" "?P < Suc k" "\<not> ?P < k" | (pf_again) "\<not> ?F < Suc k" "?P < ?F" "?P < k"
    | (well) "\<not> ?F < Suc k" "\<not> (?P < ?F \<and> ?P < Suc k)" by linarith
  then show ?thesis
  proof cases
    case down
    then have "a1 = called [Notify_interface_down i]
        (on_dest i (clear_flag SCTP_ADDR_PF \<circ> clear_flag SCTP_ADDR_REQ_PRIMARY \<circ> clear_flag SCTP_ADDR_REACHABLE) ?a0)"
      using f by (simp add: a1_def threshold_net_def Let_def cmp)
    then show ?thesis using f u down by (simp add: failing_def Let_def)
  next
    case gone
    then have "a1 = ?a0" using f by (simp add: a1_def threshold_net_def Let_def cmp)
    then show ?thesis using f u gone by (simp add: failing_def Let_def)
  next
    case pf
    then have "a1 = called [Send_hb i, Stop_heartbeat i, Start_heartbeat i]
        (on_dest i (\<lambda>n. (set_flag SCTP_ADDR_PF n)\<lparr>last_active := ticks\<rparr>) ?a0)"
      using f by (simp add: a1_def threshold_net_def Let_def cmp)
    then show ?thesis using f u pf by (simp add: failing_def Let_def)
  next
    case pf_again
    then have "a1 = ?a0" using f by (simp add: a1_def threshold_net_def Let_def cmp)
    then show ?thesis using f u pf_again by (simp add: failing_def Let_def)
  next
    case well
    then have "a1 = ?a0" using f by (auto simp: a1_def threshold_net_def Let_def cmp)
    then show ?thesis using f u well by (auto simp: failing_def Let_def)
  qed
qed

lemma unat_threshold: "unat (ucast (x :: u16) :: u32) = unat x"
  using unsigned_less [of x, where 'a = nat] by (simp add: unsigned_ucast_eq take_bit_nat_eq_self)

lemma unat_count: "k < 2 ^ 16 \<Longrightarrow> unat (of_nat k :: u32) = k"
  by (simp add: unat_of_nat)

lemma silent_failing:
  assumes "failing i 0 a a" "k \<le> unat threshold"
  shows "\<exists>a'. silent ticks i threshold k a = (False, a') \<and> failing i k a a'"
  using assms(2)
proof (induction k)
  case 0
  then show ?case using assms(1) by simp
next
  case (Suc k)
  then obtain a' where a': "silent ticks i threshold k a = (False, a')" "failing i k a a'" by auto
  have small: "Suc k < 2 ^ 16" using Suc.prems unsigned_less [of threshold, where 'a = nat] by simp
  note T = threshold_net_failing [OF a'(2) small refl, of ticks]
  have "of_nat k + 1 = (of_nat (Suc k) :: u32)" by simp
  moreover have "\<not> (ucast threshold :: u32) < of_nat (Suc k)"
    using Suc.prems unat_count [OF small] by (simp add: word_less_nat_alt unat_threshold del: of_nat_Suc)
  ultimately show ?case using a'(1) T by (auto simp: sctp_threshold_management_def Let_def add.commute)
qed

text \<open>C37. A confirmed, reachable destination that answers nothing: after \<open>k\<close> errors its error count and that of the association are \<open>k\<close>; it is
potentially failed exactly while the count is above the one threshold and not above the other, unreachable exactly from the moment the count is
above its failure threshold, which the application is told once; no other destination changes. The association survives as many errors as its
threshold allows and is aborted by the next one.\<close>

theorem silent_destination_fails:
  assumes "\<not> has SCTP_ADDR_UNCONFIRMED (dest a i)" "has SCTP_ADDR_REACHABLE (dest a i)" "\<not> has SCTP_ADDR_PF (dest a i)"
    and "error_count (dest a i) = 0" "overall_error_count a = 0" "threshold < 65535"
    and F: "F = unat (failure_threshold (dest a i))" and P: "P = unat (pf_threshold (dest a i))"
  shows "(\<forall>k\<le>unat threshold. \<exists>a'. silent ticks i threshold k a = (False, a') \<and>
      overall_error_count a' = of_nat k \<and> unat (error_count (dest a' i)) = k \<and>
      (has SCTP_ADDR_REACHABLE (dest a' i) \<longleftrightarrow> k \<le> F) \<and> (has SCTP_ADDR_PF (dest a' i) \<longleftrightarrow> P < F \<and> P < k \<and> k \<le> F) \<and>
      count_list (path_calls a') (Notify_interface_down i) = count_list (path_calls a) (Notify_interface_down i) + (if F < k then 1 else 0) \<and>
      (\<forall>j. j \<noteq> i \<longrightarrow> dest a' j = dest a j)) \<and>
    (\<exists>a'. silent ticks i threshold (Suc (unat threshold)) a = (True, a') \<and> last (path_calls a') = Abort_association)"
proof -
  have start: "failing i 0 a a" using assms(1-5) by (simp add: failing_def Let_def)
  have "\<exists>a'. silent ticks i threshold k a = (False, a') \<and> failing i k a a'" if "k \<le> unat threshold" for k
    by (rule silent_failing [OF start that])
  note up = this
  obtain a' where a': "silent ticks i threshold (unat threshold) a = (False, a')" "failing i (unat threshold) a a'"
    using up [of "unat threshold"] by auto
  have small: "Suc (unat threshold) < 2 ^ 16" using assms(6) by (simp add: word_less_nat_alt)
  note T = threshold_net_failing [OF a'(2) small refl, of ticks]
  have "(ucast threshold :: u32) < of_nat (Suc (unat threshold))"
    using unat_count [OF small] by (simp add: word_less_nat_alt unat_threshold del: of_nat_Suc)
  then have "\<exists>a2. silent ticks i threshold (Suc (unat threshold)) a = (True, a2) \<and> last (path_calls a2) = Abort_association"
    using a'(1) T by (simp add: sctp_threshold_management_def Let_def add.commute)
  then show ?thesis using up by (fastforce simp: failing_def Let_def F P)
qed

lemma demo_flags: "dest demo_assoc i = demo_path\<lparr>l_addr := i\<rparr>" "dest_state demo_path = 1" "error_count demo_path = 0"
    "unat (failure_threshold demo_path) = 5" "unat (pf_threshold demo_path) = 2" "overall_error_count demo_assoc = 0" "order demo_assoc = [0, 1]"
  by (simp_all add: demo_assoc_def demo_path_def)

theorem silent_destination_fails_witness:
  "(\<exists>a'. silent 0 0 10 4 demo_assoc = (False, a') \<and> has SCTP_ADDR_PF (dest a' 0) \<and> has SCTP_ADDR_REACHABLE (dest a' 0)) \<and>
   (\<exists>a'. silent 0 0 10 6 demo_assoc = (False, a') \<and> \<not> has SCTP_ADDR_REACHABLE (dest a' 0)) \<and> fst (silent 0 0 10 11 demo_assoc)"
proof -
  have h: "\<not> has SCTP_ADDR_UNCONFIRMED (dest demo_assoc 0)" "has SCTP_ADDR_REACHABLE (dest demo_assoc 0)" "\<not> has SCTP_ADDR_PF (dest demo_assoc 0)"
      "error_count (dest demo_assoc 0) = 0" "(10 :: u16) < 65535" "5 = unat (failure_threshold (dest demo_assoc 0))"
      "2 = unat (pf_threshold (dest demo_assoc 0))"
    by (simp_all add: has_def demo_flags addr_flags)
  have "unat (10 :: u16) = 10" "Suc 10 = 11" by simp_all
  note n = this and S = silent_destination_fails [OF h(1-4) demo_flags(6) h(5-7), of 0]
  from S [THEN conjunct1, rule_format, of 4] S [THEN conjunct1, rule_format, of 6] S [THEN conjunct2]
  show ?thesis unfolding n by fastforce
qed

section \<open>The answer to a heartbeat\<close>

lemma more_on_dest [simp]:
  "primary_destination (on_dest i f a) = primary_destination a" "alternate (on_dest i f a) = alternate a"
  "minrto (on_dest i f a) = minrto a" "maxrto (on_dest i f a) = maxrto a" "initial_rto (on_dest i f a) = initial_rto a"
  by (simp_all add: on_dest_def)

lemma more_called [simp]:
  "primary_destination (called cs a) = primary_destination a" "alternate (called cs a) = alternate a"
  "minrto (called cs a) = minrto a" "maxrto (called cs a) = maxrto a" "initial_rto (called cs a) = initial_rto a"
  by (simp_all add: called_def)

lemma more_satellite [simp]:
  "primary_destination (note_satellite r f a) = primary_destination a" "alternate (note_satellite r f a) = alternate a"
  by (simp_all add: note_satellite_def)

text \<open>What a measurement that does not come from data leaves alone.\<close>

lemma update_rto_keeps:
  assumes "update_rto cc now told False r a = Some a'"
  shows "primary_destination a' = primary_destination a \<and> alternate a' = alternate a \<and> (\<forall>j. j \<noteq> r \<longrightarrow> dest a' j = dest a j) \<and>
    dest_state (dest a' r) = dest_state (dest a r) \<and> error_count (dest a' r) = error_count (dest a r) \<and>
    hb_responded (dest a' r) = hb_responded (dest a r) \<and> cwnd (p_cc (dest a' r)) = cwnd (p_cc (dest a r)) \<and>
    mtu (p_cc (dest a' r)) = mtu (p_cc (dest a r))"
proof -
  have n: "note_rtt cc False v n = n\<lparr>p_cc := (p_cc n)\<lparr>rtt := v\<rparr>\<rparr>" for v n
    by (simp add: note_rtt_def Let_def split: option.split)
  show ?thesis
    using assms unfolding update_rto_def sctp_calculate_rto_def Let_def n
    by (auto split: Option.bind_splits if_splits)
qed

lemma rto_ok_cong:
  assumes "rto_ok R a" "minrto a' = minrto a" "maxrto a' = maxrto a" "initial_rto a' = initial_rto a"
    "\<forall>j. p_cc (dest a' j) = p_cc (dest a j) \<and> lastsv (dest a' j) = lastsv (dest a j)"
  shows "rto_ok R a'"
  using assms by (simp add: rto_ok_def rto_conf_def path_rto_ok_def)

lemma lastsv_flags [simp]: "lastsv (clear_flag f n) = lastsv n" "lastsv (set_flag f n) = lastsv n"
    "hb_responded (clear_flag f n) = hb_responded n" "hb_responded (set_flag f n) = hb_responded n"
  by (simp_all add: clear_flag_def set_flag_def)

text \<open>The destination of the heartbeat before the measurement: confirmed when the random numbers are right, without errors.\<close>

definition hb_matches :: "hb_info \<Rightarrow> path \<Rightarrow> bool" where
  "hb_matches hb n \<longleftrightarrow> heartbeat_random1 n = random_value1 hb \<and> heartbeat_random2 n = random_value2 hb"

lemma confirm_spec:
  assumes "confirm r a = (q, a')"
  shows "(\<forall>j. j \<noteq> r \<longrightarrow> dest a' j = dest a j) \<and> p_cc (dest a' r) = p_cc (dest a r) \<and> lastsv (dest a' r) = lastsv (dest a r) \<and>
    \<not> has SCTP_ADDR_UNCONFIRMED (dest a' r) \<and> has SCTP_ADDR_REACHABLE (dest a' r) = has SCTP_ADDR_REACHABLE (dest a r) \<and>
    has SCTP_ADDR_PF (dest a' r) = has SCTP_ADDR_PF (dest a r) \<and> minrto a' = minrto a \<and> maxrto a' = maxrto a \<and>
    initial_rto a' = initial_rto a"
  using assms by (auto simp: confirm_def Let_def split: if_splits)

definition accept_answer :: "hb_info \<Rightarrow> nat \<Rightarrow> assoc \<Rightarrow> bool \<times> assoc" where
  "accept_answer hb r a =
     (let (q, a1) = (if has SCTP_ADDR_UNCONFIRMED (dest a r) \<and> hb_matches hb (dest a r) then confirm r a else (False, a))
      in (q, on_dest r (\<lambda>n. n\<lparr>error_count := 0, hb_responded := True\<rparr>) a1))"

lemma accept_spec:
  assumes "accept_answer hb r a = (q, a')"
  shows "(\<forall>j. j \<noteq> r \<longrightarrow> dest a' j = dest a j) \<and> p_cc (dest a' r) = p_cc (dest a r) \<and> lastsv (dest a' r) = lastsv (dest a r) \<and>
    (has SCTP_ADDR_UNCONFIRMED (dest a' r) \<longleftrightarrow> has SCTP_ADDR_UNCONFIRMED (dest a r) \<and> \<not> hb_matches hb (dest a r)) \<and>
    has SCTP_ADDR_PF (dest a' r) = has SCTP_ADDR_PF (dest a r) \<and> error_count (dest a' r) = 0 \<and> hb_responded (dest a' r) \<and>
    minrto a' = minrto a \<and> maxrto a' = maxrto a \<and> initial_rto a' = initial_rto a"
proof (cases "has SCTP_ADDR_UNCONFIRMED (dest a r) \<and> hb_matches hb (dest a r)")
  case True
  obtain q1 a1 where "confirm r a = (q1, a1)" by fastforce
  with True confirm_spec [OF this] assms show ?thesis by (auto simp: accept_answer_def Let_def)
next
  case False
  with assms show ?thesis by (auto simp: accept_answer_def Let_def)
qed

text \<open>What happens after the measurement.\<close>

definition revive :: "sctp_cc_functions \<Rightarrow> u16 \<Rightarrow> bool \<Rightarrow> nat \<Rightarrow> nat \<Rightarrow> assoc \<Rightarrow> assoc" where
  "revive cc old_errors req_prim r net a =
     (let a = (if \<not> has SCTP_ADDR_REACHABLE (dest a r)
               then called [Notify_interface_up r] (on_dest r (set_flag SCTP_ADDR_REACHABLE) a) else a);
          a = (if has SCTP_ADDR_PF (dest a r)
               then on_dest net (\<lambda>n. n\<lparr>p_cc := exit_pf cc (p_cc n)\<rparr>) (on_dest r (clear_flag SCTP_ADDR_PF) a) else a);
          a = (if 0 < old_errors then called [Stop_heartbeat r, Start_heartbeat r] a else a);
          a = (if r = primary_destination a
               then (case alternate a of Some j \<Rightarrow> (called [Free_remote_addr j] a)\<lparr>alternate := None\<rparr> | None \<Rightarrow> a)
               else a)
      in if req_prim then called [Mobility_adaptation] a else a)"

lemma heartbeat_ack_parts:
  assumes "Option.bind (hb_address hb) (\<lambda>addr. sctp_findnet addr a) = Some r" "accept_answer hb r a = (q, a1)"
    and "update_rto cc now (uint (time_value_1 hb), uint (time_value_2 hb)) False r a1 = Some a2"
  shows "\<exists>e. sctp_handle_heartbeat_ack cc now hb net a = Some (revive cc e q r net a2)"
proof -
  obtain q' b where qb: "(if has SCTP_ADDR_UNCONFIRMED (dest a r) \<and> hb_matches hb (dest a r) then confirm r a else (False, a)) = (q', b)"
    by fastforce
  have "q = q'" "a1 = on_dest r (\<lambda>n. n\<lparr>error_count := 0, hb_responded := True\<rparr>) b"
    using assms(2) by (auto simp: accept_answer_def qb)
  then show ?thesis
    using assms(3) qb unfolding sctp_handle_heartbeat_ack_def assms(1)
    by (intro exI [of _ "error_count (dest b r)"]) (simp add: hb_matches_def revive_def Let_def)
qed

lemma exit_pf_row: "exit_pf (cc_functions sc ticks row) m = m\<lparr>cwnd := mtu m\<rparr>"
  by (cases row) (simp_all add: rfc_row_def sctp_cwnd_update_exit_pf_common_def)

lemma revive_dest:
  "dest (revive cc e q r net a) =
     (let d = (dest a)(r := (if has SCTP_ADDR_REACHABLE (dest a r) then dest a r else set_flag SCTP_ADDR_REACHABLE (dest a r)))
      in if has SCTP_ADDR_PF (dest a r)
         then let d = d(r := clear_flag SCTP_ADDR_PF (d r)) in d(net := (d net)\<lparr>p_cc := exit_pf cc (p_cc (d net))\<rparr>)
         else d)"
  by (auto simp: revive_def Let_def split: option.split)

lemma revive_alternate: "alternate (revive cc e q r net a) = (if r = primary_destination a then None else alternate a)"
  by (auto simp: revive_def Let_def split: option.split)

lemma revive_spec:
  assumes "a' = revive (cc_functions sc ticks row) e q r net a"
  shows "has SCTP_ADDR_REACHABLE (dest a' r) \<and> \<not> has SCTP_ADDR_PF (dest a' r) \<and>
    has SCTP_ADDR_UNCONFIRMED (dest a' r) = has SCTP_ADDR_UNCONFIRMED (dest a r) \<and> error_count (dest a' r) = error_count (dest a r) \<and>
    hb_responded (dest a' r) = hb_responded (dest a r) \<and> RTO (p_cc (dest a' r)) = RTO (p_cc (dest a r)) \<and>
    (\<forall>j. cwnd (p_cc (dest a' j)) = (if has SCTP_ADDR_PF (dest a r) \<and> j = net then mtu (p_cc (dest a j)) else cwnd (p_cc (dest a j))))"
  using assms by (auto simp: revive_dest Let_def exit_pf_row)

text \<open>C39. The answer to a heartbeat that names the destination \<open>r\<close> and a time of at most \<open>R\<close> milliseconds ago: the destination has no errors
any more, is reachable and not potentially failed, and its retransmission timeout is within the bounds; it is confirmed exactly when it was or when both random numbers
are the ones sent. If it was potentially failed, the window that is set to one MTU is that of \<open>net\<close>, the destination the answer came from, and not that
of \<open>r\<close>; no other window changes. An alternate for the primary destination is given up when the primary answers.\<close>

theorem heartbeat_answer:
  assumes "Option.bind (hb_address hb) (\<lambda>addr. sctp_findnet addr a) = Some r" "rto_ok R a" "3 \<le> R" "R < 2 ^ 28" "row \<noteq> CC_HTCP"
    and "measured R now (uint (time_value_1 hb), uint (time_value_2 hb))"
  shows "\<exists>a'. sctp_handle_heartbeat_ack (cc_functions sc ticks row) now hb net a = Some a' \<and>
    error_count (dest a' r) = 0 \<and> hb_responded (dest a' r) \<and> has SCTP_ADDR_REACHABLE (dest a' r) \<and> \<not> has SCTP_ADDR_PF (dest a' r) \<and>
    (has SCTP_ADDR_UNCONFIRMED (dest a' r) \<longleftrightarrow> has SCTP_ADDR_UNCONFIRMED (dest a r) \<and> \<not> hb_matches hb (dest a r)) \<and>
    minrto a \<le> RTO (p_cc (dest a' r)) \<and> RTO (p_cc (dest a' r)) \<le> maxrto a \<and>
    (\<forall>j. cwnd (p_cc (dest a' j)) = (if has SCTP_ADDR_PF (dest a r) \<and> j = net then mtu (p_cc (dest a j)) else cwnd (p_cc (dest a j)))) \<and>
    (r = primary_destination a \<longrightarrow> alternate a' = None)"
proof -
  let ?cc = "cc_functions sc ticks row"
  obtain q a1 where a1: "accept_answer hb r a = (q, a1)" by fastforce
  note A = accept_spec [OF a1]
  have p1: "r = primary_destination a \<longrightarrow> primary_destination a1 = r"
    using a1 by (auto simp: accept_answer_def confirm_def Let_def split: if_splits)
  have ok1: "rto_ok R a1" by (rule rto_ok_cong [OF assms(2)]) (use A in auto)
  have "\<exists>a'. update_rto ?cc now (uint (time_value_1 hb), uint (time_value_2 hb)) False r a1 = Some a' \<and> rto_ok R a' \<and>
      minrto a1 \<le> RTO (p_cc (dest a' r)) \<and> maxrto a' = maxrto a1"
    using keeps_timer.measure_ok [OF timer_row [OF assms(5)] ok1 assms(6,3,4), of sc ticks False r] by blast
  then obtain a2 where a2: "update_rto ?cc now (uint (time_value_1 hb), uint (time_value_2 hb)) False r a1 = Some a2" "rto_ok R a2"
      "minrto a1 \<le> RTO (p_cc (dest a2 r))" "maxrto a2 = maxrto a1" by blast
  note U = update_rto_keeps [OF a2(1)]
  have d: "has f (dest a2 r) = has f (dest a1 r)" for f using U by (simp add: has_def)
  have hi: "RTO (p_cc (dest a2 r)) \<le> maxrto a" using a2(2,4) A by (auto simp: rto_ok_def path_rto_ok_def)
  have w: "cwnd (p_cc (dest a2 j)) = cwnd (p_cc (dest a j)) \<and> mtu (p_cc (dest a2 j)) = mtu (p_cc (dest a j))" for j
    using U A by (cases "j = r") auto
  obtain e where e: "sctp_handle_heartbeat_ack ?cc now hb net a = Some (revive ?cc e q r net a2)"
    using heartbeat_ack_parts [OF assms(1) a1 a2(1)] by blast
  note V = revive_spec [OF refl, of sc ticks row e q r net a2] and W = revive_alternate [of ?cc e q r net a2]
  have "error_count (dest (revive ?cc e q r net a2) r) = 0" "hb_responded (dest (revive ?cc e q r net a2) r)"
      "r = primary_destination a \<longrightarrow> alternate (revive ?cc e q r net a2) = None"
    using V W U A p1 by auto
  then show ?thesis using e V A a2(3) hi d w by (intro exI [of _ "revive ?cc e q r net a2"]) simp
qed

definition demo_answer :: hb_info where
  "demo_answer = \<lparr>hb_address = Some 1, time_value_1 = 10, time_value_2 = 100000, random_value1 = 1, random_value2 = 2\<rparr>"

definition demo_shaky :: assoc where
  "demo_shaky = demo_assoc\<lparr>dest := (\<lambda>i. demo_path\<lparr>l_addr := i, dest_state := if i = 1 then 0x801 else 1\<rparr>)\<rparr>"

theorem heartbeat_answer_witness:
  "\<exists>a'. sctp_handle_heartbeat_ack (cc_functions demo_sysctl 0 CC_RFC2581) (10, 500000) demo_answer 0 demo_shaky = Some a' \<and>
     \<not> has SCTP_ADDR_PF (dest a' 1) \<and> cwnd (p_cc (dest a' 1)) = 4380 \<and> cwnd (p_cc (dest a' 0)) = 1500"
proof -
  have "Option.bind (hb_address demo_answer) (\<lambda>addr. sctp_findnet addr demo_shaky) = Some 1"
      "measured 1000 (10, 500000) (uint (time_value_1 demo_answer), uint (time_value_2 demo_answer))"
    by (simp_all add: demo_answer_def sctp_findnet_def demo_shaky_def demo_assoc_def measured_def us_def)
  moreover have "rto_ok 1000 demo_shaky"
    by (rule rto_ok_cong [OF demo_assoc_ok]) (simp_all add: demo_shaky_def demo_assoc_def)
  moreover have "has SCTP_ADDR_PF (dest demo_shaky 1)" "mtu (p_cc (dest demo_shaky j)) = 1500" "cwnd (p_cc (dest demo_shaky j)) = 4380" for j
    by (simp_all add: demo_shaky_def has_def SCTP_ADDR_PF_def demo_path_def)
  ultimately show ?thesis
    using heartbeat_answer [of demo_answer demo_shaky 1 1000 CC_RFC2581 "(10, 500000)" demo_sysctl 0 0] by auto
qed

end
