(* ===== verification/Paths_Alt.thy ===== *)
theory Paths_Alt
  imports Paths Rto_Props Vtag_Choice
begin

text \<open>
  Which destination \<^verbatim>\<open>sctp_find_alternate_net\<close> returns: the first usable one in cyclic order, the one with the largest window (in the mode for CMT too, whose callers
  speak of thresholds), or the potentially failed one with the fewest errors.
\<close>

section \<open>Going round the list\<close>

text \<open>Looking at a destination without a route frees its source address and changes nothing else.\<close>

definition touched :: "assoc \<Rightarrow> assoc \<Rightarrow> bool" where
  "touched a a' \<longleftrightarrow> (\<exists>d c. a' = a\<lparr>dest := d, path_calls := c\<rparr> \<and>
     (\<forall>j. \<exists>s t. d j = (dest a j)\<lparr>s_addr := s, src_addr_selected := t\<rparr>))"

lemma touched_refl: "touched a a"
proof -
  have "a = a\<lparr>dest := dest a, path_calls := path_calls a\<rparr>" by simp
  moreover have "\<exists>s t. dest a j = (dest a j)\<lparr>s_addr := s, src_addr_selected := t\<rparr>" for j
    by (rule exI [of _ "s_addr (dest a j)"], rule exI [of _ "src_addr_selected (dest a j)"]) simp
  ultimately show ?thesis unfolding touched_def by blast
qed

lemma touched_trans:
  assumes "touched a b" "touched b c"
  shows "touched a c"
proof -
  obtain d e where b: "b = a\<lparr>dest := d, path_calls := e\<rparr>" "\<And>j. \<exists>s t. d j = (dest a j)\<lparr>s_addr := s, src_addr_selected := t\<rparr>"
    using assms(1) by (auto simp: touched_def)
  obtain d' e' where c: "c = b\<lparr>dest := d', path_calls := e'\<rparr>" "\<And>j. \<exists>s t. d' j = (dest b j)\<lparr>s_addr := s, src_addr_selected := t\<rparr>"
    using assms(2) by (auto simp: touched_def)
  have "\<exists>s t. d' j = (dest a j)\<lparr>s_addr := s, src_addr_selected := t\<rparr>" for j
  proof -
    obtain s t s' t' where "d j = (dest a j)\<lparr>s_addr := s, src_addr_selected := t\<rparr>" "d' j = (d j)\<lparr>s_addr := s', src_addr_selected := t'\<rparr>"
      using b(2) [of j] c(2) [of j] by (auto simp: b(1))
    then have "d' j = (dest a j)\<lparr>s_addr := s', src_addr_selected := t'\<rparr>" by simp
    then show ?thesis by blast
  qed
  moreover have "c = a\<lparr>dest := d', path_calls := e'\<rparr>" by (simp add: b(1) c(1))
  ultimately show ?thesis unfolding touched_def by blast
qed

lemma touched_refresh: "touched a (refresh_source i a)"
proof (cases "ro_rt (dest a i)")
  case False
  let ?d = "(dest a)(i := (dest a i)\<lparr>s_addr := False, src_addr_selected := False\<rparr>)"
  have "(dest a i)\<lparr>s_addr := s_addr (dest a i)\<rparr> = dest a i" by simp
  then have "(dest a i)\<lparr>s_addr := False\<rparr> = dest a i" if "\<not> s_addr (dest a i)" using that by metis
  then have same: "(dest a i)\<lparr>s_addr := False, src_addr_selected := False\<rparr> = (dest a i)\<lparr>src_addr_selected := False\<rparr>"
    if "\<not> s_addr (dest a i)" using that by metis
  have "refresh_source i a = a\<lparr>dest := ?d, path_calls := path_calls a @ (if s_addr (dest a i) then [Free_ifa i] else [])\<rparr>"
  proof (cases "s_addr (dest a i)")
    case s: False
    then have "refresh_source i a = a\<lparr>dest := (dest a)(i := (dest a i)\<lparr>src_addr_selected := False\<rparr>), path_calls := path_calls a @ []\<rparr>"
      using False by (simp add: refresh_source_def on_dest_def)
    then show ?thesis unfolding same [OF s] using s by simp
  qed (use False in \<open>simp add: refresh_source_def on_dest_def called_def\<close>)
  moreover have "\<exists>s t. ?d j = (dest a j)\<lparr>s_addr := s, src_addr_selected := t\<rparr>" for j
    by (rule exI [of _ "if j = i then False else s_addr (dest a j)"], rule exI [of _ "if j = i then False else src_addr_selected (dest a j)"]) simp
  ultimately show ?thesis unfolding touched_def by blast
qed (simp add: refresh_source_def touched_refl)

lemma touched_keeps:
  assumes "touched a a'"
  shows "order a' = order a" "a_cc a' = a_cc a" "dest_state (dest a' j) = dest_state (dest a j)" "ro_rt (dest a' j) = ro_rt (dest a j)"
    "p_cc (dest a' j) = p_cc (dest a j)" "error_count (dest a' j) = error_count (dest a j)" "alive (dest a' j) = alive (dest a j)"
    "has f (dest a' j) = has f (dest a j)"
proof -
  obtain d c s t where "a' = a\<lparr>dest := d, path_calls := c\<rparr>" "d j = (dest a j)\<lparr>s_addr := s, src_addr_selected := t\<rparr>"
    using assms unfolding touched_def by blast
  then show "order a' = order a" "a_cc a' = a_cc a" "dest_state (dest a' j) = dest_state (dest a j)" "ro_rt (dest a' j) = ro_rt (dest a j)"
    "p_cc (dest a' j) = p_cc (dest a j)" "error_count (dest a' j) = error_count (dest a j)" "alive (dest a' j) = alive (dest a j)"
    "has f (dest a' j) = has f (dest a j)"
    by (simp_all add: alive_def has_def)
qed

definition in_service :: "assoc \<Rightarrow> nat \<Rightarrow> bool" where
  "in_service a j \<longleftrightarrow> alive (dest a j) \<and> ro_rt (dest a j)"

lemma advance_inside:
  assumes "distinct (pre @ m # z # zs)"
  shows "advance (pre @ m # z # zs) m once = Inr (z, once)"
  using assms by (simp add: advance_def next_in_split)

lemma advance_end:
  assumes "distinct (pre @ [m])"
  shows "advance (pre @ [m]) m 1 = Inl (Break_with None)" "advance (pre @ [m]) m 0 = Inr (hd (pre @ [m]), 1)"
proof -
  have "next_in (pre @ [m]) m = None" using next_in_split [of m pre "[]"] assms by simp
  then show "advance (pre @ [m]) m 1 = Inl (Break_with None)" "advance (pre @ [m]) m 0 = Inr (hd (pre @ [m]), 1)"
    by (cases pre; simp add: advance_def)+
qed

lemma insv_step:
  "insv_loop m once a = (case advance (order a) m once of Inl ex \<Rightarrow> Some (ex, a)
     | Inr (alt, once') \<Rightarrow> if in_service a alt then Some (Break_with (Some alt), a) else insv_loop alt once' (refresh_source alt a))"
  by (subst insv_loop.simps) (simp add: in_service_def split: sum.split)

lemma insv_second:
  assumes "order a = pre @ m # zs" "distinct (pre @ m # zs)"
  shows "\<exists>a'. insv_loop m 1 a = Some (Break_with (find (in_service a) zs), a') \<and> touched a a'"
  using assms
proof (induction zs arbitrary: pre m a)
  case Nil
  then show ?case using advance_end(1) [of pre m] touched_refl by (subst insv_step) auto
next
  case (Cons z zs)
  have adv: "advance (order a) m 1 = Inr (z, 1)" using Cons.prems advance_inside [of pre m z zs] by simp
  show ?case
  proof (cases "in_service a z")
    case True
    then show ?thesis using adv touched_refl by (subst insv_step) simp
  next
    case False
    let ?a = "refresh_source z a"
    note t = touched_refresh [of a z]
    have "in_service ?a = in_service a" using touched_keeps [OF t] by (auto simp: in_service_def)
    moreover obtain a' where "insv_loop z 1 ?a = Some (Break_with (find (in_service ?a) zs), a')" "touched ?a a'"
      using Cons.IH [of ?a "pre @ [m]" z] Cons.prems touched_keeps(1) [OF t] by auto
    ultimately show ?thesis using False adv touched_trans [OF t] by (subst insv_step) auto
  qed
qed

lemma insv_first:
  assumes "order a = pre @ m # zs" "distinct (pre @ m # zs)"
  shows "\<exists>a'. insv_loop m 0 a = Some (Break_with (find (in_service a) (zs @ order a)), a') \<and> touched a a'"
  using assms
proof (induction zs arbitrary: pre m a)
  case Nil
  obtain z zs where o: "order a = z # zs" using Nil(1) by (metis append_is_Nil_conv list.distinct(1) neq_Nil_conv)
  have dist: "distinct (z # zs)" using Nil o by metis
  have "hd (pre @ [m]) = z" using Nil(1) o by (metis list.sel(1))
  then have adv: "advance (order a) m 0 = Inr (z, 1)" using Nil advance_end(2) [of pre m] by simp
  show ?case
  proof (cases "in_service a z")
    case True
    then show ?thesis using adv o touched_refl by (subst insv_step) simp
  next
    case False
    let ?a = "refresh_source z a"
    note t = touched_refresh [of a z]
    have "in_service ?a = in_service a" using touched_keeps [OF t] by (auto simp: in_service_def)
    moreover obtain a' where "insv_loop z 1 ?a = Some (Break_with (find (in_service ?a) zs), a')" "touched ?a a'"
      using insv_second [of ?a "[]" z zs] touched_keeps(1) [OF t] o dist by auto
    ultimately show ?thesis using False adv o touched_trans [OF t] by (subst insv_step) auto
  qed
next
  case (Cons z zs)
  have adv: "advance (order a) m 0 = Inr (z, 0)" using Cons.prems advance_inside [of pre m z zs] by simp
  show ?case
  proof (cases "in_service a z")
    case True
    then show ?thesis using adv touched_refl by (subst insv_step) simp
  next
    case False
    let ?a = "refresh_source z a"
    note t = touched_refresh [of a z]
    have "in_service ?a = in_service a" using touched_keeps [OF t] by (auto simp: in_service_def)
    moreover obtain a' where "insv_loop z 0 ?a = Some (Break_with (find (in_service ?a) (zs @ order ?a)), a')" "touched ?a a'"
      using Cons.IH [of ?a "pre @ [m]" z] Cons.prems touched_keeps(1) [OF t] by auto
    ultimately show ?thesis using False adv touched_trans [OF t] touched_keeps(1) [OF t] by (subst insv_step) auto
  qed
qed

definition confirmed :: "assoc \<Rightarrow> nat \<Rightarrow> bool" where
  "confirmed a j \<longleftrightarrow> \<not> has SCTP_ADDR_UNCONFIRMED (dest a j)"

lemma dormant_step:
  "dormant_loop i a m once = (case advance (order a) m once of Inl ex \<Rightarrow> Some None
     | Inr (alt, once') \<Rightarrow> if confirmed a alt \<and> alt \<noteq> i then Some (Some alt) else dormant_loop i a alt once')"
  by (subst dormant_loop.simps) (simp add: confirmed_def split: sum.split)

lemma dormant_second:
  assumes "order a = pre @ m # zs" "distinct (pre @ m # zs)"
  shows "dormant_loop i a m 1 = Some (find (\<lambda>j. confirmed a j \<and> j \<noteq> i) zs)"
  using assms
proof (induction zs arbitrary: pre m)
  case Nil
  then show ?case using advance_end(1) [of pre m] by (subst dormant_step) auto
next
  case (Cons z zs)
  then show ?case using advance_inside [of pre m z zs] Cons.IH [of "pre @ [m]" z] by (subst dormant_step) simp
qed

lemma dormant_first:
  assumes "order a = pre @ m # zs" "distinct (pre @ m # zs)"
  shows "dormant_loop i a m 0 = Some (find (\<lambda>j. confirmed a j \<and> j \<noteq> i) (zs @ order a))"
  using assms
proof (induction zs arbitrary: pre m)
  case Nil
  obtain z zs where o: "order a = z # zs" using Nil(1) by (metis append_is_Nil_conv list.distinct(1) neq_Nil_conv)
  have dist: "distinct (z # zs)" using Nil o by metis
  have "hd (pre @ [m]) = z" using Nil(1) o by (metis list.sel(1))
  then have adv: "advance (order a) m 0 = Inr (z, 1)" using Nil advance_end(2) [of pre m] by simp
  show ?case using adv dormant_second [of a "[]" z zs] o dist by (subst dormant_step) auto
next
  case (Cons z zs)
  then show ?case using advance_inside [of pre m z zs] Cons.IH [of "pre @ [m]" z] by (subst dormant_step) simp
qed

text \<open>Going round from a destination: those after it, those before it, itself.\<close>

lemma find_append: "find P (xs @ ys) = (case find P xs of None \<Rightarrow> find P ys | Some x \<Rightarrow> Some x)"
  by (induction xs) auto

lemma find_in_set: "find P xs = Some x \<Longrightarrow> x \<in> set xs"
  by (induction xs) (auto split: if_splits)

lemma find_round: "find P (post @ pre @ i # post) = find P (post @ pre @ [i])"
  by (auto simp: find_append split: option.split)

lemma rotate_net_spec:
  assumes "order a = pre @ i # post" "distinct (order a)"
  shows "\<exists>a'. rotate_net (Some i) a =
      Some (Some (case find (in_service a) (post @ pre @ [i]) of Some j \<Rightarrow> j
                  | None \<Rightarrow> (case find (\<lambda>j. confirmed a j \<and> j \<noteq> i) (post @ pre @ [i]) of Some j \<Rightarrow> j | None \<Rightarrow> i)), a') \<and> touched a a'"
proof -
  obtain a' where a': "insv_loop i 0 a = Some (Break_with (find (in_service a) (post @ pre @ [i])), a')" "touched a a'"
    using insv_first [of a pre i post] assms find_round [of "in_service a" post pre i] by auto
  have "confirmed a' = confirmed a" using touched_keeps(8) [OF a'(2)] by (auto simp: confirmed_def)
  then have "dormant_loop i a' i 0 = Some (find (\<lambda>j. confirmed a j \<and> j \<noteq> i) (post @ pre @ [i]))"
    using dormant_first [of a' pre i post i] assms touched_keeps(1) [OF a'(2)] find_round [of _ post pre i] by simp
  then show ?thesis
    using a' by (auto simp: rotate_net_def split: option.split)
qed

section \<open>Random bits\<close>

definition gen_ok :: "sctp_pcb_rand \<Rightarrow> bool" where
  "gen_ok m \<longleftrightarrow> length (random_numbers m) = 20 \<and> length (random_store m) = 20 \<and> unat (store_at m) \<le> 16"

lemma draw_total:
  assumes "stack_ok stk" "gen_ok m"
  shows "\<exists>x m'. sctp_select_initial_TSN stk m = Some (x, m') \<and> gen_ok m'"
proof (cases "initial_sequence_debug m = 0")
  case True
  have at: "unat (store_at m + 4) = unat (store_at m) + 4"
    using assms(2) by (simp add: gen_ok_def unat_word_ariths)
  define new where "new = (if of_nat (SCTP_SIGNATURE_SIZE - 3) \<le> store_at m + 4 then 0 else store_at m + 4)"
  have new: "unat new \<le> 16"
    using at by (auto simp: new_def word_le_nat_alt SCTP_SIGNATURE_SIZE_def not_le)
  let ?m = "m\<lparr>store_at := new\<rparr>"
  have fill: "sctp_fill_random_store stk ?m = ?m\<lparr>store_at := 0, random_store := gen_digest (random_numbers m) (unat (random_counter m)),
      random_counter := of_nat (Suc (unat (random_counter m)))\<rparr>"
    using fill_store_spec [OF assms(1), of ?m "unat (random_counter m)"] assms(2) by (simp add: gen_ok_def)
  show ?thesis
    using True assms(2) new fill
    by (cases "new = 0") (simp_all add: sctp_select_initial_TSN_def Let_def read_word_def gen_ok_def flip: new_def)
next
  case False
  then show ?thesis using assms(2) by (simp add: sctp_select_initial_TSN_def gen_ok_def)
qed

definition rand_ok :: "hmac_stack \<Rightarrow> assoc \<Rightarrow> bool" where
  "rand_ok stk a \<longleftrightarrow> stack_ok stk \<and> gen_ok (ep_rand a) \<and> length (hb_random_values a) = 4"

definition same_paths :: "assoc \<Rightarrow> assoc \<Rightarrow> bool" where
  "same_paths a a' \<longleftrightarrow> dest a' = dest a \<and> order a' = order a \<and> a_cc a' = a_cc a \<and> path_calls a' = path_calls a"

lemma random_bit_total:
  assumes "rand_ok stk a"
  shows "\<exists>b a'. random_bit stk restart a = Some (b, a') \<and> rand_ok stk a' \<and> same_paths a a'"
proof (cases "3 < hb_random_idx a")
  case True
  obtain x m where x: "sctp_select_initial_TSN stk (ep_rand a) = Some (x, m)" "gen_ok m"
    using draw_total assms by (fastforce simp: rand_ok_def)
  then show ?thesis using assms True by (simp add: random_bit_def rand_ok_def same_paths_def word_bytes_def)
next
  case False
  then have "unat (hb_random_idx a) < 4" by (simp add: word_less_nat_alt)
  then show ?thesis using assms False by (simp add: random_bit_def rand_ok_def same_paths_def)
qed

lemma same_paths_trans: "same_paths a b \<Longrightarrow> same_paths b c \<Longrightarrow> same_paths a c"
  by (simp add: same_paths_def)

section \<open>The largest window\<close>

definition win :: "assoc \<Rightarrow> nat \<Rightarrow> u32" where
  "win a j = cwnd (p_cc (dest a j))"

text \<open>The best offer among the destinations seen so far.\<close>

definition best_of :: "assoc \<Rightarrow> nat set \<Rightarrow> nat option \<times> u32 \<Rightarrow> bool" where
  "best_of a S best \<longleftrightarrow> (\<forall>j\<in>S. win a j \<le> snd best) \<and>
     (case fst best of None \<Rightarrow> snd best = 0 | Some j \<Rightarrow> j \<in> S \<and> win a j = snd best)"

lemma offer_cwnd_spec:
  assumes "best_of a S best" "rand_ok stk a"
  shows "\<exists>best' a'. offer_cwnd stk restart i best a = Some (best', a') \<and> best_of a (insert i S) best' \<and> rand_ok stk a' \<and> same_paths a a'"
proof -
  obtain b a' where b: "random_bit stk restart a = Some (b, a')" "rand_ok stk a'" "same_paths a a'"
    using random_bit_total [OF assms(2)] by blast
  consider "snd best < win a i" | "snd best = win a i" b | "snd best = win a i" "\<not> b" | "win a i < snd best" by fastforce
  then show ?thesis
  proof cases
    case 1
    then show ?thesis using assms by (auto simp: offer_cwnd_def Let_def best_of_def win_def same_paths_def)
  next
    case 2
    then show ?thesis using assms(1) b by (auto simp: offer_cwnd_def Let_def best_of_def win_def)
  next
    case 3
    then show ?thesis using assms(1) b by (auto simp: offer_cwnd_def Let_def best_of_def win_def split: option.splits)
  next
    case 4
    then show ?thesis using assms
      by (intro exI [of _ best] exI [of _ a]) (auto simp: offer_cwnd_def Let_def best_of_def win_def same_paths_def split: option.splits)
  qed
qed

lemma best_of_same: "same_paths a a' \<Longrightarrow> best_of a' S best = best_of a S best"
  by (simp add: same_paths_def best_of_def win_def cong: option.case_cong)

lemma cmt_loop_spec:
  assumes "best_of a S best" "rand_ok stk a"
  shows "\<exists>best' a'. cmt_loop stk is best a = Some (best', a') \<and> best_of a (S \<union> {j \<in> set is. alive (dest a j)}) best' \<and> rand_ok stk a' \<and> same_paths a a'"
  using assms
proof (induction "is" arbitrary: S best a)
  case Nil
  then show ?case by (simp add: same_paths_def)
next
  case (Cons i is')
  show ?case
  proof (cases "alive (dest a i)")
    case False
    then have "{j \<in> set (i # is'). alive (dest a j)} = {j \<in> set is'. alive (dest a j)}" by auto
    then show ?thesis using Cons.IH [OF Cons.prems] False by simp
  next
    case True
    obtain b1 a1 where 1: "offer_cwnd stk True i best a = Some (b1, a1)" "best_of a (insert i S) b1" "rand_ok stk a1" "same_paths a a1"
      using offer_cwnd_spec [OF Cons.prems, of True i] by blast
    obtain b2 a2 where 2: "cmt_loop stk is' b1 a1 = Some (b2, a2)" "best_of a1 (insert i S \<union> {j \<in> set is'. alive (dest a1 j)}) b2" "rand_ok stk a2" "same_paths a1 a2"
      using Cons.IH [of a1 "insert i S" b1] 1 best_of_same by blast
    have "S \<union> {j \<in> set (i # is'). alive (dest a j)} = insert i S \<union> {j \<in> set is'. alive (dest a1 j)}"
      using True 1(4) by (auto simp: same_paths_def)
    then show ?thesis using True 1 2 best_of_same [OF 1(4)] same_paths_trans [OF 1(4)] by auto
  qed
qed

section \<open>The fewest errors\<close>

definition errs :: "nat option \<Rightarrow> assoc \<Rightarrow> nat \<Rightarrow> int" where
  "errs net a j = uint (error_count (dest a j)) + (if net = Some j then 1 else 0)"

definition least_of :: "nat option \<Rightarrow> assoc \<Rightarrow> nat set \<Rightarrow> (nat \<times> int) option \<Rightarrow> bool" where
  "least_of net a Q least \<longleftrightarrow>
     (case least of None \<Rightarrow> Q = {}
      | Some (j, e) \<Rightarrow> j \<in> Q \<and> e = errs net a j \<and>
          (\<forall>k\<in>Q. e \<le> errs net a k \<and> (errs net a k = e \<longrightarrow> last_active (dest a k) \<le> last_active (dest a j))))"

lemma offer_errors_spec:
  assumes "least_of net a Q least"
  shows "least_of net a (insert i Q) (offer_errors net i least a)"
proof (cases least)
  case None
  then show ?thesis using assms by (simp add: least_of_def offer_errors_def errs_def)
next
  case (Some je)
  obtain j e where je: "je = (j, e)" by fastforce
  note L = assms [unfolded least_of_def Some je option.case prod.case]
  consider "errs net a i < e" | "errs net a i = e" "last_active (dest a j) < last_active (dest a i)"
    | "e < errs net a i \<or> (errs net a i = e \<and> last_active (dest a i) \<le> last_active (dest a j))" by force
  then show ?thesis
  proof cases
    case 1
    then have "offer_errors net i least a = Some (i, errs net a i)"
      by (simp add: offer_errors_def Some je errs_def Let_def)
    then show ?thesis using L 1 by (auto simp: least_of_def)
  next
    case 2
    then have "offer_errors net i least a = Some (i, errs net a i)"
      by (simp add: offer_errors_def Some je errs_def Let_def)
    then show ?thesis using L 2 by (fastforce simp: least_of_def)
  next
    case 3
    then have "\<not> errs net a i < e" "\<not> (errs net a i = e \<and> last_active (dest a j) < last_active (dest a i))" by auto
    then have eq: "offer_errors net i least a = least"
      unfolding offer_errors_def errs_def [symmetric] Some je Let_def by auto
    have "e \<le> errs net a i \<and> (errs net a i = e \<longrightarrow> last_active (dest a i) \<le> last_active (dest a j))" using 3 by auto
    then show ?thesis unfolding eq using L unfolding least_of_def Some je option.case prod.case by blast
  qed
qed

lemma least_of_same: "same_paths a a' \<Longrightarrow> least_of net a' Q least = least_of net a Q least"
proof -
  assume "same_paths a a'"
  then have e: "errs net a' = errs net a" "dest a' = dest a" by (simp_all add: same_paths_def errs_def fun_eq_iff)
  show ?thesis unfolding least_of_def e ..
qed

definition active :: "assoc \<Rightarrow> nat \<Rightarrow> bool" where
  "active a j \<longleftrightarrow> alive (dest a j) \<and> \<not> has SCTP_ADDR_PF (dest a j)"

definition shaky :: "assoc \<Rightarrow> nat \<Rightarrow> bool" where
  "shaky a j \<longleftrightarrow> alive (dest a j) \<and> has SCTP_ADDR_PF (dest a j)"

lemma pf_loop_spec:
  assumes "best_of a S best" "least_of net a Q least" "rand_ok stk a"
  shows "\<exists>best' least' a'. pf_loop stk net is best least a = Some (best', least', a') \<and>
    best_of a (S \<union> {j \<in> set is. active a j}) best' \<and> least_of net a (Q \<union> {j \<in> set is. shaky a j}) least' \<and> rand_ok stk a' \<and> same_paths a a'"
  using assms
proof (induction "is" arbitrary: S Q best least a)
  case Nil
  then show ?case by (simp add: same_paths_def)
next
  case (Cons i is')
  consider (dead) "\<not> alive (dest a i)" | (pf) "shaky a i" | (up) "active a i" by (auto simp: active_def shaky_def)
  then show ?case
  proof cases
    case dead
    then have "{j \<in> set (i # is'). active a j} = {j \<in> set is'. active a j}" "{j \<in> set (i # is'). shaky a j} = {j \<in> set is'. shaky a j}"
      by (auto simp: active_def shaky_def)
    then show ?thesis using Cons.IH [OF Cons.prems] dead by simp
  next
    case pf
    then have s: "{j \<in> set (i # is'). active a j} = {j \<in> set is'. active a j}"
        "Q \<union> {j \<in> set (i # is'). shaky a j} = insert i Q \<union> {j \<in> set is'. shaky a j}"
      by (auto simp: active_def shaky_def)
    show ?thesis
      unfolding s using Cons.IH [OF Cons.prems(1) offer_errors_spec [OF Cons.prems(2), of i] Cons.prems(3)] pf by (simp add: shaky_def)
  next
    case up
    obtain b1 a1 where 1: "offer_cwnd stk False i best a = Some (b1, a1)" "best_of a (insert i S) b1" "rand_ok stk a1" "same_paths a a1"
      using offer_cwnd_spec [OF Cons.prems(1,3), of False i] by blast
    obtain b2 l2 a2 where 2: "pf_loop stk net is' b1 least a1 = Some (b2, l2, a2)" "best_of a1 (insert i S \<union> {j \<in> set is'. active a1 j}) b2"
        "least_of net a1 (Q \<union> {j \<in> set is'. shaky a1 j}) l2" "rand_ok stk a2" "same_paths a1 a2"
      using Cons.IH [of a1 "insert i S" b1 Q least] 1 best_of_same [OF 1(4)] least_of_same [OF 1(4)] Cons.prems(2) by blast
    have s: "S \<union> {j \<in> set (i # is'). active a j} = insert i S \<union> {j \<in> set is'. active a1 j}"
        "{j \<in> set (i # is'). shaky a j} = {j \<in> set is'. shaky a1 j}"
      using up 1(4) by (auto simp: same_paths_def active_def shaky_def)
    have "pf_loop stk net (i # is') best least a = Some (b2, l2, a2)" using up 1(1) 2(1) by (simp add: active_def)
    then show ?thesis
      unfolding s using 2 best_of_same [OF 1(4)] least_of_same [OF 1(4)] same_paths_trans [OF 1(4)] by blast
  qed
qed

section \<open>The properties\<close>

text \<open>The first destination in service in cyclic order after \<open>i\<close>; without one, the next other confirmed destination; without one, \<open>i\<close>.\<close>

definition next_around :: "assoc \<Rightarrow> nat \<Rightarrow> nat list \<Rightarrow> nat" where
  "next_around a i js =
     (case find (in_service a) js of Some j \<Rightarrow> j
      | None \<Rightarrow> (case find (\<lambda>j. confirmed a j \<and> j \<noteq> i) js of Some j \<Rightarrow> j | None \<Rightarrow> i))"

lemma alternate_any:
  assumes "order a = pre @ i # post" "distinct (order a)" "numnets (a_cc a) \<noteq> 1"
  shows "\<exists>a'. sctp_find_alternate_net stk (Some i) 0 a = Some (Some (next_around a i (post @ pre @ [i])), a') \<and> touched a a'"
  using rotate_net_spec [OF assms(1,2)] assms(3) unfolding next_around_def by (auto simp: sctp_find_alternate_net_def)

lemma next_around_in: "i \<in> set js \<Longrightarrow> next_around a i js \<in> set js"
  using find_in_set [of _ js] unfolding next_around_def by (auto split: option.split)

text \<open>With CMT: a usable destination of largest window when one has a window at all.\<close>

lemma alternate_cmt:
  assumes "order a = pre @ i # post" "distinct (order a)" "numnets (a_cc a) \<noteq> 1" "rand_ok stk a"
  shows "\<exists>j a'. sctp_find_alternate_net stk (Some i) 1 a = Some (Some j, a') \<and> j \<in> set (order a) \<and>
       ((\<exists>k\<in>set (order a). alive (dest a k) \<and> 0 < win a k) \<longrightarrow> alive (dest a j) \<and> (\<forall>k\<in>set (order a). alive (dest a k) \<longrightarrow> win a k \<le> win a j))"
proof -
  have i: "i \<in> set (order a)" using assms(1) by simp
  have js: "set (post @ pre @ [i]) = set (order a)" using assms(1) by auto
  have around: "next_around b i (post @ pre @ [i]) \<in> set (order a)" for b
    using next_around_in [of i "post @ pre @ [i]" b] i unfolding js by simp
  have start: "best_of b {} (None, 0)" for b by (simp add: best_of_def)
  obtain best a1 where 1: "cmt_loop stk (order a) (None, 0) a = Some (best, a1)" "best_of a {j \<in> set (order a). alive (dest a j)} best" "same_paths a a1"
    using cmt_loop_spec [OF start assms(4), of "order a"] by auto
  have o1: "order a1 = pre @ i # post" "distinct (order a1)" using 1(3) assms(1,2) by (simp_all add: same_paths_def)
  obtain r1 where r1: "rotate_net (Some i) a1 = Some (Some (next_around a1 i (post @ pre @ [i])), r1)"
    using rotate_net_spec [OF o1] unfolding next_around_def by blast
  show ?thesis
  proof (cases "fst best")
    case None
    then show ?thesis using 1 r1 around assms(3) by (auto simp: sctp_find_alternate_net_def best_of_def)
  next
    case (Some j)
    then show ?thesis using 1 assms(3) by (auto simp: sctp_find_alternate_net_def best_of_def)
  qed
qed

text \<open>With potentially failed destinations: an active one of largest window, else the one of least errors, else the same.\<close>

lemma alternate_pf:
  assumes "order a = pre @ i # post" "distinct (order a)" "numnets (a_cc a) \<noteq> 1" "rand_ok stk a"
  shows "\<exists>j a'. sctp_find_alternate_net stk (Some i) 2 a = Some (Some j, a') \<and> j \<in> set (order a) \<and>
       ((\<exists>k\<in>set (order a). active a k \<and> 0 < win a k) \<longrightarrow> active a j \<and> (\<forall>k\<in>set (order a). active a k \<longrightarrow> win a k \<le> win a j)) \<and>
       ((\<forall>k\<in>set (order a). \<not> active a k) \<and> (\<exists>k\<in>set (order a). shaky a k) \<longrightarrow> shaky a j \<and>
          (\<forall>k\<in>set (order a). shaky a k \<longrightarrow> errs (Some i) a j \<le> errs (Some i) a k \<and>
             (errs (Some i) a k = errs (Some i) a j \<longrightarrow> last_active (dest a k) \<le> last_active (dest a j)))) \<and>
       ((\<forall>k\<in>set (order a). \<not> alive (dest a k)) \<longrightarrow> j = i)"
proof -
  have i: "i \<in> set (order a)" using assms(1) by simp
  have start: "best_of b {} (None, 0)" "least_of n b {} None" for b n by (simp_all add: best_of_def least_of_def)
  obtain best least a2 where 2: "pf_loop stk (Some i) (order a) (None, 0) None a = Some (best, least, a2)"
      "best_of a {j \<in> set (order a). active a j} best" "least_of (Some i) a {j \<in> set (order a). shaky a j} least"
    using pf_loop_spec [OF start assms(4), of "Some i" "order a"] by auto
  show ?thesis
  proof (cases "fst best")
    case (Some j)
    then have "sctp_find_alternate_net stk (Some i) 2 a = Some (Some j, a2)" using 2(1) assms(3) by (simp add: sctp_find_alternate_net_def)
    moreover have "j \<in> set (order a)" "active a j" "\<forall>k\<in>set (order a). active a k \<longrightarrow> win a k \<le> win a j"
      using 2(2) Some by (auto simp: best_of_def)
    ultimately show ?thesis by (intro exI [of _ j] exI [of _ a2]) (auto simp: active_def)
  next
    case None
    then have idle: "\<not> (\<exists>k\<in>set (order a). active a k \<and> 0 < win a k)" using 2(2) by (auto simp: best_of_def)
    show ?thesis
    proof (cases least)
      case no: None
      then have "sctp_find_alternate_net stk (Some i) 2 a = Some (Some i, a2)" using 2(1) None assms(3) by (simp add: sctp_find_alternate_net_def)
      then show ?thesis using i idle 2(3) no by (intro exI [of _ i] exI [of _ a2]) (auto simp: least_of_def)
    next
      case (Some je)
      obtain j e where je: "je = (j, e)" by fastforce
      have "sctp_find_alternate_net stk (Some i) 2 a = Some (Some j, a2)" using 2(1) None Some je assms(3) by (simp add: sctp_find_alternate_net_def)
      moreover have "j \<in> set (order a)" "shaky a j"
          "\<forall>k\<in>set (order a). shaky a k \<longrightarrow> errs (Some i) a j \<le> errs (Some i) a k \<and>
             (errs (Some i) a k = errs (Some i) a j \<longrightarrow> last_active (dest a k) \<le> last_active (dest a j))"
        using 2(3) Some je by (auto simp: least_of_def)
      ultimately show ?thesis using idle by (intro exI [of _ j] exI [of _ a2]) (auto simp: shaky_def)
    qed
  qed
qed

text \<open>C38. Another destination for the destination \<open>i\<close> of an association, in the default mode and in the mode for potentially failed destinations.
The search always ends and returns a destination of the association; with a single destination it is the first of the list. By default it is the first
reachable and confirmed destination with a route in cyclic order after \<open>i\<close>, or the next other confirmed one, or \<open>i\<close>; the only trace it leaves are freed source addresses
of destinations without a route. With potentially failed destinations it is an active one with the largest window, if some window is not 0; without an active one, the
potentially failed one with the fewest errors, where \<open>i\<close> counts one more, and among equals the one active last; without any, \<open>i\<close> itself.\<close>

theorem alternate_net:
  assumes "order a = pre @ i # post" "distinct (order a)" "rand_ok stk a"
  shows "(numnets (a_cc a) = 1 \<longrightarrow> (\<forall>mode. sctp_find_alternate_net stk (Some i) mode a = Some (Some (hd (order a)), a))) \<and>
    (numnets (a_cc a) \<noteq> 1 \<longrightarrow>
     (\<exists>a'. sctp_find_alternate_net stk (Some i) 0 a = Some (Some (next_around a i (post @ pre @ [i])), a') \<and> touched a a') \<and>
     (\<exists>j a'. sctp_find_alternate_net stk (Some i) 2 a = Some (Some j, a') \<and> j \<in> set (order a) \<and>
       ((\<exists>k\<in>set (order a). active a k \<and> 0 < win a k) \<longrightarrow> active a j \<and> (\<forall>k\<in>set (order a). active a k \<longrightarrow> win a k \<le> win a j)) \<and>
       ((\<forall>k\<in>set (order a). \<not> active a k) \<and> (\<exists>k\<in>set (order a). shaky a k) \<longrightarrow> shaky a j \<and>
          (\<forall>k\<in>set (order a). shaky a k \<longrightarrow> errs (Some i) a j \<le> errs (Some i) a k \<and>
             (errs (Some i) a k = errs (Some i) a j \<longrightarrow> last_active (dest a k) \<le> last_active (dest a j)))) \<and>
       ((\<forall>k\<in>set (order a). \<not> alive (dest a k)) \<longrightarrow> j = i)))"
proof (intro conjI impI)
  show "\<forall>mode. sctp_find_alternate_net stk (Some i) mode a = Some (Some (hd (order a)), a)" if "numnets (a_cc a) = 1"
    using that assms(1) by (cases pre) (simp_all add: sctp_find_alternate_net_def)
qed (rule alternate_any [OF assms(1,2)] alternate_pf [OF assms(1,2) _ assms(3)], assumption)+

definition demo_multi :: assoc where
  "demo_multi = demo_assoc\<lparr>ep_rand := rand_of 0\<rparr>"

lemma demo_multi_simps: "order demo_multi = [] @ 0 # [1]" "distinct (order demo_multi)" "numnets (a_cc demo_multi) \<noteq> 1"
    "rand_ok demo_stack demo_multi" "alive (dest demo_multi j)" "ro_rt (dest demo_multi j)"
  using demo_stack_ok
  by (simp_all add: demo_multi_def demo_assoc_def demo_path_def rand_ok_def gen_ok_def rand_of_def alive_def has_def
      SCTP_ADDR_REACHABLE_def SCTP_ADDR_UNCONFIRMED_def)

theorem alternate_net_witness:
  "\<exists>a'. sctp_find_alternate_net demo_stack (Some 0) 0 demo_multi = Some (Some 1, a')"
proof -
  have "next_around demo_multi 0 [1, 0] = 1" by (simp add: next_around_def in_service_def demo_multi_simps)
  then show ?thesis using alternate_net [OF demo_multi_simps(1,2,4)] demo_multi_simps(3) by auto
qed

text \<open>The mode for CMT compares windows, although the comments of its callers name the policy of the largest slow start threshold: here destination 0 has the
larger threshold and destination 1 the larger window, and the search returns destination 1.\<close>

definition demo_cmt :: assoc where
  "demo_cmt = demo_multi\<lparr>dest := (\<lambda>i. (demo_path\<lparr>l_addr := i\<rparr>)\<lparr>p_cc := (p_cc demo_path)\<lparr>ssthresh := if i = 0 then 9000 else 3000,
     cwnd := if i = 0 then 4380 else 6000\<rparr>\<rparr>)\<rparr>"

lemma cmt_compares_windows:
  "\<exists>a'. sctp_find_alternate_net demo_stack (Some 0) 1 demo_cmt = Some (Some 1, a') \<and>
     ssthresh (p_cc (dest demo_cmt 1)) < ssthresh (p_cc (dest demo_cmt 0))"
proof -
  have o: "order demo_cmt = [] @ 0 # [1]" "distinct (order demo_cmt)" "numnets (a_cc demo_cmt) \<noteq> 1" "rand_ok demo_stack demo_cmt"
    using demo_multi_simps(1-4) by (simp_all add: demo_cmt_def rand_ok_def)
  have v: "alive (dest demo_cmt k)" "win demo_cmt 0 = 4380" "win demo_cmt 1 = 6000" "ssthresh (p_cc (dest demo_cmt 1)) < ssthresh (p_cc (dest demo_cmt 0))" for k
    by (simp_all add: demo_cmt_def demo_path_def alive_def has_def SCTP_ADDR_REACHABLE_def SCTP_ADDR_UNCONFIRMED_def win_def)
  obtain j a' where "sctp_find_alternate_net demo_stack (Some 0) 1 demo_cmt = Some (Some j, a')" "j \<in> set (order demo_cmt)"
      "(\<exists>k\<in>set (order demo_cmt). alive (dest demo_cmt k) \<and> 0 < win demo_cmt k) \<longrightarrow>
        (\<forall>k\<in>set (order demo_cmt). alive (dest demo_cmt k) \<longrightarrow> win demo_cmt k \<le> win demo_cmt j)"
    using alternate_cmt [OF o] by blast
  moreover from this have "win demo_cmt 1 \<le> win demo_cmt j" using v(1,3) o(1) by auto
  ultimately show ?thesis using v o(1) by auto
qed

end
