(* ===== verification/Paths_Timers.thy ===== *)
theory Paths_Timers
  imports Paths_Props Paths_Alt
begin

text \<open>
  The timers of the shutdown handshake: thresholds, backoff and the choice of another destination together.
\<close>

text \<open>What counting an error leaves alone.\<close>

lemma threshold_keeps:
  assumes "sctp_threshold_management ticks (Some i) threshold a = (ab, a')"
  shows "order a' = order a \<and> a_cc a' = a_cc a \<and> ep_rand a' = ep_rand a \<and> hb_random_values a' = hb_random_values a \<and>
    minrto a' = minrto a \<and> maxrto a' = maxrto a \<and> initial_rto a' = initial_rto a \<and>
    (\<forall>j. p_cc (dest a' j) = p_cc (dest a j) \<and> lastsv (dest a' j) = lastsv (dest a j) \<and> RTO_measured (dest a' j) = RTO_measured (dest a j)) \<and>
    (\<forall>j. j \<noteq> i \<longrightarrow> dest a' j = dest a j) \<and>
    ab = (ucast threshold < overall_error_count a + (if has SCTP_ADDR_UNCONFIRMED (dest a i) then 0 else 1)) \<and>
    (ab \<longrightarrow> last (path_calls a') = Abort_association)"
proof -
  define a1 where "a1 = threshold_net ticks i a"
  have t: "order a1 = order a \<and> a_cc a1 = a_cc a \<and> ep_rand a1 = ep_rand a \<and> hb_random_values a1 = hb_random_values a \<and>
      minrto a1 = minrto a \<and> maxrto a1 = maxrto a \<and> initial_rto a1 = initial_rto a \<and> overall_error_count a1 = overall_error_count a \<and>
      has SCTP_ADDR_UNCONFIRMED (dest a1 i) = has SCTP_ADDR_UNCONFIRMED (dest a i)"
    by (simp add: a1_def threshold_net_def Let_def on_dest_def called_def)
  have d: "p_cc (dest a1 j) = p_cc (dest a j) \<and> lastsv (dest a1 j) = lastsv (dest a j) \<and> RTO_measured (dest a1 j) = RTO_measured (dest a j)" for j
    by (simp add: a1_def threshold_net_def Let_def on_dest_def called_def clear_flag_def set_flag_def)
  have other: "j \<noteq> i \<longrightarrow> dest a1 j = dest a j" for j by (simp add: a1_def threshold_net_def Let_def on_dest_def called_def)
  define ov where "ov = overall_error_count a + (if has SCTP_ADDR_UNCONFIRMED (dest a i) then 0 else 1)"
  define a2 where "a2 = (if has SCTP_ADDR_UNCONFIRMED (dest a i) then a1 else a1\<lparr>overall_error_count := ov\<rparr>)"
  have ov: "overall_error_count a2 = ov" using t by (simp add: a2_def ov_def)
  have "sctp_threshold_management ticks (Some i) threshold a = (if ucast threshold < ov then (True, called [Abort_association] a2) else (False, a2))"
    using t ov unfolding sctp_threshold_management_def Let_def option.case a1_def [symmetric] by (simp add: a2_def ov_def)
  then have r: "ab = (ucast threshold < ov)" "a' = (if ab then called [Abort_association] a2 else a2)"
    using assms by (auto split: if_splits)
  have t2: "order a2 = order a \<and> a_cc a2 = a_cc a \<and> ep_rand a2 = ep_rand a \<and> hb_random_values a2 = hb_random_values a \<and>
      minrto a2 = minrto a \<and> maxrto a2 = maxrto a \<and> initial_rto a2 = initial_rto a \<and> dest a2 = dest a1"
    using t by (simp add: a2_def)
  show ?thesis
    unfolding r(2) using r(1) t2 d other by (cases ab) (simp_all add: ov_def called_def)
qed

text \<open>A timer of a control chunk doubles the timeout and does not ask congestion control.\<close>

lemma backoff_control:
  assumes "rto_ok R a"
  shows "\<exists>a'. sctp_backoff_on_timeout cc i True 0 0 a = Some a' \<and> order a' = order a \<and> a_cc a' = a_cc a \<and>
    unat (RTO (p_cc (dest a' i))) = min (2 * unat (timer_base a (dest a i))) (unat (maxrto a)) \<and>
    (\<forall>j. dest_state (dest a' j) = dest_state (dest a j) \<and> ro_rt (dest a' j) = ro_rt (dest a j))"
proof -
  have "path_rto_ok R (minrto a) (maxrto a) (dest a i)" "rto_conf a" using assms by (auto simp: rto_ok_def)
  then have "timer_base a (dest a i) < 2 ^ 31" by (auto simp: timer_base_def path_rto_ok_def rto_conf_def)
  note D = double_rto_spec(1) [OF this]
  have "dest_state (double_rto a n) = dest_state n" "ro_rt (double_rto a n) = ro_rt n" for n by (simp_all add: double_rto_def Let_def)
  then show ?thesis using D by (simp add: sctp_backoff_on_timeout_def on_dest_def)
qed

lemma next_around_cong:
  assumes "\<And>j. dest_state (dest a' j) = dest_state (dest a j) \<and> ro_rt (dest a' j) = ro_rt (dest a j)"
  shows "next_around a' i js = next_around a i js"
proof -
  have e: "in_service a' = in_service a" "confirmed a' = confirmed a"
    using assms by (auto simp: in_service_def confirmed_def alive_def has_def)
  show ?thesis unfolding next_around_def e ..
qed

text \<open>With another destination in service, the next one is one of those.\<close>

lemma next_around_other:
  assumes "distinct (pre @ i # post)" "\<exists>k\<in>set (pre @ post). in_service a k"
  shows "next_around a i (post @ pre @ [i]) \<in> set (pre @ post) \<and> in_service a (next_around a i (post @ pre @ [i]))"
proof -
  obtain j where j: "find (in_service a) (post @ pre) = Some j" using assms(2) by (fastforce simp: find_None_iff simp flip: not_None_eq)
  then have "find (in_service a) ((post @ pre) @ [i]) = Some j" by (simp only: find_append option.case)
  then have "next_around a i (post @ pre @ [i]) = j" by (simp add: next_around_def)
  moreover have "j \<in> set (post @ pre)" "in_service a j" using j by (auto simp: find_Some_iff nth_mem simp del: set_append)
  ultimately show ?thesis by auto
qed

text \<open>The part that both timers share: with enough errors the association is aborted, otherwise the timeout of the destination doubles and the chunk
goes to the next destination.\<close>

lemma retransmit_next:
  assumes "order a = pre @ i # post" "distinct (order a)" "rto_ok R a"
    and "sctp_threshold_management ticks (Some i) (max_send_times a) a = (False, a1)"
    and "j = (if numnets (a_cc a) = 1 then hd (order a) else next_around a1 i (post @ pre @ [i]))"
  shows "\<exists>a2 a3. sctp_backoff_on_timeout cc i True 0 0 a1 = Some a2 \<and> sctp_find_alternate_net stk (Some i) 0 a2 = Some (Some j, a3) \<and>
    unat (RTO (p_cc (dest a3 i))) = min (2 * unat (timer_base a (dest a i))) (unat (maxrto a))"
proof -
  note T = threshold_keeps [OF assms(4)]
  have ok: "rto_ok R a1" by (rule rto_ok_cong [OF assms(3)]) (use T in auto)
  have base: "timer_base a1 (dest a1 i) = timer_base a (dest a i)" using T by (simp add: timer_base_def)
  obtain a2 where a2: "sctp_backoff_on_timeout cc i True 0 0 a1 = Some a2" "order a2 = order a1" "a_cc a2 = a_cc a1"
      "unat (RTO (p_cc (dest a2 i))) = min (2 * unat (timer_base a1 (dest a1 i))) (unat (maxrto a1))"
      "\<And>j. dest_state (dest a2 j) = dest_state (dest a1 j) \<and> ro_rt (dest a2 j) = ro_rt (dest a1 j)"
    using backoff_control [OF ok] by blast
  have o: "order a2 = pre @ i # post" "distinct (order a2)" using assms(1,2) T a2(2) by simp_all
  show ?thesis
  proof (cases "numnets (a_cc a) = 1")
    case True
    then have "sctp_find_alternate_net stk (Some i) 0 a2 = Some (Some j, a2)"
      using assms(1,5) T a2(2,3) by (cases pre) (simp_all add: sctp_find_alternate_net_def)
    then show ?thesis using a2 base T by auto
  next
    case False
    then obtain a3 where a3: "sctp_find_alternate_net stk (Some i) 0 a2 = Some (Some (next_around a2 i (post @ pre @ [i])), a3)" "touched a2 a3"
      using alternate_any [OF o, of stk] a2(3) T by auto
    moreover have "next_around a2 i (post @ pre @ [i]) = j" using next_around_cong [OF a2(5)] assms(5) False by simp
    ultimately show ?thesis using a2 base T touched_keeps(5) [OF a3(2)] by auto
  qed
qed

text \<open>C40. The timers of the shutdown handshake. When the errors of the association exceed its limit, the association is aborted and the result says so. Otherwise
the timeout of the silent destination doubles up to the maximum, and SHUTDOWN (or SHUTDOWN-ACK) is sent to and its timer started on one destination: with a single
destination that one; with several the first in service in cyclic order after the silent one, after its errors have been counted, or the next other confirmed one, or
the same. So if any other destination is in service, the chunk goes to another one that is.\<close>

theorem shutdown_retransmits:
  assumes "order a = pre @ i # post" "distinct (order a)" "rto_ok R a"
    and t: "sctp_threshold_management ticks (Some i) (max_send_times a) a = (exceeded, a1)"
    and j: "j = (if numnets (a_cc a) = 1 then hd (order a) else next_around a1 i (post @ pre @ [i]))"
  shows "exceeded = (ucast (max_send_times a) < overall_error_count a + (if has SCTP_ADDR_UNCONFIRMED (dest a i) then 0 else 1)) \<and>
    (\<exists>a' b'. sctp_shutdown_timer cc stk ticks i a = Some (exceeded, a') \<and> sctp_shutdownack_timer cc stk ticks i a = Some (exceeded, b') \<and>
      (if exceeded then a' = a1 \<and> b' = a1 \<and> last (path_calls a1) = Abort_association
       else unat (RTO (p_cc (dest a' i))) = min (2 * unat (timer_base a (dest a i))) (unat (maxrto a)) \<and> dest b' = dest a' \<and>
         (\<exists>cs. path_calls a' = cs @ [Send_shutdown (Some j), Start_shutdown (Some j)] \<and>
            path_calls b' = cs @ [Send_shutdown_ack (Some j), Start_shutdown_ack (Some j)]))) \<and>
    (numnets (a_cc a) \<noteq> 1 \<and> (\<exists>k\<in>set (pre @ post). in_service a k) \<longrightarrow> j \<in> set (pre @ post) \<and> in_service a j)"
proof (intro conjI impI)
  note T = threshold_keeps [OF t]
  show "exceeded = (ucast (max_send_times a) < overall_error_count a + (if has SCTP_ADDR_UNCONFIRMED (dest a i) then 0 else 1))"
    using T by blast
  show "\<exists>a' b'. sctp_shutdown_timer cc stk ticks i a = Some (exceeded, a') \<and> sctp_shutdownack_timer cc stk ticks i a = Some (exceeded, b') \<and>
      (if exceeded then a' = a1 \<and> b' = a1 \<and> last (path_calls a1) = Abort_association
       else unat (RTO (p_cc (dest a' i))) = min (2 * unat (timer_base a (dest a i))) (unat (maxrto a)) \<and> dest b' = dest a' \<and>
         (\<exists>cs. path_calls a' = cs @ [Send_shutdown (Some j), Start_shutdown (Some j)] \<and>
            path_calls b' = cs @ [Send_shutdown_ack (Some j), Start_shutdown_ack (Some j)]))"
  proof (cases exceeded)
    case True
    then show ?thesis using t T by (simp add: sctp_shutdown_timer_def sctp_shutdownack_timer_def)
  next
    case False
    then obtain a2 a3 where "sctp_backoff_on_timeout cc i True 0 0 a1 = Some a2" "sctp_find_alternate_net stk (Some i) 0 a2 = Some (Some j, a3)"
        "unat (RTO (p_cc (dest a3 i))) = min (2 * unat (timer_base a (dest a i))) (unat (maxrto a))"
      using retransmit_next [OF assms(1-3) _ j, of ticks cc stk] t by auto
    then show ?thesis using False t by (simp add: sctp_shutdown_timer_def sctp_shutdownack_timer_def)
  qed
  assume other: "numnets (a_cc a) \<noteq> 1 \<and> (\<exists>k\<in>set (pre @ post). in_service a k)"
  have d: "distinct (pre @ i # post)" using assms(1,2) by simp
  then have s: "in_service a1 k = in_service a k" if "k \<in> set (pre @ post)" for k
    using T that by (auto simp: in_service_def)
  then have "\<exists>k\<in>set (pre @ post). in_service a1 k" using other by blast
  from next_around_other [OF d this] show "j \<in> set (pre @ post)" "in_service a j" using j other s by auto
qed

theorem shutdown_retransmits_witness:
  "\<exists>a' cs. sctp_shutdown_timer (cc_functions demo_sysctl 0 CC_RFC2581) demo_stack 0 0 demo_multi = Some (False, a') \<and>
     unat (RTO (p_cc (dest a' 0))) = 6000 \<and> path_calls a' = cs @ [Send_shutdown (Some 1), Start_shutdown (Some 1)]"
proof -
  obtain ex a1 where t: "sctp_threshold_management 0 (Some 0) (max_send_times demo_multi) demo_multi = (ex, a1)" by fastforce
  have ok: "rto_ok 1000 demo_multi" by (rule rto_ok_cong [OF demo_assoc_ok]) (simp_all add: demo_multi_def)
  have v: "timer_base demo_multi (dest demo_multi 0) = 3000" "maxrto demo_multi = 60000" "overall_error_count demo_multi = 0"
      "max_send_times demo_multi = 10"
    by (simp_all add: timer_base_def demo_multi_def demo_assoc_def demo_path_def)
  have n: "\<not> (10 :: u32) < (if P then 0 else 1)" for P by simp
  have "in_service demo_multi 1" by (simp add: in_service_def demo_multi_simps)
  then show ?thesis
    using shutdown_retransmits [OF demo_multi_simps(1,2) ok t refl, of "cc_functions demo_sysctl 0 CC_RFC2581" demo_stack]
      demo_multi_simps(3) v n by auto
qed

end
