(* ===== verification/Spec2Isabelle.thy ===== *)
theory Spec2Isabelle
  imports Sched_Props Auth_Handle Callout Jni Mbuf_Props Sack_Props Cc_Traps Paths_Timers
begin

text \<open>
  \<^bold>\<open>A verification development for the native part of sctp4nat.\<close>

  \<^bold>\<open>The program.\<close> sctp4nat is a Java library that runs SCTP over any datagram transport. Its native part, under
  \<^verbatim>\<open>src/main/native/modified_sctp4natlibs/sctp\<close>, is the glue \<^verbatim>\<open>net_sctp4nat_Sctp.c\<close> between the Java class
  \<^verbatim>\<open>Sctp\<close> and a modified usrsctp, an SCTP stack in user space, in \<^verbatim>\<open>usrsctp/usrsctplib\<close>. A packet from Java enters
  through \<^verbatim>\<open>on_network_in\<close> and \<^verbatim>\<open>usrsctp_conninput\<close> (\<^verbatim>\<open>user_socket.c\<close>), which copies it into a chain of mbufs
  (\<^verbatim>\<open>user_mbuf.c\<close>); \<^verbatim>\<open>sctp_common_input_processing\<close> checks its CRC-32C (\<^verbatim>\<open>sctp_crc32.c\<close>) and, for AUTH chunks, its
  HMAC (\<^verbatim>\<open>sctp_auth.c\<close>, \<^verbatim>\<open>sctp_sha1.c\<close>). The TSNs of its data chunks are recorded in the mapping arrays of the association
  (\<^verbatim>\<open>sctp_indata.c\<close>), from which \<^verbatim>\<open>sctp_send_sack\<close> (\<^verbatim>\<open>sctp_output.c\<close>) makes the answer to the peer. Messages to be sent wait on their streams until a stream scheduler
  (\<^verbatim>\<open>sctp_ss_functions.c\<close>) picks one; how much may be sent to a destination is the window that congestion control
  (\<^verbatim>\<open>sctp_cc_functions.c\<close>) keeps. The verification tags and initial TSNs of new associations come from
  \<^verbatim>\<open>sctp_select_a_tag\<close> (\<^verbatim>\<open>sctputil.c\<close>, \<^verbatim>\<open>sctp_pcb.c\<close>); each destination of an association is supervised by heartbeats and
  retransmission timeouts (\<^verbatim>\<open>sctp_timer.c\<close>, \<^verbatim>\<open>sctp_calculate_rto\<close>). All queues are the TAILQ macros of \<^verbatim>\<open>user_queue.h\<close>, and all timeouts are
  callouts of \<^verbatim>\<open>sctp_callout.c\<close> that a thread drives.

  \<^bold>\<open>The build that is modelled\<close> is the userspace build on a little-endian 64-bit Linux: process-level locks, the simple
  allocator (\<^verbatim>\<open>malloc\<close> and \<^verbatim>\<open>free\<close>), no SHA-256, assertions (\<^verbatim>\<open>KASSERT\<close>) empty, the built-in SHA-1, software checksums.

  \<^bold>\<open>Conventions.\<close> A C structure is a record with the structure's field names, a pointer that may be NULL is an \<open>option\<close>, an object
  that is shared or freed lives in a store indexed by its address. A result \<open>None\<close> of an operation is undefined behaviour: a NULL or
  dangling pointer, an access outside a buffer, signed overflow, a division by zero. Theorems that an operation returns a \<open>Some\<close> are
  therefore memory safety and termination at once: loops over pointers are \<open>partial_function (option)\<close>, for which \<open>None\<close> also is
  non-termination. Only the tick handler of the timers is given fuel, because the timers it fires may do anything to its list; that enough
  fuel exists is part of its theorem. Unsigned C integers that may wrap are words. Results of allocations are arguments or
  fields of the state, so that every failure path is covered. Code outside the repository's modelled part is a
  parameter: the virtual machine and the stack for the JNI glue, the callout functions and other threads for the timers, the
  rest of the input processing for packet input.

  \<^bold>\<open>Theories, in the order of the code they model.\<close>

  \<^item> \<open>Prelude\<close>: machine integers, positions in lists, the loop that chases pointers.

  \<^item> \<open>Tailq\<close> (\<^verbatim>\<open>user_queue.h\<close>): TAILQ at pointer level, including the cells that \<^verbatim>\<open>tqe_prev\<close> and \<^verbatim>\<open>tqh_last\<close>
  point to. The locale \<open>tail_queue\<close> is the contract on lists; programs over queues refine programs over lists. Schedulers and
  timers use the queues only through the contract.

  \<^item> \<open>Stream_Sched\<close> (\<^verbatim>\<open>sctp_ss_functions.c\<close>): all six schedulers and their dispatch table. \<open>Sched_Wheel\<close>: the locale
  \<open>wheel_scheduler\<close>, interpreted for the five rows with a wheel: over every history the wheel holds exactly the streams with
  data. \<open>Sched_Select\<close>, \<open>Sched_Prio\<close>, \<open>Sched_Fair\<close>, \<open>Sched_Fcfs\<close>: which stream each selector returns. \<open>Sched_Props\<close>: the theorems.

  \<^item> \<open>Mbuf_Chain\<close>: a chain seen as the list of its data areas, for the routines that only read it. \<open>Crc32c_Tables\<close>,
  \<open>Crc32c\<close> (\<^verbatim>\<open>sctp_crc32.c\<close>): the tables, slicing by eight and the checksum of a chain equal the bit-serial CRC-32C; the
  checksum detects every error within four bytes.

  \<^item> \<open>Sha1\<close> (\<^verbatim>\<open>sctp_sha1.c\<close>): the streaming SHA-1 equals FIPS 180. \<open>Hmac\<close> (\<^verbatim>\<open>sctp_auth.c\<close>): HMAC over a
  streaming hash (locale \<open>streaming_hash\<close>, interpreted on SHA-1) equals RFC 2104, on buffers and chains.

  \<^item> \<open>Auth_Lists\<close>, \<open>Auth_Keys\<close>, \<open>Auth_Handle\<close> (\<^verbatim>\<open>sctp_auth.c\<close>): chunk lists as sets and their two encodings, HMAC
  negotiation, reference-counted shared keys, the association key, signing and verifying a packet.

  \<^item> \<open>Callout\<close> (\<^verbatim>\<open>sctp_callout.c\<close>): timers and the tick handler, with everything that may run while it has released the lock.

  \<^item> \<open>Mbuf\<close> (\<^verbatim>\<open>user_mbuf.c\<close>, \<^verbatim>\<open>user_mbuf.h\<close>): mbufs, clusters, reference counters and tags on an explicit heap.
  \<open>Mbuf_Heap\<close>: the heap invariant \<open>heap_ok\<close> (data inside buffers, counters exact, nothing allocated that no mbuf holds), chains and the
  frame of an operation. \<open>Mbuf_Ops\<close>: copying. \<open>Mbuf_Edit\<close>: joining and trimming. \<open>Mbuf_Split\<close>, \<open>Mbuf_Pullup\<close>: splitting and
  pulling up. \<open>Conn_Input\<close> (\<^verbatim>\<open>usrsctp_conninput\<close>, \<^verbatim>\<open>sctp_get_mbuf_for_msg\<close>, the checksum test): the way of a packet into the
  stack. \<open>Mbuf_Props\<close>: the theorems, with the locale \<open>guarded_store\<close> for programs of legal operations, interpreted on
  the mbuf operations.

  \<^item> \<open>Tsn_Map\<close> (\<^verbatim>\<open>sctp_indata.c\<close>, \<^verbatim>\<open>sctputil.c\<close>, \<^verbatim>\<open>sctp_constants.h\<close>): the two mapping arrays, accepting and marking a TSN, growing
  and sliding the arrays, delivery, FORWARD-TSN. \<open>Tsn_Bits\<close>: serial number arithmetic and arrays of bits. \<open>Tsn_Rep\<close>, \<open>Tsn_Ops\<close>: the
  relation \<open>rep\<close> between the arrays and the set of received TSNs, and that every operation keeps it. \<open>Tsn_Props\<close>: the specification
  \<open>tsn_spec\<close> and the locale \<open>forward_simulation\<close>, interpreted on the events of an association; traces of the code alone. \<open>Sack_Gaps\<close> (\<^verbatim>\<open>sctp_output.c\<close>): the
  table of runs and the loops of \<^verbatim>\<open>sctp_send_sack\<close>. \<open>Sack_Runs\<close>: they find the maximal runs of a bit sequence. \<open>Sack_Props\<close>: what
  SACK and NR-SACK chunks tell the peer.

  \<^item> \<open>Cc\<close>, \<open>Cc_Rtcc\<close>, \<open>Cc_Rfc\<close>, \<open>Cc_Hs\<close>, \<open>Cc_Htcp\<close>, \<open>Cc_Table\<close> (\<^verbatim>\<open>sctp_cc_functions.c\<close>): the four congestion control modules with every
  variant of multipath transfer, their dispatch table and histories of events. \<open>Cc_Window\<close>, \<open>Cc_Rows\<close>, \<open>Cc_Modules\<close>: each routine keeps the
  bounds of the window. \<open>Cc_History\<close>: the locales \<open>window_module\<close> (contract of a row) and \<open>total_module\<close> (a row that does not trap), interpreted
  for the rows. \<open>Cc_Props\<close>, \<open>Cc_Rfc_Props\<close>, \<open>Cc_Traps\<close>: the bounds over histories, the windows beside the rules of RFC 4960, and the inputs
  that divide by zero.

  \<^item> \<open>Vtag\<close> (\<^verbatim>\<open>sctputil.c\<close>, \<^verbatim>\<open>sctp_pcb.c\<close>): the generator of random words with its store of digest bytes, the hash table of tags that wait
  before they may be used again, and the choice of a tag. \<open>Vtag_Props\<close>, \<open>Vtag_Choice\<close>: the table as a timed set, with the locale
  \<open>holding_store\<close> for anything that holds keys until a time, interpreted on the table; the tag that is chosen.

  \<^item> \<open>Rto\<close> (\<^verbatim>\<open>sctputil.c\<close>): the retransmission timeout with the integer arithmetic of the code, backing off, the table of MTUs.
  \<open>Rto_Props\<close>: the locale \<open>keeps_timer\<close> for congestion modules that leave the timeout's variables alone, interpreted for three rows of the
  dispatch table; the timeout beside the rules of RFC 4960 in exact arithmetic. \<open>Paths\<close> (\<^verbatim>\<open>sctp_timer.c\<close>, \<^verbatim>\<open>sctp_input.c\<close>, \<^verbatim>\<open>sctp_pcb.c\<close>): error thresholds, the
  choice of an alternate destination, the heartbeat and shutdown timers, HEARTBEAT-ACK. \<open>Paths_Props\<close>, \<open>Paths_Alt\<close>, \<open>Paths_Timers\<close>: when a
  destination fails and when it comes back, which destination replaces it, and what a retransmitted SHUTDOWN does.

  \<^item> \<open>Jni\<close> (\<^verbatim>\<open>net_sctp4nat_Sctp.c\<close>): every native method and callback, with the virtual machine and the stack as an environment that
  answers events.

  \<^bold>\<open>What the theorems show.\<close> Refinement of abstract data types by pointer structures (queues, chunk lists, keys,
  mapping arrays, waiting tags); invariants over
  every history of calls (wheels, keys, timers, handles, mbuf chains, congestion windows, timeouts); equality of optimised code with reference
  definitions (CRC, SHA-1, HMAC); round trips (chunk lists, sign and verify, split and join, messages through the glue); exact
  conditions for errors and for the inputs on which the code goes wrong (a selector that never returns, zeroing a digest across mbufs, replacing a held key, a
  missing receive key, SACKs when the TSNs wrap around, divisions by zero in congestion control, round trip times that
  overflow); progress (a silent destination fails after its number of timeouts, a search for a tag ends). Where the code has a defect the theorem states the behaviour
  of the code as it is, and where the code departs from its comments or from RFC 4960 (order of priorities, thresholds after a fast retransmit, clock granularity) the
  theorem says how far.

  \<^bold>\<open>Bounds.\<close> Lengths of mbuf chains are natural numbers; the statements that depend on \<^verbatim>\<open>int\<close> arithmetic assume less than
  \<open>2 ^ 31\<close> bytes, and SHA-1 assumes less than \<open>2 ^ 29\<close>, where its 32-bit counter is exact. TSNs are
  numbered by integers without bound; histories assume that chunks are within half the range of serial numbers of the cumulative
  TSN, and that neither recorded highest TSN is more than \<open>2 ^ 30\<close> behind the base of the arrays. The bounds of congestion windows assume
  MTUs from 512 to 65535 bytes (19456 for HS-TCP), at most \<open>2 ^ 30\<close> bytes in flight or acknowledged at once and a configured limit of
  at most \<open>2 ^ 31\<close>; the adjustments of windows for revoked chunks in \<^verbatim>\<open>sctp_indata.c\<close> are outside the histories.
  Histories of timeouts assume round trip times below \<open>2 ^ 28\<close> milliseconds, a largest timeout below \<open>2 ^ 31\<close>, and a module other than
  H-TCP.

  \<^bold>\<open>Not modelled.\<close> The association state machine and the other chunk handlers act on one large association record and call each other
  throughout: \<^verbatim>\<open>sctp_input.c\<close> beyond the checksum test and HEARTBEAT-ACK, \<^verbatim>\<open>sctp_output.c\<close> beyond the gap blocks, reassembly and incoming
  SACKs in \<^verbatim>\<open>sctp_indata.c\<close>, \<^verbatim>\<open>sctp_pcb.c\<close> beyond tags and the search for a destination, and \<^verbatim>\<open>sctp_asconf.c\<close>. Of \<^verbatim>\<open>sctp_timer.c\<close> the
  T3 timer, which marks chunks for retransmission, and the INIT, COOKIE, stream reset, ASCONF, path MTU and autoclose timers are left out. Operating-system
  services (receive threads, interfaces, sockets), platform headers, statistics counters, logging and locks are left out; one step
  of a model is one critical section. The example programs and the Java classes are outside the native library.
\<close>

end
